(* ===== verification/Uproto_Prelude.thy ===== *)
theory Uproto_Prelude
  imports Main "HOL-Library.Word" "HOL-Library.Monad_Syntax"
begin

unbundle bit_operations_syntax

text \<open>
  Shared vocabulary of the development: the machine types of the Rust sources, the
  operations of the language that can panic, and the generic list, option and word facts
  that the component theories use.

  Conventions.
  \<^item> A computation that may panic has type \<open>'a run\<close>: \<open>None\<close> is the panic, \<open>Some v\<close>
    a normal return of \<open>v\<close>. Rust's own \<open>Option\<close> is \<open>option\<close> again (inside a \<open>run\<close> where
    both occur), and \<open>Result<A, E>\<close> is the sum \<open>'e + 'a\<close> with \<open>Inl\<close> for \<open>Err\<close>.
  \<^item> \<open>u8\<close>, \<open>u16\<close>, \<open>u32\<close>, \<open>u64\<close> are words wherever bits or wrap-around matter. \<open>usize\<close>
    is \<open>nat\<close> with the 64-bit bound written out: \<open>uadd\<close>, \<open>usub\<close> and \<open>umul\<close> panic where the
    checked build panics, \<open>wrap_add\<close> and \<open>wrap_sub\<close> are the atomics' \<open>fetch_add\<close> and
    \<open>fetch_sub\<close>, which wrap. An index that is already known to lie inside an allocation is
    advanced with plain \<open>+ 1\<close>: allocations are at most \<open>isize::MAX\<close> bytes.
\<close>

named_theorems rust_ops \<open>definitions of the panicking operations of the language\<close>
named_theorems rust_facts \<open>rewrite rules that discharge the operations inside their domain\<close>

subsection \<open>Machine types\<close>

type_synonym u8 = "8 word"
type_synonym u16 = "16 word"
type_synonym u32 = "32 word"
type_synonym u64 = "64 word"
type_synonym bytes = "u8 list"
type_synonym 'a run = "'a option"

abbreviation usize_bound :: nat where
  "usize_bound \<equiv> 2 ^ 64"

subsection \<open>Operations that can panic\<close>

definition uadd :: "nat \<Rightarrow> nat \<Rightarrow> nat run" where
  [rust_ops]: "uadd a b = (if a + b < usize_bound then Some (a + b) else None)"

definition usub :: "nat \<Rightarrow> nat \<Rightarrow> nat run" where
  [rust_ops]: "usub a b = (if b \<le> a then Some (a - b) else None)"

definition umul :: "nat \<Rightarrow> nat \<Rightarrow> nat run" where
  [rust_ops]: "umul a b = (if a * b < usize_bound then Some (a * b) else None)"

definition udiv :: "nat \<Rightarrow> nat \<Rightarrow> nat run" where
  [rust_ops]: "udiv a b = (if b = 0 then None else Some (a div b))"

definition umod :: "nat \<Rightarrow> nat \<Rightarrow> nat run" where
  [rust_ops]: "umod a b = (if b = 0 then None else Some (a mod b))"

definition idx :: "'a list \<Rightarrow> nat \<Rightarrow> 'a run" where
  [rust_ops]: "idx xs i = (if i < length xs then Some (xs ! i) else None)"

definition idx_set :: "'a list \<Rightarrow> nat \<Rightarrow> 'a \<Rightarrow> 'a list run" where
  [rust_ops]: "idx_set xs i v = (if i < length xs then Some (xs[i := v]) else None)"

definition sub_slice :: "'a list \<Rightarrow> nat \<Rightarrow> nat \<Rightarrow> 'a list run" where
  [rust_ops]: "sub_slice xs a b =
    (if a \<le> b \<and> b \<le> length xs then Some (take (b - a) (drop a xs)) else None)"

definition unwrap :: "'a option \<Rightarrow> 'a run" where
  [rust_ops]: "unwrap x = x"

definition wrap_add :: "nat \<Rightarrow> nat \<Rightarrow> nat" where
  "wrap_add a b = (a + b) mod usize_bound"

definition wrap_sub :: "nat \<Rightarrow> nat \<Rightarrow> nat" where
  "wrap_sub a b = (a + (usize_bound - b mod usize_bound)) mod usize_bound"

text \<open>
  Where the two build profiles of Rust differ on an overflowing addition and the difference
  matters, the profile is an argument: the checked build panics, the release build wraps.
\<close>

datatype profile = CheckedBuild | ReleaseBuild

definition profile_add :: "profile \<Rightarrow> nat \<Rightarrow> nat \<Rightarrow> nat run" where
  "profile_add p a b = (case p of CheckedBuild \<Rightarrow> uadd a b | ReleaseBuild \<Rightarrow> Some (wrap_add a b))"

definition profile_sub :: "profile \<Rightarrow> nat \<Rightarrow> nat \<Rightarrow> nat run" where
  "profile_sub p a b = (case p of CheckedBuild \<Rightarrow> usub a b | ReleaseBuild \<Rightarrow> Some (wrap_sub a b))"

lemma profile_add_ok [rust_facts]: "a + b < usize_bound \<Longrightarrow> profile_add p a b = Some (a + b)"
  by (cases p) (simp_all add: profile_add_def uadd_def wrap_add_def)

text \<open>\<open>a.copy_from_slice(b)\<close> on the first \<open>length b\<close> cells of a longer array.\<close>

definition overwrite_prefix :: "'a list \<Rightarrow> 'a list \<Rightarrow> 'a list" where
  "overwrite_prefix dst src = src @ drop (length src) dst"

declare Let_def [rust_facts]

lemma uadd_ok [rust_facts]: "a + b < usize_bound \<Longrightarrow> uadd a b = Some (a + b)"
  by (simp add: uadd_def)

lemma usub_ok [rust_facts]: "b \<le> a \<Longrightarrow> usub a b = Some (a - b)"
  by (simp add: usub_def)

lemma umul_ok [rust_facts]: "a * b < usize_bound \<Longrightarrow> umul a b = Some (a * b)"
  by (simp add: umul_def)

lemma umod_ok [rust_facts]: "0 < b \<Longrightarrow> umod a b = Some (a mod b)"
  by (simp add: umod_def)

lemma udiv_ok [rust_facts]: "0 < b \<Longrightarrow> udiv a b = Some (a div b)"
  by (simp add: udiv_def)

lemma idx_ok [rust_facts]: "i < length xs \<Longrightarrow> idx xs i = Some (xs ! i)"
  by (simp add: idx_def)

lemma idx_set_ok [rust_facts]: "i < length xs \<Longrightarrow> idx_set xs i v = Some (xs[i := v])"
  by (simp add: idx_set_def)

lemma sub_slice_ok [rust_facts]:
  "a \<le> b \<Longrightarrow> b \<le> length xs \<Longrightarrow> sub_slice xs a b = Some (take (b - a) (drop a xs))"
  by (simp add: sub_slice_def)

lemma wrap_add_small [rust_facts]: "a + b < usize_bound \<Longrightarrow> wrap_add a b = a + b"
  by (simp add: wrap_add_def)

lemma wrap_sub_small [rust_facts]:
  assumes "b \<le> a" "a < usize_bound"
  shows "wrap_sub a b = a - b"
proof -
  have "b mod usize_bound = b" using assms by simp
  moreover have "a + (usize_bound - b) = a - b + usize_bound" using assms by linarith
  moreover have "(a - b + usize_bound) mod usize_bound = a - b"
    using assms by (subst mod_add_self2) (simp only: mod_less less_imp_diff_less)
  ultimately show ?thesis unfolding wrap_sub_def by metis
qed

lemma profile_sub_ok [rust_facts]:
  "b \<le> a \<Longrightarrow> a < usize_bound \<Longrightarrow> profile_sub p a b = Some (a - b)"
  by (cases p) (simp_all only: profile_sub_def profile.case usub_ok wrap_sub_small)

text \<open>Atomic counters keep counting modulo the word size.\<close>

lemma wrap_add_mod: "wrap_add (k mod usize_bound) 1 = Suc k mod usize_bound"
  by (simp add: wrap_add_def mod_Suc_eq)

lemma wrap_sub_mod: "wrap_sub (Suc k mod usize_bound) 1 = k mod usize_bound"
proof -
  have one: "(1::nat) mod usize_bound = 1" by simp
  have "wrap_sub (Suc k mod usize_bound) 1 = (Suc k mod usize_bound + (usize_bound - 1)) mod usize_bound"
    unfolding wrap_sub_def one ..
  also have "\<dots> = (Suc k + (usize_bound - 1)) mod usize_bound" by (rule mod_add_left_eq)
  also have "Suc k + (usize_bound - 1) = k + usize_bound" by simp
  also have "(k + usize_bound) mod usize_bound = k mod usize_bound" by (rule mod_add_self2)
  finally show ?thesis .
qed

lemma length_overwrite_prefix [simp]:
  "length src \<le> length dst \<Longrightarrow> length (overwrite_prefix dst src) = length dst"
  by (simp add: overwrite_prefix_def)

lemma take_overwrite_prefix [simp]:
  "length src = n \<Longrightarrow> take n (overwrite_prefix dst src) = src"
  by (simp add: overwrite_prefix_def)

lemma unat_of_nat_small:
  "n < 2 ^ LENGTH('a::len) \<Longrightarrow> unat (of_nat n :: 'a word) = n"
  by (simp add: unat_of_nat take_bit_nat_eq_self)

subsection \<open>Strings in messages\<close>

text \<open>The bytes of an ASCII literal, and the decimal digits of a number.\<close>

definition ascii :: "string \<Rightarrow> bytes" where
  "ascii s = map (\<lambda>ch. of_nat (of_char ch)) s"

fun string_of_nat :: "nat \<Rightarrow> string" where
  "string_of_nat n =
     (if n < 10 then [char_of (48 + n)] else string_of_nat (n div 10) @ [char_of (48 + n mod 10)])"

declare string_of_nat.simps [simp del]

subsection \<open>Circular indices\<close>

text \<open>
  The window of \<open>k\<close> cells of \<open>buf\<close> that starts at \<open>t\<close> and wraps at the end: the contents
  of every ring buffer of the sources.
\<close>

definition window :: "'a list \<Rightarrow> nat \<Rightarrow> nat \<Rightarrow> 'a list" where
  "window buf t k = map (\<lambda>i. buf ! ((t + i) mod length buf)) [0..<k]"

lemma length_window [simp]: "length (window buf t k) = k"
  by (simp add: window_def)

lemma window_0 [simp]: "window buf t 0 = []"
  by (simp add: window_def)

lemma nth_window [simp]: "i < k \<Longrightarrow> window buf t k ! i = buf ! ((t + i) mod length buf)"
  by (simp add: window_def)

lemma window_Suc: "window buf t (Suc k) = window buf t k @ [buf ! ((t + k) mod length buf)]"
  by (simp add: window_def)

lemma window_Cons:
  "window buf t (Suc k) = buf ! (t mod length buf) # window buf (Suc t mod length buf) k"
proof -
  have "(Suc t mod length buf + i) mod length buf = (t + Suc i) mod length buf" for i
    by (simp add: mod_add_left_eq flip: add_Suc_right)
  then show ?thesis
    by (intro nth_equalityI) (auto simp: nth_Cons split: nat.split)
qed

lemma mod_add_inj:
  fixes i j n :: nat
  assumes "i < n" "j < n" "(t + i) mod n = (t + j) mod n"
  shows "i = j"
proof (rule ccontr)
  assume "i \<noteq> j"
  then consider "i < j" | "j < i" by linarith
  then show False
  proof cases
    case 1
    then have "n dvd (t + j) - (t + i)"
      using assms(3) by (metis add_le_cancel_left less_imp_le mod_eq_dvd_iff_nat)
    then show False using 1 assms(2) by (auto dest: dvd_imp_le)
  next
    case 2
    then have "n dvd (t + i) - (t + j)"
      using assms(3) by (metis add_le_cancel_left less_imp_le mod_eq_dvd_iff_nat)
    then show False using 2 assms(1) by (auto dest: dvd_imp_le)
  qed
qed

lemma window_update_outside:
  assumes "k \<le> j" "j < length buf"
  shows "window (buf[(t + j) mod length buf := x]) t k = window buf t k"
proof (rule nth_equalityI)
  fix i assume "i < length (window (buf[(t + j) mod length buf := x]) t k)"
  then have i: "i < k" by simp
  then have "(t + i) mod length buf \<noteq> (t + j) mod length buf"
    using assms mod_add_inj[of i "length buf" j t] by auto
  then show "window (buf[(t + j) mod length buf := x]) t k ! i = window buf t k ! i"
    using i by simp
qed simp

text \<open>Storing behind the window and growing it by one appends the stored value.\<close>

lemma window_push:
  assumes "k < length buf"
  shows "window (buf[(t + k) mod length buf := x]) t (Suc k) = window buf t k @ [x]"
proof -
  have "(t + k) mod length buf < length buf" using assms by (intro mod_less_divisor) linarith
  then show ?thesis using assms by (simp add: window_Suc window_update_outside)
qed

text \<open>The distance from \<open>r\<close> forward to \<open>w\<close> on a ring of \<open>n\<close> cells.\<close>

definition ring_dist :: "nat \<Rightarrow> nat \<Rightarrow> nat \<Rightarrow> nat" where
  "ring_dist n r w = (if r \<le> w then w - r else n - r + w)"

lemma ring_dist_less: "r < n \<Longrightarrow> w < n \<Longrightarrow> ring_dist n r w < n"
  by (auto simp: ring_dist_def)

lemma ring_dist_target: "r < n \<Longrightarrow> w < n \<Longrightarrow> (r + ring_dist n r w) mod n = w"
  by (auto simp: ring_dist_def)

lemma ring_dist_unique:
  assumes "r < n" "k < n"
  shows "ring_dist n r ((r + k) mod n) = k"
proof (cases "r + k < n")
  case True
  then show ?thesis by (simp add: ring_dist_def)
next
  case False
  then have "(r + k) mod n = r + k - n" using assms by (simp add: mod_if)
  then show ?thesis using assms False by (auto simp: ring_dist_def)
qed

end
