(* ===== verification/Fifo_Interface.thy ===== *)
theory Fifo_Interface
  imports Uproto_Prelude
begin

text \<open>
  The contract of a bounded first-in first-out queue, stated once and provided by every
  queue of the sources that rejects when full: the CAN ring buffer and the WebSocket ring
  buffer. The specification is a list of at most \<open>cap\<close> elements; a client that issues a
  sequence of pushes and pops sees exactly the answers the list gives.
\<close>

subsection \<open>Specification: a bounded list\<close>

datatype 'a fifo_op = Push 'a | Pop

datatype 'a fifo_ev = Accepted 'a | Rejected 'a | Popped 'a | Drained

fun fifo_spec :: "nat \<Rightarrow> 'a list \<Rightarrow> 'a fifo_op \<Rightarrow> 'a list \<times> 'a fifo_ev" where
  "fifo_spec cap xs (Push x) =
     (if length xs < cap then (xs @ [x], Accepted x) else (xs, Rejected x))"
| "fifo_spec cap [] Pop = ([], Drained)"
| "fifo_spec cap (x # xs) Pop = (xs, Popped x)"

fun fifo_spec_run :: "nat \<Rightarrow> 'a list \<Rightarrow> 'a fifo_op list \<Rightarrow> 'a list \<times> 'a fifo_ev list" where
  "fifo_spec_run cap xs [] = (xs, [])"
| "fifo_spec_run cap xs (a # as) =
     (let (ys, e) = fifo_spec cap xs a; (zs, es) = fifo_spec_run cap ys as in (zs, e # es))"

fun accepted :: "'a fifo_ev list \<Rightarrow> 'a list" where
  "accepted [] = []"
| "accepted (Accepted x # es) = x # accepted es"
| "accepted (_ # es) = accepted es"

fun popped :: "'a fifo_ev list \<Rightarrow> 'a list" where
  "popped [] = []"
| "popped (Popped x # es) = x # popped es"
| "popped (_ # es) = popped es"

lemma fifo_spec_step_order:
  "fifo_spec cap xs a = (ys, e) \<Longrightarrow> xs @ accepted [e] = popped [e] @ ys"
  by (cases "(cap, xs, a)" rule: fifo_spec.cases) (auto split: if_splits)

lemma accepted_Cons: "accepted (e # es) = accepted [e] @ accepted es"
  by (cases e) auto

lemma popped_Cons: "popped (e # es) = popped [e] @ popped es"
  by (cases e) auto

text \<open>Nothing is lost, duplicated or reordered: what went in is what came out, then the rest.\<close>

lemma fifo_spec_run_order:
  "fifo_spec_run cap xs as = (ys, es) \<Longrightarrow> xs @ accepted es = popped es @ ys"
proof (induction as arbitrary: xs ys es)
  case Nil
  then show ?case by simp
next
  case (Cons a as)
  obtain xs1 e where s: "fifo_spec cap xs a = (xs1, e)" by fastforce
  obtain zs es' where r: "fifo_spec_run cap xs1 as = (zs, es')" by fastforce
  from Cons.prems s r have eq: "ys = zs" "es = e # es'" by (auto simp: Let_def)
  have "xs @ accepted es = (xs @ accepted [e]) @ accepted es'"
    using eq by (simp add: accepted_Cons[of e es'])
  also have "\<dots> = popped [e] @ (xs1 @ accepted es')"
    using fifo_spec_step_order[OF s] by simp
  also have "\<dots> = popped es @ ys"
    using Cons.IH[OF r] eq by (simp add: popped_Cons[of e es'])
  finally show ?case .
qed

lemma fifo_spec_bound: "length xs \<le> cap \<Longrightarrow> length (fst (fifo_spec cap xs a)) \<le> cap"
  by (cases "(cap, xs, a)" rule: fifo_spec.cases) auto

subsection \<open>Clients of an implementation\<close>

definition fifo_step ::
  "('q \<Rightarrow> 'a \<Rightarrow> ('q \<times> ('a + unit)) run) \<Rightarrow> ('q \<Rightarrow> ('q \<times> 'a option) run) \<Rightarrow>
   'q \<Rightarrow> 'a fifo_op \<Rightarrow> ('q \<times> 'a fifo_ev) run" where
  "fifo_step push pop q a =
     (case a of
        Push x \<Rightarrow> do { (q', r) \<leftarrow> push q x;
                       Some (q', case r of Inl y \<Rightarrow> Rejected y | Inr _ \<Rightarrow> Accepted x) }
      | Pop \<Rightarrow> do { (q', r) \<leftarrow> pop q;
                     Some (q', case r of None \<Rightarrow> Drained | Some x \<Rightarrow> Popped x) })"

fun fifo_run ::
  "('q \<Rightarrow> 'a \<Rightarrow> ('q \<times> ('a + unit)) run) \<Rightarrow> ('q \<Rightarrow> ('q \<times> 'a option) run) \<Rightarrow>
   'q \<Rightarrow> 'a fifo_op list \<Rightarrow> ('q \<times> 'a fifo_ev list) run" where
  "fifo_run push pop q [] = Some (q, [])"
| "fifo_run push pop q (a # as) =
     do { (q1, e) \<leftarrow> fifo_step push pop q a;
          (q2, es) \<leftarrow> fifo_run push pop q1 as;
          Some (q2, e # es) }"

subsection \<open>The interface\<close>

locale bounded_fifo =
  fixes push :: "'q \<Rightarrow> 'a \<Rightarrow> ('q \<times> ('a + unit)) run"
    and pop :: "'q \<Rightarrow> ('q \<times> 'a option) run"
    and contents :: "'q \<Rightarrow> 'a list"
    and cap :: "'q \<Rightarrow> nat"
    and invar :: "'q \<Rightarrow> bool"
  assumes push_ok: "invar q \<Longrightarrow> length (contents q) < cap q \<Longrightarrow>
      \<exists>q'. push q x = Some (q', Inr ()) \<and> contents q' = contents q @ [x] \<and>
           cap q' = cap q \<and> invar q'"
    and push_full: "invar q \<Longrightarrow> \<not> length (contents q) < cap q \<Longrightarrow> push q x = Some (q, Inl x)"
    and pop_ok: "invar q \<Longrightarrow> contents q = x # xs \<Longrightarrow>
      \<exists>q'. pop q = Some (q', Some x) \<and> contents q' = xs \<and> cap q' = cap q \<and> invar q'"
    and pop_empty: "invar q \<Longrightarrow> contents q = [] \<Longrightarrow> pop q = Some (q, None)"
    and contents_bound: "invar q \<Longrightarrow> length (contents q) \<le> cap q"
begin

lemma step_refines:
  assumes "invar q"
  shows "\<exists>q'. fifo_step push pop q a = Some (q', snd (fifo_spec (cap q) (contents q) a)) \<and>
           contents q' = fst (fifo_spec (cap q) (contents q) a) \<and> cap q' = cap q \<and> invar q'"
proof (cases a)
  case (Push x)
  show ?thesis
  proof (cases "length (contents q) < cap q")
    case True
    with push_ok[OF assms True, of x] Push show ?thesis by (auto simp: fifo_step_def)
  next
    case False
    with push_full[OF assms False, of x] Push assms show ?thesis by (auto simp: fifo_step_def)
  qed
next
  case Pop
  show ?thesis
  proof (cases "contents q")
    case Nil
    with pop_empty[OF assms Nil] Pop assms show ?thesis by (auto simp: fifo_step_def)
  next
    case (Cons x xs)
    with pop_ok[OF assms Cons] Pop show ?thesis by (auto simp: fifo_step_def)
  qed
qed

lemma run_refines:
  "invar q \<Longrightarrow>
   \<exists>q'. fifo_run push pop q as = Some (q', snd (fifo_spec_run (cap q) (contents q) as)) \<and>
     contents q' = fst (fifo_spec_run (cap q) (contents q) as) \<and> cap q' = cap q \<and> invar q'"
proof (induction as arbitrary: q)
  case Nil
  then show ?case by simp
next
  case (Cons a as)
  obtain q1 where q1: "fifo_step push pop q a = Some (q1, snd (fifo_spec (cap q) (contents q) a))"
      "contents q1 = fst (fifo_spec (cap q) (contents q) a)" "cap q1 = cap q" "invar q1"
    using step_refines[OF Cons.prems] by blast
  obtain q2 where q2: "fifo_run push pop q1 as =
        Some (q2, snd (fifo_spec_run (cap q1) (contents q1) as))"
      "contents q2 = fst (fifo_spec_run (cap q1) (contents q1) as)" "cap q2 = cap q1" "invar q2"
    using Cons.IH[OF q1(4)] by blast
  from q1 q2 show ?case by (auto simp: case_prod_unfold Let_def)
qed

text \<open>The order of the elements survives every sequence of calls.\<close>

lemma run_order:
  assumes "invar q" "fifo_run push pop q as = Some (q', es)"
  shows "contents q @ accepted es = popped es @ contents q'"
proof -
  obtain zs fs where s: "fifo_spec_run (cap q) (contents q) as = (zs, fs)" by fastforce
  with run_refines[OF assms(1), of as] assms(2) have "es = fs" "contents q' = zs" by auto
  with fifo_spec_run_order[OF s] show ?thesis by simp
qed

end

subsection \<open>Unbounded queues\<close>

text \<open>
  A queue that never refuses. The abstraction is a relation, so that a provider may keep its
  elements in a heap. \<open>None\<close> is a dereference outside the heap or a loop that never returns.
\<close>

fun enqueue_list :: "('q \<Rightarrow> 'a \<Rightarrow> 'q option) \<Rightarrow> 'q \<Rightarrow> 'a list \<Rightarrow> 'q option" where
  "enqueue_list enqueue q [] = Some q"
| "enqueue_list enqueue q (x # xs) = do { q' \<leftarrow> enqueue q x; enqueue_list enqueue q' xs }"

fun dequeue_times :: "('q \<Rightarrow> ('q \<times> 'a option) option) \<Rightarrow> nat \<Rightarrow> 'q \<Rightarrow> ('q \<times> 'a option list) option" where
  "dequeue_times dequeue 0 q = Some (q, [])"
| "dequeue_times dequeue (Suc n) q =
     do { (q1, r) \<leftarrow> dequeue q; (q2, rs) \<leftarrow> dequeue_times dequeue n q1; Some (q2, r # rs) }"

locale unbounded_fifo =
  fixes enqueue :: "'q \<Rightarrow> 'a \<Rightarrow> 'q option"
    and dequeue :: "'q \<Rightarrow> ('q \<times> 'a option) option"
    and rep :: "'q \<Rightarrow> 'a list \<Rightarrow> bool"
  assumes enqueue_rep: "rep q xs \<Longrightarrow> \<exists>q'. enqueue q x = Some q' \<and> rep q' (xs @ [x])"
    and dequeue_empty: "rep q [] \<Longrightarrow> dequeue q = Some (q, None)"
    and dequeue_cons: "rep q (x # xs) \<Longrightarrow> \<exists>q'. dequeue q = Some (q', Some x) \<and> rep q' xs"
begin

lemma enqueue_list_rep:
  "rep q xs \<Longrightarrow> \<exists>q'. enqueue_list enqueue q ys = Some q' \<and> rep q' (xs @ ys)"
proof (induction ys arbitrary: q xs)
  case Nil
  then show ?case by simp
next
  case (Cons y ys)
  obtain q1 where q1: "enqueue q y = Some q1" "rep q1 (xs @ [y])"
    using enqueue_rep[OF Cons.prems] by blast
  then show ?case using Cons.IH[OF q1(2)] by simp
qed

lemma dequeue_times_rep:
  "rep q (xs @ ys) \<Longrightarrow>
   \<exists>q'. dequeue_times dequeue (length xs) q = Some (q', map Some xs) \<and> rep q' ys"
proof (induction xs arbitrary: q)
  case Nil
  then show ?case by simp
next
  case (Cons x xs)
  obtain q1 where q1: "dequeue q = Some (q1, Some x)" "rep q1 (xs @ ys)"
    using dequeue_cons Cons.prems by fastforce
  then show ?case using Cons.IH[OF q1(2)] by fastforce
qed

end

end
