(* ===== verification/Can_Ring_Buffer.thy ===== *)
theory Can_Ring_Buffer
  imports Fifo_Interface
begin

text \<open>
  \<^verbatim>\<open>CAN/src/17/CAN_Ring_Buffer.rs\<close>: the generic ring buffer, the CAN buffer manager with
  its overflow counters, the interrupt handlers, the message builder and the diagnostics.
  Operations take the receiver and return it updated. The atomics of a sequential call are
  plain fields; the interleaving of one producer and one consumer is the subject of
  \<open>Can_Ring_Concurrent\<close>.
\<close>

subsection \<open>Messages\<close>

record can_message =
  cm_id :: u32
  cm_dlc :: u8
  cm_data :: bytes
  cm_timestamp :: u32
  cm_is_extended :: bool
  cm_is_rtr :: bool

definition can_message_default :: can_message where
  "can_message_default =
     \<lparr>cm_id = 0, cm_dlc = 0, cm_data = replicate 8 0, cm_timestamp = 0,
      cm_is_extended = False, cm_is_rtr = False\<rparr>"

subsection \<open>The ring buffer\<close>

record 'a ring_buffer =
  rb_buffer :: "'a list"
  rb_head :: nat
  rb_tail :: nat
  rb_count :: nat

definition rb_new :: "'a \<Rightarrow> nat \<Rightarrow> 'a ring_buffer" where
  "rb_new dflt n = \<lparr>rb_buffer = replicate n dflt, rb_head = 0, rb_tail = 0, rb_count = 0\<rparr>"

definition rb_capacity :: "'a ring_buffer \<Rightarrow> nat" where
  "rb_capacity rb = length (rb_buffer rb)"

definition rb_is_empty :: "'a ring_buffer \<Rightarrow> bool" where
  "rb_is_empty rb \<longleftrightarrow> rb_count rb = 0"

definition rb_is_full :: "'a ring_buffer \<Rightarrow> bool" where
  "rb_is_full rb \<longleftrightarrow> rb_count rb \<ge> rb_capacity rb"

definition rb_len :: "'a ring_buffer \<Rightarrow> nat" where
  "rb_len rb = rb_count rb"

definition rb_push :: "'a ring_buffer \<Rightarrow> 'a \<Rightarrow> ('a ring_buffer \<times> ('a + unit)) run" where
  "rb_push rb item =
     (if rb_is_full rb then Some (rb, Inl item)
      else do {
        let head = rb_head rb;
        buffer \<leftarrow> idx_set (rb_buffer rb) head item;
        next_head \<leftarrow> umod (head + 1) (rb_capacity rb);
        Some (rb\<lparr>rb_buffer := buffer, rb_head := next_head,
                 rb_count := wrap_add (rb_count rb) 1\<rparr>, Inr ())
      })"

definition rb_pop :: "'a ring_buffer \<Rightarrow> ('a ring_buffer \<times> 'a option) run" where
  "rb_pop rb =
     (if rb_is_empty rb then Some (rb, None)
      else do {
        let tail = rb_tail rb;
        item \<leftarrow> idx (rb_buffer rb) tail;
        next_tail \<leftarrow> umod (tail + 1) (rb_capacity rb);
        Some (rb\<lparr>rb_tail := next_tail, rb_count := wrap_sub (rb_count rb) 1\<rparr>, Some item)
      })"

definition rb_peek :: "'a ring_buffer \<Rightarrow> 'a option run" where
  "rb_peek rb =
     (if rb_is_empty rb then Some None
      else do { item \<leftarrow> idx (rb_buffer rb) (rb_tail rb); Some (Some item) })"

definition rb_available :: "'a ring_buffer \<Rightarrow> nat run" where
  "rb_available rb = usub (rb_capacity rb) (rb_len rb)"

definition rb_clear :: "'a ring_buffer \<Rightarrow> 'a ring_buffer" where
  "rb_clear rb = rb\<lparr>rb_head := 0, rb_tail := 0, rb_count := 0\<rparr>"

definition rb_utilization :: "'a ring_buffer \<Rightarrow> u8 run" where
  "rb_utilization rb =
     do { p \<leftarrow> umul (rb_len rb) 100; q \<leftarrow> udiv p (rb_capacity rb); Some (of_nat q) }"

subsection \<open>Invariant and refinement of the ring buffer\<close>

text \<open>
  Well-formed states: the indices lie inside the array, the count is at most the capacity
  and the head is \<open>count\<close> cells after the tail. The array is a Rust allocation, hence
  shorter than the \<open>usize\<close> range.
\<close>

definition rb_invar :: "'a ring_buffer \<Rightarrow> bool" where
  "rb_invar rb \<longleftrightarrow>
     rb_count rb \<le> rb_capacity rb \<and> rb_capacity rb < usize_bound \<and>
     (rb_capacity rb = 0 \<or> rb_tail rb < rb_capacity rb) \<and>
     (rb_capacity rb = 0 \<or> rb_head rb = (rb_tail rb + rb_count rb) mod rb_capacity rb)"

definition rb_contents :: "'a ring_buffer \<Rightarrow> 'a list" where
  "rb_contents rb = window (rb_buffer rb) (rb_tail rb) (rb_count rb)"

lemma length_rb_contents [simp]: "length (rb_contents rb) = rb_count rb"
  by (simp add: rb_contents_def)

lemma rb_new_invar: "n < usize_bound \<Longrightarrow> rb_invar (rb_new d n)"
  by (auto simp: rb_invar_def rb_new_def rb_capacity_def)

lemma rb_new_contents [simp]: "rb_contents (rb_new d n) = []"
  by (simp add: rb_contents_def rb_new_def)

lemma rb_new_capacity [simp]: "rb_capacity (rb_new d n) = n"
  by (simp add: rb_new_def rb_capacity_def)

lemma rb_clear_facts:
  assumes "rb_invar rb"
  shows "rb_invar (rb_clear rb)" "rb_contents (rb_clear rb) = []"
    "rb_capacity (rb_clear rb) = rb_capacity rb"
  using assms by (auto simp: rb_invar_def rb_clear_def rb_capacity_def rb_contents_def)

lemma rb_push_accepts:
  assumes inv: "rb_invar rb" and room: "rb_count rb < rb_capacity rb"
  shows "\<exists>rb'. rb_push rb x = Some (rb', Inr ()) \<and> rb_contents rb' = rb_contents rb @ [x] \<and>
           rb_capacity rb' = rb_capacity rb \<and> rb_invar rb'"
proof -
  let ?n = "length (rb_buffer rb)" and ?h = "rb_head rb"
  let ?rb' = "rb\<lparr>rb_buffer := (rb_buffer rb)[?h := x], rb_head := (?h + 1) mod ?n,
                 rb_count := rb_count rb + 1\<rparr>"
  have n: "0 < ?n" "rb_count rb < ?n" "?n < usize_bound"
    using room inv by (auto simp: rb_capacity_def rb_invar_def)
  have h: "?h = (rb_tail rb + rb_count rb) mod ?n"
    using inv n by (simp add: rb_invar_def rb_capacity_def)
  then have hlt: "?h < ?n" using n by simp
  have step: "rb_push rb x = Some (?rb', Inr ())"
    using n hlt room
    by (simp add: rb_push_def rb_is_full_def rb_capacity_def rust_facts)
  have cont: "rb_contents ?rb' = rb_contents rb @ [x]"
    using n window_push[of "rb_count rb" "rb_buffer rb" "rb_tail rb" x] h
    by (simp add: rb_contents_def)
  have "rb_invar ?rb'"
    using inv n h by (auto simp: rb_invar_def rb_capacity_def mod_Suc_eq)
  with step cont show ?thesis by (auto simp: rb_capacity_def)
qed

lemma rb_pop_takes:
  assumes inv: "rb_invar rb" and c: "rb_contents rb = x # xs"
  shows "\<exists>rb'. rb_pop rb = Some (rb', Some x) \<and> rb_contents rb' = xs \<and>
           rb_capacity rb' = rb_capacity rb \<and> rb_invar rb'"
proof -
  let ?n = "length (rb_buffer rb)" and ?t = "rb_tail rb"
  obtain k where k: "rb_count rb = Suc k" using c length_rb_contents[of rb] by (cases "rb_count rb") auto
  let ?rb' = "rb\<lparr>rb_tail := (?t + 1) mod ?n, rb_count := k\<rparr>"
  have n: "Suc k \<le> ?n" "?n < usize_bound" "?t < ?n" "0 < ?n"
    using inv k by (auto simp: rb_capacity_def rb_invar_def)
  have w: "x = rb_buffer rb ! ?t" "xs = window (rb_buffer rb) ((?t + 1) mod ?n) k"
    using c n by (auto simp: rb_contents_def k window_Cons)
  have step: "rb_pop rb = Some (?rb', Some x)"
    using n w k by (simp add: rb_pop_def rb_is_empty_def rb_capacity_def rust_facts)
  have "rb_invar ?rb'"
    using inv n k by (auto simp: rb_invar_def rb_capacity_def mod_add_left_eq mod_Suc_eq)
  with step w show ?thesis by (auto simp: rb_contents_def rb_capacity_def)
qed

interpretation can_ring: bounded_fifo rb_push rb_pop rb_contents rb_capacity rb_invar
proof unfold_locales
  fix q :: "'a ring_buffer" and x xs
  assume inv: "rb_invar q"
  show "length (rb_contents q) < rb_capacity q \<Longrightarrow>
      \<exists>q'. rb_push q x = Some (q', Inr ()) \<and> rb_contents q' = rb_contents q @ [x] \<and>
        rb_capacity q' = rb_capacity q \<and> rb_invar q'"
    using rb_push_accepts[OF inv] by simp
  show "\<not> length (rb_contents q) < rb_capacity q \<Longrightarrow> rb_push q x = Some (q, Inl x)"
    by (simp add: rb_push_def rb_is_full_def)
  show "rb_contents q = x # xs \<Longrightarrow> \<exists>q'. rb_pop q = Some (q', Some x) \<and> rb_contents q' = xs \<and>
      rb_capacity q' = rb_capacity q \<and> rb_invar q'"
    by (rule rb_pop_takes[OF inv])
  show "rb_contents q = [] \<Longrightarrow> rb_pop q = Some (q, None)"
    using length_rb_contents[of q] by (simp add: rb_pop_def rb_is_empty_def)
  show "length (rb_contents q) \<le> rb_capacity q"
    using inv by (simp add: rb_invar_def)
qed

subsection \<open>The buffer manager\<close>

record can_buffer_manager =
  tx_buffer :: "can_message ring_buffer"
  rx_buffer :: "can_message ring_buffer"
  tx_overflows :: nat
  rx_overflows :: nat

definition can_buffer_manager_new :: "nat \<Rightarrow> nat \<Rightarrow> can_buffer_manager" where
  "can_buffer_manager_new tx_size rx_size =
     \<lparr>tx_buffer = rb_new can_message_default tx_size,
      rx_buffer = rb_new can_message_default rx_size,
      tx_overflows = 0, rx_overflows = 0\<rparr>"

definition queue_tx ::
  "can_buffer_manager \<Rightarrow> can_message \<Rightarrow> (can_buffer_manager \<times> (can_message + unit)) run" where
  "queue_tx m msg =
     do { (b, r) \<leftarrow> rb_push (tx_buffer m) msg;
          Some (case r of
              Inl e \<Rightarrow> (m\<lparr>tx_buffer := b, tx_overflows := wrap_add (tx_overflows m) 1\<rparr>, Inl e)
            | Inr u \<Rightarrow> (m\<lparr>tx_buffer := b\<rparr>, Inr u)) }"

definition get_tx :: "can_buffer_manager \<Rightarrow> (can_buffer_manager \<times> can_message option) run" where
  "get_tx m = do { (b, r) \<leftarrow> rb_pop (tx_buffer m); Some (m\<lparr>tx_buffer := b\<rparr>, r) }"

definition peek_tx :: "can_buffer_manager \<Rightarrow> can_message option run" where
  "peek_tx m = rb_peek (tx_buffer m)"

definition has_tx_data :: "can_buffer_manager \<Rightarrow> bool" where
  "has_tx_data m \<longleftrightarrow> \<not> rb_is_empty (tx_buffer m)"

definition queue_rx ::
  "can_buffer_manager \<Rightarrow> can_message \<Rightarrow> (can_buffer_manager \<times> (can_message + unit)) run" where
  "queue_rx m msg =
     do { (b, r) \<leftarrow> rb_push (rx_buffer m) msg;
          Some (case r of
              Inl e \<Rightarrow> (m\<lparr>rx_buffer := b, rx_overflows := wrap_add (rx_overflows m) 1\<rparr>, Inl e)
            | Inr u \<Rightarrow> (m\<lparr>rx_buffer := b\<rparr>, Inr u)) }"

definition get_rx :: "can_buffer_manager \<Rightarrow> (can_buffer_manager \<times> can_message option) run" where
  "get_rx m = do { (b, r) \<leftarrow> rb_pop (rx_buffer m); Some (m\<lparr>rx_buffer := b\<rparr>, r) }"

definition has_rx_data :: "can_buffer_manager \<Rightarrow> bool" where
  "has_rx_data m \<longleftrightarrow> \<not> rb_is_empty (rx_buffer m)"

definition tx_count :: "can_buffer_manager \<Rightarrow> nat" where
  "tx_count m = rb_len (tx_buffer m)"

definition rx_count :: "can_buffer_manager \<Rightarrow> nat" where
  "rx_count m = rb_len (rx_buffer m)"

definition tx_overflow_count :: "can_buffer_manager \<Rightarrow> nat" where
  "tx_overflow_count m = tx_overflows m"

definition rx_overflow_count :: "can_buffer_manager \<Rightarrow> nat" where
  "rx_overflow_count m = rx_overflows m"

definition clear_buffers :: "can_buffer_manager \<Rightarrow> can_buffer_manager" where
  "clear_buffers m =
     m\<lparr>tx_buffer := rb_clear (tx_buffer m), rx_buffer := rb_clear (rx_buffer m)\<rparr>"

definition reset_overflow_counters :: "can_buffer_manager \<Rightarrow> can_buffer_manager" where
  "reset_overflow_counters m = m\<lparr>tx_overflows := 0, rx_overflows := 0\<rparr>"

record buffer_stats =
  bs_tx_count :: nat
  bs_tx_capacity :: nat
  bs_tx_utilization :: u8
  bs_tx_overflows :: nat
  bs_rx_count :: nat
  bs_rx_capacity :: nat
  bs_rx_utilization :: u8
  bs_rx_overflows :: nat

definition get_stats :: "can_buffer_manager \<Rightarrow> buffer_stats run" where
  "get_stats m =
     do { tu \<leftarrow> rb_utilization (tx_buffer m);
          ru \<leftarrow> rb_utilization (rx_buffer m);
          Some \<lparr>bs_tx_count = rb_len (tx_buffer m), bs_tx_capacity = rb_capacity (tx_buffer m),
                bs_tx_utilization = tu, bs_tx_overflows = tx_overflow_count m,
                bs_rx_count = rb_len (rx_buffer m), bs_rx_capacity = rb_capacity (rx_buffer m),
                bs_rx_utilization = ru, bs_rx_overflows = rx_overflow_count m\<rparr> }"

definition mgr_invar :: "can_buffer_manager \<Rightarrow> bool" where
  "mgr_invar m \<longleftrightarrow> rb_invar (tx_buffer m) \<and> rb_invar (rx_buffer m)"

subsection \<open>Application and interrupt code over the global manager\<close>

text \<open>
  The hardware functions of the source have empty bodies. The model records the calls made
  to them, in order, so that the handlers' effects can be stated.
\<close>

datatype hw_call =
    EnableTxInterrupt
  | DisableTxInterrupt
  | LoadHardware can_message

definition CAN_BUFFERS :: can_buffer_manager where
  "CAN_BUFFERS = can_buffer_manager_new 32 64"

definition read_can_hardware :: can_message where
  "read_can_hardware = can_message_default"

definition send_can_message ::
  "can_buffer_manager \<Rightarrow> u32 \<Rightarrow> bytes \<Rightarrow> (can_buffer_manager \<times> hw_call list \<times> (string + unit)) run" where
  "send_can_message m id' data =
     do {
       let dlc = (of_nat (min (length data) 8) :: u8);
       src \<leftarrow> sub_slice data 0 (unat dlc);
       let msg = can_message_default\<lparr>cm_id := id', cm_dlc := dlc,
                   cm_data := overwrite_prefix (cm_data can_message_default) src\<rparr>;
       (m', r) \<leftarrow> queue_tx m msg;
       Some (case r of
           Inl _ \<Rightarrow> (m', [], Inl ''TX buffer full'')
         | Inr _ \<Rightarrow> (m', [EnableTxInterrupt], Inr ()))
     }"

definition can_tx_irq_handler :: "can_buffer_manager \<Rightarrow> (can_buffer_manager \<times> hw_call list) run" where
  "can_tx_irq_handler m =
     do { (m', r) \<leftarrow> get_tx m;
          Some (m', case r of Some msg \<Rightarrow> [LoadHardware msg] | None \<Rightarrow> [DisableTxInterrupt]) }"

definition can_rx_irq_handler :: "can_buffer_manager \<Rightarrow> can_buffer_manager run" where
  "can_rx_irq_handler m = do { (m', _) \<leftarrow> queue_rx m read_can_hardware; Some m' }"

text \<open>The \<open>while let\<close> loop; the closure is a state transformer.\<close>

partial_function (option) process_rx_messages ::
  "(can_message \<Rightarrow> 's \<Rightarrow> 's) \<Rightarrow> can_buffer_manager \<Rightarrow> 's \<Rightarrow> (can_buffer_manager \<times> 's) option" where
  "process_rx_messages handler m s =
     do { (m', r) \<leftarrow> get_rx m;
          case r of None \<Rightarrow> Some (m', s)
          | Some msg \<Rightarrow> process_rx_messages handler m' (handler msg s) }"

datatype app_call = HandleSensorData can_message | HandleCommand can_message

definition main_loop_handler :: "can_message \<Rightarrow> app_call list \<Rightarrow> app_call list" where
  "main_loop_handler msg cs =
     (if cm_id msg = 0x100 then cs @ [HandleSensorData msg]
      else if cm_id msg = 0x200 then cs @ [HandleCommand msg]
      else cs)"

definition main_loop :: "can_buffer_manager \<Rightarrow> (can_buffer_manager \<times> app_call list) option" where
  "main_loop m = process_rx_messages main_loop_handler m []"

subsection \<open>Message builder\<close>

record can_message_builder =
  mb_msg :: can_message

definition builder_new :: "u32 \<Rightarrow> can_message_builder" where
  "builder_new id' = \<lparr>mb_msg = can_message_default\<lparr>cm_id := id'\<rparr>\<rparr>"

definition builder_data :: "can_message_builder \<Rightarrow> bytes \<Rightarrow> can_message_builder run" where
  "builder_data b data =
     do {
       let len = min (length data) 8;
       src \<leftarrow> sub_slice data 0 len;
       Some (b\<lparr>mb_msg := (mb_msg b)\<lparr>cm_dlc := of_nat len,
                 cm_data := overwrite_prefix (cm_data (mb_msg b)) src\<rparr>\<rparr>)
     }"

definition builder_extended :: "can_message_builder \<Rightarrow> bool \<Rightarrow> can_message_builder" where
  "builder_extended b e = b\<lparr>mb_msg := (mb_msg b)\<lparr>cm_is_extended := e\<rparr>\<rparr>"

definition builder_rtr :: "can_message_builder \<Rightarrow> bool \<Rightarrow> can_message_builder" where
  "builder_rtr b r = b\<lparr>mb_msg := (mb_msg b)\<lparr>cm_is_rtr := r\<rparr>\<rparr>"

definition builder_send ::
  "can_buffer_manager \<Rightarrow> can_message_builder \<Rightarrow>
   (can_buffer_manager \<times> hw_call list \<times> (string + unit)) run" where
  "builder_send m b =
     do { (m', r) \<leftarrow> queue_tx m (mb_msg b);
          Some (case r of
              Inl _ \<Rightarrow> (m', [], Inl ''TX buffer full'')
            | Inr _ \<Rightarrow> (m', [EnableTxInterrupt], Inr ())) }"

subsection \<open>Diagnostics\<close>

record can_diagnostics =
  last_tx_overflows :: nat
  last_rx_overflows :: nat

datatype diag_log =
    TxHigh u8
  | RxHigh u8
  | TxOverflows nat nat
  | RxOverflows nat nat

definition can_diagnostics_new :: can_diagnostics where
  "can_diagnostics_new = \<lparr>last_tx_overflows = 0, last_rx_overflows = 0\<rparr>"

definition periodic_check ::
  "can_diagnostics \<Rightarrow> can_buffer_manager \<Rightarrow> (can_diagnostics \<times> diag_log list) run" where
  "periodic_check d m =
     do {
       stats \<leftarrow> get_stats m;
       let l1 = (if bs_tx_utilization stats > 80 then [TxHigh (bs_tx_utilization stats)] else []);
       let l2 = (if bs_rx_utilization stats > 80 then [RxHigh (bs_rx_utilization stats)] else []);
       new_tx \<leftarrow> usub (bs_tx_overflows stats) (last_tx_overflows d);
       let (d1, l3) = (if new_tx > 0
             then (d\<lparr>last_tx_overflows := bs_tx_overflows stats\<rparr>,
                   [TxOverflows new_tx (bs_tx_overflows stats)])
             else (d, []));
       new_rx \<leftarrow> usub (bs_rx_overflows stats) (last_rx_overflows d1);
       let (d2, l4) = (if new_rx > 0
             then (d1\<lparr>last_rx_overflows := bs_rx_overflows stats\<rparr>,
                   [RxOverflows new_rx (bs_rx_overflows stats)])
             else (d1, []));
       Some (d2, l1 @ l2 @ l3 @ l4)
     }"

subsection \<open>Lemmas on the manager\<close>

definition padded_frame :: "u32 \<Rightarrow> bytes \<Rightarrow> can_message" where
  "padded_frame id' data =
     can_message_default\<lparr>cm_id := id', cm_dlc := of_nat (min (length data) 8),
       cm_data := take 8 data @ replicate (8 - length data) 0\<rparr>"

lemma mgr_new_invar:
  "t < usize_bound \<Longrightarrow> r < usize_bound \<Longrightarrow> mgr_invar (can_buffer_manager_new t r)"
  by (simp add: mgr_invar_def can_buffer_manager_new_def rb_new_invar)

lemma queue_tx_accepts:
  assumes "mgr_invar m" "tx_count m < rb_capacity (tx_buffer m)"
  shows "\<exists>b. queue_tx m msg = Some (m\<lparr>tx_buffer := b\<rparr>, Inr ()) \<and> rb_invar b \<and>
           rb_contents b = rb_contents (tx_buffer m) @ [msg] \<and>
           rb_capacity b = rb_capacity (tx_buffer m)"
  using can_ring.push_ok[of "tx_buffer m" msg] assms
  by (auto simp: queue_tx_def mgr_invar_def tx_count_def rb_len_def)

lemma queue_tx_rejects:
  assumes "mgr_invar m" "\<not> tx_count m < rb_capacity (tx_buffer m)"
  shows "queue_tx m msg = Some (m\<lparr>tx_overflows := wrap_add (tx_overflows m) 1\<rparr>, Inl msg)"
  using can_ring.push_full[of "tx_buffer m" msg] assms
  by (simp add: queue_tx_def mgr_invar_def tx_count_def rb_len_def)

lemma get_tx_takes:
  assumes "mgr_invar m" "rb_contents (tx_buffer m) = x # xs"
  shows "\<exists>b. get_tx m = Some (m\<lparr>tx_buffer := b\<rparr>, Some x) \<and> rb_invar b \<and> rb_contents b = xs \<and>
           rb_capacity b = rb_capacity (tx_buffer m)"
  using can_ring.pop_ok[of "tx_buffer m" x xs] assms by (auto simp: get_tx_def mgr_invar_def)

lemma get_tx_empty:
  assumes "mgr_invar m" "rb_contents (tx_buffer m) = []"
  shows "get_tx m = Some (m, None)"
  using can_ring.pop_empty[of "tx_buffer m"] assms by (simp add: get_tx_def mgr_invar_def)

lemma get_rx_takes:
  assumes "mgr_invar m" "rb_contents (rx_buffer m) = x # xs"
  shows "\<exists>b. get_rx m = Some (m\<lparr>rx_buffer := b\<rparr>, Some x) \<and> rb_invar b \<and> rb_contents b = xs \<and>
           rb_capacity b = rb_capacity (rx_buffer m)"
  using can_ring.pop_ok[of "rx_buffer m" x xs] assms by (auto simp: get_rx_def mgr_invar_def)

lemma get_rx_empty:
  assumes "mgr_invar m" "rb_contents (rx_buffer m) = []"
  shows "get_rx m = Some (m, None)"
  using can_ring.pop_empty[of "rx_buffer m"] assms by (simp add: get_rx_def mgr_invar_def)

lemma send_can_message_queues: "send_can_message m i data =
    do { (m', r) \<leftarrow> queue_tx m (padded_frame i data);
         Some (case r of Inl _ \<Rightarrow> (m', [], Inl ''TX buffer full'')
               | Inr _ \<Rightarrow> (m', [EnableTxInterrupt], Inr ())) }"
proof -
  let ?k = "min (length data) 8"
  have k: "unat (of_nat ?k :: u8) = ?k"
    by (intro unat_of_nat_small) (simp add: min_def)
  have "overwrite_prefix (replicate 8 0) (take ?k data) = take 8 data @ replicate (8 - length data) 0"
    by (auto simp: overwrite_prefix_def min_def)
  then show ?thesis
    by (simp add: send_can_message_def sub_slice_def k padded_frame_def can_message_default_def Let_def)
qed

text \<open>Sending a list of frames, and a burst of TX interrupts.\<close>

fun send_all :: "can_buffer_manager \<Rightarrow> (u32 \<times> bytes) list \<Rightarrow> can_buffer_manager run" where
  "send_all m [] = Some m"
| "send_all m ((i, d) # fs) = do { (m', _, _) \<leftarrow> send_can_message m i d; send_all m' fs }"

fun tx_irqs :: "nat \<Rightarrow> can_buffer_manager \<Rightarrow> (can_buffer_manager \<times> hw_call list) run" where
  "tx_irqs 0 m = Some (m, [])"
| "tx_irqs (Suc n) m =
     do { (m1, c) \<leftarrow> can_tx_irq_handler m; (m2, cs) \<leftarrow> tx_irqs n m1; Some (m2, c @ cs) }"

lemma send_all_queues:
  "mgr_invar m \<Longrightarrow> tx_overflows m + length fs < usize_bound \<Longrightarrow>
   \<exists>b. send_all m fs = Some (m\<lparr>tx_buffer := b,
         tx_overflows := tx_overflows m + (length fs - (rb_capacity (tx_buffer m) - tx_count m))\<rparr>) \<and>
     rb_invar b \<and> rb_capacity b = rb_capacity (tx_buffer m) \<and>
     rb_contents b = rb_contents (tx_buffer m) @
       map (\<lambda>(i, d). padded_frame i d) (take (rb_capacity (tx_buffer m) - tx_count m) fs)"
proof (induction fs arbitrary: m)
  case Nil
  have "m = m\<lparr>tx_buffer := tx_buffer m, tx_overflows := tx_overflows m\<rparr>" by simp
  with Nil show ?case by (auto simp: mgr_invar_def intro!: exI[of _ "tx_buffer m"])
next
  case (Cons f fs)
  obtain i d where f: "f = (i, d)" by fastforce
  let ?cap = "rb_capacity (tx_buffer m)"
  show ?case
  proof (cases "tx_count m < ?cap")
    case True
    obtain b where b: "queue_tx m (padded_frame i d) = Some (m\<lparr>tx_buffer := b\<rparr>, Inr ())" "rb_invar b"
        "rb_contents b = rb_contents (tx_buffer m) @ [padded_frame i d]" "rb_capacity b = ?cap"
      using queue_tx_accepts[OF Cons.prems(1) True] by blast
    let ?m = "m\<lparr>tx_buffer := b\<rparr>"
    have cnt: "tx_count ?m = Suc (tx_count m)"
      using arg_cong[OF b(3), of length] by (simp add: tx_count_def rb_len_def)
    have "mgr_invar ?m" using b Cons.prems(1) by (simp add: mgr_invar_def)
    moreover have "?cap - tx_count m = Suc (?cap - Suc (tx_count m))" using True by linarith
    ultimately show ?thesis
      using Cons.IH[of ?m] Cons.prems(2) b cnt
      by (auto simp: f send_can_message_queues)
  next
    case False
    let ?m = "m\<lparr>tx_overflows := tx_overflows m + 1\<rparr>"
    have q: "queue_tx m (padded_frame i d) = Some (?m, Inl (padded_frame i d))"
      using queue_tx_rejects[OF Cons.prems(1) False] Cons.prems(2) by (simp add: rust_facts)
    have "mgr_invar ?m" "tx_count ?m = tx_count m" using Cons.prems(1)
      by (simp_all add: mgr_invar_def tx_count_def)
    then show ?thesis
      using Cons.IH[of ?m] Cons.prems(2) False q
      by (auto simp: f send_can_message_queues)
  qed
qed

lemma tx_irqs_load:
  "mgr_invar m \<Longrightarrow> rb_contents (tx_buffer m) = xs \<Longrightarrow>
   \<exists>b. tx_irqs (length xs + 1) m =
         Some (m\<lparr>tx_buffer := b\<rparr>, map LoadHardware xs @ [DisableTxInterrupt]) \<and>
       rb_contents b = []"
proof (induction xs arbitrary: m)
  case Nil
  have "m = m\<lparr>tx_buffer := tx_buffer m\<rparr>" by simp
  with Nil show ?case
    by (auto simp: can_tx_irq_handler_def get_tx_empty intro!: exI[of _ "tx_buffer m"])
next
  case (Cons x xs)
  obtain b where b: "get_tx m = Some (m\<lparr>tx_buffer := b\<rparr>, Some x)" "rb_invar b" "rb_contents b = xs"
    using get_tx_takes[OF Cons.prems] by blast
  have "mgr_invar (m\<lparr>tx_buffer := b\<rparr>)" using b Cons.prems(1) by (simp add: mgr_invar_def)
  from Cons.IH[OF this] b obtain b' where "tx_irqs (length xs + 1) (m\<lparr>tx_buffer := b\<rparr>) =
      Some (m\<lparr>tx_buffer := b'\<rparr>, map LoadHardware xs @ [DisableTxInterrupt])" "rb_contents b' = []"
    by auto
  then show ?case
    using b tx_irqs.simps(2)[of "Suc (length xs)" m]
    by (auto simp: can_tx_irq_handler_def simp del: tx_irqs.simps)
qed

lemma process_rx_drains:
  "mgr_invar m \<Longrightarrow> rb_contents (rx_buffer m) = xs \<Longrightarrow>
   \<exists>b. process_rx_messages h m s = Some (m\<lparr>rx_buffer := b\<rparr>, fold h xs s) \<and> rb_contents b = []"
proof (induction xs arbitrary: m s)
  case Nil
  have "m = m\<lparr>rx_buffer := rx_buffer m\<rparr>" by simp
  with Nil show ?case
    by (subst process_rx_messages.simps) (auto simp: get_rx_empty intro!: exI[of _ "rx_buffer m"])
next
  case (Cons x xs)
  obtain b where b: "get_rx m = Some (m\<lparr>rx_buffer := b\<rparr>, Some x)" "rb_invar b" "rb_contents b = xs"
    using get_rx_takes[OF Cons.prems] by blast
  have "mgr_invar (m\<lparr>rx_buffer := b\<rparr>)" using b Cons.prems(1) by (simp add: mgr_invar_def)
  from Cons.IH[OF this, of "h x s"] b obtain b' where
    "process_rx_messages h (m\<lparr>rx_buffer := b\<rparr>) (h x s) = Some (m\<lparr>rx_buffer := b'\<rparr>, fold h xs (h x s))"
    "rb_contents b' = []" by auto
  then show ?case using b by (subst process_rx_messages.simps) auto
qed

lemma rb_utilization_value:
  assumes "rb_invar rb" "0 < rb_capacity rb" "rb_capacity rb * 100 < usize_bound"
  shows "rb_utilization rb = Some (of_nat (rb_count rb * 100 div rb_capacity rb))"
    and "unat (of_nat (rb_count rb * 100 div rb_capacity rb) :: u8) = rb_count rb * 100 div rb_capacity rb"
    and "rb_count rb * 100 div rb_capacity rb \<le> 100"
proof -
  have le: "rb_count rb \<le> rb_capacity rb" using assms(1) by (simp add: rb_invar_def)
  then have "rb_count rb * 100 < usize_bound" using assms(3) by linarith
  then show "rb_utilization rb = Some (of_nat (rb_count rb * 100 div rb_capacity rb))"
    using assms(2) by (simp add: rb_utilization_def rb_len_def rust_facts)
  have "rb_count rb * 100 div rb_capacity rb \<le> 100 * rb_capacity rb div rb_capacity rb"
    using le by (intro div_le_mono) simp
  then show b: "rb_count rb * 100 div rb_capacity rb \<le> 100" using assms(2) by simp
  then show "unat (of_nat (rb_count rb * 100 div rb_capacity rb) :: u8) = rb_count rb * 100 div rb_capacity rb"
    by (intro unat_of_nat_small) simp
qed

subsection \<open>Properties\<close>

text \<open>
  C1. The ring buffer implements a bounded FIFO queue: for every capacity and every sequence
  of \<open>push\<close> and \<open>pop\<close> calls on a new buffer, no call panics, the answers are exactly those
  of the list specification (a push is refused, with the item handed back, only when the
  capacity is reached; a pop returns the oldest item), and the buffer ends with the
  specification's contents.
\<close>

theorem ring_refines_bounded_fifo:
  assumes "n < usize_bound"
  shows "\<exists>rb'. fifo_run rb_push rb_pop (rb_new d n) ops = Some (rb', snd (fifo_spec_run n [] ops)) \<and>
           rb_contents rb' = fst (fifo_spec_run n [] ops) \<and> rb_capacity rb' = n \<and> rb_invar rb'"
  using can_ring.run_refines[OF rb_new_invar[OF assms, of d], of ops] by simp

theorem ring_refines_bounded_fifo_witness:
  "(2::nat) < usize_bound \<and>
   (\<exists>rb'. fifo_run rb_push rb_pop (rb_new (0::nat) 2) [Push 7, Push 8, Push 9, Pop, Push 5, Pop, Pop, Pop] =
      Some (rb', [Accepted 7, Accepted 8, Rejected 9, Popped 7, Accepted 5, Popped 8, Popped 5, Drained]) \<and>
    rb_contents rb' = [] \<and> rb_capacity rb' = 2)"
  using ring_refines_bounded_fifo[of 2 "0::nat" "[Push 7, Push 8, Push 9, Pop, Push 5, Pop, Pop, Pop]"]
  by (auto simp: Let_def)

text \<open>
  End-to-end transmit path over the global manager (32 TX slots): after any sequence of
  \<open>send_can_message\<close> calls the overflow counter holds the number of frames beyond the 32nd,
  and the following TX interrupts load exactly the first 32 frames into the hardware, in the
  order sent, each with its identifier, a DLC of at most 8 and the payload truncated or
  zero-padded to 8 bytes; one more interrupt finds the queue empty and disables itself.
\<close>

theorem can_transmit_end_to_end:
  assumes "length fs < usize_bound"
  shows "\<exists>m1 m2. send_all CAN_BUFFERS fs = Some m1 \<and>
           tx_overflow_count m1 = length fs - 32 \<and>
           tx_irqs (min 32 (length fs) + 1) m1 =
             Some (m2, map (\<lambda>(i, d). LoadHardware (padded_frame i d)) (take 32 fs)
                       @ [DisableTxInterrupt]) \<and>
           \<not> has_tx_data m2"
proof -
  let ?ms = "map (\<lambda>(i, d). padded_frame i d) (take 32 fs)"
  have inv: "mgr_invar CAN_BUFFERS" by (simp add: CAN_BUFFERS_def mgr_new_invar)
  have init: "rb_capacity (tx_buffer CAN_BUFFERS) = 32" "tx_count CAN_BUFFERS = 0"
      "rb_contents (tx_buffer CAN_BUFFERS) = []" "tx_overflows CAN_BUFFERS = 0"
    by (simp_all add: CAN_BUFFERS_def can_buffer_manager_new_def tx_count_def rb_len_def rb_new_def
        rb_contents_def rb_capacity_def)
  from send_all_queues[OF inv, of fs] assms obtain b where
    s: "send_all CAN_BUFFERS fs = Some (CAN_BUFFERS\<lparr>tx_buffer := b, tx_overflows := length fs - 32\<rparr>)"
    and b: "rb_invar b" "rb_contents b = ?ms"
    by (auto simp: init)
  let ?m = "CAN_BUFFERS\<lparr>tx_buffer := b, tx_overflows := length fs - 32\<rparr>"
  have "mgr_invar ?m" using inv b by (simp add: mgr_invar_def)
  from tx_irqs_load[OF this, of ?ms] b obtain b' where
    i: "tx_irqs (length ?ms + 1) ?m = Some (?m\<lparr>tx_buffer := b'\<rparr>, map LoadHardware ?ms @ [DisableTxInterrupt])"
    and e: "rb_contents b' = []" by auto
  have len: "length ?ms + 1 = min 32 (length fs) + 1" by simp
  have mm: "map LoadHardware ?ms = map (\<lambda>(i, d). LoadHardware (padded_frame i d)) (take 32 fs)"
    by (simp add: case_prod_unfold)
  have "\<not> has_tx_data (?m\<lparr>tx_buffer := b'\<rparr>)"
    using e length_rb_contents[of b'] by (simp add: has_tx_data_def rb_is_empty_def)
  with s i show ?thesis unfolding len mm by (auto simp: tx_overflow_count_def)
qed

theorem can_transmit_end_to_end_witness:
  "\<exists>m1 m2. send_all CAN_BUFFERS [(5, [1, 2])] = Some m1 \<and> tx_overflow_count m1 = 0 \<and>
     tx_irqs (Suc (Suc 0)) m1 = Some (m2, [LoadHardware
       \<lparr>cm_id = 5, cm_dlc = 2, cm_data = [1, 2, 0, 0, 0, 0, 0, 0], cm_timestamp = 0,
        cm_is_extended = False, cm_is_rtr = False\<rparr>, DisableTxInterrupt]) \<and> \<not> has_tx_data m2"
proof -
  have "padded_frame 5 [1, 2] =
      \<lparr>cm_id = 5, cm_dlc = 2, cm_data = [1, 2, 0, 0, 0, 0, 0, 0], cm_timestamp = 0,
       cm_is_extended = False, cm_is_rtr = False\<rparr>" by code_simp
  then show ?thesis
    using can_transmit_end_to_end[of "[(5, [1, 2])]"]
    by (simp del: tx_irqs.simps send_all.simps)
qed

text \<open>
  The receive loop terminates and hands every queued message to the handler exactly once,
  oldest first; afterwards the receive queue is empty and the transmit side is untouched.
\<close>

theorem process_rx_messages_drains:
  assumes "mgr_invar m"
  shows "\<exists>m'. process_rx_messages h m s = Some (m', fold h (rb_contents (rx_buffer m)) s) \<and>
           \<not> has_rx_data m' \<and> tx_buffer m' = tx_buffer m"
proof -
  obtain b where "process_rx_messages h m s = Some (m\<lparr>rx_buffer := b\<rparr>, fold h (rb_contents (rx_buffer m)) s)"
      "rb_contents b = []"
    using process_rx_drains[OF assms refl, of h s] by blast
  moreover from this(2) have "\<not> has_rx_data (m\<lparr>rx_buffer := b\<rparr>)"
    using length_rb_contents[of b] by (simp add: has_rx_data_def rb_is_empty_def)
  ultimately show ?thesis by (intro exI[of _ "m\<lparr>rx_buffer := b\<rparr>"]) simp
qed

theorem process_rx_messages_drains_witness:
  "mgr_invar CAN_BUFFERS \<and>
   (\<exists>m'. process_rx_messages main_loop_handler CAN_BUFFERS [] = Some (m', []) \<and> \<not> has_rx_data m' \<and>
      tx_buffer m' = tx_buffer CAN_BUFFERS)"
proof -
  have inv: "mgr_invar CAN_BUFFERS" by (simp add: CAN_BUFFERS_def mgr_new_invar)
  have "rb_contents (rx_buffer CAN_BUFFERS) = []"
    by (simp add: CAN_BUFFERS_def can_buffer_manager_new_def)
  then show ?thesis using inv process_rx_messages_drains[OF inv, of main_loop_handler "[]"] by simp
qed

text \<open>
  The diagnostics subtract the overflow totals they remember from the current ones, so
  \<open>periodic_check\<close> returns exactly when both remembered totals are still covered; after
  \<open>reset_overflow_counters\<close> it panics whenever an overflow had been reported before.
\<close>

theorem periodic_check_returns_iff:
  assumes "mgr_invar m" "0 < rb_capacity (tx_buffer m)" "0 < rb_capacity (rx_buffer m)"
    and "rb_capacity (tx_buffer m) * 100 < usize_bound" "rb_capacity (rx_buffer m) * 100 < usize_bound"
  shows "(periodic_check d m \<noteq> None) =
           (last_tx_overflows d \<le> tx_overflows m \<and> last_rx_overflows d \<le> rx_overflows m) \<and>
         (periodic_check d (reset_overflow_counters m) = None) =
           (0 < last_tx_overflows d \<or> 0 < last_rx_overflows d)"
proof -
  have inv: "rb_invar (tx_buffer m)" "rb_invar (rx_buffer m)" using assms(1) by (simp_all add: mgr_invar_def)
  obtain tu ru where u: "rb_utilization (tx_buffer m) = Some tu" "rb_utilization (rx_buffer m) = Some ru"
    using rb_utilization_value(1)[OF inv(1)] rb_utilization_value(1)[OF inv(2)] assms by blast
  show ?thesis
    using u by (auto simp: periodic_check_def get_stats_def usub_def Let_def
        tx_overflow_count_def rx_overflow_count_def reset_overflow_counters_def)
qed

theorem periodic_check_returns_iff_witness:
  "periodic_check \<lparr>last_tx_overflows = 3, last_rx_overflows = 0\<rparr> (reset_overflow_counters CAN_BUFFERS) = None"
proof -
  have "mgr_invar CAN_BUFFERS" by (simp add: CAN_BUFFERS_def mgr_new_invar)
  moreover have "rb_capacity (tx_buffer CAN_BUFFERS) = 32" "rb_capacity (rx_buffer CAN_BUFFERS) = 64"
    by (simp_all add: CAN_BUFFERS_def can_buffer_manager_new_def)
  ultimately show ?thesis
    using periodic_check_returns_iff[of CAN_BUFFERS "\<lparr>last_tx_overflows = 3, last_rx_overflows = 0\<rparr>"] by simp
qed

end
