(* ===== verification/Can_Ring_Concurrent.thy ===== *)
theory Can_Ring_Concurrent
  imports Can_Ring_Buffer
begin

text \<open>
  \<^verbatim>\<open>CAN/src/17/CAN_Ring_Buffer.rs\<close> claims to be safe for one producer and one consumer that
  interrupt each other. Here \<open>push\<close> and \<open>pop\<close> are cut at their shared accesses: the count
  check, the plain array access together with the preceding load of the own index (only the
  owner ever stores that index), the index store and the count update. A step is one access
  of either side; sequential consistency of the accesses is assumed, which is what the
  acquire and release orderings give for the pairs the code relies on (count checked before
  the slot is touched, slot touched before the count is published).

  Ghost fields record the items whose \<open>push\<close> completed its array write and the items whose
  \<open>pop\<close> has read them.
\<close>

datatype 'a producer_pc =
    PIdle                   \<comment> \<open>outside \<open>push\<close>\<close>
  | PChecked 'a             \<comment> \<open>\<open>is_full\<close> returned false\<close>
  | PWritten nat            \<comment> \<open>\<open>buffer[head] = item\<close> done, \<open>head\<close> in hand\<close>
  | PHeadStored             \<comment> \<open>\<open>head.store(next_head)\<close> done\<close>

datatype 'a consumer_pc =
    CIdle
  | CChecked                \<comment> \<open>\<open>is_empty\<close> returned false\<close>
  | CRead nat 'a            \<comment> \<open>\<open>item = buffer[tail]\<close> done, \<open>tail\<close> in hand\<close>
  | CTailStored 'a          \<comment> \<open>\<open>tail.store(next_tail)\<close> done\<close>

record 'a spsc =
  ring :: "'a ring_buffer"
  ppc :: "'a producer_pc"
  cpc :: "'a consumer_pc"
  written :: "'a list"
  taken :: "'a list"

definition spsc_init :: "'a \<Rightarrow> nat \<Rightarrow> 'a spsc" where
  "spsc_init d n = \<lparr>ring = rb_new d n, ppc = PIdle, cpc = CIdle, written = [], taken = []\<rparr>"

inductive push_step :: "'a spsc \<Rightarrow> 'a spsc \<Rightarrow> bool" where
  push_refused: "ppc s = PIdle \<Longrightarrow> rb_is_full (ring s) \<Longrightarrow> push_step s s"
| push_checked: "ppc s = PIdle \<Longrightarrow> \<not> rb_is_full (ring s) \<Longrightarrow> push_step s (s\<lparr>ppc := PChecked x\<rparr>)"
| push_written: "ppc s = PChecked x \<Longrightarrow> idx_set (rb_buffer (ring s)) (rb_head (ring s)) x = Some buf \<Longrightarrow>
    push_step s (s\<lparr>ring := (ring s)\<lparr>rb_buffer := buf\<rparr>, ppc := PWritten (rb_head (ring s)),
                   written := written s @ [x]\<rparr>)"
| push_head: "ppc s = PWritten h \<Longrightarrow> umod (h + 1) (rb_capacity (ring s)) = Some h' \<Longrightarrow>
    push_step s (s\<lparr>ring := (ring s)\<lparr>rb_head := h'\<rparr>, ppc := PHeadStored\<rparr>)"
| push_count: "ppc s = PHeadStored \<Longrightarrow>
    push_step s (s\<lparr>ring := (ring s)\<lparr>rb_count := wrap_add (rb_count (ring s)) 1\<rparr>, ppc := PIdle\<rparr>)"

inductive pop_step :: "'a spsc \<Rightarrow> 'a spsc \<Rightarrow> bool" where
  pop_empty: "cpc s = CIdle \<Longrightarrow> rb_is_empty (ring s) \<Longrightarrow> pop_step s s"
| pop_checked: "cpc s = CIdle \<Longrightarrow> \<not> rb_is_empty (ring s) \<Longrightarrow> pop_step s (s\<lparr>cpc := CChecked\<rparr>)"
| pop_read: "cpc s = CChecked \<Longrightarrow> idx (rb_buffer (ring s)) (rb_tail (ring s)) = Some x \<Longrightarrow>
    pop_step s (s\<lparr>cpc := CRead (rb_tail (ring s)) x, taken := taken s @ [x]\<rparr>)"
| pop_tail: "cpc s = CRead t x \<Longrightarrow> umod (t + 1) (rb_capacity (ring s)) = Some t' \<Longrightarrow>
    pop_step s (s\<lparr>ring := (ring s)\<lparr>rb_tail := t'\<rparr>, cpc := CTailStored x\<rparr>)"
| pop_count: "cpc s = CTailStored x \<Longrightarrow>
    pop_step s (s\<lparr>ring := (ring s)\<lparr>rb_count := wrap_sub (rb_count (ring s)) 1\<rparr>, cpc := CIdle\<rparr>)"

inductive spsc_reachable :: "'a \<Rightarrow> nat \<Rightarrow> 'a spsc \<Rightarrow> bool" for d n where
  spsc_start: "spsc_reachable d n (spsc_init d n)"
| spsc_push: "spsc_reachable d n s \<Longrightarrow> push_step s s' \<Longrightarrow> spsc_reachable d n s'"
| spsc_pop: "spsc_reachable d n s \<Longrightarrow> pop_step s s' \<Longrightarrow> spsc_reachable d n s'"

subsection \<open>Invariant\<close>

text \<open>
  \<open>written - taken\<close> items are in the array. The count lags behind: it misses an item the
  producer has written and not yet published, and still includes an item the consumer has
  taken and not yet returned.
\<close>

fun unpublished :: "'a producer_pc \<Rightarrow> nat" where
  "unpublished (PWritten _) = 1"
| "unpublished PHeadStored = 1"
| "unpublished _ = 0"

fun unreturned :: "'a consumer_pc \<Rightarrow> nat" where
  "unreturned (CRead _ _) = 1"
| "unreturned (CTailStored _) = 1"
| "unreturned _ = 0"

fun head_lag :: "'a producer_pc \<Rightarrow> nat" where
  "head_lag (PWritten _) = 1"
| "head_lag _ = 0"

fun tail_lag :: "'a consumer_pc \<Rightarrow> nat" where
  "tail_lag (CRead _ _) = 1"
| "tail_lag _ = 0"

definition counts_ok :: "nat \<Rightarrow> 'a spsc \<Rightarrow> bool" where
  "counts_ok n s \<longleftrightarrow>
     length (rb_buffer (ring s)) = n \<and>
     length (taken s) + unpublished (ppc s) \<le> length (written s) \<and>
     unreturned (cpc s) \<le> length (taken s) \<and>
     rb_count (ring s) + unpublished (ppc s) + length (taken s) =
       length (written s) + unreturned (cpc s) \<and>
     length (written s) + unreturned (cpc s) \<le> n + length (taken s) \<and>
     ((\<exists>x. ppc s = PChecked x) \<longrightarrow> rb_count (ring s) < n) \<and>
     (cpc s = CChecked \<longrightarrow> 0 < rb_count (ring s))"

definition indices_ok :: "nat \<Rightarrow> 'a spsc \<Rightarrow> bool" where
  "indices_ok n s \<longleftrightarrow>
     rb_head (ring s) = (length (written s) - head_lag (ppc s)) mod n \<and>
     (\<forall>h. ppc s = PWritten h \<longrightarrow> h = rb_head (ring s)) \<and>
     rb_tail (ring s) = (length (taken s) - tail_lag (cpc s)) mod n \<and>
     (\<forall>i x. cpc s = CRead i x \<longrightarrow> i = rb_tail (ring s))"

definition slots_ok :: "nat \<Rightarrow> 'a spsc \<Rightarrow> bool" where
  "slots_ok n s \<longleftrightarrow>
     taken s = take (length (taken s)) (written s) \<and>
     (\<forall>i. length (taken s) \<le> i \<and> i < length (written s) \<longrightarrow>
          rb_buffer (ring s) ! (i mod n) = written s ! i)"

definition spsc_inv :: "nat \<Rightarrow> 'a spsc \<Rightarrow> bool" where
  "spsc_inv n s \<longleftrightarrow> counts_ok n s \<and> indices_ok n s \<and> slots_ok n s"

lemmas spsc_counts = counts_ok_def rb_is_full_def rb_is_empty_def rb_capacity_def

lemma spsc_inv_init: "spsc_inv n (spsc_init d n)"
  by (simp add: spsc_inv_def counts_ok_def indices_ok_def slots_ok_def spsc_init_def rb_new_def)

lemma slots_ok_write:
  assumes "counts_ok n s" "slots_ok n s" "ppc s = PChecked x"
    and w: "buf = (rb_buffer (ring s))[length (written s) mod n := x]"
    and i: "length (taken s) \<le> i" "i < Suc (length (written s))"
  shows "buf ! (i mod n) = (written s @ [x]) ! i"
proof -
  let ?w = "length (written s)" and ?t = "length (taken s)"
  have room: "?w < n + ?t" "?t \<le> ?w" "length (rb_buffer (ring s)) = n" "0 < n"
    using assms(1,3) by (auto simp: counts_ok_def)
  show ?thesis
  proof (cases "i = ?w")
    case True
    then show ?thesis using w room by simp
  next
    case False
    then have lt: "i < ?w" using i by simp
    have "i mod n \<noteq> ?w mod n"
    proof
      assume "i mod n = ?w mod n"
      moreover have "i - ?t < n" "?w - ?t < n" using room i lt by linarith+
      ultimately have "i - ?t = ?w - ?t"
        using mod_add_inj[of "i - ?t" n "?w - ?t" ?t] room(2) i(1) by simp
      then show False using i(1) lt by linarith
    qed
    moreover have "rb_buffer (ring s) ! (i mod n) = written s ! i"
      using assms(2) i lt by (simp add: slots_ok_def)
    ultimately show ?thesis using w lt by (simp add: nth_append)
  qed
qed

lemma push_step_inv:
  assumes "push_step s s'" "spsc_inv n s" "n < usize_bound"
  shows "spsc_inv n s'"
  using assms
proof (induction rule: push_step.induct)
  case (push_refused s)
  then show ?case by simp
next
  case (push_checked s x)
  then show ?case by (auto simp: spsc_inv_def spsc_counts indices_ok_def slots_ok_def)
next
  case (push_written s x buf)
  then have inv: "counts_ok n s" "indices_ok n s" "slots_ok n s" by (simp_all add: spsc_inv_def)
  have h: "rb_head (ring s) = length (written s) mod n"
    using inv(2) push_written(1) by (simp add: indices_ok_def)
  have b: "buf = (rb_buffer (ring s))[length (written s) mod n := x]"
    using push_written(2) h by (simp add: idx_set_def split: if_splits)
  let ?s = "s\<lparr>ring := (ring s)\<lparr>rb_buffer := buf\<rparr>, ppc := PWritten (rb_head (ring s)), written := written s @ [x]\<rparr>"
  have "counts_ok n ?s" using inv(1) push_written(1) b by (auto simp: counts_ok_def)
  moreover have "indices_ok n ?s" using inv(2) h by (auto simp: indices_ok_def)
  moreover have "slots_ok n ?s"
    using slots_ok_write[OF inv(1,3) push_written(1) b] inv(1,3) by (auto simp: slots_ok_def counts_ok_def)
  ultimately show ?case by (simp add: spsc_inv_def)
next
  case (push_head s h h')
  then have "h' = (rb_head (ring s) + 1) mod n" "0 < length (written s)"
    by (auto simp: spsc_inv_def indices_ok_def counts_ok_def umod_def rb_capacity_def split: if_splits)
  then have "h' = length (written s) mod n"
    using push_head by (simp add: spsc_inv_def indices_ok_def mod_Suc_eq)
  with push_head show ?case by (auto simp: spsc_inv_def spsc_counts indices_ok_def slots_ok_def)
next
  case (push_count s)
  have "rb_count (ring s) + 1 \<le> n" using push_count by (simp add: spsc_inv_def counts_ok_def)
  then have "wrap_add (rb_count (ring s)) 1 = rb_count (ring s) + 1"
    using push_count(3) by (intro wrap_add_small) linarith
  with push_count show ?case by (auto simp: spsc_inv_def spsc_counts indices_ok_def slots_ok_def)
qed

lemma pop_step_inv:
  assumes "pop_step s s'" "spsc_inv n s" "n < usize_bound"
  shows "spsc_inv n s'"
  using assms
proof (induction rule: pop_step.induct)
  case (pop_empty s)
  then show ?case by simp
next
  case (pop_checked s)
  then show ?case by (auto simp: spsc_inv_def spsc_counts indices_ok_def slots_ok_def)
next
  case (pop_read s x)
  then have inv: "counts_ok n s" "indices_ok n s" "slots_ok n s" by (simp_all add: spsc_inv_def)
  let ?t = "length (taken s)"
  have lt: "?t < length (written s)" using inv(1) pop_read(1) by (simp add: counts_ok_def)
  then have x: "x = written s ! ?t"
    using inv pop_read by (auto simp: indices_ok_def slots_ok_def idx_def split: if_splits)
  have "taken s @ [x] = take (Suc ?t) (written s)"
    using lt x inv(3) by (metis slots_ok_def take_Suc_conv_app_nth)
  then show ?case using pop_read lt by (auto simp: spsc_inv_def spsc_counts indices_ok_def slots_ok_def)
next
  case (pop_tail s t x t')
  then have "t' = (rb_tail (ring s) + 1) mod n" "0 < length (taken s)"
    by (auto simp: spsc_inv_def indices_ok_def counts_ok_def umod_def rb_capacity_def split: if_splits)
  then have "t' = length (taken s) mod n"
    using pop_tail by (simp add: spsc_inv_def indices_ok_def mod_Suc_eq)
  with pop_tail show ?case by (auto simp: spsc_inv_def spsc_counts indices_ok_def slots_ok_def)
next
  case (pop_count s x)
  have c: "0 < rb_count (ring s)" "rb_count (ring s) \<le> n"
    using pop_count by (simp_all add: spsc_inv_def counts_ok_def)
  then have "wrap_sub (rb_count (ring s)) 1 = rb_count (ring s) - 1"
    using pop_count(3) by (intro wrap_sub_small) linarith+
  with pop_count c show ?case by (auto simp: spsc_inv_def spsc_counts indices_ok_def slots_ok_def)
qed

lemma spsc_reachable_inv:
  assumes "n < usize_bound" "spsc_reachable d n s"
  shows "spsc_inv n s"
  using assms(2)
  by induction (use assms(1) in \<open>blast intro: spsc_inv_init push_step_inv pop_step_inv\<close>)+

text \<open>Neither side can get stuck: every access the code makes is inside the array.\<close>

lemma push_step_total:
  assumes "spsc_inv n s"
  shows "\<exists>s'. push_step s s'"
proof (cases "ppc s")
  case PIdle
  then show ?thesis by (cases "rb_is_full (ring s)") (blast intro: push_step.intros)+
next
  case (PChecked x)
  then have "rb_head (ring s) < length (rb_buffer (ring s))"
    using assms by (auto simp: spsc_inv_def counts_ok_def indices_ok_def intro!: mod_less_divisor)
  then show ?thesis using PChecked push_step.push_written[OF PChecked] by (fastforce simp: idx_set_def)
next
  case (PWritten h)
  then have "0 < rb_capacity (ring s)"
    using assms by (auto simp: spsc_inv_def counts_ok_def rb_capacity_def)
  then show ?thesis using push_step.push_head[OF PWritten] by (fastforce simp: umod_def)
qed (blast intro: push_step.intros)

lemma pop_step_total:
  assumes "spsc_inv n s"
  shows "\<exists>s'. pop_step s s'"
proof (cases "cpc s")
  case CIdle
  then show ?thesis by (cases "rb_is_empty (ring s)") (blast intro: pop_step.intros)+
next
  case CChecked
  then have "rb_tail (ring s) < length (rb_buffer (ring s))"
    using assms by (auto simp: spsc_inv_def counts_ok_def indices_ok_def intro!: mod_less_divisor)
  then show ?thesis using pop_step.pop_read[OF CChecked] by (fastforce simp: idx_def)
next
  case (CRead t x)
  then have "0 < rb_capacity (ring s)"
    using assms by (auto simp: spsc_inv_def counts_ok_def rb_capacity_def)
  then show ?thesis using pop_step.pop_tail[OF CRead] by (fastforce simp: umod_def)
qed (blast intro: pop_step.intros)

subsection \<open>Properties\<close>

text \<open>
  C2. Whatever the interleaving of one producer and one consumer, the items the consumer has
  taken are, in order, a prefix of the items the producer has written: nothing is lost,
  duplicated, reordered or read before it was written; the published count never exceeds the
  capacity, and neither side can get stuck in a panic.
\<close>

theorem spsc_ring_fifo:
  assumes "n < usize_bound" "spsc_reachable d n s"
  shows "taken s = take (length (taken s)) (written s) \<and> length (taken s) \<le> length (written s) \<and>
         rb_count (ring s) \<le> n \<and> (\<exists>s'. push_step s s') \<and> (\<exists>s'. pop_step s s')"
proof -
  have inv: "spsc_inv n s" using spsc_reachable_inv[OF assms] .
  moreover from inv have "taken s = take (length (taken s)) (written s)"
    "length (taken s) \<le> length (written s)" "rb_count (ring s) \<le> n"
    by (auto simp: spsc_inv_def counts_ok_def slots_ok_def)
  ultimately show ?thesis using push_step_total[OF inv] pop_step_total[OF inv] by blast
qed

text \<open>A run with both sides inside the buffer at once, for the witnesses.\<close>

lemma spsc_push_one:
  assumes "spsc_reachable d n s" "ppc s = PIdle" "\<not> rb_is_full (ring s)"
  shows "spsc_reachable d n (s\<lparr>ppc := PChecked x\<rparr>)"
  using assms by (blast intro: spsc_reachable.intros push_step.intros)

lemma spsc_example:
  "spsc_reachable (0::nat) 2 \<lparr>ring = \<lparr>rb_buffer = [7, 0], rb_head = 1, rb_tail = 0, rb_count = 1\<rparr>,
     ppc = PChecked 8, cpc = CChecked, written = [7], taken = []\<rparr>" (is "spsc_reachable 0 2 ?s5")
proof -
  define s0 :: "nat spsc" where "s0 = spsc_init 0 2"
  have s0: "s0 = \<lparr>ring = \<lparr>rb_buffer = [0, 0], rb_head = 0, rb_tail = 0, rb_count = 0\<rparr>,
      ppc = PIdle, cpc = CIdle, written = [], taken = []\<rparr>"
    by (simp add: s0_def spsc_init_def rb_new_def numeral_2_eq_2)
  have "spsc_reachable 0 2 s0" unfolding s0_def by (rule spsc_start)
  then have "spsc_reachable 0 2 (s0\<lparr>ppc := PChecked 7\<rparr>)"
    by (rule spsc_push_one) (simp_all add: s0 rb_is_full_def rb_capacity_def)
  then have "spsc_reachable 0 2 (s0\<lparr>ring := (ring s0)\<lparr>rb_buffer := [7, 0]\<rparr>, ppc := PWritten 0, written := [7]\<rparr>)"
    by (rule spsc_push) (use push_step.push_written[of "s0\<lparr>ppc := PChecked 7\<rparr>" 7 "[7, 0]"] in
        \<open>simp add: s0 idx_set_def\<close>)
  then have "spsc_reachable 0 2 (s0\<lparr>ring := (ring s0)\<lparr>rb_buffer := [7, 0], rb_head := 1\<rparr>, ppc := PHeadStored, written := [7]\<rparr>)"
    by (rule spsc_push) (use push_step.push_head[of "s0\<lparr>ring := (ring s0)\<lparr>rb_buffer := [7, 0]\<rparr>, ppc := PWritten 0, written := [7]\<rparr>" 0 1] in
        \<open>simp add: s0 umod_def rb_capacity_def\<close>)
  then have r4: "spsc_reachable 0 2 (s0\<lparr>ring := (ring s0)\<lparr>rb_buffer := [7, 0], rb_head := 1, rb_count := 1\<rparr>, ppc := PIdle, written := [7]\<rparr>)"
    by (rule spsc_push) (use push_step.push_count[of "s0\<lparr>ring := (ring s0)\<lparr>rb_buffer := [7, 0], rb_head := 1\<rparr>, ppc := PHeadStored, written := [7]\<rparr>"] in
        \<open>simp add: s0 wrap_add_def\<close>)
  from spsc_push_one[OF r4, of 8] have r5: "spsc_reachable 0 2 (?s5\<lparr>cpc := CIdle\<rparr>)"
    by (simp add: s0 rb_is_full_def rb_capacity_def)
  have "pop_step (?s5\<lparr>cpc := CIdle\<rparr>) ?s5"
    using pop_step.pop_checked[of "?s5\<lparr>cpc := CIdle\<rparr>"] by (simp add: rb_is_empty_def)
  with r5 show ?thesis by (rule spsc_pop)
qed

theorem spsc_ring_fifo_witness:
  "\<exists>s :: nat spsc. spsc_reachable 0 2 s \<and> written s = [7] \<and> taken s = take (length (taken s)) (written s) \<and>
     rb_count (ring s) \<le> 2 \<and> (\<exists>s'. push_step s s') \<and> (\<exists>s'. pop_step s s')"
  using spsc_ring_fifo[OF _ spsc_example] spsc_example by (intro exI[of _ "\<lparr>ring = \<lparr>rb_buffer = [7, 0], rb_head = 1, rb_tail = 0, rb_count = 1\<rparr>,
     ppc = PChecked 8, cpc = CChecked, written = [7], taken = []\<rparr>"]) simp

text \<open>
  No data race on the array: when the producer is about to write its slot and the consumer
  is about to read its own, the two slots are different cells of the array.
\<close>

theorem spsc_ring_race_free:
  assumes "n < usize_bound" "spsc_reachable d n s" "ppc s = PChecked x" "cpc s = CChecked"
  shows "rb_head (ring s) < n \<and> rb_tail (ring s) < n \<and> rb_head (ring s) \<noteq> rb_tail (ring s)"
proof -
  let ?w = "length (written s)" and ?t = "length (taken s)"
  have inv: "spsc_inv n s" using spsc_reachable_inv[OF assms(1,2)] .
  then have room: "?t < ?w" "?w < n + ?t" "0 < n"
    using assms(3,4) by (auto simp: spsc_inv_def counts_ok_def)
  have ix: "rb_head (ring s) = ?w mod n" "rb_tail (ring s) = ?t mod n"
    using inv assms(3,4) by (auto simp: spsc_inv_def indices_ok_def)
  moreover have "?w mod n \<noteq> ?t mod n"
  proof
    assume "?w mod n = ?t mod n"
    moreover have "?w - ?t < n" using room by linarith
    ultimately have "?w - ?t = 0"
      using mod_add_inj[of "?w - ?t" n 0 ?t] room by simp
    then show False using room by linarith
  qed
  ultimately show ?thesis using room by simp
qed

theorem spsc_ring_race_free_witness:
  "\<exists>s :: nat spsc. spsc_reachable 0 2 s \<and> ppc s = PChecked 8 \<and> cpc s = CChecked \<and>
     rb_head (ring s) \<noteq> rb_tail (ring s)"
  using spsc_ring_race_free[OF _ spsc_example] spsc_example
  by (intro exI[of _ "\<lparr>ring = \<lparr>rb_buffer = [7, 0], rb_head = 1, rb_tail = 0, rb_count = 1\<rparr>,
     ppc = PChecked 8, cpc = CChecked, written = [7], taken = []\<rparr>"]) simp

end
