(* ===== verification/Can_Scheduler.thy ===== *)
theory Can_Scheduler
  imports Uproto_Prelude "HOL-Library.Multiset"
begin

text \<open>
  \<^verbatim>\<open>CAN/src/19/CAN_Message_Scheduling.rs\<close>: time-triggered, event-triggered and hybrid
  scheduling of CAN messages into a priority queue that is transmitted lowest identifier first.
  The clock is an argument. Triggers and data providers are closures over state of their own,
  which is the type \<open>'w\<close>.
\<close>

subsection \<open>Messages and the priority queue\<close>

record can_message =
  msg_id :: u32
  msg_data :: "u8 list"
  msg_dlc :: u8
  msg_timestamp :: nat

definition can_message_new :: "nat \<Rightarrow> u32 \<Rightarrow> can_message" where
  "can_message_new now i = \<lparr>msg_id = i, msg_data = replicate 8 0, msg_dlc = 0, msg_timestamp = now\<rparr>"

datatype ordering = Less | Equal | Greater

definition u32_cmp :: "u32 \<Rightarrow> u32 \<Rightarrow> ordering" where
  "u32_cmp a b = (if a < b then Less else if a = b then Equal else Greater)"

definition priority_eq :: "can_message \<Rightarrow> can_message \<Rightarrow> bool" where
  "priority_eq a b \<longleftrightarrow> msg_id a = msg_id b"

text \<open>The reversed order: a lower identifier is greater.\<close>

definition priority_cmp :: "can_message \<Rightarrow> can_message \<Rightarrow> ordering" where
  "priority_cmp a b = u32_cmp (msg_id b) (msg_id a)"

text \<open>
  A binary heap is the list of its elements. Its \<open>pop\<close> removes a greatest element; which one of
  several equal ones is not specified, so the choice of an index is a parameter.
\<close>

definition is_greatest :: "can_message list \<Rightarrow> nat \<Rightarrow> bool" where
  "is_greatest q i \<longleftrightarrow> i < length q \<and> (\<forall>m \<in> set q. priority_cmp m (q ! i) \<noteq> Greater)"

definition heap_push :: "can_message list \<Rightarrow> can_message \<Rightarrow> can_message list" where
  "heap_push q m = q @ [m]"

definition heap_pop :: "(can_message list \<Rightarrow> nat) \<Rightarrow> can_message list \<Rightarrow> (can_message \<times> can_message list) option" where
  "heap_pop pick q =
     (if q = [] then None
      else let i = min (pick q) (length q - 1) in Some (q ! i, take i q @ drop (Suc i) q))"

lemma heap_pop_length: "heap_pop pick q = Some (m, q') \<Longrightarrow> length q = Suc (length q')"
  by (cases q) (auto simp: heap_pop_def Let_def split: if_splits)

subsection \<open>Schedule entries\<close>

record 'w schedule_entry =
  message :: can_message
  period :: "nat option"
  deadline :: nat
  trigger :: "('w \<Rightarrow> 'w \<times> bool) option"
  data_provider :: "('w \<Rightarrow> u8 list \<Rightarrow> u8 list) option"

definition time_triggered :: "nat \<Rightarrow> u32 \<Rightarrow> nat \<Rightarrow> nat \<Rightarrow> ('w \<Rightarrow> u8 list \<Rightarrow> u8 list) \<Rightarrow> 'w schedule_entry" where
  "time_triggered now i per dl provider =
     \<lparr>message = can_message_new now i, period = Some per, deadline = dl, trigger = None,
      data_provider = Some provider\<rparr>"

definition event_triggered ::
  "nat \<Rightarrow> u32 \<Rightarrow> nat \<Rightarrow> ('w \<Rightarrow> 'w \<times> bool) \<Rightarrow> ('w \<Rightarrow> u8 list \<Rightarrow> u8 list) option \<Rightarrow> 'w schedule_entry" where
  "event_triggered now i dl trig provider =
     \<lparr>message = can_message_new now i, period = None, deadline = dl, trigger = Some trig,
      data_provider = provider\<rparr>"

definition hybrid ::
  "nat \<Rightarrow> u32 \<Rightarrow> nat \<Rightarrow> nat \<Rightarrow> ('w \<Rightarrow> 'w \<times> bool) \<Rightarrow> ('w \<Rightarrow> u8 list \<Rightarrow> u8 list) \<Rightarrow> 'w schedule_entry" where
  "hybrid now i per dl trig provider =
     \<lparr>message = can_message_new now i, period = Some per, deadline = dl, trigger = Some trig,
      data_provider = Some provider\<rparr>"

record 'w can_scheduler =
  entries :: "'w schedule_entry list"
  tx_queue :: "can_message list"

definition scheduler_new :: "'w can_scheduler" where
  "scheduler_new = \<lparr>entries = [], tx_queue = []\<rparr>"

definition add_entry :: "'w can_scheduler \<Rightarrow> 'w schedule_entry \<Rightarrow> 'w can_scheduler" where
  "add_entry s e = s\<lparr>entries := entries s @ [e]\<rparr>"

subsection \<open>Scheduling\<close>

definition prepare_message :: "nat \<Rightarrow> 'w \<Rightarrow> can_message list \<Rightarrow> 'w schedule_entry \<Rightarrow> 'w schedule_entry \<times> can_message list" where
  "prepare_message now w q e =
     (let m1 = (case data_provider e of
                  Some provider \<Rightarrow> (message e)\<lparr>msg_data := provider w (msg_data (message e))\<rparr>
                | None \<Rightarrow> message e);
          m2 = m1\<lparr>msg_timestamp := now\<rparr>
      in (e\<lparr>message := m2\<rparr>, heap_push q m2))"

text \<open>
  The body of each loop: the closures' state, the entry and the queue after it.
  \<^verbatim>\<open>Instant::duration_since\<close> saturates at zero.
\<close>

definition elapsed :: "nat \<Rightarrow> 'w schedule_entry \<Rightarrow> nat" where
  "elapsed now e = now - msg_timestamp (message e)"

definition time_body :: "nat \<Rightarrow> 'w \<Rightarrow> can_message list \<Rightarrow> 'w schedule_entry \<Rightarrow> 'w \<times> 'w schedule_entry \<times> can_message list" where
  "time_body now w q e =
     (case period e of
        Some per \<Rightarrow>
          if elapsed now e \<ge> per then (let (e', q') = prepare_message now w q e in (w, e', q'))
          else (w, e, q)
      | None \<Rightarrow> (w, e, q))"

definition event_body :: "nat \<Rightarrow> 'w \<Rightarrow> can_message list \<Rightarrow> 'w schedule_entry \<Rightarrow> 'w \<times> 'w schedule_entry \<times> can_message list" where
  "event_body now w q e =
     (case trigger e of
        Some trig \<Rightarrow>
          (let (w', fired) = trig w in
           if fired \<and> elapsed now e < deadline e
           then (let (e', q') = prepare_message now w' q e in (w', e', q'))
           else (w', e, q))
      | None \<Rightarrow> (w, e, q))"

definition hybrid_body :: "nat \<Rightarrow> 'w \<Rightarrow> can_message list \<Rightarrow> 'w schedule_entry \<Rightarrow> 'w \<times> 'w schedule_entry \<times> can_message list" where
  "hybrid_body now w q e =
     (let due = (case period e of Some per \<Rightarrow> elapsed now e \<ge> per | None \<Rightarrow> False);
          (w', fired) = (case trigger e of Some trig \<Rightarrow> trig w | None \<Rightarrow> (w, False))
      in if due \<or> fired then (let (e', q') = prepare_message now w' q e in (w', e', q'))
         else (w', e, q))"

fun for_entries :: "('w \<Rightarrow> can_message list \<Rightarrow> 'w schedule_entry \<Rightarrow> 'w \<times> 'w schedule_entry \<times> can_message list) \<Rightarrow>
    'w \<Rightarrow> can_message list \<Rightarrow> 'w schedule_entry list \<Rightarrow> 'w \<times> 'w schedule_entry list \<times> can_message list" where
  "for_entries body w q [] = (w, [], q)"
| "for_entries body w q (e # es) =
     (let (w1, e', q1) = body w q e; (w2, es', q2) = for_entries body w1 q1 es in (w2, e' # es', q2))"

definition run_bodies :: "('w \<Rightarrow> can_message list \<Rightarrow> 'w schedule_entry \<Rightarrow> 'w \<times> 'w schedule_entry \<times> can_message list) \<Rightarrow>
    'w \<Rightarrow> 'w can_scheduler \<Rightarrow> 'w \<times> 'w can_scheduler" where
  "run_bodies body w s =
     (let (w', es, q) = for_entries body w (tx_queue s) (entries s) in (w', s\<lparr>entries := es, tx_queue := q\<rparr>))"

definition process_time_triggered :: "nat \<Rightarrow> 'w \<Rightarrow> 'w can_scheduler \<Rightarrow> 'w \<times> 'w can_scheduler" where
  "process_time_triggered now w s = run_bodies (time_body now) w s"

definition process_event_triggered :: "nat \<Rightarrow> 'w \<Rightarrow> 'w can_scheduler \<Rightarrow> 'w \<times> 'w can_scheduler" where
  "process_event_triggered now w s = run_bodies (event_body now) w s"

definition process_hybrid :: "nat \<Rightarrow> 'w \<Rightarrow> 'w can_scheduler \<Rightarrow> 'w \<times> 'w can_scheduler" where
  "process_hybrid now w s = run_bodies (hybrid_body now) w s"

text \<open>
  The transmission loop: \<open>transmit\<close> is the closure, with a state of its own; its calls are listed.
  A failed transmission is only reported. The loop pops from the queue until nothing is popped; it gives the queue it leaves.
\<close>

function transmit_loop ::
  "(can_message list \<Rightarrow> nat) \<Rightarrow> ('t \<Rightarrow> can_message \<Rightarrow> 't \<times> (string + unit)) \<Rightarrow> 't \<Rightarrow> can_message list \<Rightarrow>
    't \<times> can_message list \<times> can_message list" where
  "transmit_loop pick transmit t q =
     (case heap_pop pick q of
        None \<Rightarrow> (t, [], q)
      | Some (m, q') \<Rightarrow>
          (let (t1, _) = transmit t m; (t2, ms, q2) = transmit_loop pick transmit t1 q' in (t2, m # ms, q2)))"
  by pat_completeness auto
termination
  by (relation "measure (\<lambda>(_, _, _, q). length q)") (auto dest: heap_pop_length)

declare transmit_loop.simps [simp del]

definition transmit_queue ::
  "(can_message list \<Rightarrow> nat) \<Rightarrow> ('t \<Rightarrow> can_message \<Rightarrow> 't \<times> (string + unit)) \<Rightarrow> 't \<Rightarrow> 'w can_scheduler \<Rightarrow>
    't \<times> can_message list \<times> 'w can_scheduler" where
  "transmit_queue pick transmit t s =
     (let (t', ms, q) = transmit_loop pick transmit t (tx_queue s) in (t', ms, s\<lparr>tx_queue := q\<rparr>))"

definition queue_depth :: "'w can_scheduler \<Rightarrow> nat" where
  "queue_depth s = length (tx_queue s)"

text \<open>The data providers of the program.\<close>

definition engine_rpm_provider :: "u8 list \<Rightarrow> u8 list" where
  "engine_rpm_provider d =
     (let rpm = (3500 :: u16) in d[0 := ucast (drop_bit 8 rpm), 1 := ucast (rpm AND 0xFF)])"

definition temperature_provider :: "u8 list \<Rightarrow> u8 list" where
  "temperature_provider d = d[0 := 85]"

definition vehicle_speed_provider :: "u8 list \<Rightarrow> u8 list" where
  "vehicle_speed_provider d =
     (let speed = (120 :: u16) in d[0 := ucast (drop_bit 8 speed), 1 := ucast (speed AND 0xFF)])"

subsection \<open>Transmission order\<close>

definition picks_greatest :: "(can_message list \<Rightarrow> nat) \<Rightarrow> bool" where
  "picks_greatest pick \<longleftrightarrow> (\<forall>q. q \<noteq> [] \<longrightarrow> is_greatest q (pick q))"

lemma priority_cmp_greater [simp]: "priority_cmp a b = Greater \<longleftrightarrow> msg_id a < msg_id b"
  by (auto simp: priority_cmp_def u32_cmp_def)

lemma heap_pop_greatest:
  assumes "picks_greatest pick" "heap_pop pick q = Some (m, q')"
  shows "mset q = add_mset m (mset q') \<and> (\<forall>x \<in> set q'. msg_id m \<le> msg_id x)"
proof -
  have ne: "q \<noteq> []" using assms(2) by (auto simp: heap_pop_def)
  let ?i = "pick q"
  have g: "?i < length q" "\<forall>x \<in> set q. msg_id (q ! ?i) \<le> msg_id x"
    using assms(1) ne by (auto simp: picks_greatest_def is_greatest_def not_less)
  then have "min ?i (length q - 1) = ?i" by simp
  then have m: "m = q ! ?i" "q' = take ?i q @ drop (Suc ?i) q"
    using assms(2) ne by (auto simp: heap_pop_def Let_def)
  have "q = take ?i q @ m # drop (Suc ?i) q" using g(1) m by (simp add: id_take_nth_drop)
  then have "mset q = add_mset m (mset q')" using m(2) by (metis mset_append mset.simps(2) union_mset_add_mset_right)
  moreover from this have "set q' \<subseteq> set q" by (metis set_mset_add_mset_insert set_mset_mset subset_insertI)
  ultimately show ?thesis using g(2) m(1) by auto
qed

lemma transmit_loop_sorted:
  assumes "picks_greatest pick" "transmit_loop pick transmit t q = (t', sent, rest)"
  shows "mset sent = mset q \<and> sorted (map msg_id sent) \<and> rest = []"
  using assms(2)
proof (induction "length q" arbitrary: q t sent)
  case 0
  then show ?case using transmit_loop.simps [of pick transmit t q] by (simp add: heap_pop_def)
next
  case (Suc n)
  then obtain m q' where pop: "heap_pop pick q = Some (m, q')"
    by (cases "heap_pop pick q") (auto simp: heap_pop_def Let_def split: if_splits)
  have n: "n = length q'" using heap_pop_length [OF pop] Suc.hyps(2) by simp
  obtain ms where ms: "transmit_loop pick transmit (fst (transmit t m)) q' = (t', ms, rest)" "sent = m # ms"
    using Suc.prems transmit_loop.simps [of pick transmit t q] by (auto simp: pop split: prod.splits)
  note ih = Suc.hyps(1) [OF n ms(1)]
  then have "set ms = set q'" by (metis set_mset_mset)
  with ih heap_pop_greatest [OF assms(1) pop] ms(2) show ?case by simp
qed

subsection \<open>What one pass puts into the queue\<close>

lemma prepare_message_entry:
  "prepare_message now w q e = (e', q') \<Longrightarrow>
     q' = q @ [message e'] \<and> msg_timestamp (message e') = now \<and> msg_id (message e') = msg_id (message e) \<and>
     trigger e' = trigger e \<and> period e' = period e \<and> deadline e' = deadline e"
  by (auto simp: prepare_message_def heap_push_def Let_def split: option.splits)

text \<open>
  An entry is stale when its last transmission lies its deadline or more in the past.
\<close>

definition stale :: "nat \<Rightarrow> 'w schedule_entry \<Rightarrow> bool" where
  "stale now e \<longleftrightarrow> deadline e \<le> elapsed now e"

lemma stale_mono: "stale now e \<Longrightarrow> now \<le> later \<Longrightarrow> stale later e"
  by (auto simp: stale_def elapsed_def)

lemma event_body_stale: "stale now e \<Longrightarrow> \<exists>w'. event_body now w q e = (w', e, q)"
  by (auto simp: event_body_def stale_def split: option.splits prod.splits)

lemma for_entries_stale:
  "(\<forall>e \<in> set es. stale now e) \<Longrightarrow> \<exists>w'. for_entries (event_body now) w q es = (w', es, q)"
proof (induction es arbitrary: w)
  case (Cons e es)
  obtain w1 where w1: "event_body now w q e = (w1, e, q)" using event_body_stale [of now e w q] Cons.prems by auto
  obtain w2 where "for_entries (event_body now) w1 q es = (w2, es, q)" using Cons by auto
  with w1 show ?case by simp
qed simp

text \<open>Event-triggered passes at the times of a list.\<close>

fun event_passes :: "nat list \<Rightarrow> 'w \<Rightarrow> 'w can_scheduler \<Rightarrow> 'w \<times> 'w can_scheduler" where
  "event_passes [] w s = (w, s)"
| "event_passes (t # ts) w s = (let (w', s') = process_event_triggered t w s in event_passes ts w' s')"

subsection \<open>Properties\<close>

text \<open>
  C12. Transmitting the queue hands every queued message to the driver exactly once, in
  non-decreasing order of identifier (highest priority first), whatever the driver answers, and
  leaves the queue empty. This holds for every heap that pops a greatest element.
\<close>
theorem transmit_queue_by_priority:
  assumes "picks_greatest pick" "transmit_queue pick transmit t s = (t', sent, s')"
  shows "mset sent = mset (tx_queue s) \<and> sorted (map msg_id sent) \<and> queue_depth s' = 0 \<and> entries s' = entries s"
  using transmit_loop_sorted [OF assms(1), of transmit t "tx_queue s"] assms(2)
  by (fastforce simp: transmit_queue_def queue_depth_def split: prod.splits)

text \<open>The first greatest element.\<close>

definition first_greatest :: "can_message list \<Rightarrow> nat" where
  "first_greatest q = length (takeWhile (\<lambda>m. \<exists>x \<in> set q. msg_id x < msg_id m) q)"

lemma length_takeWhile_short: "\<not> P m \<Longrightarrow> m \<in> set xs \<Longrightarrow> length (takeWhile P xs) < length xs"
  by (induction xs) auto

lemma first_greatest_picks: "picks_greatest first_greatest"
  unfolding picks_greatest_def
proof (intro allI impI)
  fix q :: "can_message list"
  assume ne: "q \<noteq> []"
  let ?P = "\<lambda>m. \<exists>x \<in> set q. msg_id x < msg_id m"
  have fin: "finite (msg_id ` set q)" "msg_id ` set q \<noteq> {}" using ne by auto
  obtain m where "m \<in> set q" "msg_id m = Min (msg_id ` set q)" using Min_in [OF fin] by auto
  then have "\<not> ?P m" using Min_le [OF fin(1)] by (auto simp: not_less)
  then have lt: "length (takeWhile ?P q) < length q"
    using \<open>m \<in> set q\<close> by (rule length_takeWhile_short)
  then have "\<not> ?P (q ! length (takeWhile ?P q))" by (rule nth_length_takeWhile)
  with lt show "is_greatest q (first_greatest q)"
    by (auto simp: is_greatest_def first_greatest_def not_less)
qed

theorem transmit_queue_by_priority_witness:
  "let a = can_message_new 0 0x300; b = can_message_new 0 0x100; c = can_message_new 0 0x200;
       r = transmit_queue first_greatest (\<lambda>t m. (t, Inr ())) (0 :: nat) ((scheduler_new :: unit can_scheduler)\<lparr>tx_queue := [a, b, c]\<rparr>) in
   mset (fst (snd r)) = mset [a, b, c] \<and> sorted (map msg_id (fst (snd r)))"
proof -
  define a b c where "a = can_message_new 0 0x300" and "b = can_message_new 0 0x100" and "c = can_message_new 0 0x200"
  let ?r = "transmit_queue first_greatest (\<lambda>t m. (t, Inr ())) (0 :: nat) ((scheduler_new :: unit can_scheduler)\<lparr>tx_queue := [a, b, c]\<rparr>)"
  have "?r = (fst ?r, fst (snd ?r), snd (snd ?r))" by (simp only: prod.collapse)
  from transmit_queue_by_priority [OF first_greatest_picks this] show ?thesis
    unfolding Let_def a_def [symmetric] b_def [symmetric] c_def [symmetric] by simp
qed

text \<open>
  The deadline test of event-triggered scheduling is inverted: once every entry has gone
  unsent for its deadline, no event, at that or any later time, ever puts a message into the queue
  again: the scheduler and its entries stay as they are for ever.
\<close>
theorem stale_events_never_sent:
  assumes "\<forall>e \<in> set (entries s). stale now e" "\<forall>t \<in> set ts. now \<le> t"
  shows "\<exists>w'. event_passes ts w s = (w', s)"
  using assms(2)
proof (induction ts arbitrary: w)
  case (Cons t ts)
  have "\<forall>e \<in> set (entries s). stale t e" using assms(1) Cons.prems stale_mono by auto
  from for_entries_stale [OF this, of w "tx_queue s"] obtain w1 where
    "process_event_triggered t w s = (w1, s)"
    by (auto simp: process_event_triggered_def run_bodies_def)
  with Cons show ?case by simp
qed simp

theorem stale_events_never_sent_witness:
  "let e = event_triggered 0 0x400 50 (\<lambda>w. (w, True)) None in
   \<exists>w'. event_passes [60, 70, 1000] () (add_entry scheduler_new e) = (w', add_entry scheduler_new e)"
  unfolding Let_def
  by (rule stale_events_never_sent [where now = 60])
    (auto simp: add_entry_def scheduler_new_def stale_def elapsed_def event_triggered_def can_message_new_def)

end
