(* ===== verification/Byte_Codec.thy ===== *)
theory Byte_Codec
  imports Uproto_Prelude
begin

text \<open>
  Fixed-width integers as bytes: \<open>to_be_bytes\<close>, \<open>from_be_bytes\<close> and their little-endian
  counterparts, with the round trips every wire format of the sources relies on, and the
  masks that cut a byte into fields.
\<close>

lemma u8_bound: "unat (b :: u8) < 256"
  using unsigned_less[of b, where 'a = nat] by simp

named_theorems codec \<open>rewrite rules for encoding and decoding\<close>

subsection \<open>Big-endian and little-endian integers\<close>

fun be_bytes :: "nat \<Rightarrow> nat \<Rightarrow> bytes" where
  "be_bytes 0 v = []"
| "be_bytes (Suc k) v = be_bytes k (v div 256) @ [of_nat v]"

definition be_nat :: "bytes \<Rightarrow> nat" where
  "be_nat bs = foldl (\<lambda>a b. a * 256 + unat b) 0 bs"

definition le_bytes :: "nat \<Rightarrow> nat \<Rightarrow> bytes" where
  "le_bytes k v = rev (be_bytes k v)"

definition le_nat :: "bytes \<Rightarrow> nat" where
  "le_nat bs = be_nat (rev bs)"

lemma length_be_bytes [simp]: "length (be_bytes k v) = k"
  by (induction k arbitrary: v) simp_all

lemma length_le_bytes [simp]: "length (le_bytes k v) = k"
  by (simp add: le_bytes_def)

lemma be_nat_snoc [simp]: "be_nat (bs @ [b]) = be_nat bs * 256 + unat b"
  by (simp add: be_nat_def)

lemma be_nat_Nil [simp]: "be_nat [] = 0"
  by (simp add: be_nat_def)

lemma unat_of_nat_u8: "unat (of_nat v :: u8) = v mod 256"
  by (simp add: unat_of_nat take_bit_eq_mod)

lemma be_nat_be_bytes: "be_nat (be_bytes k v) = v mod 256 ^ k"
proof (induction k arbitrary: v)
  case (Suc k)
  then show ?case by (simp add: unat_of_nat_u8 mod_mult2_eq mult.commute)
qed simp

lemma be_nat_be_bytes_small [codec]: "v < 256 ^ k \<Longrightarrow> be_nat (be_bytes k v) = v"
  by (simp add: be_nat_be_bytes)

lemma le_nat_le_bytes_small [codec]: "v < 256 ^ k \<Longrightarrow> le_nat (le_bytes k v) = v"
  by (simp add: le_nat_def le_bytes_def be_nat_be_bytes)

lemma be_bytes_be_nat [codec]: "be_bytes (length bs) (be_nat bs) = bs"
proof (induction bs rule: rev_induct)
  case (snoc b bs)
  have "(be_nat bs * 256 + unat b) div 256 = be_nat bs"
    using u8_bound[of b] by simp
  moreover have "(of_nat (be_nat bs * 256 + unat b) :: u8) = b"
    by (rule word_unat_eq_iff [THEN iffD2]) (use u8_bound[of b] in \<open>simp only: unat_of_nat_u8, simp\<close>)
  ultimately show ?case using snoc by simp
qed simp

lemma le_bytes_le_nat [codec]: "le_bytes (length bs) (le_nat bs) = bs"
  using be_bytes_be_nat[of "rev bs"] by (simp add: le_bytes_def le_nat_def)

lemma be_nat_bound: "be_nat bs < 256 ^ length bs"
proof (induction bs rule: rev_induct)
  case (snoc b bs)
  then show ?case using u8_bound[of b] by simp
qed simp

lemma le_nat_bound: "le_nat bs < 256 ^ length bs"
  using be_nat_bound[of "rev bs"] by (simp add: le_nat_def)

subsection \<open>Fields of a byte\<close>

lemma u8_low7: "unat (w AND 0x7F :: u8) = unat w mod 128"
proof -
  have "(w AND 0x7F :: u8) = take_bit 7 w" by (simp add: take_bit_eq_mask mask_eq_exp_minus_1)
  then show ?thesis by (simp only: unsigned_take_bit_eq) (simp add: take_bit_eq_mod)
qed

lemma u8_low4: "unat (w AND 0x0F :: u8) = unat w mod 16"
proof -
  have "(w AND 0x0F :: u8) = take_bit 4 w" by (simp add: take_bit_eq_mask mask_eq_exp_minus_1)
  then show ?thesis by (simp only: unsigned_take_bit_eq) (simp add: take_bit_eq_mod)
qed

lemma u8_top_bit: "(w AND 0x80 = (0 :: u8)) = (unat w < 128)"
proof -
  have "(w AND 0x80 = (0 :: u8)) = (\<not> bit w 7)"
    using and_exp_eq_0_iff_not_bit[of w 7] by simp
  also have "bit w 7 = odd (unat w div 128)"
  proof -
    have "bit w 7 = bit (unat w) 7" by (simp add: bit_unsigned_iff)
    then show ?thesis by (simp add: bit_iff_odd)
  qed
  also have "(\<not> odd (unat w div 128)) = (unat w < 128)"
  proof (cases "unat w < 128")
    case False
    then have "unat w div 128 = 1" using u8_bound[of w] by (simp add: div_nat_eqI)
    with False show ?thesis by simp
  qed simp
  finally show ?thesis .
qed

lemma ucast_u8_u32 [simp]: "ucast (ucast b :: u32) = (b :: u8)"
  by (rule bit_word_eqI) (auto simp: bit_ucast_iff)

end
