(* ===== verification/Bus_Io.thy ===== *)
theory Bus_Io
  imports Byte_Codec "HOL-Library.More_List"
begin

text \<open>
  Drivers that act on the outside world. An operation takes the state \<open>'w\<close> of what it acts on
  (pins, a bus, a peripheral) and returns the new state with its \<open>Result\<close>; \<open>try_io\<close> is Rust's
  \<open>?\<close> operator on such operations: an error is returned at once, with the world as the failing
  operation left it. An operation that may panic as well returns a \<open>run\<close> of such a pair and is
  continued with \<open>try_run\<close>.
\<close>

named_theorems io_simps \<open>evaluation rules for sequences of fallible operations\<close>

type_synonym ('w, 'e, 'a) io = "'w \<times> ('e + 'a)"

definition try_io :: "('w, 'e, 'a) io \<Rightarrow> ('w \<Rightarrow> 'a \<Rightarrow> ('w, 'e, 'b) io) \<Rightarrow> ('w, 'e, 'b) io" where
  "try_io r k = (case r of (w, Inl e) \<Rightarrow> (w, Inl e) | (w, Inr a) \<Rightarrow> k w a)"

definition map_err :: "('e \<Rightarrow> 'f) \<Rightarrow> ('w, 'e, 'a) io \<Rightarrow> ('w, 'f, 'a) io" where
  "map_err f r = (case r of (w, Inl e) \<Rightarrow> (w, Inl (f e)) | (w, Inr a) \<Rightarrow> (w, Inr a))"

definition try_run :: "('w, 'e, 'a) io run \<Rightarrow> ('w \<Rightarrow> 'a \<Rightarrow> ('w, 'e, 'b) io run) \<Rightarrow> ('w, 'e, 'b) io run"
where
  "try_run m k = (case m of None \<Rightarrow> None
     | Some (w, Inl e) \<Rightarrow> Some (w, Inl e) | Some (w, Inr a) \<Rightarrow> k w a)"

lemma try_io_simps [simp, io_simps]:
  "try_io (w, Inl e) k = (w, Inl e)" "try_io (w, Inr a) k = k w a"
  by (simp_all add: try_io_def)

lemma map_err_simps [simp, io_simps]:
  "map_err f (w, Inl e) = (w, Inl (f e))" "map_err f (w, Inr a) = (w, Inr a)"
  by (simp_all add: map_err_def)

lemma fst_map_err [simp]: "fst (map_err f r) = fst r"
  by (cases r; cases "snd r") (auto simp: map_err_def split: sum.splits)

lemma try_run_simps [simp, io_simps]:
  "try_run None k = None" "try_run (Some (w, Inl e)) k = Some (w, Inl e)"
  "try_run (Some (w, Inr a)) k = k w a"
  by (simp_all add: try_run_def)

lemma try_io_split:
  "P (try_io r k) \<longleftrightarrow>
     (\<forall>w e. r = (w, Inl e) \<longrightarrow> P (w, Inl e)) \<and> (\<forall>w a. r = (w, Inr a) \<longrightarrow> P (k w a))"
  by (cases r; cases "snd r") auto

lemma try_run_split:
  "P (try_run m k) \<longleftrightarrow> (m = None \<longrightarrow> P None) \<and>
     (\<forall>w e. m = Some (w, Inl e) \<longrightarrow> P (Some (w, Inl e))) \<and>
     (\<forall>w a. m = Some (w, Inr a) \<longrightarrow> P (k w a))"
  by (cases m; cases "snd (the m)") auto

text \<open>What every operation of a sequence keeps of the world, the sequence keeps.\<close>

lemma try_io_keeps:
  "P (fst r) \<Longrightarrow> (\<And>w a. P w \<Longrightarrow> P (fst (k w a))) \<Longrightarrow> P (fst (try_io r k))"
  by (cases r; cases "snd r") auto

lemma try_io_Inr_iff:
  "try_io r k = (w', Inr b) \<longleftrightarrow> (\<exists>w a. r = (w, Inr a) \<and> k w a = (w', Inr b))"
  by (cases r; cases "snd r") auto

lemma try_run_Inr_iff:
  "try_run m k = Some (w', Inr b) \<longleftrightarrow> (\<exists>w a. m = Some (w, Inr a) \<and> k w a = Some (w', Inr b))"
  by (auto simp: try_run_def split: option.splits prod.splits sum.splits)

lemma try_run_Inl_iff:
  "try_run m k = Some (w', Inl e) \<longleftrightarrow>
     m = Some (w', Inl e) \<or> (\<exists>w a. m = Some (w, Inr a) \<and> k w a = Some (w', Inl e))"
  by (auto simp: try_run_def split: option.splits prod.splits sum.splits)

subsection \<open>The bits of a byte\<close>

unbundle bit_operations_syntax

text \<open>Most significant bit first, as they go over a serial line.\<close>

definition msb_bits :: "u8 \<Rightarrow> bool list" where
  "msb_bits b = map (bit b) (rev [0..<8])"

lemma low_bit_nonzero: "(drop_bit n (b :: u8) AND 1 \<noteq> 0) = bit b n"
  by (simp add: and_one_eq mod_2_eq_odd bit_iff_odd_drop_bit)

lemma len8: "LENGTH(8) = 8"
  by simp

lemma byte_bits_0_7:
  "(w :: u8) = v \<longleftrightarrow> (\<forall>n \<in> {0, 1, 2, 3, 4, 5, 6, 7}. bit w n = bit v n)"
proof -
  have "n < 8 \<longleftrightarrow> n \<in> {0, 1, 2, 3, 4, 5, 6, 7}" for n :: nat by auto
  then show ?thesis by (metis bit_word_eqI len8)
qed

lemma upt_0_8: "[0..<8] = [0, 1, 2, 3, 4, 5, 6, 7 :: nat]"
  by (simp add: upt_rec)

lemma msb_bits_list: "msb_bits b = [bit b 7, bit b 6, bit b 5, bit b 4, bit b 3, bit b 2, bit b 1, bit b 0]"
  by (simp add: msb_bits_def upt_0_8)

lemma length_msb_bits [simp]: "length (msb_bits b) = 8"
  by (simp add: msb_bits_def)

lemma fold_msb_bits:
  "fold (\<lambda>l byte. push_bit 1 byte OR (if l then 1 else 0)) (msb_bits b) 0 = (b :: u8)"
  unfolding byte_bits_0_7 by (simp add: msb_bits_list bit_or_iff bit_push_bit_iff bit_1_iff bit_0_eq)

end
