(* ===== verification/I2c_Timing.thy ===== *)
theory I2c_Timing
  imports Bus_Io
begin

unbundle bit_operations_syntax

text \<open>
  \<^verbatim>\<open>I2C/src/08/08.rs\<close>: a bit-banged I2C master that paces its lines by the timing parameters of a
  mode. The pins and the delay are a parameter, functions on the state \<open>'w\<close> of the board; times
  are nanoseconds, naturals where the source has \<open>u32\<close>, with the one sum that can overflow
  checked. The pull-up calculation, which is floating-point, is left out.
\<close>

subsection \<open>Modes and timing\<close>

datatype i2c_mode = Standard | Fast | FastPlus

record i2c_timing =
  t_su_dat :: nat
  t_hd_dat :: nat
  t_hd_sta :: nat
  t_su_sta :: nat
  t_su_sto :: nat
  t_buf :: nat
  t_low :: nat
  t_high :: nat
  tr_max :: nat
  tf_max :: nat

definition STANDARD :: i2c_timing where
  "STANDARD = \<lparr>t_su_dat = 250, t_hd_dat = 300, t_hd_sta = 4000, t_su_sta = 4700, t_su_sto = 4000,
     t_buf = 4700, t_low = 4700, t_high = 4000, tr_max = 1000, tf_max = 300\<rparr>"

definition FAST :: i2c_timing where
  "FAST = \<lparr>t_su_dat = 100, t_hd_dat = 300, t_hd_sta = 600, t_su_sta = 600, t_su_sto = 600,
     t_buf = 1300, t_low = 1300, t_high = 600, tr_max = 300, tf_max = 300\<rparr>"

definition FAST_PLUS :: i2c_timing where
  "FAST_PLUS = \<lparr>t_su_dat = 50, t_hd_dat = 0, t_hd_sta = 260, t_su_sta = 260, t_su_sto = 260,
     t_buf = 500, t_low = 500, t_high = 260, tr_max = 120, tf_max = 120\<rparr>"

definition for_mode :: "i2c_mode \<Rightarrow> i2c_timing" where
  "for_mode mode = (case mode of Standard \<Rightarrow> STANDARD | Fast \<Rightarrow> FAST | FastPlus \<Rightarrow> FAST_PLUS)"

definition add_u32 :: "profile \<Rightarrow> nat \<Rightarrow> nat \<Rightarrow> nat run" where
  "add_u32 p a b = (if a + b < 2 ^ 32 then Some (a + b)
     else case p of CheckedBuild \<Rightarrow> None | ReleaseBuild \<Rightarrow> Some ((a + b) mod 2 ^ 32))"

definition max_frequency_hz :: "profile \<Rightarrow> i2c_timing \<Rightarrow> nat run" where
  "max_frequency_hz p t = do {
     s \<leftarrow> add_u32 p (t_low t) (t_high t);
     s \<leftarrow> add_u32 p s (tr_max t);
     period_ns \<leftarrow> add_u32 p s (tf_max t);
     udiv 1000000000 period_ns
   }"

datatype i2c_error = Nack | ArbitrationLost | Timeout | InvalidTiming

definition verify_timing :: "i2c_timing \<Rightarrow> nat \<Rightarrow> nat \<Rightarrow> i2c_error + unit" where
  "verify_timing timing measured_tr_ns measured_tf_ns =
     (if measured_tr_ns > tr_max timing then Inl InvalidTiming
      else if measured_tf_ns > tf_max timing then Inl InvalidTiming
      else Inr ())"

subsection \<open>The master\<close>

record 'w i2c_pins =
  set_scl :: "bool \<Rightarrow> 'w \<Rightarrow> 'w"
  set_sda :: "bool \<Rightarrow> 'w \<Rightarrow> 'w"
  read_sda :: "'w \<Rightarrow> bool"
  delay_ns :: "nat \<Rightarrow> 'w \<Rightarrow> 'w"

record i2c_master =
  timing :: i2c_timing
  started :: bool

type_synonym ('w, 'a) bus_io = "(i2c_master \<times> 'w, i2c_error, 'a) io"

definition with_timing :: "'w i2c_pins \<Rightarrow> i2c_timing \<Rightarrow> 'w \<Rightarrow> i2c_master \<times> 'w" where
  "with_timing P t w = (\<lparr>timing = t, started = False\<rparr>, set_sda P True (set_scl P True w))"

definition i2c_master_new :: "'w i2c_pins \<Rightarrow> i2c_mode \<Rightarrow> 'w \<Rightarrow> i2c_master \<times> 'w" where
  "i2c_master_new P mode w =
     (\<lparr>timing = for_mode mode, started = False\<rparr>, set_sda P True (set_scl P True w))"

definition start :: "'w i2c_pins \<Rightarrow> i2c_master \<times> 'w \<Rightarrow> ('w, unit) bus_io" where
  "start P s =
     (let (m, w) = s; t = timing m;
          w = (if started m then
                 (let w = set_sda P True w;
                      w = delay_ns P (t_su_sta t) w;
                      w = set_scl P True w
                  in delay_ns P (t_su_sta t) w)
               else
                 (let w = delay_ns P (t_buf t) w;
                      w = set_scl P True w;
                      w = set_sda P True w
                  in delay_ns P (t_su_sta t) w));
          w = set_sda P False w;
          w = delay_ns P (t_hd_sta t) w;
          w = set_scl P False w;
          w = delay_ns P (t_hd_dat t) w
      in ((m\<lparr>started := True\<rparr>, w), Inr ()))"

definition stop :: "'w i2c_pins \<Rightarrow> i2c_master \<times> 'w \<Rightarrow> ('w, unit) bus_io" where
  "stop P s =
     (let (m, w) = s; t = timing m;
          w = set_scl P False w;
          w = set_sda P False w;
          w = delay_ns P (t_low t) w;
          w = set_scl P True w;
          w = delay_ns P (t_su_sto t) w;
          w = set_sda P True w;
          w = delay_ns P (t_buf t) w
      in ((m\<lparr>started := False\<rparr>, w), Inr ()))"

definition write_bit :: "'w i2c_pins \<Rightarrow> bool \<Rightarrow> i2c_master \<times> 'w \<Rightarrow> ('w, unit) bus_io" where
  "write_bit P b s =
     (let (m, w) = s; t = timing m;
          w = set_scl P False w;
          w = set_sda P b w;
          w = delay_ns P (t_su_dat t) w;
          w = set_scl P True w;
          w = delay_ns P (t_high t) w;
          w = set_scl P False w;
          w = delay_ns P (t_hd_dat t) w
      in ((m, w), Inr ()))"

definition read_bit :: "'w i2c_pins \<Rightarrow> i2c_master \<times> 'w \<Rightarrow> ('w, bool) bus_io" where
  "read_bit P s =
     (let (m, w) = s; t = timing m;
          w = set_scl P False w;
          w = set_sda P True w;
          w = delay_ns P (t_su_dat t) w;
          w = set_scl P True w;
          w = delay_ns P (t_high t div 2) w;
          b = read_sda P w;
          w = delay_ns P (t_high t div 2) w;
          w = set_scl P False w;
          w = delay_ns P (t_hd_dat t) w
      in ((m, w), Inr b))"

primrec write_bits :: "'w i2c_pins \<Rightarrow> u8 \<Rightarrow> nat list \<Rightarrow> i2c_master \<times> 'w \<Rightarrow> ('w, unit) bus_io" where
  "write_bits P data [] s = (s, Inr ())"
| "write_bits P data (i # is) s =
     try_io (write_bit P (drop_bit i data AND 1 \<noteq> 0) s) (\<lambda>s _. write_bits P data is s)"

definition write_byte :: "'w i2c_pins \<Rightarrow> u8 \<Rightarrow> i2c_master \<times> 'w \<Rightarrow> ('w, bool) bus_io" where
  "write_byte P data s =
     try_io (write_bits P data (rev [0..<8]) s) (\<lambda>s _.
     try_io (read_bit P s) (\<lambda>s b. (s, Inr (\<not> b))))"

primrec read_bits :: "'w i2c_pins \<Rightarrow> nat list \<Rightarrow> u8 \<Rightarrow> i2c_master \<times> 'w \<Rightarrow> ('w, u8) bus_io" where
  "read_bits P [] data s = (s, Inr data)"
| "read_bits P (i # is) data s =
     try_io (read_bit P s) (\<lambda>s b. read_bits P is (if b then data OR push_bit i 1 else data) s)"

definition read_byte :: "'w i2c_pins \<Rightarrow> bool \<Rightarrow> i2c_master \<times> 'w \<Rightarrow> ('w, u8) bus_io" where
  "read_byte P send_ack s =
     try_io (read_bits P (rev [0..<8]) 0 s) (\<lambda>s data.
     try_io (write_bit P (\<not> send_ack) s) (\<lambda>s _. (s, Inr data)))"

text \<open>\<open>(addr << 1) | rw\<close>.\<close>

definition addr_byte :: "u8 \<Rightarrow> u8 \<Rightarrow> u8" where
  "addr_byte addr rw = push_bit 1 addr OR rw"

text \<open>\<open>if !self.write_byte(b)? { self.stop()?; return Err(Nack) }\<close>, then the rest.\<close>

definition expect_ack ::
  "'w i2c_pins \<Rightarrow> u8 \<Rightarrow> i2c_master \<times> 'w \<Rightarrow> (i2c_master \<times> 'w \<Rightarrow> ('w, 'a) bus_io) \<Rightarrow> ('w, 'a) bus_io"
where
  "expect_ack P b s k =
     try_io (write_byte P b s) (\<lambda>s ack.
       if \<not> ack then try_io (stop P s) (\<lambda>s _. (s, Inl Nack)) else k s)"

definition write_register ::
  "'w i2c_pins \<Rightarrow> u8 \<Rightarrow> u8 \<Rightarrow> u8 \<Rightarrow> i2c_master \<times> 'w \<Rightarrow> ('w, unit) bus_io" where
  "write_register P dev_addr reg_addr val s =
     try_io (start P s) (\<lambda>s _.
     expect_ack P (addr_byte dev_addr 0) s (\<lambda>s.
     expect_ack P reg_addr s (\<lambda>s.
     expect_ack P val s (\<lambda>s.
     try_io (stop P s) (\<lambda>s _. (s, Inr ()))))))"

definition read_register :: "'w i2c_pins \<Rightarrow> u8 \<Rightarrow> u8 \<Rightarrow> i2c_master \<times> 'w \<Rightarrow> ('w, u8) bus_io" where
  "read_register P dev_addr reg_addr s =
     try_io (start P s) (\<lambda>s _.
     expect_ack P (addr_byte dev_addr 0) s (\<lambda>s.
     expect_ack P reg_addr s (\<lambda>s.
     try_io (start P s) (\<lambda>s _.
     expect_ack P (addr_byte dev_addr 1) s (\<lambda>s.
     try_io (read_byte P False s) (\<lambda>s data.
     try_io (stop P s) (\<lambda>s _. (s, Inr data))))))))"

subsection \<open>A register device on the bus\<close>

text \<open>
  The reference board: an open-drain bus with one register device, which follows the lines only.
  It samples SDA at every rising clock edge, moves on at the falling edge that follows, and is
  reset by a START (SDA falls while the clock is high) or a STOP (SDA rises). It answers the
  address byte when its upper seven bits are its address. Delays take exactly the time asked for,
  nothing else takes any, and the board logs when the clock line changes.
\<close>

datatype field = AddrByte | RegByte | DataByte

datatype phase =
    Quiet
  | Receiving field "bool list"
  | Acking phase
  | Sending "bool list"
  | AwaitAck

record device =
  dev_address :: u8
  phase :: phase
  reg_ptr :: u8
  regs :: "u8 \<Rightarrow> u8"

definition byte_of :: "bool list \<Rightarrow> u8" where
  "byte_of bs = fold (\<lambda>l byte. push_bit 1 byte OR (if l then 1 else 0)) bs 0"

definition handle_byte :: "field \<Rightarrow> u8 \<Rightarrow> device \<Rightarrow> device" where
  "handle_byte what b d = (case what of
     AddrByte \<Rightarrow>
       if drop_bit 1 b \<noteq> drop_bit 1 (push_bit 1 (dev_address d)) then d\<lparr>phase := Quiet\<rparr>
       else if bit b 0 then d\<lparr>phase := Acking (Sending (msb_bits (regs d (reg_ptr d))))\<rparr>
       else d\<lparr>phase := Acking (Receiving RegByte [])\<rparr>
   | RegByte \<Rightarrow> d\<lparr>reg_ptr := b, phase := Acking (Receiving DataByte [])\<rparr>
   | DataByte \<Rightarrow> d\<lparr>regs := (regs d)(reg_ptr d := b), reg_ptr := reg_ptr d + 1,
                   phase := Acking (Receiving DataByte [])\<rparr>)"

definition advance :: "bool \<Rightarrow> device \<Rightarrow> device" where
  "advance l d = (case phase d of
     Quiet \<Rightarrow> d
   | Receiving what bs \<Rightarrow>
       if length bs < 7 then d\<lparr>phase := Receiving what (bs @ [l])\<rparr>
       else handle_byte what (byte_of (bs @ [l])) d
   | Acking ph \<Rightarrow> d\<lparr>phase := ph\<rparr>
   | Sending bs \<Rightarrow> d\<lparr>phase := if length bs \<le> 1 then AwaitAck else Sending (tl bs)\<rparr>
   | AwaitAck \<Rightarrow>
       if l then d\<lparr>phase := Quiet\<rparr>
       else d\<lparr>reg_ptr := reg_ptr d + 1, phase := Sending (msb_bits (regs d (reg_ptr d + 1)))\<rparr>)"

definition drives :: "device \<Rightarrow> bool" where
  "drives d = (case phase d of Acking _ \<Rightarrow> False | Sending (b # _) \<Rightarrow> b | _ \<Rightarrow> True)"

record dev_bus =
  m_scl :: bool
  m_sda :: bool
  sampled :: "bool option"
  dev :: device
  time_ns :: nat
  scl_edges :: "(nat \<times> bool) list"

definition sda_level :: "dev_bus \<Rightarrow> bool" where
  "sda_level w \<longleftrightarrow> m_sda w \<and> drives (dev w)"

definition bus_scl :: "bool \<Rightarrow> dev_bus \<Rightarrow> dev_bus" where
  "bus_scl v w =
     (if v = m_scl w then w
      else let w = w\<lparr>m_scl := v, scl_edges := scl_edges w @ [(time_ns w, v)]\<rparr> in
        if v then w\<lparr>sampled := Some (sda_level w)\<rparr>
        else (case sampled w of None \<Rightarrow> w | Some l \<Rightarrow> w\<lparr>dev := advance l (dev w), sampled := None\<rparr>))"

definition bus_sda :: "bool \<Rightarrow> dev_bus \<Rightarrow> dev_bus" where
  "bus_sda v w =
     (let w' = w\<lparr>m_sda := v\<rparr> in
      if m_scl w \<and> sda_level w \<noteq> sda_level w'
      then w'\<lparr>sampled := None, dev := (dev w)\<lparr>phase := if sda_level w' then Quiet else Receiving AddrByte []\<rparr>\<rparr>
      else w')"

definition dev_pins :: "dev_bus i2c_pins" where
  "dev_pins = \<lparr>set_scl = bus_scl, set_sda = bus_sda, read_sda = sda_level,
     delay_ns = (\<lambda>n w. w\<lparr>time_ns := time_ns w + n\<rparr>)\<rparr>"

subsection \<open>One clock\<close>

definition clock_low :: "dev_bus \<Rightarrow> bool" where
  "clock_low w \<longleftrightarrow> \<not> m_scl w \<and> sampled w = None"

text \<open>The bus after one clock, with \<open>v\<close> on the master's data line and the clock high for \<open>high\<close>.\<close>

definition tick :: "i2c_timing \<Rightarrow> nat \<Rightarrow> bool \<Rightarrow> dev_bus \<Rightarrow> dev_bus" where
  "tick t high v w = w\<lparr>m_sda := v, dev := advance (v \<and> drives (dev w)) (dev w),
     time_ns := time_ns w + t_su_dat t + high + t_hd_dat t,
     scl_edges := scl_edges w @ [(time_ns w + t_su_dat t, True), (time_ns w + t_su_dat t + high, False)]\<rparr>"

lemma tick_low [simp]: "clock_low w \<Longrightarrow> clock_low (tick t h v w)"
  by (simp add: clock_low_def tick_def)

lemma dev_tick [simp]: "dev (tick t h v w) = advance (v \<and> drives (dev w)) (dev w)"
  by (simp add: tick_def)

lemmas bus_simps = Let_def dev_pins_def bus_scl_def bus_sda_def sda_level_def clock_low_def

lemma write_bit_bus:
  assumes "clock_low w"
  shows "write_bit dev_pins v (m, w) = ((m, tick (timing m) (t_high (timing m)) v w), Inr ())"
  using assms by (cases w) (simp add: write_bit_def bus_simps tick_def)

lemma read_bit_bus:
  assumes "clock_low w"
  shows "read_bit dev_pins (m, w) =
    ((m, tick (timing m) (2 * (t_high (timing m) div 2)) True w), Inr (drives (dev w)))"
  using assms by (cases w) (simp add: read_bit_def bus_simps tick_def mult_2)

primrec ticks :: "i2c_timing \<Rightarrow> nat \<Rightarrow> bool list \<Rightarrow> dev_bus \<Rightarrow> dev_bus" where
  "ticks t h [] w = w"
| "ticks t h (v # vs) w = ticks t h vs (tick t h v w)"

lemma ticks_low [simp]: "clock_low w \<Longrightarrow> clock_low (ticks t h vs w)"
  by (induction vs arbitrary: w) simp_all

lemma write_bits_bus:
  "clock_low w \<Longrightarrow> write_bits dev_pins data is (m, w) =
     ((m, ticks (timing m) (t_high (timing m)) (map (bit data) is) w), Inr ())"
  by (induction "is" arbitrary: w) (simp_all add: write_bit_bus low_bit_nonzero)

subsection \<open>Bytes\<close>

text \<open>What the device makes of a byte while it listens, and what it does when it does not.\<close>

definition listening :: "device \<Rightarrow> field \<Rightarrow> bool" where
  "listening d what \<longleftrightarrow> phase d = Receiving what []"

lemma drives_listening: "phase d = Receiving what bs \<Longrightarrow> drives d"
  by (simp add: drives_def)

lemma advance_receiving:
  "phase d = Receiving what bs \<Longrightarrow> length bs < 7 \<Longrightarrow> advance l d = d\<lparr>phase := Receiving what (bs @ [l])\<rparr>"
  by (simp add: advance_def)

lemma ticks_receive:
  "phase (dev w) = Receiving what bs \<Longrightarrow> vs \<noteq> [] \<Longrightarrow> length bs + length vs = 8 \<Longrightarrow>
   dev (ticks t h vs w) = handle_byte what (byte_of (bs @ vs)) (dev w)"
proof (induction vs arbitrary: w bs)
  case (Cons v vs)
  have dr: "drives (dev w)" using Cons.prems(1) by (rule drives_listening)
  show ?case
  proof (cases vs)
    case Nil
    then show ?thesis using Cons.prems dr by (simp add: advance_def)
  next
    case (Cons v' vs')
    then have len: "length bs < 7" using Cons.prems by simp
    have d: "dev (tick t h v w) = (dev w)\<lparr>phase := Receiving what (bs @ [v])\<rparr>"
      using Cons.prems(1) len dr by (simp add: advance_receiving)
    have "dev (ticks t h vs (tick t h v w)) = handle_byte what (byte_of ((bs @ [v]) @ vs)) (dev (tick t h v w))"
      by (rule Cons.IH) (use Cons.prems Cons d in simp_all)
    then show ?thesis unfolding d by (simp add: handle_byte_def split: field.splits)
  qed
qed simp

lemma ticks_quiet: "phase (dev w) = Quiet \<Longrightarrow> dev (ticks t h vs w) = dev w"
  by (induction vs arbitrary: w) (simp_all add: advance_def)

lemma byte_of_msb: "byte_of (msb_bits b) = b"
  unfolding byte_of_def by (rule fold_msb_bits)

definition acked :: "device \<Rightarrow> bool" where
  "acked d \<longleftrightarrow> (case phase d of Acking _ \<Rightarrow> True | _ \<Rightarrow> False)"

lemma write_byte_bus:
  assumes "clock_low w" "listening (dev w) what"
  shows "\<exists>w'. write_byte dev_pins b (m, w) = ((m, w'), Inr (acked (handle_byte what b (dev w)))) \<and>
    clock_low w' \<and> dev w' = advance (drives (handle_byte what b (dev w))) (handle_byte what b (dev w))"
proof -
  let ?w = "ticks (timing m) (t_high (timing m)) (msb_bits b) w"
  have d: "dev ?w = handle_byte what b (dev w)"
    using ticks_receive [of w what "[]" "msb_bits b"] assms(2)
    by (simp add: listening_def byte_of_msb) (metis length_0_conv length_msb_bits zero_neq_numeral)
  have bits: "map (bit b) (rev [0..<8]) = msb_bits b" by (simp only: msb_bits_def)
  have "acked (handle_byte what b (dev w)) = (\<not> drives (handle_byte what b (dev w)))"
    by (simp add: handle_byte_def acked_def drives_def split: field.splits)
  then show ?thesis
    unfolding write_byte_def write_bits_bus [OF assms(1)] bits
    using assms(1) by (simp add: read_bit_bus d)
qed

definition collect_bit :: "nat \<times> bool \<Rightarrow> u8 \<Rightarrow> u8" where
  "collect_bit ib data = (if snd ib then data OR push_bit (fst ib) 1 else data)"

lemma bit_collect:
  "n < 8 \<Longrightarrow> bit (fold collect_bit (map (\<lambda>i. (i, bit b i)) is) x) n \<longleftrightarrow> bit x n \<or> n \<in> set is \<and> bit b n"
proof (induction "is" arbitrary: x)
  case (Cons i "is")
  have "bit (collect_bit (i, bit b i) x) n \<longleftrightarrow> bit x n \<or> n = i \<and> bit b i"
    using Cons.prems by (auto simp: collect_bit_def bit_or_iff bit_push_bit_iff bit_1_iff simp del: push_bit_of_1)
  then show ?case using Cons.IH [OF Cons.prems, of "collect_bit (i, bit b i) x"] by auto
qed simp

lemma collect_byte: "fold collect_bit (map (\<lambda>i. (i, bit b i)) (rev [0..<8])) 0 = (b :: u8)"
  by (rule bit_word_eqI) (simp add: bit_collect del: upt_Suc)

lemma read_bits_sending:
  assumes "clock_low w" "phase (dev w) = Sending bs" "length is = length bs" "bs \<noteq> []"
  shows "\<exists>w'. read_bits dev_pins is data (m, w) = ((m, w'), Inr (fold collect_bit (zip is bs) data)) \<and>
    clock_low w' \<and> dev w' = (dev w)\<lparr>phase := AwaitAck\<rparr>"
  using assms
proof (induction bs arbitrary: w "is" data)
  case (Cons b bs)
  obtain i is' where i: "is = i # is'" "length is' = length bs" using Cons.prems(3) by (cases "is") auto
  have dr: "drives (dev w) = b" using Cons.prems(2) by (simp add: drives_def)
  let ?w = "tick (timing m) (2 * (t_high (timing m) div 2)) True w"
  have low: "clock_low ?w" using Cons.prems(1) by simp
  have step: "read_bits dev_pins is data (m, w) = read_bits dev_pins is' (collect_bit (i, b) data) (m, ?w)"
    using Cons.prems(1) by (simp add: i read_bit_bus dr collect_bit_def)
  show ?case
  proof (cases "bs = []")
    case True
    then show ?thesis using step i low Cons.prems(2) by (simp add: advance_def)
  next
    case False
    then have ph: "dev ?w = (dev w)\<lparr>phase := Sending bs\<rparr>"
      using Cons.prems(2) by (cases bs) (simp_all add: advance_def)
    have "\<exists>w'. read_bits dev_pins is' (collect_bit (i, b) data) (m, ?w) =
        ((m, w'), Inr (fold collect_bit (zip is' bs) (collect_bit (i, b) data))) \<and>
      clock_low w' \<and> dev w' = (dev ?w)\<lparr>phase := AwaitAck\<rparr>"
      by (rule Cons.IH) (use low i False ph in simp_all)
    then show ?thesis unfolding step ph by (simp add: i)
  qed
qed simp

lemma read_byte_bus:
  assumes "clock_low w" "phase (dev w) = Sending (msb_bits b)"
  shows "\<exists>w'. read_byte dev_pins False (m, w) = ((m, w'), Inr b) \<and> clock_low w' \<and>
    dev w' = (dev w)\<lparr>phase := Quiet\<rparr>"
proof -
  have zip: "zip (rev [0..<8]) (msb_bits b) = map (\<lambda>i. (i, bit b i)) (rev [0..<8])"
    unfolding msb_bits_def by (rule nth_equalityI) (simp_all del: upt_Suc)
  have ne: "msb_bits b \<noteq> []" by (metis length_0_conv length_msb_bits zero_neq_numeral)
  have len: "length (rev [0..<8]) = length (msb_bits b)" by simp
  obtain w' where w': "read_bits dev_pins (rev [0..<8]) 0 (m, w) = ((m, w'), Inr b)"
    "clock_low w'" "dev w' = (dev w)\<lparr>phase := AwaitAck\<rparr>"
    using read_bits_sending [OF assms len ne, of 0 m] unfolding zip collect_byte by blast
  then show ?thesis
    unfolding read_byte_def w'(1) try_io_simps
    by (simp add: write_bit_bus advance_def drives_def)
qed

subsection \<open>START and STOP\<close>

definition idle :: "dev_bus \<Rightarrow> bool" where
  "idle w \<longleftrightarrow> m_scl w \<and> m_sda w \<and> phase (dev w) = Quiet"

lemma start_idle:
  assumes "idle w" "\<not> started m"
  shows "\<exists>w'. start dev_pins (m, w) = ((m\<lparr>started := True\<rparr>, w'), Inr ()) \<and> clock_low w' \<and>
    dev w' = (dev w)\<lparr>phase := Receiving AddrByte []\<rparr>"
  using assms by (simp add: start_def idle_def bus_simps drives_def)

lemma start_repeated:
  assumes "clock_low w" "drives (dev w)" "started m"
  shows "\<exists>w'. start dev_pins (m, w) = ((m\<lparr>started := True\<rparr>, w'), Inr ()) \<and> clock_low w' \<and>
    dev w' = (dev w)\<lparr>phase := Receiving AddrByte []\<rparr>"
  using assms by (simp add: start_def bus_simps drives_def)

lemma stop_bus:
  assumes "clock_low w" "drives (dev w)"
  shows "\<exists>w'. stop dev_pins (m, w) = ((m\<lparr>started := False\<rparr>, w'), Inr ()) \<and> idle w' \<and>
    dev w' = (dev w)\<lparr>phase := Quiet\<rparr>"
  using assms by (simp add: stop_def idle_def bus_simps drives_def)

subsection \<open>Register access\<close>

lemma expect_ack_ok:
  assumes "clock_low w" "listening (dev w) what" "phase (handle_byte what b (dev w)) = Acking ph"
  shows "\<exists>w'. expect_ack dev_pins b (m, w) k = k (m, w') \<and> clock_low w' \<and>
    dev w' = (handle_byte what b (dev w))\<lparr>phase := ph\<rparr>"
  using write_byte_bus [OF assms(1,2), of b m] assms(3)
  by (auto simp: expect_ack_def acked_def advance_def)

lemma expect_ack_nack:
  assumes "clock_low w" "listening (dev w) what" "phase (handle_byte what b (dev w)) = Quiet"
  shows "\<exists>w'. expect_ack dev_pins b (m, w) k = ((m\<lparr>started := False\<rparr>, w'), Inl Nack) \<and> idle w' \<and>
    dev w' = handle_byte what b (dev w)"
proof -
  obtain w' where w': "write_byte dev_pins b (m, w) = ((m, w'), Inr False)" "clock_low w'"
    "dev w' = handle_byte what b (dev w)"
    using write_byte_bus [OF assms(1,2), of b m] assms(3) by (auto simp: acked_def advance_def)
  moreover have "drives (dev w')" using w'(3) assms(3) by (simp add: drives_def)
  ultimately show ?thesis
    using stop_bus [of w' m] assms(3) by (auto simp: expect_ack_def)
qed

text \<open>The device answers an address when the seven bits that go over the bus are its own.\<close>

definition answers :: "u8 \<Rightarrow> device \<Rightarrow> bool" where
  "answers a d \<longleftrightarrow> drop_bit 1 (push_bit 1 a) = drop_bit 1 (push_bit 1 (dev_address d))"

lemma addr_byte_bits:
  "drop_bit 1 (addr_byte a 0) = drop_bit 1 (push_bit 1 a)" "\<not> bit (addr_byte a 0) 0"
  "drop_bit 1 (addr_byte a 1) = drop_bit 1 (push_bit 1 a)" "bit (addr_byte a 1) 0"
  unfolding addr_byte_def by (simp_all only: or.right_neutral drop_bit_or bit_or_iff bit_push_bit_iff) simp_all

lemma handle_address:
  "handle_byte AddrByte (addr_byte a 0) d =
     d\<lparr>phase := if answers a d then Acking (Receiving RegByte []) else Quiet\<rparr>"
  "handle_byte AddrByte (addr_byte a 1) d =
     d\<lparr>phase := if answers a d then Acking (Sending (msb_bits (regs d (reg_ptr d)))) else Quiet\<rparr>"
  unfolding handle_byte_def field.case addr_byte_bits answers_def
  by (simp_all add: addr_byte_bits(2,4))

lemma open_register:
  assumes "idle w" "\<not> started m" "answers a (dev w)"
  shows "\<exists>w'. try_io (start dev_pins (m, w)) (\<lambda>s _. expect_ack dev_pins (addr_byte a 0) s
      (\<lambda>s. expect_ack dev_pins r s k)) = k (m\<lparr>started := True\<rparr>, w') \<and> clock_low w' \<and>
    dev w' = (dev w)\<lparr>reg_ptr := r, phase := Receiving DataByte []\<rparr>"
proof -
  obtain w1 where w1: "start dev_pins (m, w) = ((m\<lparr>started := True\<rparr>, w1), Inr ())" "clock_low w1"
    "dev w1 = (dev w)\<lparr>phase := Receiving AddrByte []\<rparr>" using start_idle [OF assms(1,2)] by blast
  have "phase (handle_byte AddrByte (addr_byte a 0) (dev w1)) = Acking (Receiving RegByte [])"
    using assms(3) w1(3) by (simp add: handle_address answers_def)
  from expect_ack_ok [OF w1(2) _ this, of "m\<lparr>started := True\<rparr>" "\<lambda>s. expect_ack dev_pins r s k"]
  obtain w2 where w2: "expect_ack dev_pins (addr_byte a 0) (m\<lparr>started := True\<rparr>, w1)
      (\<lambda>s. expect_ack dev_pins r s k) = expect_ack dev_pins r (m\<lparr>started := True\<rparr>, w2) k"
    "clock_low w2" "dev w2 = (dev w)\<lparr>phase := Receiving RegByte []\<rparr>"
    using w1(3) by (auto simp: listening_def handle_address)
  have "phase (handle_byte RegByte r (dev w2)) = Acking (Receiving DataByte [])"
    by (simp add: handle_byte_def)
  from expect_ack_ok [OF w2(2) _ this, of "m\<lparr>started := True\<rparr>" k]
  show ?thesis unfolding w1(1) try_io_simps w2(1) using w2(3) by (simp add: listening_def handle_byte_def)
qed

lemma write_register_bus:
  assumes "idle w" "\<not> started m" "answers a (dev w)"
  shows "\<exists>w'. write_register dev_pins a r v (m, w) = ((m, w'), Inr ()) \<and> idle w' \<and>
    dev w' = (dev w)\<lparr>regs := (regs (dev w))(r := v), reg_ptr := r + 1\<rparr>"
proof -
  let ?k = "\<lambda>s. expect_ack dev_pins v s (\<lambda>s. try_io (stop dev_pins s) (\<lambda>s _. (s, Inr ())))"
  obtain w1 where w1: "write_register dev_pins a r v (m, w) = ?k (m\<lparr>started := True\<rparr>, w1)" "clock_low w1"
    "dev w1 = (dev w)\<lparr>reg_ptr := r, phase := Receiving DataByte []\<rparr>"
    using open_register [OF assms, of r ?k] unfolding write_register_def by blast
  have "phase (handle_byte DataByte v (dev w1)) = Acking (Receiving DataByte [])"
    by (simp add: handle_byte_def)
  from expect_ack_ok [OF w1(2) _ this, of "m\<lparr>started := True\<rparr>" "\<lambda>s. try_io (stop dev_pins s) (\<lambda>s _. (s, Inr ()))"]
  obtain w2 where w2: "?k (m\<lparr>started := True\<rparr>, w1) =
      try_io (stop dev_pins (m\<lparr>started := True\<rparr>, w2)) (\<lambda>s _. (s, Inr ()))" "clock_low w2"
    "dev w2 = (dev w)\<lparr>regs := (regs (dev w))(r := v), reg_ptr := r + 1, phase := Receiving DataByte []\<rparr>"
    using w1(3) by (auto simp: listening_def handle_byte_def)
  have "drives (dev w2)" using w2(3) by (simp add: drives_def)
  from stop_bus [OF w2(2) this, of "m\<lparr>started := True\<rparr>"] show ?thesis
    unfolding w1(1) w2(1) using assms(1,2) w2(3) by (auto simp: idle_def)
qed

lemma read_register_bus:
  assumes "idle w" "\<not> started m" "answers a (dev w)"
  shows "\<exists>w'. read_register dev_pins a r (m, w) = ((m, w'), Inr (regs (dev w) r)) \<and> idle w' \<and>
    dev w' = (dev w)\<lparr>reg_ptr := r\<rparr>"
proof -
  let ?m = "m\<lparr>started := True\<rparr>"
  let ?j = "\<lambda>s. try_io (read_byte dev_pins False s) (\<lambda>s data. try_io (stop dev_pins s) (\<lambda>s _. (s, Inr data)))"
  let ?k = "\<lambda>s. try_io (start dev_pins s) (\<lambda>s _. expect_ack dev_pins (addr_byte a 1) s ?j)"
  obtain w1 where w1: "read_register dev_pins a r (m, w) = ?k (?m, w1)" "clock_low w1"
    "dev w1 = (dev w)\<lparr>reg_ptr := r, phase := Receiving DataByte []\<rparr>"
    using open_register [OF assms, of r ?k] unfolding read_register_def by blast
  have "drives (dev w1)" using w1(3) by (simp add: drives_def)
  then obtain w2 where w2: "start dev_pins (?m, w1) = ((?m, w2), Inr ())" "clock_low w2"
    "dev w2 = (dev w)\<lparr>reg_ptr := r, phase := Receiving AddrByte []\<rparr>"
    using start_repeated [OF w1(2), of ?m] w1(3) by auto
  have "phase (handle_byte AddrByte (addr_byte a 1) (dev w2)) = Acking (Sending (msb_bits (regs (dev w) r)))"
    using assms(3) w2(3) by (simp add: handle_address answers_def)
  from expect_ack_ok [OF w2(2) _ this, of ?m ?j]
  obtain w3 where w3: "expect_ack dev_pins (addr_byte a 1) (?m, w2) ?j = ?j (?m, w3)" "clock_low w3"
    "dev w3 = (dev w)\<lparr>reg_ptr := r, phase := Sending (msb_bits (regs (dev w) r))\<rparr>"
    using w2(3) by (auto simp: listening_def handle_address)
  then obtain w4 where w4: "read_byte dev_pins False (?m, w3) = ((?m, w4), Inr (regs (dev w) r))" "clock_low w4"
    "dev w4 = (dev w)\<lparr>reg_ptr := r, phase := Quiet\<rparr>"
    using read_byte_bus [OF w3(2), of "regs (dev w) r" ?m] by auto
  have "drives (dev w4)" using w4(3) by (simp add: drives_def)
  from stop_bus [OF w4(2) this, of ?m] show ?thesis
    unfolding w1(1) w2(1) try_io_simps w3(1) w4(1) using assms(1,2) w4(3) by (auto simp: idle_def)
qed

lemma register_nack:
  assumes "idle w" "\<not> started m" "\<not> answers a (dev w)"
  shows "\<exists>w'. write_register dev_pins a r v (m, w) = ((m, w'), Inl Nack) \<and>
      read_register dev_pins a r (m, w) = ((m, w'), Inl Nack) \<and> idle w' \<and> dev w' = dev w"
proof -
  obtain w1 where w1: "start dev_pins (m, w) = ((m\<lparr>started := True\<rparr>, w1), Inr ())" "clock_low w1"
    "dev w1 = (dev w)\<lparr>phase := Receiving AddrByte []\<rparr>" using start_idle [OF assms(1,2)] by blast
  have q: "phase (handle_byte AddrByte (addr_byte a 0) (dev w1)) = Quiet"
    using assms(3) w1(3) by (simp add: handle_address answers_def)
  have l: "listening (dev w1) AddrByte" using w1(3) by (simp add: listening_def)
  obtain w2 where wb: "write_byte dev_pins (addr_byte a 0) (m\<lparr>started := True\<rparr>, w1) = ((m\<lparr>started := True\<rparr>, w2), Inr False)"
    "clock_low w2" "dev w2 = handle_byte AddrByte (addr_byte a 0) (dev w1)"
    using write_byte_bus [OF w1(2) l, of "addr_byte a 0" "m\<lparr>started := True\<rparr>"] q
    by (auto simp: acked_def advance_def)
  have "drives (dev w2)" using wb(3) q by (simp add: drives_def)
  from stop_bus [OF wb(2) this, of "m\<lparr>started := True\<rparr>"] show ?thesis
    unfolding write_register_def read_register_def expect_ack_def w1(1) try_io_simps wb(1)
    using assms(1,2,3) wb(3) w1(3) by (auto simp: idle_def handle_address answers_def)
qed

text \<open>
  C21. Register access works end to end. On an idle bus with a register device, a write through
  the bit-banged lines to a device that answers changes exactly the register named, and a read
  that follows returns what any register then holds; a device that does not answer makes both
  report a missing acknowledge and keeps its registers. Every time the bus is idle again.
\<close>

theorem register_access_round_trip:
  assumes "idle w" "\<not> started m"
  shows "if answers a (dev w)
    then \<exists>w1 w2. write_register dev_pins a r v (m, w) = ((m, w1), Inr ()) \<and>
      read_register dev_pins a r' (m, w1) = ((m, w2), Inr (if r' = r then v else regs (dev w) r')) \<and>
      regs (dev w2) = (regs (dev w))(r := v) \<and> idle w1 \<and> idle w2
    else \<exists>w'. write_register dev_pins a r v (m, w) = ((m, w'), Inl Nack) \<and>
      read_register dev_pins a r (m, w) = ((m, w'), Inl Nack) \<and> idle w' \<and> dev w' = dev w"
proof (cases "answers a (dev w)")
  case True
  obtain w1 where w1: "write_register dev_pins a r v (m, w) = ((m, w1), Inr ())" "idle w1"
    "dev w1 = (dev w)\<lparr>regs := (regs (dev w))(r := v), reg_ptr := r + 1\<rparr>"
    using write_register_bus [OF assms True] by blast
  have "answers a (dev w1)" using True w1(3) by (simp add: answers_def)
  from read_register_bus [OF w1(2) assms(2) this, of r'] w1 True show ?thesis by auto
next
  case False
  then show ?thesis using register_nack [OF assms False] by simp
qed

definition example_bus :: dev_bus where
  "example_bus = \<lparr>m_scl = True, m_sda = True, sampled = None, dev = \<lparr>dev_address = 0x50, phase = Quiet,
     reg_ptr = 0, regs = (\<lambda>_. 0)\<rparr>, time_ns = 0, scl_edges = []\<rparr>"

theorem register_access_round_trip_witness:
  "\<exists>w1 w2. write_register dev_pins 0x50 0x10 0xAA (\<lparr>timing = FAST, started = False\<rparr>, example_bus) =
      ((\<lparr>timing = FAST, started = False\<rparr>, w1), Inr ()) \<and>
    read_register dev_pins 0x50 0x10 (\<lparr>timing = FAST, started = False\<rparr>, w1) =
      ((\<lparr>timing = FAST, started = False\<rparr>, w2), Inr 0xAA)"
  using register_access_round_trip [of example_bus "\<lparr>timing = FAST, started = False\<rparr>" "0x50" "0x10" "0xAA" "0x10"]
  by (auto simp: example_bus_def idle_def answers_def)

subsection \<open>The clock\<close>

definition bit_period :: "i2c_timing \<Rightarrow> nat" where
  "bit_period t = t_su_dat t + t_high t + t_hd_dat t"

definition clock_pulse :: "i2c_timing \<Rightarrow> nat \<Rightarrow> nat \<Rightarrow> (nat \<times> bool) list" where
  "clock_pulse t t0 k = [(t0 + k * bit_period t + t_su_dat t, True),
     (t0 + k * bit_period t + t_su_dat t + t_high t, False)]"

lemma clock_pulse_Suc: "clock_pulse t t0 (Suc k) = clock_pulse t (t0 + bit_period t) k"
  by (simp add: clock_pulse_def)

lemma ticks_edges:
  "scl_edges (ticks t (t_high t) vs w) =
     scl_edges w @ concat (map (clock_pulse t (time_ns w)) [0..<length vs]) \<and>
   time_ns (ticks t (t_high t) vs w) = time_ns w + length vs * bit_period t"
proof (induction vs arbitrary: w)
  case (Cons v vs)
  have "time_ns (tick t (t_high t) v w) = time_ns w + bit_period t"
    "scl_edges (tick t (t_high t) v w) = scl_edges w @ clock_pulse t (time_ns w) 0"
    by (simp_all add: tick_def bit_period_def clock_pulse_def)
  moreover have "concat (map (clock_pulse t (time_ns w)) [0..<Suc (length vs)]) =
      clock_pulse t (time_ns w) 0 @ concat (map (clock_pulse t (time_ns w + bit_period t)) [0..<length vs])"
    by (simp add: upt_rec [of 0 "Suc n" for n] map_Suc_upt [symmetric] clock_pulse_Suc comp_def del: upt_Suc)
  ultimately show ?case using Cons.IH [of "tick t (t_high t) v w"] by simp
qed simp

lemma write_byte_edges:
  assumes "clock_low w" "even (t_high (timing m))"
  shows "\<exists>w' ack. write_byte dev_pins b (m, w) = ((m, w'), Inr ack) \<and>
    scl_edges w' = scl_edges w @ concat (map (clock_pulse (timing m) (time_ns w)) [0..<9])"
proof -
  let ?t = "timing m"
  have h: "2 * (t_high ?t div 2) = t_high ?t" using assms(2) by simp
  have run: "\<exists>ack. write_byte dev_pins b (m, w) =
      ((m, ticks ?t (t_high ?t) (msb_bits b @ [True]) w), Inr ack)"
  proof -
    have app: "ticks ?t (t_high ?t) (vs @ [v]) u = tick ?t (t_high ?t) v (ticks ?t (t_high ?t) vs u)" for vs v u
      by (induction vs arbitrary: u) simp_all
    have bits: "map (bit b) (rev [0..<8]) = msb_bits b" by (simp only: msb_bits_def)
    show ?thesis unfolding write_byte_def write_bits_bus [OF assms(1)] bits
      using assms(1) by (simp add: read_bit_bus h app)
  qed
  then show ?thesis using ticks_edges [of ?t "msb_bits b @ [True]" w] by fastforce
qed

text \<open>
  The clock is too fast in every mode. The nine clock pulses of a byte follow each other at
  a fixed period, in which the clock is low only for the data setup and hold times, never for the
  \<open>t_low\<close> of the mode; the resulting frequency is more than twice the maximum that
  \<open>max_frequency_hz\<close> gives for the mode.
\<close>

theorem clock_exceeds_mode:
  assumes "clock_low w" "timing m = for_mode mode"
  shows "\<exists>w' ack f. write_byte dev_pins b (m, w) = ((m, w'), Inr ack) \<and>
    scl_edges w' = scl_edges w @ concat (map (clock_pulse (timing m) (time_ns w)) [0..<9]) \<and>
    bit_period (timing m) - t_high (timing m) < t_low (timing m) \<and>
    max_frequency_hz p (timing m) = Some f \<and> 2 * f < 1000000000 div bit_period (timing m)"
proof -
  have t: "even (t_high (timing m))" "bit_period (timing m) - t_high (timing m) < t_low (timing m)"
    "\<exists>f. max_frequency_hz p (timing m) = Some f \<and> 2 * f < 1000000000 div bit_period (timing m)"
    using assms(2)
    by (cases mode; simp add: for_mode_def STANDARD_def FAST_def FAST_PLUS_def bit_period_def
        max_frequency_hz_def add_u32_def udiv_def)+
  then show ?thesis using write_byte_edges [OF assms(1) t(1), of b] by blast
qed

theorem clock_exceeds_mode_witness:
  "\<exists>w' ack. write_byte dev_pins 0xAA (\<lparr>timing = STANDARD, started = True\<rparr>,
      example_bus\<lparr>m_scl := False\<rparr>) = ((\<lparr>timing = STANDARD, started = True\<rparr>, w'), Inr ack) \<and>
    take 3 (scl_edges w') = [(250, True), (4250, False), (4800, True)]"
proof -
  have "clock_low (example_bus\<lparr>m_scl := False\<rparr>)" "timing \<lparr>timing = STANDARD, started = True\<rparr> = for_mode Standard"
    by (simp_all add: clock_low_def example_bus_def for_mode_def)
  from clock_exceeds_mode [OF this, of "0xAA" CheckedBuild]
  show ?thesis
    by (auto simp: upt_rec [of _ 9] clock_pulse_def bit_period_def STANDARD_def example_bus_def)
qed

text \<open>The frequencies the modes are named after are the maxima.\<close>

lemma max_frequency_of_mode:
  "max_frequency_hz p (for_mode mode) = Some (case mode of Standard \<Rightarrow> 100000 | Fast \<Rightarrow> 400000 | FastPlus \<Rightarrow> 1000000)"
  by (cases mode) (simp_all add: for_mode_def STANDARD_def FAST_def FAST_PLUS_def max_frequency_hz_def
      add_u32_def udiv_def)

text \<open>
  For custom parameters the computation panics exactly when the period is zero, or does not fit
  into 32 bits in the checked build.
\<close>

theorem max_frequency_panics_iff:
  "max_frequency_hz CheckedBuild t = None \<longleftrightarrow>
     (let period = t_low t + t_high t + tr_max t + tf_max t in period = 0 \<or> 2 ^ 32 \<le> period)"
  by (auto simp: max_frequency_hz_def add_u32_def udiv_def Let_def split: if_splits)

end
