(* ===== verification/I2c_Arbitration.thy ===== *)
theory I2c_Arbitration
  imports Bus_Io
begin

unbundle bit_operations_syntax

text \<open>
  \<^verbatim>\<open>I2C/src/09/09.rs\<close>: a bit-banged I2C master for a bus with several masters. The pins behind
  the trait \<open>I2cHal\<close> are a parameter, functions on the state \<open>'w\<close> of the bus; reading a line may
  move that state on, so that lines can change while the master polls. An operation works on the
  pair of the controller's fields and the bus.
\<close>

subsection \<open>Data\<close>

datatype arbitration_result = Won | Lost | InProgress

datatype i2c_error = ArbitrationLost | Nack | BusBusy | Timeout | MaxRetriesExceeded

definition i2c_error_display :: "i2c_error \<Rightarrow> string" where
  "i2c_error_display e = (case e of
     ArbitrationLost \<Rightarrow> ''Arbitration lost to another master''
   | Nack \<Rightarrow> ''NACK received from slave''
   | BusBusy \<Rightarrow> ''Bus is busy''
   | Timeout \<Rightarrow> ''Operation timed out''
   | MaxRetriesExceeded \<Rightarrow> ''Maximum retry attempts exceeded'')"

record 'w i2c_hal =
  sda_write :: "bool \<Rightarrow> 'w \<Rightarrow> 'w"
  sda_read :: "'w \<Rightarrow> bool \<times> 'w"
  scl_write :: "bool \<Rightarrow> 'w \<Rightarrow> 'w"
  scl_read :: "'w \<Rightarrow> bool \<times> 'w"
  delay :: "'w \<Rightarrow> 'w"

record multi_master =
  arb_state :: arbitration_result
  retry_count :: nat
  max_retries :: nat
  is_master :: bool

definition multi_master_new :: "nat \<Rightarrow> multi_master" where
  "multi_master_new retries =
     \<lparr>arb_state = InProgress, retry_count = 0, max_retries = retries, is_master = True\<rparr>"

type_synonym ('w, 'a) mm_io = "(multi_master \<times> 'w, i2c_error, 'a) io"

subsection \<open>Bits and bytes\<close>

text \<open>The wait for a stretched clock: \<open>timeout\<close> counts down from 1000.\<close>

fun stretch_loop :: "'w i2c_hal \<Rightarrow> nat \<Rightarrow> 'w \<Rightarrow> bool \<times> 'w" where
  "stretch_loop H timeout w =
     (let (high, w) = scl_read H w
      in if high then (True, w)
         else if timeout - 1 = 0 then (False, w)
         else stretch_loop H (timeout - 1) w)"

declare stretch_loop.simps [simp del]

definition write_bit_with_arbitration :: "'w i2c_hal \<Rightarrow> bool \<Rightarrow> multi_master \<times> 'w \<Rightarrow> ('w, unit) mm_io" where
  "write_bit_with_arbitration H b s =
     (let (m, w) = s;
          w = delay H (scl_write H True w);
          (released, w) = stretch_loop H 1000 w
      in if \<not> released then ((m, w), Inl Timeout)
         else
           (let w = delay H (sda_write H b w);
                (actual_bit, w) = sda_read H w
            in if b \<and> \<not> actual_bit
               then ((m\<lparr>arb_state := Lost, is_master := False\<rparr>, w), Inl ArbitrationLost)
               else ((m, delay H (scl_write H False w)), Inr ())))"

definition start :: "'w i2c_hal \<Rightarrow> multi_master \<times> 'w \<Rightarrow> ('w, unit) mm_io" where
  "start H s =
     (let (m, w) = s;
          w = delay H (scl_write H True (sda_write H True w));
          (sda, w) = sda_read H w;
          (idle, w) = (if \<not> sda then (False, w) else scl_read H w)
      in if \<not> idle then ((m, w), Inl BusBusy)
         else
           (let w = delay H (sda_write H False w);
                w = delay H (scl_write H False w)
            in ((m\<lparr>arb_state := InProgress\<rparr>, w), Inr ())))"

primrec write_bits :: "'w i2c_hal \<Rightarrow> u8 \<Rightarrow> nat list \<Rightarrow> multi_master \<times> 'w \<Rightarrow> ('w, unit) mm_io" where
  "write_bits H byte [] s = (s, Inr ())"
| "write_bits H byte (i # is) s =
     try_io (write_bit_with_arbitration H (drop_bit i byte AND 1 \<noteq> 0) s) (\<lambda>s _. write_bits H byte is s)"

definition write_byte :: "'w i2c_hal \<Rightarrow> u8 \<Rightarrow> multi_master \<times> 'w \<Rightarrow> ('w, bool) mm_io" where
  "write_byte H byte s =
     try_io (write_bits H byte (rev [0..<8]) s) (\<lambda>(m, w) _.
       let w = delay H (sda_write H True (scl_write H True w));
           (sda, w) = sda_read H w;
           ack = (\<not> sda);
           w = delay H (scl_write H False w)
       in ((if ack then m\<lparr>arb_state := Won\<rparr> else m, w), Inr ack))"

primrec read_bits :: "'w i2c_hal \<Rightarrow> nat \<Rightarrow> u8 \<Rightarrow> 'w \<Rightarrow> u8 \<times> 'w" where
  "read_bits H 0 byte w = (byte, w)"
| "read_bits H (Suc n) byte w =
     (let byte = push_bit 1 byte;
          w = delay H (scl_write H True w);
          (sda, w) = sda_read H w;
          byte = (if sda then byte OR 1 else byte)
      in read_bits H n byte (delay H (scl_write H False w)))"

definition read_byte :: "'w i2c_hal \<Rightarrow> bool \<Rightarrow> multi_master \<times> 'w \<Rightarrow> ('w, u8) mm_io" where
  "read_byte H send_ack s =
     (let (m, w) = s;
          (byte, w) = read_bits H 8 0 (sda_write H True w);
          w = delay H (scl_write H True (sda_write H (\<not> send_ack) w));
          w = delay H (scl_write H False w)
      in ((m, w), Inr byte))"

definition stop :: "'w i2c_hal \<Rightarrow> multi_master \<times> 'w \<Rightarrow> multi_master \<times> 'w" where
  "stop H s =
     (let (m, w) = s;
          w = delay H (sda_write H False w);
          w = delay H (scl_write H True w);
          w = delay H (sda_write H True w)
      in (m\<lparr>is_master := True\<rparr>, w))"

subsection \<open>Messages and retries\<close>

primrec write_data :: "'w i2c_hal \<Rightarrow> bytes \<Rightarrow> multi_master \<times> 'w \<Rightarrow> ('w, unit) mm_io" where
  "write_data H [] s = (s, Inr ())"
| "write_data H (byte # data) s =
     try_io (write_byte H byte s) (\<lambda>s ack.
       if \<not> ack then (stop H s, Inl Nack) else write_data H data s)"

definition write_internal :: "'w i2c_hal \<Rightarrow> u8 \<Rightarrow> bytes \<Rightarrow> multi_master \<times> 'w \<Rightarrow> ('w, unit) mm_io" where
  "write_internal H addr data s =
     try_io (start H s) (\<lambda>s _.
     try_io (write_byte H (push_bit 1 addr OR 0) s) (\<lambda>s ack.
       if \<not> ack then (stop H s, Inl Nack)
       else try_io (write_data H data s) (\<lambda>s _. (stop H s, Inr ()))))"

text \<open>No operation on the bus touches the retry bookkeeping, so the retry loops end.\<close>

definition bookkeeping :: "multi_master \<times> 'w \<Rightarrow> nat \<times> nat" where
  "bookkeeping s = (retry_count (fst s), max_retries (fst s))"

named_theorems keeps \<open>the operations leave the retry bookkeeping alone\<close>

lemma write_bit_keeps [keeps]: "bookkeeping (fst (write_bit_with_arbitration H b s)) = bookkeeping s"
  by (simp add: write_bit_with_arbitration_def bookkeeping_def Let_def split: prod.split)

lemma start_keeps [keeps]: "bookkeeping (fst (start H s)) = bookkeeping s"
  by (simp add: start_def bookkeeping_def Let_def split: prod.split)

lemma write_bits_keeps [keeps]: "bookkeeping (fst (write_bits H byte is s)) = bookkeeping s"
  by (induction "is" arbitrary: s) (simp_all add: keeps try_io_keeps [where P = "\<lambda>s'. bookkeeping s' = _"])

lemma write_byte_keeps [keeps]: "bookkeeping (fst (write_byte H byte s)) = bookkeeping s"
  unfolding write_byte_def
  by (rule try_io_keeps [where P = "\<lambda>s'. bookkeeping s' = bookkeeping s"], rule keeps)
     (auto simp: Let_def bookkeeping_def split: prod.split)

lemma read_byte_keeps [keeps]: "bookkeeping (fst (read_byte H a s)) = bookkeeping s"
  by (simp add: read_byte_def bookkeeping_def Let_def split: prod.split)

lemma stop_keeps [keeps]: "bookkeeping (stop H s) = bookkeeping s"
  by (simp add: stop_def bookkeeping_def Let_def split: prod.split)

lemma write_data_keeps [keeps]: "bookkeeping (fst (write_data H data s)) = bookkeeping s"
  by (induction data arbitrary: s) (simp_all add: keeps try_io_keeps [where P = "\<lambda>s'. bookkeeping s' = _"])

lemma write_internal_keeps [keeps]: "bookkeeping (fst (write_internal H addr data s)) = bookkeeping s"
  by (simp add: write_internal_def keeps try_io_keeps [where P = "\<lambda>s'. bookkeeping s' = bookkeeping s"])

lemma write_internal_counts:
  assumes "(s', r) = write_internal H addr data s"
  shows "retry_count (fst s') = retry_count (fst s) \<and> max_retries (fst s') = max_retries (fst s)"
  using write_internal_keeps [of H addr data s] assms
  by (cases "write_internal H addr data s") (simp add: bookkeeping_def)

function write_retry_loop :: "'w i2c_hal \<Rightarrow> u8 \<Rightarrow> bytes \<Rightarrow> multi_master \<times> 'w \<Rightarrow> ('w, unit) mm_io" where
  "write_retry_loop H addr data s =
     (if retry_count (fst s) < max_retries (fst s) then
        (case write_internal H addr data s of
           (s, Inr _) \<Rightarrow> (s, Inr ())
         | ((m, w), Inl ArbitrationLost) \<Rightarrow>
             write_retry_loop H addr data (m\<lparr>retry_count := retry_count m + 1\<rparr>, delay H w)
         | ((m, w), Inl BusBusy) \<Rightarrow>
             write_retry_loop H addr data (m\<lparr>retry_count := retry_count m + 1\<rparr>, delay H w)
         | (s, Inl e) \<Rightarrow> (s, Inl e))
      else (s, Inl MaxRetriesExceeded))"
  by pat_completeness auto
termination
  by (relation "measure (\<lambda>(_, _, _, s). max_retries (fst s) - retry_count (fst s))")
     (auto dest!: write_internal_counts)

definition write_with_retry :: "'w i2c_hal \<Rightarrow> u8 \<Rightarrow> bytes \<Rightarrow> multi_master \<times> 'w \<Rightarrow> ('w, unit) mm_io" where
  "write_with_retry H addr data s =
     (let (m, w) = s in write_retry_loop H addr data (m\<lparr>retry_count := 0\<rparr>, w))"

text \<open>
  Reading: the caller's buffer comes back with the bytes stored so far. \<open>buffer.len() - 1\<close> is
  computed in the build profile.
\<close>

primrec read_data ::
  "'w i2c_hal \<Rightarrow> nat \<Rightarrow> nat \<Rightarrow> bytes \<Rightarrow> multi_master \<times> 'w \<Rightarrow> bytes \<times> ('w, unit) mm_io" where
  "read_data H last_idx i [] s = ([], s, Inr ())"
| "read_data H last_idx i (byte # buffer) s =
     (case read_byte H (i \<noteq> last_idx) s of
        (s, Inl e) \<Rightarrow> (byte # buffer, s, Inl e)
      | (s, Inr b) \<Rightarrow> (let (buffer, r) = read_data H last_idx (i + 1) buffer s in (b # buffer, r)))"

definition read_internal ::
  "profile \<Rightarrow> 'w i2c_hal \<Rightarrow> u8 \<Rightarrow> bytes \<Rightarrow> multi_master \<times> 'w \<Rightarrow> (bytes \<times> ('w, unit) mm_io) run" where
  "read_internal p H addr buffer s =
     (case start H s of
        (s, Inl e) \<Rightarrow> Some (buffer, s, Inl e)
      | (s, Inr _) \<Rightarrow>
          (case write_byte H (push_bit 1 addr OR 1) s of
             (s, Inl e) \<Rightarrow> Some (buffer, s, Inl e)
           | (s, Inr ack) \<Rightarrow>
               if \<not> ack then Some (buffer, stop H s, Inl Nack)
               else do {
                 last_idx \<leftarrow> profile_sub p (length buffer) 1;
                 let (buffer, r) = read_data H last_idx 0 buffer s;
                 Some (buffer, try_io r (\<lambda>s _. (stop H s, Inr ())))
               }))"

lemma read_data_keeps [keeps]: "bookkeeping (fst (snd (read_data H l i buffer s))) = bookkeeping s"
proof (induction buffer arbitrary: i s)
  case (Cons b buffer)
  then show ?case using read_byte_keeps [of H "i \<noteq> l" s]
    by (cases "read_byte H (i \<noteq> l) s"; cases "snd (read_byte H (i \<noteq> l) s)") (simp_all add: case_prod_beta)
qed simp

lemma read_internal_keeps [keeps]:
  assumes "read_internal p H addr buffer s = Some (buffer', s', r)"
  shows "bookkeeping s' = bookkeeping s"
proof -
  obtain s1 r1 where start: "start H s = (s1, r1)" by fastforce
  obtain s2 r2 where byte: "write_byte H (push_bit 1 addr OR 1) s1 = (s2, r2)" by fastforce
  have "bookkeeping s1 = bookkeeping s" "bookkeeping s2 = bookkeeping s1"
    using start_keeps [of H s] write_byte_keeps [of H "push_bit 1 addr OR 1" s1] start byte by simp_all
  moreover have "bookkeeping (fst (try_io (snd (read_data H l 0 buffer s2)) (\<lambda>s _. (stop H s, Inr ())))) =
      bookkeeping s2" for l
    by (rule try_io_keeps [where P = "\<lambda>s'. bookkeeping s' = bookkeeping s2"]) (simp_all add: keeps)
  ultimately show ?thesis using assms start byte
    by (cases r1; cases r2)
       (auto simp: read_internal_def keeps case_prod_beta split: if_splits bind_splits,
        metis fst_conv)
qed

function read_retry_loop ::
  "profile \<Rightarrow> 'w i2c_hal \<Rightarrow> u8 \<Rightarrow> bytes \<Rightarrow> multi_master \<times> 'w \<Rightarrow> (bytes \<times> ('w, unit) mm_io) run" where
  "read_retry_loop p H addr buffer s =
     (if retry_count (fst s) < max_retries (fst s) then
        (case read_internal p H addr buffer s of
           None \<Rightarrow> None
         | Some (buffer, s, Inr _) \<Rightarrow> Some (buffer, s, Inr ())
         | Some (buffer, (m, w), Inl e) \<Rightarrow>
             if e = ArbitrationLost \<or> e = BusBusy
             then read_retry_loop p H addr buffer (m\<lparr>retry_count := retry_count m + 1\<rparr>, delay H w)
             else Some (buffer, (m, w), Inl e))
      else Some (buffer, s, Inl MaxRetriesExceeded))"
  by pat_completeness auto
termination
  by (relation "measure (\<lambda>(_, _, _, _, s). max_retries (fst s) - retry_count (fst s))")
     (auto dest: read_internal_keeps simp: bookkeeping_def)

definition read_with_retry ::
  "profile \<Rightarrow> 'w i2c_hal \<Rightarrow> u8 \<Rightarrow> bytes \<Rightarrow> multi_master \<times> 'w \<Rightarrow> (bytes \<times> ('w, unit) mm_io) run" where
  "read_with_retry p H addr buffer s =
     (let (m, w) = s in read_retry_loop p H addr buffer (m\<lparr>retry_count := 0\<rparr>, w))"

definition arbitration_state :: "multi_master \<Rightarrow> arbitration_result" where
  "arbitration_state m = arb_state m"

declare write_retry_loop.simps [simp del] read_retry_loop.simps [simp del]

subsection \<open>The mock bus\<close>

record mock_hal =
  sda_state :: bool
  scl_state :: bool
  sda_external :: bool

definition mock_hal_new :: mock_hal where
  "mock_hal_new = \<lparr>sda_state = True, scl_state = True, sda_external = True\<rparr>"

definition set_external_sda :: "bool \<Rightarrow> mock_hal \<Rightarrow> mock_hal" where
  "set_external_sda b h = h\<lparr>sda_external := b\<rparr>"

definition mock_i2c_hal :: "mock_hal i2c_hal" where
  "mock_i2c_hal = \<lparr>
     sda_write = (\<lambda>b h. h\<lparr>sda_state := b\<rparr>),
     sda_read = (\<lambda>h. (sda_state h \<and> sda_external h, h)),
     scl_write = (\<lambda>b h. h\<lparr>scl_state := b\<rparr>),
     scl_read = (\<lambda>h. (scl_state h, h)),
     delay = (\<lambda>h. h)\<rparr>"

subsection \<open>Retries\<close>

text \<open>
  The outcome of one attempt that the retry loop passes on: everything but the two errors that
  are tried again.
\<close>

lemma write_retry_loop_outcome:
  assumes "write_retry_loop H addr data s = (s', Inl e)"
  shows "e \<noteq> ArbitrationLost \<and> e \<noteq> BusBusy"
  using assms
proof (induction H addr data s rule: write_retry_loop.induct)
  case (1 H addr data s)
  show ?case
  proof (cases "retry_count (fst s) < max_retries (fst s)")
    case True
    obtain m w r where wi: "write_internal H addr data s = ((m, w), r)"
      by (cases "write_internal H addr data s") auto
    from "1.prems" True wi "1.IH" show ?thesis
      by (subst (asm) write_retry_loop.simps) (auto split: sum.splits i2c_error.splits)
  next
    case False
    then show ?thesis using "1.prems" by (subst (asm) write_retry_loop.simps) auto
  qed
qed

subsection \<open>Two masters on one bus\<close>

text \<open>
  The reference: a rival master that started together with ours and sends its own byte on the
  open-drain data line, which is low as soon as one of them pulls it. Per clock the rival drives
  its next bit; at the falling edge it notices a one that came out as zero and releases the line
  for the rest of the byte. After its bits the line carries the acknowledge level of the slave.
\<close>

record rival_bus =
  our_sda :: bool
  our_scl :: bool
  rival :: "bool list"
  ack_level :: bool

definition external_sda :: "rival_bus \<Rightarrow> bool" where
  "external_sda w = (case rival w of [] \<Rightarrow> ack_level w | b # _ \<Rightarrow> b)"

definition rival_scl :: "bool \<Rightarrow> rival_bus \<Rightarrow> rival_bus" where
  "rival_scl v w =
     (if our_scl w \<and> \<not> v then
        (case rival w of
           [] \<Rightarrow> w\<lparr>our_scl := v\<rparr>
         | b # bs \<Rightarrow> w\<lparr>our_scl := v, rival := (if b \<and> \<not> our_sda w then map (\<lambda>_. True) bs else bs)\<rparr>)
      else w\<lparr>our_scl := v\<rparr>)"

definition rival_hal :: "rival_bus i2c_hal" where
  "rival_hal = \<lparr>
     sda_write = (\<lambda>b w. w\<lparr>our_sda := b\<rparr>),
     sda_read = (\<lambda>w. (our_sda w \<and> external_sda w, w)),
     scl_write = rival_scl,
     scl_read = (\<lambda>w. (our_scl w, w)),
     delay = (\<lambda>w. w)\<rparr>"

text \<open>Losing against a rival: at the first difference we send one and it sends zero.\<close>

fun loses :: "bool list \<Rightarrow> bool list \<Rightarrow> bool" where
  "loses (b # bs) (c # cs) = (if b = c then loses bs cs else b)"
| "loses _ _ = False"

lemma write_bit_rival:
  assumes "\<not> our_scl w" "rival w = c # cs"
  shows "write_bit_with_arbitration rival_hal b (m, w) =
    (if b \<and> \<not> c then ((m\<lparr>arb_state := Lost, is_master := False\<rparr>, w\<lparr>our_scl := True, our_sda := b\<rparr>), Inl ArbitrationLost)
     else ((m, w\<lparr>our_sda := b, rival := (if c \<and> \<not> b then map (\<lambda>_. True) cs else cs)\<rparr>), Inr ()))"
  using assms
  by (auto simp: write_bit_with_arbitration_def rival_hal_def stretch_loop.simps rival_scl_def
      external_sda_def Let_def)

text \<open>Once the rival has released the line nothing is lost any more.\<close>

lemma loses_released: "\<not> loses bs (replicate n True)"
proof (induction bs arbitrary: n)
  case (Cons b bs)
  then show ?case by (cases n) simp_all
qed (cases n; simp)

lemma write_bits_rival:
  fixes byte :: u8
  assumes "\<not> our_scl w" "length (rival w) = length is"
  defines "bs \<equiv> map (\<lambda>i. drop_bit i byte AND 1 \<noteq> 0) is"
  shows "if loses bs (rival w)
    then \<exists>w'. write_bits rival_hal byte is (m, w) =
      ((m\<lparr>arb_state := Lost, is_master := False\<rparr>, w'), Inl ArbitrationLost)
    else \<exists>w'. write_bits rival_hal byte is (m, w) = ((m, w'), Inr ()) \<and> \<not> our_scl w' \<and>
      rival w' = [] \<and> ack_level w' = ack_level w"
  using assms(1,2) unfolding bs_def
proof (induction "is" arbitrary: w)
  case (Cons i "is")
  let ?b = "drop_bit i byte AND 1 \<noteq> 0"
  obtain c cs where c: "rival w = c # cs" "length cs = length is"
    using Cons.prems(2) by (cases "rival w") auto
  define w1 where "w1 = w\<lparr>our_sda := ?b, rival := (if c \<and> \<not> ?b then map (\<lambda>_. True) cs else cs)\<rparr>"
  have w1: "\<not> our_scl w1" "length (rival w1) = length is" "ack_level w1 = ack_level w"
    "rival w1 = (if c \<and> \<not> ?b then replicate (length cs) True else cs)"
    using Cons.prems(1) c(2) by (simp_all add: w1_def map_replicate_const)
  show ?case
  proof (cases "?b \<and> \<not> c")
    case True
    then show ?thesis using write_bit_rival [OF Cons.prems(1) c(1), of ?b m] c(1) by simp
  next
    case False
    then have "write_bit_with_arbitration rival_hal ?b (m, w) = ((m, w1), Inr ())"
      using write_bit_rival [OF Cons.prems(1) c(1), of ?b m] by (auto simp: w1_def)
    moreover have "loses (map (\<lambda>i. drop_bit i byte AND 1 \<noteq> 0) (i # is)) (rival w) =
        loses (map (\<lambda>i. drop_bit i byte AND 1 \<noteq> 0) is) (rival w1)"
      using False c(1) w1(4) loses_released by auto
    ultimately show ?thesis using Cons.IH [OF w1(1,2)] w1(3) by (auto split: if_splits)
  qed
qed simp

subsection \<open>The lower byte wins\<close>

primrec bits_value :: "bool list \<Rightarrow> nat" where
  "bits_value [] = 0"
| "bits_value (b # bs) = of_bool b * 2 ^ length bs + bits_value bs"

lemma bits_value_bound: "bits_value bs < 2 ^ length bs"
  by (induction bs) auto

lemma loses_iff_value: "length bs = length cs \<Longrightarrow> loses bs cs \<longleftrightarrow> bits_value cs < bits_value bs"
proof (induction bs cs rule: list_induct2)
  case (Cons b bs c cs)
  then show ?case using bits_value_bound [of bs] bits_value_bound [of cs] by auto
qed simp

lemma bits_value_rev: "bits_value (rev bs) = horner_sum of_bool 2 bs"
proof (induction bs)
  case (Cons b bs)
  have "bits_value (xs @ [x]) = 2 * bits_value xs + of_bool x" for xs x
    by (induction xs) simp_all
  then show ?case using Cons by simp
qed simp

lemma bits_value_msb: "bits_value (msb_bits b) = unat b"
proof -
  have "bits_value (msb_bits b) = horner_sum of_bool 2 (map (bit b) [0..<8])"
    by (simp add: msb_bits_def bits_value_rev flip: rev_map)
  also have "map (bit b) [0..<8] = map (bit (unat b)) [0..<8]"
    by (simp add: bit_unsigned_iff)
  also have "horner_sum of_bool 2 (map (bit (unat b)) [0..<8]) = take_bit 8 (unat b)"
    by (rule horner_sum_bit_eq_take_bit)
  also have "\<dots> = unat b" using u8_bound [of b] by (simp add: take_bit_nat_eq_self)
  finally show ?thesis .
qed

text \<open>
  C18. Arbitration decides for the lower byte. Against a rival master that sends another byte on
  the same clocks, \<open>write_byte\<close> loses, and reports so with the controller no longer master,
  exactly when the rival's byte is smaller; otherwise, equal bytes included, all eight bits go
  through and it returns whether the slave acknowledged.
\<close>

theorem arbitration_lower_byte_wins:
  assumes "\<not> our_scl w" "rival w = msb_bits c"
  shows "if c < b
    then \<exists>w'. write_byte rival_hal b (m, w) =
      ((m\<lparr>arb_state := Lost, is_master := False\<rparr>, w'), Inl ArbitrationLost)
    else \<exists>w'. write_byte rival_hal b (m, w) =
      ((if ack_level w then m else m\<lparr>arb_state := Won\<rparr>, w'), Inr (\<not> ack_level w)) \<and> \<not> our_scl w'"
proof -
  have bits: "map (\<lambda>i. drop_bit i b AND 1 \<noteq> 0) (rev [0..<8]) = msb_bits b"
    by (simp only: low_bit_nonzero msb_bits_def)
  have "loses (msb_bits b) (rival w) \<longleftrightarrow> c < b"
    using loses_iff_value [of "msb_bits b" "msb_bits c"] assms(2)
    by (simp add: bits_value_msb word_less_nat_alt)
  moreover have "length (rival w) = length (rev [0..<8])" using assms(2) by (simp add: msb_bits_def)
  ultimately have "if c < b
      then \<exists>w'. write_bits rival_hal b (rev [0..<8]) (m, w) =
        ((m\<lparr>arb_state := Lost, is_master := False\<rparr>, w'), Inl ArbitrationLost)
      else \<exists>w'. write_bits rival_hal b (rev [0..<8]) (m, w) = ((m, w'), Inr ()) \<and> \<not> our_scl w' \<and>
        rival w' = [] \<and> ack_level w' = ack_level w"
    using write_bits_rival [OF assms(1), of "rev [0..<8]" b m] bits by simp
  then show ?thesis
    by (auto simp: write_byte_def rival_hal_def rival_scl_def external_sda_def Let_def split: if_splits)
qed

definition contested_bus :: rival_bus where
  "contested_bus = \<lparr>our_sda = False, our_scl = False, rival = msb_bits 0xA0, ack_level = False\<rparr>"

theorem arbitration_lower_byte_wins_witness:
  "(\<exists>s. write_byte rival_hal 0xA2 (multi_master_new 3, contested_bus) = (s, Inl ArbitrationLost)) \<and>
   (\<exists>s. write_byte rival_hal 0x90 (multi_master_new 3, contested_bus) = (s, Inr True))"
  using arbitration_lower_byte_wins [of contested_bus "0xA0" "0xA2" "multi_master_new 3"]
    arbitration_lower_byte_wins [of contested_bus "0xA0" "0x90" "multi_master_new 3"]
  by (auto simp: contested_bus_def)

subsection \<open>Reading into an empty buffer\<close>

text \<open>
  With an empty buffer an acknowledged address panics the checked build on the index of the last
  byte, the bus still claimed; the release build sends STOP and succeeds.
\<close>

theorem read_empty_buffer:
  assumes "start H s = (s1, Inr ())" "write_byte H (push_bit 1 addr OR 1) s1 = (s2, Inr True)"
  shows "read_internal CheckedBuild H addr [] s = None \<and>
    read_internal ReleaseBuild H addr [] s = Some ([], stop H s2, Inr ())"
  using assms by (simp add: read_internal_def profile_sub_def usub_def del: push_bit_of_1)

end
