(* ===== verification/I2c_Pullup.thy ===== *)
theory I2c_Pullup
  imports Uproto_Prelude
begin

text \<open>
  \<^verbatim>\<open>I2C/src/16/16_no_std.rs\<close>: validation of pull-up resistors in 32-bit integer arithmetic. The supply
  voltage and the resistor of a configuration are constant parameters of its type and arguments
  here. Arithmetic is that of constant evaluation and of the checked build: overflow and division
  by zero panic.
\<close>

subsection \<open>Checked arithmetic on \<open>u32\<close>\<close>

definition u32_sub :: "nat \<Rightarrow> nat \<Rightarrow> nat run" where
  [rust_ops]: "u32_sub a b = (if b \<le> a then Some (a - b) else None)"

definition u32_mul :: "nat \<Rightarrow> nat \<Rightarrow> nat run" where
  [rust_ops]: "u32_mul a b = (if a * b < 2 ^ 32 then Some (a * b) else None)"

definition u32_div :: "nat \<Rightarrow> nat \<Rightarrow> nat run" where
  [rust_ops]: "u32_div a b = (if b = 0 then None else Some (a div b))"

subsection \<open>Configurations\<close>

datatype i2c_speed = Standard100kHz | Fast400kHz | FastPlus1MHz

fun max_rise_time_ns :: "i2c_speed \<Rightarrow> nat" where
  "max_rise_time_ns Standard100kHz = 1000"
| "max_rise_time_ns Fast400kHz = 300"
| "max_rise_time_ns FastPlus1MHz = 120"

fun frequency_hz :: "i2c_speed \<Rightarrow> nat" where
  "frequency_hz Standard100kHz = 100000"
| "frequency_hz Fast400kHz = 400000"
| "frequency_hz FastPlus1MHz = 1000000"

datatype resistor_validation = Valid | TooLow | TooHigh | CapacitanceExceeded

record pullup_config =
  speed :: i2c_speed
  bus_capacitance_pf :: nat

definition config_new :: "i2c_speed \<Rightarrow> nat \<Rightarrow> pullup_config" where
  "config_new s cap = \<lparr>speed = s, bus_capacitance_pf = cap\<rparr>"

definition min_resistance_ohm :: "nat \<Rightarrow> nat run" where
  "min_resistance_ohm vcc_mv =
     do { d \<leftarrow> u32_sub vcc_mv 400; n \<leftarrow> u32_mul d 1000; m \<leftarrow> u32_mul 3 1000; u32_div n m }"

definition max_resistance_ohm :: "pullup_config \<Rightarrow> nat run" where
  "max_resistance_ohm c =
     do { n \<leftarrow> u32_mul (max_rise_time_ns (speed c)) 1000; p \<leftarrow> u32_mul 847 (bus_capacitance_pf c);
          d \<leftarrow> u32_div p 1000; u32_div n d }"

definition validate :: "nat \<Rightarrow> nat \<Rightarrow> pullup_config \<Rightarrow> resistor_validation run" where
  "validate vcc_mv r_pullup c =
     do {
       lo \<leftarrow> min_resistance_ohm vcc_mv;
       hi \<leftarrow> max_resistance_ohm c;
       Some (if r_pullup < lo then TooLow else if r_pullup > hi then TooHigh
             else if hi < lo then CapacitanceExceeded else Valid)
     }"

definition calculate :: "nat \<Rightarrow> nat \<Rightarrow> i2c_speed \<Rightarrow> (nat \<times> nat) run" where
  "calculate vcc_mv bus_cap_pf s =
     do {
       d \<leftarrow> u32_sub vcc_mv 400; n \<leftarrow> u32_mul d 1000; m \<leftarrow> u32_mul 3 1000; r_min \<leftarrow> u32_div n m;
       t \<leftarrow> u32_mul (max_rise_time_ns s) 1000; p \<leftarrow> u32_mul 847 bus_cap_pf; q \<leftarrow> u32_div p 1000; r_max \<leftarrow> u32_div t q;
       Some (r_min, r_max)
     }"

definition validate_resistor :: "nat \<Rightarrow> nat \<Rightarrow> nat \<Rightarrow> i2c_speed \<Rightarrow> bool run" where
  "validate_resistor resistor_ohm vcc_mv bus_cap_pf s =
     do { (r_min, r_max) \<leftarrow> calculate vcc_mv bus_cap_pf s; Some (resistor_ohm \<ge> r_min \<and> resistor_ohm \<le> r_max) }"

subsection \<open>The range of resistors\<close>

definition in_domain :: "nat \<Rightarrow> nat \<Rightarrow> bool" where
  "in_domain vcc cap \<longleftrightarrow> 400 \<le> vcc \<and> (vcc - 400) * 1000 < 2 ^ 32 \<and> 847 * cap < 2 ^ 32 \<and> 2 \<le> cap"

definition r_low :: "nat \<Rightarrow> nat" where
  "r_low vcc = (vcc - 400) div 3"

definition r_high :: "i2c_speed \<Rightarrow> nat \<Rightarrow> nat" where
  "r_high s cap = max_rise_time_ns s * 1000 div (847 * cap div 1000)"

lemma scaled_div: "(n :: nat) * 1000 div 3000 = n div 3"
  using div_mult_mult2 [of 1000 n 3] by simp

lemma round_down: "(n :: nat) - 999 \<le> n div 1000 * 1000"
proof -
  have "n mod 1000 < 1000" by simp
  then show ?thesis using div_mult_mod_eq [of n 1000] by linarith
qed

lemma rise_bound: "max_rise_time_ns s * 1000 < 2 ^ 32"
  by (cases s) simp_all

lemma calculate_eq:
  "calculate vcc cap s = (if in_domain vcc cap then Some (r_low vcc, r_high s cap) else None)"
proof -
  have "847 * cap div 1000 = 0 \<longleftrightarrow> cap < 2" by auto
  then show ?thesis using rise_bound [of s]
    by (simp add: calculate_def rust_ops in_domain_def r_low_def r_high_def scaled_div Option.bind_def)
qed

lemma validate_calculate:
  "validate vcc r c = (case calculate vcc (bus_capacitance_pf c) (speed c) of
     None \<Rightarrow> None
   | Some (lo, hi) \<Rightarrow> Some (if r < lo then TooLow else if r > hi then TooHigh else Valid))"
  by (auto simp: validate_def calculate_def min_resistance_ohm_def max_resistance_ohm_def rust_ops
      split: Option.bind_splits)

text \<open>
  The validators are exact and agree. They panic exactly when the supply is below 0.4 V, a
  product does not fit into 32 bits or the capacitance is below two picofarads. Otherwise both
  accept exactly the resistors in the same range. \<open>CapacitanceExceeded\<close> is never the answer: when the
  range is empty every resistor is too low or too high. The upper end is a little too large, since
  the product is rounded down before it divides: an accepted resistor keeps the rise time only up
  to a rounding of the product by 999, and there are accepted ones that exceed the limit.
\<close>

theorem pullup_validation_exact:
  "validate vcc r (config_new s cap) =
     (if in_domain vcc cap then Some (if r < r_low vcc then TooLow else if r_high s cap < r then TooHigh else Valid)
      else None) \<and>
   validate_resistor r vcc cap s = map_option (\<lambda>v. v = Valid) (validate vcc r (config_new s cap)) \<and>
   validate vcc r (config_new s cap) \<noteq> Some CapacitanceExceeded \<and>
   (validate vcc r (config_new s cap) = Some Valid \<longrightarrow>
     r * (847 * cap - 999) \<le> max_rise_time_ns s * 1000 * 1000) \<and>
   (\<exists>r' cap'. validate 3300 r' (config_new Standard100kHz cap') = Some Valid \<and> 1000 * 1000 * 1000 < r' * (847 * cap'))"
proof -
  have eq: "validate vcc r (config_new s cap) =
     (if in_domain vcc cap then Some (if r < r_low vcc then TooLow else if r_high s cap < r then TooHigh else Valid) else None)"
    for vcc r s cap by (simp add: validate_calculate calculate_eq config_new_def)
  have rise: "r * (847 * cap - 999) \<le> max_rise_time_ns s * 1000 * 1000" if "in_domain vcc cap" "r \<le> r_high s cap"
  proof -
    let ?d = "847 * cap div 1000"
    have "r * ?d \<le> r_high s cap * ?d" using that(2) by simp
    also have "\<dots> \<le> max_rise_time_ns s * 1000" unfolding r_high_def by (rule div_times_less_eq_dividend)
    finally have "r * ?d * 1000 \<le> max_rise_time_ns s * 1000 * 1000" by simp
    moreover have "r * (847 * cap - 999) \<le> r * ?d * 1000"
      unfolding mult.assoc [of r] by (rule mult_le_mono2 [OF round_down])
    ultimately show ?thesis by (rule order_trans [rotated])
  qed
  have "validate 3300 11904 (config_new Standard100kHz 100) = Some Valid"
    unfolding eq by (simp add: in_domain_def r_low_def r_high_def)
  then have "\<exists>r' cap'. validate 3300 r' (config_new Standard100kHz cap') = Some Valid \<and> 1000 * 1000 * 1000 < r' * (847 * cap')"
    by (intro exI [of _ 11904] exI [of _ 100]) simp
  then show ?thesis using rise
    by (auto simp: eq validate_resistor_def calculate_eq split: if_splits)
qed

theorem pullup_validation_exact_witness:
  "validate 3300 4700 (config_new Standard100kHz 100) = Some Valid \<and> 4700 * (847 * 100 - 999) \<le> (1000 * 1000 * 1000 :: nat)"
  using pullup_validation_exact [of 3300 4700 Standard100kHz 100] by (simp add: in_domain_def r_low_def r_high_def)

text \<open>The configuration of the example, 4.7 kilohm at 150 picofarad and 400 kHz, is rejected.\<close>

lemma example_rejected: "validate 3300 4700 (config_new Fast400kHz 150) = Some TooHigh"
  by (simp add: validate_calculate calculate_eq config_new_def in_domain_def r_low_def r_high_def)

end
