(* ===== verification/Float_Rounding.thy ===== *)
theory Float_Rounding
  imports Uproto_Prelude "HOL-Library.Log_Nat"
begin

text \<open>
  Finite binary floating-point numbers. A value of type \<open>f64\<close> or \<open>f32\<close> is the rational it denotes. Rounding is that of
  the default mode, to the nearest with ties to even: with 53 significant bits and the subnormal
  spacing \<open>2 powi - 1074\<close> near zero for binary64, with 24 bits and \<open>2 powi - 149\<close> for binary32. An operation of the language
  is the exact operation followed by the rounding.
  Infinities, NaN and the sign of zero are not represented: the theorems that use this theory are
  about magnitudes far below the largest number of the format. What both formats share is proved in the locale
  \<open>float_format\<close>.
\<close>

type_synonym f64 = rat
type_synonym f32 = rat

definition ilog2 :: "rat \<Rightarrow> int" where
  "ilog2 x = (let (a, b) = quotient_of x; k = bitlen a - bitlen b
              in if 2 powi k \<le> x then k else k - 1)"

definition round_half_even :: "rat \<Rightarrow> int" where
  "round_half_even y =
     (let f = \<lfloor>y\<rfloor>; d = y - of_int f
      in if d < 1 / 2 then f else if d > 1 / 2 then f + 1 else if even f then f else f + 1)"

text \<open>The spacing of the numbers around \<open>x\<close>, with \<open>p\<close> significant bits and smallest exponent \<open>e\<close>.\<close>

definition ulp_exp :: "nat \<Rightarrow> int \<Rightarrow> rat \<Rightarrow> int" where
  "ulp_exp p e x = max (ilog2 \<bar>x\<bar> + 1 - int p) e"

definition rnd_to :: "nat \<Rightarrow> int \<Rightarrow> rat \<Rightarrow> rat" where
  "rnd_to p e x = (if x = 0 then 0 else of_int (round_half_even (x / 2 powi ulp_exp p e x)) * 2 powi ulp_exp p e x)"

definition rnd :: "rat \<Rightarrow> f64" where
  "rnd = rnd_to 53 (- 1074)"

definition rnd32 :: "rat \<Rightarrow> f32" where
  "rnd32 = rnd_to 24 (- 149)"

definition representable :: "rat \<Rightarrow> bool" where
  "representable x \<longleftrightarrow> rnd x = x"

definition f64_add :: "f64 \<Rightarrow> f64 \<Rightarrow> f64" where
  "f64_add a b = rnd (a + b)"

definition f64_sub :: "f64 \<Rightarrow> f64 \<Rightarrow> f64" where
  "f64_sub a b = rnd (a - b)"

definition f64_mul :: "f64 \<Rightarrow> f64 \<Rightarrow> f64" where
  "f64_mul a b = rnd (a * b)"

definition f64_div :: "f64 \<Rightarrow> f64 \<Rightarrow> f64" where
  "f64_div a b = rnd (a / b)"

definition f32_add :: "f32 \<Rightarrow> f32 \<Rightarrow> f32" where
  "f32_add a b = rnd32 (a + b)"

definition f32_sub :: "f32 \<Rightarrow> f32 \<Rightarrow> f32" where
  "f32_sub a b = rnd32 (a - b)"

definition f32_mul :: "f32 \<Rightarrow> f32 \<Rightarrow> f32" where
  "f32_mul a b = rnd32 (a * b)"

definition f32_div :: "f32 \<Rightarrow> f32 \<Rightarrow> f32" where
  "f32_div a b = rnd32 (a / b)"

text \<open>\<open>Duration::as_secs_f64\<close> of a duration in nanoseconds.\<close>

definition as_secs_f64 :: "nat \<Rightarrow> f64" where
  "as_secs_f64 n =
     f64_add (rnd (of_nat (n div 1000000000))) (f64_div (rnd (of_nat (n mod 1000000000))) (rnd 1000000000))"

subsection \<open>The binary logarithm\<close>

lemma powi_less_iff [simp]: "(2::rat) powi a < 2 powi b \<longleftrightarrow> a < b"
  by (metis linorder_neqE_linordered_idom one_less_numeral_iff order_less_asym power_int_strict_increasing
    semiring_norm(76))

lemma powi_le_iff [simp]: "(2::rat) powi a \<le> 2 powi b \<longleftrightarrow> a \<le> b"
  using powi_less_iff [of b a] by linarith

lemma ilog2_bounds:
  assumes "0 < x"
  shows "2 powi ilog2 x \<le> x" "x < 2 powi (ilog2 x + 1)"
proof -
  obtain a b where ab: "quotient_of x = (a, b)" by fastforce
  have b: "0 < b" and x: "x = of_int a / of_int b"
    using ab quotient_of_denom_pos quotient_of_div by auto
  then have a: "0 < a" using assms by (simp add: zero_less_divide_iff)
  define la lb where "la = floorlog 2 (nat a)" and "lb = floorlog 2 (nat b)"
  have "2 ^ (la - 1) \<le> nat a" "nat a < 2 ^ la" "2 ^ (lb - 1) \<le> nat b" "nat b < 2 ^ lb" "0 < la" "0 < lb"
    using a b floorlog_bounds [of "nat a" 2] floorlog_bounds [of "nat b" 2]
    by (simp_all add: la_def lb_def floorlog_eq_zero_iff neq0_conv [symmetric] del: neq0_conv)
  then have "2 ^ (la - 1) \<le> a" "a < 2 ^ la" "2 ^ (lb - 1) \<le> b" "b < 2 ^ lb" and pos: "0 < la" "0 < lb"
    by (simp_all add: le_nat_iff nat_less_iff b a)
  then have bounds: "(2::rat) ^ (la - 1) \<le> of_int a" "of_int a < (2::rat) ^ la"
    "(2::rat) ^ (lb - 1) \<le> of_int b" "of_int b < (2::rat) ^ lb"
    by (metis of_int_le_iff of_int_less_iff of_int_numeral of_int_power)+
  define k where "k = int la - int lb"
  have lower: "2 powi (k - 1) \<le> x"
  proof -
    have "2 powi (k - 1) = (2::rat) ^ (la - 1) / 2 ^ lb"
      using pos by (simp add: k_def power_int_diff power_diff)
    also have "\<dots> \<le> of_int a / of_int b" using bounds b a by (intro frac_le) auto
    finally show ?thesis by (simp add: x)
  qed
  have upper: "x < 2 powi (k + 1)"
  proof -
    have "of_int a / of_int b < (2::rat) ^ la / 2 ^ (lb - 1)"
      using bounds b a by (intro frac_less) auto
    also have "\<dots> = 2 powi (k + 1)"
      using pos by (simp add: k_def power_int_diff power_int_add power_diff)
    finally show ?thesis by (simp add: x)
  qed
  have "ilog2 x = (if 2 powi k \<le> x then k else k - 1)"
    by (simp add: ilog2_def ab k_def la_def lb_def bitlen_def)
  then show "2 powi ilog2 x \<le> x" "x < 2 powi (ilog2 x + 1)" using lower upper by auto
qed

lemma ilog2_eqI:
  assumes "2 powi k \<le> x" "x < 2 powi (k + 1)"
  shows "ilog2 x = k"
proof -
  have "0 < x" using assms(1) by (meson less_le_trans zero_less_numeral zero_less_power_int)
  then have "(2::rat) powi k < 2 powi (ilog2 x + 1)" "(2::rat) powi ilog2 x < 2 powi (k + 1)"
    using ilog2_bounds [of x] assms by linarith+
  then show ?thesis by simp
qed

lemma ilog2_mono:
  assumes "0 < x" "x \<le> y"
  shows "ilog2 x \<le> ilog2 y"
proof -
  have "(2::rat) powi ilog2 x < 2 powi (ilog2 y + 1)"
    using ilog2_bounds(1) [of x] ilog2_bounds(2) [of y] assms by linarith
  then show ?thesis by simp
qed

subsection \<open>Rounding to an integer\<close>

lemma round_half_even_floor: "round_half_even y = \<lfloor>y\<rfloor> \<or> round_half_even y = \<lfloor>y\<rfloor> + 1 \<and> of_int \<lfloor>y\<rfloor> < y"
  by (auto simp: round_half_even_def Let_def not_less)

lemma round_half_even_ge: "of_int n \<le> y \<Longrightarrow> n \<le> round_half_even y"
  using round_half_even_floor [of y] le_floor_iff [of n y] by auto

lemma round_half_even_le: "y \<le> of_int n \<Longrightarrow> round_half_even y \<le> n"
  using round_half_even_floor [of y] by (auto; linarith)

lemma round_half_even_int [simp]: "round_half_even (of_int n) = n"
  by (simp add: round_half_even_def)

lemma round_half_even_mono:
  assumes "x \<le> y"
  shows "round_half_even x \<le> round_half_even y"
proof (cases "\<lfloor>x\<rfloor> = \<lfloor>y\<rfloor>")
  case True
  then show ?thesis using assms by (auto simp: round_half_even_def Let_def)
next
  case False
  then have "\<lfloor>x\<rfloor> + 1 \<le> \<lfloor>y\<rfloor>" using assms floor_mono [of x y] by linarith
  then show ?thesis using round_half_even_floor [of x] round_half_even_floor [of y] by auto
qed

lemma round_half_even_error: "\<bar>of_int (round_half_even y) - y\<bar> \<le> 1 / 2"
  using floor_correct [of y]
  by (auto simp: round_half_even_def Let_def abs_le_iff field_simps; linarith)

lemma round_half_even_uminus: "round_half_even (- y) = - round_half_even y"
proof (cases "y = of_int \<lfloor>y\<rfloor>")
  case True
  then show ?thesis by (metis of_int_minus round_half_even_int)
next
  case False
  then have "\<lfloor>- y\<rfloor> = - \<lfloor>y\<rfloor> - 1" by linarith
  then show ?thesis by (auto simp: round_half_even_def Let_def)
qed

lemma powi_grid: "e \<le> k \<Longrightarrow> (2::rat) powi k = of_int (2 ^ nat (k - e)) * 2 powi e"
  by (simp flip: power_int_add power_int_of_nat)

subsection \<open>Positive numbers up to a factor\<close>

text \<open>\<open>x\<close> and \<open>y\<close> are positive and differ by a factor of at most \<open>q ^ n\<close>; the exponents add up along a computation.\<close>

definition near_by :: "rat \<Rightarrow> nat \<Rightarrow> rat \<Rightarrow> rat \<Rightarrow> bool" where
  "near_by q n x y \<longleftrightarrow> 0 < x \<and> 0 < y \<and> y \<le> x * q ^ n \<and> x \<le> y * q ^ n"

lemma near_by_sym: "near_by q n x y \<Longrightarrow> near_by q n y x"
  by (simp add: near_by_def)

lemma near_by_refl: "0 < x \<Longrightarrow> near_by q 0 x x"
  by (simp add: near_by_def)

lemma near_by_mult:
  assumes "0 < q" "near_by q m a b" "near_by q n c d"
  shows "near_by q (m + n) (a * c) (b * d)"
proof -
  have "b * d \<le> (a * q ^ m) * (c * q ^ n)" "a * c \<le> (b * q ^ m) * (d * q ^ n)"
    using assms unfolding near_by_def by (intro mult_mono; simp)+
  then show ?thesis using assms by (simp add: near_by_def power_add algebra_simps)
qed

lemma near_by_inverse: "near_by q n a b \<Longrightarrow> near_by q n (1 / a) (1 / b)"
  by (auto simp: near_by_def field_simps)

lemma near_by_div: "0 < q \<Longrightarrow> near_by q m a b \<Longrightarrow> near_by q n c d \<Longrightarrow> near_by q (m + n) (a / c) (b / d)"
  using near_by_mult [OF _ _ near_by_inverse, of q m a b n c d] by simp

lemma near_by_trans:
  assumes "0 < q" "near_by q m a b" "near_by q n b c"
  shows "near_by q (m + n) a c"
proof -
  have "b * q ^ n \<le> a * q ^ m * q ^ n" "b * q ^ m \<le> c * q ^ n * q ^ m"
    using assms unfolding near_by_def by (intro mult_right_mono; simp)+
  then show ?thesis using assms unfolding near_by_def power_add by (auto simp: ac_simps intro: order_trans)
qed

lemma near_by_error:
  assumes "near_by q n x y" "q ^ n \<le> 1 + \<epsilon>"
  shows "\<bar>x - y\<bar> \<le> y * \<epsilon>"
proof -
  have pos: "0 < x" "0 < y" using assms(1) by (simp_all add: near_by_def)
  have "y * q ^ n \<le> y * (1 + \<epsilon>)" "x * q ^ n \<le> x * (1 + \<epsilon>)"
    using assms pos by (intro mult_left_mono; simp)+
  then have *: "x \<le> y * (1 + \<epsilon>)" "y \<le> x * (1 + \<epsilon>)" using assms(1) unfolding near_by_def by linarith+
  show ?thesis
  proof (cases "x \<le> y")
    case True
    have "0 \<le> x * \<epsilon>" using *(2) True by (simp add: algebra_simps)
    then have "0 \<le> \<epsilon>" using pos by (simp add: zero_le_mult_iff)
    then have "x * \<epsilon> \<le> y * \<epsilon>" using True by (rule mult_right_mono [rotated])
    then show ?thesis using *(2) True by (simp add: algebra_simps)
  next
    case False
    then show ?thesis using *(1) by (simp add: algebra_simps)
  qed
qed

subsection \<open>Rounding to a format\<close>

locale float_format =
  fixes p :: nat and e :: int and rd :: "rat \<Rightarrow> rat"
  assumes p_pos: "0 < p" and rd_def: "rd x = rnd_to p e x"
begin

lemma zero: "rd 0 = 0"
  by (simp add: rd_def rnd_to_def)

lemma uminus: "rd (- x) = - rd x"
  by (simp add: rd_def rnd_to_def ulp_exp_def round_half_even_uminus)

lemma nonneg:
  assumes "0 \<le> x"
  shows "0 \<le> rd x"
proof -
  have "0 \<le> round_half_even (x / 2 powi ulp_exp p e x)"
    using assms round_half_even_ge [of 0] by simp
  then show ?thesis by (simp add: rd_def rnd_to_def)
qed

text \<open>Points of the grid of the argument's binade are barriers of the rounding.\<close>

lemma le_grid:
  assumes "x \<le> of_int n * 2 powi ulp_exp p e x" "x \<noteq> 0"
  shows "rd x \<le> of_int n * 2 powi ulp_exp p e x"
proof -
  have "round_half_even (x / 2 powi ulp_exp p e x) \<le> n"
    using assms by (intro round_half_even_le) (simp add: pos_divide_le_eq)
  then show ?thesis using assms by (simp add: rd_def rnd_to_def)
qed

lemma ge_grid:
  assumes "of_int n * 2 powi ulp_exp p e x \<le> x" "x \<noteq> 0"
  shows "of_int n * 2 powi ulp_exp p e x \<le> rd x"
proof -
  have "n \<le> round_half_even (x / 2 powi ulp_exp p e x)"
    using assms by (intro round_half_even_ge) (simp add: pos_le_divide_eq)
  then show ?thesis using assms by (simp add: rd_def rnd_to_def)
qed

lemma mono_nonneg:
  assumes "0 \<le> x" "x \<le> y"
  shows "rd x \<le> rd y"
proof (cases "x = 0")
  case True
  then show ?thesis using assms nonneg by (simp add: zero)
next
  case False
  then have pos: "0 < x" "0 < y" using assms by auto
  show ?thesis
  proof (cases "ulp_exp p e x = ulp_exp p e y")
    case True
    have "round_half_even (x / 2 powi ulp_exp p e x) \<le> round_half_even (y / 2 powi ulp_exp p e x)"
      using assms by (intro round_half_even_mono divide_right_mono) auto
    then show ?thesis using pos True by (simp add: rd_def rnd_to_def)
  next
    case False
    let ?k = "ilog2 y"
    have "ulp_exp p e x < ulp_exp p e y" "ulp_exp p e y = ?k + 1 - int p" "ilog2 x < ?k"
      using ilog2_mono [OF pos(1) assms(2)] False pos by (auto simp: ulp_exp_def)
    then have grid: "ulp_exp p e x \<le> ?k" "ulp_exp p e y \<le> ?k" using p_pos by auto
    have "(2::rat) powi (ilog2 x + 1) \<le> 2 powi ?k" using \<open>ilog2 x < ?k\<close> by simp
    then have "x \<le> 2 powi ?k" using ilog2_bounds(2) [OF pos(1)] by linarith
    then have "rd x \<le> 2 powi ?k"
      using le_grid [of x "2 ^ nat (?k - ulp_exp p e x)"] powi_grid [OF grid(1)] pos by simp
    moreover have "2 powi ?k \<le> rd y"
      using ge_grid [of "2 ^ nat (?k - ulp_exp p e y)" y] powi_grid [OF grid(2)] pos
        ilog2_bounds(1) [OF pos(2)] by simp
    ultimately show ?thesis by linarith
  qed
qed

lemma mono:
  assumes "x \<le> y"
  shows "rd x \<le> rd y"
proof -
  consider "0 \<le> x" | "x < 0" "0 \<le> y" | "y < 0" by linarith
  then show ?thesis
  proof cases
    case 1
    then show ?thesis using mono_nonneg assms by simp
  next
    case 2
    then show ?thesis using nonneg [of y] nonneg [of "- x"] by (simp add: uminus)
  next
    case 3
    then show ?thesis using mono_nonneg [of "- y" "- x"] assms by (simp add: uminus)
  qed
qed

text \<open>The numbers of the format are the fixed points of the rounding.\<close>

lemma fixed_scaled_nonneg:
  assumes "0 \<le> m" "m \<le> 2 ^ p" "e \<le> k"
  shows "rd (of_int m * 2 powi k) = of_int m * 2 powi k"
proof (cases "m = 0")
  case True
  then show ?thesis by (simp add: zero)
next
  case False
  let ?x = "of_int m * 2 powi k :: rat" and ?u = "ulp_exp p e (of_int m * 2 powi k)"
  have pos: "0 < ?x" using assms False by simp
  have "of_int m \<le> (of_int (2 ^ p) :: rat)" using assms(2) by (simp only: of_int_le_iff)
  then have "?x \<le> of_int (2 ^ p) * 2 powi k" by (intro mult_right_mono) simp_all
  also have "of_int (2 ^ p) * 2 powi k = (2::rat) powi (k + int p)" by (simp add: power_int_add)
  finally have top: "?x \<le> 2 powi (k + int p)" .
  then have "(2::rat) powi ilog2 ?x \<le> 2 powi (k + int p)" using ilog2_bounds(1) [OF pos] by linarith
  then have le: "ilog2 ?x \<le> k + int p" by simp
  have "\<exists>n. ?x = of_int n * 2 powi ?u"
  proof (cases "?u \<le> k")
    case True
    then show ?thesis using powi_grid [OF True]
      by (intro exI [of _ "m * 2 ^ nat (k - ?u)"]) simp
  next
    case False
    then have u: "?u = k + 1" "ilog2 ?x = k + int p" using le assms(3) pos by (auto simp: ulp_exp_def)
    then have "?x = 2 powi (k + int p)" using top ilog2_bounds(1) [OF pos] by simp
    also have "\<dots> = of_int (2 ^ (p - 1)) * 2 powi ?u"
      unfolding u(1) using p_pos by (cases p) (simp_all add: power_int_add)
    finally show ?thesis ..
  qed
  then obtain n where "?x / 2 powi ?u = of_int n" "?x = of_int n * 2 powi ?u"
    by (metis nonzero_mult_div_cancel_right power_int_not_zero zero_neq_numeral)
  then show ?thesis using pos by (simp add: rd_def rnd_to_def)
qed

lemma fixed_scaled: "\<bar>m\<bar> \<le> 2 ^ p \<Longrightarrow> e \<le> k \<Longrightarrow> rd (of_int m * 2 powi k) = of_int m * 2 powi k"
  using fixed_scaled_nonneg [of m k] fixed_scaled_nonneg [of "- m" k] by (cases "0 \<le> m") (auto simp: uminus)

lemma rd_scaled:
  obtains m k where "rd x = of_int m * 2 powi k" "\<bar>m\<bar> \<le> 2 ^ p" "e \<le> k"
proof (cases "x = 0")
  case True
  then show ?thesis using that [of 0 e] by (simp add: zero)
next
  case False
  let ?u = "ulp_exp p e x" and ?q = "round_half_even (x / 2 powi ulp_exp p e x)"
  have pos: "0 < \<bar>x\<bar>" using False by simp
  have "ilog2 \<bar>x\<bar> + 1 \<le> ?u + int p" by (simp add: ulp_exp_def)
  then have "(2::rat) powi (ilog2 \<bar>x\<bar> + 1) \<le> 2 powi (?u + int p)" by simp
  then have "\<bar>x\<bar> \<le> 2 powi (?u + int p)" using ilog2_bounds(2) [OF pos] by linarith
  then have "\<bar>x / 2 powi ?u\<bar> \<le> of_int (2 ^ p)" by (simp add: pos_divide_le_eq power_int_add mult.commute)
  then have "x / 2 powi ?u \<le> of_int (2 ^ p)" "of_int (- (2 ^ p)) \<le> x / 2 powi ?u" unfolding of_int_minus by linarith+
  then have "?q \<le> 2 ^ p" "- (2 ^ p) \<le> ?q" by (blast intro: round_half_even_le round_half_even_ge)+
  then have "\<bar>?q\<bar> \<le> 2 ^ p" by linarith
  moreover have "e \<le> ?u" by (simp add: ulp_exp_def)
  ultimately show ?thesis using that [of ?q ?u] False by (simp add: rd_def rnd_to_def)
qed

lemma idem: "rd (rd x) = rd x"
  by (metis fixed_scaled rd_scaled)

lemma le_fixed: "x \<le> y \<Longrightarrow> rd y = y \<Longrightarrow> rd x \<le> y"
  using mono [of x y] by simp

lemma ge_fixed: "y \<le> x \<Longrightarrow> rd y = y \<Longrightarrow> y \<le> rd x"
  using mono [of y x] by simp

lemma fixed_int: "\<bar>n\<bar> \<le> 2 ^ p \<Longrightarrow> e \<le> 0 \<Longrightarrow> rd (of_int n) = of_int n"
  using fixed_scaled [of n 0] by simp

text \<open>A difference of two numbers of the format never rounds to the wrong side of zero.\<close>

lemma diff_neg:
  assumes "rd a = a" "rd b = b" "a < b"
  shows "rd (a - b) < 0"
proof -
  obtain m k n l where ab: "a = of_int m * 2 powi k" "e \<le> k" "b = of_int n * 2 powi l" "e \<le> l"
    using rd_scaled [of a] rd_scaled [of b] assms(1,2) by metis
  let ?d = "n * 2 ^ nat (l - e) - m * 2 ^ nat (k - e)"
  have eq: "b - a = of_int ?d * 2 powi e"
    using powi_grid [OF ab(2)] powi_grid [OF ab(4)] ab(1,3) by (simp add: algebra_simps)
  have "0 < of_int ?d * (2 powi e :: rat)" unfolding eq [symmetric] using assms(3) by simp
  then have "(0::rat) < of_int ?d" by (rule zero_less_mult_pos2) simp
  then have "0 < ?d" by (simp only: of_int_0_less_iff)
  with eq have "(1::rat) * 2 powi e \<le> b - a" by (metis mult_right_mono of_int_1_le_iff int_one_le_iff_zero_less zero_le_numeral zero_le_power_int)
  then have "2 powi e \<le> rd (b - a)"
    using fixed_scaled [of 1 e] by (intro ge_fixed) (simp_all add: one_le_power)
  then have "0 < rd (b - a)" by (meson less_le_trans zero_less_numeral zero_less_power_int)
  then show ?thesis using uminus [of "b - a"] by simp
qed

lemma diff_sign: "rd a = a \<Longrightarrow> rd b = b \<Longrightarrow> 0 \<le> rd (a - b) \<longleftrightarrow> b \<le> a"
  using diff_neg [of a b] nonneg [of "a - b"] by (meson diff_ge_0_iff_ge not_le)

lemma ulp_error: "\<bar>rd x - x\<bar> \<le> 2 powi ulp_exp p e x / 2"
proof (cases "x = 0")
  case False
  let ?u = "2 powi ulp_exp p e x :: rat"
  have "rd x - x = (of_int (round_half_even (x / ?u)) - x / ?u) * ?u"
    using False by (simp add: rd_def rnd_to_def algebra_simps)
  then have "\<bar>rd x - x\<bar> = \<bar>of_int (round_half_even (x / ?u)) - x / ?u\<bar> * ?u" by (simp add: abs_mult)
  also have "\<dots> \<le> 1 / 2 * ?u" by (intro mult_right_mono round_half_even_error) simp
  finally show ?thesis by simp
qed (simp add: zero)

text \<open>The absolute error below a power of two.\<close>

lemma absolute_error:
  assumes "\<bar>x\<bar> < 2 powi k" "e + int p \<le> k"
  shows "\<bar>rd x - x\<bar> \<le> 2 powi (k - int p - 1)"
proof (cases "x = 0")
  case False
  then have "(2::rat) powi ilog2 \<bar>x\<bar> < 2 powi k"
    by (intro le_less_trans [OF ilog2_bounds(1) assms(1)]) simp
  then have "ulp_exp p e x \<le> k - int p" using assms(2) by (simp add: ulp_exp_def)
  then have "(2::rat) powi ulp_exp p e x \<le> 2 powi (k - int p)" by simp
  then show ?thesis using ulp_error [of x] by (simp add: power_int_diff)
qed (simp add: zero)

text \<open>Above the subnormal range the relative error is at most half a unit in the last place.\<close>

lemma relative_error:
  assumes "2 powi (e + int p - 1) \<le> \<bar>x\<bar>"
  shows "\<bar>rd x - x\<bar> \<le> \<bar>x\<bar> / 2 ^ p"
proof -
  have "(0::rat) < 2 powi (e + int p - 1)" by simp
  then have pos: "0 < \<bar>x\<bar>" using assms by linarith
  then have "(2::rat) powi (e + int p - 1) < 2 powi (ilog2 \<bar>x\<bar> + 1)"
    using assms ilog2_bounds(2) [OF pos] by linarith
  then have u: "ulp_exp p e x = ilog2 \<bar>x\<bar> + 1 - int p" by (simp add: ulp_exp_def)
  have "\<bar>rd x - x\<bar> \<le> 2 powi ulp_exp p e x / 2" by (rule ulp_error)
  also have "\<dots> = 2 powi ilog2 \<bar>x\<bar> / 2 ^ p" by (simp add: u power_int_add power_int_diff)
  also have "\<dots> \<le> \<bar>x\<bar> / 2 ^ p" using ilog2_bounds(1) [OF pos] by (intro divide_right_mono) simp_all
  finally show ?thesis .
qed

lemma rd_near_by:
  assumes "2 powi (e + int p - 1) \<le> x"
  shows "near_by (2 ^ p / (2 ^ p - 1)) 1 (rd x) x"
proof -
  have "(0::rat) < 2 powi (e + int p - 1)" by simp
  then have pos: "0 < x" using assms by linarith
  have one: "(1::rat) < 2 ^ p" using p_pos by (simp add: one_less_power)
  have err: "\<bar>rd x - x\<bar> \<le> x / 2 ^ p" using relative_error [of x] assms pos by simp
  then have low: "x * (2 ^ p - 1) \<le> rd x * 2 ^ p" and up: "rd x * 2 ^ p \<le> x * (2 ^ p + 1)"
    using one by (auto simp: abs_le_iff field_simps)
  have "0 < x * (2 ^ p - 1)" using pos one by simp
  then have "0 < rd x" using low by (metis less_le_trans zero_less_mult_pos2 zero_less_numeral zero_less_power)
  moreover have "rd x * 2 ^ p * (2 ^ p - 1) \<le> x * (2 ^ p + 1) * (2 ^ p - 1)"
    using up one by (intro mult_right_mono) simp_all
  then have "rd x * (2 ^ p - 1) * 2 ^ p \<le> x * 2 ^ p * 2 ^ p" using pos by (simp add: algebra_simps)
  then have "rd x * (2 ^ p - 1) \<le> x * 2 ^ p" using one by (simp only: mult_le_cancel_right_pos)
  ultimately show ?thesis using pos low one by (simp add: near_by_def field_simps)
qed

end

interpretation f64: float_format 53 "- 1074" rnd
  by unfold_locales (simp_all add: rnd_def)

interpretation f32: float_format 24 "- 149" rnd32
  by unfold_locales (simp_all add: rnd32_def)

declare f64.zero [simp] f32.zero [simp]

lemmas rnd_nonneg = f64.nonneg
lemmas rnd_le_representable = f64.le_fixed [folded representable_def]
lemmas rnd_ge_representable = f64.ge_fixed [folded representable_def]

lemma representable_rnd [simp]: "representable (rnd x)"
  by (simp add: representable_def f64.idem)

lemma representable_0 [simp]: "representable 0"
  by (simp add: representable_def)

lemma representable_nat: "n \<le> 2 ^ 53 \<Longrightarrow> representable (of_nat n)"
  using f64.fixed_int [of "int n"] by (simp add: representable_def)

lemma representable_numeral: "(numeral n :: nat) \<le> 2 ^ 53 \<Longrightarrow> representable (numeral n)"
  using representable_nat [of "numeral n"] by simp

lemma representable_1 [simp]: "representable 1"
  using representable_nat [of 1] by simp

lemma representable_half [simp]: "representable (1 / 2)"
  using f64.fixed_scaled [of 1 "- 1"] by (simp add: representable_def)

lemma as_secs_f64_nonneg: "0 \<le> as_secs_f64 n"
  by (auto simp: as_secs_f64_def f64_add_def f64_div_def intro!: rnd_nonneg add_nonneg_nonneg divide_nonneg_nonneg)

lemma as_secs_f64_0 [simp]: "as_secs_f64 0 = 0"
  by (simp add: as_secs_f64_def f64_add_def f64_div_def)

end
