(* ===== verification/I2c_Pullup_Calculator.thy ===== *)
theory I2c_Pullup_Calculator
  imports Float_Rounding
begin

text \<open>
  \<^verbatim>\<open>I2C/src/16/16.rs\<close>: the calculator of pull-up resistors in binary64 arithmetic. The quotients and the square
  root of the calculation can leave the finite numbers; \<open>ext\<close> has the infinities and NaN for them. \<open>log10\<close> and \<open>powf\<close>, whose
  precision the standard library leaves open, are parameters. The printed text of results is left out.
\<close>

subsection \<open>Finite numbers, infinities and NaN\<close>

datatype ext = Finite f64 | PosInf | NegInf | NaN

text \<open>Quotient of finite numbers, with a zero divisor taken as positive.\<close>

definition ext_div :: "f64 \<Rightarrow> f64 \<Rightarrow> ext" where
  "ext_div a b = (if b \<noteq> 0 then Finite (f64_div a b) else if a > 0 then PosInf else if a < 0 then NegInf else NaN)"

fun ext_sign :: "ext \<Rightarrow> rat" where
  "ext_sign (Finite x) = sgn x" | "ext_sign PosInf = 1" | "ext_sign NegInf = - 1" | "ext_sign NaN = 0"

definition ext_mul :: "ext \<Rightarrow> ext \<Rightarrow> ext" where
  "ext_mul a b =
     (case (a, b) of
        (Finite x, Finite y) \<Rightarrow> Finite (f64_mul x y)
      | _ \<Rightarrow> if ext_sign a * ext_sign b > 0 then PosInf else if ext_sign a * ext_sign b < 0 then NegInf else NaN)"

fun ext_gt :: "ext \<Rightarrow> ext \<Rightarrow> bool" where
  "ext_gt NaN _ = False"
| "ext_gt _ NaN = False"
| "ext_gt (Finite x) (Finite y) = (x > y)"
| "ext_gt NegInf _ = False"
| "ext_gt _ PosInf = False"
| "ext_gt _ _ = True"

text \<open>
  The correctly rounded square root of a finite number. Scaled by a power of four the argument has at least 121 integer
  bits; an inexact root of them lies between two integers, where no rounding boundary is, and is replaced by the middle.
\<close>

fun isqrt :: "nat \<Rightarrow> nat" where
  "isqrt n = (if n = 0 then 0 else let r = 2 * isqrt (n div 4) in if (r + 1) * (r + 1) \<le> n then r + 1 else r)"

declare isqrt.simps [simp del]

definition sqrt_mid :: "rat \<Rightarrow> rat" where
  "sqrt_mid m = (let r = isqrt (nat \<lfloor>m\<rfloor>) in if of_nat (r * r) = m then of_nat r else of_nat r + 1 / 2)"

definition f64_sqrt :: "f64 \<Rightarrow> f64" where
  "f64_sqrt x = (if x = 0 then 0 else let s = ilog2 x div 2 - 60 in rnd (sqrt_mid (x / 4 powi s) * 2 powi s))"

fun ext_sqrt :: "ext \<Rightarrow> ext" where
  "ext_sqrt (Finite x) = (if x < 0 then NaN else Finite (f64_sqrt x))"
| "ext_sqrt PosInf = PosInf"
| "ext_sqrt NegInf = NaN"
| "ext_sqrt NaN = NaN"

subsection \<open>Speed modes and configuration\<close>

datatype i2c_speed_mode = Standard | Fast | FastPlus | HighSpeed

fun max_rise_time_ns :: "i2c_speed_mode \<Rightarrow> f64" where
  "max_rise_time_ns Standard = 1000"
| "max_rise_time_ns Fast = 300"
| "max_rise_time_ns FastPlus = 120"
| "max_rise_time_ns HighSpeed = 80"

fun frequency_hz :: "i2c_speed_mode \<Rightarrow> nat" where
  "frequency_hz Standard = 100000"
| "frequency_hz Fast = 400000"
| "frequency_hz FastPlus = 1000000"
| "frequency_hz HighSpeed = 3400000"

fun max_capacitance_pf :: "i2c_speed_mode \<Rightarrow> f64" where
  "max_capacitance_pf Standard = 400"
| "max_capacitance_pf Fast = 400"
| "max_capacitance_pf FastPlus = 550"
| "max_capacitance_pf HighSpeed = 100"

fun mode_fmt :: "i2c_speed_mode \<Rightarrow> string" where
  "mode_fmt Standard = ''Standard Mode (100 kHz)''"
| "mode_fmt Fast = ''Fast Mode (400 kHz)''"
| "mode_fmt FastPlus = ''Fast Mode Plus (1 MHz)''"
| "mode_fmt HighSpeed = ''High Speed Mode (3.4 MHz)''"

record i2c_config =
  vcc :: f64
  vol_max :: f64
  iol :: f64
  bus_capacitance :: f64
  config_speed_mode :: i2c_speed_mode

definition i2c_config_default :: i2c_config where
  "i2c_config_default = \<lparr>vcc = rnd (33 / 10), vol_max = rnd (4 / 10), iol = rnd (3 / 1000), bus_capacitance = 100,
     config_speed_mode = Standard\<rparr>"

datatype warning = CapacitanceExceeded f64 i2c_speed_mode f64 | NoValidRange

record resistor_result =
  min_resistance :: ext
  max_resistance :: ext
  recommended :: "f64 option"
  warnings :: "warning list"

definition is_valid :: "resistor_result \<Rightarrow> bool" where
  "is_valid r = (recommended r \<noteq> None)"

definition recommended_kohms :: "resistor_result \<Rightarrow> f64 option" where
  "recommended_kohms r = map_option (\<lambda>r. f64_div r 1000) (recommended r)"

subsection \<open>The calculator\<close>

record libm =
  log10 :: "f64 \<Rightarrow> f64"
  powf :: "f64 \<Rightarrow> f64 \<Rightarrow> f64"

definition E12_VALUES :: "f64 list" where
  "E12_VALUES = map (\<lambda>n. rnd (of_nat n / 10)) [10, 12, 15, 18, 22, 27, 33, 39, 47, 56, 68, 82]"

text \<open>
  For NaN, an infinity or zero the normalised value is NaN, which the comparison does not order: \<open>unwrap\<close> panics. The
  minimum is the first of equal ones.
\<close>

fun round_to_standard_value :: "libm \<Rightarrow> ext \<Rightarrow> f64 run" where
  "round_to_standard_value L (Finite resistance) =
     (if resistance = 0 then None
      else let magnitude = powf L 10 (of_int \<lfloor>log10 L resistance\<rfloor>);
               normalized = f64_div resistance magnitude;
               closest = arg_min_list (\<lambda>a. \<bar>f64_sub normalized a\<bar>) E12_VALUES
           in Some (f64_mul closest magnitude))"
| "round_to_standard_value L _ = None"

definition calculate :: "libm \<Rightarrow> i2c_config \<Rightarrow> resistor_result run" where
  "calculate L config =
     (let w1 = (if bus_capacitance config > max_capacitance_pf (config_speed_mode config)
                then [CapacitanceExceeded (bus_capacitance config) (config_speed_mode config)
                        (max_capacitance_pf (config_speed_mode config))] else []);
          min_r = ext_div (f64_sub (vcc config) (vol_max config)) (iol config);
          tr_seconds = f64_mul (max_rise_time_ns (config_speed_mode config)) (rnd (1 / 10 ^ 9));
          cb_farads = f64_mul (bus_capacitance config) (rnd (1 / 10 ^ 12));
          max_r = ext_div tr_seconds (f64_mul (rnd (8473 / 10000)) cb_farads)
      in if ext_gt max_r min_r
         then do { v \<leftarrow> round_to_standard_value L (ext_sqrt (ext_mul min_r max_r));
                   Some \<lparr>min_resistance = min_r, max_resistance = max_r, recommended = Some v, warnings = w1\<rparr> }
         else Some \<lparr>min_resistance = min_r, max_resistance = max_r, recommended = None, warnings = w1 @ [NoValidRange]\<rparr>)"

definition estimate_capacitance :: "nat \<Rightarrow> f64 \<Rightarrow> bool \<Rightarrow> f64" where
  "estimate_capacitance num_devices wire_length_cm include_pcb_parasitic =
     (let device_cap = f64_mul (rnd (of_nat num_devices)) (15 / 2);
          wire_cap = f64_mul wire_length_cm (3 / 2);
          pcb_cap = (if include_pcb_parasitic then 20 else 0)
      in f64_add (f64_add device_cap wire_cap) pcb_cap)"

subsection \<open>The square root\<close>

lemma isqrt_bounds: "isqrt n * isqrt n \<le> n \<and> n < (isqrt n + 1) * (isqrt n + 1)"
proof (induction n rule: isqrt.induct)
  case (1 n)
  show ?case
  proof (cases "n = 0")
    case False
    define q where "q = isqrt (n div 4)"
    have q: "q * q \<le> n div 4" "n div 4 < (q + 1) * (q + 1)" using 1 False by (simp_all add: q_def)
    then have "2 * q * (2 * q) \<le> n" "n < (2 * q + 2) * (2 * q + 2)" by (auto simp: algebra_simps)
    then show ?thesis using False by (subst (1 2 3 4) isqrt.simps) (auto simp: Let_def q_def [symmetric] algebra_simps)
  qed (simp add: isqrt.simps)
qed

definition q64 :: rat where
  "q64 = 2 ^ 53 / (2 ^ 53 - 1)"

lemma q64_pos: "0 < q64" "1 \<le> q64"
  by (simp_all add: q64_def)

lemma q64_error: "a \<le> b + b / 9007199254740992 \<Longrightarrow> 0 \<le> b \<Longrightarrow> a \<le> b * q64"
  by (simp add: q64_def field_simps)

lemma sqrt_mid_near:
  assumes "2 ^ 120 \<le> m"
  shows "near_by q64 1 (sqrt_mid m * sqrt_mid m) m" "2 ^ 60 \<le> sqrt_mid m"
proof -
  define r where "r = isqrt (nat \<lfloor>m\<rfloor>)"
  have fl: "of_nat (nat \<lfloor>m\<rfloor>) \<le> m" "m < of_nat (nat \<lfloor>m\<rfloor>) + 1" using assms floor_correct [of m] by simp_all
  have "(of_nat (r * r) :: rat) \<le> of_nat (nat \<lfloor>m\<rfloor>)" "(of_nat (nat \<lfloor>m\<rfloor> + 1) :: rat) \<le> of_nat ((r + 1) * (r + 1))"
    using isqrt_bounds [of "nat \<lfloor>m\<rfloor>"] unfolding r_def of_nat_le_iff by simp_all
  then have r: "(of_nat r :: rat) * of_nat r \<le> m" "m < (of_nat r + 1) * (of_nat r + 1)"
    using fl by (simp_all add: algebra_simps)
  have big: "2 ^ 60 \<le> r"
  proof (rule ccontr)
    assume "\<not> 2 ^ 60 \<le> r"
    then have "r + 1 \<le> 2 ^ 60" by simp
    then have "(of_nat (r + 1) :: rat) \<le> 2 ^ 60" by (metis of_nat_le_iff of_nat_numeral of_nat_power)
    then have "(of_nat r + 1) * (of_nat r + 1) \<le> (2 ^ 60 * 2 ^ 60 :: rat)" by (intro mult_mono) simp_all
    then show False using r(2) assms by simp
  qed
  define x :: rat where "x = of_nat r"
  have x': "2 ^ 60 \<le> x" using big unfolding x_def by (metis of_nat_le_iff of_nat_numeral of_nat_power)
  then have x: "1152921504606846976 \<le> x" by simp
  have "2 ^ 60 * x \<le> x * x" using x' by (intro mult_right_mono) simp_all
  then have sq: "1152921504606846976 * x \<le> x * x" unfolding power_numeral by simp
  show "2 ^ 60 \<le> sqrt_mid m" using x' by (simp add: sqrt_mid_def r_def [symmetric] x_def [symmetric] Let_def)
  show "near_by q64 1 (sqrt_mid m * sqrt_mid m) m"
  proof (cases "of_nat (r * r) = m")
    case True
    then have "sqrt_mid m * sqrt_mid m = m" by (simp add: sqrt_mid_def r_def [symmetric] Let_def)
    then show ?thesis using assms q64_pos by (simp add: near_by_def)
  next
    case False
    then have y: "sqrt_mid m = x + 1 / 2" by (simp add: sqrt_mid_def r_def [symmetric] x_def Let_def)
    have yy: "(x + 1 / 2) * (x + 1 / 2) = x * x + x + 1 / 4" by (simp add: algebra_simps)
    have m: "x * x \<le> m" "m < x * x + 2 * x + 1" using r by (simp_all add: x_def algebra_simps)
    define z where "z = x * x"
    note m = m [folded z_def] and sq = sq [folded z_def] and yy = yy [folded z_def]
    have "(x + 1 / 2) * (x + 1 / 2) \<le> m * q64" unfolding yy using m sq x
      by (intro q64_error) (simp_all add: add_divide_distrib, linarith?)
    moreover have "m \<le> (x + 1 / 2) * (x + 1 / 2) * q64" unfolding yy using m sq x
      by (intro q64_error) (simp_all add: add_divide_distrib, linarith?)
    ultimately show ?thesis using assms x by (simp add: near_by_def y)
  qed
qed

lemma f64_near:
  assumes "1 / 10 ^ 40 \<le> x"
  shows "near_by q64 1 (rnd x) x"
proof -
  have "(2::rat) powi - 1022 \<le> 2 powi - 200" by (simp only: powi_le_iff)
  also have "\<dots> \<le> 1 / 10 ^ 40" by (simp add: power_int_minus)
  finally have "2 powi - 1022 \<le> x" using assms by (rule order_trans)
  moreover have "- 1074 + int 53 - 1 = - 1022" by simp
  ultimately have "2 powi (- 1074 + int 53 - 1) \<le> x" by (simp only:)
  then show ?thesis unfolding q64_def by (rule f64.rd_near_by)
qed

lemma f64_near_round: "near_by q64 n x y \<Longrightarrow> 1 / 10 ^ 40 \<le> x \<Longrightarrow> near_by q64 (n + 1) (rnd x) y"
  using near_by_trans [OF q64_pos(1) f64_near] by (metis add.commute)

lemma f64_sqrt_near:
  assumes "1 \<le> x"
  shows "near_by q64 3 (f64_sqrt x * f64_sqrt x) x"
proof -
  define k s where "k = ilog2 x" and "s = k div 2 - 60"
  have pos: "0 < x" using assms by simp
  have "(2::rat) powi 0 < 2 powi (k + 1)" using assms ilog2_bounds(2) [OF pos] by (simp add: k_def)
  then have k: "0 \<le> k" by (simp only: powi_less_iff)
  have four: "(4::rat) powi s = 2 powi s * 2 powi s" by (simp flip: power_int_mult_distrib)
  have "(2::rat) powi (120 + (s + s)) \<le> 2 powi k" unfolding powi_le_iff s_def by linarith
  moreover have "(2::rat) powi (120 + (s + s)) = 2 ^ 120 * 4 powi s" 
  proof -
    have "(2::rat) powi (120 + (s + s)) = 2 powi 120 * 2 powi (s + s)" "(2::rat) powi (s + s) = 2 powi s * 2 powi s"
      by (rule power_int_add, simp)+
    then show ?thesis by (simp add: four)
  qed
  ultimately have "2 ^ 120 * 4 powi s \<le> x" using ilog2_bounds(1) [OF pos] unfolding k_def by linarith
  then have m: "2 ^ 120 \<le> x / 4 powi s" by (simp add: pos_le_divide_eq)
  let ?y = "sqrt_mid (x / 4 powi s)"
  have "2 ^ 60 * 2 powi s \<le> ?y * 2 powi s" using sqrt_mid_near(2) [OF m] by (intro mult_right_mono) simp_all
  moreover have "(1::rat) \<le> 2 ^ 60 * 2 powi s"
  proof -
    have "(2::rat) powi 0 \<le> 2 powi (60 + s)" unfolding powi_le_iff s_def using k by simp
    then show ?thesis by (simp add: power_int_add)
  qed
  moreover have "1 / 10 ^ 40 \<le> (1::rat)" by simp
  ultimately have "1 / 10 ^ 40 \<le> ?y * 2 powi s" by linarith
  then have "near_by q64 1 (f64_sqrt x) (?y * 2 powi s)"
    using f64_near pos by (simp add: f64_sqrt_def s_def k_def Let_def)
  from near_by_mult [OF q64_pos(1) this this]
  have "near_by q64 2 (f64_sqrt x * f64_sqrt x) (?y * ?y * 4 powi s)" by (simp add: four ac_simps numeral_2_eq_2)
  moreover have "near_by q64 (1 + 0) (?y * ?y * 4 powi s) (x / 4 powi s * 4 powi s)"
    by (intro near_by_mult q64_pos sqrt_mid_near(1) [OF m] near_by_refl) simp
  ultimately show ?thesis using near_by_trans [OF q64_pos(1)] by fastforce
qed

subsection \<open>Standard values\<close>

text \<open>
  What is needed of the library: away from the powers of ten the logarithm is good enough for its integer part, and
  powers of ten that are exact in binary64 are computed exactly.
\<close>

definition libm_ok :: "libm \<Rightarrow> bool" where
  "libm_ok L \<longleftrightarrow> (\<forall>k \<le> 22. powf L 10 (of_nat k) = 10 ^ k \<and>
     (\<forall>x. 10 ^ k * (1 + 1 / 10 ^ 12) \<le> x \<longrightarrow> x \<le> 10 ^ Suc k * (1 - 1 / 10 ^ 12) \<longrightarrow> \<lfloor>log10 L x\<rfloor> = int k))"

definition e12 :: "rat set" where
  "e12 = {10 / 10, 12 / 10, 15 / 10, 18 / 10, 22 / 10, 27 / 10, 33 / 10, 39 / 10, 47 / 10, 56 / 10, 68 / 10, 82 / 10}"

lemma E12_VALUES_e12: "set E12_VALUES = rnd ` e12" "E12_VALUES \<noteq> []"
  by (simp_all add: E12_VALUES_def e12_def)

lemma e12_finite: "finite e12"
  by (simp add: e12_def)

lemma e12_range: "u \<in> e12 \<Longrightarrow> 1 \<le> u \<and> u \<le> 82 / 10"
  by (auto simp: e12_def)

lemma f64_error16: "\<bar>x\<bar> < 16 \<Longrightarrow> \<bar>rnd x - x\<bar> \<le> 1 / 1000000000000000"
proof -
  assume "\<bar>x\<bar> < 16"
  then have "\<bar>rnd x - x\<bar> \<le> 2 powi (4 - int 53 - 1)" by (intro f64.absolute_error) simp_all
  also have "\<dots> \<le> 1 / 1000000000000000" by (simp add: power_int_minus)
  finally show ?thesis .
qed

lemma scaled_abs: "0 < m \<Longrightarrow> \<bar>x / m - u\<bar> * m = \<bar>x - u * (m :: rat)\<bar>"
proof -
  assume "0 < m"
  then have "\<bar>x / m - u\<bar> * m = \<bar>(x / m - u) * m\<bar>" by (simp only: abs_mult abs_of_pos)
  then show ?thesis using \<open>0 < m\<close> by (simp add: left_diff_distrib)
qed

text \<open>The result is the closest standard value of the same decade, up to rounding.\<close>

lemma standard_value:
  assumes "libm_ok L" "k \<le> 22" "10 ^ k * (1 + 1 / 10 ^ 12) \<le> r" "r \<le> 10 ^ Suc k * (1 - 1 / 10 ^ 12)"
  obtains v w where "v \<in> e12" "round_to_standard_value L (Finite r) = Some w"
    "\<bar>w - v * 10 ^ k\<bar> \<le> 10 ^ k / 10 ^ 14" "\<forall>u \<in> e12. \<bar>r - v * 10 ^ k\<bar> \<le> \<bar>r - u * 10 ^ k\<bar> + 10 ^ k / 10 ^ 14"
proof -
  define m :: rat where "m = 10 ^ k"
  define x where "x = r / m"
  define nrm where "nrm = rnd x"
  let ?D = "\<lambda>a. \<bar>f64_sub nrm a\<bar>"
  have m: "1 \<le> m" by (simp add: m_def)
  have lib: "\<lfloor>log10 L r\<rfloor> = int k" "powf L 10 (of_nat k) = m" using assms by (auto simp: libm_ok_def m_def)
  have "m * 1 \<le> m * (1 + 1 / 10 ^ 12)" using m by (intro mult_left_mono) simp_all
  then have r: "m \<le> r" "r \<le> m * 10" using assms(3,4) m by (simp_all add: m_def)
  then have x: "1 \<le> x" "x \<le> 10" using m by (simp_all add: x_def pos_le_divide_eq pos_divide_le_eq mult.commute)
  have close: "\<bar>?D (rnd u) - \<bar>x - u\<bar>\<bar> \<le> 3 / 1000000000000000" if "u \<in> e12" for u
  proof -
    have u: "1 \<le> u" "u \<le> 82 / 10" using e12_range [OF that] by simp_all
    have "\<bar>nrm - x\<bar> \<le> 1 / 1000000000000000" "\<bar>rnd u - u\<bar> \<le> 1 / 1000000000000000" unfolding nrm_def
      using x u by (intro f64_error16, simp)+
    moreover from this have "\<bar>nrm - rnd u\<bar> < 16" using x u by linarith
    then have "\<bar>rnd (nrm - rnd u) - (nrm - rnd u)\<bar> \<le> 1 / 1000000000000000" by (rule f64_error16)
    ultimately show ?thesis unfolding f64_sub_def by linarith
  qed
  have "arg_min_list ?D E12_VALUES \<in> rnd ` e12" using arg_min_list_in E12_VALUES_e12 by metis
  then obtain v where v: "v \<in> e12" "arg_min_list ?D E12_VALUES = rnd v" by auto
  have least: "?D (rnd v) \<le> ?D (rnd u)" if "u \<in> e12" for u
  proof -
    have "?D (rnd v) = Min (?D ` rnd ` e12)"
      using f_arg_min_list_f [OF E12_VALUES_e12(2), of ?D] by (simp only: v(2) E12_VALUES_e12(1))
    also have "\<dots> \<le> ?D (rnd u)" using that by (intro Min_le finite_imageI e12_finite imageI)
    finally show ?thesis .
  qed
  have near: "\<bar>r - v * m\<bar> \<le> \<bar>r - u * m\<bar> + m / 10 ^ 14" if u: "u \<in> e12" for u
  proof -
    have "\<bar>x - v\<bar> \<le> \<bar>x - u\<bar> + 1 / 100000000000000" using least [OF u] close [OF u] close [OF v(1)] by linarith
    then have "\<bar>x - v\<bar> * m \<le> (\<bar>x - u\<bar> + 1 / 100000000000000) * m" using m by (intro mult_right_mono) simp_all
    then show ?thesis using m by (simp add: distrib_right x_def scaled_abs)
  qed
  have "round_to_standard_value L (Finite r) = Some (f64_mul (rnd v) m)"
    using r m lib v(2) by (simp add: Let_def nrm_def x_def f64_div_def)
  moreover have "\<bar>f64_mul (rnd v) m - v * m\<bar> \<le> m / 10 ^ 14"
  proof -
    have "near_by q64 (1 + 0) (rnd v * m) (v * m)"
      using e12_range [OF v(1)] m by (intro near_by_mult q64_pos near_by_refl f64_near) simp_all
    moreover have "1 \<le> rnd v" using f64.ge_fixed [of 1 v] f64.fixed_int [of 1] e12_range [OF v(1)] by simp
    then have "1 \<le> rnd v * m" using m mult_mono [of 1 "rnd v" 1 m] by simp
    ultimately have "near_by q64 (1 + 0 + 1) (rnd (rnd v * m)) (v * m)" by (intro f64_near_round) simp_all
    then have "\<bar>rnd (rnd v * m) - v * m\<bar> \<le> v * m * (1 / 10 ^ 15)"
      by (rule near_by_error) (simp add: q64_def)
    also have "\<dots> \<le> 10 * m * (1 / 10 ^ 15)" using e12_range [OF v(1)] m by (intro mult_right_mono) simp_all
    finally show ?thesis by (simp add: f64_mul_def)
  qed
  ultimately show thesis using that v(1) near unfolding m_def by blast
qed

text \<open>At the top of a decade the next power of ten, itself a standard value, is closer than the result.\<close>

lemma top_of_decade:
  assumes "libm_ok L" "k \<le> 22" "92 / 10 * 10 ^ k \<le> r" "r \<le> 10 ^ Suc k * (1 - 1 / 10 ^ 12)"
    and "round_to_standard_value L (Finite r) = Some w"
  shows "\<bar>r - 10 ^ Suc k\<bar> < \<bar>r - w\<bar>"
proof -
  define m :: rat where "m = 10 ^ k"
  have m: "1 \<le> m" by (simp add: m_def)
  have "10 ^ k * (1 + 1 / 10 ^ 12) \<le> r" using assms(3) m by (simp add: m_def [symmetric])
  then obtain v w' where v: "v \<in> e12" "round_to_standard_value L (Finite r) = Some w'" "\<bar>w' - v * m\<bar> \<le> m / 10 ^ 14"
    using standard_value [OF assms(1,2) _ assms(4)] unfolding m_def by metis
  have "v * m \<le> 82 / 10 * m" using e12_range [OF v(1)] m by (intro mult_right_mono) simp_all
  moreover have "m / 10 ^ 14 \<le> m / 10" using m by simp
  ultimately have "w \<le> 83 / 10 * m" using v(2,3) assms(5) by (simp del: power_numeral) linarith
  moreover have "92 / 10 * m \<le> r" "r \<le> 10 * m" using assms(3,4) m by (simp_all add: m_def [symmetric])
  moreover have "(10::rat) ^ Suc k = 10 * m" by (simp add: m_def)
  ultimately show ?thesis using m by linarith
qed

subsection \<open>The calculation\<close>

definition sane :: "i2c_config \<Rightarrow> bool" where
  "sane c \<longleftrightarrow> 1 / 100 \<le> vcc c - vol_max c \<and> vcc c - vol_max c \<le> 100 \<and> 1 / 10 ^ 6 \<le> iol c \<and> iol c \<le> 1 \<and>
     1 \<le> bus_capacitance c \<and> bus_capacitance c \<le> 10 ^ 6"

definition min_ohms :: "i2c_config \<Rightarrow> rat" where
  "min_ohms c = (vcc c - vol_max c) / iol c"

definition max_ohms :: "i2c_config \<Rightarrow> rat" where
  "max_ohms c = max_rise_time_ns (config_speed_mode c) * 10000000 / (8473 * bus_capacitance c)"

lemma rise_bounds: "80 \<le> max_rise_time_ns m" "max_rise_time_ns m \<le> 1000"
  by (cases m; simp)+

lemma near_lower: "near_by q64 n x y \<Longrightarrow> n \<le> 10 \<Longrightarrow> y / 2 \<le> x"
proof -
  assume near: "near_by q64 n x y" and n: "n \<le> 10"
  have "q64 ^ n \<le> q64 ^ 10" using n by (intro power_increasing q64_pos)
  also have "\<dots> = (q64 ^ 5) ^ 2" by (simp flip: power_mult)
  also have "\<dots> \<le> (1 + 1 / 10) ^ 2" using q64_pos by (intro power_mono) (simp_all add: q64_def power_divide divide_le_eq)
  also have "\<dots> \<le> 2" by (simp add: power_divide)
  finally have "x * q64 ^ n \<le> x * 2" using near by (simp add: near_by_def)
  then show ?thesis using near unfolding near_by_def by linarith
qed

lemma near_rounded:
  assumes "near_by q64 n x y" "n \<le> 10" "1 / 10 ^ 30 \<le> y"
  shows "near_by q64 (n + 1) (rnd x) y"
proof -
  have "1 / 10 ^ 40 \<le> (1 / 10 ^ 30) / (2 :: rat)" by simp
  also have "\<dots> \<le> y / 2" using assms(3) by (rule divide_right_mono) simp
  also have "\<dots> \<le> x" by (rule near_lower [OF assms(1,2)])
  finally show ?thesis by (rule f64_near_round [OF assms(1)])
qed

lemma near_f64_mul: "near_by q64 m a b \<Longrightarrow> near_by q64 n c d \<Longrightarrow> m + n \<le> 10 \<Longrightarrow> 1 / 10 ^ 30 \<le> b * d
    \<Longrightarrow> near_by q64 (m + n + 1) (f64_mul a c) (b * d)"
  unfolding f64_mul_def by (intro near_rounded near_by_mult q64_pos)

lemma near_f64_div: "near_by q64 m a b \<Longrightarrow> near_by q64 n c d \<Longrightarrow> m + n \<le> 10 \<Longrightarrow> 1 / 10 ^ 30 \<le> b / d
    \<Longrightarrow> near_by q64 (m + n + 1) (f64_div a c) (b / d)"
  unfolding f64_div_def by (intro near_rounded near_by_div q64_pos)

definition min_r :: "i2c_config \<Rightarrow> f64" where
  "min_r c = f64_div (f64_sub (vcc c) (vol_max c)) (iol c)"

definition tr_s :: "i2c_config \<Rightarrow> f64" where
  "tr_s c = f64_mul (max_rise_time_ns (config_speed_mode c)) (rnd (1 / 10 ^ 9))"

definition den :: "i2c_config \<Rightarrow> f64" where
  "den c = f64_mul (rnd (8473 / 10000)) (f64_mul (bus_capacitance c) (rnd (1 / 10 ^ 12)))"

lemma near_tr: "near_by q64 2 (tr_s c) (max_rise_time_ns (config_speed_mode c) * (1 / 10 ^ 9))"
  using near_f64_mul [OF near_by_refl f64_near, of "max_rise_time_ns (config_speed_mode c)" "1 / 10 ^ 9"]
    rise_bounds [of "config_speed_mode c"] by (simp add: tr_s_def numeral_2_eq_2)

lemma near_min: "sane c \<Longrightarrow> near_by q64 2 (min_r c) (min_ohms c) \<and> iol c \<noteq> 0"
  using near_f64_div [OF f64_near near_by_refl, of "vcc c - vol_max c" "iol c"]
  by (simp add: min_r_def min_ohms_def f64_sub_def sane_def numeral_2_eq_2 field_simps)

lemma near_den: "1 \<le> bus_capacitance c \<Longrightarrow> near_by q64 4 (den c) (8473 / 10000 * (bus_capacitance c * (1 / 10 ^ 12)))"
  using near_f64_mul [OF f64_near near_f64_mul [OF near_by_refl f64_near, of "bus_capacitance c" "1 / 10 ^ 12"], of "8473 / 10000"]
  by (simp add: den_def eval_nat_numeral)

lemma near_max:
  assumes "1 \<le> bus_capacitance c" "bus_capacitance c \<le> 10 ^ 6"
  shows "near_by q64 7 (f64_div (tr_s c) (den c)) (max_ohms c)" "den c \<noteq> 0"
proof -
  have eq: "max_rise_time_ns (config_speed_mode c) * (1 / 10 ^ 9) / (8473 / 10000 * (bus_capacitance c * (1 / 10 ^ 12))) = max_ohms c"
    by (simp add: max_ohms_def)
  have low: "1 / 10 ^ 30 \<le> max_ohms c"
    using assms rise_bounds [of "config_speed_mode c"] by (simp add: max_ohms_def field_simps)
  have "2 + 4 \<le> (10 :: nat)" by simp
  from near_f64_div [OF near_tr [of c] near_den [OF assms(1)] this, unfolded eq, OF low]
  show "near_by q64 7 (f64_div (tr_s c) (den c)) (max_ohms c)" by simp
  show "den c \<noteq> 0" using near_den [OF assms(1)] by (simp add: near_by_def)
qed

lemma calculate_finite:
  assumes "iol c \<noteq> 0" "den c \<noteq> 0"
  defines "b \<equiv> f64_div (tr_s c) (den c)"
    and "w \<equiv> (if bus_capacitance c > max_capacitance_pf (config_speed_mode c)
         then [CapacitanceExceeded (bus_capacitance c) (config_speed_mode c) (max_capacitance_pf (config_speed_mode c))] else [])"
  shows "calculate L c = (if b > min_r c
     then do { v \<leftarrow> round_to_standard_value L (ext_sqrt (Finite (f64_mul (min_r c) b)));
               Some \<lparr>min_resistance = Finite (min_r c), max_resistance = Finite b, recommended = Some v, warnings = w\<rparr> }
     else Some \<lparr>min_resistance = Finite (min_r c), max_resistance = Finite b, recommended = None, warnings = w @ [NoValidRange]\<rparr>)"
  using assms(1,2) unfolding b_def w_def
  by (simp add: calculate_def Let_def ext_div_def ext_mul_def min_r_def tr_s_def den_def)

text \<open>The geometric mean of the limits, whose rounding gives the recommendation.\<close>

definition mean :: "i2c_config \<Rightarrow> f64" where
  "mean c = f64_sqrt (f64_mul (min_r c) (f64_div (tr_s c) (den c)))"

lemma limits_bounds:
  assumes "sane c"
  shows "1 / 100 \<le> min_ohms c" "80 / 10 ^ 3 \<le> max_ohms c"
  using assms rise_bounds [of "config_speed_mode c"]
  by (simp_all add: sane_def min_ohms_def max_ohms_def field_simps)

lemma mean_near:
  assumes "sane c" "2 \<le> min_ohms c * max_ohms c"
  shows "near_by q64 13 (mean c * mean c) (min_ohms c * max_ohms c)" "0 \<le> f64_mul (min_r c) (f64_div (tr_s c) (den c))"
proof -
  let ?b = "f64_div (tr_s c) (den c)"
  have cap: "1 \<le> bus_capacitance c" "bus_capacitance c \<le> 10 ^ 6" using assms(1) by (simp_all add: sane_def)
  have low: "1 / 10 ^ 30 \<le> min_ohms c * max_ohms c" using assms(2) by (rule order_trans [rotated]) simp
  have p: "near_by q64 10 (f64_mul (min_r c) ?b) (min_ohms c * max_ohms c)"
    using near_f64_mul [OF conjunct1 [OF near_min [OF assms(1)]] near_max(1) [OF cap] _ low] by simp
  then have one: "1 \<le> f64_mul (min_r c) ?b" using near_lower [OF p] assms(2) by simp
  then show "0 \<le> f64_mul (min_r c) ?b" by simp
  have "near_by q64 (3 + 10) (mean c * mean c) (min_ohms c * max_ohms c)"
    unfolding mean_def by (rule near_by_trans [OF q64_pos(1) f64_sqrt_near [OF one] p])
  then show "near_by q64 13 (mean c * mean c) (min_ohms c * max_ohms c)" by simp
qed

lemma q64_power13: "q64 ^ 13 \<le> 1 + 1 / 10 ^ 12"
proof -
  have "q64 ^ 13 = q64 ^ 6 * q64 ^ 7" by (simp flip: power_add)
  also have "\<dots> \<le> (1 + 1 / 10 ^ 13) * (1 + 1 / 10 ^ 13)"
    using q64_pos by (intro mult_mono) (simp_all add: q64_def power_divide divide_le_eq)
  also have "\<dots> \<le> 1 + 1 / 10 ^ 12" by simp
  finally show ?thesis .
qed

lemma q64_power: "n \<le> 13 \<Longrightarrow> q64 ^ n \<le> 1 + 1 / 10 ^ 12"
  by (rule order_trans [OF power_increasing q64_power13]) (simp_all add: q64_pos)

text \<open>
  The calculator on sane configurations. Both limits are the ones of the formulas up to a relative error of \<open>10 ^ - 12\<close>. Without a
  range there is no recommendation and a warning. With a range the recommendation is the standard value of the decade of the
  geometric mean that is closest to it; it need not lie in the range. A bus capacitance above the limit of the mode is
  always reported.
\<close>

theorem pullup_calculator_exact:
  assumes "libm_ok L" "sane c"
  defines "a \<equiv> min_r c" and "b \<equiv> f64_div (tr_s c) (den c)"
  shows "\<bar>a - min_ohms c\<bar> \<le> min_ohms c / 10 ^ 12" "\<bar>b - max_ohms c\<bar> \<le> max_ohms c / 10 ^ 12"
    and "b \<le> a \<Longrightarrow> \<exists>r. calculate L c = Some r \<and> min_resistance r = Finite a \<and> max_resistance r = Finite b
      \<and> \<not> is_valid r \<and> NoValidRange \<in> set (warnings r)"
    and "2 \<le> min_ohms c * max_ohms c \<Longrightarrow> \<bar>mean c * mean c - min_ohms c * max_ohms c\<bar> \<le> min_ohms c * max_ohms c / 10 ^ 12"
    and "a < b \<Longrightarrow> 2 \<le> min_ohms c * max_ohms c \<Longrightarrow> k \<le> 22 \<Longrightarrow> 10 ^ k * (1 + 1 / 10 ^ 12) \<le> mean c \<Longrightarrow>
      mean c \<le> 10 ^ Suc k * (1 - 1 / 10 ^ 12) \<Longrightarrow>
      \<exists>r v w. calculate L c = Some r \<and> min_resistance r = Finite a \<and> max_resistance r = Finite b \<and> recommended r = Some w
        \<and> NoValidRange \<notin> set (warnings r) \<and> v \<in> e12 \<and> \<bar>w - v * 10 ^ k\<bar> \<le> 10 ^ k / 10 ^ 14
        \<and> (\<forall>u \<in> e12. \<bar>mean c - v * 10 ^ k\<bar> \<le> \<bar>mean c - u * 10 ^ k\<bar> + 10 ^ k / 10 ^ 14)"
    and "calculate L c = Some r \<Longrightarrow>
      (\<exists>x m l. CapacitanceExceeded x m l \<in> set (warnings r)) \<longleftrightarrow> bus_capacitance c > max_capacitance_pf (config_speed_mode c)"
proof -
  have cap: "1 \<le> bus_capacitance c" "bus_capacitance c \<le> 10 ^ 6" using assms(2) by (simp_all add: sane_def)
  have fin: "iol c \<noteq> 0" "den c \<noteq> 0" using near_min [OF assms(2)] near_max(2) [OF cap] by simp_all
  note calc = calculate_finite [OF fin, of L, folded a_def b_def]
  show "\<bar>a - min_ohms c\<bar> \<le> min_ohms c / 10 ^ 12"
    using near_by_error [OF conjunct1 [OF near_min [OF assms(2)]] q64_power] by (simp add: a_def)
  show "\<bar>b - max_ohms c\<bar> \<le> max_ohms c / 10 ^ 12" using near_by_error [OF near_max(1) [OF cap] q64_power] by (simp add: b_def)
  show "\<exists>r. calculate L c = Some r \<and> min_resistance r = Finite a \<and> max_resistance r = Finite b
      \<and> \<not> is_valid r \<and> NoValidRange \<in> set (warnings r)" if "b \<le> a"
    using that unfolding calc by (simp add: is_valid_def)
  show "\<bar>mean c * mean c - min_ohms c * max_ohms c\<bar> \<le> min_ohms c * max_ohms c / 10 ^ 12" if "2 \<le> min_ohms c * max_ohms c"
    using near_by_error [OF mean_near(1) [OF assms(2) that] q64_power13] by simp
  show "\<exists>r v w. calculate L c = Some r \<and> min_resistance r = Finite a \<and> max_resistance r = Finite b \<and> recommended r = Some w
        \<and> NoValidRange \<notin> set (warnings r) \<and> v \<in> e12 \<and> \<bar>w - v * 10 ^ k\<bar> \<le> 10 ^ k / 10 ^ 14
        \<and> (\<forall>u \<in> e12. \<bar>mean c - v * 10 ^ k\<bar> \<le> \<bar>mean c - u * 10 ^ k\<bar> + 10 ^ k / 10 ^ 14)"
    if less: "a < b" and "2 \<le> min_ohms c * max_ohms c" and range: "k \<le> 22" "10 ^ k * (1 + 1 / 10 ^ 12) \<le> mean c"
      "mean c \<le> 10 ^ Suc k * (1 - 1 / 10 ^ 12)"
  proof -
    obtain v w where "v \<in> e12" and w: "round_to_standard_value L (Finite (mean c)) = Some w" and "\<bar>w - v * 10 ^ k\<bar> \<le> 10 ^ k / 10 ^ 14"
      "\<forall>u \<in> e12. \<bar>mean c - v * 10 ^ k\<bar> \<le> \<bar>mean c - u * 10 ^ k\<bar> + 10 ^ k / 10 ^ 14"
      by (rule standard_value [OF assms(1) range])
    moreover have "ext_sqrt (Finite (f64_mul a b)) = Finite (mean c)"
      using mean_near(2) [OF assms(2) that(2)] by (simp add: mean_def a_def b_def)
    moreover from this w have "\<exists>r. calculate L c = Some r \<and> min_resistance r = Finite a \<and> max_resistance r = Finite b
        \<and> recommended r = Some w \<and> NoValidRange \<notin> set (warnings r)"
      using less unfolding calc by (simp del: ext_sqrt.simps round_to_standard_value.simps)
    ultimately show ?thesis by blast
  qed
  show "(\<exists>x m l. CapacitanceExceeded x m l \<in> set (warnings r)) \<longleftrightarrow> bus_capacitance c > max_capacitance_pf (config_speed_mode c)"
    if "calculate L c = Some r"
    using that unfolding calc by (auto split: if_splits Option.bind_splits)
qed

subsection \<open>Panics\<close>

text \<open>
  A supply voltage below the low level of the outputs, or a bus without capacitance, makes the mean NaN, zero or infinite,
  and the calculator panics instead of returning a result with a warning.
\<close>

lemma round_nonpositive: "x \<le> 0 \<Longrightarrow> round_to_standard_value L (ext_sqrt (Finite x)) = None"
  by (cases "x = 0") (simp_all add: f64_sqrt_def)

lemma negative_range_panics:
  assumes "rnd (vcc c) = vcc c" "rnd (vol_max c) = vol_max c" "vcc c < vol_max c" "0 < iol c"
    and cap: "1 \<le> bus_capacitance c" "bus_capacitance c \<le> 10 ^ 6"
  shows "calculate L c = None"
proof -
  let ?b = "f64_div (tr_s c) (den c)"
  have "f64_sub (vcc c) (vol_max c) < 0" unfolding f64_sub_def by (rule f64.diff_neg [OF assms(1-3)])
  then have "f64_sub (vcc c) (vol_max c) / iol c \<le> 0" using assms(4) by (simp add: divide_le_0_iff)
  then have a: "min_r c \<le> 0" using f64.mono [of _ 0] by (simp add: min_r_def f64_div_def)
  have b: "0 < ?b" using near_max(1) [OF cap] by (simp add: near_by_def)
  then have "f64_mul (min_r c) ?b \<le> 0" using a f64.mono [of _ 0] by (simp add: f64_mul_def mult_nonpos_nonneg)
  then show ?thesis using calculate_finite [of c L] assms(4) near_max(2) [OF cap] a b round_nonpositive
    by (simp del: ext_sqrt.simps)
qed

lemma no_capacitance_panics:
  assumes "bus_capacitance c = 0" "iol c \<noteq> 0"
  shows "calculate L c = None"
proof -
  have den: "f64_mul 0 y = 0" "f64_mul y 0 = 0" for y by (simp_all add: f64_mul_def)
  have tr: "0 < f64_mul (max_rise_time_ns (config_speed_mode c)) (rnd (1 / 10 ^ 9))"
    using near_tr [of c] by (simp add: near_by_def tr_s_def)
  have "round_to_standard_value L (ext_sqrt (ext_mul (Finite x) PosInf)) = None" for x
    by (simp add: ext_mul_def)
  then show ?thesis using assms tr unfolding calculate_def Let_def
    by (simp add: den ext_div_def)
qed

subsection \<open>A recommendation outside the range\<close>

text \<open>A library that has what \<open>libm_ok\<close> asks for.\<close>

definition exact_libm :: libm where
  "exact_libm = \<lparr>log10 = (\<lambda>x. of_nat (length (takeWhile (\<lambda>k. 10 ^ k \<le> x) [1..<24]))), powf = (\<lambda>x y. x ^ nat \<lfloor>y\<rfloor>)\<rparr>"

lemma takeWhile_powers:
  assumes "(10::rat) ^ k \<le> x" "x < 10 ^ Suc k" "k < n"
  shows "length (takeWhile (\<lambda>j. 10 ^ j \<le> x) [1..<n + 1]) = k"
proof -
  have split: "[1..<n + 1] = [1..<k + 1] @ [k + 1..<n + 1]" 
    using assms(3) upt_add_eq_append [of 1 "k + 1" "n - k"] by simp
  have "(10::rat) ^ j \<le> x" if "j \<in> set [1..<k + 1]" for j
    by (rule order_trans [OF power_increasing assms(1)]) (use that in auto)
  moreover have "takeWhile (\<lambda>j. 10 ^ j \<le> x) [k + 1..<n + 1] = []" 
  proof -
    have "[k + 1..<n + 1] = (k + 1) # [k + 2..<n + 1]" using assms(3) upt_conv_Cons [of "k + 1" "n + 1"] by simp
    then show ?thesis using assms(2) by simp
  qed
  ultimately have "takeWhile (\<lambda>j. 10 ^ j \<le> x) [1..<n + 1] = [1..<k + 1] @ []" unfolding split by (subst takeWhile_append2) (simp_all del: upt_Suc)
  then show ?thesis by (simp del: upt_Suc)
qed

lemma exact_libm_ok: "libm_ok exact_libm"
proof -
  have "length (takeWhile (\<lambda>j. 10 ^ j \<le> x) [1..<24]) = k"
    if "k \<le> 22" "10 ^ k * (1 + 1 / 10 ^ 12) \<le> x" "x \<le> 10 ^ Suc k * (1 - 1 / 10 ^ 12)" for k and x :: rat
  proof -
    have "(10::rat) ^ k * 1 \<le> 10 ^ k * (1 + 1 / 10 ^ 12)" "(10::rat) ^ Suc k * (1 - 1 / 10 ^ 12) < 10 ^ Suc k * 1"
      by (intro mult_left_mono mult_strict_left_mono; simp)+
    then have "10 ^ k \<le> x" "x < 10 ^ Suc k" using that(2,3) by linarith+
    then show ?thesis using takeWhile_powers [of k x 23] that(1) by simp
  qed
  then show ?thesis by (simp add: libm_ok_def exact_libm_def)
qed

lemma mean_nonneg: "0 \<le> mean c"
proof -
  have "0 \<le> sqrt_mid m" for m by (simp add: sqrt_mid_def Let_def)
  then show ?thesis unfolding mean_def f64_sqrt_def Let_def by (auto intro!: f64.nonneg mult_nonneg_nonneg)
qed

lemma square_bounds: "0 \<le> x \<Longrightarrow> 0 \<le> l \<Longrightarrow> l * l \<le> x * x \<Longrightarrow> x * x \<le> u * u \<Longrightarrow> 0 \<le> u \<Longrightarrow> l \<le> x \<and> x \<le> (u :: rat)"
  by (simp add: power_mono_iff flip: power2_eq_square)

definition narrow_config :: i2c_config where
  "narrow_config = \<lparr>vcc = 5, vol_max = rnd (4 / 10), iol = rnd (2 / 1000), bus_capacitance = 139, config_speed_mode = Fast\<rparr>"

lemma narrow_limits:
  "sane narrow_config" "2299 < min_ohms narrow_config" "min_ohms narrow_config < 2301"
  "2547 < max_ohms narrow_config" "max_ohms narrow_config < 2548"
proof -
  have v: "\<bar>rnd (4 / 10) - 4 / 10\<bar> \<le> 1 / 1000000000000000" and i: "\<bar>rnd (2 / 1000) - 2 / 1000\<bar> \<le> 1 / 1000000000000000"
    by (rule f64_error16, simp)+
  then have bounds: "399 / 1000 < rnd (4 / 10)" "rnd (4 / 10) < 401 / 1000" "1 / 1000 < rnd (2 / 1000)" "rnd (2 / 1000) < 3 / 1000"
    by linarith+
  then show "sane narrow_config" unfolding sane_def narrow_config_def by simp
  have "2299 * rnd (2 / 1000) < 5 - rnd (4 / 10)" "5 - rnd (4 / 10) < 2301 * rnd (2 / 1000)" using v i by linarith+
  then show "2299 < min_ohms narrow_config" "min_ohms narrow_config < 2301"
    using bounds by (simp_all add: min_ohms_def narrow_config_def pos_less_divide_eq pos_divide_less_eq)
  show "2547 < max_ohms narrow_config" "max_ohms narrow_config < 2548" by (simp_all add: max_ohms_def narrow_config_def)
qed

text \<open>
  With five volts, a sink current of two milliamperes and 139 picofarads in fast mode the resistor must be between 2300 and 2547
  ohms; the calculator calls the range valid and recommends 2200 ohms, below the minimum.
\<close>

lemma recommendation_below_minimum:
  assumes "libm_ok L"
  shows "\<exists>r w a. calculate L narrow_config = Some r \<and> is_valid r \<and> recommended r = Some w \<and> min_resistance r = Finite a
    \<and> warnings r = [] \<and> w < 2201 \<and> 2298 < a"
proof -
  let ?c = narrow_config
  let ?b = "f64_div (tr_s ?c) (den ?c)" and ?p = "min_ohms ?c * max_ohms ?c"
  note exact = pullup_calculator_exact [OF assms narrow_limits(1)]
  have "2299 * 2547 \<le> ?p" "?p \<le> 2301 * 2548" using narrow_limits by (intro mult_mono; simp)+
  then have p: "5855553 \<le> ?p" "?p \<le> 5862948" by simp_all
  then have two: "2 \<le> ?p" by linarith
  have "\<bar>mean ?c * mean ?c - ?p\<bar> \<le> ?p / 1000000000000" using exact(4) [OF two] by simp
  then have "2419 * 2419 \<le> mean ?c * mean ?c" "mean ?c * mean ?c \<le> 2422 * 2422" using p by linarith+
  then have mean: "2419 \<le> mean ?c" "mean ?c \<le> 2422" using square_bounds [OF mean_nonneg, of 2419 ?c 2422] by simp_all
  have "\<bar>min_r ?c - min_ohms ?c\<bar> \<le> min_ohms ?c / 1000000000000" "\<bar>?b - max_ohms ?c\<bar> \<le> max_ohms ?c / 1000000000000"
    using exact(1,2) by simp_all
  then have a: "2298 < min_r ?c" "min_r ?c < ?b" using narrow_limits by linarith+
  have "10 ^ 3 * (1 + 1 / 10 ^ 12) \<le> mean ?c" "mean ?c \<le> 10 ^ Suc 3 * (1 - 1 / 10 ^ 12)" using mean by simp_all
  then obtain r v w where r: "calculate L ?c = Some r" "min_resistance r = Finite (min_r ?c)" "recommended r = Some w"
      "NoValidRange \<notin> set (warnings r)" and v: "v \<in> e12" and w: "\<bar>w - v * 1000\<bar> \<le> 1000 / 100000000000000"
      and least: "\<forall>u \<in> e12. \<bar>mean ?c - v * 1000\<bar> \<le> \<bar>mean ?c - u * 1000\<bar> + 1000 / 100000000000000"
    using exact(5) [OF a(2) two, of 3] by auto
  have "\<bar>mean ?c - v * 1000\<bar> \<le> \<bar>mean ?c - 22 / 10 * 1000\<bar> + 1000 / 100000000000000" using least by (simp add: e12_def)
  then have "v * 1000 < 2650" using mean by linarith
  then have "v \<le> 22 / 10" using v by (auto simp: e12_def)
  then have "w < 2201" using w by linarith
  moreover have "warnings r = []"
    using exact(6) [OF r(1)] r(4) by (cases "warnings r"; cases "hd (warnings r)") (auto simp: narrow_config_def)
  ultimately show ?thesis using r(1-3) a(1) by (auto simp: is_valid_def)
qed

subsection \<open>Estimated capacitance\<close>

lemma f64_half_int: "\<bar>n\<bar> \<le> 2 ^ 53 \<Longrightarrow> rnd (of_int n / 2) = of_int n / 2"
  using f64.fixed_scaled [of n "- 1"] by simp

text \<open>For whole centimetres the estimate is exact.\<close>

lemma estimate_capacitance_exact:
  assumes "d \<le> 10 ^ 9" "l \<le> 10 ^ 9"
  shows "estimate_capacitance d (of_nat l) pcb = of_nat d * (15 / 2) + of_nat l * (3 / 2) + (if pcb then 20 else 0)"
proof -
  have nat: "rnd (of_nat d) = of_nat d" using f64_half_int [of "2 * int d"] assms by simp
  have terms: "rnd (of_nat d * (15 / 2)) = of_nat d * (15 / 2)" "rnd (of_nat l * (3 / 2)) = of_nat l * (3 / 2)"
    using f64_half_int [of "int d * 15"] f64_half_int [of "int l * 3"] assms by simp_all
  have sums: "rnd (of_nat d * (15 / 2) + of_nat l * (3 / 2)) = of_nat d * (15 / 2) + of_nat l * (3 / 2)"
    "rnd (of_nat d * (15 / 2) + of_nat l * (3 / 2) + 20) = of_nat d * (15 / 2) + of_nat l * (3 / 2) + 20"
    using f64_half_int [of "int d * 15 + int l * 3"] f64_half_int [of "int d * 15 + int l * 3 + 40"] assms
    by (simp_all add: add_divide_distrib)
  show ?thesis
    by (cases pcb) (simp_all only: estimate_capacitance_def f64_mul_def f64_add_def Let_def nat terms sums if_True if_False add_0_right)
qed

end
