(* ===== verification/I2c_Capacitance.thy ===== *)
theory I2c_Capacitance
  imports Float_Rounding
begin

text \<open>
  \<^verbatim>\<open>I2C/src/17/17.rs\<close>: the capacitance of an I2C bus, the speed modes it allows and the pull-up resistors, in
  binary32 arithmetic. A quotient by zero, infinity in the source, is \<open>None\<close>. Of the printed report the recommended
  resistor is modelled.
\<close>

subsection \<open>Speed modes\<close>

datatype speed_mode = Standard | Fast | FastPlus | HighSpeed

fun max_capacitance :: "speed_mode \<Rightarrow> f32" where
  "max_capacitance Standard = 400"
| "max_capacitance Fast = 400"
| "max_capacitance FastPlus = 550"
| "max_capacitance HighSpeed = 100"

fun frequency :: "speed_mode \<Rightarrow> nat" where
  "frequency Standard = 100000"
| "frequency Fast = 400000"
| "frequency FastPlus = 1000000"
| "frequency HighSpeed = 3400000"

fun max_rise_time_ns :: "speed_mode \<Rightarrow> f32" where
  "max_rise_time_ns Standard = 1000"
| "max_rise_time_ns Fast = 1000"
| "max_rise_time_ns FastPlus = 300"
| "max_rise_time_ns HighSpeed = 80"

fun mode_fmt :: "speed_mode \<Rightarrow> string" where
  "mode_fmt Standard = ''Standard Mode (100 kHz)''"
| "mode_fmt Fast = ''Fast Mode (400 kHz)''"
| "mode_fmt FastPlus = ''Fast Mode Plus (1 MHz)''"
| "mode_fmt HighSpeed = ''High-Speed Mode (3.4 MHz)''"

subsection \<open>Components of the bus\<close>

record bus_components =
  trace_length_m :: f32
  trace_cap_per_m :: f32
  num_devices :: u8
  device_cap_pf :: f32
  num_connectors :: u8
  connector_cap_pf :: f32
  parasitic_cap_pf :: f32

definition bus_components_new :: bus_components where
  "bus_components_new = \<lparr>trace_length_m = 0, trace_cap_per_m = 35, num_devices = 0, device_cap_pf = 6,
     num_connectors = 0, connector_cap_pf = 4, parasitic_cap_pf = 5\<rparr>"

definition with_trace :: "f32 \<Rightarrow> f32 \<Rightarrow> bus_components \<Rightarrow> bus_components" where
  "with_trace length_m cap_per_m c = c\<lparr>trace_length_m := length_m, trace_cap_per_m := cap_per_m\<rparr>"

definition with_devices :: "u8 \<Rightarrow> f32 \<Rightarrow> bus_components \<Rightarrow> bus_components" where
  "with_devices count cap_pf c = c\<lparr>num_devices := count, device_cap_pf := cap_pf\<rparr>"

definition with_connectors :: "u8 \<Rightarrow> f32 \<Rightarrow> bus_components \<Rightarrow> bus_components" where
  "with_connectors count cap_pf c = c\<lparr>num_connectors := count, connector_cap_pf := cap_pf\<rparr>"

definition with_parasitic :: "f32 \<Rightarrow> bus_components \<Rightarrow> bus_components" where
  "with_parasitic cap_pf c = c\<lparr>parasitic_cap_pf := cap_pf\<rparr>"

definition u8_as_f32 :: "u8 \<Rightarrow> f32" where
  "u8_as_f32 n = rnd32 (of_nat (unat n))"

subsection \<open>The calculator\<close>

record capacitance_analysis =
  total_capacitance :: f32
  trace_contribution :: f32
  device_contribution :: f32
  connector_contribution :: f32
  parasitic_contribution :: f32
  is_valid :: bool
  margin_pf :: f32
  margin_percent :: f32
  min_pullup_ohms :: "f32 option"

definition calculate :: "bus_components \<Rightarrow> f32" where
  "calculate components =
     (let trace = f32_mul (trace_length_m components) (trace_cap_per_m components);
          devices = f32_mul (u8_as_f32 (num_devices components)) (device_cap_pf components);
          connectors = f32_mul (u8_as_f32 (num_connectors components)) (connector_cap_pf components)
      in f32_add (f32_add (f32_add trace devices) connectors) (parasitic_cap_pf components))"

definition finite_div :: "f32 \<Rightarrow> f32 \<Rightarrow> f32 option" where
  "finite_div a b = (if b = 0 then None else Some (f32_div a b))"

definition calculate_min_pullup :: "f32 \<Rightarrow> speed_mode \<Rightarrow> f32 option" where
  "calculate_min_pullup bus_cap_pf mode =
     (let t_rise_s = f32_mul (max_rise_time_ns mode) (rnd32 (1 / 10 ^ 9));
          bus_cap_f = f32_mul bus_cap_pf (rnd32 (1 / 10 ^ 12))
      in finite_div t_rise_s (f32_mul (rnd32 (8473 / 10000)) bus_cap_f))"

definition calculate_max_cap :: "f32 \<Rightarrow> speed_mode \<Rightarrow> f32 option" where
  "calculate_max_cap pullup_ohms mode =
     (let t_rise_s = f32_mul (max_rise_time_ns mode) (rnd32 (1 / 10 ^ 9))
      in do { c_max_f \<leftarrow> finite_div t_rise_s (f32_mul (rnd32 (8473 / 10000)) pullup_ohms);
              Some (f32_mul c_max_f (rnd32 (10 ^ 12))) })"

definition analyze :: "bus_components \<Rightarrow> speed_mode \<Rightarrow> capacitance_analysis" where
  "analyze components mode =
     (let trace_contrib = f32_mul (trace_length_m components) (trace_cap_per_m components);
          device_contrib = f32_mul (u8_as_f32 (num_devices components)) (device_cap_pf components);
          connector_contrib = f32_mul (u8_as_f32 (num_connectors components)) (connector_cap_pf components);
          parasitic_contrib = parasitic_cap_pf components;
          total = f32_add (f32_add (f32_add trace_contrib device_contrib) connector_contrib) parasitic_contrib;
          max_allowed = max_capacitance mode;
          valid = (total \<le> max_allowed);
          margin = f32_sub max_allowed total;
          margin_pct = f32_mul (f32_div margin max_allowed) 100
      in \<lparr>total_capacitance = total, trace_contribution = trace_contrib, device_contribution = device_contrib,
          connector_contribution = connector_contrib, parasitic_contribution = parasitic_contrib,
          is_valid = valid, margin_pf = margin, margin_percent = margin_pct,
          min_pullup_ohms = calculate_min_pullup total mode\<rparr>)"

definition find_max_speed :: "f32 \<Rightarrow> speed_mode option" where
  "find_max_speed total_cap_pf =
     find (\<lambda>mode. total_cap_pf \<le> max_capacitance mode) [HighSpeed, FastPlus, Fast, Standard]"

definition recommended_pullup :: "capacitance_analysis \<Rightarrow> f32 option" where
  "recommended_pullup a =
     (case min_pullup_ohms a of
        None \<Rightarrow> None
      | Some r \<Rightarrow> find (\<lambda>val. val \<ge> r) [1000, 1500, 2200, 3300, 4700, 10000])"

subsection \<open>Validation\<close>

lemma find_max_speed_exact:
  "find_max_speed c = (if c \<le> 100 then Some HighSpeed else if c \<le> 550 then Some FastPlus else None)"
  by (simp add: find_max_speed_def)

lemma total_fixed: "rnd32 (total_capacitance (analyze c m)) = total_capacitance (analyze c m)"
  by (simp add: analyze_def Let_def f32_add_def f32.idem)

lemma limit_fixed: "rnd32 (max_capacitance m) = max_capacitance m"
  using f32.fixed_int [of 400] f32.fixed_int [of 550] f32.fixed_int [of 100] by (cases m) simp_all

lemma analyze_margin: "is_valid (analyze c m) \<longleftrightarrow> 0 \<le> margin_pf (analyze c m)"
  using f32.diff_sign [OF limit_fixed total_fixed, of m c] by (simp add: analyze_def Let_def f32_sub_def)

lemma analyze_percent:
  assumes "is_valid (analyze c m)" "0 \<le> total_capacitance (analyze c m)"
  shows "0 \<le> margin_percent (analyze c m) \<and> margin_percent (analyze c m) \<le> 100"
proof -
  let ?t = "total_capacitance (analyze c m)" and ?l = "max_capacitance m"
  have pos: "0 < ?l" by (cases m) simp_all
  have pct: "margin_percent (analyze c m) = rnd32 (rnd32 (rnd32 (?l - ?t) / ?l) * 100)"
    by (simp add: analyze_def Let_def f32_sub_def f32_div_def f32_mul_def)
  have "0 \<le> rnd32 (?l - ?t)" using assms(1) by (intro f32.nonneg) (simp add: analyze_def Let_def)
  moreover have "rnd32 (?l - ?t) \<le> ?l" using assms(2) by (intro f32.le_fixed limit_fixed) simp
  ultimately have "0 \<le> rnd32 (rnd32 (?l - ?t) / ?l)" "rnd32 (rnd32 (?l - ?t) / ?l) \<le> 1"
    using pos f32.fixed_int [of 1] by (auto intro: f32.nonneg f32.le_fixed)
  then show ?thesis unfolding pct using f32.fixed_int [of 100] by (auto intro!: f32.nonneg f32.le_fixed)
qed

subsection \<open>Rounding errors of the resistor values\<close>

definition q32 :: rat where
  "q32 = 2 ^ 24 / (2 ^ 24 - 1)"

lemma q32_pos: "0 < q32" "1 \<le> q32"
  by (simp_all add: q32_def)

lemma q32_power7: "q32 ^ 7 \<le> 1 + 1 / 2300000"
  by (simp add: q32_def power_divide divide_le_eq)

lemma q32_power: "n \<le> 20 \<Longrightarrow> q32 ^ n \<le> 2"
proof -
  assume "n \<le> 20"
  then have "q32 ^ n \<le> q32 ^ (7 * 3)" by (intro power_increasing q32_pos) simp
  also have "\<dots> \<le> (1 + 1 / 2300000) ^ 3"
    unfolding power_mult by (rule power_mono [OF q32_power7]) (use q32_pos in simp)
  also have "\<dots> \<le> 2" by (simp add: power_divide divide_le_eq)
  finally show ?thesis .
qed

text \<open>One more rounding.\<close>

lemma near_round:
  assumes "near_by q32 n x y" "n \<le> 20" "1 / 10 ^ 20 \<le> y"
  shows "near_by q32 (n + 1) (rnd32 x) y"
proof -
  have "x * q32 ^ n \<le> x * 2" using assms(1) q32_power [OF assms(2)] by (simp add: near_by_def)
  then have "1 / 10 ^ 20 \<le> x * 2" using assms(1,3) unfolding near_by_def by linarith
  moreover have "2 * (2 powi - 126) \<le> (1 / 10 ^ 20 :: rat)" by (simp add: power_int_minus)
  ultimately have "2 powi - 126 \<le> x" by linarith
  then have "near_by q32 1 (rnd32 x) x" using f32.rd_near_by [of x] by (simp add: q32_def)
  then show ?thesis using near_by_trans [OF q32_pos(1) _ assms(1)] by (metis add.commute)
qed

lemma near_const: "1 / 10 ^ 20 \<le> x \<Longrightarrow> near_by q32 1 (rnd32 x) x"
  using near_round [OF near_by_refl [of x]] by (simp add: less_le_trans)

lemma near_f32_mul: "near_by q32 m a b \<Longrightarrow> near_by q32 n c d \<Longrightarrow> m + n \<le> 20 \<Longrightarrow> 1 / 10 ^ 20 \<le> b * d
    \<Longrightarrow> near_by q32 (m + n + 1) (f32_mul a c) (b * d)"
  unfolding f32_mul_def by (intro near_round near_by_mult q32_pos)

lemma near_finite_div:
  assumes "near_by q32 m a b" "near_by q32 n c d" "m + n \<le> 20" "1 / 10 ^ 20 \<le> b / d"
  obtains r where "finite_div a c = Some r" "near_by q32 (m + n + 1) r (b / d)"
proof
  show "finite_div a c = Some (f32_div a c)" using assms(2) by (simp add: finite_div_def near_by_def)
  show "near_by q32 (m + n + 1) (f32_div a c) (b / d)"
    unfolding f32_div_def using assms by (intro near_round near_by_div q32_pos)
qed

lemma rise_time_bounds: "80 \<le> max_rise_time_ns m" "max_rise_time_ns m \<le> 1000"
  by (cases m; simp)+

lemma near_t_rise: "near_by q32 2 (f32_mul (max_rise_time_ns m) (rnd32 (1 / 10 ^ 9))) (max_rise_time_ns m * (1 / 10 ^ 9))"
  using near_f32_mul [OF near_by_refl near_const, of "max_rise_time_ns m" "1 / 10 ^ 9"] rise_time_bounds [of m]
  by (simp add: numeral_2_eq_2)

text \<open>The limits that follow from the rise time \<open>t = 0.8473 R C\<close>, in ohms for picofarads and in picofarads for ohms.\<close>

definition rise_limit :: "speed_mode \<Rightarrow> rat \<Rightarrow> rat" where
  "rise_limit m x = max_rise_time_ns m * 10000000 / (8473 * x)"

lemma min_pullup_near:
  assumes "1 \<le> c" "c \<le> 10 ^ 6"
  obtains r where "calculate_min_pullup c m = Some r" "near_by q32 7 r (rise_limit m c)"
proof -
  have cap: "near_by q32 2 (f32_mul c (rnd32 (1 / 10 ^ 12))) (c * (1 / 10 ^ 12))"
    using near_f32_mul [OF near_by_refl near_const, of c "1 / 10 ^ 12"] assms by (simp add: numeral_2_eq_2)
  have den: "near_by q32 4 (f32_mul (rnd32 (8473 / 10000)) (f32_mul c (rnd32 (1 / 10 ^ 12)))) (8473 / 10000 * (c * (1 / 10 ^ 12)))"
    using near_f32_mul [OF near_const cap, of "8473 / 10000"] assms by (simp add: eval_nat_numeral)
  have quot: "max_rise_time_ns m * (1 / 10 ^ 9) / (8473 / 10000 * (c * (1 / 10 ^ 12))) = rise_limit m c"
    by (simp add: rise_limit_def)
  have "1 / 10 ^ 20 \<le> rise_limit m c" using assms rise_time_bounds [of m] by (simp add: rise_limit_def field_simps)
  then show thesis using near_finite_div [OF near_t_rise den, of m] that unfolding quot
    by (auto simp: calculate_min_pullup_def Let_def)
qed

lemma max_cap_near:
  assumes "near_by q32 n R x" "n \<le> 10" "1 / 100 \<le> x" "x \<le> 10 ^ 8"
  obtains y where "calculate_max_cap R m = Some y" "near_by q32 (n + 7) y (rise_limit m x)"
proof -
  have den: "near_by q32 (n + 2) (f32_mul (rnd32 (8473 / 10000)) R) (8473 / 10000 * x)"
    using near_f32_mul [OF near_const assms(1), of "8473 / 10000"] assms by simp
  have low: "1 / 10 ^ 20 \<le> max_rise_time_ns m * (1 / 10 ^ 9) / (8473 / 10000 * x)"
    using assms rise_time_bounds [of m] by (simp add: field_simps)
  obtain f where f: "finite_div (f32_mul (max_rise_time_ns m) (rnd32 (1 / 10 ^ 9))) (f32_mul (rnd32 (8473 / 10000)) R) = Some f"
    "near_by q32 (2 + (n + 2) + 1) f (max_rise_time_ns m * (1 / 10 ^ 9) / (8473 / 10000 * x))"
    using near_finite_div [OF near_t_rise den _ low] assms(2) by auto
  have near: "near_by q32 (2 + (n + 2) + 1 + 1 + 1) (f32_mul f (rnd32 (10 ^ 12)))
      (max_rise_time_ns m * (1 / 10 ^ 9) / (8473 / 10000 * x) * 10 ^ 12)"
    using assms rise_time_bounds [of m] by (intro near_f32_mul [OF f(2) near_const]) (simp_all add: field_simps)
  have limit: "max_rise_time_ns m * (1 / 10 ^ 9) / (8473 / 10000 * x) * 10 ^ 12 = rise_limit m x"
    using assms by (simp add: rise_limit_def field_simps)
  have count: "2 + (n + 2) + 1 + 1 + 1 = n + 7" by simp
  have "calculate_max_cap R m = Some (f32_mul f (rnd32 (10 ^ 12)))" using f(1) by (simp add: calculate_max_cap_def)
  then show thesis using near unfolding limit count by (rule that)
qed

lemma rise_limit_involutive: "0 < c \<Longrightarrow> rise_limit m (rise_limit m c) = c"
  using rise_time_bounds [of m] by (simp add: rise_limit_def field_simps)

lemma analyze_total: "total_capacitance (analyze c m) = calculate c" "is_valid (analyze c m) \<longleftrightarrow> calculate c \<le> max_capacitance m"
  "min_pullup_ohms (analyze c m) = calculate_min_pullup (calculate c) m"
  by (simp_all add: analyze_def calculate_def Let_def)

text \<open>
  The analysis of a bus. The mode found is the fastest whose analysis is valid, and is none exactly if no mode is; it is
  never the standard or the fast mode, whose limit is below that of the faster mode plus. A bus is valid exactly if its
  margin is not negative, and then the percentage is between 0 and 100. The resistor of the report is, for capacitances
  from one picofarad to a microfarad, the one at which the rise time reaches its limit, up to a relative error
  of less than half a millionth, and the capacitance computed back from it is off by less than a
  millionth. The resistor that the report recommends is not below that value: the bus then rises too slowly.
\<close>

theorem capacitance_analysis_exact:
  shows "find_max_speed (calculate c) = Some m \<Longrightarrow> is_valid (analyze c m) \<and> m \<in> {FastPlus, HighSpeed}
      \<and> (is_valid (analyze c m') \<longrightarrow> frequency m' \<le> frequency m)"
    and "find_max_speed (calculate c) = None \<Longrightarrow> \<not> is_valid (analyze c m')"
    and "is_valid (analyze c m) \<longleftrightarrow> 0 \<le> margin_pf (analyze c m)"
    and "is_valid (analyze c m) \<Longrightarrow> 0 \<le> calculate c \<Longrightarrow> 0 \<le> margin_percent (analyze c m) \<and> margin_percent (analyze c m) \<le> 100"
    and "1 \<le> calculate c \<Longrightarrow> calculate c \<le> 10 ^ 6 \<Longrightarrow>
      \<exists>r y. min_pullup_ohms (analyze c m) = Some r \<and> calculate_max_cap r m = Some y
        \<and> \<bar>r - rise_limit m (calculate c)\<bar> \<le> rise_limit m (calculate c) / 2000000 \<and> \<bar>y - calculate c\<bar> \<le> calculate c / 1000000
        \<and> (\<forall>v. recommended_pullup (analyze c m) = Some v \<longrightarrow>
              v * calculate c * 8473 / 10000000 \<ge> max_rise_time_ns m * (1 - 1 / 2000000))"
proof -
  let ?C = "calculate c"
  show "is_valid (analyze c m) \<and> m \<in> {FastPlus, HighSpeed} \<and> (is_valid (analyze c m') \<longrightarrow> frequency m' \<le> frequency m)"
    if "find_max_speed ?C = Some m"
    using that by (cases m') (auto simp: analyze_total find_max_speed_exact split: if_splits)
  show "\<not> is_valid (analyze c m')" if "find_max_speed ?C = None"
    using that by (cases m') (auto simp: analyze_total find_max_speed_exact split: if_splits)
  show "is_valid (analyze c m) \<longleftrightarrow> 0 \<le> margin_pf (analyze c m)" by (rule analyze_margin)
  show "0 \<le> margin_percent (analyze c m) \<and> margin_percent (analyze c m) \<le> 100" if "is_valid (analyze c m)" "0 \<le> ?C"
    using analyze_percent [of c m] that by (simp add: analyze_total)
  show "\<exists>r y. min_pullup_ohms (analyze c m) = Some r \<and> calculate_max_cap r m = Some y
        \<and> \<bar>r - rise_limit m ?C\<bar> \<le> rise_limit m ?C / 2000000 \<and> \<bar>y - ?C\<bar> \<le> ?C / 1000000
        \<and> (\<forall>v. recommended_pullup (analyze c m) = Some v \<longrightarrow> v * ?C * 8473 / 10000000 \<ge> max_rise_time_ns m * (1 - 1 / 2000000))"
    if range: "1 \<le> ?C" "?C \<le> 10 ^ 6"
  proof -
    obtain r where r: "calculate_min_pullup ?C m = Some r" "near_by q32 7 r (rise_limit m ?C)"
      by (rule min_pullup_near [OF range])
    have x: "1 / 100 \<le> rise_limit m ?C" "rise_limit m ?C \<le> 10 ^ 8" "0 < rise_limit m ?C"
      using range rise_time_bounds [of m] by (auto simp: rise_limit_def field_simps)
    obtain y where y: "calculate_max_cap r m = Some y" "near_by q32 (7 + 7) y ?C"
      using max_cap_near [OF r(2) _ x(1,2), of m] rise_limit_involutive [of ?C m] range by auto
    have r_err: "\<bar>r - rise_limit m ?C\<bar> \<le> rise_limit m ?C / 2000000"
      using near_by_error [OF r(2) q32_power7] x(3) by linarith
    have "q32 ^ (7 + 7) \<le> (1 + 1 / 2300000) * (1 + 1 / 2300000)"
      unfolding power_add using q32_power7 q32_pos by (intro mult_mono) simp_all
    then have "q32 ^ (7 + 7) \<le> 1 + 1 / 1100000" by simp
    from near_by_error [OF y(2) this] have y_err: "\<bar>y - ?C\<bar> \<le> ?C / 1000000"
      using range by linarith
    have "v * ?C * 8473 / 10000000 \<ge> max_rise_time_ns m * (1 - 1 / 2000000)" if rec: "recommended_pullup (analyze c m) = Some v" for v
    proof -
      have "r \<le> v" using rec r(1) by (auto simp: recommended_pullup_def analyze_total split: if_splits)
      then have "rise_limit m ?C - rise_limit m ?C / 2000000 \<le> v" using r_err by linarith
      then have "rise_limit m ?C * (1 - 1 / 2000000) \<le> v" unfolding right_diff_distrib by simp
      then have "rise_limit m ?C * (1 - 1 / 2000000) * ?C \<le> v * ?C" using range by (intro mult_right_mono) simp_all
      then show ?thesis using range by (simp add: rise_limit_def field_simps)
    qed
    then show ?thesis using r(1) y(1) r_err y_err by (auto simp: analyze_total)
  qed
qed

text \<open>
  The second example of the program: 84 picofarads in high-speed mode. The report recommends 1.5 kiloohms, with which the
  bus takes more than 106 nanoseconds to rise; 80 are allowed.
\<close>

definition extended_system :: bus_components where
  "extended_system = with_parasitic 12 (with_connectors 2 5 (with_devices 6 7 (with_trace (1 / 2) 40 bus_components_new)))"

lemma f32_small_int: "n \<le> 1000 \<Longrightarrow> rnd32 (of_nat n) = of_nat n"
  using f32.fixed_int [of "int n"] by simp

lemma extended_system_total: "calculate extended_system = 84"
  using f32_small_int [of 20] f32_small_int [of 6] f32_small_int [of 42] f32_small_int [of 2] f32_small_int [of 10]
    f32_small_int [of 62] f32_small_int [of 72] f32_small_int [of 84]
  by (simp add: calculate_def extended_system_def with_parasitic_def with_connectors_def with_devices_def with_trace_def
    bus_components_new_def u8_as_f32_def f32_mul_def f32_add_def)

lemma extended_system_too_slow:
  "find_max_speed (calculate extended_system) = Some HighSpeed"
  "recommended_pullup (analyze extended_system HighSpeed) = Some 1500"
  "1500 * calculate extended_system * 8473 / 10000000 > (106 :: rat)" "max_rise_time_ns HighSpeed = 80"
proof -
  obtain r where r: "calculate_min_pullup 84 HighSpeed = Some r" "near_by q32 7 r (rise_limit HighSpeed 84)"
    by (rule min_pullup_near [of 84 HighSpeed]) simp_all
  have "\<bar>r - rise_limit HighSpeed 84\<bar> \<le> rise_limit HighSpeed 84 * (1 / 2300000)" by (rule near_by_error [OF r(2) q32_power7])
  moreover have "1100 < rise_limit HighSpeed 84" "rise_limit HighSpeed 84 < 1200" by (simp_all add: rise_limit_def)
  ultimately have "1000 < r" "r \<le> 1500" by linarith+
  then show "recommended_pullup (analyze extended_system HighSpeed) = Some 1500"
    using r(1) by (simp add: recommended_pullup_def analyze_total extended_system_total)
qed (simp_all add: extended_system_total find_max_speed_exact)

end
