(* ===== verification/I2c_Error_Detection.thy ===== *)
theory I2c_Error_Detection
  imports Bus_Io "HOL-Library.Sublist"
begin

unbundle bit_operations_syntax

text \<open>
  \<^verbatim>\<open>I2C/src/28/28.rs\<close>: a register-level I2C driver with error detection. The memory-mapped
  registers and the tick counter are a parameter, functions on the state \<open>'w\<close> of the peripheral;
  every access may change it. The source leaves the tick counter as a placeholder that returns 0,
  \<open>get_tick_count\<close> below. The waiting loop is partial: \<open>None\<close> is a loop that never ends, or, in
  the checked build, an overflow of the 32-bit tick arithmetic.
\<close>

subsection \<open>Errors, states, registers\<close>

datatype i2c_error = Nack | Timeout | ArbitrationLost | BusError | Busy | Overflow | InvalidParam
  | ClockStretchTimeout

datatype i2c_state = Idle | Transmit | Receive | Error

datatype status_flag = StartBit | AddressSent | ByteTransferFinished | TxEmpty | RxNotEmpty
  | AckFailureFlag | ArbitrationLostFlag | BusErrorFlag | TimeoutFlag

definition flag_u32 :: "status_flag \<Rightarrow> u32" where
  "flag_u32 f = (case f of StartBit \<Rightarrow> push_bit 0 1 | AddressSent \<Rightarrow> push_bit 1 1
     | ByteTransferFinished \<Rightarrow> push_bit 2 1 | TxEmpty \<Rightarrow> push_bit 7 1 | RxNotEmpty \<Rightarrow> push_bit 6 1
     | AckFailureFlag \<Rightarrow> push_bit 10 1 | ArbitrationLostFlag \<Rightarrow> push_bit 9 1
     | BusErrorFlag \<Rightarrow> push_bit 8 1 | TimeoutFlag \<Rightarrow> push_bit 14 1)"

definition CR1_PE :: u32 where "CR1_PE = push_bit 0 1"
definition CR1_START :: u32 where "CR1_START = push_bit 8 1"
definition CR1_STOP :: u32 where "CR1_STOP = push_bit 9 1"
definition CR1_ACK :: u32 where "CR1_ACK = push_bit 10 1"

record 'w i2c_registers =
  rd_cr1 :: "'w \<Rightarrow> u32 \<times> 'w"
  wr_cr1 :: "u32 \<Rightarrow> 'w \<Rightarrow> 'w"
  rd_sr1 :: "'w \<Rightarrow> u32 \<times> 'w"
  wr_sr1 :: "u32 \<Rightarrow> 'w \<Rightarrow> 'w"
  rd_sr2 :: "'w \<Rightarrow> u32 \<times> 'w"
  rd_dr :: "'w \<Rightarrow> u32 \<times> 'w"
  wr_dr :: "u32 \<Rightarrow> 'w \<Rightarrow> 'w"
  tick_count :: "'w \<Rightarrow> u32 \<times> 'w"
  delay_us :: "nat \<Rightarrow> 'w \<Rightarrow> 'w"

definition get_tick_count :: u32 where "get_tick_count = 0"

record i2c_bus =
  timeout_ms :: u32
  state :: i2c_state

definition i2c_bus_new :: "u32 \<Rightarrow> i2c_bus" where
  "i2c_bus_new timeout = \<lparr>timeout_ms = timeout, state = Idle\<rparr>"

type_synonym ('w, 'a) drv = "(i2c_bus \<times> 'w, i2c_error, 'a) io"

definition update_cr1 :: "'w i2c_registers \<Rightarrow> (u32 \<Rightarrow> u32) \<Rightarrow> 'w \<Rightarrow> 'w" where
  "update_cr1 R f w = (let (v, w) = rd_cr1 R w in wr_cr1 R (f v) w)"

definition update_sr1 :: "'w i2c_registers \<Rightarrow> (u32 \<Rightarrow> u32) \<Rightarrow> 'w \<Rightarrow> 'w" where
  "update_sr1 R f w = (let (v, w) = rd_sr1 R w in wr_sr1 R (f v) w)"

subsection \<open>Error checks\<close>

definition check_ack_error :: "'w i2c_registers \<Rightarrow> i2c_bus \<times> 'w \<Rightarrow> ('w, unit) drv" where
  "check_ack_error R s =
     (let (b, w) = s; (sr1, w) = rd_sr1 R w in
      if sr1 AND flag_u32 AckFailureFlag \<noteq> 0 then
        (let w = update_sr1 R (\<lambda>v. v AND NOT (flag_u32 AckFailureFlag)) w;
             w = update_cr1 R (\<lambda>v. v OR CR1_STOP) w
         in ((b\<lparr>state := Error\<rparr>, w), Inl Nack))
      else ((b, w), Inr ()))"

definition check_arbitration_error :: "'w i2c_registers \<Rightarrow> i2c_bus \<times> 'w \<Rightarrow> ('w, unit) drv" where
  "check_arbitration_error R s =
     (let (b, w) = s; (sr1, w) = rd_sr1 R w in
      if sr1 AND flag_u32 ArbitrationLostFlag \<noteq> 0 then
        (let w = update_sr1 R (\<lambda>v. v AND NOT (flag_u32 ArbitrationLostFlag)) w
         in ((b\<lparr>state := Error\<rparr>, w), Inl ArbitrationLost))
      else ((b, w), Inr ()))"

definition check_bus_error :: "'w i2c_registers \<Rightarrow> i2c_bus \<times> 'w \<Rightarrow> ('w, unit) drv" where
  "check_bus_error R s =
     (let (b, w) = s; (sr1, w) = rd_sr1 R w in
      if sr1 AND flag_u32 BusErrorFlag \<noteq> 0 then
        (let w = update_sr1 R (\<lambda>v. v AND NOT (flag_u32 BusErrorFlag)) w
         in ((b\<lparr>state := Error\<rparr>, w), Inl BusError))
      else ((b, w), Inr ()))"

definition check_errors :: "'w i2c_registers \<Rightarrow> i2c_bus \<times> 'w \<Rightarrow> ('w, unit) drv" where
  "check_errors R s =
     try_io (check_ack_error R s) (\<lambda>s _.
     try_io (check_arbitration_error R s) (\<lambda>s _. check_bus_error R s))"

subsection \<open>Waiting\<close>

definition sub_u32 :: "profile \<Rightarrow> u32 \<Rightarrow> u32 \<Rightarrow> u32 run" where
  "sub_u32 p a b = (if p = CheckedBuild \<and> a < b then None else Some (a - b))"

definition mul_u32 :: "profile \<Rightarrow> u32 \<Rightarrow> u32 \<Rightarrow> u32 run" where
  "mul_u32 p a b = (if p = CheckedBuild \<and> 2 ^ 32 \<le> unat a * unat b then None else Some (a * b))"

partial_function (option) wait_loop ::
  "profile \<Rightarrow> 'w i2c_registers \<Rightarrow> u32 \<Rightarrow> bool \<Rightarrow> u32 \<Rightarrow> u32 \<Rightarrow> i2c_bus \<times> 'w \<Rightarrow> ('w, unit) drv option" where
  "wait_loop p R flag st start timeout_ticks s = (case check_errors R s of
     (s, Inl e) \<Rightarrow> Some (s, Inl e)
   | ((b, w), Inr _) \<Rightarrow>
       (let (sr1, w) = rd_sr1 R w in
        if (sr1 AND flag \<noteq> 0) = st then Some ((b, w), Inr ())
        else
          (let (now, w) = tick_count R w in
           case sub_u32 p now start of
             None \<Rightarrow> None
           | Some elapsed \<Rightarrow>
               if elapsed \<ge> timeout_ticks then Some ((b\<lparr>state := Error\<rparr>, w), Inl Timeout)
               else wait_loop p R flag st start timeout_ticks (b, w))))"

definition wait_flag ::
  "profile \<Rightarrow> 'w i2c_registers \<Rightarrow> u32 \<Rightarrow> bool \<Rightarrow> i2c_bus \<times> 'w \<Rightarrow> ('w, unit) drv option" where
  "wait_flag p R flag st s = do {
     let (b, w) = s;
     let (start, w) = tick_count R w;
     timeout_ticks \<leftarrow> mul_u32 p (timeout_ms b) 1000;
     wait_loop p R flag st start timeout_ticks (b, w)
   }"

definition is_busy :: "'w i2c_registers \<Rightarrow> 'w \<Rightarrow> bool \<times> 'w" where
  "is_busy R w = (let (sr2, w) = rd_sr2 R w in (sr2 AND push_bit 1 1 \<noteq> 0, w))"

subsection \<open>Conditions and the address\<close>

definition start :: "profile \<Rightarrow> 'w i2c_registers \<Rightarrow> i2c_bus \<times> 'w \<Rightarrow> ('w, unit) drv option" where
  "start p R s =
     (let (b, w) = s; (busy, w) = is_busy R w in
      if busy then Some ((b, w), Inl Busy)
      else
        try_run (wait_flag p R (flag_u32 StartBit) True (b, update_cr1 R (\<lambda>v. v OR CR1_START) w))
          (\<lambda>s _. Some (s, Inr ())))"

definition stop :: "'w i2c_registers \<Rightarrow> i2c_bus \<times> 'w \<Rightarrow> i2c_bus \<times> 'w" where
  "stop R s = (let (b, w) = s in (b\<lparr>state := Idle\<rparr>, update_cr1 R (\<lambda>v. v OR CR1_STOP) w))"

text \<open>\<open>map_err\<close> with a closure that generates a STOP for the errors it applies to.\<close>

definition stop_on_err ::
  "'w i2c_registers \<Rightarrow> (i2c_error \<Rightarrow> bool) \<Rightarrow> ('w, 'a) drv option \<Rightarrow> ('w, 'a) drv option" where
  "stop_on_err R applies r = (case r of
     Some (s, Inl e) \<Rightarrow> Some (if applies e then stop R s else s, Inl e)
   | _ \<Rightarrow> r)"

definition send_address ::
  "profile \<Rightarrow> 'w i2c_registers \<Rightarrow> u8 \<Rightarrow> bool \<Rightarrow> i2c_bus \<times> 'w \<Rightarrow> ('w, unit) drv option" where
  "send_address p R address rd s =
     (let (b, w) = s;
          addr_byte = push_bit 1 address OR (if rd then 1 else 0);
          w = wr_dr R (ucast addr_byte) w in
      try_run (stop_on_err R (\<lambda>e. e = Timeout \<or> e = Nack)
                 (wait_flag p R (flag_u32 AddressSent) True (b, w)))
        (\<lambda>(b, w) _.
          let (_, w) = rd_sr1 R w; (_, w) = rd_sr2 R w in Some ((b, w), Inr ())))"

subsection \<open>Transfers\<close>

primrec write_data :: "profile \<Rightarrow> 'w i2c_registers \<Rightarrow> bytes \<Rightarrow> i2c_bus \<times> 'w \<Rightarrow> ('w, unit) drv option" where
  "write_data p R [] s = Some (s, Inr ())"
| "write_data p R (byte # rest) s =
     try_run (stop_on_err R (\<lambda>_. True) (wait_flag p R (flag_u32 TxEmpty) True s)) (\<lambda>(b, w) _.
     try_run (Some (check_ack_error R (b, wr_dr R (ucast byte) w))) (\<lambda>s _.
       write_data p R rest s))"

definition write_i2c ::
  "profile \<Rightarrow> 'w i2c_registers \<Rightarrow> u8 \<Rightarrow> bytes \<Rightarrow> i2c_bus \<times> 'w \<Rightarrow> ('w, unit) drv option" where
  "write_i2c p R address data s =
     (if data = [] then Some (s, Inl InvalidParam)
      else
        (let (b, w) = s in
         try_run (start p R (b\<lparr>state := Transmit\<rparr>, w)) (\<lambda>s _.
         try_run (send_address p R address False s) (\<lambda>s _.
         try_run (write_data p R data s) (\<lambda>s _.
         try_run (wait_flag p R (flag_u32 ByteTransferFinished) True s) (\<lambda>s _.
           Some (stop R s, Inr ())))))))"

text \<open>
  Reading fills the caller's buffer, which keeps what was read before an error: it is the first
  component of the state. \<open>i\<close> counts up to the length of the buffer.
\<close>

type_synonym ('w, 'a) rd_drv = "(bytes \<times> i2c_bus \<times> 'w, i2c_error, 'a) io"

definition with_buffer :: "bytes \<Rightarrow> ('w, 'a) drv option \<Rightarrow> ('w, 'a) rd_drv option" where
  "with_buffer buf r = map_option (\<lambda>(s, res). ((buf, s), res)) r"

definition last_byte :: "'w i2c_registers \<Rightarrow> nat \<Rightarrow> nat \<Rightarrow> 'w \<Rightarrow> 'w" where
  "last_byte R i len w =
     (if i = len - 1 then
        update_cr1 R (\<lambda>v. v OR CR1_STOP) (update_cr1 R (\<lambda>v. v AND NOT CR1_ACK) w)
      else w)"

primrec read_data ::
  "profile \<Rightarrow> 'w i2c_registers \<Rightarrow> bool \<Rightarrow> nat list \<Rightarrow> bytes \<times> i2c_bus \<times> 'w \<Rightarrow> ('w, unit) rd_drv option" where
  "read_data p R stops [] s = Some (s, Inr ())"
| "read_data p R stops (i # is) s =
     (let (buf, b, w) = s;
          w = last_byte R i (length buf) w;
          r = wait_flag p R (flag_u32 RxNotEmpty) True (b, w) in
      try_run (with_buffer buf (if stops then stop_on_err R (\<lambda>_. True) r else r)) (\<lambda>(buf, b, w) _.
        let (dr, w) = rd_dr R w in read_data p R stops is (buf[i := ucast dr], b, w)))"

definition read_i2c ::
  "profile \<Rightarrow> 'w i2c_registers \<Rightarrow> u8 \<Rightarrow> bytes \<times> i2c_bus \<times> 'w \<Rightarrow> ('w, unit) rd_drv option" where
  "read_i2c p R address s =
     (let (buf, b, w) = s in
      if buf = [] then Some (s, Inl InvalidParam)
      else
        (let b = b\<lparr>state := Receive\<rparr>; w = update_cr1 R (\<lambda>v. v OR CR1_ACK) w in
         try_run (with_buffer buf (start p R (b, w))) (\<lambda>(buf, s) _.
         try_run (with_buffer buf (send_address p R address True s)) (\<lambda>(buf, s) _.
         try_run (read_data p R True [0..<length buf] (buf, s)) (\<lambda>(buf, b, w) _.
           Some ((buf, b\<lparr>state := Idle\<rparr>, w), Inr ()))))))"

primrec write_phase :: "profile \<Rightarrow> 'w i2c_registers \<Rightarrow> bytes \<Rightarrow> i2c_bus \<times> 'w \<Rightarrow> ('w, unit) drv option" where
  "write_phase p R [] s = Some (s, Inr ())"
| "write_phase p R (byte # rest) s =
     try_run (wait_flag p R (flag_u32 TxEmpty) True s) (\<lambda>(b, w) _.
     try_run (Some (check_ack_error R (b, wr_dr R (ucast byte) w))) (\<lambda>s _.
       write_phase p R rest s))"

definition write_read ::
  "profile \<Rightarrow> 'w i2c_registers \<Rightarrow> u8 \<Rightarrow> bytes \<Rightarrow> bytes \<times> i2c_bus \<times> 'w \<Rightarrow> ('w, unit) rd_drv option" where
  "write_read p R address out s =
     (let (buf, bw) = s in
      if out = [] \<or> buf = [] then Some (s, Inl InvalidParam)
      else
        try_run (with_buffer buf (start p R bw)) (\<lambda>(buf, s) _.
        try_run (with_buffer buf (send_address p R address False s)) (\<lambda>(buf, s) _.
        try_run (with_buffer buf (write_phase p R out s)) (\<lambda>(buf, s) _.
        try_run (with_buffer buf (wait_flag p R (flag_u32 ByteTransferFinished) True s)) (\<lambda>(buf, s) _.
        try_run (with_buffer buf (start p R s)) (\<lambda>(buf, s) _.
        try_run (with_buffer buf (send_address p R address True s)) (\<lambda>(buf, s) _.
        try_run (read_data p R False [0..<length buf] (buf, s)) (\<lambda>(buf, b, w) _.
          Some ((buf, b\<lparr>state := Idle\<rparr>, w), Inr ())))))))))"

definition recover :: "'w i2c_registers \<Rightarrow> i2c_bus \<times> 'w \<Rightarrow> ('w, unit) drv" where
  "recover R s =
     (let (b, w) = s;
          w = update_cr1 R (\<lambda>v. v AND NOT CR1_PE) w;
          w = ((delay_us R 5) ^^ 9) w;
          w = update_cr1 R (\<lambda>v. v OR CR1_PE) w
      in ((b\<lparr>state := Idle\<rparr>, w), Inr ()))"

subsection \<open>A peripheral\<close>

text \<open>
  The reference peripheral: the status register, the ticks and the received bytes are arbitrary
  sequences, read one by one. Writing START to the control register makes the bus busy, writing
  STOP frees it, and both bits read back as 0. The bytes written to the data register are kept.
\<close>

record periph =
  sr1_reads :: "nat \<Rightarrow> u32"
  sr1_n :: nat
  ticks :: "nat \<Rightarrow> u32"
  tick_n :: nat
  dr_in :: "nat \<Rightarrow> u32"
  dr_n :: nat
  cr1 :: u32
  bus_busy :: bool
  dr_out :: "u32 list"

definition set_cr1 :: "u32 \<Rightarrow> periph \<Rightarrow> periph" where
  "set_cr1 v w = w\<lparr>cr1 := v,
     bus_busy := (if v AND CR1_STOP \<noteq> 0 then False else if v AND CR1_START \<noteq> 0 then True else bus_busy w)\<rparr>"

definition periph_regs :: "periph i2c_registers" where
  "periph_regs = \<lparr>
     rd_cr1 = (\<lambda>w. (cr1 w AND NOT (CR1_START OR CR1_STOP), w)), wr_cr1 = set_cr1,
     rd_sr1 = (\<lambda>w. (sr1_reads w (sr1_n w), w\<lparr>sr1_n := Suc (sr1_n w)\<rparr>)), wr_sr1 = (\<lambda>_ w. w),
     rd_sr2 = (\<lambda>w. (if bus_busy w then 2 else 0, w)),
     rd_dr = (\<lambda>w. (dr_in w (dr_n w), w\<lparr>dr_n := Suc (dr_n w)\<rparr>)),
     wr_dr = (\<lambda>v w. w\<lparr>dr_out := dr_out w @ [v]\<rparr>),
     tick_count = (\<lambda>w. (ticks w (tick_n w), w\<lparr>tick_n := Suc (tick_n w)\<rparr>)),
     delay_us = (\<lambda>_ w. w)\<rparr>"

lemma periph_regs_simps [simp]:
  "rd_cr1 periph_regs w = (cr1 w AND NOT (CR1_START OR CR1_STOP), w)" "wr_cr1 periph_regs = set_cr1"
  "rd_sr1 periph_regs w = (sr1_reads w (sr1_n w), w\<lparr>sr1_n := Suc (sr1_n w)\<rparr>)"
  "wr_sr1 periph_regs v w = w" "rd_sr2 periph_regs w = (if bus_busy w then 2 else 0, w)"
  "rd_dr periph_regs w = (dr_in w (dr_n w), w\<lparr>dr_n := Suc (dr_n w)\<rparr>)"
  "wr_dr periph_regs v w = w\<lparr>dr_out := dr_out w @ [v]\<rparr>"
  "tick_count periph_regs w = (ticks w (tick_n w), w\<lparr>tick_n := Suc (tick_n w)\<rparr>)"
  by (simp_all add: periph_regs_def)

lemma is_busy_periph [simp]: "is_busy periph_regs w = (bus_busy w, w)"
  by (simp add: is_busy_def)

text \<open>\<open>untouched w w'\<close>: nothing but the position in the sequences has changed.\<close>

definition untouched :: "periph \<Rightarrow> periph \<Rightarrow> bool" where
  "untouched w w' \<longleftrightarrow> (\<exists>i j k. w' = w\<lparr>sr1_n := i, tick_n := j, dr_n := k\<rparr>)"

lemma untouched_refl [simp]: "untouched w w"
  unfolding untouched_def by (rule exI [of _ "sr1_n w"], rule exI [of _ "tick_n w"], rule exI [of _ "dr_n w"]) simp

lemma untouched_trans: "untouched w v \<Longrightarrow> untouched v u \<Longrightarrow> untouched w u"
  unfolding untouched_def by fastforce

lemma untouched_reads [simp]:
  "untouched w (v\<lparr>sr1_n := i\<rparr>) \<longleftrightarrow> untouched w v" "untouched w (v\<lparr>tick_n := i\<rparr>) \<longleftrightarrow> untouched w v"
  "untouched w (v\<lparr>dr_n := i\<rparr>) \<longleftrightarrow> untouched w v"
proof -
  have v: "v = (v\<lparr>sr1_n := i\<rparr>)\<lparr>sr1_n := sr1_n v\<rparr>" "v = (v\<lparr>tick_n := i\<rparr>)\<lparr>tick_n := tick_n v\<rparr>"
    "v = (v\<lparr>dr_n := i\<rparr>)\<lparr>dr_n := dr_n v\<rparr>" by simp_all
  have keep: "untouched x (x\<lparr>sr1_n := k\<rparr>)" "untouched x (x\<lparr>tick_n := k\<rparr>)" "untouched x (x\<lparr>dr_n := k\<rparr>)" for x k
    unfolding untouched_def by (cases x; simp)+
  show "untouched w (v\<lparr>sr1_n := i\<rparr>) \<longleftrightarrow> untouched w v" "untouched w (v\<lparr>tick_n := i\<rparr>) \<longleftrightarrow> untouched w v"
    "untouched w (v\<lparr>dr_n := i\<rparr>) \<longleftrightarrow> untouched w v"
    by (metis v(1) keep(1) untouched_trans, metis v(2) keep(2) untouched_trans, metis v(3) keep(3) untouched_trans)
qed

lemma untouched_fields:
  assumes "untouched w w'"
  shows "bus_busy w' = bus_busy w" "dr_out w' = dr_out w" "cr1 w' = cr1 w"
  using assms by (auto simp: untouched_def)

text \<open>How the checks and the wait end: with everything as it was, or with an error.\<close>

fun wait_post :: "i2c_bus \<times> periph \<Rightarrow> (periph, unit) drv \<Rightarrow> bool" where
  "wait_post (b, w) ((b', w'), Inr _) \<longleftrightarrow> b' = b \<and> untouched w w'"
| "wait_post (b, w) ((b', w'), Inl e) \<longleftrightarrow> b' = b\<lparr>state := Error\<rparr> \<and> dr_out w' = dr_out w \<and>
     e \<in> {Nack, ArbitrationLost, BusError, Timeout}"

lemma wait_post_trans:
  "wait_post s (s', Inr ()) \<Longrightarrow> wait_post s' r \<Longrightarrow> wait_post s r"
  by (cases s; cases s'; cases r; cases "snd r"; cases "fst r")
     (auto dest: untouched_trans untouched_fields)

lemma set_cr1_dr [simp]: "dr_out (set_cr1 v w) = dr_out w"
  by (simp add: set_cr1_def)

lemma check_ack_post: "wait_post s (check_ack_error periph_regs s)"
  by (cases s) (simp add: check_ack_error_def update_sr1_def update_cr1_def)

lemma check_errors_post: "wait_post s (check_errors periph_regs s)"
proof -
  have arb: "wait_post s (check_arbitration_error periph_regs s)" for s
    by (cases s) (simp add: check_arbitration_error_def update_sr1_def)
  have bus: "wait_post s (check_bus_error periph_regs s)" for s
    by (cases s) (simp add: check_bus_error_def update_sr1_def)
  have seq: "wait_post s r \<Longrightarrow> (\<And>s'. wait_post s' (k s' ())) \<Longrightarrow> wait_post s (try_io r k)" for s r k
    by (cases r; cases "snd r") (auto intro: wait_post_trans)
  show ?thesis unfolding check_errors_def by (intro seq check_ack_post arb bus)
qed

lemma wait_loop_post:
  "wait_loop p R flag st since to s = Some r \<Longrightarrow> R = periph_regs \<longrightarrow> wait_post s r"
proof (induction rule: wait_loop.raw_induct [rotated, consumes 1, case_names loop])
  case (loop rec p R flag st since to s r)
  show ?case
  proof
    assume R: "R = periph_regs"
    obtain b w res where c: "check_errors R s = ((b, w), res)" by (metis surj_pair)
    have post: "wait_post s ((b, w), res)" using check_errors_post [of s] R c by simp
    show "wait_post s r"
    proof (cases res)
      case (Inl e)
      then show ?thesis using loop(2) c post by simp
    next
      case (Inr u)
      let ?w = "w\<lparr>sr1_n := Suc (sr1_n w), tick_n := Suc (tick_n w)\<rparr>"
      have here: "wait_post s ((b, w\<lparr>sr1_n := Suc (sr1_n w)\<rparr>), Inr ())" "wait_post s ((b, ?w), Inr ())"
        using post Inr by (cases s; simp)+
      have err: "wait_post s ((b\<lparr>state := Error\<rparr>, ?w), Inl Timeout)"
        using here(2) by (cases s) (auto dest: untouched_fields)
      have again: "wait_post s r" if "rec p periph_regs flag st since to (b, ?w) = Some r"
        using loop(1) [OF that] by (intro wait_post_trans [OF here(2)]) simp
      show ?thesis
        using loop(2) c Inr R here err again by (auto split: if_splits option.splits)
    qed
  qed
qed

lemma wait_flag_post:
  assumes "wait_flag p periph_regs flag st s = Some r"
  shows "wait_post s r"
proof -
  obtain b w where s: "s = (b, w)" by (cases s)
  obtain to where "wait_loop p periph_regs flag st (ticks w (tick_n w)) to (b, w\<lparr>tick_n := Suc (tick_n w)\<rparr>) = Some r"
    using assms by (auto simp: wait_flag_def s split: bind_splits)
  from wait_loop_post [OF this] show ?thesis
    unfolding s by (cases r; cases "snd r"; cases "fst r") (auto simp: untouched_def)
qed

subsection \<open>Busy and free\<close>

lemma cr1_bits:
  "x AND CR1_START = 0 \<longleftrightarrow> \<not> bit x 8" "x AND CR1_STOP = 0 \<longleftrightarrow> \<not> bit x 9"
  "bit CR1_START n \<longleftrightarrow> n = 8" "bit CR1_STOP n \<longleftrightarrow> n = 9" "CR1_START \<noteq> 0" "CR1_STOP \<noteq> 0"
proof -
  show "bit CR1_START n \<longleftrightarrow> n = 8" "bit CR1_STOP n \<longleftrightarrow> n = 9"
    unfolding CR1_START_def CR1_STOP_def push_bit_of_1 bit_exp_iff by auto
  show "x AND CR1_START = 0 \<longleftrightarrow> \<not> bit x 8" "x AND CR1_STOP = 0 \<longleftrightarrow> \<not> bit x 9"
    unfolding CR1_START_def CR1_STOP_def push_bit_of_1 by (rule and_exp_eq_0_iff_not_bit)+
  show "CR1_START \<noteq> 0" "CR1_STOP \<noteq> 0" by (simp_all add: CR1_START_def CR1_STOP_def)
qed

lemma start_makes_busy [simp]: "bus_busy (update_cr1 periph_regs (\<lambda>v. v OR CR1_START) w)"
  by (simp add: update_cr1_def set_cr1_def cr1_bits bit_or_iff bit_and_iff bit_not_iff)

lemma stop_frees [simp]: "\<not> bus_busy (update_cr1 periph_regs (\<lambda>v. v OR CR1_STOP) w)"
  by (simp add: update_cr1_def set_cr1_def cr1_bits bit_or_iff bit_and_iff bit_not_iff)

lemma update_cr1_dr [simp]: "dr_out (update_cr1 periph_regs f w) = dr_out w"
  by (simp add: update_cr1_def)

lemma start_busy:
  "bus_busy w \<Longrightarrow> start p periph_regs (b, w) = Some ((b, w), Inl Busy)"
  by (simp add: start_def)

lemma wait_post_Inr: "wait_post s (s', Inr u) \<longleftrightarrow> fst s' = fst s \<and> untouched (snd s) (snd s')"
  by (cases s; cases s') auto

lemma wait_post_Inl:
  "wait_post s (s', Inl e) \<longleftrightarrow> fst s' = (fst s)\<lparr>state := Error\<rparr> \<and> dr_out (snd s') = dr_out (snd s) \<and>
     e \<in> {Nack, ArbitrationLost, BusError, Timeout}"
  by (cases s; cases s') auto

lemma start_ok:
  assumes "start p periph_regs s = Some (s', Inr u)"
  shows "fst s' = fst s \<and> bus_busy (snd s') \<and> dr_out (snd s') = dr_out (snd s)"
proof -
  obtain b w where s: "s = (b, w)" by (cases s)
  let ?w = "update_cr1 periph_regs (\<lambda>v. v OR CR1_START) w"
  have "wait_flag p periph_regs (flag_u32 StartBit) True (b, ?w) = Some (s', Inr ())"
    using assms by (auto simp: s start_def try_run_Inr_iff split: if_splits)
  from wait_flag_post [OF this] have "fst s' = b" "untouched ?w (snd s')" by (simp_all add: wait_post_Inr)
  then show ?thesis using untouched_fields [of ?w "snd s'"] by (simp add: s)
qed

subsection \<open>What reaches the data register\<close>

text \<open>
  \<open>outcome out s (s', r)\<close>: a prefix of \<open>out\<close> went to the data register; on success all of it did
  and driver and bus are as before, on an error the driver is idle or in its error state.
\<close>

fun outcome :: "u32 list \<Rightarrow> i2c_bus \<times> periph \<Rightarrow> (periph, 'a) drv \<Rightarrow> bool" where
  "outcome out s (s', Inr _) \<longleftrightarrow> dr_out (snd s') = dr_out (snd s) @ out \<and> fst s' = fst s \<and>
     bus_busy (snd s') = bus_busy (snd s)"
| "outcome out s (s', Inl e) \<longleftrightarrow> (\<exists>sent. prefix sent out \<and> dr_out (snd s') = dr_out (snd s) @ sent) \<and>
     state (fst s') \<in> {Idle, Error} \<and> e \<notin> {Busy, InvalidParam}"

lemma outcome_trans:
  "outcome xs s (s1, Inr u) \<Longrightarrow> outcome ys s1 r \<Longrightarrow> outcome (xs @ ys) s r"
  by (cases r; cases "snd r") (auto intro: same_prefix_prefix [THEN iffD2])

lemma outcome_stops: "outcome xs s (s1, Inl e) \<Longrightarrow> outcome (xs @ ys) s (s1, Inl e)"
  by auto

lemma try_run_outcome:
  assumes "\<And>r. m = Some r \<Longrightarrow> outcome xs s r" "\<And>s1 u r. k s1 u = Some r \<Longrightarrow> outcome ys s1 r"
    "try_run m k = Some r"
  shows "outcome (xs @ ys) s r"
proof -
  obtain s' res where r: "r = (s', res)" by (cases r)
  show ?thesis
  proof (cases res)
    case (Inl e)
    then consider "m = Some (s', Inl e)" | s1 u where "m = Some (s1, Inr u)" "k s1 u = Some (s', Inl e)"
      using assms(3) by (auto simp: r try_run_Inl_iff)
    then show ?thesis
    proof cases
      case 1
      show ?thesis unfolding r Inl by (rule outcome_stops [OF assms(1) [OF 1]])
    next
      case 2
      then show ?thesis unfolding r Inl by (intro outcome_trans [OF assms(1) assms(2)])
    qed
  next
    case (Inr a)
    then obtain s1 u where "m = Some (s1, Inr u)" "k s1 u = Some (s', Inr a)"
      using assms(3) by (auto simp: r try_run_Inr_iff)
    then show ?thesis unfolding r Inr by (intro outcome_trans [OF assms(1) assms(2)])
  qed
qed

lemma wait_flag_outcome:
  assumes "wait_flag p periph_regs flag st s = Some r"
  shows "outcome [] s r"
  using wait_flag_post [OF assms]
  by (cases r; cases "snd r") (auto simp: wait_post_Inr wait_post_Inl dest: untouched_fields)

lemma stop_on_err_outcome:
  assumes "stop_on_err periph_regs f m = Some r" "\<And>r. m = Some r \<Longrightarrow> outcome xs s r"
  shows "outcome xs s r"
proof (cases m)
  case (Some sr)
  obtain s' res where sr: "sr = (s', res)" by (cases sr)
  have "outcome xs s (s', res)" using assms(2) Some sr by simp
  then show ?thesis using assms(1) Some sr
    by (cases res; cases s') (auto simp: stop_on_err_def stop_def split: if_splits)
qed (use assms in \<open>simp add: stop_on_err_def\<close>)

lemma wr_dr_outcome:
  "outcome [] (b, w\<lparr>dr_out := dr_out w @ [v]\<rparr>) r \<Longrightarrow> outcome [v] (b, w) r"
  by (cases r; cases "snd r") auto

lemma check_ack_outcome: "outcome [] s (check_ack_error periph_regs s)"
  using check_ack_post [of s]
  by (cases "check_ack_error periph_regs s"; cases "snd (check_ack_error periph_regs s)")
     (auto simp: wait_post_Inr wait_post_Inl dest: untouched_fields)

definition address_word :: "u8 \<Rightarrow> bool \<Rightarrow> u32" where
  "address_word address rd = ucast (push_bit 1 address OR (if rd then 1 else 0) :: u8)"

lemma send_address_outcome:
  assumes "send_address p periph_regs address rd s = Some r"
  shows "outcome [address_word address rd] s r"
proof -
  obtain b w where s: "s = (b, w)" by (cases s)
  let ?w = "w\<lparr>dr_out := dr_out w @ [address_word address rd]\<rparr>"
  let ?m = "stop_on_err periph_regs (\<lambda>e. e = Timeout \<or> e = Nack)
    (wait_flag p periph_regs (flag_u32 AddressSent) True (b, ?w))"
  let ?k = "\<lambda>(b, w) (_ :: unit). let (_, w) = rd_sr1 periph_regs w; (_, w) = rd_sr2 periph_regs w
    in Some ((b, w), Inr ())"
  have run: "try_run ?m ?k = Some r" using assms unfolding send_address_def s address_word_def by (simp add: Let_def)
  have "outcome ([] @ []) (b, ?w) r"
  proof (rule try_run_outcome [OF _ _ run])
    show "outcome [] (b, ?w) r" if "?m = Some r" for r
      using that by (rule stop_on_err_outcome) (rule wait_flag_outcome)
    show "outcome [] s1 r" if "?k s1 u = Some r" for s1 u r
      using that by (cases s1) auto
  qed
  then show ?thesis unfolding s by (intro wr_dr_outcome) simp
qed

lemma write_data_outcome:
  "write_data p periph_regs data s = Some r \<Longrightarrow> outcome (map ucast data) s r"
proof (induction data arbitrary: s r)
  case (Cons byte rest)
  let ?m = "stop_on_err periph_regs (\<lambda>_. True) (wait_flag p periph_regs (flag_u32 TxEmpty) True s)"
  let ?k = "\<lambda>(b, w) (_ :: unit). try_run (Some (check_ack_error periph_regs (b, wr_dr periph_regs (ucast byte) w)))
    (\<lambda>s _. write_data p periph_regs rest s)"
  have run: "try_run ?m ?k = Some r" using Cons.prems by simp
  have "outcome ([] @ map ucast (byte # rest)) s r"
  proof (rule try_run_outcome [OF _ _ run])
    show "outcome [] s r" if "?m = Some r" for r
      using that by (rule stop_on_err_outcome) (rule wait_flag_outcome)
    show "outcome (map ucast (byte # rest)) s1 r" if k: "?k s1 u = Some r" for s1 u r
    proof -
      obtain b w where s1: "s1 = (b, w)" by (cases s1)
      let ?c = "check_ack_error periph_regs (b, wr_dr periph_regs (ucast byte) w)"
      have "try_run (Some ?c) (\<lambda>s _. write_data p periph_regs rest s) = Some r" using k by (simp add: s1)
      then have "outcome ([ucast byte] @ map ucast rest) (b, w) r"
        by (rule try_run_outcome [rotated 2])
           (auto intro: Cons.IH intro!: wr_dr_outcome check_ack_outcome)
      then show ?thesis by (simp add: s1)
    qed
  qed
  then show ?case by simp
qed simp

lemma start_outcome:
  assumes "start p periph_regs (b, w) = Some (s', Inl e)" "\<not> bus_busy w"
  shows "outcome [] (b, w) (s', Inl e :: i2c_error + unit)"
proof -
  let ?w = "update_cr1 periph_regs (\<lambda>v. v OR CR1_START) w"
  have "wait_flag p periph_regs (flag_u32 StartBit) True (b, ?w) = Some (s', Inl e)"
    using assms by (auto simp: start_def try_run_Inl_iff)
  from wait_flag_outcome [OF this] show ?thesis by simp
qed

text \<open>What follows the START of a write.\<close>

definition after_start ::
  "profile \<Rightarrow> u8 \<Rightarrow> bytes \<Rightarrow> i2c_bus \<times> periph \<Rightarrow> (periph, unit) drv option" where
  "after_start p address data s =
     try_run (send_address p periph_regs address False s) (\<lambda>s _.
     try_run (write_data p periph_regs data s) (\<lambda>s _.
       wait_flag p periph_regs (flag_u32 ByteTransferFinished) True s))"

lemma after_start_outcome:
  assumes "after_start p address data s = Some r"
  shows "outcome (address_word address False # map ucast data) s r"
proof -
  have "outcome (map ucast data @ []) s r"
    if "try_run (write_data p periph_regs data s) (\<lambda>s _. wait_flag p periph_regs (flag_u32 ByteTransferFinished) True s) = Some r"
    for s r
    using that by (rule try_run_outcome [rotated 2]) (auto intro: write_data_outcome wait_flag_outcome)
  then have "outcome ([address_word address False] @ map ucast data) s r"
    using assms unfolding after_start_def
    by (intro try_run_outcome [OF send_address_outcome]) auto
  then show ?thesis by simp
qed

lemma write_i2c_unfold:
  assumes "data \<noteq> []"
  shows "write_i2c p periph_regs address data (b, w) =
    try_run (start p periph_regs (b\<lparr>state := Transmit\<rparr>, w)) (\<lambda>s _.
    try_run (after_start p address data s) (\<lambda>s _. Some (stop periph_regs s, Inr ())))"
proof -
  have assoc: "try_run (try_run m f) g = try_run m (\<lambda>s u. try_run (f s u) g)"
    for m :: "(periph, unit) drv option" and f g :: "i2c_bus \<times> periph \<Rightarrow> unit \<Rightarrow> (periph, unit) drv option"
    by (auto simp: try_run_def split: option.splits prod.splits sum.splits)
  show ?thesis using assms by (simp add: write_i2c_def after_start_def assoc)
qed

text \<open>
  C22. Whatever the status register shows, a write that returns accounts for the bytes: the data
  register received a prefix of the address byte and the data, all of it when the write reports
  success, and then the bus is free and the driver idle. On an error the driver is idle or in its
  error state, with one exception: on a busy bus it does nothing but stays in \<open>Transmit\<close>.
\<close>

theorem write_accounts_for_bytes:
  assumes "data \<noteq> []" "write_i2c p periph_regs address data (b, w) = Some ((b', w'), r)"
  shows "if bus_busy w then r = Inl Busy \<and> state b' = Transmit \<and> w' = w
    else (\<exists>sent. prefix sent (address_word address False # map ucast data) \<and> dr_out w' = dr_out w @ sent \<and>
            (if r = Inr () then sent = address_word address False # map ucast data \<and> \<not> bus_busy w' \<and> state b' = Idle
             else state b' \<in> {Idle, Error}))"
proof (cases "bus_busy w")
  case True
  then show ?thesis using assms by (auto simp: write_i2c_unfold start_busy)
next
  case False
  let ?b = "b\<lparr>state := Transmit\<rparr>"
  note run = assms(2) [unfolded write_i2c_unfold [OF assms(1)]]
  show ?thesis
  proof (cases r)
    case (Inl e)
    then consider "start p periph_regs (?b, w) = Some ((b', w'), Inl e)"
      | s where "start p periph_regs (?b, w) = Some (s, Inr ())"
          "after_start p address data s = Some ((b', w'), Inl e)"
      using run by (auto simp: try_run_Inl_iff)
    then show ?thesis
    proof cases
      case 1
      from start_outcome [OF this False] False Inl show ?thesis by auto
    next
      case 2
      from after_start_outcome [OF 2(2)] start_ok [OF 2(1)] False Inl show ?thesis by auto
    qed
  next
    case (Inr u)
    then obtain s s' where "start p periph_regs (?b, w) = Some (s, Inr ())"
      "after_start p address data s = Some (s', Inr ())" "(b', w') = stop periph_regs s'"
      using run by (auto simp: try_run_Inr_iff)
    then show ?thesis
      using after_start_outcome [of p address data s "(s', Inr ())"] start_ok [of p "(?b, w)" s] False Inr
      by (cases s') (auto simp: stop_def)
  qed
qed

subsection \<open>A healthy peripheral\<close>

text \<open>All events the driver waits for have happened, and no error is flagged.\<close>

definition healthy :: "periph \<Rightarrow> bool" where
  "healthy w \<longleftrightarrow> (\<forall>n. sr1_reads w n = 0xC7)"

definition awaited :: "status_flag \<Rightarrow> bool" where
  "awaited f \<longleftrightarrow> f \<in> {StartBit, AddressSent, ByteTransferFinished, TxEmpty, RxNotEmpty}"

lemma healthy_flags:
  "(0xC7 :: u32) AND flag_u32 AckFailureFlag = 0" "(0xC7 :: u32) AND flag_u32 ArbitrationLostFlag = 0"
  "(0xC7 :: u32) AND flag_u32 BusErrorFlag = 0" "awaited f \<Longrightarrow> (0xC7 :: u32) AND flag_u32 f \<noteq> 0"
  by (auto simp: flag_u32_def awaited_def)

lemma wait_flag_healthy:
  assumes "healthy w" "awaited f" "unat (timeout_ms b) * 1000 < 2 ^ 32"
  shows "wait_flag p periph_regs (flag_u32 f) True (b, w) =
    Some ((b, w\<lparr>sr1_n := sr1_n w + 4, tick_n := Suc (tick_n w)\<rparr>), Inr ())"
proof -
  have "mul_u32 p (timeout_ms b) 1000 = Some (timeout_ms b * 1000)" using assms(3) by (simp add: mul_u32_def)
  then show ?thesis
    using assms(1,2) unfolding wait_flag_def
    by (simp add: wait_loop.simps [of p periph_regs] check_errors_def check_ack_error_def
        check_arbitration_error_def check_bus_error_def healthy_def healthy_flags)
qed

definition fits :: "i2c_bus \<Rightarrow> bool" where
  "fits b \<longleftrightarrow> unat (timeout_ms b) * 1000 < 2 ^ 32"

lemma fits_state [simp]: "fits (b\<lparr>state := st\<rparr>) = fits b"
  by (simp add: fits_def)

lemma healthy_update [simp]: "healthy (update_cr1 periph_regs f w) = healthy w"
  by (simp add: update_cr1_def set_cr1_def healthy_def)

lemma update_cr1_reads [simp]: "sr1_reads (update_cr1 periph_regs f w) = sr1_reads w"
  by (simp add: update_cr1_def set_cr1_def)

lemma start_healthy:
  assumes "healthy w" "fits b" "\<not> bus_busy w"
  shows "\<exists>w'. start p periph_regs (b, w) = Some ((b, w'), Inr ()) \<and> healthy w' \<and> bus_busy w'"
proof -
  have "healthy (update_cr1 periph_regs (\<lambda>v. v OR CR1_START) w)" using assms(1) by simp
  from wait_flag_healthy [OF this, of StartBit b p] show ?thesis
    using assms by (simp add: start_def awaited_def fits_def healthy_def)
qed

lemma send_address_healthy:
  assumes "healthy w" "fits b"
  shows "\<exists>w'. send_address p periph_regs address rd (b, w) = Some ((b, w'), Inr ()) \<and> healthy w' \<and>
    bus_busy w' = bus_busy w"
proof -
  let ?v = "ucast (push_bit 1 address OR (if rd then 1 else 0) :: u8) :: u32"
  have "healthy (w\<lparr>dr_out := dr_out w @ [?v]\<rparr>)" using assms(1) by (simp add: healthy_def)
  from wait_flag_healthy [OF this, of AddressSent b p] show ?thesis
    using assms by (simp add: send_address_def awaited_def fits_def healthy_def stop_on_err_def Let_def)
qed

lemma check_ack_healthy:
  "healthy w \<Longrightarrow> check_ack_error periph_regs (b, w) = ((b, w\<lparr>sr1_n := Suc (sr1_n w)\<rparr>), Inr ())"
  by (simp add: check_ack_error_def healthy_def healthy_flags)

lemma write_phase_healthy:
  "healthy w \<Longrightarrow> fits b \<Longrightarrow> \<exists>w'. write_phase p periph_regs data (b, w) = Some ((b, w'), Inr ()) \<and>
     write_data p periph_regs data (b, w) = Some ((b, w'), Inr ()) \<and> healthy w' \<and> bus_busy w' = bus_busy w"
proof (induction data arbitrary: w)
  case (Cons byte rest)
  let ?w = "w\<lparr>tick_n := Suc (tick_n w), dr_out := dr_out w @ [ucast byte], sr1_n := Suc (sr1_n w + 4)\<rparr>"
  have h: "healthy ?w" using Cons.prems(1) by (simp add: healthy_def)
  have "wait_flag p periph_regs (flag_u32 TxEmpty) True (b, w) =
      Some ((b, w\<lparr>sr1_n := sr1_n w + 4, tick_n := Suc (tick_n w)\<rparr>), Inr ())"
    using wait_flag_healthy [of w TxEmpty b p] Cons.prems by (simp add: awaited_def fits_def)
  then have "write_phase p periph_regs (byte # rest) (b, w) = write_phase p periph_regs rest (b, ?w)"
    "write_data p periph_regs (byte # rest) (b, w) = write_data p periph_regs rest (b, ?w)"
    using Cons.prems(1) by (simp_all add: check_ack_healthy healthy_def stop_on_err_def)
  then show ?case using Cons.IH [OF h Cons.prems(2)] by simp
qed simp

lemma with_buffer_Some [simp]: "with_buffer buf (Some (s, r)) = Some ((buf, s), r)"
  by (simp add: with_buffer_def)

lemma healthy_phases:
  assumes "healthy w" "\<not> bus_busy w" "fits b"
    "ph = write_phase p periph_regs out \<or> ph = write_data p periph_regs out"
  shows "\<exists>w1 w2 w3 w'. start p periph_regs (b, w) = Some ((b, w1), Inr ()) \<and>
    send_address p periph_regs address False (b, w1) = Some ((b, w2), Inr ()) \<and>
    ph (b, w2) = Some ((b, w3), Inr ()) \<and>
    wait_flag p periph_regs (flag_u32 ByteTransferFinished) True (b, w3) = Some ((b, w'), Inr ()) \<and> bus_busy w'"
proof -
  obtain w1 where w1: "start p periph_regs (b, w) = Some ((b, w1), Inr ())" "healthy w1" "bus_busy w1"
    using start_healthy [OF assms(1,3,2)] by blast
  obtain w2 where w2: "send_address p periph_regs address False (b, w1) = Some ((b, w2), Inr ())"
    "healthy w2" "bus_busy w2" using send_address_healthy [OF w1(2) assms(3)] w1(3) by blast
  obtain w3 where w3: "ph (b, w2) = Some ((b, w3), Inr ())" "healthy w3" "bus_busy w3"
    using write_phase_healthy [OF w2(2) assms(3), of p out] w2(3) assms(4) by auto
  have "wait_flag p periph_regs (flag_u32 ByteTransferFinished) True (b, w3) =
      Some ((b, w3\<lparr>sr1_n := sr1_n w3 + 4, tick_n := Suc (tick_n w3)\<rparr>), Inr ())"
    using wait_flag_healthy [OF w3(2), of ByteTransferFinished b p] assms(3) by (simp add: awaited_def fits_def)
  then show ?thesis using w1 w2 w3 by simp
qed

lemma write_healthy:
  assumes "healthy w" "\<not> bus_busy w" "fits b" "out \<noteq> []"
  shows "\<exists>w'. write_i2c p periph_regs address out (b, w) = Some ((b\<lparr>state := Idle\<rparr>, w'), Inr ())"
  using healthy_phases [of w "b\<lparr>state := Transmit\<rparr>" "write_data p periph_regs out" p out address] assms
  by (auto simp: write_i2c_def stop_def)

definition example_periph :: periph where
  "example_periph = \<lparr>sr1_reads = (\<lambda>_. 0xC7), sr1_n = 0, ticks = (\<lambda>_. get_tick_count), tick_n = 0,
     dr_in = (\<lambda>_. 0), dr_n = 0, cr1 = 0, bus_busy = False, dr_out = []\<rparr>"

theorem write_accounts_for_bytes_witness:
  "\<exists>b w'. write_i2c CheckedBuild periph_regs 0x50 [0xAA] (i2c_bus_new 100, example_periph) = Some ((b, w'), Inr ()) \<and>
     dr_out w' = [0xA0, 0xAA] \<and> state b = Idle"
proof -
  have "fits (i2c_bus_new 100)" by (simp add: fits_def i2c_bus_new_def)
  then obtain w' where w': "write_i2c CheckedBuild periph_regs 0x50 [0xAA] (i2c_bus_new 100, example_periph) =
      Some (((i2c_bus_new 100)\<lparr>state := Idle\<rparr>, w'), Inr ())"
    using write_healthy [of example_periph "i2c_bus_new 100" "[0xAA]" CheckedBuild "0x50"]
    by (auto simp: healthy_def example_periph_def)
  from write_accounts_for_bytes [OF _ this] w' show ?thesis
    by (auto simp: example_periph_def address_word_def)
qed

text \<open>
  Combined transactions do not work. On a healthy peripheral that reports the bus busy
  between START and STOP a plain write succeeds, but a write followed by a read always fails
  with \<open>Busy\<close>: the repeated START is refused because of the driver's own transaction, and the
  bus is left busy.
\<close>

theorem write_read_always_busy:
  assumes "healthy w" "\<not> bus_busy w" "unat (timeout_ms b) * 1000 < 2 ^ 32" "out \<noteq> []" "buf \<noteq> []"
  shows "\<exists>w' w''. write_i2c p periph_regs address out (b, w) = Some ((b\<lparr>state := Idle\<rparr>, w'), Inr ()) \<and>
    write_read p periph_regs address out (buf, b, w) = Some ((buf, b, w''), Inl Busy) \<and> bus_busy w''"
proof -
  have fits: "fits b" using assms(3) by (simp add: fits_def)
  obtain w'' where "write_read p periph_regs address out (buf, b, w) = Some ((buf, b, w''), Inl Busy)"
      "bus_busy w''"
    using healthy_phases [OF assms(1,2) fits, of "write_phase p periph_regs out" p out address] assms(4,5)
    by (auto simp: write_read_def start_busy)
  then show ?thesis using write_healthy [OF assms(1,2) fits assms(4), of p address] by blast
qed

theorem write_read_always_busy_witness:
  "\<exists>w''. write_read CheckedBuild periph_regs 0x68 [0x75] ([0], i2c_bus_new 100, example_periph) =
     Some (([0], i2c_bus_new 100, w''), Inl Busy)"
  using write_read_always_busy [of example_periph "i2c_bus_new 100" "[0x75]" "[0]" CheckedBuild "0x68"]
  by (auto simp: healthy_def example_periph_def i2c_bus_new_def)

subsection \<open>When waiting ends\<close>

text \<open>The status of one round of the loop, which reads the register four times from \<open>n\<close> on.\<close>

definition settled :: "u32 \<Rightarrow> bool \<Rightarrow> (nat \<Rightarrow> u32) \<Rightarrow> nat \<Rightarrow> bool" where
  "settled flag st reads n \<longleftrightarrow> reads n AND flag_u32 AckFailureFlag \<noteq> 0 \<or>
     reads (n + 1) AND flag_u32 ArbitrationLostFlag \<noteq> 0 \<or> reads (n + 2) AND flag_u32 BusErrorFlag \<noteq> 0 \<or>
     (reads (n + 3) AND flag \<noteq> 0) = st"

lemma wait_round_settled:
  assumes "settled flag st (sr1_reads w) (sr1_n w)"
  shows "wait_loop p periph_regs flag st since to (b, w) \<noteq> None"
  using assms
  by (subst wait_loop.simps)
     (auto simp: settled_def check_errors_def check_ack_error_def check_arbitration_error_def
        check_bus_error_def Let_def numeral_2_eq_2 numeral_3_eq_3)

lemma wait_round_open:
  assumes "\<not> settled flag st (sr1_reads w) (sr1_n w)"
  shows "check_errors periph_regs (b, w) = ((b, w\<lparr>sr1_n := sr1_n w + 3\<rparr>), Inr ()) \<and>
    ((sr1_reads w (sr1_n w + 3) AND flag \<noteq> 0) = st) = False"
  using assms
  by (simp add: settled_def check_errors_def check_ack_error_def check_arbitration_error_def
      check_bus_error_def numeral_2_eq_2 numeral_3_eq_3)

lemma wait_loop_open:
  assumes "\<not> settled flag st (sr1_reads w) (sr1_n w)"
  shows "wait_loop ReleaseBuild periph_regs flag st since to (b, w) =
    (if ticks w (tick_n w) - since \<ge> to
     then Some ((b\<lparr>state := Error\<rparr>, w\<lparr>sr1_n := sr1_n w + 4, tick_n := Suc (tick_n w)\<rparr>), Inl Timeout)
     else wait_loop ReleaseBuild periph_regs flag st since to (b, w\<lparr>sr1_n := sr1_n w + 4, tick_n := Suc (tick_n w)\<rparr>))"
  using wait_round_open [OF assms, of b]
  by (subst wait_loop.simps) (simp add: sub_u32_def add.commute)

lemma wait_loop_ends:
  "settled flag st (sr1_reads w) (sr1_n w + 4 * k) \<or> ticks w (tick_n w + k) - since \<ge> to \<Longrightarrow>
   wait_loop ReleaseBuild periph_regs flag st since to (b, w) \<noteq> None"
proof (induction k arbitrary: w)
  case 0
  then show ?case using wait_round_settled [of flag st w]
      wait_loop_open [where flag = flag and st = st and w = w and since = since and to = to and b = b] by fastforce
next
  case (Suc k)
  show ?case
  proof (cases "settled flag st (sr1_reads w) (sr1_n w)")
    case True
    then show ?thesis by (rule wait_round_settled)
  next
    case False
    then show ?thesis
      using wait_loop_open [OF False, of since to b] Suc.prems
        Suc.IH [of "w\<lparr>sr1_n := sr1_n w + 4, tick_n := Suc (tick_n w)\<rparr>"]
      by (simp add: add.commute add.left_commute)
  qed
qed

lemma wait_loop_ends_only:
  "wait_loop p R flag st since to s = Some r \<Longrightarrow> p = ReleaseBuild \<and> R = periph_regs \<longrightarrow>
   (\<forall>b w. s = (b, w) \<longrightarrow>
     (\<exists>k. settled flag st (sr1_reads w) (sr1_n w + 4 * k) \<or> ticks w (tick_n w + k) - since \<ge> to))"
proof (induction rule: wait_loop.raw_induct [rotated, consumes 1, case_names loop])
  case (loop rec p R flag st since to s r)
  show ?case
  proof (intro impI allI)
    fix b w
    assume pR: "p = ReleaseBuild \<and> R = periph_regs" and s: "s = (b, w)"
    let ?w = "w\<lparr>sr1_n := sr1_n w + 4, tick_n := Suc (tick_n w)\<rparr>"
    show "\<exists>k. settled flag st (sr1_reads w) (sr1_n w + 4 * k) \<or> ticks w (tick_n w + k) - since \<ge> to"
    proof (cases "settled flag st (sr1_reads w) (sr1_n w) \<or> ticks w (tick_n w) - since \<ge> to")
      case True
      then show ?thesis by (intro exI [of _ 0]) simp
    next
      case False
      then have unsettled: "\<not> settled flag st (sr1_reads w) (sr1_n w)" by simp
      have "rec p R flag st since to (b, ?w) = Some r"
        using loop(2) wait_round_open [OF unsettled, of b] pR False by (simp add: s sub_u32_def add.commute)
      from loop(1) [OF this] pR obtain k where
        "settled flag st (sr1_reads ?w) (sr1_n ?w + 4 * k) \<or> ticks ?w (tick_n ?w + k) - since \<ge> to" by blast
      then show ?thesis by (intro exI [of _ "Suc k"]) (simp add: add.commute add.left_commute)
    qed
  qed
qed

text \<open>
  Exactly when waiting for a flag returns, in the release build: when some round of the loop
  sees an error or the flag as awaited, or finds the tick counter far enough from the start. The
  tick difference is taken modulo 2 to the 32, so a counter that wraps around does no harm.
\<close>

theorem wait_flag_returns_iff:
  "wait_flag ReleaseBuild periph_regs flag st (b, w) \<noteq> None \<longleftrightarrow>
     (\<exists>k. settled flag st (sr1_reads w) (sr1_n w + 4 * k) \<or>
          ticks w (tick_n w + 1 + k) - ticks w (tick_n w) \<ge> timeout_ms b * 1000)"
proof -
  let ?w = "w\<lparr>tick_n := Suc (tick_n w)\<rparr>"
  have eq: "wait_flag ReleaseBuild periph_regs flag st (b, w) =
      wait_loop ReleaseBuild periph_regs flag st (ticks w (tick_n w)) (timeout_ms b * 1000) (b, ?w)"
    by (simp add: wait_flag_def mul_u32_def)
  show ?thesis
    using wait_loop_ends [where flag = flag and st = st and w = ?w and since = "ticks w (tick_n w)" and
        to = "timeout_ms b * 1000" and b = b]
      wait_loop_ends_only [of ReleaseBuild periph_regs flag st "ticks w (tick_n w)" "timeout_ms b * 1000" "(b, ?w)"]
    unfolding eq by auto
qed

text \<open>
  With the placeholder for the tick counter, waiting never times out: on a slave that never
  answers the driver hangs, unless the timeout is zero modulo 2 to the 32 ticks.
\<close>

lemma placeholder_clock_hangs:
  assumes "\<forall>n. ticks w n = get_tick_count" "timeout_ms b * 1000 \<noteq> 0" "\<forall>n. \<not> settled flag st (sr1_reads w) n"
  shows "wait_flag ReleaseBuild periph_regs flag st (b, w) = None"
proof -
  have "\<not> timeout_ms b * 1000 \<le> 0" using assms(2) by simp
  then have "wait_loop ReleaseBuild periph_regs flag st 0 (timeout_ms b * 1000) (b, w\<lparr>tick_n := Suc (tick_n w)\<rparr>) \<noteq> Some r" for r
    using wait_loop_ends_only [of ReleaseBuild periph_regs flag st 0 "timeout_ms b * 1000"
        "(b, w\<lparr>tick_n := Suc (tick_n w)\<rparr>)" r] assms by (auto simp: get_tick_count_def)
  then have "wait_loop ReleaseBuild periph_regs flag st 0 (timeout_ms b * 1000) (b, w\<lparr>tick_n := Suc (tick_n w)\<rparr>) = None"
    by (cases "wait_loop ReleaseBuild periph_regs flag st 0 (timeout_ms b * 1000) (b, w\<lparr>tick_n := Suc (tick_n w)\<rparr>)") blast+
  then show ?thesis using assms(1) by (simp add: wait_flag_def mul_u32_def get_tick_count_def)
qed

end
