(* ===== verification/I2c_Hal.thy ===== *)
theory I2c_Hal
  imports Bus_Io
begin

unbundle bit_operations_syntax

text \<open>
  \<^verbatim>\<open>I2C/src/35/35.rs\<close>: an abstract I2C interface with three implementations. The trait \<open>I2cBus\<close> is
  a record of operations on the state \<open>'s\<close> of an implementation, the provided methods of
  \<open>I2cRegister\<close> and the sensor driver are definitions over such a record. What the provided
  methods need of an implementation is the locale \<open>register_bus\<close>, interpreted for the mock, the
  Linux and the embedded-hal implementation. The Linux device file and the embedded-hal bus are
  parameters; \<open>None\<close> is a panic.
\<close>

subsection \<open>The traits\<close>

datatype 'k i2c_error = Timeout | Nack | BusError | InvalidParam | NotInitialized | Io 'k

record i2c_config =
  clock_speed :: u32
  address_mode :: u8
  timeout_of :: nat

definition i2c_config_default :: i2c_config where
  "i2c_config_default = \<lparr>clock_speed = 100000, address_mode = 7, timeout_of = 1000\<rparr>"

text \<open>A method that fills a buffer takes it and returns its new contents.\<close>

record ('s, 'k) i2c_ops =
  bus_write :: "u8 \<Rightarrow> bytes \<Rightarrow> 's \<Rightarrow> ('s, 'k i2c_error, unit) io run"
  bus_read :: "u8 \<Rightarrow> bytes \<Rightarrow> 's \<Rightarrow> ('s, 'k i2c_error, bytes) io run"
  bus_write_read :: "u8 \<Rightarrow> bytes \<Rightarrow> bytes \<Rightarrow> 's \<Rightarrow> ('s, 'k i2c_error, bytes) io run"
  bus_is_device_ready :: "u8 \<Rightarrow> 's \<Rightarrow> bool \<times> 's"

definition write_reg :: "('s, 'k) i2c_ops \<Rightarrow> u8 \<Rightarrow> u8 \<Rightarrow> u8 \<Rightarrow> 's \<Rightarrow> ('s, 'k i2c_error, unit) io run" where
  "write_reg B addr reg val s = bus_write B addr [reg, val] s"

definition read_reg :: "('s, 'k) i2c_ops \<Rightarrow> u8 \<Rightarrow> u8 \<Rightarrow> 's \<Rightarrow> ('s, 'k i2c_error, u8) io run" where
  "read_reg B addr reg s =
     try_run (bus_write_read B addr [reg] [0] s) (\<lambda>s buffer. do {
       b \<leftarrow> idx buffer 0;
       Some (s, Inr b)
     })"

definition write_regs :: "('s, 'k) i2c_ops \<Rightarrow> u8 \<Rightarrow> u8 \<Rightarrow> bytes \<Rightarrow> 's \<Rightarrow> ('s, 'k i2c_error, unit) io run" where
  "write_regs B addr reg data s = bus_write B addr (reg # data) s"

definition read_regs :: "('s, 'k) i2c_ops \<Rightarrow> u8 \<Rightarrow> u8 \<Rightarrow> bytes \<Rightarrow> 's \<Rightarrow> ('s, 'k i2c_error, bytes) io run" where
  "read_regs B addr reg buffer s = bus_write_read B addr [reg] buffer s"

definition modify_reg ::
  "('s, 'k) i2c_ops \<Rightarrow> u8 \<Rightarrow> u8 \<Rightarrow> (u8 \<Rightarrow> u8) \<Rightarrow> 's \<Rightarrow> ('s, 'k i2c_error, unit) io run" where
  "modify_reg B addr reg f s =
     try_run (read_reg B addr reg s) (\<lambda>s val. write_reg B addr reg (f val) s)"

subsection \<open>Linux\<close>

record ('w, 'k) i2c_file =
  ioctl_slave :: "u8 \<Rightarrow> 'w \<Rightarrow> int \<times> 'w"
  write_all :: "bytes \<Rightarrow> 'w \<Rightarrow> ('w, 'k, unit) io"
  read_exact :: "nat \<Rightarrow> 'w \<Rightarrow> ('w, 'k, bytes) io"

record linux_i2c =
  linux_timeout :: nat
  current_addr :: "u8 option"

definition linux_i2c_new :: "i2c_config \<Rightarrow> linux_i2c" where
  "linux_i2c_new config = \<lparr>linux_timeout = timeout_of config, current_addr = None\<rparr>"

definition set_slave_addr ::
  "('w, 'k) i2c_file \<Rightarrow> u8 \<Rightarrow> linux_i2c \<times> 'w \<Rightarrow> (linux_i2c \<times> 'w, 'k i2c_error, unit) io" where
  "set_slave_addr F addr s =
     (let (l, w) = s in
      if current_addr l = Some addr then (s, Inr ())
      else
        (let (rc, w) = ioctl_slave F addr w in
         if rc < 0 then ((l, w), Inl Nack)
         else ((l\<lparr>current_addr := Some addr\<rparr>, w), Inr ())))"

definition on_file :: "linux_i2c \<Rightarrow> ('w, 'k, 'a) io \<Rightarrow> (linux_i2c \<times> 'w, 'k i2c_error, 'a) io" where
  "on_file l r = (case r of (w, Inl k) \<Rightarrow> ((l, w), Inl (Io k)) | (w, Inr a) \<Rightarrow> ((l, w), Inr a))"

definition linux_write ::
  "('w, 'k) i2c_file \<Rightarrow> u8 \<Rightarrow> bytes \<Rightarrow> linux_i2c \<times> 'w \<Rightarrow> (linux_i2c \<times> 'w, 'k i2c_error, unit) io" where
  "linux_write F addr data s =
     try_io (set_slave_addr F addr s) (\<lambda>(l, w) _. on_file l (write_all F data w))"

definition linux_read ::
  "('w, 'k) i2c_file \<Rightarrow> u8 \<Rightarrow> bytes \<Rightarrow> linux_i2c \<times> 'w \<Rightarrow> (linux_i2c \<times> 'w, 'k i2c_error, bytes) io" where
  "linux_read F addr buffer s =
     try_io (set_slave_addr F addr s) (\<lambda>(l, w) _. on_file l (read_exact F (length buffer) w))"

definition linux_write_read ::
  "('w, 'k) i2c_file \<Rightarrow> u8 \<Rightarrow> bytes \<Rightarrow> bytes \<Rightarrow> linux_i2c \<times> 'w \<Rightarrow> (linux_i2c \<times> 'w, 'k i2c_error, bytes) io"
where
  "linux_write_read F addr out buffer s =
     try_io (linux_write F addr out s) (\<lambda>s _. linux_read F addr buffer s)"

definition linux_is_device_ready :: "('w, 'k) i2c_file \<Rightarrow> u8 \<Rightarrow> linux_i2c \<times> 'w \<Rightarrow> bool \<times> linux_i2c \<times> 'w" where
  "linux_is_device_ready F addr s =
     (case set_slave_addr F addr s of (s, Inl e) \<Rightarrow> (False, s) | (s, Inr _) \<Rightarrow> (True, s))"

definition linux_ops :: "('w, 'k) i2c_file \<Rightarrow> (linux_i2c \<times> 'w, 'k) i2c_ops" where
  "linux_ops F = \<lparr>
     bus_write = (\<lambda>a d s. Some (linux_write F a d s)),
     bus_read = (\<lambda>a b s. Some (linux_read F a b s)),
     bus_write_read = (\<lambda>a d b s. Some (linux_write_read F a d b s)),
     bus_is_device_ready = linux_is_device_ready F\<rparr>"

subsection \<open>embedded-hal\<close>

record ('w, 'e) hal_i2c =
  hal_write :: "u8 \<Rightarrow> bytes \<Rightarrow> 'w \<Rightarrow> ('w, 'e, unit) io"
  hal_read :: "u8 \<Rightarrow> bytes \<Rightarrow> 'w \<Rightarrow> ('w, 'e, bytes) io"
  hal_write_read :: "u8 \<Rightarrow> bytes \<Rightarrow> bytes \<Rightarrow> 'w \<Rightarrow> ('w, 'e, bytes) io"

definition embedded_write :: "('w, 'e) hal_i2c \<Rightarrow> u8 \<Rightarrow> bytes \<Rightarrow> 'w \<Rightarrow> ('w, 'k i2c_error, unit) io" where
  "embedded_write H addr data w = map_err (\<lambda>_. BusError) (hal_write H addr data w)"

definition embedded_read :: "('w, 'e) hal_i2c \<Rightarrow> u8 \<Rightarrow> bytes \<Rightarrow> 'w \<Rightarrow> ('w, 'k i2c_error, bytes) io" where
  "embedded_read H addr buffer w = map_err (\<lambda>_. BusError) (hal_read H addr buffer w)"

definition embedded_write_read ::
  "('w, 'e) hal_i2c \<Rightarrow> u8 \<Rightarrow> bytes \<Rightarrow> bytes \<Rightarrow> 'w \<Rightarrow> ('w, 'k i2c_error, bytes) io" where
  "embedded_write_read H addr out buffer w = map_err (\<lambda>_. BusError) (hal_write_read H addr out buffer w)"

definition embedded_is_device_ready :: "('w, 'e) hal_i2c \<Rightarrow> u8 \<Rightarrow> 'w \<Rightarrow> bool \<times> 'w" where
  "embedded_is_device_ready H addr w =
     (case hal_write H addr [] w of (w, Inl e) \<Rightarrow> (False, w) | (w, Inr _) \<Rightarrow> (True, w))"

definition embedded_ops :: "('w, 'e) hal_i2c \<Rightarrow> ('w, 'k) i2c_ops" where
  "embedded_ops H = \<lparr>
     bus_write = (\<lambda>a d s. Some (embedded_write H a d s)),
     bus_read = (\<lambda>a b s. Some (embedded_read H a b s)),
     bus_write_read = (\<lambda>a d b s. Some (embedded_write_read H a d b s)),
     bus_is_device_ready = embedded_is_device_ready H\<rparr>"

subsection \<open>Mock\<close>

record mock_i2c =
  devices :: "u8 \<Rightarrow> (u8 \<Rightarrow> u8 option) option"
  write_log :: "(u8 \<times> bytes) list"
  should_fail :: bool

definition mock_i2c_new :: mock_i2c where
  "mock_i2c_new = \<lparr>devices = Map.empty, write_log = [], should_fail = False\<rparr>"

definition add_device :: "u8 \<Rightarrow> (u8 \<Rightarrow> u8 option) \<Rightarrow> mock_i2c \<Rightarrow> mock_i2c" where
  "add_device addr registers m = m\<lparr>devices := (devices m)(addr \<mapsto> registers)\<rparr>"

definition set_should_fail :: "bool \<Rightarrow> mock_i2c \<Rightarrow> mock_i2c" where
  "set_should_fail fail m = m\<lparr>should_fail := fail\<rparr>"

text \<open>\<open>reg + i as u8\<close>, which overflows in the checked build.\<close>

definition reg_plus :: "profile \<Rightarrow> u8 \<Rightarrow> nat \<Rightarrow> u8 run" where
  "reg_plus p reg i =
     (if p = CheckedBuild \<and> 256 \<le> unat reg + i mod 256 then None else Some (reg + of_nat i))"

primrec mock_store :: "profile \<Rightarrow> u8 \<Rightarrow> nat \<Rightarrow> bytes \<Rightarrow> (u8 \<Rightarrow> u8 option) \<Rightarrow> (u8 \<Rightarrow> u8 option) run" where
  "mock_store p reg i [] d = Some d"
| "mock_store p reg i (v # vs) d = do {
     r \<leftarrow> reg_plus p reg i;
     mock_store p reg (Suc i) vs (d(r \<mapsto> v))
   }"

definition mock_write :: "profile \<Rightarrow> u8 \<Rightarrow> bytes \<Rightarrow> mock_i2c \<Rightarrow> (mock_i2c, 'k i2c_error, unit) io run" where
  "mock_write p addr data m =
     (if should_fail m then Some (m, Inl BusError)
      else
        (let m = m\<lparr>write_log := write_log m @ [(addr, data)]\<rparr> in
         case devices m addr of
           None \<Rightarrow> Some (m, Inl Nack)
         | Some device \<Rightarrow>
             if length data \<ge> 2 then do {
               d \<leftarrow> mock_store p (hd data) 0 (tl data) device;
               Some (m\<lparr>devices := (devices m)(addr \<mapsto> d)\<rparr>, Inr ())
             }
             else Some (m, Inr ())))"

definition mock_read :: "u8 \<Rightarrow> bytes \<Rightarrow> mock_i2c \<Rightarrow> (mock_i2c, 'k i2c_error, bytes) io run" where
  "mock_read addr buffer m =
     (if should_fail m then Some (m, Inl BusError)
      else if devices m addr \<noteq> None then Some (m, Inr (replicate (length buffer) 0xFF))
      else Some (m, Inl Nack))"

primrec mock_fetch :: "profile \<Rightarrow> u8 \<Rightarrow> nat \<Rightarrow> bytes \<Rightarrow> (u8 \<Rightarrow> u8 option) \<Rightarrow> bytes run" where
  "mock_fetch p reg i [] d = Some []"
| "mock_fetch p reg i (_ # bs) d = do {
     r \<leftarrow> reg_plus p reg i;
     rest \<leftarrow> mock_fetch p reg (Suc i) bs d;
     Some ((case d r of None \<Rightarrow> 0xFF | Some v \<Rightarrow> v) # rest)
   }"

definition mock_write_read ::
  "profile \<Rightarrow> u8 \<Rightarrow> bytes \<Rightarrow> bytes \<Rightarrow> mock_i2c \<Rightarrow> (mock_i2c, 'k i2c_error, bytes) io run" where
  "mock_write_read p addr out buffer m =
     (if should_fail m then Some (m, Inl BusError)
      else case devices m addr of
        None \<Rightarrow> Some (m, Inl Nack)
      | Some device \<Rightarrow>
          if out \<noteq> [] then do {
            bs \<leftarrow> mock_fetch p (hd out) 0 buffer device;
            Some (m, Inr bs)
          }
          else Some (m, Inr buffer))"

definition mock_is_device_ready :: "u8 \<Rightarrow> mock_i2c \<Rightarrow> bool \<times> mock_i2c" where
  "mock_is_device_ready addr m = (\<not> should_fail m \<and> devices m addr \<noteq> None, m)"

definition mock_ops :: "profile \<Rightarrow> (mock_i2c, 'k) i2c_ops" where
  "mock_ops p = \<lparr>bus_write = mock_write p, bus_read = mock_read, bus_write_read = mock_write_read p,
     bus_is_device_ready = mock_is_device_ready\<rparr>"

subsection \<open>The sensor driver\<close>

definition CHIP_ID_REG :: u8 where "CHIP_ID_REG = 0xD0"
definition CTRL_MEAS_REG :: u8 where "CTRL_MEAS_REG = 0xF4"
definition EXPECTED_CHIP_ID :: u8 where "EXPECTED_CHIP_ID = 0x60"

definition bme280_new :: "('s, 'k) i2c_ops \<Rightarrow> u8 \<Rightarrow> 's \<Rightarrow> ('s, 'k i2c_error, unit) io run" where
  "bme280_new B addr s =
     try_run (read_reg B addr CHIP_ID_REG s) (\<lambda>s chip_id.
       if chip_id \<noteq> EXPECTED_CHIP_ID then Some (s, Inl InvalidParam) else Some (s, Inr ()))"

definition set_mode :: "('s, 'k) i2c_ops \<Rightarrow> u8 \<Rightarrow> u8 \<Rightarrow> 's \<Rightarrow> ('s, 'k i2c_error, unit) io run" where
  "set_mode B addr mode s = write_reg B addr CTRL_MEAS_REG mode s"

text \<open>The raw value of \<open>read_temperature\<close>; its division by 100 is floating-point.\<close>

definition raw_temperature :: "u8 \<Rightarrow> u8 \<Rightarrow> u8 \<Rightarrow> u32" where
  "raw_temperature d0 d1 d2 = push_bit 12 (ucast d0) OR push_bit 4 (ucast d1) OR drop_bit 4 (ucast d2)"

definition read_temperature_raw :: "('s, 'k) i2c_ops \<Rightarrow> u8 \<Rightarrow> 's \<Rightarrow> ('s, 'k i2c_error, u32) io run" where
  "read_temperature_raw B addr s =
     try_run (read_regs B addr 0xFA [0, 0, 0] s) (\<lambda>s data. do {
       d0 \<leftarrow> idx data 0;
       d1 \<leftarrow> idx data 1;
       d2 \<leftarrow> idx data 2;
       Some (s, Inr (raw_temperature d0 d1 d2))
     })"

subsection \<open>What an implementation promises\<close>

text \<open>
  Devices as register files: \<open>put m r ds\<close> stores \<open>ds\<close> from register \<open>r\<close> on, \<open>fetch m r n\<close> reads
  \<open>n\<close> registers. A bus is abstracted to the register files at its addresses.
\<close>

type_synonym reg_file = "u8 \<Rightarrow> u8"

fun put :: "reg_file \<Rightarrow> u8 \<Rightarrow> bytes \<Rightarrow> reg_file" where
  "put m r [] = m"
| "put m r (v # vs) = put (m(r := v)) (r + 1) vs"

fun fetch :: "reg_file \<Rightarrow> u8 \<Rightarrow> nat \<Rightarrow> bytes" where
  "fetch m r 0 = []"
| "fetch m r (Suc n) = m r # fetch m (r + 1) n"

lemma length_fetch [simp]: "length (fetch m r n) = n"
  by (induction n arbitrary: r) simp_all

definition within :: "u8 \<Rightarrow> nat \<Rightarrow> bool" where
  "within r n \<longleftrightarrow> unat r + n \<le> 256"

lemma within_Suc: "within r (Suc n) \<Longrightarrow> n = 0 \<or> within (r + 1) n \<and> unat (r + 1) = unat r + 1"
proof (cases "n = 0")
  case False
  assume "within r (Suc n)"
  then have "unat r + 1 < 256" using False by (simp add: within_def)
  then have "unat (r + 1) = unat r + 1" by (simp add: unat_word_ariths)
  then show ?thesis using \<open>within r (Suc n)\<close> by (simp add: within_def)
qed simp

lemma put_before: "within r (length vs) \<Longrightarrow> unat x < unat r \<Longrightarrow> put m r vs x = m x"
proof (induction m r vs rule: put.induct)
  case (2 m r v vs)
  show ?case
  proof (cases "vs = []")
    case True
    then show ?thesis using 2 by auto
  next
    case False
    then have "within (r + 1) (length vs)" "unat (r + 1) = unat r + 1"
      using within_Suc [of r "length vs"] 2 by auto
    then show ?thesis using 2 by (auto simp: fun_upd_def)
  qed
qed simp

lemma fetch_put: "within r (length vs) \<Longrightarrow> fetch (put m r vs) r (length vs) = vs"
proof (induction m r vs rule: put.induct)
  case (2 m r v vs)
  show ?case
  proof (cases "vs = []")
    case False
    then have *: "within (r + 1) (length vs)" "unat (r + 1) = unat r + 1"
      using within_Suc [of r "length vs"] 2 by auto
    then have "put (m(r := v)) (r + 1) vs r = v" by (subst put_before) auto
    then show ?thesis using 2 * by (simp add: fun_upd_def)
  qed simp
qed simp

text \<open>
  The contract: in a good state, a write of a register number and values to a device stores
  them, a combined write of a register number and read fetches registers, and an absent device is
  an error; nothing else changes. Transfers stay within the 256 registers.
\<close>

locale register_bus =
  fixes B :: "('s, 'k) i2c_ops" and good :: "'s \<Rightarrow> bool" and files :: "'s \<Rightarrow> u8 \<Rightarrow> reg_file option"
  assumes write_present: "good s \<Longrightarrow> files s a = Some m \<Longrightarrow> within r (length vs) \<Longrightarrow>
      \<exists>s'. bus_write B a (r # vs) s = Some (s', Inr ()) \<and> good s' \<and> files s' = (files s)(a \<mapsto> put m r vs)"
    and write_absent: "good s \<Longrightarrow> files s a = None \<Longrightarrow>
      \<exists>s' e. bus_write B a (r # vs) s = Some (s', Inl e) \<and> good s' \<and> files s' = files s"
    and fetch_present: "good s \<Longrightarrow> files s a = Some m \<Longrightarrow> within r (length buf) \<Longrightarrow>
      \<exists>s'. bus_write_read B a [r] buf s = Some (s', Inr (fetch m r (length buf))) \<and> good s' \<and> files s' = files s"
    and fetch_absent: "good s \<Longrightarrow> files s a = None \<Longrightarrow>
      \<exists>s' e. bus_write_read B a [r] buf s = Some (s', Inl e) \<and> good s' \<and> files s' = files s"

subsection \<open>Programs over the interface\<close>

text \<open>
  A client of the provided methods is a sequence of commands; its results are what it can see,
  where errors are only told apart from success. \<open>spec_cmd\<close> runs a command on register files.
\<close>

datatype cmd =
    WriteReg u8 u8 u8
  | ReadReg u8 u8
  | WriteRegs u8 u8 bytes
  | ReadRegs u8 u8 bytes
  | ModifyReg u8 u8 "u8 \<Rightarrow> u8"

datatype reply = Done | Got bytes | Failed

definition reply_of :: "('a \<Rightarrow> reply) \<Rightarrow> ('s, 'e, 'a) io run \<Rightarrow> ('s \<times> reply) run" where
  "reply_of f r = map_option (\<lambda>(s, res). (s, case res of Inl e \<Rightarrow> Failed | Inr a \<Rightarrow> f a)) r"

fun run_cmd :: "('s, 'k) i2c_ops \<Rightarrow> cmd \<Rightarrow> 's \<Rightarrow> ('s \<times> reply) run" where
  "run_cmd B (WriteReg a r v) s = reply_of (\<lambda>_. Done) (write_reg B a r v s)"
| "run_cmd B (ReadReg a r) s = reply_of (\<lambda>v. Got [v]) (read_reg B a r s)"
| "run_cmd B (WriteRegs a r vs) s = reply_of (\<lambda>_. Done) (write_regs B a r vs s)"
| "run_cmd B (ReadRegs a r buf) s = reply_of Got (read_regs B a r buf s)"
| "run_cmd B (ModifyReg a r f) s = reply_of (\<lambda>_. Done) (modify_reg B a r f s)"

fun run_cmds :: "('s, 'k) i2c_ops \<Rightarrow> cmd list \<Rightarrow> 's \<Rightarrow> ('s \<times> reply list) run" where
  "run_cmds B [] s = Some (s, [])"
| "run_cmds B (c # cs) s = do {
     (s, r) \<leftarrow> run_cmd B c s;
     (s, rs) \<leftarrow> run_cmds B cs s;
     Some (s, r # rs)
   }"

fun cmd_within :: "cmd \<Rightarrow> bool" where
  "cmd_within (WriteRegs a r vs) \<longleftrightarrow> within r (length vs)"
| "cmd_within (ReadRegs a r buf) \<longleftrightarrow> within r (length buf)"
| "cmd_within _ \<longleftrightarrow> True"

fun cmd_addr :: "cmd \<Rightarrow> u8" where
  "cmd_addr (WriteReg a r v) = a"
| "cmd_addr (ReadReg a r) = a"
| "cmd_addr (WriteRegs a r vs) = a"
| "cmd_addr (ReadRegs a r buf) = a"
| "cmd_addr (ModifyReg a r f) = a"

fun spec_file :: "cmd \<Rightarrow> reg_file \<Rightarrow> reg_file \<times> reply" where
  "spec_file (WriteReg a r v) m = (m(r := v), Done)"
| "spec_file (ReadReg a r) m = (m, Got [m r])"
| "spec_file (WriteRegs a r vs) m = (put m r vs, Done)"
| "spec_file (ReadRegs a r buf) m = (m, Got (fetch m r (length buf)))"
| "spec_file (ModifyReg a r f) m = (m(r := f (m r)), Done)"

definition spec_cmd :: "cmd \<Rightarrow> (u8 \<Rightarrow> reg_file option) \<Rightarrow> (u8 \<Rightarrow> reg_file option) \<times> reply" where
  "spec_cmd c F = (case F (cmd_addr c) of
     None \<Rightarrow> (F, Failed)
   | Some m \<Rightarrow> let (m', r) = spec_file c m in (F(cmd_addr c \<mapsto> m'), r))"

fun spec_cmds :: "cmd list \<Rightarrow> (u8 \<Rightarrow> reg_file option) \<Rightarrow> (u8 \<Rightarrow> reg_file option) \<times> reply list" where
  "spec_cmds [] F = (F, [])"
| "spec_cmds (c # cs) F = (let (F, r) = spec_cmd c F; (F, rs) = spec_cmds cs F in (F, r # rs))"

lemma within_small [simp]: "within r 0" "within r (Suc 0)"
  using unsigned_less [of r, where 'a = nat] by (simp_all add: within_def)

context register_bus
begin

lemma read_reg_bus:
  assumes "good s"
  shows "case files s a of
      Some m \<Rightarrow> \<exists>s'. read_reg B a r s = Some (s', Inr (m r)) \<and> good s' \<and> files s' = files s
    | None \<Rightarrow> \<exists>s' e. read_reg B a r s = Some (s', Inl e) \<and> good s' \<and> files s' = files s"
proof (cases "files s a")
  case None
  then show ?thesis using fetch_absent [OF assms None, of r "[0]"] by (auto simp: read_reg_def)
next
  case (Some m)
  then show ?thesis using fetch_present [OF assms Some, of r "[0]"] by (auto simp: read_reg_def idx_def)
qed

lemma write_reg_bus:
  assumes "good s"
  shows "case files s a of
      Some m \<Rightarrow> \<exists>s'. write_reg B a r v s = Some (s', Inr ()) \<and> good s' \<and> files s' = (files s)(a \<mapsto> m(r := v))
    | None \<Rightarrow> \<exists>s' e. write_reg B a r v s = Some (s', Inl e) \<and> good s' \<and> files s' = files s"
proof (cases "files s a")
  case None
  then show ?thesis using write_absent [OF assms None, of r "[v]"] by (simp add: write_reg_def)
next
  case (Some m)
  then show ?thesis using write_present [OF assms Some, of r "[v]"] by (simp add: write_reg_def)
qed

lemma run_cmd_spec:
  assumes "good s" "cmd_within c"
  shows "\<exists>s'. run_cmd B c s = Some (s', snd (spec_cmd c (files s))) \<and> good s' \<and> files s' = fst (spec_cmd c (files s))"
proof (cases c)
  case (WriteReg a r v)
  then show ?thesis using write_reg_bus [OF assms(1), of a r v]
    by (cases "files s a") (auto simp: reply_of_def spec_cmd_def)
next
  case (ReadReg a r)
  then show ?thesis using read_reg_bus [OF assms(1), of a r]
    by (cases "files s a") (auto simp: reply_of_def spec_cmd_def map_upd_triv)
next
  case (WriteRegs a r vs)
  then show ?thesis
    using write_absent [OF assms(1), of a r vs] write_present [OF assms(1), of a _ r vs] assms(2)
    by (cases "files s a") (auto simp: reply_of_def spec_cmd_def write_regs_def)
next
  case (ReadRegs a r buf)
  then show ?thesis
    using fetch_absent [OF assms(1), of a r buf] fetch_present [OF assms(1), of a _ r buf] assms(2)
    by (cases "files s a") (auto simp: reply_of_def spec_cmd_def read_regs_def map_upd_triv)
next
  case (ModifyReg a r f)
  show ?thesis
  proof (cases "files s a")
    case None
    then show ?thesis using read_reg_bus [OF assms(1), of a r] ModifyReg
      by (auto simp: reply_of_def spec_cmd_def modify_reg_def)
  next
    case (Some m)
    then obtain s1 where s1: "read_reg B a r s = Some (s1, Inr (m r))" "good s1" "files s1 = files s"
      using read_reg_bus [OF assms(1), of a r] by auto
    then show ?thesis using write_reg_bus [OF s1(2), of a r "f (m r)"] ModifyReg Some
      by (auto simp: reply_of_def spec_cmd_def modify_reg_def)
  qed
qed

lemma run_cmds_spec:
  "good s \<Longrightarrow> \<forall>c \<in> set cs. cmd_within c \<Longrightarrow>
   \<exists>s'. run_cmds B cs s = Some (s', snd (spec_cmds cs (files s))) \<and> good s' \<and>
     files s' = fst (spec_cmds cs (files s))"
proof (induction cs arbitrary: s)
  case (Cons c cs)
  then obtain s1 where s1: "run_cmd B c s = Some (s1, snd (spec_cmd c (files s)))" "good s1"
    "files s1 = fst (spec_cmd c (files s))" using run_cmd_spec [of s c] by auto
  then show ?case using Cons.IH [of s1] Cons.prems by (auto simp: case_prod_beta Let_def)
qed simp

text \<open>The sensor driver accepts exactly a present device with the right chip id.\<close>

lemma bme280_new_bus:
  assumes "good s"
  shows "\<exists>s' res. bme280_new B a s = Some (s', res) \<and> good s' \<and> files s' = files s \<and>
    (res = Inr () \<longleftrightarrow> (\<exists>m. files s a = Some m \<and> m CHIP_ID_REG = EXPECTED_CHIP_ID)) \<and>
    (\<forall>m. files s a = Some m \<and> m CHIP_ID_REG \<noteq> EXPECTED_CHIP_ID \<longrightarrow> res = Inl InvalidParam)"
  using read_reg_bus [OF assms, of a CHIP_ID_REG]
  by (cases "files s a") (auto simp: bme280_new_def)

lemma read_temperature_bus:
  assumes "good s" "files s a = Some m"
  shows "\<exists>s'. read_temperature_raw B a s = Some (s', Inr (raw_temperature (m 0xFA) (m 0xFB) (m 0xFC))) \<and>
    good s' \<and> files s' = files s"
  using fetch_present [OF assms, of "0xFA" "[0, 0, 0]"]
  by (auto simp: read_temperature_raw_def read_regs_def idx_def within_def numeral_3_eq_3)

end

subsection \<open>The mock keeps the contract\<close>

definition view :: "(u8 \<Rightarrow> u8 option) \<Rightarrow> reg_file" where
  "view d r = (case d r of None \<Rightarrow> 0xFF | Some v \<Rightarrow> v)"

definition mock_files :: "mock_i2c \<Rightarrow> u8 \<Rightarrow> reg_file option" where
  "mock_files m a = map_option view (devices m a)"

definition mock_good :: "mock_i2c \<Rightarrow> bool" where
  "mock_good m \<longleftrightarrow> \<not> should_fail m"

lemma view_upd: "view (d(r \<mapsto> v)) = (view d)(r := v)"
  by (rule ext) (simp add: view_def)

lemma reg_plus_within: "unat reg + i < 256 \<Longrightarrow> reg_plus p reg i = Some (reg + of_nat i)"
  by (simp add: reg_plus_def)

lemma mock_store_put:
  "unat reg + i + length vs \<le> 256 \<Longrightarrow>
   \<exists>d'. mock_store p reg i vs d = Some d' \<and> view d' = put (view d) (reg + of_nat i) vs"
proof (induction vs arbitrary: i d)
  case (Cons v vs)
  have "unat reg + Suc i + length vs \<le> 256" using Cons.prems by simp
  from Cons.IH [OF this, of "d(reg + of_nat i \<mapsto> v)"]
  obtain d' where "mock_store p reg (Suc i) vs (d(reg + of_nat i \<mapsto> v)) = Some d'"
    "view d' = put ((view d)(reg + of_nat i := v)) (reg + of_nat (Suc i)) vs" unfolding view_upd by blast
  then show ?case using Cons.prems by (simp add: reg_plus_within add.assoc add.commute [of 1])
qed simp

lemma mock_fetch_view:
  "unat reg + i + length buf \<le> 256 \<Longrightarrow>
   mock_fetch p reg i buf d = Some (fetch (view d) (reg + of_nat i) (length buf))"
proof (induction buf arbitrary: i)
  case (Cons b buf)
  then show ?case using Cons.IH [of "Suc i"]
    by (simp add: reg_plus_within view_def add.assoc add.commute [of 1])
qed simp

lemma mock_files_log [simp]: "mock_files (m\<lparr>write_log := l\<rparr>) = mock_files m"
  by (rule ext) (simp add: mock_files_def)

lemma mock_files_upd: "mock_files (m\<lparr>devices := (devices m)(a \<mapsto> d)\<rparr>) = (mock_files m)(a \<mapsto> view d)"
  by (rule ext) (simp add: mock_files_def)

lemma mock_write_present:
  assumes "mock_good m" "mock_files m a = Some f" "within r (length vs)"
  shows "\<exists>m'. mock_write p a (r # vs) m = Some (m', Inr ()) \<and> mock_good m' \<and>
    mock_files m' = (mock_files m)(a \<mapsto> put f r vs)"
proof -
  obtain d where d: "devices m a = Some d" "view d = f" using assms(2) by (auto simp: mock_files_def)
  obtain d' where d': "mock_store p r 0 vs d = Some d'" "view d' = put f r vs"
    using mock_store_put [of r 0 vs p d] assms(3) d(2) by (auto simp: within_def)
  let ?m = "m\<lparr>write_log := write_log m @ [(a, r # vs)]\<rparr>"
  show ?thesis
  proof (cases vs)
    case Nil
    then show ?thesis using assms d by (simp add: mock_write_def mock_good_def map_upd_triv)
  next
    case (Cons v ws)
    then have "mock_write p a (r # vs) m = Some (?m\<lparr>devices := (devices ?m)(a \<mapsto> d')\<rparr>, Inr ())"
      using assms(1) d(1) d'(1) by (simp add: mock_write_def mock_good_def)
    then show ?thesis using assms(1) d'(2) mock_files_upd [of ?m a d'] by (auto simp: mock_good_def)
  qed
qed

interpretation mock: register_bus "mock_ops p" mock_good mock_files
proof unfold_locales
  show "\<exists>s'. bus_write (mock_ops p) a (r # vs) s = Some (s', Inr ()) \<and> mock_good s' \<and>
      mock_files s' = (mock_files s)(a \<mapsto> put m r vs)"
    if "mock_good s" "mock_files s a = Some m" "within r (length vs)" for s a m r vs
    using mock_write_present [OF that] by (simp add: mock_ops_def)
  show "\<exists>s' e. bus_write (mock_ops p) a (r # vs) s = Some (s', Inl e) \<and> mock_good s' \<and> mock_files s' = mock_files s"
    if "mock_good s" "mock_files s a = None" for s a r vs
    using that by (simp add: mock_ops_def mock_write_def mock_good_def mock_files_def)
  show "\<exists>s'. bus_write_read (mock_ops p) a [r] buf s = Some (s', Inr (fetch m r (length buf))) \<and> mock_good s' \<and>
      mock_files s' = mock_files s"
    if "mock_good s" "mock_files s a = Some m" "within r (length buf)" for s a m r buf
    using that mock_fetch_view [of r 0 buf p]
    by (auto simp: mock_ops_def mock_write_read_def mock_good_def mock_files_def within_def)
  show "\<exists>s' e. bus_write_read (mock_ops p) a [r] buf s = Some (s', Inl e) \<and> mock_good s' \<and> mock_files s' = mock_files s"
    if "mock_good s" "mock_files s a = None" for s a r buf
    using that by (simp add: mock_ops_def mock_write_read_def mock_good_def mock_files_def)
qed

subsection \<open>Devices behind Linux and embedded-hal\<close>

text \<open>
  The reference world: devices with a register pointer, which a write sets and reads and writes
  advance. The Linux device file keeps the slave address chosen by the ioctl, which does not touch
  the bus; every write and every read is a transfer of its own.
\<close>

type_synonym dev_world = "u8 \<Rightarrow> (u8 \<times> reg_file) option"

definition dev_write :: "u8 \<Rightarrow> bytes \<Rightarrow> dev_world \<Rightarrow> (dev_world, unit, unit) io" where
  "dev_write a bs W = (case W a of
     None \<Rightarrow> (W, Inl ())
   | Some (q, m) \<Rightarrow> (case bs of
       [] \<Rightarrow> (W, Inr ())
     | r # vs \<Rightarrow> (W(a \<mapsto> (r + of_nat (length vs), put m r vs)), Inr ())))"

definition dev_read :: "u8 \<Rightarrow> nat \<Rightarrow> dev_world \<Rightarrow> (dev_world, unit, bytes) io" where
  "dev_read a n W = (case W a of
     None \<Rightarrow> (W, Inl ())
   | Some (q, m) \<Rightarrow> (W(a \<mapsto> (q + of_nat n, m)), Inr (fetch m q n)))"

definition dev_hal :: "(dev_world, unit) hal_i2c" where
  "dev_hal = \<lparr>hal_write = dev_write, hal_read = (\<lambda>a buf. dev_read a (length buf)),
     hal_write_read = (\<lambda>a out buf W. try_io (dev_write a out W) (\<lambda>W _. dev_read a (length buf) W))\<rparr>"

definition on_selected :: "u8 \<Rightarrow> (dev_world, unit, 'a) io \<Rightarrow> (u8 \<times> dev_world, unit, 'a) io" where
  "on_selected sel r = ((sel, fst r), snd r)"

definition dev_file :: "(u8 \<times> dev_world, unit) i2c_file" where
  "dev_file = \<lparr>ioctl_slave = (\<lambda>a (sel, W). (0, (a, W))),
     write_all = (\<lambda>bs (sel, W). on_selected sel (dev_write sel bs W)),
     read_exact = (\<lambda>n (sel, W). on_selected sel (dev_read sel n W))\<rparr>"

definition dev_files :: "dev_world \<Rightarrow> u8 \<Rightarrow> reg_file option" where
  "dev_files W a = map_option snd (W a)"

lemma dev_files_upd: "dev_files (W(a \<mapsto> (q, m))) = (dev_files W)(a \<mapsto> m)"
  by (rule ext) (simp add: dev_files_def)

lemma dev_files_some: "dev_files W a = Some m \<longleftrightarrow> (\<exists>q. W a = Some (q, m))"
  by (auto simp: dev_files_def)

lemma dev_files_none: "dev_files W a = None \<longleftrightarrow> W a = None"
  by (simp add: dev_files_def)

text \<open>A write of a register number and a read that follows it.\<close>

lemma dev_fetch:
  assumes "dev_files W a = Some m"
  shows "\<exists>W'. try_io (dev_write a [r] W) (\<lambda>W _. dev_read a n W) = (W', Inr (fetch m r n)) \<and> dev_files W' = dev_files W"
  using assms by (auto simp: dev_files_some dev_write_def dev_read_def dev_files_upd map_upd_triv)

interpretation embedded: register_bus "embedded_ops dev_hal" "\<lambda>_. True" dev_files
proof unfold_locales
  show "\<exists>s'. bus_write (embedded_ops dev_hal) a (r # vs) s = Some (s', Inr ()) \<and> True \<and>
      dev_files s' = (dev_files s)(a \<mapsto> put m r vs)"
    if "dev_files s a = Some m" for s a m r vs
    using that by (auto simp: embedded_ops_def embedded_write_def dev_hal_def dev_files_some dev_write_def dev_files_upd)
  show "\<exists>s' e. bus_write (embedded_ops dev_hal) a (r # vs) s = Some (s', Inl e) \<and> True \<and> dev_files s' = dev_files s"
    if "dev_files s a = None" for s a r vs
    using that by (simp add: embedded_ops_def embedded_write_def dev_hal_def dev_files_none dev_write_def)
  show "\<exists>s'. bus_write_read (embedded_ops dev_hal) a [r] buf s = Some (s', Inr (fetch m r (length buf))) \<and> True \<and>
      dev_files s' = dev_files s"
    if "dev_files s a = Some m" for s a m r buf
    using dev_fetch [OF that, of r "length buf"] by (auto simp: embedded_ops_def embedded_write_read_def dev_hal_def)
  show "\<exists>s' e. bus_write_read (embedded_ops dev_hal) a [r] buf s = Some (s', Inl e) \<and> True \<and> dev_files s' = dev_files s"
    if "dev_files s a = None" for s a r buf
    using that by (simp add: embedded_ops_def embedded_write_read_def dev_hal_def dev_files_none dev_write_def)
qed

definition linux_good :: "linux_i2c \<times> u8 \<times> dev_world \<Rightarrow> bool" where
  "linux_good s \<longleftrightarrow> (\<forall>a. current_addr (fst s) = Some a \<longrightarrow> fst (snd s) = a)"

definition linux_files :: "linux_i2c \<times> u8 \<times> dev_world \<Rightarrow> u8 \<Rightarrow> reg_file option" where
  "linux_files s = dev_files (snd (snd s))"

lemma set_slave_addr_good:
  assumes "linux_good (l, sel, W)"
  shows "\<exists>l'. set_slave_addr dev_file a (l, sel, W) = ((l', a, W), Inr ()) \<and> current_addr l' = Some a"
  using assms by (auto simp: set_slave_addr_def dev_file_def linux_good_def)

lemma linux_write_good:
  assumes "linux_good (l, sel, W)"
  shows "\<exists>l'. linux_write dev_file a bs (l, sel, W) =
      on_file l' (on_selected a (dev_write a bs W)) \<and> current_addr l' = Some a"
  using set_slave_addr_good [OF assms, of a] by (auto simp: linux_write_def) (auto simp: dev_file_def)

lemma linux_write_read_good:
  assumes "linux_good (l, sel, W)"
  shows "\<exists>l'. linux_write_read dev_file a out buf (l, sel, W) =
      on_file l' (on_selected a (try_io (dev_write a out W) (\<lambda>W _. dev_read a (length buf) W))) \<and>
    current_addr l' = Some a"
proof -
  obtain l' where l': "linux_write dev_file a out (l, sel, W) = on_file l' (on_selected a (dev_write a out W))"
    "current_addr l' = Some a" using linux_write_good [OF assms] by blast
  have "linux_read dev_file a buf (l', a, W') = on_file l' (on_selected a (dev_read a (length buf) W'))" for W'
    using l'(2) by (simp add: linux_read_def set_slave_addr_def dev_file_def)
  then show ?thesis using l'
    by (cases "dev_write a out W"; cases "snd (dev_write a out W)")
       (auto simp: linux_write_read_def on_file_def on_selected_def)
qed

interpretation linux: register_bus "linux_ops dev_file" linux_good linux_files
proof unfold_locales
  show "\<exists>s'. bus_write (linux_ops dev_file) a (r # vs) s = Some (s', Inr ()) \<and> linux_good s' \<and>
      linux_files s' = (linux_files s)(a \<mapsto> put m r vs)"
    if "linux_good s" "linux_files s a = Some m" for s a m r vs
    using that linux_write_good [of "fst s" "fst (snd s)" "snd (snd s)" a "r # vs"]
    by (auto simp: linux_ops_def linux_files_def dev_files_some dev_write_def on_file_def on_selected_def
        linux_good_def dev_files_upd)
  show "\<exists>s' e. bus_write (linux_ops dev_file) a (r # vs) s = Some (s', Inl e) \<and> linux_good s' \<and> linux_files s' = linux_files s"
    if "linux_good s" "linux_files s a = None" for s a r vs
    using that linux_write_good [of "fst s" "fst (snd s)" "snd (snd s)" a "r # vs"]
    by (auto simp: linux_ops_def linux_files_def dev_files_none dev_write_def on_file_def on_selected_def linux_good_def)
  show "\<exists>s'. bus_write_read (linux_ops dev_file) a [r] buf s = Some (s', Inr (fetch m r (length buf))) \<and>
      linux_good s' \<and> linux_files s' = linux_files s"
    if "linux_good s" "linux_files s a = Some m" for s a m r buf
    using that linux_write_read_good [of "fst s" "fst (snd s)" "snd (snd s)" a "[r]" buf]
      dev_fetch [of "snd (snd s)" a m r "length buf"]
    by (auto simp: linux_ops_def linux_files_def on_file_def on_selected_def linux_good_def)
  show "\<exists>s' e. bus_write_read (linux_ops dev_file) a [r] buf s = Some (s', Inl e) \<and> linux_good s' \<and> linux_files s' = linux_files s"
    if "linux_good s" "linux_files s a = None" for s a r buf
    using that linux_write_read_good [of "fst s" "fst (snd s)" "snd (snd s)" a "[r]" buf]
    by (auto simp: linux_ops_def linux_files_def dev_files_none dev_write_def on_file_def on_selected_def linux_good_def)
qed

subsection \<open>Properties\<close>

text \<open>
  C23. The three implementations of the interface are interchangeable for register access: a
  program of register reads, writes, burst transfers and read-modify-writes within the registers
  gives the replies of the abstract register files on the mock, on Linux and on embedded-hal, when
  they start from the same registers, and leaves the same registers behind.
\<close>

theorem backends_agree:
  assumes "\<forall>c \<in> set cs. cmd_within c" "\<not> should_fail m" "mock_files m = dev_files W"
  shows "\<exists>m' s' W'. run_cmds (mock_ops p) cs m = Some (m', snd (spec_cmds cs (dev_files W))) \<and>
    run_cmds (linux_ops dev_file) cs (linux_i2c_new config, sel, W) = Some (s', snd (spec_cmds cs (dev_files W))) \<and>
    run_cmds (embedded_ops dev_hal) cs W = Some (W', snd (spec_cmds cs (dev_files W))) \<and>
    mock_files m' = dev_files W' \<and> linux_files s' = dev_files W'"
proof -
  have "linux_good (linux_i2c_new config, sel, W)" by (simp add: linux_good_def linux_i2c_new_def)
  moreover have "mock_good m" using assms(2) by (simp add: mock_good_def)
  ultimately show ?thesis
    using mock.run_cmds_spec [where s = m and cs = cs and p = p]
      linux.run_cmds_spec [where s = "(linux_i2c_new config, sel, W)" and cs = cs]
      embedded.run_cmds_spec [where s = W and cs = cs] assms(1,3)
    by (fastforce simp: linux_files_def)
qed

theorem backends_agree_witness:
  "\<exists>m' s'. run_cmds (mock_ops CheckedBuild) [WriteReg 0x50 0x10 0x99, ModifyReg 0x50 0x10 (\<lambda>v. v OR 1), ReadReg 0x50 0x10]
      (add_device 0x50 Map.empty mock_i2c_new) = Some (m', [Done, Done, Got [0x99]]) \<and>
    run_cmds (linux_ops dev_file) [WriteReg 0x50 0x10 0x99, ModifyReg 0x50 0x10 (\<lambda>v. v OR 1), ReadReg 0x50 0x10]
      (linux_i2c_new i2c_config_default, 0, [0x50 \<mapsto> (0, \<lambda>_. 0xFF)]) = Some (s', [Done, Done, Got [0x99]])"
proof -
  have files: "mock_files (add_device 0x50 Map.empty mock_i2c_new) = dev_files [0x50 \<mapsto> (0, \<lambda>_. 0xFF)]"
    by (rule ext) (simp add: mock_files_def add_device_def mock_i2c_new_def dev_files_def view_def fun_eq_iff)
  show ?thesis
    using backends_agree [of "[WriteReg 0x50 0x10 0x99, ModifyReg 0x50 0x10 (\<lambda>v. v OR 1), ReadReg 0x50 0x10]",
        OF _ _ files, of CheckedBuild i2c_config_default 0]
    by (auto simp: add_device_def mock_i2c_new_def spec_cmd_def dev_files_def)
qed

text \<open>
  The sensor driver on the three implementations: it accepts exactly a present device whose
  register 0xD0 holds 0x60.
\<close>

lemmas bme280_new_backends = mock.bme280_new_bus linux.bme280_new_bus embedded.bme280_new_bus

text \<open>
  The Linux implementation takes every address for a present device, because choosing the slave
  address does not reach the bus; the other two implementations do not.
\<close>

lemma linux_every_device_ready:
  "fst (bus_is_device_ready (linux_ops dev_file) a (linux_i2c_new config, sel, W))"
  "fst (bus_is_device_ready (embedded_ops dev_hal) a W) \<longleftrightarrow> dev_files W a \<noteq> None"
  by (auto simp: linux_ops_def linux_is_device_ready_def set_slave_addr_def linux_i2c_new_def dev_file_def
      embedded_ops_def embedded_is_device_ready_def dev_hal_def dev_write_def dev_files_def split: option.splits)

text \<open>In the checked build the mock panics on a write past register 255.\<close>

lemma mock_write_past_end_panics:
  assumes "mock_good m" "mock_files m a \<noteq> None"
  shows "mock_write CheckedBuild a [0xFF, v, w] m = None"
  using assms by (auto simp: mock_write_def mock_good_def mock_files_def reg_plus_def)

end
