(* ===== verification/I2c_Low_Power.thy ===== *)
theory I2c_Low_Power
  imports I2c_Hal
begin

text \<open>
  \<^verbatim>\<open>I2C/src/47/47.rs\<close>: an I2C manager that switches the peripheral off between transfers, a sensor
  on top of it and a periodic reader on top of that. The embedded-hal bus is the record \<open>hal_i2c\<close>
  of \<open>I2c_Hal\<close>, on the state \<open>'i\<close> of the peripheral, which the manager owns or has given away;
  the delay is a function on a state \<open>'d\<close>. The sensor values are kept raw, their conversion is
  floating-point; \<open>None\<close> is a panic. The counters are \<open>u32\<close> and their overflow follows the build profile.
\<close>

subsection \<open>The manager\<close>

datatype power_error = I2cError | InvalidState | PowerTimeout

datatype power_state = Active | LowPower | Sleep | DeepSleep

record power_config =
  wake_interval_ms :: u32
  i2c_clock_khz :: u32
  use_dma :: bool
  pullup_control :: bool

definition power_config_default :: power_config where
  "power_config_default = \<lparr>wake_interval_ms = 60000, i2c_clock_khz = 100, use_dma = False, pullup_control = False\<rparr>"

record ('i, 'd) low_power_i2c =
  i2c :: "'i option"
  delay :: 'd
  config :: power_config
  state :: power_state
  transaction_count :: u32

type_synonym ('i, 'd, 'a) lp_io = "(('i, 'd) low_power_i2c, power_error, 'a) io"

definition low_power_i2c_new :: "'i \<Rightarrow> 'd \<Rightarrow> power_config \<Rightarrow> ('i, 'd) low_power_i2c" where
  "low_power_i2c_new i d c = \<lparr>i2c = Some i, delay = d, config = c, state = Active, transaction_count = 0\<rparr>"

definition enable :: "(nat \<Rightarrow> 'd \<Rightarrow> 'd) \<Rightarrow> ('i, 'd) low_power_i2c \<Rightarrow> ('i, 'd, unit) lp_io" where
  "enable delay_ms s = (case state s of
     Active \<Rightarrow> (s, Inr ())
   | _ \<Rightarrow> (s\<lparr>state := Active, delay := delay_ms 1 (delay s)\<rparr>, Inr ()))"

definition disable :: "('i, 'd) low_power_i2c \<Rightarrow> ('i, 'd, unit) lp_io" where
  "disable s = (if state s = Active then (s\<lparr>state := LowPower\<rparr>, Inr ()) else (s, Inl InvalidState))"

definition incr_u32 :: "profile \<Rightarrow> u32 \<Rightarrow> u32 run" where
  "incr_u32 p w = (if p = CheckedBuild \<and> w = - 1 then None else Some (w + 1))"

text \<open>\<open>self.i2c.as_mut().ok_or(InvalidState)?\<close> and one transfer, counted when it succeeds.\<close>

definition transfer ::
  "profile \<Rightarrow> ('i \<Rightarrow> ('i, 'e, 'a) io) \<Rightarrow> ('i, 'd) low_power_i2c \<Rightarrow> ('i, 'd, 'a) lp_io run" where
  "transfer p f s = (case i2c s of
     None \<Rightarrow> Some (s, Inl InvalidState)
   | Some i \<Rightarrow> (case f i of
       (i, Inl e) \<Rightarrow> Some (s\<lparr>i2c := Some i\<rparr>, Inl I2cError)
     | (i, Inr a) \<Rightarrow> do {
         n \<leftarrow> incr_u32 p (transaction_count s);
         Some (s\<lparr>i2c := Some i, transaction_count := n\<rparr>, Inr a) }))"

definition burst_read ::
  "profile \<Rightarrow> (nat \<Rightarrow> 'd \<Rightarrow> 'd) \<Rightarrow> ('i, 'e) hal_i2c \<Rightarrow> u8 \<Rightarrow> u8 \<Rightarrow> bytes \<Rightarrow> ('i, 'd) low_power_i2c
    \<Rightarrow> ('i, 'd, bytes) lp_io run" where
  "burst_read p D H addr reg buffer s =
     try_run (Some (enable D s)) (\<lambda>s _. transfer p (hal_write_read H addr [reg] buffer) s)"

definition burst_write ::
  "profile \<Rightarrow> (nat \<Rightarrow> 'd \<Rightarrow> 'd) \<Rightarrow> ('i, 'e) hal_i2c \<Rightarrow> u8 \<Rightarrow> bytes \<Rightarrow> ('i, 'd) low_power_i2c
    \<Rightarrow> ('i, 'd, unit) lp_io run" where
  "burst_write p D H addr data s =
     try_run (Some (enable D s)) (\<lambda>s _. transfer p (hal_write H addr data) s)"

definition read_sensor_low_power ::
  "profile \<Rightarrow> (nat \<Rightarrow> 'd \<Rightarrow> 'd) \<Rightarrow> ('i, 'e) hal_i2c \<Rightarrow> u8 \<Rightarrow> u8 \<Rightarrow> bytes \<Rightarrow> ('i, 'd) low_power_i2c
    \<Rightarrow> ('i, 'd, bytes) lp_io run" where
  "read_sensor_low_power p D H addr reg buffer s =
     try_run (Some (enable D s)) (\<lambda>s _.
     try_run (burst_read p D H addr reg buffer s) (\<lambda>s buffer.
     try_run (Some (disable s)) (\<lambda>s _. Some (s, Inr buffer))))"

definition enter_sleep :: "('i, 'd) low_power_i2c \<Rightarrow> ('i, 'd, 'i) lp_io" where
  "enter_sleep s =
     (let s = s\<lparr>state := Sleep\<rparr> in
      (s\<lparr>i2c := None\<rparr>, case i2c s of None \<Rightarrow> Inl InvalidState | Some i \<Rightarrow> Inr i))"

definition wake_from_sleep :: "'i \<Rightarrow> ('i, 'd) low_power_i2c \<Rightarrow> ('i, 'd) low_power_i2c" where
  "wake_from_sleep i s = s\<lparr>i2c := Some i, state := Active\<rparr>"

subsection \<open>The sensor\<close>

record ('i, 'd) low_power_sensor =
  i2c_mgr :: "('i, 'd) low_power_i2c"
  device_addr :: u8

definition low_power_sensor_new :: "'i \<Rightarrow> 'd \<Rightarrow> u8 \<Rightarrow> ('i, 'd) low_power_sensor" where
  "low_power_sensor_new i d addr =
     \<lparr>i2c_mgr = low_power_i2c_new i d power_config_default, device_addr = addr\<rparr>"

record sensor_data =
  temp_raw :: u16
  hum_raw :: u16
  pres_raw :: u32

definition be_u16 :: "u8 \<Rightarrow> u8 \<Rightarrow> u16" where
  "be_u16 a b = of_nat (be_nat [a, b])"

definition sensor_data_from_bytes :: "bytes \<Rightarrow> sensor_data run" where
  "sensor_data_from_bytes bs = do {
     b0 \<leftarrow> idx bs 0;
     b1 \<leftarrow> idx bs 1;
     b4 \<leftarrow> idx bs 4;
     b5 \<leftarrow> idx bs 5;
     b8 \<leftarrow> idx bs 8;
     b9 \<leftarrow> idx bs 9;
     b10 \<leftarrow> idx bs 10;
     Some \<lparr>temp_raw = be_u16 b0 b1, hum_raw = be_u16 b4 b5, pres_raw = of_nat (be_nat [0, b8, b9, b10])\<rparr>
   }"

definition on_mgr ::
  "('i, 'd) low_power_sensor \<Rightarrow> ('i, 'd, 'a) lp_io \<Rightarrow> (('i, 'd) low_power_sensor, power_error, 'a) io" where
  "on_mgr x r = (x\<lparr>i2c_mgr := fst r\<rparr>, snd r)"

definition read_temperature_raw ::
  "profile \<Rightarrow> (nat \<Rightarrow> 'd \<Rightarrow> 'd) \<Rightarrow> ('i, 'e) hal_i2c \<Rightarrow> ('i, 'd) low_power_sensor \<Rightarrow>
   (('i, 'd) low_power_sensor, power_error, u16) io run" where
  "read_temperature_raw p D H x =
     try_run (map_option (on_mgr x) (read_sensor_low_power p D H (device_addr x) 0 [0, 0] (i2c_mgr x)))
       (\<lambda>x buffer. do {
         b0 \<leftarrow> idx buffer 0;
         b1 \<leftarrow> idx buffer 1;
         Some (x, Inr (be_u16 b0 b1))
       })"

definition read_all_sensors ::
  "profile \<Rightarrow> (nat \<Rightarrow> 'd \<Rightarrow> 'd) \<Rightarrow> ('i, 'e) hal_i2c \<Rightarrow> ('i, 'd) low_power_sensor \<Rightarrow>
   (('i, 'd) low_power_sensor, power_error, sensor_data) io run" where
  "read_all_sensors p D H x =
     try_run (map_option (on_mgr x) (read_sensor_low_power p D H (device_addr x) 0 (replicate 12 0) (i2c_mgr x)))
       (\<lambda>x buffer. do {
         d \<leftarrow> sensor_data_from_bytes buffer;
         Some (x, Inr d)
       })"

definition configure_low_power_mode ::
  "profile \<Rightarrow> (nat \<Rightarrow> 'd \<Rightarrow> 'd) \<Rightarrow> ('i, 'e) hal_i2c \<Rightarrow> ('i, 'd) low_power_sensor
    \<Rightarrow> (('i, 'd) low_power_sensor, power_error, unit) io run" where
  "configure_low_power_mode p D H x =
     map_option (on_mgr x) (burst_write p D H (device_addr x) [0x01, 0x20] (i2c_mgr x))"

definition sensor_sleep :: "('i, 'd) low_power_sensor \<Rightarrow> (('i, 'd) low_power_sensor, power_error, unit) io" where
  "sensor_sleep x = on_mgr x (disable (i2c_mgr x))"

definition sensor_wake ::
  "(nat \<Rightarrow> 'd \<Rightarrow> 'd) \<Rightarrow> ('i, 'd) low_power_sensor \<Rightarrow> (('i, 'd) low_power_sensor, power_error, unit) io" where
  "sensor_wake D x = on_mgr x (enable D (i2c_mgr x))"

subsection \<open>The periodic reader\<close>

record ('i, 'd) periodic_reader =
  sensor :: "('i, 'd) low_power_sensor"
  interval_ms :: u32
  reading_count :: u32

definition periodic_reader_new :: "('i, 'd) low_power_sensor \<Rightarrow> u32 \<Rightarrow> ('i, 'd) periodic_reader" where
  "periodic_reader_new x interval = \<lparr>sensor = x, interval_ms = interval, reading_count = 0\<rparr>"

definition on_sensor ::
  "('i, 'd) periodic_reader \<Rightarrow> (('i, 'd) low_power_sensor, power_error, 'a) io \<Rightarrow>
   (('i, 'd) periodic_reader, power_error, 'a) io" where
  "on_sensor r y = (r\<lparr>sensor := fst y\<rparr>, snd y)"

definition read_cycle ::
  "profile \<Rightarrow> (nat \<Rightarrow> 'd \<Rightarrow> 'd) \<Rightarrow> ('i, 'e) hal_i2c \<Rightarrow> ('i, 'd) periodic_reader \<Rightarrow>
   (('i, 'd) periodic_reader, power_error, sensor_data) io run" where
  "read_cycle p D H r =
     try_run (Some (on_sensor r (sensor_wake D (sensor r)))) (\<lambda>r _.
     try_run (map_option (on_sensor r) (read_all_sensors p D H (sensor r))) (\<lambda>r data.
     try_run (Some (on_sensor r (sensor_sleep (sensor r)))) (\<lambda>r _. do {
       n \<leftarrow> incr_u32 p (reading_count r);
       Some (r\<lparr>reading_count := n\<rparr>, Inr data) })))"

text \<open>\<open>n\<close> rounds of \<open>run_loop\<close>, with the data handed to \<open>process_fn\<close>.\<close>

primrec run_rounds ::
  "nat \<Rightarrow> profile \<Rightarrow> (nat \<Rightarrow> 'd \<Rightarrow> 'd) \<Rightarrow> ('i, 'e) hal_i2c \<Rightarrow> ('i, 'd) periodic_reader \<Rightarrow>
   (('i, 'd) periodic_reader \<times> sensor_data list) run" where
  "run_rounds 0 p D H r = Some (r, [])"
| "run_rounds (Suc n) p D H r = do {
     (r, res) \<leftarrow> read_cycle p D H r;
     (r, ds) \<leftarrow> run_rounds n p D H r;
     Some (r, case res of Inl e \<Rightarrow> ds | Inr d \<Rightarrow> d # ds)
   }"

subsection \<open>Power estimate\<close>

record power_estimator =
  i2c_freq_khz :: nat
  pullup_resistance_kohm :: nat
  supply_voltage_mv :: nat

definition pullup_power_uw :: "profile \<Rightarrow> power_estimator \<Rightarrow> nat run" where
  "pullup_power_uw p e = do {
     let v = supply_voltage_mv e * supply_voltage_mv e;
     v_sq \<leftarrow> (if v < 2 ^ 32 then Some v
             else case p of CheckedBuild \<Rightarrow> None | ReleaseBuild \<Rightarrow> Some (v mod 2 ^ 32));
     udiv v_sq (pullup_resistance_kohm e)
   }"

subsection \<open>Properties\<close>

text \<open>The documented behaviour of the bus: a read fills the buffer it is given.\<close>

definition fills_buffer :: "('i, 'e) hal_i2c \<Rightarrow> bool" where
  "fills_buffer H \<longleftrightarrow>
     (\<forall>a out buf i i' bs. hal_write_read H a out buf i = (i', Inr bs) \<longrightarrow> length bs = length buf)"

lemma enable_active: "\<exists>d. enable D s = (s\<lparr>state := Active, delay := d\<rparr>, Inr ())"
proof (cases "state s = Active")
  case True
  then have "enable D s = (s\<lparr>state := Active, delay := delay s\<rparr>, Inr ())" by (simp add: enable_def)
  then show ?thesis by blast
qed (cases "state s", auto simp: enable_def)

lemma sensor_data_from_bytes_12: "length bs = 12 \<Longrightarrow> \<exists>d. sensor_data_from_bytes bs = Some d"
  by (simp add: sensor_data_from_bytes_def idx_def)

text \<open>
  What a low-power read does to the manager: on success the transfer is counted and the bus is
  in low power, or the counter overflows and the checked build panics; on an error of the bus it
  stays active.
\<close>

lemma read_sensor_low_power_outcome:
  assumes "i2c s = Some i"
  shows "\<exists>d. read_sensor_low_power p D H a r buf s = (case hal_write_read H a [r] buf i of
      (i', Inl _) \<Rightarrow> Some (s\<lparr>state := Active, delay := d, i2c := Some i'\<rparr>, Inl I2cError)
    | (i', Inr bs) \<Rightarrow> map_option (\<lambda>n. (s\<lparr>state := LowPower, delay := d, i2c := Some i', transaction_count := n\<rparr>, Inr bs))
        (incr_u32 p (transaction_count s)))"
proof -
  obtain d where d: "enable D s = (s\<lparr>state := Active, delay := d\<rparr>, Inr ())" using enable_active [of D s] by (elim exE)
  obtain i' res where t: "hal_write_read H a [r] buf i = (i', res)" by (cases "hal_write_read H a [r] buf i")
  have again: "enable D (s\<lparr>state := Active, delay := d\<rparr>) = (s\<lparr>state := Active, delay := d\<rparr>, Inr ())"
    by (simp add: enable_def)
  show ?thesis
    using assms t d again
    by (intro exI [of _ d]; cases res; cases "incr_u32 p (transaction_count s)")
      (auto simp: read_sensor_low_power_def burst_read_def transfer_def disable_def)
qed

text \<open>
  One round: the error of the bus, or, when the transfer succeeds, the panic of a full counter in
  the checked build and otherwise \<open>InvalidState\<close>.
\<close>

lemma read_cycle_outcome:
  assumes "fills_buffer H" "i2c (i2c_mgr (sensor r)) = Some i"
    and t: "hal_write_read H (device_addr (sensor r)) [0] (replicate 12 0) i = (i', res)"
  shows "case res of
      Inl _ \<Rightarrow> \<exists>r'. read_cycle p D H r = Some (r', Inl I2cError) \<and> reading_count r' = reading_count r \<and>
        i2c (i2c_mgr (sensor r')) = Some i' \<and>
        transaction_count (i2c_mgr (sensor r')) = transaction_count (i2c_mgr (sensor r))
    | Inr _ \<Rightarrow> (case incr_u32 p (transaction_count (i2c_mgr (sensor r))) of
        None \<Rightarrow> read_cycle p D H r = None
      | Some n \<Rightarrow> \<exists>r'. read_cycle p D H r = Some (r', Inl InvalidState) \<and> reading_count r' = reading_count r \<and>
          i2c (i2c_mgr (sensor r')) = Some i' \<and> transaction_count (i2c_mgr (sensor r')) = n)"
proof -
  obtain d where d: "enable D (i2c_mgr (sensor r)) = ((i2c_mgr (sensor r))\<lparr>state := Active, delay := d\<rparr>, Inr ())"
    using enable_active [of D "i2c_mgr (sensor r)"] by (elim exE)
  let ?s = "(i2c_mgr (sensor r))\<lparr>state := Active, delay := d\<rparr>"
  have owned: "i2c ?s = Some i" using assms(2) by simp
  obtain d' where d': "read_sensor_low_power p D H (device_addr (sensor r)) 0 (replicate 12 0) ?s =
      (case res of
        Inl _ \<Rightarrow> Some (?s\<lparr>state := Active, delay := d', i2c := Some i'\<rparr>, Inl I2cError)
      | Inr bs \<Rightarrow> map_option (\<lambda>n. (?s\<lparr>state := LowPower, delay := d', i2c := Some i', transaction_count := n\<rparr>, Inr bs))
          (incr_u32 p (transaction_count ?s)))"
    using read_sensor_low_power_outcome [OF owned, of p D H "device_addr (sensor r)" 0 "replicate 12 0",
        unfolded t prod.case] by blast
  show ?thesis
  proof (cases res)
    case (Inl e)
    then show ?thesis using d'
      by (simp add: read_cycle_def sensor_wake_def on_mgr_def on_sensor_def d read_all_sensors_def)
  next
    case (Inr bs)
    then have "length bs = 12" using assms(1) t by (auto simp: fills_buffer_def)
    then obtain dat where "sensor_data_from_bytes bs = Some dat" using sensor_data_from_bytes_12 [of bs] by auto
    then show ?thesis using d' Inr
      by (cases "incr_u32 p (transaction_count (i2c_mgr (sensor r)))")
        (simp_all add: read_cycle_def sensor_wake_def on_mgr_def on_sensor_def d read_all_sensors_def
          sensor_sleep_def disable_def)
  qed
qed

lemma incr_u32_ok: "p = ReleaseBuild \<or> unat w + 1 < 2 ^ 32 \<Longrightarrow> incr_u32 p w = Some (w + 1)"
  by (auto simp: incr_u32_def unsigned_minus_1_eq_mask mask_eq_exp_minus_1)

lemma unat_incr_le: "unat (w + 1 :: u32) \<le> unat w + 1"
  by (metis Suc_eq_plus1 le_refl unatSuc add.commute unat_0 zero_le)

lemma rounds_deliver_nothing:
  assumes "fills_buffer H" "i2c (i2c_mgr (sensor r)) \<noteq> None" "run_rounds n p D H r = Some (r', ds)"
  shows "ds = [] \<and> reading_count r' = reading_count r"
  using assms(2,3)
proof (induction n arbitrary: r r' ds)
  case (Suc n)
  then obtain i where i: "i2c (i2c_mgr (sensor r)) = Some i" by auto
  obtain i' res where t: "hal_write_read H (device_addr (sensor r)) [0] (replicate 12 0) i = (i', res)"
    by (cases "hal_write_read H (device_addr (sensor r)) [0] (replicate 12 0) i")
  obtain r1 e where r1: "read_cycle p D H r = Some (r1, Inl e)" "reading_count r1 = reading_count r"
    "i2c (i2c_mgr (sensor r1)) \<noteq> None"
    using read_cycle_outcome [OF assms(1) i t, of p D] Suc.prems(2)
    by (cases res; cases "incr_u32 p (transaction_count (i2c_mgr (sensor r)))") auto
  obtain ds' where "run_rounds n p D H r1 = Some (r', ds')" "ds = ds'"
    using Suc.prems(2) r1(1) by (auto split: bind_splits)
  then show ?case using Suc.IH [OF r1(3)] r1(2) by simp
qed simp

lemma rounds_return:
  assumes "fills_buffer H" "i2c (i2c_mgr (sensor r)) \<noteq> None"
    and "p = ReleaseBuild \<or> unat (transaction_count (i2c_mgr (sensor r))) + n < 2 ^ 32"
  shows "run_rounds n p D H r \<noteq> None"
  using assms(2,3)
proof (induction n arbitrary: r)
  case (Suc n)
  then obtain i where i: "i2c (i2c_mgr (sensor r)) = Some i" by auto
  let ?w = "transaction_count (i2c_mgr (sensor r))"
  obtain i' res where t: "hal_write_read H (device_addr (sensor r)) [0] (replicate 12 0) i = (i', res)"
    by (cases "hal_write_read H (device_addr (sensor r)) [0] (replicate 12 0) i")
  have "incr_u32 p ?w = Some (?w + 1)" using Suc.prems(2) by (intro incr_u32_ok) auto
  then obtain r1 e where r1: "read_cycle p D H r = Some (r1, Inl e)" "i2c (i2c_mgr (sensor r1)) \<noteq> None"
    "transaction_count (i2c_mgr (sensor r1)) \<in> {?w, ?w + 1}"
    using read_cycle_outcome [OF assms(1) i t, of p D] by (cases res) auto
  then have "p = ReleaseBuild \<or> unat (transaction_count (i2c_mgr (sensor r1))) + n < 2 ^ 32"
    using Suc.prems(2) unat_incr_le [of ?w] by auto
  then show ?case using Suc.IH [OF r1(2)] r1(1) by auto
qed simp

lemma rounds_overflow:
  assumes "fills_buffer H" "i2c (i2c_mgr (sensor r)) \<noteq> None"
    and works: "\<And>a out buf i. \<exists>i' bs. hal_write_read H a out buf i = (i', Inr bs)"
    and "2 ^ 32 \<le> unat (transaction_count (i2c_mgr (sensor r))) + n"
  shows "run_rounds n CheckedBuild D H r = None"
  using assms(2,4)
proof (induction n arbitrary: r)
  case 0
  then show ?case
    using unsigned_less [where 'a = nat, of "transaction_count (i2c_mgr (sensor r))"] by simp
next
  case (Suc n)
  then obtain i where i: "i2c (i2c_mgr (sensor r)) = Some i" by auto
  let ?w = "transaction_count (i2c_mgr (sensor r))"
  obtain i' bs where t: "hal_write_read H (device_addr (sensor r)) [0] (replicate 12 0) i = (i', Inr bs)"
    using works by blast
  note out = read_cycle_outcome [OF assms(1) i t, of CheckedBuild D]
  show ?case
  proof (cases "?w = - 1")
    case True
    then show ?thesis using out by (simp add: incr_u32_def)
  next
    case False
    then have "incr_u32 CheckedBuild ?w = Some (?w + 1)" by (simp add: incr_u32_def)
    then obtain r1 where r1: "read_cycle CheckedBuild D H r = Some (r1, Inl InvalidState)"
      "i2c (i2c_mgr (sensor r1)) \<noteq> None" "transaction_count (i2c_mgr (sensor r1)) = ?w + 1"
      using out by auto
    have "1 + ?w \<noteq> 0" using False by (metis add.commute eq_neg_iff_add_eq_0)
    then have "unat (?w + 1) = Suc (unat ?w)" using unatSuc [of ?w] by (simp add: add.commute)
    then show ?thesis using Suc.IH [OF r1(2)] r1 Suc.prems(2) by simp
  qed
qed

text \<open>
  C24. The periodic reader never delivers a reading. On every bus that fills the buffers it is
  given and in either build profile, whenever a number of rounds of the loop ends without a
  panic, the data handler has not been called and no reading has been counted: reading the
  sensor already switches the bus to low power, so the \<open>sleep\<close> that follows is refused and the
  data are dropped. The rounds do end without a panic in the release build, and in the checked
  build as long as the 32-bit transaction counter, which counts the transfers all the same, has
  room for them; on a bus whose transfers succeed the checked build panics as soon as it has not.
\<close>

theorem periodic_reader_never_delivers:
  assumes "fills_buffer H" "i2c (i2c_mgr (sensor r)) \<noteq> None"
  shows "(\<forall>r' ds. run_rounds n p D H r = Some (r', ds) \<longrightarrow> ds = [] \<and> reading_count r' = reading_count r) \<and>
    (p = ReleaseBuild \<or> unat (transaction_count (i2c_mgr (sensor r))) + n < 2 ^ 32 \<longrightarrow>
       run_rounds n p D H r \<noteq> None) \<and>
    ((\<forall>a out buf i. \<exists>i' bs. hal_write_read H a out buf i = (i', Inr bs)) \<and>
     2 ^ 32 \<le> unat (transaction_count (i2c_mgr (sensor r))) + n \<longrightarrow>
       run_rounds n CheckedBuild D H r = None)"
  using rounds_deliver_nothing [OF assms] rounds_return [OF assms] rounds_overflow [OF assms] by blast

definition constant_bus :: "(unit, unit) hal_i2c" where
  "constant_bus = \<lparr>hal_write = (\<lambda>_ _ i. (i, Inr ())), hal_read = (\<lambda>_ buf i. (i, Inr buf)),
     hal_write_read = (\<lambda>_ _ buf i. (i, Inr (replicate (length buf) 7)))\<rparr>"

theorem periodic_reader_never_delivers_witness:
  "\<exists>r'. run_rounds 3 CheckedBuild (\<lambda>_ d. d) constant_bus
      (periodic_reader_new (low_power_sensor_new () () 0x48) 60000) = Some (r', [])"
proof -
  let ?r = "periodic_reader_new (low_power_sensor_new () () 0x48) 60000 :: (unit, unit) periodic_reader"
  have "fills_buffer constant_bus" "i2c (i2c_mgr (sensor ?r)) \<noteq> None"
    and "unat (transaction_count (i2c_mgr (sensor ?r))) + 3 < 2 ^ 32"
    by (simp_all add: fills_buffer_def constant_bus_def periodic_reader_new_def low_power_sensor_new_def
        low_power_i2c_new_def)
  with periodic_reader_never_delivers [of constant_bus ?r 3 CheckedBuild "\<lambda>_ d. d"]
  have "run_rounds 3 CheckedBuild (\<lambda>_ d. d) constant_bus ?r \<noteq> None"
    and "\<forall>r' ds. run_rounds 3 CheckedBuild (\<lambda>_ d. d) constant_bus ?r = Some (r', ds) \<longrightarrow> ds = []"
    by simp_all
  then show ?thesis by fast
qed

text \<open>
  After the peripheral has been given away, the next transfer fails as it should, but leaves the
  manager marked active without a peripheral.
\<close>

lemma transfer_after_sleep:
  "\<exists>s'. burst_write p D H a data (fst (enter_sleep s)) = Some (s', Inl InvalidState) \<and>
     state s' = Active \<and> i2c s' = None"
  by (simp add: enter_sleep_def burst_write_def enable_def transfer_def Let_def)

text \<open>The example of the source, 3300 mV over 10 kilo-ohms, gives 1089000, not the 1089 of its comment.\<close>

lemma pullup_power_example:
  "pullup_power_uw p \<lparr>i2c_freq_khz = 100, pullup_resistance_kohm = 10, supply_voltage_mv = 3300\<rparr> = Some 1089000"
  by (simp add: pullup_power_uw_def udiv_def)

end
