(* ===== verification/I2c_Debugger.thy ===== *)
theory I2c_Debugger
  imports Bus_Io
begin

text \<open>
  \<^verbatim>\<open>I2C/src/41/41.rs\<close>: a debugger that logs I2C transactions, runs test patterns and analyses the log.
  The bus device and the clock are a parameter; errors are their texts. Printed verdicts are
  returned, the lines of the exported files are lists of strings. The bus speed estimate, in
  floating point, is left out.
\<close>

subsection \<open>Transactions\<close>

datatype operation_type = Write | Read | WriteRead

record log_entry =
  timestamp_us :: nat
  log_address :: u8
  log_register :: u8
  log_data :: bytes
  operation :: operation_type
  success :: bool
  error_message :: "string option"

record debugger =
  address :: u8
  transaction_log :: "log_entry list"

text \<open>A combined transfer returns the caller's buffer as it left it, also when it fails.\<close>

record 'w i2cdev =
  dev_write :: "u8 \<Rightarrow> bytes \<Rightarrow> 'w \<Rightarrow> ('w, string, unit) io"
  dev_write_read :: "u8 \<Rightarrow> bytes \<Rightarrow> bytes \<Rightarrow> 'w \<Rightarrow> bytes \<times> ('w, string, unit) io"
  elapsed_us :: "'w \<Rightarrow> nat"
  sleep_us :: "nat \<Rightarrow> 'w \<Rightarrow> 'w"

type_synonym ('w, 'a) dbg_io = "(debugger \<times> 'w, string, 'a) io"

definition debugger_new :: "u8 \<Rightarrow> debugger" where
  "debugger_new a = \<lparr>address = a, transaction_log = []\<rparr>"

definition log_transaction :: "log_entry \<Rightarrow> debugger \<Rightarrow> debugger" where
  "log_transaction e d = d\<lparr>transaction_log := transaction_log d @ [e]\<rparr>"

definition err_of :: "'e + 'a \<Rightarrow> 'e option" where
  "err_of r = (case r of Inl e \<Rightarrow> Some e | Inr _ \<Rightarrow> None)"

definition write_register_debug :: "'w i2cdev \<Rightarrow> u8 \<Rightarrow> bytes \<Rightarrow> debugger \<times> 'w \<Rightarrow> ('w, unit) dbg_io" where
  "write_register_debug D reg data s = (case s of (d, w) \<Rightarrow>
     let timestamp = elapsed_us D w; buffer = [reg] @ data;
         (w, result) = dev_write D (address d) buffer w;
         d = log_transaction \<lparr>timestamp_us = timestamp, log_address = address d, log_register = reg, log_data = data,
               operation = Write, success = (err_of result = None), error_message = err_of result\<rparr> d
     in ((d, w), result))"

definition read_register_debug :: "'w i2cdev \<Rightarrow> u8 \<Rightarrow> bytes \<Rightarrow> debugger \<times> 'w \<Rightarrow> bytes \<times> ('w, unit) dbg_io" where
  "read_register_debug D reg buffer s = (case s of (d, w) \<Rightarrow>
     let timestamp = elapsed_us D w;
         (buffer, (w, result)) = dev_write_read D (address d) [reg] buffer w;
         d = log_transaction \<lparr>timestamp_us = timestamp, log_address = address d, log_register = reg, log_data = buffer,
               operation = Read, success = (err_of result = None), error_message = err_of result\<rparr> d
     in (buffer, ((d, w), result)))"

subsection \<open>Test patterns\<close>

definition dbg_sleep :: "'w i2cdev \<Rightarrow> nat \<Rightarrow> debugger \<times> 'w \<Rightarrow> debugger \<times> 'w" where
  "dbg_sleep D us s = (fst s, sleep_us D us (snd s))"

text \<open>The result says whether the value was read back.\<close>

definition test_basic_transaction :: "'w i2cdev \<Rightarrow> debugger \<times> 'w \<Rightarrow> ('w, bool) dbg_io" where
  "test_basic_transaction D s =
     (let config_value = 0x60 in
      try_io (write_register_debug D 0x01 [config_value] s) (\<lambda>s _.
        (let s = dbg_sleep D 10000 s; (read_back, r) = read_register_debug D 0x01 [0] s
         in try_io r (\<lambda>s _. (s, Inr (read_back ! 0 = config_value))))))"

definition test_burst_write :: "'w i2cdev \<Rightarrow> debugger \<times> 'w \<Rightarrow> ('w, unit) dbg_io" where
  "test_burst_write D s = write_register_debug D 0x00 [0x11, 0x22, 0x33, 0x44, 0x55] s"

definition test_rapid_transactions :: "'w i2cdev \<Rightarrow> debugger \<times> 'w \<Rightarrow> ('w, unit) dbg_io" where
  "test_rapid_transactions D s =
     (fold (\<lambda>i s. dbg_sleep D 100 (fst (snd (read_register_debug D 0x00 [0] s)))) [0..<5] s, Inr ())"

definition test_error_conditions :: "'w i2cdev \<Rightarrow> debugger \<times> 'w \<Rightarrow> debugger \<times> 'w" where
  "test_error_conditions D s =
     (let (data, r) = read_register_debug D 0xFF [0] s;
          (d, w) = fst r;
          original_addr = address d;
          d = d\<lparr>address := 0x7F\<rparr>;
          (data, r) = read_register_debug D 0x00 data (d, w);
          (d, w) = fst r
      in (d\<lparr>address := original_addr\<rparr>, w))"

text \<open>The result is the raw temperature, \<open>(b0 << 4) | (b1 >> 4)\<close> in 16 bits.\<close>

definition test_clock_stretching :: "'w i2cdev \<Rightarrow> debugger \<times> 'w \<Rightarrow> ('w, u16) dbg_io" where
  "test_clock_stretching D s =
     (let (temp_data, r) = read_register_debug D 0x00 [0, 0] s
      in try_io r (\<lambda>s _. (s, Inr (push_bit 4 (ucast (temp_data ! 0)) OR signed_drop_bit 4 (ucast (temp_data ! 1))))))"

definition test_repeated_start :: "'w i2cdev \<Rightarrow> debugger \<times> 'w \<Rightarrow> ('w, unit) dbg_io" where
  "test_repeated_start D s = (let (buffer, r) = read_register_debug D 0x00 [0, 0] s in r)"

text \<open>The sequence of \<open>main\<close>; the results of the tests are dropped.\<close>

definition run_tests :: "'w i2cdev \<Rightarrow> debugger \<times> 'w \<Rightarrow> debugger \<times> 'w" where
  "run_tests D s =
     (let s = dbg_sleep D 100000 (fst (test_basic_transaction D s));
          s = dbg_sleep D 100000 (fst (test_burst_write D s));
          s = dbg_sleep D 100000 (fst (test_rapid_transactions D s));
          s = dbg_sleep D 100000 (test_error_conditions D s);
          s = dbg_sleep D 100000 (fst (test_clock_stretching D s))
      in fst (test_repeated_start D s))"

subsection \<open>Analysis\<close>

text \<open>\<open>log[i].timestamp_us - log[i-1].timestamp_us\<close> panics when the time stamps decrease.\<close>

fun intervals :: "nat list \<Rightarrow> nat list run" where
  "intervals (a # b # ts) = do { i \<leftarrow> usub b a; rest \<leftarrow> intervals (b # ts); Some (i # rest) }"
| "intervals _ = Some []"

record summary =
  total :: nat
  success_count :: nat
  failure_count :: nat
  failed :: "nat list"
  timing :: "(nat \<times> nat \<times> nat) option"
  write_count :: nat
  read_count :: nat

definition print_transaction_summary :: "debugger \<Rightarrow> summary run" where
  "print_transaction_summary d =
     (let log = transaction_log d; good = length (filter success log) in
      do {
        bad \<leftarrow> usub (length log) good;
        let failures = filter (\<lambda>i. \<not> success (log ! i)) [0..<length log];
        times \<leftarrow> (if length log > 1 then
            do {
              is \<leftarrow> intervals (map timestamp_us log);
              avg \<leftarrow> udiv (sum_list is) (length is);
              (if is = [] then None else Some (Some (avg, Min (set is), Max (set is))))
            }
          else Some None);
        Some \<lparr>total = length log, success_count = good, failure_count = bad, failed = failures, timing = times,
          write_count = length (filter (\<lambda>e. operation e = Write) log),
          read_count = length (filter (\<lambda>e. operation e = Read) log)\<rparr>
      })"

definition detect_clock_stretching :: "log_entry list \<Rightarrow> nat list run" where
  "detect_clock_stretching log =
     (if length log < 2 then Some []
      else
        do {
          is \<leftarrow> intervals (map timestamp_us log);
          avg \<leftarrow> udiv (sum_list is) (length is);
          threshold \<leftarrow> umul avg 3;
          Some (map (\<lambda>(i, _). i + 1) (filter (\<lambda>(_, interval). interval > threshold) (enumerate 0 is)))
        })"

subsection \<open>Exports\<close>

definition hex_digit :: "nat \<Rightarrow> char" where
  "hex_digit n = (if n < 10 then char_of (48 + n) else char_of (55 + n))"

definition hex2 :: "u8 \<Rightarrow> string" where
  "hex2 b = [hex_digit (unat b div 16), hex_digit (unat b mod 16)]"

fun join_with :: "string \<Rightarrow> string list \<Rightarrow> string" where
  "join_with sep [] = []"
| "join_with sep [x] = x"
| "join_with sep (x # y # xs) = x @ sep @ join_with sep (y # xs)"

definition quoted :: "string \<Rightarrow> string" where
  "quoted s = [CHR 0x22] @ s @ [CHR 0x22]"

definition csv_line :: "log_entry \<Rightarrow> string" where
  "csv_line e =
     (let data_str = join_with '' '' (map hex2 (log_data e));
          op_str = (case operation e of Write \<Rightarrow> ''WRITE'' | Read \<Rightarrow> ''READ'' | WriteRead \<Rightarrow> ''WRITE_READ'')
      in join_with '','' [string_of_nat (timestamp_us e), ''0x'' @ hex2 (log_address e), ''0x'' @ hex2 (log_register e),
           string_of_nat (length (log_data e)), op_str, (if success e then ''true'' else ''false''), quoted data_str,
           quoted (case error_message e of None \<Rightarrow> [] | Some m \<Rightarrow> m)])"

definition export_csv :: "debugger \<Rightarrow> string list" where
  "export_csv d = ''Timestamp_us,Address,Register,Length,Operation,Success,Data,Error'' # map csv_line (transaction_log d)"

definition vcd_header :: "string list" where
  "vcd_header = [''$version Generated by I2C Debugger $end'', ''$timescale 1us $end'', ''$scope module i2c $end'',
     ''$var wire 1 ! sda $end'', ''$var wire 1 @ scl $end'', ''$upscope $end'', ''$enddefinitions $end'']"

datatype vcd_item = At nat | Low | High

definition vcd_body :: "debugger \<Rightarrow> vcd_item list" where
  "vcd_body d = concat (map (\<lambda>e. [At (timestamp_us e), Low, At (timestamp_us e + 1), High]) (transaction_log d))"

definition vcd_text :: "vcd_item \<Rightarrow> string" where
  "vcd_text x = (case x of At t \<Rightarrow> ''#'' @ string_of_nat t | Low \<Rightarrow> ''0!'' | High \<Rightarrow> ''1!'')"

definition export_vcd :: "debugger \<Rightarrow> string list" where
  "export_vcd d = vcd_header @ map vcd_text (vcd_body d)"

subsection \<open>The log against the bus\<close>

text \<open>
  A device that records what happens on the bus: the time at which a transfer starts, the
  address, the bytes sent, the number of bytes asked for and those read, and the error.
\<close>

datatype bus_event =
    BusWrite nat u8 bytes "string option"
  | BusRead nat u8 bytes nat bytes "string option"

definition traced :: "'w i2cdev \<Rightarrow> ('w \<times> bus_event list) i2cdev" where
  "traced D = \<lparr>
     dev_write = (\<lambda>a bs (w, tr). case dev_write D a bs w of
        (w', r) \<Rightarrow> ((w', tr @ [BusWrite (elapsed_us D w) a bs (err_of r)]), r)),
     dev_write_read = (\<lambda>a bs buf (w, tr). case dev_write_read D a bs buf w of
        (buf', (w', r)) \<Rightarrow>
          (buf', ((w', tr @ [BusRead (elapsed_us D w) a bs (length buf) buf' (err_of r)]), r))),
     elapsed_us = (\<lambda>(w, tr). elapsed_us D w), sleep_us = (\<lambda>n (w, tr). (sleep_us D n w, tr))\<rparr>"

lemma traced_simps [simp]:
  "dev_write (traced D) a bs (w, tr) =
     (case dev_write D a bs w of (w', r) \<Rightarrow> ((w', tr @ [BusWrite (elapsed_us D w) a bs (err_of r)]), r))"
  "dev_write_read (traced D) a bs buf (w, tr) = (case dev_write_read D a bs buf w of
     (buf', (w', r)) \<Rightarrow> (buf', ((w', tr @ [BusRead (elapsed_us D w) a bs (length buf) buf' (err_of r)]), r)))"
  "elapsed_us (traced D) (w, tr) = elapsed_us D w" "sleep_us (traced D) n (w, tr) = (sleep_us D n w, tr)"
  by (simp_all add: traced_def)

fun event_time :: "bus_event \<Rightarrow> nat" where
  "event_time (BusWrite t a bs e) = t"
| "event_time (BusRead t a bs n buf e) = t"

fun event_error :: "bus_event \<Rightarrow> string option" where
  "event_error (BusWrite t a bs e) = e"
| "event_error (BusRead t a bs n buf e) = e"

fun is_write :: "bus_event \<Rightarrow> bool" where
  "is_write (BusWrite t a bs e) = True"
| "is_write (BusRead t a bs n buf e) = False"

text \<open>The entry that belongs to a transfer: the first byte sent is the register.\<close>

fun entry_of :: "bus_event \<Rightarrow> log_entry" where
  "entry_of (BusWrite t a bs e) = \<lparr>timestamp_us = t, log_address = a, log_register = hd bs, log_data = tl bs,
     operation = Write, success = (e = None), error_message = e\<rparr>"
| "entry_of (BusRead t a bs n buf e) = \<lparr>timestamp_us = t, log_address = a, log_register = hd bs, log_data = buf,
     operation = Read, success = (e = None), error_message = e\<rparr>"

text \<open>The transfers the tests are meant to make: address, bytes sent, and the number of bytes asked for.\<close>

fun asked :: "bus_event \<Rightarrow> u8 \<times> bytes \<times> nat" where
  "asked (BusWrite t a bs e) = (a, bs, 0)"
| "asked (BusRead t a bs n buf e) = (a, bs, n)"

definition test_script :: "u8 \<Rightarrow> bool \<Rightarrow> (u8 \<times> bytes \<times> nat) list" where
  "test_script a written =
     [(a, [0x01, 0x60], 0)] @ (if written then [(a, [0x01], 1)] else []) @
     [(a, [0x00, 0x11, 0x22, 0x33, 0x44, 0x55], 0)] @ replicate 5 (a, [0x00], 1) @
     [(a, [0xFF], 1), (0x7F, [0x00], 1), (a, [0x00], 2), (a, [0x00], 2)]"

definition clock_runs :: "'w i2cdev \<Rightarrow> bool" where
  "clock_runs D \<longleftrightarrow> (\<forall>a bs buf n w. elapsed_us D w \<le> elapsed_us D (fst (dev_write D a bs w)) \<and>
     elapsed_us D w \<le> elapsed_us D (fst (snd (dev_write_read D a bs buf w))) \<and>
     elapsed_us D w \<le> elapsed_us D (sleep_us D n w))"

text \<open>A transfer cannot change the length of the caller's buffer.\<close>

definition in_place :: "'w i2cdev \<Rightarrow> bool" where
  "in_place D \<longleftrightarrow> (\<forall>a bs buf w. length (fst (dev_write_read D a bs buf w)) = length buf)"

definition log_inv :: "'w i2cdev \<Rightarrow> u8 \<Rightarrow> (u8 \<times> bytes \<times> nat) list \<Rightarrow> debugger \<times> 'w \<times> bus_event list \<Rightarrow> bool" where
  "log_inv D a sc s \<longleftrightarrow> (case s of (d, w, tr) \<Rightarrow> address d = a \<and> transaction_log d = map entry_of tr \<and>
     map asked tr = sc \<and> sorted (map event_time tr) \<and> (\<forall>e \<in> set tr. event_time e \<le> elapsed_us D w))"

lemma entry_of_time [simp]: "timestamp_us (entry_of e) = event_time e"
  by (cases e) simp_all

lemma entry_of_success [simp]: "success (entry_of e) \<longleftrightarrow> event_error e = None"
  by (cases e) simp_all

lemma entry_of_operation:
  "operation (entry_of e) = Write \<longleftrightarrow> is_write e" "operation (entry_of e) = Read \<longleftrightarrow> \<not> is_write e"
  by (cases e; simp)+

text \<open>Time passes: the events stay before the present.\<close>

lemma log_inv_event:
  assumes "log_inv D a sc (d, w, tr)" "event_time e = elapsed_us D w" "elapsed_us D w \<le> elapsed_us D w'"
    and "address d' = a" "transaction_log d' = transaction_log d @ [entry_of e]"
  shows "log_inv D a (sc @ [asked e]) (d', w', tr @ [e])"
  using assms by (fastforce simp: log_inv_def sorted_append)

lemma log_inv_write:
  assumes "clock_runs D" "log_inv D a sc s"
  shows "log_inv D a (sc @ [(a, reg # data, 0)]) (fst (write_register_debug (traced D) reg data s))"
    and "event_error (last (snd (snd (fst (write_register_debug (traced D) reg data s))))) =
      err_of (snd (write_register_debug (traced D) reg data s))"
proof -
  obtain d w tr where s: "s = (d, w, tr)" by (cases s)
  obtain w' r where r: "dev_write D (address d) (reg # data) w = (w', r)" by fastforce
  have "elapsed_us D w \<le> elapsed_us D w'"
    using assms(1) unfolding clock_runs_def by (metis r fst_conv)
  then show "log_inv D a (sc @ [(a, reg # data, 0)]) (fst (write_register_debug (traced D) reg data s))"
    using log_inv_event [of D a sc d w tr "BusWrite (elapsed_us D w) a (reg # data) (err_of r)" w'] assms(2)
    by (auto simp: s r write_register_debug_def log_transaction_def log_inv_def [of D a sc])
  show "event_error (last (snd (snd (fst (write_register_debug (traced D) reg data s))))) =
      err_of (snd (write_register_debug (traced D) reg data s))"
    by (simp add: s r write_register_debug_def)
qed

lemma log_inv_read:
  assumes "clock_runs D" "log_inv D a sc s"
  shows "log_inv D a (sc @ [(a, [reg], length buf)]) (fst (snd (read_register_debug (traced D) reg buf s)))"
proof -
  obtain d w tr where s: "s = (d, w, tr)" by (cases s)
  obtain buf' w' r where r: "dev_write_read D (address d) [reg] buf w = (buf', (w', r))" by (metis prod.exhaust)
  have "elapsed_us D w \<le> elapsed_us D w'"
    using assms(1) unfolding clock_runs_def by (metis r fst_conv snd_conv)
  then show ?thesis
    using log_inv_event [of D a sc d w tr "BusRead (elapsed_us D w) a [reg] (length buf) buf' (err_of r)" w'] assms(2)
    by (auto simp: s r read_register_debug_def log_transaction_def log_inv_def [of D a sc])
qed

lemma read_length:
  "in_place D \<Longrightarrow> length (fst (read_register_debug (traced D) reg buf s)) = length buf"
proof -
  assume "in_place D"
  moreover obtain d w tr where "s = (d, w, tr)" by (cases s)
  moreover obtain buf' w' r where "dev_write_read D (address d) [reg] buf w = (buf', (w', r))" by (metis prod.exhaust)
  ultimately show ?thesis
    unfolding in_place_def by (simp add: read_register_debug_def) (metis fst_conv)
qed

lemma log_inv_sleep: "clock_runs D \<Longrightarrow> log_inv D a sc s \<Longrightarrow> log_inv D a sc (dbg_sleep (traced D) n s)"
  by (cases s) (fastforce simp: log_inv_def dbg_sleep_def clock_runs_def intro: order_trans)

lemma log_inv_readdress: "log_inv D a sc (d, w) \<Longrightarrow> log_inv D b sc (d\<lparr>address := b\<rparr>, w)"
  by (cases w) (simp add: log_inv_def)

subsection \<open>The tests on the bus\<close>

lemma sleep_trace [simp]: "snd (snd (dbg_sleep (traced D) n s)) = snd (snd s)"
  by (cases s) (simp add: dbg_sleep_def)

text \<open>The first test, from a fresh debugger: the read-back is made if the write succeeds.\<close>

lemma log_inv_basic:
  assumes "clock_runs D" "log_inv D a [] s"
  shows "\<exists>ok. log_inv D a ([(a, [0x01, 0x60], 0)] @ (if ok then [(a, [0x01], 1)] else []))
      (fst (test_basic_transaction (traced D) s)) \<and>
    (event_error (hd (snd (snd (fst (test_basic_transaction (traced D) s))))) = None \<longleftrightarrow> ok)"
proof -
  let ?w = "write_register_debug (traced D) 0x01 [0x60] s"
  obtain s1 r where w: "?w = (s1, r)" by (cases ?w)
  have inv: "log_inv D a [(a, [0x01, 0x60], 0)] s1" and err: "event_error (last (snd (snd s1))) = err_of r"
    using log_inv_write [OF assms, of "0x01" "[0x60]"] w by simp_all
  then obtain e where tr: "snd (snd s1) = [e]" by (cases s1) (auto simp: log_inv_def)
  show ?thesis
  proof (cases r)
    case (Inl x)
    then show ?thesis using inv err tr w
      by (intro exI [of _ False]) (simp add: test_basic_transaction_def err_of_def)
  next
    case (Inr u)
    let ?rd = "read_register_debug (traced D) 0x01 [0] (dbg_sleep (traced D) 10000 s1)"
    have "fst (test_basic_transaction (traced D) s) = fst (snd ?rd)"
      using w Inr by (cases "snd (snd ?rd)"; cases "snd ?rd") (auto simp: test_basic_transaction_def case_prod_beta Let_def)
    moreover have "log_inv D a ([(a, [0x01, 0x60], 0)] @ [(a, [0x01], 1)]) (fst (snd ?rd))"
      using log_inv_read [OF assms(1) log_inv_sleep [OF assms(1) inv], of "0x01" "[0]"] by simp
    moreover have "hd (snd (snd (fst (snd ?rd)))) = e"
      using tr by (cases s1) (auto simp: read_register_debug_def dbg_sleep_def split: prod.splits)
    ultimately show ?thesis using err tr Inr
      by (intro exI [of _ True]) (simp add: err_of_def)
  qed
qed

lemma log_inv_tests:
  assumes "clock_runs D" "in_place D" "log_inv D a sc s"
  shows "log_inv D a (sc @ [(a, [0x00, 0x11, 0x22, 0x33, 0x44, 0x55], 0)]) (fst (test_burst_write (traced D) s))"
    "log_inv D a (sc @ replicate 5 (a, [0x00], 1)) (fst (test_rapid_transactions (traced D) s))"
    "log_inv D a (sc @ [(a, [0xFF], 1), (0x7F, [0x00], 1)]) (test_error_conditions (traced D) s)"
    "log_inv D a (sc @ [(a, [0x00], 2)]) (fst (test_clock_stretching (traced D) s))"
    "log_inv D a (sc @ [(a, [0x00], 2)]) (fst (test_repeated_start (traced D) s))"
proof -
  note read = log_inv_read [OF assms(1)]
  show "log_inv D a (sc @ [(a, [0x00, 0x11, 0x22, 0x33, 0x44, 0x55], 0)]) (fst (test_burst_write (traced D) s))"
    unfolding test_burst_write_def by (rule log_inv_write(1) [OF assms(1,3)])
  have "log_inv D a (sc @ replicate (length is) (a, [0x00], 1))
      (fold (\<lambda>i s. dbg_sleep (traced D) 100 (fst (snd (read_register_debug (traced D) 0x00 [0] s)))) is s)"
    for "is" :: "nat list" using assms(3)
  proof (induction "is" arbitrary: s sc)
    case (Cons i "is")
    from Cons.IH [OF log_inv_sleep [OF assms(1) read [OF Cons.prems, of "0x00" "[0]"], of 100]] show ?case by simp
  qed simp
  from this [of "[0..<5]"] show "log_inv D a (sc @ replicate 5 (a, [0x00], 1)) (fst (test_rapid_transactions (traced D) s))"
    by (simp add: test_rapid_transactions_def)
  show "log_inv D a (sc @ [(a, [0xFF], 1), (0x7F, [0x00], 1)]) (test_error_conditions (traced D) s)"
  proof -
    let ?r = "read_register_debug (traced D) 0xFF [0] s"
    have 1: "log_inv D a (sc @ [(a, [0xFF], 1)]) (fst (snd ?r))" using read [OF assms(3), of "0xFF" "[0]"] by simp
    then have "address (fst (fst (snd ?r))) = a" by (simp add: log_inv_def case_prod_beta)
    moreover have "log_inv D 0x7F (sc @ [(a, [0xFF], 1)]) ((fst (fst (snd ?r)))\<lparr>address := 0x7F\<rparr>, snd (fst (snd ?r)))"
      using log_inv_readdress [of D a _ "fst (fst (snd ?r))" "snd (fst (snd ?r))"] 1 by simp
    note 2 = read [OF this, of "0x00" "fst ?r"]
    have "length (fst ?r) = 1" using read_length [OF assms(2), of "0xFF" "[0]" s] by simp
    ultimately show ?thesis
      using 2 log_inv_readdress [of D "0x7F" "sc @ [(a, [0xFF], 1), (0x7F, [0x00], 1)]"]
      unfolding test_error_conditions_def Let_def case_prod_beta by simp
  qed
  show "log_inv D a (sc @ [(a, [0x00], 2)]) (fst (test_clock_stretching (traced D) s))"
    using read [OF assms(3), of "0x00" "[0, 0]"]
    by (cases "snd (snd (read_register_debug (traced D) 0x00 [0, 0] s))";
        cases "snd (read_register_debug (traced D) 0x00 [0, 0] s)")
      (auto simp: test_clock_stretching_def Let_def case_prod_beta numeral_2_eq_2)
  show "log_inv D a (sc @ [(a, [0x00], 2)]) (fst (test_repeated_start (traced D) s))"
    using read [OF assms(3), of "0x00" "[0, 0]"]
    by (simp add: test_repeated_start_def Let_def case_prod_beta numeral_2_eq_2)
qed

text \<open>The tests only add events, so the first one stays the first.\<close>

definition grew :: "bus_event list \<Rightarrow> debugger \<times> 'w \<times> bus_event list \<Rightarrow> bool" where
  "grew tr s \<longleftrightarrow> (\<exists>es. snd (snd s) = tr @ es)"

lemma grew_steps:
  "grew tr s \<Longrightarrow> grew tr (fst (write_register_debug (traced D) reg data s))"
  "grew tr s \<Longrightarrow> grew tr (fst (snd (read_register_debug (traced D) reg buf s)))"
  "grew tr s \<Longrightarrow> grew tr (dbg_sleep (traced D) n s)"
  by (cases s; auto simp: grew_def write_register_debug_def read_register_debug_def split: prod.splits)+

lemma grew_tests:
  assumes "grew tr s"
  shows "grew tr (fst (test_burst_write (traced D) s))" "grew tr (fst (test_rapid_transactions (traced D) s))"
    "grew tr (test_error_conditions (traced D) s)" "grew tr (fst (test_clock_stretching (traced D) s))"
    "grew tr (fst (test_repeated_start (traced D) s))"
proof -
  show "grew tr (fst (test_burst_write (traced D) s))"
    unfolding test_burst_write_def by (rule grew_steps(1) [OF assms])
  have "grew tr (fold (\<lambda>i s. dbg_sleep (traced D) 100 (fst (snd (read_register_debug (traced D) 0x00 [0] s)))) is s)"
    for "is" :: "nat list" using assms by (induction "is" arbitrary: s) (simp_all add: grew_steps)
  then show "grew tr (fst (test_rapid_transactions (traced D) s))" by (simp add: test_rapid_transactions_def)
  have "grew tr (d\<lparr>address := b\<rparr>, w) = grew tr (d, w)" for d b and w :: "'a \<times> bus_event list"
    by (simp add: grew_def)
  then show "grew tr (test_error_conditions (traced D) s)"
    using grew_steps(2) [OF assms, of D "0xFF" "[0]"] grew_steps(2) [of tr _ D "0x00"]
    unfolding test_error_conditions_def Let_def case_prod_beta by (metis prod.collapse)
  show "grew tr (fst (test_clock_stretching (traced D) s))"
    unfolding test_clock_stretching_def Let_def case_prod_beta
    by (rule try_io_keeps [where P = "grew tr"]) (simp_all add: grew_steps assms)
  show "grew tr (fst (test_repeated_start (traced D) s))"
    unfolding test_repeated_start_def Let_def case_prod_beta by (rule grew_steps(2) [OF assms])
qed

text \<open>The whole sequence.\<close>

lemma log_inv_run:
  assumes "clock_runs D" "in_place D" "run_tests (traced D) (debugger_new a, (w0, [])) = (d, (w, tr))"
  shows "log_inv D a (test_script a (event_error (hd tr) = None)) (d, (w, tr))"
proof -
  let ?s0 = "(debugger_new a, (w0, [])) :: debugger \<times> 'a \<times> bus_event list"
  have "log_inv D a [] ?s0" by (simp add: log_inv_def debugger_new_def)
  then obtain ok where s1: "log_inv D a ([(a, [0x01, 0x60], 0)] @ (if ok then [(a, [0x01], 1)] else []))
      (fst (test_basic_transaction (traced D) ?s0))"
    and ok: "event_error (hd (snd (snd (fst (test_basic_transaction (traced D) ?s0))))) = None \<longleftrightarrow> ok"
    using log_inv_basic [OF assms(1)] by blast
  let ?t = "snd (snd (fst (test_basic_transaction (traced D) ?s0)))"
  have "?t \<noteq> []" using s1 by (auto simp: log_inv_def case_prod_beta)
  have "grew ?t (run_tests (traced D) ?s0)"
    unfolding run_tests_def Let_def by (intro grew_tests grew_steps) (simp add: grew_def)
  then have "hd tr = hd ?t" using \<open>?t \<noteq> []\<close> unfolding assms(3) by (auto simp: grew_def)
  moreover have "log_inv D a (test_script a ok) (run_tests (traced D) ?s0)"
  proof -
    note sleep = log_inv_sleep [OF assms(1), where n = 100000] and tests = log_inv_tests [OF assms(1,2)]
    from tests(5) [OF sleep [OF tests(4) [OF sleep [OF tests(3) [OF sleep [OF tests(2) [OF sleep
      [OF tests(1) [OF sleep [OF s1]]]]]]]]]]
    show ?thesis unfolding run_tests_def Let_def test_script_def by simp
  qed
  ultimately show ?thesis using ok unfolding assms(3) by simp
qed

subsection \<open>Intervals\<close>

lemma intervals_sorted:
  "sorted ts \<Longrightarrow> \<exists>is. intervals ts = Some is \<and> length is = length ts - 1 \<and>
     (ts \<noteq> [] \<longrightarrow> sum_list is = last ts - hd ts) \<and> (\<forall>i < length is. is ! i = ts ! Suc i - ts ! i)"
proof (induction ts rule: intervals.induct)
  case (1 a b ts)
  have u: "usub b a = Some (b - a)" using 1(2) by (simp add: usub_def)
  then obtain "is" where i: "intervals (b # ts) = Some is" "length is = length ts"
      "sum_list is = last (b # ts) - b" "\<forall>i < length is. is ! i = (b # ts) ! Suc i - (b # ts) ! i"
    using 1(1) [OF u] 1(2) by auto
  have ab: "a \<le> b" "b \<le> last (b # ts)" using 1(2) by (cases ts rule: rev_cases; force)+
  have "(((b - a) # is) ! i = (a # b # ts) ! Suc i - (a # b # ts) ! i)" if "i < Suc (length is)" for i
    using i(4) that by (cases i) auto
  then show ?case using i ab u by auto
qed simp_all

lemma average_between:
  assumes "(is :: nat list) \<noteq> []"
  shows "Min (set is) \<le> sum_list is div length is" "sum_list is div length is \<le> Max (set is)"
proof -
  have "length is * Min (set is) \<le> sum_list is"
    using sum_list_mono [of "is" "\<lambda>_. Min (set is)" "\<lambda>x. x"] by (simp add: sum_list_triv)
  then show "Min (set is) \<le> sum_list is div length is"
    using assms by (simp add: less_eq_div_iff_mult_less_eq mult.commute)
  have "sum_list is \<le> length is * Max (set is)"
    using sum_list_mono [of "is" "\<lambda>x. x" "\<lambda>_. Max (set is)"] by (simp add: sum_list_triv)
  then show "sum_list is div length is \<le> Max (set is)"
    using assms div_le_mono [of "sum_list is" "length is * Max (set is)" "length is"] by simp
qed

text \<open>
  C30. The log is what happened. When the clock does not run backwards and transfers keep the
  length of the caller's buffer, then on any device and whatever fails, the test sequence makes
  exactly the transfers of its script (the read-back of the first test only if its write
  succeeded); the log has one entry for each transfer, in order, with the time it started, its
  address, register, data, kind, success flag and error; the debugger has its own address again
  although one test uses a wrong one. The summary does not panic: it counts exactly the transfers
  without and with an error, lists the indices of the latter, counts exactly the writes and the
  reads, and gives the average, shortest and longest interval between the starts of transfers,
  the average lying between the other two.
\<close>

theorem debug_session_faithful:
  assumes "clock_runs D" "in_place D"
  shows "\<exists>d w tr sm. run_tests (traced D) (debugger_new a, (w0, [])) = (d, (w, tr)) \<and>
    map asked tr = test_script a (event_error (hd tr) = None) \<and>
    transaction_log d = map entry_of tr \<and> address d = a \<and> print_transaction_summary d = Some sm \<and>
    total sm = length tr \<and>
    success_count sm = length (filter (\<lambda>e. event_error e = None) tr) \<and>
    failure_count sm = length (filter (\<lambda>e. event_error e \<noteq> None) tr) \<and>
    failed sm = filter (\<lambda>i. event_error (tr ! i) \<noteq> None) [0..<length tr] \<and>
    write_count sm = length (filter is_write tr) \<and> read_count sm = length (filter (\<lambda>e. \<not> is_write e) tr) \<and>
    (let is = map (\<lambda>i. event_time (tr ! Suc i) - event_time (tr ! i)) [0..<length tr - 1];
         avg = (event_time (last tr) - event_time (hd tr)) div length is
     in timing sm = Some (avg, Min (set is), Max (set is)) \<and> Min (set is) \<le> avg \<and> avg \<le> Max (set is))"
proof -
  obtain d w tr where run: "run_tests (traced D) (debugger_new a, (w0, [])) = (d, (w, tr))" by (metis prod.exhaust)
  have inv: "address d = a" "transaction_log d = map entry_of tr" "sorted (map event_time tr)"
    "map asked tr = test_script a (event_error (hd tr) = None)"
    using log_inv_run [OF assms run] by (simp_all add: log_inv_def)
  have "length (test_script a ok) > 1" for ok by (simp add: test_script_def)
  then have long: "length tr > 1" using inv(4) by (metis length_map)
  then have ne: "tr \<noteq> []" by auto
  obtain "is" where i: "intervals (map event_time tr) = Some is" "length is = length tr - 1"
    "sum_list is = event_time (last tr) - event_time (hd tr)"
    "\<forall>i < length is. is ! i = map event_time tr ! Suc i - map event_time tr ! i"
    using intervals_sorted [OF inv(3)] ne by (auto simp: last_map hd_map)
  have is_eq: "is = map (\<lambda>i. event_time (tr ! Suc i) - event_time (tr ! i)) [0..<length tr - 1]"
    using i(2,4) by (intro nth_equalityI) auto
  have nonempty: "is \<noteq> []" using i(2) long by auto
  let ?avg = "(event_time (last tr) - event_time (hd tr)) div length is"
  have avg: "udiv (sum_list is) (length is) = Some ?avg" using nonempty i(3) by (simp add: udiv_def)
  have good: "length (filter success (map entry_of tr)) = length (filter (\<lambda>e. event_error e = None) tr)"
    by (simp add: filter_map comp_def)
  have bad: "usub (length tr) (length (filter (\<lambda>e. event_error e = None) tr)) =
      Some (length (filter (\<lambda>e. event_error e \<noteq> None) tr))"
    using sum_length_filter_compl [of "\<lambda>e. event_error e = None" tr] by (simp add: usub_def)
  have fails: "filter (\<lambda>i. \<not> success (map entry_of tr ! i)) [0..<length tr] =
      filter (\<lambda>i. event_error (tr ! i) \<noteq> None) [0..<length tr]"
    by (rule filter_cong) auto
  have times: "map timestamp_us (map entry_of tr) = map event_time tr" by simp
  let ?sm = "\<lparr>total = length tr, success_count = length (filter (\<lambda>e. event_error e = None) tr),
    failure_count = length (filter (\<lambda>e. event_error e \<noteq> None) tr),
    failed = filter (\<lambda>i. event_error (tr ! i) \<noteq> None) [0..<length tr],
    timing = Some (?avg, Min (set is), Max (set is)), write_count = length (filter is_write tr),
    read_count = length (filter (\<lambda>e. \<not> is_write e) tr)\<rparr>"
  have "print_transaction_summary d = Some ?sm"
    using long nonempty
    unfolding print_transaction_summary_def inv(2) Let_def good length_map bad fails times i(1)
    by (simp add: avg filter_map comp_def entry_of_operation)
  moreover have "Min (set is) \<le> ?avg \<and> ?avg \<le> Max (set is)"
    using average_between [OF nonempty] i(3) by simp
  then have "let is = map (\<lambda>i. event_time (tr ! Suc i) - event_time (tr ! i)) [0..<length tr - 1];
         avg = (event_time (last tr) - event_time (hd tr)) div length is
     in timing ?sm = Some (avg, Min (set is), Max (set is)) \<and> Min (set is) \<le> avg \<and> avg \<le> Max (set is)"
    unfolding Let_def is_eq [symmetric] by simp
  ultimately show ?thesis
    using run inv by (intro exI [of _ d] exI [of _ w] exI [of _ tr] exI [of _ ?sm] conjI) (assumption | simp)+
qed

definition memory_device :: "nat i2cdev" where
  "memory_device = \<lparr>dev_write = (\<lambda>a bs w. (w + 90, if a = 0x48 then Inr () else Inl ''NACK'')),
     dev_write_read = (\<lambda>a bs buf w. (map (\<lambda>_. 0x60) buf, (w + 120, if a = 0x48 then Inr () else Inl ''NACK''))),
     elapsed_us = (\<lambda>w. w), sleep_us = (\<lambda>n w. w + n)\<rparr>"

theorem debug_session_faithful_witness:
  "\<exists>d w tr sm. run_tests (traced memory_device) (debugger_new 0x48, (0, [])) = (d, (w, tr)) \<and>
     transaction_log d = map entry_of tr \<and> address d = 0x48 \<and> print_transaction_summary d = Some sm \<and>
     success_count sm + failure_count sm = 11 + (if event_error (hd tr) = None then 1 else 0)"
proof -
  have "clock_runs memory_device" "in_place memory_device"
    by (simp_all add: clock_runs_def in_place_def memory_device_def)
  from debug_session_faithful [OF this, of "0x48" 0] obtain d w tr sm where
    "run_tests (traced memory_device) (debugger_new 0x48, (0, [])) = (d, (w, tr))"
    "map asked tr = test_script 0x48 (event_error (hd tr) = None)" "transaction_log d = map entry_of tr"
    "address d = 0x48" "print_transaction_summary d = Some sm"
    "success_count sm = length (filter (\<lambda>e. event_error e = None) tr)"
    "failure_count sm = length (filter (\<lambda>e. event_error e \<noteq> None) tr)" by blast
  moreover have "length tr = 11 + (if event_error (hd tr) = None then 1 else 0)"
    using arg_cong [OF calculation(2), of length] by (simp add: test_script_def)
  ultimately show ?thesis using sum_length_filter_compl [of "\<lambda>e. event_error e = None" tr] by auto
qed

subsection \<open>Detection of clock stretching\<close>

lemma enumerate_filter_increasing: "sorted_wrt (<) (map fst (filter P (enumerate n xs)))"
proof -
  have "sorted_wrt (\<lambda>x y. fst x < fst y) (enumerate n xs)"
    using sorted_wrt_map [of "(<)" fst "enumerate n xs"] by simp
  then show ?thesis by (simp add: sorted_wrt_map sorted_wrt_filter)
qed

lemma enumerate_flagged: "map fst (filter (\<lambda>(_, x). P x) (enumerate 0 xs)) = filter (\<lambda>i. P (xs ! i)) [0..<length xs]"
proof (induction xs rule: rev_induct)
  case (snoc x xs)
  have "filter (\<lambda>i. P ((xs @ [x]) ! i)) [0..<length xs] = filter (\<lambda>i. P (xs ! i)) [0..<length xs]"
    by (rule filter_cong) (auto simp: nth_append)
  then show ?case using snoc by (simp add: enumerate_append_eq)
qed simp

lemma flagged_sum:
  "length (filter (\<lambda>i. t < xs ! i) [0..<length xs]) * Suc t \<le> sum_list xs"
proof (induction xs rule: rev_induct)
  case (snoc x xs)
  have "filter (\<lambda>i. t < (xs @ [x]) ! i) [0..<length xs] = filter (\<lambda>i. t < xs ! i) [0..<length xs]"
    by (rule filter_cong) (auto simp: nth_append)
  then show ?case using snoc by simp
qed simp

lemma half_bound: "0 < (a :: nat) \<Longrightarrow> 2 * k * (a + 1) \<le> (k + 1) * Suc (3 * a)"
  by (cases a) (simp_all add: algebra_simps)

text \<open>
  The detector reports exactly the transactions that come more than three times the average
  interval after their predecessor, in order and without a panic as long as the time stamps
  increase; and when the average is at least a microsecond it can never report half of the
  transactions or more: a device that stretches every other transfer goes unnoticed in part.
\<close>

theorem stretching_detector_exact:
  assumes "sorted (map timestamp_us log)" "2 \<le> length log" "3 * timestamp_us (last log) < usize_bound"
  defines "avg \<equiv> (timestamp_us (last log) - timestamp_us (hd log)) div (length log - 1)"
  shows "\<exists>idx. detect_clock_stretching log = Some idx \<and> sorted_wrt (<) idx \<and>
    (\<forall>j. j \<in> set idx \<longleftrightarrow> 0 < j \<and> j < length log \<and>
      3 * avg < timestamp_us (log ! j) - timestamp_us (log ! (j - 1))) \<and>
    (0 < avg \<longrightarrow> 2 * length idx < length log)"
proof -
  let ?ts = "map timestamp_us log"
  have ne: "log \<noteq> []" using assms(2) by auto
  obtain "is" where i: "intervals ?ts = Some is" "length is = length log - 1" "sum_list is = last ?ts - hd ?ts"
    "\<forall>i < length is. is ! i = ?ts ! Suc i - ?ts ! i"
    using intervals_sorted [OF assms(1)] ne by auto
  have avg: "sum_list is div length is = avg" using i ne by (simp add: avg_def last_map hd_map)
  let ?f = "filter (\<lambda>i. 3 * avg < is ! i) [0..<length is]"
  have "avg \<le> timestamp_us (last log)"
    unfolding avg_def by (rule order_trans [OF div_le_dividend diff_le_self])
  then have "umul avg 3 = Some (3 * avg)" using assms(3) by (simp add: umul_def)
  moreover have "udiv (sum_list is) (length is) = Some avg" using avg i(2) assms(2) by (simp add: udiv_def)
  moreover have "map (\<lambda>(i, _). i + 1) (filter (\<lambda>(_, x). 3 * avg < x) (enumerate 0 is)) = map Suc ?f"
    unfolding enumerate_flagged [of "\<lambda>x. 3 * avg < x", symmetric] by (simp add: case_prod_beta)
  ultimately have det: "detect_clock_stretching log = Some (map Suc ?f)"
    using assms(2) i(1) by (simp add: detect_clock_stretching_def)
  have "sorted_wrt (<) (map Suc ?f)" by (simp add: sorted_wrt_map sorted_wrt_filter)
  moreover have "j \<in> set (map Suc ?f) \<longleftrightarrow> 0 < j \<and> j < length log \<and>
      3 * avg < timestamp_us (log ! j) - timestamp_us (log ! (j - 1))" for j
    using i(2,4) by (cases j) auto
  moreover have "2 * length (map Suc ?f) < length log" if "0 < avg"
  proof (rule ccontr)
    let ?c = "length ?f" and ?k = "length is"
    assume "\<not> 2 * length (map Suc ?f) < length log"
    then have c: "?k + 1 \<le> 2 * ?c" using i(2) assms(2) by simp
    have "?c * Suc (3 * avg) \<le> sum_list is" by (rule flagged_sum)
    moreover have "sum_list is < ?k * (avg + 1)"
      using avg i(2) assms(2) div_less_iff_less_mult [of ?k "sum_list is" "avg + 1"] by (simp add: mult.commute)
    ultimately have "2 * ?c * Suc (3 * avg) < 2 * ?k * (avg + 1)" by simp
    moreover have "(?k + 1) * Suc (3 * avg) \<le> 2 * ?c * Suc (3 * avg)" by (rule mult_le_mono1 [OF c])
    moreover have "2 * ?k * (avg + 1) \<le> (?k + 1) * Suc (3 * avg)" by (rule half_bound [OF that])
    ultimately show False by linarith
  qed
  ultimately show ?thesis using det by auto
qed

definition burst_log :: "log_entry list" where
  "burst_log = map (\<lambda>t. \<lparr>timestamp_us = t, log_address = 0x48, log_register = 0, log_data = [0], operation = Read,
     success = True, error_message = None\<rparr>) [0, 10, 20, 30, 40, 200]"

theorem stretching_detector_exact_witness:
  "\<exists>idx. detect_clock_stretching burst_log = Some idx \<and> 5 \<in> set idx \<and> 2 * length idx < 6"
proof -
  have "sorted (map timestamp_us burst_log)" "2 \<le> length burst_log" "3 * timestamp_us (last burst_log) < usize_bound"
    by (simp_all add: burst_log_def)
  from stretching_detector_exact [OF this] show ?thesis by (auto simp: burst_log_def)
qed

text \<open>The raw value of a temperature is never negative, although the sensor's twelve bits are signed.\<close>

lemma u16_twelve_bits:
  fixes r :: u16
  assumes "\<And>n. 12 \<le> n \<Longrightarrow> \<not> bit r n"
  shows "unat r < 4096"
proof -
  have "take_bit 12 r = r" using assms by (intro bit_eqI) (auto simp: bit_take_bit_iff intro: leI)
  moreover have "unat (take_bit 12 r) < 2 ^ 12" by (simp only: unsigned_take_bit_eq take_bit_nat_less_exp)
  ultimately show ?thesis by simp
qed

lemma raw_temperature_small:
  "unat (push_bit 4 (ucast (a :: u8)) OR signed_drop_bit 4 (ucast (b :: u8)) :: u16) < 4096"
proof (rule u16_twelve_bits)
  fix n :: nat assume "12 \<le> n"
  have high: "\<not> bit (c :: u8) k" if "8 \<le> k" for c k using that by (auto dest: bit_imp_le_length)
  show "\<not> bit (push_bit 4 (ucast a) OR signed_drop_bit 4 (ucast b) :: u16) n"
    using \<open>12 \<le> n\<close> high [of "n - 4" a] high [of 15 b] high [of "n + 4" b]
    by (auto simp: bit_or_iff bit_push_bit_iff bit_signed_drop_bit_iff bit_ucast_iff add.commute dest: bit_imp_le_length)
qed

lemma temperature_never_negative:
  "test_clock_stretching D s = (s', Inr raw) \<Longrightarrow> unat raw < 4096"
  using raw_temperature_small
  by (auto simp: test_clock_stretching_def Let_def case_prod_beta try_io_def split: sum.splits prod.splits)

text \<open>
  The times of the exported wave form go back whenever two transactions are logged within the
  same microsecond.
\<close>

definition vcd_times :: "vcd_item list \<Rightarrow> nat list" where
  "vcd_times xs = concat (map (\<lambda>x. case x of At t \<Rightarrow> [t] | _ \<Rightarrow> []) xs)"

lemma vcd_times_sorted_iff:
  "sorted (vcd_times (vcd_body d)) \<longleftrightarrow> sorted_wrt (<) (map timestamp_us (transaction_log d))"
proof -
  have "sorted (vcd_times (concat (map (\<lambda>e. [At (timestamp_us e), Low, At (timestamp_us e + 1), High]) log))) \<longleftrightarrow>
      sorted_wrt (<) (map timestamp_us log)" for log
    by (induction log) (auto simp: vcd_times_def Suc_le_eq less_imp_le intro: Suc_leI less_imp_le)
  then show ?thesis by (simp add: vcd_body_def)
qed

end
