(* ===== verification/I2c_Scope.thy ===== *)
theory I2c_Scope
  imports Bus_Io
begin

unbundle bit_operations_syntax

text \<open>
  \<^verbatim>\<open>I2C/src/42/42.rs\<close>: a bit-banged I2C bus that measures its own signals. The two open-drain
  pins, the thread's sleep and the clock are a parameter, functions on the state \<open>'w\<close> of the
  board; times are nanoseconds. The busy-waiting loops on the clock line are partial: \<open>None\<close> is a
  loop that never ends, and the division by zero of the analysis. Warnings are constructors that
  hold what the source formats; the debug output is left out, it changes nothing.
\<close>

subsection \<open>Timing, measurements, quality\<close>

datatype i2c_speed = Standard | Fast | FastPlus

record timing_params =
  scl_frequency :: nat
  t_hd_sta :: nat
  t_su_sta :: nat
  t_su_dat :: nat
  t_hd_dat :: nat
  t_su_sto :: nat
  t_buf :: nat
  max_rise_time :: nat
  max_fall_time :: nat

definition timing_params_new :: "i2c_speed \<Rightarrow> timing_params" where
  "timing_params_new speed = (case speed of
     Standard \<Rightarrow> \<lparr>scl_frequency = 100000, t_hd_sta = 4000, t_su_sta = 4700, t_su_dat = 250,
       t_hd_dat = 300, t_su_sto = 4000, t_buf = 4700, max_rise_time = 1000, max_fall_time = 300\<rparr>
   | Fast \<Rightarrow> \<lparr>scl_frequency = 400000, t_hd_sta = 600, t_su_sta = 600, t_su_dat = 100,
       t_hd_dat = 300, t_su_sto = 600, t_buf = 1300, max_rise_time = 300, max_fall_time = 300\<rparr>
   | FastPlus \<Rightarrow> \<lparr>scl_frequency = 1000000, t_hd_sta = 260, t_su_sta = 260, t_su_dat = 50,
       t_hd_dat = 0, t_su_sto = 260, t_buf = 500, max_rise_time = 120, max_fall_time = 120\<rparr>)"

definition half_period :: "timing_params \<Rightarrow> nat" where
  "half_period t = 500000000 div scl_frequency t"

record signal_measurement =
  rise_time :: "nat option"
  fall_time :: "nat option"
  scl_high_time :: "nat option"
  scl_low_time :: "nat option"
  start_setup_time :: "nat option"
  stop_setup_time :: "nat option"
  clock_stretching_detected :: bool
  stretch_duration :: "nat option"
  glitches_detected :: nat

definition signal_measurement_new :: signal_measurement where
  "signal_measurement_new = \<lparr>rise_time = None, fall_time = None, scl_high_time = None,
     scl_low_time = None, start_setup_time = None, stop_setup_time = None,
     clock_stretching_detected = False, stretch_duration = None, glitches_detected = 0\<rparr>"

datatype warning =
    RiseTimeExceeds nat nat | RiseTimeNotMeasured
  | FallTimeExceeds nat nat | FallTimeNotMeasured
  | FrequencyDiffers nat nat | FrequencyNotMeasured
  | StretchingDetected nat

record signal_quality =
  rise_time_ok :: bool
  fall_time_ok :: bool
  timing_ok :: bool
  frequency_ok :: bool
  warnings :: "warning list"

subsection \<open>Pins and bus\<close>

record 'w board =
  sda_set_high :: "'w \<Rightarrow> 'w"
  sda_set_low :: "'w \<Rightarrow> 'w"
  sda_read :: "'w \<Rightarrow> bool"
  scl_set_high :: "'w \<Rightarrow> 'w"
  scl_set_low :: "'w \<Rightarrow> 'w"
  scl_read :: "'w \<Rightarrow> bool \<times> 'w"
  sleep_ns :: "nat \<Rightarrow> 'w \<Rightarrow> 'w"
  now_ns :: "'w \<Rightarrow> nat"

record mock_pin =
  pin_state :: bool
  is_input :: bool

definition mock_pin_new :: mock_pin where
  "mock_pin_new = \<lparr>pin_state = True, is_input = True\<rparr>"

definition mock_set_high :: "mock_pin \<Rightarrow> mock_pin" where
  "mock_set_high p = p\<lparr>is_input := True\<rparr>"

definition mock_set_low :: "mock_pin \<Rightarrow> mock_pin" where
  "mock_set_low p = p\<lparr>is_input := False, pin_state := False\<rparr>"

definition mock_read :: "mock_pin \<Rightarrow> bool" where
  "mock_read p = (if is_input p then True else pin_state p)"

record i2c_bus =
  timing :: timing_params
  measurement :: signal_measurement

definition i2c_bus_new :: "i2c_speed \<Rightarrow> i2c_bus" where
  "i2c_bus_new speed = \<lparr>timing = timing_params_new speed, measurement = signal_measurement_new\<rparr>"

definition bus_init :: "'w board \<Rightarrow> i2c_bus \<Rightarrow> 'w \<Rightarrow> 'w" where
  "bus_init P b w = sleep_ns P (t_buf (timing b)) (scl_set_high P (sda_set_high P w))"

definition start :: "'w board \<Rightarrow> i2c_bus \<times> 'w \<Rightarrow> i2c_bus \<times> 'w" where
  "start P s =
     (let (b, w) = s;
          w = sleep_ns P (t_buf (timing b)) (scl_set_high P (sda_set_high P w));
          fall_start = now_ns P w;
          w = sda_set_low P w;
          fall_end = now_ns P w;
          b = b\<lparr>measurement := (measurement b)\<lparr>fall_time := Some (fall_end - fall_start)\<rparr>\<rparr>;
          w = sleep_ns P (t_hd_sta (timing b)) w
      in (b, scl_set_low P w))"

text \<open>The wait in \<open>stop\<close>, which gives up once more than 10 ms have passed.\<close>

partial_function (option) stop_wait :: "'w board \<Rightarrow> nat \<Rightarrow> 'w \<Rightarrow> 'w option" where
  "stop_wait P stretch_start w =
     (let (high, w) = scl_read P w
      in if high then Some w
         else if now_ns P w - stretch_start > 10000000 then Some w
         else stop_wait P stretch_start (sleep_ns P 1000 w))"

definition stop :: "'w board \<Rightarrow> i2c_bus \<times> 'w \<Rightarrow> (i2c_bus \<times> 'w) option" where
  "stop P s = do {
     let (b, w) = s;
     let w = scl_set_high P (sleep_ns P (t_hd_dat (timing b)) (sda_set_low P w));
     let stretch_start = now_ns P w;
     w \<leftarrow> stop_wait P stretch_start w;
     let stretched = now_ns P w - stretch_start;
     let b = (if stretched > 10000
              then b\<lparr>measurement := (measurement b)\<lparr>clock_stretching_detected := True,
                     stretch_duration := Some stretched\<rparr>\<rparr>
              else b);
     let w = sleep_ns P (t_su_sto (timing b)) w;
     let rise_start = now_ns P w;
     let w = sda_set_high P w;
     let rise_end = now_ns P w;
     let b = b\<lparr>measurement := (measurement b)\<lparr>rise_time := Some (rise_end - rise_start)\<rparr>\<rparr>;
     Some (b, sleep_ns P (t_buf (timing b)) w)
   }"

text \<open>The wait of the bit operations, which does not give up.\<close>

partial_function (option) scl_wait :: "'w board \<Rightarrow> 'w \<Rightarrow> 'w option" where
  "scl_wait P w =
     (let (high, w) = scl_read P w in if high then Some w else scl_wait P (sleep_ns P 1000 w))"

definition write_bit :: "'w board \<Rightarrow> bool \<Rightarrow> i2c_bus \<times> 'w \<Rightarrow> (i2c_bus \<times> 'w) option" where
  "write_bit P bit_value s = do {
     let (b, w) = s;
     let w = (if bit_value then sda_set_high P w else sda_set_low P w);
     let w = sleep_ns P (t_su_dat (timing b)) w;
     let scl_low_start = now_ns P w;
     w \<leftarrow> scl_wait P (scl_set_high P w);
     let scl_high_start = now_ns P w;
     let w = sleep_ns P (half_period (timing b)) w;
     let scl_high_end = now_ns P w;
     let w = scl_set_low P w;
     Some (b\<lparr>measurement := (measurement b)\<lparr>scl_high_time := Some (scl_high_end - scl_high_start),
               scl_low_time := Some (scl_high_start - scl_low_start)\<rparr>\<rparr>, w)
   }"

definition read_bit :: "'w board \<Rightarrow> i2c_bus \<times> 'w \<Rightarrow> (bool \<times> i2c_bus \<times> 'w) option" where
  "read_bit P s = do {
     let (b, w) = s;
     let w = sleep_ns P (t_su_dat (timing b)) (sda_set_high P w);
     w \<leftarrow> scl_wait P (scl_set_high P w);
     let w = sleep_ns P (half_period (timing b)) w;
     let level = sda_read P w;
     Some (level, b, scl_set_low P w)
   }"

primrec write_bits :: "'w board \<Rightarrow> u8 \<Rightarrow> nat list \<Rightarrow> i2c_bus \<times> 'w \<Rightarrow> (i2c_bus \<times> 'w) option" where
  "write_bits P byte [] s = Some s"
| "write_bits P byte (i # is) s = do {
     s \<leftarrow> write_bit P (drop_bit i byte AND 1 \<noteq> 0) s;
     write_bits P byte is s
   }"

definition write_byte :: "'w board \<Rightarrow> u8 \<Rightarrow> i2c_bus \<times> 'w \<Rightarrow> ((string + unit) \<times> i2c_bus \<times> 'w) option" where
  "write_byte P byte s = do {
     s \<leftarrow> write_bits P byte (rev [0..<8]) s;
     (level, s) \<leftarrow> read_bit P s;
     let ack = (\<not> level);
     Some (if ack then Inr () else Inl ''No ACK received'', s)
   }"

primrec read_bits :: "'w board \<Rightarrow> nat \<Rightarrow> u8 \<Rightarrow> i2c_bus \<times> 'w \<Rightarrow> (u8 \<times> i2c_bus \<times> 'w) option" where
  "read_bits P 0 byte s = Some (byte, s)"
| "read_bits P (Suc n) byte s = do {
     (level, s) \<leftarrow> read_bit P s;
     read_bits P n (push_bit 1 byte OR (if level then 1 else 0)) s
   }"

definition read_byte :: "'w board \<Rightarrow> bool \<Rightarrow> i2c_bus \<times> 'w \<Rightarrow> (u8 \<times> i2c_bus \<times> 'w) option" where
  "read_byte P send_ack s = do {
     (byte, s) \<leftarrow> read_bits P 8 0 s;
     s \<leftarrow> write_bit P (\<not> send_ack) s;
     Some (byte, s)
   }"

subsection \<open>Analysis\<close>

definition check_time :: "(nat \<Rightarrow> nat \<Rightarrow> warning) \<Rightarrow> warning \<Rightarrow> nat option \<Rightarrow> nat \<Rightarrow> bool \<times> warning list" where
  "check_time exceeds missing measured limit = (case measured of
     Some t \<Rightarrow> if t > limit then (False, [exceeds t limit]) else (True, [])
   | None \<Rightarrow> (False, [missing]))"

definition check_frequency :: "timing_params \<Rightarrow> signal_measurement \<Rightarrow> (bool \<times> warning list) run" where
  "check_frequency t m = (case (scl_high_time m, scl_low_time m) of
     (Some high, Some low) \<Rightarrow> do {
       let period = high + low;
       freq \<leftarrow> udiv 1000000000 period;
       let target_freq = scl_frequency t;
       let tolerance = target_freq div 10;
       Some (if freq < target_freq - tolerance \<or> freq > target_freq + tolerance
             then (False, [FrequencyDiffers freq target_freq]) else (True, []))
     }
   | _ \<Rightarrow> Some (False, [FrequencyNotMeasured]))"

definition analyze_signal_quality :: "i2c_bus \<Rightarrow> signal_quality run" where
  "analyze_signal_quality b = do {
     let m = measurement b;
     let (rise_ok, ws1) = check_time RiseTimeExceeds RiseTimeNotMeasured (rise_time m) (max_rise_time (timing b));
     let (fall_ok, ws2) = check_time FallTimeExceeds FallTimeNotMeasured (fall_time m) (max_fall_time (timing b));
     (freq_ok, ws3) \<leftarrow> check_frequency (timing b) m;
     let ws4 = (if clock_stretching_detected m
                then (case stretch_duration m of Some d \<Rightarrow> [StretchingDetected d] | None \<Rightarrow> []) else []);
     Some \<lparr>rise_time_ok = rise_ok, fall_time_ok = fall_ok, timing_ok = (rise_ok \<and> fall_ok),
       frequency_ok = freq_ok, warnings = ws1 @ ws2 @ ws3 @ ws4\<rparr>
   }"

subsection \<open>A bus to look at\<close>

text \<open>
  The reference board, with a scope attached: open-drain lines shared with a slave that drives
  SDA with the next level of its list during each clock and holds SCL low for \<open>stretch\<close> polls
  after it was released; sleeping takes exactly the time asked for and nothing else takes any.
  The scope logs a level sampled at every rising clock edge, and every change of SDA while the
  clock is high: a START when it falls, a STOP when it rises.
\<close>

datatype event = StartCond | StopCond | Sampled bool

record scope =
  m_sda :: bool
  m_scl :: bool
  slave :: "bool list"
  held :: nat
  time_ns :: nat
  log :: "event list"

definition slave_level :: "scope \<Rightarrow> bool" where
  "slave_level w = (case slave w of [] \<Rightarrow> True | l # _ \<Rightarrow> l)"

definition sda_level :: "scope \<Rightarrow> bool" where
  "sda_level w \<longleftrightarrow> m_sda w \<and> slave_level w"

definition scope_sda :: "bool \<Rightarrow> scope \<Rightarrow> scope" where
  "scope_sda v w =
     (let w' = w\<lparr>m_sda := v\<rparr> in
      if m_scl w \<and> held w = 0 \<and> sda_level w \<noteq> sda_level w'
      then w'\<lparr>log := log w @ [if sda_level w' then StopCond else StartCond]\<rparr> else w')"

definition clock_up :: "scope \<Rightarrow> scope" where
  "clock_up w = w\<lparr>log := log w @ [Sampled (sda_level w)]\<rparr>"

definition scope_scl_high :: "nat \<Rightarrow> scope \<Rightarrow> scope" where
  "scope_scl_high stretch w =
     (if m_scl w then w
      else (let w = w\<lparr>m_scl := True, held := stretch\<rparr> in if stretch = 0 then clock_up w else w))"

definition scope_scl_low :: "scope \<Rightarrow> scope" where
  "scope_scl_low w = (if m_scl w then w\<lparr>m_scl := False, held := 0, slave := tl (slave w)\<rparr> else w)"

definition scope_scl_read :: "scope \<Rightarrow> bool \<times> scope" where
  "scope_scl_read w = (case held w of
     0 \<Rightarrow> (m_scl w, w)
   | Suc n \<Rightarrow> (False, let w = w\<lparr>held := n\<rparr> in if n = 0 then clock_up w else w))"

definition scope_board :: "nat \<Rightarrow> scope board" where
  "scope_board stretch = \<lparr>
     sda_set_high = scope_sda True, sda_set_low = scope_sda False, sda_read = sda_level,
     scl_set_high = scope_scl_high stretch, scl_set_low = scope_scl_low, scl_read = scope_scl_read,
     sleep_ns = (\<lambda>n w. w\<lparr>time_ns := time_ns w + n\<rparr>), now_ns = time_ns\<rparr>"

subsection \<open>One clock\<close>

lemmas scope_simps = scope_board_def scope_sda_def scope_scl_high_def scope_scl_low_def
  sda_level_def slave_level_def

definition clock_low :: "scope \<Rightarrow> bool" where
  "clock_low w \<longleftrightarrow> \<not> m_scl w \<and> held w = 0"

lemma scl_wait_held:
  "m_scl w \<Longrightarrow> held w = Suc n \<Longrightarrow> scl_wait (scope_board st) w =
     Some (clock_up (w\<lparr>held := 0, time_ns := time_ns w + 1000 * Suc n\<rparr>))"
proof (induction n arbitrary: w)
  case 0
  let ?w = "clock_up (w\<lparr>held := 0\<rparr>)"
  have "scl_wait (scope_board st) w = scl_wait (scope_board st) (?w\<lparr>time_ns := time_ns ?w + 1000\<rparr>)"
    using 0 by (subst scl_wait.simps) (simp add: scope_board_def scope_scl_read_def)
  also have "\<dots> = Some (?w\<lparr>time_ns := time_ns ?w + 1000\<rparr>)"
    using 0 by (subst scl_wait.simps) (simp add: scope_board_def scope_scl_read_def clock_up_def)
  finally show ?case by (simp add: clock_up_def sda_level_def slave_level_def)
next
  case (Suc n)
  have "scl_wait (scope_board st) w =
      scl_wait (scope_board st) (w\<lparr>held := Suc n, time_ns := time_ns w + 1000\<rparr>)"
    using Suc.prems by (subst scl_wait.simps) (simp add: scope_board_def scope_scl_read_def)
  then show ?case using Suc.IH [of "w\<lparr>held := Suc n, time_ns := time_ns w + 1000\<rparr>"] Suc.prems
    by (simp add: clock_up_def sda_level_def slave_level_def)
qed

lemma scl_rise:
  assumes "clock_low w"
  shows "scl_wait (scope_board st) (scope_scl_high st w) =
    Some (clock_up (w\<lparr>m_scl := True, held := 0, time_ns := time_ns w + 1000 * st\<rparr>))"
proof (cases st)
  case 0
  then show ?thesis using assms
    by (subst scl_wait.simps)
       (simp add: scope_board_def scope_scl_read_def scope_scl_high_def clock_up_def clock_low_def sda_level_def slave_level_def)
next
  case (Suc n)
  then show ?thesis using assms scl_wait_held [of "scope_scl_high st w" n st]
    by (simp add: scope_scl_high_def clock_low_def)
qed

text \<open>
  What \<open>n\<close> clocks leave behind: the clock low again, \<open>n\<close> levels of the slave used up, and the
  events seen by the scope.
\<close>

definition clocked :: "scope \<Rightarrow> nat \<Rightarrow> event list \<Rightarrow> scope \<Rightarrow> bool" where
  "clocked w n evs w' \<longleftrightarrow> clock_low w' \<and> slave w' = drop n (slave w) \<and> log w' = log w @ evs"

lemma clocked_refl: "clock_low w \<Longrightarrow> clocked w 0 [] w"
  by (simp add: clocked_def)

lemma clocked_trans: "clocked w n evs v \<Longrightarrow> clocked v k evs' u \<Longrightarrow> clocked w (n + k) (evs @ evs') u"
  by (simp add: clocked_def add.commute)

lemma write_bit_scope:
  assumes "clock_low w"
  shows "\<exists>w'. write_bit (scope_board st) v (b, w) =
      Some (b\<lparr>measurement := (measurement b)\<lparr>scl_high_time := Some (half_period (timing b)),
              scl_low_time := Some (1000 * st)\<rparr>\<rparr>, w') \<and>
    clocked w 1 [Sampled (v \<and> slave_level w)] w'"
proof -
  let ?P = "scope_board st"
  let ?u = "w\<lparr>m_sda := v, time_ns := time_ns w + t_su_dat (timing b)\<rparr>"
  have set: "sleep_ns ?P (t_su_dat (timing b)) (if v then sda_set_high ?P w else sda_set_low ?P w) = ?u"
    using assms by (cases v) (simp_all add: scope_board_def scope_sda_def clock_low_def Let_def)
  have rise: "scl_wait ?P (scl_set_high ?P ?u) =
      Some (clock_up (?u\<lparr>m_scl := True, held := 0, time_ns := time_ns ?u + 1000 * st\<rparr>))"
    using scl_rise [of ?u st] assms by (simp add: clock_low_def scope_board_def)
  show ?thesis
    unfolding write_bit_def Let_def prod.case set rise bind.bind_lunit
    by (simp add: scope_board_def scope_scl_low_def clock_up_def clocked_def clock_low_def drop_Suc
        sda_level_def slave_level_def)
qed

lemma read_bit_scope:
  assumes "clock_low w"
  shows "\<exists>w'. read_bit (scope_board st) (b, w) = Some (slave_level w, b, w') \<and>
    clocked w 1 [Sampled (slave_level w)] w'"
proof -
  let ?P = "scope_board st"
  let ?u = "w\<lparr>m_sda := True, time_ns := time_ns w + t_su_dat (timing b)\<rparr>"
  have set: "sleep_ns ?P (t_su_dat (timing b)) (sda_set_high ?P w) = ?u"
    using assms by (simp add: scope_board_def scope_sda_def clock_low_def Let_def)
  have rise: "scl_wait ?P (scl_set_high ?P ?u) =
      Some (clock_up (?u\<lparr>m_scl := True, held := 0, time_ns := time_ns ?u + 1000 * st\<rparr>))"
    using scl_rise [of ?u st] assms by (simp add: clock_low_def scope_board_def)
  show ?thesis
    unfolding read_bit_def Let_def prod.case set rise bind.bind_lunit
    by (simp add: scope_board_def scope_scl_low_def clock_up_def clocked_def clock_low_def drop_Suc
        sda_level_def slave_level_def)
qed

subsection \<open>Bytes\<close>

lemma write_bits_scope:
  assumes "clock_low w" "\<forall>i < length is. slave_level (w\<lparr>slave := drop i (slave w)\<rparr>)"
  shows "\<exists>b' w'. write_bits (scope_board st) byte is (b, w) = Some (b', w') \<and>
    clocked w (length is) (map (\<lambda>i. Sampled (bit byte i)) is) w' \<and> timing b' = timing b \<and>
    rise_time (measurement b') = rise_time (measurement b) \<and>
    fall_time (measurement b') = fall_time (measurement b) \<and>
    clock_stretching_detected (measurement b') = clock_stretching_detected (measurement b) \<and>
    (is \<noteq> [] \<longrightarrow> scl_high_time (measurement b') = Some (half_period (timing b)) \<and>
                scl_low_time (measurement b') = Some (1000 * st))"
  using assms
proof (induction "is" arbitrary: b w)
  case Nil
  then show ?case by (simp add: clocked_refl)
next
  case (Cons i "is")
  have "slave_level w" using Cons.prems(2) by (auto dest: spec [of _ 0])
  then obtain u where u: "write_bit (scope_board st) (drop_bit i byte AND 1 \<noteq> 0) (b, w) =
      Some (b\<lparr>measurement := (measurement b)\<lparr>scl_high_time := Some (half_period (timing b)),
              scl_low_time := Some (1000 * st)\<rparr>\<rparr>, u)"
    "clocked w 1 [Sampled (bit byte i)] u"
    using write_bit_scope [OF Cons.prems(1)] by (fastforce simp: low_bit_nonzero)
  let ?b = "b\<lparr>measurement := (measurement b)\<lparr>scl_high_time := Some (half_period (timing b)),
              scl_low_time := Some (1000 * st)\<rparr>\<rparr>"
  have "clock_low u" "\<forall>i < length is. slave_level (u\<lparr>slave := drop i (slave u)\<rparr>)"
    using u(2) Cons.prems(2) by (auto simp: clocked_def slave_level_def)
  from Cons.IH [OF this, of ?b] show ?case
    using u clocked_trans [OF u(2)] by (cases "is") fastforce+
qed

text \<open>The fields of a bus that writing a byte leaves alone, and the two it sets.\<close>

definition clock_measured :: "nat \<Rightarrow> i2c_bus \<Rightarrow> i2c_bus \<Rightarrow> bool" where
  "clock_measured st b b' \<longleftrightarrow> timing b' = timing b \<and>
     rise_time (measurement b') = rise_time (measurement b) \<and>
     fall_time (measurement b') = fall_time (measurement b) \<and>
     clock_stretching_detected (measurement b') = clock_stretching_detected (measurement b) \<and>
     scl_high_time (measurement b') = Some (half_period (timing b)) \<and>
     scl_low_time (measurement b') = Some (1000 * st)"

definition byte_events :: "u8 \<Rightarrow> bool \<Rightarrow> event list" where
  "byte_events byte ack = map Sampled (msb_bits byte) @ [Sampled ack]"

lemma write_byte_scope:
  assumes "clock_low w" "slave w = replicate 8 True @ a # rest"
  shows "\<exists>b' w'. write_byte (scope_board st) byte (b, w) =
      Some (if a then Inl ''No ACK received'' else Inr (), b', w') \<and>
    clocked w 9 (byte_events byte a) w' \<and> clock_measured st b b'"
proof -
  have "\<forall>i < length (rev [0..<8]). slave_level (w\<lparr>slave := drop i (slave w)\<rparr>)"
    using assms(2) by (auto simp: slave_level_def split: nat.split simp flip: replicate_add) 
       (metis drop_replicate list.case(2) neq0_conv replicate_Suc append_Cons Suc_pred zero_less_diff)
  from write_bits_scope [OF assms(1) this, of st byte b]
  obtain b' u where u: "write_bits (scope_board st) byte (rev [0..<8]) (b, w) = Some (b', u)"
    "clocked w 8 (map Sampled (msb_bits byte)) u" "clock_measured st b b'"
    by (auto simp: clock_measured_def msb_bits_def comp_def)
  have "clock_low u" "slave_level u = a" using u(2) assms(2) by (simp_all add: clocked_def slave_level_def)
  then obtain v where "read_bit (scope_board st) (b', u) = Some (a, b', v)" "clocked u 1 [Sampled a] v"
    using read_bit_scope [of u st b'] by auto
  then show ?thesis
    using u clocked_trans [OF u(2), of 1 "[Sampled a]" v]
    by (auto simp: write_byte_def byte_events_def)
qed

lemma read_bits_scope:
  assumes "clock_low w" "slave w = ls @ rest"
  shows "\<exists>w'. read_bits (scope_board st) (length ls) byte (b, w) =
      Some (fold (\<lambda>l byte. push_bit 1 byte OR (if l then 1 else 0)) ls byte, b, w') \<and>
    clocked w (length ls) (map Sampled ls) w'"
  using assms
proof (induction ls arbitrary: w byte)
  case Nil
  then show ?case by (simp add: clocked_refl)
next
  case (Cons l ls)
  have "slave_level w = l" using Cons.prems(2) by (simp add: slave_level_def)
  then obtain u where u: "read_bit (scope_board st) (b, w) = Some (l, b, u)" "clocked w 1 [Sampled l] u"
    using read_bit_scope [OF Cons.prems(1), of st b] by auto
  have "clock_low u" "slave u = ls @ rest" using u(2) Cons.prems(2) by (simp_all add: clocked_def)
  from Cons.IH [OF this] show ?case using u clocked_trans [OF u(2)] by fastforce
qed

text \<open>
  Reading a byte returns what the slave sends: with its eight bits on the data line, most
  significant first, and the line free in the ninth clock, \<open>read_byte\<close> returns that byte, and
  the scope sees the eight levels followed by the acknowledge bit the caller asked for.
\<close>

theorem read_byte_scope:
  assumes "clock_low w" "slave w = msb_bits byte @ True # rest"
  shows "\<exists>b' w'. read_byte (scope_board st) send_ack (b, w) = Some (byte, b', w') \<and>
    clocked w 9 (map Sampled (msb_bits byte) @ [Sampled (\<not> send_ack)]) w'"
proof -
  obtain u where u: "read_bits (scope_board st) 8 0 (b, w) = Some (byte, b, u)"
    "clocked w 8 (map Sampled (msb_bits byte)) u"
    using read_bits_scope [OF assms, of st 0 b] unfolding fold_msb_bits length_msb_bits by blast
  have "clock_low u" "slave_level u" using u(2) assms(2) by (simp_all add: clocked_def slave_level_def)
  then obtain b' v where "write_bit (scope_board st) (\<not> send_ack) (b, u) = Some (b', v)"
    "clocked u 1 [Sampled (\<not> send_ack)] v"
    using write_bit_scope [of u st "\<not> send_ack" b] by auto
  then show ?thesis
    using u clocked_trans [OF u(2), of 1 "[Sampled (\<not> send_ack)]" v] by (auto simp: read_byte_def)
qed

subsection \<open>Whole transactions\<close>

definition bus_idle :: "scope \<Rightarrow> bool" where
  "bus_idle w \<longleftrightarrow> m_sda w \<and> m_scl w \<and> held w = 0"

lemma start_scope:
  assumes "bus_idle w" "slave w = True # rest"
  shows "\<exists>w'. start (scope_board st) (b, w) =
      (b\<lparr>measurement := (measurement b)\<lparr>fall_time := Some 0\<rparr>\<rparr>, w') \<and>
    clock_low w' \<and> slave w' = rest \<and> log w' = log w @ [StartCond]"
  using assms
  by (simp add: start_def scope_simps bus_idle_def Let_def clock_low_def)

lemma stop_wait_held:
  assumes "m_scl w" "time_ns w \<le> t0 + 10000000 - 1000 * held w" "1000 * held w \<le> 10000000"
  shows "stop_wait (scope_board st) t0 w =
     Some (if held w = 0 then w else clock_up (w\<lparr>held := 0, time_ns := time_ns w + 1000 * held w\<rparr>))"
  using assms
proof (induction "held w" arbitrary: w)
  case 0
  then show ?case by (subst stop_wait.simps) (simp add: scope_board_def scope_scl_read_def)
next
  case (Suc n)
  define u where "u = (if n = 0 then (clock_up (w\<lparr>held := 0\<rparr>))\<lparr>time_ns := time_ns w + 1000\<rparr>
                       else w\<lparr>held := n, time_ns := time_ns w + 1000\<rparr>)"
  have held: "held u = n" "m_scl u" "time_ns u = time_ns w + 1000"
    using Suc.hyps(2) Suc.prems(1) by (simp_all add: u_def clock_up_def)
  have "stop_wait (scope_board st) t0 w = stop_wait (scope_board st) t0 u"
    using Suc.prems Suc.hyps(2) [symmetric]
    by (subst stop_wait.simps)
       (auto simp: scope_board_def scope_scl_read_def Let_def u_def clock_up_def sda_level_def slave_level_def)
  also have "\<dots> = Some (if held u = 0 then u else clock_up (u\<lparr>held := 0, time_ns := time_ns u + 1000 * held u\<rparr>))"
    using Suc.hyps(2) [symmetric] Suc.prems held by (intro Suc.hyps(1)) auto
  also have "\<dots> = Some (clock_up (w\<lparr>held := 0, time_ns := time_ns w + 1000 * held w\<rparr>))"
    using Suc.hyps(2) [symmetric] held(1) by (simp add: u_def clock_up_def sda_level_def slave_level_def)
  finally show ?case using Suc.hyps(2) [symmetric] by simp
qed

lemma stop_scope:
  assumes "clock_low w" "slave w = True # rest" "st \<le> 10000"
  shows "\<exists>b' w'. stop (scope_board st) (b, w) = Some (b', w') \<and> bus_idle w' \<and>
    log w' = log w @ [Sampled False, StopCond] \<and> timing b' = timing b \<and>
    rise_time (measurement b') = Some 0 \<and> fall_time (measurement b') = fall_time (measurement b) \<and>
    scl_high_time (measurement b') = scl_high_time (measurement b) \<and>
    scl_low_time (measurement b') = scl_low_time (measurement b) \<and>
    (st \<le> 10 \<longrightarrow> clock_stretching_detected (measurement b') = clock_stretching_detected (measurement b))"
proof -
  let ?P = "scope_board st"
  define u where "u = w\<lparr>m_sda := False, time_ns := time_ns w + t_hd_dat (timing b), m_scl := True, held := 0\<rparr>"
  define v where "v = scl_set_high ?P (sleep_ns ?P (t_hd_dat (timing b)) (sda_set_low ?P w))"
  have v: "m_scl v" "held v = st" "time_ns v = time_ns u"
      "(if held v = 0 then v else clock_up (v\<lparr>held := 0, time_ns := time_ns v + 1000 * held v\<rparr>)) =
       clock_up (u\<lparr>time_ns := time_ns u + 1000 * st\<rparr>)"
    using assms(1)
    by (simp_all add: v_def u_def scope_board_def scope_sda_def scope_scl_high_def clock_low_def
        clock_up_def Let_def sda_level_def slave_level_def)
  have wait: "stop_wait ?P (time_ns u) v = Some (clock_up (u\<lparr>time_ns := time_ns u + 1000 * st\<rparr>))"
    using stop_wait_held [of v "time_ns u" st] v assms(3) by simp
  show ?thesis
    using assms(2) wait v(3)
    by (auto simp: stop_def v_def [symmetric] Let_def)
       (auto simp: scope_board_def scope_sda_def clock_up_def u_def sda_level_def slave_level_def bus_idle_def Let_def)
qed

text \<open>A message: the bytes of a transaction one after the other, with the result of each.\<close>

primrec write_all :: "'w board \<Rightarrow> bytes \<Rightarrow> i2c_bus \<times> 'w \<Rightarrow> ((string + unit) list \<times> i2c_bus \<times> 'w) option" where
  "write_all P [] s = Some ([], s)"
| "write_all P (byte # bytes) s = do {
     (r, s) \<leftarrow> write_byte P byte s;
     (rs, s) \<leftarrow> write_all P bytes s;
     Some (r # rs, s)
   }"

text \<open>The levels the slave drives for such a message, and what the scope sees of it.\<close>

definition acks :: "(u8 \<times> bool) list \<Rightarrow> bool list" where
  "acks ms = concat (map (\<lambda>(_, a). replicate 8 True @ [a]) ms)"

definition message_events :: "(u8 \<times> bool) list \<Rightarrow> event list" where
  "message_events ms = concat (map (\<lambda>(byte, a). byte_events byte a) ms)"

lemma acks_Cons: "acks ((byte, a) # ms) @ rest = replicate 8 True @ a # acks ms @ rest"
  by (simp add: acks_def)

lemma write_all_scope:
  assumes "clock_low w" "slave w = acks ms @ rest"
  shows "\<exists>b' w'. write_all (scope_board st) (map fst ms) (b, w) =
      Some (map (\<lambda>(_, a). if a then Inl ''No ACK received'' else Inr ()) ms, b', w') \<and>
    clock_low w' \<and> slave w' = rest \<and> log w' = log w @ message_events ms \<and>
    (if ms = [] then b' = b else clock_measured st b b')"
  using assms
proof (induction ms arbitrary: b w)
  case Nil
  then show ?case by (simp add: acks_def message_events_def)
next
  case (Cons m ms)
  obtain byte a where m: "m = (byte, a)" by fastforce
  have sl: "slave w = replicate 8 True @ a # acks ms @ rest" using Cons.prems(2) by (simp add: m acks_Cons)
  from write_byte_scope [OF Cons.prems(1) sl, of st byte b]
  obtain b1 w1 where 1: "write_byte (scope_board st) byte (b, w) =
      Some (if a then Inl ''No ACK received'' else Inr (), b1, w1)"
    "clocked w 9 (byte_events byte a) w1" "clock_measured st b b1" by blast
  have "clock_low w1" "slave w1 = acks ms @ rest" "log w1 = log w @ byte_events byte a"
    using 1(2) sl by (simp_all add: clocked_def)
  moreover from Cons.IH [OF this(1,2), of b1] obtain b2 w2 where
    "write_all (scope_board st) (map fst ms) (b1, w1) =
      Some (map (\<lambda>(_, a). if a then Inl ''No ACK received'' else Inr ()) ms, b2, w2)"
    "clock_low w2" "slave w2 = rest" "log w2 = log w1 @ message_events ms"
    "if ms = [] then b2 = b1 else clock_measured st b1 b2" by blast
  moreover from this(5) 1(3) have "clock_measured st b b2"
    by (auto simp: clock_measured_def split: if_splits)
  ultimately show ?case using 1(1) by (simp add: m message_events_def)
qed

text \<open>
  C19. What goes over the wire is I2C. From an idle bus, with a slave that leaves the data line
  alone but for its acknowledge bits and stretches the clock by any number of polls up to ten
  thousand, \<open>start\<close>, the bytes of a message and \<open>stop\<close> return; every byte reports whether it was
  acknowledged, and the scope sees exactly one START, the bits of each byte, most significant
  first, with its acknowledge, and one STOP: the data line never moves while the clock is high
  in between.
\<close>

theorem transaction_on_the_wire:
  assumes "bus_idle w" "slave w = True # acks ms @ True # rest" "st \<le> 10000"
  shows "\<exists>b1 w1 b2 w2. write_all (scope_board st) (map fst ms) (start (scope_board st) (b, w)) =
      Some (map (\<lambda>(_, a). if a then Inl ''No ACK received'' else Inr ()) ms, b1, w1) \<and>
    stop (scope_board st) (b1, w1) = Some (b2, w2) \<and> bus_idle w2 \<and>
    log w2 = log w @ StartCond # message_events ms @ [Sampled False, StopCond]"
proof -
  obtain b0 w0 where 0: "start (scope_board st) (b, w) = (b0, w0)" "clock_low w0"
    "slave w0 = acks ms @ True # rest" "log w0 = log w @ [StartCond]"
    using start_scope [OF assms(1,2), of st b] by blast
  obtain b1 w1 where 1: "write_all (scope_board st) (map fst ms) (b0, w0) =
      Some (map (\<lambda>(_, a). if a then Inl ''No ACK received'' else Inr ()) ms, b1, w1)"
    "clock_low w1" "slave w1 = True # rest" "log w1 = log w0 @ message_events ms"
    using write_all_scope [OF 0(2,3), of st b0] by blast
  obtain b2 w2 where "stop (scope_board st) (b1, w1) = Some (b2, w2)" "bus_idle w2"
    "log w2 = log w1 @ [Sampled False, StopCond]"
    using stop_scope [OF 1(2,3) assms(3), of b1] by blast
  then show ?thesis using 0 1 by simp
qed

definition example_scope :: scope where
  "example_scope = \<lparr>m_sda = True, m_scl = True, slave = True # acks [(0xA0, False)] @ [True],
     held = 0, time_ns = 0, log = []\<rparr>"

theorem transaction_on_the_wire_witness:
  "\<exists>b1 w1 b2 w2. write_all (scope_board 3) [0xA0] (start (scope_board 3) (i2c_bus_new Fast, example_scope)) =
      Some ([Inr ()], b1, w1) \<and> stop (scope_board 3) (b1, w1) = Some (b2, w2) \<and>
    log w2 = [StartCond, Sampled True, Sampled False, Sampled True, Sampled False, Sampled False,
      Sampled False, Sampled False, Sampled False, Sampled False, Sampled False, StopCond]"
proof -
  have events: "message_events [(0xA0, False)] = [Sampled True, Sampled False, Sampled True, Sampled False,
      Sampled False, Sampled False, Sampled False, Sampled False, Sampled False]"
    by (simp add: message_events_def byte_events_def msb_bits_list)
  have "bus_idle example_scope" "slave example_scope = True # acks [(0xA0, False)] @ True # []"
    "log example_scope = []"
    by (simp_all add: example_scope_def bus_idle_def)
  then show ?thesis
    using transaction_on_the_wire [of example_scope "[(0xA0, False)]" "[]" 3 "i2c_bus_new Fast"]
    unfolding events by auto
qed

subsection \<open>What the analysis makes of a perfect bus\<close>

text \<open>
  A perfect signal fails the analysis. On a bus without clock stretching, with lines that
  move at once and sleeps of exactly the requested length, a transaction of at least one byte
  at any of the three speeds ends in a report with good rise and fall times but a frequency
  twice the target, because the low time is measured from the release of the clock line, not
  over the low phase; that frequency is the only warning.
\<close>

theorem perfect_bus_fails_frequency_check:
  assumes "bus_idle w" "slave w = True # acks ms @ True # rest" "ms \<noteq> []"
  shows "\<exists>b1 w1 b2 w2 rs. write_all (scope_board 0) (map fst ms) (start (scope_board 0) (i2c_bus_new speed, w)) =
      Some (rs, b1, w1) \<and> stop (scope_board 0) (b1, w1) = Some (b2, w2) \<and>
    analyze_signal_quality b2 = Some \<lparr>rise_time_ok = True, fall_time_ok = True, timing_ok = True,
      frequency_ok = False,
      warnings = [FrequencyDiffers (2 * scl_frequency (timing_params_new speed))
                                   (scl_frequency (timing_params_new speed))]\<rparr>"
proof -
  let ?b0 = "(i2c_bus_new speed)\<lparr>measurement := (measurement (i2c_bus_new speed))\<lparr>fall_time := Some 0\<rparr>\<rparr>"
  obtain w0 where 0: "start (scope_board 0) (i2c_bus_new speed, w) = (?b0, w0)" "clock_low w0"
    "slave w0 = acks ms @ True # rest"
    using start_scope [OF assms(1,2), of 0 "i2c_bus_new speed"] by blast
  obtain b1 w1 rs where 1: "write_all (scope_board 0) (map fst ms) (?b0, w0) = Some (rs, b1, w1)"
    "clock_low w1" "slave w1 = True # rest" "clock_measured 0 ?b0 b1"
    using write_all_scope [OF 0(2,3), of 0 ?b0] assms(3) by auto
  obtain b2 w2 where 2: "stop (scope_board 0) (b1, w1) = Some (b2, w2)"
    "timing b2 = timing b1" "rise_time (measurement b2) = Some 0"
    "fall_time (measurement b2) = fall_time (measurement b1)"
    "scl_high_time (measurement b2) = scl_high_time (measurement b1)"
    "scl_low_time (measurement b2) = scl_low_time (measurement b1)"
    "clock_stretching_detected (measurement b2) = clock_stretching_detected (measurement b1)"
    using stop_scope [OF 1(2,3), of 0 b1] by auto
  have fields: "timing b2 = timing_params_new speed" "fall_time (measurement b2) = Some 0"
    "scl_high_time (measurement b2) = Some (half_period (timing_params_new speed))"
    "scl_low_time (measurement b2) = Some 0" "\<not> clock_stretching_detected (measurement b2)"
    using 1(4) 2 by (simp_all add: clock_measured_def i2c_bus_new_def signal_measurement_new_def)
  have "check_frequency (timing b2) (measurement b2) =
      Some (False, [FrequencyDiffers (2 * scl_frequency (timing_params_new speed))
                                     (scl_frequency (timing_params_new speed))])"
    by (cases speed) (simp_all add: check_frequency_def fields half_period_def timing_params_new_def
        udiv_def Let_def)
  then show ?thesis using 0(1) 1(1) 2(1,3) fields
    by (simp add: analyze_signal_quality_def check_time_def Let_def)
qed

theorem perfect_bus_fails_frequency_check_witness:
  "\<exists>b1 w1 b2 w2 rs. write_all (scope_board 0) [0xA0] (start (scope_board 0) (i2c_bus_new Fast, example_scope)) =
      Some (rs, b1, w1) \<and> stop (scope_board 0) (b1, w1) = Some (b2, w2) \<and>
    map_option warnings (analyze_signal_quality b2) = Some [FrequencyDiffers 800000 400000]"
proof -
  have "bus_idle example_scope" "slave example_scope = True # acks [(0xA0, False)] @ True # []"
    by (simp_all add: example_scope_def bus_idle_def)
  from perfect_bus_fails_frequency_check [OF this, of Fast] show ?thesis
    by (auto simp: timing_params_new_def simp del: write_all.simps)
qed

text \<open>The analysis divides by zero exactly when both clock times were measured as zero.\<close>

theorem analysis_panics_iff:
  "analyze_signal_quality b = None \<longleftrightarrow>
     scl_high_time (measurement b) = Some 0 \<and> scl_low_time (measurement b) = Some 0"
  by (auto simp: analyze_signal_quality_def check_frequency_def check_time_def udiv_def Let_def
      split: option.splits bind_splits)

end
