(* ===== verification/I2c_Scanner.thy ===== *)
theory I2c_Scanner
  imports Bus_Io
begin

text \<open>
  \<^verbatim>\<open>I2C/src/43/43_embedded.rs\<close> and \<^verbatim>\<open>I2C/src/43/43_linux.rs\<close>: scanners that look for devices on a bus by
  addressing every one. Parameters: the buses. What is written to the console is the result, a list
  of items; the source ignores errors of the console.
\<close>

subsection \<open>Tables\<close>

datatype item = Title | Columns | RowHeader nat | Blank | Device nat | NoDevice | Unclear | Newline
  | Count nat | FoundAt nat | Name string

definition FIRST_ADDR :: nat where "FIRST_ADDR = 0x03"
definition LAST_ADDR :: nat where "LAST_ADDR = 0x77"

text \<open>What a probe of an address says: a device, none, or an error that says neither.\<close>

datatype probe_result = Present | Absent | Doubtful

text \<open>The body of the loop over all addresses, which both table scanners have.\<close>

definition table_step ::
  "(nat \<Rightarrow> 'w \<Rightarrow> 'w \<times> probe_result) \<Rightarrow> nat \<Rightarrow> item list \<times> nat list \<times> 'w \<Rightarrow> item list \<times> nat list \<times> 'w" where
  "table_step probe addr st = (case st of (out, found, w) \<Rightarrow>
     let out = (if addr mod 16 = 0 then out @ [RowHeader addr] else out);
         (out, found, w) =
           (if addr < FIRST_ADDR \<or> addr > LAST_ADDR then (out @ [Blank], found, w)
            else (case probe addr w of
                (w, Present) \<Rightarrow> (out @ [Device addr], found @ [addr], w)
              | (w, Absent) \<Rightarrow> (out @ [NoDevice], found, w)
              | (w, Doubtful) \<Rightarrow> (out @ [Unclear], found, w)))
     in (if (addr + 1) mod 16 = 0 then out @ [Newline] else out, found, w))"

subsection \<open>The embedded scanner\<close>

record ('w, 'e) hal_bus =
  hal_write :: "u8 \<Rightarrow> bytes \<Rightarrow> 'w \<Rightarrow> ('w, 'e, unit) io"
  hal_write_read :: "u8 \<Rightarrow> bytes \<Rightarrow> nat \<Rightarrow> 'w \<Rightarrow> ('w, 'e, bytes) io"

definition write_probe :: "('w, 'e) hal_bus \<Rightarrow> nat \<Rightarrow> 'w \<Rightarrow> 'w \<times> probe_result" where
  "write_probe B addr w = (case hal_write B (of_nat addr) [] w of
     (w, Inr _) \<Rightarrow> (w, Present) | (w, Inl _) \<Rightarrow> (w, Absent))"

definition scan_i2c_bus :: "('w, 'e) hal_bus \<Rightarrow> 'w \<Rightarrow> item list \<times> 'w" where
  "scan_i2c_bus B w =
     (let (out, found, w) = fold (table_step (write_probe B)) [0..<0x80] ([Title, Columns], [], w)
      in (out @ [Count (length found)], w))"

definition identify_device :: "nat \<Rightarrow> string option" where
  "identify_device addr =
     (if addr = 0x1E then Some ''HMC5883L Magnetometer''
      else if addr = 0x27 then Some ''LCD Display with I2C backpack''
      else if addr = 0x3C \<or> addr = 0x3D then Some ''OLED Display (SSD1306)''
      else if addr = 0x40 then Some ''Si7021 Temp/Humidity or INA219''
      else if 0x48 \<le> addr \<and> addr \<le> 0x4B then Some ''ADS1115 ADC''
      else if 0x4C \<le> addr \<and> addr \<le> 0x4F then Some ''TMP102 Temperature Sensor''
      else if 0x50 \<le> addr \<and> addr \<le> 0x57 then Some ''EEPROM (24C series)''
      else if addr = 0x68 then Some ''MPU6050/9250 IMU or DS1307 RTC''
      else if addr = 0x69 then Some ''MPU6050/9250 IMU (alt address)''
      else if addr = 0x76 \<or> addr = 0x77 then Some ''BMP280/BME280 Pressure Sensor''
      else None)"

text \<open>The list of devices found is a fixed vector of 128 places; a push into a full one is dropped.\<close>

definition push_fixed :: "nat list \<Rightarrow> nat \<Rightarrow> nat list" where
  "push_fixed xs x = (if length xs < 128 then xs @ [x] else xs)"

definition detailed_step ::
  "('w, 'e) hal_bus \<Rightarrow> nat \<Rightarrow> item list \<times> nat list \<times> 'w \<Rightarrow> item list \<times> nat list \<times> 'w" where
  "detailed_step B addr st = (case st of (out, found, w) \<Rightarrow>
     (case hal_write_read B (of_nat addr) [0x00] 1 w of
        (w, Inr _) \<Rightarrow> (out @ [FoundAt addr], push_fixed found addr, w)
      | (w, Inl _) \<Rightarrow> (out, found, w)))"

definition named :: "(nat \<Rightarrow> string option) \<Rightarrow> nat list \<Rightarrow> item list" where
  "named f xs = concat (map (\<lambda>a. case f a of Some n \<Rightarrow> [Name n] | None \<Rightarrow> []) xs)"

definition scan_i2c_bus_detailed :: "('w, 'e) hal_bus \<Rightarrow> 'w \<Rightarrow> item list \<times> 'w" where
  "scan_i2c_bus_detailed B w =
     (let (out, found, w) = fold (detailed_step B) [FIRST_ADDR..<LAST_ADDR + 1] ([Title], [], w)
      in (out @ [Count (length found)] @ named identify_device found, w))"

definition verify_device :: "('w, 'e) hal_bus \<Rightarrow> u8 \<Rightarrow> u8 \<Rightarrow> 'w \<Rightarrow> ('w, unit, u8) io" where
  "verify_device B addr reg w = (case hal_write_read B addr [reg] 1 w of
     (w, Inr buffer) \<Rightarrow> (w, Inr (buffer ! 0)) | (w, Inl _) \<Rightarrow> (w, Inl ()))"

subsection \<open>The Linux scanner\<close>

datatype linux_error = Nix string | Io string

record 'w linux_bus =
  device_new :: "nat \<Rightarrow> 'w \<Rightarrow> ('w, linux_error, unit) io"
  smbus_read_byte :: "nat \<Rightarrow> 'w \<Rightarrow> ('w, linux_error, u8) io"

definition scan_address :: "'w linux_bus \<Rightarrow> nat \<Rightarrow> 'w \<Rightarrow> ('w, linux_error, bool) io" where
  "scan_address B addr w = try_io (device_new B addr w) (\<lambda>w _.
     (case smbus_read_byte B addr w of
        (w, Inr _) \<Rightarrow> (w, Inr True)
      | (w, Inl e) \<Rightarrow> (case e of Nix _ \<Rightarrow> (w, Inr False) | Io _ \<Rightarrow> (w, Inl e))))"

definition linux_probe :: "'w linux_bus \<Rightarrow> nat \<Rightarrow> 'w \<Rightarrow> 'w \<times> probe_result" where
  "linux_probe B addr w = (case scan_address B addr w of
     (w, Inr True) \<Rightarrow> (w, Present) | (w, Inr False) \<Rightarrow> (w, Absent) | (w, Inl _) \<Rightarrow> (w, Doubtful))"

definition guess_device_name :: "nat \<Rightarrow> string option" where
  "guess_device_name addr =
     (if addr = 0x27 \<or> addr = 0x3C \<or> addr = 0x3D then Some ''OLED Display (SSD1306/SH1106)''
      else if 0x48 \<le> addr \<and> addr \<le> 0x4F then Some ''ADC/Sensor (ADS1115/TMP102)''
      else if 0x50 \<le> addr \<and> addr \<le> 0x57 then Some ''EEPROM (24C series)''
      else if addr = 0x68 then Some ''IMU/RTC (MPU6050/DS1307)''
      else if addr = 0x76 \<or> addr = 0x77 then Some ''Pressure Sensor (BMP280/BME280)''
      else None)"

definition linux_report :: "nat list \<Rightarrow> item list" where
  "linux_report found = concat (map (\<lambda>a. FoundAt a # named guess_device_name [a]) found)"

definition linux_scan_i2c_bus :: "'w linux_bus \<Rightarrow> 'w \<Rightarrow> item list \<times> 'w" where
  "linux_scan_i2c_bus B w =
     (let (out, found, w) = fold (table_step (linux_probe B)) [0..<0x80] ([Title, Columns], [], w)
      in (out @ [Newline, Count (length found)] @ (if found \<noteq> [] then [Title] @ linux_report found else []), w))"

subsection \<open>Scanning a bus that answers reliably\<close>

definition cell :: "(nat \<Rightarrow> bool) \<Rightarrow> nat \<Rightarrow> item" where
  "cell present a = (if a < FIRST_ADDR \<or> a > LAST_ADDR then Blank else if present a then Device a else NoDevice)"

definition table :: "(nat \<Rightarrow> bool) \<Rightarrow> item list" where
  "table present = concat (map (\<lambda>r. RowHeader (16 * r) # map (cell present) [16 * r..<16 * r + 16] @ [Newline]) [0..<8])"

definition devices :: "(nat \<Rightarrow> bool) \<Rightarrow> nat list" where
  "devices present = filter present [FIRST_ADDR..<LAST_ADDR + 1]"

definition cell_items :: "(nat \<Rightarrow> bool) \<Rightarrow> nat \<Rightarrow> item list" where
  "cell_items present a = (if a mod 16 = 0 then [RowHeader a] else []) @ [cell present a] @
     (if (a + 1) mod 16 = 0 then [Newline] else [])"

lemma row_items:
  "concat (map (cell_items present) [16 * r..<16 * r + 16]) =
     RowHeader (16 * r) # map (cell present) [16 * r..<16 * r + 16] @ [Newline]"
proof -
  have up: "[16 * r..<16 * r + 16] = 16 * r # [16 * r + 1..<16 * r + 15] @ [16 * r + 15]"
    using upt_conv_Cons [of "16 * r" "16 * r + 16"] upt_Suc_append [of "16 * r + 1" "16 * r + 15"]
    by (simp add: add.commute)
  have "cell_items present a = [cell present a]" if "a \<in> set [16 * r + 1..<16 * r + 15]" for a
  proof -
    have "a mod 16 \<noteq> 0" "(a + 1) mod 16 \<noteq> 0" using that by (simp_all only: set_upt atLeastLessThan_iff) presburger+
    then show ?thesis by (simp add: cell_items_def)
  qed
  then have "map (cell_items present) [16 * r + 1..<16 * r + 15] = map (\<lambda>a. [cell present a]) [16 * r + 1..<16 * r + 15]"
    by (intro map_cong) simp_all
  then have "concat (map (cell_items present) [16 * r + 1..<16 * r + 15]) = map (cell present) [16 * r + 1..<16 * r + 15]"
    by (simp only: concat_map_singleton)
  moreover have "cell_items present (16 * r) = [RowHeader (16 * r), cell present (16 * r)]"
    "cell_items present (16 * r + 15) = [cell present (16 * r + 15), Newline]"
    by (simp_all add: cell_items_def)
  ultimately show ?thesis unfolding up by (simp del: upt_Suc)
qed

lemma rows_items:
  "concat (map (cell_items present) [0..<16 * n]) =
     concat (map (\<lambda>r. RowHeader (16 * r) # map (cell present) [16 * r..<16 * r + 16] @ [Newline]) [0..<n])"
proof (induction n)
  case (Suc n)
  have "[0..<16 * Suc n] = [0..<16 * n] @ [16 * n..<16 * n + 16]" using upt_add_eq_append [of 0 "16 * n" 16]
    by (simp add: add.commute)
  then show ?case using Suc row_items [of present n] by simp
qed simp

lemma table_items: "concat (map (cell_items present) [0..<0x80]) = table present"
  using rows_items [of present 8] by (simp add: table_def)

lemma devices_filter: "filter (\<lambda>a. FIRST_ADDR \<le> a \<and> a \<le> LAST_ADDR \<and> present a) [0..<0x80] = devices present"
proof -
  let ?P = "\<lambda>a. FIRST_ADDR \<le> a \<and> a \<le> LAST_ADDR \<and> present a"
  have "[0..<0x80] = [0..<FIRST_ADDR] @ [FIRST_ADDR..<LAST_ADDR + 1] @ [LAST_ADDR + 1..<0x80]"
    using upt_add_eq_append [of 0 3 "0x7D"] upt_add_eq_append [of 3 "0x78" 8] by (simp add: FIRST_ADDR_def LAST_ADDR_def)
  moreover have "filter ?P [0..<FIRST_ADDR] = []" "filter ?P [LAST_ADDR + 1..<0x80] = []" by (auto simp: filter_empty_conv)
  moreover have "filter ?P [FIRST_ADDR..<LAST_ADDR + 1] = filter present [FIRST_ADDR..<LAST_ADDR + 1]"
    by (rule filter_cong) auto
  ultimately show ?thesis unfolding devices_def by (simp del: upt_Suc)
qed

text \<open>The contract: a probe finds a device exactly where one is, and leaves the bus as it should be.\<close>

locale presence_probe =
  fixes probe :: "nat \<Rightarrow> 'w \<Rightarrow> 'w \<times> probe_result" and present :: "nat \<Rightarrow> bool" and good :: "'w \<Rightarrow> bool"
  assumes probe_exact: "good w \<Longrightarrow> FIRST_ADDR \<le> a \<Longrightarrow> a \<le> LAST_ADDR \<Longrightarrow>
    \<exists>w'. probe a w = (w', if present a then Present else Absent) \<and> good w'"
begin

lemma table_step_exact:
  assumes "good w"
  shows "\<exists>w'. table_step probe a (out, found, w) =
    (out @ cell_items present a,
     found @ (if FIRST_ADDR \<le> a \<and> a \<le> LAST_ADDR \<and> present a then [a] else []), w') \<and> good w'"
proof (cases "a < FIRST_ADDR \<or> a > LAST_ADDR")
  case True
  then show ?thesis using assms by (auto simp: table_step_def cell_def cell_items_def)
next
  case False
  then obtain w' where "probe a w = (w', if present a then Present else Absent)" "good w'"
    using probe_exact [OF assms, of a] by auto
  then show ?thesis using False by (simp add: table_step_def cell_def cell_items_def Let_def)
qed

lemma table_steps_exact:
  "good w \<Longrightarrow> \<exists>w'. fold (table_step probe) as (out, found, w) =
     (out @ concat (map (cell_items present) as),
      found @ filter (\<lambda>a. FIRST_ADDR \<le> a \<and> a \<le> LAST_ADDR \<and> present a) as, w') \<and> good w'"
proof (induction as arbitrary: out found w)
  case (Cons a as)
  obtain v where v: "table_step probe a (out, found, w) =
    (out @ cell_items present a,
     found @ (if FIRST_ADDR \<le> a \<and> a \<le> LAST_ADDR \<and> present a then [a] else []), v)" "good v"
    using table_step_exact [OF Cons.prems] by blast
  from Cons.IH [OF v(2), of "out @ cell_items present a"
      "found @ (if FIRST_ADDR \<le> a \<and> a \<le> LAST_ADDR \<and> present a then [a] else [])"]
  show ?case using v(1) by auto
qed simp

lemma whole_table:
  assumes "good w"
  shows "\<exists>w'. fold (table_step probe) [0..<0x80] (out, [], w) = (out @ table present, devices present, w') \<and> good w'"
  using table_steps_exact [OF assms, of "[0..<0x80]" out "[]"] by (simp add: table_items devices_filter)

end

subsection \<open>Buses\<close>

text \<open>
  Reference buses with devices at the addresses of \<open>P\<close>, which acknowledge and answer; the state
  counts transfers. On Linux an address without a device gives an error of the system call.
\<close>

definition acking :: "(nat \<Rightarrow> bool) \<Rightarrow> (nat, unit) hal_bus" where
  "acking P = \<lparr>hal_write = (\<lambda>a bs w. (w + 1, if P (unat a) then Inr () else Inl ())),
     hal_write_read = (\<lambda>a bs n w. (w + 2, if P (unat a) then Inr (replicate n a) else Inl ()))\<rparr>"

definition linux_acking :: "(nat \<Rightarrow> bool) \<Rightarrow> nat linux_bus" where
  "linux_acking P = \<lparr>device_new = (\<lambda>a w. (w, Inr ())),
     smbus_read_byte = (\<lambda>a w. (w + 1, if P a then Inr 0 else Inl (Nix ''ENXIO'')))\<rparr>"

lemma unat_address: "a \<le> LAST_ADDR \<Longrightarrow> unat (of_nat a :: u8) = a"
  by (intro unat_of_nat_small) (simp add: LAST_ADDR_def)

interpretation embedded: presence_probe "write_probe (acking P)" P "\<lambda>_. True" for P
  by unfold_locales (simp add: write_probe_def acking_def unat_address)

interpretation linux: presence_probe "linux_probe (linux_acking P)" P "\<lambda>_. True" for P
  by unfold_locales (simp add: linux_probe_def scan_address_def linux_acking_def)

lemma detailed_steps:
  assumes "\<forall>a \<in> set as. a \<le> LAST_ADDR" "length found + length as \<le> 128"
  shows "\<exists>w'. fold (detailed_step (acking P)) as (out, found, w) =
    (out @ map FoundAt (filter P as), found @ filter P as, w')"
  using assms
proof (induction as arbitrary: out found w)
  case (Cons a as)
  have a: "unat (of_nat a :: u8) = a" using Cons.prems by (simp add: unat_address)
  have step: "detailed_step (acking P) a (out, found, w) =
      (if P a then (out @ [FoundAt a], found @ [a], w + 2) else (out, found, w + 2))"
    using Cons.prems by (simp add: detailed_step_def acking_def a push_fixed_def)
  show ?case
    using Cons.IH [of "found @ [a]" "out @ [FoundAt a]" "w + 2"] Cons.IH [of found out "w + 2"] Cons.prems
    by (cases "P a") (simp_all add: step)
qed simp

text \<open>
  C32. The three scanners find the same devices: on a bus whose devices answer, each reports exactly
  the devices at the addresses 0x03 to 0x77, in order and with their number; the two tables show
  every address in its row and column, blank outside this range, and the fixed vector of the
  detailed scan never overflows.
\<close>

theorem scanners_agree:
  "fst (scan_i2c_bus (acking P) w) = [Title, Columns] @ table P @ [Count (length (devices P))] \<and>
   fst (scan_i2c_bus_detailed (acking P) w) =
     Title # map FoundAt (devices P) @ [Count (length (devices P))] @ named identify_device (devices P) \<and>
   fst (linux_scan_i2c_bus (linux_acking P) w) = [Title, Columns] @ table P @ [Newline, Count (length (devices P))] @
     (if devices P \<noteq> [] then [Title] @ linux_report (devices P) else [])"
proof (intro conjI)
  show "fst (scan_i2c_bus (acking P) w) = [Title, Columns] @ table P @ [Count (length (devices P))]"
    using embedded.whole_table [where P = P and w = w and out = "[Title, Columns]"]
    by (auto simp: scan_i2c_bus_def simp del: upt_Suc)
  show "fst (linux_scan_i2c_bus (linux_acking P) w) = [Title, Columns] @ table P @ [Newline, Count (length (devices P))] @
     (if devices P \<noteq> [] then [Title] @ linux_report (devices P) else [])"
    using linux.whole_table [where P = P and w = w and out = "[Title, Columns]"]
    by (auto simp: linux_scan_i2c_bus_def simp del: upt_Suc)
  have "\<forall>a \<in> set [FIRST_ADDR..<LAST_ADDR + 1]. a \<le> LAST_ADDR" by auto
  moreover have "length ([] :: nat list) + length [FIRST_ADDR..<LAST_ADDR + 1] \<le> 128"
    unfolding length_upt by (simp add: FIRST_ADDR_def LAST_ADDR_def)
  ultimately obtain w' where "fold (detailed_step (acking P)) [FIRST_ADDR..<LAST_ADDR + 1] ([Title], [], w) =
      ([Title] @ map FoundAt (devices P), [] @ devices P, w')"
    using detailed_steps [where as = "[FIRST_ADDR..<LAST_ADDR + 1]" and found = "[]" and P = P and out = "[Title]" and w = w]
    unfolding devices_def by blast
  then show "fst (scan_i2c_bus_detailed (acking P) w) =
     Title # map FoundAt (devices P) @ [Count (length (devices P))] @ named identify_device (devices P)"
    by (simp add: scan_i2c_bus_detailed_def del: upt_Suc)
qed

text \<open>The two programs name the device at address 0x27 differently.\<close>

lemma names_differ_at_27: "identify_device 0x27 \<noteq> guess_device_name 0x27"
  by (simp add: identify_device_def guess_device_name_def)

end
