(* ===== verification/I2c_Loopback.thy ===== *)
theory I2c_Loopback
  imports Bus_Io
begin

unbundle bit_operations_syntax

text \<open>
  \<^verbatim>\<open>I2C/src/44/44.rs\<close>: the loopback tester. The memory-mapped registers, the clock and sleeping
  are a parameter, functions on the state \<open>'w\<close> of the hardware (times in milliseconds). The wait
  for a status flag is a partial function: \<open>None\<close> is a wait on a clock that never reaches the
  timeout. The counters of the statistics are naturals; they are 32 bits wide in the source.
\<close>

subsection \<open>Registers\<close>

datatype lb_reg = CR1 | CR2 | OAR1 | DR | SR1 | SR2

definition reg_address :: "lb_reg \<Rightarrow> nat" where
  "reg_address r = 0x40005400 + (case r of
     CR1 \<Rightarrow> 0x00 | CR2 \<Rightarrow> 0x04 | OAR1 \<Rightarrow> 0x08 | DR \<Rightarrow> 0x10 | SR1 \<Rightarrow> 0x14 | SR2 \<Rightarrow> 0x18)"

record 'w lb_hw =
  read_reg :: "lb_reg \<Rightarrow> 'w \<Rightarrow> u32 \<times> 'w"
  write_reg :: "lb_reg \<Rightarrow> u32 \<Rightarrow> 'w \<Rightarrow> 'w"
  now_ms :: "'w \<Rightarrow> nat"
  sleep_ms :: "nat \<Rightarrow> 'w \<Rightarrow> 'w"

definition CR1_PE :: u32 where "CR1_PE = push_bit 0 1"
definition CR1_START :: u32 where "CR1_START = push_bit 8 1"
definition CR1_STOP :: u32 where "CR1_STOP = push_bit 9 1"
definition CR1_ACK :: u32 where "CR1_ACK = push_bit 10 1"
definition CR1_LOOPBACK :: u32 where "CR1_LOOPBACK = push_bit 15 1"
definition SR1_SB :: u32 where "SR1_SB = push_bit 0 1"
definition SR1_ADDR :: u32 where "SR1_ADDR = push_bit 1 1"
definition SR1_BTF :: u32 where "SR1_BTF = push_bit 2 1"
definition SR1_RXNE :: u32 where "SR1_RXNE = push_bit 6 1"
definition SR1_TXE :: u32 where "SR1_TXE = push_bit 7 1"
definition LOOPBACK_ADDRESS :: u8 where "LOOPBACK_ADDRESS = 0x50"
definition DEFAULT_TIMEOUT :: nat where "DEFAULT_TIMEOUT = 1000"

datatype loopback_error = Timeout | DataMismatch | HardwareError | InitFailed | NotInitialized

definition loopback_error_display :: "loopback_error \<Rightarrow> string" where
  "loopback_error_display e = (case e of
     Timeout \<Rightarrow> ''Operation timed out''
   | DataMismatch \<Rightarrow> ''Data verification failed''
   | HardwareError \<Rightarrow> ''Hardware error''
   | InitFailed \<Rightarrow> ''Initialization failed''
   | NotInitialized \<Rightarrow> ''I2C not initialized'')"

record test_result =
  status :: "loopback_error + unit"
  bytes_tested :: nat
  duration :: nat
  error_positions :: "nat list"

record statistics =
  tests_passed :: nat
  tests_failed :: nat
  timeouts :: nat
  data_errors :: nat
  total_duration :: nat

definition statistics_default :: statistics where
  "statistics_default = \<lparr>tests_passed = 0, tests_failed = 0, timeouts = 0, data_errors = 0, total_duration = 0\<rparr>"

definition modify_cr1 :: "'w lb_hw \<Rightarrow> (u32 \<Rightarrow> u32) \<Rightarrow> 'w \<Rightarrow> 'w" where
  "modify_cr1 H f w = (let (v, w) = read_reg H CR1 w in write_reg H CR1 (f v) w)"

definition write_dr :: "'w lb_hw \<Rightarrow> u8 \<Rightarrow> 'w \<Rightarrow> 'w" where
  "write_dr H v w = write_reg H DR (ucast v) w"

definition read_dr :: "'w lb_hw \<Rightarrow> 'w \<Rightarrow> u8 \<times> 'w" where
  "read_dr H w = (let (v, w) = read_reg H DR w in (ucast v, w))"

subsection \<open>The tester\<close>

record tester =
  initialized :: bool
  stats :: statistics

definition tester_new :: tester where
  "tester_new = \<lparr>initialized = False, stats = statistics_default\<rparr>"

definition initialize :: "'w lb_hw \<Rightarrow> tester \<Rightarrow> 'w \<Rightarrow> tester \<times> ('w, loopback_error, unit) io" where
  "initialize H t w =
     (let w = modify_cr1 H (\<lambda>v. v AND NOT CR1_PE) w;
          w = write_reg H CR2 0x0010 w;
          own_addr = push_bit 1 (ucast LOOPBACK_ADDRESS) OR push_bit 15 1;
          w = write_reg H OAR1 own_addr w;
          w = modify_cr1 H (\<lambda>v. v OR CR1_ACK) w;
          w = modify_cr1 H (\<lambda>v. v OR CR1_LOOPBACK) w;
          w = modify_cr1 H (\<lambda>v. v OR CR1_PE) w
      in (t\<lparr>initialized := True\<rparr>, w, Inr ()))"

definition disable :: "'w lb_hw \<Rightarrow> tester \<Rightarrow> 'w \<Rightarrow> tester \<times> 'w" where
  "disable H t w = (t\<lparr>initialized := False\<rparr>, modify_cr1 H (\<lambda>v. v AND NOT CR1_PE) w)"

definition tester_drop :: "'w lb_hw \<Rightarrow> tester \<Rightarrow> 'w \<Rightarrow> tester \<times> 'w" where
  "tester_drop H t w = (if initialized t then disable H t w else (t, w))"

partial_function (option) flag_loop ::
  "'w lb_hw \<Rightarrow> u32 \<Rightarrow> bool \<Rightarrow> nat \<Rightarrow> nat \<Rightarrow> 'w \<Rightarrow> ('w, loopback_error, unit) io option" where
  "flag_loop H flag set_value timeout start w =
     (if now_ms H w - start < timeout
      then (let (sr1, w) = read_reg H SR1 w
            in if (sr1 AND flag \<noteq> 0) = set_value then Some (w, Inr ())
               else flag_loop H flag set_value timeout start w)
      else Some (w, Inl Timeout))"

definition wait_for_flag ::
  "'w lb_hw \<Rightarrow> u32 \<Rightarrow> bool \<Rightarrow> nat \<Rightarrow> 'w \<Rightarrow> ('w, loopback_error, unit) io option" where
  "wait_for_flag H flag set_value timeout w = flag_loop H flag set_value timeout (now_ms H w) w"

text \<open>START, the address with the direction bit, and the two reads that clear the flag.\<close>

definition address_phase ::
  "'w lb_hw \<Rightarrow> u8 \<Rightarrow> 'w \<Rightarrow> ('w, loopback_error, unit) io option" where
  "address_phase H addr_byte w =
     try_run (wait_for_flag H SR1_SB True DEFAULT_TIMEOUT (modify_cr1 H (\<lambda>v. v OR CR1_START) w)) (\<lambda>w _.
     try_run (wait_for_flag H SR1_ADDR True DEFAULT_TIMEOUT (write_dr H addr_byte w)) (\<lambda>w _.
       let (_, w) = read_reg H SR1 w; (_, w) = read_reg H SR2 w in Some (w, Inr ())))"

primrec write_loop :: "'w lb_hw \<Rightarrow> bytes \<Rightarrow> 'w \<Rightarrow> ('w, loopback_error, unit) io option" where
  "write_loop H [] w = Some (w, Inr ())"
| "write_loop H (byte # data) w =
     try_run (wait_for_flag H SR1_TXE True DEFAULT_TIMEOUT w) (\<lambda>w _. write_loop H data (write_dr H byte w))"

definition lb_write :: "'w lb_hw \<Rightarrow> tester \<Rightarrow> u8 \<Rightarrow> bytes \<Rightarrow> 'w \<Rightarrow> ('w, loopback_error, unit) io option" where
  "lb_write H t addr data w =
     (if \<not> initialized t then Some (w, Inl NotInitialized)
      else
        try_run (address_phase H (push_bit 1 addr OR 0) w) (\<lambda>w _.
        try_run (write_loop H data w) (\<lambda>w _.
        try_run (wait_for_flag H SR1_BTF True DEFAULT_TIMEOUT w) (\<lambda>w _.
          Some (modify_cr1 H (\<lambda>v. v OR CR1_STOP) w, Inr ())))))"

primrec read_loop ::
  "'w lb_hw \<Rightarrow> nat \<Rightarrow> nat \<Rightarrow> bytes \<Rightarrow> 'w \<Rightarrow> (bytes \<times> ('w, loopback_error, unit) io) option" where
  "read_loop H len i [] w = Some ([], w, Inr ())"
| "read_loop H len i (byte # buffer) w =
     (let w = (if i = len - 1
               then modify_cr1 H (\<lambda>v. v OR CR1_STOP) (modify_cr1 H (\<lambda>v. v AND NOT CR1_ACK) w)
               else w)
      in case wait_for_flag H SR1_RXNE True DEFAULT_TIMEOUT w of
           None \<Rightarrow> None
         | Some (w, Inl e) \<Rightarrow> Some (byte # buffer, w, Inl e)
         | Some (w, Inr _) \<Rightarrow> do {
             let (b, w) = read_dr H w;
             (buffer, r) \<leftarrow> read_loop H len (i + 1) buffer w;
             Some (b # buffer, r) })"

definition lb_read ::
  "'w lb_hw \<Rightarrow> tester \<Rightarrow> u8 \<Rightarrow> bytes \<Rightarrow> 'w \<Rightarrow> (bytes \<times> ('w, loopback_error, unit) io) option" where
  "lb_read H t addr buffer w =
     (if \<not> initialized t then Some (buffer, w, Inl NotInitialized)
      else
        (case address_phase H (push_bit 1 addr OR 1) w of
           None \<Rightarrow> None
         | Some (w, Inl e) \<Rightarrow> Some (buffer, w, Inl e)
         | Some (w, Inr _) \<Rightarrow> do {
             (buffer, r) \<leftarrow> read_loop H (length buffer) 0 buffer w;
             Some (buffer, try_io r (\<lambda>w _. (modify_cr1 H (\<lambda>v. v OR CR1_ACK) w, Inr ()))) }))"

definition update_stats_error :: "loopback_error \<Rightarrow> tester \<Rightarrow> tester" where
  "update_stats_error e t =
     (let s = (stats t)\<lparr>tests_failed := tests_failed (stats t) + 1\<rparr>;
          s = (if e = Timeout then s\<lparr>timeouts := timeouts s + 1\<rparr> else s)
      in t\<lparr>stats := s\<rparr>)"

definition mismatches :: "bytes \<Rightarrow> bytes \<Rightarrow> nat list" where
  "mismatches data read_buffer =
     map fst (filter (\<lambda>(i, expected, actual). expected \<noteq> actual) (enumerate 0 (zip data read_buffer)))"

definition failed_result :: "'w lb_hw \<Rightarrow> nat \<Rightarrow> nat \<Rightarrow> loopback_error \<Rightarrow> 'w \<Rightarrow> test_result" where
  "failed_result H start_time n e w =
     \<lparr>status = Inl e, bytes_tested = n, duration = now_ms H w - start_time, error_positions = []\<rparr>"

definition test_pattern :: "'w lb_hw \<Rightarrow> bytes \<Rightarrow> tester \<times> 'w \<Rightarrow> (test_result \<times> tester \<times> 'w) option" where
  "test_pattern H data s =
     (let (t, w) = s; start_time = now_ms H w; bytes_tested = length data in
      case lb_write H t LOOPBACK_ADDRESS data w of
        None \<Rightarrow> None
      | Some (w, Inl e) \<Rightarrow>
          Some (failed_result H start_time bytes_tested e w, update_stats_error e t, w)
      | Some (w, Inr _) \<Rightarrow>
          (case lb_read H t LOOPBACK_ADDRESS (replicate (length data) 0) (sleep_ms H 10 w) of
             None \<Rightarrow> None
           | Some (_, w, Inl e) \<Rightarrow>
               Some (failed_result H start_time bytes_tested e w, update_stats_error e t, w)
           | Some (read_buffer, w, Inr _) \<Rightarrow>
               (let error_positions = mismatches data read_buffer;
                    elapsed = now_ms H w - start_time;
                    (result, s) =
                      (if error_positions = []
                       then (Inr (), (stats t)\<lparr>tests_passed := tests_passed (stats t) + 1\<rparr>)
                       else (Inl DataMismatch,
                             (stats t)\<lparr>tests_failed := tests_failed (stats t) + 1,
                               data_errors := data_errors (stats t) + length error_positions\<rparr>));
                    s = s\<lparr>total_duration := total_duration s + elapsed\<rparr>
                in Some (\<lparr>status = result, bytes_tested = bytes_tested, duration = elapsed,
                          error_positions = error_positions\<rparr>, t\<lparr>stats := s\<rparr>, w))))"

fun run_patterns :: "'w lb_hw \<Rightarrow> nat \<Rightarrow> bytes list \<Rightarrow> tester \<times> 'w \<Rightarrow> (test_result list \<times> tester \<times> 'w) option" where
  "run_patterns H delay [] s = Some ([], s)"
| "run_patterns H delay (data # patterns) s = do {
     (r, t, w) \<leftarrow> test_pattern H data s;
     let w = (if delay > 0 then sleep_ms H delay w else w);
     (rs, s) \<leftarrow> run_patterns H delay patterns (t, w);
     Some (r # rs, s)
   }"

definition suite_patterns :: "bytes list" where
  "suite_patterns = [replicate 16 0x00, replicate 16 0xFF, replicate 16 0xAA, replicate 16 0x55,
     map of_nat [0..<16], map (\<lambda>i. 0xA5 XOR of_nat i) [0..<16]]"

definition run_test_suite :: "'w lb_hw \<Rightarrow> tester \<times> 'w \<Rightarrow> (test_result list \<times> tester \<times> 'w) option" where
  "run_test_suite H s = run_patterns H 0 suite_patterns s"

definition reset_statistics :: "tester \<Rightarrow> tester" where
  "reset_statistics t = t\<lparr>stats := statistics_default\<rparr>"

subsection \<open>Custom tests\<close>

record test_builder =
  patterns :: "(string \<times> bytes) list"
  iterations :: nat
  delay_between_tests :: nat

definition test_builder_new :: test_builder where
  "test_builder_new = \<lparr>patterns = [], iterations = 1, delay_between_tests = 0\<rparr>"

definition add_pattern :: "string \<Rightarrow> bytes \<Rightarrow> test_builder \<Rightarrow> test_builder" where
  "add_pattern name data b = b\<lparr>patterns := patterns b @ [(name, data)]\<rparr>"

definition set_iterations :: "nat \<Rightarrow> test_builder \<Rightarrow> test_builder" where
  "set_iterations n b = b\<lparr>iterations := n\<rparr>"

definition set_delay :: "nat \<Rightarrow> test_builder \<Rightarrow> test_builder" where
  "set_delay d b = b\<lparr>delay_between_tests := d\<rparr>"

fun run_iterations ::
  "'w lb_hw \<Rightarrow> nat \<Rightarrow> bytes list \<Rightarrow> nat \<Rightarrow> tester \<times> 'w \<Rightarrow> (test_result list \<times> tester \<times> 'w) option" where
  "run_iterations H delay ps 0 s = Some ([], s)"
| "run_iterations H delay ps (Suc n) s = do {
     (rs, s) \<leftarrow> run_patterns H delay ps s;
     (rs', s) \<leftarrow> run_iterations H delay ps n s;
     Some (rs @ rs', s)
   }"

definition builder_run :: "'w lb_hw \<Rightarrow> test_builder \<Rightarrow> tester \<times> 'w \<Rightarrow> (test_result list \<times> tester \<times> 'w) option" where
  "builder_run H b s = run_iterations H (delay_between_tests b) (map snd (patterns b)) (iterations b) s"

subsection \<open>The statistics are the sum of the results\<close>

definition tally :: "statistics \<Rightarrow> test_result list \<Rightarrow> statistics \<Rightarrow> bool" where
  "tally s rs s' \<longleftrightarrow>
     tests_passed s' = tests_passed s + length (filter (\<lambda>r. status r = Inr ()) rs) \<and>
     tests_failed s' = tests_failed s + length (filter (\<lambda>r. status r \<noteq> Inr ()) rs) \<and>
     timeouts s' = timeouts s + length (filter (\<lambda>r. status r = Inl Timeout) rs) \<and>
     data_errors s' = data_errors s + sum_list (map (\<lambda>r. length (error_positions r)) rs)"

lemma tally_Nil: "tally s [] s"
  by (simp add: tally_def)

lemma tally_append: "tally s rs s' \<Longrightarrow> tally s' rs' s'' \<Longrightarrow> tally s (rs @ rs') s''"
  by (simp add: tally_def)

lemma test_pattern_tally:
  assumes "test_pattern H data (t, w) = Some (r, t', w')"
  shows "tally (stats t) [r] (stats t') \<and> bytes_tested r = length data \<and>
    (status r = Inr () \<longrightarrow> error_positions r = [])"
  using assms
  by (auto simp: test_pattern_def Let_def update_stats_error_def failed_result_def tally_def
      split: option.splits sum.splits prod.splits if_splits)

lemma run_patterns_tally:
  assumes "run_patterns H delay ps (t, w) = Some (rs, t', w')"
  shows "tally (stats t) rs (stats t') \<and> map bytes_tested rs = map length ps"
  using assms
proof (induction ps arbitrary: t w rs)
  case (Cons p ps)
  from Cons.prems obtain r t1 w1 rs1 where 1: "test_pattern H p (t, w) = Some (r, t1, w1)"
    and 2: "run_patterns H delay ps (t1, if delay > 0 then sleep_ms H delay w1 else w1) = Some (rs1, t', w')"
    and rs: "rs = r # rs1"
    by (auto simp: Let_def split: bind_splits)
  show ?case
    using test_pattern_tally [OF 1] Cons.IH [OF 2] tally_append [of "stats t" "[r]" "stats t1" rs1 "stats t'"]
    by (simp add: rs)
qed (simp add: tally_Nil)

text \<open>
  The statistics say exactly what happened, on any hardware: after a custom run that
  returns, there is one result per pattern and iteration, in order, and the counters have grown
  by the numbers of results that passed, that failed, that failed by a timeout, and by the
  number of mismatching positions reported.
\<close>

theorem builder_run_statistics:
  assumes "builder_run H b (t, w) = Some (rs, t', w')"
  shows "map bytes_tested rs = concat (replicate (iterations b) (map (length \<circ> snd) (patterns b))) \<and>
    tests_passed (stats t') = tests_passed (stats t) + length (filter (\<lambda>r. status r = Inr ()) rs) \<and>
    tests_failed (stats t') = tests_failed (stats t) + length (filter (\<lambda>r. status r \<noteq> Inr ()) rs) \<and>
    timeouts (stats t') = timeouts (stats t) + length (filter (\<lambda>r. status r = Inl Timeout) rs) \<and>
    data_errors (stats t') = data_errors (stats t) + sum_list (map (\<lambda>r. length (error_positions r)) rs)"
proof -
  have "tally (stats t) rs (stats t') \<and> map bytes_tested rs = concat (replicate n (map length ps))"
    if "run_iterations H delay ps n (t, w) = Some (rs, t', w')" for n delay ps
    using that
  proof (induction n arbitrary: t w rs)
    case (Suc n)
    from Suc.prems obtain rs1 t1 w1 rs2 where 1: "run_patterns H delay ps (t, w) = Some (rs1, t1, w1)"
      and 2: "run_iterations H delay ps n (t1, w1) = Some (rs2, t', w')" and rs: "rs = rs1 @ rs2"
      by (auto split: bind_splits)
    show ?case using run_patterns_tally [OF 1] Suc.IH [OF 2] by (auto simp: rs intro: tally_append)
  qed (simp add: tally_Nil)
  from this [OF assms [unfolded builder_run_def]] show ?thesis
    by (simp add: tally_def comp_def)
qed

subsection \<open>A loopback device\<close>

text \<open>
  Reference hardware: every status flag comes up at once; after START the next byte in the data
  register is the address, and the device at the loopback address stores what is written to it
  and returns it from the beginning when read, each byte passed through \<open>fault\<close>, by position.
\<close>

datatype phase = Idle | Addressing | Writing | Reading

record loopback =
  cr1_value :: u32
  phase :: phase
  memory :: bytes
  position :: nat

definition all_flags :: u32 where
  "all_flags = SR1_SB OR SR1_ADDR OR SR1_BTF OR SR1_RXNE OR SR1_TXE"

definition loopback_write :: "lb_reg \<Rightarrow> u32 \<Rightarrow> loopback \<Rightarrow> loopback" where
  "loopback_write r v w = (case r of
     CR1 \<Rightarrow> w\<lparr>cr1_value := v AND NOT (CR1_START OR CR1_STOP),
              phase := (if v AND CR1_START \<noteq> 0 then Addressing else phase w)\<rparr>
   | DR \<Rightarrow> (case phase w of
       Addressing \<Rightarrow>
         (if ucast v = (0xA0 :: u8) then w\<lparr>phase := Writing, memory := []\<rparr>
          else if ucast v = (0xA1 :: u8) then w\<lparr>phase := Reading, position := 0\<rparr> else w)
     | Writing \<Rightarrow> w\<lparr>memory := memory w @ [ucast v]\<rparr>
     | _ \<Rightarrow> w)
   | _ \<Rightarrow> w)"

definition loopback_read :: "(nat \<Rightarrow> u8 \<Rightarrow> u8) \<Rightarrow> lb_reg \<Rightarrow> loopback \<Rightarrow> u32 \<times> loopback" where
  "loopback_read fault r w = (case r of
     CR1 \<Rightarrow> (cr1_value w, w)
   | SR1 \<Rightarrow> (all_flags, w)
   | DR \<Rightarrow> (if position w < length (memory w) then ucast (fault (position w) (memory w ! position w)) else 0,
            w\<lparr>position := position w + 1\<rparr>)
   | _ \<Rightarrow> (0, w))"

definition loopback_hw :: "(nat \<Rightarrow> u8 \<Rightarrow> u8) \<Rightarrow> loopback lb_hw" where
  "loopback_hw fault = \<lparr>read_reg = loopback_read fault, write_reg = loopback_write,
     now_ms = (\<lambda>_. 0), sleep_ms = (\<lambda>_ w. w)\<rparr>"

lemma flags_up:
  "all_flags AND SR1_SB \<noteq> 0" "all_flags AND SR1_ADDR \<noteq> 0" "all_flags AND SR1_BTF \<noteq> 0"
  "all_flags AND SR1_RXNE \<noteq> 0" "all_flags AND SR1_TXE \<noteq> 0"
  by (simp_all add: all_flags_def SR1_SB_def SR1_ADDR_def SR1_BTF_def SR1_RXNE_def SR1_TXE_def)

lemma wait_returns:
  "all_flags AND flag \<noteq> 0 \<Longrightarrow> wait_for_flag (loopback_hw f) flag True DEFAULT_TIMEOUT w = Some (w, Inr ())"
  unfolding wait_for_flag_def
  by (subst flag_loop.simps) (simp add: loopback_hw_def loopback_read_def DEFAULT_TIMEOUT_def)

lemma modify_start:
  "phase (modify_cr1 (loopback_hw f) (\<lambda>v. v OR CR1_START) w) = Addressing"
  "memory (modify_cr1 (loopback_hw f) (\<lambda>v. v OR CR1_START) w) = memory w"
proof -
  have "(v OR CR1_START) AND CR1_START \<noteq> 0" for v
    by (simp add: CR1_START_def bit_eq_iff bit_simps) (rule exI [of _ 8], simp)
  then show "phase (modify_cr1 (loopback_hw f) (\<lambda>v. v OR CR1_START) w) = Addressing"
    "memory (modify_cr1 (loopback_hw f) (\<lambda>v. v OR CR1_START) w) = memory w"
    by (simp_all add: modify_cr1_def loopback_hw_def loopback_read_def loopback_write_def)
qed

lemma modify_keeps:
  "memory (modify_cr1 (loopback_hw f) g w) = memory w" "position (modify_cr1 (loopback_hw f) g w) = position w"
  by (simp_all add: modify_cr1_def loopback_hw_def loopback_read_def loopback_write_def)

lemma address_phase_write:
  "\<exists>w'. address_phase (loopback_hw f) 0xA0 w = Some (w', Inr ()) \<and> phase w' = Writing \<and> memory w' = []"
  using modify_start [of f w]
  by (simp add: address_phase_def wait_returns flags_up write_dr_def)
     (simp add: loopback_hw_def loopback_read_def loopback_write_def)

lemma address_phase_read:
  "\<exists>w'. address_phase (loopback_hw f) 0xA1 w = Some (w', Inr ()) \<and> memory w' = memory w \<and> position w' = 0"
  using modify_start [of f w]
  by (simp add: address_phase_def wait_returns flags_up write_dr_def)
     (simp add: loopback_hw_def loopback_read_def loopback_write_def)

lemma write_loop_stores:
  "phase w = Writing \<Longrightarrow>
     \<exists>w'. write_loop (loopback_hw f) data w = Some (w', Inr ()) \<and> memory w' = memory w @ data"
proof (induction data arbitrary: w)
  case (Cons b data)
  have "phase (write_dr (loopback_hw f) b w) = Writing" "memory (write_dr (loopback_hw f) b w) = memory w @ [b]"
    using Cons.prems by (simp_all add: write_dr_def loopback_hw_def loopback_write_def)
  then show ?case using Cons.IH by (fastforce simp: wait_returns flags_up)
qed simp

lemma lb_write_stores:
  assumes "initialized t"
  shows "\<exists>w'. lb_write (loopback_hw f) t LOOPBACK_ADDRESS data w = Some (w', Inr ()) \<and> memory w' = data"
proof -
  obtain u where u: "address_phase (loopback_hw f) 0xA0 w = Some (u, Inr ())" "phase u = Writing" "memory u = []"
    using address_phase_write by blast
  then obtain v where "write_loop (loopback_hw f) data u = Some (v, Inr ())" "memory v = data"
    using write_loop_stores [of u f data] by auto
  then show ?thesis using assms u(1)
    by (simp add: lb_write_def LOOPBACK_ADDRESS_def wait_returns flags_up modify_keeps)
qed

lemma read_dr_next:
  assumes "position w < length (memory w)"
  shows "\<exists>w'. read_dr (loopback_hw f) w = (f (position w) (memory w ! position w), w') \<and>
    memory w' = memory w \<and> position w' = position w + 1"
  using assms by (simp add: read_dr_def loopback_hw_def loopback_read_def)

lemma read_loop_returns:
  assumes "position w + length buffer \<le> length (memory w)"
  shows "\<exists>w'. read_loop (loopback_hw f) n i buffer w =
    Some (map (\<lambda>k. f k (memory w ! k)) [position w..<position w + length buffer], w', Inr ())"
  using assms
proof (induction buffer arbitrary: w i)
  case (Cons b buffer)
  define u where "u = (if i = n - 1
     then modify_cr1 (loopback_hw f) (\<lambda>v. v OR CR1_STOP) (modify_cr1 (loopback_hw f) (\<lambda>v. v AND NOT CR1_ACK) w)
     else w)"
  have u: "memory u = memory w" "position u = position w" by (simp_all add: u_def modify_keeps)
  then have "position u < length (memory u)" using Cons.prems by simp
  then obtain v where v: "read_dr (loopback_hw f) u = (f (position w) (memory w ! position w), v)"
    "memory v = memory w" "position v = position w + 1"
    using read_dr_next [of u f] u by auto
  obtain w' where "read_loop (loopback_hw f) n (i + 1) buffer v =
      Some (map (\<lambda>k. f k (memory w ! k)) [Suc (position w)..<Suc (position w) + length buffer], w', Inr ())"
    using Cons.IH [of v "i + 1"] v(2,3) Cons.prems by auto
  moreover have "[position w..<position w + length (b # buffer)] =
      position w # [Suc (position w)..<Suc (position w) + length buffer]"
    by (subst upt_conv_Cons) (simp_all del: upt_Suc)
  moreover have "wait_for_flag (loopback_hw f) SR1_RXNE True DEFAULT_TIMEOUT u = Some (u, Inr ())"
    by (simp add: wait_returns flags_up)
  ultimately show ?case using v(1)
    unfolding read_loop.simps Let_def u_def [symmetric] by simp
qed simp

lemma lb_read_returns:
  assumes "initialized t" "length buffer = length (memory w)"
  shows "\<exists>w'. lb_read (loopback_hw f) t LOOPBACK_ADDRESS buffer w =
    Some (map (\<lambda>k. f k (memory w ! k)) [0..<length buffer], w', Inr ())"
proof -
  obtain u where u: "address_phase (loopback_hw f) 0xA1 w = Some (u, Inr ())" "memory u = memory w" "position u = 0"
    using address_phase_read by blast
  obtain v where "read_loop (loopback_hw f) (length buffer) 0 buffer u =
      Some (map (\<lambda>k. f k (memory w ! k)) [0..<length buffer], v, Inr ())"
    using read_loop_returns [of u buffer f "length buffer" 0] u(2,3) assms(2) by auto
  then show ?thesis using assms(1) u(1) by (simp add: lb_read_def LOOPBACK_ADDRESS_def)
qed

lemma zip_map_self: "zip xs (map f xs) = map (\<lambda>x. (x, f x)) xs"
  by (induction xs) simp_all

lemma mismatches_positions:
  assumes "length bs = length as"
  shows "mismatches as bs = filter (\<lambda>i. as ! i \<noteq> bs ! i) [0..<length as]"
proof -
  have "zip as bs = map (\<lambda>i. (as ! i, bs ! i)) [0..<length as]"
    using assms by (intro nth_equalityI) simp_all
  then have "enumerate 0 (zip as bs) = map (\<lambda>i. (i, as ! i, bs ! i)) [0..<length as]"
    using assms by (simp add: enumerate_eq_zip zip_map_self)
  then show ?thesis by (simp add: mismatches_def filter_map comp_def)
qed

lemma test_pattern_loopback:
  assumes "initialized t"
  shows "\<exists>r t' w'. test_pattern (loopback_hw fault) data (t, w) = Some (r, t', w') \<and>
    error_positions r = filter (\<lambda>i. data ! i \<noteq> fault i (data ! i)) [0..<length data] \<and>
    status r = (if error_positions r = [] then Inr () else Inl DataMismatch) \<and> initialized t'"
proof -
  obtain u where u: "lb_write (loopback_hw fault) t LOOPBACK_ADDRESS data w = Some (u, Inr ())" "memory u = data"
    using lb_write_stores [OF assms] by blast
  obtain v where v: "lb_read (loopback_hw fault) t LOOPBACK_ADDRESS (replicate (length data) 0) u =
      Some (map (\<lambda>k. fault k (data ! k)) [0..<length data], v, Inr ())"
    using lb_read_returns [OF assms, of "replicate (length data) 0" u fault] u(2) by auto
  define e where "e = filter (\<lambda>i. data ! i \<noteq> fault i (data ! i)) [0..<length data]"
  have sleep: "sleep_ms (loopback_hw fault) 10 u = u" by (simp add: loopback_hw_def)
  have found: "mismatches data (map (\<lambda>k. fault k (data ! k)) [0..<length data]) = e"
    unfolding e_def by (subst mismatches_positions, simp, rule filter_cong) simp_all
  show ?thesis
    unfolding e_def [symmetric] test_pattern_def Let_def prod.case u(1) option.case sum.case sleep v found
    using assms by (cases "e = []") simp_all
qed

lemma run_patterns_loopback:
  "initialized t \<Longrightarrow> \<exists>rs t' w'. run_patterns (loopback_hw fault) d ps (t, w) = Some (rs, t', w') \<and> initialized t'"
proof (induction ps arbitrary: t w)
  case (Cons p ps)
  obtain r t1 w1 where "test_pattern (loopback_hw fault) p (t, w) = Some (r, t1, w1)" "initialized t1"
    using test_pattern_loopback [OF Cons.prems] by blast
  then show ?case
    using Cons.IH [of t1 "if d > 0 then sleep_ms (loopback_hw fault) d w1 else w1"] by (auto simp: Let_def)
qed simp

lemma run_iterations_loopback:
  "initialized t \<Longrightarrow> \<exists>rs t' w'. run_iterations (loopback_hw fault) d ps n (t, w) = Some (rs, t', w')"
proof (induction n arbitrary: t w)
  case (Suc n)
  obtain rs t1 w1 where 1: "run_patterns (loopback_hw fault) d ps (t, w) = Some (rs, t1, w1)" "initialized t1"
    using run_patterns_loopback [OF Suc.prems] by blast
  then show ?case using Suc.IH [OF 1(2), of w1] by auto
qed simp

text \<open>
  The tester finds exactly the faults of the device. On the reference hardware an initialised
  tester's \<open>test_pattern\<close> returns for every pattern and every fault function; the positions it
  reports are exactly those at which the device returns another byte than it was given, and it
  passes when there are none.
\<close>

theorem test_pattern_finds_faults:
  assumes "initialized t"
  shows "\<exists>r t' w'. test_pattern (loopback_hw fault) data (t, w) = Some (r, t', w') \<and>
    error_positions r = filter (\<lambda>i. data ! i \<noteq> fault i (data ! i)) [0..<length data] \<and>
    status r = (if error_positions r = [] then Inr () else Inl DataMismatch)"
  using test_pattern_loopback [OF assms] by blast

definition example_loopback :: loopback where
  "example_loopback = \<lparr>cr1_value = 0, phase = Idle, memory = [], position = 0\<rparr>"

theorem test_pattern_finds_faults_witness:
  "\<exists>r t' w'. test_pattern (loopback_hw (\<lambda>i b. if i = 1 then b XOR 1 else b)) [7, 8, 9]
      (tester_new\<lparr>initialized := True\<rparr>, example_loopback) = Some (r, t', w') \<and>
    error_positions r = [1] \<and> status r = Inl DataMismatch"
  using test_pattern_finds_faults [of "tester_new\<lparr>initialized := True\<rparr>"
      "\<lambda>i b. if i = 1 then b XOR 1 else b" "[7, 8, 9]" example_loopback]
  by (auto simp: upt_rec)

theorem builder_run_statistics_witness:
  "\<exists>rs t' w'. builder_run (loopback_hw (\<lambda>_ b. b)) (set_iterations 2 (add_pattern ''p'' [1] test_builder_new))
      (tester_new\<lparr>initialized := True\<rparr>, example_loopback) = Some (rs, t', w') \<and>
    map bytes_tested rs = [1, 1] \<and>
    tests_failed (stats t') = length (filter (\<lambda>r. status r \<noteq> Inr ()) rs)"
proof -
  let ?b = "set_iterations 2 (add_pattern ''p'' [1] test_builder_new)"
  obtain rs t' w' where run: "builder_run (loopback_hw (\<lambda>_ b. b)) ?b
      (tester_new\<lparr>initialized := True\<rparr>, example_loopback) = Some (rs, t', w')"
    using run_iterations_loopback [of "tester_new\<lparr>initialized := True\<rparr>" "\<lambda>_ b. b"
        "delay_between_tests ?b" "map snd (patterns ?b)" "iterations ?b" example_loopback]
    unfolding builder_run_def by auto
  show ?thesis
    using builder_run_statistics [OF run] run
    by (simp add: set_iterations_def add_pattern_def test_builder_new_def tester_new_def
        statistics_default_def numeral_2_eq_2)
qed

end
