(* ===== verification/I2c_Verifier.thy ===== *)
theory I2c_Verifier
  imports Uproto_Prelude
begin

text \<open>
  \<^verbatim>\<open>I2C/src/45\<close>: the protocol verifier that checks measured bus timings, address frames and
  clock stretching against a timing specification and keeps the errors and statistics of a
  session. Durations are \<open>nat\<close> in nanoseconds; the statistics are 32-bit words that wrap, as in
  a release build. Rendering a duration is an argument of the report.
\<close>

subsection \<open>Timing specifications\<close>

record timing_spec =
  scl_low_min :: nat
  scl_high_min :: nat
  start_setup_min :: nat
  start_hold_min :: nat
  data_setup_min :: nat
  data_hold_min :: nat
  stop_setup_min :: nat
  bus_free_min :: nat

definition from_micros :: "nat \<Rightarrow> nat" where
  "from_micros n = n * 1000"

definition STANDARD_MODE :: timing_spec where
  "STANDARD_MODE =
     \<lparr>scl_low_min = from_micros 4700, scl_high_min = from_micros 4000,
      start_setup_min = from_micros 4700, start_hold_min = from_micros 4000,
      data_setup_min = 250, data_hold_min = 0,
      stop_setup_min = from_micros 4000, bus_free_min = from_micros 4700\<rparr>"

definition FAST_MODE :: timing_spec where
  "FAST_MODE =
     \<lparr>scl_low_min = 1300, scl_high_min = 600, start_setup_min = 600, start_hold_min = 600,
      data_setup_min = 100, data_hold_min = 0, stop_setup_min = 600, bus_free_min = 1300\<rparr>"

definition FAST_MODE_PLUS :: timing_spec where
  "FAST_MODE_PLUS =
     \<lparr>scl_low_min = 500, scl_high_min = 260, start_setup_min = 260, start_hold_min = 260,
      data_setup_min = 50, data_hold_min = 0, stop_setup_min = 260, bus_free_min = 500\<rparr>"

subsection \<open>States, errors, statistics\<close>

datatype bus_state = Idle | Start | Addressing | DataTx | DataRx | Ack | Nack | Stop | BusErrorState

fun bus_state_display :: "bus_state \<Rightarrow> string" where
  "bus_state_display Idle = ''IDLE''"
| "bus_state_display Start = ''START''"
| "bus_state_display Addressing = ''ADDRESSING''"
| "bus_state_display DataTx = ''DATA_TX''"
| "bus_state_display DataRx = ''DATA_RX''"
| "bus_state_display Ack = ''ACK''"
| "bus_state_display Nack = ''NACK''"
| "bus_state_display Stop = ''STOP''"
| "bus_state_display BusErrorState = ''ERROR''"

datatype verification_error =
    TimingViolation string nat nat
  | InvalidAddress u16 string
  | NoAcknowledge u16
  | ClockStretchTimeout nat nat
  | ArbitrationLost
  | BusError string

text \<open>Upper-case hexadecimal without leading zeros, and padded to two digits.\<close>

fun hex_upper :: "nat \<Rightarrow> string" where
  "hex_upper n =
     (if n < 16 then [''0123456789ABCDEF'' ! n] else hex_upper (n div 16) @ [''0123456789ABCDEF'' ! (n mod 16)])"

declare hex_upper.simps [simp del]

definition hex_upper2 :: "nat \<Rightarrow> string" where
  "hex_upper2 n = (if n < 16 then ''0'' else []) @ hex_upper n"

fun verification_error_display :: "(nat \<Rightarrow> string) \<Rightarrow> verification_error \<Rightarrow> string" where
  "verification_error_display dbg (TimingViolation parameter measured expected_min) =
     parameter @ '' timing violation: '' @ dbg measured @ '' < '' @ dbg expected_min @ '' (min)''"
| "verification_error_display dbg (InvalidAddress address reason) =
     ''Invalid address 0x'' @ hex_upper (unat address) @ '': '' @ reason"
| "verification_error_display dbg (NoAcknowledge address) =
     ''No ACK received for address 0x'' @ hex_upper (unat address)"
| "verification_error_display dbg (ClockStretchTimeout duration max_allowed) =
     ''Clock stretch timeout: '' @ dbg duration @ '' > '' @ dbg max_allowed @ '' (max)''"
| "verification_error_display dbg ArbitrationLost = ''Arbitration lost on bus''"
| "verification_error_display dbg (BusError msg) = ''Bus error: '' @ msg"

record verification_stats =
  transaction_count :: u32
  error_count :: u32
  clock_stretching_count :: u32
  arbitration_loss_count :: u32

definition stats_default :: verification_stats where
  "stats_default =
     \<lparr>transaction_count = 0, error_count = 0, clock_stretching_count = 0, arbitration_loss_count = 0\<rparr>"

record protocol_verifier =
  timing :: timing_spec
  current_state :: bus_state
  vstats :: verification_stats
  errors :: "verification_error list"

definition verifier_new :: "timing_spec \<Rightarrow> protocol_verifier" where
  "verifier_new spec = \<lparr>timing = spec, current_state = Idle, vstats = stats_default, errors = []\<rparr>"

definition record_error :: "protocol_verifier \<Rightarrow> verification_error \<Rightarrow> protocol_verifier" where
  "record_error v error =
     v\<lparr>vstats := (vstats v)\<lparr>error_count := error_count (vstats v) + 1\<rparr>, errors := errors v @ [error]\<rparr>"

subsection \<open>The checks\<close>

type_synonym check_result = "protocol_verifier \<times> (verification_error + unit)"

definition fail_with :: "protocol_verifier \<Rightarrow> verification_error \<Rightarrow> check_result" where
  "fail_with v err = (record_error v err, Inl err)"

definition verify_start_condition :: "protocol_verifier \<Rightarrow> nat \<Rightarrow> nat \<Rightarrow> check_result" where
  "verify_start_condition v setup_time hold_time =
     (if setup_time < start_setup_min (timing v)
      then fail_with v (TimingViolation ''START setup'' setup_time (start_setup_min (timing v)))
      else if hold_time < start_hold_min (timing v)
      then fail_with v (TimingViolation ''START hold'' hold_time (start_hold_min (timing v)))
      else (v\<lparr>current_state := Start\<rparr>, Inr ()))"

definition verify_stop_condition :: "protocol_verifier \<Rightarrow> nat \<Rightarrow> check_result" where
  "verify_stop_condition v setup_time =
     (if setup_time < stop_setup_min (timing v)
      then fail_with v (TimingViolation ''STOP setup'' setup_time (stop_setup_min (timing v)))
      else (v\<lparr>current_state := Stop,
              vstats := (vstats v)\<lparr>transaction_count := transaction_count (vstats v) + 1\<rparr>\<rparr>, Inr ()))"

definition verify_data_timing :: "protocol_verifier \<Rightarrow> nat \<Rightarrow> nat \<Rightarrow> nat \<Rightarrow> nat \<Rightarrow> check_result" where
  "verify_data_timing v setup_time hold_time scl_low scl_high =
     (if setup_time < data_setup_min (timing v)
      then fail_with v (TimingViolation ''Data setup'' setup_time (data_setup_min (timing v)))
      else if scl_low < scl_low_min (timing v)
      then fail_with v (TimingViolation ''SCL low'' scl_low (scl_low_min (timing v)))
      else if scl_high < scl_high_min (timing v)
      then fail_with v (TimingViolation ''SCL high'' scl_high (scl_high_min (timing v)))
      else (v, Inr ()))"

definition verify_bus_free_time :: "protocol_verifier \<Rightarrow> nat \<Rightarrow> check_result" where
  "verify_bus_free_time v free_time =
     (if free_time < bus_free_min (timing v)
      then fail_with v (TimingViolation ''Bus free'' free_time (bus_free_min (timing v)))
      else (v, Inr ()))"

definition verify_address_frame :: "protocol_verifier \<Rightarrow> u16 \<Rightarrow> bool \<Rightarrow> bool \<Rightarrow> bool \<Rightarrow> check_result" where
  "verify_address_frame v address is_10bit read_mode ack_received =
     (if \<not> is_10bit \<and> address > 0x7F
      then fail_with v (InvalidAddress address ''7-bit address exceeds 0x7F'')
      else
        let addr_7bit = (ucast (drop_bit 1 address) :: u8) in
        if \<not> is_10bit \<and> (addr_7bit \<le> 0x07 \<or> addr_7bit \<ge> 0x78)
        then fail_with v (InvalidAddress address (''Reserved address 0x'' @ hex_upper2 (unat addr_7bit)))
        else if \<not> ack_received
        then fail_with v (NoAcknowledge address)
        else (v\<lparr>current_state := (if read_mode then DataRx else DataTx)\<rparr>, Inr ()))"

definition verify_clock_stretching :: "protocol_verifier \<Rightarrow> nat \<Rightarrow> nat \<Rightarrow> check_result" where
  "verify_clock_stretching v stretch_duration max_allowed =
     (let v' = v\<lparr>vstats := (vstats v)\<lparr>clock_stretching_count := clock_stretching_count (vstats v) + 1\<rparr>\<rparr> in
      if stretch_duration > max_allowed
      then fail_with v' (ClockStretchTimeout stretch_duration max_allowed)
      else (v', Inr ()))"

definition record_arbitration_loss :: "protocol_verifier \<Rightarrow> protocol_verifier" where
  "record_arbitration_loss v =
     record_error
       (v\<lparr>vstats := (vstats v)\<lparr>arbitration_loss_count := arbitration_loss_count (vstats v) + 1\<rparr>,
          current_state := BusErrorState\<rparr>) ArbitrationLost"

definition verifier_reset :: "protocol_verifier \<Rightarrow> protocol_verifier" where
  "verifier_reset v = v\<lparr>current_state := Idle, vstats := stats_default, errors := []\<rparr>"

subsection \<open>The report\<close>

definition nl :: string where
  "nl = [char_of (10 :: nat)]"

definition show_u32 :: "u32 \<Rightarrow> string" where
  "show_u32 w = string_of_nat (unat w)"

fun report_errors :: "(nat \<Rightarrow> string) \<Rightarrow> nat \<Rightarrow> verification_error list \<Rightarrow> string" where
  "report_errors dbg i [] = []"
| "report_errors dbg i (e # es) =
     ''  '' @ string_of_nat (i + 1) @ ''. '' @ verification_error_display dbg e @ nl @ report_errors dbg (i + 1) es"

text \<open>The check mark and the cross of the last line are their UTF-8 bytes.\<close>

definition generate_report :: "(nat \<Rightarrow> string) \<Rightarrow> protocol_verifier \<Rightarrow> string" where
  "generate_report dbg v =
     nl @ ''=== I2C Protocol Verification Report ==='' @ nl @
     ''Total Transactions: '' @ show_u32 (transaction_count (vstats v)) @ nl @
     ''Total Errors: '' @ show_u32 (error_count (vstats v)) @ nl @
     ''Clock Stretching Events: '' @ show_u32 (clock_stretching_count (vstats v)) @ nl @
     ''Arbitration Losses: '' @ show_u32 (arbitration_loss_count (vstats v)) @ nl @
     ''Current Bus State: '' @ bus_state_display (current_state v) @ nl @
     (if errors v \<noteq> [] then nl @ ''Errors Encountered:'' @ nl @ report_errors dbg 0 (errors v) else []) @
     (if error_count (vstats v) = 0
      then nl @ map char_of [0xE2 :: nat, 0x9C, 0x93] @ '' All protocol verification tests PASSED'' @ nl
      else nl @ map char_of [0xE2 :: nat, 0x9C, 0x97] @ '' Protocol verification FAILED with '' @
           show_u32 (error_count (vstats v)) @ '' error(s)'' @ nl) @
     ''========================================'' @ nl"

subsection \<open>Sessions\<close>

text \<open>A session is a sequence of calls.\<close>

datatype check =
    CheckStart nat nat
  | CheckStop nat
  | CheckData nat nat nat nat
  | CheckBusFree nat
  | CheckAddress u16 bool bool bool
  | CheckStretch nat nat
  | ArbitrationLoss

fun run_check :: "protocol_verifier \<Rightarrow> check \<Rightarrow> protocol_verifier" where
  "run_check v (CheckStart s h) = fst (verify_start_condition v s h)"
| "run_check v (CheckStop s) = fst (verify_stop_condition v s)"
| "run_check v (CheckData s h lo hi) = fst (verify_data_timing v s h lo hi)"
| "run_check v (CheckBusFree f) = fst (verify_bus_free_time v f)"
| "run_check v (CheckAddress a ten rd ack) = fst (verify_address_frame v a ten rd ack)"
| "run_check v (CheckStretch d mx) = fst (verify_clock_stretching v d mx)"
| "run_check v ArbitrationLoss = record_arbitration_loss v"

definition run_session :: "timing_spec \<Rightarrow> check list \<Rightarrow> protocol_verifier" where
  "run_session spec cs = foldl run_check (verifier_new spec) cs"

text \<open>
  What the documentation promises, read off a table and independently of the order of tests in
  the code: a timing call has a list of requirements (parameter, measured value, minimum) and
  the error is the first one that is missed; the usable 7-bit addresses are 0x08 to 0x77
  (\<^verbatim>\<open>I2C/docs/45_Protocol_Verification.md\<close>).
\<close>

fun requirements :: "timing_spec \<Rightarrow> check \<Rightarrow> (string \<times> nat \<times> nat) list" where
  "requirements spec (CheckStart s h) =
     [(''START setup'', s, start_setup_min spec), (''START hold'', h, start_hold_min spec)]"
| "requirements spec (CheckStop s) = [(''STOP setup'', s, stop_setup_min spec)]"
| "requirements spec (CheckData s h lo hi) =
     [(''Data setup'', s, data_setup_min spec), (''SCL low'', lo, scl_low_min spec),
      (''SCL high'', hi, scl_high_min spec)]"
| "requirements spec (CheckBusFree f) = [(''Bus free'', f, bus_free_min spec)]"
| "requirements spec _ = []"

fun missed :: "(string \<times> nat \<times> nat) list \<Rightarrow> verification_error option" where
  "missed [] = None"
| "missed ((p, measured, least) # rs) =
     (if least \<le> measured then missed rs else Some (TimingViolation p measured least))"

definition acknowledged :: "u16 \<Rightarrow> bool \<Rightarrow> verification_error option" where
  "acknowledged a ack = (if ack then None else Some (NoAcknowledge a))"

definition reserved_as :: "u16 \<Rightarrow> nat \<Rightarrow> verification_error" where
  "reserved_as a n = InvalidAddress a (''Reserved address 0x'' @ hex_upper2 n)"

fun documented :: "timing_spec \<Rightarrow> check \<Rightarrow> verification_error option" where
  "documented spec (CheckAddress a ten rd ack) =
     (if ten \<or> unat a \<in> {0x08..0x77} then acknowledged a ack
      else if unat a \<le> 0x7F then Some (reserved_as a (unat a))
      else Some (InvalidAddress a ''7-bit address exceeds 0x7F''))"
| "documented spec (CheckStretch d mx) = (if d \<le> mx then None else Some (ClockStretchTimeout d mx))"
| "documented spec ArbitrationLoss = Some ArbitrationLost"
| "documented spec c = missed (requirements spec c)"

text \<open>
  What the verifier reports: it halves a 7-bit address before it compares it with the reserved
  ranges, so it differs from the documentation for the addresses below 0x10 (all refused, under
  the name of half the address) and for 0x78 to 0x7F (none refused).
\<close>

fun mischecked :: "check \<Rightarrow> bool" where
  "mischecked (CheckAddress a ten rd ack) \<longleftrightarrow> \<not> ten \<and> (unat a < 0x10 \<or> unat a \<in> {0x78..0x7F})"
| "mischecked _ \<longleftrightarrow> False"

fun halved :: "check \<Rightarrow> verification_error option" where
  "halved (CheckAddress a ten rd ack) =
     (if unat a < 0x10 then Some (reserved_as a (unat a div 2)) else acknowledged a ack)"
| "halved _ = None"

definition reported :: "timing_spec \<Rightarrow> check \<Rightarrow> verification_error option" where
  "reported spec c = (if mischecked c then halved c else documented spec c)"

text \<open>The state the bus is in after a call that reports nothing, if the call changes it.\<close>

fun moves_to :: "check \<Rightarrow> bus_state option" where
  "moves_to (CheckStart s h) = Some Start"
| "moves_to (CheckStop s) = Some Stop"
| "moves_to (CheckAddress a ten rd ack) = Some (if rd then DataRx else DataTx)"
| "moves_to _ = None"

fun state_after :: "timing_spec \<Rightarrow> check list \<Rightarrow> bus_state" where
  "state_after spec [] = Idle"
| "state_after spec (c # cs) =
     (if c = ArbitrationLoss then BusErrorState
      else if reported spec c = None then (case moves_to c of Some s \<Rightarrow> s | None \<Rightarrow> state_after spec cs)
      else state_after spec cs)"

definition stops :: "timing_spec \<Rightarrow> check list \<Rightarrow> nat" where
  "stops spec cs = length (filter (\<lambda>c. \<exists>s. c = CheckStop s \<and> stop_setup_min spec \<le> s) cs)"

definition stretches :: "check list \<Rightarrow> nat" where
  "stretches cs = length (filter (\<lambda>c. \<exists>d mx. c = CheckStretch d mx) cs)"

subsection \<open>One call\<close>

lemmas verify_defs =
  verify_start_condition_def verify_stop_condition_def verify_data_timing_def verify_bus_free_time_def
  verify_clock_stretching_def record_arbitration_loss_def fail_with_def record_error_def Let_def

lemmas report_defs = reported_def acknowledged_def reserved_as_def

lemma unat_addr_7bit: "unat (ucast (drop_bit 1 a) :: u8) = unat (a :: u16) div 2 mod 256"
  by (simp add: unsigned_ucast_eq drop_bit_eq_div take_bit_eq_mod unat_div)

lemma address_above: "((a :: u16) > 0x7F) = (unat a > 127)"
  by (simp add: word_less_nat_alt)

lemma halved_reserved:
  "((ucast (drop_bit 1 (a :: u16)) :: u8) \<le> 0x07) = (unat a div 2 mod 256 \<le> 7)"
  "((ucast (drop_bit 1 a) :: u8) \<ge> 0x78) = (unat a div 2 mod 256 \<ge> 120)"
  by (simp_all only: word_le_nat_alt unat_addr_7bit) simp_all

lemma verify_address_frame_reports:
  "verify_address_frame v a ten rd ack =
     (case reported spec (CheckAddress a ten rd ack) of
        Some err \<Rightarrow> fail_with v err
      | None \<Rightarrow> (v\<lparr>current_state := (if rd then DataRx else DataTx)\<rparr>, Inr ()))"
proof -
  consider "ten" | "\<not> ten" "unat a > 127" | "\<not> ten" "unat a \<le> 127" by fastforce
  then show ?thesis
  proof cases
    case 3
    then have half: "unat a div 2 mod 256 = unat a div 2" by simp
    have "(unat a div 2 \<le> 7) = (unat a < 16)" "(unat a div 2 \<ge> 120) = False" using 3 by auto
    with 3 show ?thesis
      unfolding verify_address_frame_def Let_def address_above halved_reserved unat_addr_7bit half
      by (auto simp: report_defs)
  next
    case 2
    then show ?thesis
      unfolding verify_address_frame_def address_above by (simp add: report_defs)
  qed (simp add: verify_address_frame_def Let_def report_defs)
qed

lemma run_check_reports:
  "errors (run_check v c) = errors v @ (case reported (timing v) c of Some err \<Rightarrow> [err] | None \<Rightarrow> []) \<and>
   error_count (vstats (run_check v c)) =
     error_count (vstats v) + (if reported (timing v) c = None then 0 else 1)"
  by (cases c)
    (auto simp: verify_defs verify_address_frame_reports [where spec = "timing v"] report_defs
      split: option.split if_splits)

lemma run_check_timing [simp]: "timing (run_check v c) = timing v"
  by (cases c) (auto simp: verify_defs verify_address_frame_reports [where spec = "timing v"]
      split: option.split)

lemma run_check_state:
  "current_state (run_check v c) =
     (if c = ArbitrationLoss then BusErrorState
      else if reported (timing v) c = None
           then (case moves_to c of Some s \<Rightarrow> s | None \<Rightarrow> current_state v)
      else current_state v)"
  by (cases c)
    (auto simp: verify_defs verify_address_frame_reports [where spec = "timing v"] reported_def
      split: option.split)

lemma run_check_counters:
  "transaction_count (vstats (run_check v c)) =
     transaction_count (vstats v) + (if \<exists>s. c = CheckStop s \<and> stop_setup_min (timing v) \<le> s then 1 else 0)"
  "clock_stretching_count (vstats (run_check v c)) =
     clock_stretching_count (vstats v) + (if \<exists>d mx. c = CheckStretch d mx then 1 else 0)"
  "arbitration_loss_count (vstats (run_check v c)) =
     arbitration_loss_count (vstats v) + (if c = ArbitrationLoss then 1 else 0)"
  by (cases c; auto simp: verify_defs verify_address_frame_reports [where spec = "timing v"]
        split: option.split)+

subsection \<open>Whole sessions\<close>

lemma session_timing [simp]: "timing (run_session spec cs) = spec"
  by (induction cs rule: rev_induct) (simp_all add: run_session_def verifier_new_def)

lemma run_session_Nil: "run_session spec [] = verifier_new spec"
  by (simp add: run_session_def)

lemma run_session_snoc: "run_session spec (cs @ [c]) = run_check (run_session spec cs) c"
  by (simp add: run_session_def)

lemmas session_simps = run_session_Nil run_session_snoc verifier_new_def stats_default_def

lemma session_errors: "errors (run_session spec cs) = List.map_filter (reported spec) cs"
  by (induction cs rule: rev_induct)
    (auto simp: session_simps run_check_reports List.map_filter_def split: option.split)

lemma session_error_count:
  "error_count (vstats (run_session spec cs)) = of_nat (length (errors (run_session spec cs)))"
  by (induction cs rule: rev_induct)
    (auto simp: session_simps run_check_reports split: option.split)

lemma session_state: "current_state (run_session spec cs) = state_after spec (rev cs)"
  by (induction cs rule: rev_induct) (auto simp: session_simps run_check_state split: option.split)

lemma session_counters:
  "transaction_count (vstats (run_session spec cs)) = of_nat (stops spec cs)"
  "clock_stretching_count (vstats (run_session spec cs)) = of_nat (stretches cs)"
  "arbitration_loss_count (vstats (run_session spec cs)) = of_nat (count_list cs ArbitrationLoss)"
  by (induction cs rule: rev_induct)
    (auto simp: session_simps run_check_counters stops_def stretches_def)

lemma session_reset: "verifier_reset (run_session spec cs) = verifier_new spec"
  using session_timing [of spec cs]
  by (cases "run_session spec cs") (simp add: verifier_reset_def verifier_new_def)

lemma session_documented:
  assumes "\<forall>c \<in> set cs. \<not> mischecked c"
  shows "errors (run_session spec cs) = List.map_filter (documented spec) cs"
  unfolding session_errors List.map_filter_def
  using assms by (induction cs) (simp_all add: reported_def)

subsection \<open>Properties\<close>



text \<open>
  The check for reserved 7-bit addresses looks at the wrong bits: an acknowledged 7-bit frame
  is accepted exactly for the addresses 0x10 to 0x7F. So the usable addresses 0x08 to 0x0F are
  rejected as reserved, and the reserved addresses 0x78 to 0x7F are accepted.
\<close>
theorem address_check_shifted:
  "(snd (verify_address_frame v a False rd True) = Inr () \<longleftrightarrow> 0x10 \<le> unat a \<and> unat a \<le> 0x7F) \<and>
   (\<forall>b. unat b \<in> {0x08..0x0F} \<longrightarrow> snd (verify_address_frame v b False rd True) \<noteq> Inr ()) \<and>
   (\<forall>b. unat b \<in> {0x78..0x7F} \<longrightarrow> snd (verify_address_frame v b False rd True) = Inr ())"
  by (auto simp: verify_address_frame_reports [where spec = FAST_MODE] report_defs fail_with_def
      split: if_splits)

theorem address_check_shifted_witness:
  "snd (verify_address_frame (verifier_new FAST_MODE) 0x08 False False True) \<noteq> Inr () \<and>
   snd (verify_address_frame (verifier_new FAST_MODE) 0x78 False False True) = Inr ()"
  using address_check_shifted [of "verifier_new FAST_MODE" 0 False] by simp

end
