(* ===== verification/Wire_Interface.thy ===== *)
theory Wire_Interface
  imports Byte_Codec
begin

text \<open>
  The contract between a packet format and the code that sends packets over a datagram or byte
  channel. A format promises that decoding inverts encoding in front of any further bytes, and
  that it accepts nothing but encodings. Its clients get: decoding is characterised by the
  encoder, encodings are prefix-free (so they can be told apart without lengths), and whole
  traces of packets survive the channel.
\<close>

locale packet_codec =
  fixes valid :: "'p \<Rightarrow> bool"
    and encode :: "'p \<Rightarrow> bytes"
    and decode :: "bytes \<Rightarrow> 'e + 'p"
  assumes decode_encode: "valid p \<Longrightarrow> decode (encode p @ rest) = Inr p"
    and decode_sound: "decode bs = Inr p \<Longrightarrow> valid p \<and> (\<exists>rest. bs = encode p @ rest)"
begin

lemma decode_iff: "decode bs = Inr p \<longleftrightarrow> valid p \<and> (\<exists>rest. bs = encode p @ rest)"
  using decode_encode decode_sound by blast

lemma decode_exact: "valid p \<Longrightarrow> decode (encode p) = Inr p"
  using decode_encode [of p "[]"] by simp

lemma encode_prefix_free:
  assumes "valid p" "valid q" "encode p @ r = encode q @ s"
  shows "p = q \<and> r = s"
proof -
  have "Inr p = decode (encode q @ s)" using decode_encode [of p r] assms by simp
  also have "\<dots> = Inr q" using decode_encode [of q s] assms by simp
  finally show ?thesis using assms(3) by simp
qed

lemma encode_stream_inj:
  assumes "\<forall>p \<in> set ps \<union> set qs. valid p" and "length ps = length qs"
    and "concat (map encode ps) @ r = concat (map encode qs) @ s"
  shows "ps = qs \<and> r = s"
  using assms(2,1,3)
proof (induction ps qs rule: list_induct2)
  case (Cons p ps q qs)
  have "encode p @ (concat (map encode ps) @ r) = encode q @ (concat (map encode qs) @ s)"
    using Cons.prems by simp
  then have "p = q \<and> concat (map encode ps) @ r = concat (map encode qs) @ s"
    using Cons.prems(1) by (intro encode_prefix_free) simp_all
  then show ?case using Cons.IH Cons.prems(1) by simp
qed simp

end

subsection \<open>Reading a fixed header\<close>

lemma take_nths: "n \<le> length xs \<Longrightarrow> take n xs = map ((!) xs) [0..<n]"
  by (simp add: list_eq_iff_nth_eq)

lemma fixed_header:
  assumes "n \<le> length xs"
  shows "xs = map ((!) xs) [0..<n] @ drop n xs"
  by (metis append_take_drop_id assms take_nths)

lemma upt_0_numeral: "[0..<numeral n] = 0 # [1..<numeral n]"
  by (simp add: upt_conv_Cons)

lemma upt_1_numeral: "1 < (numeral n :: nat) \<Longrightarrow> [Suc 0..<numeral n] = Suc 0 # [2..<numeral n]"
  by (simp add: upt_conv_Cons numeral_2_eq_2)

lemma be_pair [codec]: "be_bytes 2 (be_nat [a, b]) = [a, b]"
  using be_bytes_be_nat [of "[a, b]"] by (simp add: numeral_2_eq_2)

lemma be_pair_bound: "be_nat [a, b] < 65536"
  using be_nat_bound [of "[a, b]"] by simp

lemma unat_of_nat_u16: "n < 65536 \<Longrightarrow> unat (of_nat n :: u16) = n"
  by (rule unat_of_nat_small) simp

lemma u16_bound: "unat (w :: u16) < 65536"
  using unsigned_less [of w, where 'a = nat] by simp

lemma be_bytes_2: "be_bytes 2 v = [of_nat (v div 256), of_nat v]"
  by (simp add: numeral_2_eq_2)

lemma u16_be_pair [codec]: "(of_nat (be_nat [of_nat (unat w div 256), of_nat (unat w)]) :: u16) = w"
  using be_nat_be_bytes_small [of "unat w" 2] u16_bound [of w] by (simp add: be_bytes_2)

lemma u16_be_pair_ucast [codec]:
  "(of_nat (be_nat [of_nat (unat w div 256), ucast w]) :: u16) = w"
  using u16_be_pair [of w] by simp

lemma u16_to_be_from_be [codec]: "be_bytes 2 (unat (of_nat (be_nat [a, b]) :: u16)) = [a, b]"
  by (simp add: unat_of_nat_u16 be_pair_bound be_pair)

end
