(* ===== verification/I2c_Burst.thy ===== *)
theory I2c_Burst
  imports Wire_Interface Bus_Io
begin

unbundle bit_operations_syntax

text \<open>
  \<^verbatim>\<open>I2C/src/46/46.rs\<close>: register access over I2C, one register per transaction and in bursts, and
  typed register blocks with the IMU data block. The \<open>I2c\<close> trait of \<open>embedded_hal\<close> is a
  parameter, a record of its two operations on the state \<open>'w\<close> of the bus; \<open>write_read\<close> also
  returns the caller's buffer. Register arithmetic follows the build profile.
\<close>

subsection \<open>The bus and the errors\<close>

record ('w, 'e) i2c_bus =
  bus_write :: "u8 \<Rightarrow> bytes \<Rightarrow> 'w \<Rightarrow> ('w, 'e, unit) io"
  bus_write_read :: "u8 \<Rightarrow> bytes \<Rightarrow> bytes \<Rightarrow> 'w \<Rightarrow> bytes \<times> ('w, 'e, unit) io"

datatype i2c_opt_error = BusError | BufferTooSmall | Timeout | InvalidParameter

subsection \<open>One register at a time\<close>

definition naive_reg :: "profile \<Rightarrow> u8 \<Rightarrow> nat \<Rightarrow> u8 run" where
  "naive_reg p start_reg i =
     (if p = CheckedBuild \<and> unat start_reg + unat (of_nat i :: u8) \<ge> 256 then None
      else Some (start_reg + of_nat i))"

fun read_naive_loop ::
  "profile \<Rightarrow> ('w, 'e) i2c_bus \<Rightarrow> u8 \<Rightarrow> u8 \<Rightarrow> nat \<Rightarrow> bytes \<Rightarrow> 'w
    \<Rightarrow> (bytes \<times> ('w, i2c_opt_error, unit) io) run" where
  "read_naive_loop p B device_addr start_reg i [] w = Some ([], w, Inr ())"
| "read_naive_loop p B device_addr start_reg i (byte # buffer) w = do {
     reg \<leftarrow> naive_reg p start_reg i;
     (case bus_write_read B device_addr [reg] [byte] w of
        (b, w, Inl _) \<Rightarrow> Some (b @ buffer, w, Inl BusError)
      | (b, w, Inr _) \<Rightarrow> do {
          (buffer, r) \<leftarrow> read_naive_loop p B device_addr start_reg (i + 1) buffer w;
          Some (b @ buffer, r) })
   }"

definition read_registers_naive ::
  "profile \<Rightarrow> ('w, 'e) i2c_bus \<Rightarrow> u8 \<Rightarrow> u8 \<Rightarrow> bytes \<Rightarrow> 'w
    \<Rightarrow> (bytes \<times> ('w, i2c_opt_error, unit) io) run" where
  "read_registers_naive p B device_addr start_reg buffer w =
     read_naive_loop p B device_addr start_reg 0 buffer w"

fun write_naive_loop ::
  "profile \<Rightarrow> ('w, 'e) i2c_bus \<Rightarrow> u8 \<Rightarrow> u8 \<Rightarrow> nat \<Rightarrow> bytes \<Rightarrow> 'w
    \<Rightarrow> ('w, i2c_opt_error, unit) io run" where
  "write_naive_loop p B device_addr start_reg i [] w = Some (w, Inr ())"
| "write_naive_loop p B device_addr start_reg i (v # values) w = do {
     reg \<leftarrow> naive_reg p start_reg i;
     try_run (Some (map_err (\<lambda>_. BusError) (bus_write B device_addr [reg, v] w)))
       (\<lambda>w _. write_naive_loop p B device_addr start_reg (i + 1) values w)
   }"

definition write_registers_naive ::
  "profile \<Rightarrow> ('w, 'e) i2c_bus \<Rightarrow> u8 \<Rightarrow> u8 \<Rightarrow> bytes \<Rightarrow> 'w \<Rightarrow> ('w, i2c_opt_error, unit) io run" where
  "write_registers_naive p B device_addr start_reg values w =
     write_naive_loop p B device_addr start_reg 0 values w"

subsection \<open>Bursts\<close>

definition read_burst ::
  "('w, 'e) i2c_bus \<Rightarrow> u8 \<Rightarrow> u8 \<Rightarrow> bytes \<Rightarrow> 'w \<Rightarrow> bytes \<times> ('w, i2c_opt_error, unit) io" where
  "read_burst B device_addr start_reg buffer w =
     (let (buffer, r) = bus_write_read B device_addr [start_reg] buffer w
      in (buffer, map_err (\<lambda>_. BusError) r))"

definition write_burst ::
  "('w, 'e) i2c_bus \<Rightarrow> u8 \<Rightarrow> u8 \<Rightarrow> bytes \<Rightarrow> 'w \<Rightarrow> ('w, i2c_opt_error, unit) io run" where
  "write_burst B device_addr start_reg values w =
     (let buffer = replicate 256 0 in
      if length values > 255 then Some (w, Inl BufferTooSmall)
      else do {
        buffer \<leftarrow> idx_set buffer 0 start_reg;
        _ \<leftarrow> sub_slice buffer 1 (length values + 1);
        let buffer = take 1 buffer @ values @ drop (length values + 1) buffer;
        out \<leftarrow> sub_slice buffer 0 (length values + 1);
        Some (map_err (\<lambda>_. BusError) (bus_write B device_addr out w))
      })"

definition write_burst_zerocopy ::
  "('w, 'e) i2c_bus \<Rightarrow> u8 \<Rightarrow> bytes \<Rightarrow> 'w \<Rightarrow> ('w, i2c_opt_error, unit) io" where
  "write_burst_zerocopy B device_addr buffer_with_reg w =
     map_err (\<lambda>_. BusError) (bus_write B device_addr buffer_with_reg w)"

fun read_multiple_loop ::
  "('w, 'e) i2c_bus \<Rightarrow> u8 \<Rightarrow> bytes \<Rightarrow> bytes list \<Rightarrow> 'w
    \<Rightarrow> bytes list \<times> ('w, i2c_opt_error, unit) io" where
  "read_multiple_loop B device_addr (reg # registers) (buffer # buffers) w =
     (case bus_write_read B device_addr [reg] buffer w of
        (b, w, Inl _) \<Rightarrow> (b # buffers, w, Inl BusError)
      | (b, w, Inr _) \<Rightarrow>
          (let (buffers, r) = read_multiple_loop B device_addr registers buffers w in (b # buffers, r)))"
| "read_multiple_loop B device_addr _ buffers w = (buffers, w, Inr ())"

definition read_multiple_registers ::
  "('w, 'e) i2c_bus \<Rightarrow> u8 \<Rightarrow> bytes \<Rightarrow> bytes list \<Rightarrow> 'w
    \<Rightarrow> bytes list \<times> ('w, i2c_opt_error, unit) io" where
  "read_multiple_registers B device_addr registers buffers w =
     (if length registers \<noteq> length buffers then (buffers, w, Inl InvalidParameter)
      else read_multiple_loop B device_addr registers buffers w)"

subsection \<open>Register blocks\<close>

record 'r register_block =
  START_ADDR :: u8
  SIZE :: nat
  from_bytes :: "bytes \<Rightarrow> 'r"
  to_bytes :: "'r \<Rightarrow> bytes"

definition read_block ::
  "'r register_block \<Rightarrow> ('w, 'e) i2c_bus \<Rightarrow> u8 \<Rightarrow> 'w \<Rightarrow> ('w, i2c_opt_error, 'r) io" where
  "read_block R B device_addr w =
     (let buffer = replicate 32 0 in
      if SIZE R > length buffer then (w, Inl BufferTooSmall)
      else (let (buffer, r) = bus_write_read B device_addr [START_ADDR R] (take (SIZE R) buffer) w
            in try_io (map_err (\<lambda>_. BusError) r) (\<lambda>w _. (w, Inr (from_bytes R buffer)))))"

definition write_block ::
  "'r register_block \<Rightarrow> ('w, 'e) i2c_bus \<Rightarrow> u8 \<Rightarrow> 'r \<Rightarrow> 'w \<Rightarrow> ('w, i2c_opt_error, unit) io run" where
  "write_block R B device_addr block w = do {
     let data = to_bytes R block;
     let buffer = replicate 33 0;
     buffer \<leftarrow> idx_set buffer 0 (START_ADDR R);
     dest \<leftarrow> sub_slice buffer 1 (SIZE R + 1);
     buffer \<leftarrow> (if length dest = length data
                then Some (take 1 buffer @ data @ drop (SIZE R + 1) buffer) else None);
     out \<leftarrow> sub_slice buffer 0 (SIZE R + 1);
     Some (map_err (\<lambda>_. BusError) (bus_write B device_addr out w))
   }"

record imu_data =
  accel_x :: u16
  accel_y :: u16
  accel_z :: u16
  temp :: u16
  gyro_x :: u16
  gyro_y :: u16
  gyro_z :: u16

definition i16_from_be :: "u8 \<Rightarrow> u8 \<Rightarrow> u16" where
  "i16_from_be a b = of_nat (be_nat [a, b])"

definition imu_from_bytes :: "bytes \<Rightarrow> imu_data" where
  "imu_from_bytes bs = \<lparr>
     accel_x = i16_from_be (bs ! 0) (bs ! 1), accel_y = i16_from_be (bs ! 2) (bs ! 3),
     accel_z = i16_from_be (bs ! 4) (bs ! 5), temp = i16_from_be (bs ! 6) (bs ! 7),
     gyro_x = i16_from_be (bs ! 8) (bs ! 9), gyro_y = i16_from_be (bs ! 10) (bs ! 11),
     gyro_z = i16_from_be (bs ! 12) (bs ! 13)\<rparr>"

definition imu_to_bytes :: "imu_data \<Rightarrow> bytes" where
  "imu_to_bytes d = be_bytes 2 (unat (accel_x d)) @ be_bytes 2 (unat (accel_y d)) @
     be_bytes 2 (unat (accel_z d)) @ be_bytes 2 (unat (temp d)) @ be_bytes 2 (unat (gyro_x d)) @
     be_bytes 2 (unat (gyro_y d)) @ be_bytes 2 (unat (gyro_z d))"

definition imu_block :: "imu_data register_block" where
  "imu_block = \<lparr>START_ADDR = 0x3B, SIZE = 14, from_bytes = imu_from_bytes, to_bytes = imu_to_bytes\<rparr>"

definition DEVICE_ADDR :: u8 where "DEVICE_ADDR = 0x68"

definition imu_read_all :: "('w, 'e) i2c_bus \<Rightarrow> 'w \<Rightarrow> ('w, i2c_opt_error, imu_data) io" where
  "imu_read_all B w = read_block imu_block B DEVICE_ADDR w"

subsection \<open>A register device\<close>

text \<open>
  The reference device: 256 registers at one address with a pointer that the first byte of a
  write sets and every further byte, written or read, advances, wrapping at 256. Every
  transaction is counted; another address is not acknowledged.
\<close>

record device =
  registers :: "u8 \<Rightarrow> u8"
  transactions :: nat

primrec store :: "(u8 \<Rightarrow> u8) \<Rightarrow> u8 \<Rightarrow> bytes \<Rightarrow> u8 \<Rightarrow> u8" where
  "store f r [] = f"
| "store f r (v # vs) = store (f(r := v)) (r + 1) vs"

primrec fetch :: "(u8 \<Rightarrow> u8) \<Rightarrow> u8 \<Rightarrow> nat \<Rightarrow> bytes" where
  "fetch f r 0 = []"
| "fetch f r (Suc n) = f r # fetch f (r + 1) n"

definition device_bus :: "u8 \<Rightarrow> (device, unit) i2c_bus" where
  "device_bus addr = \<lparr>
     bus_write = (\<lambda>a bs d. if a \<noteq> addr then (d, Inl ())
        else (d\<lparr>registers := (case bs of [] \<Rightarrow> registers d | r # vs \<Rightarrow> store (registers d) r vs),
               transactions := transactions d + 1\<rparr>, Inr ())),
     bus_write_read = (\<lambda>a bs buf d. case (a = addr, bs) of
          (True, r # vs) \<Rightarrow>
            (let f = store (registers d) r vs
             in (fetch f (r + of_nat (length vs)) (length buf),
                 d\<lparr>registers := f, transactions := transactions d + 1\<rparr>, Inr ()))
        | _ \<Rightarrow> (buf, d, Inl ()))\<rparr>"

lemma device_ops [simp]:
  "bus_write (device_bus addr) addr (r # vs) d =
     (d\<lparr>registers := store (registers d) r vs, transactions := transactions d + 1\<rparr>, Inr ())"
  "bus_write_read (device_bus addr) addr [r] buf d =
     (fetch (registers d) r (length buf), d\<lparr>transactions := transactions d + 1\<rparr>, Inr ())"
  by (simp_all add: device_bus_def)

lemma of_nat_u8_nonzero: "0 < n \<Longrightarrow> n < 256 \<Longrightarrow> (of_nat n :: u8) \<noteq> 0"
  using unat_of_nat_small [where 'a = 8, of n] by auto

lemma store_other: "(\<And>i. i < length vs \<Longrightarrow> r + of_nat i \<noteq> x) \<Longrightarrow> store f r vs x = f x"
proof (induction vs arbitrary: f r)
  case (Cons v vs)
  have "r \<noteq> x" using Cons.prems [of 0] by simp
  moreover have "r + 1 + of_nat i \<noteq> x" if "i < length vs" for i
    using Cons.prems [of "Suc i"] that by (simp add: add.assoc)
  ultimately show ?case using Cons.IH by simp
qed simp

lemma fetch_store: "length vs \<le> 256 \<Longrightarrow> fetch (store f r vs) r (length vs) = vs"
proof (induction vs arbitrary: f r)
  case (Cons v vs)
  have "r + 1 + of_nat i \<noteq> r" if "i < length vs" for i
    using of_nat_u8_nonzero [of "Suc i"] that Cons.prems
    by (simp add: add.assoc)
  then have "store (f(r := v)) (r + 1) vs r = v" by (subst store_other) simp_all
  then show ?case using Cons by simp
qed simp

subsection \<open>Single transactions and bursts agree\<close>

text \<open>
  The register arithmetic of a run of \<open>n\<close> registers: it never overflows in the release build, and
  in the checked build exactly when the run stays below 256, where a run of more than 256
  registers counts as 256 since its index is cut to a byte.
\<close>

definition in_range :: "profile \<Rightarrow> u8 \<Rightarrow> nat \<Rightarrow> nat \<Rightarrow> bool" where
  "in_range p start i n \<longleftrightarrow> p = ReleaseBuild \<or> (\<forall>j < n. unat start + (i + j) mod 256 < 256)"

lemma naive_reg_eq:
  "naive_reg p start i = (if in_range p start i (Suc 0) then Some (start + of_nat i) else None)"
  by (cases p) (auto simp: naive_reg_def in_range_def unat_of_nat take_bit_eq_mod)

lemma in_range_Suc: "in_range p start i (Suc n) \<longleftrightarrow> in_range p start i (Suc 0) \<and> in_range p start (i + 1) n"
  by (auto simp: in_range_def All_less_Suc2)

lemma in_range_0: "in_range p start 0 n \<longleftrightarrow> p = ReleaseBuild \<or> unat start + min n 256 \<le> 256"
proof -
  have "(\<forall>j < n. unat start + j mod 256 < 256) = (unat start + min n 256 \<le> 256)"
  proof
    assume all: "\<forall>j < n. unat start + j mod 256 < 256"
    show "unat start + min n 256 \<le> 256"
      using all [rule_format, of "min n 256 - 1"] u8_bound [of start] by (cases n) (auto simp: min_def split: if_splits)
  next
    assume "unat start + min n 256 \<le> 256"
    moreover have "j mod 256 < min n 256" if "j < n" for j
      using that le_less_trans [OF mod_less_eq_dividend that] by simp
    ultimately show "\<forall>j < n. unat start + j mod 256 < 256" by fastforce
  qed
  then show ?thesis by (simp add: in_range_def)
qed

lemma read_naive_device:
  "read_naive_loop p (device_bus a) a start i buf d =
    (if in_range p start i (length buf)
     then Some (fetch (registers d) (start + of_nat i) (length buf),
          d\<lparr>transactions := transactions d + length buf\<rparr>, Inr ())
     else None)"
proof (induction buf arbitrary: i d)
  case (Cons b buf)
  then show ?case
    using in_range_Suc [of p start i "length buf"] by (auto simp: naive_reg_eq ac_simps)
qed (simp add: in_range_def)

lemma write_naive_device:
  "in_range p start i (length vs) \<Longrightarrow> write_naive_loop p (device_bus a) a start i vs d =
    Some (d\<lparr>registers := store (registers d) (start + of_nat i) vs,
            transactions := transactions d + length vs\<rparr>, Inr ())"
proof (induction vs arbitrary: i d)
  case (Cons v vs)
  then show ?case
    using in_range_Suc [of p start i "length vs"] by (auto simp: naive_reg_eq ac_simps)
qed simp

lemma take_1_replicate_update: "0 < n \<Longrightarrow> take (Suc 0) ((replicate n x)[0 := y]) = [y]"
  by (cases n) simp_all

lemma write_burst_sends:
  "write_burst B a start vs w =
     (if length vs > 255 then Some (w, Inl BufferTooSmall)
      else Some (map_err (\<lambda>_. BusError) (bus_write B a (start # vs) w)))"
  by (auto simp: write_burst_def idx_set_def sub_slice_def Let_def take_1_replicate_update)


definition example_device :: device where
  "example_device = \<lparr>registers = (\<lambda>r. r * 2), transactions = 0\<rparr>"


subsection \<open>Typed blocks\<close>

text \<open>
  What an implementation of the trait \<open>RegisterBlock\<close> owes: its bytes have the declared size,
  which fits the buffers of the reader, and decoding inverts encoding.
\<close>

locale block_contract =
  fixes R :: "'r register_block"
  assumes size_fits: "SIZE R \<le> 32"
    and length_to_bytes: "length (to_bytes R r) = SIZE R"
    and from_to_bytes: "from_bytes R (to_bytes R r) = r"
begin

lemma write_block_sends:
  "write_block R B a block w =
     Some (map_err (\<lambda>_. BusError) (bus_write B a (START_ADDR R # to_bytes R block) w))"
  using size_fits length_to_bytes [of block]
  by (simp add: write_block_def idx_set_def sub_slice_def Let_def take_1_replicate_update)

lemma read_block_device:
  "read_block R (device_bus a) a d =
     (d\<lparr>transactions := transactions d + 1\<rparr>,
      Inr (from_bytes R (fetch (registers d) (START_ADDR R) (SIZE R))))"
  using size_fits by (simp add: read_block_def min_absorb2)

lemma write_then_read:
  "\<exists>d'. write_block R (device_bus a) a block d = Some (d', Inr ()) \<and>
     read_block R (device_bus a) a d' = (d'\<lparr>transactions := transactions d' + 1\<rparr>, Inr block)"
proof -
  have "fetch (store (registers d) (START_ADDR R) (to_bytes R block)) (START_ADDR R) (SIZE R) = to_bytes R block"
    using fetch_store [of "to_bytes R block"] length_to_bytes [of block] size_fits by simp
  then show ?thesis by (simp add: write_block_sends read_block_device from_to_bytes)
qed

end

lemma imu_from_to_bytes: "imu_from_bytes (imu_to_bytes d) = d"
  by (simp add: imu_from_bytes_def imu_to_bytes_def be_bytes_2 i16_from_be_def codec)

interpretation imu: block_contract imu_block
  by unfold_locales (simp_all add: imu_block_def imu_from_to_bytes, simp add: imu_to_bytes_def)

text \<open>
  IMU blocks round-trip over the bus: writing any block to the sensor's registers succeeds,
  and \<open>read_all\<close> then returns exactly that block, every 16-bit sample with its two bytes in
  network order, in one transaction.
\<close>

theorem imu_write_read_all:
  "\<exists>d'. write_block imu_block (device_bus DEVICE_ADDR) DEVICE_ADDR block d = Some (d', Inr ()) \<and>
     imu_read_all (device_bus DEVICE_ADDR) d' =
       (d'\<lparr>transactions := transactions d' + 1\<rparr>, Inr block)"
  unfolding imu_read_all_def by (rule imu.write_then_read)

end
