(* ===== verification/I2c_Imu_Units.thy ===== *)
theory I2c_Imu_Units
  imports I2c_Burst Float_Rounding
begin

text \<open>
  The rest of \<^verbatim>\<open>I2C/src/46/46.rs\<close>: the conversion of the IMU data to physical units and the benchmark, in binary32
  arithmetic, and the asynchronous bursts, with the result of the awaited operation of the bus.
\<close>

subsection \<open>Physical units\<close>

record physical_imu_data =
  accel_x_g :: f32
  accel_y_g :: f32
  accel_z_g :: f32
  temp_c :: f32
  gyro_x_dps :: f32
  gyro_y_dps :: f32
  gyro_z_dps :: f32

definition ACCEL_SCALE :: f32 where
  "ACCEL_SCALE = f32_div 8 32768"

definition GYRO_SCALE :: f32 where
  "GYRO_SCALE = f32_div 2000 32768"

definition TEMP_SCALE :: f32 where
  "TEMP_SCALE = f32_div 1 340"

definition TEMP_OFFSET :: f32 where
  "TEMP_OFFSET = rnd32 (3653 / 100)"

definition i16_as_f32 :: "u16 \<Rightarrow> f32" where
  "i16_as_f32 x = rnd32 (of_int (sint x))"

definition to_physical_units :: "imu_data \<Rightarrow> physical_imu_data" where
  "to_physical_units raw = \<lparr>
     accel_x_g = f32_mul (i16_as_f32 (accel_x raw)) ACCEL_SCALE,
     accel_y_g = f32_mul (i16_as_f32 (accel_y raw)) ACCEL_SCALE,
     accel_z_g = f32_mul (i16_as_f32 (accel_z raw)) ACCEL_SCALE,
     temp_c = f32_add (f32_mul (i16_as_f32 (temp raw)) TEMP_SCALE) TEMP_OFFSET,
     gyro_x_dps = f32_mul (i16_as_f32 (gyro_x raw)) GYRO_SCALE,
     gyro_y_dps = f32_mul (i16_as_f32 (gyro_y raw)) GYRO_SCALE,
     gyro_z_dps = f32_mul (i16_as_f32 (gyro_z raw)) GYRO_SCALE\<rparr>"

subsection \<open>The benchmark\<close>

record benchmark_result =
  duration :: nat
  bytes_transferred :: nat
  transactions :: nat
  throughput_kbps :: f32

definition get_time :: nat where
  "get_time = 0"

text \<open>\<open>Duration::as_secs_f32\<close> of a duration in nanoseconds.\<close>

definition as_secs_f32 :: "nat \<Rightarrow> f32" where
  "as_secs_f32 n =
     f32_add (rnd32 (of_nat (n div 1000000000))) (f32_div (rnd32 (of_nat (n mod 1000000000))) (rnd32 1000000000))"

definition calculate_throughput :: "nat \<Rightarrow> nat \<Rightarrow> f32 run" where
  "calculate_throughput bytes dur = do {
     n \<leftarrow> umul bytes 8;
     let bits = rnd32 (of_nat n);
     let seconds = as_secs_f32 dur;
     Some (if seconds > 0 then f32_div (f32_div bits seconds) 1000 else 0) }"

definition benchmark_read_methods ::
  "profile \<Rightarrow> ('w, 'e) i2c_bus \<Rightarrow> u8 \<Rightarrow> u8 \<Rightarrow> nat \<Rightarrow> 'w \<Rightarrow> ('w \<times> benchmark_result \<times> benchmark_result) run" where
  "benchmark_read_methods p B device_addr start_reg count w = do {
     data \<leftarrow> sub_slice (replicate 256 0) 0 count;
     let start = get_time;
     (data, w, _) \<leftarrow> read_registers_naive p B device_addr start_reg data w;
     naive_duration \<leftarrow> usub get_time start;
     naive_kbps \<leftarrow> calculate_throughput count naive_duration;
     let naive_result = \<lparr>duration = naive_duration, bytes_transferred = count, transactions = count, throughput_kbps = naive_kbps\<rparr>;
     let start = get_time;
     let (data, w, _) = read_burst B device_addr start_reg data w;
     burst_duration \<leftarrow> usub get_time start;
     burst_kbps \<leftarrow> calculate_throughput count burst_duration;
     let burst_result = \<lparr>duration = burst_duration, bytes_transferred = count, transactions = 1, throughput_kbps = burst_kbps\<rparr>;
     Some (w, naive_result, burst_result) }"

subsection \<open>Asynchronous bursts\<close>

definition read_burst_async ::
  "('w, 'e) i2c_bus \<Rightarrow> u8 \<Rightarrow> u8 \<Rightarrow> bytes \<Rightarrow> 'w \<Rightarrow> bytes \<times> ('w, i2c_opt_error, unit) io" where
  "read_burst_async B device_addr start_reg buffer w =
     (let (buffer, r) = bus_write_read B device_addr [start_reg] buffer w
      in (buffer, map_err (\<lambda>_. BusError) r))"

definition write_burst_async ::
  "('w, 'e) i2c_bus \<Rightarrow> u8 \<Rightarrow> bytes \<Rightarrow> 'w \<Rightarrow> ('w, i2c_opt_error, unit) io" where
  "write_burst_async B device_addr buffer_with_reg w =
     map_err (\<lambda>_. BusError) (bus_write B device_addr buffer_with_reg w)"

subsection \<open>Exact conversions\<close>

declare of_int_sint [simp del]

lemma sint_16_bounds: "- 32768 \<le> sint (x :: u16)" "sint (x :: u16) \<le> 32767"
  using sint_ge [of x] sint_lt [of x] by simp_all

lemma i16_as_f32_exact: "i16_as_f32 x = of_int (sint x)"
  using sint_16_bounds [of x] by (auto simp: i16_as_f32_def intro!: f32.fixed_int)

lemma f32_dyadic: "\<bar>m\<bar> \<le> 2 ^ 24 \<Longrightarrow> k \<le> 149 \<Longrightarrow> rnd32 (of_int m / 2 ^ k) = of_int m / 2 ^ k"
  using f32.fixed_scaled [of m "- int k"] by (simp add: power_int_minus divide_inverse)

lemma ACCEL_SCALE_exact: "ACCEL_SCALE = 1 / 4096"
  using f32_dyadic [of 1 12] by (simp add: ACCEL_SCALE_def f32_div_def)

lemma GYRO_SCALE_exact: "GYRO_SCALE = 125 / 2048"
  using f32_dyadic [of 125 11] by (simp add: GYRO_SCALE_def f32_div_def)

lemma accel_exact: "f32_mul (i16_as_f32 x) ACCEL_SCALE = of_int (sint x) / 4096"
  using sint_16_bounds [of x] f32_dyadic [of "sint x" 12]
  by (auto simp: f32_mul_def i16_as_f32_exact ACCEL_SCALE_exact)

lemma gyro_exact: "f32_mul (i16_as_f32 x) GYRO_SCALE = of_int (sint x) * 125 / 2048"
  using sint_16_bounds [of x] f32_dyadic [of "sint x * 125" 11]
  by (auto simp: f32_mul_def i16_as_f32_exact GYRO_SCALE_exact abs_le_iff)

subsection \<open>The temperature\<close>

lemma f32_error: "\<bar>x\<bar> < 2 powi k \<Longrightarrow> - 125 \<le> k \<Longrightarrow> \<bar>rnd32 x - x\<bar> \<le> 2 powi (k - 25)"
  using f32.absolute_error [of x k] by simp

lemma temp_error:
  "\<bar>f32_add (f32_mul (i16_as_f32 x) TEMP_SCALE) TEMP_OFFSET - (of_int (sint x) / 340 + 3653 / 100)\<bar> \<le> 1 / 30000"
proof -
  define t :: rat where "t = of_int (sint x)"
  have "- of_int 32768 \<le> t" "t \<le> of_int 32767"
    unfolding t_def of_int_minus [symmetric] of_int_le_iff by (rule sint_16_bounds)+
  then have t: "\<bar>t\<bar> \<le> 32768" by simp
  have scale: "\<bar>TEMP_SCALE - 1 / 340\<bar> \<le> 1 / 2 ^ 33" using f32_error [of "1 / 340" "- 8"]
    by (simp add: TEMP_SCALE_def f32_div_def power_int_minus)
  have offset: "\<bar>TEMP_OFFSET - 3653 / 100\<bar> \<le> 1 / 524288" using f32_error [of "3653 / 100" 6]
    by (simp add: TEMP_OFFSET_def power_int_minus)
  have "\<bar>t * (TEMP_SCALE - 1 / 340)\<bar> \<le> 32768 * (1 / 2 ^ 33)"
    unfolding abs_mult using t scale by (intro mult_mono) simp_all
  then have product: "\<bar>t * TEMP_SCALE - t / 340\<bar> \<le> 1 / 262144" by (simp add: right_diff_distrib)
  then have "\<bar>t * TEMP_SCALE\<bar> < 128"
    using t unfolding abs_le_iff abs_less_iff by linarith
  then have mul: "\<bar>f32_mul t TEMP_SCALE - t * TEMP_SCALE\<bar> \<le> 1 / 262144"
    using f32_error [of "t * TEMP_SCALE" 7] by (simp add: f32_mul_def power_int_minus)
  have "\<bar>f32_mul t TEMP_SCALE + TEMP_OFFSET\<bar> < 256" using mul product offset t by linarith
  then have "\<bar>f32_add (f32_mul t TEMP_SCALE) TEMP_OFFSET - (f32_mul t TEMP_SCALE + TEMP_OFFSET)\<bar> \<le> 1 / 131072"
    using f32_error [of "f32_mul t TEMP_SCALE + TEMP_OFFSET" 8] by (simp add: f32_add_def power_int_minus)
  then show ?thesis using mul product offset unfolding i16_as_f32_exact t_def [symmetric] by linarith
qed

lemma temp_strict:
  assumes "sint x < sint y"
  shows "f32_add (f32_mul (i16_as_f32 x) TEMP_SCALE) TEMP_OFFSET < f32_add (f32_mul (i16_as_f32 y) TEMP_SCALE) TEMP_OFFSET"
proof -
  have "(of_int (sint x + 1) :: rat) \<le> of_int (sint y)" using assms by (simp only: of_int_le_iff)
  then show ?thesis using temp_error [of x] temp_error [of y] by linarith
qed

text \<open>
  The physical units. Acceleration and angular rate are exact: no bit of a reading is lost in binary32, and every value
  is within the full scale. The temperature is within a thirty-thousandth of a degree of the formula, so that
  different readings give different temperatures in the same order.
\<close>

theorem physical_units_exact:
  shows "accel_x_g (to_physical_units raw) = of_int (sint (accel_x raw)) * 8 / 32768"
    and "accel_y_g (to_physical_units raw) = of_int (sint (accel_y raw)) * 8 / 32768"
    and "accel_z_g (to_physical_units raw) = of_int (sint (accel_z raw)) * 8 / 32768"
    and "gyro_x_dps (to_physical_units raw) = of_int (sint (gyro_x raw)) * 2000 / 32768"
    and "gyro_y_dps (to_physical_units raw) = of_int (sint (gyro_y raw)) * 2000 / 32768"
    and "gyro_z_dps (to_physical_units raw) = of_int (sint (gyro_z raw)) * 2000 / 32768"
    and "\<bar>temp_c (to_physical_units raw) - (of_int (sint (temp raw)) / 340 + 3653 / 100)\<bar> \<le> 1 / 30000"
    and "temp_c (to_physical_units raw) < temp_c (to_physical_units raw') \<longleftrightarrow> sint (temp raw) < sint (temp raw')"
proof -
  have "temp_c (to_physical_units raw) < temp_c (to_physical_units raw') \<longleftrightarrow> sint (temp raw) < sint (temp raw')"
    using temp_strict [of "temp raw" "temp raw'"] temp_strict [of "temp raw'" "temp raw"]
    by (cases "sint (temp raw)" "sint (temp raw')" rule: linorder_cases)
      (auto simp: to_physical_units_def i16_as_f32_exact)
  then show "temp_c (to_physical_units raw) < temp_c (to_physical_units raw') \<longleftrightarrow> sint (temp raw) < sint (temp raw')" .
qed (use temp_error in \<open>simp_all add: to_physical_units_def accel_exact gyro_exact\<close>)

subsection \<open>What the benchmark reports\<close>

lemma throughput_0: "calculate_throughput count 0 = (if count * 8 < 2 ^ 64 then Some 0 else None)"
  by (simp add: calculate_throughput_def as_secs_f32_def f32_add_def f32_div_def umul_def)

text \<open>
  The clock of the benchmark is a placeholder: on every bus, whether the transfers succeed or not, the benchmark reports
  zero duration, zero throughput and all bytes transferred. It panics for more than 256 registers, and where the
  register numbers of the naive method overflow in a checked build.
\<close>

theorem benchmark_is_blind:
  "benchmark_read_methods p B device_addr start_reg count w =
     (if 256 < count then None
      else do { (data, w, _) \<leftarrow> read_registers_naive p B device_addr start_reg (replicate count 0) w;
        Some (fst (snd (read_burst B device_addr start_reg data w)),
          \<lparr>duration = 0, bytes_transferred = count, transactions = count, throughput_kbps = 0\<rparr>,
          \<lparr>duration = 0, bytes_transferred = count, transactions = 1, throughput_kbps = 0\<rparr>) })"
proof (cases "256 < count")
  case False
  then show ?thesis
    by (simp add: benchmark_read_methods_def sub_slice_def get_time_def usub_def throughput_0 case_prod_beta
      del: One_nat_def cong: option.case_cong)
qed (simp add: benchmark_read_methods_def sub_slice_def)

text \<open>Awaited, the asynchronous bursts are the blocking ones.\<close>

lemma async_bursts: "read_burst_async = read_burst" "write_burst_async = write_burst_zerocopy"
  by (simp_all add: fun_eq_iff read_burst_async_def read_burst_def write_burst_async_def write_burst_zerocopy_def)

end
