(* ===== verification/Spi_Master.thy ===== *)
theory Spi_Master
  imports Byte_Codec
begin

unbundle bit_operations_syntax

text \<open>
  \<^verbatim>\<open>SPI/src/2/2.rs\<close>: the register-level SPI master and the flash driver on top of it. The
  memory-mapped registers are a parameter: a record of volatile accesses on the state \<open>'w\<close> of
  the hardware, where reading the status register may change that state. The busy-waiting loops
  are partial: \<open>None\<close> stands for a loop that never ends, and for a panic (a shift by more than
  31 in \<open>CSPin\<close>).
\<close>

subsection \<open>Configuration\<close>

datatype spi_mode = Mode0 | Mode1 | Mode2 | Mode3

definition mode_u8 :: "spi_mode \<Rightarrow> u8" where
  "mode_u8 m = (case m of Mode0 \<Rightarrow> 0 | Mode1 \<Rightarrow> 1 | Mode2 \<Rightarrow> 2 | Mode3 \<Rightarrow> 3)"

definition clock_polarity :: "spi_mode \<Rightarrow> bool" where
  "clock_polarity m \<longleftrightarrow> mode_u8 m AND 2 \<noteq> 0"

definition clock_phase :: "spi_mode \<Rightarrow> bool" where
  "clock_phase m \<longleftrightarrow> mode_u8 m AND 1 \<noteq> 0"

datatype bit_order = MsbFirst | LsbFirst

datatype clock_speed = Khz125 | Khz250 | Khz500 | Mhz1 | Mhz2 | Mhz4 | Mhz8 | Mhz10

definition clock_speed_u32 :: "clock_speed \<Rightarrow> u32" where
  "clock_speed_u32 s = (case s of
     Khz125 \<Rightarrow> 125000 | Khz250 \<Rightarrow> 250000 | Khz500 \<Rightarrow> 500000 | Mhz1 \<Rightarrow> 1000000
   | Mhz2 \<Rightarrow> 2000000 | Mhz4 \<Rightarrow> 4000000 | Mhz8 \<Rightarrow> 8000000 | Mhz10 \<Rightarrow> 10000000)"

record spi_config =
  mode :: spi_mode
  clock_speed :: clock_speed
  bit_order :: bit_order
  cs_setup_time_ns :: nat
  cs_hold_time_ns :: nat
  inter_byte_delay_ns :: nat

definition spi_config_default :: spi_config where
  "spi_config_default = \<lparr>mode = Mode0, clock_speed = Mhz1, bit_order = MsbFirst,
     cs_setup_time_ns = 100, cs_hold_time_ns = 100, inter_byte_delay_ns = 0\<rparr>"

subsection \<open>Registers\<close>

definition RXNE :: u32 where [simp]: "RXNE = push_bit 0 1"
definition TXE :: u32 where [simp]: "TXE = push_bit 1 1"
definition BSY :: u32 where [simp]: "BSY = push_bit 7 1"
definition CPHA :: u32 where [simp]: "CPHA = push_bit 0 1"
definition CPOL :: u32 where [simp]: "CPOL = push_bit 1 1"
definition MSTR :: u32 where [simp]: "MSTR = push_bit 2 1"
definition BR_SHIFT :: nat where [simp]: "BR_SHIFT = 3"
definition SPE :: u32 where [simp]: "SPE = push_bit 6 1"
definition LSBFIRST :: u32 where [simp]: "LSBFIRST = push_bit 7 1"
definition SSI :: u32 where [simp]: "SSI = push_bit 8 1"
definition SSM :: u32 where [simp]: "SSM = push_bit 9 1"

record 'w spi_hw =
  read_sr :: "'w \<Rightarrow> u32 \<times> 'w"
  read_dr :: "'w \<Rightarrow> u32 \<times> 'w"
  write_dr :: "u32 \<Rightarrow> 'w \<Rightarrow> 'w"
  read_cr1 :: "'w \<Rightarrow> u32 \<times> 'w"
  write_cr1 :: "u32 \<Rightarrow> 'w \<Rightarrow> 'w"
  write_bsrr :: "u32 \<Rightarrow> 'w \<Rightarrow> 'w"
  spin_loop :: "nat \<Rightarrow> 'w \<Rightarrow> 'w"

record 'w spi_master =
  regs :: "'w spi_hw"
  cs_pin :: nat
  config :: spi_config

definition cs_select :: "'w spi_master \<Rightarrow> 'w \<Rightarrow> 'w run" where
  "cs_select s w =
     (if cs_pin s + 16 < 32 then Some (write_bsrr (regs s) (push_bit (cs_pin s + 16) 1) w) else None)"

definition cs_deselect :: "'w spi_master \<Rightarrow> 'w \<Rightarrow> 'w run" where
  "cs_deselect s w =
     (if cs_pin s < 32 then Some (write_bsrr (regs s) (push_bit (cs_pin s) 1) w) else None)"

subsection \<open>Initialisation\<close>

text \<open>The loop that halves the clock until it is no faster than the target.\<close>

function divider_loop :: "u32 \<Rightarrow> u32 \<Rightarrow> nat \<Rightarrow> u32 \<times> nat" where
  "divider_loop target_freq test_freq divider =
     (if test_freq > target_freq \<and> divider < 7
      then divider_loop target_freq (drop_bit 1 test_freq) (divider + 1)
      else (test_freq, divider))"
  by auto
termination
  by (relation "measure (\<lambda>(_, _, d). 7 - d)") auto

definition cr1_config :: "spi_config \<Rightarrow> u32" where
  "cr1_config c =
     (let cr1_val = 0 OR MSTR;
          cr1_val = (if clock_phase (mode c) then cr1_val OR CPHA else cr1_val);
          cr1_val = (if clock_polarity (mode c) then cr1_val OR CPOL else cr1_val);
          cr1_val = (if bit_order c = LsbFirst then cr1_val OR LSBFIRST else cr1_val);
          divider = snd (divider_loop (clock_speed_u32 (clock_speed c)) 16000000 0);
          cr1_val = cr1_val OR push_bit BR_SHIFT (of_nat divider AND 0x7)
      in cr1_val OR (SSM OR SSI))"

definition spi_init :: "'w spi_master \<Rightarrow> 'w \<Rightarrow> 'w run" where
  "spi_init s w =
     (let w = write_cr1 (regs s) (cr1_config (config s)) w;
          (cr1, w) = read_cr1 (regs s) w;
          w = write_cr1 (regs s) (cr1 OR SPE) w
      in cs_deselect s w)"

definition spi_master_new :: "'w spi_hw \<Rightarrow> nat \<Rightarrow> spi_config \<Rightarrow> 'w \<Rightarrow> ('w spi_master \<times> 'w) run" where
  "spi_master_new h pin c w = do {
     let s = \<lparr>regs = h, cs_pin = pin, config = c\<rparr>;
     w \<leftarrow> spi_init s w;
     Some (s, w)
   }"

subsection \<open>Transfers\<close>

partial_function (option) wait_tx_empty :: "'w spi_hw \<Rightarrow> 'w \<Rightarrow> 'w option" where
  "wait_tx_empty h w =
     (let (sr, w) = read_sr h w in if sr AND TXE = 0 then wait_tx_empty h w else Some w)"

partial_function (option) wait_rx_ready :: "'w spi_hw \<Rightarrow> 'w \<Rightarrow> 'w option" where
  "wait_rx_ready h w =
     (let (sr, w) = read_sr h w in if sr AND RXNE = 0 then wait_rx_ready h w else Some w)"

partial_function (option) wait_not_busy :: "'w spi_hw \<Rightarrow> 'w \<Rightarrow> 'w option" where
  "wait_not_busy h w =
     (let (sr, w) = read_sr h w in if sr AND BSY \<noteq> 0 then wait_not_busy h w else Some w)"

definition transfer_byte :: "'w spi_master \<Rightarrow> u8 \<Rightarrow> 'w \<Rightarrow> (u8 \<times> 'w) run" where
  "transfer_byte s tx_byte w = do {
     w \<leftarrow> wait_tx_empty (regs s) w;
     let w = write_dr (regs s) (ucast tx_byte) w;
     w \<leftarrow> wait_rx_ready (regs s) w;
     let (dr, w) = read_dr (regs s) w;
     Some (ucast dr, w)
   }"

definition delay_ns :: "'w spi_master \<Rightarrow> nat \<Rightarrow> 'w \<Rightarrow> 'w" where
  "delay_ns s ns w = spin_loop (regs s) (ns * 16 div 1000) w"

primrec transfer_loop :: "'w spi_master \<Rightarrow> bytes \<Rightarrow> 'w \<Rightarrow> (bytes \<times> 'w) run" where
  "transfer_loop s [] w = Some ([], w)"
| "transfer_loop s (tx_byte # tx_data) w = do {
     (b, w) \<leftarrow> transfer_byte s tx_byte w;
     let w = (if inter_byte_delay_ns (config s) > 0 then delay_ns s (inter_byte_delay_ns (config s)) w else w);
     (rx_data, w) \<leftarrow> transfer_loop s tx_data w;
     Some (b # rx_data, w)
   }"

definition release_cs :: "'w spi_master \<Rightarrow> 'w \<Rightarrow> 'w run" where
  "release_cs s w = do {
     w \<leftarrow> wait_not_busy (regs s) w;
     cs_deselect s (delay_ns s (cs_hold_time_ns (config s)) w)
   }"

text \<open>A transfer returns the receive buffer with its result: it is the caller's.\<close>

definition transfer :: "'w spi_master \<Rightarrow> bytes \<Rightarrow> bytes \<Rightarrow> 'w \<Rightarrow> ((string + unit) \<times> bytes \<times> 'w) run" where
  "transfer s tx_data rx_data w =
     (if length tx_data \<noteq> length rx_data then Some (Inl ''Buffer length mismatch'', rx_data, w)
      else do {
        w \<leftarrow> cs_select s w;
        (rx_data, w) \<leftarrow> transfer_loop s tx_data (delay_ns s (cs_setup_time_ns (config s)) w);
        w \<leftarrow> release_cs s w;
        Some (Inr (), rx_data, w)
      })"

definition spi_write :: "'w spi_master \<Rightarrow> bytes \<Rightarrow> 'w \<Rightarrow> ((string + unit) \<times> 'w) run" where
  "spi_write s data w = do {
     let len = min (length data) 256;
     (r, _, w) \<leftarrow> transfer s (take len data) (take len (replicate 256 0)) w;
     Some (r, w)
   }"

definition spi_read :: "'w spi_master \<Rightarrow> bytes \<Rightarrow> 'w \<Rightarrow> ((string + unit) \<times> bytes \<times> 'w) run" where
  "spi_read s buffer w =
     (let len = min (length buffer) 256 in transfer s (take len (replicate 256 0xFF)) buffer w)"

definition transaction :: "'w spi_master \<Rightarrow> ('w \<Rightarrow> ('r \<times> 'w) run) \<Rightarrow> 'w \<Rightarrow> ('r \<times> 'w) run" where
  "transaction s f w = do {
     w \<leftarrow> cs_select s w;
     (r, w) \<leftarrow> f (delay_ns s (cs_setup_time_ns (config s)) w);
     w \<leftarrow> release_cs s w;
     Some (r, w)
   }"

subsection \<open>Flash memory\<close>

definition CMD_WRITE_ENABLE :: u8 where [simp]: "CMD_WRITE_ENABLE = 0x06"
definition CMD_READ_DATA :: u8 where [simp]: "CMD_READ_DATA = 0x03"
definition CMD_PAGE_PROGRAM :: u8 where [simp]: "CMD_PAGE_PROGRAM = 0x02"
definition CMD_READ_STATUS :: u8 where [simp]: "CMD_READ_STATUS = 0x05"
definition CMD_READ_ID :: u8 where [simp]: "CMD_READ_ID = 0x9F"

text \<open>A sequence of \<open>transfer_byte\<close> calls, with the bytes they return.\<close>

primrec transfer_bytes :: "'w spi_master \<Rightarrow> bytes \<Rightarrow> 'w \<Rightarrow> (bytes \<times> 'w) run" where
  "transfer_bytes s [] w = Some ([], w)"
| "transfer_bytes s (b # bs) w = do {
     (r, w) \<leftarrow> transfer_byte s b w;
     (rs, w) \<leftarrow> transfer_bytes s bs w;
     Some (r # rs, w)
   }"

definition address_bytes :: "u32 \<Rightarrow> bytes" where
  "address_bytes address = [ucast (drop_bit 16 address), ucast (drop_bit 8 address), ucast address]"

definition read_id :: "'w spi_master \<Rightarrow> 'w \<Rightarrow> ((string + bytes) \<times> 'w) run" where
  "read_id s w = transaction s (\<lambda>w. do {
     (_, w) \<leftarrow> transfer_byte s CMD_READ_ID w;
     (rs, w) \<leftarrow> transfer_bytes s [0xFF, 0xFF, 0xFF] w;
     Some (Inr rs, w) }) w"

definition flash_read :: "'w spi_master \<Rightarrow> u32 \<Rightarrow> bytes \<Rightarrow> 'w \<Rightarrow> ((string + unit) \<times> bytes \<times> 'w) run" where
  "flash_read s address buffer w =
     (if buffer = [] then Some (Inr (), buffer, w)
      else do {
        ((r, buffer), w) \<leftarrow> transaction s (\<lambda>w. do {
          (_, w) \<leftarrow> transfer_byte s CMD_READ_DATA w;
          (_, w) \<leftarrow> transfer_bytes s (address_bytes address) w;
          (bs, w) \<leftarrow> transfer_bytes s (replicate (length buffer) 0xFF) w;
          Some ((Inr (), bs), w) }) w;
        Some (r, buffer, w)
      })"

definition flash_write :: "'w spi_master \<Rightarrow> u32 \<Rightarrow> bytes \<Rightarrow> 'w \<Rightarrow> ((string + unit) \<times> 'w) run" where
  "flash_write s address data w =
     (if data = [] \<or> length data > 256 then Some (Inl ''Invalid data length'', w)
      else do {
        (_, w) \<leftarrow> transaction s (transfer_byte s CMD_WRITE_ENABLE) w;
        transaction s (\<lambda>w. do {
          (_, w) \<leftarrow> transfer_byte s CMD_PAGE_PROGRAM w;
          (_, w) \<leftarrow> transfer_bytes s (address_bytes address) w;
          (_, w) \<leftarrow> transfer_bytes s data w;
          Some (Inr (), w) }) w
      })"

definition read_status :: "'w spi_master \<Rightarrow> 'w \<Rightarrow> ((string + u8) \<times> 'w) run" where
  "read_status s w = transaction s (\<lambda>w. do {
     (_, w) \<leftarrow> transfer_byte s CMD_READ_STATUS w;
     (b, w) \<leftarrow> transfer_byte s 0xFF w;
     Some (Inr b, w) }) w"

partial_function (option) wait_ready :: "'w spi_master \<Rightarrow> 'w \<Rightarrow> ((string + unit) \<times> 'w) option" where
  "wait_ready s w = do {
     (r, w) \<leftarrow> read_status s w;
     (case r of
        Inl e \<Rightarrow> Some (Inl e, w)
      | Inr status \<Rightarrow> if status AND 0x01 = 0 then Some (Inr (), w)
                      else wait_ready s (spin_loop (regs s) 1000 w))
   }"

subsection \<open>The clock divider and the control register\<close>

declare divider_loop.simps [simp del]

lemma divider_by_speed:
  "divider_loop (clock_speed_u32 v) 16000000 0 = (case v of
     Khz125 \<Rightarrow> (125000, 7) | Khz250 \<Rightarrow> (250000, 6) | Khz500 \<Rightarrow> (500000, 5) | Mhz1 \<Rightarrow> (1000000, 4)
   | Mhz2 \<Rightarrow> (2000000, 3) | Mhz4 \<Rightarrow> (4000000, 2) | Mhz8 \<Rightarrow> (8000000, 1) | Mhz10 \<Rightarrow> (8000000, 1))"
  by (cases v) (simp_all add: clock_speed_u32_def divider_loop.simps)

lemma cr1_fields:
  fixes c :: spi_config
  defines "d \<equiv> snd (divider_loop (clock_speed_u32 (clock_speed c)) 16000000 0)"
  shows "unat (drop_bit 3 (cr1_config c) AND 7) = d"
    "bit (cr1_config c) 0 = clock_phase (mode c)"
    "bit (cr1_config c) 1 = clock_polarity (mode c)"
    "bit (cr1_config c) 2" "\<not> bit (cr1_config c) 6"
    "bit (cr1_config c) 7 = (bit_order c = LsbFirst)"
    "bit (cr1_config c) 8" "bit (cr1_config c) 9"
  unfolding d_def cr1_config_def divider_by_speed
  by (cases "clock_speed c"; cases "clock_phase (mode c)"; cases "clock_polarity (mode c)";
      cases "bit_order c = LsbFirst"; simp)+

text \<open>
  For every clock speed the divider fits the three bits of the control register and picks
  the fastest clock the power-of-two prescaler has that is not above the requested one; the
  control word read back field by field is the configuration: master mode, software slave
  select, polarity, phase, bit order and that divider, with the peripheral still disabled.
\<close>

theorem clock_and_control_word:
  "let d = snd (divider_loop (clock_speed_u32 (clock_speed c)) 16000000 0);
       target = unat (clock_speed_u32 (clock_speed c)); cr1 = cr1_config c
   in d \<le> 7 \<and> 16000000 div 2 ^ d \<le> target \<and> target < 2 * (16000000 div 2 ^ d) \<and>
      unat (drop_bit BR_SHIFT cr1 AND 7) = d \<and>
      bit cr1 0 = clock_phase (mode c) \<and> bit cr1 1 = clock_polarity (mode c) \<and>
      bit cr1 2 \<and> \<not> bit cr1 6 \<and> bit cr1 7 = (bit_order c = LsbFirst) \<and> bit cr1 8 \<and> bit cr1 9"
proof -
  have d: "snd (divider_loop (clock_speed_u32 (clock_speed c)) 16000000 0) \<le> 7" and
    f: "16000000 div 2 ^ snd (divider_loop (clock_speed_u32 (clock_speed c)) 16000000 0)
          \<le> unat (clock_speed_u32 (clock_speed c))"
       "unat (clock_speed_u32 (clock_speed c))
          < 2 * (16000000 div 2 ^ snd (divider_loop (clock_speed_u32 (clock_speed c)) 16000000 0))"
    unfolding divider_by_speed by (cases "clock_speed c"; simp add: clock_speed_u32_def)+
  show ?thesis unfolding Let_def BR_SHIFT_def
    using d f cr1_fields [of c] by blast
qed

subsection \<open>A peripheral with a slave behind it\<close>

text \<open>
  The reference hardware. It works only as an enabled master (\<open>MSTR\<close> and \<open>SPE\<close> set). A byte
  written to the data register while the transmit buffer is empty goes out on MOSI; if the slave
  is selected it is the next byte of the current frame, and the answer of the slave, any
  function of the frames completed before and of the current one, comes back. A byte written
  while the transmit buffer is full is lost. The three flags follow after arbitrary numbers of
  status polls, independent of each other and given by \<open>latency\<close> for each byte: \<open>TXE\<close> when the
  transmit buffer is empty again, \<open>RXNE\<close> when the answer is there, \<open>BSY\<close> until the byte is
  completely through. Reading the data register before gives what was read last; an answer
  that finds the one before unread is lost; raising chip select while a byte is still going
  through makes the slave drop it. Raising chip select completes the frame.
\<close>

record peripheral =
  frames :: "bytes list"
  frame :: bytes
  dr :: u8
  answer :: "u8 option"
  tx_left :: nat
  rx_left :: nat
  busy_left :: nat
  selected :: bool
  cr1 :: u32

type_synonym latency = "bytes list \<Rightarrow> bytes \<Rightarrow> nat \<times> nat \<times> nat"

definition hw_enabled :: "peripheral \<Rightarrow> bool" where
  "hw_enabled p \<longleftrightarrow> bit (cr1 p) 2 \<and> bit (cr1 p) 6"

definition hw_bsrr :: "nat \<Rightarrow> u32 \<Rightarrow> peripheral \<Rightarrow> peripheral" where
  "hw_bsrr pin v p =
     (if bit v pin then
        (if selected p
         then p\<lparr>selected := False, frames := frames p @ [if busy_left p = 0 then frame p else butlast (frame p)]\<rparr>
         else p)
      else if bit v (pin + 16) then (if selected p then p else p\<lparr>selected := True, frame := []\<rparr>)
      else p)"

definition hw_flags :: "peripheral \<Rightarrow> u32" where
  "hw_flags p = (if tx_left p = 0 then TXE else 0) OR
     (if answer p \<noteq> None \<and> rx_left p = 0 then RXNE else 0) OR (if busy_left p = 0 then 0 else BSY)"

definition hw_tick :: "peripheral \<Rightarrow> peripheral" where
  "hw_tick p = p\<lparr>tx_left := tx_left p - 1, rx_left := rx_left p - 1, busy_left := busy_left p - 1\<rparr>"

definition hw_read_dr :: "peripheral \<Rightarrow> u32 \<times> peripheral" where
  "hw_read_dr p =
     (case answer p of
        Some b \<Rightarrow> if rx_left p = 0 then (ucast b, p\<lparr>dr := b, answer := None\<rparr>) else (ucast (dr p), p)
      | None \<Rightarrow> (ucast (dr p), p))"

definition hw_write_dr :: "latency \<Rightarrow> (bytes list \<Rightarrow> bytes \<Rightarrow> u8) \<Rightarrow> u32 \<Rightarrow> peripheral \<Rightarrow> peripheral" where
  "hw_write_dr latency slave v p =
     (if \<not> hw_enabled p \<or> tx_left p \<noteq> 0 then p
      else let sent = (if selected p then frame p @ [ucast v] else []);
               back = (if selected p then slave (frames p) sent else 0xFF);
               (t, r, b) = latency (frames p) sent
           in p\<lparr>frame := (if selected p then sent else frame p),
                answer := (if answer p = None then Some back else answer p),
                tx_left := t, rx_left := r, busy_left := b\<rparr>)"

definition reference_hw :: "latency \<Rightarrow> nat \<Rightarrow> (bytes list \<Rightarrow> bytes \<Rightarrow> u8) \<Rightarrow> peripheral spi_hw" where
  "reference_hw latency pin slave = \<lparr>
     read_sr = (\<lambda>p. (hw_flags p, hw_tick p)),
     read_dr = hw_read_dr,
     write_dr = hw_write_dr latency slave,
     read_cr1 = (\<lambda>p. (cr1 p, p)),
     write_cr1 = (\<lambda>v p. p\<lparr>cr1 := v\<rparr>),
     write_bsrr = hw_bsrr pin,
     spin_loop = (\<lambda>_ p. p)\<rparr>"

definition reference_master ::
  "latency \<Rightarrow> nat \<Rightarrow> (bytes list \<Rightarrow> bytes \<Rightarrow> u8) \<Rightarrow> spi_config \<Rightarrow> peripheral spi_master" where
  "reference_master latency pin slave c = \<lparr>regs = reference_hw latency pin slave, cs_pin = pin, config = c\<rparr>"

lemma sr_flags:
  "(hw_flags p AND TXE = 0) = (tx_left p \<noteq> 0)"
  "(hw_flags p AND RXNE = 0) = (answer p = None \<or> rx_left p \<noteq> 0)"
  "(hw_flags p AND BSY = 0) = (busy_left p = 0)"
  by (simp_all add: hw_flags_def)

text \<open>Polling the status register lets time pass and changes nothing else.\<close>

definition later :: "peripheral \<Rightarrow> peripheral \<Rightarrow> bool" where
  "later p q \<longleftrightarrow> (\<exists>t r b. q = p\<lparr>tx_left := t, rx_left := r, busy_left := b\<rparr> \<and>
     t \<le> tx_left p \<and> r \<le> rx_left p \<and> b \<le> busy_left p)"

lemma later_tick: "later p (hw_tick p)"
  unfolding later_def hw_tick_def by (intro exI conjI) (rule refl, simp_all)

lemma later_tick_trans: "later (hw_tick p) q \<Longrightarrow> later p q"
  unfolding later_def hw_tick_def by (elim exE conjE) (intro exI conjI, auto)

lemma laterD:
  "later p q \<Longrightarrow> frames q = frames p \<and> frame q = frame p \<and> dr q = dr p \<and> answer q = answer p \<and>
     selected q = selected p \<and> cr1 q = cr1 p \<and>
     tx_left q \<le> tx_left p \<and> rx_left q \<le> rx_left p \<and> busy_left q \<le> busy_left p"
  by (auto simp: later_def)

lemma read_sr_reference: "read_sr (reference_hw l pin slave) p = (hw_flags p, hw_tick p)"
  by (simp add: reference_hw_def)

lemma wait_steps:
  "wait_tx_empty (reference_hw l pin slave) p =
     (if tx_left p = 0 then Some (hw_tick p) else wait_tx_empty (reference_hw l pin slave) (hw_tick p))"
  "wait_rx_ready (reference_hw l pin slave) p =
     (if answer p \<noteq> None \<and> rx_left p = 0 then Some (hw_tick p)
      else wait_rx_ready (reference_hw l pin slave) (hw_tick p))"
  "wait_not_busy (reference_hw l pin slave) p =
     (if busy_left p = 0 then Some (hw_tick p) else wait_not_busy (reference_hw l pin slave) (hw_tick p))"
  unfolding wait_tx_empty.simps [of _ p] wait_rx_ready.simps [of _ p] wait_not_busy.simps [of _ p]
    read_sr_reference Let_def prod.case sr_flags
  by auto

lemma tick_left [simp]:
  "tx_left (hw_tick p) = tx_left p - 1" "rx_left (hw_tick p) = rx_left p - 1"
  "busy_left (hw_tick p) = busy_left p - 1" "answer (hw_tick p) = answer p"
  by (simp_all add: hw_tick_def)

lemma wait_tx_reference: "\<exists>q. wait_tx_empty (reference_hw l pin slave) p = Some q \<and> later p q \<and> tx_left q = 0"
proof (induction "tx_left p" arbitrary: p)
  case 0
  then show ?case using later_tick [of p] by (simp add: wait_steps(1) [of _ _ _ p])
next
  case (Suc n)
  then obtain q where "wait_tx_empty (reference_hw l pin slave) (hw_tick p) = Some q \<and>
      later (hw_tick p) q \<and> tx_left q = 0" by (metis diff_Suc_1 tick_left(1))
  then show ?case using Suc(2) later_tick_trans [of p q] by (simp add: wait_steps(1) [of _ _ _ p])
qed

lemma wait_rx_reference:
  assumes "answer p \<noteq> None"
  shows "\<exists>q. wait_rx_ready (reference_hw l pin slave) p = Some q \<and> later p q \<and> rx_left q = 0"
  using assms
proof (induction "rx_left p" arbitrary: p)
  case 0
  then show ?case using later_tick [of p] by (simp add: wait_steps(2) [of _ _ _ p])
next
  case (Suc n)
  then obtain q where "wait_rx_ready (reference_hw l pin slave) (hw_tick p) = Some q \<and>
      later (hw_tick p) q \<and> rx_left q = 0" by (metis diff_Suc_1 tick_left(2,4))
  then show ?case using Suc(2) later_tick_trans [of p q] by (simp add: wait_steps(2) [of _ _ _ p])
qed

lemma wait_busy_reference: "\<exists>q. wait_not_busy (reference_hw l pin slave) p = Some q \<and> later p q \<and> busy_left q = 0"
proof (induction "busy_left p" arbitrary: p)
  case 0
  then show ?case using later_tick [of p] by (simp add: wait_steps(3) [of _ _ _ p])
next
  case (Suc n)
  then obtain q where "wait_not_busy (reference_hw l pin slave) (hw_tick p) = Some q \<and>
      later (hw_tick p) q \<and> busy_left q = 0" by (metis diff_Suc_1 tick_left(3))
  then show ?case using Suc(2) later_tick_trans [of p q] by (simp add: wait_steps(3) [of _ _ _ p])
qed

text \<open>What the slave answers to a sequence of bytes, from a frame already begun.\<close>

primrec answers :: "(bytes \<Rightarrow> u8) \<Rightarrow> bytes \<Rightarrow> bytes \<Rightarrow> bytes" where
  "answers f sent [] = []"
| "answers f sent (b # bs) = f (sent @ [b]) # answers f (sent @ [b]) bs"

definition in_frame :: "bytes list \<Rightarrow> bytes \<Rightarrow> peripheral \<Rightarrow> bool" where
  "in_frame fs sent p \<longleftrightarrow>
     hw_enabled p \<and> selected p \<and> frames p = fs \<and> frame p = sent \<and> answer p = None"

definition between_frames :: "bytes list \<Rightarrow> peripheral \<Rightarrow> bool" where
  "between_frames fs p \<longleftrightarrow> hw_enabled p \<and> \<not> selected p \<and> frames p = fs \<and> answer p = None"

lemma transfer_byte_reference:
  assumes "in_frame fs sent p"
  shows "\<exists>q. transfer_byte (reference_master l pin slave c) b p = Some (slave fs (sent @ [b]), q) \<and>
    in_frame fs (sent @ [b]) q"
proof -
  let ?h = "reference_hw l pin slave"
  obtain p1 where p1: "wait_tx_empty ?h p = Some p1" "later p p1" "tx_left p1 = 0"
    using wait_tx_reference by blast
  define p2 where "p2 = hw_write_dr l slave (ucast b) p1"
  have p2: "hw_enabled p2" "selected p2" "frames p2 = fs" "frame p2 = sent @ [b]"
    "answer p2 = Some (slave fs (sent @ [b]))"
    using assms laterD [OF p1(2)] p1(3)
    by (simp_all add: p2_def hw_write_dr_def in_frame_def hw_enabled_def split_def Let_def)
  obtain p3 where p3: "wait_rx_ready ?h p2 = Some p3" "later p2 p3" "rx_left p3 = 0"
    using wait_rx_reference [of p2 l pin slave] p2(5) by auto
  let ?q = "p3\<lparr>dr := slave fs (sent @ [b]), answer := None\<rparr>"
  have "transfer_byte (reference_master l pin slave c) b p = Some (slave fs (sent @ [b]), ?q)"
    using p1(1) p3 p2(5) laterD [OF p3(2)]
    by (simp add: transfer_byte_def reference_master_def Let_def)
       (simp add: reference_hw_def p2_def [symmetric] hw_read_dr_def)
  moreover have "in_frame fs (sent @ [b]) ?q"
    using p2 laterD [OF p3(2)] by (simp add: in_frame_def hw_enabled_def)
  ultimately show ?thesis by blast
qed

lemma transfer_bytes_reference:
  assumes "in_frame fs sent p"
  shows "\<exists>q. transfer_bytes (reference_master l pin slave c) bs p = Some (answers (slave fs) sent bs, q) \<and>
    in_frame fs (sent @ bs) q"
  using assms
proof (induction bs arbitrary: sent p)
  case (Cons b bs)
  obtain q where "transfer_byte (reference_master l pin slave c) b p = Some (slave fs (sent @ [b]), q)"
    "in_frame fs (sent @ [b]) q"
    using transfer_byte_reference [OF Cons.prems] by blast
  then show ?case using Cons.IH by fastforce
qed simp

lemma delay_reference [simp]: "delay_ns (reference_master l pin slave c) n p = p"
  by (simp add: delay_ns_def reference_master_def reference_hw_def)

lemma transfer_loop_is_bytes:
  "transfer_loop (reference_master l pin slave c) bs p = transfer_bytes (reference_master l pin slave c) bs p"
  by (induction bs arbitrary: p) (simp_all cong: if_cong)

lemma hw_bsrr_pin:
  assumes "pin < 16"
  shows "hw_bsrr pin (push_bit (pin + 16) 1) p = (if selected p then p else p\<lparr>selected := True, frame := []\<rparr>)"
    and "hw_bsrr pin (push_bit pin 1) p =
      (if selected p
       then p\<lparr>selected := False, frames := frames p @ [if busy_left p = 0 then frame p else butlast (frame p)]\<rparr>
       else p)"
  using assms by (simp_all add: hw_bsrr_def bit_push_bit_iff bit_1_iff del: push_bit_of_1)

lemma transaction_reference:
  assumes "pin < 16" "between_frames fs p"
    and "\<And>q. in_frame fs [] q \<Longrightarrow> \<exists>r'. f q = Some (r, r') \<and> in_frame fs sent r'"
  shows "\<exists>q. transaction (reference_master l pin slave c) f p = Some (r, q) \<and> between_frames (fs @ [sent]) q"
proof -
  let ?s = "reference_master l pin slave c"
  obtain q where q: "cs_select ?s p = Some q" "in_frame fs [] q"
    using assms(1,2)
    by (simp add: cs_select_def reference_master_def reference_hw_def hw_bsrr_pin in_frame_def
        between_frames_def hw_enabled_def del: push_bit_of_1)
  obtain r' where r': "f q = Some (r, r')" "in_frame fs sent r'" using assms(3) q(2) by blast
  obtain e' where e': "wait_not_busy (reference_hw l pin slave) r' = Some e'" "later r' e'" "busy_left e' = 0"
    using wait_busy_reference by blast
  obtain e where "release_cs ?s r' = Some e" "between_frames (fs @ [sent]) e"
    using assms(1) r'(2) e' laterD [OF e'(2)]
    by (simp add: release_cs_def cs_deselect_def reference_master_def delay_ns_def in_frame_def
          del: push_bit_of_1)
       (simp add: reference_hw_def hw_bsrr_pin between_frames_def hw_enabled_def del: push_bit_of_1)
  then show ?thesis using q r'
    by (simp add: transaction_def)
qed

subsection \<open>Transfers and the flash driver on the bus\<close>

lemma transfer_is_transaction:
  "length tx = length buf \<Longrightarrow> transfer s tx buf w =
     do { (rs, w) \<leftarrow> transaction s (transfer_loop s tx) w; Some (Inr (), rs, w) }"
  by (simp add: transfer_def transaction_def split: bind_splits)

lemma transfer_reference:
  assumes "pin < 16" "between_frames fs p" "length tx = length buf"
  shows "\<exists>q. transfer (reference_master l pin slave c) tx buf p =
      Some (Inr (), answers (slave fs) [] tx, q) \<and> between_frames (fs @ [tx]) q"
proof -
  have "\<exists>r. transfer_loop (reference_master l pin slave c) tx q = Some (answers (slave fs) [] tx, r) \<and>
      in_frame fs tx r" if "in_frame fs [] q" for q
    unfolding transfer_loop_is_bytes using transfer_bytes_reference [OF that, of l pin slave c tx] by simp
  from transaction_reference [where f = "transfer_loop (reference_master l pin slave c) tx" and l = l and slave = slave and c = c, OF assms(1,2) this]
  show ?thesis using assms(3) by (auto simp: transfer_is_transaction)
qed

text \<open>The address phase is the low 24 bits of the address, most significant byte first.\<close>

lemma address_bytes_be: "address_bytes a = be_bytes 3 (unat a)"
  by (simp add: address_bytes_def numeral_3_eq_3 word_unat_eq_iff unsigned_ucast_eq
      take_bit_eq_mod drop_bit_eq_div unat_div unat_of_nat flip: div_mult2_eq)

text \<open>Initialisation enables the master and releases chip select.\<close>

lemma spi_master_new_reference:
  assumes "pin < 16" "\<not> selected p" "answer p = None"
  shows "\<exists>q. spi_master_new (reference_hw l pin slave) pin c p = Some (reference_master l pin slave c, q) \<and>
    between_frames (frames p) q"
  using assms cr1_fields(4) [of c]
  by (simp add: spi_master_new_def spi_init_def reference_master_def reference_hw_def cs_deselect_def
      hw_bsrr_pin between_frames_def hw_enabled_def bit_or_iff bit_push_bit_iff bit_1_iff Let_def
      del: push_bit_of_1)

text \<open>A transaction that sends a command and then further bytes, and what it hears.\<close>

lemma command_transaction:
  assumes "pin < 16" "between_frames fs p"
    and "\<And>w. f w = do { (x, w) \<leftarrow> transfer_byte (reference_master l pin slave c) b w;
                        (ys, w) \<leftarrow> transfer_bytes (reference_master l pin slave c) bs w;
                        (zs, w) \<leftarrow> transfer_bytes (reference_master l pin slave c) cs w;
                        Some (g x ys zs, w) }"
  shows "\<exists>q. transaction (reference_master l pin slave c) f p =
      Some (g (slave fs [b]) (answers (slave fs) [b] bs) (answers (slave fs) (b # bs) cs), q) \<and>
    between_frames (fs @ [b # bs @ cs]) q"
proof (rule transaction_reference [OF assms(1,2)])
  let ?s = "reference_master l pin slave c"
  fix q assume "in_frame fs [] q"
  then obtain r1 where r1: "transfer_byte ?s b q = Some (slave fs [b], r1)" "in_frame fs [b] r1"
    using transfer_byte_reference [where l = l and pin = pin and slave = slave and c = c] by force
  then obtain r2 where r2: "transfer_bytes ?s bs r1 = Some (answers (slave fs) [b] bs, r2)" "in_frame fs (b # bs) r2"
    using transfer_bytes_reference [OF r1(2), of l pin slave c bs] by auto
  obtain r3 where "transfer_bytes ?s cs r2 = Some (answers (slave fs) (b # bs) cs, r3)"
      "in_frame fs (b # bs @ cs) r3"
    using transfer_bytes_reference [OF r2(2), of l pin slave c cs] by auto
  then show "\<exists>r'. f q = Some (g (slave fs [b]) (answers (slave fs) [b] bs) (answers (slave fs) (b # bs) cs), r') \<and>
      in_frame fs (b # bs @ cs) r'"
    using r1(1) r2(1) by (simp add: assms(3))
qed

lemma read_id_reference:
  assumes "pin < 16" "between_frames fs p"
  shows "\<exists>q. read_id (reference_master l pin slave c) p =
      Some (Inr (answers (slave fs) [0x9F] [0xFF, 0xFF, 0xFF]), q) \<and>
    between_frames (fs @ [[0x9F, 0xFF, 0xFF, 0xFF]]) q"
  using command_transaction [OF assms, where b = "0x9F" and bs = "[0xFF, 0xFF, 0xFF]" and cs = "[]"
      and g = "\<lambda>x ys zs. Inr ys :: string + bytes" and l = l and slave = slave and c = c, OF refl]
  by (simp add: read_id_def)

lemma flash_read_reference:
  assumes "pin < 16" "between_frames fs p" "buf \<noteq> []"
  shows "\<exists>q. flash_read (reference_master l pin slave c) a buf p =
      Some (Inr (), answers (slave fs) (0x03 # address_bytes a) (replicate (length buf) 0xFF), q) \<and>
    between_frames (fs @ [0x03 # address_bytes a @ replicate (length buf) 0xFF]) q"
  using command_transaction [OF assms(1,2), where b = "0x03" and bs = "address_bytes a"
      and cs = "replicate (length buf) 0xFF" and g = "\<lambda>x ys zs. (Inr () :: string + unit, zs)"
      and l = l and slave = slave and c = c, OF refl] assms(3)
  by (auto simp: flash_read_def)

lemma flash_write_reference:
  assumes "pin < 16" "between_frames fs p" "data \<noteq> []" "length data \<le> 256"
  shows "\<exists>q. flash_write (reference_master l pin slave c) a data p = Some (Inr (), q) \<and>
    between_frames (fs @ [[0x06], 0x02 # address_bytes a @ data]) q"
proof -
  let ?s = "reference_master l pin slave c"
  have "\<exists>r. transfer_byte ?s 0x06 q = Some (slave fs [0x06], r) \<and> in_frame fs [0x06] r"
    if "in_frame fs [] q" for q
    using transfer_byte_reference [OF that, of l pin slave c "0x06"] by simp
  from transaction_reference [where f = "transfer_byte ?s 0x06" and l = l and slave = slave and c = c, OF assms(1,2) this]
  obtain q where q: "transaction ?s (transfer_byte ?s 0x06) p = Some (slave fs [0x06], q)"
      "between_frames (fs @ [[0x06]]) q" by blast
  show ?thesis
    using command_transaction [OF assms(1) q(2), where b = "0x02" and bs = "address_bytes a"
      and cs = data and g = "\<lambda>x ys zs. Inr () :: string + unit" and l = l and slave = slave and c = c, OF refl] assms(3,4) q(1)
    by (auto simp: flash_write_def)
qed

text \<open>
  C16. On every peripheral of this kind, whatever the latencies of its three flags and whatever
  the slave answers, initialisation enables it and the driver returns and frames its traffic as
  its comments say. A transfer of two buffers of equal length is one frame, and the buffer
  becomes the answers of the slave; with other buffers nothing is sent. \<open>write\<close> sends the first
  256 bytes of its data and reports success whatever follows them; \<open>read\<close> of up to 256 bytes is
  one frame of dummy bytes, and of more fails without touching the bus. Flash reads are one
  frame of command, 24-bit address with the most significant byte first and dummy bytes; flash
  writes of 1 to 256 bytes are a write-enable frame and a program frame, and of other lengths an
  error with nothing sent.
\<close>

theorem spi_traffic:
  assumes "pin < 16" "between_frames fs p" "s = reference_master l pin slave c"
  shows "(\<forall>p0. \<not> selected p0 \<and> answer p0 = None \<longrightarrow>
      (\<exists>q. spi_master_new (reference_hw l pin slave) pin c p0 = Some (s, q) \<and> between_frames (frames p0) q)) \<and>
    (length tx = length buf \<longrightarrow>
      (\<exists>q. transfer s tx buf p = Some (Inr (), answers (slave fs) [] tx, q) \<and> between_frames (fs @ [tx]) q)) \<and>
    (length tx \<noteq> length buf \<longrightarrow> transfer s tx buf p = Some (Inl ''Buffer length mismatch'', buf, p)) \<and>
    (\<exists>q. spi_write s data p = Some (Inr (), q) \<and> between_frames (fs @ [take 256 data]) q) \<and>
    (length buf \<le> 256 \<longrightarrow>
      (\<exists>q. spi_read s buf p = Some (Inr (), answers (slave fs) [] (replicate (length buf) 0xFF), q) \<and>
           between_frames (fs @ [replicate (length buf) 0xFF]) q)) \<and>
    (256 < length buf \<longrightarrow> spi_read s buf p = Some (Inl ''Buffer length mismatch'', buf, p)) \<and>
    (\<exists>q. read_id s p = Some (Inr (answers (slave fs) [0x9F] [0xFF, 0xFF, 0xFF]), q) \<and>
         between_frames (fs @ [[0x9F, 0xFF, 0xFF, 0xFF]]) q) \<and>
    (buf \<noteq> [] \<longrightarrow> (\<exists>q. flash_read s a buf p =
         Some (Inr (), answers (slave fs) (0x03 # be_bytes 3 (unat a)) (replicate (length buf) 0xFF), q) \<and>
         between_frames (fs @ [0x03 # be_bytes 3 (unat a) @ replicate (length buf) 0xFF]) q)) \<and>
    (data \<noteq> [] \<and> length data \<le> 256 \<longrightarrow> (\<exists>q. flash_write s a data p = Some (Inr (), q) \<and>
         between_frames (fs @ [[0x06], 0x02 # be_bytes 3 (unat a) @ data]) q)) \<and>
    (data = [] \<or> 256 < length data \<longrightarrow> flash_write s a data p = Some (Inl ''Invalid data length'', p))"
    (is "?new \<and> ?eq \<and> ?neq \<and> ?writes \<and> ?read \<and> ?long \<and> ?id \<and> ?flash_read \<and> ?flash_write \<and> ?refused")
proof -
  have ?new using spi_master_new_reference [OF assms(1)] assms(3) by blast
  moreover have ?eq using transfer_reference [OF assms(1,2)] assms(3) by blast
  moreover have ?neq by (simp add: transfer_def)
  moreover have ?writes
    using transfer_reference [OF assms(1,2), of "take 256 data" "take (min (length data) 256) (replicate 256 0)"
        l slave c]
    by (auto simp: spi_write_def assms(3) min.commute [of 256] min_def split: if_splits)
  moreover have ?read
    using transfer_reference [OF assms(1,2), of "replicate (length buf) 0xFF" buf l slave c]
    by (auto simp: spi_read_def assms(3) min_def)
  moreover have ?long by (simp add: spi_read_def transfer_def)
  moreover have ?id using read_id_reference [OF assms(1,2)] assms(3) by blast
  moreover have ?flash_read
    using flash_read_reference [OF assms(1,2)] unfolding assms(3) address_bytes_be by blast
  moreover have ?flash_write
    using flash_write_reference [OF assms(1,2)] unfolding assms(3) address_bytes_be by blast
  moreover have ?refused by (auto simp: flash_write_def)
  ultimately show ?thesis by blast
qed

definition idle_peripheral :: peripheral where
  "idle_peripheral = \<lparr>frames = [], frame = [], dr = 0, answer = None, tx_left = 2, rx_left = 0, busy_left = 0,
     selected = False, cr1 = 0x44\<rparr>"

definition slow_flags :: latency where
  "slow_flags fs sent = (5, 3, 9 + length sent)"

lemma idle_between: "between_frames [] idle_peripheral"
  by (simp add: between_frames_def idle_peripheral_def hw_enabled_def bit_numeral_rec)

theorem spi_traffic_witness:
  "\<exists>q. flash_write (reference_master slow_flags 4 (\<lambda>_ _. 0) spi_config_default) 0x12345678 [0xAA, 0xBB]
        idle_peripheral = Some (Inr (), q) \<and>
      frames q = [[0x06], [0x02, 0x34, 0x56, 0x78, 0xAA, 0xBB]]"
proof -
  have "be_bytes 3 (unat (0x12345678 :: u32)) = [0x34, 0x56, 0x78]" by (simp add: numeral_3_eq_3)
  then show ?thesis
    using spi_traffic [of 4 "[]" idle_peripheral "reference_master slow_flags 4 (\<lambda>_ _. 0) spi_config_default"
        slow_flags "\<lambda>_ _. 0" spi_config_default "[]" "[]" "[0xAA, 0xBB]" "0x12345678"] idle_between
    by (auto simp: between_frames_def)
qed

subsection \<open>Waiting for the flash\<close>

lemma read_status_reference:
  assumes "pin < 16" "between_frames fs p"
  shows "\<exists>q. read_status (reference_master l pin slave c) p = Some (Inr (slave fs [0x05, 0xFF]), q) \<and>
    between_frames (fs @ [[0x05, 0xFF]]) q"
  using command_transaction [OF assms, where b = "0x05" and bs = "[0xFF]" and cs = "[]"
      and g = "\<lambda>x ys zs. Inr (hd ys) :: string + u8" and l = l and slave = slave and c = c, OF refl]
  by (simp add: read_status_def split_def)

text \<open>One poll of the status register.\<close>

lemma wait_ready_step:
  assumes "pin < 16" "between_frames fs p"
  obtains q where "between_frames (fs @ [[0x05, 0xFF]]) q"
    and "wait_ready (reference_master l pin slave c) p =
      (if slave fs [0x05, 0xFF] AND 1 = 0 then Some (Inr (), q)
       else wait_ready (reference_master l pin slave c) q)"
proof -
  obtain q where q: "read_status (reference_master l pin slave c) p = Some (Inr (slave fs [0x05, 0xFF]), q)"
    "between_frames (fs @ [[0x05, 0xFF]]) q"
    using read_status_reference [OF assms] by blast
  have "spin_loop (regs (reference_master l pin slave c)) 1000 q = q"
    by (simp add: reference_master_def reference_hw_def)
  with q have "wait_ready (reference_master l pin slave c) p =
      (if slave fs [0x05, 0xFF] AND 1 = 0 then Some (Inr (), q)
       else wait_ready (reference_master l pin slave c) q)"
    by (subst wait_ready.simps) simp
  with q(2) show ?thesis by (rule that)
qed

lemma wait_ready_returns:
  assumes "pin < 16" "between_frames fs p" "slave (fs @ replicate n [0x05, 0xFF]) [0x05, 0xFF] AND 1 = 0"
  shows "\<exists>q. wait_ready (reference_master l pin slave c) p = Some (Inr (), q)"
  using assms
proof (induction n arbitrary: fs p)
  case 0
  then show ?case by (auto elim: wait_ready_step [of pin fs p l slave c])
next
  case (Suc n)
  obtain q where "between_frames (fs @ [[0x05, 0xFF]]) q" and
    "wait_ready (reference_master l pin slave c) p =
      (if slave fs [0x05, 0xFF] AND 1 = 0 then Some (Inr (), q)
       else wait_ready (reference_master l pin slave c) q)"
    using wait_ready_step [OF Suc.prems(1,2)] by blast
  then show ?case using Suc.IH [of "fs @ [[0x05, 0xFF]]" q] Suc.prems(1,3)
    by (cases "slave fs [0x05, 0xFF] AND 1 = 0") (simp_all add: replicate_append_same)
qed

lemma wait_ready_only:
  assumes "wait_ready s p = Some y"
  shows "\<forall>fs. s = reference_master l pin slave c \<longrightarrow> pin < 16 \<longrightarrow> between_frames fs p \<longrightarrow>
    (\<exists>n. slave (fs @ replicate n [0x05, 0xFF]) [0x05, 0xFF] AND 1 = 0)"
proof (rule wait_ready.raw_induct [where P = "\<lambda>s p y. \<forall>fs. s = reference_master l pin slave c \<longrightarrow>
      pin < 16 \<longrightarrow> between_frames fs p \<longrightarrow>
      (\<exists>n. slave (fs @ replicate n [0x05, 0xFF]) [0x05, 0xFF] AND 1 = 0)", OF _ assms], intro allI impI)
  fix loop :: "peripheral spi_master \<Rightarrow> peripheral \<Rightarrow> ((string + unit) \<times> peripheral) option" and s p y fs
  assume IH: "\<And>s p y. loop s p = Some y \<Longrightarrow> \<forall>fs. s = reference_master l pin slave c \<longrightarrow> pin < 16 \<longrightarrow>
        between_frames fs p \<longrightarrow> (\<exists>n. slave (fs @ replicate n [0x05, 0xFF]) [0x05, 0xFF] AND 1 = 0)"
    and step: "do { (r, w) \<leftarrow> read_status s p;
        (case r of Inl e \<Rightarrow> Some (Inl e, w)
         | Inr status \<Rightarrow> if status AND 0x01 = 0 then Some (Inr (), w)
                         else loop s (spin_loop (regs s) 1000 w)) } = Some y"
    and s: "s = reference_master l pin slave c" and pin: "pin < 16" and fs: "between_frames fs p"
  show "\<exists>n. slave (fs @ replicate n [0x05, 0xFF]) [0x05, 0xFF] AND 1 = 0"
  proof (cases "slave fs [0x05, 0xFF] AND 1 = 0")
    case True
    then show ?thesis by (intro exI [of _ 0]) simp
  next
    case False
    obtain q where q: "read_status s p = Some (Inr (slave fs [0x05, 0xFF]), q)"
      "between_frames (fs @ [[0x05, 0xFF]]) q"
      using read_status_reference [OF pin fs] s by blast
    have "spin_loop (regs s) 1000 q = q" by (simp add: s reference_master_def reference_hw_def)
    then have "loop s q = Some y" using step q(1) False by simp
    then obtain n where "slave ((fs @ [[0x05, 0xFF]]) @ replicate n [0x05, 0xFF]) [0x05, 0xFF] AND 1 = 0"
      using IH s pin q(2) by blast
    then show ?thesis by (intro exI [of _ "Suc n"]) simp
  qed
qed

text \<open>
  \<open>wait_ready\<close> returns exactly when the flash ever reports that it is done: some status byte
  the device would answer, after any number of polls, has its write-in-progress bit clear. The
  loop has no other way out.
\<close>

theorem wait_ready_returns_iff:
  assumes "pin < 16" "between_frames fs p"
  shows "(\<exists>q. wait_ready (reference_master l pin slave c) p = Some (Inr (), q)) \<longleftrightarrow>
    (\<exists>n. slave (fs @ replicate n [0x05, 0xFF]) [0x05, 0xFF] AND 1 = 0)"
  using wait_ready_returns [OF assms] wait_ready_only assms by blast

theorem wait_ready_returns_iff_witness:
  "(\<exists>q. wait_ready (reference_master slow_flags 4 (\<lambda>fs _. if length fs < 3 then 1 else 0) spi_config_default)
      idle_peripheral = Some (Inr (), q)) \<and>
   \<not> (\<exists>q. wait_ready (reference_master slow_flags 4 (\<lambda>_ _. 1) spi_config_default) idle_peripheral = Some (Inr (), q))"
proof -
  have "\<exists>n. (if length ([] @ replicate n [0x05, 0xFF :: u8]) < 3 then 1 else 0 :: u8) AND 1 = 0"
    by (rule exI [of _ 3]) simp
  then show ?thesis
    using idle_between wait_ready_returns_iff [of 4 "[]" idle_peripheral slow_flags "\<lambda>fs _. if length fs < 3 then 1 else 0"
        spi_config_default]
      wait_ready_returns_iff [of 4 "[]" idle_peripheral slow_flags "\<lambda>_ _. 1" spi_config_default]
    by simp
qed

end
