(* ===== verification/Spi_Bit_Bang.thy ===== *)
theory Spi_Bit_Bang
  imports Bus_Io
begin

unbundle bit_operations_syntax

text \<open>
  The bit-banged SPI master (\<open>SPI/src/12/bit_banging_spi_implementation.rs\<close>). The four pins are
  objects behind the traits \<open>OutputPin\<close> and \<open>InputPin\<close>: their operations, and the thread's
  sleep, are the fields of a record \<open>pins\<close>, functions on the state \<open>'w\<close> of the board. The
  master is the configuration; its operations are the source's, with every \<open>?\<close> an early return.
\<close>

subsection \<open>Pins, modes and errors\<close>

record ('w, 'm, 'i, 's, 'c) pins =
  mosi_set_high :: "'w \<Rightarrow> ('w, 'm, unit) io"
  mosi_set_low :: "'w \<Rightarrow> ('w, 'm, unit) io"
  sck_set_high :: "'w \<Rightarrow> ('w, 's, unit) io"
  sck_set_low :: "'w \<Rightarrow> ('w, 's, unit) io"
  cs_set_high :: "'w \<Rightarrow> ('w, 'c, unit) io"
  cs_set_low :: "'w \<Rightarrow> ('w, 'c, unit) io"
  miso_is_high :: "'w \<Rightarrow> 'i + bool"
  sleep_micros :: "nat \<Rightarrow> 'w \<Rightarrow> 'w"

datatype spi_mode = Mode0 | Mode1 | Mode2 | Mode3

definition cpol :: "spi_mode \<Rightarrow> bool" where
  "cpol m = (case m of Mode2 \<Rightarrow> True | Mode3 \<Rightarrow> True | _ \<Rightarrow> False)"

definition cpha :: "spi_mode \<Rightarrow> bool" where
  "cpha m = (case m of Mode1 \<Rightarrow> True | Mode3 \<Rightarrow> True | _ \<Rightarrow> False)"

record spi_config =
  mode :: spi_mode
  delay_us :: nat
  msb_first :: bool

definition spi_config_default :: spi_config where
  "spi_config_default = \<lparr>mode = Mode0, delay_us = 1, msb_first = True\<rparr>"

datatype ('m, 'i, 's, 'c) spi_error = Mosi 'm | Miso 'i | Sck 's | Cs 'c

subsection \<open>The master\<close>

definition initialize ::
  "('w, 'm, 'i, 's, 'c) pins \<Rightarrow> spi_config \<Rightarrow> 'w \<Rightarrow> ('w, ('m, 'i, 's, 'c) spi_error, unit) io" where
  "initialize P c w =
     try_io (map_err Mosi (mosi_set_low P w)) (\<lambda>w _.
     try_io (map_err Cs (cs_set_high P w)) (\<lambda>w _.
     try_io (map_err Sck (if cpol (mode c) then sck_set_high P w else sck_set_low P w)) (\<lambda>w _.
       (w, Inr ()))))"

definition bit_bang_spi_new ::
  "('w, 'm, 'i, 's, 'c) pins \<Rightarrow> spi_config \<Rightarrow> 'w \<Rightarrow> ('w, ('m, 'i, 's, 'c) spi_error, spi_config) io"
where
  "bit_bang_spi_new P c w = try_io (initialize P c w) (\<lambda>w _. (w, Inr c))"

definition delay :: "('w, 'm, 'i, 's, 'c) pins \<Rightarrow> spi_config \<Rightarrow> 'w \<Rightarrow> 'w" where
  "delay P c w = sleep_micros P (delay_us c) w"

definition clock_first_edge ::
  "('w, 'm, 'i, 's, 'c) pins \<Rightarrow> spi_config \<Rightarrow> 'w \<Rightarrow> ('w, ('m, 'i, 's, 'c) spi_error, unit) io" where
  "clock_first_edge P c w =
     (if cpol (mode c) then map_err Sck (sck_set_low P w) else map_err Sck (sck_set_high P w))"

definition clock_second_edge ::
  "('w, 'm, 'i, 's, 'c) pins \<Rightarrow> spi_config \<Rightarrow> 'w \<Rightarrow> ('w, ('m, 'i, 's, 'c) spi_error, unit) io" where
  "clock_second_edge P c w =
     (if cpol (mode c) then map_err Sck (sck_set_high P w) else map_err Sck (sck_set_low P w))"

definition bit_index :: "spi_config \<Rightarrow> nat \<Rightarrow> nat" where
  "bit_index c i = (if msb_first c then 7 - i else i)"

text \<open>The body of the loop of \<open>transfer_byte\<close>, on the bits received so far.\<close>

definition read_miso ::
  "('w, 'm, 'i, 's, 'c) pins \<Rightarrow> nat \<Rightarrow> u8 \<Rightarrow> 'w \<Rightarrow> ('w, ('m, 'i, 's, 'c) spi_error, u8) io" where
  "read_miso P bi data_in w =
     (case miso_is_high P w of
        Inl e \<Rightarrow> (w, Inl (Miso e))
      | Inr b \<Rightarrow> (w, Inr (if b then data_in OR push_bit bi 1 else data_in)))"

definition transfer_bit ::
  "('w, 'm, 'i, 's, 'c) pins \<Rightarrow> spi_config \<Rightarrow> u8 \<Rightarrow> nat \<Rightarrow> u8 \<Rightarrow> 'w
    \<Rightarrow> ('w, ('m, 'i, 's, 'c) spi_error, u8) io" where
  "transfer_bit P c data_out i data_in w =
     (let bi = bit_index c i in
      try_io (map_err Mosi (if drop_bit bi data_out AND 1 = 1 then mosi_set_high P w
                            else mosi_set_low P w)) (\<lambda>w _.
      if \<not> cpha (mode c) then
        try_io (clock_first_edge P c (delay P c w)) (\<lambda>w _.
        try_io (read_miso P bi data_in w) (\<lambda>w data_in.
        try_io (clock_second_edge P c (delay P c w)) (\<lambda>w _.
          (w, Inr data_in))))
      else
        try_io (clock_first_edge P c (delay P c w)) (\<lambda>w _.
        try_io (clock_second_edge P c (delay P c w)) (\<lambda>w _.
          read_miso P bi data_in w))))"

primrec transfer_bits ::
  "('w, 'm, 'i, 's, 'c) pins \<Rightarrow> spi_config \<Rightarrow> u8 \<Rightarrow> nat list \<Rightarrow> u8 \<Rightarrow> 'w
    \<Rightarrow> ('w, ('m, 'i, 's, 'c) spi_error, u8) io" where
  "transfer_bits P c data_out [] data_in w = (w, Inr data_in)"
| "transfer_bits P c data_out (i # is) data_in w =
     try_io (transfer_bit P c data_out i data_in w) (\<lambda>w data_in.
       transfer_bits P c data_out is data_in w)"

definition transfer_byte ::
  "('w, 'm, 'i, 's, 'c) pins \<Rightarrow> spi_config \<Rightarrow> u8 \<Rightarrow> 'w \<Rightarrow> ('w, ('m, 'i, 's, 'c) spi_error, u8) io" where
  "transfer_byte P c data_out w = transfer_bits P c data_out [0..<8] 0 w"

text \<open>
  \<open>transfer\<close> and \<open>read\<close> store into the caller's buffer as they go: they return it too, with the
  bytes already replaced when an error ends the loop early.
\<close>

primrec transfer_loop ::
  "('w, 'm, 'i, 's, 'c) pins \<Rightarrow> spi_config \<Rightarrow> (u8 \<Rightarrow> u8) \<Rightarrow> bytes \<Rightarrow> 'w
    \<Rightarrow> bytes \<times> ('w, ('m, 'i, 's, 'c) spi_error, unit) io" where
  "transfer_loop P c out [] w = ([], w, Inr ())"
| "transfer_loop P c out (byte # data) w =
     (case transfer_byte P c (out byte) w of
        (w, Inl e) \<Rightarrow> (byte # data, w, Inl e)
      | (w, Inr x) \<Rightarrow> (let (data', r) = transfer_loop P c out data w in (x # data', r)))"

definition with_cs ::
  "('w, 'm, 'i, 's, 'c) pins \<Rightarrow> bytes \<Rightarrow> ('w \<Rightarrow> bytes \<times> ('w, ('m, 'i, 's, 'c) spi_error, unit) io)
    \<Rightarrow> 'w \<Rightarrow> bytes \<times> ('w, ('m, 'i, 's, 'c) spi_error, unit) io" where
  "with_cs P buf body w =
     (case map_err Cs (cs_set_low P w) of
        (w, Inl e) \<Rightarrow> (buf, w, Inl e)
      | (w, Inr _) \<Rightarrow>
          (let (buf', r) = body (sleep_micros P 1 w)
           in (buf', try_io r (\<lambda>w _. map_err Cs (cs_set_high P (sleep_micros P 1 w))))))"

definition transfer ::
  "('w, 'm, 'i, 's, 'c) pins \<Rightarrow> spi_config \<Rightarrow> bytes \<Rightarrow> 'w
    \<Rightarrow> bytes \<times> ('w, ('m, 'i, 's, 'c) spi_error, unit) io" where
  "transfer P c data w = with_cs P data (transfer_loop P c (\<lambda>b. b) data) w"

definition spi_write ::
  "('w, 'm, 'i, 's, 'c) pins \<Rightarrow> spi_config \<Rightarrow> bytes \<Rightarrow> 'w \<Rightarrow> ('w, ('m, 'i, 's, 'c) spi_error, unit) io"
where
  "spi_write P c data w = snd (with_cs P data (transfer_loop P c (\<lambda>b. b) data) w)"

definition spi_read ::
  "('w, 'm, 'i, 's, 'c) pins \<Rightarrow> spi_config \<Rightarrow> bytes \<Rightarrow> 'w
    \<Rightarrow> bytes \<times> ('w, ('m, 'i, 's, 'c) spi_error, unit) io" where
  "spi_read P c buffer w = with_cs P buffer (transfer_loop P c (\<lambda>_. 0xFF) buffer) w"

subsection \<open>The register device\<close>

definition read_register ::
  "('w, 'm, 'i, 's, 'c) pins \<Rightarrow> spi_config \<Rightarrow> u8 \<Rightarrow> 'w \<Rightarrow> ('w, ('m, 'i, 's, 'c) spi_error, u8) io" where
  "read_register P c reg_addr w =
     (let (buffer, r) = transfer P c [reg_addr OR 0x80, 0x00] w
      in try_io r (\<lambda>w _. (w, Inr (buffer ! 1))))"

definition write_register ::
  "('w, 'm, 'i, 's, 'c) pins \<Rightarrow> spi_config \<Rightarrow> u8 \<Rightarrow> u8 \<Rightarrow> 'w
    \<Rightarrow> ('w, ('m, 'i, 's, 'c) spi_error, unit) io" where
  "write_register P c reg_addr v w = spi_write P c [reg_addr AND 0x7F, v] w"

definition read_multiple_registers ::
  "('w, 'm, 'i, 's, 'c) pins \<Rightarrow> spi_config \<Rightarrow> u8 \<Rightarrow> bytes \<Rightarrow> 'w
    \<Rightarrow> bytes \<times> ('w, ('m, 'i, 's, 'c) spi_error, unit) io" where
  "read_multiple_registers P c start_addr buffer w =
     (let (cmd_buffer, r) = transfer P c ((start_addr OR 0x80) # replicate (length buffer) 0) w
      in case r of (w, Inl e) \<Rightarrow> (buffer, w, Inl e) | (w, Inr _) \<Rightarrow> (drop 1 cmd_buffer, w, Inr ()))"

subsection \<open>Mock pins\<close>

text \<open>The four \<open>MockPin\<close> objects of \<open>main\<close>: each remembers the level last written to it.\<close>

record mock_board =
  mock_mosi :: bool
  mock_miso :: bool
  mock_sck :: bool
  mock_cs :: bool

datatype mock_error = MockError

definition mock_pins :: "(mock_board, mock_error, mock_error, mock_error, mock_error) pins" where
  "mock_pins = \<lparr>
     mosi_set_high = \<lambda>w. (w\<lparr>mock_mosi := True\<rparr>, Inr ()),
     mosi_set_low = \<lambda>w. (w\<lparr>mock_mosi := False\<rparr>, Inr ()),
     sck_set_high = \<lambda>w. (w\<lparr>mock_sck := True\<rparr>, Inr ()),
     sck_set_low = \<lambda>w. (w\<lparr>mock_sck := False\<rparr>, Inr ()),
     cs_set_high = \<lambda>w. (w\<lparr>mock_cs := True\<rparr>, Inr ()),
     cs_set_low = \<lambda>w. (w\<lparr>mock_cs := False\<rparr>, Inr ()),
     miso_is_high = \<lambda>w. Inr (mock_miso w),
     sleep_micros = \<lambda>_ w. w\<rparr>"

definition mock_board_new :: mock_board where
  "mock_board_new = \<lparr>mock_mosi = False, mock_miso = False, mock_sck = False, mock_cs = False\<rparr>"

subsection \<open>A slave on the other end of the wires\<close>

text \<open>
  The reference the master is measured against: a shift-register slave that follows the SPI
  mode table, given here by the idle level of the clock and the edge on which data are sampled,
  without the \<open>cpol\<close> and \<open>cpha\<close> of the program. It acts only while selected: on a sampling edge
  it samples MOSI, on the other edge it puts its next bit on MISO; if the first edge after idle
  is a sampling edge, its first bit is on MISO as soon as it is selected. \<open>sl_out\<close> are the bits
  still to be sent (low once exhausted), \<open>sl_in\<close> the bits sampled, in order.
\<close>

fun idle_high :: "spi_mode \<Rightarrow> bool" where
  "idle_high Mode0 = False" | "idle_high Mode1 = False" | "idle_high Mode2 = True" | "idle_high Mode3 = True"

fun samples_rising :: "spi_mode \<Rightarrow> bool" where
  "samples_rising Mode0 = True" | "samples_rising Mode1 = False"
| "samples_rising Mode2 = False" | "samples_rising Mode3 = True"

definition first_edge_samples :: "spi_mode \<Rightarrow> bool" where
  "first_edge_samples m \<longleftrightarrow> (if idle_high m then \<not> samples_rising m else samples_rising m)"

record spi_slave =
  mosi_line :: bool
  miso_line :: bool
  sck_line :: bool
  cs_line :: bool
  sl_out :: "bool list"
  sl_in :: "bool list"

definition present :: "spi_slave \<Rightarrow> spi_slave" where
  "present s = s\<lparr>miso_line := (case sl_out s of [] \<Rightarrow> False | b # _ \<Rightarrow> b), sl_out := tl (sl_out s)\<rparr>"

definition sample :: "spi_slave \<Rightarrow> spi_slave" where
  "sample s = s\<lparr>sl_in := sl_in s @ [mosi_line s]\<rparr>"

definition slave_sck :: "spi_mode \<Rightarrow> bool \<Rightarrow> spi_slave \<Rightarrow> spi_slave" where
  "slave_sck m v s =
     (let s' = s\<lparr>sck_line := v\<rparr> in
      if cs_line s \<or> sck_line s = v then s'
      else if v = samples_rising m then sample s' else present s')"

definition slave_cs :: "spi_mode \<Rightarrow> bool \<Rightarrow> spi_slave \<Rightarrow> spi_slave" where
  "slave_cs m v s =
     (let s' = s\<lparr>cs_line := v\<rparr> in if cs_line s \<and> \<not> v \<and> first_edge_samples m then present s' else s')"

definition slave_pins :: "spi_mode \<Rightarrow> (spi_slave, unit, unit, unit, unit) pins" where
  "slave_pins m = \<lparr>
     mosi_set_high = \<lambda>w. (w\<lparr>mosi_line := True\<rparr>, Inr ()),
     mosi_set_low = \<lambda>w. (w\<lparr>mosi_line := False\<rparr>, Inr ()),
     sck_set_high = \<lambda>w. (slave_sck m True w, Inr ()),
     sck_set_low = \<lambda>w. (slave_sck m False w, Inr ()),
     cs_set_high = \<lambda>w. (slave_cs m True w, Inr ()),
     cs_set_low = \<lambda>w. (slave_cs m False w, Inr ()),
     miso_is_high = \<lambda>w. Inr (miso_line w),
     sleep_micros = \<lambda>_ w. w\<rparr>"

text \<open>
  A byte as the bits on the wire, lowest bit first or in the reverse order, and a byte string
  likewise.
\<close>

definition wire_bits :: "spi_config \<Rightarrow> u8 \<Rightarrow> bool list" where
  "wire_bits c b = (let bits = map (bit b) [0, 1, 2, 3, 4, 5, 6, 7] in if msb_first c then rev bits else bits)"

definition wire :: "spi_config \<Rightarrow> bytes \<Rightarrow> bool list" where
  "wire c bs = concat (map (wire_bits c) bs)"

subsection \<open>One bit\<close>

text \<open>The mode table and the bit order of the program are the documented ones.\<close>

lemma cpol_idle: "cpol m = idle_high m"
  by (cases m) (simp_all add: cpol_def)

lemma cpha_sampling: "cpha m = (idle_high m = samples_rising m)"
  by (cases m) (simp_all add: cpha_def)

lemma first_edge_cpha: "first_edge_samples m = (\<not> cpha m)"
  by (simp add: first_edge_samples_def cpha_sampling)

lemma wire_bits_index: "wire_bits c b = map (\<lambda>i. bit b (bit_index c i)) [0..<8]"
  by (simp add: wire_bits_def bit_index_def upt_0_8)

lemmas master_simps = slave_pins_def transfer_bit_def clock_first_edge_def clock_second_edge_def
  read_miso_def delay_def

text \<open>The bits the slave is going to put on MISO, from the next one the master reads.\<close>

definition upcoming :: "spi_mode \<Rightarrow> spi_slave \<Rightarrow> nat \<Rightarrow> bool" where
  "upcoming m s = nth_default False (if cpha m then sl_out s else miso_line s # sl_out s)"

definition clock_idle :: "spi_mode \<Rightarrow> spi_slave \<Rightarrow> bool" where
  "clock_idle m s \<longleftrightarrow> sck_line s = idle_high m"

definition exchanged :: "spi_mode \<Rightarrow> bool list \<Rightarrow> spi_slave \<Rightarrow> spi_slave \<Rightarrow> bool" where
  "exchanged m bits s s' \<longleftrightarrow> clock_idle m s' \<and> \<not> cs_line s' \<and> sl_in s' = sl_in s @ bits \<and>
     (\<forall>k. upcoming m s' k = upcoming m s (k + length bits))"

lemma exchanged_refl: "clock_idle m s \<Longrightarrow> \<not> cs_line s \<Longrightarrow> exchanged m [] s s"
  by (simp add: exchanged_def)

lemma exchanged_trans:
  "exchanged m bs s t \<Longrightarrow> exchanged m bs' t u \<Longrightarrow> exchanged m (bs @ bs') s u"
  by (simp add: exchanged_def ac_simps)

lemma low_bit_test: "(drop_bit n (b :: u8) AND 1 = 1) = bit b n"
  by (simp add: and_one_eq mod_2_eq_odd bit_iff_odd_drop_bit)

lemma upcoming_0:
  "upcoming m s 0 = (if cpha m then (case sl_out s of [] \<Rightarrow> False | b # _ \<Rightarrow> b) else miso_line s)"
  by (simp add: upcoming_def nth_default_def split: list.split)

lemma upcoming_tl: "nth_default False (tl xs) k = nth_default False xs (Suc k)"
  by (cases xs) (simp_all add: nth_default_def)

lemma nth_default_present:
  "nth_default False ((case xs of [] \<Rightarrow> False | b # _ \<Rightarrow> b) # tl xs) k = nth_default False xs k"
  by (cases xs; cases k) (simp_all add: nth_default_def)

lemma transfer_bit_slave:
  assumes "clock_idle (mode c) s" "\<not> cs_line s"
  obtains s' where
    "transfer_bit (slave_pins (mode c)) c b i d s =
       (s', Inr (if upcoming (mode c) s 0 then d OR push_bit (bit_index c i) 1 else d))"
    and "exchanged (mode c) [bit b (bit_index c i)] s s'"
proof -
  let ?m = "mode c" and ?s = "s\<lparr>mosi_line := bit b (bit_index c i)\<rparr>"
  define s' where "s' = (if cpha ?m then sample ((present ?s)\<lparr>sck_line := idle_high ?m\<rparr>)
                         else present ((sample ?s)\<lparr>sck_line := idle_high ?m\<rparr>))"
  have "transfer_bit (slave_pins ?m) c b i d s =
       (s', Inr (if upcoming ?m s 0 then d OR push_bit (bit_index c i) 1 else d))"
    using assms
    by (cases "idle_high ?m"; cases "samples_rising ?m"; cases "bit b (bit_index c i)")
       (simp_all add: cpol_idle cpha_sampling master_simps low_bit_test slave_sck_def clock_idle_def s'_def
         sample_def present_def upcoming_0)
  moreover have "exchanged ?m [bit b (bit_index c i)] s s'"
    using assms
    by (simp add: exchanged_def clock_idle_def s'_def sample_def present_def upcoming_def
          upcoming_tl nth_default_present)
  ultimately show ?thesis using that by blast
qed

subsection \<open>One byte\<close>

primrec collect :: "spi_config \<Rightarrow> (nat \<Rightarrow> bool) \<Rightarrow> nat list \<Rightarrow> u8 \<Rightarrow> u8" where
  "collect c up [] d = d"
| "collect c up (i # is) d =
     collect c (\<lambda>k. up (Suc k)) is (if up 0 then d OR push_bit (bit_index c i) 1 else d)"

lemma collect_cong: "(\<And>k. k < length is \<Longrightarrow> up k = up' k) \<Longrightarrow> collect c up is d = collect c up' is d"
proof (induction "is" arbitrary: up up' d)
  case (Cons i "is")
  have "collect c (\<lambda>k. up (Suc k)) is x = collect c (\<lambda>k. up' (Suc k)) is x" for x
    using Cons.prems by (intro Cons.IH) simp
  then show ?case using Cons.prems[of 0] by simp
qed simp

lemma transfer_bits_slave:
  assumes "clock_idle (mode c) s" "\<not> cs_line s"
  shows "\<exists>s'. transfer_bits (slave_pins (mode c)) c b is d s =
      (s', Inr (collect c (upcoming (mode c) s) is d)) \<and>
    exchanged (mode c) (map (\<lambda>i. bit b (bit_index c i)) is) s s'"
  using assms
proof (induction "is" arbitrary: s d)
  case Nil
  then show ?case by (simp add: exchanged_refl)
next
  case (Cons i "is")
  obtain t where t: "transfer_bit (slave_pins (mode c)) c b i d s =
       (t, Inr (if upcoming (mode c) s 0 then d OR push_bit (bit_index c i) 1 else d))"
      "exchanged (mode c) [bit b (bit_index c i)] s t"
    using transfer_bit_slave [OF Cons.prems] by blast
  moreover from t(2) have up: "upcoming (mode c) t = (\<lambda>k. upcoming (mode c) s (Suc k))"
    and idle: "clock_idle (mode c) t" "\<not> cs_line t"
    by (auto simp: exchanged_def)
  ultimately show ?case
    using Cons.IH [OF idle] exchanged_trans [OF t(2)] by fastforce
qed

lemma collect_wire_bits: "collect c (\<lambda>k. wire_bits c r ! k) [0..<8] 0 = r"
  unfolding upt_0_8 byte_bits_0_7
  by (cases "msb_first c") (simp_all add: wire_bits_index upt_0_8 bit_index_def bit_or_iff bit_push_bit_iff)

lemma transfer_byte_slave:
  assumes "clock_idle (mode c) s" "\<not> cs_line s"
    and "\<And>k. k < 8 \<Longrightarrow> upcoming (mode c) s k = wire_bits c r ! k"
  shows "\<exists>s'. transfer_byte (slave_pins (mode c)) c b s = (s', Inr r) \<and>
    exchanged (mode c) (wire_bits c b) s s'"
proof -
  have "collect c (upcoming (mode c) s) [0..<8] 0 = r"
    using collect_cong [of "[0..<8]" "upcoming (mode c) s" "\<lambda>k. wire_bits c r ! k" c 0] assms(3)
    by (simp add: collect_wire_bits)
  then show ?thesis
    using transfer_bits_slave [OF assms(1,2), of b "[0..<8]" 0] by (simp add: transfer_byte_def wire_bits_index)
qed

subsection \<open>Byte strings\<close>

lemma length_wire_bits [simp]: "length (wire_bits c b) = 8"
  by (simp add: wire_bits_index)

lemma wire_Nil [simp]: "wire c [] = []"
  and wire_Cons [simp]: "wire c (b # bs) = wire_bits c b @ wire c bs"
  by (simp_all add: wire_def)

lemma transfer_loop_slave:
  assumes "length rs = length data" "clock_idle (mode c) s" "\<not> cs_line s"
    and "\<And>k. k < length (wire c rs) \<Longrightarrow> upcoming (mode c) s k = wire c rs ! k"
  shows "\<exists>s'. transfer_loop (slave_pins (mode c)) c out data s = (rs, s', Inr ()) \<and>
    exchanged (mode c) (wire c (map out data)) s s'"
  using assms
proof (induction rs data arbitrary: s rule: list_induct2)
  case Nil
  then show ?case by (simp add: exchanged_refl)
next
  case (Cons r rs b data)
  obtain t where t: "transfer_byte (slave_pins (mode c)) c (out b) s = (t, Inr r)"
      "exchanged (mode c) (wire_bits c (out b)) s t"
    using transfer_byte_slave [OF Cons.prems(1,2), of r "out b"] Cons.prems(3)
    by (auto simp: nth_append)
  have "upcoming (mode c) t k = wire c rs ! k" if "k < length (wire c rs)" for k
    using t(2) Cons.prems(3)[of "k + 8"] that by (simp add: exchanged_def nth_append)
  then obtain u where "transfer_loop (slave_pins (mode c)) c out data t = (rs, u, Inr ())"
      "exchanged (mode c) (wire c (map out data)) t u"
    using Cons.IH[of t] t(2) unfolding exchanged_def by blast
  then show ?case using t exchanged_trans [OF t(2)] by auto
qed

lemma selected_upcoming:
  assumes "cs_line s" "k < length (sl_out s)"
  shows "upcoming m (slave_cs m False s) k = sl_out s ! k"
  using assms
  by (auto simp: slave_cs_def first_edge_cpha upcoming_def present_def nth_default_present) (simp_all add: nth_default_def)

lemma with_cs_slave:
  assumes "length rs = length data" "clock_idle (mode c) s" "cs_line s" "sl_out s = wire c rs @ rest"
  shows "\<exists>s'. with_cs (slave_pins (mode c)) data
      (transfer_loop (slave_pins (mode c)) c out data) s = (rs, s', Inr ()) \<and>
    sl_in s' = sl_in s @ wire c (map out data) \<and> cs_line s' \<and> clock_idle (mode c) s'"
proof -
  let ?s = "slave_cs (mode c) False s"
  have "clock_idle (mode c) ?s" "\<not> cs_line ?s" "sl_in ?s = sl_in s"
    using assms by (auto simp: slave_cs_def clock_idle_def present_def Let_def)
  moreover have "upcoming (mode c) ?s k = wire c rs ! k" if "k < length (wire c rs)" for k
    using selected_upcoming [of s k "mode c"] assms that by (simp add: nth_append)
  ultimately obtain t where "transfer_loop (slave_pins (mode c)) c out data ?s = (rs, t, Inr ())"
      "exchanged (mode c) (wire c (map out data)) ?s t"
    using transfer_loop_slave [OF assms(1)] by blast
  then show ?thesis using \<open>sl_in ?s = sl_in s\<close>
    by (auto simp: with_cs_def slave_pins_def exchanged_def slave_cs_def clock_idle_def)
qed

lemma initialize_slave:
  obtains t where "initialize (slave_pins (mode c)) c s = (t, Inr ())"
    and "clock_idle (mode c) t" "cs_line t" "sl_out t = sl_out s" "sl_in t = sl_in s"
proof -
  let ?t = "s\<lparr>mosi_line := False, cs_line := True, sck_line := idle_high (mode c)\<rparr>"
  have "initialize (slave_pins (mode c)) c s = (?t, Inr ())"
    by (simp add: initialize_def cpol_idle slave_pins_def slave_sck_def slave_cs_def Let_def)
  then show ?thesis by (rule that) (simp_all add: clock_idle_def)
qed

text \<open>
  C13. In every SPI mode, with either bit order and from any level of the lines, a master made
  by \<open>new\<close> and a slave that follows the mode table for the same mode exchange byte strings of equal length: \<open>transfer\<close>
  succeeds and replaces the buffer by the bytes the slave had to send, the slave has sampled
  exactly the bits of the bytes the buffer held, in order, and the bus is idle and deselected
  again.
\<close>

theorem transfer_exchanges:
  assumes "length rs = length data" "sl_out s = wire c rs @ rest"
  shows "\<exists>t s'. bit_bang_spi_new (slave_pins (mode c)) c s = (t, Inr c) \<and>
    transfer (slave_pins (mode c)) c data t = (rs, s', Inr ()) \<and>
    sl_in s' = sl_in s @ wire c data \<and> cs_line s' \<and> sck_line s' = idle_high (mode c)"
proof -
  obtain t where "initialize (slave_pins (mode c)) c s = (t, Inr ())"
    "clock_idle (mode c) t" "cs_line t" "sl_out t = sl_out s" "sl_in t = sl_in s"
    by (rule initialize_slave)
  moreover from calculation obtain s' where
    "transfer (slave_pins (mode c)) c data t = (rs, s', Inr ())"
    "sl_in s' = sl_in t @ wire c data" "cs_line s'" "clock_idle (mode c) s'"
    using with_cs_slave [OF assms(1), of c t rest "\<lambda>b. b"] assms(2)
    unfolding transfer_def list.map_ident by metis
  ultimately show ?thesis unfolding clock_idle_def bit_bang_spi_new_def by simp
qed

definition example_slave :: spi_slave where
  "example_slave = \<lparr>mosi_line = True, miso_line = True, sck_line = True, cs_line = False,
     sl_out = wire spi_config_default [0x5A, 0x01], sl_in = []\<rparr>"

theorem transfer_exchanges_witness:
  "\<exists>t s'. bit_bang_spi_new (slave_pins Mode0) spi_config_default example_slave =
      (t, Inr spi_config_default) \<and>
    transfer (slave_pins Mode0) spi_config_default [0x9F, 0] t = ([0x5A, 0x01], s', Inr ()) \<and>
    sl_in s' = wire spi_config_default [0x9F, 0] \<and> cs_line s' \<and> \<not> sck_line s'"
  using transfer_exchanges [where rs = "[0x5A, 0x01]" and data = "[0x9F, 0]" and rest = "[]"
      and s = example_slave and c = spi_config_default]
  by (simp add: example_slave_def spi_config_default_def)

text \<open>
  Reading consecutive registers: the slave is sent the start address with the read bit and one
  zero per register, and the caller's buffer becomes the bytes it answers after the first.
\<close>

theorem read_multiple_registers_slave:
  assumes "length rs = length buffer" "clock_idle (mode c) s" "cs_line s"
    and "sl_out s = wire c (r # rs) @ rest"
  shows "\<exists>s'. read_multiple_registers (slave_pins (mode c)) c a buffer s = (rs, s', Inr ()) \<and>
    sl_in s' = sl_in s @ wire c ((a OR 0x80) # replicate (length buffer) 0) \<and> cs_line s'"
  using with_cs_slave [of "r # rs" "(a OR 0x80) # replicate (length buffer) 0" c s rest "\<lambda>b. b"] assms
  by (auto simp: read_multiple_registers_def transfer_def)

subsection \<open>Errors on the way\<close>

text \<open>
  What the pins other than chip select keep of the board, the whole transfer of a byte keeps.
\<close>

definition pins_keep :: "('w, 'm, 'i, 's, 'c) pins \<Rightarrow> ('w \<Rightarrow> bool) \<Rightarrow> bool" where
  "pins_keep P J \<longleftrightarrow> (\<forall>w. J w \<longrightarrow> J (fst (mosi_set_high P w)) \<and> J (fst (mosi_set_low P w)) \<and>
     J (fst (sck_set_high P w)) \<and> J (fst (sck_set_low P w)) \<and> (\<forall>n. J (sleep_micros P n w)))"

lemma transfer_bit_keeps:
  assumes "pins_keep P J" "J w"
  shows "J (fst (transfer_bit P c b i d w))"
proof -
  have read: "J (fst (read_miso P bi d w))" if "J w" for bi d w
    using that by (simp add: read_miso_def split: sum.split)
  have edges: "J (fst (clock_first_edge P c w))" "J (fst (clock_second_edge P c w))"
    and wait: "J (delay P c w)" if "J w" for w
    using assms(1) that
    by (auto simp: pins_keep_def clock_first_edge_def clock_second_edge_def delay_def)
  have mosi: "J (fst (map_err Mosi (if b' then mosi_set_high P w else mosi_set_low P w)))" for b'
    using assms by (simp add: pins_keep_def)
  show ?thesis unfolding transfer_bit_def Let_def
    by (rule try_io_keeps [where P = J, OF mosi])
       (simp add: try_io_keeps [where P = J] edges wait read)
qed

lemma transfer_bits_keeps: "pins_keep P J \<Longrightarrow> J w \<Longrightarrow> J (fst (transfer_bits P c b is d w))"
  by (induction "is" arbitrary: d w) (simp_all add: try_io_keeps [where P = J] transfer_bit_keeps)

lemma transfer_loop_keeps:
  "pins_keep P J \<Longrightarrow> J w \<Longrightarrow> J (fst (snd (transfer_loop P c out data w)))"
proof (induction data arbitrary: w)
  case (Cons b data)
  have "J (fst (transfer_byte P c (out b) w))"
    using Cons.prems by (simp add: transfer_byte_def transfer_bits_keeps)
  then show ?case using Cons.IH [OF Cons.prems(1)]
    by (cases "transfer_byte P c (out b) w"; cases "snd (transfer_byte P c (out b) w)")
       (simp_all add: case_prod_beta)
qed simp

text \<open>
  A pin error in the middle of a transfer leaves the slave selected: whenever \<open>transfer\<close>
  fails with an error that is not one of the chip-select pin, and no other pin moves the
  chip-select line, the line is still where asserting it has put it, since the early return
  skips the deassertion.
\<close>

theorem transfer_error_leaves_selected:
  assumes "pins_keep P selected" "\<And>w w'. cs_set_low P w = (w', Inr ()) \<Longrightarrow> selected w'"
    and "transfer P c data w = (buf, w', Inl e)" "\<And>x. e \<noteq> Cs x"
  shows "selected w'"
proof -
  obtain w1 where w1: "cs_set_low P w = (w1, Inr ())"
    using assms(3,4) by (cases "cs_set_low P w"; cases "snd (cs_set_low P w)")
      (auto simp: transfer_def with_cs_def)
  obtain b w2 r where loop: "transfer_loop P c (\<lambda>b. b) data (sleep_micros P 1 w1) = (b, w2, r)"
    by (cases "transfer_loop P c (\<lambda>b. b) data (sleep_micros P 1 w1)") auto
  have "selected (sleep_micros P 1 w1)"
    using assms(1,2) w1 by (simp add: pins_keep_def)
  from transfer_loop_keeps [OF assms(1) this, of c "\<lambda>b. b" data] loop have "selected w2" by simp
  moreover have "w' = w2"
    using assms(3,4) w1 loop
    by (cases r) (auto simp: transfer_def with_cs_def map_err_def split: sum.splits prod.splits)
  ultimately show ?thesis by simp
qed

definition broken_miso :: "(spi_slave, unit, unit, unit, unit) pins" where
  "broken_miso = (slave_pins Mode0)\<lparr>miso_is_high := \<lambda>_. Inl ()\<rparr>"

theorem transfer_error_leaves_selected_witness:
  "\<not> cs_line (fst (snd (transfer broken_miso spi_config_default [0x9F] example_slave)))"
proof -
  define r where "r = transfer broken_miso spi_config_default [0x9F] example_slave"
  have keep: "pins_keep broken_miso (\<lambda>w. \<not> cs_line w)"
    by (simp add: pins_keep_def broken_miso_def slave_pins_def slave_sck_def present_def
        sample_def Let_def)
  have low: "\<not> cs_line w'" if "cs_set_low broken_miso w = (w', Inr ())" for w w'
    using that
    by (auto simp: broken_miso_def slave_pins_def slave_cs_def present_def Let_def split: if_splits)
  have "snd (snd r) = Inl (Miso ())"
    by (simp add: r_def transfer_def with_cs_def transfer_byte_def upt_0_8 master_simps broken_miso_def
        slave_cs_def spi_config_default_def cpha_def cpol_def)
  then have "transfer broken_miso spi_config_default [0x9F] example_slave =
      (fst r, fst (snd r), Inl (Miso ()))"
    unfolding r_def [symmetric] by (simp add: prod_eq_iff)
  from transfer_error_leaves_selected [OF keep low this]
  show ?thesis unfolding r_def by simp
qed

end
