(* ===== verification/Spi_Timeout.thy ===== *)
theory Spi_Timeout
  imports Uproto_Prelude
begin

text \<open>
  \<^verbatim>\<open>SPI/src/31/spi_timeout_management.rs\<close>: a blocking SPI driver whose busy-waits are bounded by
  a timer, a non-blocking driver that is polled, and a flash driver on top. Timer and peripheral
  are the two traits of the source; since both change on their own, they are one world that moves
  on (\<open>tick\<close>) whenever the program looks at it. The result \<open>None\<close> of a blocking operation means
  that it does not return.
\<close>

datatype spi_error = Timeout | Busy | Hardware | InvalidParameter | TransferIncomplete

type_synonym 'a spi_result = "spi_error + 'a"

record status_flags =
  txe :: bool
  rxne :: bool
  bsy :: bool

record 'w spi_hw =
  status :: "'w \<Rightarrow> status_flags"
  write_data :: "'w \<Rightarrow> u8 \<Rightarrow> 'w"
  read_data :: "'w \<Rightarrow> 'w \<times> u8"
  now :: "'w \<Rightarrow> nat"
  tick :: "'w \<Rightarrow> 'w"

definition elapsed_ms :: "'w spi_hw \<Rightarrow> 'w \<Rightarrow> nat \<Rightarrow> nat" where
  "elapsed_ms hw w start = now hw w - start"

definition is_busy :: "'w spi_hw \<Rightarrow> 'w \<Rightarrow> bool" where
  "is_busy hw w = bsy (status hw w)"

record timeout_config =
  total_timeout_ms :: nat
  byte_timeout_ms :: nat

definition timeout_config_default :: timeout_config where
  "timeout_config_default = \<lparr>total_timeout_ms = 100, byte_timeout_ms = 10\<rparr>"

subsection \<open>The blocking driver\<close>

type_synonym ('w, 'a) io = "'w \<Rightarrow> ('w \<times> 'a spi_result) option"

text \<open>The question mark operator: run, and go on with the value if there is one.\<close>

definition try_then :: "('w, 'a) io \<Rightarrow> ('a \<Rightarrow> ('w, 'b) io) \<Rightarrow> ('w, 'b) io" where
  "try_then f g w =
     (case f w of
        None \<Rightarrow> None
      | Some (w', Inl e) \<Rightarrow> Some (w', Inl e)
      | Some (w', Inr a) \<Rightarrow> g a w')"

partial_function (option) wait_loop ::
  "'w spi_hw \<Rightarrow> (status_flags \<Rightarrow> bool) \<Rightarrow> nat \<Rightarrow> nat \<Rightarrow> ('w, unit) io" where
  "wait_loop hw check timeout_ms start w =
     (if check (status hw w) then Some (tick hw w, Inr ())
      else if elapsed_ms hw (tick hw w) start \<ge> timeout_ms then Some (tick hw (tick hw w), Inl Timeout)
      else wait_loop hw check timeout_ms start (tick hw (tick hw w)))"

definition wait_for_flag :: "'w spi_hw \<Rightarrow> (status_flags \<Rightarrow> bool) \<Rightarrow> nat \<Rightarrow> ('w, unit) io" where
  "wait_for_flag hw check timeout_ms w = wait_loop hw check timeout_ms (now hw w) (tick hw w)"

definition write_byte :: "'w spi_hw \<Rightarrow> u8 \<Rightarrow> ('w, unit) io" where
  "write_byte hw d w = Some (write_data hw w d, Inr ())"

definition read_byte :: "'w spi_hw \<Rightarrow> ('w, u8) io" where
  "read_byte hw w = (case read_data hw w of (w', b) \<Rightarrow> Some (w', Inr b))"

definition transmit_byte :: "'w spi_hw \<Rightarrow> timeout_config \<Rightarrow> u8 \<Rightarrow> ('w, unit) io" where
  "transmit_byte hw cfg d =
     try_then (wait_for_flag hw txe (byte_timeout_ms cfg)) (\<lambda>_.
     try_then (write_byte hw d) (\<lambda>_.
     wait_for_flag hw (\<lambda>s. \<not> bsy s) (byte_timeout_ms cfg)))"

definition receive_byte :: "'w spi_hw \<Rightarrow> timeout_config \<Rightarrow> ('w, u8) io" where
  "receive_byte hw cfg =
     try_then (wait_for_flag hw txe (byte_timeout_ms cfg)) (\<lambda>_.
     try_then (write_byte hw 0xFF) (\<lambda>_.
     try_then (wait_for_flag hw rxne (byte_timeout_ms cfg)) (\<lambda>_.
     read_byte hw)))"

text \<open>The check of the overall timeout at the head of both transfer loops.\<close>

definition check_total :: "'w spi_hw \<Rightarrow> timeout_config \<Rightarrow> nat \<Rightarrow> ('w, unit) io" where
  "check_total hw cfg start w =
     Some (tick hw w, if elapsed_ms hw w start \<ge> total_timeout_ms cfg then Inl Timeout else Inr ())"

fun transmit_loop :: "'w spi_hw \<Rightarrow> timeout_config \<Rightarrow> nat \<Rightarrow> bytes \<Rightarrow> ('w, unit) io" where
  "transmit_loop hw cfg start [] w = Some (w, Inr ())"
| "transmit_loop hw cfg start (b # bs) w =
     try_then (check_total hw cfg start) (\<lambda>_.
     try_then (transmit_byte hw cfg b) (\<lambda>_.
     transmit_loop hw cfg start bs)) w"

definition transmit :: "'w spi_hw \<Rightarrow> timeout_config \<Rightarrow> bytes \<Rightarrow> ('w, unit) io" where
  "transmit hw cfg d w =
     (if d = [] then Some (w, Inl InvalidParameter)
      else transmit_loop hw cfg (now hw w) d (tick hw w))"

definition exchange_byte :: "'w spi_hw \<Rightarrow> timeout_config \<Rightarrow> nat \<Rightarrow> u8 \<Rightarrow> ('w, u8) io" where
  "exchange_byte hw cfg start b =
     try_then (check_total hw cfg start) (\<lambda>_.
     try_then (wait_for_flag hw txe (byte_timeout_ms cfg)) (\<lambda>_.
     try_then (write_byte hw b) (\<lambda>_.
     try_then (wait_for_flag hw rxne (byte_timeout_ms cfg)) (\<lambda>_.
     read_byte hw))))"

text \<open>
  The receive slice keeps the bytes stored before an error: the loop returns how far it got.
\<close>

fun transfer_loop :: "'w spi_hw \<Rightarrow> timeout_config \<Rightarrow> nat \<Rightarrow> bytes \<Rightarrow> bytes \<Rightarrow> 'w \<Rightarrow> ('w \<times> bytes \<times> unit spi_result) option" where
  "transfer_loop hw cfg start (tx_byte # tx) (rx_byte # rx) w =
     (case exchange_byte hw cfg start tx_byte w of
        None \<Rightarrow> None
      | Some (w', Inl e) \<Rightarrow> Some (w', rx_byte # rx, Inl e)
      | Some (w', Inr b) \<Rightarrow>
          (case transfer_loop hw cfg start tx rx w' of
             None \<Rightarrow> None
           | Some (w'', rx', r) \<Rightarrow> Some (w'', b # rx', r)))"
| "transfer_loop hw cfg start tx rx w = Some (w, rx, Inr ())"

definition transfer :: "'w spi_hw \<Rightarrow> timeout_config \<Rightarrow> bytes \<Rightarrow> bytes \<Rightarrow> 'w \<Rightarrow> ('w \<times> bytes \<times> unit spi_result) option" where
  "transfer hw cfg tx_data rx_data w =
     (if length tx_data \<noteq> length rx_data \<or> tx_data = [] then Some (w, rx_data, Inl InvalidParameter)
      else transfer_loop hw cfg (now hw w) tx_data rx_data (tick hw w))"

partial_function (option) delay_loop :: "'w spi_hw \<Rightarrow> nat \<Rightarrow> nat \<Rightarrow> 'w \<Rightarrow> 'w option" where
  "delay_loop hw delay_ms delay_start w =
     (if elapsed_ms hw w delay_start < delay_ms then delay_loop hw delay_ms delay_start (tick hw w)
      else Some (tick hw w))"

text \<open>The retry loop; its counter is the number of retries left.\<close>

fun retry_loop :: "'w spi_hw \<Rightarrow> timeout_config \<Rightarrow> bytes \<Rightarrow> nat \<Rightarrow> nat \<Rightarrow> bytes \<Rightarrow> 'w \<Rightarrow> ('w \<times> bytes \<times> unit spi_result) option" where
  "retry_loop hw cfg tx delay_ms 0 rx w = transfer hw cfg tx rx w"
| "retry_loop hw cfg tx delay_ms (Suc left) rx w =
     (case transfer hw cfg tx rx w of
        None \<Rightarrow> None
      | Some (w1, rx1, Inr _) \<Rightarrow> Some (w1, rx1, Inr ())
      | Some (w1, rx1, Inl e) \<Rightarrow>
          (case delay_loop hw delay_ms (now hw w1) (tick hw w1) of
             None \<Rightarrow> None
           | Some w2 \<Rightarrow> retry_loop hw cfg tx delay_ms left rx1 w2))"

definition transfer_with_retry :: "'w spi_hw \<Rightarrow> timeout_config \<Rightarrow> bytes \<Rightarrow> bytes \<Rightarrow> u8 \<Rightarrow> nat \<Rightarrow> 'w \<Rightarrow> ('w \<times> bytes \<times> unit spi_result) option" where
  "transfer_with_retry hw cfg tx rx max_retries retry_delay_ms w =
     retry_loop hw cfg tx retry_delay_ms (unat max_retries) rx w"

subsection \<open>The non-blocking driver\<close>

datatype transfer_state = Idle | WaitingTxEmpty | Transmitting | WaitingRxData | Complete | TimedOut

record non_blocking_spi =
  state :: transfer_state
  start_time :: nat
  timeout_ms :: nat
  current_index :: nat

definition non_blocking_new :: "nat \<Rightarrow> non_blocking_spi" where
  "non_blocking_new timeout = \<lparr>state = Idle, start_time = 0, timeout_ms = timeout, current_index = 0\<rparr>"

definition start_transfer :: "'w spi_hw \<Rightarrow> non_blocking_spi \<Rightarrow> 'w \<Rightarrow> 'w \<times> non_blocking_spi \<times> unit spi_result" where
  "start_transfer hw nb w =
     (if state nb \<noteq> Idle then (w, nb, Inl Busy)
      else (tick hw w, nb\<lparr>state := WaitingTxEmpty, start_time := now hw w, current_index := 0\<rparr>, Inr ()))"

definition poll :: "'w spi_hw \<Rightarrow> non_blocking_spi \<Rightarrow> bytes \<Rightarrow> bytes \<Rightarrow> 'w \<Rightarrow>
    'w \<times> non_blocking_spi \<times> bytes \<times> bool spi_result" where
  "poll hw nb tx_data rx_data w0 =
     (let w = tick hw w0 in
      if elapsed_ms hw w0 (start_time nb) \<ge> timeout_ms nb
      then (w, nb\<lparr>state := TimedOut\<rparr>, rx_data, Inl Timeout)
      else case state nb of
        Idle \<Rightarrow> (w, nb, rx_data, Inr True)
      | WaitingTxEmpty \<Rightarrow>
          if txe (status hw w) \<and> current_index nb < length tx_data
          then (write_data hw (tick hw w) (tx_data ! current_index nb), nb\<lparr>state := WaitingRxData\<rparr>, rx_data, Inr False)
          else (tick hw w, nb, rx_data, Inr False)
      | WaitingRxData \<Rightarrow>
          if rxne (status hw w) \<and> current_index nb < length rx_data then
            (let (w', b) = read_data hw (tick hw w);
                 rx' = rx_data[current_index nb := b];
                 i = current_index nb + 1 in
             if i \<ge> length tx_data
             then (w', nb\<lparr>current_index := i, state := Complete\<rparr>, rx', Inr True)
             else (w', nb\<lparr>current_index := i, state := WaitingTxEmpty\<rparr>, rx', Inr False))
          else (tick hw w, nb, rx_data, Inr False)
      | Complete \<Rightarrow> (w, nb, rx_data, Inr True)
      | TimedOut \<Rightarrow> (w, nb, rx_data, Inr True)
      | Transmitting \<Rightarrow> (w, nb, rx_data, Inr False))"

definition is_complete :: "non_blocking_spi \<Rightarrow> bool" where
  "is_complete nb \<longleftrightarrow> state nb = Complete"

definition nb_reset :: "non_blocking_spi \<Rightarrow> non_blocking_spi" where
  "nb_reset nb = nb\<lparr>state := Idle, current_index := 0\<rparr>"

subsection \<open>The flash driver\<close>

definition FLASH_CMD_READ :: u8 where "FLASH_CMD_READ = 0x03"
definition FLASH_CMD_WRITE :: u8 where "FLASH_CMD_WRITE = 0x02"

definition flash_cmd :: "u8 \<Rightarrow> u32 \<Rightarrow> bytes" where
  "flash_cmd cmd address =
     [cmd, ucast (drop_bit 16 address AND 0xFF), ucast (drop_bit 8 address AND 0xFF), ucast (address AND 0xFF)]"

text \<open>Filling the buffer byte by byte; the count is the number of bytes still to read.\<close>

fun flash_read_loop :: "'w spi_hw \<Rightarrow> timeout_config \<Rightarrow> bytes \<Rightarrow> 'w \<Rightarrow> ('w \<times> bytes \<times> unit spi_result) option" where
  "flash_read_loop hw cfg [] w = Some (w, [], Inr ())"
| "flash_read_loop hw cfg (x # buffer) w =
     (case receive_byte hw cfg w of
        None \<Rightarrow> None
      | Some (w', Inl e) \<Rightarrow> Some (w', x # buffer, Inl e)
      | Some (w', Inr b) \<Rightarrow>
          (case flash_read_loop hw cfg buffer w' of
             None \<Rightarrow> None
           | Some (w'', buffer', r) \<Rightarrow> Some (w'', b # buffer', r)))"

definition flash_read :: "'w spi_hw \<Rightarrow> timeout_config \<Rightarrow> u32 \<Rightarrow> bytes \<Rightarrow> 'w \<Rightarrow> ('w \<times> bytes \<times> unit spi_result) option" where
  "flash_read hw cfg address buffer w =
     (case transmit hw cfg (flash_cmd FLASH_CMD_READ address) w of
        None \<Rightarrow> None
      | Some (w', Inl e) \<Rightarrow> Some (w', buffer, Inl e)
      | Some (w', Inr _) \<Rightarrow> flash_read_loop hw cfg buffer w')"

definition write_page :: "'w spi_hw \<Rightarrow> timeout_config \<Rightarrow> u32 \<Rightarrow> bytes \<Rightarrow> ('w, unit) io" where
  "write_page hw cfg address d w =
     (if length d > 256 then Some (w, Inl InvalidParameter)
      else
        let cmd = overwrite_prefix (replicate 260 0) (flash_cmd FLASH_CMD_WRITE address @ d)
        in transmit hw cfg (take (4 + length d) cmd) w)"

subsection \<open>Every wait ends when the clock runs\<close>

text \<open>The clock does not go back and reaches every time.\<close>

definition clock_runs :: "'w spi_hw \<Rightarrow> bool" where
  "clock_runs hw \<longleftrightarrow> (\<forall>w. now hw w \<le> now hw (tick hw w)) \<and> (\<forall>w t. \<exists>k. t \<le> now hw ((tick hw ^^ k) w))"

definition returns :: "('w \<Rightarrow> 'b option) \<Rightarrow> bool" where
  "returns f \<longleftrightarrow> (\<forall>w. f w \<noteq> None)"

lemma returns_try_then [intro]: "returns f \<Longrightarrow> (\<And>a. returns (g a)) \<Longrightarrow> returns (try_then f g)"
  by (auto simp: returns_def try_then_def split: option.splits sum.splits)

lemma wait_loop_by_deadline:
  assumes "clock_runs hw" "start + timeout \<le> now hw ((tick hw ^^ k) w)"
  shows "wait_loop hw check timeout start w \<noteq> None"
  using assms(2)
proof (induction k arbitrary: w rule: less_induct)
  case (less k)
  have mono: "now hw w \<le> now hw (tick hw w)" using assms(1) by (simp add: clock_runs_def)
  show ?case
  proof (cases "start + timeout \<le> now hw (tick hw w)")
    case True
    then show ?thesis by (subst wait_loop.simps) (auto simp: elapsed_ms_def)
  next
    case False
    then obtain j where k: "k = Suc (Suc j)"
      using less.prems mono by (cases k; cases "k - 1") auto
    then have "start + timeout \<le> now hw ((tick hw ^^ j) (tick hw (tick hw w)))"
      using less.prems by (simp add: funpow_swap1)
    then have "wait_loop hw check timeout start (tick hw (tick hw w)) \<noteq> None"
      using less.IH [of j] k by simp
    then show ?thesis by (subst wait_loop.simps) simp
  qed
qed

lemma delay_loop_by_deadline:
  assumes "clock_runs hw" "start + delay \<le> now hw ((tick hw ^^ k) w)"
  shows "delay_loop hw delay start w \<noteq> None"
  using assms(2)
proof (induction k arbitrary: w)
  case 0
  then show ?case by (subst delay_loop.simps) (auto simp: elapsed_ms_def)
next
  case (Suc k)
  then have "delay_loop hw delay start (tick hw w) \<noteq> None" by (simp add: funpow_swap1)
  then show ?case by (subst delay_loop.simps) simp
qed

lemma wait_for_flag_returns: "clock_runs hw \<Longrightarrow> returns (wait_for_flag hw check timeout)"
  unfolding returns_def wait_for_flag_def
  by (metis clock_runs_def wait_loop_by_deadline)

lemma delay_loop_returns: "clock_runs hw \<Longrightarrow> returns (delay_loop hw delay start)"
  unfolding returns_def by (metis clock_runs_def delay_loop_by_deadline)

lemma device_returns [simp]: "returns (write_byte hw d)" "returns (read_byte hw)" "returns (check_total hw cfg start)"
  by (simp_all add: returns_def write_byte_def read_byte_def check_total_def split: prod.splits)

lemma transmit_byte_returns: "clock_runs hw \<Longrightarrow> returns (transmit_byte hw cfg d)"
  unfolding transmit_byte_def by (intro returns_try_then device_returns wait_for_flag_returns)

lemma receive_byte_returns: "clock_runs hw \<Longrightarrow> returns (receive_byte hw cfg)"
  unfolding receive_byte_def by (intro returns_try_then device_returns wait_for_flag_returns)

lemma exchange_byte_returns: "clock_runs hw \<Longrightarrow> returns (exchange_byte hw cfg start b)"
  unfolding exchange_byte_def by (intro returns_try_then device_returns wait_for_flag_returns)

lemma transmit_returns:
  assumes "clock_runs hw"
  shows "returns (transmit hw cfg d)"
proof -
  have "returns (transmit_loop hw cfg start d)" for start
  proof (induction d)
    case Nil
    show ?case by (simp add: returns_def)
  next
    case (Cons b d)
    have "returns (try_then (check_total hw cfg start) (\<lambda>_. try_then (transmit_byte hw cfg b)
        (\<lambda>_. transmit_loop hw cfg start d)))"
      by (intro returns_try_then device_returns transmit_byte_returns assms Cons)
    then show ?case by (simp add: returns_def)
  qed
  then show ?thesis by (simp add: returns_def transmit_def)
qed

lemma transfer_returns:
  assumes "clock_runs hw"
  shows "returns (transfer hw cfg tx rx)"
proof -
  have "transfer_loop hw cfg start tx rx w \<noteq> None" for start w
    using exchange_byte_returns [OF assms]
    by (induction hw cfg start tx rx w rule: transfer_loop.induct)
      (auto simp: returns_def split: option.splits sum.splits simp del: not_None_eq)
  then show ?thesis by (simp add: returns_def transfer_def)
qed

lemma retry_loop_returns:
  assumes "clock_runs hw"
  shows "retry_loop hw cfg tx delay left rx w \<noteq> None"
proof (induction left arbitrary: rx w)
  case 0
  then show ?case using transfer_returns [OF assms, of cfg tx rx] by (simp add: returns_def)
next
  case (Suc left)
  then show ?case
    using transfer_returns [OF assms, of cfg tx rx] delay_loop_returns [OF assms]
    by (auto simp: returns_def split: option.splits sum.splits simp del: not_None_eq)
qed

lemma flash_read_loop_returns:
  assumes "clock_runs hw"
  shows "flash_read_loop hw cfg buffer w \<noteq> None"
  using receive_byte_returns [OF assms, of cfg]
  by (induction buffer arbitrary: w)
    (auto simp: returns_def split: option.splits sum.splits simp del: not_None_eq)

lemma wait_loop_stuck:
  assumes "\<forall>w. \<not> check (status hw w)" "\<forall>w. now hw w = c" "0 < timeout" "c \<le> start"
  shows "wait_loop hw check timeout start w = None"
proof -
  have False if r: "wait_loop hw check timeout start w = Some r" for r
  proof -
    have "\<not> (hw = hw \<and> check = check \<and> timeout = timeout \<and> start = start)"
      by (rule wait_loop.raw_induct [where P = "\<lambda>h c t s w y. \<not> (h = hw \<and> c = check \<and> t = timeout \<and> s = start)", OF _ r])
        (use assms in \<open>auto simp: elapsed_ms_def split: if_splits\<close>)
    then show False by simp
  qed
  then show ?thesis by (cases "wait_loop hw check timeout start w") auto
qed

subsection \<open>Properties\<close>

text \<open>
  C11. With a clock that runs, every blocking operation of the SPI and flash drivers returns,
  whatever the peripheral does. The timer is what it depends on: if it stands still and the awaited
  flag never comes up, waiting for the flag does not return.
\<close>
theorem spi_driver_always_returns:
  "(clock_runs hw \<longrightarrow>
     transmit hw cfg d w \<noteq> None \<and> transfer hw cfg tx rx w \<noteq> None \<and>
     transfer_with_retry hw cfg tx rx retries delay w \<noteq> None \<and>
     flash_read hw cfg address buffer w \<noteq> None \<and> write_page hw cfg address d w \<noteq> None) \<and>
   ((\<forall>w. \<not> check (status hw w)) \<and> (\<forall>w. now hw w = c) \<and> 0 < timeout \<longrightarrow>
     wait_for_flag hw check timeout w = None)"
proof (intro conjI impI)
  assume clock: "clock_runs hw"
  show transmit: "transmit hw cfg d w \<noteq> None" for d w
    using transmit_returns [OF clock] by (simp add: returns_def)
  show "transfer hw cfg tx rx w \<noteq> None" using transfer_returns [OF clock] by (simp add: returns_def)
  show "transfer_with_retry hw cfg tx rx retries delay w \<noteq> None"
    unfolding transfer_with_retry_def by (rule retry_loop_returns [OF clock])
  show "flash_read hw cfg address buffer w \<noteq> None"
    using transmit [of "flash_cmd FLASH_CMD_READ address" w] flash_read_loop_returns [OF clock]
    by (auto simp: flash_read_def split: option.splits sum.splits simp del: not_None_eq)
  show "write_page hw cfg address d w \<noteq> None"
    using transmit by (simp add: write_page_def Let_def del: not_None_eq)
next
  assume "(\<forall>w. \<not> check (status hw w)) \<and> (\<forall>w. now hw w = c) \<and> 0 < timeout"
  then show "wait_for_flag hw check timeout w = None"
    by (auto simp: wait_for_flag_def intro: wait_loop_stuck)
qed

text \<open>A peripheral that never gets ready, beside a timer that counts the looks at it.\<close>

definition dead_hw :: "nat spi_hw" where
  "dead_hw = \<lparr>status = \<lambda>_. \<lparr>txe = False, rxne = False, bsy = True\<rparr>, write_data = \<lambda>w _. w,
     read_data = \<lambda>w. (w, 0), now = \<lambda>w. w, tick = Suc\<rparr>"

theorem spi_driver_always_returns_witness:
  "clock_runs dead_hw \<and> transmit dead_hw timeout_config_default [1, 2] 0 \<noteq> None \<and>
   wait_for_flag (dead_hw\<lparr>now := \<lambda>_. 7\<rparr>) txe 10 0 = None"
proof -
  have "(Suc ^^ k) w = w + k" for k w by (induction k) auto
  then have "clock_runs dead_hw"
    by (auto simp: clock_runs_def dead_hw_def) (metis le_add1)
  moreover have "\<forall>w. \<not> txe (status (dead_hw\<lparr>now := \<lambda>_. 7\<rparr>) w)" "\<forall>w. now (dead_hw\<lparr>now := \<lambda>_. 7\<rparr>) w = 7"
    by (simp_all add: dead_hw_def)
  ultimately show ?thesis
    using spi_driver_always_returns [of dead_hw timeout_config_default "[1, 2]" 0]
      spi_driver_always_returns [of "dead_hw\<lparr>now := \<lambda>_. 7\<rparr>" _ _ 0 _ _ _ _ _ _ txe 7 10]
    by simp
qed

text \<open>
  Polling looks at the deadline before the state: a new driver polled at any time from its
  timeout on reports a timeout of a transfer that was never started and refuses to start one
  until it is reset, and a transfer that is complete turns into a timed-out one when it is polled
  after the deadline.
\<close>
theorem poll_deadline_before_state:
  "(timeout \<le> now hw w \<longrightarrow>
     (\<exists>w' nb. poll hw (non_blocking_new timeout) tx rx w = (w', nb, rx, Inl Timeout) \<and>
       (\<forall>w''. start_transfer hw nb w'' = (w'', nb, Inl Busy)) \<and>
       snd (snd (start_transfer hw (nb_reset nb) w')) = Inr ())) \<and>
   (is_complete nb0 \<and> timeout_ms nb0 + start_time nb0 \<le> now hw w \<longrightarrow>
     (\<exists>w' nb. poll hw nb0 tx rx w = (w', nb, rx, Inl Timeout) \<and> \<not> is_complete nb))"
  by (auto simp: poll_def non_blocking_new_def start_transfer_def nb_reset_def is_complete_def
      elapsed_ms_def Let_def)

theorem poll_deadline_before_state_witness:
  "\<exists>w' nb. poll dead_hw (non_blocking_new 10) [1] [0] 25 = (w', nb, [0], Inl Timeout) \<and>
     (\<forall>w''. start_transfer dead_hw nb w'' = (w'', nb, Inl Busy)) \<and>
     snd (snd (start_transfer dead_hw (nb_reset nb) w')) = Inr ()"
proof -
  have "10 \<le> now dead_hw 25" by (simp add: dead_hw_def)
  with poll_deadline_before_state [of 10 dead_hw 25 "[1]" "[0]"] show ?thesis by blast
qed

end
