(* ===== verification/Spi_Batch.thy ===== *)
theory Spi_Batch
  imports Uproto_Prelude "HOL-Library.Sublist"
begin

text \<open>
  \<^verbatim>\<open>SPI/src/36/spi_transfer_batching.rs\<close>: batches of SPI transfers, the auto-flushing manager,
  register batches, chunked transfers and the sensor collector, over any device. A device is a
  record of the two methods of the trait over a device state; every handle also records, as a
  ghost, what has been done to the bus. Operations return the new state with the result, since a
  mutable borrow keeps its changes when a method returns an error.
\<close>

datatype spi_error = BufferOverflow | TransferFailed | InvalidParameter

type_synonym 'a spi_result = "spi_error + 'a"

text \<open>\<open>transfer d tx rx\<close>: the device after it, the receive slice after it, and the result.\<close>

record 'd spi_device =
  transfer :: "'d \<Rightarrow> bytes \<Rightarrow> bytes \<Rightarrow> 'd \<times> bytes \<times> unit spi_result"
  chip_select :: "'d \<Rightarrow> bool \<Rightarrow> 'd"

datatype bus_action = Select bool | Exchange bytes

record 'd handle =
  dev_state :: 'd
  bus :: "bus_action list"

definition dev_select :: "'d spi_device \<Rightarrow> 'd handle \<Rightarrow> bool \<Rightarrow> 'd handle" where
  "dev_select dev h active =
     h\<lparr>dev_state := chip_select dev (dev_state h) active, bus := bus h @ [Select active]\<rparr>"

definition dev_transfer :: "'d spi_device \<Rightarrow> 'd handle \<Rightarrow> bytes \<Rightarrow> bytes \<Rightarrow> 'd handle \<times> bytes \<times> unit spi_result" where
  "dev_transfer dev h tx rx =
     (case transfer dev (dev_state h) tx rx of
        (d, rx', r) \<Rightarrow> (h\<lparr>dev_state := d, bus := bus h @ [Exchange tx]\<rparr>, rx', r))"

subsection \<open>The batch\<close>

record 'd spi_batch =
  device :: "'d handle"
  tx_buffer :: bytes
  rx_buffer :: bytes
  max_size :: nat

definition batch_new :: "'d handle \<Rightarrow> nat \<Rightarrow> 'd spi_batch" where
  "batch_new d n = \<lparr>device = d, tx_buffer = [], rx_buffer = [], max_size = n\<rparr>"

definition batch_add :: "'d spi_batch \<Rightarrow> bytes \<Rightarrow> 'd spi_batch \<times> unit spi_result" where
  "batch_add b d =
     (if length (tx_buffer b) + length d > max_size b then (b, Inl BufferOverflow)
      else (b\<lparr>tx_buffer := tx_buffer b @ d\<rparr>, Inr ()))"

definition batch_add_byte :: "'d spi_batch \<Rightarrow> u8 \<Rightarrow> 'd spi_batch \<times> unit spi_result" where
  "batch_add_byte b x =
     (if length (tx_buffer b) \<ge> max_size b then (b, Inl BufferOverflow)
      else (b\<lparr>tx_buffer := tx_buffer b @ [x]\<rparr>, Inr ()))"

definition resize :: "bytes \<Rightarrow> nat \<Rightarrow> bytes" where
  "resize xs n = take n xs @ replicate (n - length xs) 0"

definition batch_execute :: "'d spi_device \<Rightarrow> 'd spi_batch \<Rightarrow> 'd spi_batch \<times> unit spi_result" where
  "batch_execute dev b =
     (if tx_buffer b = [] then (b, Inr ())
      else
        let rx = resize (rx_buffer b) (length (tx_buffer b));
            h1 = dev_select dev (device b) True;
            (h2, rx', result) = dev_transfer dev h1 (tx_buffer b) rx;
            h3 = dev_select dev h2 False
        in (b\<lparr>device := h3, rx_buffer := rx', tx_buffer := []\<rparr>, result))"

definition rx_data :: "'d spi_batch \<Rightarrow> bytes" where
  "rx_data b = rx_buffer b"

definition batch_clear :: "'d spi_batch \<Rightarrow> 'd spi_batch" where
  "batch_clear b = b\<lparr>tx_buffer := [], rx_buffer := []\<rparr>"

definition batch_len :: "'d spi_batch \<Rightarrow> nat" where
  "batch_len b = length (tx_buffer b)"

definition batch_is_empty :: "'d spi_batch \<Rightarrow> bool" where
  "batch_is_empty b \<longleftrightarrow> tx_buffer b = []"

subsection \<open>Auto-executing and auto-flushing batches\<close>

definition auto_batch_new :: "'d handle \<Rightarrow> nat \<Rightarrow> 'd spi_batch" where
  "auto_batch_new d n = batch_new d n"

definition auto_batch_add :: "'d spi_batch \<Rightarrow> bytes \<Rightarrow> 'd spi_batch \<times> unit spi_result" where
  "auto_batch_add b d = batch_add b d"

definition auto_batch_drop :: "'d spi_device \<Rightarrow> 'd spi_batch \<Rightarrow> 'd handle" where
  "auto_batch_drop dev b = device (fst (batch_execute dev b))"

record 'd batch_manager =
  batch :: "'d spi_batch"
  flush_threshold :: nat

definition manager_new :: "'d handle \<Rightarrow> nat \<Rightarrow> nat \<Rightarrow> 'd batch_manager" where
  "manager_new d n threshold = \<lparr>batch = batch_new d n, flush_threshold = threshold\<rparr>"

definition manager_flush :: "'d spi_device \<Rightarrow> 'd batch_manager \<Rightarrow> 'd batch_manager \<times> unit spi_result" where
  "manager_flush dev m = (let (b, r) = batch_execute dev (batch m) in (m\<lparr>batch := b\<rparr>, r))"

definition manager_add :: "'d spi_device \<Rightarrow> 'd batch_manager \<Rightarrow> bytes \<Rightarrow> 'd batch_manager \<times> unit spi_result" where
  "manager_add dev m d =
     (let (m1, r1) = (if batch_len (batch m) + length d \<ge> flush_threshold m then manager_flush dev m
                      else (m, Inr ())) in
      case r1 of
        Inl e \<Rightarrow> (m1, Inl e)
      | Inr _ \<Rightarrow> (let (b, r2) = batch_add (batch m1) d in (m1\<lparr>batch := b\<rparr>, r2)))"

definition manager_drop :: "'d spi_device \<Rightarrow> 'd batch_manager \<Rightarrow> 'd handle" where
  "manager_drop dev m = device (batch (fst (manager_flush dev m)))"

subsection \<open>Register batches\<close>

record 'd register_batch =
  rbatch :: "'d spi_batch"
  read_addresses :: bytes

definition register_batch_new :: "'d handle \<Rightarrow> 'd register_batch" where
  "register_batch_new d = \<lparr>rbatch = batch_new d 256, read_addresses = []\<rparr>"

definition queue_read :: "'d register_batch \<Rightarrow> u8 \<Rightarrow> 'd register_batch \<times> unit spi_result" where
  "queue_read r reg_addr =
     (let (b1, r1) = batch_add_byte (rbatch r) (reg_addr OR 0x80) in
      case r1 of Inl e \<Rightarrow> (r\<lparr>rbatch := b1\<rparr>, Inl e)
      | Inr _ \<Rightarrow>
        (let (b2, r2) = batch_add_byte b1 0 in
         case r2 of Inl e \<Rightarrow> (r\<lparr>rbatch := b2\<rparr>, Inl e)
         | Inr _ \<Rightarrow> (r\<lparr>rbatch := b2, read_addresses := read_addresses r @ [reg_addr]\<rparr>, Inr ())))"

definition queue_write :: "'d register_batch \<Rightarrow> u8 \<Rightarrow> u8 \<Rightarrow> 'd register_batch \<times> unit spi_result" where
  "queue_write r reg_addr v =
     (let (b1, r1) = batch_add_byte (rbatch r) (reg_addr AND 0x7F) in
      case r1 of Inl e \<Rightarrow> (r\<lparr>rbatch := b1\<rparr>, Inl e)
      | Inr _ \<Rightarrow>
        (let (b2, r2) = batch_add_byte b1 v in (r\<lparr>rbatch := b2\<rparr>, r2)))"

text \<open>The result loop: \<open>i\<close> counts the reads.\<close>

fun collect_results :: "bytes \<Rightarrow> nat \<Rightarrow> bytes \<Rightarrow> (u8 \<times> u8) list" where
  "collect_results rx i [] = []"
| "collect_results rx i (addr # addrs) =
     (addr, if i * 2 + 1 < length rx then rx ! (i * 2 + 1) else 0) # collect_results rx (i + 1) addrs"

definition register_execute :: "'d spi_device \<Rightarrow> 'd register_batch \<Rightarrow> 'd register_batch \<times> (u8 \<times> u8) list spi_result" where
  "register_execute dev r =
     (let (b, res) = batch_execute dev (rbatch r) in
      case res of
        Inl e \<Rightarrow> (r\<lparr>rbatch := b\<rparr>, Inl e)
      | Inr _ \<Rightarrow>
          (r\<lparr>rbatch := b, read_addresses := []\<rparr>, Inr (collect_results (rx_data b) 0 (read_addresses r))))"

subsection \<open>Chunked transfers\<close>

definition send_chunk :: "'d spi_device \<Rightarrow> 'd handle \<Rightarrow> bytes \<Rightarrow> 'd handle \<times> bytes spi_result" where
  "send_chunk dev h chunk =
     (let (h2, rx, r) = dev_transfer dev (dev_select dev h True) chunk (replicate (length chunk) 0) in
      case r of Inl e \<Rightarrow> (h2, Inl e) | Inr _ \<Rightarrow> (dev_select dev h2 False, Inr rx))"

fun chunked_loop :: "'d spi_device \<Rightarrow> nat \<Rightarrow> 'd handle \<Rightarrow> bytes \<Rightarrow> bytes \<Rightarrow> bytes \<Rightarrow> 'd handle \<times> bytes spi_result" where
  "chunked_loop dev chunk_size h all_rx chunk (byte # data_iter) =
     (let chunk' = chunk @ [byte] in
      if length chunk' \<ge> chunk_size then
        case send_chunk dev h chunk' of
          (h', Inl e) \<Rightarrow> (h', Inl e)
        | (h', Inr rx) \<Rightarrow> chunked_loop dev chunk_size h' (all_rx @ rx) [] data_iter
      else chunked_loop dev chunk_size h all_rx chunk' data_iter)"
| "chunked_loop dev chunk_size h all_rx chunk [] =
     (if chunk \<noteq> [] then
        case send_chunk dev h chunk of
          (h', Inl e) \<Rightarrow> (h', Inl e)
        | (h', Inr rx) \<Rightarrow> (h', Inr (all_rx @ rx))
      else (h, Inr all_rx))"

definition chunked_execute :: "'d spi_device \<Rightarrow> 'd handle \<Rightarrow> bytes \<Rightarrow> nat \<Rightarrow> 'd handle \<times> bytes spi_result" where
  "chunked_execute dev h data_iter chunk_size = chunked_loop dev chunk_size h [] [] data_iter"

subsection \<open>The sensor collector\<close>

text \<open>
  Samples are their bytes: \<open>size_of\<close> is the size of the sample type. \<^verbatim>\<open>chunks_exact(0)\<close>
  panics, as does copying a chunk into the 16-byte buffer when it is longer.
\<close>

record 'd sensor_batcher =
  manager :: "'d batch_manager"
  samples :: "bytes list"

definition sensor_batcher_new :: "'d handle \<Rightarrow> nat \<Rightarrow> 'd sensor_batcher" where
  "sensor_batcher_new d batch_size = \<lparr>manager = manager_new d batch_size (batch_size div 2), samples = []\<rparr>"

definition queue_sample :: "'d spi_device \<Rightarrow> 'd sensor_batcher \<Rightarrow> u8 \<Rightarrow> 'd sensor_batcher \<times> unit spi_result" where
  "queue_sample dev s sensor_id =
     (let (m, r) = manager_add dev (manager s) [0xA0, sensor_id] in (s\<lparr>manager := m\<rparr>, r))"

function chunks_exact :: "nat \<Rightarrow> bytes \<Rightarrow> bytes list" where
  "chunks_exact n xs =
     (if n = 0 \<or> length xs < n then [] else take n xs # chunks_exact n (drop n xs))"
  by pat_completeness auto
termination by (relation "measure (\<lambda>(n, xs). length xs)") auto

declare chunks_exact.simps [simp del]

definition sensor_finalize ::
  "'d spi_device \<Rightarrow> nat \<Rightarrow> 'd sensor_batcher \<Rightarrow> ('d sensor_batcher \<times> bytes list spi_result) run" where
  "sensor_finalize dev size_of s =
     (let (m, r) = manager_flush dev (manager s) in
      case r of
        Inl e \<Rightarrow> Some (s\<lparr>manager := m\<rparr>, Inl e)
      | Inr _ \<Rightarrow>
          (let chunks = chunks_exact size_of (rx_data (batch m)) in
           if size_of = 0 \<or> (size_of > 16 \<and> chunks \<noteq> []) then None
           else Some (s\<lparr>manager := m, samples := samples s @ chunks\<rparr>, Inr (samples s @ chunks))))"

text \<open>The mock device of the source's tests: it answers each byte plus one.\<close>

definition mock_spi :: "bool spi_device" where
  "mock_spi = \<lparr>transfer = \<lambda>cs tx rx. (cs, take (length rx) (overwrite_prefix rx (map (\<lambda>b. b + 1) tx)), Inr ()),
               chip_select = \<lambda>cs active. active\<rparr>"

subsection \<open>Framed transactions on the bus\<close>

definition framed :: "bytes list \<Rightarrow> bus_action list" where
  "framed xs = concat (map (\<lambda>x. [Select True, Exchange x, Select False]) xs)"

lemma framed_simps [simp]:
  "framed [] = []" "framed (xs @ ys) = framed xs @ framed ys"
  "framed [x] = [Select True, Exchange x, Select False]"
  by (simp_all add: framed_def)

definition always_ok :: "'d spi_device \<Rightarrow> bool" where
  "always_ok dev \<longleftrightarrow> (\<forall>d tx rx. snd (snd (transfer dev d tx rx)) = Inr ())"

text \<open>A receive slice keeps its length: the trait passes it as a borrowed slice.\<close>

definition rx_kept :: "'d spi_device \<Rightarrow> bool" where
  "rx_kept dev \<longleftrightarrow> (\<forall>d tx rx. length (fst (snd (transfer dev d tx rx))) = length rx)"

lemma batch_execute_frames:
  assumes "always_ok dev"
  shows "\<exists>b'. batch_execute dev b = (b', Inr ()) \<and> tx_buffer b' = [] \<and> max_size b' = max_size b \<and>
    bus (device b') = bus (device b) @ (if tx_buffer b = [] then [] else framed [tx_buffer b]) \<and>
    (rx_kept dev \<and> tx_buffer b \<noteq> [] \<longrightarrow> length (rx_buffer b') = length (tx_buffer b))"
proof (cases "tx_buffer b = []")
  case False
  let ?rx = "resize (rx_buffer b) (length (tx_buffer b))"
  obtain d rx where t: "transfer dev (chip_select dev (dev_state (device b)) True) (tx_buffer b) ?rx = (d, rx, Inr ())"
    using assms unfolding always_ok_def by (metis prod.collapse)
  have "length ?rx = length (tx_buffer b)" by (simp add: resize_def)
  then have "rx_kept dev \<Longrightarrow> length rx = length (tx_buffer b)"
    using t unfolding rx_kept_def by (metis fst_conv snd_conv)
  with t False show ?thesis
    by (simp add: batch_execute_def dev_select_def dev_transfer_def Let_def)
qed (simp add: batch_execute_def)

subsection \<open>The manager as a stream\<close>

fun manager_add_all :: "'d spi_device \<Rightarrow> 'd batch_manager \<Rightarrow> bytes list \<Rightarrow> 'd batch_manager \<times> unit spi_result" where
  "manager_add_all dev m [] = (m, Inr ())"
| "manager_add_all dev m (d # ds) =
     (case manager_add dev m d of
        (m', Inl e) \<Rightarrow> (m', Inl e)
      | (m', Inr _) \<Rightarrow> manager_add_all dev m' ds)"

text \<open>What has been added is what the bus has seen in framed pieces and what is still buffered.\<close>

definition manager_holds :: "bus_action list \<Rightarrow> bytes \<Rightarrow> nat \<Rightarrow> nat \<Rightarrow> 'd batch_manager \<Rightarrow> bool" where
  "manager_holds b0 added n threshold m \<longleftrightarrow>
     max_size (batch m) = n \<and> flush_threshold m = threshold \<and> length (tx_buffer (batch m)) \<le> n \<and>
     (\<exists>xs. bus (device (batch m)) = b0 @ framed xs \<and> concat xs @ tx_buffer (batch m) = added \<and>
        (\<forall>x \<in> set xs. x \<noteq> [] \<and> length x \<le> n))"

lemma manager_flush_holds:
  assumes "always_ok dev" "manager_holds b0 added n threshold m"
  shows "\<exists>m'. manager_flush dev m = (m', Inr ()) \<and> manager_holds b0 added n threshold m' \<and>
    tx_buffer (batch m') = []"
proof -
  obtain b' where b': "batch_execute dev (batch m) = (b', Inr ())" "tx_buffer b' = []"
    "max_size b' = max_size (batch m)"
    "bus (device b') = bus (device (batch m)) @
      (if tx_buffer (batch m) = [] then [] else framed [tx_buffer (batch m)])"
    using batch_execute_frames [OF assms(1), of "batch m"] by blast
  obtain xs where xs: "bus (device (batch m)) = b0 @ framed xs" "concat xs @ tx_buffer (batch m) = added"
    "\<forall>x \<in> set xs. x \<noteq> [] \<and> length x \<le> n" and len: "length (tx_buffer (batch m)) \<le> n"
    using assms(2) by (auto simp: manager_holds_def)
  define ys where "ys = xs @ (if tx_buffer (batch m) = [] then [] else [tx_buffer (batch m)])"
  have "bus (device b') = b0 @ framed ys" "concat ys = added" "\<forall>x \<in> set ys. x \<noteq> [] \<and> length x \<le> n"
    using b'(4) xs len by (auto simp: ys_def)
  then show ?thesis
    using b' assms(2) by (auto simp: manager_flush_def manager_holds_def)
qed

lemma manager_add_holds:
  assumes "always_ok dev" "manager_holds b0 added n threshold m" "length d \<le> n" "threshold \<le> n + 1"
  shows "\<exists>m'. manager_add dev m d = (m', Inr ()) \<and> manager_holds b0 (added @ d) n threshold m'"
proof -
  define m1 where "m1 = (if batch_len (batch m) + length d \<ge> flush_threshold m
    then fst (manager_flush dev m) else m)"
  have m1: "(if batch_len (batch m) + length d \<ge> flush_threshold m then manager_flush dev m else (m, Inr ())) =
      (m1, Inr ())" and h: "manager_holds b0 added n threshold m1"
    and fits: "length (tx_buffer (batch m1)) + length d \<le> n"
    using manager_flush_holds [OF assms(1,2)] assms(2-4)
    by (auto simp: m1_def batch_len_def manager_holds_def)
  show ?thesis
    unfolding manager_add_def m1
    using h fits by (auto simp: batch_add_def manager_holds_def)
qed

lemma manager_add_all_holds:
  assumes "always_ok dev" "manager_holds b0 added n threshold m" "\<forall>d \<in> set ds. length d \<le> n" "threshold \<le> n + 1"
  shows "\<exists>m'. manager_add_all dev m ds = (m', Inr ()) \<and> manager_holds b0 (added @ concat ds) n threshold m'"
  using assms(2,3)
proof (induction ds arbitrary: m added)
  case (Cons d ds)
  obtain m1 where "manager_add dev m d = (m1, Inr ())" "manager_holds b0 (added @ d) n threshold m1"
    using manager_add_holds [OF assms(1) Cons.prems(1) _ assms(4), of d] Cons.prems(2) by auto
  with Cons.IH [of "added @ d" m1] Cons.prems(2) show ?case by simp
qed simp

subsection \<open>Chunks\<close>

text \<open>
  How a chunked transfer may leave the bus: all data in framed pieces on success; on failure some
  framed pieces, then a piece after which the chip is still selected.
\<close>

definition chunked_outcome :: "bus_action list \<Rightarrow> nat \<Rightarrow> bytes \<Rightarrow> 'd handle \<times> bytes spi_result \<Rightarrow> bool" where
  "chunked_outcome b0 n ds res \<longleftrightarrow>
     (case snd res of
        Inr rx \<Rightarrow> \<exists>xs. bus (fst res) = b0 @ framed xs \<and> concat xs = ds \<and>
          (\<forall>x \<in> set xs. x \<noteq> [] \<and> length x \<le> max 1 n)
      | Inl e \<Rightarrow> \<exists>xs x. bus (fst res) = b0 @ framed xs @ [Select True, Exchange x] \<and>
          prefix (concat xs @ x) ds)"

lemma chunked_outcome_prepend:
  assumes "chunked_outcome (b0 @ framed [y]) n ds res" "y \<noteq> []" "length y \<le> max 1 n"
  shows "chunked_outcome b0 n (y @ ds) res"
proof (cases "snd res")
  case (Inl e)
  then obtain xs x where "bus (fst res) = b0 @ framed (y # xs) @ [Select True, Exchange x]"
    "prefix (concat (y # xs) @ x) (y @ ds)"
    using assms(1) by (auto simp: chunked_outcome_def framed_def)
  with Inl show ?thesis by (auto simp: chunked_outcome_def)
next
  case (Inr rx)
  then obtain xs where "bus (fst res) = b0 @ framed (y # xs)" "concat (y # xs) = y @ ds"
    "\<forall>x \<in> set (y # xs). x \<noteq> [] \<and> length x \<le> max 1 n"
    using assms by (auto simp: chunked_outcome_def framed_def)
  with Inr show ?thesis
    by (simp add: chunked_outcome_def) (rule exI [of _ "y # xs"], simp)
qed

lemma send_chunk_cases:
  obtains (ok) h' rx where "send_chunk dev h chunk = (h', Inr rx)" "bus h' = bus h @ framed [chunk]"
    | (failed) h' e where "send_chunk dev h chunk = (h', Inl e)" "bus h' = bus h @ [Select True, Exchange chunk]"
  by (cases "transfer dev (chip_select dev (dev_state h) True) chunk (replicate (length chunk) 0)";
      cases "snd (snd (transfer dev (chip_select dev (dev_state h) True) chunk (replicate (length chunk) 0)))")
    (auto simp: send_chunk_def dev_transfer_def dev_select_def Let_def)

lemma chunked_outcome_done:
  "bus h' = b0 @ [Select True, Exchange x] \<Longrightarrow> prefix x ds \<Longrightarrow> chunked_outcome b0 n ds (h', Inl e)"
  "chunked_outcome (bus h) n [] (h, Inr rx)"
  by (auto simp: chunked_outcome_def intro: exI [of _ "[]"])

lemma chunked_loop_bus:
  "length chunk < max 1 n \<Longrightarrow> chunked_outcome (bus h) n (chunk @ ds) (chunked_loop dev n h all_rx chunk ds)"
proof (induction ds arbitrary: h all_rx chunk)
  case Nil
  show ?case
  proof (cases rule: send_chunk_cases [of dev h chunk])
    case (ok h' rx)
    have "chunked_outcome (bus h @ framed [chunk]) n [] (h', Inr (all_rx @ rx))"
      using chunked_outcome_done(2) [of h'] ok(2) by simp
    from chunked_outcome_prepend [OF this] Nil ok show ?thesis
      by (auto intro: chunked_outcome_done)
  next
    case (failed h' e)
    then show ?thesis by (auto intro: chunked_outcome_done)
  qed
next
  case (Cons d ds)
  show ?case
  proof (cases "length (chunk @ [d]) \<ge> n")
    case False
    with Cons.IH [of "chunk @ [d]" h all_rx] show ?thesis by (simp add: Let_def)
  next
    case True
    show ?thesis
    proof (cases rule: send_chunk_cases [of dev h "chunk @ [d]"])
      case (ok h' rx)
      have "chunked_outcome (bus h @ framed [chunk @ [d]]) n ds (chunked_loop dev n h' (all_rx @ rx) [] ds)"
        using Cons.IH [of "[]" h' "all_rx @ rx"] ok(2) by simp
      from chunked_outcome_prepend [OF this] Cons.prems ok True show ?thesis by (simp add: Let_def)
    next
      case (failed h' e)
      then show ?thesis using True by (auto simp: prefix_def intro!: chunked_outcome_done)
    qed
  qed
qed

subsection \<open>Register batches: which byte answers which read\<close>

datatype reg_op = ReadReg u8 | WriteReg u8 u8

fun op_bytes :: "reg_op \<Rightarrow> bytes" where
  "op_bytes (ReadReg a) = [a OR 0x80, 0]"
| "op_bytes (WriteReg a v) = [a AND 0x7F, v]"

fun queue_op :: "'d register_batch \<Rightarrow> reg_op \<Rightarrow> 'd register_batch \<times> unit spi_result" where
  "queue_op r (ReadReg a) = queue_read r a"
| "queue_op r (WriteReg a v) = queue_write r a v"

definition queue_ops :: "'d register_batch \<Rightarrow> reg_op list \<Rightarrow> 'd register_batch" where
  "queue_ops r ops = foldl (\<lambda>r op. fst (queue_op r op)) r ops"

fun read_addrs :: "reg_op list \<Rightarrow> bytes" where
  "read_addrs [] = []"
| "read_addrs (ReadReg a # ops) = a # read_addrs ops"
| "read_addrs (WriteReg a v # ops) = read_addrs ops"

text \<open>The device answers the \<open>j\<close>-th queued operation in byte \<open>2 * j + 1\<close>.\<close>

fun own_responses :: "bytes \<Rightarrow> nat \<Rightarrow> reg_op list \<Rightarrow> (u8 \<times> u8) list" where
  "own_responses rx j [] = []"
| "own_responses rx j (ReadReg a # ops) = (a, rx ! (j * 2 + 1)) # own_responses rx (j + 1) ops"
| "own_responses rx j (WriteReg a v # ops) = own_responses rx (j + 1) ops"

lemma length_op_bytes [simp]: "length (op_bytes op) = 2"
  by (cases op) simp_all

lemma length_concat_op_bytes [simp]: "length (concat (map op_bytes ops)) = 2 * length ops"
  by (induction ops) simp_all

lemma queue_op_appends:
  assumes "length (tx_buffer (rbatch r)) + 2 \<le> max_size (rbatch r)"
  shows "snd (queue_op r op) = Inr () \<and> device (rbatch (fst (queue_op r op))) = device (rbatch r) \<and>
    max_size (rbatch (fst (queue_op r op))) = max_size (rbatch r) \<and>
    tx_buffer (rbatch (fst (queue_op r op))) = tx_buffer (rbatch r) @ op_bytes op \<and>
    read_addresses (fst (queue_op r op)) = read_addresses r @ read_addrs [op]"
  using assms by (cases op) (simp_all add: queue_read_def queue_write_def batch_add_byte_def)

lemma queue_ops_appends:
  assumes "length (tx_buffer (rbatch r)) + 2 * length ops \<le> max_size (rbatch r)"
  shows "device (rbatch (queue_ops r ops)) = device (rbatch r) \<and>
    tx_buffer (rbatch (queue_ops r ops)) = tx_buffer (rbatch r) @ concat (map op_bytes ops) \<and>
    read_addresses (queue_ops r ops) = read_addresses r @ read_addrs ops"
  using assms
proof (induction ops arbitrary: r)
  case (Cons op ops)
  have "read_addrs (op # ops) = read_addrs [op] @ read_addrs ops" by (cases op) simp_all
  with Cons.IH [of "fst (queue_op r op)"] queue_op_appends [of r op] Cons.prems show ?case
    by (simp add: queue_ops_def)
qed (simp add: queue_ops_def)

lemma length_read_addrs: "length (read_addrs ops) \<le> length ops"
  by (induction ops rule: read_addrs.induct) simp_all

lemma collect_results_nth:
  assumes "2 * (i + length as) \<le> length rx"
  shows "collect_results rx i as = map (\<lambda>k. (as ! k, rx ! (2 * (i + k) + 1))) [0..<length as]"
  using assms
proof (induction as arbitrary: i)
  case (Cons a as)
  have "map (\<lambda>k. ((a # as) ! k, rx ! (2 * (i + k) + 1))) [0..<length (a # as)] =
      (a, rx ! (2 * i + 1)) # map (\<lambda>k. (as ! k, rx ! (2 * (Suc i + k) + 1))) [0..<length as]"
    by (simp add: map_upt_Suc del: upt_Suc)
  with Cons.IH [of "Suc i"] Cons.prems show ?case by (simp add: mult.commute)
qed simp

lemma collect_reads_first:
  assumes "2 * (i + length as) \<le> length rx"
  shows "own_responses rx i (map ReadReg as @ map (\<lambda>(a, v). WriteReg a v) ws) = collect_results rx i as"
proof -
  have "own_responses rx j (map (\<lambda>(a, v). WriteReg a v) ws) = []" for j
    by (induction ws arbitrary: j) auto
  then show ?thesis using assms by (induction as arbitrary: i) simp_all
qed

lemma read_addrs_reads_first:
  "read_addrs (map ReadReg as @ map (\<lambda>(a, v). WriteReg a v) ws) = as"
proof -
  have "read_addrs (map (\<lambda>(a, v). WriteReg a v) ws) = []" by (induction ws) auto
  then show ?thesis by (induction as) simp_all
qed

subsection \<open>Properties\<close>

text \<open>
  The auto-flushing manager is a faithful stream: on a device whose transfers succeed, adding
  items of at most the batch size never fails, and once the manager is dropped the bus has seen
  the concatenation of all items in order, cut into non-empty pieces of at most the batch size,
  each framed by selecting and deselecting the chip.
\<close>
theorem manager_streams_everything:
  assumes "always_ok dev" "\<forall>d \<in> set ds. length d \<le> n" "threshold \<le> n + 1"
  shows "\<exists>m xs. manager_add_all dev (manager_new h n threshold) ds = (m, Inr ()) \<and>
    bus (manager_drop dev m) = bus h @ framed xs \<and> concat xs = concat ds \<and>
    (\<forall>x \<in> set xs. x \<noteq> [] \<and> length x \<le> n)"
proof -
  have "manager_holds (bus h) [] n threshold (manager_new h n threshold)"
    by (auto simp: manager_holds_def manager_new_def batch_new_def intro: exI [of _ "[]"])
  from manager_add_all_holds [OF assms(1) this assms(2,3)] obtain m where
    m: "manager_add_all dev (manager_new h n threshold) ds = (m, Inr ())"
    "manager_holds (bus h) (concat ds) n threshold m" by auto
  obtain m' where "manager_flush dev m = (m', Inr ())" "manager_holds (bus h) (concat ds) n threshold m'"
    "tx_buffer (batch m') = []"
    using manager_flush_holds [OF assms(1) m(2)] by blast
  with m show ?thesis by (auto simp: manager_holds_def manager_drop_def)
qed

theorem manager_streams_everything_witness:
  "\<exists>m xs. manager_add_all mock_spi (manager_new \<lparr>dev_state = False, bus = []\<rparr> 4 3) [[1, 2], [3, 4]] = (m, Inr ()) \<and>
    bus (manager_drop mock_spi m) = bus \<lparr>dev_state = False, bus = []\<rparr> @ framed xs \<and> concat xs = concat [[1, 2], [3, 4]] \<and>
    (\<forall>x \<in> set xs. x \<noteq> [] \<and> length x \<le> 4)"
  by (rule manager_streams_everything) (simp_all add: always_ok_def mock_spi_def)

text \<open>
  A register batch of up to 128 operations goes out as one framed transaction, and the value
  reported for the \<open>i\<close>-th read is the \<open>i\<close>-th response byte, whichever operations were queued
  before it. So the values are right when all reads are queued before all writes, and a read
  queued after a write is given the response to the write.
\<close>
theorem register_results_by_read_count:
  assumes "always_ok dev" "rx_kept dev" "ops \<noteq> []" "length ops \<le> 128"
  shows "\<exists>r res. register_execute dev (queue_ops (register_batch_new h) ops) = (r, Inr res) \<and>
    bus (device (rbatch r)) = bus h @ framed [concat (map op_bytes ops)] \<and>
    res = map (\<lambda>i. (read_addrs ops ! i, rx_data (rbatch r) ! (2 * i + 1))) [0..<length (read_addrs ops)] \<and>
    (\<forall>as ws. ops = map ReadReg as @ map (\<lambda>(a, v). WriteReg a v) ws \<longrightarrow>
       res = own_responses (rx_data (rbatch r)) 0 ops) \<and>
    (\<forall>a v b. ops = [WriteReg a v, ReadReg b] \<longrightarrow> res = [(b, rx_data (rbatch r) ! 1)])"
proof -
  let ?r = "queue_ops (register_batch_new h) ops"
  have q: "device (rbatch ?r) = h" "tx_buffer (rbatch ?r) = concat (map op_bytes ops)"
    "read_addresses ?r = read_addrs ops"
    using queue_ops_appends [of "register_batch_new h" ops] assms(4)
    by (simp_all add: register_batch_new_def batch_new_def)
  have "concat (map op_bytes ops) \<noteq> []" using assms(3) by (cases ops; cases "hd ops") auto
  then have ne: "tx_buffer (rbatch ?r) \<noteq> []" by (simp only: q not_False_eq_True)
  obtain b where b: "batch_execute dev (rbatch ?r) = (b, Inr ())"
    "bus (device b) = bus h @ framed [concat (map op_bytes ops)]" "length (rx_buffer b) = 2 * length ops"
  proof -
    from batch_execute_frames [OF assms(1), of "rbatch ?r"] obtain b where
      "batch_execute dev (rbatch ?r) = (b, Inr ())"
      "bus (device b) = bus (device (rbatch ?r)) @ framed [tx_buffer (rbatch ?r)]"
      "length (rx_buffer b) = length (tx_buffer (rbatch ?r))"
      using assms(2) ne by auto
    then show ?thesis by (intro that) (simp_all only: q length_concat_op_bytes)
  qed
  have "length (read_addrs ops) \<le> length ops" by (rule length_read_addrs)
  then have fit: "2 * (0 + length (read_addrs ops)) \<le> length (rx_buffer b)" using b(3) by simp
  have "register_execute dev ?r =
      (?r\<lparr>rbatch := b, read_addresses := []\<rparr>, Inr (collect_results (rx_buffer b) 0 (read_addrs ops)))"
    using b q by (simp add: register_execute_def rx_data_def)
  moreover have "collect_results (rx_buffer b) 0 (read_addrs ops) = own_responses (rx_buffer b) 0 ops"
    if "ops = map ReadReg as @ map (\<lambda>(a, v). WriteReg a v) ws" for as ws
    using collect_reads_first [of 0 as "rx_buffer b" ws] read_addrs_reads_first [of as ws] fit that by simp
  ultimately show ?thesis
    using b collect_results_nth [OF fit] by (auto simp: rx_data_def)
qed

theorem register_results_by_read_count_witness:
  "\<exists>r res. register_execute mock_spi
      (queue_ops (register_batch_new \<lparr>dev_state = False, bus = []\<rparr>) [WriteReg 0x10 0x55, ReadReg 0]) = (r, Inr res) \<and>
    res = [(0, rx_data (rbatch r) ! 1)]"
proof -
  have "always_ok mock_spi" "rx_kept mock_spi"
    by (auto simp: always_ok_def rx_kept_def mock_spi_def overwrite_prefix_def)
  from register_results_by_read_count [OF this, of "[WriteReg 0x10 0x55, ReadReg 0]"
      "\<lparr>dev_state = False, bus = []\<rparr>"]
  show ?thesis by auto
qed

text \<open>
  A chunked transfer that succeeds has sent its data in order in framed pieces of at most the
  chunk size; one that fails leaves the chip selected: the last thing on the bus is the failed
  exchange, after which no deselection follows.
\<close>
theorem chunked_transfer_framing:
  "case chunked_execute dev h d n of
     (h', Inr rx) \<Rightarrow> \<exists>xs. bus h' = bus h @ framed xs \<and> concat xs = d \<and>
       (\<forall>x \<in> set xs. x \<noteq> [] \<and> length x \<le> max 1 n)
   | (h', Inl e) \<Rightarrow> \<exists>xs x. bus h' = bus h @ framed xs @ [Select True, Exchange x] \<and>
       prefix (concat xs @ x) d"
  using chunked_loop_bus [of "[]" n h d dev "[]"]
  by (cases "chunked_execute dev h d n"; cases "snd (chunked_execute dev h d n)")
    (simp_all add: chunked_execute_def chunked_outcome_def)

theorem chunked_transfer_framing_witness:
  "\<exists>h' rx xs. chunked_execute mock_spi \<lparr>dev_state = False, bus = []\<rparr> [1, 2, 3] 2 = (h', Inr rx) \<and>
     bus h' = framed xs \<and> concat xs = [1, 2, 3]"
proof -
  let ?r = "chunked_execute mock_spi \<lparr>dev_state = False, bus = []\<rparr> [1, 2, 3] 2"
  obtain h' rx where r: "?r = (h', Inr rx)"
    by (simp add: chunked_execute_def send_chunk_def dev_transfer_def dev_select_def mock_spi_def
        numeral_2_eq_2)
  with chunked_transfer_framing [where dev = mock_spi and h = "\<lparr>dev_state = False, bus = []\<rparr>" and d = "[1, 2, 3]" and n = 2]
  show ?thesis by auto
qed

end
