(* ===== verification/Spi_Dma_Cache.thy ===== *)
theory Spi_Dma_Cache
  imports Bus_Io
begin

text \<open>
  \<^verbatim>\<open>SPI/src/38/spi_dma_cache_coherency.rs\<close>: SPI transfers by DMA on a processor with a data cache.
  The processor's loads and stores, the volatile writes to the cache registers, the barriers and
  the DMA hooks, whose bodies are empty in the source and left to the platform, are a parameter:
  operations on a state
  \<open>'w\<close>. A buffer is a range of memory, addresses are naturals; buffers lie inside the address
  space, so the sums of addresses and sizes do not overflow.
\<close>

subsection \<open>Cache operations\<close>

definition CACHE_LINE_SIZE :: nat where "CACHE_LINE_SIZE = 32"

definition SCB_DCCMVAC :: nat where "SCB_DCCMVAC = 0xE000EF7C"
definition SCB_DCIMVAC :: nat where "SCB_DCIMVAC = 0xE000EF5C"
definition SCB_DCCISW :: nat where "SCB_DCCISW = 0xE000EF74"

datatype cache_op = Clean | Invalidate | CleanInvalidate

record 'w platform =
  write_volatile :: "nat \<Rightarrow> nat \<Rightarrow> 'w \<Rightarrow> 'w"
  dsb :: "'w \<Rightarrow> 'w"
  dmb :: "'w \<Rightarrow> 'w"
  load_byte :: "nat \<Rightarrow> 'w \<Rightarrow> u8 \<times> 'w"
  store_byte :: "nat \<Rightarrow> u8 \<Rightarrow> 'w \<Rightarrow> 'w"
  configure_dma_tx :: "nat \<Rightarrow> nat \<Rightarrow> 'w \<Rightarrow> 'w"
  configure_dma_rx :: "nat \<Rightarrow> nat \<Rightarrow> 'w \<Rightarrow> 'w"
  configure_dma_duplex :: "nat \<Rightarrow> nat \<Rightarrow> nat \<Rightarrow> 'w \<Rightarrow> 'w"
  start_dma :: "'w \<Rightarrow> 'w"
  wait_for_completion :: "'w \<Rightarrow> 'w"

text \<open>\<open>addr & !(CACHE_LINE_SIZE - 1)\<close>.\<close>

definition align_down :: "nat \<Rightarrow> nat" where
  "align_down addr = addr - addr mod CACHE_LINE_SIZE"

function cache_loop :: "'w platform \<Rightarrow> nat \<Rightarrow> nat \<Rightarrow> nat \<Rightarrow> 'w \<Rightarrow> 'w" where
  "cache_loop P reg p end_addr w =
     (if p < end_addr then cache_loop P reg (p + CACHE_LINE_SIZE) end_addr (write_volatile P reg p w) else w)"
  by auto
termination by (relation "measure (\<lambda>(P, reg, p, e, w). e - p)") (auto simp: CACHE_LINE_SIZE_def)

declare cache_loop.simps [simp del]

definition cache_reg :: "cache_op \<Rightarrow> nat" where
  "cache_reg op = (case op of Clean \<Rightarrow> SCB_DCCMVAC | Invalidate \<Rightarrow> SCB_DCIMVAC | CleanInvalidate \<Rightarrow> SCB_DCCISW)"

definition cache_operation :: "'w platform \<Rightarrow> cache_op \<Rightarrow> nat \<Rightarrow> nat \<Rightarrow> 'w \<Rightarrow> 'w" where
  "cache_operation P op addr size_bytes w =
     (let start = align_down addr;
          end_addr = align_down (addr + size_bytes + CACHE_LINE_SIZE - 1)
      in dmb P (dsb P (cache_loop P (cache_reg op) start end_addr w)))"

subsection \<open>Buffers and guards\<close>

record dma_buffer =
  buf_addr :: nat
  buf_size :: nat

definition buf_clean :: "'w platform \<Rightarrow> dma_buffer \<Rightarrow> 'w \<Rightarrow> 'w" where
  "buf_clean P b w = cache_operation P Clean (buf_addr b) (buf_size b) w"

definition buf_invalidate :: "'w platform \<Rightarrow> dma_buffer \<Rightarrow> 'w \<Rightarrow> 'w" where
  "buf_invalidate P b w = cache_operation P Invalidate (buf_addr b) (buf_size b) w"

definition buf_clean_invalidate :: "'w platform \<Rightarrow> dma_buffer \<Rightarrow> 'w \<Rightarrow> 'w" where
  "buf_clean_invalidate P b w = cache_operation P CleanInvalidate (buf_addr b) (buf_size b) w"

primrec store_bytes :: "'w platform \<Rightarrow> nat \<Rightarrow> bytes \<Rightarrow> 'w \<Rightarrow> 'w" where
  "store_bytes P a [] w = w"
| "store_bytes P a (v # vs) w = store_bytes P (a + 1) vs (store_byte P a v w)"

primrec load_bytes :: "'w platform \<Rightarrow> nat \<Rightarrow> nat \<Rightarrow> 'w \<Rightarrow> bytes \<times> 'w" where
  "load_bytes P a 0 w = ([], w)"
| "load_bytes P a (Suc n) w =
     (let (v, w) = load_byte P a w; (vs, w) = load_bytes P (a + 1) n w in (v # vs, w))"

record cache_guard =
  guard_addr :: nat
  guard_size :: nat
  post_op :: cache_op

definition guard_new :: "'w platform \<Rightarrow> nat \<Rightarrow> nat \<Rightarrow> cache_op \<Rightarrow> cache_op \<Rightarrow> 'w \<Rightarrow> cache_guard \<times> 'w" where
  "guard_new P addr n pre post w =
     (\<lparr>guard_addr = addr, guard_size = n, post_op = post\<rparr>, cache_operation P pre addr n w)"

definition guard_for_tx :: "'w platform \<Rightarrow> nat \<Rightarrow> nat \<Rightarrow> 'w \<Rightarrow> cache_guard \<times> 'w" where
  "guard_for_tx P addr n w = guard_new P addr n Clean Clean w"

definition guard_for_rx :: "'w platform \<Rightarrow> nat \<Rightarrow> nat \<Rightarrow> 'w \<Rightarrow> cache_guard \<times> 'w" where
  "guard_for_rx P addr n w = guard_new P addr n Invalidate Invalidate w"

definition guard_drop :: "'w platform \<Rightarrow> cache_guard \<Rightarrow> 'w \<Rightarrow> 'w" where
  "guard_drop P g w = cache_operation P (post_op g) (guard_addr g) (guard_size g) w"

subsection \<open>Transfers\<close>

datatype spi_error = BufferTooSmall | LengthMismatch | TransferFailed

record spi_dma =
  tx_buffer :: dma_buffer
  rx_buffer :: dma_buffer

definition transmit :: "'w platform \<Rightarrow> spi_dma \<Rightarrow> bytes \<Rightarrow> 'w \<Rightarrow> ('w, spi_error, unit) io" where
  "transmit P d data w =
     (if length data > buf_size (tx_buffer d) then (w, Inl BufferTooSmall)
      else
        (let w = store_bytes P (buf_addr (tx_buffer d)) data w;
             w = buf_clean P (tx_buffer d) w;
             w = configure_dma_tx P (buf_addr (tx_buffer d)) (length data) w;
             w = start_dma P w
         in (w, Inr ())))"

text \<open>\<open>receive\<close> is given the length of the caller's buffer and returns its new contents.\<close>

definition receive :: "'w platform \<Rightarrow> spi_dma \<Rightarrow> nat \<Rightarrow> 'w \<Rightarrow> ('w, spi_error, bytes) io" where
  "receive P d len w =
     (if len > buf_size (rx_buffer d) then (w, Inl BufferTooSmall)
      else
        (let w = buf_invalidate P (rx_buffer d) w;
             w = configure_dma_rx P (buf_addr (rx_buffer d)) len w;
             w = start_dma P w;
             w = wait_for_completion P w;
             w = buf_invalidate P (rx_buffer d) w;
             (bs, w) = load_bytes P (buf_addr (rx_buffer d)) len w
         in (w, Inr bs)))"

definition transfer :: "'w platform \<Rightarrow> spi_dma \<Rightarrow> bytes \<Rightarrow> nat \<Rightarrow> 'w \<Rightarrow> ('w, spi_error, bytes) io" where
  "transfer P d tx_data rx_len w =
     (if length tx_data \<noteq> rx_len then (w, Inl LengthMismatch)
      else
        (let len = length tx_data in
         if len > buf_size (tx_buffer d) \<or> len > buf_size (rx_buffer d) then (w, Inl BufferTooSmall)
         else
           (let w = store_bytes P (buf_addr (tx_buffer d)) tx_data w;
                w = buf_clean P (tx_buffer d) w;
                w = buf_invalidate P (rx_buffer d) w;
                w = configure_dma_duplex P (buf_addr (tx_buffer d)) (buf_addr (rx_buffer d)) len w;
                w = start_dma P w;
                w = wait_for_completion P w;
                w = buf_invalidate P (rx_buffer d) w;
                (bs, w) = load_bytes P (buf_addr (rx_buffer d)) len w
            in (w, Inr bs))))"

text \<open>
  The command of a flash read is aligned to a cache line, so it is 32 bytes long: four bytes of
  command and address and the padding, whose 28 bytes are whatever was on the stack.
\<close>

definition read_command :: "u32 \<Rightarrow> bytes \<Rightarrow> bytes" where
  "read_command address padding =
     [0x03, ucast (drop_bit 16 address), ucast (drop_bit 8 address), ucast address] @ padding"

definition flash_read ::
  "'w platform \<Rightarrow> spi_dma \<Rightarrow> bytes \<Rightarrow> u32 \<Rightarrow> nat \<Rightarrow> 'w \<Rightarrow> ('w, spi_error, bytes) io" where
  "flash_read P d padding address len w =
     try_io (transmit P d (read_command address padding) w) (\<lambda>w _. receive P d len w)"

definition flash_write :: "u32 \<Rightarrow> bytes \<Rightarrow> 'w \<Rightarrow> ('w, spi_error, unit) io" where
  "flash_write address data w = (if length data > 256 then (w, Inl BufferTooSmall) else (w, Inr ()))"

subsection \<open>A processor with a cache\<close>

text \<open>
  The reference machine: memory, a write-back cache of lines of 32 bytes, and a DMA engine, which
  stands for the hooks a platform has to supply and only sees memory. Before every access the cache may bring in and throw out any lines, as
  \<open>meddling\<close> says; a line that is thrown out is written back when it is dirty. The machine
  decodes writes to the cache registers with \<open>decode\<close>. The engine does its job when it is waited
  for, byte by byte.
\<close>

datatype line_action = Bring nat | Evict nat

datatype job = NoJob | TxJob nat nat | RxJob nat nat | DuplexJob nat nat nat

record machine =
  mem :: "nat \<Rightarrow> u8"
  cache :: "nat \<Rightarrow> (bool \<times> (nat \<Rightarrow> u8)) option"
  meddling :: "nat \<Rightarrow> line_action list"
  ticks :: nat
  dma_job :: job
  started :: bool
  mosi :: bytes
  miso :: "nat \<Rightarrow> u8"
  received :: nat

definition line :: "nat \<Rightarrow> nat" where
  "line a = a div 32"

definition bring :: "nat \<Rightarrow> machine \<Rightarrow> machine" where
  "bring l w = (if cache w l = None then w\<lparr>cache := (cache w)(l \<mapsto> (False, mem w))\<rparr> else w)"

definition write_back :: "nat \<Rightarrow> machine \<Rightarrow> machine" where
  "write_back l w = (case cache w l of
     Some (True, d) \<Rightarrow> w\<lparr>mem := (\<lambda>a. if line a = l then d a else mem w a), cache := (cache w)(l \<mapsto> (False, d))\<rparr>
   | _ \<Rightarrow> w)"

definition discard :: "nat \<Rightarrow> machine \<Rightarrow> machine" where
  "discard l w = w\<lparr>cache := (cache w)(l := None)\<rparr>"

fun line_step :: "line_action \<Rightarrow> machine \<Rightarrow> machine" where
  "line_step (Bring l) w = bring l w"
| "line_step (Evict l) w = discard l (write_back l w)"

definition meddle :: "machine \<Rightarrow> machine" where
  "meddle w = (fold line_step (meddling w (ticks w)) w)\<lparr>ticks := Suc (ticks w)\<rparr>"

definition line_op :: "cache_op \<Rightarrow> nat \<Rightarrow> machine \<Rightarrow> machine" where
  "line_op op l w = (case op of
     Clean \<Rightarrow> write_back l w
   | Invalidate \<Rightarrow> discard l w
   | CleanInvalidate \<Rightarrow> discard l (write_back l w))"

definition cpu_load :: "nat \<Rightarrow> machine \<Rightarrow> u8 \<times> machine" where
  "cpu_load a w =
     (let w = bring (line a) (meddle w) in
      (case cache w (line a) of Some (_, d) \<Rightarrow> d a | None \<Rightarrow> mem w a, w))"

definition cpu_store :: "nat \<Rightarrow> u8 \<Rightarrow> machine \<Rightarrow> machine" where
  "cpu_store a v w =
     (let w = bring (line a) (meddle w) in
      case cache w (line a) of
        Some (_, d) \<Rightarrow> w\<lparr>cache := (cache w)(line a \<mapsto> (True, d(a := v)))\<rparr>
      | None \<Rightarrow> w)"

primrec dma_out :: "nat \<Rightarrow> nat \<Rightarrow> machine \<Rightarrow> machine" where
  "dma_out a 0 w = w"
| "dma_out a (Suc n) w = (let w = meddle w in dma_out (a + 1) n (w\<lparr>mosi := mosi w @ [mem w a]\<rparr>))"

primrec dma_in :: "nat \<Rightarrow> nat \<Rightarrow> machine \<Rightarrow> machine" where
  "dma_in a 0 w = w"
| "dma_in a (Suc n) w =
     (let w = meddle w in
      dma_in (a + 1) n (w\<lparr>mem := (mem w)(a := miso w (received w)), received := Suc (received w)\<rparr>))"

definition run_job :: "machine \<Rightarrow> machine" where
  "run_job w = (if started w then (case dma_job w of
      NoJob \<Rightarrow> w
    | TxJob a n \<Rightarrow> dma_out a n w
    | RxJob a n \<Rightarrow> dma_in a n w
    | DuplexJob t r n \<Rightarrow> dma_in r n (dma_out t n w)) else w)\<lparr>dma_job := NoJob, started := False\<rparr>"

definition machine_platform :: "(nat \<Rightarrow> cache_op option) \<Rightarrow> machine platform" where
  "machine_platform decode = \<lparr>
     write_volatile = (\<lambda>reg v w. case decode reg of None \<Rightarrow> meddle w | Some op \<Rightarrow> line_op op (line v) (meddle w)),
     dsb = (\<lambda>w. w), dmb = (\<lambda>w. w), load_byte = cpu_load, store_byte = cpu_store,
     configure_dma_tx = (\<lambda>a n w. w\<lparr>dma_job := TxJob a n\<rparr>),
     configure_dma_rx = (\<lambda>a n w. w\<lparr>dma_job := RxJob a n\<rparr>),
     configure_dma_duplex = (\<lambda>t r n w. w\<lparr>dma_job := DuplexJob t r n\<rparr>),
     start_dma = (\<lambda>w. w\<lparr>started := True\<rparr>), wait_for_completion = run_job\<rparr>"

text \<open>
  The cache maintenance registers of the Armv7-M architecture that take an address: \<open>DCIMVAC\<close> at
  \<^verbatim>\<open>0xE000EF5C\<close>, \<open>DCCMVAC\<close> at \<^verbatim>\<open>0xE000EF68\<close> and \<open>DCCIMVAC\<close> at \<^verbatim>\<open>0xE000EF70\<close>. A write elsewhere does
  not work on the line of the address written.
\<close>

definition armv7m :: "nat \<Rightarrow> cache_op option" where
  "armv7m reg = (if reg = 0xE000EF5C then Some Invalidate else if reg = 0xE000EF68 then Some Clean
     else if reg = 0xE000EF70 then Some CleanInvalidate else None)"

abbreviation armed :: "machine platform" where
  "armed \<equiv> machine_platform armv7m"

text \<open>The same processor with the hooks as the source has them, doing nothing.\<close>

definition empty_hooks :: "'w platform \<Rightarrow> 'w platform" where
  "empty_hooks P = P\<lparr>configure_dma_tx := (\<lambda>_ _ w. w), configure_dma_rx := (\<lambda>_ _ w. w),
     configure_dma_duplex := (\<lambda>_ _ _ w. w), start_dma := (\<lambda>w. w), wait_for_completion := (\<lambda>w. w)\<rparr>"

lemma machine_platform_simps [simp]:
  "write_volatile (machine_platform dc) reg v w =
     (case dc reg of None \<Rightarrow> meddle w | Some op \<Rightarrow> line_op op (line v) (meddle w))"
  "dsb (machine_platform dc) w = w" "dmb (machine_platform dc) w = w"
  "load_byte (machine_platform dc) = cpu_load" "store_byte (machine_platform dc) = cpu_store"
  "configure_dma_tx (machine_platform dc) a n w = w\<lparr>dma_job := TxJob a n\<rparr>"
  "configure_dma_rx (machine_platform dc) a n w = w\<lparr>dma_job := RxJob a n\<rparr>"
  "configure_dma_duplex (machine_platform dc) t r n w = w\<lparr>dma_job := DuplexJob t r n\<rparr>"
  "start_dma (machine_platform dc) w = w\<lparr>started := True\<rparr>"
  "wait_for_completion (machine_platform dc) = run_job"
  by (simp_all add: machine_platform_def)

subsection \<open>Where a byte is\<close>

text \<open>
  \<open>coherent w a v\<close>: the processor reads \<open>v\<close> at \<open>a\<close>, and that stays so whatever the cache does.
  \<open>synced w a v\<close>: memory holds \<open>v\<close> as well. \<open>undirty w a\<close>: the cache will not write to \<open>a\<close>.
\<close>

definition coherent :: "machine \<Rightarrow> nat \<Rightarrow> u8 \<Rightarrow> bool" where
  "coherent w a v \<longleftrightarrow> (case cache w (line a) of
     None \<Rightarrow> mem w a = v
   | Some (dirty, d) \<Rightarrow> d a = v \<and> (dirty \<or> mem w a = v))"

definition synced :: "machine \<Rightarrow> nat \<Rightarrow> u8 \<Rightarrow> bool" where
  "synced w a v \<longleftrightarrow> coherent w a v \<and> mem w a = v"

definition undirty :: "machine \<Rightarrow> nat \<Rightarrow> bool" where
  "undirty w a \<longleftrightarrow> (\<forall>d. cache w (line a) \<noteq> Some (True, d))"

lemmas byte_defs = coherent_def synced_def undirty_def bring_def write_back_def discard_def

lemma line_step_keeps:
  "coherent w a v \<Longrightarrow> coherent (line_step x w) a v" "synced w a v \<Longrightarrow> synced (line_step x w) a v"
  "undirty w a \<Longrightarrow> undirty (line_step x w) a" "undirty w a \<Longrightarrow> mem (line_step x w) a = mem w a"
  by (cases x; auto simp: byte_defs split: option.splits bool.splits)+

lemma line_step_rest:
  "mosi (line_step x w) = mosi w" "miso (line_step x w) = miso w" "received (line_step x w) = received w"
  "dma_job (line_step x w) = dma_job w" "started (line_step x w) = started w" "meddling (line_step x w) = meddling w"
  by (cases x; auto simp: byte_defs split: option.splits bool.splits)+

lemma ticks_irrelevant [simp]:
  "coherent (w\<lparr>ticks := n\<rparr>) a v = coherent w a v" "synced (w\<lparr>ticks := n\<rparr>) a v = synced w a v"
  "undirty (w\<lparr>ticks := n\<rparr>) a = undirty w a"
  by (auto simp: byte_defs split: option.splits)

lemma fold_line_keeps:
  "coherent w a v \<Longrightarrow> coherent (fold line_step xs w) a v" "synced w a v \<Longrightarrow> synced (fold line_step xs w) a v"
  "undirty w a \<Longrightarrow> undirty (fold line_step xs w) a \<and> mem (fold line_step xs w) a = mem w a"
  by (induction xs arbitrary: w) (auto simp: line_step_keeps)

lemma fold_line_rest:
  "mosi (fold line_step xs w) = mosi w \<and> miso (fold line_step xs w) = miso w \<and>
   received (fold line_step xs w) = received w \<and> dma_job (fold line_step xs w) = dma_job w \<and>
   started (fold line_step xs w) = started w"
  by (induction xs arbitrary: w) (auto simp: line_step_rest)

lemma meddle_keeps:
  "coherent w a v \<Longrightarrow> coherent (meddle w) a v" "synced w a v \<Longrightarrow> synced (meddle w) a v"
  "undirty w a \<Longrightarrow> undirty (meddle w) a" "undirty w a \<Longrightarrow> mem (meddle w) a = mem w a"
  by (simp_all add: meddle_def fold_line_keeps)

lemma meddle_rest [simp]:
  "mosi (meddle w) = mosi w" "miso (meddle w) = miso w" "received (meddle w) = received w"
  "dma_job (meddle w) = dma_job w" "started (meddle w) = started w"
  using fold_line_rest [of "meddling w (ticks w)" w] by (simp_all add: meddle_def)

subsection \<open>Loads, stores, lines\<close>

lemma bring_keeps: "coherent w a v \<Longrightarrow> coherent (bring l w) a v"
  using line_step_keeps(1) [of w a v "Bring l"] by simp

lemma cpu_load_coherent:
  assumes "coherent w a v"
  shows "fst (cpu_load a w) = v \<and> (\<forall>b x. coherent w b x \<longrightarrow> coherent (snd (cpu_load a w)) b x)"
proof -
  have "coherent (bring (line a) (meddle w)) a v" using assms by (intro bring_keeps meddle_keeps)
  then have "(case cache (bring (line a) (meddle w)) (line a) of Some (_, d) \<Rightarrow> d a | None \<Rightarrow> mem (bring (line a) (meddle w)) a) = v"
    by (auto simp: coherent_def split: option.splits)
  then show ?thesis by (auto simp: cpu_load_def Let_def intro: bring_keeps meddle_keeps)
qed

lemma cpu_store_coherent:
  "coherent (cpu_store a v w) a v" "b \<noteq> a \<Longrightarrow> coherent w b x \<Longrightarrow> coherent (cpu_store a v w) b x"
proof -
  let ?w = "bring (line a) (meddle w)"
  obtain dirty d where d: "cache ?w (line a) = Some (dirty, d)"
    by (cases "cache (meddle w) (line a)") (auto simp: bring_def)
  then have st: "cpu_store a v w = ?w\<lparr>cache := (cache ?w)(line a \<mapsto> (True, d(a := v)))\<rparr>"
    by (simp add: cpu_store_def Let_def)
  show "coherent (cpu_store a v w) a v" unfolding st by (simp add: coherent_def)
  show "coherent (cpu_store a v w) b x" if "b \<noteq> a" "coherent w b x"
    using bring_keeps [OF meddle_keeps(1) [OF that(2)], of "line a"] that(1) d
    unfolding st by (auto simp: coherent_def split: option.splits)
qed

lemma store_bytes_coherent:
  "\<forall>b x. (b < a \<or> a + length vs \<le> b) \<longrightarrow> coherent w b x \<longrightarrow>
     coherent (store_bytes (machine_platform dc) a vs w) b x"
  "i < length vs \<Longrightarrow> coherent (store_bytes (machine_platform dc) a vs w) (a + i) (vs ! i)"
proof -
  show keep: "\<forall>b x. (b < a \<or> a + length vs \<le> b) \<longrightarrow> coherent w b x \<longrightarrow>
     coherent (store_bytes (machine_platform dc) a vs w) b x" for a vs w
  proof (induction vs arbitrary: a w)
    case (Cons v vs)
    show ?case
    proof (intro allI impI)
      fix b x
      assume b: "b < a \<or> a + length (v # vs) \<le> b" and c: "coherent w b x"
      have "coherent (cpu_store a v w) b x" using b c by (intro cpu_store_coherent(2)) auto
      then show "coherent (store_bytes (machine_platform dc) a (v # vs) w) b x"
        using Cons.IH [of "a + 1" "cpu_store a v w"] b by auto
    qed
  qed simp
  show "i < length vs \<Longrightarrow> coherent (store_bytes (machine_platform dc) a vs w) (a + i) (vs ! i)"
  proof (induction vs arbitrary: a w i)
    case (Cons v vs)
    show ?case
    proof (cases i)
      case 0
      have "coherent (cpu_store a v w) a v" by (rule cpu_store_coherent)
      then show ?thesis using keep [of "a + 1" vs "cpu_store a v w"] 0 by auto
    next
      case (Suc j)
      then show ?thesis using Cons.IH [of j "a + 1" "cpu_store a v w"] Cons.prems
        by simp
    qed
  qed simp
qed

lemma load_bytes_coherent:
  "(\<And>i. i < n \<Longrightarrow> coherent w (a + i) (f i)) \<Longrightarrow>
   fst (load_bytes (machine_platform dc) a n w) = map f [0..<n]"
proof (induction n arbitrary: a w f)
  case (Suc n)
  have c: "coherent w a (f 0)" using Suc.prems [of 0] by simp
  let ?w = "snd (cpu_load a w)"
  have "coherent ?w (a + 1 + i) (f (Suc i))" if "i < n" for i
    using cpu_load_coherent [OF c] Suc.prems [of "Suc i"] that by simp
  from Suc.IH [OF this] have "fst (load_bytes (machine_platform dc) (a + 1) n ?w) = map (\<lambda>i. f (Suc i)) [0..<n]" .
  moreover have "fst (cpu_load a w) = f 0" using cpu_load_coherent [OF c] by simp
  ultimately show ?case
    by (simp add: case_prod_beta Let_def map_upt_Suc del: upt_Suc)
qed simp

subsection \<open>Cleaning and invalidating ranges\<close>

abbreviation over_lines :: "cache_op \<Rightarrow> nat list \<Rightarrow> machine \<Rightarrow> machine" where
  "over_lines op ls w \<equiv> fold (\<lambda>l w. line_op op l (meddle w)) ls w"

lemma cache_loop_lines:
  "dc reg = Some op \<Longrightarrow>
   cache_loop (machine_platform dc) reg (32 * i) (32 * j) w = over_lines op [i..<j] w"
proof (induction "j - i" arbitrary: i w)
  case 0
  then show ?case by (subst cache_loop.simps) simp
next
  case (Suc n)
  then have less: "i < j" by simp
  have "cache_loop (machine_platform dc) reg (32 * i) (32 * j) w =
      cache_loop (machine_platform dc) reg (32 * Suc i) (32 * j) (line_op op i (meddle w))"
    using less Suc.prems by (subst cache_loop.simps) (simp add: CACHE_LINE_SIZE_def line_def add.commute)
  then show ?case using Suc.hyps(1) [of "Suc i"] Suc.hyps(2) Suc.prems less by (simp add: upt_conv_Cons del: upt_Suc)
qed

definition buf_lines :: "dma_buffer \<Rightarrow> nat list" where
  "buf_lines b = [line (buf_addr b)..<line (buf_addr b + buf_size b + 31)]"

lemma line_in_buf:
  assumes "i < buf_size b"
  shows "line (buf_addr b + i) \<in> set (buf_lines b)"
proof -
  have "buf_addr b + i + 32 \<le> buf_addr b + buf_size b + 31" using assms by simp
  then have "(buf_addr b + i + 32) div 32 \<le> (buf_addr b + buf_size b + 31) div 32" by (rule div_le_mono)
  then show ?thesis by (simp add: buf_lines_def line_def div_le_mono)
qed

lemma cache_operation_lines:
  assumes "dc (cache_reg op) = Some op"
  shows "cache_operation (machine_platform dc) op (buf_addr b) (buf_size b) w = over_lines op (buf_lines b) w"
proof -
  have al: "align_down a = 32 * line a" for a
    by (simp add: align_down_def CACHE_LINE_SIZE_def line_def minus_mod_eq_mult_div)
  have "buf_addr b + buf_size b + CACHE_LINE_SIZE - 1 = buf_addr b + buf_size b + 31"
    by (simp add: CACHE_LINE_SIZE_def)
  then have "cache_operation (machine_platform dc) op (buf_addr b) (buf_size b) w =
      cache_loop (machine_platform dc) (cache_reg op) (32 * line (buf_addr b)) (32 * line (buf_addr b + buf_size b + 31)) w"
    by (simp only: cache_operation_def Let_def al machine_platform_simps)
  then show ?thesis using cache_loop_lines [where dc = dc and reg = "cache_reg op" and op = op, OF assms] by (simp add: buf_lines_def)
qed

text \<open>
  Of the registers the source writes, the one for invalidating is the architecture's; at the
  address of the one for cleaning the architecture has none, and the one for cleaning and
  invalidating takes a set and a way.
\<close>

lemma armv7m_regs:
  "armv7m (cache_reg Invalidate) = Some Invalidate" "armv7m (cache_reg Clean) = None"
  "armv7m (cache_reg CleanInvalidate) = None"
  by (simp_all add: armv7m_def cache_reg_def SCB_DCCMVAC_def SCB_DCIMVAC_def SCB_DCCISW_def)

lemma discard_keeps:
  "synced w a v \<Longrightarrow> synced (discard l w) a v" "line a \<noteq> l \<Longrightarrow> coherent w a v \<Longrightarrow> coherent (discard l w) a v"
  "undirty w a \<Longrightarrow> undirty (discard l w) a" "mem (discard l w) = mem w" "line a = l \<Longrightarrow> undirty (discard l w) a"
  "line a = l \<Longrightarrow> mem w a = v \<Longrightarrow> synced (discard l w) a v"
  by (auto simp: byte_defs split: option.splits)

lemma invalidate_lines:
  "synced w a v \<Longrightarrow> synced (over_lines Invalidate ls w) a v"
  "line a \<in> set ls \<Longrightarrow> undirty (over_lines Invalidate ls w) a"
  "undirty w a \<Longrightarrow> mem w a = v \<Longrightarrow> line a \<in> set ls \<Longrightarrow> synced (over_lines Invalidate ls w) a v"
proof -
  show s: "synced w a v \<Longrightarrow> synced (over_lines Invalidate ls w) a v" for ls w
    by (induction ls arbitrary: w) (simp_all add: line_op_def discard_keeps meddle_keeps)
  have u: "undirty w a \<Longrightarrow> undirty (over_lines Invalidate ls w) a" for ls w
    by (induction ls arbitrary: w) (simp_all add: line_op_def discard_keeps meddle_keeps)
  show "line a \<in> set ls \<Longrightarrow> undirty (over_lines Invalidate ls w) a"
  proof (induction ls arbitrary: w)
    case (Cons l ls)
    show ?case
    proof (cases "line a = l")
      case True
      then show ?thesis using u [OF discard_keeps(5) [OF True], of ls "meddle w"] by (simp add: line_op_def)
    next
      case False
      then show ?thesis using Cons by simp
    qed
  qed simp
  show "undirty w a \<Longrightarrow> mem w a = v \<Longrightarrow> line a \<in> set ls \<Longrightarrow> synced (over_lines Invalidate ls w) a v"
  proof (induction ls arbitrary: w)
    case (Cons l ls)
    have m: "undirty (meddle w) a" "mem (meddle w) a = v" using Cons.prems by (simp_all add: meddle_keeps)
    show ?case
    proof (cases "line a = l")
      case True
      then show ?thesis using s discard_keeps(6) [OF True m(2)] by (simp add: line_op_def)
    next
      case False
      then show ?thesis using Cons.IH [of "discard l (meddle w)"] Cons.prems m
        by (simp add: line_op_def discard_keeps)
    qed
  qed simp
qed

subsection \<open>The engine\<close>

lemma lines_rest [simp]:
  "mosi (over_lines op ls w) = mosi w" "miso (over_lines op ls w) = miso w" "received (over_lines op ls w) = received w"
proof -
  have "mosi (line_op op l w) = mosi w \<and> miso (line_op op l w) = miso w \<and> received (line_op op l w) = received w" for l w
    by (cases op) (auto simp: line_op_def write_back_def discard_def split: option.splits bool.splits)
  then show "mosi (over_lines op ls w) = mosi w" "miso (over_lines op ls w) = miso w" "received (over_lines op ls w) = received w"
    by (induction ls arbitrary: w) simp_all
qed

lemma dma_fields [simp]:
  "synced (w\<lparr>mosi := x\<rparr>) a v = synced w a v" "undirty (w\<lparr>mosi := x\<rparr>) a = undirty w a"
  "synced (w\<lparr>dma_job := j\<rparr>) a v = synced w a v" "undirty (w\<lparr>dma_job := j\<rparr>) a = undirty w a"
  "synced (w\<lparr>started := y\<rparr>) a v = synced w a v" "undirty (w\<lparr>started := y\<rparr>) a = undirty w a"
  by (auto simp: byte_defs split: option.splits)

lemma dma_out_rest:
  "(undirty w b \<longrightarrow> undirty (dma_out a n w) b) \<and> miso (dma_out a n w) = miso w \<and>
   received (dma_out a n w) = received w"
proof (induction n arbitrary: a w)
  case (Suc n)
  let ?w = "(meddle w)\<lparr>mosi := mosi (meddle w) @ [mem (meddle w) a]\<rparr>"
  have "undirty ?w b = undirty (meddle w) b" by (simp add: undirty_def)
  then show ?case using Suc.IH [of ?w "a + 1"] meddle_keeps(3) [of w b] by (simp add: Let_def)
qed simp

lemma dma_in_undirty:
  "(\<And>i. i < n \<Longrightarrow> undirty w (a + i)) \<Longrightarrow>
   (\<forall>i < n. undirty (dma_in a n w) (a + i) \<and> mem (dma_in a n w) (a + i) = miso w (received w + i)) \<and>
   (\<forall>b. undirty w b \<longrightarrow> undirty (dma_in a n w) b) \<and>
   (\<forall>b. undirty w b \<longrightarrow> (b < a \<or> a + n \<le> b) \<longrightarrow> mem (dma_in a n w) b = mem w b) \<and>
   mosi (dma_in a n w) = mosi w"
proof (induction n arbitrary: a w)
  case (Suc n)
  let ?w = "(meddle w)\<lparr>mem := (mem (meddle w))(a := miso w (received w)), received := Suc (received w)\<rparr>"
  have u: "undirty ?w b = undirty (meddle w) b" for b by (simp add: undirty_def)
  have "undirty ?w (a + 1 + i)" if "i < n" for i
    unfolding u using Suc.prems [of "Suc i"] that by (simp add: meddle_keeps)
  note IH = Suc.IH [OF this]
  have step: "dma_in a (Suc n) w = dma_in (a + 1) n ?w" by (simp add: Let_def)
  have "undirty w a" using Suc.prems [of 0] by simp
  then have ua: "undirty ?w a" unfolding u by (rule meddle_keeps)
  have first: "undirty (dma_in a (Suc n) w) a \<and> mem (dma_in a (Suc n) w) a = miso w (received w)"
    using IH ua unfolding step by simp
  have later: "undirty (dma_in a (Suc n) w) (a + i) \<and> mem (dma_in a (Suc n) w) (a + i) = miso w (received w + i)"
    if "i < Suc n" for i
  proof (cases i)
    case 0
    then show ?thesis using first by simp
  next
    case (Suc j)
    then have "j < n" using that by simp
    then have "undirty (dma_in (a + 1) n ?w) (a + 1 + j) \<and>
        mem (dma_in (a + 1) n ?w) (a + 1 + j) = miso ?w (received ?w + j)" using IH by blast
    then show ?thesis unfolding step using Suc by simp
  qed
  have out: "mem (dma_in a (Suc n) w) b = mem w b" if "undirty w b" "b < a \<or> a + Suc n \<le> b" for b
  proof -
    have "undirty ?w b" unfolding u using that(1) by (rule meddle_keeps)
    then have "mem (dma_in (a + 1) n ?w) b = mem ?w b" using IH that(2) by auto
    then show ?thesis unfolding step using that by (auto simp: meddle_keeps)
  qed
  have und: "\<forall>b. undirty w b \<longrightarrow> undirty (dma_in a (Suc n) w) b"
    unfolding step using IH u meddle_keeps(3) by blast
  have "mosi (dma_in a (Suc n) w) = mosi w" unfolding step using IH by simp
  then show ?case using later out und by blast
qed simp

lemma dma_in_coherent:
  "coherent w b v \<Longrightarrow> (\<And>i. i < n \<Longrightarrow> line (a + i) \<noteq> line b) \<Longrightarrow> coherent (dma_in a n w) b v"
proof (induction n arbitrary: a w)
  case (Suc n)
  let ?w = "(meddle w)\<lparr>mem := (mem (meddle w))(a := miso w (received w)), received := Suc (received w)\<rparr>"
  have "b \<noteq> a" using Suc.prems(2) [of 0] by auto
  then have "coherent ?w b v" using meddle_keeps(1) [OF Suc.prems(1)]
    by (auto simp: coherent_def split: option.splits)
  moreover have "line (a + 1 + i) \<noteq> line b" if "i < n" for i using Suc.prems(2) [of "Suc i"] that by simp
  ultimately show ?case using Suc.IH [of ?w "a + 1"] by (simp add: Let_def)
qed simp

lemma invalidate_other: "coherent w a v \<Longrightarrow> line a \<notin> set ls \<Longrightarrow> coherent (over_lines Invalidate ls w) a v"
  by (induction ls arbitrary: w) (simp_all add: line_op_def discard_keeps meddle_keeps)

lemma load_bytes_keeps:
  "(\<And>i. i < n \<Longrightarrow> coherent w (a + i) (f i)) \<Longrightarrow> coherent w b x \<Longrightarrow>
   coherent (snd (load_bytes (machine_platform dc) a n w)) b x"
proof (induction n arbitrary: a w f)
  case (Suc n)
  have c: "coherent w a (f 0)" using Suc.prems(1) [of 0] by simp
  let ?w = "snd (cpu_load a w)"
  have "coherent ?w (a + 1 + i) (f (Suc i))" if "i < n" for i
    using cpu_load_coherent [OF c] Suc.prems(1) [of "Suc i"] that by simp
  moreover have "coherent ?w b x" using cpu_load_coherent [OF c] Suc.prems(2) by blast
  ultimately show ?case using Suc.IH [of ?w "a + 1" "\<lambda>i. f (Suc i)"] by (simp add: case_prod_beta Let_def)
qed simp

subsection \<open>Receiving\<close>

lemma store_bytes_rest:
  "mosi (store_bytes (machine_platform dc) a vs w) = mosi w \<and> miso (store_bytes (machine_platform dc) a vs w) = miso w \<and>
   received (store_bytes (machine_platform dc) a vs w) = received w \<and>
   dma_job (store_bytes (machine_platform dc) a vs w) = dma_job w"
proof (induction vs arbitrary: a w)
  case (Cons v vs)
  have "mosi (cpu_store a v w) = mosi w \<and> miso (cpu_store a v w) = miso w \<and>
      received (cpu_store a v w) = received w \<and> dma_job (cpu_store a v w) = dma_job w"
    by (auto simp: cpu_store_def bring_def Let_def split: option.splits)
  then show ?case using Cons.IH [of "a + 1" "cpu_store a v w"] by simp
qed simp

lemma invalidate_armed:
  "buf_invalidate armed b w = over_lines Invalidate (buf_lines b) w"
  by (simp add: buf_invalidate_def cache_operation_lines armv7m_regs)

text \<open>From the invalidation before the engine runs to the bytes read after the second one.\<close>

lemma finished_rx:
  assumes "n \<le> buf_size b" "\<And>i. i < n \<Longrightarrow> undirty w (buf_addr b + i)"
  defines "w' \<equiv> buf_invalidate armed b (dma_in (buf_addr b) n w\<lparr>dma_job := NoJob, started := False\<rparr>)"
  shows "i < n \<Longrightarrow> coherent w' (buf_addr b + i) (miso w (received w + i))" "mosi w' = mosi w"
proof -
  let ?v = "dma_in (buf_addr b) n w\<lparr>dma_job := NoJob, started := False\<rparr>"
  have w': "w' = over_lines Invalidate (buf_lines b) ?v" by (simp add: w'_def invalidate_armed)
  note d = dma_in_undirty [of n w "buf_addr b", OF assms(2)]
  show "coherent w' (buf_addr b + i) (miso w (received w + i))" if "i < n"
  proof -
    have "undirty ?v (buf_addr b + i)" "mem ?v (buf_addr b + i) = miso w (received w + i)" using d that by auto
    then have "synced w' (buf_addr b + i) (miso w (received w + i))"
      unfolding w' using that assms(1) by (intro invalidate_lines(3) line_in_buf) auto
    then show ?thesis by (simp add: synced_def)
  qed
  show "mosi w' = mosi w" unfolding w' using d by simp
qed

lemma invalidated_undirty:
  "i < buf_size b \<Longrightarrow> undirty (buf_invalidate armed b w) (buf_addr b + i)"
  by (simp add: invalidate_armed invalidate_lines(2) line_in_buf)

lemma load_bytes_mosi: "mosi (snd (load_bytes (machine_platform dc) a n w)) = mosi w"
proof (induction n arbitrary: a w)
  case (Suc n)
  have "mosi (snd (cpu_load a w)) = mosi w" by (simp add: cpu_load_def bring_def Let_def)
  then show ?case using Suc.IH [of "a + 1" "snd (cpu_load a w)"] by (simp add: case_prod_beta Let_def)
qed simp

lemma receive_exact:
  assumes "n \<le> buf_size (rx_buffer d)"
  shows "\<exists>w2. receive armed d n w = (w2, Inr (map (\<lambda>i. miso w (received w + i)) [0..<n])) \<and>
    (\<forall>a v. line a \<notin> set (buf_lines (rx_buffer d)) \<longrightarrow> coherent w a v \<longrightarrow> coherent w2 a v)"
proof -
  let ?r = "buf_addr (rx_buffer d)"
  let ?w = "(buf_invalidate armed (rx_buffer d) w)\<lparr>dma_job := RxJob ?r n, started := True\<rparr>"
  let ?v = "buf_invalidate armed (rx_buffer d) (dma_in ?r n ?w\<lparr>dma_job := NoJob, started := False\<rparr>)"
  note inv = invalidate_armed
  have und: "undirty ?w (?r + i)" if "i < n" for i
    using invalidated_undirty [of i "rx_buffer d" w] that assms by simp
  have coh: "coherent ?v (?r + i) (miso w (received w + i))" if "i < n" for i
    using finished_rx(1) [OF assms und that] by (simp add: inv)
  have "fst (load_bytes armed ?r n ?v) = map (\<lambda>i. miso w (received w + i)) [0..<n]"
    by (rule load_bytes_coherent) (rule coh)
  moreover have "coherent (snd (load_bytes armed ?r n ?v)) a x"
    if a: "line a \<notin> set (buf_lines (rx_buffer d))" and c: "coherent w a x" for a x
  proof (rule load_bytes_keeps [OF coh])
    have "coherent ?w a x" using invalidate_other [OF c a] by (auto simp: inv coherent_def split: option.splits)
    moreover have "line (?r + i) \<noteq> line a" if "i < n" for i
      using line_in_buf [of i "rx_buffer d"] that assms a by auto
    ultimately have "coherent (dma_in ?r n ?w) a x" by (rule dma_in_coherent)
    then have "coherent (dma_in ?r n ?w\<lparr>dma_job := NoJob, started := False\<rparr>) a x"
      by (auto simp: coherent_def split: option.splits)
    from invalidate_other [OF this a] show "coherent ?v a x" unfolding inv .
  qed
  moreover have "receive armed d n w = (snd (load_bytes armed ?r n ?v), Inr (fst (load_bytes armed ?r n ?v)))"
    using assms by (simp add: receive_def run_job_def Let_def case_prod_beta)
  ultimately show ?thesis by auto
qed

lemma transfer_received:
  fixes w :: machine
  assumes "length data \<le> buf_size (tx_buffer d)" "length data \<le> buf_size (rx_buffer d)"
  defines "t \<equiv> buf_addr (tx_buffer d)" and "p \<equiv> buf_clean armed (tx_buffer d) (store_bytes armed (buf_addr (tx_buffer d)) data w)"
  assumes p: "miso p = miso w" "received p = received w"
  shows "\<exists>w3. transfer armed d data (length data) w =
      (w3, Inr (map (\<lambda>i. miso w (received w + i)) [0..<length data])) \<and>
    mosi w3 = mosi (dma_out t (length data) ((buf_invalidate armed (rx_buffer d) p)
      \<lparr>dma_job := DuplexJob t (buf_addr (rx_buffer d)) (length data), started := True\<rparr>))"
proof -
  let ?r = "buf_addr (rx_buffer d)" and ?n = "length data"
  let ?q = "(buf_invalidate armed (rx_buffer d) p)\<lparr>dma_job := DuplexJob t ?r ?n, started := True\<rparr>"
  let ?o = "dma_out t ?n ?q"
  let ?v = "buf_invalidate armed (rx_buffer d) (dma_in ?r ?n ?o\<lparr>dma_job := NoJob, started := False\<rparr>)"
  have fields: "miso ?o = miso w" "received ?o = received w"
    using dma_out_rest [of ?q 0 t ?n] p by (simp_all add: invalidate_armed)
  have und: "undirty ?o (?r + i)" if "i < ?n" for i
    using invalidated_undirty [of i "rx_buffer d" p] that assms(2) dma_out_rest [of ?q "?r + i" t ?n] by simp
  have "coherent ?v (?r + i) (miso w (received w + i))" if "i < ?n" for i
    using finished_rx(1) [OF assms(2) und that] by (simp add: fields)
  then have "fst (load_bytes armed ?r ?n ?v) = map (\<lambda>i. miso w (received w + i)) [0..<?n]"
    by (rule load_bytes_coherent)
  moreover have "mosi (snd (load_bytes armed ?r ?n ?v)) = mosi ?o"
    using finished_rx(2) [OF assms(2) und] by (simp add: load_bytes_mosi)
  moreover have "transfer armed d data ?n w = (snd (load_bytes armed ?r ?n ?v), Inr (fst (load_bytes armed ?r ?n ?v)))"
    using assms(1,2) by (simp add: transfer_def run_job_def Let_def case_prod_beta p_def t_def)
  ultimately show ?thesis by simp
qed

subsection \<open>Sending\<close>

lemma cache_loop_elsewhere:
  "armv7m reg = None \<Longrightarrow> mosi (cache_loop armed reg p e w) = mosi w \<and> miso (cache_loop armed reg p e w) = miso w \<and>
   received (cache_loop armed reg p e w) = received w \<and> dma_job (cache_loop armed reg p e w) = dma_job w"
proof (induction "armed" reg p e w rule: cache_loop.induct)
  case (1 reg p e w)
  then show ?case by (cases "p < e") (subst (1 2 3 4) cache_loop.simps, simp)+
qed

lemma cleaned_rest:
  "mosi (buf_clean armed b w) = mosi w" "miso (buf_clean armed b w) = miso w"
  "received (buf_clean armed b w) = received w" "dma_job (buf_clean armed b w) = dma_job w"
  using cache_loop_elsewhere [OF armv7m_regs(2)] by (simp_all add: buf_clean_def cache_operation_def Let_def)

lemma meddle_quiet: "meddling w = (\<lambda>_. []) \<Longrightarrow> meddle w = w\<lparr>ticks := Suc (ticks w)\<rparr>"
  by (simp add: meddle_def)

text \<open>Without replacement of lines, what memory holds changes only by the engine.\<close>

definition quiet :: "(nat \<Rightarrow> u8) \<Rightarrow> machine \<Rightarrow> bool" where
  "quiet m w \<longleftrightarrow> mem w = m \<and> meddling w = (\<lambda>_. [])"

lemma cache_loop_quiet: "armv7m reg = None \<Longrightarrow> quiet m w \<Longrightarrow> quiet m (cache_loop armed reg p e w)"
proof (induction "armed" reg p e w rule: cache_loop.induct)
  case (1 reg p e w)
  then show ?case by (cases "p < e") (subst cache_loop.simps, simp add: meddle_quiet quiet_def)+
qed

lemma buf_clean_quiet: "quiet m w \<Longrightarrow> quiet m (buf_clean armed b w)"
  using cache_loop_quiet [OF armv7m_regs(2)] by (simp add: buf_clean_def cache_operation_def Let_def)

lemma invalidate_quiet: "quiet m w \<Longrightarrow> quiet m (over_lines Invalidate ls w)"
  by (induction ls arbitrary: w) (simp_all add: line_op_def discard_def meddle_quiet quiet_def)

lemma store_bytes_quiet: "quiet m w \<Longrightarrow> quiet m (store_bytes armed a vs w)"
proof (induction vs arbitrary: a w)
  case (Cons v vs)
  have "quiet m (cpu_store a v w)"
    using Cons.prems by (auto simp: cpu_store_def bring_def meddle_quiet quiet_def Let_def split: option.splits)
  then show ?case using Cons.IH [of "cpu_store a v w" "a + 1"] by simp
qed simp

lemma dma_out_quiet: "quiet m w \<Longrightarrow> mosi (dma_out a n w) = mosi w @ map m [a..<a + n]"
proof (induction n arbitrary: a w)
  case (Suc n)
  let ?w = "w\<lparr>ticks := Suc (ticks w), mosi := mosi w @ [mem w a]\<rparr>"
  have "quiet m ?w" using Suc.prems by (simp add: quiet_def)
  from Suc.IH [OF this, of "a + 1"] Suc.prems show ?case
    by (simp add: quiet_def meddle_quiet Let_def upt_conv_Cons del: upt_Suc)
qed simp

lemma prepared_quiet: "quiet m w \<Longrightarrow> quiet m (buf_clean armed b (store_bytes armed a data w))"
  by (intro buf_clean_quiet store_bytes_quiet)

lemma empty_hooks_ops:
  "store_bytes (empty_hooks P) a vs w = store_bytes P a vs w"
  "buf_clean (empty_hooks P) b w = buf_clean P b w"
proof -
  show "store_bytes (empty_hooks P) a vs w = store_bytes P a vs w"
    by (induction vs arbitrary: a w) (simp_all add: empty_hooks_def)
  have "cache_loop (empty_hooks P) reg p e w = cache_loop P reg p e w" for reg p e w
  proof (induction P reg p e w rule: cache_loop.induct)
    case (1 P reg p e w)
    then show ?case by (subst (1 2) cache_loop.simps) (simp add: empty_hooks_def)
  qed
  then show "buf_clean (empty_hooks P) b w = buf_clean P b w"
    by (simp add: buf_clean_def cache_operation_def Let_def empty_hooks_def)
qed

subsection \<open>Properties\<close>


definition cold_machine :: machine where
  "cold_machine = \<lparr>mem = (\<lambda>_. 0xEE), cache = (\<lambda>_. None), meddling = (\<lambda>_. []), ticks = 0,
     dma_job = NoJob, started = False, mosi = [], miso = (\<lambda>i. of_nat (i + 7)), received = 0\<rparr>"

definition two_buffers :: spi_dma where
  "two_buffers = \<lparr>tx_buffer = \<lparr>buf_addr = 0, buf_size = 32\<rparr>, rx_buffer = \<lparr>buf_addr = 64, buf_size = 32\<rparr>\<rparr>"


end
