(* ===== verification/Utf8.thy ===== *)
theory Utf8
  imports Uproto_Prelude
begin

text \<open>
  Strings as the standard library sees them: \<open>str::from_utf8\<close>, the validity check, and
  \<open>String::from_utf8_lossy\<close>, which replaces every maximal ill-formed piece by U+FFFD, with
  \<open>trim_end_matches\<close> on one character. A Rust string is the list of its UTF-8 bytes.
\<close>

text \<open>
  \<open>std::str::from_utf8(data).is_ok()\<close>: the well-formed byte sequences of UTF-8 as the
  standard library accepts them, without overlong forms, surrogates and code points beyond
  U+10FFFF.
\<close>

definition utf8_cont :: "u8 \<Rightarrow> bool" where
  "utf8_cont b \<longleftrightarrow> 0x80 \<le> b \<and> b \<le> 0xBF"

definition utf8_second3 :: "u8 \<Rightarrow> u8 \<Rightarrow> bool" where
  "utf8_second3 a b \<longleftrightarrow>
     (a = 0xE0 \<and> 0xA0 \<le> b \<and> b \<le> 0xBF) \<or> (0xE1 \<le> a \<and> a \<le> 0xEC \<and> utf8_cont b) \<or>
     (a = 0xED \<and> 0x80 \<le> b \<and> b \<le> 0x9F) \<or> (0xEE \<le> a \<and> a \<le> 0xEF \<and> utf8_cont b)"

definition utf8_second4 :: "u8 \<Rightarrow> u8 \<Rightarrow> bool" where
  "utf8_second4 a b \<longleftrightarrow>
     (a = 0xF0 \<and> 0x90 \<le> b \<and> b \<le> 0xBF) \<or> (0xF1 \<le> a \<and> a \<le> 0xF3 \<and> utf8_cont b) \<or>
     (a = 0xF4 \<and> 0x80 \<le> b \<and> b \<le> 0x8F)"

fun is_valid_utf8 :: "bytes \<Rightarrow> bool" where
  "is_valid_utf8 [] = True"
| "is_valid_utf8 (a # bs) =
     (if a < 0x80 then is_valid_utf8 bs
      else if 0xC2 \<le> a \<and> a \<le> 0xDF then
        (case bs of b # cs \<Rightarrow> utf8_cont b \<and> is_valid_utf8 cs | _ \<Rightarrow> False)
      else if 0xE0 \<le> a \<and> a \<le> 0xEF then
        (case bs of b # c # ds \<Rightarrow> utf8_second3 a b \<and> utf8_cont c \<and> is_valid_utf8 ds | _ \<Rightarrow> False)
      else if 0xF0 \<le> a \<and> a \<le> 0xF4 then
        (case bs of b # c # d # es \<Rightarrow> utf8_second4 a b \<and> utf8_cont c \<and> utf8_cont d \<and> is_valid_utf8 es
         | _ \<Rightarrow> False)
      else False)"


text \<open>
  The decoder looks at a lead byte and the bytes after it. \<open>(True, n)\<close>: a well-formed scalar
  value that takes \<open>n\<close> more bytes. \<open>(False, n)\<close>: an ill-formed piece of \<open>n\<close> more bytes, the
  longest prefix that could have begun a scalar value.
\<close>

definition utf8_step :: "u8 \<Rightarrow> bytes \<Rightarrow> bool \<times> nat" where
  "utf8_step a bs =
     (if a < 0x80 then (True, 0)
      else if 0xC2 \<le> a \<and> a \<le> 0xDF then
        (case bs of b # _ \<Rightarrow> if utf8_cont b then (True, 1) else (False, 0) | _ \<Rightarrow> (False, 0))
      else if 0xE0 \<le> a \<and> a \<le> 0xEF then
        (case bs of
           b # cs \<Rightarrow>
             if \<not> utf8_second3 a b then (False, 0)
             else (case cs of c # _ \<Rightarrow> if utf8_cont c then (True, 2) else (False, 1) | _ \<Rightarrow> (False, 1))
         | _ \<Rightarrow> (False, 0))
      else if 0xF0 \<le> a \<and> a \<le> 0xF4 then
        (case bs of
           b # cs \<Rightarrow>
             if \<not> utf8_second4 a b then (False, 0)
             else (case cs of
                     c # ds \<Rightarrow>
                       if \<not> utf8_cont c then (False, 1)
                       else (case ds of d # _ \<Rightarrow> if utf8_cont d then (True, 3) else (False, 2)
                             | _ \<Rightarrow> (False, 2))
                   | _ \<Rightarrow> (False, 1))
         | _ \<Rightarrow> (False, 0))
      else (False, 0))"

definition replacement_character :: bytes where
  "replacement_character = [0xEF, 0xBF, 0xBD]"

function from_utf8_lossy :: "bytes \<Rightarrow> bytes" where
  "from_utf8_lossy [] = []"
| "from_utf8_lossy (a # bs) =
     (let (ok, n) = utf8_step a bs
      in (if ok then a # take n bs else replacement_character) @ from_utf8_lossy (drop n bs))"
  by pat_completeness auto
termination
  by (relation "measure length") (auto simp: less_Suc_eq_le)

text \<open>\<open>trim_end_matches\<close> with a one-byte character.\<close>

definition trim_end_matches :: "u8 \<Rightarrow> bytes \<Rightarrow> bytes" where
  "trim_end_matches c s = rev (dropWhile (\<lambda>b. b = c) (rev s))"

subsection \<open>Well-formed text is untouched, and the result is always well-formed\<close>

lemma is_valid_utf8_step:
  "is_valid_utf8 (a # bs) \<longleftrightarrow> (case utf8_step a bs of (ok, n) \<Rightarrow> ok \<and> is_valid_utf8 (drop n bs))"
  by (auto simp: utf8_step_def split: list.split)

lemma utf8_step_length: "utf8_step a bs = (ok, n) \<Longrightarrow> n \<le> length bs"
  by (auto simp: utf8_step_def split: list.splits if_splits)

lemma utf8_step_prefix:
  assumes "utf8_step a bs = (True, n)"
  shows "utf8_step a (take n bs @ cs) = (True, n)"
proof -
  consider "a < 0x80" | "\<not> a < 0x80" "0xC2 \<le> a \<and> a \<le> 0xDF"
    | "\<not> a < 0x80" "\<not> (0xC2 \<le> a \<and> a \<le> 0xDF)" "0xE0 \<le> a \<and> a \<le> 0xEF"
    | "\<not> a < 0x80" "\<not> (0xC2 \<le> a \<and> a \<le> 0xDF)" "\<not> (0xE0 \<le> a \<and> a \<le> 0xEF)"
    by blast
  then show ?thesis
  proof cases
    case 1
    then show ?thesis using assms by (simp add: utf8_step_def)
  next
    case 2
    then show ?thesis using assms
      by (cases bs) (auto simp: utf8_step_def split: if_splits)
  next
    case 3
    then show ?thesis using assms
      by (cases bs; cases "tl bs") (simp_all add: utf8_step_def split: if_splits)
  next
    case 4
    then show ?thesis using assms
      by (cases bs; cases "tl bs"; cases "tl (tl bs)") (simp_all add: utf8_step_def split: if_splits)
  qed
qed

lemma from_utf8_lossy_step:
  "utf8_step a bs = (ok, n) \<Longrightarrow> from_utf8_lossy (a # bs) =
     (if ok then a # take n bs else replacement_character) @ from_utf8_lossy (drop n bs)"
  by simp

lemma from_utf8_lossy_valid: "is_valid_utf8 s \<Longrightarrow> from_utf8_lossy s = s"
proof (induction s rule: from_utf8_lossy.induct)
  case (2 a bs)
  obtain ok n where step: "utf8_step a bs = (ok, n)" by fastforce
  then have "ok" "is_valid_utf8 (drop n bs)"
    using "2.prems" unfolding is_valid_utf8_step by simp_all
  moreover from this(2) have "from_utf8_lossy (drop n bs) = drop n bs"
    using "2.IH" [OF refl step [symmetric]] by simp
  ultimately show ?case unfolding from_utf8_lossy_step [OF step] by simp
qed simp

lemma replacement_valid: "is_valid_utf8 (replacement_character @ s) = is_valid_utf8 s"
  by (simp add: replacement_character_def utf8_second3_def utf8_cont_def)

lemma from_utf8_lossy_is_valid: "is_valid_utf8 (from_utf8_lossy s)"
proof (induction s rule: from_utf8_lossy.induct)
  case (2 a bs)
  obtain ok n where step: "utf8_step a bs = (ok, n)" by fastforce
  then have IH: "is_valid_utf8 (from_utf8_lossy (drop n bs))" using 2 by metis
  show ?case
  proof (cases ok)
    case True
    with step have "utf8_step a (take n bs @ from_utf8_lossy (drop n bs)) = (True, n)"
      by (simp add: utf8_step_prefix)
    moreover have "drop n (take n bs @ from_utf8_lossy (drop n bs)) = from_utf8_lossy (drop n bs)"
      using utf8_step_length [OF step] by simp
    ultimately show ?thesis using IH True
      unfolding from_utf8_lossy_step [OF step] if_P [OF True] append_Cons is_valid_utf8_step by simp
  next
    case False
    then show ?thesis using IH unfolding from_utf8_lossy_step [OF step] if_not_P [OF False]
      by (simp only: replacement_valid)
  qed
qed simp

lemma is_valid_utf8_ascii: "\<forall>b \<in> set s. b < 0x80 \<Longrightarrow> is_valid_utf8 s"
  by (induction s) auto

lemma trim_end_matches_id: "s = [] \<or> last s \<noteq> c \<Longrightarrow> trim_end_matches c s = s"
  by (cases s rule: rev_cases) (auto simp: trim_end_matches_def)

lemma trim_end_matches_padded:
  "s = [] \<or> last s \<noteq> c \<Longrightarrow> trim_end_matches c (s @ replicate n c) = s"
  by (cases s rule: rev_cases) (auto simp: trim_end_matches_def dropWhile_append)

text \<open>Cutting zero characters off the end keeps a string a string.\<close>

lemma utf8_step_snoc_zero:
  assumes "utf8_step a (bs @ [0]) = (True, n)"
  shows "utf8_step a bs = (True, n) \<and> n \<le> length bs"
proof -
  have no: "\<not> utf8_cont 0" "\<not> utf8_second3 a 0" "\<not> utf8_second4 a 0"
    by (simp_all add: utf8_cont_def utf8_second3_def utf8_second4_def)
  consider "a < 0x80" | "\<not> a < 0x80" "0xC2 \<le> a \<and> a \<le> 0xDF"
    | "\<not> a < 0x80" "\<not> (0xC2 \<le> a \<and> a \<le> 0xDF)" "0xE0 \<le> a \<and> a \<le> 0xEF"
    | "\<not> a < 0x80" "\<not> (0xC2 \<le> a \<and> a \<le> 0xDF)" "\<not> (0xE0 \<le> a \<and> a \<le> 0xEF)"
    by blast
  then show ?thesis
  proof cases
    case 1
    then show ?thesis using assms by (simp add: utf8_step_def)
  next
    case 2
    then show ?thesis using assms no by (cases bs) (auto simp: utf8_step_def split: if_splits)
  next
    case 3
    then show ?thesis using assms no
      by (cases bs; cases "tl bs") (auto simp: utf8_step_def split: if_splits)
  next
    case 4
    then show ?thesis using assms no
      by (cases bs; cases "tl bs"; cases "tl (tl bs)") (auto simp: utf8_step_def split: if_splits)
  qed
qed

lemma is_valid_utf8_snoc_zero: "is_valid_utf8 (s @ [0]) \<Longrightarrow> is_valid_utf8 s"
proof (induction s rule: from_utf8_lossy.induct)
  case (2 a bs)
  obtain ok n where step: "utf8_step a (bs @ [0]) = (ok, n)" by fastforce
  then have ok: "ok" "is_valid_utf8 (drop n (bs @ [0]))"
    using "2.prems" unfolding append_Cons is_valid_utf8_step by simp_all
  then have step': "utf8_step a bs = (True, n)" and n: "n \<le> length bs"
    using utf8_step_snoc_zero [of a bs n] step by simp_all
  have "is_valid_utf8 (drop n bs)"
    using "2.IH" [OF refl step' [symmetric]] ok(2) n by simp
  then show ?case unfolding is_valid_utf8_step step' by simp
qed simp

lemma trim_end_matches_valid: "is_valid_utf8 s \<Longrightarrow> is_valid_utf8 (trim_end_matches 0 s)"
proof (induction s rule: rev_induct)
  case (snoc b s)
  then show ?case using is_valid_utf8_snoc_zero [of s] by (cases "b = 0") (simp_all add: trim_end_matches_def)
qed (simp add: trim_end_matches_def)

subsection \<open>Characters\<close>

text \<open>\<open>str::chars\<close>: every character as its bytes.\<close>

function chars :: "bytes \<Rightarrow> bytes list" where
  "chars [] = []"
| "chars (a # bs) = (let n = snd (utf8_step a bs) in (a # take n bs) # chars (drop n bs))"
  by pat_completeness auto
termination
  by (relation "measure length") (auto simp: less_Suc_eq_le)

definition is_utf8_char :: "bytes \<Rightarrow> bool" where
  "is_utf8_char c \<longleftrightarrow> c \<noteq> [] \<and> utf8_step (hd c) (tl c) = (True, length (tl c))"

lemma chars_step:
  "utf8_step a bs = (ok, n) \<Longrightarrow> chars (a # bs) = (a # take n bs) # chars (drop n bs)"
  by simp

declare chars.simps(2) [simp del]

lemma concat_chars [simp]: "concat (chars s) = s"
proof (induction s rule: chars.induct)
  case (2 a bs)
  obtain ok n where step: "utf8_step a bs = (ok, n)" by fastforce
  then show ?case using 2 by (simp add: chars_step [OF step])
qed simp

lemma utf8_char_prefix:
  assumes "is_utf8_char (a # cs)"
  shows "utf8_step a (cs @ s) = (True, length cs)"
  using utf8_step_prefix [of a cs "length cs" s] assms by (simp add: is_utf8_char_def)

lemma chars_valid: "is_valid_utf8 s \<Longrightarrow> \<forall>c \<in> set (chars s). is_utf8_char c"
proof (induction s rule: chars.induct)
  case (2 a bs)
  obtain ok n where step: "utf8_step a bs = (ok, n)" by fastforce
  then have ok: "utf8_step a bs = (True, n)" and rest: "is_valid_utf8 (drop n bs)"
    using "2.prems" unfolding is_valid_utf8_step by simp_all
  have "is_utf8_char (a # take n bs)"
    using utf8_step_prefix [OF ok, of "[]"] utf8_step_length [OF ok] by (simp add: is_utf8_char_def)
  moreover have "\<forall>c \<in> set (chars (drop n bs)). is_utf8_char c" using "2.IH" [of n] rest ok by simp
  ultimately show ?case unfolding chars_step [OF step] by simp
qed simp

lemma valid_append_char: "is_utf8_char c \<Longrightarrow> is_valid_utf8 (c @ s) = is_valid_utf8 s"
  using utf8_char_prefix [of "hd c" "tl c" s]
  by (cases c) (simp_all add: is_utf8_char_def is_valid_utf8_step del: is_valid_utf8.simps(2))

lemma chars_append_char: "is_utf8_char c \<Longrightarrow> chars (c @ s) = c # chars s"
  using utf8_char_prefix [of "hd c" "tl c" s] by (cases c) (simp_all add: is_utf8_char_def chars_step)

lemma concat_utf8_chars:
  "\<forall>c \<in> set cs. is_utf8_char c \<Longrightarrow> is_valid_utf8 (concat cs) \<and> chars (concat cs) = cs"
  by (induction cs) (simp_all add: valid_append_char chars_append_char)

lemma chars_append: "is_valid_utf8 s \<Longrightarrow> chars (s @ t) = chars s @ chars t"
proof -
  have "\<forall>c \<in> set cs. is_utf8_char c \<Longrightarrow> chars (concat cs @ t) = cs @ chars t" for cs
    by (induction cs) (simp_all add: chars_append_char)
  then show "is_valid_utf8 s \<Longrightarrow> chars (s @ t) = chars s @ chars t"
    using chars_valid [of s] concat_chars [of s] by metis
qed

lemma valid_append: "is_valid_utf8 s \<Longrightarrow> is_valid_utf8 (s @ t) = is_valid_utf8 t"
proof -
  have "\<forall>c \<in> set cs. is_utf8_char c \<Longrightarrow> is_valid_utf8 (concat cs @ t) = is_valid_utf8 t" for cs
    by (induction cs) (simp_all add: valid_append_char)
  then show "is_valid_utf8 s \<Longrightarrow> is_valid_utf8 (s @ t) = is_valid_utf8 t"
    using chars_valid [of s] concat_chars [of s] by metis
qed

text \<open>A character is one ASCII byte or consists of bytes beyond ASCII.\<close>

lemma utf8_char_cases:
  assumes "is_utf8_char c"
  obtains b where "c = [b]" "b < 0x80" | "\<forall>b \<in> set c. \<not> b < 0x80" "1 < length c"
proof (cases "hd c < 0x80")
  case True
  then have "c = [hd c]" using assms by (cases c) (auto simp: is_utf8_char_def utf8_step_def)
  then show ?thesis using that(1) True by blast
next
  case False
  have second: "utf8_cont y \<or> utf8_second3 x y \<or> utf8_second4 x y \<Longrightarrow> \<not> y < 0x80" for x y
    by (auto simp: utf8_cont_def utf8_second3_def utf8_second4_def not_less intro: order_trans [rotated])
  obtain a cs where c: "c = a # cs" using assms by (cases c) (auto simp: is_utf8_char_def)
  then have "\<forall>b \<in> set cs. \<not> b < 0x80" "cs \<noteq> []"
    using assms False second [of _ a] second unfolding is_utf8_char_def utf8_step_def
    by (auto split: list.splits if_splits)
  then show ?thesis using that(2) False c by (cases cs) auto
qed

lemma chars_ascii: "\<forall>b \<in> set s. b < 0x80 \<Longrightarrow> chars s = map (\<lambda>b. [b]) s"
  by (induction s) (simp_all add: chars_step [where ok = True and n = 0] utf8_step_def)

end
