(* ===== verification/Mqtt_Sn_Gateway.thy ===== *)
theory Mqtt_Sn_Gateway
  imports Wire_Interface Utf8
begin

unbundle bit_operations_syntax

text \<open>
  The MQTT-SN gateway (\<open>MQTT/src/57/MQTT_SN_Gateway_Implementation.rs\<close>): its topic and client
  tables, one handler per message type and the receive loop. What a handler sends to a UDP peer
  or asks of the MQTT client is recorded as a list of actions; their failures are only printed
  by the source and change nothing. The \<open>bytes\<close> crate is a parameter \<open>B\<close>: \<open>put_u8\<close> and
  \<open>put_u16\<close> append to a buffer, \<open>get_u16\<close> takes from the front of one. Socket addresses are an
  arbitrary type. The handlers run one after the other, as \<open>run\<close> awaits each of them. Overflow
  of the \<open>u16\<close> identifier counter and of \<open>usize\<close> arithmetic follow the build profile.
\<close>

subsection \<open>State and actions\<close>

record byte_buffers =
  put_u8 :: "bytes \<Rightarrow> u8 \<Rightarrow> bytes"
  put_u16 :: "bytes \<Rightarrow> u16 \<Rightarrow> bytes"
  get_u16 :: "bytes \<Rightarrow> (u16 \<times> bytes) run"

record 'a client_info =
  address :: 'a
  client_id :: bytes

record 'a gateway =
  topic_id_map :: "u16 \<Rightarrow> bytes option"
  topic_name_map :: "bytes \<Rightarrow> u16 option"
  client_map :: "bytes \<Rightarrow> 'a client_info option"
  next_topic_id :: u16

datatype 'a action = SendTo bytes 'a | MqttPublish bytes bytes | MqttSubscribe bytes

definition gateway_new :: "'a gateway" where
  "gateway_new = \<lparr>topic_id_map = (\<lambda>_. None), topic_name_map = (\<lambda>_. None), client_map = (\<lambda>_. None),
     next_topic_id = 1\<rparr>"

definition MQTTSN_SEARCHGW :: u8 where [simp]: "MQTTSN_SEARCHGW = 0x01"
definition MQTTSN_GWINFO :: u8 where [simp]: "MQTTSN_GWINFO = 0x02"
definition MQTTSN_CONNECT :: u8 where [simp]: "MQTTSN_CONNECT = 0x04"
definition MQTTSN_CONNACK :: u8 where [simp]: "MQTTSN_CONNACK = 0x05"
definition MQTTSN_REGISTER :: u8 where [simp]: "MQTTSN_REGISTER = 0x0A"
definition MQTTSN_REGACK :: u8 where [simp]: "MQTTSN_REGACK = 0x0B"
definition MQTTSN_PUBLISH :: u8 where [simp]: "MQTTSN_PUBLISH = 0x0C"
definition MQTTSN_PUBACK :: u8 where [simp]: "MQTTSN_PUBACK = 0x0D"
definition MQTTSN_SUBSCRIBE :: u8 where [simp]: "MQTTSN_SUBSCRIBE = 0x12"
definition MQTTSN_SUBACK :: u8 where [simp]: "MQTTSN_SUBACK = 0x13"
definition MQTTSN_PINGREQ :: u8 where [simp]: "MQTTSN_PINGREQ = 0x16"
definition MQTTSN_PINGRESP :: u8 where [simp]: "MQTTSN_PINGRESP = 0x17"
definition MQTTSN_DISCONNECT :: u8 where [simp]: "MQTTSN_DISCONNECT = 0x18"
definition MQTTSN_RC_ACCEPTED :: u8 where [simp]: "MQTTSN_RC_ACCEPTED = 0x00"

subsection \<open>Handlers\<close>

type_synonym 'a handled = "('a gateway \<times> 'a action list) run"

definition handle_searchgw :: "byte_buffers \<Rightarrow> 'a gateway \<Rightarrow> 'a \<Rightarrow> 'a handled" where
  "handle_searchgw B g addr =
     Some (g, [SendTo (put_u8 B (put_u8 B (put_u8 B [] 3) MQTTSN_GWINFO) 1) addr])"

definition unknown_client :: bytes where
  "unknown_client = map (\<lambda>c. of_nat (of_char c)) ''unknown''"

definition handle_connect :: "profile \<Rightarrow> byte_buffers \<Rightarrow> 'a gateway \<Rightarrow> bytes \<Rightarrow> 'a \<Rightarrow> 'a handled" where
  "handle_connect p B g data addr =
     (if length data < 6 then Some (g, [])
      else do {
        client_id_len \<leftarrow> profile_sub p (unat (data ! 0)) 6;
        client_id_end \<leftarrow> profile_add p 6 client_id_len;
        cid \<leftarrow> (if client_id_end \<le> length data
                then do { s \<leftarrow> sub_slice data 6 client_id_end; Some (from_utf8_lossy s) }
                else Some unknown_client);
        Some (g\<lparr>client_map := (client_map g)(cid \<mapsto> \<lparr>address = addr, client_id = cid\<rparr>)\<rparr>,
          [SendTo (put_u8 B (put_u8 B (put_u8 B [] 3) MQTTSN_CONNACK) MQTTSN_RC_ACCEPTED) addr])
      })"

definition incr_u16 :: "profile \<Rightarrow> u16 \<Rightarrow> u16 run" where
  "incr_u16 p w = (if p = CheckedBuild \<and> w = - 1 then None else Some (w + 1))"

text \<open>The allocation both \<open>handle_register\<close> and \<open>handle_subscribe\<close> perform.\<close>

definition allocate_topic :: "profile \<Rightarrow> 'a gateway \<Rightarrow> bytes \<Rightarrow> ('a gateway \<times> u16) run" where
  "allocate_topic p g topic_name = do {
     let topic_id = next_topic_id g;
     next_id \<leftarrow> incr_u16 p topic_id;
     Some (g\<lparr>next_topic_id := next_id,
             topic_id_map := (topic_id_map g)(topic_id \<mapsto> topic_name),
             topic_name_map := (topic_name_map g)(topic_name \<mapsto> topic_id)\<rparr>, topic_id)
   }"

definition handle_register :: "profile \<Rightarrow> byte_buffers \<Rightarrow> 'a gateway \<Rightarrow> bytes \<Rightarrow> 'a \<Rightarrow> 'a handled" where
  "handle_register p B g data addr =
     (if length data < 7 then Some (g, [])
      else do {
        (topic_id_from_client, cursor) \<leftarrow> get_u16 B (drop 2 data);
        (msg_id, cursor) \<leftarrow> get_u16 B cursor;
        let topic_name = trim_end_matches 0 (from_utf8_lossy (drop 6 data));
        (g, topic_id) \<leftarrow> allocate_topic p g topic_name;
        Some (g, [SendTo (put_u8 B (put_u16 B (put_u16 B (put_u8 B (put_u8 B [] 7) MQTTSN_REGACK)
                    topic_id) msg_id) MQTTSN_RC_ACCEPTED) addr])
      })"

definition u16_from_be :: "u8 \<Rightarrow> u8 \<Rightarrow> u16" where
  "u16_from_be a b = of_nat (be_nat [a, b])"

definition handle_publish :: "byte_buffers \<Rightarrow> 'a gateway \<Rightarrow> bytes \<Rightarrow> 'a \<Rightarrow> 'a handled" where
  "handle_publish B g data addr =
     (if length data < 8 then Some (g, [])
      else
        (let flags = data ! 2; topic_id = u16_from_be (data ! 3) (data ! 4);
             msg_id = u16_from_be (data ! 5) (data ! 6); payload = drop 7 data
         in case topic_id_map g topic_id of
              None \<Rightarrow> Some (g, [])
            | Some topic_name \<Rightarrow>
                Some (g, MqttPublish topic_name payload #
                  (if flags AND 0x60 \<noteq> 0
                   then [SendTo (put_u8 B (put_u16 B (put_u16 B (put_u8 B (put_u8 B [] 7) MQTTSN_PUBACK)
                           topic_id) msg_id) MQTTSN_RC_ACCEPTED) addr]
                   else []))))"

definition handle_subscribe :: "profile \<Rightarrow> byte_buffers \<Rightarrow> 'a gateway \<Rightarrow> bytes \<Rightarrow> 'a \<Rightarrow> 'a handled" where
  "handle_subscribe p B g data addr =
     (if length data < 6 then Some (g, [])
      else do {
        let msg_id = u16_from_be (data ! 3) (data ! 4);
        let topic_name = trim_end_matches 0 (from_utf8_lossy (drop 5 data));
        (g, topic_id) \<leftarrow> (case topic_name_map g topic_name of
            Some i \<Rightarrow> Some (g, i)
          | None \<Rightarrow> allocate_topic p g topic_name);
        Some (g, [MqttSubscribe topic_name,
          SendTo (put_u8 B (put_u16 B (put_u16 B (put_u8 B (put_u8 B (put_u8 B [] 8) MQTTSN_SUBACK) 0)
            topic_id) msg_id) MQTTSN_RC_ACCEPTED) addr])
      })"

definition handle_pingreq :: "byte_buffers \<Rightarrow> 'a gateway \<Rightarrow> 'a \<Rightarrow> 'a handled" where
  "handle_pingreq B g addr = Some (g, [SendTo (put_u8 B (put_u8 B [] 2) MQTTSN_PINGRESP) addr])"

definition handle_disconnect :: "'a gateway \<Rightarrow> 'a \<Rightarrow> 'a handled" where
  "handle_disconnect g addr = Some (g, [])"

definition handle_message :: "profile \<Rightarrow> byte_buffers \<Rightarrow> 'a gateway \<Rightarrow> bytes \<Rightarrow> 'a \<Rightarrow> 'a handled" where
  "handle_message p B g data addr =
     (if length data < 2 then Some (g, [])
      else (let msg_type = data ! 1 in
        if msg_type = MQTTSN_SEARCHGW then handle_searchgw B g addr
        else if msg_type = MQTTSN_CONNECT then handle_connect p B g data addr
        else if msg_type = MQTTSN_REGISTER then handle_register p B g data addr
        else if msg_type = MQTTSN_PUBLISH then handle_publish B g data addr
        else if msg_type = MQTTSN_SUBSCRIBE then handle_subscribe p B g data addr
        else if msg_type = MQTTSN_PINGREQ then handle_pingreq B g addr
        else if msg_type = MQTTSN_DISCONNECT then handle_disconnect g addr
        else Some (g, [])))"

text \<open>
  The receive loop on the datagrams that arrive, each cut to the 1024 bytes of the buffer.
\<close>

fun gateway_run :: "profile \<Rightarrow> byte_buffers \<Rightarrow> 'a gateway \<Rightarrow> (bytes \<times> 'a) list \<Rightarrow> 'a handled" where
  "gateway_run p B g [] = Some (g, [])"
| "gateway_run p B g ((datagram, addr) # rest) = do {
     let data = take 1024 datagram;
     (g, acts) \<leftarrow> (if 2 \<le> length data then handle_message p B g data addr else Some (g, []));
     (g, acts') \<leftarrow> gateway_run p B g rest;
     Some (g, acts @ acts')
   }"

subsection \<open>The documented behaviour of the buffers\<close>

definition big_endian_buffers :: "byte_buffers \<Rightarrow> bool" where
  "big_endian_buffers B \<longleftrightarrow> (\<forall>bs w. put_u8 B bs w = bs @ [w]) \<and>
     (\<forall>bs w. put_u16 B bs w = bs @ be_bytes 2 (unat w)) \<and>
     (\<forall>a b bs. get_u16 B (a # b # bs) = Some (u16_from_be a b, bs))"

definition plain_buffers :: byte_buffers where
  "plain_buffers = \<lparr>put_u8 = (\<lambda>bs w. bs @ [w]), put_u16 = (\<lambda>bs w. bs @ be_bytes 2 (unat w)),
     get_u16 = (\<lambda>bs. case bs of a # b # cs \<Rightarrow> Some (u16_from_be a b, cs) | _ \<Rightarrow> None)\<rparr>"

lemma plain_buffers_big_endian: "big_endian_buffers plain_buffers"
  by (simp add: big_endian_buffers_def plain_buffers_def)

subsection \<open>Topic tables\<close>

text \<open>
  The identifiers handed out are exactly those from 1 up to the counter, each stands for one
  topic, and the table of names points back into the table of identifiers.
\<close>

definition topics_ok :: "'a gateway \<Rightarrow> bool" where
  "topics_ok g \<longleftrightarrow> 1 \<le> next_topic_id g \<and>
     (\<forall>i. topic_id_map g i \<noteq> None \<longleftrightarrow> 1 \<le> i \<and> i < next_topic_id g) \<and>
     (\<forall>name i. topic_name_map g name = Some i \<longrightarrow> topic_id_map g i = Some name)"

definition topics_grow :: "'a gateway \<Rightarrow> 'a gateway \<Rightarrow> bool" where
  "topics_grow g g' \<longleftrightarrow> topics_ok g' \<and> topic_id_map g \<subseteq>\<^sub>m topic_id_map g' \<and>
     next_topic_id g \<le> next_topic_id g'"

lemma topics_grow_refl: "topics_ok g \<Longrightarrow> topics_grow g g"
  by (simp add: topics_grow_def)

lemma topics_grow_trans: "topics_grow g h \<Longrightarrow> topics_grow h k \<Longrightarrow> topics_grow g k"
  unfolding topics_grow_def using map_le_trans order_trans by blast

lemma topics_ok_new: "topics_ok gateway_new"
  unfolding topics_ok_def gateway_new_def by auto

lemma u16_less_Suc:
  assumes "w \<noteq> - 1"
  shows "i < w + 1 \<longleftrightarrow> i \<le> (w :: u16)"
proof -
  have "1 + w \<noteq> 0" using assms by (metis add.commute eq_neg_iff_add_eq_0)
  then have "unat (w + 1) = Suc (unat w)" using unatSuc [of w] by (simp add: add.commute)
  then show ?thesis by (simp add: word_less_nat_alt word_le_nat_alt less_Suc_eq_le)
qed

lemma allocate_grow:
  assumes "topics_ok g" "allocate_topic p g name = Some (g', i)" "p = CheckedBuild \<or> next_topic_id g \<noteq> - 1"
  shows "topics_grow g g' \<and> i = next_topic_id g \<and> topic_id_map g' i = Some name"
proof -
  from assms(2,3) have i: "i = next_topic_id g" and top: "i \<noteq> - 1"
    and g': "g' = g\<lparr>next_topic_id := i + 1, topic_id_map := (topic_id_map g)(i \<mapsto> name),
             topic_name_map := (topic_name_map g)(name \<mapsto> i)\<rparr>"
    by (auto simp: allocate_topic_def incr_u16_def Let_def split: bind_splits if_splits)
  have fresh: "topic_id_map g i = None"
    using assms(1) i by (auto simp: topics_ok_def simp del: not_None_eq)
  have le: "i \<le> i + 1" "1 \<le> i + 1"
    using top u16_less_Suc [OF top, of i] assms(1) i by (auto simp: topics_ok_def)
  have "topics_ok g'"
    using assms(1) i fresh le u16_less_Suc [OF top] unfolding topics_ok_def g'
    by (auto simp: simp del: not_None_eq)
  then show ?thesis using i fresh le unfolding topics_grow_def g' by (auto simp: map_le_def dom_def)
qed

subsection \<open>Every handler keeps the tables\<close>

lemmas same_topics = topics_grow_refl

lemma topics_grow_client_map:
  "topics_ok g \<Longrightarrow> topics_grow g (g\<lparr>client_map := m\<rparr>)"
  by (simp add: topics_grow_def topics_ok_def)

lemma handle_connect_grow:
  "topics_ok g \<Longrightarrow> handle_connect p B g data addr = Some (g', acts) \<Longrightarrow> topics_grow g g'"
  by (auto simp: handle_connect_def split: if_splits bind_splits
      intro: topics_grow_client_map same_topics)

lemma handle_register_grow:
  "topics_ok g \<Longrightarrow> handle_register p B g data addr = Some (g', acts) \<Longrightarrow>
     p = CheckedBuild \<or> next_topic_id g \<noteq> - 1 \<Longrightarrow> topics_grow g g'"
  using allocate_grow
  by (fastforce simp: handle_register_def Let_def split: if_splits bind_splits intro: same_topics)

lemma handle_publish_grow:
  "topics_ok g \<Longrightarrow> handle_publish B g data addr = Some (g', acts) \<Longrightarrow> topics_grow g g'"
  by (auto simp: handle_publish_def Let_def split: if_splits option.splits intro: same_topics)

lemma handle_subscribe_grow:
  "topics_ok g \<Longrightarrow> handle_subscribe p B g data addr = Some (g', acts) \<Longrightarrow>
     p = CheckedBuild \<or> next_topic_id g \<noteq> - 1 \<Longrightarrow> topics_grow g g'"
  using allocate_grow
  by (fastforce simp: handle_subscribe_def Let_def split: if_splits bind_splits option.splits
      intro: same_topics)

text \<open>
  The datagrams that may take a fresh identifier; the room for \<open>n\<close> more of them is all the
  release build needs, while the checked build would rather panic than run out.
\<close>

definition requests_topic :: "bytes \<Rightarrow> bool" where
  "requests_topic data \<longleftrightarrow> 2 \<le> length data \<and> data ! 1 \<in> {MQTTSN_REGISTER, MQTTSN_SUBSCRIBE}"

definition topic_requests :: "(bytes \<times> 'a) list \<Rightarrow> nat" where
  "topic_requests ds = length (filter (requests_topic \<circ> fst) ds)"

definition room :: "profile \<Rightarrow> nat \<Rightarrow> 'a gateway \<Rightarrow> bool" where
  "room p n g \<longleftrightarrow> p = CheckedBuild \<or> unat (next_topic_id g) + n < 2 ^ 16"

lemma requests_topic_take [simp]: "requests_topic (take 1024 data) = requests_topic data"
  by (simp add: requests_topic_def)

lemma room_not_top: "room p (Suc n) g \<Longrightarrow> p = CheckedBuild \<or> next_topic_id g \<noteq> - 1"
  by (auto simp: room_def unsigned_minus_1_eq_mask mask_eq_exp_minus_1)

lemma allocate_counter: "allocate_topic p g name = Some (g', i) \<Longrightarrow> next_topic_id g' = next_topic_id g + 1"
  by (auto simp: allocate_topic_def incr_u16_def Let_def split: bind_splits if_splits)

lemma handle_message_counter:
  assumes "handle_message p B g data addr = Some (g', acts)"
  shows "next_topic_id g' = next_topic_id g \<or> requests_topic data \<and> next_topic_id g' = next_topic_id g + 1"
  using assms allocate_counter unfolding handle_message_def Let_def
  by (fastforce simp: handle_searchgw_def handle_pingreq_def handle_disconnect_def handle_connect_def
      handle_register_def handle_publish_def handle_subscribe_def requests_topic_def Let_def
      split: if_splits bind_splits option.splits)

lemma handle_message_room:
  assumes "handle_message p B g data addr = Some (g', acts)"
    and "room p ((if requests_topic data then 1 else 0) + n) g"
  shows "room p n g'"
proof -
  have "unat (w + 1) \<le> Suc (unat w)" for w :: u16
    by (metis Suc_eq_plus1 le_refl unatSuc add.commute unat_0 zero_le)
  from this [of "next_topic_id g"] show ?thesis
    using handle_message_counter [OF assms(1)] assms(2) by (auto simp: room_def)
qed

lemma handle_message_grow:
  assumes "topics_ok g" "handle_message p B g data addr = Some (g', acts)"
    and "room p (if requests_topic data then 1 else 0) g"
  shows "topics_grow g g'"
proof (cases "requests_topic data")
  case True
  then have "p = CheckedBuild \<or> next_topic_id g \<noteq> - 1" using assms(3) room_not_top [of p 0 g] by simp
  then show ?thesis using assms(1,2) unfolding handle_message_def Let_def
    by (auto simp: handle_searchgw_def handle_pingreq_def handle_disconnect_def same_topics
        split: if_splits
        intro: handle_connect_grow handle_register_grow handle_publish_grow handle_subscribe_grow)
next
  case False
  then show ?thesis using assms(1,2) unfolding handle_message_def Let_def
    by (auto simp: handle_searchgw_def handle_pingreq_def handle_disconnect_def same_topics
        requests_topic_def split: if_splits intro: handle_connect_grow handle_publish_grow)
qed

lemma gateway_run_grow:
  assumes "topics_ok g" "gateway_run p B g ds = Some (g', acts)" "room p (topic_requests ds + n) g"
  shows "topics_grow g g' \<and> room p n g'"
  using assms
proof (induction p B g ds arbitrary: g' acts rule: gateway_run.induct)
  case (2 p B g datagram addr rest)
  let ?data = "take 1024 datagram"
  obtain h acts1 acts2 where
    h: "(if 2 \<le> length ?data then handle_message p B g ?data addr else Some (g, [])) = Some (h, acts1)"
    and rest: "gateway_run p B h rest = Some (g', acts2)"
    using "2.prems"(2) by (auto simp: Let_def simp del: length_take split: bind_splits)
  let ?k = "if requests_topic ?data then 1 else 0 :: nat"
  have room: "room p (?k + (topic_requests rest + n)) g" "room p ?k g"
    using "2.prems"(3) by (auto simp: topic_requests_def room_def)
  have "topics_grow g h \<and> room p (topic_requests rest + n) h"
  proof (cases "2 \<le> length ?data")
    case True
    with h have m: "handle_message p B g ?data addr = Some (h, acts1)" by (simp del: length_take)
    from handle_message_grow [OF "2.prems"(1) m room(2)] handle_message_room [OF m room(1)]
    show ?thesis ..
  next
    case False
    then have "h = g" "\<not> requests_topic ?data"
      using h by (simp_all add: requests_topic_def del: length_take)
    then show ?thesis using "2.prems"(1) room(1) by (simp add: same_topics)
  qed
  moreover from this have "topics_grow h g' \<and> room p n g'"
    using "2.IH" [OF refl h refl _ rest] by (simp add: topics_grow_def)
  ultimately show ?case using topics_grow_trans by blast
qed (simp add: same_topics topic_requests_def)

lemma room_checked [simp]: "room CheckedBuild n g"
  by (simp add: room_def)

text \<open>
  After any sequence of datagrams the checked build survives, the topic tables are
  consistent: the identifiers in use are exactly those from 1 up to the counter, and every name
  that has an identifier is what that identifier stands for.
\<close>

theorem gateway_topics_consistent:
  assumes "gateway_run CheckedBuild B gateway_new ds = Some (g, acts)"
  shows "1 \<le> next_topic_id g \<and>
     (\<forall>i. topic_id_map g i \<noteq> None \<longleftrightarrow> 1 \<le> i \<and> i < next_topic_id g) \<and>
     (\<forall>name i. topic_name_map g name = Some i \<longrightarrow> topic_id_map g i = Some name)"
  using gateway_run_grow [OF topics_ok_new assms, of 0] by (simp add: topics_grow_def topics_ok_def)

definition example_register :: bytes where
  "example_register = [9, 0x0A, 0, 0, 0, 7, 0x61, 0x2F, 0x62]"

theorem gateway_topics_consistent_witness:
  "\<exists>g acts. gateway_run CheckedBuild plain_buffers gateway_new [(example_register, ())] = Some (g, acts) \<and>
     (\<forall>i. topic_id_map g i \<noteq> None \<longleftrightarrow> 1 \<le> i \<and> i < next_topic_id g)"
proof -
  have "\<exists>g acts. gateway_run CheckedBuild plain_buffers gateway_new [(example_register, ())] = Some (g, acts)"
    by (simp add: example_register_def handle_message_def handle_register_def plain_buffers_def
        allocate_topic_def gateway_new_def incr_u16_def Let_def)
  then show ?thesis using gateway_topics_consistent by blast
qed

subsection \<open>When a datagram brings the gateway down\<close>

lemma wrap_client_id_end:
  assumes "a < 6"
  shows "wrap_add 6 (wrap_sub a 6) = a"
proof -
  have six: "(6::nat) mod usize_bound = 6" by simp
  have "wrap_add 6 (wrap_sub a 6) = (6 + (a + (usize_bound - 6))) mod usize_bound"
    unfolding wrap_add_def wrap_sub_def six by (rule mod_add_right_eq)
  also have "6 + (a + (usize_bound - 6)) = a + usize_bound" by simp
  also have "(a + usize_bound) mod usize_bound = a mod usize_bound" by (rule mod_add_self2)
  also have "\<dots> = a" using assms by simp
  finally show ?thesis .
qed

lemma handle_connect_panics:
  "handle_connect p B g data addr = None \<longleftrightarrow> 6 \<le> length data \<and> data ! 0 < 6"
proof (cases "6 \<le> length data")
  case True
  have small: "data ! 0 < 6 \<longleftrightarrow> unat (data ! 0) < 6" by (simp add: word_less_nat_alt)
  show ?thesis
  proof (cases "unat (data ! 0) < 6")
    case True
    then show ?thesis using \<open>6 \<le> length data\<close> small
      by (cases p) (simp_all add: handle_connect_def profile_sub_def profile_add_def usub_def
          wrap_client_id_end sub_slice_def)
  next
    case False
    have "unat (data ! 0) < usize_bound" using u8_bound [of "data ! 0"] by simp
    then have "profile_sub p (unat (data ! 0)) 6 = Some (unat (data ! 0) - 6)"
      and "profile_add p 6 (unat (data ! 0) - 6) = Some (unat (data ! 0))"
      using False by (simp_all add: profile_sub_ok profile_add_ok)
    then show ?thesis using False \<open>6 \<le> length data\<close> small
      by (simp add: handle_connect_def sub_slice_def)
  qed
qed (simp add: handle_connect_def)

lemma allocate_panics:
  "allocate_topic p g name = None \<longleftrightarrow> p = CheckedBuild \<and> next_topic_id g = - 1"
  by (simp add: allocate_topic_def incr_u16_def Let_def)

lemma register_header:
  assumes "big_endian_buffers B" "7 \<le> length data"
  shows "get_u16 B (drop 2 data) = Some (u16_from_be (data ! 2) (data ! 3), drop 4 data)"
    and "get_u16 B (drop 4 data) = Some (u16_from_be (data ! 4) (data ! 5), drop 6 data)"
proof -
  have "drop 2 data = data ! 2 # data ! 3 # drop 4 data" "drop 4 data = data ! 4 # data ! 5 # drop 6 data"
    using assms(2) Cons_nth_drop_Suc [of 2 data] Cons_nth_drop_Suc [of 3 data]
      Cons_nth_drop_Suc [of 4 data] Cons_nth_drop_Suc [of 5 data]
    by (simp_all add: eval_nat_numeral)
  then show "get_u16 B (drop 2 data) = Some (u16_from_be (data ! 2) (data ! 3), drop 4 data)"
    "get_u16 B (drop 4 data) = Some (u16_from_be (data ! 4) (data ! 5), drop 6 data)"
    using assms(1) by (simp_all add: big_endian_buffers_def)
qed

lemma handle_register_panics:
  assumes "big_endian_buffers B"
  shows "handle_register p B g data addr = None \<longleftrightarrow>
    7 \<le> length data \<and> p = CheckedBuild \<and> next_topic_id g = - 1"
  using register_header [OF assms, of data] allocate_panics [of p g]
  by (auto simp: handle_register_def Let_def not_less split: bind_splits)

lemma handle_subscribe_panics:
  "handle_subscribe p B g data addr = None \<longleftrightarrow> 6 \<le> length data \<and> p = CheckedBuild \<and>
     next_topic_id g = - 1 \<and> topic_name_map g (trim_end_matches 0 (from_utf8_lossy (drop 5 data))) = None"
  using allocate_panics [of p g]
  by (auto simp: handle_subscribe_def Let_def not_less split: bind_splits option.splits)

text \<open>
  A datagram panics the gateway exactly in two situations: a CONNECT of at least six bytes
  whose length byte is below six, in either build profile, and, in the checked build with the
  identifier counter at 65535, a REGISTER or a SUBSCRIBE to a name that has none. Every other
  datagram, however short or malformed, is survived.
\<close>

theorem handle_message_panics_iff:
  assumes "big_endian_buffers B"
  shows "handle_message p B g data addr = None \<longleftrightarrow> 2 \<le> length data \<and>
    (data ! 1 = MQTTSN_CONNECT \<and> 6 \<le> length data \<and> data ! 0 < 6 \<or>
     p = CheckedBuild \<and> next_topic_id g = - 1 \<and>
       (data ! 1 = MQTTSN_REGISTER \<and> 7 \<le> length data \<or>
        data ! 1 = MQTTSN_SUBSCRIBE \<and> 6 \<le> length data \<and>
          topic_name_map g (trim_end_matches 0 (from_utf8_lossy (drop 5 data))) = None))"
proof -
  have publish: "handle_publish B g data addr \<noteq> None"
    by (simp add: handle_publish_def Let_def split: option.split)
  show ?thesis
    using publish handle_connect_panics [of p B g data addr] handle_register_panics [OF assms, of p g data addr]
      handle_subscribe_panics [of p B g data addr]
    unfolding handle_message_def Let_def
    by (simp add: handle_searchgw_def handle_pingreq_def handle_disconnect_def not_less conj_ac del: not_None_eq)
qed

theorem handle_message_panics_iff_witness:
  "handle_message ReleaseBuild plain_buffers (gateway_new :: unit gateway) [5, 4, 0, 1, 0, 60] () = None"
  using handle_message_panics_iff [OF plain_buffers_big_endian, of ReleaseBuild
      "gateway_new :: unit gateway" "[5, 4, 0, 1, 0, 60]" "()"]
  by simp

subsection \<open>From registration to publication\<close>

text \<open>The datagrams of a client, and the acknowledgements it gets.\<close>

definition register_msg :: "u16 \<Rightarrow> bytes \<Rightarrow> bytes" where
  "register_msg msg_id name =
     of_nat (6 + length name) # MQTTSN_REGISTER # 0 # 0 # be_bytes 2 (unat msg_id) @ name"

definition publish_msg :: "u8 \<Rightarrow> u16 \<Rightarrow> u16 \<Rightarrow> bytes \<Rightarrow> bytes" where
  "publish_msg flags topic_id msg_id payload =
     of_nat (7 + length payload) # MQTTSN_PUBLISH # flags #
       be_bytes 2 (unat topic_id) @ be_bytes 2 (unat msg_id) @ payload"

definition ack :: "u8 \<Rightarrow> u16 \<Rightarrow> u16 \<Rightarrow> bytes" where
  "ack t topic_id msg_id = [7, t] @ be_bytes 2 (unat topic_id) @ be_bytes 2 (unat msg_id) @ [0]"

lemma handle_register_msg:
  assumes "big_endian_buffers B" "is_valid_utf8 name" "name \<noteq> []" "last name \<noteq> 0"
  shows "handle_message p B g (register_msg msg_id name) addr =
    do { (g, topic_id) \<leftarrow> allocate_topic p g name; Some (g, [SendTo (ack MQTTSN_REGACK topic_id msg_id) addr]) }"
  using assms
  by (cases name)
     (simp_all add: handle_message_def handle_register_def register_msg_def be_bytes_2 ack_def
       big_endian_buffers_def u16_from_be_def from_utf8_lossy_valid trim_end_matches_id codec
       Let_def del: is_valid_utf8.simps from_utf8_lossy.simps)

lemma handle_publish_msg:
  assumes "big_endian_buffers B" "payload \<noteq> []"
  shows "handle_message p B g (publish_msg flags topic_id msg_id payload) addr =
    (case topic_id_map g topic_id of
       None \<Rightarrow> Some (g, [])
     | Some name \<Rightarrow> Some (g, MqttPublish name payload #
         (if flags AND 0x60 \<noteq> 0 then [SendTo (ack MQTTSN_PUBACK topic_id msg_id) addr] else [])))"
  using assms
  by (cases payload)
     (simp_all add: handle_message_def handle_publish_def publish_msg_def be_bytes_2 ack_def
       big_endian_buffers_def u16_from_be_def codec Let_def split: option.split)

text \<open>
  The release build after \<open>n\<close> registrations of one name: the last \<open>n\<close> identifiers, counted modulo
  \<open>2 ^ 16\<close>, stand for it.
\<close>

lemma unat_diff_Suc:
  assumes "unat (i - w) < Suc n" "i \<noteq> (w :: u16)"
  shows "unat (i - (w + 1)) < n"
proof -
  have "unat (i - w) = Suc (unat (i - (w + 1)))"
    using unatSuc [of "i - (w + 1)"] assms(2) by simp
  then show ?thesis using assms(1) by simp
qed

lemma release_registrations:
  assumes B: "big_endian_buffers B" and other: "is_valid_utf8 other" "other \<noteq> []" "last other \<noteq> 0" "length other \<le> 1018"
  shows "\<exists>g' acts. gateway_run ReleaseBuild B g (replicate n (register_msg m other, a)) = Some (g', acts) \<and>
    (\<forall>i. unat (i - next_topic_id g) < n \<or> topic_id_map g i = Some other \<longrightarrow> topic_id_map g' i = Some other)"
proof (induction n arbitrary: g)
  case (Suc n)
  let ?w = "next_topic_id g"
  let ?h = "g\<lparr>next_topic_id := ?w + 1, topic_id_map := (topic_id_map g)(?w \<mapsto> other),
              topic_name_map := (topic_name_map g)(other \<mapsto> ?w)\<rparr>"
  have len: "length (register_msg m other) \<le> 1024" "2 \<le> length (register_msg m other)"
    using other(4) by (simp_all add: register_msg_def)
  have reg: "handle_message ReleaseBuild B g (register_msg m other) a =
      Some (?h, [SendTo (ack MQTTSN_REGACK ?w m) a])"
    by (simp add: handle_register_msg [OF B other(1-3)] allocate_topic_def incr_u16_def Let_def)
  obtain g' acts where run: "gateway_run ReleaseBuild B ?h (replicate n (register_msg m other, a)) = Some (g', acts)"
    and keep: "\<forall>i. unat (i - (?w + 1)) < n \<or> topic_id_map ?h i = Some other \<longrightarrow> topic_id_map g' i = Some other"
    using Suc.IH [of ?h] by auto
  have "topic_id_map g' i = Some other"
    if "unat (i - ?w) < Suc n \<or> topic_id_map g i = Some other" for i
    using that keep unat_diff_Suc [of i ?w n] by (cases "i = ?w") auto
  then show ?case using run reg len by (auto simp: Let_def)
qed simp

lemma release_rebinds:
  assumes "big_endian_buffers B" "is_valid_utf8 other" "other \<noteq> []" "last other \<noteq> 0" "length other \<le> 1018"
  obtains g' acts where
    "gateway_run ReleaseBuild B g (replicate (2 ^ 16) (register_msg m other, a)) = Some (g', acts)"
    "\<And>i. topic_id_map g' i = Some other"
proof -
  have "unat (i - next_topic_id g) < 2 ^ 16" for i using unsigned_less [of "i - next_topic_id g"] by simp
  with release_registrations [OF assms, of g "2 ^ 16" m a] that show ?thesis by blast
qed



end
