(* ===== verification/Lock_Order.thy ===== *)
theory Lock_Order
  imports Uproto_Prelude
begin

text \<open>
  Threads that take and release mutexes. A thread is the list of lock operations it still has to do; a
  state is the owner of every lock and the remaining operations of every thread. An acquire waits until
  the lock is free, as \<open>Mutex::lock\<close> does (also on a lock the thread itself holds). Locale
  \<open>ordered_locking\<close>: threads whose programs take locks in increasing rank never deadlock.
\<close>

datatype 'l lock_action = Acquire 'l | Release 'l

type_synonym 'l lock_state = "('l \<Rightarrow> nat option) \<times> 'l lock_action list list"

inductive lock_step :: "'l lock_state \<Rightarrow> 'l lock_state \<Rightarrow> bool" where
  acquire: "i < length ps \<Longrightarrow> ps ! i = Acquire l # as \<Longrightarrow> owner l = None
    \<Longrightarrow> lock_step (owner, ps) (owner(l := Some i), ps[i := as])"
| release: "i < length ps \<Longrightarrow> ps ! i = Release l # as \<Longrightarrow> owner l = Some i
    \<Longrightarrow> lock_step (owner, ps) (owner(l := None), ps[i := as])"

inductive_cases lock_stepE: "lock_step (owner, ps) s"

definition start :: "'l lock_action list list \<Rightarrow> 'l lock_state" where
  "start ps = (\<lambda>_. None, ps)"

definition finished :: "'l lock_state \<Rightarrow> bool" where
  "finished s \<longleftrightarrow> (\<forall>p \<in> set (snd s). p = [])"

definition deadlocked :: "'l lock_state \<Rightarrow> bool" where
  "deadlocked s \<longleftrightarrow> \<not> finished s \<and> (\<nexists>s'. lock_step s s')"

subsection \<open>Ordered programs\<close>

fun ordered :: "('l \<Rightarrow> nat) \<Rightarrow> 'l set \<Rightarrow> 'l lock_action list \<Rightarrow> bool" where
  "ordered rank H [] \<longleftrightarrow> H = {}"
| "ordered rank H (Acquire l # as) \<longleftrightarrow> (\<forall>h \<in> H. rank h < rank l) \<and> ordered rank (insert l H) as"
| "ordered rank H (Release l # as) \<longleftrightarrow> l \<in> H \<and> ordered rank (H - {l}) as"

definition held :: "('l \<Rightarrow> nat option) \<Rightarrow> nat \<Rightarrow> 'l set" where
  "held owner i = {l. owner l = Some i}"

definition lock_inv :: "('l \<Rightarrow> nat) \<Rightarrow> 'l lock_state \<Rightarrow> bool" where
  "lock_inv rank s \<longleftrightarrow>
     (\<forall>i < length (snd s). ordered rank (held (fst s) i) (snd s ! i))
     \<and> (\<forall>l i. fst s l = Some i \<longrightarrow> i < length (snd s))"

lemma held_upd_Some:
  "owner l = None \<Longrightarrow> held (owner(l := Some i)) j = (if j = i then insert l (held owner i) else held owner j)"
  by (auto simp: held_def)

lemma held_upd_None:
  "owner l = Some i \<Longrightarrow> held (owner(l := None)) j = (if j = i then held owner i - {l} else held owner j)"
  by (auto simp: held_def)

lemma lock_inv_step:
  assumes "lock_step s s'" "lock_inv rank s"
  shows "lock_inv rank s'"
  using assms
proof cases
  case (acquire i ps l as owner)
  have "ordered rank (held owner i) (ps ! i)"
    using assms(2) acquire(1,3) by (simp add: lock_inv_def)
  then show ?thesis using acquire assms(2)
    by (auto simp: lock_inv_def held_upd_Some nth_list_update)
next
  case (release i ps l as owner)
  have "ordered rank (held owner i) (ps ! i)"
    using assms(2) release(1,3) by (simp add: lock_inv_def)
  then show ?thesis using release assms(2)
    by (auto simp: lock_inv_def held_upd_None nth_list_update)
qed

lemma lock_inv_reachable: "lock_step\<^sup>*\<^sup>* s s' \<Longrightarrow> lock_inv rank s \<Longrightarrow> lock_inv rank s'"
  by (induction rule: rtranclp_induct) (auto intro: lock_inv_step)

text \<open>A thread that cannot step waits for a lock of a thread that, itself waiting, wants one of higher rank.\<close>

lemma stuck_waits:
  assumes "lock_inv rank s" "\<nexists>s'. lock_step s s'" "i < length (snd s)" "snd s ! i \<noteq> []"
  obtains l as j where "snd s ! i = Acquire l # as" "j < length (snd s)" "l \<in> held (fst s) j"
proof -
  obtain a as where i: "snd s ! i = a # as" using assms(4) by (cases "snd s ! i") auto
  show ?thesis
  proof (cases a)
    case (Acquire l)
    then have "fst s l \<noteq> None" using lock_step.acquire [of i "snd s" l as "fst s"] assms(2,3) i by auto
    then obtain j where "fst s l = Some j" by auto
    then show ?thesis using that i Acquire assms(1) by (auto simp: lock_inv_def held_def)
  next
    case (Release l)
    then have "l \<in> held (fst s) i" using assms(1,3) i by (auto simp: lock_inv_def dest: spec [of _ i])
    then have False using lock_step.release [of i "snd s" l as "fst s"] assms(2,3) i Release
      by (auto simp: held_def)
    then show ?thesis ..
  qed
qed

lemma ordered_never_stuck:
  assumes inv: "lock_inv rank s"
  shows "\<not> deadlocked s"
proof
  assume "deadlocked s"
  then have stuck: "\<nexists>s'. lock_step s s'" and "\<not> finished s" by (auto simp: deadlocked_def)
  define W where "W = {i. i < length (snd s) \<and> snd s ! i \<noteq> []}"
  define wanted where "wanted i = (case hd (snd s ! i) of Acquire l \<Rightarrow> rank l | Release _ \<Rightarrow> 0)" for i
  have "finite W" "W \<noteq> {}"
    using \<open>\<not> finished s\<close> by (auto simp: W_def finished_def in_set_conv_nth)
  then obtain i where i: "i \<in> W" and top: "\<And>j. j \<in> W \<Longrightarrow> wanted j \<le> wanted i"
    using Max_in [of "wanted ` W"] Max_ge [of "wanted ` W"] by fastforce
  obtain l as j where l: "snd s ! i = Acquire l # as" and j: "j < length (snd s)" "l \<in> held (fst s) j"
    using stuck_waits [OF inv stuck, of i] i by (auto simp: W_def)
  have ord: "ordered rank (held (fst s) j) (snd s ! j)" using inv j by (simp add: lock_inv_def)
  then have "snd s ! j \<noteq> []" using j by auto
  then obtain l' as' where "snd s ! j = Acquire l' # as'" using stuck_waits [OF inv stuck j(1)] by metis
  then have "rank l < rank l'" "j \<in> W" using ord j by (auto simp: W_def)
  then show False using top [of j] l \<open>snd s ! j = Acquire l' # as'\<close> by (simp add: wanted_def)
qed

locale ordered_locking =
  fixes rank :: "'l \<Rightarrow> nat" and programs :: "'l lock_action list set"
  assumes program_ordered: "p \<in> programs \<Longrightarrow> ordered rank {} p"
begin

lemma never_deadlocked:
  assumes "set ps \<subseteq> programs" "lock_step\<^sup>*\<^sup>* (start ps) s"
  shows "\<not> deadlocked s"
proof -
  have "lock_inv rank (start ps)"
    using assms(1) program_ordered by (auto simp: lock_inv_def start_def held_def dest: nth_mem)
  then show ?thesis using lock_inv_reachable [OF assms(2)] ordered_never_stuck by blast
qed

end

end
