(* ===== verification/Mqtt_Rate_Limiter.thy ===== *)
theory Mqtt_Rate_Limiter
  imports Float_Rounding Lock_Order
begin

text \<open>
  \<^verbatim>\<open>MQTT/src/47/mqtt_rate_limiter.rs\<close>: a token bucket in binary64 arithmetic, a sliding window, a
  publisher that drops messages when its bucket is empty, and an adaptive limiter. Instants are
  nanoseconds; every reading of the clock is an argument of the operation that takes it, so
  \<open>refill\<close>, which reads the clock twice, has two. The MQTT client is not part of the repository: its
  \<open>publish\<close> is an argument. The publisher's operations are also modelled as the sequences of lock
  operations of their threads.
\<close>

named_theorems limiter_ops \<open>the operations of the rate limiters\<close>

subsection \<open>Token bucket\<close>

record token_bucket =
  tokens :: f64
  max_tokens :: f64
  refill_rate :: f64
  last_refill :: nat

definition bucket_new :: "f64 \<Rightarrow> f64 \<Rightarrow> nat \<Rightarrow> token_bucket" where
  [limiter_ops]: "bucket_new rate_per_sec burst_size now =
     \<lparr>tokens = burst_size, max_tokens = burst_size, refill_rate = rate_per_sec, last_refill = now\<rparr>"

definition refill :: "nat \<Rightarrow> nat \<Rightarrow> token_bucket \<Rightarrow> token_bucket" where
  [limiter_ops]: "refill now1 now2 b =
     (let elapsed = as_secs_f64 (now1 - last_refill b)
      in b\<lparr>tokens := min (f64_add (tokens b) (f64_mul elapsed (refill_rate b))) (max_tokens b),
           last_refill := now2\<rparr>)"

definition try_consume :: "f64 \<Rightarrow> nat \<Rightarrow> nat \<Rightarrow> token_bucket \<Rightarrow> token_bucket \<times> bool" where
  [limiter_ops]: "try_consume k now1 now2 b =
     (let b = refill now1 now2 b
      in if tokens b \<ge> k then (b\<lparr>tokens := f64_sub (tokens b) k\<rparr>, True) else (b, False))"

definition available_tokens :: "nat \<Rightarrow> nat \<Rightarrow> token_bucket \<Rightarrow> token_bucket \<times> f64" where
  [limiter_ops]: "available_tokens now1 now2 b = (let b = refill now1 now2 b in (b, tokens b))"

subsection \<open>Sliding window\<close>

record sliding_window =
  timestamps :: "nat list"
  max_requests :: nat
  window_duration :: nat

definition window_new :: "nat \<Rightarrow> nat \<Rightarrow> sliding_window" where
  "window_new max_req dur = \<lparr>timestamps = [], max_requests = max_req, window_duration = dur\<rparr>"

definition retain_recent :: "nat \<Rightarrow> sliding_window \<Rightarrow> sliding_window" where
  "retain_recent now s = s\<lparr>timestamps := filter (\<lambda>ts. now - ts < window_duration s) (timestamps s)\<rparr>"

definition try_acquire :: "nat \<Rightarrow> sliding_window \<Rightarrow> sliding_window \<times> bool" where
  "try_acquire now s =
     (let s = retain_recent now s
      in if length (timestamps s) < max_requests s
         then (s\<lparr>timestamps := timestamps s @ [now]\<rparr>, True) else (s, False))"

definition current_count :: "nat \<Rightarrow> sliding_window \<Rightarrow> sliding_window \<times> nat" where
  "current_count now s = (let s = retain_recent now s in (s, length (timestamps s)))"

subsection \<open>Publisher\<close>

datatype qos = AtMostOnce | AtLeastOnce | ExactlyOnce

record 'c publisher =
  client :: 'c
  rate_limiter :: token_bucket
  messages_sent :: nat
  messages_dropped :: nat

definition publisher_new :: "'c \<Rightarrow> f64 \<Rightarrow> f64 \<Rightarrow> nat \<Rightarrow> 'c publisher" where
  "publisher_new cl rate_limit burst_size now =
     \<lparr>client = cl, rate_limiter = bucket_new rate_limit burst_size now, messages_sent = 0, messages_dropped = 0\<rparr>"

definition publish ::
    "('c \<Rightarrow> string \<Rightarrow> qos \<Rightarrow> bool \<Rightarrow> bytes \<Rightarrow> 'c \<times> ('e + unit)) \<Rightarrow> string \<Rightarrow> bytes \<Rightarrow> qos
      \<Rightarrow> nat \<Rightarrow> nat \<Rightarrow> 'c publisher \<Rightarrow> ('c publisher \<times> ('e + bool)) run" where
  "publish client_publish topic payload q now1 now2 p =
     (let (l, ok) = try_consume 1 now1 now2 (rate_limiter p); p = p\<lparr>rate_limiter := l\<rparr>
      in if \<not> ok then
           do { n \<leftarrow> uadd (messages_dropped p) 1; Some (p\<lparr>messages_dropped := n\<rparr>, Inr False) }
         else
           let (c, r) = client_publish (client p) topic q False payload; p = p\<lparr>client := c\<rparr>
           in (case r of
                 Inr _ \<Rightarrow> do { n \<leftarrow> uadd (messages_sent p) 1; Some (p\<lparr>messages_sent := n\<rparr>, Inr True) }
               | Inl e \<Rightarrow> Some (p, Inl e)))"

definition print_stats :: "nat \<Rightarrow> nat \<Rightarrow> 'c publisher \<Rightarrow> 'c publisher \<times> (nat \<times> nat \<times> f64)" where
  "print_stats now1 now2 p =
     (let (l, t) = available_tokens now1 now2 (rate_limiter p)
      in (p\<lparr>rate_limiter := l\<rparr>, messages_sent p, messages_dropped p, t))"

subsection \<open>Adaptive limiter\<close>

record adaptive_limiter =
  base_rate :: f64
  current_rate :: f64
  min_rate :: f64
  max_rate :: f64
  limiter :: token_bucket

definition adaptive_new :: "f64 \<Rightarrow> f64 \<Rightarrow> f64 \<Rightarrow> nat \<Rightarrow> adaptive_limiter" where
  [limiter_ops]: "adaptive_new base mn mx now =
     \<lparr>base_rate = base, current_rate = base, min_rate = mn, max_rate = mx,
      limiter = bucket_new base (f64_mul base 2) now\<rparr>"

definition adaptive_try_consume :: "nat \<Rightarrow> nat \<Rightarrow> adaptive_limiter \<Rightarrow> adaptive_limiter \<times> bool" where
  "adaptive_try_consume now1 now2 a =
     (let (l, ok) = try_consume 1 now1 now2 (limiter a) in (a\<lparr>limiter := l\<rparr>, ok))"

definition update_limiter :: "nat \<Rightarrow> adaptive_limiter \<Rightarrow> adaptive_limiter" where
  [limiter_ops]: "update_limiter now a = a\<lparr>limiter := bucket_new (current_rate a) (f64_mul (current_rate a) 2) now\<rparr>"

definition report_success :: "nat \<Rightarrow> adaptive_limiter \<Rightarrow> adaptive_limiter" where
  "report_success now a =
     update_limiter now (a\<lparr>current_rate := min (f64_mul (current_rate a) (rnd (105 / 100))) (max_rate a)\<rparr>)"

definition report_failure :: "nat \<Rightarrow> adaptive_limiter \<Rightarrow> adaptive_limiter" where
  "report_failure now a =
     update_limiter now (a\<lparr>current_rate := max (f64_mul (current_rate a) (1 / 2)) (min_rate a)\<rparr>)"

text \<open>
  The third example of \<open>main\<close>: the requests are numbered from \<open>i\<close>, each with the readings of the clock
  by its \<open>try_consume\<close> and by its report. The result lists the requests that were limited.
\<close>

fun adaptive_loop :: "nat \<Rightarrow> (nat \<times> nat \<times> nat) list \<Rightarrow> adaptive_limiter \<Rightarrow> nat list" where
  "adaptive_loop i [] a = []"
| "adaptive_loop i ((now1, now2, now3) # readings) a =
     (let (a, ok) = adaptive_try_consume now1 now2 a
      in if ok then
           adaptive_loop (Suc i) readings (if i mod 7 = 0 then report_failure now3 a else report_success now3 a)
         else i # adaptive_loop (Suc i) readings a)"

subsection \<open>Locks\<close>

datatype lock = RateLimiter | Sent | Dropped

text \<open>
  The lock operations of \<open>publish\<close>, by whether a token was available and whether the client accepted
  the message, and of \<open>print_stats\<close>. A guard is released at the end of its scope, in reverse order.
\<close>

fun publish_locks :: "bool \<Rightarrow> bool \<Rightarrow> lock lock_action list" where
  "publish_locks False _ = [Acquire RateLimiter, Acquire Dropped, Release Dropped, Release RateLimiter]"
| "publish_locks True True = [Acquire RateLimiter, Release RateLimiter, Acquire Sent, Release Sent]"
| "publish_locks True False = [Acquire RateLimiter, Release RateLimiter]"

definition print_stats_locks :: "lock lock_action list" where
  "print_stats_locks =
     [Acquire Sent, Acquire Dropped, Acquire RateLimiter, Release RateLimiter, Release Dropped, Release Sent]"

subsection \<open>The sliding window against its history\<close>

datatype window_op = TryAcquire | CurrentCount
datatype window_reply = Acquired bool | Requests nat

fun window_run :: "sliding_window \<Rightarrow> (window_op \<times> nat) list \<Rightarrow> window_reply list" where
  "window_run s [] = []"
| "window_run s ((TryAcquire, now) # ops) =
     (let (s, ok) = try_acquire now s in Acquired ok # window_run s ops)"
| "window_run s ((CurrentCount, now) # ops) =
     (let (s, n) = current_count now s in Requests n # window_run s ops)"

text \<open>The specification remembers every admitted request and counts the recent ones.\<close>

definition recent :: "nat \<Rightarrow> nat \<Rightarrow> nat list \<Rightarrow> nat list" where
  "recent dur now admitted = filter (\<lambda>t. now - t < dur) admitted"

fun window_spec :: "nat \<Rightarrow> nat \<Rightarrow> nat list \<Rightarrow> (window_op \<times> nat) list \<Rightarrow> window_reply list" where
  "window_spec mx dur admitted [] = []"
| "window_spec mx dur admitted ((TryAcquire, now) # ops) =
     (if length (recent dur now admitted) < mx
      then Acquired True # window_spec mx dur (admitted @ [now]) ops
      else Acquired False # window_spec mx dur admitted ops)"
| "window_spec mx dur admitted ((CurrentCount, now) # ops) =
     Requests (length (recent dur now admitted)) # window_spec mx dur admitted ops"

fun admitted_times :: "(window_op \<times> nat) list \<Rightarrow> window_reply list \<Rightarrow> nat list" where
  "admitted_times ((_, now) # ops) (r # rs) =
     (if r = Acquired True then now # admitted_times ops rs else admitted_times ops rs)"
| "admitted_times _ _ = []"

definition in_window :: "nat \<Rightarrow> nat \<Rightarrow> nat list \<Rightarrow> nat" where
  "in_window dur t ts = length (filter (\<lambda>a. a \<le> t \<and> t < a + dur) ts)"

definition window_rel :: "nat \<Rightarrow> nat \<Rightarrow> nat \<Rightarrow> nat list \<Rightarrow> sliding_window \<Rightarrow> bool" where
  "window_rel mx dur now admitted s \<longleftrightarrow>
     s = \<lparr>timestamps = recent dur now admitted, max_requests = mx, window_duration = dur\<rparr>"

lemma recent_recent: "now \<le> now' \<Longrightarrow> recent dur now' (recent dur now ts) = recent dur now' ts"
  by (auto simp: recent_def intro!: filter_cong)

lemma retain_rel:
  "window_rel mx dur now ad s \<Longrightarrow> now \<le> now' \<Longrightarrow> window_rel mx dur now' ad (retain_recent now' s)"
  using recent_recent [of now now' dur ad] by (simp add: window_rel_def retain_recent_def recent_def)

lemma window_run_spec:
  assumes "window_rel mx dur now ad s" "sorted (now # map snd ops)" "0 < dur"
  shows "window_run s ops = window_spec mx dur ad ops"
  using assms
proof (induction mx dur ad ops arbitrary: now s rule: window_spec.induct)
  case (2 mx dur ad now' ops)
  have rel: "window_rel mx dur now' ad (retain_recent now' s)" using 2 by (auto intro: retain_rel)
  have push: "recent dur now' ad @ [now'] = recent dur now' (ad @ [now'])"
    using 2(5) by (simp add: recent_def)
  show ?case
  proof (cases "length (recent dur now' ad) < mx")
    case True
    then show ?thesis using rel 2(1) [OF True, of now'] 2(4,5)
      by (simp add: try_acquire_def window_rel_def push)
  next
    case False
    then show ?thesis using rel 2(2) [OF False, of now'] 2(4,5)
      by (simp add: try_acquire_def window_rel_def)
  qed
next
  case (3 mx dur ad now' ops)
  have rel: "window_rel mx dur now' ad (retain_recent now' s)" using 3 by (auto intro: retain_rel)
  then show ?case using 3(1) [of now'] 3(3,4) by (simp add: current_count_def window_rel_def)
qed simp

lemma in_window_append: "in_window dur t (xs @ ys) = in_window dur t xs + in_window dur t ys"
  by (simp add: in_window_def)

lemma in_window_recent:
  assumes "now \<le> t" "t < now + dur"
  shows "in_window dur t ad \<le> length (recent dur now ad)"
proof -
  have "filter (\<lambda>a. a \<le> t \<and> t < a + dur) ad = filter (\<lambda>a. a \<le> t \<and> t < a + dur) (recent dur now ad)"
    using assms by (auto simp: recent_def intro!: filter_cong)
  then show ?thesis by (simp add: in_window_def)
qed

lemma window_spec_bound:
  assumes "\<And>t. in_window dur t ad \<le> mx"
  shows "in_window dur t (ad @ admitted_times ops (window_spec mx dur ad ops)) \<le> mx"
  using assms
proof (induction mx dur ad ops rule: window_spec.induct)
  case (2 mx dur ad now ops)
  show ?case
  proof (cases "length (recent dur now ad) < mx")
    case True
    have "in_window dur t' (ad @ [now]) \<le> mx" for t'
    proof (cases "now \<le> t' \<and> t' < now + dur")
      case inside: True
      then show ?thesis using in_window_recent [of now t' dur ad] True
        by (simp add: in_window_append) (simp add: in_window_def)
    next
      case False
      then have "in_window dur t' [now] = 0" by (auto simp: in_window_def)
      then show ?thesis using 2(3) [of t'] by (simp add: in_window_append)
    qed
    then show ?thesis using 2(1) [OF True] True by simp
  next
    case False
    then show ?thesis using 2(2) [OF False 2(3)] by simp
  qed
qed simp_all

text \<open>
  C34. The sliding window keeps its promise. For every sequence of requests and queries at instants that
  do not decrease, every answer is that of a specification that remembers all admitted requests and
  counts those younger than the window, although the limiter forgets the others; and in no interval
  of the length of the window, wherever it lies, are more than the allowed number of requests admitted.
\<close>

theorem sliding_window_exact:
  assumes "sorted (map snd ops)" "0 < dur"
  shows "window_run (window_new mx dur) ops = window_spec mx dur [] ops
    \<and> (\<forall>t. in_window dur t (admitted_times ops (window_run (window_new mx dur) ops)) \<le> mx)"
proof -
  have "window_rel mx dur 0 [] (window_new mx dur)"
    by (simp add: window_rel_def window_new_def recent_def)
  then have run: "window_run (window_new mx dur) ops = window_spec mx dur [] ops"
    using assms by (intro window_run_spec) auto
  have "in_window dur t ([] @ admitted_times ops (window_spec mx dur [] ops)) \<le> mx" for t
    by (rule window_spec_bound) (simp add: in_window_def)
  then show ?thesis by (simp add: run)
qed

lemma sliding_window_exact_witness:
  "window_run (window_new 2 10) [(TryAcquire, 0), (TryAcquire, 4), (TryAcquire, 9), (CurrentCount, 10), (TryAcquire, 12)] =
     [Acquired True, Acquired True, Acquired False, Requests 1, Acquired True]"
  using sliding_window_exact
    [of "[(TryAcquire, 0), (TryAcquire, 4), (TryAcquire, 9), (CurrentCount, 10), (TryAcquire, 12)]" 10 2]
  by (simp add: recent_def)

subsection \<open>The bucket stays within its bounds\<close>

definition bucket_ok :: "token_bucket \<Rightarrow> bool" where
  "bucket_ok b \<longleftrightarrow> representable (tokens b) \<and> representable (max_tokens b)
     \<and> 0 \<le> tokens b \<and> tokens b \<le> max_tokens b \<and> 0 \<le> refill_rate b"

lemma bucket_new_ok: "representable burst \<Longrightarrow> 0 \<le> burst \<Longrightarrow> 0 \<le> rate \<Longrightarrow> bucket_ok (bucket_new rate burst now)"
  by (simp add: bucket_ok_def bucket_new_def)

lemma refill_gain: "bucket_ok b \<Longrightarrow> 0 \<le> f64_mul (as_secs_f64 n) (refill_rate b)"
  by (auto simp: bucket_ok_def f64_mul_def intro!: rnd_nonneg mult_nonneg_nonneg as_secs_f64_nonneg)

lemma refill_frame [simp]:
  "max_tokens (refill now1 now2 b) = max_tokens b" "refill_rate (refill now1 now2 b) = refill_rate b"
  "last_refill (refill now1 now2 b) = now2"
  by (simp_all add: refill_def Let_def)

lemma refill_grows:
  assumes "bucket_ok b"
  shows "tokens b \<le> tokens (refill now1 now2 b)"
proof -
  have "tokens b \<le> f64_add (tokens b) (f64_mul (as_secs_f64 (now1 - last_refill b)) (refill_rate b))"
    unfolding f64_add_def using assms refill_gain [OF assms]
    by (intro rnd_ge_representable) (auto simp: bucket_ok_def)
  then show ?thesis using assms by (simp add: refill_def Let_def bucket_ok_def)
qed

lemma refill_ok:
  assumes "bucket_ok b"
  shows "bucket_ok (refill now1 now2 b)"
proof -
  have "0 \<le> tokens b + f64_mul (as_secs_f64 (now1 - last_refill b)) (refill_rate b)"
    using assms refill_gain [OF assms] by (simp add: bucket_ok_def)
  then have "representable (tokens (refill now1 now2 b))"
    using assms by (auto simp: refill_def Let_def f64_add_def min_def bucket_ok_def representable_rnd)
  moreover have "tokens (refill now1 now2 b) \<le> max_tokens b" by (simp add: refill_def Let_def)
  ultimately show ?thesis using assms refill_grows [OF assms, of now1 now2] by (auto simp: bucket_ok_def)
qed

lemma try_consume_ok:
  assumes "bucket_ok b" "0 \<le> k"
  shows "bucket_ok (fst (try_consume k now1 now2 b))"
proof -
  let ?b = "refill now1 now2 b"
  have ok: "bucket_ok ?b" by (rule refill_ok [OF assms(1)])
  show ?thesis
  proof (cases "k \<le> tokens ?b")
    case True
    then have "0 \<le> f64_sub (tokens ?b) k" "representable (f64_sub (tokens ?b) k)"
      unfolding f64_sub_def by (auto intro: rnd_nonneg representable_rnd)
    moreover have "f64_sub (tokens ?b) k \<le> tokens ?b"
      unfolding f64_sub_def using True ok assms(2) by (intro rnd_le_representable) (auto simp: bucket_ok_def)
    ultimately show ?thesis using ok True by (simp add: try_consume_def Let_def bucket_ok_def)
  next
    case False
    then show ?thesis using ok by (simp add: try_consume_def Let_def)
  qed
qed

lemma try_consume_frame [simp]:
  "max_tokens (fst (try_consume k now1 now2 b)) = max_tokens b"
  "last_refill (fst (try_consume k now1 now2 b)) = now2"
  by (simp_all add: try_consume_def Let_def)

text \<open>With no time since the last refill the bucket counts exactly.\<close>

lemma try_consume_same_instant:
  assumes "tokens b = of_nat n" "max_tokens b = of_nat m" "n \<le> m" "m \<le> 2 ^ 53" "last_refill b = now"
  shows "snd (try_consume 1 now now b) \<longleftrightarrow> 0 < n"
    and "tokens (fst (try_consume 1 now now b)) = of_nat (n - 1)"
proof -
  have rep: "rnd (of_nat j) = of_nat j" if "j \<le> m" for j
    using representable_nat [of j] that assms(4) by (simp add: representable_def)
  have "tokens (refill now now b) = of_nat n"
    using assms rep [of n] by (simp add: refill_def f64_mul_def f64_add_def)
  moreover have "rnd (of_nat n - 1) = of_nat (n - 1)" if "0 < n"
    using that rep [of "n - 1"] assms(3) by (simp add: of_nat_diff)
  ultimately show "snd (try_consume 1 now now b) \<longleftrightarrow> 0 < n"
    and "tokens (fst (try_consume 1 now now b)) = of_nat (n - 1)"
    by (auto simp: try_consume_def Let_def f64_sub_def)
qed

subsection \<open>The publisher\<close>

fun publish_all ::
    "('c \<Rightarrow> string \<Rightarrow> qos \<Rightarrow> bool \<Rightarrow> bytes \<Rightarrow> 'c \<times> ('e + unit)) \<Rightarrow> string \<Rightarrow> qos
      \<Rightarrow> (bytes \<times> nat \<times> nat) list \<Rightarrow> 'c publisher \<Rightarrow> ('c publisher \<times> ('e + bool) list) run" where
  "publish_all cp topic q [] p = Some (p, [])"
| "publish_all cp topic q ((payload, now1, now2) # msgs) p =
     do { (p, r) \<leftarrow> publish cp topic payload q now1 now2 p;
          (p, rs) \<leftarrow> publish_all cp topic q msgs p;
          Some (p, r # rs) }"

definition handed_over :: "(bytes \<times> nat \<times> nat) list \<Rightarrow> ('e + bool) list \<Rightarrow> bytes list" where
  "handed_over msgs rs = map (fst \<circ> fst) (filter (\<lambda>(m, r). r \<noteq> Inr False) (zip msgs rs))"

lemma handed_over_Cons [simp]:
  "handed_over (m # msgs) (r # rs) = (if r = Inr False then handed_over msgs rs else fst m # handed_over msgs rs)"
  "handed_over [] rs = []"
  by (simp_all add: handed_over_def)

text \<open>What one call does, whatever the client answers.\<close>

lemma publish_effect:
  assumes "messages_sent p + 1 < usize_bound" "messages_dropped p + 1 < usize_bound"
  shows "\<exists>p' r. publish cp topic payload q now1 now2 p = Some (p', r)
    \<and> rate_limiter p' = fst (try_consume 1 now1 now2 (rate_limiter p))
    \<and> (r = Inr False \<longleftrightarrow> \<not> snd (try_consume 1 now1 now2 (rate_limiter p)))
    \<and> client p' = (if r = Inr False then client p else fst (cp (client p) topic q False payload))
    \<and> messages_sent p' = messages_sent p + (if r = Inr True then 1 else 0)
    \<and> messages_dropped p' = messages_dropped p + (if r = Inr False then 1 else 0)"
proof -
  obtain l ok where lo: "try_consume 1 now1 now2 (rate_limiter p) = (l, ok)" by fastforce
  obtain c x where cx: "cp (client p) topic q False payload = (c, x)" by fastforce
  show ?thesis
    using assms by (cases ok; cases x) (simp_all add: publish_def lo cx uadd_ok)
qed

lemma publish_all_effect:
  assumes "messages_sent p + length msgs < usize_bound" "messages_dropped p + length msgs < usize_bound"
    and "bucket_ok (rate_limiter p)"
  shows "\<exists>p' rs. publish_all cp topic q msgs p = Some (p', rs) \<and> length rs = length msgs
    \<and> messages_sent p' = messages_sent p + length (filter (\<lambda>r. r = Inr True) rs)
    \<and> messages_dropped p' = messages_dropped p + length (filter (\<lambda>r. r = Inr False) rs)
    \<and> client p' = foldl (\<lambda>c m. fst (cp c topic q False m)) (client p) (handed_over msgs rs)
    \<and> bucket_ok (rate_limiter p') \<and> max_tokens (rate_limiter p') = max_tokens (rate_limiter p)"
  using assms
proof (induction msgs arbitrary: p)
  case (Cons m msgs)
  obtain payload now1 now2 where m: "m = (payload, now1, now2)" by (cases m)
  obtain p' r where one: "publish cp topic payload q now1 now2 p = Some (p', r)"
      "rate_limiter p' = fst (try_consume 1 now1 now2 (rate_limiter p))"
      "client p' = (if r = Inr False then client p else fst (cp (client p) topic q False payload))"
      "messages_sent p' = messages_sent p + (if r = Inr True then 1 else 0)"
      "messages_dropped p' = messages_dropped p + (if r = Inr False then 1 else 0)"
    using publish_effect [of p cp topic payload q now1 now2] Cons.prems by auto
  have "bucket_ok (rate_limiter p')" using Cons.prems(3) one(2) try_consume_ok by simp
  then obtain p2 rs where rest: "publish_all cp topic q msgs p' = Some (p2, rs)" "length rs = length msgs"
      "messages_sent p2 = messages_sent p' + length (filter (\<lambda>r. r = Inr True) rs)"
      "messages_dropped p2 = messages_dropped p' + length (filter (\<lambda>r. r = Inr False) rs)"
      "client p2 = foldl (\<lambda>c m. fst (cp c topic q False m)) (client p') (handed_over msgs rs)"
      "bucket_ok (rate_limiter p2)" "max_tokens (rate_limiter p2) = max_tokens (rate_limiter p)"
    using Cons.IH [of p'] Cons.prems one by (auto split: if_splits)
  show ?case
    by (rule exI [of _ p2], rule exI [of _ "r # rs"]) (simp add: m one rest)
qed simp

lemma publish_all_same_instant:
  assumes "tokens (rate_limiter p) = of_nat n" "max_tokens (rate_limiter p) = of_nat m" "n \<le> m" "m \<le> 2 ^ 53"
    and "last_refill (rate_limiter p) = now" "\<forall>x \<in> set msgs. snd x = (now, now)"
    and "publish_all cp topic q msgs p = Some (p', rs)" "i < length rs"
  shows "rs ! i = Inr False \<longleftrightarrow> n \<le> i"
  using assms
proof (induction msgs arbitrary: p n rs i)
  case (Cons x msgs)
  obtain payload where x: "x = (payload, now, now)" using Cons.prems(6) by (cases x) auto
  obtain p1 r rs1 where one: "publish cp topic payload q now now p = Some (p1, r)"
      "publish_all cp topic q msgs p1 = Some (p', rs1)" "rs = r # rs1"
    using Cons.prems(7) by (auto simp: x split: Option.bind_splits)
  have eff: "rate_limiter p1 = fst (try_consume 1 now now (rate_limiter p))"
      "r = Inr False \<longleftrightarrow> \<not> snd (try_consume 1 now now (rate_limiter p))"
    using one(1) by (auto simp: publish_def Let_def split: prod.splits if_splits sum.splits Option.bind_splits)
  note same = try_consume_same_instant [OF Cons.prems(1-5)]
  show ?case
  proof (cases i)
    case 0
    then show ?thesis using eff(2) same(1) one(3) by simp
  next
    case (Suc j)
    have "rs1 ! j = Inr False \<longleftrightarrow> n - 1 \<le> j"
      using Suc Cons.prems eff(1) same(2) one by (intro Cons.IH [of p1]) auto
    then show ?thesis using Suc one(3) by auto
  qed
qed simp

text \<open>
  The publisher counts and orders its messages. For any sequence of fewer than \<open>2 ^ 64\<close> messages,
  whatever the readings of the clock, the rate and the client, the calls return, the two counters are
  the numbers of messages sent and dropped, the client is given exactly the messages that were not
  dropped, in order, and the tokens, in binary64 arithmetic with its rounding errors, never leave the
  range from zero to the burst size. Within one instant the burst is exact: the first \<open>n\<close>
  messages pass and all others are dropped.
\<close>

theorem publisher_burst_exact:
  assumes "0 \<le> rate" "n \<le> 2 ^ 53" "length msgs < usize_bound"
  shows "\<exists>p rs. publish_all cp topic q msgs (publisher_new cl rate (of_nat n) now) = Some (p, rs)
    \<and> length rs = length msgs
    \<and> messages_sent p = length (filter (\<lambda>r. r = Inr True) rs)
    \<and> messages_dropped p = length (filter (\<lambda>r. r = Inr False) rs)
    \<and> client p = foldl (\<lambda>c m. fst (cp c topic q False m)) cl (handed_over msgs rs)
    \<and> 0 \<le> tokens (rate_limiter p) \<and> tokens (rate_limiter p) \<le> of_nat n
    \<and> ((\<forall>x \<in> set msgs. snd x = (now, now)) \<longrightarrow> (\<forall>i < length msgs. rs ! i = Inr False \<longleftrightarrow> n \<le> i))"
proof -
  let ?p = "publisher_new cl rate (of_nat n) now"
  have "bucket_ok (rate_limiter ?p)" and lim: "rate_limiter ?p = bucket_new rate (of_nat n) now"
    using assms representable_nat by (auto simp: publisher_new_def intro!: bucket_new_ok)
  then obtain p rs where run: "publish_all cp topic q msgs ?p = Some (p, rs)" "length rs = length msgs"
      "messages_sent p = length (filter (\<lambda>r. r = Inr True) rs)"
      "messages_dropped p = length (filter (\<lambda>r. r = Inr False) rs)"
      "client p = foldl (\<lambda>c m. fst (cp c topic q False m)) cl (handed_over msgs rs)"
      "bucket_ok (rate_limiter p)" "max_tokens (rate_limiter p) = of_nat n"
    using publish_all_effect [of ?p msgs cp topic q] assms(3) by (auto simp: publisher_new_def bucket_new_def)
  moreover have "rs ! i = Inr False \<longleftrightarrow> n \<le> i"
    if "\<forall>x \<in> set msgs. snd x = (now, now)" "i < length msgs" for i
    using that run(1,2) assms(2) lim
    by (intro publish_all_same_instant [of ?p n n]) (auto simp: bucket_new_def)
  ultimately show ?thesis by (auto simp: bucket_ok_def)
qed

lemma publisher_burst_exact_witness:
  "\<exists>p rs. publish_all (\<lambda>c _ _ _ m. (c @ [m], Inr () :: unit + unit)) ''t'' AtMostOnce
        [([1], 5, 5), ([2], 5, 5), ([3], 5, 5)] (publisher_new [] 10 (of_nat 2) 5) = Some (p, rs)
     \<and> rs ! 0 \<noteq> Inr False \<and> rs ! 1 \<noteq> Inr False \<and> rs ! 2 = Inr False"
proof -
  let ?msgs = "[([1], 5, 5), ([2], 5, 5), ([3], 5, 5)] :: (bytes \<times> nat \<times> nat) list"
  have hyps: "(0 :: f64) \<le> 10" "(2 :: nat) \<le> 2 ^ 53" "length ?msgs < usize_bound" by simp_all
  obtain p rs where run: "publish_all (\<lambda>c _ _ _ m. (c @ [m], Inr () :: unit + unit)) ''t'' AtMostOnce
        ?msgs (publisher_new [] 10 (of_nat 2) 5) = Some (p, rs)"
      and "(\<forall>x \<in> set ?msgs. snd x = (5, 5)) \<longrightarrow> (\<forall>i < length ?msgs. rs ! i = Inr False \<longleftrightarrow> 2 \<le> i)"
    using publisher_burst_exact [OF hyps, of "\<lambda>c _ _ _ m. (c @ [m], Inr ())" "''t''" AtMostOnce "[]" 5] by blast
  then have "\<forall>i < length ?msgs. rs ! i = Inr False \<longleftrightarrow> 2 \<le> i" by simp
  then have "rs ! 0 \<noteq> Inr False \<and> rs ! 1 \<noteq> Inr False \<and> rs ! 2 = Inr False" by auto
  then show ?thesis using run by blast
qed

subsection \<open>The adaptive limiter does not limit\<close>

text \<open>
  Every report replaces the bucket by a full one. As long as the rates are at least one half, a request
  that follows a report therefore always finds a token, however fast the requests come.
\<close>

definition adaptive_full :: "adaptive_limiter \<Rightarrow> bool" where
  "adaptive_full a \<longleftrightarrow> 1 / 2 \<le> current_rate a \<and> 1 / 2 \<le> min_rate a \<and> 1 / 2 \<le> max_rate a
     \<and> bucket_ok (limiter a) \<and> 1 \<le> tokens (limiter a)"

lemma doubled_rate: "1 / 2 \<le> r \<Longrightarrow> 1 \<le> f64_mul r 2 \<and> representable (f64_mul r 2)"
  by (auto simp: f64_mul_def intro!: rnd_ge_representable representable_rnd)

lemma adaptive_new_full:
  "1 / 2 \<le> base \<Longrightarrow> 1 / 2 \<le> mn \<Longrightarrow> 1 / 2 \<le> mx \<Longrightarrow> adaptive_full (adaptive_new base mn mx now)"
  using doubled_rate [of base] by (auto simp: adaptive_full_def adaptive_new_def bucket_new_def bucket_ok_def)

lemma update_limiter_full:
  "1 / 2 \<le> current_rate a \<Longrightarrow> 1 / 2 \<le> min_rate a \<Longrightarrow> 1 / 2 \<le> max_rate a \<Longrightarrow> adaptive_full (update_limiter now a)"
  using doubled_rate [of "current_rate a"]
  by (auto simp: adaptive_full_def update_limiter_def bucket_new_def bucket_ok_def)

lemma report_full:
  assumes "1 / 2 \<le> current_rate a" "1 / 2 \<le> min_rate a" "1 / 2 \<le> max_rate a"
  shows "adaptive_full (report_success now a)" "adaptive_full (report_failure now a)"
proof -
  have "1 \<le> rnd (105 / 100)" by (rule rnd_ge_representable) simp_all
  then have "1 / 2 * 1 \<le> current_rate a * rnd (105 / 100)" using assms by (intro mult_mono) auto
  then have "1 / 2 \<le> f64_mul (current_rate a) (rnd (105 / 100))"
    unfolding f64_mul_def by (intro rnd_ge_representable) simp_all
  then show "adaptive_full (report_success now a)" "adaptive_full (report_failure now a)"
    using assms by (auto simp: report_success_def report_failure_def intro!: update_limiter_full)
qed

lemma adaptive_try_full:
  assumes "adaptive_full a"
  shows "snd (adaptive_try_consume now1 now2 a)"
    and "current_rate (fst (adaptive_try_consume now1 now2 a)) = current_rate a"
    and "min_rate (fst (adaptive_try_consume now1 now2 a)) = min_rate a"
    and "max_rate (fst (adaptive_try_consume now1 now2 a)) = max_rate a"
proof -
  have "1 \<le> tokens (refill now1 now2 (limiter a))"
    using assms refill_grows [of "limiter a" now1 now2] by (auto simp: adaptive_full_def)
  then show "snd (adaptive_try_consume now1 now2 a)"
    by (simp add: adaptive_try_consume_def try_consume_def Let_def split_beta)
qed (simp_all add: adaptive_try_consume_def split_beta)

lemma adaptive_never_limits: "adaptive_full a \<Longrightarrow> adaptive_loop i readings a = []"
proof (induction readings arbitrary: i a)
  case (Cons x readings)
  obtain now1 now2 now3 where x: "x = (now1, now2, now3)" by (cases x)
  obtain a' ok where step: "adaptive_try_consume now1 now2 a = (a', ok)" by fastforce
  have granted: ok "1 / 2 \<le> current_rate a'" "1 / 2 \<le> min_rate a'" "1 / 2 \<le> max_rate a'"
    using adaptive_try_full [OF Cons.prems, of now1 now2] Cons.prems by (auto simp: step adaptive_full_def)
  show ?case using Cons.IH report_full [OF granted(2-4)] granted(1) by (simp add: x step)
qed simp

lemma example_never_limited: "adaptive_loop 0 readings (adaptive_new 5 1 20 now) = []"
  by (intro adaptive_never_limits adaptive_new_full) simp_all

subsection \<open>Lock order\<close>

fun publish_rank :: "lock \<Rightarrow> nat" where
  "publish_rank RateLimiter = 0" | "publish_rank Sent = 1" | "publish_rank Dropped = 1"

fun stats_rank :: "lock \<Rightarrow> nat" where
  "stats_rank Sent = 0" | "stats_rank Dropped = 1" | "stats_rank RateLimiter = 2"

lemma publish_locks_ordered: "ordered publish_rank {} (publish_locks tok acc)"
  by (cases tok; cases acc) auto

interpretation publishers: ordered_locking publish_rank "{publish_locks tok acc | tok acc. True}"
  by unfold_locales (auto simp: publish_locks_ordered)

interpretation statistics: ordered_locking stats_rank "{print_stats_locks}"
  by unfold_locales (auto simp: print_stats_locks_def)

text \<open>The state in which the publisher holds the limiter and the reader of the statistics both counters.\<close>

definition crossed :: "lock lock_state" where
  "crossed = ((\<lambda>_. None)(RateLimiter := Some 0, Sent := Some 1, Dropped := Some 1),
     [tl (publish_locks False False), drop 2 print_stats_locks])"

lemma crossed_reachable: "lock_step\<^sup>*\<^sup>* (start [publish_locks False acc, print_stats_locks]) crossed"
proof -
  let ?p = "[Acquire Dropped, Release Dropped, Release RateLimiter]"
  let ?s = "[Acquire Dropped, Acquire RateLimiter, Release RateLimiter, Release Dropped, Release Sent]"
  have "lock_step (start [publish_locks False acc, print_stats_locks])
      ((\<lambda>_. None)(RateLimiter := Some 0), [?p, print_stats_locks])"
    using lock_step.acquire [of 0 "[publish_locks False acc, print_stats_locks]" RateLimiter ?p "\<lambda>_. None"]
    by (simp add: start_def)
  moreover have "lock_step ((\<lambda>_. None)(RateLimiter := Some 0), [?p, print_stats_locks])
      ((\<lambda>_. None)(RateLimiter := Some 0, Sent := Some 1), [?p, ?s])"
    using lock_step.acquire [of 1 "[?p, print_stats_locks]" Sent ?s "(\<lambda>_. None)(RateLimiter := Some 0)"]
    by (simp add: print_stats_locks_def)
  moreover have "lock_step ((\<lambda>_. None)(RateLimiter := Some 0, Sent := Some 1), [?p, ?s]) crossed"
    using lock_step.acquire [of 1 "[?p, ?s]" Dropped "tl ?s" "(\<lambda>_. None)(RateLimiter := Some 0, Sent := Some 1)"]
    by (simp add: crossed_def print_stats_locks_def)
  ultimately show ?thesis by (meson rtranclp.intros)
qed

lemma crossed_deadlocked: "deadlocked crossed"
proof -
  have "\<not> lock_step crossed s'" for s'
    by (auto simp: crossed_def print_stats_locks_def less_Suc_eq elim!: lock_stepE)
  then show ?thesis by (auto simp: deadlocked_def finished_def crossed_def)
qed

text \<open>
  C35. Publishing is free of deadlock, reading the statistics meanwhile is not. Any number of threads
  that publish, with whatever outcomes, can always go on until all have finished, and so can any number
  of threads that read the statistics; but a publisher that is about to count a dropped message and a
  reader of the statistics can each hold the lock the other waits for, and then neither ever goes on.
\<close>

theorem publisher_lock_order:
  "(\<forall>ps s. set ps \<subseteq> {publish_locks tok acc | tok acc. True} \<longrightarrow> lock_step\<^sup>*\<^sup>* (start ps) s \<longrightarrow> \<not> deadlocked s)
   \<and> (\<forall>ps s. set ps \<subseteq> {print_stats_locks} \<longrightarrow> lock_step\<^sup>*\<^sup>* (start ps) s \<longrightarrow> \<not> deadlocked s)
   \<and> (\<exists>s. lock_step\<^sup>*\<^sup>* (start [publish_locks False acc, print_stats_locks]) s \<and> deadlocked s)"
  using publishers.never_deadlocked statistics.never_deadlocked crossed_reachable crossed_deadlocked by blast

lemma publisher_lock_order_witness:
  "\<not> deadlocked (start [publish_locks False True, publish_locks True True])"
proof -
  have "set [publish_locks False True, publish_locks True True] \<subseteq> {publish_locks tok acc | tok acc. True}"
    by (auto simp del: publish_locks.simps)
  then show ?thesis using publisher_lock_order by blast
qed

end
