(* ===== verification/Proto_Time.thy ===== *)
theory Proto_Time
  imports Uproto_Prelude
begin

text \<open>
  \<^verbatim>\<open>Protobuf/src/42/timestamp_and_duration.rs\<close>: arithmetic on the well-known types Timestamp and
  Duration. Both carry an \<open>i64\<close> of seconds and an \<open>i32\<close> of nanoseconds; the integers are \<open>int\<close> and
  every operation passes through \<open>arith\<close>, which panics or wraps at the given width according to the
  build. The calendar library is not part of the repository: its functions are arguments.

  The reference is a single integer of nanoseconds. Valid timestamps and valid durations are two
  number formats for it (locale \<open>nanos_format\<close>), and the operations of the program are addition,
  subtraction and comparison in these formats.
\<close>

named_theorems proto_ops \<open>the operations on timestamps and durations\<close>

subsection \<open>Signed machine integers\<close>

definition fits :: "nat \<Rightarrow> int \<Rightarrow> bool" where
  "fits w x \<longleftrightarrow> - (2 ^ (w - 1)) \<le> x \<and> x < 2 ^ (w - 1)"

definition arith :: "profile \<Rightarrow> nat \<Rightarrow> int \<Rightarrow> int run" where
  "arith p w x =
     (if fits w x then Some x
      else case p of CheckedBuild \<Rightarrow> None | ReleaseBuild \<Rightarrow> Some (signed_take_bit (w - 1) x))"

text \<open>Division of signed integers truncates towards zero; the remainder has the sign of the dividend.\<close>

definition tdiv :: "int \<Rightarrow> int \<Rightarrow> int" where
  "tdiv a b = sgn a * sgn b * (\<bar>a\<bar> div \<bar>b\<bar>)"

definition tmod :: "int \<Rightarrow> int \<Rightarrow> int" where
  "tmod a b = sgn a * (\<bar>a\<bar> mod \<bar>b\<bar>)"

lemma arith_ok [rust_facts]: "fits w x \<Longrightarrow> arith p w x = Some x"
  by (simp add: arith_def)

lemma fits_64 [simp]: "fits 64 x \<longleftrightarrow> - 9223372036854775808 \<le> x \<and> x < 9223372036854775808"
  and fits_32 [simp]: "fits 32 x \<longleftrightarrow> - 2147483648 \<le> x \<and> x < 2147483648"
  by (simp_all add: fits_def)

lemma arith_64 [rust_facts]: "\<bar>x\<bar> < 2 ^ 63 \<Longrightarrow> arith p 64 x = Some x"
  and arith_32 [rust_facts]: "\<bar>x\<bar> < 2 ^ 31 \<Longrightarrow> arith p 32 x = Some x"
  by (auto intro!: arith_ok simp: abs_less_iff)

lemma tdiv_tmod: "b \<noteq> 0 \<Longrightarrow> 0 < b \<Longrightarrow> tdiv a b * b + tmod a b = a"
  by (cases "0 \<le> a") (auto simp: tdiv_def tmod_def sgn_if mult.commute
    simp flip: minus_mult_div_eq_mod split: if_splits)

subsection \<open>Timestamps and durations\<close>

record timestamp =
  ts_seconds :: int
  ts_nanos :: int

record duration =
  d_seconds :: int
  d_nanos :: int

subsection \<open>The helper functions\<close>

definition timestamp_to_datetime ::
    "(int \<Rightarrow> nat \<Rightarrow> 'naive option) \<Rightarrow> ('naive \<Rightarrow> 'dt) \<Rightarrow> timestamp \<Rightarrow> 'dt run" where
  "timestamp_to_datetime from_timestamp_opt from_naive_utc t =
     do { naive \<leftarrow> unwrap (from_timestamp_opt (ts_seconds t) (nat (ts_nanos t mod 2 ^ 32)));
          Some (from_naive_utc naive) }"

definition datetime_to_timestamp :: "('dt \<Rightarrow> int) \<Rightarrow> ('dt \<Rightarrow> nat) \<Rightarrow> 'dt \<Rightarrow> timestamp" where
  "datetime_to_timestamp dt_timestamp dt_subsec_nanos datetime =
     \<lparr>ts_seconds = dt_timestamp datetime,
      ts_nanos = signed_take_bit 31 (int (dt_subsec_nanos datetime))\<rparr>"

definition add_duration_to_timestamp :: "profile \<Rightarrow> timestamp \<Rightarrow> duration \<Rightarrow> timestamp run" where
  [proto_ops]: "add_duration_to_timestamp p t d =
     do {
       seconds \<leftarrow> arith p 64 (ts_seconds t + d_seconds d);
       nanos \<leftarrow> arith p 32 (ts_nanos t + d_nanos d);
       if nanos \<ge> 1000000000 then do {
         seconds \<leftarrow> arith p 64 (seconds + 1);
         nanos \<leftarrow> arith p 32 (nanos - 1000000000);
         Some \<lparr>ts_seconds = seconds, ts_nanos = nanos\<rparr> }
       else if nanos < 0 then do {
         seconds \<leftarrow> arith p 64 (seconds - 1);
         nanos \<leftarrow> arith p 32 (nanos + 1000000000);
         Some \<lparr>ts_seconds = seconds, ts_nanos = nanos\<rparr> }
       else Some \<lparr>ts_seconds = seconds, ts_nanos = nanos\<rparr> }"

definition subtract_duration_from_timestamp :: "profile \<Rightarrow> timestamp \<Rightarrow> duration \<Rightarrow> timestamp run" where
  [proto_ops]: "subtract_duration_from_timestamp p t d =
     do {
       seconds \<leftarrow> arith p 64 (- d_seconds d);
       nanos \<leftarrow> arith p 32 (- d_nanos d);
       add_duration_to_timestamp p t \<lparr>d_seconds = seconds, d_nanos = nanos\<rparr> }"

definition timestamp_difference :: "profile \<Rightarrow> timestamp \<Rightarrow> timestamp \<Rightarrow> duration run" where
  [proto_ops]: "timestamp_difference p t1 t2 =
     do {
       seconds \<leftarrow> arith p 64 (ts_seconds t1 - ts_seconds t2);
       nanos \<leftarrow> arith p 32 (ts_nanos t1 - ts_nanos t2);
       if nanos < 0 then do {
         seconds \<leftarrow> arith p 64 (seconds - 1);
         nanos \<leftarrow> arith p 32 (nanos + 1000000000);
         Some \<lparr>d_seconds = seconds, d_nanos = nanos\<rparr> }
       else Some \<lparr>d_seconds = seconds, d_nanos = nanos\<rparr> }"

definition add_durations :: "profile \<Rightarrow> duration \<Rightarrow> duration \<Rightarrow> duration run" where
  [proto_ops]: "add_durations p d1 d2 =
     do {
       seconds \<leftarrow> arith p 64 (d_seconds d1 + d_seconds d2);
       nanos \<leftarrow> arith p 32 (d_nanos d1 + d_nanos d2);
       (seconds, nanos) \<leftarrow>
         (if nanos \<ge> 1000000000 then do {
            seconds \<leftarrow> arith p 64 (seconds + 1); nanos \<leftarrow> arith p 32 (nanos - 1000000000);
            Some (seconds, nanos) }
          else if nanos \<le> - 1000000000 then do {
            seconds \<leftarrow> arith p 64 (seconds - 1); nanos \<leftarrow> arith p 32 (nanos + 1000000000);
            Some (seconds, nanos) }
          else Some (seconds, nanos));
       (seconds, nanos) \<leftarrow>
         (if seconds > 0 \<and> nanos < 0 then do {
            seconds \<leftarrow> arith p 64 (seconds - 1); nanos \<leftarrow> arith p 32 (nanos + 1000000000);
            Some (seconds, nanos) }
          else if seconds < 0 \<and> nanos > 0 then do {
            seconds \<leftarrow> arith p 64 (seconds + 1); nanos \<leftarrow> arith p 32 (nanos - 1000000000);
            Some (seconds, nanos) }
          else Some (seconds, nanos));
       Some \<lparr>d_seconds = seconds, d_nanos = nanos\<rparr> }"

definition subtract_durations :: "profile \<Rightarrow> duration \<Rightarrow> duration \<Rightarrow> duration run" where
  [proto_ops]: "subtract_durations p d1 d2 =
     do {
       seconds \<leftarrow> arith p 64 (- d_seconds d2);
       nanos \<leftarrow> arith p 32 (- d_nanos d2);
       add_durations p d1 \<lparr>d_seconds = seconds, d_nanos = nanos\<rparr> }"

definition compare_durations :: "duration \<Rightarrow> duration \<Rightarrow> int" where
  "compare_durations d1 d2 =
     (if d_seconds d1 \<noteq> d_seconds d2 then (if d_seconds d1 > d_seconds d2 then 1 else - 1)
      else if d_nanos d1 \<noteq> d_nanos d2 then (if d_nanos d1 > d_nanos d2 then 1 else - 1)
      else 0)"

subsection \<open>The demonstrations\<close>

definition duration_from_millis :: "profile \<Rightarrow> int \<Rightarrow> duration run" where
  "duration_from_millis p millis =
     do { nanos \<leftarrow> arith p 64 (tmod millis 1000 * 1000000);
          Some \<lparr>d_seconds = tdiv millis 1000, d_nanos = signed_take_bit 31 nanos\<rparr> }"

definition duration_from_nanos :: "int \<Rightarrow> duration" where
  "duration_from_nanos nanos_total =
     \<lparr>d_seconds = tdiv nanos_total 1000000000,
      d_nanos = signed_take_bit 31 (tmod nanos_total 1000000000)\<rparr>"

definition timestamp_operations :: "profile \<Rightarrow> (timestamp \<times> timestamp \<times> duration) run" where
  "timestamp_operations p =
     (let timestamp1 = \<lparr>ts_seconds = 1000, ts_nanos = 500000000\<rparr>;
          duration = \<lparr>d_seconds = 100, d_nanos = 250000000\<rparr>
      in do {
        timestamp2 \<leftarrow> add_duration_to_timestamp p timestamp1 duration;
        timestamp3 \<leftarrow> subtract_duration_from_timestamp p timestamp2 duration;
        diff \<leftarrow> timestamp_difference p timestamp2 timestamp1;
        Some (timestamp2, timestamp3, diff) })"

definition duration_operations :: "profile \<Rightarrow> (duration \<times> duration \<times> bool) run" where
  "duration_operations p =
     (let duration1 = \<lparr>d_seconds = 100, d_nanos = 500000000\<rparr>;
          duration2 = \<lparr>d_seconds = 50, d_nanos = 250000000\<rparr>
      in do {
        sum \<leftarrow> add_durations p duration1 duration2;
        difference \<leftarrow> subtract_durations p duration1 duration2;
        Some (sum, difference, compare_durations duration1 duration2 > 0) })"

subsection \<open>Two formats for one integer\<close>

locale nanos_format =
  fixes rep :: "int \<Rightarrow> 'a" and total :: "'a \<Rightarrow> int" and valid :: "'a \<Rightarrow> bool"
  assumes total_rep: "total (rep n) = n"
    and valid_rep: "valid (rep n)"
    and rep_total: "valid x \<Longrightarrow> rep (total x) = x"
begin

lemma total_inj: "valid x \<Longrightarrow> valid y \<Longrightarrow> total x = total y \<longleftrightarrow> x = y"
  by (metis rep_total)

lemma rep_eqI: "valid x \<Longrightarrow> total x = n \<Longrightarrow> x = rep n"
  by (metis rep_total)

end

definition timestamp_of :: "int \<Rightarrow> timestamp" where
  "timestamp_of n = \<lparr>ts_seconds = n div 1000000000, ts_nanos = n mod 1000000000\<rparr>"

definition ts_total :: "timestamp \<Rightarrow> int" where
  "ts_total t = ts_seconds t * 1000000000 + ts_nanos t"

definition valid_timestamp :: "timestamp \<Rightarrow> bool" where
  "valid_timestamp t \<longleftrightarrow> 0 \<le> ts_nanos t \<and> ts_nanos t < 1000000000"

definition duration_of :: "int \<Rightarrow> duration" where
  "duration_of n = \<lparr>d_seconds = tdiv n 1000000000, d_nanos = tmod n 1000000000\<rparr>"

definition d_total :: "duration \<Rightarrow> int" where
  "d_total d = d_seconds d * 1000000000 + d_nanos d"

text \<open>A duration is valid when its two fields do not have opposite signs.\<close>

definition valid_duration :: "duration \<Rightarrow> bool" where
  "valid_duration d \<longleftrightarrow>
     \<bar>d_nanos d\<bar> < 1000000000 \<and> \<not> (d_seconds d > 0 \<and> d_nanos d < 0) \<and> \<not> (d_seconds d < 0 \<and> d_nanos d > 0)"

interpretation ts_format: nanos_format timestamp_of ts_total valid_timestamp
  by unfold_locales (auto simp: timestamp_of_def ts_total_def valid_timestamp_def)

lemma tdiv_minus: "tdiv (- a) b = - tdiv a b"
  and tmod_minus: "tmod (- a) b = - tmod a b"
  by (simp_all add: tdiv_def tmod_def sgn_minus)

lemma tdiv_tmod_nonneg:
  assumes "0 \<le> q" "0 \<le> r" "r < b"
  shows "tdiv (q * b + r) b = q \<and> tmod (q * b + r) b = r"
proof -
  have "(q * b + r) div b = q" "(q * b + r) mod b = r" using assms by auto
  moreover have "q = 0 \<and> r = 0 \<or> 0 < q * b + r" using assms
    by (metis add_nonneg_eq_0_iff add_nonneg_nonneg less_le mult_eq_0_iff mult_nonneg_nonneg order_trans)
  ultimately show ?thesis using assms by (auto simp: tdiv_def tmod_def)
qed

lemma tdiv_tmod_unique:
  assumes "\<bar>r\<bar> < b" "\<not> (q > 0 \<and> r < 0)" "\<not> (q < 0 \<and> r > 0)"
  shows "tdiv (q * b + r) b = q \<and> tmod (q * b + r) b = r"
proof (cases "0 \<le> q \<and> 0 \<le> r")
  case True
  then show ?thesis using assms tdiv_tmod_nonneg by simp
next
  case False
  have "- q * b + - r = - (q * b + r)" by simp
  then show ?thesis using False assms tdiv_tmod_nonneg [of "- q" "- r" b]
    by (simp only: tdiv_minus tmod_minus) linarith
qed

lemma tmod_sign:
  assumes "0 < b"
  shows "\<bar>tmod a b\<bar> < b" "\<not> (tdiv a b > 0 \<and> tmod a b < 0)" "\<not> (tdiv a b < 0 \<and> tmod a b > 0)"
  using assms by (auto simp: tdiv_def tmod_def sgn_if abs_mult not_less pos_imp_zdiv_nonneg_iff)

interpretation d_format: nanos_format duration_of d_total valid_duration
proof
  show "d_total (duration_of n) = n" for n
    by (simp add: duration_of_def d_total_def tdiv_tmod)
  show "valid_duration (duration_of n)" for n
    using tmod_sign [of 1000000000 n] by (simp add: duration_of_def valid_duration_def)
  show "duration_of (d_total d) = d" if "valid_duration d" for d
    using that tdiv_tmod_unique [of "d_nanos d" 1000000000 "d_seconds d"]
    by (simp add: duration_of_def valid_duration_def d_total_def)
qed

subsection \<open>The operations in the formats\<close>

text \<open>Adding a duration that is not normalised is exact too, as long as one carry suffices.\<close>

lemmas proto_norm = proto_ops arith_ok valid_timestamp_def valid_duration_def ts_total_def d_total_def
  abs_less_iff

lemma add_to_timestamp_total:
  assumes "valid_timestamp t" "\<bar>d_nanos d\<bar> < 1000000000" "\<bar>ts_seconds t + d_seconds d\<bar> < 2 ^ 63 - 1"
  shows "add_duration_to_timestamp p t d = Some (timestamp_of (ts_total t + d_total d))"
proof -
  let ?n = "ts_nanos t + d_nanos d"
  consider "?n \<ge> 1000000000" | "?n < 0" | "0 \<le> ?n" "?n < 1000000000" by linarith
  then have "\<exists>u. add_duration_to_timestamp p t d = Some u \<and> valid_timestamp u
    \<and> ts_total u = ts_total t + d_total d"
    using assms by cases (simp_all add: proto_norm)
  then show ?thesis using ts_format.rep_eqI by blast
qed

lemma subtract_from_timestamp_total:
  assumes "valid_timestamp t" "\<bar>d_nanos d\<bar> < 1000000000" "\<bar>d_seconds d\<bar> < 2 ^ 63"
    "\<bar>ts_seconds t - d_seconds d\<bar> < 2 ^ 63 - 1"
  shows "subtract_duration_from_timestamp p t d = Some (timestamp_of (ts_total t - d_total d))"
  using assms add_to_timestamp_total [of t "\<lparr>d_seconds = - d_seconds d, d_nanos = - d_nanos d\<rparr>" p]
  by (simp add: subtract_duration_from_timestamp_def arith_64 arith_32 d_total_def algebra_simps)

lemma add_durations_total:
  assumes "valid_duration d" "valid_duration e" "\<bar>d_seconds d + d_seconds e\<bar> < 2 ^ 63 - 1"
  shows "add_durations p d e = Some (duration_of (d_total d + d_total e))"
proof -
  let ?n = "d_nanos d + d_nanos e" and ?s = "d_seconds d + d_seconds e"
  consider "?n \<ge> 1000000000" "?s \<ge> 0" | "?n \<ge> 1000000000" "?s < 0"
    | "?n \<le> - 1000000000" "?s \<le> 0" | "?n \<le> - 1000000000" "?s > 0"
    | "\<bar>?n\<bar> < 1000000000" "?s > 0" "?n < 0" | "\<bar>?n\<bar> < 1000000000" "?s < 0" "?n > 0"
    | "\<bar>?n\<bar> < 1000000000" "\<not> (?s > 0 \<and> ?n < 0)" "\<not> (?s < 0 \<and> ?n > 0)" by linarith
  then have "\<exists>u. add_durations p d e = Some u \<and> valid_duration u \<and> d_total u = d_total d + d_total e"
    using assms by cases (simp_all add: proto_norm)
  then show ?thesis using d_format.rep_eqI by blast
qed

lemma valid_duration_uminus:
  "valid_duration \<lparr>d_seconds = - d_seconds d, d_nanos = - d_nanos d\<rparr> \<longleftrightarrow> valid_duration d"
  by (auto simp: valid_duration_def)

lemma d_total_uminus: "d_total \<lparr>d_seconds = - d_seconds d, d_nanos = - d_nanos d\<rparr> = - d_total d"
  by (simp add: d_total_def)

lemma subtract_durations_total:
  assumes "valid_duration d" "valid_duration e" "\<bar>d_seconds e\<bar> < 2 ^ 63"
    "\<bar>d_seconds d - d_seconds e\<bar> < 2 ^ 63 - 1"
  shows "subtract_durations p d e = Some (duration_of (d_total d - d_total e))"
proof -
  have "\<bar>d_nanos e\<bar> < 2 ^ 31" using assms(2) by (simp add: valid_duration_def)
  then show ?thesis
    using assms add_durations_total [of d "\<lparr>d_seconds = - d_seconds e, d_nanos = - d_nanos e\<rparr>" p]
    by (simp add: subtract_durations_def arith_64 arith_32 d_total_uminus valid_duration_uminus)
qed

lemma compare_durations_total:
  assumes "valid_duration d" "valid_duration e"
  shows "compare_durations d e = sgn (d_total d - d_total e)"
  using assms by (auto simp: compare_durations_def d_total_def valid_duration_def sgn_if)

lemma timestamp_difference_total:
  assumes "valid_timestamp t" "valid_timestamp u" "\<bar>ts_seconds t - ts_seconds u\<bar> < 2 ^ 63 - 1"
  shows "timestamp_difference p t u =
    Some \<lparr>d_seconds = (ts_total t - ts_total u) div 1000000000,
          d_nanos = (ts_total t - ts_total u) mod 1000000000\<rparr>"
proof -
  have "\<exists>v. timestamp_difference p t u = Some \<lparr>d_seconds = ts_seconds v, d_nanos = ts_nanos v\<rparr>
      \<and> valid_timestamp v \<and> ts_total v = ts_total t - ts_total u"
  proof (cases "ts_nanos t < ts_nanos u")
    case True
    then show ?thesis using assms
      by (intro exI [of _ "\<lparr>ts_seconds = ts_seconds t - ts_seconds u - 1,
        ts_nanos = ts_nanos t - ts_nanos u + 1000000000\<rparr>"]) (simp add: proto_norm)
  next
    case False
    then show ?thesis using assms
      by (intro exI [of _ "\<lparr>ts_seconds = ts_seconds t - ts_seconds u, ts_nanos = ts_nanos t - ts_nanos u\<rparr>"])
        (simp add: proto_norm)
  qed
  then show ?thesis using ts_format.rep_eqI by (metis timestamp.select_convs timestamp_of_def)
qed

subsection \<open>The difference of timestamps is not always a duration\<close>

lemma floor_duration_valid:
  "valid_duration \<lparr>d_seconds = n div 1000000000, d_nanos = n mod 1000000000\<rparr> \<longleftrightarrow>
     0 \<le> n \<or> 1000000000 dvd n"
  by (auto simp: valid_duration_def dvd_eq_mod_eq_0 pos_imp_zdiv_neg_iff not_less)

lemma d_total_floor: "d_total \<lparr>d_seconds = n div 1000000000, d_nanos = n mod 1000000000\<rparr> = n"
  by (simp add: d_total_def)

text \<open>
  Half a second before, computed as a difference, is minus one second plus half a second; it is
  compared as smaller than minus 0.6 seconds.
\<close>

lemma difference_misordered:
  "timestamp_difference p \<lparr>ts_seconds = 0, ts_nanos = 500000000\<rparr> \<lparr>ts_seconds = 1, ts_nanos = 0\<rparr> =
     Some \<lparr>d_seconds = - 1, d_nanos = 500000000\<rparr>
   \<and> compare_durations \<lparr>d_seconds = - 1, d_nanos = 500000000\<rparr> \<lparr>d_seconds = 0, d_nanos = - 600000000\<rparr> = - 1
   \<and> d_total \<lparr>d_seconds = - 1, d_nanos = 500000000\<rparr> > d_total \<lparr>d_seconds = 0, d_nanos = - 600000000\<rparr>"
  by (simp add: proto_ops arith_ok compare_durations_def d_total_def)

subsection \<open>Overflow\<close>

text \<open>The least \<open>i64\<close> has no negation: the checked build panics, the release build adds instead of subtracting.\<close>

lemma subtract_min_duration:
  assumes "valid_timestamp t" "0 \<le> ts_seconds t" "ts_seconds t < 2 ^ 63"
  shows "subtract_duration_from_timestamp CheckedBuild t \<lparr>d_seconds = - (2 ^ 63), d_nanos = 0\<rparr> = None"
    and "subtract_duration_from_timestamp ReleaseBuild t \<lparr>d_seconds = - (2 ^ 63), d_nanos = 0\<rparr> =
      Some \<lparr>ts_seconds = ts_seconds t - 2 ^ 63, ts_nanos = ts_nanos t\<rparr>"
proof -
  show "subtract_duration_from_timestamp CheckedBuild t \<lparr>d_seconds = - (2 ^ 63), d_nanos = 0\<rparr> = None"
    by (simp add: subtract_duration_from_timestamp_def arith_def)
  have "arith ReleaseBuild 64 (2 ^ 63) = Some (- (2 ^ 63))"
    by (simp add: arith_def)
  then show "subtract_duration_from_timestamp ReleaseBuild t \<lparr>d_seconds = - (2 ^ 63), d_nanos = 0\<rparr> =
      Some \<lparr>ts_seconds = ts_seconds t - 2 ^ 63, ts_nanos = ts_nanos t\<rparr>"
    using assms by (simp add: proto_ops arith_ok valid_timestamp_def)
qed

subsection \<open>Calendar conversion and the demonstrations\<close>

text \<open>
  A negative nanosecond field becomes at least \<open>2 ^ 31\<close> by the cast, which the calendar library
  refuses (it documents an upper limit of two thousand million): the conversion panics.
\<close>

lemma negative_mod:
  fixes x b :: int
  assumes "- b \<le> x" "x < 0"
  shows "x mod b = x + b"
proof -
  have "(x + b) mod b = x + b" using assms by (intro mod_pos_pos_trivial) auto
  then show ?thesis by simp
qed

lemma negative_nanos_panic:
  assumes refuses: "\<And>secs nsecs. nsecs \<ge> 2000000000 \<Longrightarrow> from_timestamp_opt secs nsecs = None"
    and "- (2 ^ 31) \<le> ts_nanos t" "ts_nanos t < 0"
  shows "timestamp_to_datetime from_timestamp_opt from_naive_utc t = None"
proof -
  have "ts_nanos t mod 2 ^ 32 = ts_nanos t + 2 ^ 32"
    using assms(2,3) by (intro negative_mod) auto
  then have "nat (ts_nanos t mod 2 ^ 32) \<ge> 2000000000" using assms(2) by simp
  then show ?thesis by (simp add: timestamp_to_datetime_def unwrap_def refuses)
qed

lemma datetime_round_trip:
  assumes "from_timestamp_opt (ts_seconds t) (nat (ts_nanos t)) = Some naive"
    and "dt_timestamp (from_naive_utc naive) = ts_seconds t"
    and "dt_subsec_nanos (from_naive_utc naive) = nat (ts_nanos t)"
    and "valid_timestamp t"
  shows "map_option (datetime_to_timestamp dt_timestamp dt_subsec_nanos)
    (timestamp_to_datetime from_timestamp_opt from_naive_utc t) = Some t"
proof -
  have "ts_nanos t mod 2 ^ 32 = ts_nanos t" "signed_take_bit 31 (ts_nanos t) = ts_nanos t"
    using assms(4) by (auto simp: valid_timestamp_def signed_take_bit_int_eq_self)
  then show ?thesis using assms
    by (simp add: timestamp_to_datetime_def datetime_to_timestamp_def unwrap_def valid_timestamp_def)
qed

lemma duration_from_nanos_exact: "duration_from_nanos n = duration_of n"
proof -
  have "signed_take_bit 31 (tmod n 1000000000) = tmod n 1000000000"
    using tmod_sign(1) [of 1000000000 n] by (intro signed_take_bit_int_eq_self) auto
  then show ?thesis by (simp add: duration_from_nanos_def duration_of_def)
qed

lemma duration_from_millis_exact: "duration_from_millis p m = Some (duration_of (m * 1000000))"
proof -
  have r: "\<bar>tmod m 1000\<bar> < 1000" and
    sign: "\<not> (tdiv m 1000 > 0 \<and> tmod m 1000 < 0)" "\<not> (tdiv m 1000 < 0 \<and> tmod m 1000 > 0)"
    using tmod_sign [of 1000 m] by auto
  let ?d = "\<lparr>d_seconds = tdiv m 1000, d_nanos = tmod m 1000 * 1000000\<rparr>"
  have "valid_duration ?d" using r sign by (auto simp: valid_duration_def)
  moreover have "d_total ?d = (tdiv m 1000 * 1000 + tmod m 1000) * 1000000" by (simp add: d_total_def)
  then have "d_total ?d = m * 1000000" by (simp add: tdiv_tmod)
  ultimately have "?d = duration_of (m * 1000000)" by (rule d_format.rep_eqI)
  moreover have "signed_take_bit 31 (tmod m 1000 * 1000000) = tmod m 1000 * 1000000"
    using r by (intro signed_take_bit_int_eq_self) auto
  moreover have "arith p 64 (tmod m 1000 * 1000000) = Some (tmod m 1000 * 1000000)"
    using r by (intro arith_64) auto
  ultimately show ?thesis by (simp add: duration_from_millis_def)
qed

lemma demonstrations:
  "timestamp_operations p =
     Some (\<lparr>ts_seconds = 1100, ts_nanos = 750000000\<rparr>, \<lparr>ts_seconds = 1000, ts_nanos = 500000000\<rparr>,
           \<lparr>d_seconds = 100, d_nanos = 250000000\<rparr>)"
  "duration_operations p =
     Some (\<lparr>d_seconds = 150, d_nanos = 750000000\<rparr>, \<lparr>d_seconds = 50, d_nanos = 250000000\<rparr>, True)"
  by (simp_all add: timestamp_operations_def duration_operations_def proto_ops arith_ok compare_durations_def)

subsection \<open>The arithmetic is exact\<close>

definition small_ts :: "timestamp \<Rightarrow> bool" where
  "small_ts t \<longleftrightarrow> valid_timestamp t \<and> \<bar>ts_seconds t\<bar> < 2 ^ 61"

definition small_d :: "duration \<Rightarrow> bool" where
  "small_d d \<longleftrightarrow> valid_duration d \<and> \<bar>d_seconds d\<bar> < 2 ^ 61"

lemma timestamp_of_small:
  assumes "small_ts t" "small_d d"
  shows "\<bar>ts_seconds (timestamp_of (ts_total t + d_total d)) - d_seconds d\<bar> < 2 ^ 62"
proof -
  define u where "u = timestamp_of (ts_total t + d_total d)"
  have "ts_total u = ts_total t + d_total d" "valid_timestamp u"
    unfolding u_def by (rule ts_format.total_rep, rule ts_format.valid_rep)
  then have "\<bar>ts_seconds u - d_seconds d\<bar> < 2 ^ 62" using assms
    by (simp add: small_ts_def small_d_def ts_total_def d_total_def valid_timestamp_def
      valid_duration_def abs_less_iff)
  then show ?thesis by (simp only: u_def)
qed

text \<open>
  C33. Timestamps and durations are exact integers of nanoseconds. On valid arguments (seconds below
  \<open>2 ^ 61\<close> in absolute value, far beyond the years 1 to 9999) and in both builds no operation panics
  or wraps; addition to and subtraction from a timestamp, addition and subtraction of durations give
  the unique valid representation of the exact result, subtraction undoes addition, and comparison
  is the sign of the exact difference. The difference of two timestamps has the exact value too,
  but it is a valid duration only if it is not negative or a whole number of seconds.
\<close>

theorem proto_time_exact:
  assumes "small_ts t" "small_ts u" "small_d d" "small_d e"
  shows "add_duration_to_timestamp p t d = Some (timestamp_of (ts_total t + d_total d))
    \<and> subtract_duration_from_timestamp p t d = Some (timestamp_of (ts_total t - d_total d))
    \<and> do { v \<leftarrow> add_duration_to_timestamp p t d; subtract_duration_from_timestamp p v d } = Some t
    \<and> add_durations p d e = Some (duration_of (d_total d + d_total e))
    \<and> subtract_durations p d e = Some (duration_of (d_total d - d_total e))
    \<and> compare_durations d e = sgn (d_total d - d_total e)
    \<and> (\<exists>x. timestamp_difference p t u = Some x \<and> d_total x = ts_total t - ts_total u
          \<and> (valid_duration x \<longleftrightarrow> ts_total u \<le> ts_total t \<or> 1000000000 dvd ts_total t - ts_total u))"
proof (intro conjI)
  note bounds = assms [unfolded small_ts_def small_d_def]
  let ?v = "timestamp_of (ts_total t + d_total d)"
  show add: "add_duration_to_timestamp p t d = Some ?v"
    using bounds by (intro add_to_timestamp_total) (auto simp: valid_duration_def)
  show "subtract_duration_from_timestamp p t d = Some (timestamp_of (ts_total t - d_total d))"
    using bounds by (intro subtract_from_timestamp_total) (auto simp: valid_duration_def)
  have "subtract_duration_from_timestamp p ?v d = Some (timestamp_of (ts_total ?v - d_total d))"
    using bounds timestamp_of_small [OF assms(1,3)] ts_format.valid_rep
    by (intro subtract_from_timestamp_total) (auto simp: valid_duration_def)
  then show "do { v \<leftarrow> add_duration_to_timestamp p t d; subtract_duration_from_timestamp p v d } = Some t"
    using bounds by (simp add: add ts_format.total_rep ts_format.rep_total)
  show "add_durations p d e = Some (duration_of (d_total d + d_total e))"
    using bounds by (intro add_durations_total) auto
  show "subtract_durations p d e = Some (duration_of (d_total d - d_total e))"
    using bounds by (intro subtract_durations_total) auto
  show "compare_durations d e = sgn (d_total d - d_total e)"
    using bounds by (intro compare_durations_total) auto
  have "timestamp_difference p t u =
      Some \<lparr>d_seconds = (ts_total t - ts_total u) div 1000000000,
            d_nanos = (ts_total t - ts_total u) mod 1000000000\<rparr>"
    using bounds by (intro timestamp_difference_total) auto
  then show "\<exists>x. timestamp_difference p t u = Some x \<and> d_total x = ts_total t - ts_total u
      \<and> (valid_duration x \<longleftrightarrow> ts_total u \<le> ts_total t \<or> 1000000000 dvd ts_total t - ts_total u)"
    by (simp add: floor_duration_valid d_total_floor)
qed

lemma proto_time_exact_witness:
  "do { v \<leftarrow> add_duration_to_timestamp CheckedBuild \<lparr>ts_seconds = 1000, ts_nanos = 500000000\<rparr>
              \<lparr>d_seconds = - 7, d_nanos = - 900000000\<rparr>;
        subtract_duration_from_timestamp CheckedBuild v \<lparr>d_seconds = - 7, d_nanos = - 900000000\<rparr> } =
     Some \<lparr>ts_seconds = 1000, ts_nanos = 500000000\<rparr>"
proof -
  have "small_ts \<lparr>ts_seconds = 1000, ts_nanos = 500000000\<rparr>"
    "small_d \<lparr>d_seconds = - 7, d_nanos = - 900000000\<rparr>"
    by (simp_all add: small_ts_def small_d_def valid_timestamp_def valid_duration_def)
  then show ?thesis using proto_time_exact by blast
qed

end
