(* ===== verification/Proto_Sizes.thy ===== *)
theory Proto_Sizes
  imports Float_Rounding
begin

text \<open>
  \<^verbatim>\<open>Protobuf/src/31/message_size_optimization_example.rs\<close>: the messages of the example and the sizes it prints. A message is
  the list of its fields, with the tags and types of its declaration; its encoding is that of the \<open>prost\<close> library, a parameter, and the
  theorems take the documented wire format of Protocol Buffers for the lengths it computes. Strings are their UTF-8 bytes.
\<close>

subsection \<open>Messages\<close>

datatype proto_value =
    VString bytes | VBytes bytes | VInt32 int | VInt64 int | VUint32 nat | VSint32 int | VFixed32 nat | VFixed64 nat
  | VBool bool | VFloat f32 | VPacked "int list" | VOneof proto_value

type_synonym fields = "(nat \<times> proto_value) list"

record optimized_user =
  opt_biography :: bytes
  opt_small_counter :: int
  opt_user_id :: nat
  opt_scores :: "int list"
  opt_nickname :: bytes

definition optimized_fields :: "optimized_user \<Rightarrow> fields" where
  "optimized_fields u = [(1, VString (opt_biography u)), (2, VInt32 (opt_small_counter u)), (3, VUint32 (opt_user_id u)),
     (4, VPacked (opt_scores u)), (16, VString (opt_nickname u))]"

record unoptimized_user =
  un_biography :: bytes
  un_small_counter :: int
  un_user_id :: nat
  un_scores :: "int list"
  un_nickname :: bytes

text \<open>Repeated numbers are packed unless the declaration says otherwise.\<close>

definition unoptimized_fields :: "unoptimized_user \<Rightarrow> fields" where
  "unoptimized_fields u = [(16, VString (un_biography u)), (17, VInt64 (un_small_counter u)), (18, VFixed32 (un_user_id u)),
     (19, VPacked (un_scores u)), (1, VString (un_nickname u))]"

record metrics_data =
  metrics_count :: nat
  temperature :: int
  timestamp_nanos :: nat
  is_active :: bool
  precision_value :: f32

definition metrics_fields :: "metrics_data \<Rightarrow> fields" where
  "metrics_fields m = [(1, VUint32 (metrics_count m)), (2, VSint32 (temperature m)), (3, VFixed64 (timestamp_nanos m)),
     (4, VBool (is_active m)), (5, VFloat (precision_value m))]"

datatype notification_payload = TextMessage bytes | ImageData bytes | VideoUrl bytes

fun payload_field :: "notification_payload \<Rightarrow> nat \<times> proto_value" where
  "payload_field (TextMessage s) = (1, VOneof (VString s))"
| "payload_field (ImageData b) = (2, VOneof (VBytes b))"
| "payload_field (VideoUrl s) = (3, VOneof (VString s))"

record notification =
  payload :: "notification_payload option"
  notif_timestamp :: nat

definition notification_fields :: "notification \<Rightarrow> fields" where
  "notification_fields n = (case payload n of None \<Rightarrow> [] | Some p \<Rightarrow> [payload_field p]) @ [(4, VUint32 (notif_timestamp n))]"

record data_points =
  measurements :: "int list"

definition data_points_fields :: "data_points \<Rightarrow> fields" where
  "data_points_fields d = [(1, VPacked (measurements d))]"

subsection \<open>The program\<close>

abbreviation str :: "string \<Rightarrow> bytes" where
  "str \<equiv> map of_char"

text \<open>The sizes in the order in which they are printed.\<close>

definition demonstrate_message_sizes :: "(fields \<Rightarrow> nat) \<Rightarrow> nat list" where
  "demonstrate_message_sizes encoded_len =
     (let unopt_user = \<lparr>un_biography = str ''Software engineer with 10 years experience'', un_small_counter = 42,
            un_user_id = 12345, un_scores = [], un_nickname = str ''dev_user''\<rparr>;
          opt_user = \<lparr>opt_biography = str ''Software engineer with 10 years experience'', opt_small_counter = 42,
            opt_user_id = 12345, opt_scores = [], opt_nickname = str ''dev_user''\<rparr>;
          packed_data = \<lparr>measurements = [0..99]\<rparr>;
          metrics = \<lparr>metrics_count = 50, temperature = - 25, timestamp_nanos = 1234567890123456789, is_active = True,
            precision_value = rnd32 (314159 / 100000)\<rparr>;
          notif1 = \<lparr>payload = Some (TextMessage (str ''Hello!'')), notif_timestamp = 1234567890\<rparr>;
          notif2 = \<lparr>payload = Some (VideoUrl (str ''https://example.com/video.mp4'')), notif_timestamp = 1234567890\<rparr>;
          sparse_user = \<lparr>opt_biography = [], opt_small_counter = 0, opt_user_id = 999, opt_scores = [], opt_nickname = []\<rparr>;
          full_user = \<lparr>opt_biography = str ''Full profile with all fields populated'', opt_small_counter = 100,
            opt_user_id = 999, opt_scores = [90..99], opt_nickname = str ''power_user''\<rparr>
      in [encoded_len (unoptimized_fields unopt_user), encoded_len (optimized_fields opt_user),
          encoded_len (data_points_fields packed_data), encoded_len (metrics_fields metrics),
          encoded_len (notification_fields notif1), encoded_len (notification_fields notif2),
          encoded_len (optimized_fields sparse_user), encoded_len (optimized_fields full_user)])"

definition analyze_field_sizes :: "(fields \<Rightarrow> nat) \<Rightarrow> nat list" where
  "analyze_field_sizes encoded_len =
     (let u0 = \<lparr>opt_biography = [], opt_small_counter = 0, opt_user_id = 0, opt_scores = [], opt_nickname = []\<rparr>;
          u1 = u0\<lparr>opt_biography := str ''Test bio''\<rparr>;
          u2 = u1\<lparr>opt_small_counter := 42\<rparr>;
          u3 = u2\<lparr>opt_user_id := 12345\<rparr>;
          u4 = u3\<lparr>opt_scores := [0, 10, 20, 30, 40]\<rparr>
      in map (\<lambda>u. encoded_len (optimized_fields u)) [u0, u1, u2, u3, u4])"

definition only_count :: "nat \<Rightarrow> metrics_data" where
  "only_count n = \<lparr>metrics_count = n, temperature = 0, timestamp_nanos = 0, is_active = False, precision_value = 0\<rparr>"

definition compare_integer_types :: "(fields \<Rightarrow> nat) \<Rightarrow> nat list" where
  "compare_integer_types encoded_len =
     [encoded_len (metrics_fields (only_count 1000000)), encoded_len (metrics_fields (only_count 10))]"

subsection \<open>The wire format\<close>

fun varint_len :: "nat \<Rightarrow> nat" where
  "varint_len n = (if n < 128 then 1 else 1 + varint_len (n div 128))"

declare varint_len.simps [simp del]

text \<open>Negative numbers of the plain signed types are sign-extended to 64 bits; \<open>sint32\<close> is zigzag-encoded.\<close>

definition int_len :: "int \<Rightarrow> nat" where
  "int_len i = varint_len (nat (i mod 2 ^ 64))"

definition zigzag :: "int \<Rightarrow> nat" where
  "zigzag i = nat (if i \<ge> 0 then 2 * i else - 2 * i - 1)"

fun is_default :: "proto_value \<Rightarrow> bool" where
  "is_default (VString s) = (s = [])" | "is_default (VBytes s) = (s = [])" | "is_default (VInt32 i) = (i = 0)"
| "is_default (VInt64 i) = (i = 0)" | "is_default (VUint32 n) = (n = 0)" | "is_default (VSint32 i) = (i = 0)"
| "is_default (VFixed32 n) = (n = 0)" | "is_default (VFixed64 n) = (n = 0)" | "is_default (VBool b) = (\<not> b)"
| "is_default (VFloat x) = (x = 0)" | "is_default (VPacked xs) = (xs = [])" | "is_default (VOneof v) = False"

fun body_len :: "proto_value \<Rightarrow> nat" where
  "body_len (VString s) = varint_len (length s) + length s" | "body_len (VBytes s) = varint_len (length s) + length s"
| "body_len (VInt32 i) = int_len i" | "body_len (VInt64 i) = int_len i" | "body_len (VUint32 n) = varint_len n"
| "body_len (VSint32 i) = varint_len (zigzag i)" | "body_len (VFixed32 n) = 4" | "body_len (VFixed64 n) = 8"
| "body_len (VBool b) = 1" | "body_len (VFloat x) = 4"
| "body_len (VPacked xs) = (let n = (\<Sum>x \<leftarrow> xs. int_len x) in varint_len n + n)" | "body_len (VOneof v) = body_len v"

text \<open>The key of a field is its tag with three bits for the wire type, which never change the length.\<close>

definition field_len :: "nat \<times> proto_value \<Rightarrow> nat" where
  "field_len f = (if is_default (snd f) then 0 else varint_len (8 * fst f) + body_len (snd f))"

definition prost_ok :: "(fields \<Rightarrow> nat) \<Rightarrow> bool" where
  "prost_ok encoded_len \<longleftrightarrow> (\<forall>fs. encoded_len fs = (\<Sum>f \<leftarrow> fs. field_len f))"

lemma varint_len_le: "n < 128 ^ Suc k \<Longrightarrow> varint_len n \<le> Suc k"
proof (induction k arbitrary: n)
  case (Suc k)
  have "n div 128 < 128 ^ Suc k" using Suc.prems by (simp add: less_mult_imp_div_less mult.commute)
  then show ?case using Suc.IH [of "n div 128"] by (simp add: varint_len.simps [of n])
qed (simp add: varint_len.simps)

lemma varint_len_ge: "128 ^ k \<le> n \<Longrightarrow> Suc k \<le> varint_len n"
proof (induction k arbitrary: n)
  case (Suc k)
  have big: "128 * 128 ^ k \<le> n" using Suc.prems by simp
  then have "128 ^ k \<le> n div 128" by (simp add: less_eq_div_iff_mult_less_eq mult.commute)
  moreover have "1 \<le> (128 :: nat) ^ k" by simp
  then have "\<not> n < 128" using big by linarith
  ultimately show ?case using Suc.IH [of "n div 128"] by (simp add: varint_len.simps [of n])
qed (simp add: varint_len.simps)

lemma varint_len_bounds: "n < 2 ^ 28 \<Longrightarrow> varint_len n \<le> 4" "2 ^ 28 \<le> n \<Longrightarrow> n < 2 ^ 32 \<Longrightarrow> varint_len n = 5" "1 \<le> varint_len n"
  using varint_len_le [of n 3] varint_len_le [of n 4] varint_len_ge [of 4 n] by (auto simp: varint_len.simps [of n])

lemma key_lens: "varint_len 8 = 1" "varint_len 16 = 1" "varint_len 24 = 1" "varint_len 32 = 1" "varint_len 40 = 1"
  "varint_len 128 = 2" "varint_len 136 = 2" "varint_len 144 = 2" "varint_len 152 = 2"
  by (simp_all add: varint_len.simps)

subsection \<open>Sizes of messages\<close>

text \<open>The same user in both declarations.\<close>

definition unoptimized :: "optimized_user \<Rightarrow> unoptimized_user" where
  "unoptimized u = \<lparr>un_biography = opt_biography u, un_small_counter = opt_small_counter u, un_user_id = opt_user_id u,
     un_scores = opt_scores u, un_nickname = opt_nickname u\<rparr>"

lemma optimized_len:
  "(\<Sum>f \<leftarrow> optimized_fields u. field_len f) =
     (if opt_biography u = [] then 0 else 1 + body_len (VString (opt_biography u)))
     + (if opt_small_counter u = 0 then 0 else 1 + int_len (opt_small_counter u))
     + (if opt_user_id u = 0 then 0 else 1 + varint_len (opt_user_id u))
     + (if opt_scores u = [] then 0 else 1 + body_len (VPacked (opt_scores u)))
     + (if opt_nickname u = [] then 0 else 2 + body_len (VString (opt_nickname u)))"
  by (simp add: optimized_fields_def field_len_def key_lens del: body_len.simps(1,11))

lemma unoptimized_len:
  "(\<Sum>f \<leftarrow> unoptimized_fields (unoptimized u). field_len f) =
     (if opt_biography u = [] then 0 else 2 + body_len (VString (opt_biography u)))
     + (if opt_small_counter u = 0 then 0 else 2 + int_len (opt_small_counter u))
     + (if opt_user_id u = 0 then 0 else 6)
     + (if opt_scores u = [] then 0 else 2 + body_len (VPacked (opt_scores u)))
     + (if opt_nickname u = [] then 0 else 1 + body_len (VString (opt_nickname u)))"
  by (simp add: unoptimized_fields_def unoptimized_def field_len_def key_lens del: body_len.simps(1,11))

text \<open>
  The optimised declaration. It is never more than a byte larger than the other one, and larger only for a user who has nothing but
  a nickname and possibly an identifier of at least \<open>2 ^ 28\<close>: the low tag went to the biography. It saves at most
  seven bytes. A field with its default value takes no byte in either.
\<close>

theorem optimized_smaller_iff:
  assumes "prost_ok encoded_len" "opt_user_id u < 2 ^ 32"
  shows "encoded_len (optimized_fields u) > encoded_len (unoptimized_fields (unoptimized u)) \<longleftrightarrow>
      opt_nickname u \<noteq> [] \<and> opt_biography u = [] \<and> opt_small_counter u = 0 \<and> opt_scores u = []
      \<and> (opt_user_id u = 0 \<or> opt_user_id u \<ge> 2 ^ 28)"
    and "encoded_len (optimized_fields u) \<le> encoded_len (unoptimized_fields (unoptimized u)) + 1"
    and "encoded_len (unoptimized_fields (unoptimized u)) \<le> encoded_len (optimized_fields u) + 7"
proof -
  have len: "encoded_len fs = (\<Sum>f \<leftarrow> fs. field_len f)" for fs using assms(1) by (simp add: prost_ok_def)
  consider "opt_user_id u < 2 ^ 28" "varint_len (opt_user_id u) \<le> 4" | "2 ^ 28 \<le> opt_user_id u" "varint_len (opt_user_id u) = 5"
    using varint_len_bounds [of "opt_user_id u"] assms(2) by linarith
  note id = this
  show "encoded_len (optimized_fields u) > encoded_len (unoptimized_fields (unoptimized u)) \<longleftrightarrow>
      opt_nickname u \<noteq> [] \<and> opt_biography u = [] \<and> opt_small_counter u = 0 \<and> opt_scores u = []
      \<and> (opt_user_id u = 0 \<or> opt_user_id u \<ge> 2 ^ 28)"
    using id varint_len_bounds(3) [of "opt_user_id u"] unfolding len optimized_len unoptimized_len
    by cases (simp_all del: body_len.simps)
  show "encoded_len (optimized_fields u) \<le> encoded_len (unoptimized_fields (unoptimized u)) + 1"
    using id unfolding len optimized_len unoptimized_len by cases (simp_all del: body_len.simps)
  show "encoded_len (unoptimized_fields (unoptimized u)) \<le> encoded_len (optimized_fields u) + 7"
    using varint_len_bounds(3) [of "opt_user_id u"] unfolding len optimized_len unoptimized_len by (simp del: body_len.simps)
qed

subsection \<open>The printed sizes\<close>

lemma varint_small: "n < 128 \<Longrightarrow> varint_len n = 1" "128 \<le> n \<Longrightarrow> n < 16384 \<Longrightarrow> varint_len n = 2"
  using varint_len_le [of n 0] varint_len_le [of n 1] varint_len_ge [of 1 n] varint_len_bounds(3) [of n] by simp_all

lemma int_len_small: "0 \<le> i \<Longrightarrow> i < 128 \<Longrightarrow> int_len i = 1"
  by (simp add: int_len_def varint_small)

lemma int_len_negative: "- (2 ^ 31) \<le> i \<Longrightarrow> i < 0 \<Longrightarrow> int_len i = 10"
proof -
  assume i: "- (2 ^ 31) \<le> i" "i < 0"
  then have "i mod 2 ^ 64 = i + 2 ^ 64" by (intro mod_pos_pos_trivial [THEN trans [OF mod_add_self2 [symmetric]]]) simp_all
  then have "2 ^ 63 \<le> nat (i mod 2 ^ 64)" "nat (i mod 2 ^ 64) < 128 ^ Suc 9" using i by simp_all
  then show "int_len i = 10" using varint_len_ge [of 9 "nat (i mod 2 ^ 64)"] varint_len_le [of "nat (i mod 2 ^ 64)" 9]
    unfolding int_len_def by simp
qed

text \<open>
  The numbers the program prints. The negative temperature takes one byte as \<open>sint32\<close>, where the plain types take ten.
\<close>

theorem printed_sizes:
  assumes "prost_ok encoded_len"
  shows "demonstrate_message_sizes encoded_len = [64, 60, 102, 20, 14, 37, 3, 70]"
    and "analyze_field_sizes encoded_len = [0, 10, 12, 15, 22]" and "compare_integer_types encoded_len = [4, 2]"
    and "- (2 ^ 31) \<le> i \<Longrightarrow> i < 0 \<Longrightarrow> body_len (VInt32 i) = 10" and "body_len (VSint32 (- 25)) = 1"
proof -
  have len: "encoded_len fs = (\<Sum>f \<leftarrow> fs. field_len f)" for fs using assms by (simp add: prost_ok_def)
  note defs = len optimized_fields_def unoptimized_fields_def data_points_fields_def metrics_fields_def notification_fields_def
    field_len_def key_lens
  have ids: "varint_len 12345 = 2" "varint_len 999 = 2" "varint_len 1000000 = 3" "varint_len 1234567890 = 5"
    by (simp_all add: varint_len.simps)
  show "analyze_field_sizes encoded_len = [0, 10, 12, 15, 22]" "compare_integer_types encoded_len = [4, 2]"
    by (simp_all add: analyze_field_sizes_def compare_integer_types_def only_count_def defs ids varint_small int_len_small Let_def)
  show "body_len (VInt32 i) = 10" if "- (2 ^ 31) \<le> i" "i < 0" using int_len_negative [OF that] by simp
  show "body_len (VSint32 (- 25)) = 1" by (simp add: zigzag_def varint_small)
  have "1 \<le> rnd32 (314159 / 100000)" using f32.ge_fixed [of 1 "314159 / 100000"] f32.fixed_int [of 1] by simp
  then have float: "rnd32 (314159 / 100000) \<noteq> 0" by linarith
  have sums: "(\<Sum>x \<leftarrow> xs. int_len x) = length xs" if "set xs \<subseteq> {0..<128}" for xs
    using that by (induction xs) (simp_all add: int_len_small)
  have "(\<Sum>x \<leftarrow> [0..99]. int_len x) = 100" "(\<Sum>x \<leftarrow> [90..99]. int_len x) = 10"
    by (subst sums; simp only: set_upto length_upto; force)+
  then show "demonstrate_message_sizes encoded_len = [64, 60, 102, 20, 14, 37, 3, 70]"
    by (simp add: demonstrate_message_sizes_def defs ids varint_small int_len_small Let_def float zigzag_def)
qed

end
