(* ===== verification/Proto_Framing.thy ===== *)
theory Proto_Framing
  imports Byte_Codec
begin

text \<open>
  \<^verbatim>\<open>Protobuf/src/103/bidirectional_example.rs\<close>: messages over TCP behind a length of four bytes, and the exchange of a client and a
  server. Encoding and decoding are done by generated code, a parameter; so are the constructor of a person and its name. A
  connection has the bytes the peer sends before it closes, the bytes written, and the number of writes that succeed.
\<close>

datatype io_error = WriteFailed | UnexpectedEof | InvalidData

record conn =
  incoming :: bytes
  outgoing :: bytes
  writes_left :: nat

record 'm codec =
  encode :: "'m \<Rightarrow> bytes"
  decode :: "bytes \<Rightarrow> 'm option"

type_synonym 'a io_result = "conn \<times> (io_error + 'a)"

definition write_all :: "bytes \<Rightarrow> conn \<Rightarrow> unit io_result" where
  "write_all bs c = (case writes_left c of 0 \<Rightarrow> (c, Inl WriteFailed)
     | Suc n \<Rightarrow> (c\<lparr>outgoing := outgoing c @ bs, writes_left := n\<rparr>, Inr ()))"

definition read_exact :: "nat \<Rightarrow> conn \<Rightarrow> bytes io_result" where
  "read_exact n c = (if n \<le> length (incoming c) then (c\<lparr>incoming := drop n (incoming c)\<rparr>, Inr (take n (incoming c)))
     else (c\<lparr>incoming := []\<rparr>, Inl UnexpectedEof))"

definition andthen :: "'a io_result \<Rightarrow> (conn \<Rightarrow> 'a \<Rightarrow> 'b io_result) \<Rightarrow> 'b io_result" where
  "andthen r f = (case r of (c, Inl e) \<Rightarrow> (c, Inl e) | (c, Inr x) \<Rightarrow> f c x)"

subsection \<open>Framing\<close>

text \<open>Flushing a TCP stream does nothing.\<close>

definition send_message :: "'m codec \<Rightarrow> 'm \<Rightarrow> conn \<Rightarrow> unit io_result" where
  "send_message C msg c =
     (let buf = encode C msg;
          sz = be_bytes 4 (length buf mod 2 ^ 32)
      in andthen (write_all sz c) (\<lambda>c _. andthen (write_all buf c) (\<lambda>c _. (c, Inr ()))))"

definition receive_message :: "'m codec \<Rightarrow> conn \<Rightarrow> 'm io_result" where
  "receive_message C c =
     andthen (read_exact 4 c) (\<lambda>c size_buf.
     andthen (read_exact (be_nat size_buf) c) (\<lambda>c buf.
       (c, case decode C buf of None \<Rightarrow> Inl InvalidData | Some msg \<Rightarrow> Inr msg)))"

subsection \<open>Server and client\<close>

record 'm person_type =
  person :: "string \<Rightarrow> int \<Rightarrow> string \<Rightarrow> 'm"
  name :: "'m \<Rightarrow> string"

text \<open>Both return the name of the person received.\<close>

definition run_server :: "'m codec \<Rightarrow> 'm person_type \<Rightarrow> conn \<Rightarrow> string io_result" where
  "run_server C P c =
     andthen (receive_message C c) (\<lambda>c received.
     andthen (send_message C (person P ''Server Response'' 9999 ''server@example.com'') c) (\<lambda>c _.
       (c, Inr (name P received))))"

definition run_client :: "'m codec \<Rightarrow> 'm person_type \<Rightarrow> conn \<Rightarrow> string io_result" where
  "run_client C P c =
     andthen (send_message C (person P ''Alice'' 123 ''alice@example.com'') c) (\<lambda>c _.
     andthen (receive_message C c) (\<lambda>c response. (c, Inr (name P response))))"

subsection \<open>What arrives\<close>

text \<open>What generated code promises: decoding an encoded message gives it back.\<close>

definition codec_ok :: "'m codec \<Rightarrow> bool" where
  "codec_ok C \<longleftrightarrow> (\<forall>m. decode C (encode C m) = Some m)"

definition frame :: "'m codec \<Rightarrow> 'm \<Rightarrow> bytes" where
  "frame C m = be_bytes 4 (length (encode C m)) @ encode C m"

lemma send_message_frame:
  assumes "length (encode C m) < 2 ^ 32" "2 \<le> writes_left c"
  shows "send_message C m c = (c\<lparr>outgoing := outgoing c @ frame C m, writes_left := writes_left c - 2\<rparr>, Inr ())"
proof -
  obtain n where "writes_left c = Suc (Suc n)" using assms(2) by (metis add_2_eq_Suc le_add_diff_inverse)
  then show ?thesis using assms(1) by (simp add: send_message_def write_all_def andthen_def frame_def Let_def)
qed

lemma receive_message_frame:
  assumes "codec_ok C" "length (encode C m) < 2 ^ 32" "incoming c = frame C m @ later"
  shows "receive_message C c = (c\<lparr>incoming := later\<rparr>, Inr m)"
proof -
  have "be_nat (be_bytes 4 (length (encode C m))) = length (encode C m)"
    using assms(2) by (intro be_nat_be_bytes_small) simp
  then show ?thesis using assms(1,3) by (simp add: receive_message_def read_exact_def andthen_def frame_def codec_ok_def)
qed

fun receive_all :: "'m codec \<Rightarrow> nat \<Rightarrow> conn \<Rightarrow> conn \<times> (io_error + 'm list)" where
  "receive_all C 0 c = (c, Inr [])"
| "receive_all C (Suc n) c = andthen (receive_message C c) (\<lambda>c m. andthen (receive_all C n c) (\<lambda>c ms. (c, Inr (m # ms))))"

lemma receive_all_frames:
  assumes "codec_ok C" "\<forall>m \<in> set ms. length (encode C m) < 2 ^ 32" "incoming c = concat (map (frame C) ms) @ later"
  shows "receive_all C (length ms) c = (c\<lparr>incoming := later\<rparr>, Inr ms)"
  using assms(2,3)
proof (induction ms arbitrary: c)
  case (Cons m ms)
  have "receive_message C c = (c\<lparr>incoming := concat (map (frame C) ms) @ later\<rparr>, Inr m)"
    using Cons.prems by (intro receive_message_frame [OF assms(1)]) simp_all
  then show ?case using Cons.IH [of "c\<lparr>incoming := concat (map (frame C) ms) @ later\<rparr>"] Cons.prems(1)
    by (simp add: andthen_def)
qed (simp add: assms)

lemma truncated_frame:
  assumes "length (encode C m) < 2 ^ 32" "incoming c = take k (frame C m)" "k < length (frame C m)"
  shows "\<exists>c'. receive_message C c = (c', Inl UnexpectedEof)"
proof (cases "k < 4")
  case True
  then show ?thesis using assms(2) by (simp add: receive_message_def read_exact_def andthen_def frame_def)
next
  case False
  have "be_nat (be_bytes 4 (length (encode C m))) = length (encode C m)"
    using assms(1) by (intro be_nat_be_bytes_small) simp
  moreover have "\<not> length (encode C m) \<le> k - 4" using False assms(3) by (simp add: frame_def)
  ultimately show ?thesis using False assms(2) by (simp add: receive_message_def read_exact_def andthen_def frame_def)
qed

text \<open>
  The exchange over TCP. Any sequence of messages of less than four gibibytes is received as it was sent, and a stream that ends in
  the middle of a message is reported as such. Client and server, each reading what the other one wrote, both succeed
  and get each other's message.
\<close>

theorem exchange_delivers:
  fixes C :: "'m codec" and P :: "'m person_type"
  assumes "codec_ok C" "2 \<le> wc" "2 \<le> ws"
  defines "start i w \<equiv> \<lparr>incoming = i, outgoing = [], writes_left = w\<rparr>"
    and "req \<equiv> person P ''Alice'' 123 ''alice@example.com''"
    and "resp \<equiv> person P ''Server Response'' 9999 ''server@example.com''"
  shows "length (encode C req) < 2 ^ 32 \<Longrightarrow> length (encode C resp) < 2 ^ 32 \<Longrightarrow> \<exists>to_server to_client sc cc.
      run_server C P (start to_server ws) = (sc, Inr (name P req)) \<and> outgoing sc = to_client
      \<and> run_client C P (start to_client wc) = (cc, Inr (name P resp)) \<and> outgoing cc = to_server"
    and "\<forall>m \<in> set ms. length (encode C m) < 2 ^ 32 \<Longrightarrow>
      receive_all C (length ms) (start (concat (map (frame C) ms) @ later) w) = (start later w, Inr ms)"
    and "length (encode C m) < 2 ^ 32 \<Longrightarrow> k < length (frame C m) \<Longrightarrow>
      \<exists>c. receive_message C (start (take k (frame C m)) w) = (c, Inl UnexpectedEof)"
proof -
  show "\<exists>to_server to_client sc cc.
      run_server C P (start to_server ws) = (sc, Inr (name P req)) \<and> outgoing sc = to_client
      \<and> run_client C P (start to_client wc) = (cc, Inr (name P resp)) \<and> outgoing cc = to_server"
    if small: "length (encode C req) < 2 ^ 32" "length (encode C resp) < 2 ^ 32"
  proof -
    have "run_server C P (start (frame C req) ws) =
        (\<lparr>incoming = [], outgoing = frame C resp, writes_left = ws - 2\<rparr>, Inr (name P req))"
      using receive_message_frame [OF assms(1) small(1), of "start (frame C req) ws" "[]"] assms(3) small(2)
      by (simp add: run_server_def send_message_frame andthen_def start_def resp_def [symmetric])
    moreover have "run_client C P (start (frame C resp) wc) =
        (\<lparr>incoming = [], outgoing = frame C req, writes_left = wc - 2\<rparr>, Inr (name P resp))"
      using assms(2) receive_message_frame [OF assms(1) small(2), where later = "[]"] small(1)
      by (simp add: run_client_def send_message_frame andthen_def start_def req_def [symmetric])
    ultimately show ?thesis by fastforce
  qed
  show "receive_all C (length ms) (start (concat (map (frame C) ms) @ later) w) = (start later w, Inr ms)"
    if "\<forall>m \<in> set ms. length (encode C m) < 2 ^ 32"
    using receive_all_frames [OF assms(1) that, of "start (concat (map (frame C) ms) @ later) w" later] by (simp add: start_def)
  show "\<exists>c. receive_message C (start (take k (frame C m)) w) = (c, Inl UnexpectedEof)"
    if "length (encode C m) < 2 ^ 32" "k < length (frame C m)"
    using truncated_frame [OF that(1), of "start (take k (frame C m)) w" k] that(2) by (simp add: start_def)
qed

text \<open>
  A message of four gibibytes or more is announced with its length modulo \<open>2 ^ 32\<close>: the receiver takes only that many bytes of it.
\<close>

lemma oversized_message:
  assumes "writes_left c = Suc (Suc n)" "length (encode C m) = 2 ^ 32 + r" "r < 2 ^ 32"
  shows "outgoing (fst (send_message C m c)) = outgoing c @ be_bytes 4 r @ encode C m"
  using assms by (simp add: send_message_def write_all_def andthen_def Let_def)

end
