(* ===== verification/Proto_Accounts.thy ===== *)
theory Proto_Accounts
  imports Uproto_Prelude
begin

text \<open>
  \<^verbatim>\<open>Protobuf/src/38/generated_documentation_usage.rs\<close>: the account service and its validation. \<^verbatim>\<open>Protobuf/src/39/protobuf_naming_conventions.rs\<close>:
  the conversion of numbers to categories and payment methods. Strings are their UTF-8 bytes, as \<open>len\<close> counts them. The
  system clock is a parameter: the seconds since the epoch at each of its readings, negative before it.
\<close>

subsection \<open>The account service\<close>

datatype account_status = StatusUnspecified | Active | Suspended | Deleted

fun account_status_as_i32 :: "account_status \<Rightarrow> int" where
  "account_status_as_i32 StatusUnspecified = 0"
| "account_status_as_i32 Active = 1"
| "account_status_as_i32 Suspended = 2"
| "account_status_as_i32 Deleted = 3"

datatype role = RoleUnspecified | RoleUser | Moderator | Admin

fun role_as_i32 :: "role \<Rightarrow> int" where
  "role_as_i32 RoleUnspecified = 0"
| "role_as_i32 RoleUser = 1"
| "role_as_i32 Moderator = 2"
| "role_as_i32 Admin = 3"

record user =
  user_id :: int
  user_email :: bytes
  user_name :: bytes
  user_status :: int
  created_at :: int
  user_phone :: bytes
  user_role :: int

record create_user_request =
  req_email :: bytes
  req_name :: bytes
  req_phone :: bytes
  req_role :: int

datatype service_error = InvalidEmail | NameLength | PhoneFormat | UserNotFound int

definition generate_id :: "int \<Rightarrow> int run" where
  "generate_id now = (if now < 0 then None else Some now)"

definition current_timestamp :: "int \<Rightarrow> int run" where
  "current_timestamp now = (if now < 0 then None else Some now)"

text \<open>The two arguments are the two readings of the clock.\<close>

definition create_user :: "int \<Rightarrow> int \<Rightarrow> create_user_request \<Rightarrow> (service_error + user) run" where
  "create_user t1 t2 request =
     (if \<not> 0x40 \<in> set (req_email request) then Some (Inl InvalidEmail)
      else if req_name request = [] \<or> length (req_name request) > 50 then Some (Inl NameLength)
      else if req_phone request \<noteq> [] \<and> hd (req_phone request) \<noteq> 0x2B then Some (Inl PhoneFormat)
      else do {
        i \<leftarrow> generate_id t1;
        t \<leftarrow> current_timestamp t2;
        Some (Inr \<lparr>user_id = i, user_email = req_email request, user_name = req_name request,
          user_status = account_status_as_i32 Active, created_at = t, user_phone = req_phone request,
          user_role = req_role request\<rparr>) })"

definition get_user :: "int \<Rightarrow> service_error + user" where
  "get_user i = Inl (UserNotFound i)"

text \<open>A session: requests with the readings of the clock; the accepted users in order.\<close>

fun create_users :: "(int \<times> int \<times> create_user_request) list \<Rightarrow> user list run" where
  "create_users [] = Some []"
| "create_users ((t1, t2, r) # rs) = do {
     u \<leftarrow> create_user t1 t2 r;
     us \<leftarrow> create_users rs;
     Some (case u of Inl _ \<Rightarrow> us | Inr u \<Rightarrow> u # us) }"

subsection \<open>Numbers as enumerations\<close>

datatype product_category = CategoryUnspecified | Electronics | Clothing | Books | HomeGarden

fun product_category_as_i32 :: "product_category \<Rightarrow> int" where
  "product_category_as_i32 CategoryUnspecified = 0"
| "product_category_as_i32 Electronics = 1"
| "product_category_as_i32 Clothing = 2"
| "product_category_as_i32 Books = 3"
| "product_category_as_i32 HomeGarden = 4"

definition product_category_try_from :: "int \<Rightarrow> unit + product_category" where
  "product_category_try_from v =
     (if v = 0 then Inr CategoryUnspecified else if v = 1 then Inr Electronics else if v = 2 then Inr Clothing
      else if v = 3 then Inr Books else if v = 4 then Inr HomeGarden else Inl ())"

datatype payment_method = PaymentUnspecified | CreditCard | DebitCard | Paypal | BankTransfer

fun payment_method_as_i32 :: "payment_method \<Rightarrow> int" where
  "payment_method_as_i32 PaymentUnspecified = 0"
| "payment_method_as_i32 CreditCard = 1"
| "payment_method_as_i32 DebitCard = 2"
| "payment_method_as_i32 Paypal = 3"
| "payment_method_as_i32 BankTransfer = 4"

definition payment_method_try_from :: "int \<Rightarrow> unit + payment_method" where
  "payment_method_try_from v =
     (if v = 0 then Inr PaymentUnspecified else if v = 1 then Inr CreditCard else if v = 2 then Inr DebitCard
      else if v = 3 then Inr Paypal else if v = 4 then Inr BankTransfer else Inl ())"

text \<open>The name of the method that is printed for an order.\<close>

definition payment_name :: "int \<Rightarrow> string" where
  "payment_name v = (case payment_method_try_from v of
       Inr CreditCard \<Rightarrow> ''Credit Card'' | Inr DebitCard \<Rightarrow> ''Debit Card'' | Inr Paypal \<Rightarrow> ''PayPal''
     | Inr BankTransfer \<Rightarrow> ''Bank Transfer'' | _ \<Rightarrow> ''Unknown'')"

subsection \<open>Enumerations of consecutive numbers\<close>

text \<open>
  A type of \<open>n\<close> constructors that are the numbers below \<open>n\<close> on the wire: the conversion from a number succeeds exactly for those, and is
  the inverse of the conversion to it.
\<close>

locale wire_enum =
  fixes to_wire :: "'e \<Rightarrow> int" and from_wire :: "int \<Rightarrow> unit + 'e" and n :: int
  assumes from_to: "from_wire (to_wire e) = Inr e"
    and in_range: "0 \<le> to_wire e \<and> to_wire e < n"
    and rejects: "v < 0 \<or> n \<le> v \<Longrightarrow> from_wire v = Inl ()"
    and covers: "0 \<le> v \<Longrightarrow> v < n \<Longrightarrow> \<exists>e. to_wire e = v"
begin

lemma from_iff: "from_wire v = Inr e \<longleftrightarrow> v = to_wire e"
proof
  assume a: "from_wire v = Inr e"
  then have "0 \<le> v \<and> v < n" using rejects [of v] by force
  then obtain e' where "to_wire e' = v" using covers by blast
  then show "v = to_wire e" using a from_to [of e'] by auto
qed (simp add: from_to)

lemma fails_iff: "from_wire v = Inl () \<longleftrightarrow> v < 0 \<or> n \<le> v"
  using rejects [of v] covers [of v] from_to by (metis Inl_Inr_False linorder_not_le)

end

interpretation category: wire_enum product_category_as_i32 product_category_try_from 5
proof
  show "\<exists>e. product_category_as_i32 e = v" if "0 \<le> v" "v < 5" for v
  proof -
    have "v = 0 \<or> v = 1 \<or> v = 2 \<or> v = 3 \<or> v = 4" using that by linarith
    then show ?thesis using product_category_as_i32.simps by metis
  qed
  show "0 \<le> product_category_as_i32 e \<and> product_category_as_i32 e < 5" for e by (cases e) simp_all
  show "product_category_try_from (product_category_as_i32 e) = Inr e" for e by (cases e) (simp_all add: product_category_try_from_def)
qed (auto simp: product_category_try_from_def)

interpretation payment: wire_enum payment_method_as_i32 payment_method_try_from 5
proof
  show "\<exists>e. payment_method_as_i32 e = v" if "0 \<le> v" "v < 5" for v
  proof -
    have "v = 0 \<or> v = 1 \<or> v = 2 \<or> v = 3 \<or> v = 4" using that by linarith
    then show ?thesis using payment_method_as_i32.simps by metis
  qed
  show "0 \<le> payment_method_as_i32 e \<and> payment_method_as_i32 e < 5" for e by (cases e) simp_all
  show "payment_method_try_from (payment_method_as_i32 e) = Inr e" for e by (cases e) (simp_all add: payment_method_try_from_def)
qed (auto simp: payment_method_try_from_def)

text \<open>Both conversions accept exactly the numbers 0 to 4 and invert the casts; the unspecified method is printed as unknown.\<close>

theorem enum_conversions:
  "product_category_try_from v = Inr c \<longleftrightarrow> v = product_category_as_i32 c"
  "payment_method_try_from v = Inr p \<longleftrightarrow> v = payment_method_as_i32 p"
  "product_category_try_from v = Inl () \<longleftrightarrow> v < 0 \<or> 5 \<le> v"
  "payment_name v = ''Unknown'' \<longleftrightarrow> v \<le> 0 \<or> 5 \<le> v"
proof -
  show "payment_name v = ''Unknown'' \<longleftrightarrow> v \<le> 0 \<or> 5 \<le> v"
    by (auto simp: payment_name_def payment_method_try_from_def)
qed (rule category.from_iff payment.from_iff category.fails_iff)+

subsection \<open>What the service promises\<close>

lemma create_user_cases:
  "create_user t1 t2 r = Some (Inr u) \<longleftrightarrow>
     0x40 \<in> set (req_email r) \<and> 1 \<le> length (req_name r) \<and> length (req_name r) \<le> 50
     \<and> (req_phone r = [] \<or> hd (req_phone r) = 0x2B) \<and> 0 \<le> t1 \<and> 0 \<le> t2
     \<and> u = \<lparr>user_id = t1, user_email = req_email r, user_name = req_name r, user_status = 1, created_at = t2,
            user_phone = req_phone r, user_role = req_role r\<rparr>"
  by (cases "req_name r") (auto simp: create_user_def generate_id_def current_timestamp_def)

text \<open>
  The service. It accepts exactly the requests with an at sign, a name of one to fifty bytes and a phone number that is empty or
  begins with a plus sign; the user has the data of the request, the role included, also where it is unspecified, and the
  time as its identifier. Nothing is remembered: requests with the same second give the same identifier, a repeated address
  is accepted, and no user is ever found. Only a clock before the epoch makes it panic.
\<close>

theorem create_user_exact:
  "create_user t1 t2 r = Some (Inr u) \<longleftrightarrow>
     0x40 \<in> set (req_email r) \<and> 1 \<le> length (req_name r) \<and> length (req_name r) \<le> 50
     \<and> (req_phone r = [] \<or> hd (req_phone r) = 0x2B) \<and> 0 \<le> t1 \<and> 0 \<le> t2
     \<and> u = \<lparr>user_id = t1, user_email = req_email r, user_name = req_name r, user_status = 1, created_at = t2,
            user_phone = req_phone r, user_role = req_role r\<rparr>"
  "0 \<le> t1 \<Longrightarrow> 0 \<le> t2 \<Longrightarrow> create_user t1 t2 r \<noteq> None"
  "create_user t1 t2 r = Some (Inr u) \<Longrightarrow> create_user t1 t3 r' = Some (Inr u') \<Longrightarrow> user_id u = user_id u'"
  "create_user t1 t2 r = Some (Inr u) \<Longrightarrow> create_users [(t1, t2, r), (t1, t2, r)] = Some [u, u]"
  "get_user (user_id u) \<noteq> Inr u"
  by (rule create_user_cases)
    (auto simp: create_user_cases get_user_def, auto simp: create_user_def generate_id_def current_timestamp_def)

end
