(* ===== verification/Rudp.thy ===== *)
theory Rudp
  imports Wire_Interface "HOL-Library.AList"
begin

text \<open>
  \<^verbatim>\<open>TCPIP/src/20/reliable_udp_implementation.rs\<close>: packets with sequence numbers and selective
  acknowledgements over UDP. The socket and the clocks are arguments: what \<^verbatim>\<open>recv_from\<close>
  returned, whether \<^verbatim>\<open>send_to\<close> failed, the instant in milliseconds and the wall clock in
  microseconds. Sequence numbers are \<open>nat\<close> with the 32-bit bound checked at every addition, as in
  a checked build. A hash map is an association list with at most one entry per key.
\<close>

definition MAX_PACKET_SIZE :: nat where "MAX_PACKET_SIZE = 1400"
definition WINDOW_SIZE :: nat where "WINDOW_SIZE = 64"
definition TIMEOUT :: nat where "TIMEOUT = 100"
definition MAX_RETRIES :: nat where "MAX_RETRIES = 5"

lemmas rudp_consts = MAX_PACKET_SIZE_def WINDOW_SIZE_def TIMEOUT_def MAX_RETRIES_def

abbreviation u32_bound :: nat where
  "u32_bound \<equiv> 2 ^ 32"

datatype io_error = InvalidData string | InvalidInput string | WouldBlock string | OtherIo string

subsection \<open>Packets\<close>

record packet_header =
  ph_sequence :: nat
  ph_ack :: nat
  ph_ack_bitfield :: u64
  ph_timestamp_us :: nat
  ph_data_length :: nat
  ph_flags :: u8
  ph_reserved :: u8

record packet =
  header :: packet_header
  pdata :: bytes

definition packet_new :: "nat \<Rightarrow> bytes \<Rightarrow> packet" where
  "packet_new sequence d =
     \<lparr>header = \<lparr>ph_sequence = sequence, ph_ack = 0, ph_ack_bitfield = 0, ph_timestamp_us = 0,
        ph_data_length = length d mod 2 ^ 16, ph_flags = 0, ph_reserved = 0\<rparr>,
      pdata = d\<rparr>"

text \<open>
  The header is copied as raw memory of a packed C structure, so the byte order is the target's.
\<close>

datatype endian = LittleEndian | BigEndian

definition int_bytes :: "endian \<Rightarrow> nat \<Rightarrow> nat \<Rightarrow> bytes" where
  "int_bytes e k v = (case e of LittleEndian \<Rightarrow> le_bytes k v | BigEndian \<Rightarrow> be_bytes k v)"

definition int_nat :: "endian \<Rightarrow> bytes \<Rightarrow> nat" where
  "int_nat e bs = (case e of LittleEndian \<Rightarrow> le_nat bs | BigEndian \<Rightarrow> be_nat bs)"

definition HEADER_SIZE :: nat where "HEADER_SIZE = 28"

definition header_bytes :: "endian \<Rightarrow> packet_header \<Rightarrow> bytes" where
  "header_bytes e h =
     int_bytes e 4 (ph_sequence h) @ int_bytes e 4 (ph_ack h) @
     int_bytes e 8 (unat (ph_ack_bitfield h)) @ int_bytes e 8 (ph_timestamp_us h) @
     int_bytes e 2 (ph_data_length h) @ [ph_flags h, ph_reserved h]"

definition header_read :: "endian \<Rightarrow> bytes \<Rightarrow> packet_header" where
  "header_read e bs =
     \<lparr>ph_sequence = int_nat e (take 4 bs), ph_ack = int_nat e (take 4 (drop 4 bs)),
      ph_ack_bitfield = of_nat (int_nat e (take 8 (drop 8 bs))),
      ph_timestamp_us = int_nat e (take 8 (drop 16 bs)),
      ph_data_length = int_nat e (take 2 (drop 24 bs)),
      ph_flags = bs ! 26, ph_reserved = bs ! 27\<rparr>"

definition packet_to_bytes :: "endian \<Rightarrow> packet \<Rightarrow> bytes" where
  "packet_to_bytes e p = header_bytes e (header p) @ pdata p"

definition packet_from_bytes :: "endian \<Rightarrow> bytes \<Rightarrow> io_error + packet" where
  "packet_from_bytes e bs =
     (if length bs < HEADER_SIZE then Inl (InvalidData ''Packet too small'')
      else
        let h = header_read e bs;
            data_start = HEADER_SIZE;
            data_end = data_start + ph_data_length h in
        if length bs < data_end then Inl (InvalidData ''Incomplete packet'')
        else Inr \<lparr>header = h, pdata = take (data_end - data_start) (drop data_start bs)\<rparr>)"

subsection \<open>The endpoint\<close>

record pending_packet =
  ppacket :: packet
  send_time :: nat
  retry_count :: nat
  acked :: bool

record statistics =
  packets_sent :: nat
  packets_received :: nat
  retransmissions :: nat
  acks_received :: nat
  packets_dropped :: nat

record reliable_udp =
  send_sequence :: nat
  send_window :: "pending_packet list"
  recv_sequence :: nat
  recv_ack_bitfield :: u64
  recv_buffer :: "(nat \<times> packet) list"
  stats :: statistics

definition rudp_new :: "nat \<Rightarrow> reliable_udp" where
  "rudp_new now =
     \<lparr>send_sequence = 0,
      send_window = replicate WINDOW_SIZE
        \<lparr>ppacket = packet_new 0 [], send_time = now, retry_count = 0, acked = True\<rparr>,
      recv_sequence = 0, recv_ack_bitfield = 0, recv_buffer = [],
      stats = \<lparr>packets_sent = 0, packets_received = 0, retransmissions = 0, acks_received = 0,
               packets_dropped = 0\<rparr>\<rparr>"

abbreviation pending_seq :: "pending_packet \<Rightarrow> nat" where
  "pending_seq pp \<equiv> ph_sequence (header (ppacket pp))"

text \<open>
  \<^verbatim>\<open>send\<close>: the new state, the packets handed to the network, and the result. When the network
  refuses the packet the sequence number is already used up.
\<close>

definition rudp_send ::
  "nat \<Rightarrow> nat \<Rightarrow> io_error option \<Rightarrow> reliable_udp \<Rightarrow> bytes \<Rightarrow> (reliable_udp \<times> packet list \<times> (io_error + unit)) run"
where
  "rudp_send now us io st d =
     (if length d > MAX_PACKET_SIZE
      then Some (st, [], Inl (InvalidInput ''Data exceeds max packet size''))
      else do {
        let slot = send_sequence st mod WINDOW_SIZE;
        pending \<leftarrow> idx (send_window st) slot;
        if \<not> acked pending \<and> pending_seq pending \<ge> send_sequence st - WINDOW_SIZE
        then Some (st, [], Inl (WouldBlock ''Send window full''))
        else do {
          let p0 = packet_new (send_sequence st) d;
          let p = p0\<lparr>header := (header p0)\<lparr>ph_ack := recv_sequence st,
                      ph_ack_bitfield := recv_ack_bitfield st, ph_timestamp_us := us\<rparr>\<rparr>;
          if send_sequence st + 1 \<ge> u32_bound then None
          else do {
            let st1 = st\<lparr>send_sequence := send_sequence st + 1\<rparr>;
            case io of
              Some err \<Rightarrow> Some (st1, [], Inl err)
            | None \<Rightarrow> do {
                let pending' = pending\<lparr>ppacket := p, send_time := now, retry_count := 0, acked := False\<rparr>;
                Some (st1\<lparr>send_window := (send_window st1)[slot := pending'],
                          stats := (stats st1)\<lparr>packets_sent := packets_sent (stats st1) + 1\<rparr>\<rparr>,
                      [p], Inr ())
              }
          }
        }
      })"

definition ack_pending :: "packet_header \<Rightarrow> pending_packet \<Rightarrow> pending_packet" where
  "ack_pending h pending =
     (if acked pending then pending
      else
        let seq = pending_seq pending in
        if seq = ph_ack h then pending\<lparr>acked := True\<rparr>
        else if seq < ph_ack h \<and> ph_ack h - seq \<le> 64 then
          (let bit_pos = ph_ack h - seq - 1 in
           if (ph_ack_bitfield h AND push_bit bit_pos 1) \<noteq> 0 then pending\<lparr>acked := True\<rparr> else pending)
        else pending)"

definition process_acknowledgments :: "reliable_udp \<Rightarrow> packet_header \<Rightarrow> reliable_udp" where
  "process_acknowledgments st h =
     st\<lparr>stats := (stats st)\<lparr>acks_received := acks_received (stats st) + 1\<rparr>,
        send_window := map (ack_pending h) (send_window st)\<rparr>"

text \<open>
  The loop that takes buffered packets out as long as the next one is there.
\<close>

function drain_buffer :: "nat \<Rightarrow> (nat \<times> packet) list \<Rightarrow> bytes list \<Rightarrow> (nat \<times> (nat \<times> packet) list \<times> bytes list) run"
where
  "drain_buffer seq buf result =
     (case map_of buf seq of
        None \<Rightarrow> Some (seq, buf, result)
      | Some buffered \<Rightarrow>
          if seq + 1 \<ge> u32_bound then None
          else drain_buffer (seq + 1) (AList.delete seq buf) (result @ [pdata buffered]))"
  by pat_completeness auto

lemma length_delete_less:
  "map_of buf k = Some v \<Longrightarrow> length (AList.delete k buf) < length buf"
  by (induction buf) (auto split: if_splits simp: less_Suc_eq_le length_delete_le)

termination drain_buffer
  by (relation "measure (\<lambda>(_, buf, _). length buf)") (auto dest: length_delete_less)

declare drain_buffer.simps [simp del]

definition process_received_packet :: "reliable_udp \<Rightarrow> packet \<Rightarrow> (reliable_udp \<times> bytes option) run" where
  "process_received_packet st p =
     (let seq = ph_sequence (header p) in
      if seq = recv_sequence st then
        if recv_sequence st + 1 \<ge> u32_bound then None
        else do {
          (seq', buf', result) \<leftarrow> drain_buffer (recv_sequence st + 1) (recv_buffer st) [pdata p];
          first \<leftarrow> idx result 0;
          Some (st\<lparr>recv_sequence := seq', recv_ack_bitfield := 0, recv_buffer := buf'\<rparr>, Some first)
        }
      else if seq > recv_sequence st \<and> recv_sequence st + 64 \<ge> u32_bound then None
      else if seq > recv_sequence st \<and> seq < recv_sequence st + 64 then
        let bit_pos = seq - recv_sequence st - 1 in
        Some (st\<lparr>recv_ack_bitfield := recv_ack_bitfield st OR push_bit bit_pos 1,
                 recv_buffer := AList.update seq p (recv_buffer st)\<rparr>, None)
      else Some (st, None))"

datatype recv_outcome = RecvOk bytes | RecvErr io_error

definition rudp_receive ::
  "endian \<Rightarrow> recv_outcome \<Rightarrow> reliable_udp \<Rightarrow> (reliable_udp \<times> (io_error + bytes option)) run" where
  "rudp_receive e outcome st =
     (case outcome of
        RecvOk datagram \<Rightarrow>
          (case packet_from_bytes e (take (MAX_PACKET_SIZE + 256) datagram) of
             Inl err \<Rightarrow> Some (st, Inl err)
           | Inr p \<Rightarrow>
               let st1 = process_acknowledgments st (header p) in
               if pdata p \<noteq> [] then do {
                 (st2, r) \<leftarrow> process_received_packet
                   (st1\<lparr>stats := (stats st1)\<lparr>packets_received := packets_received (stats st1) + 1\<rparr>\<rparr>) p;
                 Some (st2, Inr r)
               }
               else Some (st1, Inr None))
      | RecvErr (WouldBlock _) \<Rightarrow> Some (st, Inr None)
      | RecvErr err \<Rightarrow> Some (st, Inl err))"

text \<open>
  One pass of the retransmission loop: \<open>io i\<close> tells whether sending for slot \<open>i\<close> fails.
  \<^verbatim>\<open>Instant::duration_since\<close> saturates at zero.
\<close>

definition retransmit_slot ::
  "nat \<Rightarrow> nat \<Rightarrow> (nat \<Rightarrow> io_error option) \<Rightarrow> reliable_udp \<Rightarrow> nat \<Rightarrow> (reliable_udp \<times> packet list) run" where
  "retransmit_slot now us io st i = do {
     pending \<leftarrow> idx (send_window st) i;
     if acked pending \<or> pending_seq pending \<ge> send_sequence st then Some (st, [])
     else if now - send_time pending > TIMEOUT then
       if retry_count pending \<ge> MAX_RETRIES then
         Some (st\<lparr>send_window := (send_window st)[i := pending\<lparr>acked := True\<rparr>],
                  stats := (stats st)\<lparr>packets_dropped := packets_dropped (stats st) + 1\<rparr>\<rparr>, [])
       else
         let p = (ppacket pending)\<lparr>header := (header (ppacket pending))\<lparr>ph_timestamp_us := us\<rparr>\<rparr> in
         (case io i of
            Some err \<Rightarrow> Some (st, [])
          | None \<Rightarrow> Some
              (st\<lparr>send_window := (send_window st)[i :=
                    pending\<lparr>ppacket := p, send_time := now, retry_count := retry_count pending + 1\<rparr>],
                  stats := (stats st)\<lparr>retransmissions := retransmissions (stats st) + 1\<rparr>\<rparr>, [p]))
     else Some (st, [])
   }"

fun retransmit_loop ::
  "nat \<Rightarrow> nat \<Rightarrow> (nat \<Rightarrow> io_error option) \<Rightarrow> reliable_udp \<Rightarrow> nat list \<Rightarrow> (reliable_udp \<times> packet list) run" where
  "retransmit_loop now us io st [] = Some (st, [])"
| "retransmit_loop now us io st (i # is) = do {
     (st1, tx1) \<leftarrow> retransmit_slot now us io st i;
     (st2, tx2) \<leftarrow> retransmit_loop now us io st1 is;
     Some (st2, tx1 @ tx2)
   }"

definition process_retransmissions ::
  "nat \<Rightarrow> nat \<Rightarrow> (nat \<Rightarrow> io_error option) \<Rightarrow> reliable_udp \<Rightarrow> (reliable_udp \<times> packet list) run" where
  "process_retransmissions now us io st = retransmit_loop now us io st [0..<WINDOW_SIZE]"

subsection \<open>The wire format meets the codec contract\<close>

lemma length_int_bytes [simp]: "length (int_bytes e k v) = k"
  by (cases e) (simp_all add: int_bytes_def)

lemma int_nat_int_bytes: "v < 256 ^ k \<Longrightarrow> int_nat e (int_bytes e k v) = v"
  by (cases e) (simp_all add: int_bytes_def int_nat_def codec)

lemma int_bytes_int_nat: "length bs = k \<Longrightarrow> int_bytes e k (int_nat e bs) = bs"
  by (cases e) (auto simp: int_bytes_def int_nat_def codec)

lemma int_nat_bound: "int_nat e bs < 256 ^ length bs"
  by (cases e) (simp_all add: int_nat_def be_nat_bound le_nat_bound)

definition packet_valid :: "packet \<Rightarrow> bool" where
  "packet_valid p \<longleftrightarrow>
     ph_sequence (header p) < 2 ^ 32 \<and> ph_ack (header p) < 2 ^ 32 \<and>
     ph_timestamp_us (header p) < 2 ^ 64 \<and> length (pdata p) < 2 ^ 16 \<and>
     ph_data_length (header p) = length (pdata p)"

lemma length_header_bytes [simp]: "length (header_bytes e h) = HEADER_SIZE"
  by (simp add: header_bytes_def HEADER_SIZE_def)

lemma header_read_bytes:
  assumes "ph_sequence h < 2 ^ 32" "ph_ack h < 2 ^ 32" "ph_timestamp_us h < 2 ^ 64"
    "ph_data_length h < 2 ^ 16"
  shows "header_read e (header_bytes e h @ rest) = h"
proof -
  have b: "unat (ph_ack_bitfield h) < 256 ^ 8"
    using unsigned_less [of "ph_ack_bitfield h", where 'a = nat] by simp
  show ?thesis
    using assms b
    by (cases h) (simp add: header_read_def header_bytes_def int_nat_int_bytes nth_append)
qed

lemma header_bytes_read:
  assumes "28 \<le> length bs"
  shows "header_bytes e (header_read e bs) = take 28 bs"
proof -
  have b: "int_nat e (take 8 (drop 8 bs)) < 2 ^ LENGTH(64)"
    using int_nat_bound [of e "take 8 (drop 8 bs)"] assms by simp
  have cut: "take (m + n) bs = take m bs @ take n (drop m bs)" for m n
    by (simp add: take_add)
  have "take 28 bs = take 4 bs @ take 4 (drop 4 bs) @ take 8 (drop 8 bs) @ take 8 (drop 16 bs) @
      take 2 (drop 24 bs) @ take 2 (drop 26 bs)"
    using cut [of 4 24] cut [of 8 20] cut [of 16 12] cut [of 24 4] cut [of 26 2] cut [of 4 4]
      cut [of 8 8] cut [of 16 8] cut [of 24 2]
    by simp
  moreover have "take 2 (drop 26 bs) = [bs ! 26, bs ! 27]"
    using assms by (subst take_nths) (simp_all add: numeral_2_eq_2)
  ultimately show ?thesis
    using assms b
    by (simp add: header_bytes_def header_read_def int_bytes_int_nat unat_of_nat_small)
qed

lemma packet_decode_encode:
  assumes "packet_valid p"
  shows "packet_from_bytes e (packet_to_bytes e p @ rest) = Inr p"
proof -
  have "header_read e (packet_to_bytes e p @ rest) = header p"
    using assms header_read_bytes [of "header p" e "pdata p @ rest"]
    by (simp add: packet_valid_def packet_to_bytes_def)
  with assms show ?thesis
    by (cases p) (simp add: packet_from_bytes_def packet_to_bytes_def packet_valid_def Let_def)
qed

lemma packet_decode_sound:
  assumes "packet_from_bytes e bs = Inr p"
  shows "packet_valid p \<and> (\<exists>rest. bs = packet_to_bytes e p @ rest)"
proof -
  let ?h = "header_read e bs"
  have len: "28 + ph_data_length ?h \<le> length bs" and
    p: "p = \<lparr>header = ?h, pdata = take (ph_data_length ?h) (drop 28 bs)\<rparr>"
    using assms by (auto simp: packet_from_bytes_def HEADER_SIZE_def Let_def split: if_splits)
  have "packet_valid p"
    using int_nat_bound [of e "take 4 bs"] int_nat_bound [of e "take 4 (drop 4 bs)"]
      int_nat_bound [of e "take 8 (drop 16 bs)"] int_nat_bound [of e "take 2 (drop 24 bs)"] len
    by (simp add: packet_valid_def p header_read_def)
  moreover have "packet_to_bytes e p = take (28 + ph_data_length ?h) bs"
    using header_bytes_read [of bs e] len by (simp add: packet_to_bytes_def p take_add)
  ultimately show ?thesis by (metis append_take_drop_id)
qed

interpretation rudp_codec: packet_codec packet_valid "packet_to_bytes e" "packet_from_bytes e" for e
  by unfold_locales (simp_all add: packet_decode_encode packet_decode_sound)

subsection \<open>The receiver over a channel that loses, repeats and reorders\<close>

fun receive_all :: "endian \<Rightarrow> reliable_udp \<Rightarrow> bytes list \<Rightarrow> (reliable_udp \<times> bytes list) run" where
  "receive_all e st [] = Some (st, [])"
| "receive_all e st (d # ds) = do {
     (st1, r) \<leftarrow> rudp_receive e (RecvOk d) st;
     (st2, out) \<leftarrow> receive_all e st1 ds;
     Some (st2, case r of Inr (Some x) \<Rightarrow> x # out | _ \<Rightarrow> out)
   }"

text \<open>A packet of the stream \<open>ds\<close>: it carries the payload its sequence number names.\<close>

definition stream_packet :: "bytes list \<Rightarrow> packet \<Rightarrow> bool" where
  "stream_packet ds p \<longleftrightarrow>
     packet_valid p \<and> ph_sequence (header p) < length ds \<and> pdata p = ds ! ph_sequence (header p) \<and>
     pdata p \<noteq> [] \<and> length (pdata p) \<le> MAX_PACKET_SIZE"

definition keys_below :: "nat \<Rightarrow> (nat \<times> packet) list \<Rightarrow> bool" where
  "keys_below n buf \<longleftrightarrow> fst ` set buf \<subseteq> {..<n}"

lemma keys_below_delete: "keys_below n buf \<Longrightarrow> keys_below n (AList.delete k buf)"
  by (auto simp: keys_below_def AList.delete_eq)

lemma update_keys: "fst ` set (AList.update k v buf) = insert k (fst ` set buf)"
  by (metis dom_map_of_conv_image_fst dom_fun_upd option.simps(3) update_conv')

lemma keys_below_update: "keys_below n buf \<Longrightarrow> k < n \<Longrightarrow> keys_below n (AList.update k p buf)"
  by (simp add: keys_below_def update_keys)

lemma keys_below_lookup: "keys_below n buf \<Longrightarrow> map_of buf k = Some v \<Longrightarrow> k < n"
  by (metis (full_types) domI dom_map_of_conv_image_fst keys_below_def lessThan_iff subsetD)

definition receiver_within :: "nat \<Rightarrow> reliable_udp \<Rightarrow> bool" where
  "receiver_within n st \<longleftrightarrow>
     recv_sequence st \<le> n \<and> n + 64 < u32_bound \<and> keys_below n (recv_buffer st)"

lemma drain_buffer_within:
  assumes "seq \<le> n" "n < u32_bound" "keys_below n buf"
  shows "\<exists>seq' buf' res. drain_buffer seq buf acc = Some (seq', buf', acc @ res) \<and>
    seq \<le> seq' \<and> seq' \<le> n \<and> keys_below n buf'"
  using assms
proof (induction seq buf acc rule: drain_buffer.induct)
  case (1 seq buf acc)
  show ?case
  proof (cases "map_of buf seq")
    case None
    then show ?thesis using 1 by (subst drain_buffer.simps) simp
  next
    case (Some p)
    then have less: "seq < n" using keys_below_lookup 1 by blast
    then obtain seq' buf' res where
      "drain_buffer (seq + 1) (AList.delete seq buf) (acc @ [pdata p]) =
        Some (seq', buf', (acc @ [pdata p]) @ res)" "seq + 1 \<le> seq'" "seq' \<le> n" "keys_below n buf'"
      using "1.IH" [OF Some _ _ "1.prems"(2) keys_below_delete [OF "1.prems"(3)]] "1.prems"(2)
      by auto
    then show ?thesis
      using Some less "1.prems"(2) by (subst drain_buffer.simps) auto
  qed
qed

lemma receive_decodes:
  assumes "packet_valid p" "length (pdata p) \<le> MAX_PACKET_SIZE" "pdata p \<noteq> []"
  shows "\<exists>st1. recv_sequence st1 = recv_sequence st \<and> recv_buffer st1 = recv_buffer st \<and>
    send_window st1 = map (ack_pending (header p)) (send_window st) \<and>
    send_sequence st1 = send_sequence st \<and>
    rudp_receive e (RecvOk (packet_to_bytes e p)) st =
      do { (st2, r) \<leftarrow> process_received_packet st1 p; Some (st2, Inr r) }"
proof -
  have "take (MAX_PACKET_SIZE + 256) (packet_to_bytes e p) = packet_to_bytes e p"
    using assms(2) by (simp add: packet_to_bytes_def HEADER_SIZE_def MAX_PACKET_SIZE_def)
  moreover define st1 where "st1 = process_acknowledgments st (header p)"
  ultimately show ?thesis
    using rudp_codec.decode_exact [OF assms(1), of e] assms(3)
    by (intro exI [of _ "st1\<lparr>stats := (stats st1)\<lparr>packets_received := packets_received (stats st1) + 1\<rparr>\<rparr>"])
      (simp add: rudp_receive_def process_acknowledgments_def Let_def)
qed

lemma receive_step:
  assumes "receiver_within (length ds) st" and "stream_packet ds p"
  shows "\<exists>st' r. rudp_receive e (RecvOk (packet_to_bytes e p)) st = Some (st', Inr r) \<and>
    receiver_within (length ds) st' \<and>
    (r = None \<and> recv_sequence st' = recv_sequence st \<or>
     r = Some (ds ! recv_sequence st) \<and> recv_sequence st < recv_sequence st' \<and>
     recv_sequence st < length ds)"
proof -
  let ?n = "length ds" and ?q = "ph_sequence (header p)"
  obtain st1 where st1: "recv_sequence st1 = recv_sequence st" "recv_buffer st1 = recv_buffer st"
    "rudp_receive e (RecvOk (packet_to_bytes e p)) st =
      do { (st2, r) \<leftarrow> process_received_packet st1 p; Some (st2, Inr r) }"
    using receive_decodes [of p st e] assms(2) by (auto simp: stream_packet_def)
  have q: "?q < ?n" "pdata p = ds ! ?q" using assms(2) by (auto simp: stream_packet_def)
  have w: "recv_sequence st \<le> ?n" "?n + 64 < u32_bound" "keys_below ?n (recv_buffer st)"
    using assms(1) by (auto simp: receiver_within_def)
  show ?thesis
  proof (cases "?q = recv_sequence st")
    case True
    obtain seq' buf' res where "drain_buffer (?q + 1) (recv_buffer st) [pdata p] =
        Some (seq', buf', [pdata p] @ res)" "?q + 1 \<le> seq'" "seq' \<le> ?n"
      "keys_below ?n buf'"
      using drain_buffer_within [of "?q + 1" ?n "recv_buffer st" "[pdata p]"] q w by auto
    then show ?thesis
      using True st1 q w
      by (auto simp: process_received_packet_def receiver_within_def idx_def)
  next
    case False
    then show ?thesis
      using st1 q w
      by (auto simp: process_received_packet_def receiver_within_def keys_below_update Let_def)
  qed
qed

lemma receive_all_in_order:
  assumes "receiver_within (length ds) st" and "\<forall>p \<in> set ps. stream_packet ds p"
  shows "\<exists>st' js. receive_all e st (map (packet_to_bytes e) ps) = Some (st', map ((!) ds) js) \<and>
    sorted_wrt (<) js \<and> (\<forall>j \<in> set js. recv_sequence st \<le> j \<and> j < length ds)"
  using assms
proof (induction ps arbitrary: st)
  case Nil
  show ?case by (rule exI [of _ st], rule exI [of _ "[]"]) simp
next
  case (Cons p ps)
  obtain st1 r where step: "rudp_receive e (RecvOk (packet_to_bytes e p)) st = Some (st1, Inr r)"
    "receiver_within (length ds) st1"
    "r = None \<and> recv_sequence st1 = recv_sequence st \<or>
     r = Some (ds ! recv_sequence st) \<and> recv_sequence st < recv_sequence st1 \<and>
     recv_sequence st < length ds"
    using receive_step [of ds st p e] Cons.prems by auto
  obtain st2 js where rest: "receive_all e st1 (map (packet_to_bytes e) ps) = Some (st2, map ((!) ds) js)"
    "sorted_wrt (<) js" "\<forall>j \<in> set js. recv_sequence st1 \<le> j \<and> j < length ds"
    using Cons.IH [OF step(2)] Cons.prems by auto
  show ?case
  proof (cases r)
    case None
    with step rest show ?thesis by (intro exI [of _ st2] exI [of _ js]) auto
  next
    case (Some x)
    with step rest show ?thesis
      by (intro exI [of _ st2] exI [of _ "recv_sequence st # js"]) auto
  qed
qed

lemma drain_buffer_Nil [simp]: "drain_buffer seq [] acc = Some (seq, [], acc)"
  by (subst drain_buffer.simps) simp

lemma receive_next:
  assumes "packet_valid p" "length (pdata p) \<le> MAX_PACKET_SIZE" "pdata p \<noteq> []"
    "ph_sequence (header p) = recv_sequence st" "recv_sequence st + 1 < u32_bound" "recv_buffer st = []"
  shows "\<exists>st'. rudp_receive e (RecvOk (packet_to_bytes e p)) st = Some (st', Inr (Some (pdata p))) \<and>
    recv_sequence st' = recv_sequence st + 1 \<and> recv_buffer st' = [] \<and> recv_ack_bitfield st' = 0 \<and>
    send_sequence st' = send_sequence st \<and>
    send_window st' = map (ack_pending (header p)) (send_window st)"
proof -
  obtain st1 where "recv_sequence st1 = recv_sequence st" "recv_buffer st1 = recv_buffer st"
    "send_sequence st1 = send_sequence st"
    "send_window st1 = map (ack_pending (header p)) (send_window st)"
    "rudp_receive e (RecvOk (packet_to_bytes e p)) st =
      do { (st2, r) \<leftarrow> process_received_packet st1 p; Some (st2, Inr r) }"
    using receive_decodes [OF assms(1-3), of st e] by auto
  then show ?thesis
    using assms by (simp add: process_received_packet_def idx_def Let_def)
qed

lemma receive_all_complete:
  assumes "length ds < u32_bound" and "recv_buffer st = []" and "recv_sequence st = k" and "k \<le> length ds"
    and "\<forall>j<length ds. stream_packet ds (pk j) \<and> ph_sequence (header (pk j)) = j"
  shows "\<exists>st'. receive_all e st (map (\<lambda>j. packet_to_bytes e (pk j)) [k..<length ds]) =
    Some (st', drop k ds)"
  using assms
proof (induction "length ds - k" arbitrary: k st)
  case 0
  then show ?case by simp
next
  case (Suc m)
  then have k: "k < length ds" by simp
  have "stream_packet ds (pk k)" and "ph_sequence (header (pk k)) = k"
    using Suc.prems(5) k by blast+
  then obtain st1 where "rudp_receive e (RecvOk (packet_to_bytes e (pk k))) st = Some (st1, Inr (Some (ds ! k)))"
    "recv_sequence st1 = k + 1" "recv_buffer st1 = []"
    using receive_next [of "pk k" st e] Suc.prems k by (auto simp: stream_packet_def)
  moreover obtain st2 where
    "receive_all e st1 (map (\<lambda>j. packet_to_bytes e (pk j)) [k + 1..<length ds]) = Some (st2, drop (k + 1) ds)"
    using Suc.hyps(1) [OF _ Suc.prems(1) calculation(3,2) _ Suc.prems(5)] Suc.hyps(2) k
    by (metis Suc_diff_Suc Suc_eq_plus1 Suc_leI old.nat.inject)
  ultimately show ?case
    using k by (simp add: upt_conv_Cons Cons_nth_drop_Suc)
qed

subsection \<open>The send window\<close>

datatype rudp_event =
    Send nat nat "io_error option" bytes
  | Receive recv_outcome
  | Retransmit nat nat "nat \<Rightarrow> io_error option"

fun rudp_step :: "endian \<Rightarrow> reliable_udp \<Rightarrow> rudp_event \<Rightarrow> (reliable_udp \<times> packet list) run" where
  "rudp_step e st (Send now us io d) =
     do { (st', tx, _) \<leftarrow> rudp_send now us io st d; Some (st', tx) }"
| "rudp_step e st (Receive outcome) = do { (st', _) \<leftarrow> rudp_receive e outcome st; Some (st', []) }"
| "rudp_step e st (Retransmit now us io) = process_retransmissions now us io st"

fun rudp_run :: "endian \<Rightarrow> reliable_udp \<Rightarrow> rudp_event list \<Rightarrow> (reliable_udp \<times> packet list) run" where
  "rudp_run e st [] = Some (st, [])"
| "rudp_run e st (ev # evs) = do {
     (st1, tx1) \<leftarrow> rudp_step e st ev;
     (st2, tx2) \<leftarrow> rudp_run e st1 evs;
     Some (st2, tx1 @ tx2)
   }"

definition copies :: "nat \<Rightarrow> packet list \<Rightarrow> nat" where
  "copies q tx = length (filter (\<lambda>p. ph_sequence (header p) = q) tx)"

lemma copies_simps [simp]:
  "copies q [] = 0" "copies q (tx @ ty) = copies q tx + copies q ty"
  "copies q [p] = (if ph_sequence (header p) = q then 1 else 0)"
  by (simp_all add: copies_def)

text \<open>
  An unacknowledged packet sits in the slot of its sequence number, lies at most a window behind
  the next number, and has been transmitted once more often than it was retried.
\<close>

definition slot_ok :: "nat \<Rightarrow> packet list \<Rightarrow> nat \<Rightarrow> pending_packet \<Rightarrow> bool" where
  "slot_ok n tx i pp \<longleftrightarrow> acked pp \<or>
     (pending_seq pp < n \<and> n \<le> pending_seq pp + WINDOW_SIZE \<and> pending_seq pp mod WINDOW_SIZE = i \<and>
      retry_count pp \<le> MAX_RETRIES \<and> copies (pending_seq pp) tx = Suc (retry_count pp))"

definition window_inv :: "reliable_udp \<Rightarrow> packet list \<Rightarrow> bool" where
  "window_inv st tx \<longleftrightarrow>
     length (send_window st) = WINDOW_SIZE \<and>
     (\<forall>i<WINDOW_SIZE. slot_ok (send_sequence st) tx i (send_window st ! i)) \<and>
     (\<forall>q. copies q tx \<le> Suc MAX_RETRIES) \<and> (\<forall>q\<ge>send_sequence st. copies q tx = 0)"

lemma slot_ok_acked [simp]: "acked pp \<Longrightarrow> slot_ok n tx i pp"
  by (simp add: slot_ok_def)

lemma window_inv_new: "window_inv (rudp_new t) []"
  by (simp add: window_inv_def rudp_new_def)

lemma window_inv_slot:
  "window_inv st tx \<Longrightarrow> i < WINDOW_SIZE \<Longrightarrow> slot_ok (send_sequence st) tx i (send_window st ! i)"
  by (simp add: window_inv_def)

lemma process_received_send_side:
  assumes "process_received_packet st p = Some (st', r)"
  shows "send_window st' = send_window st" "send_sequence st' = send_sequence st"
  using assms by (auto simp: process_received_packet_def Let_def split: if_splits bind_splits)

lemma receive_send_side:
  assumes "rudp_receive e outcome st = Some (st', r)"
  shows "st' = st \<or>
    (\<exists>h. send_window st' = map (ack_pending h) (send_window st) \<and> send_sequence st' = send_sequence st)"
proof (cases "\<exists>d p. outcome = RecvOk d \<and> packet_from_bytes e (take (MAX_PACKET_SIZE + 256) d) = Inr p")
  case True
  then obtain d p where "outcome = RecvOk d" "packet_from_bytes e (take (MAX_PACKET_SIZE + 256) d) = Inr p"
    by blast
  then have "send_window st' = map (ack_pending (header p)) (send_window st) \<and>
      send_sequence st' = send_sequence st"
    using assms
    by (auto simp: rudp_receive_def process_acknowledgments_def Let_def
        dest: process_received_send_side split: if_splits bind_splits)
  then show ?thesis by blast
qed (use assms in \<open>auto simp: rudp_receive_def split: recv_outcome.splits io_error.splits sum.splits\<close>)

lemma window_inv_receive:
  assumes "window_inv st tx" and "rudp_receive e outcome st = Some (st', r)"
  shows "window_inv st' tx"
proof -
  have "slot_ok n tx i pp \<Longrightarrow> slot_ok n tx i (ack_pending h pp)" for n i pp h
    by (auto simp: slot_ok_def ack_pending_def Let_def)
  with receive_send_side [OF assms(2)] assms(1) show ?thesis
    by (auto simp: window_inv_def)
qed

text \<open>Using up the next sequence number keeps every slot but the number's own in the window.\<close>

lemma slot_ok_advance:
  assumes "slot_ok n tx i pp" and "i \<noteq> n mod WINDOW_SIZE \<or> acked pp"
  shows "slot_ok (Suc n) tx i pp"
proof -
  have "n \<noteq> pending_seq pp + WINDOW_SIZE" if "pending_seq pp mod WINDOW_SIZE \<noteq> n mod WINDOW_SIZE"
    using that by auto
  with assms show ?thesis by (auto simp: slot_ok_def)
qed

lemma slot_ok_other_packet:
  assumes "slot_ok n tx i pp" and "acked pp \<or> ph_sequence (header p) \<noteq> pending_seq pp"
  shows "slot_ok n (tx @ [p]) i pp"
  using assms by (auto simp: slot_ok_def)

lemma window_inv_send:
  assumes inv: "window_inv st tx" and send: "rudp_send now us io st d = Some (st', ty, r)"
  shows "window_inv st' (tx @ ty)"
proof -
  let ?n = "send_sequence st" and ?slot = "send_sequence st mod WINDOW_SIZE"
  have slot: "?slot < WINDOW_SIZE" by (simp add: WINDOW_SIZE_def)
  have len: "length (send_window st) = WINDOW_SIZE" using inv by (simp add: window_inv_def)
  show ?thesis
  proof (cases "st' = st \<and> ty = []")
    case False
    have free: "acked (send_window st ! ?slot)"
      using send False window_inv_slot [OF inv slot] len slot
      by (auto simp: rudp_send_def slot_ok_def idx_def Let_def split: if_splits)
    have adv: "slot_ok (Suc ?n) tx i (send_window st ! i)" if "i < WINDOW_SIZE" for i
      using slot_ok_advance [OF window_inv_slot [OF inv that]] free by auto
    have le: "copies q tx \<le> Suc MAX_RETRIES" and z: "?n \<le> q \<Longrightarrow> copies q tx = 0" for q
      using inv by (simp_all add: window_inv_def)
    show ?thesis
    proof (cases io)
      case (Some err)
      then have "st' = st\<lparr>send_sequence := Suc ?n\<rparr> \<and> ty = []"
        using send False len slot by (auto simp: rudp_send_def idx_def Let_def split: if_splits)
      with adv len le z show ?thesis by (simp add: window_inv_def)
    next
      case None
      define p where "p = hd ty"
      define pp where "pp = send_window st' ! ?slot"
      have st': "send_window st' = (send_window st)[?slot := pp]"
        "send_sequence st' = Suc ?n" "ty = [p]" "ppacket pp = p" "retry_count pp = 0"
        "ph_sequence (header p) = ?n"
        using send False len slot None
        by (auto simp: rudp_send_def idx_def packet_new_def Let_def p_def pp_def split: if_splits)
      have "slot_ok (Suc ?n) (tx @ [p]) i (send_window st' ! i)" if "i < WINDOW_SIZE" for i
      proof (cases "i = ?slot")
        case True
        then show ?thesis using st' len slot z [of ?n] by (simp add: slot_ok_def WINDOW_SIZE_def)
      next
        case False
        have "acked (send_window st ! i) \<or> pending_seq (send_window st ! i) \<noteq> ?n"
          using window_inv_slot [OF inv that] by (auto simp: slot_ok_def)
        with False slot_ok_other_packet [OF adv [OF that], of p] st' show ?thesis by auto
      qed
      with le z len st' show ?thesis by (auto simp: window_inv_def)
    qed
  qed (use inv in simp)
qed

lemma window_inv_retransmit_slot:
  assumes inv: "window_inv st tx" and i: "i < WINDOW_SIZE"
    and re: "retransmit_slot now us io st i = Some (st', ty)"
  shows "window_inv st' (tx @ ty)"
proof -
  let ?pp = "send_window st ! i"
  have len: "length (send_window st) = WINDOW_SIZE" using inv by (simp add: window_inv_def)
  define pp p where "pp = send_window st' ! i" and "p = hd ty"
  consider "st' = st" "ty = []"
    | "send_window st' = (send_window st)[i := pp]" "acked pp" "send_sequence st' = send_sequence st" "ty = []"
    | "\<not> acked ?pp" "retry_count ?pp < MAX_RETRIES" "send_sequence st' = send_sequence st"
      "send_window st' = (send_window st)[i := pp]" "ppacket pp = p" "\<not> acked pp" "ty = [p]"
      "ph_sequence (header p) = pending_seq ?pp" "retry_count pp = Suc (retry_count ?pp)"
  proof (cases "acked ?pp \<or> pending_seq ?pp \<ge> send_sequence st \<or> now - send_time ?pp \<le> TIMEOUT")
    case True
    then show ?thesis
      using re i len that(1) by (auto simp: retransmit_slot_def idx_def split: if_splits)
  next
    case False
    note unfold = retransmit_slot_def idx_def Let_def pp_def p_def
    show ?thesis
    proof (cases "retry_count ?pp \<ge> MAX_RETRIES")
      case True
      show ?thesis by (rule that(2)) (use re i len False True in \<open>auto simp: unfold\<close>)
    next
      case more: False
      show ?thesis
      proof (cases "io i")
        case None
        show ?thesis by (rule that(3)) (use re i len False more None in \<open>auto simp: unfold\<close>)
      next
        case (Some err)
        show ?thesis by (rule that(1)) (use re i len False more Some in \<open>auto simp: unfold\<close>)
      qed
    qed
  qed
  then show ?thesis
  proof cases
    case 2
    then show ?thesis using inv i by (auto simp: window_inv_def nth_list_update)
  next
    case 3
    note ok = window_inv_slot [OF inv]
    have "slot_ok (send_sequence st) (tx @ [p]) j (send_window st' ! j)" if "j < WINDOW_SIZE" for j
    proof (cases "j = i")
      case True
      then show ?thesis using ok [OF i] 3 i len by (auto simp: slot_ok_def)
    next
      case False
      have "acked (send_window st ! j) \<or> pending_seq ?pp \<noteq> pending_seq (send_window st ! j)"
        using ok [OF i] ok [OF that] 3(1) False by (auto simp: slot_ok_def)
      then show ?thesis
        using slot_ok_other_packet [OF ok [OF that], of p] 3 False by auto
    qed
    moreover have "copies q (tx @ [p]) \<le> Suc MAX_RETRIES" for q
      using inv ok [OF i] 3 by (auto simp: window_inv_def slot_ok_def)
    ultimately show ?thesis
      using inv ok [OF i] 3 len by (auto simp: window_inv_def slot_ok_def)
  qed (use inv in simp)
qed

lemma window_inv_retransmit_loop:
  assumes "window_inv st tx" "\<forall>i \<in> set is. i < WINDOW_SIZE"
    "retransmit_loop now us io st is = Some (st', ty)"
  shows "window_inv st' (tx @ ty)"
  using assms
proof (induction "is" arbitrary: st tx ty)
  case (Cons i "is")
  then obtain st1 tx1 tx2 where 1: "retransmit_slot now us io st i = Some (st1, tx1)"
    and 2: "retransmit_loop now us io st1 is = Some (st', tx2)" and ty: "ty = tx1 @ tx2"
    by (auto split: bind_splits)
  have "window_inv st1 (tx @ tx1)"
    using window_inv_retransmit_slot [OF Cons.prems(1) _ 1] Cons.prems(2) by simp
  from Cons.IH [OF this _ 2] Cons.prems(2) ty show ?case by simp
qed simp

lemma window_inv_step:
  assumes "window_inv st tx" "rudp_step e st ev = Some (st', ty)"
  shows "window_inv st' (tx @ ty)"
proof (cases ev)
  case (Retransmit now us io)
  then show ?thesis
    using window_inv_retransmit_loop [OF assms(1), of "[0..<WINDOW_SIZE]"] assms(2)
    by (simp add: process_retransmissions_def)
qed (use assms in \<open>auto split: bind_splits dest: window_inv_send window_inv_receive\<close>)

lemma window_inv_run:
  assumes "window_inv st tx" "rudp_run e st evs = Some (st', ty)"
  shows "window_inv st' (tx @ ty)"
  using assms
proof (induction evs arbitrary: st tx ty)
  case (Cons ev evs)
  then obtain st1 tx1 tx2 where 1: "rudp_step e st ev = Some (st1, tx1)"
    and 2: "rudp_run e st1 evs = Some (st', tx2)" and ty: "ty = tx1 @ tx2"
    by (auto split: bind_splits)
  from Cons.IH [OF window_inv_step [OF Cons.prems(1) 1] 2] ty show ?case by simp
qed simp

subsection \<open>First packets\<close>

text \<open>The first send of an endpoint whose window is free.\<close>

definition outgoing :: "reliable_udp \<Rightarrow> nat \<Rightarrow> bytes \<Rightarrow> packet" where
  "outgoing st us d =
     \<lparr>header = \<lparr>ph_sequence = send_sequence st, ph_ack = recv_sequence st,
        ph_ack_bitfield = recv_ack_bitfield st, ph_timestamp_us = us,
        ph_data_length = length d, ph_flags = 0, ph_reserved = 0\<rparr>, pdata = d\<rparr>"

lemma send_free_slot:
  assumes "length d \<le> MAX_PACKET_SIZE" "length (send_window st) = WINDOW_SIZE"
    "acked (send_window st ! (send_sequence st mod WINDOW_SIZE))" "send_sequence st + 1 < u32_bound"
  shows "\<exists>st'. rudp_send now us None st d = Some (st', [outgoing st us d], Inr ()) \<and>
    send_sequence st' = send_sequence st + 1 \<and> recv_sequence st' = recv_sequence st \<and>
    recv_buffer st' = recv_buffer st \<and>
    send_window st' = (send_window st)[send_sequence st mod WINDOW_SIZE :=
      \<lparr>ppacket = outgoing st us d, send_time = now, retry_count = 0, acked = False\<rparr>]"
  using assms
  by (cases "send_window st ! (send_sequence st mod WINDOW_SIZE)")
    (simp add: rudp_send_def idx_def packet_new_def outgoing_def Let_def WINDOW_SIZE_def MAX_PACKET_SIZE_def)

lemma send_first:
  assumes "length d \<le> MAX_PACKET_SIZE"
  shows "\<exists>st'. rudp_send now us None (rudp_new t) d = Some (st', [outgoing (rudp_new t) us d], Inr ()) \<and>
    send_sequence st' = 1 \<and> recv_sequence st' = 0 \<and> recv_buffer st' = [] \<and>
    send_window st' = (send_window (rudp_new t))[0 :=
      \<lparr>ppacket = outgoing (rudp_new t) us d, send_time = now, retry_count = 0, acked = False\<rparr>]"
  using send_free_slot [of d "rudp_new t" now us] assms
  by (simp add: rudp_new_def WINDOW_SIZE_def)

lemma outgoing_valid:
  assumes "length d \<le> MAX_PACKET_SIZE" "us < 2 ^ 64" "send_sequence st < 2 ^ 32" "recv_sequence st < 2 ^ 32"
  shows "packet_valid (outgoing st us d)"
  using assms by (simp add: packet_valid_def outgoing_def MAX_PACKET_SIZE_def)

lemma retransmit_all_acked:
  assumes "length (send_window st) = WINDOW_SIZE" "\<forall>pp \<in> set (send_window st). acked pp"
  shows "process_retransmissions now us io st = Some (st, [])"
proof -
  have "retransmit_loop now us io st is = Some (st, [])" if "\<forall>i \<in> set is. i < WINDOW_SIZE" for "is"
    using that assms by (induction "is") (auto simp: retransmit_slot_def idx_def)
  then show ?thesis by (simp add: process_retransmissions_def)
qed

subsection \<open>Properties\<close>

text \<open>
  A packet survives the wire on every target: bytes parse to a packet exactly when the packet
  is well-formed (its fields within their widths, its length field the length of its payload) and
  the bytes begin with its serialization, in either byte order.
\<close>
theorem rudp_parse_iff_serialized:
  "packet_from_bytes e bs = Inr p \<longleftrightarrow>
     packet_valid p \<and> (\<exists>rest. bs = packet_to_bytes e p @ rest)"
  by (rule rudp_codec.decode_iff)

text \<open>
  C8. Whatever the network does to the datagrams of a stream (loss, duplication, reordering), the
  receiver never panics and the payloads it returns are payloads of the stream in strictly
  increasing order: nothing is delivered twice or out of order. If the datagrams arrive in order,
  all payloads are delivered.
\<close>
theorem rudp_delivers_in_order:
  assumes "length ds + 64 < u32_bound"
    and "\<forall>p \<in> set ps. stream_packet ds p"
    and "\<forall>j<length ds. stream_packet ds (pk j) \<and> ph_sequence (header (pk j)) = j"
  shows "(\<exists>st js. receive_all e (rudp_new t) (map (packet_to_bytes e) ps) = Some (st, map ((!) ds) js) \<and>
      sorted_wrt (<) js \<and> set js \<subseteq> {..<length ds}) \<and>
    (\<exists>st. receive_all e (rudp_new t) (map (\<lambda>j. packet_to_bytes e (pk j)) [0..<length ds]) = Some (st, ds))"
proof -
  have "receiver_within (length ds) (rudp_new t)"
    using assms(1) by (simp add: receiver_within_def rudp_new_def keys_below_def)
  from receive_all_in_order [OF this assms(2), of e] obtain st js where
    "receive_all e (rudp_new t) (map (packet_to_bytes e) ps) = Some (st, map ((!) ds) js)"
    "sorted_wrt (<) js" "set js \<subseteq> {..<length ds}" by auto
  moreover have "\<exists>st'. receive_all e (rudp_new t) (map (\<lambda>j. packet_to_bytes e (pk j)) [0..<length ds]) =
      Some (st', drop 0 ds)"
    by (rule receive_all_complete) (use assms in \<open>simp_all add: rudp_new_def\<close>)
  ultimately show ?thesis by auto
qed

theorem rudp_delivers_in_order_witness:
  "\<exists>st js. receive_all LittleEndian (rudp_new 0)
      (map (packet_to_bytes LittleEndian) [packet_new 1 [2], packet_new 1 [2], packet_new 0 [1]]) =
        Some (st, map ((!) [[1], [2]]) js) \<and>
      sorted_wrt (<) js \<and> set js \<subseteq> {..<length [[1], [2 :: u8]]}"
proof (rule rudp_delivers_in_order [THEN conjunct1])
  show "\<forall>j<length [[1], [2 :: u8]]. stream_packet [[1], [2]] (packet_new j ([[1], [2]] ! j)) \<and>
      ph_sequence (header (packet_new j ([[1], [2]] ! j))) = j"
    by (auto simp: stream_packet_def packet_valid_def packet_new_def MAX_PACKET_SIZE_def less_Suc_eq)
qed (simp_all add: stream_packet_def packet_valid_def packet_new_def MAX_PACKET_SIZE_def)

text \<open>
  A packet that arrives ahead of its turn is lost to the application: with packets 0 and 1
  swapped by the network only the payload of packet 0 is ever returned. The receiver then expects
  packet 2, its buffer is empty, and a retransmission of packet 1 returns nothing.
\<close>
theorem rudp_reordered_data_lost:
  assumes "packet_valid p" "length (pdata p) \<le> MAX_PACKET_SIZE" "pdata p \<noteq> []" "ph_sequence (header p) = 0"
    and "packet_valid q" "length (pdata q) \<le> MAX_PACKET_SIZE" "pdata q \<noteq> []" "ph_sequence (header q) = 1"
  shows "\<exists>st. receive_all e (rudp_new t) (map (packet_to_bytes e) [q, p, q]) = Some (st, [pdata p]) \<and>
    recv_sequence st = 2 \<and> recv_buffer st = []"
proof -
  let ?b = "packet_to_bytes e"
  obtain s1 where s1: "rudp_receive e (RecvOk (?b q)) (rudp_new t) = Some (s1, Inr None)"
    "recv_sequence s1 = 0" "recv_buffer s1 = [(1, q)]"
    using receive_decodes [OF assms(5-7), of "rudp_new t" e] assms(8)
    by (auto simp: process_received_packet_def rudp_new_def Let_def)
  have drain: "drain_buffer 1 [(1, q)] [pdata p] = Some (2, [], [pdata p, pdata q])"
    by (subst drain_buffer.simps) simp
  obtain s2 where s2: "rudp_receive e (RecvOk (?b p)) s1 = Some (s2, Inr (Some (pdata p)))"
    "recv_sequence s2 = 2" "recv_buffer s2 = []"
    using receive_decodes [OF assms(1-3), of s1 e] assms(4) s1 drain
    by (auto simp: process_received_packet_def idx_def Let_def)
  obtain s3 where "rudp_receive e (RecvOk (?b q)) s2 = Some (s3, Inr None)"
    "recv_sequence s3 = 2" "recv_buffer s3 = []"
    using receive_decodes [OF assms(5-7), of s2 e] assms(8) s2
    by (auto simp: process_received_packet_def Let_def)
  with s1 s2 show ?thesis by simp
qed

theorem rudp_reordered_data_lost_witness:
  "\<exists>st. receive_all LittleEndian (rudp_new 0)
      (map (packet_to_bytes LittleEndian) [packet_new 1 [0x62], packet_new 0 [0x61], packet_new 1 [0x62]]) =
        Some (st, [pdata (packet_new 0 [0x61])]) \<and>
    recv_sequence st = 2 \<and> recv_buffer st = []"
  by (rule rudp_reordered_data_lost) (simp_all add: packet_valid_def packet_new_def MAX_PACKET_SIZE_def)

text \<open>
  In every run of sends, receptions and retransmissions, no packet is handed to the network
  more than six times (the first transmission and five retries), and every packet that is still
  unacknowledged is kept in its window slot, within the last 64 sequence numbers: an
  unacknowledged packet is never overwritten by a new one.
\<close>
theorem rudp_window_and_retry_bound:
  assumes "rudp_run e (rudp_new t) evs = Some (st, tx)"
  shows "(\<forall>q. copies q tx \<le> 6) \<and> length (send_window st) = 64 \<and>
    (\<forall>i<64. \<not> acked (send_window st ! i) \<longrightarrow>
       pending_seq (send_window st ! i) mod 64 = i \<and>
       pending_seq (send_window st ! i) < send_sequence st \<and>
       send_sequence st \<le> pending_seq (send_window st ! i) + 64 \<and>
       copies (pending_seq (send_window st ! i)) tx = Suc (retry_count (send_window st ! i)))"
  using window_inv_run [OF window_inv_new assms]
  by (simp add: window_inv_def slot_ok_def WINDOW_SIZE_def MAX_RETRIES_def) blast

theorem rudp_window_and_retry_bound_witness:
  "\<exists>st tx. rudp_run LittleEndian (rudp_new 0) [Send 0 0 None [1], Retransmit 500 0 (\<lambda>_. None)] = Some (st, tx) \<and>
    copies 0 tx = 2 \<and> (\<forall>q. copies q tx \<le> 6)"
proof -
  have run: "\<exists>st tx. rudp_run LittleEndian (rudp_new 0) [Send 0 0 None [1], Retransmit 500 0 (\<lambda>_. None)] =
      Some (st, tx) \<and> copies 0 tx = 2"
    by (simp add: rudp_send_def process_retransmissions_def rudp_new_def rudp_consts idx_def
        packet_new_def upt_0_numeral upt_1_numeral retransmit_slot_def copies_def Let_def)
  then show ?thesis using rudp_window_and_retry_bound by blast
qed

text \<open>
  The acknowledgement number is the next packet the peer expects, and the sender takes it for a
  packet the peer has: when \<open>a\<close>'s first packet is lost, the first packet \<open>b\<close> sends marks it
  acknowledged and it is never retransmitted; when \<open>b\<close> did receive it, \<open>b\<close>'s next packet leaves
  it unacknowledged.
\<close>
theorem rudp_acknowledges_the_wrong_packet:
  assumes "d \<noteq> []" "length d \<le> MAX_PACKET_SIZE" "d' \<noteq> []" "length d' \<le> MAX_PACKET_SIZE" "us < 2 ^ 64"
  shows "\<exists>a p. rudp_send ta us None (rudp_new t) d = Some (a, [p], Inr ()) \<and>
    (\<exists>b q a'. rudp_send tb us None (rudp_new t) d' = Some (b, [q], Inr ()) \<and>
       rudp_receive e (RecvOk (packet_to_bytes e q)) a = Some (a', Inr (Some d')) \<and>
       (\<forall>now us' io. process_retransmissions now us' io a' = Some (a', []))) \<and>
    (\<exists>b b' q a'. rudp_receive e (RecvOk (packet_to_bytes e p)) (rudp_new t) = Some (b, Inr (Some d)) \<and>
       rudp_send tb us None b d' = Some (b', [q], Inr ()) \<and>
       rudp_receive e (RecvOk (packet_to_bytes e q)) a = Some (a', Inr (Some d')) \<and>
       \<not> acked (send_window a' ! 0))"
proof -
  let ?new = "rudp_new t"
  let ?p = "outgoing ?new us d" and ?q = "outgoing ?new us d'"
  obtain a where a: "rudp_send ta us None ?new d = Some (a, [?p], Inr ())"
    "recv_sequence a = 0" "recv_buffer a = []" "send_window a = (send_window ?new)[0 :=
      \<lparr>ppacket = ?p, send_time = ta, retry_count = 0, acked = False\<rparr>]"
    using send_first [OF assms(2)] by blast
  obtain b where b: "rudp_send tb us None ?new d' = Some (b, [?q], Inr ())"
    using send_first [OF assms(4)] by blast
  have valid: "packet_valid ?p" "packet_valid ?q"
    using outgoing_valid [of _ us ?new] assms by (simp_all add: rudp_new_def)
  obtain a' where a': "rudp_receive e (RecvOk (packet_to_bytes e ?q)) a = Some (a', Inr (Some d'))"
    "send_window a' = map (ack_pending (header ?q)) (send_window a)"
    using receive_next [OF valid(2), of a e] a assms by (auto simp: outgoing_def rudp_new_def)
  have "\<forall>pp \<in> set (send_window a'). acked pp"
    unfolding a' a by (auto simp: rudp_new_def WINDOW_SIZE_def ack_pending_def outgoing_def)
      (auto simp: in_set_conv_nth nth_list_update split: if_splits)
  moreover have "length (send_window a') = WINDOW_SIZE" by (simp add: a' a rudp_new_def)
  ultimately have quiet: "process_retransmissions now us' io a' = Some (a', [])" for now us' io
    using retransmit_all_acked by blast
  obtain c where c: "rudp_receive e (RecvOk (packet_to_bytes e ?p)) ?new = Some (c, Inr (Some d))"
    "recv_sequence c = 1" "send_sequence c = 0" "recv_ack_bitfield c = 0"
    "send_window c = map (ack_pending (header ?p)) (send_window ?new)"
    using receive_next [OF valid(1), of ?new e] assms by (auto simp: outgoing_def rudp_new_def)
  let ?r = "outgoing c us d'"
  obtain c' where c': "rudp_send tb us None c d' = Some (c', [?r], Inr ())"
    using send_free_slot [OF assms(4), of c tb us] c
    by (auto simp: rudp_new_def WINDOW_SIZE_def ack_pending_def)
  have "packet_valid ?r" using outgoing_valid [of d' us c] assms c by simp
  then obtain a'' where "rudp_receive e (RecvOk (packet_to_bytes e ?r)) a = Some (a'', Inr (Some d'))"
    "send_window a'' = map (ack_pending (header ?r)) (send_window a)"
    using receive_next [of ?r a e] a c assms by (auto simp: outgoing_def)
  moreover from this(2) have "\<not> acked (send_window a'' ! 0)"
    using a c by (simp add: rudp_new_def WINDOW_SIZE_def ack_pending_def outgoing_def)
  ultimately show ?thesis using a b a' quiet c c' by blast
qed

theorem rudp_acknowledges_the_wrong_packet_witness:
  "\<exists>a p. rudp_send 0 7 None (rudp_new 0) [1] = Some (a, [p], Inr ()) \<and>
    (\<exists>b q a'. rudp_send 5 7 None (rudp_new 0) [2] = Some (b, [q], Inr ()) \<and>
       rudp_receive BigEndian (RecvOk (packet_to_bytes BigEndian q)) a = Some (a', Inr (Some [2])) \<and>
       (\<forall>now us' io. process_retransmissions now us' io a' = Some (a', [])))"
proof -
  have "[1 :: u8] \<noteq> []" "length [1 :: u8] \<le> MAX_PACKET_SIZE" "[2 :: u8] \<noteq> []"
    "length [2 :: u8] \<le> MAX_PACKET_SIZE" "(7 :: nat) < 2 ^ 64"
    by (simp_all add: MAX_PACKET_SIZE_def)
  from rudp_acknowledges_the_wrong_packet [OF this, of 0 0 5 BigEndian] show ?thesis by blast
qed

end
