(* ===== verification/Icmp_Ping.thy ===== *)
theory Icmp_Ping
  imports Wire_Interface Bus_Io
begin

unbundle bit_operations_syntax

text \<open>
  \<^verbatim>\<open>TCPIP/src/22/ping_implementation.rs\<close>: the echo request with its checksum, and the parser of
  replies. The request is a packed C structure whose memory is sent as it is, so its bytes
  depend on the byte order of the target: that is the argument \<open>e\<close>. Sockets and clocks are
  arguments of the operations.
\<close>

subsection \<open>The echo request\<close>

datatype endian = LittleEndian | BigEndian

definition u16_mem :: "endian \<Rightarrow> u16 \<Rightarrow> bytes" where
  "u16_mem e w = (case e of LittleEndian \<Rightarrow> le_bytes 2 (unat w) | BigEndian \<Rightarrow> be_bytes 2 (unat w))"

definition swap_bytes :: "u16 \<Rightarrow> u16" where
  "swap_bytes w = of_nat (be_nat (le_bytes 2 (unat w)))"

definition to_be :: "endian \<Rightarrow> u16 \<Rightarrow> u16" where
  "to_be e w = (case e of LittleEndian \<Rightarrow> swap_bytes w | BigEndian \<Rightarrow> w)"

record icmp_echo_packet =
  icmp_type :: u8
  code :: u8
  checksum :: u16
  ident_field :: u16
  seq_field :: u16
  echo_data :: bytes

definition as_bytes :: "endian \<Rightarrow> icmp_echo_packet \<Rightarrow> bytes" where
  "as_bytes e p = [icmp_type p, code p] @ u16_mem e (checksum p) @ u16_mem e (ident_field p) @
     u16_mem e (seq_field p) @ echo_data p"

text \<open>
  The two loops of \<open>calculate_checksum\<close>: the sum of the big-endian 16-bit words, a last odd byte
  counted as the high half of one, and the folding of the carries.
\<close>

function sum_words :: "bytes \<Rightarrow> nat \<Rightarrow> u32 \<Rightarrow> nat \<times> u32" where
  "sum_words bytes i acc =
     (if i < length bytes - 1
      then sum_words bytes (i + 2)
             (acc + (push_bit 8 (ucast (bytes ! i)) OR ucast (bytes ! (i + 1))))
      else (i, acc))"
  by auto
termination
  by (relation "measure (\<lambda>(bytes, i, acc). length bytes - i)") auto

partial_function (option) fold_carries :: "u32 \<Rightarrow> u32 option" where
  "fold_carries acc =
     (if drop_bit 16 acc \<noteq> 0 then fold_carries ((acc AND 0xFFFF) + drop_bit 16 acc) else Some acc)"

definition checksum_bytes :: "bytes \<Rightarrow> u16 option" where
  "checksum_bytes bytes = do {
     let (i, acc) = sum_words bytes 0 0;
     let acc = (if i < length bytes then acc + push_bit 8 (ucast (bytes ! i)) else acc);
     folded \<leftarrow> fold_carries acc;
     Some (ucast (NOT folded))
   }"

definition calculate_checksum :: "endian \<Rightarrow> icmp_echo_packet \<Rightarrow> u16 option" where
  "calculate_checksum e p = checksum_bytes (as_bytes e p)"

definition icmp_echo_packet_new :: "endian \<Rightarrow> u16 \<Rightarrow> u16 \<Rightarrow> icmp_echo_packet option" where
  "icmp_echo_packet_new e ident sq = do {
     let packet = \<lparr>icmp_type = 8, code = 0, checksum = 0, ident_field = to_be e ident,
                   seq_field = to_be e sq, echo_data = map of_nat [0..<56]\<rparr>;
     c \<leftarrow> calculate_checksum e packet;
     Some (packet\<lparr>checksum := c\<rparr>)
   }"

subsection \<open>Sending and receiving\<close>

datatype 'e ping_error = Io 'e | PacketTooShort | IcmpPacketTooShort | NotOurEchoReply

definition send_ping ::
  "endian \<Rightarrow> (bytes \<Rightarrow> 'w \<Rightarrow> ('w, 'e, unit) io) \<Rightarrow> ('w \<Rightarrow> nat) \<Rightarrow> u16 \<Rightarrow> u16 \<Rightarrow> 'w
    \<Rightarrow> ('w, 'e ping_error, nat) io option" where
  "send_ping e send_to now ident sq w = do {
     packet \<leftarrow> icmp_echo_packet_new e ident sq;
     let send_time = now w;
     Some (try_io (map_err Io (send_to (as_bytes e packet) w)) (\<lambda>w _. (w, Inr send_time)))
   }"

text \<open>
  The part of \<open>receive_ping\<close> after the socket: \<open>datagram\<close> is what arrived, \<open>elapsed\<close> the time
  from \<open>send_time\<close> to \<open>recv_time\<close>. The buffer of 1024 zeros holds its first 1024 bytes.
\<close>

definition parse_reply :: "u16 \<Rightarrow> nat \<Rightarrow> bytes \<Rightarrow> 'e ping_error + u16 \<times> nat" where
  "parse_reply ident elapsed datagram =
     (let received = take 1024 datagram;
          len = length received;
          buffer = overwrite_prefix (replicate 1024 0) received
      in if len < 28 then Inl PacketTooShort
         else (let ip_header_len = unat ((buffer ! 0 AND 0x0F) * 4) in
           if len < ip_header_len + 8 then Inl IcmpPacketTooShort
           else (let icmp_data = drop ip_header_len buffer;
                     icmp_type = icmp_data ! 0;
                     icmp_id = of_nat (be_nat [icmp_data ! 4, icmp_data ! 5]);
                     icmp_seq = of_nat (be_nat [icmp_data ! 6, icmp_data ! 7])
                 in if icmp_type = 0 \<and> icmp_id = ident then Inr (icmp_seq, elapsed)
                    else Inl NotOurEchoReply)))"

definition receive_ping ::
  "('w \<Rightarrow> ('w, 'e, bytes) io) \<Rightarrow> ('w \<Rightarrow> nat) \<Rightarrow> u16 \<Rightarrow> nat \<Rightarrow> 'w \<Rightarrow> ('w, 'e ping_error, u16 \<times> nat) io"
where
  "receive_ping recv_from now ident send_time w =
     try_io (map_err Io (recv_from w)) (\<lambda>w datagram.
       (w, parse_reply ident (now w - send_time) datagram))"

text \<open>The statistics \<open>main\<close> keeps over its four rounds.\<close>

record ping_stats =
  packets_sent :: nat
  packets_received :: nat
  total_rtt :: nat

fun ping_rounds ::
  "endian \<Rightarrow> (bytes \<Rightarrow> 'w \<Rightarrow> ('w, 'e, unit) io) \<Rightarrow> ('w \<Rightarrow> ('w, 'e, bytes) io) \<Rightarrow> ('w \<Rightarrow> nat)
    \<Rightarrow> u16 \<Rightarrow> u16 list \<Rightarrow> ping_stats \<Rightarrow> 'w \<Rightarrow> ('w, 'e ping_error, ping_stats) io option" where
  "ping_rounds e send_to recv_from now ident [] st w = Some (w, Inr st)"
| "ping_rounds e send_to recv_from now ident (sq # sqs) st w =
     (case send_ping e send_to now ident sq w of
        None \<Rightarrow> None
      | Some (w, Inl err) \<Rightarrow> Some (w, Inl err)
      | Some (w, Inr send_time) \<Rightarrow>
          (let st = st\<lparr>packets_sent := packets_sent st + 1\<rparr> in
           case receive_ping recv_from now ident send_time w of
             (w, Inr (_, rtt)) \<Rightarrow>
               ping_rounds e send_to recv_from now ident sqs
                 (st\<lparr>packets_received := packets_received st + 1, total_rtt := total_rtt st + rtt\<rparr>) w
           | (w, Inl _) \<Rightarrow> ping_rounds e send_to recv_from now ident sqs st w))"

subsection \<open>The checksum is the one's complement sum\<close>

text \<open>
  RFC 1071 as the reference: 16-bit words in network order, an odd last byte padded with zero,
  added one by one with end-around carry.
\<close>

fun be_words :: "bytes \<Rightarrow> nat list" where
  "be_words [] = []"
| "be_words [a] = [unat a * 256]"
| "be_words (a # b # bs) = (unat a * 256 + unat b) # be_words bs"

definition ones_add :: "nat \<Rightarrow> nat \<Rightarrow> nat" where
  "ones_add a b = (a + b) mod 65536 + (a + b) div 65536"

definition ones_sum :: "nat list \<Rightarrow> nat" where
  "ones_sum ws = fold ones_add ws 0"

text \<open>What folding all carries makes of a sum: the representative of its class modulo 65535.\<close>

definition oc :: "nat \<Rightarrow> nat" where
  "oc v = (if v = 0 then 0 else (v - 1) mod 65535 + 1)"

lemma oc_small: "v < 65536 \<Longrightarrow> oc v = v"
  by (simp add: oc_def)

lemma oc_bound: "oc v < 65536"
proof -
  have "(v - 1) mod 65535 < 65535" by simp
  then have "(v - 1) mod 65535 + 1 < 65536" by linarith
  then show ?thesis by (simp add: oc_def)
qed

lemma oc_pos: "oc v = 0 \<longleftrightarrow> v = 0"
  by (simp add: oc_def)

lemma oc_mod: "oc v mod 65535 = v mod 65535"
proof (cases v)
  case (Suc n)
  then show ?thesis by (simp add: oc_def mod_Suc_eq)
qed (simp add: oc_def)

lemma oc_eqI:
  assumes "v mod 65535 = w mod 65535" "v = 0 \<longleftrightarrow> w = 0"
  shows "oc v = oc w"
proof (cases "v = 0")
  case False
  then obtain n m where nm: "v = Suc n" "w = Suc m" using assms(2) not0_implies_Suc by metis
  have "(Suc n + 65534) mod 65535 = (Suc m + 65534) mod 65535"
    using assms(1) unfolding nm by (rule mod_add_cong) (rule refl)
  moreover have "Suc k + 65534 = k + 65535" for k :: nat by simp
  ultimately have "n mod 65535 = m mod 65535" by (simp only: mod_add_self2)
  then show ?thesis by (simp add: oc_def nm)
qed (use assms(2) in simp)

lemma oc_add_left: "oc (oc v + b) = oc (v + b)"
  by (rule oc_eqI) (simp_all add: oc_pos mod_add_left_eq [of "oc v" 65535 b, symmetric] oc_mod mod_add_left_eq)

lemma oc_carry: "oc (v mod 65536 + v div 65536) = oc v"
proof (rule oc_eqI)
  have "v = v div 65536 * 65535 + (v mod 65536 + v div 65536)"
    using div_mult_mod_eq [of v 65536] by linarith
  then show "(v mod 65536 + v div 65536) mod 65535 = v mod 65535"
    by (metis mod_mult_self3)
  show "v mod 65536 + v div 65536 = 0 \<longleftrightarrow> v = 0" by (metis add_is_0 mod_div_trivial div_mult_mod_eq mult_0 mod_0 div_0)
qed

lemma ones_add_oc:
  assumes "a < 65536" "b < 65536"
  shows "ones_add a b = oc (a + b)"
proof -
  have "ones_add a b < 65536"
  proof (cases "a + b < 65536")
    case False
    then have "(a + b) div 65536 = 1" "(a + b) mod 65536 = a + b - 65536"
      using assms by (simp_all add: div_nat_eqI mod_if)
    then show ?thesis using assms by (simp add: ones_add_def)
  qed (simp add: ones_add_def)
  then show ?thesis using oc_small oc_carry [of "a + b"] by (simp add: ones_add_def)
qed

lemma be_words_bound: "w \<in> set (be_words bs) \<Longrightarrow> w < 65536"
proof (induction bs rule: be_words.induct)
  case (2 a)
  then show ?case using u8_bound [of a] by simp
next
  case (3 a b bs)
  have "unat a * 256 + unat b < 65536" using u8_bound [of a] u8_bound [of b] by linarith
  then show ?case using 3 by auto
qed simp

lemma fold_ones_add:
  "\<forall>w \<in> set ws. w < 65536 \<Longrightarrow> a < 65536 \<Longrightarrow> fold ones_add ws a = oc (a + sum_list ws)"
proof (induction ws arbitrary: a)
  case (Cons w ws)
  have "fold ones_add ws (ones_add w a) = oc (oc (w + a) + sum_list ws)"
    using Cons oc_bound by (simp add: ones_add_oc)
  also have "\<dots> = oc (w + a + sum_list ws)" by (rule oc_add_left)
  also have "w + a + sum_list ws = a + sum_list (w # ws)" by simp
  finally show ?case by simp
qed (simp add: oc_small)

lemma ones_sum_oc: "ones_sum (be_words bs) = oc (sum_list (be_words bs))"
  unfolding ones_sum_def by (subst fold_ones_add) (simp_all add: be_words_bound)

subsection \<open>The two loops\<close>

lemma be_word_or: "push_bit 8 (ucast a) OR ucast b = (of_nat (unat a * 256 + unat b) :: u32)"
  for a b :: u8
proof -
  have "push_bit 8 (ucast a :: u32) OR ucast b = push_bit 8 (ucast a) + ucast b"
    by (rule disjunctive_add_eq_or [symmetric])
       (rule bit_word_eqI, auto simp: bit_and_iff bit_push_bit_iff bit_ucast_iff dest: bit_imp_le_length)
  also have "\<dots> = of_nat (unat a * 256 + unat b)" by (simp add: push_bit_eq_mult unsigned_ucast_eq)
  finally show ?thesis .
qed

declare sum_words.simps [simp del]

lemma be_words_single:
  assumes "i < length bs" "\<not> i < length bs - 1"
  shows "be_words (drop i bs) = [unat (bs ! i) * 256]"
proof -
  have "Suc i = length bs" using assms by linarith
  then have "drop i bs = [bs ! i]" using assms(1) Cons_nth_drop_Suc [of i bs] by simp
  then show ?thesis by simp
qed

lemma be_words_double:
  "i < length bs - 1 \<Longrightarrow>
     be_words (drop i bs) = (unat (bs ! i) * 256 + unat (bs ! (i + 1))) # be_words (drop (i + 2) bs)"
  by (simp add: Cons_nth_drop_Suc [symmetric])

lemma sum_words_total:
  "(case sum_words bs i acc of (j, s) \<Rightarrow> if j < length bs then s + push_bit 8 (ucast (bs ! j)) else s) =
     acc + of_nat (sum_list (be_words (drop i bs)))"
proof (induction bs i acc rule: sum_words.induct)
  case (1 bs i acc)
  show ?case
  proof (cases "i < length bs - 1")
    case True
    then show ?thesis using 1 [OF True]
      by (subst sum_words.simps) (simp add: be_words_double be_word_or add.assoc)
  next
    case False
    then show ?thesis
      by (subst sum_words.simps)
         (auto simp: be_words_single not_less push_bit_eq_mult unsigned_ucast_eq)
  qed
qed

lemma unat_and_ffff: "unat (acc AND 0xFFFF :: u32) = unat acc mod 65536"
proof -
  have "acc AND 0xFFFF = take_bit 16 acc" by (simp add: take_bit_eq_mask mask_eq_exp_minus_1)
  then show ?thesis by (simp only: unsigned_take_bit_eq) (simp add: take_bit_eq_mod)
qed

lemma unat_drop16: "unat (drop_bit 16 acc :: u32) = unat acc div 65536"
  by (simp add: drop_bit_eq_div unat_div_distrib)

lemma fold_carries_oc: "\<exists>r. fold_carries acc = Some r \<and> unat r = oc (unat acc)"
proof (induction "unat acc" arbitrary: acc rule: less_induct)
  case less
  show ?case
  proof (cases "drop_bit 16 acc = 0")
    case True
    then have "unat acc div 65536 = 0" using unat_drop16 [of acc] by simp
    then have "unat acc < 65536" by (simp add: div_eq_0_iff)
    then show ?thesis using True by (subst fold_carries.simps) (simp add: oc_small)
  next
    case False
    let ?next = "(acc AND 0xFFFF) + drop_bit 16 acc"
    have big: "unat acc div 65536 \<noteq> 0"
      using False unat_drop16 [of acc] by (metis unat_eq_zero)
    have bound: "unat acc < 4294967296" using unsigned_less [of acc, where 'a = nat] by simp
    have "unat acc div 65536 < 65536" using bound by (simp add: div_less_iff_less_mult)
    then have "unat ?next = unat acc mod 65536 + unat acc div 65536"
      by (subst unat_plus_if_size) (simp add: unat_and_ffff unat_drop16 word_size)
    moreover have "unat acc mod 65536 + unat acc div 65536 < unat acc"
      using big div_mult_mod_eq [of "unat acc" 65536] by linarith
    ultimately obtain r where "fold_carries ?next = Some r" "unat r = oc (unat acc)"
      using less [of ?next] oc_carry [of "unat acc"] by auto
    then show ?thesis using False by (subst fold_carries.simps) simp
  qed
qed

lemma sum_be_words_bound:
  assumes "length bs \<le> 65536"
  shows "sum_list (be_words bs) < 4294967296"
proof -
  have "sum_list (be_words bs) \<le> length (be_words bs) * 65535"
    using be_words_bound [of _ bs] sum_list_mono [of "be_words bs" id "\<lambda>_. 65535"]
    by (fastforce simp: sum_list_replicate map_replicate_const)
  moreover have "length (be_words bs) \<le> length bs"
    by (induction bs rule: be_words.induct) auto
  ultimately show ?thesis using assms by simp
qed

lemma checksum_bytes_oc:
  assumes "length bs \<le> 65536"
  shows "checksum_bytes bs = Some (NOT (of_nat (oc (sum_list (be_words bs)))))"
proof -
  obtain j s where js: "sum_words bs 0 0 = (j, s)" by fastforce
  have total: "(if j < length bs then s + push_bit 8 (ucast (bs ! j)) else s) =
      of_nat (sum_list (be_words bs))"
    using sum_words_total [of bs 0 0] js by simp
  have "unat (of_nat (sum_list (be_words bs)) :: u32) = sum_list (be_words bs)"
    using sum_be_words_bound [OF assms] by (simp add: unat_of_nat_small)
  then obtain r where r: "fold_carries (of_nat (sum_list (be_words bs))) = Some r"
    "unat r = oc (sum_list (be_words bs))"
    using fold_carries_oc [of "of_nat (sum_list (be_words bs))"] by auto
  have "(ucast (NOT r) :: u16) = NOT (ucast r)"
    by (rule bit_word_eqI) (auto simp: bit_ucast_iff bit_not_iff dest: bit_imp_le_length)
  moreover have "ucast r = (of_nat (oc (sum_list (be_words bs))) :: u16)"
    using r(2) by (metis of_nat_unat)
  ultimately show ?thesis using js total r(1) by (simp add: checksum_bytes_def Let_def)
qed

text \<open>
  C15. The checksum routine agrees with RFC 1071: on any buffer of at most 65536 bytes both loops
  end, and the result is the complement of the one's complement sum of the 16-bit words in
  network order, although carries are only folded in at the end.
\<close>

theorem checksum_is_ones_complement:
  assumes "length bs \<le> 65536"
  shows "checksum_bytes bs = Some (NOT (of_nat (ones_sum (be_words bs))))"
  by (simp add: checksum_bytes_oc [OF assms] ones_sum_oc)

theorem checksum_is_ones_complement_witness:
  "checksum_bytes [0x00, 0x01, 0xF2, 0x03, 0xF4, 0xF5, 0xF6, 0xF7] = Some 0x220D"
  using checksum_is_ones_complement [of "[0x00, 0x01, 0xF2, 0x03, 0xF4, 0xF5, 0xF6, 0xF7]"]
  by (simp add: ones_sum_def ones_add_def)

subsection \<open>Does the packet verify?\<close>

text \<open>A receiver accepts a packet when the checksum over all of it comes out as zero.\<close>

definition verifies :: "bytes \<Rightarrow> bool" where
  "verifies bs \<longleftrightarrow> checksum_bytes bs = Some 0"

lemma not_of_nat:
  assumes "v < 65536"
  shows "NOT (of_nat v) = (of_nat (65535 - v) :: u16)"
proof -
  have "(of_nat (65535 - v) :: u16) = of_nat 65535 - of_nat v" using assms by (simp add: of_nat_diff)
  also have "\<dots> = - of_nat v - 1" by simp
  finally show ?thesis by (simp add: not_eq_complement)
qed

lemma not_of_nat_eq_0:
  assumes "v < 65536"
  shows "NOT (of_nat v) = (0 :: u16) \<longleftrightarrow> v = 65535"
proof -
  have "NOT (of_nat v) = (0 :: u16) \<longleftrightarrow> unat (of_nat (65535 - v) :: u16) = 0"
    unfolding not_of_nat [OF assms] unat_eq_zero ..
  also have "\<dots> \<longleftrightarrow> 65535 - v = 0" by (subst unat_of_nat_u16) simp_all
  finally show ?thesis using assms by linarith
qed

lemma verifies_iff: "length bs \<le> 65536 \<Longrightarrow> verifies bs \<longleftrightarrow> oc (sum_list (be_words bs)) = 65535"
  by (simp add: verifies_def checksum_bytes_oc not_of_nat_eq_0 oc_bound)

lemma be_words_append: "even (length as) \<Longrightarrow> be_words (as @ bs) = be_words as @ be_words bs"
  by (induction as rule: be_words.induct) auto

definition word_of_mem :: "endian \<Rightarrow> u16 \<Rightarrow> nat" where
  "word_of_mem e w = (case e of LittleEndian \<Rightarrow> unat (swap_bytes w) | BigEndian \<Rightarrow> unat w)"

lemma be_words_be_bytes: "v < 65536 \<Longrightarrow> be_words (be_bytes 2 v) = [v]"
  using be_nat_be_bytes_small [of v 2] by (simp add: be_bytes_2 be_nat_def)

lemma be_words_le_bytes: "v < 65536 \<Longrightarrow> be_words (le_bytes 2 v) = [be_nat (le_bytes 2 v)]"
  by (simp add: le_bytes_def be_bytes_2 be_nat_def)

lemma be_words_u16_mem: "be_words (u16_mem e w) = [word_of_mem e w]"
proof (cases e)
  case LittleEndian
  have "be_nat (le_bytes 2 (unat w)) < 65536" using be_nat_bound [of "le_bytes 2 (unat w)"] by simp
  then show ?thesis using LittleEndian u16_bound [of w]
    by (simp add: u16_mem_def word_of_mem_def be_words_le_bytes swap_bytes_def unat_of_nat_u16)
next
  case BigEndian
  then show ?thesis using u16_bound [of w] by (simp add: u16_mem_def word_of_mem_def be_words_be_bytes)
qed

lemma length_u16_mem [simp]: "length (u16_mem e w) = 2"
  by (simp add: u16_mem_def split: endian.split)

lemma be_words_packet:
  "be_words (as_bytes e p) = (unat (icmp_type p) * 256 + unat (code p)) # word_of_mem e (checksum p) #
     word_of_mem e (ident_field p) # word_of_mem e (seq_field p) # be_words (echo_data p)"
  by (simp add: as_bytes_def be_words_append be_words_u16_mem)

lemma word_of_mem_bound: "word_of_mem e w < 65536"
  by (simp add: word_of_mem_def u16_bound split: endian.split)

lemma oc_65535_iff:
  assumes "0 < a" "a < 65536" "b < 65536"
  shows "oc (a + b) = 65535 \<longleftrightarrow> a + b = 65535 \<or> a = 65535 \<and> b = 65535"
  using assms ones_add_oc [of a b] by (auto simp: ones_add_def mod_if div_if split: if_splits)

text \<open>
  The packet \<open>new\<close> builds always exists, and its checksum is right for a receiver exactly
  when the target stores 16-bit words in network order or the two bytes of the checksum happen
  to be equal: the checksum is computed over big-endian words but stored without \<open>to_be\<close>.
\<close>

theorem echo_packet_verifies_iff:
  "\<exists>p. icmp_echo_packet_new e ident sq = Some p \<and> length (as_bytes e p) = 64 \<and>
     (verifies (as_bytes e p) \<longleftrightarrow> e = BigEndian \<or> swap_bytes (checksum p) = checksum p)"
proof -
  define q where "q = \<lparr>icmp_type = 8, code = 0, checksum = 0, ident_field = to_be e ident,
                   seq_field = to_be e sq, echo_data = map of_nat [0..<56]\<rparr>"
  have len: "length (as_bytes e (q\<lparr>checksum := c\<rparr>)) = 64" for c
    by (simp add: as_bytes_def q_def)
  define S where "S = sum_list (be_words (as_bytes e q))"
  have zero: "word_of_mem e 0 = 0"
    by (simp add: word_of_mem_def swap_bytes_def le_bytes_def be_bytes_2 be_nat_def split: endian.split)
  have sums: "sum_list (be_words (as_bytes e (q\<lparr>checksum := c\<rparr>))) = S + word_of_mem e c" for c
    using zero by (simp add: S_def be_words_packet q_def)
  have "0 < S" by (simp add: S_def be_words_packet q_def)
  then have S: "0 < oc S" "oc S < 65536" using oc_pos [of S] oc_bound [of S] by simp_all
  define c :: u16 where "c = of_nat (65535 - oc S)"
  have "q\<lparr>checksum := 0\<rparr> = q" by (simp add: q_def)
  then have "calculate_checksum e q = Some c"
    using len [of 0] S
    by (simp add: calculate_checksum_def checksum_bytes_oc c_def not_of_nat flip: S_def)
  then have new: "icmp_echo_packet_new e ident sq = Some (q\<lparr>checksum := c\<rparr>)"
    by (simp add: icmp_echo_packet_new_def Let_def flip: q_def)
  have uc: "unat c = 65535 - oc S" unfolding c_def by (rule unat_of_nat_u16) simp
  have "verifies (as_bytes e (q\<lparr>checksum := c\<rparr>)) \<longleftrightarrow> oc (oc S + word_of_mem e c) = 65535"
    using len [of c] by (simp add: verifies_iff sums oc_add_left)
  also have "\<dots> \<longleftrightarrow> oc S + word_of_mem e c = 65535 \<or> oc S = 65535 \<and> word_of_mem e c = 65535"
    using S word_of_mem_bound by (intro oc_65535_iff)
  also have "\<dots> \<longleftrightarrow> word_of_mem e c = unat c"
    using uc S zero by (auto simp: c_def)
  also have "\<dots> \<longleftrightarrow> e = BigEndian \<or> swap_bytes c = c"
    by (cases e) (simp_all add: word_of_mem_def word_unat_eq_iff)
  finally show ?thesis using new len [of c] by simp
qed

subsection \<open>Replies\<close>

text \<open>
  An echo reply behind an IP header of any length its IHL field allows, with the identifier in
  network order and any code, checksum and payload.
\<close>

definition reply_datagram :: "bytes \<Rightarrow> u8 \<Rightarrow> u8 \<Rightarrow> u8 \<Rightarrow> u8 \<Rightarrow> u16 \<Rightarrow> u16 \<Rightarrow> bytes \<Rightarrow> bytes" where
  "reply_datagram header t c s1 s2 ident sq payload =
     header @ [t, c, s1, s2] @ be_bytes 2 (unat ident) @ be_bytes 2 (unat sq) @ payload"

lemma ihl_bytes: "unat ((b AND 0x0F) * 4 :: u8) = unat b mod 16 * 4"
proof -
  have "unat b mod 16 * 4 < 256"
    using mod_less_divisor [of 16 "unat b"] by linarith
  then show ?thesis by (simp add: unat_word_ariths u8_low4)
qed

text \<open>
  An ICMP message behind an IP header of 20 to 60 bytes, of at most 1024 bytes in all, is
  answered exactly by its fields: the sequence number and the time when it is an echo reply
  with our identifier, the error \<open>NotOurEchoReply\<close> otherwise, whatever its code, checksum and
  payload.
\<close>

theorem parse_reply_datagram:
  assumes "20 \<le> length header" "length header = unat (header ! 0) mod 16 * 4"
    and "length (reply_datagram header t c s1 s2 ident' sq payload) \<le> 1024"
  shows "parse_reply ident elapsed (reply_datagram header t c s1 s2 ident' sq payload) =
    (if t = 0 \<and> ident' = ident then Inr (sq, elapsed) else Inl NotOurEchoReply)"
proof -
  define d where "d = reply_datagram header t c s1 s2 ident' sq payload"
  define buf where "buf = overwrite_prefix (replicate 1024 0) d"
  let ?n = "length header"
  have len: "28 \<le> length d" "?n + 8 \<le> length d" "take 1024 d = d"
    using assms(1,3) by (simp_all add: d_def reply_datagram_def)
  have buf: "buf ! k = d ! k" if "k < length d" for k
    using that by (simp add: buf_def overwrite_prefix_def nth_append)
  have icmp: "drop ?n buf ! k = d ! (?n + k)" if "k < 8" for k
  proof -
    have "k < length d - ?n" using that len(2) by linarith
    then show ?thesis using len(2) by (simp add: buf_def overwrite_prefix_def nth_append)
  qed
  have "header \<noteq> []" using assms(1) by auto
  then have "buf ! 0 = header ! 0" using buf [of 0] len(1) by (simp add: d_def reply_datagram_def nth_append)
  then have n: "unat ((buf ! 0 AND 0x0F) * 4) = ?n" using assms(2) by (simp add: ihl_bytes)
  have cells: "drop ?n buf ! 0 = t"
    "drop ?n buf ! 4 = of_nat (unat ident' div 256)" "drop ?n buf ! 5 = of_nat (unat ident')"
    "drop ?n buf ! 6 = of_nat (unat sq div 256)" "drop ?n buf ! 7 = of_nat (unat sq)"
    by (simp_all add: icmp d_def reply_datagram_def be_bytes_2 nth_append)
  show ?thesis
    unfolding parse_reply_def Let_def d_def [symmetric] len(3) buf_def [symmetric] n cells u16_be_pair
    using len(1,2) by simp
qed

theorem parse_reply_datagram_witness:
  "parse_reply 77 5 (reply_datagram (0x45 # replicate 19 0) 0 0 0 0 77 3 [1]) = Inr (3, 5)"
  using parse_reply_datagram [of "0x45 # replicate 19 0" 0 0 0 0 77 3 "[1]" 77 5]
  by (simp add: reply_datagram_def)

text \<open>Every round counts one packet as sent, and no more are received than sent.\<close>

theorem ping_rounds_counts:
  assumes "ping_rounds e send_to recv_from now ident sqs st w = Some (w', Inr st')"
    and "packets_received st \<le> packets_sent st"
  shows "packets_sent st' = packets_sent st + length sqs \<and> packets_received st' \<le> packets_sent st'"
  using assms
proof (induction sqs arbitrary: st w)
  case (Cons sq sqs)
  from Cons.prems show ?case
    by (fastforce simp: Let_def split: option.splits sum.splits prod.splits dest: Cons.IH)
qed simp

end
