(* ===== verification/Traceroute.thy ===== *)
theory Traceroute
  imports Bus_Io
begin

text \<open>
  \<^verbatim>\<open>TCPIP/src/22/traceroute_implementation.rs\<close>: traceroute with UDP probes and a raw ICMP socket. The
  sockets, the clock and the name service are a parameter. What the program prints is its result:
  a list of items.
\<close>

subsection \<open>Probes\<close>

type_synonym ipv4 = "u8 \<times> u8 \<times> u8 \<times> u8"

definition MAX_HOPS :: nat where "MAX_HOPS = 30"
definition PACKET_SIZE :: nat where "PACKET_SIZE = 64"
definition TIMEOUT :: nat where "TIMEOUT = 2"
definition DEST_PORT_BASE :: u16 where "DEST_PORT_BASE = 33434"
definition ICMP_ECHOREPLY :: u8 where "ICMP_ECHOREPLY = 0"
definition ICMP_DEST_UNREACH :: u8 where "ICMP_DEST_UNREACH = 3"
definition ICMP_TIME_EXCEEDED :: u8 where "ICMP_TIME_EXCEEDED = 11"

datatype 'e trace_error = InvalidData string | SocketError 'e

record ('w, 'e) sockets =
  udp_socket :: "'w \<Rightarrow> ('w, 'e, unit) io"
  icmp_socket :: "'w \<Rightarrow> ('w, 'e, unit) io"
  set_read_timeout :: "nat \<Rightarrow> 'w \<Rightarrow> ('w, 'e, unit) io"
  set_ttl :: "u32 \<Rightarrow> 'w \<Rightarrow> ('w, 'e, unit) io"
  send_to :: "bytes \<Rightarrow> ipv4 \<Rightarrow> u16 \<Rightarrow> 'w \<Rightarrow> ('w, 'e, nat) io"
  recv_from :: "nat \<Rightarrow> 'w \<Rightarrow> ('w, 'e, bytes) io"
  now :: "'w \<Rightarrow> nat"
  lookup_addr :: "ipv4 \<Rightarrow> 'w \<Rightarrow> ('w, unit, string) io"

abbreviation sock :: "('w, 'e, 'a) io \<Rightarrow> ('w, 'e trace_error, 'a) io" where
  "sock r \<equiv> map_err SocketError r"

definition send_probe :: "('w, 'e) sockets \<Rightarrow> ipv4 \<Rightarrow> u16 \<Rightarrow> nat \<Rightarrow> u32 \<Rightarrow> 'w \<Rightarrow> ('w, 'e trace_error, nat) io" where
  "send_probe S dest port ttl sq w =
     try_io (sock (set_ttl S (of_nat ttl) w)) (\<lambda>w _.
       (let packet = overwrite_prefix (replicate PACKET_SIZE 0) (be_bytes 4 (unat sq));
            send_time = now S w
        in try_io (sock (send_to S packet dest port w)) (\<lambda>w _. (w, Inr send_time))))"

text \<open>The buffer behind the bytes received is zero.\<close>

definition receive_icmp_response ::
  "('w, 'e) sockets \<Rightarrow> nat \<Rightarrow> 'w \<Rightarrow> ('w, 'e trace_error, ipv4 \<times> nat \<times> bool) io" where
  "receive_icmp_response S send_time w =
     try_io (sock (recv_from S 1024 w)) (\<lambda>w received.
       (let buffer = overwrite_prefix (replicate 1024 0) received;
            len = length received;
            rtt = now S w - send_time
        in if len < 28 then (w, Inl (InvalidData ''Packet too short''))
           else
             (let ip_header_len = unat ((buffer ! 0 AND 0x0F) * 4) in
              if len < ip_header_len + 8 then (w, Inl (InvalidData ''ICMP packet too short''))
              else
                (let src_ip = (buffer ! 12, buffer ! 13, buffer ! 14, buffer ! 15);
                     icmp_type = buffer ! ip_header_len;
                     is_destination = (if icmp_type = ICMP_TIME_EXCEEDED then False
                       else if icmp_type = ICMP_DEST_UNREACH then True
                       else icmp_type = ICMP_ECHOREPLY)
                 in (w, Inr (src_ip, rtt, is_destination))))))"

definition ip_string :: "ipv4 \<Rightarrow> string" where
  "ip_string ip = (case ip of (a, b, c, d) \<Rightarrow> string_of_nat (unat a) @ ''.'' @ string_of_nat (unat b) @ ''.'' @
     string_of_nat (unat c) @ ''.'' @ string_of_nat (unat d))"

definition resolve_hostname :: "('w, 'e) sockets \<Rightarrow> ipv4 \<Rightarrow> 'w \<Rightarrow> string \<times> 'w" where
  "resolve_hostname S ip w = (case lookup_addr S ip w of
     (w, Inr hostname) \<Rightarrow> (hostname @ '' ('' @ ip_string ip @ '')'', w)
   | (w, Inl _) \<Rightarrow> (ip_string ip, w))"

subsection \<open>The trace\<close>

datatype item = Header string ipv4 nat nat | Hop nat | Host string | Rtt nat | Star | Newline

record hop_state =
  hop_responded :: bool
  hop_ip :: "ipv4 option"
  reached_dest :: bool
  printed :: "item list"

definition probe :: "('w, 'e) sockets \<Rightarrow> ipv4 \<Rightarrow> nat \<Rightarrow> nat \<Rightarrow> hop_state \<times> 'w \<Rightarrow> hop_state \<times> 'w" where
  "probe S dest_ip ttl i st = (case st of (h, w) \<Rightarrow>
     let sq = (of_nat ttl * 1000 + of_nat i :: u32);
         port = DEST_PORT_BASE + ucast sq
     in case send_probe S dest_ip port ttl sq w of
          (w, Inl _) \<Rightarrow> (h\<lparr>printed := printed h @ [Star]\<rparr>, w)
        | (w, Inr send_time) \<Rightarrow>
            (case receive_icmp_response S send_time w of
               (w, Inl _) \<Rightarrow> (h\<lparr>printed := printed h @ [Star]\<rparr>, w)
             | (w, Inr (from_ip, rtt, is_dest)) \<Rightarrow>
                 (let (h, w) =
                    (if \<not> hop_responded h then
                       (case resolve_hostname S from_ip w of (hostname, w) \<Rightarrow>
                          (h\<lparr>printed := printed h @ [Host hostname], hop_responded := True, hop_ip := Some from_ip\<rparr>, w))
                     else (h, w));
                      h = h\<lparr>printed := printed h @ [Rtt rtt]\<rparr>
                  in (if is_dest \<or> from_ip = dest_ip then h\<lparr>reached_dest := True\<rparr> else h, w))))"

definition trace_hop :: "('w, 'e) sockets \<Rightarrow> ipv4 \<Rightarrow> nat \<Rightarrow> item list \<times> 'w \<Rightarrow> bool \<times> item list \<times> 'w" where
  "trace_hop S dest_ip ttl st = (case st of (out, w) \<Rightarrow>
     let h = \<lparr>hop_responded = False, hop_ip = None, reached_dest = False, printed = out @ [Hop ttl]\<rparr>;
         (h, w) = fold (probe S dest_ip ttl) [0, 1, 2] (h, w)
     in (reached_dest h, printed h @ [Newline], w))"

primrec trace_loop :: "('w, 'e) sockets \<Rightarrow> ipv4 \<Rightarrow> nat list \<Rightarrow> bool \<Rightarrow> item list \<times> 'w \<Rightarrow> item list \<times> 'w" where
  "trace_loop S dest_ip [] reached st = st"
| "trace_loop S dest_ip (ttl # ttls) reached st =
     (if reached then st
      else (case trace_hop S dest_ip ttl st of (r, st) \<Rightarrow> trace_loop S dest_ip ttls r st))"

definition traceroute ::
  "('w, 'e) sockets \<Rightarrow> ipv4 \<Rightarrow> string \<Rightarrow> 'w \<Rightarrow> item list \<times> ('w, 'e, unit) io" where
  "traceroute S dest_ip dest_name w =
     (let out = [Header dest_name dest_ip MAX_HOPS PACKET_SIZE] in
      case try_io (udp_socket S w) (\<lambda>w _. try_io (icmp_socket S w) (\<lambda>w _. set_read_timeout S TIMEOUT w)) of
        (w, Inl e) \<Rightarrow> (out, (w, Inl e))
      | (w, Inr _) \<Rightarrow>
          (case trace_loop S dest_ip [1..<MAX_HOPS + 1] False (out, w) of (out, w) \<Rightarrow> (out, (w, Inr ()))))"

subsection \<open>A network path\<close>

text \<open>
  The reference network: what happens to a probe of a given time to live. It is lost or not
  answered, it expires at a router, or it reaches a host that says it is undeliverable. The answer
  takes \<open>latency\<close> nanoseconds. The probes sent are recorded.
\<close>

datatype answer = Silent | Exceeded ipv4 | Unreachable ipv4

record path =
  answers :: "nat \<Rightarrow> answer"
  latency :: "nat \<Rightarrow> nat"
  current_ttl :: nat
  pending :: "bytes option"
  clock :: nat
  names :: "ipv4 \<rightharpoonup> string"
  probes :: "(nat \<times> u16 \<times> bytes) list"

text \<open>An IP header of twenty bytes without options, and the ICMP header.\<close>

definition icmp_packet :: "u8 \<Rightarrow> ipv4 \<Rightarrow> bytes" where
  "icmp_packet ty ip = (case ip of (a, b, c, d) \<Rightarrow>
     [0x45, 0, 0, 28, 0, 0, 0, 0, 64, 1, 0, 0, a, b, c, d, 10, 0, 0, 1, ty, 0, 0, 0, 0, 0, 0, 0])"

definition reply_to :: "answer \<Rightarrow> bytes option" where
  "reply_to x = (case x of Silent \<Rightarrow> None
     | Exceeded ip \<Rightarrow> Some (icmp_packet ICMP_TIME_EXCEEDED ip)
     | Unreachable ip \<Rightarrow> Some (icmp_packet ICMP_DEST_UNREACH ip))"

definition path_sockets :: "(path, unit) sockets" where
  "path_sockets = \<lparr>udp_socket = (\<lambda>w. (w, Inr ())), icmp_socket = (\<lambda>w. (w, Inr ())),
     set_read_timeout = (\<lambda>_ w. (w, Inr ())),
     set_ttl = (\<lambda>t w. (w\<lparr>current_ttl := unat t\<rparr>, Inr ())),
     send_to = (\<lambda>bs ip port w. (w\<lparr>pending := reply_to (answers w (current_ttl w)),
        probes := probes w @ [(current_ttl w, port, bs)]\<rparr>, Inr (length bs))),
     recv_from = (\<lambda>n w. case pending w of None \<Rightarrow> (w, Inl ())
        | Some p \<Rightarrow> (w\<lparr>pending := None, clock := clock w + latency w (current_ttl w)\<rparr>, Inr (take n p))),
     now = clock,
     lookup_addr = (\<lambda>ip w. (w, case names w ip of None \<Rightarrow> Inl () | Some n \<Rightarrow> Inr n))\<rparr>"

lemma path_sockets_simps [simp]:
  "udp_socket path_sockets w = (w, Inr ())" "icmp_socket path_sockets w = (w, Inr ())"
  "set_read_timeout path_sockets n w = (w, Inr ())"
  "set_ttl path_sockets t w = (w\<lparr>current_ttl := unat t\<rparr>, Inr ())"
  "send_to path_sockets bs ip port w = (w\<lparr>pending := reply_to (answers w (current_ttl w)),
     probes := probes w @ [(current_ttl w, port, bs)]\<rparr>, Inr (length bs))"
  "recv_from path_sockets n w = (case pending w of None \<Rightarrow> (w, Inl ())
     | Some p \<Rightarrow> (w\<lparr>pending := None, clock := clock w + latency w (current_ttl w)\<rparr>, Inr (take n p)))"
  "now path_sockets w = clock w"
  "lookup_addr path_sockets ip w = (w, case names w ip of None \<Rightarrow> Inl () | Some n \<Rightarrow> Inr n)"
  by (simp_all add: path_sockets_def)

definition shown_name :: "path \<Rightarrow> ipv4 \<Rightarrow> string" where
  "shown_name w ip = (case names w ip of None \<Rightarrow> ip_string ip | Some n \<Rightarrow> n @ '' ('' @ ip_string ip @ '')'')"

definition hop_line :: "path \<Rightarrow> nat \<Rightarrow> item list" where
  "hop_line w t = Hop t # (case answers w t of Silent \<Rightarrow> [Star, Star, Star]
     | Exceeded ip \<Rightarrow> Host (shown_name w ip) # replicate 3 (Rtt (latency w t))
     | Unreachable ip \<Rightarrow> Host (shown_name w ip) # replicate 3 (Rtt (latency w t))) @ [Newline]"

definition final_hop :: "path \<Rightarrow> ipv4 \<Rightarrow> nat \<Rightarrow> bool" where
  "final_hop w dest t = (case answers w t of Silent \<Rightarrow> False | Exceeded ip \<Rightarrow> ip = dest | Unreachable ip \<Rightarrow> True)"

definition hop_probes :: "nat \<Rightarrow> (nat \<times> u16 \<times> bytes) list" where
  "hop_probes t = map (\<lambda>i. (t, of_nat (33434 + 1000 * t + i),
     be_bytes 4 (1000 * t + i) @ replicate 60 0)) [0, 1, 2]"

subsection \<open>One probe\<close>

definition after_probe :: "nat \<Rightarrow> u16 \<Rightarrow> bytes \<Rightarrow> path \<Rightarrow> path" where
  "after_probe t port bs w = w\<lparr>current_ttl := t, pending := None, probes := probes w @ [(t, port, bs)],
     clock := clock w + (if answers w t = Silent then 0 else latency w t)\<rparr>"

lemma after_probe_simps [simp]:
  "answers (after_probe t port bs w) = answers w" "latency (after_probe t port bs w) = latency w"
  "names (after_probe t port bs w) = names w" "probes (after_probe t port bs w) = probes w @ [(t, port, bs)]"
  by (simp_all add: after_probe_def)

lemma icmp_packet_parsed:
  assumes "pending w = Some (icmp_packet ty ip)"
  shows "receive_icmp_response path_sockets t w =
    (w\<lparr>pending := None, clock := clock w + latency w (current_ttl w)\<rparr>,
     Inr (ip, clock w + latency w (current_ttl w) - t, ty = ICMP_DEST_UNREACH \<or> ty = ICMP_ECHOREPLY))"
proof -
  obtain a b c d where ip: "ip = (a, b, c, d)" by (cases ip)
  have hl: "unat ((0x45 AND 0x0F :: u8) * 4) = 20" by simp
  have len: "length (icmp_packet ty ip) = 28" by (simp add: icmp_packet_def ip)
  have at: "overwrite_prefix (replicate 1024 0) (icmp_packet ty ip) ! k = icmp_packet ty ip ! k" if "k < 28" for k
    using that len by (simp add: overwrite_prefix_def nth_append)
  have "icmp_packet ty ip ! 0 = 0x45" "icmp_packet ty ip ! 20 = ty"
    "(icmp_packet ty ip ! 12, icmp_packet ty ip ! 13, icmp_packet ty ip ! 14, icmp_packet ty ip ! 15) = ip"
    by (simp_all add: icmp_packet_def ip)
  then show ?thesis using assms len at
    by (simp add: receive_icmp_response_def Let_def hl ICMP_TIME_EXCEEDED_def ICMP_DEST_UNREACH_def ICMP_ECHOREPLY_def)
qed

lemma receive_answer:
  "receive_icmp_response path_sockets (clock w)
     (w\<lparr>current_ttl := t, pending := reply_to (answers w t), probes := probes w @ [(t, port, bs)]\<rparr>) =
   (after_probe t port bs w, case answers w t of Silent \<Rightarrow> Inl (SocketError ())
      | Exceeded ip \<Rightarrow> Inr (ip, latency w t, False) | Unreachable ip \<Rightarrow> Inr (ip, latency w t, True))"
proof (cases "answers w t")
  case Silent
  then show ?thesis by (simp add: receive_icmp_response_def reply_to_def after_probe_def)
qed (simp_all add: reply_to_def icmp_packet_parsed after_probe_def ICMP_TIME_EXCEEDED_def ICMP_DEST_UNREACH_def
    ICMP_ECHOREPLY_def)

lemma send_probe_path:
  assumes "t < 2 ^ 32" "unat sq = n"
  shows "send_probe path_sockets dest port t sq w =
    (w\<lparr>current_ttl := t, pending := reply_to (answers w t),
       probes := probes w @ [(t, port, be_bytes 4 n @ replicate 60 0)]\<rparr>, Inr (clock w))"
proof -
  have "overwrite_prefix (replicate PACKET_SIZE 0) (be_bytes 4 n) = be_bytes 4 n @ replicate 60 0"
    by (simp add: overwrite_prefix_def PACKET_SIZE_def)
  then show ?thesis using assms by (simp add: send_probe_def Let_def unat_of_nat_small)
qed

definition note_answer :: "path \<Rightarrow> ipv4 \<Rightarrow> nat \<Rightarrow> hop_state \<Rightarrow> hop_state" where
  "note_answer w dest t h = (case answers w t of
     Silent \<Rightarrow> h\<lparr>printed := printed h @ [Star]\<rparr>
   | Exceeded ip \<Rightarrow> h\<lparr>printed := printed h @ (if hop_responded h then [] else [Host (shown_name w ip)]) @ [Rtt (latency w t)],
       hop_responded := True, hop_ip := (if hop_responded h then hop_ip h else Some ip),
       reached_dest := reached_dest h \<or> ip = dest\<rparr>
   | Unreachable ip \<Rightarrow> h\<lparr>printed := printed h @ (if hop_responded h then [] else [Host (shown_name w ip)]) @ [Rtt (latency w t)],
       hop_responded := True, hop_ip := (if hop_responded h then hop_ip h else Some ip), reached_dest := True\<rparr>)"

lemma resolve_hostname_path: "resolve_hostname path_sockets ip w = (shown_name w ip, w)"
  by (simp add: resolve_hostname_def shown_name_def split: option.splits)

lemma shown_name_after [simp]: "shown_name (after_probe t port bs w) = shown_name w"
  by (simp add: shown_name_def fun_eq_iff)

text \<open>The port number does not overflow.\<close>

lemma probe_port:
  assumes "t \<le> 30" "i < 3"
  shows "DEST_PORT_BASE + ucast (of_nat t * 1000 + of_nat i :: u32) = (of_nat (33434 + 1000 * t + i) :: u16)"
    and "unat (of_nat t * 1000 + of_nat i :: u32) = 1000 * t + i"
proof -
  have "of_nat t * 1000 + of_nat i = (of_nat (1000 * t + i) :: u32)" by simp
  then show "unat (of_nat t * 1000 + of_nat i :: u32) = 1000 * t + i"
    using assms by (simp add: unat_of_nat_small del: of_nat_add of_nat_mult)
  then have "ucast (of_nat t * 1000 + of_nat i :: u32) = (of_nat (1000 * t + i) :: u16)"
    by (metis of_nat_unat)
  then show "DEST_PORT_BASE + ucast (of_nat t * 1000 + of_nat i :: u32) = (of_nat (33434 + 1000 * t + i) :: u16)"
    by (simp add: DEST_PORT_BASE_def)
qed

lemma probe_path:
  assumes "t \<le> 30" "i < 3"
  shows "probe path_sockets dest t i (h, w) = (note_answer w dest t h,
    after_probe t (of_nat (33434 + 1000 * t + i)) (be_bytes 4 (1000 * t + i) @ replicate 60 0) w)"
proof -
  have "t < 2 ^ 32" using assms by simp
  then show ?thesis
    unfolding probe_def prod.case probe_port(1) [OF assms] Let_def
      send_probe_path [OF \<open>t < 2 ^ 32\<close> probe_port(2) [OF assms]] sum.case receive_answer
    by (cases "answers w t") (auto simp: note_answer_def resolve_hostname_path)
qed

subsection \<open>Hops\<close>

definition same_path :: "path \<Rightarrow> path \<Rightarrow> bool" where
  "same_path w v \<longleftrightarrow> answers v = answers w \<and> latency v = latency w \<and> names v = names w"

lemma same_path_uses:
  "same_path w v \<Longrightarrow> hop_line v = hop_line w" "same_path w v \<Longrightarrow> final_hop v = final_hop w"
  by (auto simp: same_path_def hop_line_def final_hop_def shown_name_def fun_eq_iff split: answer.splits)

lemma note_answer_after [simp]: "note_answer (after_probe t port bs w) = note_answer w"
  by (auto simp: note_answer_def fun_eq_iff split: answer.splits)

lemma trace_hop_path:
  assumes "t \<le> 30"
  shows "\<exists>v. trace_hop path_sockets dest t (out, w) = (final_hop w dest t, out @ hop_line w t, v) \<and>
    same_path w v \<and> probes v = probes w @ hop_probes t"
proof -
  let ?h = "\<lparr>hop_responded = False, hop_ip = None, reached_dest = False, printed = out @ [Hop t]\<rparr>"
  let ?a = "\<lambda>i. after_probe t (of_nat (33434 + 1000 * t + i)) (be_bytes 4 (1000 * t + i) @ replicate 60 0)"
  let ?v = "?a 2 (?a 1 (?a 0 w))"
  let ?n = "note_answer w dest t"
  have "fold (probe path_sockets dest t) [0, 1, 2] (?h, w) = (?n (?n (?n ?h)), ?v)"
    using probe_path [OF assms] by simp
  then have "trace_hop path_sockets dest t (out, w) =
      (reached_dest (?n (?n (?n ?h))), printed (?n (?n (?n ?h))) @ [Newline], ?v)"
    by (simp add: trace_hop_def)
  moreover have "reached_dest (?n (?n (?n ?h))) = final_hop w dest t"
    "printed (?n (?n (?n ?h))) @ [Newline] = out @ hop_line w t"
    by (cases "answers w t"; simp add: note_answer_def final_hop_def hop_line_def numeral_3_eq_3)+
  moreover have "same_path w ?v" "probes ?v = probes w @ hop_probes t"
    by (simp_all add: same_path_def hop_probes_def)
  ultimately show ?thesis by metis
qed

lemma trace_loop_path:
  assumes "d \<le> 30" "a \<le> d" "\<And>t. a \<le> t \<Longrightarrow> t < d \<Longrightarrow> \<not> final_hop w dest t" "d = 30 \<or> final_hop w dest d"
  shows "\<exists>v. trace_loop path_sockets dest [a..<31] False (out, w) = (out @ concat (map (hop_line w) [a..<d + 1]), v) \<and>
    probes v = probes w @ concat (map hop_probes [a..<d + 1])"
  using assms
proof (induction "d - a" arbitrary: a out w)
  case 0
  then have a: "a = d" "a \<le> 30" by simp_all
  obtain v where v: "trace_hop path_sockets dest a (out, w) = (final_hop w dest a, out @ hop_line w a, v)"
    "probes v = probes w @ hop_probes a"
    using trace_hop_path [OF a(2)] by metis
  have stop: "trace_loop path_sockets dest ts True st = st" for ts and st :: "item list \<times> path" by (cases ts) simp_all
  have "[a..<31] = a # [a + 1..<31]" using a by (simp add: upt_conv_Cons)
  moreover have "final_hop w dest a \<or> [a + 1..<31] = []" using 0 a by auto
  moreover have "[d..<d + 1] = [d]" by simp
  ultimately show ?case using v a(1) stop by (auto simp del: upt_Suc)
next
  case (Suc n)
  then have a: "a \<le> 30" "a < d" by simp_all
  then have go: "\<not> final_hop w dest a" using Suc.prems(3) [of a] by simp
  obtain v where v: "trace_hop path_sockets dest a (out, w) = (final_hop w dest a, out @ hop_line w a, v)"
    "same_path w v" "probes v = probes w @ hop_probes a"
    using trace_hop_path [OF a(1)] by metis
  have n: "n = d - (a + 1)" using Suc.hyps(2) by simp
  have same: "final_hop v = final_hop w" "hop_line v = hop_line w" using same_path_uses [OF v(2)] by simp_all
  obtain u where u: "trace_loop path_sockets dest [a + 1..<31] False (out @ hop_line w a, v) =
      ((out @ hop_line w a) @ concat (map (hop_line w) [a + 1..<d + 1]), u)"
    "probes u = probes v @ concat (map hop_probes [a + 1..<d + 1])"
    using Suc.hyps(1) [OF n, where w = v and out = "out @ hop_line w a", unfolded same] Suc.prems a
    by (auto simp del: upt_Suc)
  have "[a..<31] = a # [a + 1..<31]" "[a..<d + 1] = a # [a + 1..<d + 1]" using a by (simp_all add: upt_conv_Cons)
  then show ?case using v u go by (simp del: upt_Suc)
qed

text \<open>
  The trace is exact: let \<open>d\<close> be the first hop whose answer says that the trace is over, or 30 if
  none of the first 30 does. Then the program prints one line for each of the hops 1 to \<open>d\<close>, with
  the name and the three round-trip times of whoever answers there or three stars, and sends
  exactly three probes of 64 bytes per hop, numbered and each to its own port.
\<close>

theorem traceroute_exact:
  assumes "1 \<le> d" "d \<le> 30" "\<And>t. 1 \<le> t \<Longrightarrow> t < d \<Longrightarrow> \<not> final_hop w dest t" "d = 30 \<or> final_hop w dest d"
  shows "\<exists>v. traceroute path_sockets dest name w =
      (Header name dest 30 64 # concat (map (hop_line w) [1..<d + 1]), (v, Inr ())) \<and>
    probes v = probes w @ concat (map hop_probes [1..<d + 1])"
proof -
  obtain v where "trace_loop path_sockets dest [1..<31] False ([Header name dest 30 64], w) =
      ([Header name dest 30 64] @ concat (map (hop_line w) [1..<d + 1]), v)"
    "probes v = probes w @ concat (map hop_probes [1..<d + 1])"
    using trace_loop_path [OF assms(2,1,3,4)] by metis
  then show ?thesis by (simp add: traceroute_def MAX_HOPS_def PACKET_SIZE_def del: upt_Suc)
qed

definition short_path :: path where
  "short_path = \<lparr>answers = (\<lambda>t. if t = 1 then Exceeded (10, 0, 0, 1) else if t = 2 then Silent
       else Unreachable (10, 0, 9, 9)), latency = (\<lambda>t. 100 * t), current_ttl = 0, pending = None, clock = 0,
     names = [(10, 0, 0, 1) \<mapsto> ''router''], probes = []\<rparr>"

theorem traceroute_exact_witness:
  "\<exists>v. traceroute path_sockets (10, 0, 9, 9) ''host'' short_path =
     ([Header ''host'' (10, 0, 9, 9) 30 64, Hop 1, Host (shown_name short_path (10, 0, 0, 1)), Rtt 100, Rtt 100, Rtt 100, Newline,
       Hop 2, Star, Star, Star, Newline,
       Hop 3, Host (shown_name short_path (10, 0, 9, 9)), Rtt 300, Rtt 300, Rtt 300, Newline], (v, Inr ())) \<and>
     length (probes v) = 9"
proof -
  have up: "[1..<3 + 1] = [1, 2, 3 :: nat]" by (simp add: upt_conv_Cons)
  have "\<not> final_hop short_path (10, 0, 9, 9) t" if "1 \<le> t" "t < 3" for t
  proof -
    have "t = 1 \<or> t = 2" using that by auto
    then show ?thesis by (auto simp: final_hop_def short_path_def)
  qed
  moreover have "final_hop short_path (10, 0, 9, 9) 3" by (simp add: final_hop_def short_path_def)
  ultimately obtain v where v: "traceroute path_sockets (10, 0, 9, 9) ''host'' short_path =
      (Header ''host'' (10, 0, 9, 9) 30 64 # concat (map (hop_line short_path) [1..<3 + 1]), (v, Inr ()))"
    "probes v = probes short_path @ concat (map hop_probes [1..<3 + 1])"
    using traceroute_exact [of 3 short_path "(10, 0, 9, 9)" "''host''"] by auto
  have "hop_line short_path 1 = [Hop 1, Host (shown_name short_path (10, 0, 0, 1)), Rtt 100, Rtt 100, Rtt 100, Newline]"
    "hop_line short_path 2 = [Hop 2, Star, Star, Star, Newline]"
    "hop_line short_path 3 = [Hop 3, Host (shown_name short_path (10, 0, 9, 9)), Rtt 300, Rtt 300, Rtt 300, Newline]"
    by (simp_all add: hop_line_def short_path_def numeral_3_eq_3)
  moreover have "length (probes v) = 9" using v(2) unfolding up by (simp add: hop_probes_def short_path_def)
  ultimately show ?thesis using v(1) unfolding up by auto
qed

end
