(* ===== verification/Packet_Capture.thy ===== *)
theory Packet_Capture
  imports Bus_Io
begin

text \<open>
  \<^verbatim>\<open>TCPIP/src/23/bpf_packet_filtering.rs\<close>: statistics over captured packets. Parameters: the packet
  parsers of the \<open>pnet\<close> library and the capture of the \<open>pcap\<close> library, with the flag that the signal
  handler clears. What is printed per packet and the percentages are left out.
\<close>

subsection \<open>Statistics\<close>

record packet_stats =
  total :: nat
  tcp :: nat
  udp :: nat
  icmp :: nat
  other :: nat
  src_ips :: "string \<rightharpoonup> nat"

definition stats_new :: packet_stats where
  "stats_new = \<lparr>total = 0, tcp = 0, udp = 0, icmp = 0, other = 0, src_ips = Map.empty\<rparr>"

definition record_packet :: "packet_stats \<Rightarrow> string \<Rightarrow> string \<Rightarrow> packet_stats" where
  "record_packet st protocol src_ip =
     (let st = st\<lparr>total := total st + 1\<rparr>;
          st = (if protocol = ''TCP'' then st\<lparr>tcp := tcp st + 1\<rparr>
                else if protocol = ''UDP'' then st\<lparr>udp := udp st + 1\<rparr>
                else if protocol = ''ICMP'' then st\<lparr>icmp := icmp st + 1\<rparr>
                else st\<lparr>other := other st + 1\<rparr>)
      in st\<lparr>src_ips := (src_ips st)(src_ip \<mapsto> (case src_ips st src_ip of None \<Rightarrow> 0 | Some n \<Rightarrow> n) + 1)\<rparr>)"

text \<open>The five busiest sources; \<open>entries\<close> is the map in the order its iterator has.\<close>

definition top_sources :: "(string \<times> nat) list \<Rightarrow> (string \<times> nat) list" where
  "top_sources entries = take 5 (rev (sort_key snd (rev entries)))"

subsection \<open>Packets\<close>

datatype ether_type = Ipv4 | Ipv6 | OtherType
datatype protocol = Tcp | Udp | Icmp | OtherProtocol

record parsers =
  ethernet_packet :: "bytes \<Rightarrow> (ether_type \<times> bytes) option"
  ipv4_packet :: "bytes \<Rightarrow> (string \<times> protocol) option"

definition process_packet :: "parsers \<Rightarrow> bytes \<Rightarrow> packet_stats \<Rightarrow> packet_stats" where
  "process_packet P data st = (case ethernet_packet P data of
     None \<Rightarrow> st
   | Some (ty, payload) \<Rightarrow> (case ty of
       Ipv4 \<Rightarrow> (case ipv4_packet P payload of
           None \<Rightarrow> st
         | Some (src_ip, proto) \<Rightarrow>
             record_packet st (case proto of Tcp \<Rightarrow> ''TCP'' | Udp \<Rightarrow> ''UDP'' | Icmp \<Rightarrow> ''ICMP'' | OtherProtocol \<Rightarrow> ''Other'') src_ip)
     | _ \<Rightarrow> st))"

datatype 'e pcap_error = TimeoutExpired | PcapError 'e

record ('w, 'e) capture =
  running :: "'w \<Rightarrow> 'w \<times> bool"
  next_packet :: "'w \<Rightarrow> ('w, 'e pcap_error, bytes) io"

partial_function (option) capture_loop ::
  "('w, 'e) capture \<Rightarrow> parsers \<Rightarrow> nat option \<Rightarrow> nat \<Rightarrow> packet_stats \<times> 'w \<Rightarrow> (packet_stats \<times> 'w) option" where
  "capture_loop C P max_packets count s = (case s of (st, w) \<Rightarrow>
     (case running C w of (w, go) \<Rightarrow>
        if \<not> go then Some (st, w)
        else (case next_packet C w of
            (w, Inr data) \<Rightarrow>
              (let st = process_packet P data st; count = count + 1 in
               if (case max_packets of None \<Rightarrow> False | Some m \<Rightarrow> count \<ge> m) then Some (st, w)
               else capture_loop C P max_packets count (st, w))
          | (w, Inl e) \<Rightarrow> (case e of TimeoutExpired \<Rightarrow> capture_loop C P max_packets count (st, w)
              | PcapError x \<Rightarrow> Some (st, w)))))"

definition start :: "('w, 'e) capture \<Rightarrow> parsers \<Rightarrow> nat option \<Rightarrow> packet_stats \<times> 'w \<Rightarrow> (packet_stats \<times> 'w) option" where
  "start C P max_packets s = capture_loop C P max_packets 0 s"

subsection \<open>Consistency of the statistics\<close>

definition stats_ok :: "packet_stats \<Rightarrow> bool" where
  "stats_ok st \<longleftrightarrow> tcp st + udp st + icmp st + other st = total st \<and> finite (dom (src_ips st)) \<and>
     (\<Sum>ip \<in> dom (src_ips st). the (src_ips st ip)) = total st \<and> (\<forall>ip n. src_ips st ip = Some n \<longrightarrow> 0 < n)"

lemma stats_new_ok: "stats_ok stats_new"
  by (simp add: stats_ok_def stats_new_def)

lemma sum_count_up:
  assumes "finite (dom m)"
  shows "(\<Sum>x \<in> dom (m(k \<mapsto> (case m k of None \<Rightarrow> 0 | Some n \<Rightarrow> n) + 1)).
      the ((m(k \<mapsto> (case m k of None \<Rightarrow> 0 | Some n \<Rightarrow> n) + 1)) x)) = Suc (\<Sum>x \<in> dom m. the (m x :: nat option))"
proof -
  let ?m = "m(k \<mapsto> (case m k of None \<Rightarrow> 0 | Some n \<Rightarrow> n) + 1)"
  have "(\<Sum>x \<in> dom ?m. the (?m x)) = the (?m k) + (\<Sum>x \<in> dom m - {k}. the (?m x))"
    using assms by (simp add: sum.insert_remove)
  also have "(\<Sum>x \<in> dom m - {k}. the (?m x)) = (\<Sum>x \<in> dom m - {k}. the (m x))" by (rule sum.cong) auto
  also have "the (?m k) + (\<Sum>x \<in> dom m - {k}. the (m x)) = Suc (\<Sum>x \<in> dom m. the (m x))"
  proof (cases "m k")
    case None
    then have "dom m - {k} = dom m" by auto
    then show ?thesis using None by simp
  next
    case (Some n)
    then have "(\<Sum>x \<in> dom m. the (m x)) = n + (\<Sum>x \<in> dom m - {k}. the (m x))"
      using assms sum.remove [of "dom m" k "\<lambda>x. the (m x)"] by auto
    then show ?thesis using Some by simp
  qed
  finally show ?thesis .
qed

lemma record_packet_ok:
  assumes "stats_ok st"
  shows "stats_ok (record_packet st proto ip)"
proof -
  let ?m = "src_ips (record_packet st proto ip)"
  have m: "?m = (src_ips st)(ip \<mapsto> (case src_ips st ip of None \<Rightarrow> 0 | Some n \<Rightarrow> n) + 1)"
    by (simp add: record_packet_def Let_def)
  have "(\<Sum>x \<in> dom ?m. the (?m x)) = Suc (total st)"
    unfolding m using sum_count_up [of "src_ips st" ip] assms by (simp add: stats_ok_def)
  moreover have "finite (dom ?m)" "\<forall>x n. ?m x = Some n \<longrightarrow> 0 < n" unfolding m using assms by (auto simp: stats_ok_def)
  moreover have "total (record_packet st proto ip) = Suc (total st)"
    "tcp (record_packet st proto ip) + udp (record_packet st proto ip) + icmp (record_packet st proto ip) +
     other (record_packet st proto ip) = Suc (total st)"
    using assms by (auto simp: record_packet_def Let_def stats_ok_def)
  ultimately show ?thesis by (simp add: stats_ok_def)
qed

lemma process_packet_ok: "stats_ok st \<Longrightarrow> stats_ok (process_packet P data st)"
  by (auto simp: process_packet_def record_packet_ok split: option.split ether_type.split)

lemma process_packets_ok: "stats_ok st \<Longrightarrow> stats_ok (fold (process_packet P) ps st)"
  by (induction ps arbitrary: st) (simp_all add: process_packet_ok)

lemma take_sorted_rev_max:
  assumes "x \<in> set (take n (rev (sort_key f xs)))" "y \<in> set xs" "y \<notin> set (take n (rev (sort_key f xs)))"
  shows "f y \<le> f x"
proof -
  let ?ys = "rev (sort_key f xs)"
  have "y \<in> set (take n ?ys @ drop n ?ys)" using assms(2) by (simp only: append_take_drop_id) simp
  then have y: "y \<in> set (drop n ?ys)" using assms(3) by (simp only: set_append) simp
  have "sorted (map f (sort_key f xs))" by simp
  then have "sorted (rev (map f ?ys))" by (simp add: rev_map)
  then have "sorted (rev (map f (take n ?ys @ drop n ?ys)))" by (simp only: append_take_drop_id)
  then have "sorted (rev (map f (drop n ?ys)) @ rev (map f (take n ?ys)))" by (simp only: map_append rev_append)
  then show ?thesis using assms(1) y by (auto simp: sorted_append)
qed

subsection \<open>Capturing\<close>

text \<open>A device that delivers packets and time-outs, then an error, while nobody stops the program.\<close>

definition feed_capture :: "(bytes option list, unit) capture" where
  "feed_capture = \<lparr>running = (\<lambda>w. (w, True)),
     next_packet = (\<lambda>w. case w of [] \<Rightarrow> ([], Inl (PcapError ()))
       | None # xs \<Rightarrow> (xs, Inl TimeoutExpired) | Some d # xs \<Rightarrow> (xs, Inr d))\<rparr>"

definition delivered :: "bytes option list \<Rightarrow> bytes list" where
  "delivered xs = concat (map (\<lambda>x. case x of None \<Rightarrow> [] | Some d \<Rightarrow> [d]) xs)"

lemma feed_simps [simp]:
  "running feed_capture w = (w, True)" "next_packet feed_capture [] = ([], Inl (PcapError ()))"
  "next_packet feed_capture (None # xs) = (xs, Inl TimeoutExpired)" "next_packet feed_capture (Some d # xs) = (xs, Inr d)"
  "delivered [] = []" "delivered (None # xs) = delivered xs" "delivered (Some d # xs) = d # delivered xs"
  by (simp_all add: feed_capture_def delivered_def)

lemma capture_loop_feed:
  "\<exists>w. capture_loop feed_capture P max_packets count (st, xs) = Some (fold (process_packet P)
     (case max_packets of None \<Rightarrow> delivered xs | Some m \<Rightarrow> take (max 1 (m - count)) (delivered xs)) st, w)"
proof (induction xs arbitrary: count st)
  case Nil
  show ?case
    by (subst capture_loop.simps) (simp split: option.split)
next
  case (Cons x xs)
  show ?case
  proof (cases x)
    case None
    then show ?thesis using Cons [of count st]
      by (subst capture_loop.simps) (cases max_packets; simp)
  next
    case (Some d)
    let ?st = "process_packet P d st"
    have step: "capture_loop feed_capture P max_packets count (st, x # xs) =
        (if (case max_packets of None \<Rightarrow> False | Some m \<Rightarrow> count + 1 \<ge> m) then Some (?st, xs)
         else capture_loop feed_capture P max_packets (count + 1) (?st, xs))"
      by (subst capture_loop.simps) (cases max_packets; simp add: Some Let_def)
    have del: "delivered (x # xs) = d # delivered xs" by (simp add: Some)
    show ?thesis
    proof (cases max_packets)
      case None
      then show ?thesis using step Cons [of "count + 1" ?st] del by simp
    next
      case m: (Some m)
      show ?thesis
      proof (cases "count + 1 \<ge> m")
        case True
        then have "max 1 (m - count) = 1" by simp
        then show ?thesis using step m True del by simp
      next
        case False
        then have "max 1 (m - count) = Suc (max 1 (m - (count + 1)))" by simp
        then show ?thesis using step m False del Cons [of "count + 1" ?st] by simp
      qed
    qed
  qed
qed

text \<open>
  The capture ends and its statistics are right: \<open>start\<close> processes exactly the first packets that
  are delivered, up to the given number (and one even if the number is zero), time-outs do not
  count; the four protocol counts and the counts per source each add up to the total; and no source
  outside the five that are shown has sent more packets than one of these, in whatever order the
  map is iterated.
\<close>

theorem capture_statistics:
  assumes "stats_ok st"
  shows "\<exists>st' w. start feed_capture P max_packets (st, xs) = Some (st', w) \<and>
    st' = fold (process_packet P)
      (case max_packets of None \<Rightarrow> delivered xs | Some m \<Rightarrow> take (max 1 m) (delivered xs)) st \<and>
    tcp st' + udp st' + icmp st' + other st' = total st' \<and>
    (\<Sum>ip \<in> dom (src_ips st'). the (src_ips st' ip)) = total st' \<and>
    (\<forall>entries ip n. distinct entries \<longrightarrow> set entries = {(i, k). src_ips st' i = Some k} \<longrightarrow>
      length (top_sources entries) = min 5 (length entries) \<and>
      (src_ips st' ip = Some n \<longrightarrow> (ip, n) \<in> set (top_sources entries) \<or>
        (\<forall>(i, k) \<in> set (top_sources entries). n \<le> k)))"
proof -
  obtain st' w where run: "start feed_capture P max_packets (st, xs) = Some (st', w)"
    and st': "st' = fold (process_packet P)
      (case max_packets of None \<Rightarrow> delivered xs | Some m \<Rightarrow> take (max 1 m) (delivered xs)) st"
    using capture_loop_feed [of P max_packets 0 st xs] by (auto simp: start_def split: option.splits)
  have "stats_ok st'" unfolding st' by (rule process_packets_ok [OF assms])
  moreover have "(ip, n) \<in> set (top_sources entries) \<or> (\<forall>(i, k) \<in> set (top_sources entries). n \<le> k)"
    if e: "set entries = {(i, k). src_ips st' i = Some k}" "src_ips st' ip = Some n" for entries ip n
    using take_sorted_rev_max [of _ 5 snd "rev entries" "(ip, n)"] e by (fastforce simp: top_sources_def)
  ultimately show ?thesis using run st' by (auto simp: stats_ok_def top_sources_def)
qed

theorem capture_statistics_witness:
  "\<exists>st w. start feed_capture \<lparr>ethernet_packet = (\<lambda>d. Some (Ipv4, d)), ipv4_packet = (\<lambda>d. Some (''10.0.0.1'', Tcp))\<rparr>
     (Some 2) (stats_new, [None, Some [1], Some [2], Some [3]]) = Some (st, w) \<and> total st = 2 \<and> tcp st = 2"
proof -
  let ?P = "\<lparr>ethernet_packet = (\<lambda>d. Some (Ipv4, d)), ipv4_packet = (\<lambda>d. Some (''10.0.0.1'', Tcp))\<rparr>"
  have del: "take (max 1 2) (delivered [None, Some [1], Some [2], Some [3]]) = [[1], [2]]" by simp
  have f: "fold (process_packet ?P) [[1], [2]] stats_new = st \<Longrightarrow> total st = 2 \<and> tcp st = 2" for st
    by (auto simp: process_packet_def record_packet_def stats_new_def)
  show ?thesis
    using capture_statistics [OF stats_new_ok, of ?P "Some 2" "[None, Some [1], Some [2], Some [3]]"] f del by force
qed

end
