(* ===== verification/Tcp_State.thy ===== *)
theory Tcp_State
  imports Bus_Io
begin

text \<open>
  \<^verbatim>\<open>TCPIP/src/17/tcp_state_manager.rs\<close>: connections that track the TCP state they believe to be
  in, a client that half-closes, and an echo server. The socket is a parameter, a record of
  operations on the state \<open>'w\<close> of the network; \<open>stream_read\<close> returns the bytes it put into the
  buffer. The transitions the program prints are kept in a list. The receive loops are partial:
  \<open>None\<close> is a peer that never stops sending.
\<close>

subsection \<open>States and connections\<close>

datatype tcp_state = Closed | Listen | SynSent | SynReceived | Established | FinWait1 | FinWait2
  | CloseWait | Closing | LastAck | TimeWait

definition as_str :: "tcp_state \<Rightarrow> string" where
  "as_str s = (case s of
     Closed \<Rightarrow> ''CLOSED'' | Listen \<Rightarrow> ''LISTEN'' | SynSent \<Rightarrow> ''SYN_SENT''
   | SynReceived \<Rightarrow> ''SYN_RECEIVED'' | Established \<Rightarrow> ''ESTABLISHED'' | FinWait1 \<Rightarrow> ''FIN_WAIT1''
   | FinWait2 \<Rightarrow> ''FIN_WAIT2'' | CloseWait \<Rightarrow> ''CLOSE_WAIT'' | Closing \<Rightarrow> ''CLOSING''
   | LastAck \<Rightarrow> ''LAST_ACK'' | TimeWait \<Rightarrow> ''TIME_WAIT'')"

record ('w, 'e) tcp_stream =
  stream_peer_addr :: "'w \<Rightarrow> 'e + string"
  stream_write :: "bytes \<Rightarrow> 'w \<Rightarrow> ('w, 'e, nat) io"
  stream_flush :: "'w \<Rightarrow> ('w, 'e, unit) io"
  stream_read :: "nat \<Rightarrow> 'w \<Rightarrow> ('w, 'e, bytes) io"
  stream_shutdown_write :: "'w \<Rightarrow> ('w, 'e, unit) io"
  set_read_timeout :: "nat \<Rightarrow> 'w \<Rightarrow> ('w, 'e, unit) io"
  set_write_timeout :: "nat \<Rightarrow> 'w \<Rightarrow> ('w, 'e, unit) io"
  sleep_ms :: "nat \<Rightarrow> 'w \<Rightarrow> 'w"

datatype 'e conn_error = NotConnected string | Io 'e

record tcp_connection =
  current_state :: tcp_state
  peer_addr :: string
  transitions :: "(string \<times> tcp_state \<times> tcp_state) list"

type_synonym ('w, 'e, 'a) conn_io = "(tcp_connection \<times> 'w, 'e conn_error, 'a) io"

definition tcp_connection_new :: "('w, 'e) tcp_stream \<Rightarrow> 'w \<Rightarrow> 'e + tcp_connection" where
  "tcp_connection_new S w = (case stream_peer_addr S w of
     Inl e \<Rightarrow> Inl e
   | Inr addr \<Rightarrow> Inr \<lparr>current_state = Established, peer_addr = addr, transitions = []\<rparr>)"

definition state_transition :: "string \<Rightarrow> tcp_state \<Rightarrow> tcp_connection \<Rightarrow> tcp_connection" where
  "state_transition event new_state c =
     (if current_state c \<noteq> new_state
      then c\<lparr>transitions := transitions c @ [(event, current_state c, new_state)], current_state := new_state\<rparr>
      else c)"

definition on_socket :: "tcp_connection \<Rightarrow> ('w, 'e, 'a) io \<Rightarrow> ('w, 'e, 'a) conn_io" where
  "on_socket c r = (case r of (w, Inl e) \<Rightarrow> ((c, w), Inl (Io e)) | (w, Inr a) \<Rightarrow> ((c, w), Inr a))"

definition send_data :: "('w, 'e) tcp_stream \<Rightarrow> bytes \<Rightarrow> tcp_connection \<times> 'w \<Rightarrow> ('w, 'e, nat) conn_io" where
  "send_data S data s =
     (let (c, w) = s in
      if current_state c \<noteq> Established
      then ((c, w), Inl (NotConnected (''Cannot send in '' @ as_str (current_state c) @ '' state'')))
      else
        try_io (on_socket c (stream_write S data w)) (\<lambda>(c, w) sent.
        try_io (on_socket c (stream_flush S w)) (\<lambda>s _. (s, Inr sent))))"

definition receive_data :: "('w, 'e) tcp_stream \<Rightarrow> nat \<Rightarrow> tcp_connection \<times> 'w \<Rightarrow> ('w, 'e, bytes) conn_io" where
  "receive_data S n s =
     (let (c, w) = s in
      case stream_read S n w of
        (w, Inl e) \<Rightarrow> ((c, w), Inl (Io e))
      | (w, Inr []) \<Rightarrow> ((state_transition ''received FIN'' CloseWait c, w), Inr [])
      | (w, Inr bs) \<Rightarrow> ((c, w), Inr bs))"

definition shutdown_write :: "('w, 'e) tcp_stream \<Rightarrow> tcp_connection \<times> 'w \<Rightarrow> ('w, 'e, unit) conn_io" where
  "shutdown_write S s =
     (let (c, w) = s; c = state_transition ''shutdown(Write)'' FinWait1 c in
      try_io (on_socket c (stream_shutdown_write S w)) (\<lambda>(c, w) _.
        ((state_transition ''received ACK for FIN'' FinWait2 c, sleep_ms S 100 w), Inr ())))"

partial_function (option) half_close_loop ::
  "('w, 'e) tcp_stream \<Rightarrow> tcp_connection \<times> 'w \<Rightarrow> (tcp_connection \<times> 'w) option" where
  "half_close_loop S s = (case receive_data S 1024 s of
     (s, Inl e) \<Rightarrow> Some s
   | (s, Inr bs) \<Rightarrow> if bs = [] then Some s else half_close_loop S s)"

definition newline :: u8 where "newline = 10"

definition demonstrate_half_close ::
  "('w, 'e) tcp_stream \<Rightarrow> tcp_connection \<times> 'w \<Rightarrow> ('w, 'e, unit) conn_io option" where
  "demonstrate_half_close S s =
     try_run (Some (send_data S (ascii ''Final message before half-close'' @ [newline]) s)) (\<lambda>s _.
     try_run (Some (shutdown_write S s)) (\<lambda>s _. do {
       s \<leftarrow> half_close_loop S s;
       Some (s, Inr ())
     }))"

definition run_client :: "('w, 'e) tcp_stream \<Rightarrow> tcp_connection \<times> 'w \<Rightarrow> ('w, 'e, unit) conn_io option" where
  "run_client S s =
     try_run (Some (let (c, w) = s in on_socket c (set_read_timeout S 5 w))) (\<lambda>s _.
     try_run (Some (let (c, w) = s in on_socket c (set_write_timeout S 5 w))) (\<lambda>s _.
     try_run (Some (send_data S (ascii ''Hello from Rust client'' @ [newline]) s)) (\<lambda>s _.
       let (s, _) = receive_data S 1024 s in demonstrate_half_close S s)))"

partial_function (option) server_loop ::
  "('w, 'e) tcp_stream \<Rightarrow> tcp_connection \<times> 'w \<Rightarrow> ('w, 'e, unit) conn_io option" where
  "server_loop S s = (case receive_data S 1024 s of
     (s, Inl e) \<Rightarrow> Some (s, Inr ())
   | (s, Inr bs) \<Rightarrow>
       if bs = [] then
         (case send_data S (ascii ''Goodbye from server'' @ [newline]) s of
            (s, Inl e) \<Rightarrow> Some (s, Inl e)
          | (s, Inr _) \<Rightarrow> Some (s, Inr ()))
       else
         (case send_data S bs s of
            (s, Inl e) \<Rightarrow> Some (s, Inl e)
          | (s, Inr _) \<Rightarrow> server_loop S s))"

subsection \<open>A peer\<close>

text \<open>
  The reference network: the peer sends the chunks of \<open>incoming\<close>, one per read, then closes its
  side; everything written arrives, and no operation fails.
\<close>

record peer =
  incoming :: "bytes list"
  outgoing :: "bytes list"
  write_closed :: bool

definition peer_stream :: "(peer, unit) tcp_stream" where
  "peer_stream = \<lparr>
     stream_peer_addr = (\<lambda>_. Inr ''peer''),
     stream_write = (\<lambda>bs w. (w\<lparr>outgoing := outgoing w @ [bs]\<rparr>, Inr (length bs))),
     stream_flush = (\<lambda>w. (w, Inr ())),
     stream_read = (\<lambda>n w. case incoming w of
        [] \<Rightarrow> (w, Inr [])
      | bs # rest \<Rightarrow> (w\<lparr>incoming := rest\<rparr>, Inr (take n bs))),
     stream_shutdown_write = (\<lambda>w. (w\<lparr>write_closed := True\<rparr>, Inr ())),
     set_read_timeout = (\<lambda>_ w. (w, Inr ())),
     set_write_timeout = (\<lambda>_ w. (w, Inr ())),
     sleep_ms = (\<lambda>_ w. w)\<rparr>"

definition established :: "string \<Rightarrow> tcp_connection" where
  "established addr = \<lparr>current_state = Established, peer_addr = addr, transitions = []\<rparr>"

lemmas peer_simps = peer_stream_def receive_data_def send_data_def on_socket_def Let_def

lemma server_step_data:
  assumes "current_state c = Established" "incoming w = bs # rest" "bs \<noteq> []"
  shows "server_loop peer_stream (c, w) =
    server_loop peer_stream (c, w\<lparr>incoming := rest, outgoing := outgoing w @ [take 1024 bs]\<rparr>)"
proof -
  have "take 1024 bs \<noteq> []" using assms(3) by simp
  then have "receive_data peer_stream 1024 (c, w) = ((c, w\<lparr>incoming := rest\<rparr>), Inr (take 1024 bs))"
    using assms(2) by (cases "take 1024 bs") (simp_all add: peer_stream_def receive_data_def)
  moreover have "send_data peer_stream (take 1024 bs) (c, w\<lparr>incoming := rest\<rparr>) =
      ((c, w\<lparr>incoming := rest, outgoing := outgoing w @ [take 1024 bs]\<rparr>), Inr (length (take 1024 bs)))"
    using assms(1) by (simp add: peer_stream_def send_data_def on_socket_def)
  ultimately show ?thesis
    using \<open>take 1024 bs \<noteq> []\<close> by (subst server_loop.simps) simp
qed

lemma server_step_fin:
  assumes "current_state c = Established" "incoming w = []"
  shows "server_loop peer_stream (c, w) =
    Some ((state_transition ''received FIN'' CloseWait c, w),
          Inl (NotConnected ''Cannot send in CLOSE_WAIT state''))"
  using assms by (subst server_loop.simps) (simp add: peer_simps state_transition_def as_str_def)

text \<open>
  The echo server never closes gracefully. Whatever a client sends before it closes its
  side, the server echoes every chunk, cut to 1024 bytes, and then returns an error: it refuses
  its own farewell because the state it tracks has just become CLOSE_WAIT, in which TCP would
  still let it send. No farewell reaches the client.
\<close>

theorem server_refuses_its_farewell:
  assumes "\<forall>bs \<in> set (incoming w). bs \<noteq> []"
  shows "\<exists>c w'. server_loop peer_stream (established addr, w) =
      Some ((c, w'), Inl (NotConnected ''Cannot send in CLOSE_WAIT state'')) \<and>
    outgoing w' = outgoing w @ map (take 1024) (incoming w) \<and> incoming w' = [] \<and>
    current_state c = CloseWait"
  using assms
proof (induction "incoming w" arbitrary: w)
  case Nil
  then show ?case
    using server_step_fin [of "established addr" w] by (simp add: established_def state_transition_def)
next
  case (Cons bs rest)
  let ?w = "w\<lparr>incoming := rest, outgoing := outgoing w @ [take 1024 bs]\<rparr>"
  have "server_loop peer_stream (established addr, w) = server_loop peer_stream (established addr, ?w)"
    using Cons by (intro server_step_data) (simp_all add: established_def flip: Cons.hyps(2))
  moreover have "\<forall>bs \<in> set (incoming ?w). bs \<noteq> []" using Cons.prems by (simp flip: Cons.hyps(2))
  ultimately show ?case using Cons.hyps(1) [of ?w] by (simp flip: Cons.hyps(2))
qed

theorem server_refuses_its_farewell_witness:
  "\<exists>c w'. server_loop peer_stream (established ''x'', \<lparr>incoming = [[1, 2]], outgoing = [], write_closed = False\<rparr>) =
      Some ((c, w'), Inl (NotConnected ''Cannot send in CLOSE_WAIT state'')) \<and> outgoing w' = [[1, 2]]"
  using server_refuses_its_farewell [of "\<lparr>incoming = [[1, 2]], outgoing = [], write_closed = False\<rparr>" "''x''"]
  by auto

subsection \<open>The transitions of the client\<close>

text \<open>The transitions of RFC 793 between the states a connected socket can be in.\<close>

inductive rfc_step :: "tcp_state \<Rightarrow> tcp_state \<Rightarrow> bool" where
  "rfc_step Established FinWait1"
| "rfc_step Established CloseWait"
| "rfc_step FinWait1 FinWait2"
| "rfc_step FinWait1 Closing"
| "rfc_step FinWait1 TimeWait"
| "rfc_step FinWait2 TimeWait"
| "rfc_step Closing TimeWait"
| "rfc_step CloseWait LastAck"
| "rfc_step LastAck Closed"
| "rfc_step TimeWait Closed"

inductive_cases rfc_fin_wait2: "rfc_step FinWait2 s"

lemma half_close_drains:
  assumes "\<forall>bs \<in> set (incoming w). bs \<noteq> []"
  shows "half_close_loop peer_stream (c, w) =
    Some (state_transition ''received FIN'' CloseWait c, w\<lparr>incoming := []\<rparr>)"
  using assms
proof (induction "incoming w" arbitrary: w)
  case Nil
  then show ?case by (subst half_close_loop.simps) (simp add: peer_stream_def receive_data_def)
next
  case (Cons bs rest)
  have "take 1024 bs \<noteq> []" using Cons by (simp flip: Cons.hyps(2))
  then have "receive_data peer_stream 1024 (c, w) = ((c, w\<lparr>incoming := rest\<rparr>), Inr (take 1024 bs))"
    using Cons.hyps(2) [symmetric] by (cases "take 1024 bs") (simp_all add: peer_stream_def receive_data_def)
  then show ?case
    using Cons.hyps(1) [of "w\<lparr>incoming := rest\<rparr>"] Cons.prems \<open>take 1024 bs \<noteq> []\<close>
    by (subst half_close_loop.simps) (simp flip: Cons.hyps(2))
qed

text \<open>
  The client's half-close succeeds, and the transitions it reports end in one TCP does not have:
  from FIN_WAIT2 a FIN leads to TIME_WAIT, not to CLOSE_WAIT.
\<close>

theorem client_reports_illegal_transition:
  assumes "\<forall>bs \<in> set (incoming w). bs \<noteq> []"
  shows "\<exists>c w'. demonstrate_half_close peer_stream (established addr, w) = Some ((c, w'), Inr ()) \<and>
    transitions c = [(''shutdown(Write)'', Established, FinWait1),
      (''received ACK for FIN'', FinWait1, FinWait2), (''received FIN'', FinWait2, CloseWait)] \<and>
    \<not> rfc_step FinWait2 CloseWait"
proof -
  have "\<forall>bs \<in> set (incoming (w\<lparr>outgoing := outgoing w @ [ascii ''Final message before half-close'' @ [newline]],
      write_closed := True\<rparr>)). bs \<noteq> []" using assms by simp
  from half_close_drains [OF this] show ?thesis
    by (auto simp: demonstrate_half_close_def send_data_def shutdown_write_def on_socket_def peer_stream_def
        established_def state_transition_def elim: rfc_fin_wait2)
qed

end
