(* ===== verification/Tcp_Poll_Server.thy ===== *)
theory Tcp_Poll_Server
  imports Uproto_Prelude
begin

text \<open>
  \<^verbatim>\<open>TCPIP/src/06/tcp_server_with_poll.rs\<close>: an echo server around \<open>poll\<close>, with a table of poll entries
  and a parallel table of streams. A stream is its descriptor. What the operating system answers
  during one turn of the loop is a record \<open>turn\<close>; a run is any sequence of turns. What the server does
  is written to a log: connections accepted, data read and written, descriptors closed, where a stream
  that is overwritten or goes out of scope is closed.
\<close>

named_theorems poll_ops \<open>the steps of the loop\<close>

definition MAX_CLIENTS :: nat where
  "MAX_CLIENTS = 100"

definition BUFFER_SIZE :: nat where
  "BUFFER_SIZE = 1024"

definition POLLIN :: u16 where
  "POLLIN = 1"

text \<open>\<open>POLLERR | POLLHUP | POLLNVAL\<close>\<close>

definition POLLBAD :: u16 where
  "POLLBAD = 8 OR 16 OR 32"

record pollfd =
  pfd :: int
  events :: u16
  revents :: u16

datatype action = Accepted int | Closed int | ReadData int bytes | Wrote int bytes | WriteFailed int bytes

record server =
  fds :: "pollfd list"
  streams :: "int option list"
  server_log :: "action list"

datatype 'e accept_result = AcceptOk int | AcceptWouldBlock | AcceptErr 'e
datatype 'e read_result = ReadOk bytes | ReadWouldBlock | ReadErr 'e

text \<open>
  The answers of one turn: \<open>poll\<close> fails or sets the returned events by index; \<open>accept\<close>; whether making the new
  stream non-blocking works; what the stream at an index reads, and whether it takes all that is written or fails after some bytes.
\<close>

record 'e turn =
  poll_result :: "'e + (nat \<Rightarrow> u16)"
  accept_answer :: "'e accept_result"
  nonblocking_answer :: "'e + unit"
  read_answer :: "nat \<Rightarrow> 'e read_result"
  write_answer :: "nat \<Rightarrow> nat option"

definition server_new :: "int \<Rightarrow> server" where
  "server_new listener = \<lparr>fds = [\<lparr>pfd = listener, events = POLLIN, revents = 0\<rparr>], streams = [None], server_log = []\<rparr>"

definition logged :: "action list \<Rightarrow> server \<Rightarrow> server" where
  "logged as s = s\<lparr>server_log := server_log s @ as\<rparr>"

text \<open>\<open>fds[i].fd = -1; streams[i] = None\<close>\<close>

definition drop_client :: "nat \<Rightarrow> server \<Rightarrow> server run" where
  [poll_ops]: "drop_client i s =
     do {
       e \<leftarrow> idx (fds s) i;
       es \<leftarrow> idx_set (fds s) i (e\<lparr>pfd := - 1\<rparr>);
       old \<leftarrow> idx (streams s) i;
       sts \<leftarrow> idx_set (streams s) i None;
       Some (logged (case old of None \<Rightarrow> [] | Some f \<Rightarrow> [Closed f]) (s\<lparr>fds := es, streams := sts\<rparr>)) }"

text \<open>The search for a free entry, from index \<open>i\<close>.\<close>

fun find_slot :: "nat \<Rightarrow> pollfd list \<Rightarrow> nat option" where
  "find_slot i [] = None"
| "find_slot i (e # es) = (if pfd e = - 1 then Some i else find_slot (Suc i) es)"

definition add_client :: "int \<Rightarrow> server \<Rightarrow> server run" where
  [poll_ops]: "add_client f s =
     (case find_slot 1 (tl (fds s)) of
        Some i \<Rightarrow>
          do {
            es \<leftarrow> idx_set (fds s) i \<lparr>pfd = f, events = POLLIN, revents = 0\<rparr>;
            sts \<leftarrow> idx_set (streams s) i (Some f);
            Some (s\<lparr>fds := es, streams := sts\<rparr>) }
      | None \<Rightarrow>
          if length (fds s) < MAX_CLIENTS
          then Some (s\<lparr>fds := fds s @ [\<lparr>pfd = f, events = POLLIN, revents = 0\<rparr>], streams := streams s @ [Some f]\<rparr>)
          else Some (logged [Closed f] s))"

definition clear_revents :: "nat \<Rightarrow> server \<Rightarrow> server run" where
  [poll_ops]: "clear_revents i s =
     do { e \<leftarrow> idx (fds s) i; es \<leftarrow> idx_set (fds s) i (e\<lparr>revents := 0\<rparr>); Some (s\<lparr>fds := es\<rparr>) }"

text \<open>New connections. An error in making the stream non-blocking ends the server.\<close>

definition check_listening :: "'e turn \<Rightarrow> server \<Rightarrow> (('e + unit) \<times> server) run" where
  [poll_ops]: "check_listening t s =
     do {
       e \<leftarrow> idx (fds s) 0;
       if revents e AND POLLIN \<noteq> 0 then
         (case accept_answer t of
            AcceptOk f \<Rightarrow>
              (case nonblocking_answer t of
                 Inl err \<Rightarrow> Some (Inl err, logged [Accepted f, Closed f] s)
               | Inr _ \<Rightarrow>
                   do { s \<leftarrow> add_client f (logged [Accepted f] s); s \<leftarrow> clear_revents 0 s; Some (Inr (), s) })
          | _ \<Rightarrow> do { s \<leftarrow> clear_revents 0 s; Some (Inr (), s) })
       else Some (Inr (), s) }"

definition read_client :: "'e turn \<Rightarrow> nat \<Rightarrow> int \<Rightarrow> server \<Rightarrow> server run" where
  [poll_ops]: "read_client t i f s =
     (case read_answer t i of
        ReadOk [] \<Rightarrow> drop_client i s
      | ReadOk d \<Rightarrow>
          if length d > BUFFER_SIZE then None
          else (case write_answer t i of
                  None \<Rightarrow> Some (logged [ReadData f d, Wrote f d] s)
                | Some k \<Rightarrow> drop_client i (logged [ReadData f d, WriteFailed f (take k d)] s))
      | ReadWouldBlock \<Rightarrow> Some s
      | ReadErr _ \<Rightarrow> drop_client i s)"

definition check_client :: "'e turn \<Rightarrow> nat \<Rightarrow> server \<Rightarrow> server run" where
  [poll_ops]: "check_client t i s =
     do {
       e \<leftarrow> idx (fds s) i;
       if pfd e = - 1 then Some s
       else do {
         st \<leftarrow> idx (streams s) i;
         s \<leftarrow> (case (revents e AND POLLIN \<noteq> 0, st) of
                 (True, Some f) \<Rightarrow> read_client t i f s
               | _ \<Rightarrow> Some s);
         s \<leftarrow> (if revents e AND POLLBAD \<noteq> 0 then drop_client i s else Some s);
         clear_revents i s } }"

fun check_clients :: "'e turn \<Rightarrow> nat list \<Rightarrow> server \<Rightarrow> server run" where
  "check_clients t [] s = Some s"
| "check_clients t (i # is) s = do { s \<leftarrow> check_client t i s; check_clients t is s }"

text \<open>Trailing inactive entries are removed.\<close>

function compact :: "server \<Rightarrow> server" where
  "compact s =
     (if length (fds s) > 1 \<and> pfd (last (fds s)) = - 1
      then compact (s\<lparr>fds := butlast (fds s), streams := butlast (streams s)\<rparr>) else s)"
  by pat_completeness auto
termination by (relation "measure (\<lambda>s. length (fds s))") auto

declare compact.simps [simp del]

definition set_revents :: "(nat \<Rightarrow> u16) \<Rightarrow> server \<Rightarrow> server" where
  "set_revents r s = s\<lparr>fds := map (\<lambda>(i, e). e\<lparr>revents := r i\<rparr>) (zip [0..<length (fds s)] (fds s))\<rparr>"

fun somes :: "'a option list \<Rightarrow> 'a list" where
  "somes [] = []" | "somes (None # xs) = somes xs" | "somes (Some x # xs) = x # somes xs"

text \<open>When the server returns, its streams go out of scope and are closed.\<close>

definition close_all :: "server \<Rightarrow> server" where
  "close_all s = logged (map Closed (somes (streams s))) (s\<lparr>fds := [], streams := []\<rparr>)"

definition serve_turn :: "'e turn \<Rightarrow> server \<Rightarrow> (('e + unit) \<times> server) run" where
  "serve_turn t s =
     (case poll_result t of
        Inl err \<Rightarrow> Some (Inl err, close_all s)
      | Inr r \<Rightarrow>
          do {
            (res, s) \<leftarrow> check_listening t (set_revents r s);
            case res of
              Inl err \<Rightarrow> Some (Inl err, close_all s)
            | Inr _ \<Rightarrow>
                do { s \<leftarrow> check_clients t [1..<length (fds s)] s; Some (Inr (), compact s) } })"

fun serve :: "'e turn list \<Rightarrow> server \<Rightarrow> (('e + unit) \<times> server) run" where
  "serve [] s = Some (Inr (), s)"
| "serve (t # ts) s =
     do { (res, s) \<leftarrow> serve_turn t s;
          case res of Inl err \<Rightarrow> Some (Inl err, s) | Inr _ \<Rightarrow> serve ts s }"

subsection \<open>Reading the log\<close>

text \<open>The descriptors that are open after the log, from a set that is open before.\<close>

fun opens :: "int set \<Rightarrow> action list \<Rightarrow> int set" where
  "opens F [] = F"
| "opens F (Accepted f # l) = opens (insert f F) l"
| "opens F (Closed f # l) = opens (F - {f}) l"
| "opens F (_ # l) = opens F l"

text \<open>What the operating system promises: a new connection has a descriptor that is not in use.\<close>

fun fresh :: "int set \<Rightarrow> action list \<Rightarrow> bool" where
  "fresh F [] \<longleftrightarrow> True"
| "fresh F (Accepted f # l) \<longleftrightarrow> f \<notin> F \<and> fresh (insert f F) l"
| "fresh F (Closed f # l) \<longleftrightarrow> fresh (F - {f}) l"
| "fresh F (_ # l) \<longleftrightarrow> fresh F l"

text \<open>What the server has to keep: it reads, writes and closes only descriptors that are open.\<close>

fun safe :: "int set \<Rightarrow> action list \<Rightarrow> bool" where
  "safe F [] \<longleftrightarrow> True"
| "safe F (Accepted f # l) \<longleftrightarrow> safe (insert f F) l"
| "safe F (Closed f # l) \<longleftrightarrow> f \<in> F \<and> safe (F - {f}) l"
| "safe F (ReadData f _ # l) \<longleftrightarrow> f \<in> F \<and> safe F l"
| "safe F (Wrote f _ # l) \<longleftrightarrow> f \<in> F \<and> safe F l"
| "safe F (WriteFailed f _ # l) \<longleftrightarrow> f \<in> F \<and> safe F l"

text \<open>
  Whatever is read is written back to the same descriptor next; when the write fails, what was written is
  a prefix of it and the descriptor is closed at once. Nothing else is written.
\<close>

fun echoes :: "action list \<Rightarrow> bool" where
  "echoes [] \<longleftrightarrow> True"
| "echoes (ReadData f d # Wrote g e # l) \<longleftrightarrow> g = f \<and> e = d \<and> echoes l"
| "echoes (ReadData f d # WriteFailed g e # Closed h # l) \<longleftrightarrow> g = f \<and> h = f \<and> e = take (length e) d \<and> echoes l"
| "echoes (Accepted _ # l) \<longleftrightarrow> echoes l"
| "echoes (Closed _ # l) \<longleftrightarrow> echoes l"
| "echoes (_ # l) \<longleftrightarrow> False"

lemma opens_append: "opens F (a @ b) = opens (opens F a) b"
  by (induction F a rule: opens.induct) auto

lemma fresh_append: "fresh F (a @ b) \<longleftrightarrow> fresh F a \<and> fresh (opens F a) b"
  by (induction F a rule: fresh.induct) auto

lemma safe_append: "safe F (a @ b) \<longleftrightarrow> safe F a \<and> safe (opens F a) b"
  by (induction F a rule: safe.induct) auto

lemma echoes_append: "echoes a \<Longrightarrow> echoes (a @ b) \<longleftrightarrow> echoes b"
  by (induction a rule: echoes.induct) auto

lemmas log_append = opens_append fresh_append safe_append echoes_append

subsection \<open>The table of clients\<close>

definition owns :: "server \<Rightarrow> nat \<Rightarrow> int \<Rightarrow> bool" where
  "owns s i f \<longleftrightarrow> i < length (streams s) \<and> streams s ! i = Some f"

definition live :: "server \<Rightarrow> int set" where
  "live s = {f. \<exists>i. owns s i f}"

definition unique :: "server \<Rightarrow> bool" where
  "unique s \<longleftrightarrow> (\<forall>i j f. owns s i f \<longrightarrow> owns s j f \<longrightarrow> i = j)"

fun raw_fd :: "int option \<Rightarrow> int" where
  "raw_fd None = - 1" | "raw_fd (Some f) = f"

definition table_ok :: "server \<Rightarrow> bool" where
  "table_ok s \<longleftrightarrow> length (streams s) = length (fds s) \<and> 1 \<le> length (fds s) \<and> length (fds s) \<le> MAX_CLIENTS
     \<and> streams s ! 0 = None
     \<and> (\<forall>i. 1 \<le> i \<and> i < length (fds s) \<longrightarrow> pfd (fds s ! i) = raw_fd (streams s ! i))
     \<and> (\<forall>i f. owns s i f \<longrightarrow> 0 \<le> f)"

text \<open>
  The invariant: the tables agree and, as long as the operating system keeps its promise, the entries are
  exactly the open connections, each once, and the log is safe; it always echoes.
\<close>

definition inv :: "server \<Rightarrow> bool" where
  "inv s \<longleftrightarrow> table_ok s \<and> echoes (server_log s)
     \<and> (fresh {} (server_log s) \<longrightarrow>
          safe {} (server_log s) \<and> opens {} (server_log s) = live s \<and> unique s)"

lemma table_ok_entry:
  "table_ok s \<Longrightarrow> i < length (fds s) \<Longrightarrow> streams s ! i = Some f \<Longrightarrow> 1 \<le> i \<and> pfd (fds s ! i) = f \<and> 0 \<le> f"
  by (cases i) (auto simp: table_ok_def owns_def)

lemma server_fields [simp]:
  "fds (logged l s) = fds s" "streams (logged l s) = streams s" "server_log (logged l s) = server_log s @ l"
  "owns (logged l s) = owns s" "live (logged l s) = live s" "unique (logged l s) = unique s"
  "table_ok (logged l s) = table_ok s"
  by (auto simp: logged_def owns_def live_def unique_def table_ok_def fun_eq_iff)

lemma owns_fds [simp]:
  "owns (s\<lparr>fds := es\<rparr>) = owns s" "live (s\<lparr>fds := es\<rparr>) = live s" "unique (s\<lparr>fds := es\<rparr>) = unique s"
  by (auto simp: owns_def live_def unique_def fun_eq_iff)

text \<open>Changing events only keeps everything.\<close>

lemma inv_same_pfd:
  assumes "inv s" "map pfd es = map pfd (fds s)"
  shows "inv (s\<lparr>fds := es\<rparr>)"
proof -
  have len: "length es = length (fds s)" using assms(2) map_eq_imp_length_eq by blast
  have "pfd (es ! i) = pfd (fds s ! i)" if "i < length (fds s)" for i
    using assms(2) that len by (metis nth_map)
  then show ?thesis using assms(1) len by (auto simp: inv_def table_ok_def)
qed

lemma inv_clear_revents:
  assumes "inv s" "i < length (fds s)"
  shows "\<exists>s'. clear_revents i s = Some s' \<and> inv s' \<and> length (fds s') = length (fds s)"
proof -
  have "map pfd ((fds s)[i := (fds s ! i)\<lparr>revents := 0\<rparr>]) = map pfd (fds s)"
    using assms(2) by (simp add: map_update list_update_same_conv)
  then show ?thesis using assms inv_same_pfd by (simp add: clear_revents_def idx_def idx_set_def)
qed

lemma inv_set_revents: "inv s \<Longrightarrow> inv (set_revents r s)"
  unfolding set_revents_def by (rule inv_same_pfd) (auto simp: comp_def split_beta map_snd_zip simp flip: map_map
    intro!: nth_equalityI)

lemma length_set_revents [simp]: "length (fds (set_revents r s)) = length (fds s)"
  by (simp add: set_revents_def)

subsection \<open>Every step keeps the invariant\<close>

definition freed :: "nat \<Rightarrow> server \<Rightarrow> server" where
  "freed i s = s\<lparr>fds := (fds s)[i := (fds s ! i)\<lparr>pfd := - 1\<rparr>], streams := (streams s)[i := None]\<rparr>"

lemma owns_freed: "owns (freed i s) j f \<longleftrightarrow> owns s j f \<and> j \<noteq> i"
  by (cases "j = i") (auto simp: owns_def freed_def)

lemma owns_functional: "owns s i f \<Longrightarrow> owns s i g \<Longrightarrow> f = g"
  by (simp add: owns_def)

lemma table_ok_freed:
  assumes "table_ok s" "1 \<le> i"
  shows "table_ok (freed i s)"
proof -
  have "pfd (fds (freed i s) ! j) = raw_fd (streams (freed i s) ! j)" if "1 \<le> j" "j < length (fds s)" for j
    using assms that by (cases "j = i") (auto simp: freed_def table_ok_def)
  then show ?thesis using assms unfolding table_ok_def owns_freed by (auto simp: freed_def)
qed

lemma logged_Nil [simp]: "logged [] s = s"
  by (simp add: logged_def)

lemma live_freed: "unique s \<Longrightarrow> owns s i f \<Longrightarrow> live (freed i s) = live s - {f}"
  using owns_functional by (fastforce simp: live_def owns_freed unique_def)

lemma unique_freed: "unique s \<Longrightarrow> unique (freed i s)"
  by (auto simp: unique_def owns_freed)

lemma freed_fields [simp]:
  "length (fds (freed i s)) = length (fds s)" "server_log (freed i s) = server_log s"
  by (simp_all add: freed_def)

text \<open>A connection that was just accepted is entered once, in a free place or at the end, or is closed.\<close>

definition placed :: "nat \<Rightarrow> int \<Rightarrow> server \<Rightarrow> server" where
  "placed i f s = s\<lparr>fds := (fds s)[i := \<lparr>pfd = f, events = POLLIN, revents = 0\<rparr>], streams := (streams s)[i := Some f]\<rparr>"

definition appended :: "int \<Rightarrow> server \<Rightarrow> server" where
  "appended f s = s\<lparr>fds := fds s @ [\<lparr>pfd = f, events = POLLIN, revents = 0\<rparr>], streams := streams s @ [Some f]\<rparr>"

lemma owns_placed:
  "i < length (streams s) \<Longrightarrow> owns (placed i f s) j g \<longleftrightarrow> j = i \<and> g = f \<or> j \<noteq> i \<and> owns s j g"
  by (auto simp: owns_def placed_def nth_list_update)

lemma owns_appended: "owns (appended f s) j g \<longleftrightarrow> j = length (streams s) \<and> g = f \<or> owns s j g"
  by (auto simp: owns_def appended_def nth_append split: if_splits)

lemma table_ok_placed:
  assumes "table_ok s" "1 \<le> i" "i < length (fds s)" "0 \<le> f"
  shows "table_ok (placed i f s)"
proof -
  have "i < length (streams s)" using assms by (simp add: table_ok_def)
  then show ?thesis using assms unfolding table_ok_def owns_placed [OF \<open>i < length (streams s)\<close>]
    by (auto simp: placed_def nth_list_update)
qed

lemma table_ok_appended:
  "table_ok s \<Longrightarrow> length (fds s) < MAX_CLIENTS \<Longrightarrow> 0 \<le> f \<Longrightarrow> table_ok (appended f s)"
  unfolding table_ok_def owns_appended by (auto simp: appended_def nth_append not_less less_Suc_eq)

lemma inv_insert:
  assumes "inv s" "table_ok s'" "server_log s' = server_log s @ [Accepted f]"
    and own: "\<And>j g. owns s' j g \<longleftrightarrow> j = i \<and> g = f \<or> j \<noteq> i \<and> owns s j g" and none: "\<And>g. \<not> owns s i g"
  shows "inv s'"
proof -
  have live: "live s' = insert f (live s)" using none by (auto simp: live_def own)
  have "unique s'" if "unique s" "f \<notin> live s"
    using that unfolding unique_def own by (auto simp: live_def)
  then show ?thesis using assms(1-3) live by (auto simp: inv_def log_append)
qed

lemma find_slot_Some:
  "find_slot k es = Some i \<Longrightarrow> k \<le> i \<and> i < k + length es \<and> pfd (es ! (i - k)) = - 1"
proof (induction es arbitrary: k)
  case (Cons e es)
  show ?case
  proof (cases "pfd e = - 1")
    case False
    then have "Suc k \<le> i" "i < Suc k + length es" "pfd (es ! (i - Suc k)) = - 1"
      using Cons.IH [of "Suc k"] Cons.prems by auto
    then show ?thesis by (simp add: nth_Cons' )
  qed (use Cons.prems in auto)
qed simp

lemma inv_add_client:
  assumes "inv s" "0 \<le> f"
  shows "\<exists>s'. add_client f (logged [Accepted f] s) = Some s' \<and> inv s'"
proof (cases "find_slot 1 (tl (fds s))")
  case (Some i)
  have len: "length (streams s) = length (fds s)" "1 \<le> length (fds s)" using assms by (simp_all add: inv_def table_ok_def)
  have i: "1 \<le> i" "i < length (fds s)" "pfd (fds s ! i) = - 1"
    using find_slot_Some [OF Some] len(2) by (auto simp: nth_tl)
  then have none: "\<not> owns s i g" for g
    using assms(1) table_ok_entry [of s i g] len by (auto simp: owns_def inv_def)
  have "inv (placed i f (logged [Accepted f] s))"
    using inv_insert [OF assms(1), of "placed i f (logged [Accepted f] s)" f i] assms i len none
      table_ok_placed [of "logged [Accepted f] s" i f]
    by (simp add: inv_def owns_placed) (simp add: placed_def)
  then show ?thesis using Some i len by (simp add: add_client_def idx_set_def placed_def)
next
  case None
  have len: "length (streams s) = length (fds s)" using assms by (simp add: inv_def table_ok_def)
  have closed: "inv (logged [Closed f] (logged [Accepted f] s))"
    using assms(1) by (auto simp: inv_def log_append)
  have "inv (appended f (logged [Accepted f] s))" if "length (fds s) < MAX_CLIENTS"
  proof (rule inv_insert [OF assms(1), where i = "length (streams s)" and f = f])
    show "table_ok (appended f (logged [Accepted f] s))"
      using that assms table_ok_appended by (simp add: inv_def)
    show "server_log (appended f (logged [Accepted f] s)) = server_log s @ [Accepted f]"
      by (simp add: appended_def)
    show "owns (appended f (logged [Accepted f] s)) j g \<longleftrightarrow>
        j = length (streams s) \<and> g = f \<or> j \<noteq> length (streams s) \<and> owns s j g" for j g
      by (simp add: owns_appended) (auto simp: owns_def)
  qed (simp add: owns_def)
  then show ?thesis using None closed by (simp add: add_client_def appended_def)
qed

text \<open>What the operating system promises of one turn: descriptors are not negative, a read fits its buffer.\<close>

definition turn_ok :: "'e turn \<Rightarrow> bool" where
  "turn_ok t \<longleftrightarrow> (case accept_answer t of AcceptOk f \<Rightarrow> 0 \<le> f | _ \<Rightarrow> True)
     \<and> (\<forall>i. case read_answer t i of ReadOk d \<Rightarrow> length d \<le> BUFFER_SIZE | _ \<Rightarrow> True)"

subsection \<open>What has to happen to a client\<close>

text \<open>
  What is expected of one turn for a client, from the events \<open>ev\<close> that were returned for it: what it
  sent is read and answered, and the connection ends on a hang-up or an error, when the client has
  closed or cannot be read, and when the answer cannot be written.
\<close>

definition received :: "'e turn \<Rightarrow> u16 \<Rightarrow> nat \<Rightarrow> bytes" where
  "received t ev i =
     (if ev AND POLLIN \<noteq> 0 then (case read_answer t i of ReadOk d \<Rightarrow> d | _ \<Rightarrow> []) else [])"

definition exchange :: "'e turn \<Rightarrow> u16 \<Rightarrow> nat \<Rightarrow> int \<Rightarrow> action list" where
  "exchange t ev i f =
     (let d = received t ev i in
      if d = [] then []
      else [ReadData f d, case write_answer t i of None \<Rightarrow> Wrote f d | Some k \<Rightarrow> WriteFailed f (take k d)])"

definition ended :: "'e turn \<Rightarrow> u16 \<Rightarrow> nat \<Rightarrow> bool" where
  "ended t ev i \<longleftrightarrow> ev AND POLLBAD \<noteq> 0
     \<or> ev AND POLLIN \<noteq> 0
       \<and> (case read_answer t i of ReadOk d \<Rightarrow> d = [] \<or> write_answer t i \<noteq> None
            | ReadWouldBlock \<Rightarrow> False | ReadErr _ \<Rightarrow> True)"

definition client_actions :: "'e turn \<Rightarrow> u16 \<Rightarrow> nat \<Rightarrow> int \<Rightarrow> action list" where
  "client_actions t ev i f = exchange t ev i f @ (if ended t ev i then [Closed f] else [])"

definition cleared :: "nat \<Rightarrow> server \<Rightarrow> server" where
  "cleared i s = s\<lparr>fds := (fds s)[i := (fds s ! i)\<lparr>revents := 0\<rparr>]\<rparr>"

lemma logged_logged [simp]: "logged b (logged a s) = logged (a @ b) s"
  by (simp add: logged_def)

lemma freed_logged [simp]: "freed i (logged l s) = logged l (freed i s)"
  by (simp add: logged_def freed_def)

lemma freed_freed [simp]: "freed i (freed i s) = freed i s"
  by (cases "i < length (fds s)") (simp_all add: freed_def list_update_beyond)

lemma drop_client_freed:
  "i < length (fds s) \<Longrightarrow> i < length (streams s) \<Longrightarrow>
     drop_client i s = Some (logged (case streams s ! i of None \<Rightarrow> [] | Some f \<Rightarrow> [Closed f]) (freed i s))"
  by (simp add: drop_client_def idx_def idx_set_def freed_def)

lemma read_client_effect:
  assumes "i < length (fds s)" "owns s i f" "turn_ok t" "ev AND POLLIN \<noteq> 0"
  shows "read_client t i f s =
    Some (if ended t (ev AND POLLIN) i then logged (exchange t ev i f @ [Closed f]) (freed i s)
          else logged (exchange t ev i f) s)"
proof -
  have st: "i < length (streams s)" "streams s ! i = Some f" using assms(2) by (simp_all add: owns_def)
  have bad: "(ev AND POLLIN) AND POLLBAD = 0"
    by (simp add: POLLIN_def POLLBAD_def and.assoc)
  have pin: "(ev AND POLLIN) AND POLLIN \<noteq> 0" using assms(4) by (simp add: and.assoc)
  show ?thesis
  proof (cases "read_answer t i")
    case (ReadOk d)
    moreover have "case read_answer t i of ReadOk d \<Rightarrow> length d \<le> BUFFER_SIZE | _ \<Rightarrow> True"
      using assms(3) unfolding turn_ok_def by blast
    ultimately show ?thesis using assms(1,4) st bad pin
      by (cases d; cases "write_answer t i")
        (simp_all add: read_client_def drop_client_freed exchange_def received_def ended_def Let_def)
  qed (use assms(1,4) st bad pin in
      \<open>simp_all add: read_client_def drop_client_freed exchange_def received_def ended_def\<close>)
qed

text \<open>Every client gets exactly that, and its place is free afterwards exactly if it has ended.\<close>

lemma check_client_effect:
  assumes "table_ok s" "1 \<le> i" "i < length (fds s)" "turn_ok t"
  shows "check_client t i s =
    Some (case streams s ! i of
        None \<Rightarrow> s
      | Some f \<Rightarrow> let ev = revents (fds s ! i)
                  in cleared i (logged (client_actions t ev i f) (if ended t ev i then freed i s else s)))"
proof (cases "streams s ! i")
  case None
  then have "pfd (fds s ! i) = - 1" using assms by (simp add: table_ok_def)
  then show ?thesis using assms(3) None by (simp add: check_client_def idx_def)
next
  case (Some f)
  have len: "i < length (streams s)" using assms by (simp add: table_ok_def)
  have entry: "pfd (fds s ! i) \<noteq> - 1" using table_ok_entry [OF assms(1,3) Some] by auto
  have own: "owns s i f" using len Some by (simp add: owns_def)
  let ?ev = "revents (fds s ! i)"
  have clear: "clear_revents i r = Some (cleared i r)" if "i < length (fds r)" for r
    using that by (simp add: clear_revents_def cleared_def idx_def idx_set_def)
  have fst_read: "ended t ?ev i \<longleftrightarrow> ?ev AND POLLBAD \<noteq> 0 \<or> ended t (?ev AND POLLIN) i" if "?ev AND POLLIN \<noteq> 0"
  proof -
    have "(?ev AND POLLIN) AND POLLBAD = 0" by (simp add: POLLIN_def POLLBAD_def and.assoc)
    then show ?thesis using that by (auto simp: ended_def and.assoc)
  qed
  show ?thesis
  proof (cases "?ev AND POLLIN = 0")
    case True
    then show ?thesis using assms(3) len Some entry
      by (auto simp: check_client_def idx_def clear drop_client_freed client_actions_def exchange_def received_def
            ended_def Let_def)
  next
    case False
    have gone: "streams (freed i s) ! i = None" "i < length (streams (freed i s))" using len by (simp_all add: freed_def)
    show ?thesis
      using assms(3) len Some entry gone False fst_read [OF False] read_client_effect [OF assms(3) own assms(4) False]
      by (auto simp: check_client_def idx_def clear drop_client_freed client_actions_def Let_def)
  qed
qed

lemma inv_cleared:
  assumes "inv s"
  shows "inv (cleared i s)"
proof -
  have "map pfd ((fds s)[i := (fds s ! i)\<lparr>revents := 0\<rparr>]) = map pfd (fds s)"
    by (cases "i < length (fds s)") (simp_all add: map_update list_update_same_conv list_update_beyond)
  then show ?thesis using assms inv_same_pfd by (simp add: cleared_def)
qed

lemma exchange_quiet:
  "opens F (exchange t ev i f) = F" "fresh F (exchange t ev i f)" "f \<in> F \<Longrightarrow> safe F (exchange t ev i f)"
  by (auto simp: exchange_def Let_def split: option.splits)

lemma echoes_exchange:
  "echoes (exchange t ev i f @ [Closed f])" "\<not> ended t ev i \<Longrightarrow> echoes (exchange t ev i f)"
  by (auto simp: exchange_def ended_def received_def Let_def min_def split: option.splits read_result.splits if_splits)

lemma inv_client_actions:
  assumes "inv s" "owns s i f" "1 \<le> i"
  shows "inv (logged (client_actions t ev i f) (if ended t ev i then freed i s else s))"
proof -
  have f: "f \<in> live s" using assms(2) by (auto simp: live_def)
  have table: "table_ok (freed i s)" using assms by (simp add: inv_def table_ok_freed)
  show ?thesis
  proof (cases "ended t ev i")
    case True
    then show ?thesis using assms(1,2) f table echoes_exchange(1) [of t ev i f] exchange_quiet [where t = t and ev = ev and i = i and f = f]
      by (auto simp: inv_def client_actions_def log_append live_freed unique_freed)
  next
    case False
    then show ?thesis using assms(1) f echoes_exchange(2) [of t ev i f] exchange_quiet [where t = t and ev = ev and i = i and f = f]
      by (auto simp: inv_def client_actions_def log_append)
  qed
qed

lemma inv_check_client:
  assumes "inv s" "1 \<le> i" "i < length (fds s)" "turn_ok t"
  shows "\<exists>s'. check_client t i s = Some s' \<and> inv s' \<and> length (fds s') = length (fds s)"
proof (cases "streams s ! i")
  case None
  then show ?thesis using assms check_client_effect [of s i t] by (simp add: inv_def)
next
  case (Some f)
  then have own: "owns s i f" using assms by (simp add: owns_def inv_def table_ok_def)
  have "check_client t i s = Some (cleared i (logged (client_actions t (revents (fds s ! i)) i f)
      (if ended t (revents (fds s ! i)) i then freed i s else s)))"
    using Some assms check_client_effect [of s i t] by (simp add: inv_def Let_def)
  moreover have "length (fds (cleared i (logged l (if b then freed i s else s)))) = length (fds s)" for l b
    by (simp add: cleared_def)
  ultimately show ?thesis using inv_cleared [OF inv_client_actions [OF assms(1) own assms(2)]] by blast
qed

lemma inv_check_clients:
  "inv s \<Longrightarrow> turn_ok t \<Longrightarrow> \<forall>i \<in> set is. 1 \<le> i \<and> i < length (fds s) \<Longrightarrow>
     \<exists>s'. check_clients t is s = Some s' \<and> inv s'"
proof (induction "is" arbitrary: s)
  case (Cons i "is")
  then obtain s1 where "check_client t i s = Some s1" "inv s1" "length (fds s1) = length (fds s)"
    using inv_check_client [of s i t] by auto
  then show ?case using Cons by simp
qed simp

lemma inv_shrink:
  assumes "inv s" "length (fds s) > 1" "pfd (last (fds s)) = - 1"
  shows "inv (s\<lparr>fds := butlast (fds s), streams := butlast (streams s)\<rparr>)"
proof -
  let ?n = "length (fds s) - 1"
  have table: "table_ok s" and len: "length (streams s) = length (fds s)"
    using assms(1) by (auto simp: inv_def table_ok_def)
  have "pfd (fds s ! ?n) = - 1" using assms by (metis last_conv_nth length_0_conv not_one_less_zero)
  then have none: "\<not> owns s ?n g" for g
    using table_ok_entry [OF table, of ?n g] assms(2) by (force simp: owns_def)
  have own: "owns (s\<lparr>fds := butlast (fds s), streams := butlast (streams s)\<rparr>) j g \<longleftrightarrow> owns s j g" for j g
  proof (cases "j = ?n")
    case True
    then show ?thesis using none [of g] len by (simp add: owns_def)
  next
    case False
    then have "j < length (streams s) - 1 \<longleftrightarrow> j < length (streams s)" using len by auto
    then show ?thesis by (auto simp: owns_def nth_butlast)
  qed
  have "table_ok (s\<lparr>fds := butlast (fds s), streams := butlast (streams s)\<rparr>)"
    using table assms(2) unfolding table_ok_def own by (auto simp: nth_butlast)
  moreover have "live (s\<lparr>fds := butlast (fds s), streams := butlast (streams s)\<rparr>) = live s"
    "unique (s\<lparr>fds := butlast (fds s), streams := butlast (streams s)\<rparr>) = unique s"
    by (simp_all only: live_def unique_def own)
  ultimately show ?thesis using assms(1) by (simp add: inv_def)
qed

lemma inv_compact:
  "inv s \<Longrightarrow> inv (compact s) \<and> (length (fds (compact s)) > 1 \<longrightarrow> pfd (last (fds (compact s))) \<noteq> - 1)"
proof (induction s rule: compact.induct)
  case (1 s)
  show ?case
  proof (cases "length (fds s) > 1 \<and> pfd (last (fds s)) = - 1")
    case True
    then show ?thesis using 1 inv_shrink [of s] compact.simps [of s] by simp
  next
    case False
    then show ?thesis using 1(2) compact.simps [of s] by auto
  qed
qed

lemma inv_check_listening:
  assumes "inv s" "turn_ok t"
  shows "\<exists>res s'. check_listening t s = Some (res, s') \<and> inv s'"
proof -
  have len: "0 < length (fds s)" using assms(1) by (simp add: inv_def table_ok_def Suc_le_eq)
  have clear: "\<exists>s'. clear_revents 0 r = Some s' \<and> inv s'" if "inv r" for r
    using inv_clear_revents [OF that, of 0] that by (auto simp: inv_def table_ok_def Suc_le_eq)
  show ?thesis
  proof (cases "revents (fds s ! 0) AND POLLIN \<noteq> 0")
    case True
    show ?thesis
    proof (cases "accept_answer t")
      case (AcceptOk f)
      then have f: "0 \<le> f" using assms(2) by (simp add: turn_ok_def)
      obtain s1 where s1: "add_client f (logged [Accepted f] s) = Some s1" "inv s1"
        using inv_add_client [OF assms(1) f] by blast
      have "inv (logged [Accepted f, Closed f] s)" using assms(1) by (auto simp: inv_def log_append)
      then show ?thesis using True AcceptOk s1 clear [OF s1(2)] len
        by (cases "nonblocking_answer t") (auto simp: check_listening_def idx_def)
    qed (use True clear [OF assms(1)] len in \<open>auto simp: check_listening_def idx_def\<close>)
  next
    case False
    then show ?thesis using assms(1) len by (simp add: check_listening_def idx_def)
  qed
qed

subsection \<open>The end of the server\<close>

lemma closing:
  "opens F (map Closed L) = F - set L" "safe F (map Closed L) \<longleftrightarrow> distinct L \<and> set L \<subseteq> F" "fresh F (map Closed L)"
  "echoes (map Closed L)"
  by (induction L arbitrary: F) auto

lemma set_somes: "set (somes xs) = {f. Some f \<in> set xs}"
  by (induction xs rule: somes.induct) auto

lemma distinct_somes:
  "(\<And>i j f. i < length xs \<Longrightarrow> j < length xs \<Longrightarrow> xs ! i = Some f \<Longrightarrow> xs ! j = Some f \<Longrightarrow> i = j)
     \<Longrightarrow> distinct (somes xs)"
proof (induction xs)
  case (Cons x xs)
  have "distinct (somes xs)"
    using Cons.prems [of "Suc i" "Suc j" for i j] by (intro Cons.IH) auto
  moreover have "Some f \<notin> set xs" if "x = Some f" for f
    using Cons.prems [of 0 "Suc j" f for j] that by (auto simp: in_set_conv_nth)
  ultimately show ?case by (cases x) (auto simp: set_somes)
qed simp

lemma close_all_log:
  assumes "inv s"
  shows "echoes (server_log (close_all s)) \<and> live (close_all s) = {}
    \<and> (fresh {} (server_log (close_all s)) \<longrightarrow>
         safe {} (server_log (close_all s)) \<and> opens {} (server_log (close_all s)) = {})"
proof -
  let ?L = "somes (streams s)"
  have log: "server_log (close_all s) = server_log s @ map Closed ?L" by (simp add: close_all_def)
  have "live (close_all s) = {}" by (simp add: close_all_def live_def owns_def)
  moreover have "set ?L = live s" by (auto simp: set_somes live_def owns_def in_set_conv_nth)
  moreover have "distinct ?L" if "unique s"
    using that by (intro distinct_somes) (auto simp: unique_def owns_def)
  ultimately show ?thesis using assms by (auto simp: log log_append closing inv_def)
qed

subsection \<open>The server\<close>

definition server_result :: "'e + unit \<Rightarrow> server \<Rightarrow> bool" where
  "server_result res s \<longleftrightarrow> echoes (server_log s)
     \<and> (fresh {} (server_log s) \<longrightarrow> safe {} (server_log s) \<and> opens {} (server_log s) = live s)
     \<and> (case res of Inl _ \<Rightarrow> live s = {} | Inr _ \<Rightarrow> inv s)"

lemma serve_turn_result:
  assumes "inv s" "turn_ok t"
  shows "\<exists>res s'. serve_turn t s = Some (res, s') \<and> server_result res s'"
proof (cases "poll_result t")
  case (Inl e)
  then show ?thesis using close_all_log [OF assms(1)] by (simp add: serve_turn_def server_result_def)
next
  case (Inr r)
  obtain res s1 where s1: "check_listening t (set_revents r s) = Some (res, s1)" "inv s1"
    using inv_check_listening [OF inv_set_revents [OF assms(1)] assms(2)] by blast
  obtain s2 where s2: "check_clients t [1..<length (fds s1)] s1 = Some s2" "inv s2"
    using inv_check_clients [OF s1(2) assms(2)] by force
  show ?thesis
  proof (cases res)
    case (Inl e)
    then show ?thesis using Inr s1 close_all_log [OF s1(2)] by (simp add: serve_turn_def server_result_def)
  next
    case (Inr u)
    have "inv (compact s2)" using inv_compact [OF s2(2)] by simp
    then show ?thesis using \<open>poll_result t = Inr r\<close> Inr s1 s2
      by (simp add: serve_turn_def server_result_def inv_def)
  qed
qed

lemma serve_result:
  "inv s \<Longrightarrow> \<forall>t \<in> set ts. turn_ok t \<Longrightarrow> \<exists>res s'. serve ts s = Some (res, s') \<and> server_result res s'"
proof (induction ts arbitrary: s)
  case Nil
  then show ?case by (simp add: server_result_def inv_def)
next
  case (Cons t ts)
  then obtain res s1 where s1: "serve_turn t s = Some (res, s1)" "server_result res s1"
    using serve_turn_result [of s t] by auto
  then show ?case using Cons by (cases res) (auto simp: server_result_def)
qed

subsection \<open>What has to happen in a turn\<close>

definition admitted :: "'e turn \<Rightarrow> u16 \<Rightarrow> int option" where
  "admitted t ev = (if ev AND POLLIN \<noteq> 0 then (case accept_answer t of AcceptOk f \<Rightarrow> Some f | _ \<Rightarrow> None) else None)"

definition clients_actions :: "'e turn \<Rightarrow> (nat \<Rightarrow> u16) \<Rightarrow> int option list \<Rightarrow> action list" where
  "clients_actions t r sts =
     concat (map (\<lambda>i. case sts ! i of None \<Rightarrow> [] | Some f \<Rightarrow> client_actions t (r i) i f) [1..<length sts])"

text \<open>
  A turn that starts with the clients \<open>sts\<close>: all are closed when polling fails or a new
  connection cannot be made non-blocking; otherwise a new connection is admitted unless there are already 99, and every
  client that was there is served.
\<close>

definition turn_actions :: "'e turn \<Rightarrow> int option list \<Rightarrow> action list" where
  "turn_actions t sts =
     (case poll_result t of
        Inl _ \<Rightarrow> map Closed (somes sts)
      | Inr r \<Rightarrow>
          (case (admitted t (r 0), nonblocking_answer t) of
             (None, _) \<Rightarrow> clients_actions t r sts
           | (Some f, Inl _) \<Rightarrow> [Accepted f, Closed f] @ map Closed (somes sts)
           | (Some f, Inr _) \<Rightarrow>
               [Accepted f] @ (if length (somes sts) < MAX_CLIENTS - 1 then [] else [Closed f])
               @ clients_actions t r sts))"

definition entry_actions :: "'e turn \<Rightarrow> server \<Rightarrow> nat \<Rightarrow> action list" where
  "entry_actions t s i = (case streams s ! i of None \<Rightarrow> [] | Some f \<Rightarrow> client_actions t (revents (fds s ! i)) i f)"

lemma entry_actions_logged [simp]: "entry_actions t (logged l s) = entry_actions t s"
  by (simp add: entry_actions_def fun_eq_iff split: option.splits)

abbreviation all_entries :: "'e turn \<Rightarrow> server \<Rightarrow> action list" where
  "all_entries t s \<equiv> concat (map (entry_actions t s) [1..<length (fds s)])"

lemma check_client_entry:
  assumes "table_ok s" "1 \<le> i" "i < length (fds s)" "turn_ok t" "check_client t i s = Some s'"
  shows "server_log s' = server_log s @ entry_actions t s i"
    and "j \<noteq> i \<Longrightarrow> entry_actions t s' j = entry_actions t s j"
  using assms(5) check_client_effect [OF assms(1-4)]
  by (auto simp: entry_actions_def cleared_def freed_def Let_def split: option.splits if_splits)

lemma check_clients_log:
  "inv s \<Longrightarrow> turn_ok t \<Longrightarrow> distinct is \<Longrightarrow> \<forall>i \<in> set is. 1 \<le> i \<and> i < length (fds s) \<Longrightarrow>
     check_clients t is s = Some s' \<Longrightarrow> server_log s' = server_log s @ concat (map (entry_actions t s) is)"
proof (induction "is" arbitrary: s)
  case (Cons i "is")
  obtain s1 where s1: "check_client t i s = Some s1" "inv s1" "length (fds s1) = length (fds s)"
    using inv_check_client [of s i t] Cons.prems by auto
  have table: "table_ok s" using Cons.prems(1) by (simp add: inv_def)
  have "server_log s1 = server_log s @ entry_actions t s i"
    and "\<And>j. j \<noteq> i \<Longrightarrow> entry_actions t s1 j = entry_actions t s j"
    using check_client_entry [OF table _ _ Cons.prems(2) s1(1)] Cons.prems(4) by auto
  moreover have "concat (map (entry_actions t s1) is) = concat (map (entry_actions t s) is)"
    using Cons.prems(3) by (intro arg_cong [where f = concat] map_cong) (auto intro!: calculation(2))
  ultimately show ?case using Cons.IH [of s1] Cons.prems s1 by simp
qed simp

lemma client_actions_idle [simp]: "client_actions t 0 i f = []"
  by (simp add: client_actions_def exchange_def received_def ended_def Let_def)

lemma length_somes: "length (somes xs) \<le> length xs \<and> (length (somes xs) = length xs \<longleftrightarrow> None \<notin> set xs)"
  by (induction xs rule: somes.induct) auto

lemma find_slot_None: "find_slot k es = None \<longleftrightarrow> (\<forall>e \<in> set es. pfd e \<noteq> - 1)"
  by (induction es arbitrary: k) auto

text \<open>The table is full exactly if there are 99 clients.\<close>

lemma table_full:
  assumes "table_ok s"
  shows "find_slot 1 (tl (fds s)) = None \<and> \<not> length (fds s) < MAX_CLIENTS
    \<longleftrightarrow> \<not> length (somes (streams s)) < MAX_CLIENTS - 1"
proof -
  obtain sts where sts: "streams s = None # sts"
    using assms by (cases "streams s") (auto simp: table_ok_def)
  obtain e es where es: "fds s = e # es" using assms by (cases "fds s") (auto simp: table_ok_def)
  have len: "length sts = length es" "length es \<le> MAX_CLIENTS - 1"
    using assms sts es by (auto simp: table_ok_def)
  have "pfd (es ! i) = - 1 \<longleftrightarrow> sts ! i = None" if "i < length es" for i
  proof -
    have "pfd (es ! i) = raw_fd (sts ! i)" "\<And>f. sts ! i = Some f \<Longrightarrow> 0 \<le> f"
      using assms sts es that len(1) unfolding table_ok_def owns_def by (force dest: spec [of _ "Suc i"])+
    then show ?thesis by (cases "sts ! i") force+
  qed
  then have "(\<forall>e \<in> set es. pfd e \<noteq> - 1) \<longleftrightarrow> None \<notin> set sts"
    using len(1) by (auto simp: in_set_conv_nth all_set_conv_all_nth)
  then show ?thesis
    using length_somes [of sts] sts es len by (auto simp: find_slot_None MAX_CLIENTS_def)
qed

lemma add_client_log:
  assumes "table_ok s" "add_client f s = Some s'"
  shows "server_log s' = server_log s @ (if length (somes (streams s)) < MAX_CLIENTS - 1 then [] else [Closed f])"
  using table_full [OF assms(1)] assms(2)
  by (auto simp: add_client_def idx_set_def split: option.splits if_splits)

lemma add_client_entries:
  assumes "table_ok s" "add_client f s = Some s'"
  shows "all_entries t s' = all_entries t s"
proof (cases "find_slot 1 (tl (fds s))")
  case (Some i)
  have len: "length (streams s) = length (fds s)" "1 \<le> length (fds s)" using assms(1) by (simp_all add: table_ok_def)
  have i: "1 \<le> i" "i < length (fds s)" "pfd (fds s ! i) = - 1"
    using find_slot_Some [OF Some] len(2) by (auto simp: nth_tl)
  have none: "streams s ! i = None"
    using table_ok_entry [OF assms(1) i(2)] i(3) by (cases "streams s ! i") auto
  have "s' = placed i f s" using assms(2) Some i len by (simp add: add_client_def idx_set_def placed_def)
  then have "entry_actions t s' j = entry_actions t s j" for j
    using none i len by (cases "j = i") (simp_all add: entry_actions_def placed_def split: option.splits)
  moreover have "length (fds s') = length (fds s)" using \<open>s' = placed i f s\<close> by (simp add: placed_def)
  ultimately have "entry_actions t s' = entry_actions t s" "length (fds s') = length (fds s)" by auto
  then show ?thesis by simp
next
  case None
  have len: "length (streams s) = length (fds s)" "1 \<le> length (fds s)" using assms(1) by (simp_all add: table_ok_def)
  have "all_entries t (appended f s) = all_entries t s"
  proof -
    have "concat (map (entry_actions t (appended f s)) [1..<length (fds s)]) = all_entries t s"
      using len by (intro arg_cong [where f = concat] map_cong) (auto simp: entry_actions_def appended_def nth_append split: option.splits)
    moreover have "entry_actions t (appended f s) (length (fds s)) = []"
      using len by (simp add: entry_actions_def appended_def nth_append)
    moreover have "length (fds (appended f s)) = Suc (length (fds s))" by (simp add: appended_def)
    ultimately show ?thesis using len by simp
  qed
  moreover have "all_entries t (logged l s) = all_entries t s" for l by simp
  ultimately show ?thesis using assms(2) None
    by (auto simp: add_client_def appended_def split: if_splits)
qed

lemma clear_listener:
  assumes "table_ok s"
  shows "\<exists>s'. clear_revents 0 s = Some s' \<and> server_log s' = server_log s \<and> all_entries t s' = all_entries t s"
proof -
  have "0 < length (fds s)" using assms by (simp add: table_ok_def Suc_le_eq)
  then have "clear_revents 0 s = Some (cleared 0 s)"
    by (simp add: clear_revents_def cleared_def idx_def idx_set_def)
  moreover have "concat (map (entry_actions t (cleared 0 s)) [1..<length (fds s)]) = all_entries t s"
    by (intro arg_cong [where f = concat] map_cong) (auto simp: entry_actions_def cleared_def split: option.splits)
  moreover have "length (fds (cleared 0 s)) = length (fds s)" "server_log (cleared 0 s) = server_log s"
    by (simp_all add: cleared_def)
  ultimately show ?thesis by simp
qed

lemma all_entries_set_revents:
  assumes "table_ok s"
  shows "all_entries t (set_revents r s) = clients_actions t r (streams s)"
proof -
  have "length (streams s) = length (fds s)" using assms by (simp add: table_ok_def)
  then show ?thesis unfolding clients_actions_def
    by (intro arg_cong [where f = concat] map_cong) (auto simp: entry_actions_def set_revents_def split: option.splits)
qed

lemma check_listening_log:
  assumes "inv s" "turn_ok t" "check_listening t s = Some (res, s')"
  shows "case (admitted t (revents (fds s ! 0)), nonblocking_answer t) of
      (None, _) \<Rightarrow> res = Inr () \<and> server_log s' = server_log s \<and> all_entries t s' = all_entries t s
    | (Some f, Inl e) \<Rightarrow> res = Inl e \<and> server_log s' = server_log s @ [Accepted f, Closed f] \<and> streams s' = streams s
    | (Some f, Inr _) \<Rightarrow> res = Inr () \<and> all_entries t s' = all_entries t s
        \<and> server_log s' = server_log s @ [Accepted f]
            @ (if length (somes (streams s)) < MAX_CLIENTS - 1 then [] else [Closed f])"
proof -
  have table: "table_ok s" and len: "0 < length (fds s)" using assms(1) by (auto simp: inv_def table_ok_def Suc_le_eq)
  have quiet: "case clear_revents 0 s of None \<Rightarrow> False
      | Some s1 \<Rightarrow> server_log s1 = server_log s \<and> all_entries t s1 = all_entries t s"
    using clear_listener [OF table, of t] by auto
  show ?thesis
  proof (cases "admitted t (revents (fds s ! 0))")
    case None
    then show ?thesis using assms(3) quiet len
      by (auto simp: check_listening_def idx_def admitted_def split: if_splits accept_result.splits option.splits)
  next
    case (Some f)
    then have ev: "revents (fds s ! 0) AND POLLIN \<noteq> 0" "accept_answer t = AcceptOk f"
      by (auto simp: admitted_def split: if_splits accept_result.splits)
    then have f: "0 \<le> f" using assms(2) by (simp add: turn_ok_def)
    show ?thesis
    proof (cases "nonblocking_answer t")
      case (Inl e)
      then have "res = Inl e" "s' = logged [Accepted f, Closed f] s"
        using assms(3) Some ev len by (simp_all add: check_listening_def idx_def)
      then show ?thesis using Some Inl by simp
    next
      case (Inr u)
      obtain s1 where s1: "add_client f (logged [Accepted f] s) = Some s1" "inv s1"
        using inv_add_client [OF assms(1) f] by blast
      obtain s2 where s2: "clear_revents 0 s1 = Some s2" "server_log s2 = server_log s1" "all_entries t s2 = all_entries t s1"
        using clear_listener [of s1 t] s1(2) by (auto simp: inv_def)
      have "all_entries t s1 = all_entries t (logged [Accepted f] s)"
        using add_client_entries [OF _ s1(1)] table by simp
      moreover have "all_entries t (logged [Accepted f] s) = all_entries t s" by simp
      moreover have "server_log s1 = server_log s @ [Accepted f]
          @ (if length (somes (streams s)) < MAX_CLIENTS - 1 then [] else [Closed f])"
        using add_client_log [OF _ s1(1)] table by simp
      moreover have "res = Inr ()" "s' = s2"
        using assms(3) Inr ev len s1(1) s2(1) by (simp_all add: check_listening_def idx_def)
      ultimately show ?thesis using Some Inr s2(2,3) by (simp del: append.simps)
    qed
  qed
qed

lemma server_log_compact [simp]: "server_log (compact s) = server_log s"
proof (induction s rule: compact.induct)
  case (1 s)
  then show ?case using compact.simps [of s] by auto
qed

lemma serve_turn_log:
  assumes "inv s" "turn_ok t" "serve_turn t s = Some (res, s')"
  shows "server_log s' = server_log s @ turn_actions t (streams s)"
proof (cases "poll_result t")
  case (Inl e)
  then show ?thesis using assms(3) by (auto simp: serve_turn_def turn_actions_def close_all_def)
next
  case (Inr r)
  let ?s = "set_revents r s"
  have table: "table_ok s" using assms(1) by (simp add: inv_def)
  have "0 < length (fds s)" using table by (simp add: table_ok_def Suc_le_eq)
  then have ev: "revents (fds ?s ! 0) = r 0" by (simp add: set_revents_def)
  have same: "server_log ?s = server_log s" "streams ?s = streams s" by (simp_all add: set_revents_def)
  obtain q s1 where s1: "check_listening t ?s = Some (q, s1)" "inv s1"
    using inv_check_listening [OF inv_set_revents [OF assms(1)] assms(2)] by blast
  note eff = check_listening_log [OF inv_set_revents [OF assms(1)] assms(2) s1(1), unfolded ev same
      all_entries_set_revents [OF table]]
  obtain s2 where s2: "check_clients t [1..<length (fds s1)] s1 = Some s2" "inv s2"
    using inv_check_clients [OF s1(2) assms(2)] by force
  have "server_log s2 = server_log s1 @ all_entries t s1"
    by (rule check_clients_log [OF s1(2) assms(2) _ _ s2(1)]) auto
  then show ?thesis using assms(3) Inr s1(1) s2(1) eff
    by (auto simp: serve_turn_def turn_actions_def close_all_def split: option.splits sum.splits)
qed

lemma inv_server_new: "inv (server_new l)"
  by (auto simp: inv_def server_new_def table_ok_def owns_def live_def unique_def MAX_CLIENTS_def)

text \<open>
  C37. The server serves its clients exactly and keeps its tables and its descriptors. Whatever the
  operating system answers, turn after turn, no index is out of range and no turn panics. Each further turn does
  exactly what it should: a connection is admitted, and closed again if there are 99 clients; each client that
  was there has what it sent read and written back, or a prefix of it if the write fails; and
  a client is closed exactly on end of file, on an error in reading or writing and on a hang-up. As long as new connections
  get descriptors that are not in use, the server reads, writes and closes only open descriptors,
  and the entries of its table, at most a hundred with the listener, are exactly the open connections:
  none is leaked and none is closed twice. When the server returns with an error, all are closed.
\<close>

theorem poll_server_safe:
  assumes "\<forall>t \<in> set ts. turn_ok t"
  shows "\<exists>res s. serve ts (server_new l) = Some (res, s) \<and> echoes (server_log s)
    \<and> (fresh {} (server_log s) \<longrightarrow> safe {} (server_log s) \<and> opens {} (server_log s) = live s)
    \<and> (case res of
         Inl _ \<Rightarrow> live s = {}
       | Inr _ \<Rightarrow> table_ok s \<and> (\<forall>t. turn_ok t \<longrightarrow>
           (\<exists>res' s'. serve_turn t s = Some (res', s') \<and> server_log s' = server_log s @ turn_actions t (streams s))))"
proof -
  obtain res s where run: "serve ts (server_new l) = Some (res, s)" "server_result res s"
    using serve_result [OF inv_server_new assms] by blast
  have "\<exists>res' s'. serve_turn t s = Some (res', s') \<and> server_log s' = server_log s @ turn_actions t (streams s)"
    if "inv s" "turn_ok t" for t
    using serve_turn_result [OF that] serve_turn_log [OF that] by blast
  then show ?thesis using run by (cases res) (auto simp: server_result_def inv_def)
qed

text \<open>One client connects, sends two bytes and hangs up.\<close>

definition example_turns :: "unit turn list" where
  "example_turns =
     [\<lparr>poll_result = Inr (\<lambda>i. if i = 0 then POLLIN else 0), accept_answer = AcceptOk 5, nonblocking_answer = Inr (),
       read_answer = \<lambda>_. ReadWouldBlock, write_answer = \<lambda>_. None\<rparr>,
      \<lparr>poll_result = Inr (\<lambda>i. if i = 1 then 17 else 0), accept_answer = AcceptWouldBlock, nonblocking_answer = Inr (),
       read_answer = \<lambda>_. ReadOk [104, 105], write_answer = \<lambda>_. None\<rparr>]"

lemma example_log:
  "map_option (\<lambda>(res, s). server_log s) (serve example_turns (server_new 3)) =
     Some [Accepted 5, ReadData 5 [104, 105], Wrote 5 [104, 105], Closed 5]"
  by code_simp

text \<open>The next client sends two bytes; the answer fails after the first.\<close>

definition failing_turn :: "unit turn" where
  "failing_turn =
     \<lparr>poll_result = Inr (\<lambda>i. if i = 1 then POLLIN else 0), accept_answer = AcceptWouldBlock, nonblocking_answer = Inr (),
      read_answer = \<lambda>_. ReadOk [104, 105], write_answer = \<lambda>_. Some 1\<rparr>"

lemma example_streams:
  "map_option (\<lambda>(res, s). (res, streams s)) (serve (example_turns @ [hd example_turns]) (server_new 3)) =
     Some (Inr (), [None, Some 5])"
  by code_simp

lemma example_actions:
  "turn_actions failing_turn [None, Some 5] = [ReadData 5 [104, 105], WriteFailed 5 [104], Closed 5]"
  by code_simp

lemma poll_server_safe_witness:
  "\<exists>res s res' s'. serve (example_turns @ [hd example_turns]) (server_new 3) = Some (res, s)
     \<and> serve_turn failing_turn s = Some (res', s')
     \<and> server_log s' = server_log s @ [ReadData 5 [104, 105], WriteFailed 5 [104], Closed 5]"
proof -
  have ok: "\<forall>t \<in> set (example_turns @ [hd example_turns]). turn_ok t" "turn_ok failing_turn"
    by (simp_all add: example_turns_def failing_turn_def turn_ok_def BUFFER_SIZE_def)
  from poll_server_safe [OF ok(1), of 3] show ?thesis
    using example_streams ok(2) example_actions by fastforce
qed

end
