(* ===== verification/Tcp_Mio_Echo.thy ===== *)
theory Tcp_Mio_Echo
  imports Tcp_Poll_Server
begin

text \<open>
  \<^verbatim>\<open>TCPIP/src/06/tcp_server_with_mio_poll.rs\<close>: the echo server on top of the event library mio. The
  library and the operating system are a record of operations on a state of the outside world; a stream
  is its descriptor, a token its number. The loops read and write until the socket would
  block and are partial functions: \<open>None\<close> is a loop that never ends.
\<close>

datatype 'e write_result = WriteOk nat | WriteWouldBlock | WriteErr 'e

record ('w, 'e) mio_os =
  os_accept :: "'w \<Rightarrow> 'w \<times> 'e accept_result"
  os_register :: "int \<Rightarrow> nat \<Rightarrow> 'w \<Rightarrow> 'w \<times> ('e + unit)"
  os_deregister :: "int \<Rightarrow> 'w \<Rightarrow> 'w \<times> ('e + unit)"
  os_read :: "int \<Rightarrow> 'w \<Rightarrow> 'w \<times> 'e read_result"
  os_write :: "int \<Rightarrow> bytes \<Rightarrow> 'w \<Rightarrow> 'w \<times> 'e write_result"

record mio_event =
  ev_token :: nat
  is_readable :: bool
  is_write_closed :: bool
  is_read_closed :: bool

record mio_server =
  clients :: "nat \<rightharpoonup> int"
  unique_token :: nat

definition SERVER :: nat where
  "SERVER = 0"

definition mio_new :: mio_server where
  "mio_new = \<lparr>clients = Map.empty, unique_token = 1\<rparr>"

definition next_token :: "nat \<Rightarrow> (nat \<times> nat) run" where
  "next_token current = do { n \<leftarrow> uadd current 1; Some (current, n) }"

subsection \<open>Echoing\<close>

text \<open>The inner loop, on the \<open>n\<close> bytes just read. The answer is whether the handler goes on.\<close>

partial_function (option) write_rest ::
    "('w, 'e) mio_os \<Rightarrow> int \<Rightarrow> bytes \<Rightarrow> nat \<Rightarrow> 'w \<Rightarrow> ('w \<times> bool) option" where
  "write_rest os f d written w =
     (if written < length d then
        (case os_write os f (drop written d) w of
           (w', WriteOk k) \<Rightarrow> write_rest os f d (written + k) w'
         | (w', WriteWouldBlock) \<Rightarrow> Some (w', True)
         | (w', WriteErr e) \<Rightarrow> Some (w', False))
      else Some (w, True))"

text \<open>The outer loop. The answer is whether the client is done.\<close>

partial_function (option) read_all ::
    "('w, 'e) mio_os \<Rightarrow> int \<Rightarrow> 'w \<Rightarrow> ('w \<times> bool) option" where
  "read_all os f w =
     (case os_read os f w of
        (w', ReadOk d) \<Rightarrow>
          if d = [] then Some (w', True)
          else (case write_rest os f d 0 w' of
                  None \<Rightarrow> None
                | Some (w'', go) \<Rightarrow> if go then read_all os f w'' else Some (w'', True))
      | (w', ReadWouldBlock) \<Rightarrow> Some (w', False)
      | (w', ReadErr e) \<Rightarrow> Some (w', True))"

definition handle_client_event :: "('w, 'e) mio_os \<Rightarrow> int \<Rightarrow> mio_event \<Rightarrow> 'w \<Rightarrow> ('w \<times> bool) option" where
  "handle_client_event os f ev w =
     do {
       (w, done) \<leftarrow> (if is_readable ev then read_all os f w else Some (w, False));
       Some (w, done \<or> is_write_closed ev \<or> is_read_closed ev) }"

subsection \<open>The event loop\<close>

partial_function (option) accept_all ::
    "('w, 'e) mio_os \<Rightarrow> mio_server \<Rightarrow> 'w \<Rightarrow> (mio_server \<times> 'w \<times> ('e + unit)) option" where
  "accept_all os s w =
     (case os_accept os w of
        (w', AcceptOk f) \<Rightarrow>
          do {
            (token, n) \<leftarrow> next_token (unique_token s);
            case os_register os f token w' of
              (w'', Inl e) \<Rightarrow> Some (s\<lparr>unique_token := n\<rparr>, w'', Inl e)
            | (w'', Inr _) \<Rightarrow>
                accept_all os (s\<lparr>unique_token := n, clients := (clients s)(token \<mapsto> f)\<rparr>) w'' }
      | (w', _) \<Rightarrow> Some (s, w', Inr ()))"

definition on_event ::
    "('w, 'e) mio_os \<Rightarrow> mio_event \<Rightarrow> mio_server \<Rightarrow> 'w \<Rightarrow> (mio_server \<times> 'w \<times> ('e + unit)) option" where
  "on_event os ev s w =
     (if ev_token ev = SERVER then accept_all os s w
      else (case clients s (ev_token ev) of
              None \<Rightarrow> Some (s, w, Inr ())
            | Some f \<Rightarrow>
                do {
                  (w, done) \<leftarrow> handle_client_event os f ev w;
                  if done then
                    (case os_deregister os f w of
                       (w, Inl e) \<Rightarrow> Some (s\<lparr>clients := (clients s)(ev_token ev := None)\<rparr>, w, Inl e)
                     | (w, Inr _) \<Rightarrow> Some (s\<lparr>clients := (clients s)(ev_token ev := None)\<rparr>, w, Inr ()))
                  else Some (s, w, Inr ()) }))"

fun on_events ::
    "('w, 'e) mio_os \<Rightarrow> mio_event list \<Rightarrow> mio_server \<Rightarrow> 'w \<Rightarrow> (mio_server \<times> 'w \<times> ('e + unit)) option" where
  "on_events os [] s w = Some (s, w, Inr ())"
| "on_events os (ev # evs) s w =
     do { (s, w, r) \<leftarrow> on_event os ev s w;
          case r of Inl e \<Rightarrow> Some (s, w, Inl e) | Inr _ \<Rightarrow> on_events os evs s w }"

subsection \<open>A socket with a bounded send buffer\<close>

text \<open>
  The reference socket has received \<open>received\<close>, has room for \<open>room\<close> more bytes to send, and keeps what it was
  given to send. Reads take up to a buffer, writes as much as there is room for.
\<close>

record sock =
  received :: bytes
  hung_up :: bool
  room :: nat
  outbox :: bytes

definition sock_read :: "int \<Rightarrow> sock \<Rightarrow> sock \<times> 'e read_result" where
  "sock_read f k =
     (if received k = [] then (k, if hung_up k then ReadOk [] else ReadWouldBlock)
      else (k\<lparr>received := drop BUFFER_SIZE (received k)\<rparr>, ReadOk (take BUFFER_SIZE (received k))))"

definition sock_write :: "int \<Rightarrow> bytes \<Rightarrow> sock \<Rightarrow> sock \<times> 'e write_result" where
  "sock_write f d k =
     (if room k = 0 then (k, WriteWouldBlock)
      else let n = min (room k) (length d)
           in (k\<lparr>room := room k - n, outbox := outbox k @ take n d\<rparr>, WriteOk n))"

definition sock_os :: "(sock, 'e) mio_os" where
  "sock_os = \<lparr>os_accept = \<lambda>w. (w, AcceptWouldBlock), os_register = \<lambda>_ _ w. (w, Inr ()),
     os_deregister = \<lambda>_ w. (w, Inr ()), os_read = sock_read, os_write = sock_write\<rparr>"

lemma sock_os_ops [simp]: "os_read sock_os = sock_read" "os_write sock_os = sock_write"
  by (simp_all add: sock_os_def)

lemma write_rest_done: "length d \<le> written \<Longrightarrow> write_rest os f d written w = Some (w, True)"
  by (simp add: write_rest.simps)

lemma write_rest_sock:
  assumes "d \<noteq> []"
  shows "write_rest (sock_os :: (sock, 'e) mio_os) f d 0 k =
    Some (k\<lparr>room := room k - length d, outbox := outbox k @ take (room k) d\<rparr>, True)"
proof (cases "room k = 0")
  case True
  then show ?thesis using assms by (subst write_rest.simps) (simp add: sock_write_def)
next
  case False
  let ?n = "min (room k) (length d)" and ?k = "k\<lparr>room := room k - length d, outbox := outbox k @ take (room k) d\<rparr>"
  have "sock_write f d k = (?k, WriteOk ?n :: 'e write_result)"
    using False by (simp add: sock_write_def Let_def) (simp add: min_def)
  then have "write_rest (sock_os :: (sock, 'e) mio_os) f d 0 k = write_rest (sock_os :: (sock, 'e) mio_os) f d ?n ?k"
    using assms by (subst write_rest.simps) simp
  also have "\<dots> = Some (?k, True)"
  proof (cases "length d \<le> room k")
    case True
    then show ?thesis by (simp add: write_rest_done)
  next
    case False
    then show ?thesis by (subst write_rest.simps) (simp add: sock_write_def)
  qed
  finally show ?thesis .
qed

lemma take_split: "take r (take b xs) @ take (r - length (take b xs)) (drop b xs) = take r xs"
  by (simp only: append_take_drop_id flip: take_append)

lemma read_all_sock:
  "read_all (sock_os :: (sock, 'e) mio_os) f k =
     Some (k\<lparr>received := [], room := room k - length (received k), outbox := outbox k @ take (room k) (received k)\<rparr>, hung_up k)"
proof (induction "length (received k)" arbitrary: k rule: less_induct)
  case less
  show ?case
  proof (cases "received k = []")
    case True
    then show ?thesis by (subst read_all.simps) (auto simp: sock_read_def)
  next
    case False
    let ?d = "take BUFFER_SIZE (received k)" and ?rest = "drop BUFFER_SIZE (received k)"
    let ?k = "k\<lparr>received := ?rest, room := room k - length ?d, outbox := outbox k @ take (room k) ?d\<rparr>"
    have d: "?d \<noteq> []" using False by (simp add: BUFFER_SIZE_def)
    have rd: "sock_read f k = (k\<lparr>received := ?rest\<rparr>, ReadOk ?d :: 'e read_result)"
      using False by (simp add: sock_read_def)
    have wr: "write_rest (sock_os :: (sock, 'e) mio_os) f ?d 0 (k\<lparr>received := ?rest\<rparr>) = Some (?k, True)"
      unfolding write_rest_sock [OF d] by simp
    have "read_all (sock_os :: (sock, 'e) mio_os) f k = read_all (sock_os :: (sock, 'e) mio_os) f ?k"
      by (subst read_all.simps) (simp only: sock_os_ops rd wr d prod.case read_result.case option.case if_False if_True)
    also have "\<dots> = Some (?k\<lparr>received := [], room := room ?k - length ?rest, outbox := outbox ?k @ take (room ?k) ?rest\<rparr>, hung_up k)"
      using less [of ?k] False by (simp add: BUFFER_SIZE_def)
    also have "room ?k - length ?rest = room k - length (received k)" by simp
    also have "outbox ?k @ take (room ?k) ?rest = outbox k @ take (room k) (received k)"
      using take_split [of "room k" BUFFER_SIZE "received k"] by simp
    finally show ?thesis by simp
  qed
qed

subsection \<open>What is echoed and what is lost\<close>

text \<open>
  C38. The echo is cut off at the send buffer. On a socket without errors the handler of a readable event always returns and has read
  everything the client sent, in pieces of the buffer's size; it has written exactly the
  first bytes, as many as the socket had room for. The rest is gone: it is neither sent nor kept, and nothing
  will continue later, as the next event finds nothing to read. The client is
  removed exactly if it closed the connection.
\<close>

theorem mio_echo_exact:
  "\<exists>k'. handle_client_event (sock_os :: (sock, 'e) mio_os) f ev k = Some (k', hung_up k \<and> is_readable ev \<or> is_write_closed ev \<or> is_read_closed ev)
     \<and> (is_readable ev \<longrightarrow> received k' = [] \<and> outbox k' = outbox k @ take (room k) (received k))
     \<and> (\<not> is_readable ev \<longrightarrow> k' = k)"
  by (cases "is_readable ev") (auto simp: handle_client_event_def read_all_sock)

lemma mio_echo_exact_witness:
  "\<exists>k'. handle_client_event (sock_os :: (sock, unit) mio_os) 7
        \<lparr>ev_token = 1, is_readable = True, is_write_closed = False, is_read_closed = False\<rparr>
        \<lparr>received = [1, 2, 3], hung_up = False, room = 2, outbox = []\<rparr> = Some (k', False)
      \<and> received k' = [] \<and> outbox k' = [1, 2]"
  using mio_echo_exact [of 7 "\<lparr>ev_token = 1, is_readable = True, is_write_closed = False, is_read_closed = False\<rparr>"
    "\<lparr>received = [1, 2, 3], hung_up = False, room = 2, outbox = []\<rparr>", where 'e = unit] by auto

text \<open>A socket whose writes return zero keeps the handler in its inner loop for ever.\<close>

lemma write_rest_diverges:
  assumes "\<And>w. os_write os f (drop n d) w = (w, WriteOk 0)" "n < length d"
  shows "write_rest os f d n w = None"
proof -
  have False if r: "write_rest os f d n w = Some r" for r
  proof -
    have "\<not> (os = os \<and> f = f \<and> d = d \<and> n = n)"
      by (rule write_rest.raw_induct [where P = "\<lambda>os' f' d' n' w y. \<not> (os' = os \<and> f' = f \<and> d' = d \<and> n' = n)", OF _ r])
        (use assms in \<open>fastforce split: if_splits\<close>)
    then show False by simp
  qed
  then show ?thesis by (cases "write_rest os f d n w") auto
qed

subsection \<open>Tokens\<close>

text \<open>Tokens are never reused and never that of the listener.\<close>

definition tokens_ok :: "mio_server \<Rightarrow> bool" where
  "tokens_ok s \<longleftrightarrow> 0 < unique_token s \<and> (\<forall>t \<in> dom (clients s). 0 < t \<and> t < unique_token s)"

lemma tokens_ok_new: "tokens_ok mio_new"
  by (simp add: tokens_ok_def mio_new_def)

lemma tokens_ok_insert:
  assumes "tokens_ok s" "next_token (unique_token s) = Some (token, n)"
  shows "tokens_ok (s\<lparr>unique_token := n, clients := (clients s)(token \<mapsto> f)\<rparr>)"
    and "tokens_ok (s\<lparr>unique_token := n\<rparr>)" and "clients s token = None"
proof -
  have new: "token = unique_token s" "n = Suc token" "0 < token"
    using assms by (auto simp: tokens_ok_def next_token_def uadd_def split: if_splits)
  have old: "\<And>t. t \<in> dom (clients s) \<Longrightarrow> 0 < t \<and> t < token" using assms(1) new by (simp add: tokens_ok_def)
  show "tokens_ok (s\<lparr>unique_token := n, clients := (clients s)(token \<mapsto> f)\<rparr>)" "tokens_ok (s\<lparr>unique_token := n\<rparr>)"
    using old new by (auto simp: tokens_ok_def dest: less_SucI)
  show "clients s token = None" using old [of token] by (cases "clients s token") auto
qed

lemma tokens_ok_accept:
  "accept_all os s w = Some y \<Longrightarrow> tokens_ok s \<Longrightarrow> tokens_ok (fst y) \<and> clients s \<subseteq>\<^sub>m clients (fst y)"
proof (induction rule: accept_all.raw_induct [rotated, consumes 1, case_names loop])
  case (loop rec os s w y)
  obtain w1 a where acc: "os_accept os w = (w1, a)" by fastforce
  show ?case
  proof (cases a)
    case (AcceptOk f)
    then obtain token n where tok: "next_token (unique_token s) = Some (token, n)"
      using loop by (cases "next_token (unique_token s)") (auto simp: acc)
    note new = tokens_ok_insert [OF loop(3) tok]
    obtain w2 r where reg: "os_register os f token w1 = (w2, r)" by fastforce
    show ?thesis
    proof (cases r)
      case (Inl e)
      then show ?thesis using loop(2) AcceptOk new(2) by (auto simp: acc tok reg)
    next
      case (Inr u)
      let ?s = "s\<lparr>unique_token := n, clients := (clients s)(token \<mapsto> f)\<rparr>"
      have "rec os ?s w2 = Some y" using loop(2) AcceptOk Inr by (simp add: acc tok reg)
      then have "tokens_ok (fst y)" "clients ?s \<subseteq>\<^sub>m clients (fst y)" using loop(1) new(1) by blast+
      moreover have "clients s \<subseteq>\<^sub>m clients ?s" using new(3) by (auto simp: map_le_def)
      ultimately show ?thesis using map_le_trans by blast
    qed
  qed (use loop(2,3) in \<open>auto simp: acc\<close>)
qed

lemma tokens_ok_event:
  assumes "on_event os ev s w = Some (s', w', r)" "tokens_ok s"
  shows "tokens_ok s'"
proof (cases "ev_token ev = SERVER")
  case True
  then show ?thesis using assms tokens_ok_accept [of os s w] by (force simp: on_event_def)
next
  case False
  then have "clients s' \<subseteq>\<^sub>m clients s \<and> unique_token s' = unique_token s"
    using assms(1) by (auto simp: on_event_def map_le_def split: option.splits Option.bind_splits prod.splits if_splits sum.splits)
  then show ?thesis using assms(2) map_le_implies_dom_le by (fastforce simp: tokens_ok_def)
qed

lemma tokens_ok_events:
  "on_events os evs s w = Some (s', w', r) \<Longrightarrow> tokens_ok s \<Longrightarrow> tokens_ok s'"
proof (induction evs arbitrary: s w)
  case (Cons ev evs)
  then obtain s1 w1 r1 where one: "on_event os ev s w = Some (s1, w1, r1)"
    by (cases "on_event os ev s w") auto
  then show ?case using Cons tokens_ok_event [OF one] by (cases r1) auto
qed simp

end
