(* ===== verification/Tcp_Uring_Server.thy ===== *)
theory Tcp_Uring_Server
  imports Tcp_Poll_Server
begin

text \<open>
  \<^verbatim>\<open>TCPIP/src/10/io_uring_tcp_echo_server.rs\<close>: an echo server that submits operations to the kernel and is told
  of their completion. The state is the table of operations under way, by token, and the submission
  queue; a run is a sequence of batches of completions, each a token, a result and, for a read, the bytes the kernel
  has put into the buffer. What the server does to descriptors goes to a log, read as in
  \<open>Tcp_Poll_Server\<close>; a send is logged when it is submitted.
\<close>

definition QUEUE_DEPTH :: nat where
  "QUEUE_DEPTH = 256"

definition URING_BUFFER_SIZE :: nat where
  "URING_BUFFER_SIZE = 4096"

datatype event_type = EvAccept | EvRead | EvWrite

text \<open>The buffer of an operation is in the submitted entry (a send) or in the completion (a read).\<close>

record connection_info =
  event_type_of :: event_type
  info_fd :: int

datatype sqe = Accept nat int | Recv nat int nat | Send nat int bytes

record completion =
  user_data :: nat
  cqe_result :: int
  cqe_data :: bytes

record uring =
  token_counter :: nat
  buffers :: "nat \<rightharpoonup> connection_info"
  sq :: "sqe list"
  uring_log :: "action list"

definition uring_init :: uring where
  "uring_init = \<lparr>token_counter = 0, buffers = Map.empty, sq = [], uring_log = []\<rparr>"

text \<open>
  \<open>next_token\<close>, the push onto the queue, which panics when it is full, and the entry in the table, as every
  place that starts an operation has them.
\<close>

definition submit_op :: "event_type \<Rightarrow> int \<Rightarrow> (nat \<Rightarrow> sqe) \<Rightarrow> uring \<Rightarrow> uring run" where
  "submit_op ty fd e s =
     do {
       token \<leftarrow> uadd (token_counter s) 1;
       if length (sq s) < QUEUE_DEPTH
       then Some (s\<lparr>token_counter := token, sq := sq s @ [e token],
                    buffers := (buffers s)(token \<mapsto> \<lparr>event_type_of = ty, info_fd = fd\<rparr>)\<rparr>)
       else None }"

definition submit_accept :: "int \<Rightarrow> uring \<Rightarrow> uring run" where
  "submit_accept listener s = submit_op EvAccept listener (\<lambda>t. Accept t listener) s"

definition submit_recv :: "int \<Rightarrow> uring \<Rightarrow> uring run" where
  "submit_recv fd s = submit_op EvRead fd (\<lambda>t. Recv t fd URING_BUFFER_SIZE) s"

definition submit_send :: "int \<Rightarrow> bytes \<Rightarrow> uring \<Rightarrow> uring run" where
  "submit_send fd d s = submit_op EvWrite fd (\<lambda>t. Send t fd d) s"

definition uring_logged :: "action list \<Rightarrow> uring \<Rightarrow> uring" where
  "uring_logged l s = s\<lparr>uring_log := uring_log s @ l\<rparr>"

text \<open>All pending operations go to the kernel.\<close>

definition submit_all :: "uring \<Rightarrow> uring" where
  "submit_all s = s\<lparr>sq := []\<rparr>"

definition uring_start :: "int \<Rightarrow> uring run" where
  "uring_start listener = do { s \<leftarrow> submit_accept listener uring_init; Some (submit_all s) }"

definition on_completed :: "int \<Rightarrow> completion \<Rightarrow> connection_info \<Rightarrow> uring \<Rightarrow> uring run" where
  "on_completed listener c info s =
     (if cqe_result c < 0 then
        Some (if event_type_of info \<noteq> EvAccept then uring_logged [Closed (info_fd info)] s else s)
      else (case event_type_of info of
              EvAccept \<Rightarrow>
                do { s \<leftarrow> submit_recv (cqe_result c) (uring_logged [Accepted (cqe_result c)] s);
                     submit_accept listener s }
            | EvRead \<Rightarrow>
                if cqe_result c = 0 then Some (uring_logged [Closed (info_fd info)] s)
                else do {
                  d \<leftarrow> sub_slice (cqe_data c) 0 (nat (cqe_result c));
                  if length d > URING_BUFFER_SIZE then None
                  else submit_send (info_fd info) d (uring_logged [ReadData (info_fd info) d, Wrote (info_fd info) d] s) }
            | EvWrite \<Rightarrow> submit_recv (info_fd info) s))"

definition on_completion :: "int \<Rightarrow> completion \<Rightarrow> uring \<Rightarrow> uring run" where
  "on_completion listener c s =
     (case buffers s (user_data c) of
        None \<Rightarrow> Some s
      | Some info \<Rightarrow> on_completed listener c info (s\<lparr>buffers := (buffers s)(user_data c := None)\<rparr>))"

fun on_completions :: "int \<Rightarrow> completion list \<Rightarrow> uring \<Rightarrow> uring run" where
  "on_completions listener [] s = Some s"
| "on_completions listener (c # cs) s = do { s \<leftarrow> on_completion listener c s; on_completions listener cs s }"

text \<open>Waiting for completions fails with an error of the system call; then the server returns.\<close>

fun uring_loop :: "int \<Rightarrow> (completion list \<times> bool) list \<Rightarrow> uring \<Rightarrow> uring run" where
  "uring_loop listener [] s = Some s"
| "uring_loop listener ((cs, ok) # rest) s =
     do { s \<leftarrow> on_completions listener cs s;
          if ok then uring_loop listener rest (submit_all s) else Some (submit_all s) }"

subsection \<open>The table of operations\<close>

definition serving :: "uring \<Rightarrow> nat \<Rightarrow> int \<Rightarrow> bool" where
  "serving s t f \<longleftrightarrow> (\<exists>i. buffers s t = Some i \<and> event_type_of i \<noteq> EvAccept \<and> info_fd i = f)"

definition served :: "uring \<Rightarrow> int set" where
  "served s = {f. \<exists>t. serving s t f}"

definition accepting :: "uring \<Rightarrow> nat \<Rightarrow> bool" where
  "accepting s t \<longleftrightarrow> (\<exists>i. buffers s t = Some i \<and> event_type_of i = EvAccept)"

definition one_each :: "uring \<Rightarrow> bool" where
  "one_each s \<longleftrightarrow> (\<forall>t u f. serving s t f \<longrightarrow> serving s u f \<longrightarrow> t = u)"

definition uring_inv :: "uring \<Rightarrow> bool" where
  "uring_inv s \<longleftrightarrow> (\<forall>t \<in> dom (buffers s). t \<le> token_counter s) \<and> echoes (uring_log s)
     \<and> (\<forall>t u. accepting s t \<longrightarrow> accepting s u \<longrightarrow> t = u)
     \<and> (fresh {} (uring_log s) \<longrightarrow> safe {} (uring_log s) \<and> opens {} (uring_log s) = served s \<and> one_each s)"

text \<open>
  The state in which the server handles a completion: a token was taken out of the table, and the operation
  on its descriptor \<open>f\<close>, if any, is over.
\<close>

definition took :: "nat \<Rightarrow> uring \<Rightarrow> uring" where
  "took t s = s\<lparr>buffers := (buffers s)(t := None)\<rparr>"

lemma took_simps:
  "serving (took t s) u f \<longleftrightarrow> serving s u f \<and> u \<noteq> t" "accepting (took t s) u \<longleftrightarrow> accepting s u \<and> u \<noteq> t"
  "uring_log (took t s) = uring_log s" "token_counter (took t s) = token_counter s" "sq (took t s) = sq s"
  "buffers (took t s) = (buffers s)(t := None)"
  by (auto simp: took_def serving_def accepting_def)

lemma logged_simps [simp]:
  "serving (uring_logged l s) = serving s" "accepting (uring_logged l s) = accepting s"
  "uring_log (uring_logged l s) = uring_log s @ l" "token_counter (uring_logged l s) = token_counter s"
  "sq (uring_logged l s) = sq s" "buffers (uring_logged l s) = buffers s"
  "serving (submit_all s) = serving s" "accepting (submit_all s) = accepting s"
  "uring_log (submit_all s) = uring_log s" "buffers (submit_all s) = buffers s" "token_counter (submit_all s) = token_counter s"
  by (auto simp: uring_logged_def submit_all_def serving_def accepting_def fun_eq_iff)

lemma uring_logged_nil: "uring_logged [] s = s"
  by (simp add: uring_logged_def)

lemma submit_op_effect:
  assumes "submit_op ty fd e s = Some s'" "\<forall>t \<in> dom (buffers s). t \<le> token_counter s"
  shows "serving s' u f \<longleftrightarrow> serving s u f \<or> (u = token_counter s + 1 \<and> ty \<noteq> EvAccept \<and> f = fd)"
    and "accepting s' u \<longleftrightarrow> accepting s u \<or> (u = token_counter s + 1 \<and> ty = EvAccept)"
    and "uring_log s' = uring_log s" and "token_counter s' = token_counter s + 1"
    and "\<forall>t \<in> dom (buffers s'). t \<le> token_counter s'" and "length (sq s') = length (sq s) + 1"
proof -
  have s': "s' = s\<lparr>token_counter := token_counter s + 1, sq := sq s @ [e (token_counter s + 1)],
      buffers := (buffers s)(token_counter s + 1 \<mapsto> \<lparr>event_type_of = ty, info_fd = fd\<rparr>)\<rparr>"
    using assms(1) by (auto simp: submit_op_def uadd_def split: if_splits)
  have none: "buffers s (token_counter s + 1) = None" using assms(2) by (metis Suc_eq_plus1 domI not_less_eq_eq option.exhaust order_refl)
  show "serving s' u f \<longleftrightarrow> serving s u f \<or> (u = token_counter s + 1 \<and> ty \<noteq> EvAccept \<and> f = fd)"
    "accepting s' u \<longleftrightarrow> accepting s u \<or> (u = token_counter s + 1 \<and> ty = EvAccept)"
    using none by (auto simp: s' serving_def accepting_def)
  show "uring_log s' = uring_log s" "token_counter s' = token_counter s + 1" "length (sq s') = length (sq s) + 1"
    by (simp_all add: s')
  show "\<forall>t \<in> dom (buffers s'). t \<le> token_counter s'" using assms(2) by (fastforce simp: s' intro: le_SucI)
qed

lemma took_tokens: "\<forall>t \<in> dom (buffers s). t \<le> token_counter s \<Longrightarrow> \<forall>u \<in> dom (buffers (took t s)). u \<le> token_counter (took t s)"
  by (auto simp: took_simps)

lemma serving_functional: "serving s t f \<Longrightarrow> serving s t g \<Longrightarrow> f = g"
  by (auto simp: serving_def)

text \<open>The operation on a descriptor is over and the descriptor is closed.\<close>

lemma inv_close:
  assumes "uring_inv s" "serving s t f"
  shows "uring_inv (uring_logged [Closed f] (took t s))"
proof -
  have "served (uring_logged [Closed f] (took t s)) = served s - {f}" if "one_each s"
    using that assms(2) unfolding served_def logged_simps took_simps one_each_def by (blast dest: serving_functional)
  moreover have "one_each (uring_logged [Closed f] (took t s))" if "one_each s"
    using that by (auto simp: one_each_def took_simps)
  moreover have "f \<in> served s" using assms(2) by (auto simp: served_def)
  ultimately show ?thesis using assms(1) by (auto simp: uring_inv_def log_append took_simps)
qed

lemma inv_accept_failed:
  assumes "uring_inv s" "accepting s t"
  shows "uring_inv (took t s) \<and> (\<forall>u. \<not> accepting (took t s) u)"
proof -
  have "serving (took t s) u f \<longleftrightarrow> serving s u f" for u f
    using assms(2) by (auto simp: took_simps serving_def accepting_def)
  then have "served (took t s) = served s" "one_each (took t s) = one_each s" by (simp_all add: served_def one_each_def)
  then show ?thesis using assms by (auto simp: uring_inv_def took_simps)
qed

text \<open>The next operation on the same descriptor takes the place of the one that is over.\<close>

lemma inv_continue:
  assumes "uring_inv s" "serving s t f" "l = [] \<or> l = [ReadData f d, Wrote f d]" "ty \<noteq> EvAccept"
    and run: "submit_op ty f e (uring_logged l (took t s)) = Some s'"
  shows "uring_inv s'"
proof -
  have tokens: "\<forall>u \<in> dom (buffers (uring_logged l (took t s))). u \<le> token_counter (uring_logged l (took t s))"
    using took_tokens [of s t] assms(1) by (simp add: uring_inv_def)
  note eff = submit_op_effect [OF run tokens]
  have le: "u \<le> token_counter s" if "serving s u g \<or> accepting s u" for u g
    using that assms(1) by (auto simp: uring_inv_def serving_def accepting_def)
  have own: "serving s' u g \<longleftrightarrow> serving s u g \<and> u \<noteq> t \<or> (u = token_counter s + 1 \<and> g = f)" for u g
    using eff(1) assms(4) by (auto simp: took_simps)
  have acc: "accepting s' u \<longleftrightarrow> accepting s u" for u
    using eff(2) assms(2,4) by (auto simp: took_simps accepting_def serving_def)
  have "served s' = served s" using assms(2) by (auto simp: served_def own) (metis serving_def option.inject)+
  moreover have "one_each s'" if "one_each s" unfolding one_each_def own
    using that assms(2) le by (metis one_each_def Suc_eq_plus1 not_less_eq_eq)
  moreover have "f \<in> served s" using assms(2) by (auto simp: served_def)
  moreover have "echoes l" "opens F l = F" "fresh F l" "safe F l \<longleftrightarrow> l = [] \<or> f \<in> F" for F using assms(3) by auto
  ultimately show ?thesis using assms(1) eff(3,4,5)
    by (auto simp: uring_inv_def acc log_append took_simps)
qed

lemma inv_accepted:
  assumes "uring_inv s" "accepting s t"
    and run1: "submit_op EvRead fd e1 (uring_logged [Accepted fd] (took t s)) = Some s1"
    and run2: "submit_op EvAccept listener e2 s1 = Some s'"
  shows "uring_inv s'"
proof -
  have tokens: "\<forall>u \<in> dom (buffers (uring_logged [Accepted fd] (took t s))).
      u \<le> token_counter (uring_logged [Accepted fd] (took t s))"
    using took_tokens [of s t] assms(1) by (simp add: uring_inv_def)
  note e1 = submit_op_effect [OF run1 tokens]
  note e2 = submit_op_effect [OF run2 e1(5)]
  have le: "u \<le> token_counter s" if "serving s u g" for u g
    using that assms(1) by (auto simp: uring_inv_def serving_def)
  have gone: "\<not> accepting s u" if "u \<noteq> t" for u using that assms(1,2) by (auto simp: uring_inv_def)
  have own: "serving s' u g \<longleftrightarrow> serving s u g \<or> (u = token_counter s + 1 \<and> g = fd)" for u g
    using e2(1) e1(1) assms(2) by (auto simp: took_simps serving_def accepting_def)
  have acc: "accepting s' u \<longleftrightarrow> u = token_counter s1 + 1" for u
    using e2(2) e1(2) gone by (auto simp: took_simps)
  have "served s' = insert fd (served s)" by (auto simp: served_def own)
  moreover have "one_each s'" if "one_each s" "fd \<notin> served s" unfolding one_each_def own
    using that by (auto simp: one_each_def served_def)
  moreover have "uring_log s' = uring_log s @ [Accepted fd]" using e1(3) e2(3) by (simp add: took_simps)
  ultimately show ?thesis using assms(1) e2(5) by (auto simp: uring_inv_def acc log_append)
qed

text \<open>What a completion on a descriptor does: it closes the descriptor, or starts the next operation there.\<close>

lemma on_completed_serving:
  assumes "event_type_of info \<noteq> EvAccept" "on_completed listener c info s = Some s'"
  obtains "s' = uring_logged [Closed (info_fd info)] s"
  | l d ty e where "ty \<noteq> EvAccept" "l = [] \<or> l = [ReadData (info_fd info) d, Wrote (info_fd info) d]"
      "submit_op ty (info_fd info) e (uring_logged l s) = Some s'"
proof -
  consider "cqe_result c < 0" | "event_type_of info = EvRead" "cqe_result c \<ge> 0" | "event_type_of info = EvWrite" "cqe_result c \<ge> 0"
    using assms(1) by (cases "event_type_of info") force+
  then show thesis
  proof cases
    case 1
    then show ?thesis using assms that(1) by (simp add: on_completed_def)
  next
    case 2
    then show ?thesis using assms(2) that(1) that(2) [of EvWrite]
      by (simp add: on_completed_def submit_send_def bind_eq_Some_conv split: if_splits) blast
  next
    case 3
    then show ?thesis using assms(2) that(2) [of EvRead "[]"] by (simp add: on_completed_def submit_recv_def uring_logged_nil)
  qed
qed

lemma inv_on_completion:
  assumes "uring_inv s" "on_completion listener c s = Some s'"
  shows "uring_inv s'"
proof (cases "buffers s (user_data c)")
  case (Some info)
  let ?t = "user_data c" and ?f = "info_fd info"
  have run: "on_completed listener c info (took ?t s) = Some s'"
    using assms(2) Some by (simp add: on_completion_def took_def)
  show ?thesis
  proof (cases "event_type_of info = EvAccept")
    case True
    then have "accepting s ?t" using Some by (simp add: accepting_def)
    then show ?thesis using run True inv_accept_failed [OF assms(1)] inv_accepted [OF assms(1)]
      by (auto simp: on_completed_def submit_recv_def submit_accept_def split: if_splits Option.bind_splits)
  next
    case False
    then have srv: "serving s ?t ?f" using Some by (simp add: serving_def)
    from False run show ?thesis
    proof (cases rule: on_completed_serving)
      case 1
      then show ?thesis using inv_close [OF assms(1) srv] by simp
    next
      case (2 l d ty e)
      then show ?thesis by (intro inv_continue [OF assms(1) srv])
    qed
  qed
qed (use assms in \<open>simp add: on_completion_def\<close>)

lemma inv_on_completions: "uring_inv s \<Longrightarrow> on_completions listener cs s = Some s' \<Longrightarrow> uring_inv s'"
  by (induction cs arbitrary: s) (auto split: Option.bind_splits dest: inv_on_completion)

lemma inv_submit_all: "uring_inv (submit_all s) = uring_inv s"
  by (simp add: uring_inv_def served_def one_each_def)

lemma inv_uring_loop: "uring_inv s \<Longrightarrow> uring_loop listener bs s = Some s' \<Longrightarrow> uring_inv s'"
proof (induction bs arbitrary: s)
  case (Cons b bs)
  obtain cs ok where b: "b = (cs, ok)" by (cases b)
  with Cons.prems(2) obtain x where x: "on_completions listener cs s = Some x"
    and rest: "(if ok then uring_loop listener bs (submit_all x) else Some (submit_all x)) = Some s'"
    by (auto simp: bind_eq_Some_conv)
  have "uring_inv (submit_all x)" using inv_on_completions [OF Cons.prems(1) x] by (simp add: inv_submit_all)
  then show ?case using rest Cons.IH by (auto split: if_splits)
qed simp

lemma uring_start_ok: "\<exists>s. uring_start listener = Some s \<and> uring_inv s \<and> token_counter s = 1 \<and> sq s = []"
  by (auto simp: uring_start_def submit_accept_def submit_op_def uring_init_def uadd_def QUEUE_DEPTH_def submit_all_def
    uring_inv_def accepting_def serving_def served_def one_each_def)

subsection \<open>A failed accept\<close>

fun connections :: "action list \<Rightarrow> int list" where
  "connections [] = []" | "connections (Accepted f # l) = f # connections l" | "connections (_ # l) = connections l"

lemma connections_append: "connections (a @ b) = connections a @ connections b"
  by (induction a rule: connections.induct) auto

definition deaf :: "uring \<Rightarrow> bool" where
  "deaf s \<longleftrightarrow> (\<forall>t. \<not> accepting s t) \<and> (\<forall>t \<in> dom (buffers s). t \<le> token_counter s)"

lemma deaf_submit:
  assumes "deaf s" "ty \<noteq> EvAccept" "submit_op ty f e s = Some s'"
  shows "deaf s' \<and> uring_log s' = uring_log s"
  using submit_op_effect(2,3,5) [OF assms(3)] assms(1,2) by (auto simp: deaf_def)

lemma deaf_logged: "deaf (uring_logged l (took t s)) \<longleftrightarrow> deaf (took t s)"
  by (simp add: deaf_def)

lemma deaf_on_completion:
  assumes "deaf s" "on_completion listener c s = Some s'"
  shows "deaf s' \<and> connections (uring_log s') = connections (uring_log s)"
proof (cases "buffers s (user_data c)")
  case (Some info)
  let ?t = "user_data c" and ?f = "info_fd info"
  have run: "on_completed listener c info (took ?t s) = Some s'"
    using assms(2) Some by (simp add: on_completion_def took_def)
  have ty: "event_type_of info \<noteq> EvAccept" using assms(1) Some by (auto simp: deaf_def accepting_def)
  have took: "deaf (took ?t s)" using assms(1) took_tokens [of s ?t] by (auto simp: deaf_def took_simps)
  have logged: "deaf (uring_logged l (took ?t s))" for l using took by (simp add: deaf_logged)
  from ty run show ?thesis
  proof (cases rule: on_completed_serving)
    case 1
    then show ?thesis using logged by (simp add: connections_append took_simps)
  next
    case (2 l d ty e)
    then show ?thesis using deaf_submit [OF logged 2(1,3)] by (auto simp: connections_append took_simps)
  qed
qed (use assms in \<open>simp add: on_completion_def\<close>)

lemma deaf_on_completions:
  "deaf s \<Longrightarrow> on_completions listener cs s = Some s' \<Longrightarrow> deaf s' \<and> connections (uring_log s') = connections (uring_log s)"
  by (induction cs arbitrary: s) (auto split: Option.bind_splits dest: deaf_on_completion)

lemma deaf_uring_loop:
  "deaf s \<Longrightarrow> uring_loop listener bs s = Some s' \<Longrightarrow> deaf s' \<and> connections (uring_log s') = connections (uring_log s)"
proof (induction bs arbitrary: s)
  case (Cons b bs)
  have sub: "deaf (submit_all r) = deaf r" for r by (simp add: deaf_def)
  obtain cs ok where b: "b = (cs, ok)" by (cases b)
  with Cons.prems(2) obtain x where x: "on_completions listener cs s = Some x"
    and rest: "(if ok then uring_loop listener bs (submit_all x) else Some (submit_all x)) = Some s'"
    by (auto simp: bind_eq_Some_conv)
  have "deaf (submit_all x)" "connections (uring_log (submit_all x)) = connections (uring_log s)"
    using deaf_on_completions [OF Cons.prems(1) x] by (simp_all add: sub)
  then show ?case using rest Cons.IH by (auto split: if_splits)
qed simp

subsection \<open>The submission queue\<close>

lemma submit_op_runs:
  "length (sq s) < QUEUE_DEPTH \<Longrightarrow> token_counter s + 1 < 2 ^ 64 \<Longrightarrow> \<exists>s'. submit_op ty f e s = Some s'"
  "length (sq s) \<ge> QUEUE_DEPTH \<Longrightarrow> submit_op ty f e s = None"
  by (simp_all add: submit_op_def uadd_def)

lemma submit_op_fields:
  "submit_op ty f e s = Some s' \<Longrightarrow>
     length (sq s') = length (sq s) + 1 \<and> token_counter s' = token_counter s + 1 \<and>
     buffers s' = (buffers s)(token_counter s + 1 \<mapsto> \<lparr>event_type_of = ty, info_fd = f\<rparr>)"
  by (auto simp: submit_op_def uadd_def split: if_splits)

text \<open>What the kernel promises of a completed read: the bytes are in the buffer, and fit it.\<close>

definition cqe_ok :: "uring \<Rightarrow> completion \<Rightarrow> bool" where
  "cqe_ok s c \<longleftrightarrow> (case buffers s (user_data c) of None \<Rightarrow> True
     | Some i \<Rightarrow> event_type_of i = EvRead \<longrightarrow>
         nat (cqe_result c) \<le> length (cqe_data c) \<and> nat (cqe_result c) \<le> URING_BUFFER_SIZE)"

fun cqes_ok :: "int \<Rightarrow> completion list \<Rightarrow> uring \<Rightarrow> bool" where
  "cqes_ok listener [] s = True"
| "cqes_ok listener (c # cs) s = (cqe_ok s c \<and>
     (case on_completion listener c s of None \<Rightarrow> True | Some s' \<Rightarrow> cqes_ok listener cs s'))"

lemma on_completion_runs:
  assumes "cqe_ok s c" "length (sq s) + 2 \<le> QUEUE_DEPTH" "token_counter s + 2 < 2 ^ 64"
  shows "\<exists>s'. on_completion listener c s = Some s' \<and> length (sq s') \<le> length (sq s) + 2
    \<and> token_counter s' \<le> token_counter s + 2"
proof (cases "buffers s (user_data c)")
  case (Some info)
  have op: "\<exists>s'. submit_op ty f e r = Some s' \<and> length (sq s') = length (sq r) + 1 \<and> token_counter s' = token_counter r + 1"
    if "length (sq r) < QUEUE_DEPTH" "token_counter r + 1 < 2 ^ 64" for ty f e r
    using submit_op_runs(1) [OF that] submit_op_fields by blast
  let ?r = "took (user_data c) s"
  have len: "length (sq (uring_logged l ?r)) < QUEUE_DEPTH" "token_counter (uring_logged l ?r) + 1 < 2 ^ 64"
    and len': "length (sq ?r) < QUEUE_DEPTH" "token_counter ?r + 1 < 2 ^ 64" for l
    using assms(2,3) by (simp_all add: took_simps)
  have "\<exists>s'. on_completed listener c info ?r = Some s' \<and> length (sq s') \<le> length (sq s) + 2
    \<and> token_counter s' \<le> token_counter s + 2"
  proof (cases "event_type_of info")
    case EvAccept
    show ?thesis
    proof (cases "cqe_result c < 0")
      case False
      obtain x where x: "submit_recv (cqe_result c) (uring_logged [Accepted (cqe_result c)] ?r) = Some x"
        "length (sq x) = length (sq s) + 1" "token_counter x = token_counter s + 1"
        using op [OF len] by (simp add: submit_recv_def took_simps) blast
      obtain y where "submit_accept listener x = Some y" "length (sq y) = length (sq s) + 2" "token_counter y = token_counter s + 2"
        using op [of x] assms(2,3) x(2,3) by (simp add: submit_accept_def) blast
      then show ?thesis using x EvAccept False by (simp add: on_completed_def)
    qed (simp add: on_completed_def EvAccept took_simps)
  next
    case EvRead
    then have "nat (cqe_result c) \<le> length (cqe_data c)" "nat (cqe_result c) \<le> URING_BUFFER_SIZE"
      using assms(1) Some by (simp_all add: cqe_ok_def)
    then show ?thesis using EvRead op [OF len] by (force simp: on_completed_def submit_send_def sub_slice_def took_simps)
  next
    case EvWrite
    then show ?thesis using op [OF len'] by (force simp: on_completed_def submit_recv_def took_simps)
  qed
  then show ?thesis using Some by (simp add: on_completion_def took_def)
qed (simp add: on_completion_def)

lemma on_completions_runs:
  assumes "cqes_ok listener cs s" "length (sq s) + 2 * length cs \<le> QUEUE_DEPTH" "token_counter s + 2 * length cs < 2 ^ 64"
  shows "\<exists>s'. on_completions listener cs s = Some s'"
  using assms
proof (induction cs arbitrary: s)
  case (Cons c cs)
  obtain x where x: "on_completion listener c s = Some x" "length (sq x) \<le> length (sq s) + 2" "token_counter x \<le> token_counter s + 2"
    using on_completion_runs [of s c listener] Cons.prems by auto
  then show ?case using Cons.IH [of x] Cons.prems by auto
qed simp

text \<open>
  A batch in which every completion starts one more operation: the queue takes it exactly if there is room for
  all of them.
\<close>

definition starts_one :: "uring \<Rightarrow> completion \<Rightarrow> bool" where
  "starts_one s c \<longleftrightarrow> cqe_ok s c \<and> cqe_result c > 0 \<and> (\<exists>f. serving s (user_data c) f)"

lemma on_completion_starts_one:
  assumes "starts_one s c" "token_counter s + 1 < 2 ^ 64"
  shows "if length (sq s) < QUEUE_DEPTH
    then \<exists>s' i. on_completion listener c s = Some s' \<and> length (sq s') = length (sq s) + 1 \<and> token_counter s' = token_counter s + 1
      \<and> buffers s' = (buffers s)(user_data c := None, token_counter s + 1 \<mapsto> i)
    else on_completion listener c s = None"
proof -
  obtain info where info: "buffers s (user_data c) = Some info" "event_type_of info \<noteq> EvAccept"
    using assms(1) by (auto simp: starts_one_def serving_def)
  have "\<exists>ty e l. on_completed listener c info (took (user_data c) s) =
      submit_op ty (info_fd info) e (uring_logged l (took (user_data c) s))"
  proof (cases "event_type_of info")
    case EvRead
    then show ?thesis using assms(1) info
      by (auto simp: on_completed_def starts_one_def cqe_ok_def submit_send_def sub_slice_def)
  next
    case EvWrite
    have "on_completed listener c info (took (user_data c) s) =
        submit_op EvRead (info_fd info) (\<lambda>t. Recv t (info_fd info) URING_BUFFER_SIZE) (uring_logged [] (took (user_data c) s))"
      using assms(1) EvWrite by (simp add: on_completed_def starts_one_def submit_recv_def uring_logged_nil)
    then show ?thesis by blast
  qed (use info in simp)
  then obtain ty e l where op: "on_completion listener c s = submit_op ty (info_fd info) e (uring_logged l (took (user_data c) s))"
    using info by (auto simp: on_completion_def took_def)
  show ?thesis using assms(2) unfolding op
    by (auto simp: submit_op_def uadd_def took_simps)
qed

lemma on_completions_starts_one:
  assumes "distinct (map user_data cs)" "\<forall>c \<in> set cs. starts_one s c" "\<forall>t \<in> dom (buffers s). t \<le> token_counter s"
    and "token_counter s + length cs < 2 ^ 64" "length (sq s) \<le> QUEUE_DEPTH"
  shows "on_completions listener cs s = None \<longleftrightarrow> length (sq s) + length cs > QUEUE_DEPTH"
  using assms
proof (induction cs arbitrary: s)
  case (Cons c cs)
  note step = on_completion_starts_one [of s c listener]
  show ?case
  proof (cases "length (sq s) < QUEUE_DEPTH")
    case True
    then obtain x i where x: "on_completion listener c s = Some x" "length (sq x) = length (sq s) + 1"
      "token_counter x = token_counter s + 1" "buffers x = (buffers s)(user_data c := None, token_counter s + 1 \<mapsto> i)"
      using step Cons.prems by auto
    have same: "buffers x (user_data d) = buffers s (user_data d)" if "d \<in> set cs" for d
    proof -
      have "user_data d \<noteq> user_data c" using that Cons.prems(1) by (auto simp: image_iff)
      moreover have "user_data d \<le> token_counter s" using that Cons.prems(2,3) by (auto simp: starts_one_def serving_def)
      ultimately show ?thesis by (simp add: x(4))
    qed
    then have "\<forall>d \<in> set cs. starts_one x d" using Cons.prems(2) by (simp add: starts_one_def cqe_ok_def serving_def)
    moreover have "\<forall>t \<in> dom (buffers x). t \<le> token_counter x" unfolding x(3,4)
      using Cons.prems(3) by (auto intro: le_SucI split: if_splits)
    ultimately show ?thesis using Cons.IH [of x] Cons.prems x(1-3) True by simp
  next
    case False
    then show ?thesis using step Cons.prems by simp
  qed
qed simp

subsection \<open>Runs of the server\<close>

lemma uring_loop_sq: "sq s = [] \<Longrightarrow> uring_loop listener bs s = Some s' \<Longrightarrow> sq s' = []"
proof (induction bs arbitrary: s)
  case (Cons b bs)
  have "sq (submit_all r) = []" for r by (simp add: submit_all_def)
  then show ?case using Cons.IH Cons.prems(2) by (cases b) (auto simp: bind_eq_Some_conv split: if_splits)
qed simp

text \<open>
  Whatever the kernel answers, what is received is sent back to the same connection next and at most one accept
  is under way. With fresh descriptors for new connections, the server works on open descriptors only, and the open
  connections are exactly those with an operation in the table, one each, so that none is forgotten and no
  answer overtakes another. A batch of at most 128 completions that keeps the kernel's promise never panics. After
  an accept has failed no connection is accepted any more.
\<close>

theorem uring_server_safe:
  assumes "uring_start listener = Some s0" "uring_loop listener bs s0 = Some s"
  shows "echoes (uring_log s)" "accepting s t \<Longrightarrow> accepting s u \<Longrightarrow> t = u"
    and "fresh {} (uring_log s) \<Longrightarrow> safe {} (uring_log s) \<and> opens {} (uring_log s) = served s \<and> one_each s"
    and "cqes_ok listener cs s \<Longrightarrow> 2 * length cs \<le> QUEUE_DEPTH \<Longrightarrow> token_counter s + 2 * length cs < 2 ^ 64
      \<Longrightarrow> \<exists>s'. on_completions listener cs s = Some s'"
    and "accepting s (user_data c) \<Longrightarrow> cqe_result c < 0 \<Longrightarrow> uring_loop listener ((c # cs, ok) # rest) s = Some s'
      \<Longrightarrow> connections (uring_log s') = connections (uring_log s)"
proof -
  obtain z where "uring_start listener = Some z" "uring_inv z" "sq z = []" using uring_start_ok by blast
  then have inv: "uring_inv s" and sq: "sq s = []"
    using assms by (auto intro: inv_uring_loop uring_loop_sq)
  show "echoes (uring_log s)" "accepting s t \<Longrightarrow> accepting s u \<Longrightarrow> t = u"
    "fresh {} (uring_log s) \<Longrightarrow> safe {} (uring_log s) \<and> opens {} (uring_log s) = served s \<and> one_each s"
    using inv by (auto simp: uring_inv_def)
  show "\<exists>s'. on_completions listener cs s = Some s'" if "cqes_ok listener cs s" "2 * length cs \<le> QUEUE_DEPTH"
    "token_counter s + 2 * length cs < 2 ^ 64"
    using on_completions_runs [OF that(1)] that(2,3) by (simp add: sq)
  show "connections (uring_log s') = connections (uring_log s)" if a: "accepting s (user_data c)" and neg: "cqe_result c < 0"
    and run: "uring_loop listener ((c # cs, ok) # rest) s = Some s'"
  proof -
    let ?r = "took (user_data c) s"
    have "on_completion listener c s = Some ?r"
      using a neg by (auto simp: accepting_def on_completion_def on_completed_def took_def)
    then have "uring_loop listener ((cs, ok) # rest) ?r = Some s'" using run by simp
    moreover have "deaf ?r" using inv_accept_failed [OF inv a] by (auto simp: deaf_def uring_inv_def)
    ultimately show ?thesis using deaf_uring_loop by (fastforce simp: took_simps)
  qed
qed

text \<open>One client on descriptor 7 is served and leaves; then the accept fails.\<close>

lemma uring_server_safe_witness:
  defines "cqe t r d \<equiv> \<lparr>user_data = t, cqe_result = r, cqe_data = d\<rparr>"
  shows "\<exists>s0 s. uring_start 3 = Some s0 \<and> uring_loop 3 [([cqe 1 7 []], True), ([cqe 2 2 [104, 105]], True),
      ([cqe 4 2 []], True), ([cqe 5 0 []], True)] s0 = Some s
    \<and> uring_log s = [Accepted 7, ReadData 7 [104, 105], Wrote 7 [104, 105], Closed 7]
    \<and> fresh {} (uring_log s) \<and> served s = {} \<and> safe {} (uring_log s)
    \<and> (\<exists>s'. on_completions 3 [cqe 3 (- 24) []] s = Some s')"
proof -
  let ?bs = "[([cqe 1 7 []], True), ([cqe 2 2 [104, 105]], True), ([cqe 4 2 []], True), ([cqe 5 0 []], True)]"
  obtain s0 s where run: "uring_start 3 = Some s0" "uring_loop 3 ?bs s0 = Some s"
    and log: "uring_log s = [Accepted 7, ReadData 7 [104, 105], Wrote 7 [104, 105], Closed 7]" and tokens: "token_counter s = 5"
    and ok: "cqes_ok 3 [cqe 3 (- 24) []] s"
    by (simp add: uring_start_def submit_accept_def submit_op_def uring_init_def uadd_def QUEUE_DEPTH_def
      submit_all_def on_completion_def on_completed_def submit_recv_def submit_send_def uring_logged_def sub_slice_def
      URING_BUFFER_SIZE_def cqe_def cqe_ok_def)
  have fresh: "fresh {} (uring_log s)" by (simp add: log)
  have "opens {} (uring_log s) = {}" by (simp add: log)
  with uring_server_safe(3) [OF run fresh] uring_server_safe(4) [OF run ok] run log fresh tokens show ?thesis
    by (auto simp: QUEUE_DEPTH_def)
qed

end
