(* ===== verification/Socket_Linger.thy ===== *)
theory Socket_Linger
  imports Bus_Io
begin

text \<open>
  \<^verbatim>\<open>TCPIP/src/49\<close>: the option SO_LINGER, set in three programs
  (\<^verbatim>\<open>so_linger_basic_configuration.rs\<close>, \<^verbatim>\<open>socket_wrapper_with_linger_control.rs\<close>,
  \<^verbatim>\<open>graceful_shutdown_with_tokio.rs\<close>). The operating system is a record of operations on the state of a
  connected socket, in which a read that blocks for ever gives \<open>None\<close>. Durations are nanoseconds; the cast of seconds to \<open>i32\<close> keeps the low 32 bits.
  
  The reference connection at the end says what shutting down and closing do with data that is still to be sent.
\<close>

subsection \<open>The option\<close>

record linger =
  l_onoff :: int
  l_linger :: int

definition as_secs :: "nat \<Rightarrow> nat" where
  "as_secs t = t div 1000000000"

definition as_i32 :: "nat \<Rightarrow> int" where
  "as_i32 n = signed_take_bit 31 (int n)"

record ('w, 'e) socket_os =
  setsockopt :: "linger \<Rightarrow> 'w \<Rightarrow> ('w, 'e, unit) io"
  getsockopt :: "'w \<Rightarrow> ('w, 'e, linger) io"
  write_all :: "bytes \<Rightarrow> 'w \<Rightarrow> ('w, 'e, unit) io"
  flush :: "'w \<Rightarrow> ('w, 'e, unit) io"
  read :: "'w \<Rightarrow> ('w, 'e, bytes) io option"
  shutdown :: "'w \<Rightarrow> ('w, 'e, unit) io"
  drop_stream :: "'w \<Rightarrow> 'w"
  clock :: "'w \<Rightarrow> nat"

subsection \<open>Basic configuration\<close>

datatype linger_mode = Default | Graceful nat | ModeAbortive

fun mode_struct :: "linger_mode \<Rightarrow> linger" where
  "mode_struct Default = \<lparr>l_onoff = 0, l_linger = 0\<rparr>"
| "mode_struct (Graceful timeout) = (let seconds = as_i32 (as_secs timeout) in \<lparr>l_onoff = 1, l_linger = seconds\<rparr>)"
| "mode_struct ModeAbortive = \<lparr>l_onoff = 1, l_linger = 0\<rparr>"

definition set_linger_mode :: "('w, 'e) socket_os \<Rightarrow> linger_mode \<Rightarrow> 'w \<Rightarrow> ('w, 'e, unit) io" where
  "set_linger_mode os mode w = setsockopt os (mode_struct mode) w"

definition get_linger :: "('w, 'e) socket_os \<Rightarrow> 'w \<Rightarrow> ('w, 'e, bool \<times> int) io" where
  "get_linger os w = try_io (getsockopt os w) (\<lambda>w l. (w, Inr (l_onoff l \<noteq> 0, l_linger l)))"

subsection \<open>The managed socket\<close>

datatype linger_option = Disabled | Enabled nat | Abortive

datatype 'e io_error = NotConnected string | Os 'e

text \<open>The stream is present or was taken.\<close>

record managed_socket =
  stream :: bool
  linger_opt :: linger_option

fun option_struct :: "linger_option \<Rightarrow> linger" where
  "option_struct Disabled = \<lparr>l_onoff = 0, l_linger = 0\<rparr>"
| "option_struct (Enabled timeout) = \<lparr>l_onoff = 1, l_linger = as_i32 (as_secs timeout)\<rparr>"
| "option_struct Abortive = \<lparr>l_onoff = 1, l_linger = 0\<rparr>"

definition apply_linger :: "('w, 'e) socket_os \<Rightarrow> managed_socket \<Rightarrow> 'w \<Rightarrow> ('w, 'e io_error, unit) io" where
  "apply_linger os m w =
     (if \<not> stream m then (w, Inl (NotConnected ''Socket closed''))
      else map_err Os (setsockopt os (option_struct (linger_opt m)) w))"

text \<open>On an error the half-made socket is dropped, and its stream with it.\<close>

definition managed_new :: "('w, 'e) socket_os \<Rightarrow> linger_option \<Rightarrow> 'w \<Rightarrow> ('w, 'e io_error, managed_socket) io" where
  "managed_new os l w =
     (let socket = \<lparr>stream = True, linger_opt = l\<rparr>
      in (case apply_linger os socket w of
            (w, Inl e) \<Rightarrow> (drop_stream os w, Inl e)
          | (w, Inr _) \<Rightarrow> (w, Inr socket)))"

definition send_all :: "('w, 'e) socket_os \<Rightarrow> managed_socket \<Rightarrow> bytes \<Rightarrow> 'w \<Rightarrow> ('w, 'e io_error, nat) io" where
  "send_all os m data w =
     (if \<not> stream m then (w, Inl (NotConnected ''Socket closed''))
      else try_io (map_err Os (write_all os data w)) (\<lambda>w _.
           try_io (map_err Os (flush os w)) (\<lambda>w _. (w, Inr (length data)))))"

definition receive :: "('w, 'e) socket_os \<Rightarrow> managed_socket \<Rightarrow> 'w \<Rightarrow> ('w, 'e io_error, bytes) io option" where
  "receive os m w =
     (if \<not> stream m then Some (w, Inl (NotConnected ''Socket closed'')) else map_option (map_err Os) (read os w))"

definition close :: "('w, 'e) socket_os \<Rightarrow> managed_socket \<Rightarrow> 'w \<Rightarrow> ('w, 'e io_error, nat) io" where
  "close os m w =
     (if stream m then
        let start = clock os w; w = drop_stream os w; elapsed = clock os w - start in (w, Inr elapsed)
      else (w, Inl (NotConnected ''Socket already closed'')))"

text \<open>The first example: a new socket, something sent, an explicit close.\<close>

definition managed_session :: "('w, 'e) socket_os \<Rightarrow> linger_option \<Rightarrow> bytes \<Rightarrow> 'w \<Rightarrow> ('w, 'e io_error, nat) io" where
  "managed_session os l data w =
     (case managed_new os l w of
        (w, Inl e) \<Rightarrow> (w, Inl e)
      | (w, Inr m) \<Rightarrow>
          (case send_all os m data w of
             (w, Inl e) \<Rightarrow> (drop_stream os w, Inl e)
           | (w, Inr _) \<Rightarrow> close os m w))"

subsection \<open>Graceful shutdown\<close>

definition set_linger :: "('w, 'e) socket_os \<Rightarrow> nat option \<Rightarrow> 'w \<Rightarrow> ('w, 'e, unit) io" where
  "set_linger os timeout_secs w =
     setsockopt os (case timeout_secs of
         Some secs \<Rightarrow> \<lparr>l_onoff = 1, l_linger = as_i32 secs\<rparr>
       | None \<Rightarrow> \<lparr>l_onoff = 0, l_linger = 0\<rparr>) w"

text \<open>Reading until the peer has closed; \<open>None\<close> is a peer that never stops sending or never closes.\<close>

partial_function (option) drain :: "('w, 'e) socket_os \<Rightarrow> 'w \<Rightarrow> 'w option" where
  "drain os w =
     (case read os w of
        None \<Rightarrow> None
      | Some (w', Inr d) \<Rightarrow> if d = [] then Some w' else drain os w'
      | Some (w', Inl e) \<Rightarrow> Some w')"

definition graceful_close :: "('w, 'e) socket_os \<Rightarrow> 'w \<Rightarrow> ('w, 'e, unit) io option" where
  "graceful_close os w =
     (case set_linger os (Some 5) w of
        (w, Inl e) \<Rightarrow> Some (drop_stream os w, Inl e)
      | (w, Inr _) \<Rightarrow>
          (case shutdown os w of
             (w, Inl e) \<Rightarrow> Some (drop_stream os w, Inl e)
           | (w, Inr _) \<Rightarrow> do { w \<leftarrow> drain os w; Some (drop_stream os w, Inr ()) }))"

definition crlf :: string where
  "crlf = [char_of (13 :: nat), char_of (10 :: nat)]"

definition response_head :: string where
  "response_head = ''HTTP/1.1 200 OK'' @ crlf @ ''Content-Type: text/plain'' @ crlf @ ''Content-Length: 30'' @ crlf
     @ ''Connection: close'' @ crlf @ crlf"

definition response_body :: string where
  "response_body = ''Graceful shutdown successful!'' @ [char_of (10 :: nat)]"

definition handle_client :: "('w, 'e) socket_os \<Rightarrow> 'w \<Rightarrow> ('w, 'e, unit) io option" where
  "handle_client os w =
     (case read os w of
        None \<Rightarrow> None
      | Some (w, Inr d) \<Rightarrow>
          if d \<noteq> [] then
            (case write_all os (ascii (response_head @ response_body)) w of
               (w, Inr _) \<Rightarrow> graceful_close os (fst (flush os w))
             | (w, Inl e) \<Rightarrow> graceful_close os w)
          else graceful_close os w
      | Some (w, Inl e) \<Rightarrow> graceful_close os w)"

subsection \<open>The option as a 32-bit number\<close>

lemma as_i32_small: "n < 2 ^ 31 \<Longrightarrow> as_i32 n = int n"
  by (simp add: as_i32_def signed_take_bit_int_eq_self)

subsection \<open>A reference connection\<close>

text \<open>
  Data that was written waits in \<open>sending\<close>; the network carries \<open>speed\<close> bytes in a second. The peer sends the pieces \<open>incoming\<close> and
  then closes: at once, or, if it \<open>waits\<close>, after it has received all data and the end of the stream. \<open>fin\<close> says that the end
  of the stream was sent. On a \<open>broken\<close> connection everything but setting options fails with the error \<open>err\<close>.

  A close resets the connection, which discards the data that wait, if the linger time is zero or if
  received data was not read. Otherwise, without lingering it returns at once and the system goes on sending; with
  lingering it blocks until all data are delivered or the time has passed.
\<close>

record tcp =
  sending :: bytes
  delivered :: bytes
  discarded :: bytes
  incoming :: "bytes list"
  waits :: bool
  fin :: bool
  broken :: bool
  speed :: nat
  linger_set :: linger
  is_open :: bool
  ticks :: nat

text \<open>The network delivers what it can in \<open>n\<close> seconds; the time it needs.\<close>

definition transmit :: "nat \<Rightarrow> tcp \<Rightarrow> tcp" where
  "transmit n w =
     w\<lparr>delivered := delivered w @ take (n * speed w) (sending w), sending := drop (n * speed w) (sending w)\<rparr>"

definition needed :: "nat \<Rightarrow> nat \<Rightarrow> nat" where
  "needed sp k = (k + sp - 1) div sp"

definition tcp_drop :: "tcp \<Rightarrow> tcp" where
  "tcp_drop w =
     (if \<not> is_open w then w
      else if broken w \<or> incoming w \<noteq> [] \<or> l_onoff (linger_set w) \<noteq> 0 \<and> l_linger (linger_set w) = 0
      then w\<lparr>is_open := False, discarded := discarded w @ sending w, sending := []\<rparr>
      else if l_onoff (linger_set w) = 0 then w\<lparr>is_open := False\<rparr>
      else let n = min (nat (l_linger (linger_set w))) (needed (speed w) (length (sending w)))
           in transmit n (w\<lparr>is_open := False, ticks := ticks w + n * 1000000000\<rparr>))"

definition tcp_read :: "'e \<Rightarrow> tcp \<Rightarrow> (tcp, 'e, bytes) io option" where
  "tcp_read err w =
     (if broken w then Some (w, Inl err)
      else case incoming w of
        d # ds \<Rightarrow> Some (w\<lparr>incoming := ds\<rparr>, Inr d)
      | [] \<Rightarrow>
          if \<not> waits w then Some (w, Inr [])
          else if fin w
          then let n = needed (speed w) (length (sending w))
               in Some (transmit n (w\<lparr>ticks := ticks w + n * 1000000000\<rparr>), Inr [])
          else None)"

definition tcp_os :: "'e \<Rightarrow> (tcp, 'e) socket_os" where
  "tcp_os err = \<lparr>setsockopt = \<lambda>l w. (w\<lparr>linger_set := l\<rparr>, Inr ()), getsockopt = \<lambda>w. (w, Inr (linger_set w)),
     write_all = \<lambda>d w. if broken w then (w, Inl err) else (w\<lparr>sending := sending w @ d\<rparr>, Inr ()), flush = \<lambda>w. (w, Inr ()),
     read = tcp_read err, shutdown = \<lambda>w. if broken w then (w, Inl err) else (w\<lparr>fin := True\<rparr>, Inr ()),
     drop_stream = tcp_drop, clock = ticks\<rparr>"

lemma tcp_os_ops [simp]:
  "setsockopt (tcp_os err) l w = (w\<lparr>linger_set := l\<rparr>, Inr ())" "getsockopt (tcp_os err) w = (w, Inr (linger_set w))"
  "write_all (tcp_os err) d w = (if broken w then (w, Inl err) else (w\<lparr>sending := sending w @ d\<rparr>, Inr ()))"
  "flush (tcp_os err) w = (w, Inr ())" "read (tcp_os err) w = tcp_read err w"
  "shutdown (tcp_os err) w = (if broken w then (w, Inl err) else (w\<lparr>fin := True\<rparr>, Inr ()))"
  "drop_stream (tcp_os err) w = tcp_drop w" "clock (tcp_os err) w = ticks w"
  by (simp_all add: tcp_os_def)

lemma needed_enough:
  assumes "0 < sp"
  shows "k \<le> needed sp k * sp"
proof -
  define q where "q = k + sp - 1"
  have "q div sp * sp + q mod sp = q" "q mod sp < sp" "q + 1 = k + sp" using assms by (simp_all add: q_def)
  then have "k \<le> q div sp * sp" by linarith
  then show ?thesis by (simp only: needed_def q_def)
qed

lemma take_needed:
  assumes "0 < sp"
  shows "take (min n (needed sp (length d)) * sp) d = take (n * sp) d"
    and "drop (min n (needed sp (length d)) * sp) d = drop (n * sp) d"
proof -
  have "min n (needed sp (length d)) = n \<or> length d \<le> min n (needed sp (length d)) * sp \<and> length d \<le> n * sp"
  proof (cases "n \<le> needed sp (length d)")
    case False
    then show ?thesis
      using needed_enough [OF assms, of "length d"] le_trans [OF _ mult_le_mono1 [of "needed sp (length d)" n sp]]
      by (simp add: min_def)
  qed (simp add: min_def)
  then show "take (min n (needed sp (length d)) * sp) d = take (n * sp) d"
    and "drop (min n (needed sp (length d)) * sp) d = drop (n * sp) d" by auto
qed

subsection \<open>What the options promise\<close>

text \<open>
  The documented fate of data given to a connection: what is delivered when the close returns, what the system still has to
  send, what is lost, and how long the close takes.
\<close>

record fate =
  arrived :: bytes
  pending :: bytes
  lost :: bytes
  close_time :: nat

definition reset_fate :: "bytes \<Rightarrow> fate" where
  "reset_fate d = \<lparr>arrived = [], pending = [], lost = d, close_time = 0\<rparr>"

text \<open>Lingering for whole seconds; what the network carries in that time arrives.\<close>

definition lingering_fate :: "nat \<Rightarrow> nat \<Rightarrow> bytes \<Rightarrow> fate" where
  "lingering_fate sp secs d = \<lparr>arrived = take (secs * sp) d, pending = drop (secs * sp) d, lost = [],
     close_time = min secs (needed sp (length d)) * 1000000000\<rparr>"

fun option_fate :: "nat \<Rightarrow> linger_option \<Rightarrow> bytes \<Rightarrow> fate" where
  "option_fate sp Disabled d = \<lparr>arrived = [], pending = d, lost = [], close_time = 0\<rparr>"
| "option_fate sp (Enabled t) d =
     (if t < 1000000000 then reset_fate d else lingering_fate sp (t div 1000000000) d)"
| "option_fate sp Abortive d = reset_fate d"

text \<open>From a connection with nothing to send to a closed one, with the data in the four places.\<close>

definition closes_with :: "fate \<Rightarrow> tcp \<Rightarrow> tcp \<Rightarrow> bool" where
  "closes_with x w w' \<longleftrightarrow> \<not> is_open w' \<and> delivered w' = delivered w @ arrived x \<and> sending w' = pending x
     \<and> discarded w' = discarded w @ lost x"

fun ordinary :: "linger_option \<Rightarrow> bool" where
  "ordinary (Enabled t) \<longleftrightarrow> t div 1000000000 < 2 ^ 31"
| "ordinary _ \<longleftrightarrow> True"

lemma managed_session_tcp:
  assumes "is_open w" "sending w = []" "\<not> broken w" "0 < speed w" "ordinary l"
  shows "\<exists>w'. let x = if incoming w \<noteq> [] then reset_fate data else option_fate (speed w) l data
    in managed_session (tcp_os err) l data w = (w', Inr (close_time x)) \<and> closes_with x w w'"
proof (cases l)
  case (Enabled t)
  define n where "n = t div 1000000000"
  have n: "as_i32 (as_secs t) = int n" "n = 0 \<longleftrightarrow> t < 1000000000"
    using assms(5) Enabled by (simp_all add: n_def as_secs_def as_i32_small div_eq_0_iff)
  show ?thesis using assms(1-4) Enabled n
    by (simp add: managed_session_def managed_new_def apply_linger_def send_all_def close_def tcp_drop_def Let_def
        closes_with_def reset_fate_def lingering_fate_def transmit_def take_needed flip: n_def)
qed (use assms(1-4) in \<open>auto simp: Let_def managed_session_def managed_new_def apply_linger_def send_all_def close_def
  tcp_drop_def closes_with_def reset_fate_def\<close>)

subsection \<open>The graceful shutdown\<close>

text \<open>After the end of the stream was sent, reading to the end empties the input, and a peer that waits has everything.\<close>

definition drained :: "tcp \<Rightarrow> tcp" where
  "drained w =
     (if waits w
      then let n = needed (speed w) (length (sending w)) in transmit n (w\<lparr>incoming := [], ticks := ticks w + n * 1000000000\<rparr>)
      else w\<lparr>incoming := []\<rparr>)"

lemma drain_tcp:
  "[] \<notin> set (incoming w) \<Longrightarrow> fin w \<Longrightarrow> \<not> broken w \<Longrightarrow> drain (tcp_os err) w = Some (drained w)"
proof (induction "incoming w" arbitrary: w)
  case Nil
  then have "w\<lparr>incoming := []\<rparr> = w" by simp
  then show ?case using Nil by (subst drain.simps) (simp add: tcp_read_def drained_def Let_def transmit_def)
next
  case (Cons d ds)
  have "drain (tcp_os err) (w\<lparr>incoming := ds\<rparr>) = Some (drained (w\<lparr>incoming := ds\<rparr>))"
    using Cons(1) [of "w\<lparr>incoming := ds\<rparr>"] Cons(2-5) by (auto simp flip: Cons(2))
  moreover have "drained (w\<lparr>incoming := ds\<rparr>) = drained w" by (simp add: drained_def)
  ultimately show ?case using Cons(2) [symmetric] Cons(3-5) by (subst drain.simps) (auto simp: tcp_read_def)
qed

definition shutdown_fate :: "tcp \<Rightarrow> bytes \<Rightarrow> fate" where
  "shutdown_fate w d =
     (if waits w then \<lparr>arrived = d, pending = [], lost = [], close_time = 0\<rparr> else lingering_fate (speed w) 5 d)"

lemma graceful_close_tcp:
  assumes "[] \<notin> set (incoming w)" "is_open w" "\<not> broken w" "0 < speed w"
  shows "\<exists>w'. graceful_close (tcp_os err) w = Some (w', Inr ())
    \<and> closes_with (shutdown_fate w (sending w)) w w'"
proof -
  let ?w = "w\<lparr>linger_set := \<lparr>l_onoff = 1, l_linger = 5\<rparr>, fin := True\<rparr>"
  have "graceful_close (tcp_os err) w = Some (tcp_drop (drained ?w), Inr ())"
    using assms drain_tcp [of ?w err] by (simp add: graceful_close_def set_linger_def as_i32_small)
  moreover have "closes_with (shutdown_fate w (sending w)) w (tcp_drop (drained ?w))"
    using assms needed_enough [OF assms(4), of "length (sending w)"]
    by (simp add: closes_with_def shutdown_fate_def drained_def tcp_drop_def transmit_def Let_def lingering_fate_def
        take_needed)
  ultimately show ?thesis by blast
qed

definition response :: bytes where
  "response = ascii (response_head @ response_body)"

lemma handle_client_tcp:
  assumes "[] \<notin> set (incoming w)" "is_open w" "sending w = []" "\<not> broken w" "0 < speed w" "\<not> fin w"
  shows "case incoming w of
      [] \<Rightarrow> if waits w then handle_client (tcp_os err) w = None
            else \<exists>w'. handle_client (tcp_os err) w = Some (w', Inr ()) \<and> closes_with (shutdown_fate w []) w w'
    | _ # _ \<Rightarrow> \<exists>w'. handle_client (tcp_os err) w = Some (w', Inr ()) \<and> closes_with (shutdown_fate w response) w w'"
proof (cases "incoming w")
  case Nil
  then show ?thesis using assms graceful_close_tcp [of w err]
    by (cases "waits w") (auto simp: handle_client_def tcp_read_def)
next
  case (Cons request later)
  let ?w = "w\<lparr>incoming := later, sending := response\<rparr>"
  have "handle_client (tcp_os err) w = graceful_close (tcp_os err) ?w"
    using assms Cons by (auto simp: handle_client_def tcp_read_def response_def)
  moreover have "shutdown_fate ?w response = shutdown_fate w response"
    by (simp add: shutdown_fate_def)
  ultimately show ?thesis using graceful_close_tcp [of ?w err] assms Cons by (simp add: closes_with_def)
qed

lemma broken_tcp:
  assumes "is_open w" "sending w = []" "broken w"
  shows "\<exists>w'. managed_session (tcp_os err) l data w = (w', Inl (Os err)) \<and> closes_with (reset_fate []) w w'"
    and "\<exists>w'. handle_client (tcp_os err) w = Some (w', Inl err) \<and> closes_with (reset_fate []) w w'"
  using assms
  by (auto simp: managed_session_def managed_new_def apply_linger_def send_all_def handle_client_def tcp_read_def
      graceful_close_def set_linger_def tcp_drop_def closes_with_def reset_fate_def)

text \<open>
  C39. What closing does to the data sent, on a connection of any speed, with any peer, for linger times below \<open>2 ^ 31\<close>
  seconds. The session of the examples writes its data and closes. If anything the peer sent was
  not read the data are lost, since the session reads nothing; otherwise the fate of the data and the time the close takes are
  those documented for the option: left to the system, delivered as far as the whole seconds
  allow, or discarded, which is also the fate for a graceful timeout below a second. The close reports success in every case. The
  shutdown program delivers its whole response, whose length is the one announced, to a peer that waits for the end
  of the stream, whatever that peer still sends; to one that closes first, what the network
  carries in five seconds; a peer that waits and sends nothing is waited for without end. On a broken connection both
  return its error and close the socket.
\<close>

theorem linger_delivery:
  assumes "is_open w" "sending w = []" "\<not> fin w" "[] \<notin> set (incoming w)" "0 < speed w" "ordinary l"
  shows "if broken w
    then (\<exists>w'. managed_session (tcp_os err) l data w = (w', Inl (Os err)) \<and> closes_with (reset_fate []) w w')
       \<and> (\<exists>w'. handle_client (tcp_os err) w = Some (w', Inl err) \<and> closes_with (reset_fate []) w w')
    else (\<exists>w'. let x = if incoming w \<noteq> [] then reset_fate data else option_fate (speed w) l data
            in managed_session (tcp_os err) l data w = (w', Inr (close_time x)) \<and> closes_with x w w')
       \<and> (case incoming w of
            [] \<Rightarrow> if waits w then handle_client (tcp_os err) w = None
                  else \<exists>w'. handle_client (tcp_os err) w = Some (w', Inr ()) \<and> closes_with (shutdown_fate w []) w w'
          | _ # _ \<Rightarrow> \<exists>w'. handle_client (tcp_os err) w = Some (w', Inr ()) \<and> closes_with (shutdown_fate w response) w w')
       \<and> length (ascii response_body) = 30"
proof (cases "broken w")
  case True
  then show ?thesis using broken_tcp(1) [OF assms(1,2) True, of err l data] broken_tcp(2) [OF assms(1,2) True, of err] by simp
next
  case False
  have "length (ascii response_body) = 30" by (simp add: ascii_def response_body_def)
  then show ?thesis
    using False managed_session_tcp [OF assms(1,2) False assms(5,6), of data err]
      handle_client_tcp [OF assms(4,1,2) False assms(5,3), of err]
    by simp
qed

definition example_tcp :: "bytes list \<Rightarrow> bool \<Rightarrow> tcp" where
  "example_tcp pieces w =
     \<lparr>sending = [], delivered = [], discarded = [], incoming = pieces, waits = w, fin = False, broken = False, speed = 2,
      linger_set = \<lparr>l_onoff = 0, l_linger = 0\<rparr>, is_open = True, ticks = 0\<rparr>"

lemma example_fields:
  "sending (example_tcp p b) = []" "delivered (example_tcp p b) = []" "discarded (example_tcp p b) = []"
  "incoming (example_tcp p b) = p" "waits (example_tcp p b) = b" "\<not> fin (example_tcp p b)" "\<not> broken (example_tcp p b)"
  "speed (example_tcp p b) = 2" "is_open (example_tcp p b)"
  by (simp_all add: example_tcp_def)

text \<open>
  Lingering for one second at two bytes a second delivers two bytes of three; half a second delivers none; the shutdown
  program delivers its response although the peer goes on sending.
\<close>

lemma linger_delivery_witness:
  "(\<exists>w'. managed_session (tcp_os ()) (Enabled 1500000000) [1, 2, 3] (example_tcp [] False) = (w', Inr 1000000000)
        \<and> delivered w' = [1, 2] \<and> sending w' = [3])
   \<and> (\<exists>w'. managed_session (tcp_os ()) (Enabled 500000000) [1, 2, 3] (example_tcp [] False) = (w', Inr 0)
        \<and> delivered w' = [] \<and> discarded w' = [1, 2, 3])
   \<and> (\<exists>w'. handle_client (tcp_os ()) (example_tcp [[7], [8, 9]] True) = Some (w', Inr ()) \<and> delivered w' = response)"
proof (intro conjI)
  show "\<exists>w'. managed_session (tcp_os ()) (Enabled 1500000000) [1, 2, 3] (example_tcp [] False) = (w', Inr 1000000000)
      \<and> delivered w' = [1, 2] \<and> sending w' = [3]"
    using linger_delivery [of "example_tcp [] False" "Enabled 1500000000" "()" "[1, 2, 3]"]
    by (auto simp: closes_with_def lingering_fate_def needed_def example_fields)
  show "\<exists>w'. managed_session (tcp_os ()) (Enabled 500000000) [1, 2, 3] (example_tcp [] False) = (w', Inr 0)
      \<and> delivered w' = [] \<and> discarded w' = [1, 2, 3]"
    using linger_delivery [of "example_tcp [] False" "Enabled 500000000" "()" "[1, 2, 3]"]
    by (auto simp: closes_with_def reset_fate_def example_fields)
  show "\<exists>w'. handle_client (tcp_os ()) (example_tcp [[7], [8, 9]] True) = Some (w', Inr ()) \<and> delivered w' = response"
    using linger_delivery [of "example_tcp [[7], [8, 9]] True" Disabled "()" "[]"]
    by (auto simp: closes_with_def shutdown_fate_def example_fields)
qed

subsection \<open>Reading the option back\<close>

lemma linger_round_trip:
  "get_linger (tcp_os err) (fst (set_linger_mode (tcp_os err) mode w)) =
     (w\<lparr>linger_set := mode_struct mode\<rparr>,
      Inr (case mode of Default \<Rightarrow> (False, 0) | Graceful t \<Rightarrow> (True, as_i32 (as_secs t)) | ModeAbortive \<Rightarrow> (True, 0)))"
  by (cases mode) (simp_all add: get_linger_def set_linger_mode_def Let_def)

text \<open>Seconds that do not fit in 31 bits come back negative.\<close>

lemma huge_timeout_negative:
  assumes "2 ^ 31 \<le> secs" "secs < 2 ^ 32"
  shows "as_i32 secs < 0"
proof -
  have "int secs div 2 ^ 31 = 1" using assms by (simp add: div_pos_geq)
  then show ?thesis by (simp add: as_i32_def bit_iff_odd)
qed

text \<open>A socket that was closed refuses everything.\<close>

lemma closed_refuses:
  assumes "\<not> stream m"
  shows "send_all os m d w = (w, Inl (NotConnected ''Socket closed''))"
    and "receive os m w = Some (w, Inl (NotConnected ''Socket closed''))"
    and "close os m w = (w, Inl (NotConnected ''Socket already closed''))"
  using assms by (simp_all add: send_all_def receive_def close_def)

end
