(* ===== verification/Packet_Header.thy ===== *)
theory Packet_Header
  imports Byte_Codec
begin

text \<open>
  \<^verbatim>\<open>TCPIP/src/02\<close>: network byte order. The byte order of the machine is an argument: on a big-endian machine
  \<open>to_be\<close> is the identity, on a little-endian one it reverses the bytes, and the native bytes of an
  integer differ accordingly.
\<close>

datatype byte_order = BigEndian | LittleEndian

text \<open>\<open>swap_bytes\<close> of an unsigned integer of \<open>k\<close> bytes.\<close>

definition swap_nat :: "nat \<Rightarrow> nat \<Rightarrow> nat" where
  "swap_nat k v = le_nat (be_bytes k v)"

fun to_be :: "byte_order \<Rightarrow> nat \<Rightarrow> nat \<Rightarrow> nat" where
  "to_be BigEndian k v = v" | "to_be LittleEndian k v = swap_nat k v"

fun from_be :: "byte_order \<Rightarrow> nat \<Rightarrow> nat \<Rightarrow> nat" where
  "from_be BigEndian k v = v" | "from_be LittleEndian k v = swap_nat k v"

fun to_ne_bytes :: "byte_order \<Rightarrow> nat \<Rightarrow> nat \<Rightarrow> bytes" where
  "to_ne_bytes BigEndian k v = be_bytes k v" | "to_ne_bytes LittleEndian k v = le_bytes k v"

subsection \<open>The header\<close>

record packet_header =
  magic :: nat
  version :: nat
  payload_length :: nat
  sequence :: nat

definition header_new :: "nat \<Rightarrow> nat \<Rightarrow> packet_header" where
  "header_new len sq = \<lparr>magic = 0x50415753, version = 1, payload_length = len, sequence = sq\<rparr>"

definition to_network_order :: "byte_order \<Rightarrow> packet_header \<Rightarrow> packet_header" where
  "to_network_order e h =
     \<lparr>magic = to_be e 4 (magic h), version = to_be e 2 (version h),
      payload_length = to_be e 2 (payload_length h), sequence = to_be e 4 (sequence h)\<rparr>"

definition from_network_order :: "byte_order \<Rightarrow> packet_header \<Rightarrow> packet_header" where
  "from_network_order e h =
     \<lparr>magic = from_be e 4 (magic h), version = from_be e 2 (version h),
      payload_length = from_be e 2 (payload_length h), sequence = from_be e 4 (sequence h)\<rparr>"

definition to_bytes :: "byte_order \<Rightarrow> packet_header \<Rightarrow> bytes" where
  "to_bytes e h =
     (let n = to_network_order e h
      in to_ne_bytes e 4 (magic n) @ to_ne_bytes e 2 (version n) @ to_ne_bytes e 2 (payload_length n)
         @ to_ne_bytes e 4 (sequence n))"

text \<open>The fields fit their types \<open>u32\<close>, \<open>u16\<close>, \<open>u16\<close> and \<open>u32\<close>.\<close>

definition header_ok :: "packet_header \<Rightarrow> bool" where
  "header_ok h \<longleftrightarrow> magic h < 2 ^ 32 \<and> version h < 2 ^ 16 \<and> payload_length h < 2 ^ 16 \<and> sequence h < 2 ^ 32"

subsection \<open>The built-in methods\<close>

text \<open>The conversions of \<^verbatim>\<open>using_built_in_methods.rs\<close>: network order of port and address, and back.\<close>

definition port_and_ip :: "byte_order \<Rightarrow> (nat \<times> nat) \<times> nat \<times> nat" where
  "port_and_ip e =
     (let net_port = to_be e 2 8080; net_ip = to_be e 4 0xC0A80001
      in ((net_port, net_ip), from_be e 2 net_port, from_be e 4 net_ip))"

text \<open>\<open>u32::from(Ipv4Addr)\<close> and back: the octets are those of the integer in big-endian order.\<close>

definition ip_to_u32 :: "bytes \<Rightarrow> nat" where
  "ip_to_u32 octets = be_nat octets"

definition ip_from_u32 :: "nat \<Rightarrow> bytes" where
  "ip_from_u32 v = be_bytes 4 v"

subsection \<open>Network order is big-endian on every machine\<close>

lemma swap_nat_bound: "swap_nat k v < 256 ^ k"
  using le_nat_bound [of "be_bytes k v"] by (simp add: swap_nat_def)

lemma le_bytes_swap: "le_bytes k (swap_nat k v) = be_bytes k v"
  using le_bytes_le_nat [of "be_bytes k v"] by (simp add: swap_nat_def)

lemma swap_swap: "v < 256 ^ k \<Longrightarrow> swap_nat k (swap_nat k v) = v"
  using le_bytes_swap [of k v] by (simp add: swap_nat_def le_bytes_def le_nat_def be_nat_be_bytes)

lemma ne_bytes_to_be: "to_ne_bytes e k (to_be e k v) = be_bytes k v"
  by (cases e) (simp_all add: le_bytes_swap)

lemma from_be_to_be: "v < 256 ^ k \<Longrightarrow> from_be e k (to_be e k v) = v"
  by (cases e) (simp_all add: swap_swap)

lemma be_bytes_4: "be_bytes 4 v = [of_nat (v div 256 div 256 div 256), of_nat (v div 256 div 256), of_nat (v div 256), of_nat v]"
  and be_bytes_2: "be_bytes 2 v = [of_nat (v div 256), of_nat v]"
proof -
  have "(4::nat) = Suc (Suc (Suc (Suc 0)))" "(2::nat) = Suc (Suc 0)" by simp_all
  then show "be_bytes 4 v = [of_nat (v div 256 div 256 div 256), of_nat (v div 256 div 256), of_nat (v div 256), of_nat v]"
    "be_bytes 2 v = [of_nat (v div 256), of_nat v]"
    by (simp_all only: be_bytes.simps append.simps)
qed

text \<open>
  The header on the wire does not depend on the machine: on big- and little-endian machines it is the
  same twelve bytes, each field big-endian in its place, from which the fields can be read back; and converting
  a header to network order and back, as the receiver does, gives the header.
\<close>

theorem header_network_order:
  assumes "header_ok h"
  shows "to_bytes e h = be_bytes 4 (magic h) @ be_bytes 2 (version h) @ be_bytes 2 (payload_length h) @ be_bytes 4 (sequence h)
    \<and> length (to_bytes e h) = 12
    \<and> be_nat (take 4 (to_bytes e h)) = magic h \<and> be_nat (take 2 (drop 6 (to_bytes e h))) = payload_length h
    \<and> from_network_order e (to_network_order e h) = h"
proof -
  have "from_network_order e (to_network_order e h) = h"
    using assms by (simp add: from_network_order_def to_network_order_def header_ok_def from_be_to_be)
  then show ?thesis using assms
    by (simp add: to_bytes_def to_network_order_def ne_bytes_to_be header_ok_def be_nat_be_bytes_small)
qed

lemma header_network_order_witness:
  "to_bytes LittleEndian (header_new 256 42) = [0x50, 0x41, 0x57, 0x53, 0, 1, 1, 0, 0, 0, 0, 42]"
proof -
  have "header_ok (header_new 256 42)" by (simp add: header_ok_def header_new_def)
  moreover have "be_bytes 4 0x50415753 @ be_bytes 2 1 @ be_bytes 2 256 @ be_bytes 4 42 =
      [0x50, 0x41, 0x57, 0x53, 0, 1, 1, 0, 0, 0, 0, 42]" by (simp add: be_bytes_2 be_bytes_4)
  ultimately show ?thesis using header_network_order [of "header_new 256 42" LittleEndian]
    by (simp add: header_new_def del: be_bytes.simps)
qed

lemma port_and_ip_back: "snd (port_and_ip e) = (8080, 0xC0A80001)"
  by (simp add: port_and_ip_def from_be_to_be)

text \<open>
  The integer of an address is its octets read in big-endian order: a number in host order, which on a
  little-endian machine is not what \<open>to_be\<close> calls network order.
\<close>

lemma ip_round_trip: "length octets = 4 \<Longrightarrow> ip_from_u32 (ip_to_u32 octets) = octets"
  using be_bytes_be_nat [of octets] by (simp add: ip_from_u32_def ip_to_u32_def)

lemma ip_is_host_order:
  "ip_to_u32 [192, 168, 0, 1] = 0xC0A80001" "snd (fst (port_and_ip LittleEndian)) = 0x0100A8C0"
  by (simp_all add: port_and_ip_def swap_nat_def le_nat_def ip_to_u32_def be_nat_def be_bytes_4 be_bytes_2)

end
