(* ===== verification/Arp.thy ===== *)
theory Arp
  imports Wire_Interface
begin

text \<open>
  \<^verbatim>\<open>TCPIP/src/52/rust/arp_implementation.rs\<close>: ARP packets and their wire format, the
  address cache with static and expiring entries, the packet handler and the spoof detector.
  The clock is an argument: \<open>now\<close> is what \<^verbatim>\<open>SystemTime::now()\<close> returns, in
  nanoseconds, and the cache timeout is in the same unit. A hash map is a finite partial function.
\<close>

subsection \<open>Packets\<close>

datatype arp_operation = Request | Reply

definition arp_operation_from_u16 :: "u16 \<Rightarrow> arp_operation option" where
  "arp_operation_from_u16 value =
     (if value = 1 then Some Request else if value = 2 then Some Reply else None)"

fun arp_operation_as_u16 :: "arp_operation \<Rightarrow> u16" where
  "arp_operation_as_u16 Request = 1"
| "arp_operation_as_u16 Reply = 2"

datatype mac_address = MacAddress u8 u8 u8 u8 u8 u8

datatype ipv4_addr = Ipv4Addr u8 u8 u8 u8

definition mac_broadcast :: mac_address where
  "mac_broadcast = MacAddress 0xff 0xff 0xff 0xff 0xff 0xff"

definition mac_zero :: mac_address where
  "mac_zero = MacAddress 0 0 0 0 0 0"

fun mac_as_bytes :: "mac_address \<Rightarrow> bytes" where
  "mac_as_bytes (MacAddress a b c d e f) = [a, b, c, d, e, f]"

fun ipv4_octets :: "ipv4_addr \<Rightarrow> bytes" where
  "ipv4_octets (Ipv4Addr a b c d) = [a, b, c, d]"

definition hex_digit :: "nat \<Rightarrow> char" where
  "hex_digit n = ''0123456789abcdef'' ! n"

definition hex2 :: "u8 \<Rightarrow> string" where
  "hex2 b = [hex_digit (unat b div 16), hex_digit (unat b mod 16)]"

fun mac_display :: "mac_address \<Rightarrow> string" where
  "mac_display (MacAddress a b c d e f) =
     hex2 a @ '':'' @ hex2 b @ '':'' @ hex2 c @ '':'' @ hex2 d @ '':'' @ hex2 e @ '':'' @ hex2 f"

record arp_packet =
  hw_type :: u16
  proto_type :: u16
  hw_addr_len :: u8
  proto_addr_len :: u8
  operation :: arp_operation
  sender_hw_addr :: mac_address
  sender_proto_addr :: ipv4_addr
  target_hw_addr :: mac_address
  target_proto_addr :: ipv4_addr

definition new_request :: "mac_address \<Rightarrow> ipv4_addr \<Rightarrow> ipv4_addr \<Rightarrow> arp_packet" where
  "new_request sender_mac sender_ip target_ip =
     \<lparr>hw_type = 1, proto_type = 0x0800, hw_addr_len = 6, proto_addr_len = 4, operation = Request,
      sender_hw_addr = sender_mac, sender_proto_addr = sender_ip,
      target_hw_addr = mac_zero, target_proto_addr = target_ip\<rparr>"

definition new_reply :: "mac_address \<Rightarrow> ipv4_addr \<Rightarrow> mac_address \<Rightarrow> ipv4_addr \<Rightarrow> arp_packet" where
  "new_reply sender_mac sender_ip target_mac target_ip =
     \<lparr>hw_type = 1, proto_type = 0x0800, hw_addr_len = 6, proto_addr_len = 4, operation = Reply,
      sender_hw_addr = sender_mac, sender_proto_addr = sender_ip,
      target_hw_addr = target_mac, target_proto_addr = target_ip\<rparr>"

definition new_gratuitous :: "mac_address \<Rightarrow> ipv4_addr \<Rightarrow> arp_packet" where
  "new_gratuitous mac ip =
     \<lparr>hw_type = 1, proto_type = 0x0800, hw_addr_len = 6, proto_addr_len = 4, operation = Reply,
      sender_hw_addr = mac, sender_proto_addr = ip,
      target_hw_addr = mac_zero, target_proto_addr = ip\<rparr>"

definition arp_to_bytes :: "arp_packet \<Rightarrow> bytes" where
  "arp_to_bytes p =
     be_bytes 2 (unat (hw_type p)) @ be_bytes 2 (unat (proto_type p)) @
     [hw_addr_len p] @ [proto_addr_len p] @
     be_bytes 2 (unat (arp_operation_as_u16 (operation p))) @
     mac_as_bytes (sender_hw_addr p) @ ipv4_octets (sender_proto_addr p) @
     mac_as_bytes (target_hw_addr p) @ ipv4_octets (target_proto_addr p)"

definition arp_from_bytes :: "bytes \<Rightarrow> string + arp_packet" where
  "arp_from_bytes d =
     (if length d < 28 then Inl ''Insufficient data for ARP packet''
      else
        case arp_operation_from_u16 (of_nat (be_nat [d ! 6, d ! 7])) of
          None \<Rightarrow> Inl ''Invalid ARP operation''
        | Some op \<Rightarrow> Inr
            \<lparr>hw_type = of_nat (be_nat [d ! 0, d ! 1]), proto_type = of_nat (be_nat [d ! 2, d ! 3]),
             hw_addr_len = d ! 4, proto_addr_len = d ! 5, operation = op,
             sender_hw_addr = MacAddress (d ! 8) (d ! 9) (d ! 10) (d ! 11) (d ! 12) (d ! 13),
             sender_proto_addr = Ipv4Addr (d ! 14) (d ! 15) (d ! 16) (d ! 17),
             target_hw_addr = MacAddress (d ! 18) (d ! 19) (d ! 20) (d ! 21) (d ! 22) (d ! 23),
             target_proto_addr = Ipv4Addr (d ! 24) (d ! 25) (d ! 26) (d ! 27)\<rparr>)"

definition is_gratuitous :: "arp_packet \<Rightarrow> bool" where
  "is_gratuitous p \<longleftrightarrow> sender_proto_addr p = target_proto_addr p"

fun ipv4_display :: "ipv4_addr \<Rightarrow> string" where
  "ipv4_display (Ipv4Addr a b c d) =
     string_of_nat (unat a) @ ''.'' @ string_of_nat (unat b) @ ''.'' @
     string_of_nat (unat c) @ ''.'' @ string_of_nat (unat d)"

definition arp_display :: "arp_packet \<Rightarrow> string" where
  "arp_display p =
     ''ARP '' @ (case operation p of Request \<Rightarrow> ''Request'' | Reply \<Rightarrow> ''Reply'') @ [char_of (10 :: nat)] @
     ''  Sender: '' @ ipv4_display (sender_proto_addr p) @ '' ('' @ mac_display (sender_hw_addr p) @ '')'' @
     [char_of (10 :: nat)] @
     ''  Target: '' @ ipv4_display (target_proto_addr p) @ '' ('' @ mac_display (target_hw_addr p) @ '')''"

subsection \<open>The cache\<close>

record arp_cache_entry =
  mac_addr :: mac_address
  timestamp :: nat
  is_static :: bool

record arp_cache =
  entries :: "ipv4_addr \<rightharpoonup> arp_cache_entry"
  timeout :: nat

definition nanos_per_sec :: nat where
  "nanos_per_sec = 1000000000"

definition arp_cache_new :: "u64 \<Rightarrow> arp_cache" where
  "arp_cache_new timeout_seconds =
     \<lparr>entries = Map.empty, timeout = unat timeout_seconds * nanos_per_sec\<rparr>"

definition arp_add :: "nat \<Rightarrow> arp_cache \<Rightarrow> ipv4_addr \<Rightarrow> mac_address \<Rightarrow> bool \<Rightarrow> arp_cache" where
  "arp_add now c ip mac static =
     (let entry = \<lparr>mac_addr = mac, timestamp = now, is_static = static\<rparr>
      in c\<lparr>entries := (entries c)(ip \<mapsto> entry)\<rparr>)"

text \<open>\<^verbatim>\<open>duration_since\<close> is an error when the timestamp lies in the future.\<close>

definition duration_since :: "nat \<Rightarrow> nat \<Rightarrow> nat option" where
  "duration_since now ts = (if ts \<le> now then Some (now - ts) else None)"

definition arp_lookup :: "nat \<Rightarrow> arp_cache \<Rightarrow> ipv4_addr \<Rightarrow> mac_address option" where
  "arp_lookup now c ip =
     (case entries c ip of
        None \<Rightarrow> None
      | Some entry \<Rightarrow>
          if is_static entry then Some (mac_addr entry)
          else (case duration_since now (timestamp entry) of
                  Some elapsed \<Rightarrow> if elapsed < timeout c then Some (mac_addr entry) else None
                | None \<Rightarrow> None))"

definition arp_retain :: "nat \<Rightarrow> arp_cache \<Rightarrow> arp_cache_entry \<Rightarrow> bool" where
  "arp_retain now c entry \<longleftrightarrow>
     (if is_static entry then True
      else (case duration_since now (timestamp entry) of
              Some elapsed \<Rightarrow> elapsed < timeout c
            | None \<Rightarrow> False))"

definition arp_cleanup :: "nat \<Rightarrow> arp_cache \<Rightarrow> arp_cache" where
  "arp_cleanup now c =
     c\<lparr>entries := (\<lambda>ip. case entries c ip of
         None \<Rightarrow> None | Some e \<Rightarrow> if arp_retain now c e then Some e else None)\<rparr>"

definition arp_remove :: "arp_cache \<Rightarrow> ipv4_addr \<Rightarrow> arp_cache \<times> bool" where
  "arp_remove c ip = (c\<lparr>entries := (entries c)(ip := None)\<rparr>, entries c ip \<noteq> None)"

definition arp_clear :: "arp_cache \<Rightarrow> arp_cache" where
  "arp_clear c = c\<lparr>entries := Map.empty\<rparr>"

text \<open>The listing, up to the unspecified iteration order of the hash map.\<close>

definition arp_entries :: "arp_cache \<Rightarrow> (ipv4_addr \<times> mac_address \<times> bool) set" where
  "arp_entries c =
     (\<lambda>ip. (ip, mac_addr (the (entries c ip)), is_static (the (entries c ip)))) ` dom (entries c)"

subsection \<open>The handler and the spoof detector\<close>

record arp_handler =
  cache :: arp_cache
  local_ip :: ipv4_addr
  local_mac :: mac_address

definition arp_handler_new :: "ipv4_addr \<Rightarrow> mac_address \<Rightarrow> u64 \<Rightarrow> arp_handler" where
  "arp_handler_new ip mac cache_timeout =
     \<lparr>cache = arp_cache_new cache_timeout, local_ip = ip, local_mac = mac\<rparr>"

definition handle_packet :: "nat \<Rightarrow> arp_handler \<Rightarrow> arp_packet \<Rightarrow> arp_handler \<times> arp_packet option" where
  "handle_packet now h p =
     (let h' = h\<lparr>cache := arp_add now (cache h) (sender_proto_addr p) (sender_hw_addr p) False\<rparr> in
      if target_proto_addr p \<noteq> local_ip h' then (h', None)
      else case operation p of
        Request \<Rightarrow> (h', Some (new_reply (local_mac h') (local_ip h') (sender_hw_addr p) (sender_proto_addr p)))
      | Reply \<Rightarrow> (h', None))"

definition arp_resolve :: "nat \<Rightarrow> arp_handler \<Rightarrow> ipv4_addr \<Rightarrow> mac_address option" where
  "arp_resolve now h ip =
     (case arp_lookup now (cache h) ip of Some mac \<Rightarrow> Some mac | None \<Rightarrow> None)"

definition send_gratuitous :: "arp_handler \<Rightarrow> arp_packet" where
  "send_gratuitous h = new_gratuitous (local_mac h) (local_ip h)"

type_synonym spoof_detector = "ipv4_addr \<rightharpoonup> mac_address"

definition spoof_detector_new :: spoof_detector where
  "spoof_detector_new = Map.empty"

definition check_packet :: "spoof_detector \<Rightarrow> arp_packet \<Rightarrow> spoof_detector \<times> bool" where
  "check_packet known p =
     (case known (sender_proto_addr p) of
        Some known_mac \<Rightarrow>
          if known_mac \<noteq> sender_hw_addr p then (known, False) else (known, True)
      | None \<Rightarrow> (known(sender_proto_addr p \<mapsto> sender_hw_addr p), True))"

subsection \<open>The wire format meets the codec contract\<close>

lemma arp_operation_roundtrip [simp]:
  "arp_operation_from_u16 (arp_operation_as_u16 op) = Some op"
  by (cases op) (simp_all add: arp_operation_from_u16_def)

lemma arp_operation_from_u16_SomeD:
  "arp_operation_from_u16 v = Some op \<Longrightarrow> arp_operation_as_u16 op = v"
  by (auto simp: arp_operation_from_u16_def split: if_splits)

lemma arp_length_to_bytes [simp]: "length (arp_to_bytes p) = 28"
  by (cases "sender_hw_addr p"; cases "sender_proto_addr p"; cases "target_hw_addr p";
      cases "target_proto_addr p") (simp add: arp_to_bytes_def)

lemma arp_decode_encode: "arp_from_bytes (arp_to_bytes p @ rest) = Inr p"
  by (cases "sender_hw_addr p"; cases "sender_proto_addr p"; cases "target_hw_addr p";
      cases "target_proto_addr p"; cases p)
    (simp add: arp_to_bytes_def arp_from_bytes_def be_bytes_2 codec)

lemma arp_decode_sound:
  assumes "arp_from_bytes d = Inr p"
  shows "\<exists>rest. d = arp_to_bytes p @ rest"
proof -
  have len: "28 \<le> length d"
    using assms by (auto simp: arp_from_bytes_def split: if_splits)
  from assms len obtain op where
    op: "arp_operation_as_u16 op = of_nat (be_nat [d ! 6, d ! 7])" and
    p: "p = \<lparr>hw_type = of_nat (be_nat [d ! 0, d ! 1]), proto_type = of_nat (be_nat [d ! 2, d ! 3]),
             hw_addr_len = d ! 4, proto_addr_len = d ! 5, operation = op,
             sender_hw_addr = MacAddress (d ! 8) (d ! 9) (d ! 10) (d ! 11) (d ! 12) (d ! 13),
             sender_proto_addr = Ipv4Addr (d ! 14) (d ! 15) (d ! 16) (d ! 17),
             target_hw_addr = MacAddress (d ! 18) (d ! 19) (d ! 20) (d ! 21) (d ! 22) (d ! 23),
             target_proto_addr = Ipv4Addr (d ! 24) (d ! 25) (d ! 26) (d ! 27)\<rparr>"
    by (auto simp: arp_from_bytes_def split: option.splits dest!: arp_operation_from_u16_SomeD)
  have "arp_to_bytes p = map ((!) d) [0..<28]"
    unfolding p arp_to_bytes_def by (simp add: op codec upt_0_numeral upt_1_numeral)
  with fixed_header [OF len] show ?thesis by metis
qed

interpretation arp_codec: packet_codec "\<lambda>_. True" arp_to_bytes arp_from_bytes
  by unfold_locales (simp_all add: arp_decode_encode arp_decode_sound)

subsection \<open>Histories of the cache\<close>

text \<open>
  Everything a handler and its owner can do to the cache, stamped with the time it happens.
\<close>

datatype arp_event =
    Add ipv4_addr mac_address bool
  | Cleanup
  | Remove ipv4_addr
  | Clear
  | Receive arp_packet

fun arp_event_step :: "arp_handler \<Rightarrow> nat \<times> arp_event \<Rightarrow> arp_handler" where
  "arp_event_step h (now, Add ip mac static) = h\<lparr>cache := arp_add now (cache h) ip mac static\<rparr>"
| "arp_event_step h (now, Cleanup) = h\<lparr>cache := arp_cleanup now (cache h)\<rparr>"
| "arp_event_step h (now, Remove ip) = h\<lparr>cache := fst (arp_remove (cache h) ip)\<rparr>"
| "arp_event_step h (now, Clear) = h\<lparr>cache := arp_clear (cache h)\<rparr>"
| "arp_event_step h (now, Receive p) = fst (handle_packet now h p)"

definition arp_run :: "arp_handler \<Rightarrow> (nat \<times> arp_event) list \<Rightarrow> arp_handler" where
  "arp_run h es = foldl arp_event_step h es"

text \<open>
  What an address was last bound to, reading the history backwards; cleaning up plays no part.
\<close>

fun last_binding :: "ipv4_addr \<Rightarrow> (nat \<times> arp_event) list \<Rightarrow> (mac_address \<times> nat \<times> bool) option" where
  "last_binding ip [] = None"
| "last_binding ip ((t, Add i mac static) # es) =
     (if i = ip then Some (mac, t, static) else last_binding ip es)"
| "last_binding ip ((t, Cleanup) # es) = last_binding ip es"
| "last_binding ip ((t, Remove i) # es) = (if i = ip then None else last_binding ip es)"
| "last_binding ip ((t, Clear) # es) = None"
| "last_binding ip ((t, Receive p) # es) =
     (if sender_proto_addr p = ip then Some (sender_hw_addr p, t, False) else last_binding ip es)"

definition binding_visible :: "nat \<Rightarrow> nat \<Rightarrow> (mac_address \<times> nat \<times> bool) option \<Rightarrow> mac_address option" where
  "binding_visible lifetime now b =
     (case b of None \<Rightarrow> None
      | Some (mac, t, static) \<Rightarrow> if static \<or> now < t + lifetime then Some mac else None)"

text \<open>
  The cache holds the last binding, or has dropped it after it expired.
\<close>

definition entry_of :: "mac_address \<times> nat \<times> bool \<Rightarrow> arp_cache_entry" where
  "entry_of b = (case b of (mac, t, static) \<Rightarrow> \<lparr>mac_addr = mac, timestamp = t, is_static = static\<rparr>)"

definition cache_tracks :: "nat \<Rightarrow> arp_cache \<Rightarrow> ipv4_addr \<Rightarrow> (mac_address \<times> nat \<times> bool) option \<Rightarrow> bool" where
  "cache_tracks clock c ip b \<longleftrightarrow>
     (case b of None \<Rightarrow> entries c ip = None
      | Some (mac, t, static) \<Rightarrow> t \<le> clock \<and>
          (entries c ip = Some (entry_of (mac, t, static)) \<or>
           (entries c ip = None \<and> \<not> static \<and> t + timeout c \<le> clock)))"

lemma arp_event_step_static [simp]:
  "timeout (cache (arp_event_step h e)) = timeout (cache h)"
  "local_ip (arp_event_step h e) = local_ip h"
  "local_mac (arp_event_step h e) = local_mac h"
  by (cases "(h, e)" rule: arp_event_step.cases;
      simp add: arp_add_def arp_cleanup_def arp_remove_def arp_clear_def handle_packet_def Let_def
      split: arp_operation.splits)+

lemma handle_packet_cache [simp]:
  "cache (fst (handle_packet now h p)) =
     arp_add now (cache h) (sender_proto_addr p) (sender_hw_addr p) False"
  by (simp add: handle_packet_def Let_def split: arp_operation.splits)

lemma cache_tracks_mono: "cache_tracks clock c ip b \<Longrightarrow> clock \<le> clock' \<Longrightarrow> cache_tracks clock' c ip b"
  by (auto simp: cache_tracks_def split: option.splits)

lemma cache_tracks_cleanup:
  "cache_tracks now c ip b \<Longrightarrow> cache_tracks now (arp_cleanup now c) ip b"
  by (auto simp: cache_tracks_def arp_cleanup_def arp_retain_def duration_since_def entry_of_def
      split: option.splits)

lemma cache_tracks_step:
  assumes "cache_tracks clock (cache h) ip (last_binding ip es)" and "clock \<le> now"
  shows "cache_tracks now (cache (arp_event_step h (now, e))) ip (last_binding ip ((now, e) # es))"
proof (cases e)
  case Cleanup
  then show ?thesis using cache_tracks_mono [OF assms] cache_tracks_cleanup by simp
qed (use cache_tracks_mono [OF assms] in
    \<open>auto simp: cache_tracks_def arp_add_def arp_remove_def arp_clear_def entry_of_def split: option.splits\<close>)

lemma cache_tracks_run:
  assumes "sorted (map fst es)"
  shows "cache_tracks (if es = [] then 0 else fst (last es))
           (cache (arp_run (arp_handler_new ip0 mac0 secs) es)) ip (last_binding ip (rev es))"
  using assms
proof (induction es rule: rev_induct)
  case Nil
  then show ?case
    by (simp add: arp_run_def arp_handler_new_def arp_cache_new_def cache_tracks_def)
next
  case (snoc e es)
  obtain now ev where e: "e = (now, ev)" by fastforce
  have "(if es = [] then 0 else fst (last es)) \<le> now"
    using snoc.prems e by (auto simp: sorted_append)
  from cache_tracks_step [OF _ this] snoc e show ?case
    by (simp add: arp_run_def sorted_append)
qed

lemma arp_run_timeout [simp]: "timeout (cache (arp_run h es)) = timeout (cache h)"
  by (induction es arbitrary: h) (simp_all add: arp_run_def)

lemma cache_tracks_lookup:
  assumes "cache_tracks clock c ip b" and "clock \<le> now"
  shows "arp_lookup now c ip = binding_visible (timeout c) now b"
  using assms
  by (auto simp: cache_tracks_def arp_lookup_def binding_visible_def duration_since_def entry_of_def
      split: option.splits)

subsection \<open>Exchanges over the wire and the spoof detector over time\<close>

text \<open>A station takes bytes from the wire and answers with bytes.\<close>

definition arp_station :: "nat \<Rightarrow> arp_handler \<Rightarrow> bytes \<Rightarrow> arp_handler \<times> bytes option" where
  "arp_station now h bs =
     (case arp_from_bytes bs of
        Inl _ \<Rightarrow> (h, None)
      | Inr p \<Rightarrow> (case handle_packet now h p of (h', r) \<Rightarrow> (h', map_option arp_to_bytes r)))"

lemma resolve_after_handle:
  assumes "t \<le> now"
  shows "arp_resolve now (fst (handle_packet t h p)) (sender_proto_addr p) =
    (if now < t + timeout (cache h) then Some (sender_hw_addr p) else None)"
  using assms
  by (auto simp: arp_resolve_def arp_lookup_def arp_add_def duration_since_def split: option.splits)

lemma station_answers:
  assumes "target_proto_addr p = local_ip h" and "operation p = Request"
  shows "arp_station now h (arp_to_bytes p) =
    (fst (handle_packet now h p),
     Some (arp_to_bytes (new_reply (local_mac h) (local_ip h) (sender_hw_addr p) (sender_proto_addr p))))"
  using assms arp_codec.decode_exact [of p]
  by (simp add: arp_station_def handle_packet_def Let_def)

lemma station_absorbs:
  assumes "operation p = Reply"
  shows "arp_station now h (arp_to_bytes p) = (fst (handle_packet now h p), None)"
  using assms arp_codec.decode_exact [of p]
  by (simp add: arp_station_def handle_packet_def Let_def)

fun check_packets :: "spoof_detector \<Rightarrow> arp_packet list \<Rightarrow> bool list" where
  "check_packets known [] = []"
| "check_packets known (p # ps) =
     (let (known', ok) = check_packet known p in ok # check_packets known' ps)"

lemma check_packets_verdicts:
  assumes "i < length ps"
  shows "check_packets known ps ! i \<longleftrightarrow>
    sender_hw_addr (ps ! i) =
      (case known (sender_proto_addr (ps ! i)) of
         Some m \<Rightarrow> m
       | None \<Rightarrow> sender_hw_addr (the (find (\<lambda>q. sender_proto_addr q = sender_proto_addr (ps ! i)) ps)))"
  using assms
proof (induction ps arbitrary: known i)
  case (Cons p ps)
  show ?case
  proof (cases i)
    case 0
    then show ?thesis
      by (auto simp: check_packet_def split: option.splits)
  next
    case (Suc j)
    then show ?thesis
      using Cons.IH [of j "fst (check_packet known p)"] Cons.prems
      by (auto simp: check_packet_def split: option.splits if_splits)
  qed
qed simp

subsection \<open>Properties\<close>

text \<open>
  The parser is the exact inverse of the serializer: bytes parse to a packet exactly when they
  begin with the 28 bytes that packet serializes to. So every packet survives the wire, and
  nothing else parses.
\<close>
theorem arp_parse_iff_serialized:
  "(arp_from_bytes d = Inr p \<longleftrightarrow> (\<exists>rest. d = arp_to_bytes p @ rest)) \<and> length (arp_to_bytes p) = 28"
  using arp_codec.decode_iff by simp

text \<open>
  C7. After any history of additions, received packets, removals, clearings and clean-ups with a
  clock that does not run backwards, resolving an address gives the MAC of its last binding if
  that binding is static or younger than the timeout, and nothing otherwise: when and how often
  the cache is cleaned up cannot be observed.
\<close>
theorem arp_cache_history:
  assumes "sorted (map fst es)" and "\<forall>e \<in> set es. fst e \<le> now"
  shows "arp_resolve now (arp_run (arp_handler_new lip lmac secs) es) ip =
    binding_visible (unat secs * nanos_per_sec) now (last_binding ip (rev es))"
proof -
  have "(if es = [] then 0 else fst (last es)) \<le> now"
    using assms(2) by simp
  from cache_tracks_lookup [OF cache_tracks_run [OF assms(1)] this] show ?thesis
    by (simp add: arp_resolve_def arp_handler_new_def arp_cache_new_def split: option.splits)
qed

theorem arp_cache_history_witness:
  "let gw = Ipv4Addr 192 168 1 1; m = MacAddress 2 0 0 0 0 1; t = 3 * nanos_per_sec in
   arp_resolve t (arp_run (arp_handler_new (Ipv4Addr 10 0 0 1) mac_zero 2)
     [(0, Add gw m False), (nanos_per_sec, Cleanup)]) gw = None"
  using arp_cache_history [of "[(0, Add (Ipv4Addr 192 168 1 1) (MacAddress 2 0 0 0 0 1) False),
      (nanos_per_sec, Cleanup)]" "3 * nanos_per_sec" "Ipv4Addr 10 0 0 1" mac_zero 2
      "Ipv4Addr 192 168 1 1"]
  by (simp add: binding_visible_def nanos_per_sec_def)

text \<open>
  Address resolution works end to end over the wire: when station \<open>a\<close> broadcasts a request for
  \<open>b\<close>'s address, \<open>b\<close> answers with bytes that \<open>a\<close> accepts without answering back, and until the
  timeouts run out each resolves the other's address to the other's MAC.
\<close>
theorem arp_exchange_resolves:
  assumes "t1 \<le> u" "u < t1 + timeout (cache b)" and "t2 \<le> v" "v < t2 + timeout (cache a)"
  shows "\<exists>b' a' reply.
    arp_station t1 b (arp_to_bytes (new_request (local_mac a) (local_ip a) (local_ip b))) = (b', Some reply) \<and>
    arp_station t2 a reply = (a', None) \<and>
    arp_resolve u b' (local_ip a) = Some (local_mac a) \<and>
    arp_resolve v a' (local_ip b) = Some (local_mac b)"
proof -
  let ?req = "new_request (local_mac a) (local_ip a) (local_ip b)"
  let ?rep = "new_reply (local_mac b) (local_ip b) (local_mac a) (local_ip a)"
  have "arp_station t1 b (arp_to_bytes ?req) = (fst (handle_packet t1 b ?req), Some (arp_to_bytes ?rep))"
    using station_answers [of ?req b t1] by (simp add: new_request_def)
  moreover have "arp_station t2 a (arp_to_bytes ?rep) = (fst (handle_packet t2 a ?rep), None)"
    by (rule station_absorbs) (simp add: new_reply_def)
  moreover have "arp_resolve u (fst (handle_packet t1 b ?req)) (local_ip a) = Some (local_mac a)"
    using resolve_after_handle [OF assms(1), of b ?req] assms(2) by (simp add: new_request_def)
  moreover have "arp_resolve v (fst (handle_packet t2 a ?rep)) (local_ip b) = Some (local_mac b)"
    using resolve_after_handle [OF assms(3), of a ?rep] assms(4) by (simp add: new_reply_def)
  ultimately show ?thesis by blast
qed

theorem arp_exchange_resolves_witness:
  "let a = arp_handler_new (Ipv4Addr 192 168 1 10) (MacAddress 0 17 34 51 68 85) 300;
       b = arp_handler_new (Ipv4Addr 192 168 1 50) (MacAddress 1 2 3 4 5 6) 300 in
   \<exists>b' a' reply.
    arp_station 5 b (arp_to_bytes (new_request (local_mac a) (local_ip a) (local_ip b))) = (b', Some reply) \<and>
    arp_station 9 a reply = (a', None) \<and>
    arp_resolve 7 b' (local_ip a) = Some (local_mac a) \<and>
    arp_resolve 11 a' (local_ip b) = Some (local_mac b)"
  unfolding Let_def
  by (rule arp_exchange_resolves)
    (simp_all add: arp_handler_new_def arp_cache_new_def nanos_per_sec_def)

text \<open>
  A static entry is not protected: any received packet that claims the entry's address
  replaces it, whatever the packet's target, by a dynamic entry with the packet's MAC, which is
  used until the timeout and then leaves the address unresolved.
\<close>
theorem static_entry_overwritten:
  assumes "sender_proto_addr p = ip" and "t \<le> now"
  shows "arp_resolve now
      (fst (handle_packet t (h\<lparr>cache := arp_add s (cache h) ip gateway_mac True\<rparr>) p)) ip =
    (if now < t + timeout (cache h) then Some (sender_hw_addr p) else None)"
  using resolve_after_handle [OF assms(2), of "h\<lparr>cache := arp_add s (cache h) ip gateway_mac True\<rparr>" p]
    assms(1) by (simp add: arp_add_def Let_def)

theorem static_entry_overwritten_witness:
  "let gw = Ipv4Addr 192 168 1 1; h = arp_handler_new (Ipv4Addr 192 168 1 10) (MacAddress 0 17 34 51 68 85) 300;
       spoof = new_reply mac_broadcast gw mac_zero gw in
   arp_resolve 2 (fst (handle_packet 1 (h\<lparr>cache := arp_add 0 (cache h) gw (MacAddress 1 2 3 4 5 6) True\<rparr>) spoof)) gw
     = Some mac_broadcast"
  unfolding Let_def
  by (subst static_entry_overwritten)
    (simp_all add: new_reply_def arp_handler_new_def arp_cache_new_def nanos_per_sec_def)

text \<open>
  The spoof detector trusts first use: in any packet sequence it passes a packet exactly when
  the packet's MAC is that of the first packet of the sequence with the same sender address.
\<close>
theorem spoof_detector_trusts_first_use:
  assumes "i < length ps"
  shows "check_packets spoof_detector_new ps ! i \<longleftrightarrow>
    sender_hw_addr (ps ! i) =
      sender_hw_addr (the (find (\<lambda>q. sender_proto_addr q = sender_proto_addr (ps ! i)) ps))"
  using check_packets_verdicts [OF assms, of spoof_detector_new] by (simp add: spoof_detector_new_def)

theorem spoof_detector_trusts_first_use_witness:
  "let gw = Ipv4Addr 192 168 1 1; legit = new_reply (MacAddress 1 2 3 4 5 6) gw mac_zero gw;
       spoof = new_reply mac_broadcast gw mac_zero gw in
   check_packets spoof_detector_new [legit, spoof, legit] ! 0 \<and>
   \<not> check_packets spoof_detector_new [legit, spoof, legit] ! 1"
  unfolding Let_def
  by (subst (1 2) spoof_detector_trusts_first_use) (simp_all add: new_reply_def mac_broadcast_def)

end
