(* ===== verification/Ws_Buffers.thy ===== *)
theory Ws_Buffers
  imports Complex_Main Byte_Codec
begin

text \<open>
  \<^verbatim>\<open>WebSocket/src/13/websocket_buffer_management.rs\<close>: the circular byte buffer, the dynamic
  receive buffer with its compaction, the pool of reusable buffers and the frame buffer that
  extracts WebSocket frames from received bytes.
\<close>

subsection \<open>Circular buffer\<close>

record circular_buffer =
  cb_buffer :: bytes
  cb_capacity :: nat
  cb_head :: nat
  cb_tail :: nat
  cb_size :: nat

definition cb_new :: "nat \<Rightarrow> circular_buffer" where
  "cb_new capacity =
     \<lparr>cb_buffer = replicate capacity 0, cb_capacity = capacity, cb_head = 0, cb_tail = 0, cb_size = 0\<rparr>"

text \<open>The body of the write loop, over the bytes \<open>data[0..to_write]\<close>.\<close>

fun cb_write_loop :: "circular_buffer \<Rightarrow> bytes \<Rightarrow> circular_buffer run" where
  "cb_write_loop cb [] = Some cb"
| "cb_write_loop cb (d # ds) =
     do {
       buffer \<leftarrow> idx_set (cb_buffer cb) (cb_head cb) d;
       head \<leftarrow> umod (cb_head cb + 1) (cb_capacity cb);
       cb_write_loop (cb\<lparr>cb_buffer := buffer, cb_head := head, cb_size := cb_size cb + 1\<rparr>) ds
     }"

definition cb_write :: "circular_buffer \<Rightarrow> bytes \<Rightarrow> (circular_buffer \<times> nat) run" where
  "cb_write cb data =
     do {
       available \<leftarrow> usub (cb_capacity cb) (cb_size cb);
       let to_write = min (length data) available;
       cb' \<leftarrow> cb_write_loop cb (take to_write data);
       Some (cb', to_write)
     }"

text \<open>The read loop from index \<open>i\<close> with \<open>k\<close> bytes left to copy into the caller's slice.\<close>

fun cb_read_loop :: "circular_buffer \<Rightarrow> bytes \<Rightarrow> nat \<Rightarrow> nat \<Rightarrow> (circular_buffer \<times> bytes) run" where
  "cb_read_loop cb data i 0 = Some (cb, data)"
| "cb_read_loop cb data i (Suc k) =
     do {
       b \<leftarrow> idx (cb_buffer cb) (cb_tail cb);
       data' \<leftarrow> idx_set data i b;
       tail \<leftarrow> umod (cb_tail cb + 1) (cb_capacity cb);
       size \<leftarrow> usub (cb_size cb) 1;
       cb_read_loop (cb\<lparr>cb_tail := tail, cb_size := size\<rparr>) data' (i + 1) k
     }"

definition cb_read :: "circular_buffer \<Rightarrow> bytes \<Rightarrow> (circular_buffer \<times> bytes \<times> nat) run" where
  "cb_read cb data =
     do {
       let to_read = min (length data) (cb_size cb);
       (cb', data') \<leftarrow> cb_read_loop cb data 0 to_read;
       Some (cb', data', to_read)
     }"

fun cb_peek_loop :: "circular_buffer \<Rightarrow> nat \<Rightarrow> bytes \<Rightarrow> nat \<Rightarrow> nat \<Rightarrow> bytes run" where
  "cb_peek_loop cb pos data i 0 = Some data"
| "cb_peek_loop cb pos data i (Suc k) =
     do {
       b \<leftarrow> idx (cb_buffer cb) pos;
       data' \<leftarrow> idx_set data i b;
       pos' \<leftarrow> umod (pos + 1) (cb_capacity cb);
       cb_peek_loop cb pos' data' (i + 1) k
     }"

definition cb_peek :: "circular_buffer \<Rightarrow> bytes \<Rightarrow> (bytes \<times> nat) run" where
  "cb_peek cb data =
     do {
       let to_peek = min (length data) (cb_size cb);
       data' \<leftarrow> cb_peek_loop cb (cb_tail cb) data 0 to_peek;
       Some (data', to_peek)
     }"

definition cb_available :: "circular_buffer \<Rightarrow> nat run" where
  "cb_available cb = usub (cb_capacity cb) (cb_size cb)"

definition cb_is_empty :: "circular_buffer \<Rightarrow> bool" where
  "cb_is_empty cb \<longleftrightarrow> cb_size cb = 0"

definition cb_is_full :: "circular_buffer \<Rightarrow> bool" where
  "cb_is_full cb \<longleftrightarrow> cb_size cb = cb_capacity cb"

definition cb_clear :: "circular_buffer \<Rightarrow> circular_buffer" where
  "cb_clear cb = cb\<lparr>cb_head := 0, cb_tail := 0, cb_size := 0\<rparr>"

subsection \<open>Dynamic buffer\<close>

text \<open>The growth factor is stored and never read by the source.\<close>

record dynamic_buffer =
  db_data :: bytes
  db_read_pos :: nat
  db_growth_factor :: rat

definition db_new :: "nat \<Rightarrow> dynamic_buffer" where
  "db_new initial_capacity = \<lparr>db_data = [], db_read_pos = 0, db_growth_factor = 3 / 2\<rparr>"

definition db_with_growth_factor :: "nat \<Rightarrow> rat \<Rightarrow> dynamic_buffer" where
  "db_with_growth_factor initial_capacity growth_factor =
     \<lparr>db_data = [], db_read_pos = 0, db_growth_factor = growth_factor\<rparr>"

definition db_append :: "dynamic_buffer \<Rightarrow> bytes \<Rightarrow> dynamic_buffer" where
  "db_append db data = db\<lparr>db_data := db_data db @ data\<rparr>"

definition db_consume :: "dynamic_buffer \<Rightarrow> nat \<Rightarrow> (dynamic_buffer \<times> nat) run" where
  "db_consume db count =
     do {
       available \<leftarrow> usub (length (db_data db)) (db_read_pos db);
       let to_consume = min count available;
       let read_pos = db_read_pos db + to_consume;
       (if read_pos > length (db_data db) div 2 \<and> read_pos > 0 then
          do { _ \<leftarrow> sub_slice (db_data db) 0 read_pos;
               Some (db\<lparr>db_data := drop read_pos (db_data db), db_read_pos := 0\<rparr>, to_consume) }
        else Some (db\<lparr>db_read_pos := read_pos\<rparr>, to_consume))
     }"

definition db_bytes :: "dynamic_buffer \<Rightarrow> bytes run" where
  "db_bytes db = sub_slice (db_data db) (db_read_pos db) (length (db_data db))"

definition db_size :: "dynamic_buffer \<Rightarrow> nat run" where
  "db_size db = usub (length (db_data db)) (db_read_pos db)"

definition db_clear :: "dynamic_buffer \<Rightarrow> dynamic_buffer" where
  "db_clear db = db\<lparr>db_data := [], db_read_pos := 0\<rparr>"

definition db_extract :: "dynamic_buffer \<Rightarrow> nat \<Rightarrow> (dynamic_buffer \<times> bytes) run" where
  "db_extract db count =
     do {
       size \<leftarrow> db_size db;
       let available = min count size;
       result \<leftarrow> sub_slice (db_data db) (db_read_pos db) (db_read_pos db + available);
       (db', _) \<leftarrow> db_consume db available;
       Some (db', result)
     }"

definition db_peek :: "dynamic_buffer \<Rightarrow> nat \<Rightarrow> bytes run" where
  "db_peek db count =
     do {
       size \<leftarrow> db_size db;
       sub_slice (db_data db) (db_read_pos db) (db_read_pos db + min count size)
     }"

subsection \<open>Buffer pool\<close>

text \<open>
  A \<open>Vec<u8>\<close> with its capacity; \<open>vec![0; n]\<close> has capacity equal to its length. The mutex
  serialises the accesses to the shared pool, so the pool is state passed along.
\<close>

record byte_vec =
  bv_data :: bytes
  bv_capacity :: nat

definition byte_vec_zeroed :: "nat \<Rightarrow> byte_vec" where
  "byte_vec_zeroed n = \<lparr>bv_data = replicate n 0, bv_capacity = n\<rparr>"

record buffer_pool =
  bp_pool :: "byte_vec list"
  bp_buffer_size :: nat
  bp_max_pool_size :: nat

record pooled_buffer =
  pb_buffer :: "byte_vec option"
  pb_max_pool_size :: nat

definition buffer_pool_new :: "nat \<Rightarrow> nat \<Rightarrow> nat \<Rightarrow> buffer_pool" where
  "buffer_pool_new buffer_size initial_count max_pool_size =
     \<lparr>bp_pool = replicate initial_count (byte_vec_zeroed buffer_size),
      bp_buffer_size = buffer_size, bp_max_pool_size = max_pool_size\<rparr>"

definition buffer_pool_acquire :: "buffer_pool \<Rightarrow> buffer_pool \<times> pooled_buffer" where
  "buffer_pool_acquire p =
     (case bp_pool p of
        [] \<Rightarrow> (p, \<lparr>pb_buffer = Some (byte_vec_zeroed (bp_buffer_size p)),
                  pb_max_pool_size = bp_max_pool_size p\<rparr>)
      | b # bs \<Rightarrow> (p\<lparr>bp_pool := bs\<rparr>,
                    \<lparr>pb_buffer = Some b, pb_max_pool_size = bp_max_pool_size p\<rparr>))"

definition pool_size :: "buffer_pool \<Rightarrow> nat" where
  "pool_size p = length (bp_pool p)"

definition pooled_as_slice :: "pooled_buffer \<Rightarrow> bytes run" where
  "pooled_as_slice b = map_option bv_data (unwrap (pb_buffer b))"

text \<open>Writing through \<open>as_mut_slice\<close>: the slice keeps its length.\<close>

definition pooled_write :: "pooled_buffer \<Rightarrow> nat \<Rightarrow> u8 \<Rightarrow> pooled_buffer run" where
  "pooled_write b i v =
     do {
       bv \<leftarrow> unwrap (pb_buffer b);
       d \<leftarrow> idx_set (bv_data bv) i v;
       Some (b\<lparr>pb_buffer := Some (bv\<lparr>bv_data := d\<rparr>)\<rparr>)
     }"

definition pooled_drop :: "buffer_pool \<Rightarrow> pooled_buffer \<Rightarrow> buffer_pool" where
  "pooled_drop p b =
     (case pb_buffer b of
        None \<Rightarrow> p
      | Some bv \<Rightarrow>
          (if length (bp_pool p) < pb_max_pool_size b
           then p\<lparr>bp_pool := bp_pool p @ [bv\<lparr>bv_data := replicate (bv_capacity bv) 0\<rparr>]\<rparr>
           else p))"

subsection \<open>Frame buffer\<close>

record ws_frame_buffer =
  recv_buffer :: dynamic_buffer
  send_buffer :: circular_buffer

definition MAX_FRAME_SIZE :: nat where
  "MAX_FRAME_SIZE = 65536"

definition SEND_BUFFER_SIZE :: nat where
  "SEND_BUFFER_SIZE = 131072"

definition frame_buffer_new :: ws_frame_buffer where
  "frame_buffer_new = \<lparr>recv_buffer = db_new 4096, send_buffer = cb_new SEND_BUFFER_SIZE\<rparr>"

definition add_received_data :: "ws_frame_buffer \<Rightarrow> bytes \<Rightarrow> ws_frame_buffer" where
  "add_received_data fb data = fb\<lparr>recv_buffer := db_append (recv_buffer fb) data\<rparr>"

definition unmask :: "bytes \<Rightarrow> bytes \<Rightarrow> bytes" where
  "unmask key payload = map (\<lambda>(i, b). b XOR key ! (i mod 4)) (enumerate 0 payload)"

text \<open>
  The extended length: \<open>None\<close> when more bytes are needed, else the payload length and the
  offset behind the length field (the source's \<open>header_size\<close> and \<open>offset\<close>, equal here).
\<close>

definition frame_length :: "bytes \<Rightarrow> nat option" where
  "frame_length data =
     (let l = unat (data ! 1 AND 0x7F) in
      if l = 126 then (if length data < 4 then None else Some (be_nat [data ! 2, data ! 3]))
      else if l = 127 then
        (if length data < 10 then None
         else Some (be_nat [data ! 2, data ! 3, data ! 4, data ! 5, data ! 6, data ! 7, data ! 8, data ! 9]))
      else Some l)"

definition frame_offset :: "bytes \<Rightarrow> nat" where
  "frame_offset data =
     (let l = unat (data ! 1 AND 0x7F) in if l = 126 then 4 else if l = 127 then 10 else 2)"

definition try_extract_frame :: "profile \<Rightarrow> ws_frame_buffer \<Rightarrow> (ws_frame_buffer \<times> bytes option) run" where
  "try_extract_frame prof fb =
     do {
       data \<leftarrow> db_bytes (recv_buffer fb);
       (if length data < 2 then Some (fb, None)
        else
          (let masked = (data ! 1 AND 0x80 \<noteq> 0); offset0 = frame_offset data in
           case frame_length data of
             None \<Rightarrow> Some (fb, None)
           | Some payload_len \<Rightarrow>
               (if masked \<and> length data < offset0 + 4 then Some (fb, None)
                else
                  (let key = (if masked then Some (take 4 (drop offset0 data)) else None);
                       offset = (if masked then offset0 + 4 else offset0) in
                   do {
                     total_size \<leftarrow> profile_add prof offset payload_len;
                     (if length data < total_size then Some (fb, None)
                      else do {
                        stop \<leftarrow> profile_add prof offset payload_len;
                        payload \<leftarrow> sub_slice data offset stop;
                        (db, _) \<leftarrow> db_consume (recv_buffer fb) total_size;
                        Some (fb\<lparr>recv_buffer := db\<rparr>,
                              Some (case key of None \<Rightarrow> payload | Some k \<Rightarrow> unmask k payload))
                      })
                   }))))
     }"

definition queue_send_data :: "ws_frame_buffer \<Rightarrow> bytes \<Rightarrow> (ws_frame_buffer \<times> bool) run" where
  "queue_send_data fb data =
     do { (cb, n) \<leftarrow> cb_write (send_buffer fb) data; Some (fb\<lparr>send_buffer := cb\<rparr>, n = length data) }"

definition get_send_data :: "ws_frame_buffer \<Rightarrow> bytes \<Rightarrow> (ws_frame_buffer \<times> bytes \<times> nat) run" where
  "get_send_data fb buffer =
     do { (cb, data, n) \<leftarrow> cb_read (send_buffer fb) buffer; Some (fb\<lparr>send_buffer := cb\<rparr>, data, n) }"

definition pending_send_size :: "ws_frame_buffer \<Rightarrow> nat" where
  "pending_send_size fb = cb_size (send_buffer fb)"

subsection \<open>The circular buffer as a byte queue\<close>

definition cb_invar :: "circular_buffer \<Rightarrow> bool" where
  "cb_invar cb \<longleftrightarrow>
     length (cb_buffer cb) = cb_capacity cb \<and> cb_size cb \<le> cb_capacity cb \<and>
     (cb_capacity cb = 0 \<or>
      cb_tail cb < cb_capacity cb \<and> cb_head cb = (cb_tail cb + cb_size cb) mod cb_capacity cb)"

definition cb_contents :: "circular_buffer \<Rightarrow> bytes" where
  "cb_contents cb = window (cb_buffer cb) (cb_tail cb) (cb_size cb)"

lemma length_cb_contents [simp]: "length (cb_contents cb) = cb_size cb"
  by (simp add: cb_contents_def)

lemma cb_new_facts: "cb_invar (cb_new n)" "cb_contents (cb_new n) = []" "cb_capacity (cb_new n) = n"
  by (auto simp: cb_new_def cb_invar_def cb_contents_def)

lemma cb_clear_facts: "cb_invar cb \<Longrightarrow> cb_invar (cb_clear cb)" "cb_contents (cb_clear cb) = []"
  by (auto simp: cb_clear_def cb_invar_def cb_contents_def)

lemma cb_write_loop_appends:
  "cb_invar cb \<Longrightarrow> cb_size cb + length ds \<le> cb_capacity cb \<Longrightarrow>
   \<exists>cb'. cb_write_loop cb ds = Some cb' \<and> cb_contents cb' = cb_contents cb @ ds \<and>
     cb_capacity cb' = cb_capacity cb \<and> cb_invar cb'"
proof (induction ds arbitrary: cb)
  case Nil
  then show ?case by simp
next
  case (Cons d ds)
  let ?n = "length (cb_buffer cb)"
  let ?cb = "cb\<lparr>cb_buffer := (cb_buffer cb)[cb_head cb := d], cb_head := (cb_head cb + 1) mod ?n,
                cb_size := cb_size cb + 1\<rparr>"
  have n: "?n = cb_capacity cb" "cb_size cb < ?n" "0 < ?n" "cb_tail cb < ?n"
      "cb_head cb = (cb_tail cb + cb_size cb) mod ?n"
    using Cons.prems by (auto simp: cb_invar_def)
  then have h: "cb_head cb < ?n" by simp
  have step: "cb_write_loop cb (d # ds) = cb_write_loop ?cb ds"
    using n h by (simp add: rust_facts)
  have "cb_invar ?cb" using n by (auto simp: cb_invar_def mod_Suc_eq)
  moreover have "cb_contents ?cb = cb_contents cb @ [d]"
    using n window_push[of "cb_size cb" "cb_buffer cb" "cb_tail cb" d] by (simp add: cb_contents_def)
  ultimately show ?case using Cons.IH[of ?cb] Cons.prems(2) step by auto
qed

lemma cb_write_appends:
  assumes "cb_invar cb"
  shows "\<exists>cb'. cb_write cb data = Some (cb', min (length data) (cb_capacity cb - cb_size cb)) \<and>
           cb_contents cb' = cb_contents cb @ take (cb_capacity cb - cb_size cb) data \<and>
           cb_capacity cb' = cb_capacity cb \<and> cb_invar cb'"
proof -
  let ?k = "min (length data) (cb_capacity cb - cb_size cb)"
  have le: "cb_size cb \<le> cb_capacity cb" using assms by (simp add: cb_invar_def)
  then have "cb_size cb + length (take ?k data) \<le> cb_capacity cb" by auto
  then obtain cb' where "cb_write_loop cb (take ?k data) = Some cb'"
      "cb_contents cb' = cb_contents cb @ take ?k data" "cb_capacity cb' = cb_capacity cb" "cb_invar cb'"
    using cb_write_loop_appends[OF assms, of "take ?k data"] by blast
  then show ?thesis using le by (auto simp: cb_write_def rust_facts min_def)
qed

lemma cb_read_loop_takes:
  "cb_invar cb \<Longrightarrow> k \<le> cb_size cb \<Longrightarrow> i + k \<le> length data \<Longrightarrow>
   \<exists>cb'. cb_read_loop cb data i k =
       Some (cb', take i data @ take k (cb_contents cb) @ drop (i + k) data) \<and>
     cb_contents cb' = drop k (cb_contents cb) \<and> cb_capacity cb' = cb_capacity cb \<and> cb_invar cb'"
proof (induction k arbitrary: cb data i)
  case 0
  then show ?case by simp
next
  case (Suc k)
  let ?n = "length (cb_buffer cb)" and ?t = "cb_tail cb"
  obtain s where s: "cb_size cb = Suc s" using Suc.prems(2) by (cases "cb_size cb") auto
  have n: "?n = cb_capacity cb" "?t < ?n" "0 < ?n" "Suc s \<le> ?n" "cb_head cb = (?t + Suc s) mod ?n"
    using Suc.prems(1) s by (auto simp: cb_invar_def)
  let ?cb = "cb\<lparr>cb_tail := (?t + 1) mod ?n, cb_size := s\<rparr>"
  let ?b = "cb_buffer cb ! ?t"
  have cont: "cb_contents cb = ?b # cb_contents ?cb"
    using n s by (simp add: cb_contents_def window_Cons)
  have inv: "cb_invar ?cb" using n by (auto simp: cb_invar_def mod_add_left_eq)
  have step: "cb_read_loop cb data i (Suc k) = cb_read_loop ?cb (data[i := ?b]) (i + 1) k"
    using n s Suc.prems(3) by (simp add: rust_facts)
  obtain cb' where cb': "cb_read_loop ?cb (data[i := ?b]) (i + 1) k =
        Some (cb', take (i + 1) (data[i := ?b]) @ take k (cb_contents ?cb) @ drop (i + 1 + k) (data[i := ?b]))"
      "cb_contents cb' = drop k (cb_contents ?cb)" "cb_capacity cb' = cb_capacity cb" "cb_invar cb'"
    using Suc.IH[OF inv, of "i + 1" "data[i := ?b]"] Suc.prems s by auto
  have "take (i + 1) (data[i := ?b]) = take i data @ [?b]"
    using Suc.prems(3) by (simp add: take_Suc_conv_app_nth)
  then show ?case using cb' step cont by simp
qed

lemma cb_read_takes:
  assumes "cb_invar cb"
  shows "\<exists>cb'. cb_read cb data =
             Some (cb', overwrite_prefix data (take (length data) (cb_contents cb)),
                   min (length data) (cb_size cb)) \<and>
           cb_contents cb' = drop (length data) (cb_contents cb) \<and>
           cb_capacity cb' = cb_capacity cb \<and> cb_invar cb'"
proof -
  let ?k = "min (length data) (cb_size cb)"
  obtain cb' where "cb_read_loop cb data 0 ?k = Some (cb', take ?k (cb_contents cb) @ drop ?k data)"
      "cb_contents cb' = drop ?k (cb_contents cb)" "cb_capacity cb' = cb_capacity cb" "cb_invar cb'"
    using cb_read_loop_takes[OF assms, of ?k 0 data] by auto
  moreover have "take ?k (cb_contents cb) = take (length data) (cb_contents cb)"
      "drop ?k (cb_contents cb) = drop (length data) (cb_contents cb)"
      "length (take (length data) (cb_contents cb)) = ?k"
    by (auto simp: min_def)
  ultimately show ?thesis by (auto simp: cb_read_def overwrite_prefix_def Let_def)
qed

text \<open>Peeking reads the same bytes as reading.\<close>

lemma cb_peek_loop_eq:
  "\<lbrakk>cb_invar cb; pos < cb_capacity cb; i + k \<le> length data\<rbrakk> \<Longrightarrow>
   cb_peek_loop cb pos data i k =
     Some (take i data @ window (cb_buffer cb) pos k @ drop (i + k) data)"
proof (induction k arbitrary: pos data i)
  case 0
  then show ?case by simp
next
  case (Suc k)
  let ?n = "length (cb_buffer cb)"
  have n: "?n = cb_capacity cb" "0 < ?n" using Suc.prems by (auto simp: cb_invar_def)
  have "take (i + 1) (data[i := cb_buffer cb ! pos]) = take i data @ [cb_buffer cb ! pos]"
    using Suc.prems(3) by (simp add: take_Suc_conv_app_nth)
  then show ?case
    using Suc.IH[of "(pos + 1) mod ?n" "i + 1" "data[i := cb_buffer cb ! pos]"] Suc.prems n
    by (simp add: rust_facts window_Cons)
qed

lemma cb_peek_eq:
  assumes "cb_invar cb"
  shows "cb_peek cb data = Some (overwrite_prefix data (take (length data) (cb_contents cb)),
           min (length data) (cb_size cb))"
proof (cases "cb_capacity cb = 0")
  case True
  then show ?thesis using assms
    by (simp add: cb_peek_def cb_invar_def overwrite_prefix_def cb_contents_def)
next
  case False
  let ?k = "min (length data) (cb_size cb)"
  have "window (cb_buffer cb) (cb_tail cb) ?k = take (length data) (cb_contents cb)"
    by (rule nth_equalityI) (auto simp: cb_contents_def)
  then show ?thesis
    using cb_peek_loop_eq[OF assms, of "cb_tail cb" 0 ?k data] assms False
    by (auto simp: cb_peek_def cb_invar_def overwrite_prefix_def Let_def min_def)
qed

subsection \<open>The dynamic buffer as a byte queue\<close>

definition db_invar :: "dynamic_buffer \<Rightarrow> bool" where
  "db_invar db \<longleftrightarrow> db_read_pos db \<le> length (db_data db)"

definition db_contents :: "dynamic_buffer \<Rightarrow> bytes" where
  "db_contents db = drop (db_read_pos db) (db_data db)"

lemma db_new_facts [simp]: "db_invar (db_new n)" "db_contents (db_new n) = []"
  by (simp_all add: db_new_def db_invar_def db_contents_def)

lemma db_append_facts:
  assumes "db_invar db"
  shows "db_invar (db_append db xs)" "db_contents (db_append db xs) = db_contents db @ xs"
  using assms by (simp_all add: db_append_def db_invar_def db_contents_def)

lemma db_bytes_eq: "db_invar db \<Longrightarrow> db_bytes db = Some (db_contents db)"
  by (simp add: db_bytes_def db_invar_def db_contents_def rust_facts)

lemma db_size_eq: "db_invar db \<Longrightarrow> db_size db = Some (length (db_contents db))"
  by (simp add: db_size_def db_invar_def db_contents_def rust_facts)

lemma db_consume_drops:
  assumes "db_invar db"
  shows "\<exists>db'. db_consume db n = Some (db', min n (length (db_contents db))) \<and>
           db_contents db' = drop n (db_contents db) \<and> db_invar db'"
  using assms
  by (auto simp: db_consume_def db_invar_def db_contents_def rust_facts min_def add.commute)

lemma db_extract_takes:
  assumes "db_invar db"
  shows "\<exists>db'. db_extract db n = Some (db', take n (db_contents db)) \<and>
           db_contents db' = drop n (db_contents db) \<and> db_invar db'"
proof -
  let ?k = "min n (length (db_contents db))"
  obtain db' where "db_consume db ?k = Some (db', min ?k (length (db_contents db)))"
      "db_contents db' = drop ?k (db_contents db)" "db_invar db'"
    using db_consume_drops[OF assms] by blast
  moreover have "sub_slice (db_data db) (db_read_pos db) (db_read_pos db + ?k) = Some (take n (db_contents db))"
    using assms by (auto simp: db_invar_def db_contents_def sub_slice_def min_def)
  ultimately show ?thesis
    using db_size_eq[OF assms] by (auto simp: db_extract_def Let_def min_def)
qed

subsection \<open>Frames on the wire\<close>

text \<open>
  The frame format of RFC 6455, as an encoder of the peer: one byte of flags and opcode, the
  mask bit with the 7-bit length code, the extended length, the masking key and the masked
  payload. The peer masks with the bytes of the key in turn: the byte used goes to the end of the key.
\<close>

fun rfc_mask :: "bytes \<Rightarrow> bytes \<Rightarrow> bytes" where
  "rfc_mask (k # ks) (b # bs) = (b XOR k) # rfc_mask (ks @ [k]) bs"
| "rfc_mask _ _ = []"

definition length_code :: "nat \<Rightarrow> nat" where
  "length_code n = (if n < 126 then n else if n < 65536 then 126 else 127)"

definition ext_length :: "nat \<Rightarrow> bytes" where
  "ext_length n = (if n < 126 then [] else if n < 65536 then be_bytes 2 n else be_bytes 8 n)"

definition encode_frame :: "u8 \<Rightarrow> bytes option \<Rightarrow> bytes \<Rightarrow> bytes" where
  "encode_frame b0 key payload =
     b0 # of_nat ((if key = None then 0 else 128) + length_code (length payload)) #
     ext_length (length payload) @ (case key of None \<Rightarrow> payload | Some k \<Rightarrow> k @ rfc_mask k payload)"

lemma length_unmask [simp]: "length (unmask k p) = length p"
  by (simp add: unmask_def)

lemma nth_unmask: "i < length p \<Longrightarrow> unmask k p ! i = p ! i XOR k ! (i mod 4)"
  by (simp add: unmask_def nth_enumerate_eq)

lemma rfc_mask_nth: "0 < length k \<Longrightarrow> length (rfc_mask k p) = length p \<and> (\<forall>i < length p. rfc_mask k p ! i = p ! i XOR k ! (i mod length k))"
proof (induction k p rule: rfc_mask.induct)
  case (1 k ks b bs)
  have rot: "(ks @ [k]) ! (i mod length (ks @ [k])) = (k # ks) ! (Suc i mod length (k # ks))" for i
  proof -
    have "rotate (Suc i) (k # ks) ! 0 = rotate i (ks @ [k]) ! 0" by (simp add: rotate1_rotate_swap)
    then show ?thesis using nth_rotate [of 0 "k # ks" "Suc i"] nth_rotate [of 0 "ks @ [k]" i] by simp
  qed
  show ?case
  proof (intro conjI allI impI)
    fix i assume "i < length (b # bs)"
    then show "rfc_mask (k # ks) (b # bs) ! i = (b # bs) ! i XOR (k # ks) ! (i mod length (k # ks))"
      using 1 rot by (cases i) (auto simp del: mod_Suc_eq)
  qed (use 1 in simp)
qed simp_all

text \<open>Masking by the peer and the loop of the extractor are inverse to each other.\<close>

lemma unmask_rfc_mask: "length k = 4 \<Longrightarrow> unmask k (rfc_mask k p) = p"
  using rfc_mask_nth [of k p] by (intro nth_equalityI) (auto simp: nth_unmask xor.assoc)

lemma length_rfc_mask: "length k = 4 \<Longrightarrow> length (rfc_mask k p) = length p"
  using rfc_mask_nth [of k p] by auto

lemma code_byte:
  assumes "l < 128"
  shows "unat ((of_nat ((if b then 0 else 128) + l) :: u8) AND 0x7F) = l"
    and "((of_nat ((if b then 0 else 128) + l) :: u8) AND 0x80 = 0) = b"
proof -
  have u: "unat (of_nat ((if b then 0 else 128) + l) :: u8) = (if b then 0 else 128) + l"
    using assms by (intro unat_of_nat_small) auto
  show "unat ((of_nat ((if b then 0 else 128) + l) :: u8) AND 0x7F) = l"
    unfolding u8_low7 u using assms by simp
  show "((of_nat ((if b then 0 else 128) + l) :: u8) AND 0x80 = 0) = b"
    unfolding u8_top_bit u using assms by simp
qed

lemma length_code_less: "length_code n < 128"
  by (simp add: length_code_def)

lemma length_2: "length xs = 2 \<Longrightarrow> \<exists>a b. xs = [a, b]"
  by (auto simp: eval_nat_numeral length_Suc_conv)

lemma length_8: "length xs = 8 \<Longrightarrow> \<exists>a b c d e f g h. xs = [a, b, c, d, e, f, g, h]"
  by (auto simp: eval_nat_numeral length_Suc_conv)

lemma frame_header_decodes:
  assumes "n < usize_bound" and d: "data = b0 # of_nat ((if b then 0 else 128) + length_code n) # ext_length n @ rest"
  shows "frame_length data = Some n" "frame_offset data = 2 + length (ext_length n)"
    "(data ! 1 AND 0x80 \<noteq> 0) = (\<not> b)"
proof -
  note cb = code_byte[OF length_code_less[of n], of b]
  have d1: "data ! 1 = of_nat ((if b then 0 else 128) + length_code n)" using d by simp
  show "(data ! 1 AND 0x80 \<noteq> 0) = (\<not> b)" unfolding d1 using cb by blast
  consider "n < 126" | "126 \<le> n" "n < 65536" | "65536 \<le> n" by linarith
  then have "frame_length data = Some n \<and> frame_offset data = 2 + length (ext_length n)"
  proof cases
    case 1
    then show ?thesis
      using cb(1) d by (simp add: frame_length_def frame_offset_def Let_def length_code_def ext_length_def)
  next
    case 2
    obtain x y where xy: "be_bytes 2 n = [x, y]" using length_2[OF length_be_bytes] by blast
    have "be_nat [x, y] = n" using 2 be_nat_be_bytes_small[of n 2] xy by simp
    moreover have "ext_length n = [x, y]" "length_code n = 126"
      using 2 xy by (simp_all add: ext_length_def length_code_def)
    ultimately show ?thesis
      using cb(1) d by (simp add: frame_length_def frame_offset_def Let_def)
  next
    case 3
    obtain x1 x2 x3 x4 x5 x6 x7 x8 where xs: "be_bytes 8 n = [x1, x2, x3, x4, x5, x6, x7, x8]"
      using length_8[OF length_be_bytes] by blast
    have "be_nat [x1, x2, x3, x4, x5, x6, x7, x8] = n"
      using assms(1) be_nat_be_bytes_small[of n 8] xs by simp
    moreover have "ext_length n = [x1, x2, x3, x4, x5, x6, x7, x8]" "length_code n = 127"
      using 3 xs by (simp_all add: ext_length_def length_code_def)
    ultimately show ?thesis
      using cb(1) d by (simp add: frame_length_def frame_offset_def Let_def)
  qed
  then show "frame_length data = Some n" "frame_offset data = 2 + length (ext_length n)" by auto
qed

text \<open>The header fields of a received prefix are those of the whole frame, once present.\<close>

lemma frame_prefix:
  assumes "2 \<le> n"
  shows "frame_offset (take n d) = frame_offset d"
    and "frame_length (take n d) = None \<or> frame_length (take n d) = frame_length d"
  using assms by (auto simp: frame_offset_def frame_length_def Let_def)

definition payload_start :: "bytes \<Rightarrow> nat" where
  "payload_start data =
     (if data ! 1 AND 0x80 \<noteq> 0 then frame_offset data + 4 else frame_offset data)"

definition frame_payload :: "bytes \<Rightarrow> nat \<Rightarrow> bytes" where
  "frame_payload data n =
     (let p = take n (drop (payload_start data) data) in
      if data ! 1 AND 0x80 \<noteq> 0 then unmask (take 4 (drop (frame_offset data) data)) p else p)"

lemma extract_incomplete_header:
  assumes "db_invar (recv_buffer fb)" "db_contents (recv_buffer fb) = data"
    and "length data < 2 \<or> frame_length data = None \<or> length data < payload_start data"
    and "frame_offset data \<le> length data \<or> length data < 2 \<or> frame_length data = None"
  shows "try_extract_frame prof fb = Some (fb, None)"
  using assms
  by (auto simp: try_extract_frame_def db_bytes_eq payload_start_def Let_def split: if_splits option.splits)

lemma extract_with_header:
  assumes "db_invar (recv_buffer fb)" "db_contents (recv_buffer fb) = data"
    and "2 \<le> length data" "frame_length data = Some n"
    and "payload_start data \<le> length data" "payload_start data + n < usize_bound"
  shows "try_extract_frame prof fb =
    (if length data < payload_start data + n then Some (fb, None)
     else do { (db, _) \<leftarrow> db_consume (recv_buffer fb) (payload_start data + n);
               Some (fb\<lparr>recv_buffer := db\<rparr>, Some (frame_payload data n)) })"
  using assms
  by (simp add: try_extract_frame_def db_bytes_eq payload_start_def frame_payload_def rust_facts)

lemma extract_unmasked:
  assumes "db_invar (recv_buffer fb)" "db_contents (recv_buffer fb) = data"
    and "2 \<le> length data" "frame_length data = Some n" "data ! 1 AND 0x80 = 0"
  shows "try_extract_frame prof fb =
    do { t \<leftarrow> profile_add prof (frame_offset data) n;
         (if length data < t then Some (fb, None)
          else do { payload \<leftarrow> sub_slice data (frame_offset data) t;
                    (db, _) \<leftarrow> db_consume (recv_buffer fb) t;
                    Some (fb\<lparr>recv_buffer := db\<rparr>, Some payload) }) }"
  using assms
  by (cases "profile_add prof (frame_offset data) n") (simp_all add: try_extract_frame_def db_bytes_eq Let_def)

lemma frame_offset_present: "frame_length data = Some n \<Longrightarrow> 2 \<le> length data \<Longrightarrow> frame_offset data \<le> length data"
  by (auto simp: frame_length_def frame_offset_def Let_def split: if_splits)

text \<open>Decoding the header and the payload of an encoded frame.\<close>

lemma encoded_frame_fields:
  assumes "length payload < usize_bound" "\<And>k. key = Some k \<Longrightarrow> length k = 4"
    and d: "data = encode_frame flags key payload @ rest"
  shows "frame_length data = Some (length payload)"
    and "payload_start data + length payload = length (encode_frame flags key payload)"
    and "frame_payload data (length payload) = payload"
proof -
  let ?n = "length payload"
  let ?body = "case key of None \<Rightarrow> payload | Some k \<Rightarrow> k @ rfc_mask k payload"
  have dd: "data = flags # of_nat ((if key = None then 0 else 128) + length_code ?n) # ext_length ?n @ (?body @ rest)"
    using d by (simp add: encode_frame_def)
  note h = frame_header_decodes[OF assms(1) dd]
  have drop: "drop (frame_offset data) data = ?body @ rest"
    unfolding h(2) by (simp add: dd)
  show "frame_length data = Some ?n" by (rule h(1))
  show "payload_start data + ?n = length (encode_frame flags key payload)"
    using h assms(2) by (cases key) (simp_all add: payload_start_def encode_frame_def length_rfc_mask)
  show "frame_payload data ?n = payload"
  proof (cases key)
    case None
    then show ?thesis using h(3) drop by (simp add: frame_payload_def payload_start_def Let_def)
  next
    case (Some k)
    then have k: "length k = 4" using assms(2) by simp
    have "drop (frame_offset data + 4) data = drop 4 (drop (frame_offset data) data)" by (simp add: add.commute)
    then have "drop (payload_start data) data = rfc_mask k payload @ rest"
      using h(3) drop Some k by (simp add: payload_start_def)
    then show ?thesis using h(3) drop Some k
      by (simp add: frame_payload_def Let_def unmask_rfc_mask length_rfc_mask)
  qed
qed

subsection \<open>Buffers in use: nothing leaks through the pool\<close>

text \<open>
  The pool with the buffers its clients currently hold. A client may write any byte of a
  buffer it holds, and give it back by dropping it.
\<close>

inductive pool_run :: "nat \<Rightarrow> nat \<Rightarrow> nat \<Rightarrow> buffer_pool \<Rightarrow> pooled_buffer list \<Rightarrow> bool"
  for sz count maxp where
  pool_start: "pool_run sz count maxp (buffer_pool_new sz count maxp) []"
| pool_acquire: "pool_run sz count maxp p held \<Longrightarrow> buffer_pool_acquire p = (p', b) \<Longrightarrow>
    pool_run sz count maxp p' (b # held)"
| pool_write: "pool_run sz count maxp p held \<Longrightarrow> j < length held \<Longrightarrow>
    pooled_write (held ! j) i v = Some b \<Longrightarrow> pool_run sz count maxp p (held[j := b])"
| pool_drop: "pool_run sz count maxp p (xs @ b # ys) \<Longrightarrow>
    pool_run sz count maxp (pooled_drop p b) (xs @ ys)"

definition held_ok :: "nat \<Rightarrow> nat \<Rightarrow> pooled_buffer \<Rightarrow> bool" where
  "held_ok sz maxp b \<longleftrightarrow>
     (case pb_buffer b of None \<Rightarrow> False
      | Some bv \<Rightarrow> length (bv_data bv) = sz \<and> bv_capacity bv = sz) \<and>
     pb_max_pool_size b = maxp"

lemma pool_run_inv:
  assumes "pool_run sz count maxp p held"
  shows "set (bp_pool p) \<subseteq> {byte_vec_zeroed sz} \<and> bp_buffer_size p = sz \<and>
         bp_max_pool_size p = maxp \<and> length (bp_pool p) \<le> max count maxp \<and>
         (\<forall>b \<in> set held. held_ok sz maxp b)"
  using assms
proof induction
  case pool_start
  then show ?case by (auto simp: buffer_pool_new_def)
next
  case (pool_acquire p held p' b)
  then show ?case
    by (auto simp: buffer_pool_acquire_def held_ok_def byte_vec_zeroed_def split: list.splits)
next
  case (pool_write p held j i v b)
  have "held ! j \<in> set held" using pool_write by simp
  then have "held_ok sz maxp (held ! j)" using pool_write by blast
  then have "held_ok sz maxp b"
    using pool_write(3) by (auto simp: pooled_write_def held_ok_def unwrap_def idx_set_def
        bind_eq_Some_conv split: option.splits if_splits)
  then show ?case using pool_write set_update_subset_insert by fastforce
next
  case (pool_drop p xs b ys)
  then show ?case
    by (auto simp: pooled_drop_def held_ok_def byte_vec_zeroed_def split: option.splits)
qed

text \<open>A whole frame at the start of the receive buffer.\<close>

lemma extract_whole_frame:
  assumes "db_invar (recv_buffer fb)"
    and "db_contents (recv_buffer fb) = encode_frame b0 key payload @ rest"
    and "\<And>k. key = Some k \<Longrightarrow> length k = 4"
    and "length payload + 14 < usize_bound"
  shows "\<exists>fb'. try_extract_frame prof fb = Some (fb', Some payload) \<and>
           db_contents (recv_buffer fb') = rest \<and> db_invar (recv_buffer fb') \<and>
           send_buffer fb' = send_buffer fb"
proof -
  let ?data = "encode_frame b0 key payload @ rest"
  have n: "length payload < usize_bound" using assms(4) by linarith
  note f = encoded_frame_fields[OF n assms(3), where flags = b0 and rest = rest, OF _ refl]
  have two: "2 \<le> length ?data" by (simp add: encode_frame_def)
  have le: "payload_start ?data + length payload \<le> length ?data" using f(2) by simp
  have "frame_offset ?data \<le> 10" by (simp add: frame_offset_def Let_def)
  then have "payload_start ?data \<le> 14" by (simp add: payload_start_def)
  then have small: "payload_start ?data + length payload < usize_bound" using assms(4) by linarith
  obtain db where db: "db_consume (recv_buffer fb) (payload_start ?data + length payload) =
      Some (db, min (payload_start ?data + length payload) (length ?data))"
      "db_contents db = drop (payload_start ?data + length payload) ?data" "db_invar db"
    using db_consume_drops[OF assms(1)] assms(2) by metis
  have "try_extract_frame prof fb = Some (fb\<lparr>recv_buffer := db\<rparr>, Some payload)"
    using extract_with_header[OF assms(1,2) two f(1) _ small] le db f(3) by simp
  moreover have "db_contents db = rest" using db(2) f(2) by simp
  ultimately show ?thesis using db(3) by auto
qed

subsection \<open>Properties\<close>

text \<open>
  C5. Frame round trip: when the receive buffer starts with a frame a peer encoded by RFC 6455, masked or not
  and with any of the three length encodings, \<open>try_extract_frame\<close> returns exactly its payload
  and leaves exactly the bytes behind the frame, in either build profile.
\<close>

theorem extract_encoded_frame:
  assumes "db_invar (recv_buffer fb)"
    and "db_contents (recv_buffer fb) = encode_frame b0 key payload @ rest"
    and "\<And>k. key = Some k \<Longrightarrow> length k = 4"
    and "length payload + 14 < usize_bound"
  shows "\<exists>fb'. try_extract_frame prof fb = Some (fb', Some payload) \<and>
           db_contents (recv_buffer fb') = rest \<and> db_invar (recv_buffer fb') \<and>
           send_buffer fb' = send_buffer fb"
  using assms by (rule extract_whole_frame)

theorem extract_encoded_frame_witness:
  "\<exists>fb'. try_extract_frame ReleaseBuild
       (add_received_data frame_buffer_new (encode_frame 0x81 (Some [1, 2, 3, 4]) [72, 101, 108, 108, 111, 33] @ [9])) =
     Some (fb', Some [72, 101, 108, 108, 111, 33]) \<and> db_contents (recv_buffer fb') = [9]"
proof -
  let ?fb = "add_received_data frame_buffer_new (encode_frame 0x81 (Some [1, 2, 3, 4]) [72, 101, 108, 108, 111, 33] @ [9])"
  have r: "recv_buffer ?fb = db_append (db_new 4096) (encode_frame 0x81 (Some [1, 2, 3, 4]) [72, 101, 108, 108, 111, 33] @ [9])"
    by (simp add: add_received_data_def frame_buffer_new_def)
  have "db_invar (recv_buffer ?fb)"
    "db_contents (recv_buffer ?fb) = encode_frame 0x81 (Some [1, 2, 3, 4]) [72, 101, 108, 108, 111, 33] @ [9]"
    unfolding r using db_append_facts[OF db_new_facts(1)] by simp_all
  from extract_encoded_frame[OF this, of ReleaseBuild] show ?thesis by auto
qed

text \<open>
  Partial data is never consumed: as long as only a proper prefix of a frame has arrived,
  \<open>try_extract_frame\<close> returns \<open>None\<close> and changes nothing.
\<close>

theorem extract_waits_for_frame:
  assumes "db_invar (recv_buffer fb)"
    and "db_contents (recv_buffer fb) = take m (encode_frame b0 key payload)"
    and "m < length (encode_frame b0 key payload)"
    and "\<And>k. key = Some k \<Longrightarrow> length k = 4"
    and "length payload + 14 < usize_bound"
  shows "try_extract_frame prof fb = Some (fb, None)"
proof -
  let ?whole = "encode_frame b0 key payload" and ?data = "take m (encode_frame b0 key payload)"
  have n: "length payload < usize_bound" using assms(5) by linarith
  have f: "frame_length ?whole = Some (length payload)" "payload_start ?whole + length payload = length ?whole"
    using encoded_frame_fields[OF n assms(4), where flags = b0 and rest = "[]" and data = ?whole] by simp_all
  have len: "length ?data = m" using assms(3) by simp
  show ?thesis
  proof (cases "m < 2 \<or> frame_length ?data = None")
    case True
    then show ?thesis using extract_incomplete_header[OF assms(1,2)] len by auto
  next
    case False
    then have two: "2 \<le> m" by simp
    have fl: "frame_length ?data = Some (length payload)"
      using False frame_prefix(2)[OF two, of ?whole] f(1) by auto
    have ps: "payload_start ?data = payload_start ?whole"
      using two frame_prefix(1)[OF two, of ?whole] by (simp add: payload_start_def)
    have off: "frame_offset ?data \<le> length ?data"
      using frame_offset_present[OF fl] two len by simp
    show ?thesis
    proof (cases "length ?data < payload_start ?data")
      case True
      then show ?thesis using extract_incomplete_header[OF assms(1,2)] off by blast
    next
      case False
      have "frame_offset ?whole \<le> 10" by (simp add: frame_offset_def Let_def)
      then have "payload_start ?whole \<le> 14" by (simp add: payload_start_def)
      then have "payload_start ?data + length payload < usize_bound" using assms(5) ps by linarith
      then show ?thesis
        using extract_with_header[OF assms(1,2) _ fl] False two len ps f(2) assms(3) by simp
    qed
  qed
qed

theorem extract_waits_for_frame_witness:
  "try_extract_frame CheckedBuild
     (add_received_data frame_buffer_new (take 3 (encode_frame 0x81 None [72, 105]))) =
   Some (add_received_data frame_buffer_new (take 3 (encode_frame 0x81 None [72, 105])), None)"
proof -
  let ?fb = "add_received_data frame_buffer_new (take 3 (encode_frame 0x81 None [72, 105]))"
  have r: "recv_buffer ?fb = db_append (db_new 4096) (take 3 (encode_frame 0x81 None [72, 105]))"
    by (simp add: add_received_data_def frame_buffer_new_def)
  have "db_invar (recv_buffer ?fb)" "db_contents (recv_buffer ?fb) = take 3 (encode_frame 0x81 None [72, 105])"
    unfolding r using db_append_facts[OF db_new_facts(1)] by simp_all
  from extract_waits_for_frame[OF this, of CheckedBuild] show ?thesis
    by (simp add: encode_frame_def length_code_def ext_length_def)
qed

text \<open>
  A peer can crash the extractor: ten header bytes that announce a 64-bit length so large
  that header and payload together exceed the address range make \<open>try_extract_frame\<close> panic,
  by the checked addition in a debug build and by the inverted slice bounds in a release
  build. No check against \<open>MAX_FRAME_SIZE\<close> intervenes.
\<close>

theorem extract_panics_on_huge_length:
  assumes "db_invar (recv_buffer fb)" "db_contents (recv_buffer fb) = b0 # c # be_bytes 8 n @ rest"
    and "unat (c AND 0x7F) = 127" "n < usize_bound" "c AND 0x80 = 0" "usize_bound \<le> 10 + n"
  shows "try_extract_frame prof fb = None"
proof -
  let ?data = "b0 # c # be_bytes 8 n @ rest"
  obtain x1 x2 x3 x4 x5 x6 x7 x8 where xs: "be_bytes 8 n = [x1, x2, x3, x4, x5, x6, x7, x8]"
    using length_8[OF length_be_bytes] by blast
  have "be_nat [x1, x2, x3, x4, x5, x6, x7, x8] = n"
    using assms(4) be_nat_be_bytes_small[of n 8] xs by simp
  then have fl: "frame_length ?data = Some n" and fo: "frame_offset ?data = 10"
    using assms(3) xs by (simp_all add: frame_length_def frame_offset_def Let_def)
  have len: "10 \<le> length ?data" by simp
  have w: "wrap_add 10 n < 10"
  proof -
    have "(10 + n) mod usize_bound = 10 + n - usize_bound"
      using assms(4,6) by (subst mod_if) simp
    then show ?thesis using assms(4) unfolding wrap_add_def by linarith
  qed
  have ck: "uadd 10 n = None" using assms(6) by (simp add: uadd_def)
  have "sub_slice ?data 10 (wrap_add 10 n) = None" using w by (simp add: sub_slice_def)
  moreover have "\<not> length ?data < wrap_add 10 n" using w len by linarith
  ultimately have rel: "profile_add prof 10 n = None \<or>
      (\<exists>t. profile_add prof 10 n = Some t \<and> \<not> length ?data < t \<and> sub_slice ?data 10 t = None)"
    using ck by (cases prof) (auto simp: profile_add_def)
  have m: "?data ! 1 AND 0x80 = 0" and two: "2 \<le> length ?data" using assms(5) by simp_all
  show ?thesis
    using rel unfolding extract_unmasked[OF assms(1,2) two fl m] fo by auto
qed

theorem extract_panics_on_huge_length_witness:
  "try_extract_frame ReleaseBuild
     (add_received_data frame_buffer_new (0x82 # 0x7F # be_bytes 8 (usize_bound - 1) @ [])) = None"
proof -
  let ?fb = "add_received_data frame_buffer_new (0x82 # 0x7F # be_bytes 8 (usize_bound - 1) @ [])"
  have r: "recv_buffer ?fb = db_append (db_new 4096) (0x82 # 0x7F # be_bytes 8 (usize_bound - 1) @ [])"
    by (simp add: add_received_data_def frame_buffer_new_def)
  have i: "db_invar (recv_buffer ?fb)" unfolding r by (rule db_append_facts(1)) simp
  have c: "db_contents (recv_buffer ?fb) = 0x82 # 0x7F # be_bytes 8 (usize_bound - 1) @ []"
    unfolding r by (subst db_append_facts(2)) (rule db_new_facts, simp)
  show ?thesis by (rule extract_panics_on_huge_length[OF i c]) simp_all
qed

text \<open>
  The circular buffer is a byte stream of bounded length: a write stores the longest
  prefix that fits behind what is stored and reports its length, a read moves the oldest
  bytes into the caller's slice and removes them, a peek shows the same bytes and removes
  nothing, and neither ever panics.
\<close>

theorem circular_buffer_stream:
  assumes "cb_invar cb"
  shows "\<exists>cb1 cb2.
     cb_write cb data = Some (cb1, min (length data) (cb_capacity cb - cb_size cb)) \<and>
     cb_contents cb1 = cb_contents cb @ take (cb_capacity cb - cb_size cb) data \<and> cb_invar cb1 \<and>
     cb_peek cb1 out = Some (overwrite_prefix out (take (length out) (cb_contents cb1)),
                             min (length out) (cb_size cb1)) \<and>
     cb_read cb1 out = Some (cb2, overwrite_prefix out (take (length out) (cb_contents cb1)),
                             min (length out) (cb_size cb1)) \<and>
     cb_contents cb2 = drop (length out) (cb_contents cb1) \<and> cb_invar cb2"
proof -
  obtain cb1 where cb1: "cb_write cb data = Some (cb1, min (length data) (cb_capacity cb - cb_size cb))"
      "cb_contents cb1 = cb_contents cb @ take (cb_capacity cb - cb_size cb) data" "cb_invar cb1"
    using cb_write_appends[OF assms] by blast
  show ?thesis using cb1 cb_read_takes[OF cb1(3), of out] cb_peek_eq[OF cb1(3), of out] by blast
qed

theorem circular_buffer_stream_witness:
  "\<exists>cb1 cb2. cb_write (cb_new 4) [1, 2, 3, 4, 5] = Some (cb1, 4) \<and> cb_contents cb1 = [1, 2, 3, 4] \<and>
     cb_read cb1 [0, 0] = Some (cb2, [1, 2], 2) \<and> cb_contents cb2 = [3, 4]"
proof -
  have n: "cb_size (cb_new 4) = 0" by (simp add: cb_new_def)
  from circular_buffer_stream[OF cb_new_facts(1)[of 4], of "[1, 2, 3, 4, 5]" "[0, 0]"]
  obtain cb1 cb2 where c: "cb_write (cb_new 4) [1, 2, 3, 4, 5] = Some (cb1, 4)" "cb_contents cb1 = [1, 2, 3, 4]"
    "cb_read cb1 [0, 0] = Some (cb2, overwrite_prefix [0, 0] (take (length [0::u8, 0]) (cb_contents cb1)),
        min (length [0::u8, 0]) (cb_size cb1))" "cb_contents cb2 = drop (length [0::u8, 0]) (cb_contents cb1)"
    by (auto simp: cb_new_facts n)
  have "cb_size cb1 = 4" using length_cb_contents[of cb1] c(2) by simp
  with c show ?thesis by (auto simp: overwrite_prefix_def)
qed

text \<open>
  Buffers handed out by the pool never carry another client's data: in every history of
  acquiring, writing and dropping buffers, the next acquired buffer has the pool's buffer
  size and is all zero, and the pool never keeps more buffers than it started with or than
  its maximum.
\<close>

theorem pool_buffers_are_clean:
  assumes "pool_run sz count maxp p held"
  shows "pb_buffer (snd (buffer_pool_acquire p)) = Some (byte_vec_zeroed sz) \<and>
         pooled_as_slice (snd (buffer_pool_acquire p)) = Some (replicate sz 0) \<and>
         pool_size p \<le> max count maxp"
  using pool_run_inv[OF assms]
  by (cases "bp_pool p")
     (auto simp: buffer_pool_acquire_def pooled_as_slice_def unwrap_def byte_vec_zeroed_def pool_size_def)

theorem pool_buffers_are_clean_witness:
  "\<exists>p. pool_run 2 1 1 p [] \<and> pool_size p = 1 \<and>
     pooled_as_slice (snd (buffer_pool_acquire p)) = Some [0, 0]"
proof -
  let ?p0 = "buffer_pool_new 2 1 1"
  let ?b = "\<lparr>pb_buffer = Some (byte_vec_zeroed 2), pb_max_pool_size = 1\<rparr>"
  let ?b' = "?b\<lparr>pb_buffer := Some ((byte_vec_zeroed 2)\<lparr>bv_data := [7, 0]\<rparr>)\<rparr>"
  let ?p1 = "?p0\<lparr>bp_pool := []\<rparr>"
  have "pool_run 2 1 1 ?p1 [?b]"
    by (rule pool_acquire[OF pool_start]) (simp add: buffer_pool_new_def buffer_pool_acquire_def)
  then have "pool_run 2 1 1 ?p1 ([?b][0 := ?b'])"
    by (rule pool_write[of _ _ _ _ _ 0 0 7])
       (simp_all add: pooled_write_def unwrap_def idx_set_def byte_vec_zeroed_def numeral_2_eq_2)
  then have r: "pool_run 2 1 1 (pooled_drop ?p1 ?b') ([] @ [])"
    by (intro pool_drop) simp
  have s: "pool_size (pooled_drop ?p1 ?b') = 1"
    by (simp add: pool_size_def pooled_drop_def buffer_pool_new_def)
  have "replicate 2 0 = [0, 0 :: u8]" by (simp add: numeral_2_eq_2)
  with pool_buffers_are_clean[OF r] r s show ?thesis by auto
qed

end
