(* ===== verification/Ws_Deflate.thy ===== *)
theory Ws_Deflate
  imports Ws_Buffers Utf8
begin

text \<open>
  \<^verbatim>\<open>WebSocket/src/15/websocket_permessage_deflate.rs\<close>: frames with compressed payload. The encoder and
  the decoder of the \<open>flate2\<close> library are a parameter: what they make of a whole input.
\<close>

subsection \<open>Compression\<close>

definition FIN :: u8 where "FIN = 0x80"
definition RSV1 :: u8 where "RSV1 = 0x40"
definition OPCODE_TEXT :: u8 where "OPCODE_TEXT = 0x01"

record deflate_config =
  server_no_context_takeover :: bool
  client_no_context_takeover :: bool
  server_max_window_bits :: u8
  client_max_window_bits :: u8

definition default_config :: deflate_config where
  "default_config = \<lparr>server_no_context_takeover = False, client_no_context_takeover = False,
     server_max_window_bits = 15, client_max_window_bits = 15\<rparr>"

record 'e flate2 =
  deflate :: "bytes \<Rightarrow> 'e + bytes"
  inflate :: "bytes \<Rightarrow> 'e + bytes"

definition deflate_tail :: bytes where
  "deflate_tail = [0x00, 0x00, 0xFF, 0xFF]"

definition compress :: "'e flate2 \<Rightarrow> bytes \<Rightarrow> 'e + bytes" where
  "compress Z data = (case deflate Z data of
     Inl e \<Rightarrow> Inl e
   | Inr compressed \<Rightarrow> Inr
       (if length compressed \<ge> 4 \<and> drop (length compressed - 4) compressed = deflate_tail
        then take (length compressed - 4) compressed else compressed))"

definition decompress :: "'e flate2 \<Rightarrow> bytes \<Rightarrow> 'e + bytes" where
  "decompress Z data = inflate Z (data @ deflate_tail)"

subsection \<open>Frames\<close>

definition length_bytes :: "nat \<Rightarrow> bytes" where
  "length_bytes len =
     (if len < 126 then [of_nat len]
      else if len \<le> 0xFFFF then [126, of_nat (drop_bit 8 len), of_nat (len AND 0xFF)]
      else 127 # map (\<lambda>i. of_nat (drop_bit (i * 8) len)) (rev [0..<8]))"

definition create_compressed_frame :: "'e flate2 \<Rightarrow> bytes \<Rightarrow> 'e + bytes" where
  "create_compressed_frame Z message = (case compress Z message of
     Inl e \<Rightarrow> Inl e
   | Inr compressed \<Rightarrow> Inr ([FIN OR RSV1 OR OPCODE_TEXT] @ length_bytes (length compressed) @ compressed))"

datatype 'e parse_error = EmptyFrame | NotCompressed | InvalidFrame | InvalidLengthEncoding | IoError 'e | FromUtf8Error

text \<open>The start of the payload and its length; the length is computed and not used.\<close>

definition payload_position :: "bytes \<Rightarrow> (nat \<times> nat) option" where
  "payload_position frame =
     (let len_byte = frame ! 1 AND 0x7F in
      if len_byte < 126 then Some (2, unat len_byte)
      else if len_byte = 126 \<and> length frame \<ge> 4 then
        Some (4, push_bit 8 (unat (frame ! 2)) OR unat (frame ! 3))
      else if len_byte = 127 \<and> length frame \<ge> 10 then
        Some (10, fold (\<lambda>i len. take_bit 64 (push_bit 8 len) OR unat (frame ! (2 + i))) [0..<8] 0)
      else None)"

definition parse_compressed_frame :: "'e flate2 \<Rightarrow> bytes \<Rightarrow> 'e parse_error + bytes" where
  "parse_compressed_frame Z frame =
     (if frame = [] then Inl EmptyFrame
      else if frame ! 0 AND RSV1 = 0 then Inl NotCompressed
      else if length frame < 2 then Inl InvalidFrame
      else
        (case payload_position frame of
           None \<Rightarrow> Inl InvalidLengthEncoding
         | Some (start, _) \<Rightarrow>
             (case decompress Z (drop start frame) of
                Inl e \<Rightarrow> Inl (IoError e)
              | Inr decompressed \<Rightarrow>
                  if is_valid_utf8 decompressed then Inr decompressed else Inl FromUtf8Error)))"

text \<open>The parameters are joined with a semicolon and a space.\<close>

fun join_params :: "string list \<Rightarrow> string" where
  "join_params [] = []"
| "join_params [p] = p"
| "join_params (p # q # ps) = p @ ''; '' @ join_params (q # ps)"

definition build_handshake_offer :: "deflate_config \<Rightarrow> string" where
  "build_handshake_offer c = join_params (
     [''permessage-deflate''] @
     (if server_no_context_takeover c then [''server_no_context_takeover''] else []) @
     (if client_no_context_takeover c then [''client_no_context_takeover''] else []) @
     (if client_max_window_bits c \<noteq> 15
      then [''client_max_window_bits='' @ string_of_nat (unat (client_max_window_bits c))] else []))"

subsection \<open>Framing\<close>

lemma of_nat_low_byte: "(of_nat (n AND 0xFF) :: u8) = of_nat n"
proof -
  have "n AND 0xFF = n mod 256"
    using take_bit_eq_mask [of 8 n] by (simp add: take_bit_eq_mod mask_eq_exp_minus_1)
  then show ?thesis by (metis of_nat_mod unat_of_nat_u8 of_nat_unat ucast_id)
qed

lemma be_bytes_shifts: "be_bytes k v = map (\<lambda>i. of_nat (drop_bit (i * 8) v)) (rev [0..<k])"
proof (induction k arbitrary: v)
  case (Suc k)
  have shift: "drop_bit (i * 8) (v div 256) = drop_bit (8 + i * 8) v" for i
    using drop_bit_drop_bit [of "i * 8" 8 v] by (simp add: drop_bit_eq_div add.commute)
  have "rev [0..<Suc k] = map Suc (rev [0..<k]) @ [0]"
    by (simp only: upt_conv_Cons [OF zero_less_Suc] map_Suc_upt [symmetric] rev.simps rev_map)
  then show ?case by (simp add: Suc shift del: upt_Suc)
qed simp

lemma length_bytes_be:
  "length_bytes n = of_nat (length_code n) # ext_length n"
proof -
  have "be_bytes 2 n = [of_nat (drop_bit 8 n), of_nat n]"
    using be_bytes_shifts [of 2 n] by (simp add: upt_rec [of 0] upt_rec [of 1] numeral_2_eq_2)
  then show ?thesis
    by (auto simp: length_bytes_def length_code_def ext_length_def be_bytes_shifts [of 8] of_nat_low_byte)
qed

lemma create_frame_encodes:
  "create_compressed_frame Z message = (case compress Z message of
     Inl e \<Rightarrow> Inl e | Inr z \<Rightarrow> Inr (encode_frame 0xC1 None z))"
  by (simp add: create_compressed_frame_def encode_frame_def length_bytes_be FIN_def RSV1_def OPCODE_TEXT_def
      split: sum.split)

lemma payload_position_offset:
  assumes "frame_length f = Some n"
  shows "\<exists>m. payload_position f = Some (frame_offset f, m)"
proof -
  let ?x = "f ! 1 AND 0x7F"
  have "unat ?x < 128" unfolding u8_low7 by simp
  then consider "unat ?x < 126" | "unat ?x = 126" | "unat ?x = 127" by linarith
  then show ?thesis
  proof cases
    case 1
    then have "?x < 126" by (simp add: word_less_nat_alt)
    then show ?thesis using 1 by (simp add: payload_position_def frame_offset_def Let_def)
  next
    case 2
    then have "?x = 126" by (simp add: word_unat_eq_iff)
    then show ?thesis using assms by (simp add: payload_position_def frame_offset_def frame_length_def Let_def split: if_splits)
  next
    case 3
    then have "?x = 127" by (simp add: word_unat_eq_iff)
    then show ?thesis using assms by (simp add: payload_position_def frame_offset_def frame_length_def Let_def split: if_splits)
  qed
qed

text \<open>Parsing a frame, possibly with more bytes behind it, decompresses all bytes behind the header.\<close>

lemma parse_encoded_frame:
  assumes "length z < usize_bound"
  shows "parse_compressed_frame Z (encode_frame 0xC1 None z @ extra) = (case decompress Z (z @ extra) of
     Inl e \<Rightarrow> Inl (IoError e)
   | Inr b \<Rightarrow> if is_valid_utf8 b then Inr b else Inl FromUtf8Error)"
proof -
  let ?f = "encode_frame 0xC1 None z @ extra"
  have d: "?f = 0xC1 # of_nat ((if True then 0 else 128) + length_code (length z)) # ext_length (length z) @ (z @ extra)"
    by (simp add: encode_frame_def)
  note h = frame_header_decodes [OF assms d]
  obtain m where "payload_position ?f = Some (frame_offset ?f, m)" using payload_position_offset [OF h(1)] by blast
  moreover have "drop (frame_offset ?f) ?f = z @ extra" unfolding h(2) by (simp add: d)
  moreover have "?f \<noteq> []" "?f ! 0 AND RSV1 \<noteq> 0" "\<not> length ?f < 2" unfolding d by (simp_all add: RSV1_def)
  ultimately show ?thesis unfolding parse_compressed_frame_def by (simp only: if_False option.case prod.case)
qed

text \<open>
  Compressed frames: whenever the decoder undoes the encoder on the stream that ends in the four
  bytes of an empty block, a text message that was made into a frame is parsed back exactly, and
  another program's frame buffer extracts exactly its compressed payload. The parser does not look
  at the length: bytes of a next frame behind it are given to the decoder as well.
\<close>

theorem compressed_frame_roundtrip:
  assumes "deflate Z message = Inr (z @ deflate_tail)" "inflate Z (z @ deflate_tail) = Inr message"
    and "is_valid_utf8 message" "length z + 14 < usize_bound"
    and "db_invar (recv_buffer fb)" "db_contents (recv_buffer fb) = []"
  shows "\<exists>f fb'. create_compressed_frame Z message = Inr f \<and> parse_compressed_frame Z f = Inr message \<and>
    try_extract_frame prof (add_received_data fb f) = Some (fb', Some z) \<and>
    parse_compressed_frame Z (f @ f) = (case inflate Z (z @ f @ deflate_tail) of
      Inl e \<Rightarrow> Inl (IoError e)
    | Inr b \<Rightarrow> if is_valid_utf8 b then Inr b else Inl FromUtf8Error)"
proof -
  let ?f = "encode_frame 0xC1 None z"
  have small: "length z < usize_bound" using assms(4) by linarith
  have "create_compressed_frame Z message = Inr ?f"
    using assms(1) by (simp add: create_frame_encodes compress_def deflate_tail_def)
  moreover have "parse_compressed_frame Z ?f = Inr message"
    using parse_encoded_frame [OF small, of Z "[]"] assms(2,3) by (simp add: decompress_def)
  moreover have fb: "db_invar (recv_buffer (add_received_data fb ?f))" "db_contents (recv_buffer (add_received_data fb ?f)) = ?f @ []"
    using db_append_facts [OF assms(5)] assms(6) by (simp_all add: add_received_data_def)
  moreover obtain fb' where "try_extract_frame prof (add_received_data fb ?f) = Some (fb', Some z)"
    using extract_whole_frame [OF fb _ assms(4), of prof] by auto
  moreover have "parse_compressed_frame Z (?f @ ?f) = (case inflate Z (z @ ?f @ deflate_tail) of
      Inl e \<Rightarrow> Inl (IoError e) | Inr b \<Rightarrow> if is_valid_utf8 b then Inr b else Inl FromUtf8Error)"
    using parse_encoded_frame [OF small, of Z ?f] by (simp add: decompress_def)
  ultimately show ?thesis by blast
qed

text \<open>A library that stores its input in one block of the form that ends in the four bytes.\<close>

definition stored :: "unit flate2" where
  "stored = \<lparr>deflate = (\<lambda>x. Inr (x @ deflate_tail)),
     inflate = (\<lambda>x. if drop (length x - 4) x = deflate_tail then Inr (take (length x - 4) x) else Inl ())\<rparr>"

theorem compressed_frame_roundtrip_witness:
  "\<exists>f. create_compressed_frame stored [72, 105] = Inr f \<and> parse_compressed_frame stored f = Inr [72, 105]"
proof -
  have "deflate stored [72, 105] = Inr ([72, 105] @ deflate_tail)" "inflate stored ([72, 105] @ deflate_tail) = Inr [72, 105]"
    by (simp_all add: stored_def deflate_tail_def)
  moreover have "is_valid_utf8 [72, 105]" "length [72, 105 :: u8] + 14 < usize_bound" by simp_all
  moreover have "db_invar (recv_buffer frame_buffer_new)" "db_contents (recv_buffer frame_buffer_new) = []"
    by (simp_all add: frame_buffer_new_def)
  ultimately show ?thesis using compressed_frame_roundtrip [of stored "[72, 105]" "[72, 105]" frame_buffer_new ReleaseBuild] by blast
qed

text \<open>The offer says nothing of the server's window, whatever the configuration.\<close>

lemma offer_ignores_server_window:
  "build_handshake_offer (c\<lparr>server_max_window_bits := n\<rparr>) = build_handshake_offer c"
  by (simp add: build_handshake_offer_def)

end
