(* ===== verification/Ws_Mio_Server.thy ===== *)
theory Ws_Mio_Server
  imports Bus_Io
begin

text \<open>
  \<^verbatim>\<open>WebSocket/src/17/websocket_server_with_mio.rs\<close>: an event-driven echo server. The \<open>mio\<close> library
  and the operating system are a parameter: operations on a state \<open>'w\<close> that holds the sockets and
  the registry, with streams named by \<open>'s\<close> and addresses \<open>'a\<close>. The result of a loop is an
  \<open>option\<close>: \<open>None\<close> when it never ends (or panics).
\<close>

subsection \<open>Clients\<close>

datatype 'e io_error = WouldBlock | OtherError 'e

datatype interest = READABLE | READABLE_WRITABLE

record event =
  event_token :: nat
  is_readable :: bool
  is_writable :: bool

record ('w, 's, 'a, 'e) mio =
  parse_address :: "string \<Rightarrow> 'a option"
  listener_bind :: "'a \<Rightarrow> 'w \<Rightarrow> ('w, 'e io_error, unit) io"
  poll_new :: "'w \<Rightarrow> ('w, 'e io_error, unit) io"
  register_listener :: "nat \<Rightarrow> interest \<Rightarrow> 'w \<Rightarrow> ('w, 'e io_error, unit) io"
  register_stream :: "'s \<Rightarrow> nat \<Rightarrow> interest \<Rightarrow> 'w \<Rightarrow> ('w, 'e io_error, unit) io"
  reregister :: "'s \<Rightarrow> nat \<Rightarrow> interest \<Rightarrow> 'w \<Rightarrow> ('w, 'e io_error, unit) io"
  accept :: "'w \<Rightarrow> ('w, 'e io_error, 's \<times> 'a) io"
  stream_read :: "'s \<Rightarrow> nat \<Rightarrow> 'w \<Rightarrow> ('w, 'e io_error, bytes) io"
  stream_write :: "'s \<Rightarrow> bytes \<Rightarrow> 'w \<Rightarrow> ('w, 'e io_error, nat) io"
  stream_drop :: "'s \<Rightarrow> 'w \<Rightarrow> 'w"
  poll :: "'w \<Rightarrow> ('w, 'e io_error, event list) io"

definition SERVER :: nat where "SERVER = 0"
definition BUFFER_SIZE :: nat where "BUFFER_SIZE = 4096"

record ('s, 'a) client =
  stream :: 's
  client_addr :: 'a
  write_buffer :: bytes

definition client_new :: "'s \<Rightarrow> 'a \<Rightarrow> ('s, 'a) client" where
  "client_new s a = \<lparr>stream = s, client_addr = a, write_buffer = []\<rparr>"

text \<open>The loop of \<open>readable\<close>: \<open>Inr None\<close> when the peer has closed the connection.\<close>

partial_function (option) readable ::
  "('w, 's, 'a, 'e) mio \<Rightarrow> 's \<Rightarrow> bytes \<Rightarrow> 'w \<Rightarrow> ('w, 'e io_error, bytes option) io option" where
  "readable M s data w = (case stream_read M s BUFFER_SIZE w of
     (w, Inr buf) \<Rightarrow> if buf = [] then Some (w, Inr None) else readable M s (data @ buf) w
   | (w, Inl e) \<Rightarrow> (case e of WouldBlock \<Rightarrow> Some (w, Inr (Some data)) | OtherError x \<Rightarrow> Some (w, Inl e)))"

partial_function (option) write_loop ::
  "('w, 's, 'a, 'e) mio \<Rightarrow> ('s, 'a) client \<times> 'w \<Rightarrow> (('s, 'a) client \<times> 'w, 'e io_error, unit) io option" where
  "write_loop M cw = (case cw of (c, w) \<Rightarrow>
     if write_buffer c = [] then Some ((c, w), Inr ())
     else (case stream_write M (stream c) (write_buffer c) w of
         (w, Inr n) \<Rightarrow> if n \<le> length (write_buffer c)
           then write_loop M (c\<lparr>write_buffer := drop n (write_buffer c)\<rparr>, w) else None
       | (w, Inl e) \<Rightarrow> (case e of WouldBlock \<Rightarrow> Some ((c, w), Inr ()) | OtherError x \<Rightarrow> Some ((c, w), Inl e))))"

definition on_client :: "'c \<Rightarrow> ('w, 'e, 'b) io \<Rightarrow> ('c \<times> 'w, 'e, 'b) io" where
  "on_client c r = (case r of (w, x) \<Rightarrow> ((c, w), x))"

definition writable ::
  "('w, 's, 'a, 'e) mio \<Rightarrow> nat \<Rightarrow> ('s, 'a) client \<times> 'w \<Rightarrow> (('s, 'a) client \<times> 'w, 'e io_error, unit) io option" where
  "writable M token cw = try_run (write_loop M cw) (\<lambda>(c, w) _.
     if write_buffer c = [] then Some (on_client c (reregister M (stream c) token READABLE w))
     else Some ((c, w), Inr ()))"

definition queue_write ::
  "('w, 's, 'a, 'e) mio \<Rightarrow> nat \<Rightarrow> bytes \<Rightarrow> ('s, 'a) client \<times> 'w \<Rightarrow> (('s, 'a) client \<times> 'w, 'e io_error, unit) io" where
  "queue_write M token data cw = (case cw of (c, w) \<Rightarrow>
     let c = c\<lparr>write_buffer := write_buffer c @ data\<rparr>
     in on_client c (reregister M (stream c) token READABLE_WRITABLE w))"

subsection \<open>The server\<close>

record ('s, 'a) server =
  clients :: "nat \<rightharpoonup> ('s, 'a) client"
  next_token :: nat

type_synonym ('w, 's, 'a, 'e, 'b) server_io = "(('s, 'a) server \<times> 'w, 'e io_error, 'b) io option"

definition server_new ::
  "('w, 's, 'a, 'e) mio \<Rightarrow> string \<Rightarrow> 'w \<Rightarrow> ('w, 'e io_error, ('s, 'a) server) io option" where
  "server_new M addr w = (case parse_address M addr of
     None \<Rightarrow> None
   | Some address \<Rightarrow> Some (
       try_io (listener_bind M address w) (\<lambda>w _.
       try_io (poll_new M w) (\<lambda>w _.
       try_io (register_listener M SERVER READABLE w) (\<lambda>w _.
         (w, Inr \<lparr>clients = Map.empty, next_token = 1\<rparr>))))))"

partial_function (option) accept_connections ::
  "('w, 's, 'a, 'e) mio \<Rightarrow> ('s, 'a) server \<times> 'w \<Rightarrow> ('w, 's, 'a, 'e, unit) server_io" where
  "accept_connections M sw = (case sw of (sv, w) \<Rightarrow>
     (case accept M w of
        (w, Inr (s, a)) \<Rightarrow>
          (let token = next_token sv; sv = sv\<lparr>next_token := token + 1\<rparr> in
           case register_stream M s token READABLE w of
             (w, Inl e) \<Rightarrow> Some ((sv, stream_drop M s w), Inl e)
           | (w, Inr _) \<Rightarrow> accept_connections M (sv\<lparr>clients := (clients sv)(token \<mapsto> client_new s a)\<rparr>, w))
      | (w, Inl e) \<Rightarrow> (case e of WouldBlock \<Rightarrow> Some ((sv, w), Inr ()) | OtherError x \<Rightarrow> Some ((sv, w), Inl e))))"

text \<open>Removing a client drops its stream.\<close>

definition remove_client :: "('w, 's, 'a, 'e) mio \<Rightarrow> nat \<Rightarrow> ('s, 'a) server \<times> 'w \<Rightarrow> ('s, 'a) server \<times> 'w" where
  "remove_client M token sw = (case sw of (sv, w) \<Rightarrow>
     case clients sv token of
       None \<Rightarrow> (sv, w)
     | Some c \<Rightarrow> (sv\<lparr>clients := (clients sv)(token := None)\<rparr>, stream_drop M (stream c) w))"

definition handle_client_readable ::
  "('w, 's, 'a, 'e) mio \<Rightarrow> nat \<Rightarrow> ('s, 'a) server \<times> 'w \<Rightarrow> ('w, 's, 'a, 'e, unit) server_io" where
  "handle_client_readable M token sw = (case sw of (sv, w) \<Rightarrow>
     case clients sv token of
       None \<Rightarrow> Some ((sv, w), Inr ())
     | Some c \<Rightarrow> (case readable M (stream c) [] w of
           None \<Rightarrow> None
         | Some (w, Inl e) \<Rightarrow> Some ((sv, w), Inl e)
         | Some (w, Inr (Some data)) \<Rightarrow>
             (if data \<noteq> [] then
                (case queue_write M token data (c, w) of
                   ((c, w), r) \<Rightarrow> Some ((sv\<lparr>clients := (clients sv)(token \<mapsto> c)\<rparr>, w), r))
              else Some ((sv, w), Inr ()))
         | Some (w, Inr None) \<Rightarrow> Some (remove_client M token (sv, w), Inr ())))"

definition handle_client_writable ::
  "('w, 's, 'a, 'e) mio \<Rightarrow> nat \<Rightarrow> ('s, 'a) server \<times> 'w \<Rightarrow> ('w, 's, 'a, 'e, unit) server_io" where
  "handle_client_writable M token sw = (case sw of (sv, w) \<Rightarrow>
     case clients sv token of
       None \<Rightarrow> Some ((sv, w), Inr ())
     | Some c \<Rightarrow> (case writable M token (c, w) of
           None \<Rightarrow> None
         | Some ((c, w), r) \<Rightarrow> Some ((sv\<lparr>clients := (clients sv)(token \<mapsto> c)\<rparr>, w), r)))"

text \<open>One event of the loop of \<open>run\<close>: an error of a handler removes the client.\<close>

definition or_remove ::
  "('w, 's, 'a, 'e) mio \<Rightarrow> nat \<Rightarrow> ('w, 's, 'a, 'e, unit) server_io \<Rightarrow> (('s, 'a) server \<times> 'w) option" where
  "or_remove M token r = (case r of
     None \<Rightarrow> None | Some (sw, Inr _) \<Rightarrow> Some sw | Some (sw, Inl _) \<Rightarrow> Some (remove_client M token sw))"

definition handle_event ::
  "('w, 's, 'a, 'e) mio \<Rightarrow> event \<Rightarrow> ('s, 'a) server \<times> 'w \<Rightarrow> ('w, 's, 'a, 'e, unit) server_io" where
  "handle_event M ev sw =
     (if event_token ev = SERVER then accept_connections M sw
      else
        do {
          sw \<leftarrow> (if is_readable ev
                 then or_remove M (event_token ev) (handle_client_readable M (event_token ev) sw) else Some sw);
          sw \<leftarrow> (if is_writable ev
                 then or_remove M (event_token ev) (handle_client_writable M (event_token ev) sw) else Some sw);
          Some (sw, Inr ())
        })"

primrec handle_events ::
  "('w, 's, 'a, 'e) mio \<Rightarrow> event list \<Rightarrow> ('s, 'a) server \<times> 'w \<Rightarrow> ('w, 's, 'a, 'e, unit) server_io" where
  "handle_events M [] sw = Some (sw, Inr ())"
| "handle_events M (ev # evs) sw = try_run (handle_event M ev sw) (\<lambda>sw _. handle_events M evs sw)"

partial_function (option) run ::
  "('w, 's, 'a, 'e) mio \<Rightarrow> ('s, 'a) server \<times> 'w \<Rightarrow> (('s, 'a) server \<times> 'w, 'e io_error, unit) io option" where
  "run M sw = (case sw of (sv, w) \<Rightarrow>
     (case poll M w of
        (w, Inl e) \<Rightarrow> Some ((sv, w), Inl e)
      | (w, Inr events) \<Rightarrow> (case handle_events M events (sv, w) of
            None \<Rightarrow> None
          | Some (sw, Inl e) \<Rightarrow> Some (sw, Inl e)
          | Some (sw, Inr _) \<Rightarrow> run M sw)))"

subsection \<open>A network\<close>

text \<open>
  The reference network: per stream the bytes that wait to be read, whether the peer has closed,
  the bytes written so far, and the room the socket has for more; the registry with its interests;
  the connections waiting to be accepted. \<open>sent\<close> records everything a peer has sent.
\<close>

record net =
  incoming :: "nat \<Rightarrow> bytes"
  closed :: "nat \<Rightarrow> bool"
  outgoing :: "nat \<Rightarrow> bytes"
  room :: "nat \<Rightarrow> nat"
  registry :: "nat \<rightharpoonup> nat \<times> interest"
  backlog :: "nat list"
  sent :: "nat \<Rightarrow> bytes"
  ready :: "event list list"

definition net_read :: "nat \<Rightarrow> nat \<Rightarrow> net \<Rightarrow> (net, unit io_error, bytes) io" where
  "net_read s n w =
     (if incoming w s = [] then (w, if closed w s then Inr [] else Inl WouldBlock)
      else (w\<lparr>incoming := (incoming w)(s := drop n (incoming w s))\<rparr>, Inr (take n (incoming w s))))"

definition net_write :: "nat \<Rightarrow> bytes \<Rightarrow> net \<Rightarrow> (net, unit io_error, nat) io" where
  "net_write s bs w =
     (if room w s = 0 then (w, Inl WouldBlock)
      else (w\<lparr>outgoing := (outgoing w)(s := outgoing w s @ take (room w s) bs),
              room := (room w)(s := room w s - length bs)\<rparr>, Inr (min (room w s) (length bs))))"

definition net_accept :: "net \<Rightarrow> (net, unit io_error, nat \<times> unit) io" where
  "net_accept w = (case backlog w of [] \<Rightarrow> (w, Inl WouldBlock) | s # ss \<Rightarrow> (w\<lparr>backlog := ss\<rparr>, Inr (s, ())))"

definition network :: "(net, nat, unit, unit) mio" where
  "network = \<lparr>parse_address = (\<lambda>_. Some ()), listener_bind = (\<lambda>_ w. (w, Inr ())), poll_new = (\<lambda>w. (w, Inr ())),
     register_listener = (\<lambda>_ _ w. (w, Inr ())),
     register_stream = (\<lambda>s t i w. (w\<lparr>registry := (registry w)(s \<mapsto> (t, i))\<rparr>, Inr ())),
     reregister = (\<lambda>s t i w. (w\<lparr>registry := (registry w)(s \<mapsto> (t, i))\<rparr>, Inr ())),
     accept = net_accept, stream_read = net_read, stream_write = net_write,
     stream_drop = (\<lambda>s w. w\<lparr>registry := (registry w)(s := None)\<rparr>),
     poll = (\<lambda>w. case ready w of [] \<Rightarrow> (w, Inl (OtherError ())) | evs # later \<Rightarrow> (w\<lparr>ready := later\<rparr>, Inr evs))\<rparr>"

lemma network_simps [simp]:
  "accept network = net_accept" "stream_read network = net_read" "stream_write network = net_write"
  "register_stream network s t i w = (w\<lparr>registry := (registry w)(s \<mapsto> (t, i))\<rparr>, Inr ())"
  "reregister network s t i w = (w\<lparr>registry := (registry w)(s \<mapsto> (t, i))\<rparr>, Inr ())"
  "stream_drop network s w = w\<lparr>registry := (registry w)(s := None)\<rparr>"
  by (simp_all add: network_def)

lemma readable_network:
  "readable network s data w = Some (w\<lparr>incoming := (incoming w)(s := [])\<rparr>,
     Inr (if closed w s then None else Some (data @ incoming w s)))"
proof (induction "length (incoming w s)" arbitrary: w data rule: less_induct)
  case less
  show ?case
  proof (cases "incoming w s = []")
    case True
    then have "w\<lparr>incoming := (incoming w)(s := [])\<rparr> = w" by (simp add: fun_upd_idem)
    then show ?thesis using True by (subst readable.simps) (simp add: net_read_def)
  next
    case False
    let ?w = "w\<lparr>incoming := (incoming w)(s := drop BUFFER_SIZE (incoming w s))\<rparr>"
    have "length (incoming ?w s) < length (incoming w s)" using False by (simp add: BUFFER_SIZE_def)
    from less [OF this, of "data @ take BUFFER_SIZE (incoming w s)"]
    have "readable network s (data @ take BUFFER_SIZE (incoming w s)) ?w =
      Some (w\<lparr>incoming := (incoming w)(s := [])\<rparr>, Inr (if closed w s then None else Some (data @ incoming w s)))"
      by simp
    then show ?thesis using False by (subst readable.simps) (simp add: net_read_def BUFFER_SIZE_def)
  qed
qed

lemma write_loop_network:
  "write_loop network (c, w) =
     Some ((c\<lparr>write_buffer := drop (room w (stream c)) (write_buffer c)\<rparr>,
       w\<lparr>outgoing := (outgoing w)(stream c := outgoing w (stream c) @ take (room w (stream c)) (write_buffer c)),
         room := (room w)(stream c := room w (stream c) - length (write_buffer c))\<rparr>), Inr ())"
proof -
  have same: "w\<lparr>outgoing := (outgoing w)(stream c := outgoing w (stream c)), room := (room w)(stream c := room w (stream c))\<rparr> = w"
    for w :: net and c :: "(nat, 'x) client" by (simp add: fun_upd_idem)
  have full: "write_loop network (c, w) = Some ((c, w), Inr ())" if "write_buffer c = [] \<or> room w (stream c) = 0" for c w
    using that by (subst write_loop.simps) (auto simp: net_write_def)
  show ?thesis
  proof (cases "write_buffer c = [] \<or> room w (stream c) = 0")
    case True
    then show ?thesis using full [OF True] same [of w c] by (auto simp: fun_upd_idem)
  next
    case False
    let ?c = "c\<lparr>write_buffer := drop (room w (stream c)) (write_buffer c)\<rparr>"
    let ?w = "w\<lparr>outgoing := (outgoing w)(stream c := outgoing w (stream c) @ take (room w (stream c)) (write_buffer c)),
         room := (room w)(stream c := room w (stream c) - length (write_buffer c))\<rparr>"
    have "write_loop network (c, w) = write_loop network (?c, ?w)"
      using False by (subst write_loop.simps) (auto simp: net_write_def min_def)
    also have "\<dots> = Some ((?c, ?w), Inr ())" by (rule full) auto
    finally show ?thesis .
  qed
qed

subsection \<open>Handlers on the network\<close>

definition queue_interest :: "('s, 'a) client \<Rightarrow> interest" where
  "queue_interest c = (if write_buffer c = [] then READABLE else READABLE_WRITABLE)"

lemma handle_client_readable_network:
  assumes "clients sv t = Some c"
  defines "s \<equiv> stream c"
  shows "handle_client_readable network t (sv, w) =
    (if closed w s
     then Some ((sv\<lparr>clients := (clients sv)(t := None)\<rparr>,
       w\<lparr>incoming := (incoming w)(s := []), registry := (registry w)(s := None)\<rparr>), Inr ())
     else if incoming w s = [] then Some ((sv, w), Inr ())
     else Some ((sv\<lparr>clients := (clients sv)(t \<mapsto> c\<lparr>write_buffer := write_buffer c @ incoming w s\<rparr>)\<rparr>,
       w\<lparr>incoming := (incoming w)(s := []), registry := (registry w)(s \<mapsto> (t, READABLE_WRITABLE))\<rparr>), Inr ()))"
proof -
  have "w\<lparr>incoming := (incoming w)(s := [])\<rparr> = w" if "incoming w s = []" using that by (simp add: fun_upd_idem)
  then show ?thesis using assms(1)
    by (simp add: handle_client_readable_def readable_network s_def queue_write_def on_client_def remove_client_def)
qed

lemma handle_client_writable_network:
  fixes w :: net
  assumes "clients sv t = Some c"
  defines "s \<equiv> stream c" and "c' \<equiv> c\<lparr>write_buffer := drop (room w (stream c)) (write_buffer c)\<rparr>"
  shows "handle_client_writable network t (sv, w) = Some ((sv\<lparr>clients := (clients sv)(t \<mapsto> c')\<rparr>,
    w\<lparr>outgoing := (outgoing w)(s := outgoing w s @ take (room w s) (write_buffer c)),
      room := (room w)(s := room w s - length (write_buffer c)),
      registry := (if write_buffer c' = [] then (registry w)(s \<mapsto> (t, READABLE)) else registry w)\<rparr>), Inr ())"
  using assms(1) by (simp add: handle_client_writable_def writable_def write_loop_network on_client_def s_def c'_def)

lemma or_remove_Inr [simp]: "or_remove M t (Some (sw, Inr ())) = Some sw"
  by (simp add: or_remove_def)

lemma unknown_client [simp]:
  "clients sv t = None \<Longrightarrow> handle_client_readable M t (sv, w) = Some ((sv, w), Inr ())"
  "clients sv t = None \<Longrightarrow> handle_client_writable M t (sv, w) = Some ((sv, w), Inr ())"
  by (simp_all add: handle_client_readable_def handle_client_writable_def)

subsection \<open>What is echoed\<close>

fun echo_inv :: "(nat, unit) server \<times> net \<Rightarrow> bool" where
  "echo_inv (sv, w) \<longleftrightarrow>
     (\<forall>t c. clients sv t = Some c \<longrightarrow>
        registry w (stream c) = Some (t, queue_interest c) \<and>
        outgoing w (stream c) @ write_buffer c @ incoming w (stream c) = sent w (stream c)) \<and>
     (\<forall>s \<in> set (backlog w). registry w s = None \<and> outgoing w s = [] \<and> incoming w s = sent w s) \<and>
     distinct (backlog w) \<and> 0 < next_token sv \<and> clients sv SERVER = None \<and>
     (\<forall>t \<ge> next_token sv. clients sv t = None)"

lemma streams_distinct:
  assumes "echo_inv (sv, w)" "clients sv u = Some d" "clients sv t = Some c" "u \<noteq> t"
  shows "stream d \<noteq> stream c"
proof -
  have "registry w (stream d) = Some (u, queue_interest d)" "registry w (stream c) = Some (t, queue_interest c)"
    using assms by simp_all
  then show ?thesis using assms(4) by auto
qed

lemma echo_inv_readable:
  assumes "echo_inv (sv, w)"
  shows "\<exists>sw. handle_client_readable network t (sv, w) = Some (sw, Inr ()) \<and> echo_inv sw"
proof (cases "clients sv t")
  case None
  then show ?thesis using assms by simp
next
  case (Some c)
  have other: "stream d \<noteq> stream c" if "clients sv u = Some d" "u \<noteq> t" for u d
    using streams_distinct [OF assms that(1) Some that(2)] .
  have "stream c \<notin> set (backlog w)" using assms Some by force
  then show ?thesis
    using assms Some other unfolding handle_client_readable_network [OF Some]
    by (auto simp: queue_interest_def)
qed

lemma echo_inv_writable:
  assumes "echo_inv (sv, w)"
  shows "\<exists>sw. handle_client_writable network t (sv, w) = Some (sw, Inr ()) \<and> echo_inv sw"
proof (cases "clients sv t")
  case None
  then show ?thesis using assms by simp
next
  case (Some c)
  have other: "stream d \<noteq> stream c" if "clients sv u = Some d" "u \<noteq> t" for u d
    using streams_distinct [OF assms that(1) Some that(2)] .
  have sent: "outgoing w (stream c) @ write_buffer c @ incoming w (stream c) = sent w (stream c)"
    using assms Some by simp
  have td: "take n b @ drop n b @ x = b @ x" for n and b x :: bytes by (simp flip: append_assoc)
  have "stream c \<notin> set (backlog w)" using assms Some by force
  then show ?thesis
    using assms Some other sent unfolding handle_client_writable_network [OF Some]
    by (auto simp: queue_interest_def td) (metis append_Nil)
qed

lemma echo_inv_accept:
  "echo_inv (sv, w) \<Longrightarrow> \<exists>sw. accept_connections network (sv, w) = Some (sw, Inr ()) \<and> echo_inv sw"
proof (induction "backlog w" arbitrary: sv w)
  case Nil
  then show ?case by (subst accept_connections.simps) (simp add: net_accept_def flip: Nil(1))
next
  case (Cons s ss)
  let ?sv = "sv\<lparr>next_token := next_token sv + 1, clients := (clients sv)(next_token sv \<mapsto> client_new s ())\<rparr>"
  let ?w = "w\<lparr>backlog := ss, registry := (registry w)(s \<mapsto> (next_token sv, READABLE))\<rparr>"
  have step: "accept_connections network (sv, w) = accept_connections network (?sv, ?w)"
    by (subst accept_connections.simps) (simp add: net_accept_def Let_def flip: Cons(2))
  have free: "registry w s = None" "s \<notin> set ss" "distinct ss" "outgoing w s = []" "incoming w s = sent w s"
    using Cons.prems by (simp_all flip: Cons(2))
  moreover have "stream d \<noteq> s" if "clients sv u = Some d" for u d using Cons.prems that free(1) by force
  ultimately have "echo_inv (?sv, ?w)"
    using Cons.prems by (auto simp: client_new_def queue_interest_def SERVER_def simp flip: Cons(2))
  then show ?case unfolding step using Cons(1) [of ?w ?sv] by simp
qed

declare echo_inv.simps [simp del]

lemma echo_inv_event:
  assumes "echo_inv sw"
  shows "\<exists>sw'. handle_event network ev sw = Some (sw', Inr ()) \<and> echo_inv sw'"
proof -
  obtain sv w where sw: "sw = (sv, w)" by force
  show ?thesis
  proof (cases "event_token ev = SERVER")
    case True
    then show ?thesis using echo_inv_accept assms by (simp add: handle_event_def sw)
  next
    case False
    obtain sw1 where 1: "(if is_readable ev then or_remove network (event_token ev)
        (handle_client_readable network (event_token ev) sw) else Some sw) = Some sw1" "echo_inv sw1"
      using echo_inv_readable [of sv w "event_token ev"] assms
      by (cases "is_readable ev") (auto simp: sw)
    obtain sw2 where 2: "(if is_writable ev then or_remove network (event_token ev)
        (handle_client_writable network (event_token ev) sw1) else Some sw1) = Some sw2" "echo_inv sw2"
      using echo_inv_writable [of "fst sw1" "snd sw1" "event_token ev"] 1(2)
      by (cases "is_writable ev"; cases sw1) auto
    show ?thesis unfolding handle_event_def using False 1 2 by simp
  qed
qed

text \<open>Peers connect, send and close, sockets drain, and the server handles events in any order.\<close>

inductive served :: "(nat, unit) server \<times> net \<Rightarrow> bool" where
  served_new: "server_new network addr w0 = Some (w, Inr sv) \<Longrightarrow> backlog w0 = [] \<Longrightarrow> served (sv, w)"
| served_connect: "served (sv, w) \<Longrightarrow> s \<notin> set (backlog w) \<Longrightarrow> registry w s = None \<Longrightarrow>
    served (sv, w\<lparr>backlog := backlog w @ [s], incoming := (incoming w)(s := []), outgoing := (outgoing w)(s := []),
      sent := (sent w)(s := []), closed := (closed w)(s := False)\<rparr>)"
| served_arrive: "served (sv, w) \<Longrightarrow> \<not> closed w s \<Longrightarrow>
    served (sv, w\<lparr>incoming := (incoming w)(s := incoming w s @ bs), sent := (sent w)(s := sent w s @ bs)\<rparr>)"
| served_close: "served (sv, w) \<Longrightarrow> served (sv, w\<lparr>closed := (closed w)(s := True)\<rparr>)"
| served_drain: "served (sv, w) \<Longrightarrow> served (sv, w\<lparr>room := (room w)(s := n)\<rparr>)"
| served_event: "served sw \<Longrightarrow> handle_event network ev sw = Some (sw', r) \<Longrightarrow> served sw'"

lemma served_inv: "served sw \<Longrightarrow> echo_inv sw"
proof (induction rule: served.induct)
  case (served_new addr w0 w sv)
  then show ?case by (auto simp: server_new_def network_def echo_inv.simps)
next
  case (served_connect sv w s)
  then have "stream c \<noteq> s" if "clients sv t = Some c" for t c using that by (force simp: echo_inv.simps)
  then show ?case using served_connect by (auto simp: echo_inv.simps)
next
  case (served_arrive sv w s bs)
  then show ?case by (fastforce simp: echo_inv.simps)
next
  case (served_event sw ev sw' r)
  then show ?case using echo_inv_event [of sw ev] by auto
qed (simp_all add: echo_inv.simps)

text \<open>
  C29. The server echoes: at every moment of every history, what was written to a client, what waits
  in its write buffer and what waits in the socket are together exactly what its peer has sent, in
  order; the write interest is registered exactly when the write buffer is not empty, so no wake-up
  is missed; and when the peer is still open and the socket has room, handling one event writes
  everything.
\<close>

theorem echo_exact:
  assumes "served (sv, w)" "clients sv t = Some c"
  defines "s \<equiv> stream c"
  shows "outgoing w s @ write_buffer c @ incoming w s = sent w s \<and>
    registry w s = Some (t, if write_buffer c = [] then READABLE else READABLE_WRITABLE) \<and>
    (\<not> closed w s \<and> length (write_buffer c @ incoming w s) \<le> room w s \<longrightarrow>
      (\<exists>sv' w'. handle_event network \<lparr>event_token = t, is_readable = True, is_writable = True\<rparr> (sv, w) =
          Some ((sv', w'), Inr ()) \<and> outgoing w' s = sent w s \<and> clients sv' t = Some (c\<lparr>write_buffer := []\<rparr>)))"
proof (intro conjI impI)
  have inv: "echo_inv (sv, w)" using assms(1) by (rule served_inv)
  then show all: "outgoing w s @ write_buffer c @ incoming w s = sent w s"
    and "registry w s = Some (t, if write_buffer c = [] then READABLE else READABLE_WRITABLE)"
    using assms(2) by (auto simp: echo_inv.simps s_def queue_interest_def)
  let ?ev = "\<lparr>event_token = t, is_readable = True, is_writable = True\<rparr>"
  have "t \<noteq> SERVER" using inv assms(2) by (auto simp: echo_inv.simps)
  moreover assume ok: "\<not> closed w s \<and> length (write_buffer c @ incoming w s) \<le> room w s"
  ultimately show "\<exists>sv' w'. handle_event network ?ev (sv, w) = Some ((sv', w'), Inr ()) \<and>
      outgoing w' s = sent w s \<and> clients sv' t = Some (c\<lparr>write_buffer := []\<rparr>)"
    using all assms(2)
    by (auto simp: handle_event_def handle_client_readable_network handle_client_writable_network s_def)
qed

definition quiet_net :: net where
  "quiet_net = \<lparr>incoming = (\<lambda>_. []), closed = (\<lambda>_. False), outgoing = (\<lambda>_. []), room = (\<lambda>_. 9),
     registry = Map.empty, backlog = [], sent = (\<lambda>_. []), ready = []\<rparr>"

definition talking :: "(nat, unit) server \<times> net" where
  "talking = (\<lparr>clients = [1 \<mapsto> client_new 7 ()], next_token = 2\<rparr>,
     quiet_net\<lparr>registry := [7 \<mapsto> (1, READABLE)], incoming := (incoming quiet_net)(7 := [10, 20]),
       sent := (sent quiet_net)(7 := [10, 20])\<rparr>)"

lemma served_talking: "served talking"
proof -
  let ?sv = "\<lparr>clients = Map.empty, next_token = 1\<rparr> :: (nat, unit) server"
  let ?w = "quiet_net\<lparr>backlog := [7]\<rparr>"
  have "served (?sv, quiet_net)"
    by (rule served_new [where w0 = quiet_net and addr = "''0.0.0.0:8080''"])
       (simp add: server_new_def network_def, simp add: quiet_net_def)
  from served_connect [OF this, of 7] have "served (?sv, ?w)"
    by (simp add: quiet_net_def fun_upd_idem)
  moreover have "handle_event network \<lparr>event_token = SERVER, is_readable = True, is_writable = False\<rparr> (?sv, ?w) =
      Some ((\<lparr>clients = [1 \<mapsto> client_new 7 ()], next_token = 2\<rparr>, quiet_net\<lparr>registry := [7 \<mapsto> (1, READABLE)]\<rparr>), Inr ())"
    by (simp add: handle_event_def, subst accept_connections.simps, simp add: net_accept_def,
        subst accept_connections.simps, simp add: net_accept_def quiet_net_def)
  ultimately have "served (\<lparr>clients = [1 \<mapsto> client_new 7 ()], next_token = 2\<rparr>, quiet_net\<lparr>registry := [7 \<mapsto> (1, READABLE)]\<rparr>)"
    by (rule served_event)
  from served_arrive [OF this, of 7 "[10, 20]"] show ?thesis by (simp add: talking_def quiet_net_def)
qed

theorem echo_exact_witness:
  "\<exists>sv' w'. handle_event network \<lparr>event_token = 1, is_readable = True, is_writable = True\<rparr> talking =
      Some ((sv', w'), Inr ()) \<and> outgoing w' 7 = [10, 20]"
proof -
  have "clients (fst talking) 1 = Some (client_new 7 ())" "served (fst talking, snd talking)"
    using served_talking by (simp_all add: talking_def)
  from echo_exact [OF this(2) this(1)] show ?thesis
    by (auto simp: talking_def client_new_def quiet_net_def)
qed

text \<open>
  A peer that sends and then closes before the server reads loses its answer: \<open>readable\<close> returns as
  soon as it sees the end of the stream and forgets what it has read before, and the client is
  removed together with what still waited in its write buffer.
\<close>

theorem data_before_close_lost:
  assumes "served (sv, w)" "clients sv t = Some c" "closed w (stream c)" "sent w (stream c) = outgoing w (stream c) @ data"
  shows "\<exists>sv' w'. handle_event network \<lparr>event_token = t, is_readable = True, is_writable = writ\<rparr> (sv, w) =
      Some ((sv', w'), Inr ()) \<and> clients sv' t = None \<and> registry w' (stream c) = None \<and>
      sent w' (stream c) = outgoing w' (stream c) @ data"
proof -
  have "t \<noteq> SERVER" using served_inv [OF assms(1)] assms(2) by (auto simp: echo_inv.simps)
  then show ?thesis using assms(2-) by (simp add: handle_event_def handle_client_readable_network)
qed

theorem data_before_close_lost_witness:
  "\<exists>sv' w'. handle_event network \<lparr>event_token = 1, is_readable = True, is_writable = True\<rparr>
       (fst talking, (snd talking)\<lparr>closed := (closed (snd talking))(7 := True)\<rparr>) = Some ((sv', w'), Inr ()) \<and>
     clients sv' 1 = None \<and> sent w' 7 = outgoing w' 7 @ [10, 20]"
proof -
  let ?w = "(snd talking)\<lparr>closed := (closed (snd talking))(7 := True)\<rparr>"
  have "served (fst talking, ?w)" using served_close [of "fst talking" "snd talking" 7] served_talking by simp
  moreover have "clients (fst talking) 1 = Some (client_new 7 ())" by (simp add: talking_def)
  ultimately show ?thesis
    using data_before_close_lost [of "fst talking" ?w 1 "client_new 7 ()" "[10, 20]" True]
    by (simp add: talking_def client_new_def quiet_net_def) blast
qed

end
