(* ===== verification/Ws_Zero_Copy.thy ===== *)
theory Ws_Zero_Copy
  imports Ws_Buffers Bus_Io
begin

text \<open>
  \<^verbatim>\<open>WebSocket/src/31/zero_copy_websocket.rs\<close>: frames as chains of buffers that are handed to one
  vectored write, and a pool of buffers. A shared or static buffer is the bytes it holds; nothing
  in the program writes to a buffer after it has been put into a chain. The sizes of a chain are
  sums of lengths of buffers in memory. The writer is a parameter.
\<close>

subsection \<open>Buffer chains\<close>

datatype buffer_ref = Owned bytes | Borrowed bytes

fun as_slice :: "buffer_ref \<Rightarrow> bytes" where
  "as_slice (Owned arc) = arc"
| "as_slice (Borrowed s) = s"

record buffer_chain =
  chain_buffers :: "buffer_ref list"
  total_size :: nat

definition chain_new :: buffer_chain where
  "chain_new = \<lparr>chain_buffers = [], total_size = 0\<rparr>"

definition add_owned :: "buffer_chain \<Rightarrow> bytes \<Rightarrow> buffer_chain" where
  "add_owned c data =
     c\<lparr>total_size := total_size c + length data, chain_buffers := chain_buffers c @ [Owned data]\<rparr>"

definition add_borrowed :: "buffer_chain \<Rightarrow> bytes \<Rightarrow> buffer_chain" where
  "add_borrowed c data =
     c\<lparr>total_size := total_size c + length data, chain_buffers := chain_buffers c @ [Borrowed data]\<rparr>"

definition chain_len :: "buffer_chain \<Rightarrow> nat" where
  "chain_len c = total_size c"

definition as_io_slices :: "buffer_chain \<Rightarrow> bytes list" where
  "as_io_slices c = map as_slice (chain_buffers c)"

subsection \<open>Frames\<close>

record zero_copy_frame =
  chain :: buffer_chain

definition frame_new :: zero_copy_frame where
  "frame_new = \<lparr>chain = chain_new\<rparr>"

definition frame_header :: "u8 \<Rightarrow> nat \<Rightarrow> bool \<Rightarrow> bytes" where
  "frame_header opcode payload_len fin =
     ((if fin then 0x80 else 0x00) OR (opcode AND 0x0F)) #
     (if payload_len < 126 then [of_nat payload_len]
      else if payload_len < 65536 then 126 # be_bytes 2 payload_len
      else 127 # be_bytes 8 payload_len)"

definition add_header :: "zero_copy_frame \<Rightarrow> u8 \<Rightarrow> nat \<Rightarrow> bool \<Rightarrow> zero_copy_frame" where
  "add_header f opcode payload_len fin =
     (let header = frame_header opcode payload_len fin; old_buffers = chain_buffers (chain f)
      in f\<lparr>chain := \<lparr>chain_buffers = [Owned header] @ old_buffers,
                     total_size = total_size (chain f) + length header\<rparr>\<rparr>)"

definition add_payload_owned :: "zero_copy_frame \<Rightarrow> bytes \<Rightarrow> zero_copy_frame" where
  "add_payload_owned f payload = f\<lparr>chain := add_owned (chain f) payload\<rparr>"

definition add_payload_borrowed :: "zero_copy_frame \<Rightarrow> bytes \<Rightarrow> zero_copy_frame" where
  "add_payload_borrowed f payload = f\<lparr>chain := add_borrowed (chain f) payload\<rparr>"

definition send_vectored ::
  "(bytes list \<Rightarrow> 'w \<Rightarrow> ('w, 'e, nat) io) \<Rightarrow> zero_copy_frame \<Rightarrow> 'w \<Rightarrow> ('w, 'e, nat) io" where
  "send_vectored write_vectored f writer =
     (let io_slices = as_io_slices (chain f) in write_vectored io_slices writer)"

definition frame_len :: "zero_copy_frame \<Rightarrow> nat" where
  "frame_len f = chain_len (chain f)"

text \<open>The buffers to read into are given by their lengths; the result is what they then hold.\<close>

definition receive_vectored ::
  "(bytes list \<Rightarrow> 'r \<Rightarrow> ('r, 'e, bytes list \<times> nat) io) \<Rightarrow> 'r \<Rightarrow> bytes list \<Rightarrow> ('r, 'e, bytes list \<times> nat) io" where
  "receive_vectored read_vectored reader buffers = read_vectored buffers reader"

subsection \<open>Frames over \<open>Bytes\<close>\<close>

text \<open>A \<open>Bytes\<close> of the \<open>bytes\<close> crate is a handle on immutable bytes.\<close>

record bytes_frame =
  parts :: "bytes list"

definition bytes_frame_new :: bytes_frame where
  "bytes_frame_new = \<lparr>parts = []\<rparr>"

definition add_part :: "bytes_frame \<Rightarrow> bytes \<Rightarrow> bytes_frame" where
  "add_part f data = f\<lparr>parts := parts f @ [data]\<rparr>"

definition from_parts :: "bytes list \<Rightarrow> bytes_frame" where
  "from_parts ps = \<lparr>parts = ps\<rparr>"

definition parts_chain :: "bytes_frame \<Rightarrow> bytes list" where
  "parts_chain f = parts f"

subsection \<open>Buffer pool\<close>

record reuse_pool =
  rp_buffers :: "byte_vec list"
  rp_buffer_size :: nat

definition with_capacity :: "nat \<Rightarrow> byte_vec" where
  "with_capacity n = \<lparr>bv_data = [], bv_capacity = n\<rparr>"

definition reuse_pool_new :: "nat \<Rightarrow> nat \<Rightarrow> reuse_pool" where
  "reuse_pool_new buffer_size initial_count =
     \<lparr>rp_buffers = replicate initial_count (with_capacity buffer_size), rp_buffer_size = buffer_size\<rparr>"

definition acquire :: "reuse_pool \<Rightarrow> reuse_pool \<times> byte_vec" where
  "acquire p = (if rp_buffers p = [] then (p, with_capacity (rp_buffer_size p))
     else (p\<lparr>rp_buffers := butlast (rp_buffers p)\<rparr>, last (rp_buffers p)))"

definition release :: "reuse_pool \<Rightarrow> byte_vec \<Rightarrow> reuse_pool" where
  "release p buffer =
     (let buffer = buffer\<lparr>bv_data := []\<rparr> in
      if length (rp_buffers p) < 1024 then p\<lparr>rp_buffers := rp_buffers p @ [buffer]\<rparr> else p)"

subsection \<open>Lengths and contents\<close>

text \<open>The size a chain reports is the number of bytes of its slices.\<close>

definition chain_ok :: "buffer_chain \<Rightarrow> bool" where
  "chain_ok c \<longleftrightarrow> chain_len c = length (concat (as_io_slices c))"

definition frame_bytes :: "zero_copy_frame \<Rightarrow> bytes" where
  "frame_bytes f = concat (as_io_slices (chain f))"

definition add_payload :: "zero_copy_frame \<Rightarrow> buffer_ref \<Rightarrow> zero_copy_frame" where
  "add_payload f b = (case b of Owned p \<Rightarrow> add_payload_owned f p | Borrowed p \<Rightarrow> add_payload_borrowed f p)"

lemmas chain_defs = chain_ok_def chain_len_def as_io_slices_def frame_bytes_def

lemma frame_new_facts: "chain_ok (chain frame_new)" "frame_bytes frame_new = []"
  by (simp_all add: frame_new_def chain_new_def chain_defs)

lemma add_payload_facts:
  "chain_ok (chain f) \<Longrightarrow> chain_ok (chain (add_payload f b))"
  "frame_bytes (add_payload f b) = frame_bytes f @ as_slice b"
  by (cases b; simp add: add_payload_def add_payload_owned_def add_payload_borrowed_def add_owned_def
      add_borrowed_def chain_defs)+

lemma add_payloads_facts:
  "chain_ok (chain f) \<Longrightarrow> chain_ok (chain (foldl add_payload f ps))"
  "frame_bytes (foldl add_payload f ps) = frame_bytes f @ concat (map as_slice ps)"
  by (induction ps arbitrary: f) (simp_all add: add_payload_facts)

lemma add_header_facts:
  "chain_ok (chain f) \<Longrightarrow> chain_ok (chain (add_header f opcode n fin))"
  "frame_bytes (add_header f opcode n fin) = frame_header opcode n fin @ frame_bytes f"
  by (simp_all add: add_header_def chain_defs Let_def)

text \<open>The header is that of an unmasked frame.\<close>

lemma frame_header_encodes:
  "frame_header opcode (length payload) fin @ payload =
   encode_frame ((if fin then 0x80 else 0x00) OR (opcode AND 0x0F)) None payload"
  by (simp add: frame_header_def encode_frame_def length_code_def ext_length_def)

definition build_frame :: "u8 \<Rightarrow> bool \<Rightarrow> buffer_ref list \<Rightarrow> buffer_ref list \<Rightarrow> nat \<Rightarrow> zero_copy_frame" where
  "build_frame opcode fin before after payload_len =
     foldl add_payload (add_header (foldl add_payload frame_new before) opcode payload_len fin) after"

lemma build_frame_facts:
  assumes "payload = concat (map as_slice (before @ after))"
  shows "frame_bytes (build_frame opcode fin before after (length payload)) =
      encode_frame ((if fin then 0x80 else 0x00) OR (opcode AND 0x0F)) None payload"
    and "frame_len (build_frame opcode fin before after n) =
      length (frame_bytes (build_frame opcode fin before after n))"
proof -
  show "frame_bytes (build_frame opcode fin before after (length payload)) =
      encode_frame ((if fin then 0x80 else 0x00) OR (opcode AND 0x0F)) None payload"
    using assms by (simp add: build_frame_def add_payloads_facts add_header_facts frame_new_facts
        flip: frame_header_encodes)
  have "chain_ok (chain (build_frame opcode fin before after n))"
    unfolding build_frame_def by (intro add_payloads_facts add_header_facts frame_new_facts)
  then show "frame_len (build_frame opcode fin before after n) =
      length (frame_bytes (build_frame opcode fin before after n))"
    by (simp add: frame_len_def chain_ok_def frame_bytes_def)
qed

subsection \<open>A socket\<close>

text \<open>
  A stream socket takes as many bytes of the slices, in order, as it has room for, and says how
  many; it does not promise to take all.
\<close>

record stream_socket =
  room :: nat
  wire :: bytes

definition socket_write_vectored :: "bytes list \<Rightarrow> stream_socket \<Rightarrow> (stream_socket, unit, nat) io" where
  "socket_write_vectored slices s =
     (let data = take (room s) (concat slices)
      in (s\<lparr>room := room s - length data, wire := wire s @ data\<rparr>, Inr (length data)))"

text \<open>
  C27. Building, sending and receiving: pieces of payload, owned or borrowed, are put before or after
  the header. \<open>send_vectored\<close> reports the bytes the socket took, and the frame buffer of the
  receiving program then extracts exactly the concatenated payload when the socket had room for
  \<open>len()\<close> bytes; when it had less, the call still succeeds and the receiver waits for the rest,
  which nothing sends.
\<close>

theorem zero_copy_frame_received:
  assumes "payload = concat (map as_slice (before @ after))" "length payload + 14 < usize_bound"
    and "db_invar (recv_buffer fb)" "db_contents (recv_buffer fb) = []" "wire s = []"
  shows "let f = build_frame opcode fin before after (length payload);
             (s', r) = send_vectored socket_write_vectored f s;
             received = try_extract_frame prof (add_received_data fb (wire s'))
         in r = Inr (min (room s) (frame_len f)) \<and>
            (if frame_len f \<le> room s
             then \<exists>fb'. received = Some (fb', Some payload) \<and> db_contents (recv_buffer fb') = []
             else received = Some (add_received_data fb (wire s'), None))"
proof -
  let ?f = "build_frame opcode fin before after (length payload)"
  define e where "e = encode_frame ((if fin then 0x80 else 0x00) OR (opcode AND 0x0F)) None payload"
  have len: "frame_len ?f = length e" and bytes: "concat (as_io_slices (chain ?f)) = e"
    using build_frame_facts [OF assms(1)] by (simp_all add: frame_bytes_def e_def)
  have fb: "db_invar (recv_buffer (add_received_data fb d))" "db_contents (recv_buffer (add_received_data fb d)) = d" for d
    using db_append_facts [OF assms(3)] assms(4) by (simp_all add: add_received_data_def)
  have "db_contents (recv_buffer (add_received_data fb e)) = e @ []" using fb(2) by simp
  from extract_whole_frame [OF fb(1) this [unfolded e_def] _ assms(2), folded e_def]
  have whole: "\<exists>fb'. try_extract_frame prof (add_received_data fb e) = Some (fb', Some payload) \<and> db_contents (recv_buffer fb') = []"
    by blast
  have part: "try_extract_frame prof (add_received_data fb (take (room s) e)) = Some (add_received_data fb (take (room s) e), None)"
    if "room s < length e"
    using extract_waits_for_frame [OF fb(1) fb(2) that [unfolded e_def] _ assms(2), folded e_def] by simp
  show ?thesis
    using whole part assms(5)
    by (auto simp: send_vectored_def socket_write_vectored_def bytes len Let_def min.commute)
qed

theorem zero_copy_frame_received_witness:
  "let f = build_frame 1 True [Owned [72]] [Borrowed [105]] 2;
       (s', r) = send_vectored socket_write_vectored f \<lparr>room = 3, wire = []\<rparr>
   in r = Inr 3 \<and> try_extract_frame ReleaseBuild (add_received_data frame_buffer_new (wire s')) =
     Some (add_received_data frame_buffer_new (wire s'), None)"
proof -
  have len: "frame_len (build_frame 1 True [Owned [72]] [Borrowed [105]] (Suc (Suc 0))) = 4"
    by (simp add: build_frame_def add_payload_def add_header_def frame_header_def frame_new_def chain_new_def
        add_payload_owned_def add_payload_borrowed_def add_owned_def add_borrowed_def frame_len_def chain_len_def)
  have fb: "db_invar (recv_buffer frame_buffer_new)" "db_contents (recv_buffer frame_buffer_new) = []"
    by (simp_all add: frame_buffer_new_def)
  have "[72, 105 :: u8] = concat (map as_slice ([Owned [72]] @ [Borrowed [105]]))" "length [72, 105 :: u8] + 14 < usize_bound"
    by simp_all
  from zero_copy_frame_received [OF this fb, of "\<lparr>room = 3, wire = []\<rparr>" 1 True ReleaseBuild]
  show ?thesis by (simp add: numeral_2_eq_2 case_prod_beta Let_def len)
qed

subsection \<open>Reuse of buffers\<close>

inductive pool_use :: "nat \<Rightarrow> nat \<Rightarrow> reuse_pool \<Rightarrow> bool" where
  use_new: "pool_use sz count (reuse_pool_new sz count)"
| use_acquire: "pool_use sz count p \<Longrightarrow> pool_use sz count (fst (acquire p))"
| use_release: "pool_use sz count p \<Longrightarrow> pool_use sz count (release p buffer)"

lemma pool_use_inv:
  "pool_use sz count p \<Longrightarrow>
   (\<forall>b \<in> set (rp_buffers p). bv_data b = []) \<and> length (rp_buffers p) \<le> max count 1024 \<and> rp_buffer_size p = sz"
proof (induction rule: pool_use.induct)
  case (use_acquire sz count p)
  then show ?case by (auto simp: acquire_def dest: in_set_butlastD)
next
  case (use_release sz count p buffer)
  then show ?case by (auto simp: release_def Let_def)
qed (simp add: reuse_pool_new_def with_capacity_def)

text \<open>
  In every history of acquiring and releasing, an acquired buffer is empty, and the pool keeps at
  most as many buffers as it began with or 1024. The capacity of an acquired buffer is whatever its
  last user left: a buffer that was moved out and released empty comes back without capacity.
\<close>

theorem acquired_buffers_empty:
  "pool_use sz count p \<Longrightarrow>
   bv_data (snd (acquire p)) = [] \<and> length (rp_buffers p) \<le> max count 1024 \<and>
   (length (rp_buffers p) < 1024 \<longrightarrow> snd (acquire (release p b)) = b\<lparr>bv_data := []\<rparr>)"
  using pool_use_inv [of sz count p]
  by (cases "rp_buffers p = []") (simp_all add: acquire_def release_def with_capacity_def Let_def)

end
