(* ===== verification/Ws_Queues.thy ===== *)
theory Ws_Queues
  imports Fifo_Interface
begin

text \<open>
  \<^verbatim>\<open>WebSocket/src/20/lock_free_queue_for_websocket_messages.rs\<close>: the linked queue of the
  broker's producers, the single-producer single-consumer ring buffer of each connection and
  the broker that routes between them.

  The linked queue lives in an explicit heap, a partial map from addresses to nodes; a
  dereference of an address outside the heap is \<open>None\<close>. Calls are sequential in this theory:
  every compare-and-exchange sees the value just loaded. The interleaved accesses of
  \<open>enqueue\<close> and \<open>dequeue\<close> are the subject of \<open>Ws_Queue_Reclamation\<close>.
\<close>

subsection \<open>Messages and nodes\<close>

record ws_message =
  wsm_data :: bytes
  wsm_connection_id :: nat

record queue_node =
  qn_message :: "ws_message option"
  qn_next :: "nat option"

definition queue_node_new :: "ws_message \<Rightarrow> queue_node" where
  "queue_node_new m = \<lparr>qn_message = Some m, qn_next = None\<rparr>"

definition queue_node_dummy :: queue_node where
  "queue_node_dummy = \<lparr>qn_message = None, qn_next = None\<rparr>"

record lock_free_queue =
  lfq_heap :: "nat \<rightharpoonup> queue_node"
  lfq_fresh :: nat
  lfq_head :: nat
  lfq_tail :: nat
  lfq_count :: nat

definition lfq_new :: lock_free_queue where
  "lfq_new = \<lparr>lfq_heap = [0 \<mapsto> queue_node_dummy], lfq_fresh = 1, lfq_head = 0, lfq_tail = 0,
              lfq_count = 0\<rparr>"

subsection \<open>Enqueue and dequeue\<close>

partial_function (option) lfq_enqueue_loop :: "lock_free_queue \<Rightarrow> nat \<Rightarrow> lock_free_queue option" where
  "lfq_enqueue_loop q node =
     do {
       let tail = lfq_tail q;
       tn \<leftarrow> lfq_heap q tail;
       (if tail = lfq_tail q then
          (case qn_next tn of
             None \<Rightarrow>
               Some (q\<lparr>lfq_heap := (lfq_heap q)(tail \<mapsto> tn\<lparr>qn_next := Some node\<rparr>),
                       lfq_tail := (if lfq_tail q = tail then node else lfq_tail q),
                       lfq_count := wrap_add (lfq_count q) 1\<rparr>)
           | Some nxt \<Rightarrow>
               lfq_enqueue_loop (q\<lparr>lfq_tail := (if lfq_tail q = tail then nxt else lfq_tail q)\<rparr>) node)
        else lfq_enqueue_loop q node)
     }"

definition lfq_enqueue :: "lock_free_queue \<Rightarrow> ws_message \<Rightarrow> lock_free_queue option" where
  "lfq_enqueue q message =
     (let node = lfq_fresh q in
      lfq_enqueue_loop
        (q\<lparr>lfq_heap := (lfq_heap q)(node \<mapsto> queue_node_new message), lfq_fresh := node + 1\<rparr>) node)"

partial_function (option) lfq_dequeue ::
  "lock_free_queue \<Rightarrow> (lock_free_queue \<times> ws_message option) option" where
  "lfq_dequeue q =
     do {
       let head = lfq_head q;
       let tail = lfq_tail q;
       hn \<leftarrow> lfq_heap q head;
       (if head = lfq_head q then
          (if head = tail then
             (case qn_next hn of
                None \<Rightarrow> Some (q, None)
              | Some nxt \<Rightarrow> lfq_dequeue (q\<lparr>lfq_tail := (if lfq_tail q = tail then nxt else lfq_tail q)\<rparr>))
           else
             do {
               nxt \<leftarrow> qn_next hn;
               nn \<leftarrow> lfq_heap q nxt;
               (if lfq_head q = head then
                  Some (q\<lparr>lfq_head := nxt, lfq_count := wrap_sub (lfq_count q) 1,
                          lfq_heap := (lfq_heap q)(head := None)\<rparr>, qn_message nn)
                else lfq_dequeue q)
             })
        else lfq_dequeue q)
     }"

definition lfq_len :: "lock_free_queue \<Rightarrow> nat" where
  "lfq_len q = lfq_count q"

definition lfq_is_empty :: "lock_free_queue \<Rightarrow> bool" where
  "lfq_is_empty q \<longleftrightarrow> lfq_len q = 0"

text \<open>\<open>Drop\<close>: dequeue everything, then free the dummy node (the head is never null).\<close>

partial_function (option) lfq_drop :: "lock_free_queue \<Rightarrow> lock_free_queue option" where
  "lfq_drop q =
     do {
       (q', r) \<leftarrow> lfq_dequeue q;
       (case r of
          Some _ \<Rightarrow> lfq_drop q'
        | None \<Rightarrow> do { hn \<leftarrow> lfq_heap q' (lfq_head q');
                       Some (q'\<lparr>lfq_heap := (lfq_heap q')(lfq_head q' := None)\<rparr>) })
     }"

subsection \<open>The ring buffer of a connection\<close>

record lock_free_ring_buffer =
  lrb_buffer :: "ws_message option list"
  lrb_capacity :: nat
  lrb_write_pos :: nat
  lrb_read_pos :: nat

definition lrb_new :: "nat \<Rightarrow> lock_free_ring_buffer" where
  "lrb_new capacity =
     \<lparr>lrb_buffer = replicate capacity None, lrb_capacity = capacity,
      lrb_write_pos = 0, lrb_read_pos = 0\<rparr>"

definition lrb_push ::
  "lock_free_ring_buffer \<Rightarrow> ws_message \<Rightarrow> (lock_free_ring_buffer \<times> (ws_message + unit)) run" where
  "lrb_push b message =
     do {
       let w = lrb_write_pos b;
       let r = lrb_read_pos b;
       next_w \<leftarrow> umod (w + 1) (lrb_capacity b);
       (if next_w = r then Some (b, Inl message)
        else do {
          buffer \<leftarrow> idx_set (lrb_buffer b) w (Some message);
          Some (b\<lparr>lrb_buffer := buffer, lrb_write_pos := next_w\<rparr>, Inr ())
        })
     }"

definition lrb_pop ::
  "lock_free_ring_buffer \<Rightarrow> (lock_free_ring_buffer \<times> ws_message option) run" where
  "lrb_pop b =
     do {
       let r = lrb_read_pos b;
       let w = lrb_write_pos b;
       (if r = w then Some (b, None)
        else do {
          message \<leftarrow> idx (lrb_buffer b) r;
          buffer \<leftarrow> idx_set (lrb_buffer b) r None;
          next_r \<leftarrow> umod (r + 1) (lrb_capacity b);
          Some (b\<lparr>lrb_buffer := buffer, lrb_read_pos := next_r\<rparr>, message)
        })
     }"

definition lrb_len :: "lock_free_ring_buffer \<Rightarrow> nat run" where
  "lrb_len b =
     (let w = lrb_write_pos b; r = lrb_read_pos b in
      if w \<ge> r then usub w r
      else do { k \<leftarrow> usub (lrb_capacity b) r; uadd k w })"

subsection \<open>The broker\<close>

record ws_message_broker =
  incoming_queue :: lock_free_queue
  outgoing_buffers :: "lock_free_ring_buffer list"

definition broker_new :: "nat \<Rightarrow> nat \<Rightarrow> ws_message_broker" where
  "broker_new num_connections buffer_size =
     \<lparr>incoming_queue = lfq_new,
      outgoing_buffers = replicate num_connections (lrb_new buffer_size)\<rparr>"

definition submit_message :: "ws_message_broker \<Rightarrow> ws_message \<Rightarrow> ws_message_broker option" where
  "submit_message br message =
     do { q \<leftarrow> lfq_enqueue (incoming_queue br) message; Some (br\<lparr>incoming_queue := q\<rparr>) }"

text \<open>One pass of the endless loop of \<open>process_messages\<close>; with an empty queue it sleeps.\<close>

definition process_messages_pass :: "ws_message_broker \<Rightarrow> ws_message_broker option" where
  "process_messages_pass br =
     do {
       (q, r) \<leftarrow> lfq_dequeue (incoming_queue br);
       let br' = br\<lparr>incoming_queue := q\<rparr>;
       (case r of
          None \<Rightarrow> Some br'
        | Some msg \<Rightarrow> do {
            target_conn \<leftarrow> umod (wsm_connection_id msg) (length (outgoing_buffers br'));
            (if target_conn < length (outgoing_buffers br') then do {
               (b, _) \<leftarrow> lrb_push (outgoing_buffers br' ! target_conn) msg;
               Some (br'\<lparr>outgoing_buffers := (outgoing_buffers br')[target_conn := b]\<rparr>)
             } else Some br')
          })
     }"

definition get_outgoing :: "ws_message_broker \<Rightarrow> nat \<Rightarrow> (ws_message_broker \<times> ws_message option) run" where
  "get_outgoing br connection_id =
     (if connection_id < length (outgoing_buffers br) then do {
        (b, r) \<leftarrow> lrb_pop (outgoing_buffers br ! connection_id);
        Some (br\<lparr>outgoing_buffers := (outgoing_buffers br)[connection_id := b]\<rparr>, r)
      } else Some (br, None))"

subsection \<open>The ring buffer refines a bounded FIFO queue\<close>

text \<open>One cell stays free to tell a full buffer from an empty one.\<close>

definition lrb_count :: "lock_free_ring_buffer \<Rightarrow> nat" where
  "lrb_count b = ring_dist (lrb_capacity b) (lrb_read_pos b) (lrb_write_pos b)"

definition lrb_contents :: "lock_free_ring_buffer \<Rightarrow> ws_message list" where
  "lrb_contents b = map the (window (lrb_buffer b) (lrb_read_pos b) (lrb_count b))"

definition lrb_room :: "lock_free_ring_buffer \<Rightarrow> nat" where
  "lrb_room b = lrb_capacity b - 1"

definition lrb_invar :: "lock_free_ring_buffer \<Rightarrow> bool" where
  "lrb_invar b \<longleftrightarrow>
     length (lrb_buffer b) = lrb_capacity b \<and> lrb_capacity b < usize_bound \<and>
     lrb_read_pos b < lrb_capacity b \<and> lrb_write_pos b < lrb_capacity b \<and>
     None \<notin> set (window (lrb_buffer b) (lrb_read_pos b) (lrb_count b))"

lemma length_lrb_contents [simp]: "length (lrb_contents b) = lrb_count b"
  by (simp add: lrb_contents_def)

lemma lrb_invarD:
  assumes "lrb_invar b"
  shows "lrb_write_pos b = (lrb_read_pos b + lrb_count b) mod lrb_capacity b"
    and "lrb_count b < lrb_capacity b"
  using assms ring_dist_target ring_dist_less by (auto simp: lrb_invar_def lrb_count_def)

lemma lrb_new_facts:
  assumes "0 < n" "n < usize_bound"
  shows "lrb_invar (lrb_new n)" "lrb_contents (lrb_new n) = []" "lrb_room (lrb_new n) = n - 1"
  using assms by (auto simp: lrb_invar_def lrb_new_def lrb_contents_def lrb_count_def ring_dist_def lrb_room_def)

lemma lrb_full_iff:
  assumes "lrb_invar b"
  shows "((lrb_write_pos b + 1) mod lrb_capacity b = lrb_read_pos b) = (\<not> lrb_count b < lrb_room b)"
proof -
  let ?n = "lrb_capacity b" and ?r = "lrb_read_pos b" and ?k = "lrb_count b"
  have n: "?r < ?n" "?k < ?n" using assms lrb_invarD[OF assms] by (auto simp: lrb_invar_def)
  have w: "(lrb_write_pos b + 1) mod ?n = (?r + Suc ?k) mod ?n"
    using lrb_invarD(1)[OF assms] by (simp add: mod_Suc_eq)
  show ?thesis
  proof (cases "Suc ?k < ?n")
    case True
    then have "(?r + Suc ?k) mod ?n \<noteq> ?r"
      using mod_add_inj[of "Suc ?k" ?n 0 ?r] n by auto
    then show ?thesis using w True by (simp add: lrb_room_def)
  next
    case False
    then have "Suc ?k = ?n" using n by linarith
    then show ?thesis using w n by (simp add: lrb_room_def)
  qed
qed

lemma lrb_push_accepts:
  assumes inv: "lrb_invar b" and room: "lrb_count b < lrb_room b"
  shows "\<exists>b'. lrb_push b x = Some (b', Inr ()) \<and> lrb_contents b' = lrb_contents b @ [x] \<and>
           lrb_room b' = lrb_room b \<and> lrb_invar b'"
proof -
  let ?n = "length (lrb_buffer b)" and ?r = "lrb_read_pos b" and ?k = "lrb_count b"
  let ?buf = "(lrb_buffer b)[(?r + ?k) mod ?n := Some x]"
  let ?b = "b\<lparr>lrb_buffer := ?buf, lrb_write_pos := (?r + Suc ?k) mod ?n\<rparr>"
  have n: "?n = lrb_capacity b" "?r < ?n" "Suc ?k < ?n" "0 < ?n"
    using inv room by (auto simp: lrb_invar_def lrb_room_def)
  have w: "lrb_write_pos b = (?r + ?k) mod ?n" using lrb_invarD(1)[OF inv] n by simp
  have step: "lrb_push b x = Some (?b, Inr ())"
    using lrb_full_iff[OF inv] room n w
    by (simp add: lrb_push_def rust_facts mod_Suc_eq)
  have cnt: "lrb_count ?b = Suc ?k"
    using n ring_dist_unique[of ?r ?n "Suc ?k"] by (simp add: lrb_count_def)
  have win: "window ?buf ?r (Suc ?k) = window (lrb_buffer b) ?r ?k @ [Some x]"
    using n by (intro window_push) simp
  have "lrb_invar ?b"
    using inv n win cnt by (auto simp: lrb_invar_def)
  moreover have "lrb_contents ?b = lrb_contents b @ [x]"
    using cnt win by (simp add: lrb_contents_def)
  ultimately show ?thesis using step by (auto simp: lrb_room_def)
qed

lemma lrb_pop_takes:
  assumes inv: "lrb_invar b" and c: "lrb_contents b = x # xs"
  shows "\<exists>b'. lrb_pop b = Some (b', Some x) \<and> lrb_contents b' = xs \<and> lrb_room b' = lrb_room b \<and> lrb_invar b'"
proof -
  let ?n = "length (lrb_buffer b)" and ?r = "lrb_read_pos b"
  obtain k where k: "lrb_count b = Suc k"
    using c length_lrb_contents[of b] by (cases "lrb_count b") auto
  let ?b = "b\<lparr>lrb_buffer := (lrb_buffer b)[?r := None], lrb_read_pos := Suc ?r mod ?n\<rparr>"
  have n: "?n = lrb_capacity b" "?r < ?n" "Suc k < ?n" "0 < ?n"
    using inv lrb_invarD(2)[OF inv] k by (auto simp: lrb_invar_def)
  have win: "window (lrb_buffer b) ?r (Suc k) = Some x # map Some xs"
  proof -
    have "window (lrb_buffer b) ?r (Suc k) = map Some (lrb_contents b)"
      using inv k by (auto simp: lrb_contents_def lrb_invar_def intro!: nth_equalityI)
         (metis length_window nth_mem nth_window option.collapse)
    then show ?thesis using c by simp
  qed
  have hd: "lrb_buffer b ! ?r = Some x"
    and tl: "window (lrb_buffer b) (Suc ?r mod ?n) k = map Some xs"
    using win n by (auto simp: window_Cons)
  have rw: "?r \<noteq> lrb_write_pos b"
    using k n by (auto simp: lrb_count_def ring_dist_def split: if_splits)
  have step: "lrb_pop b = Some (?b, Some x)"
    using rw hd n by (simp add: lrb_pop_def rust_facts)
  have w: "lrb_write_pos b = (Suc ?r mod ?n + k) mod ?n"
    using lrb_invarD(1)[OF inv] k n by (simp add: mod_add_left_eq)
  have cnt: "lrb_count ?b = k"
    using ring_dist_unique[of "Suc ?r mod ?n" ?n k] n w by (simp add: lrb_count_def)
  have "(Suc ?r mod ?n + (?n - 1)) mod ?n = (?r + ?n) mod ?n"
    using n by (subst mod_add_left_eq) simp
  then have slot: "?r = (Suc ?r mod ?n + (?n - 1)) mod ?n" using n by simp
  have "window ((lrb_buffer b)[(Suc ?r mod ?n + (?n - 1)) mod ?n := None]) (Suc ?r mod ?n) k =
      window (lrb_buffer b) (Suc ?r mod ?n) k"
    using n by (intro window_update_outside) auto
  then have win': "window (lrb_buffer ?b) (Suc ?r mod ?n) k = map Some xs"
    using slot tl by simp
  have "lrb_invar ?b" using inv n win' cnt by (auto simp: lrb_invar_def)
  moreover have "lrb_contents ?b = xs"
    using cnt win' by (simp add: lrb_contents_def comp_def)
  ultimately show ?thesis using step by (auto simp: lrb_room_def)
qed

interpretation ws_ring: bounded_fifo lrb_push lrb_pop lrb_contents lrb_room lrb_invar
proof unfold_locales
  fix q :: lock_free_ring_buffer and x xs
  assume inv: "lrb_invar q"
  have n: "0 < lrb_capacity q" using inv by (auto simp: lrb_invar_def)
  show "length (lrb_contents q) < lrb_room q \<Longrightarrow>
      \<exists>q'. lrb_push q x = Some (q', Inr ()) \<and> lrb_contents q' = lrb_contents q @ [x] \<and>
        lrb_room q' = lrb_room q \<and> lrb_invar q'"
    using lrb_push_accepts[OF inv] by simp
  show "\<not> length (lrb_contents q) < lrb_room q \<Longrightarrow> lrb_push q x = Some (q, Inl x)"
    using lrb_full_iff[OF inv] n by (simp add: lrb_push_def rust_facts)
  show "lrb_contents q = x # xs \<Longrightarrow> \<exists>q'. lrb_pop q = Some (q', Some x) \<and> lrb_contents q' = xs \<and>
      lrb_room q' = lrb_room q \<and> lrb_invar q'"
    by (rule lrb_pop_takes[OF inv])
  show "lrb_contents q = [] \<Longrightarrow> lrb_pop q = Some (q, None)"
    using length_lrb_contents[of q] lrb_invarD(1)[OF inv] inv
    by (simp add: lrb_pop_def lrb_invar_def)
  show "length (lrb_contents q) \<le> lrb_room q"
    using lrb_invarD(2)[OF inv] by (simp add: lrb_room_def)
qed

subsection \<open>The linked queue refines an unbounded FIFO queue\<close>

text \<open>The nodes reachable from an address, ending in a node without successor.\<close>

fun chain :: "(nat \<rightharpoonup> queue_node) \<Rightarrow> nat \<Rightarrow> nat list \<Rightarrow> bool" where
  "chain h a [] \<longleftrightarrow> (case h a of None \<Rightarrow> False | Some n \<Rightarrow> qn_next n = None)"
| "chain h a (b # bs) \<longleftrightarrow> (case h a of None \<Rightarrow> False | Some n \<Rightarrow> qn_next n = Some b \<and> chain h b bs)"

definition lfq_nodes :: "lock_free_queue \<Rightarrow> nat list \<Rightarrow> ws_message list \<Rightarrow> bool" where
  "lfq_nodes q as ms \<longleftrightarrow>
     chain (lfq_heap q) (lfq_head q) as \<and> distinct (lfq_head q # as) \<and>
     last (lfq_head q # as) = lfq_tail q \<and> dom (lfq_heap q) = set (lfq_head q # as) \<and>
     (\<forall>a \<in> set (lfq_head q # as). a < lfq_fresh q) \<and>
     map (\<lambda>a. map_option qn_message (lfq_heap q a)) as = map (\<lambda>m. Some (Some m)) ms \<and>
     lfq_count q = length ms mod usize_bound"

definition lfq_rep :: "lock_free_queue \<Rightarrow> ws_message list \<Rightarrow> bool" where
  "lfq_rep q ms \<longleftrightarrow> (\<exists>as. lfq_nodes q as ms)"

lemma chain_update_outside: "x \<notin> set (a # as) \<Longrightarrow> chain (h(x := v)) a as = chain h a as"
  by (induction as arbitrary: a) (auto split: option.splits)

lemma chain_last: "chain h a as \<Longrightarrow> \<exists>n. h (last (a # as)) = Some n \<and> qn_next n = None"
  by (induction as arbitrary: a) (auto split: option.splits)

lemma chain_append:
  assumes "chain h a as" "distinct (a # as)" "b \<notin> set (a # as)" "h b = Some nb" "qn_next nb = None"
    and "e = last (a # as)" "h e = Some n"
  shows "chain (h(e \<mapsto> n\<lparr>qn_next := Some b\<rparr>)) a (as @ [b])"
  using assms
proof (induction as arbitrary: a)
  case Nil
  then show ?case by auto
next
  case (Cons c as)
  have e: "e = last (c # as)" using Cons.prems(6) by simp
  then have "e \<in> set (c # as)" using last_in_set by blast
  then have ne: "e \<noteq> a" using Cons.prems(2) by auto
  obtain na where na: "h a = Some na" "qn_next na = Some c" "chain h c as"
    using Cons.prems(1) by (auto split: option.splits)
  have "chain (h(e \<mapsto> n\<lparr>qn_next := Some b\<rparr>)) c (as @ [b])"
    by (rule Cons.IH[OF na(3)]) (use Cons.prems e in auto)
  then show ?case using na ne by (simp add: fun_upd_def)
qed

lemma lfq_new_rep: "lfq_rep lfq_new []"
  unfolding lfq_rep_def
  by (rule exI[of _ "[]"]) (simp add: lfq_nodes_def lfq_new_def queue_node_dummy_def)

lemma lfq_enqueue_rep:
  assumes "lfq_rep q ms"
  shows "\<exists>q'. lfq_enqueue q m = Some q' \<and> lfq_rep q' (ms @ [m])"
proof -
  obtain as where nodes: "lfq_nodes q as ms" using assms by (auto simp: lfq_rep_def)
  let ?f = "lfq_fresh q" and ?t = "lfq_tail q" and ?hd = "lfq_head q"
  let ?h = "(lfq_heap q)(?f \<mapsto> queue_node_new m)"
  have ch: "chain (lfq_heap q) ?hd as" and di: "distinct (?hd # as)" and la: "last (?hd # as) = ?t"
    and fr: "?f \<notin> set (?hd # as)" and dm: "dom (lfq_heap q) = set (?hd # as)"
    using nodes by (auto simp: lfq_nodes_def)
  obtain n where n: "lfq_heap q ?t = Some n" "qn_next n = None" using chain_last[OF ch] la by auto
  have tf: "?t \<noteq> ?f" using fr la by (metis last_in_set list.distinct(1))
  have ch': "chain ?h ?hd as" using ch fr chain_update_outside[of ?f ?hd as] by simp
  define q' where "q' = q\<lparr>lfq_heap := ?h(?t \<mapsto> n\<lparr>qn_next := Some ?f\<rparr>), lfq_fresh := ?f + 1,
      lfq_tail := ?f, lfq_count := wrap_add (lfq_count q) 1\<rparr>"
  have step: "lfq_enqueue q m = Some q'"
    using n tf by (simp add: lfq_enqueue_def lfq_enqueue_loop.simps Let_def q'_def)
  have "chain (?h(?t \<mapsto> n\<lparr>qn_next := Some ?f\<rparr>)) ?hd (as @ [?f])"
    using chain_append[OF ch' di fr _ _ la[symmetric], of "queue_node_new m" n] n tf
    by (simp add: queue_node_new_def)
  moreover have "map_option qn_message ((?h(?t \<mapsto> n\<lparr>qn_next := Some ?f\<rparr>)) a) =
      map_option qn_message (lfq_heap q a)" if "a \<in> set as" for a
    using that n fr by auto
  ultimately have "lfq_nodes q' (as @ [?f]) (ms @ [m])"
    using nodes di fr tf dm n wrap_add_mod[of "length ms"]
    by (auto simp: lfq_nodes_def q'_def queue_node_new_def cong: map_cong)
  with step show ?thesis by (auto simp: lfq_rep_def)
qed

lemma lfq_dequeue_empty:
  assumes "lfq_rep q []"
  shows "lfq_dequeue q = Some (q, None)"
  using assms
  by (subst lfq_dequeue.simps) (auto simp: lfq_rep_def lfq_nodes_def Let_def split: option.splits)

lemma lfq_dequeue_cons:
  assumes "lfq_rep q (m # ms)"
  shows "\<exists>q'. lfq_dequeue q = Some (q', Some m) \<and> lfq_rep q' ms"
proof -
  obtain cs where cs: "lfq_nodes q cs (m # ms)" using assms by (auto simp: lfq_rep_def)
  then obtain b as where "cs = b # as" by (cases cs) (auto simp: lfq_nodes_def)
  with cs have nodes: "lfq_nodes q (b # as) (m # ms)" by simp
  let ?hd = "lfq_head q"
  obtain hn where hn: "lfq_heap q ?hd = Some hn" "qn_next hn = Some b" "chain (lfq_heap q) b as"
    using nodes by (auto simp: lfq_nodes_def split: option.splits)
  obtain nb where nb: "lfq_heap q b = Some nb" "qn_message nb = Some m"
    using nodes by (auto simp: lfq_nodes_def)
  have di: "?hd \<notin> set (b # as)" "distinct (b # as)" using nodes by (auto simp: lfq_nodes_def)
  have "lfq_tail q \<in> set (b # as)"
    using nodes last_in_set[of "b # as"] by (auto simp: lfq_nodes_def split: if_splits)
  then have ne: "?hd \<noteq> lfq_tail q" using di by auto
  define q' where "q' = q\<lparr>lfq_head := b, lfq_count := wrap_sub (lfq_count q) 1,
      lfq_heap := (lfq_heap q)(?hd := None)\<rparr>"
  have step: "lfq_dequeue q = Some (q', Some m)"
    using hn nb ne by (subst lfq_dequeue.simps) (simp add: Let_def q'_def)
  have ch: "chain ((lfq_heap q)(?hd := None)) b as"
    using hn(3) di chain_update_outside[of ?hd b as] by simp
  have "map_option qn_message (((lfq_heap q)(?hd := None)) a) = map_option qn_message (lfq_heap q a)"
    if "a \<in> set as" for a using that di by auto
  then have "lfq_nodes q' as ms"
    using nodes ch di wrap_sub_mod[of "length ms"]
    by (auto simp: lfq_nodes_def q'_def cong: map_cong)
  with step show ?thesis by (auto simp: lfq_rep_def)
qed

interpretation ws_queue: unbounded_fifo lfq_enqueue lfq_dequeue lfq_rep
  by unfold_locales (blast intro: lfq_enqueue_rep lfq_dequeue_empty lfq_dequeue_cons)+

lemma lfq_drop_frees: "lfq_rep q ms \<Longrightarrow> \<exists>q'. lfq_drop q = Some q' \<and> lfq_heap q' = Map.empty"
proof (induction ms arbitrary: q)
  case Nil
  have dm: "dom (lfq_heap q) = {lfq_head q}" using Nil by (auto simp: lfq_rep_def lfq_nodes_def)
  then obtain hn where "lfq_heap q (lfq_head q) = Some hn" by blast
  moreover have "(lfq_heap q)(lfq_head q := None) = Map.empty"
    using dm by (metis dom_eq_empty_conv dom_fun_upd insert_absorb2 Diff_cancel)
  ultimately show ?case
    using lfq_dequeue_empty[OF Nil] by (subst lfq_drop.simps) simp
next
  case (Cons m ms)
  obtain q1 where "lfq_dequeue q = Some (q1, Some m)" "lfq_rep q1 ms"
    using lfq_dequeue_cons[OF Cons.prems] by blast
  then show ?case using Cons.IH by (subst lfq_drop.simps) simp
qed

subsection \<open>Routing\<close>

fun submit_all :: "ws_message_broker \<Rightarrow> ws_message list \<Rightarrow> ws_message_broker option" where
  "submit_all br [] = Some br"
| "submit_all br (m # ms) = do { br' \<leftarrow> submit_message br m; submit_all br' ms }"

fun process_passes :: "nat \<Rightarrow> ws_message_broker \<Rightarrow> ws_message_broker option" where
  "process_passes 0 br = Some br"
| "process_passes (Suc k) br = do { br' \<leftarrow> process_messages_pass br; process_passes k br' }"

definition routed_to :: "nat \<Rightarrow> nat \<Rightarrow> ws_message list \<Rightarrow> ws_message list" where
  "routed_to n j ms = filter (\<lambda>m. wsm_connection_id m mod n = j) ms"

lemma submit_all_queues:
  "submit_all br ms = map_option (\<lambda>q. br\<lparr>incoming_queue := q\<rparr>) (enqueue_list lfq_enqueue (incoming_queue br) ms)"
proof (induction ms arbitrary: br)
  case (Cons m ms)
  then show ?case
    by (cases "lfq_enqueue (incoming_queue br) m") (simp_all add: submit_message_def)
qed simp

lemma pass_routes:
  assumes rep: "lfq_rep (incoming_queue br) (m # ms)" and n: "0 < length (outgoing_buffers br)"
    and inv: "\<forall>b \<in> set (outgoing_buffers br). lrb_invar b"
  shows "\<exists>q b. process_messages_pass br = Some (br\<lparr>incoming_queue := q,
             outgoing_buffers := (outgoing_buffers br)[wsm_connection_id m mod length (outgoing_buffers br) := b]\<rparr>) \<and>
           lfq_rep q ms \<and> lrb_invar b \<and>
           (let old = outgoing_buffers br ! (wsm_connection_id m mod length (outgoing_buffers br)) in
            lrb_room b = lrb_room old \<and>
            lrb_contents b = (if length (lrb_contents old) < lrb_room old then lrb_contents old @ [m]
                              else lrb_contents old))"
proof -
  let ?j = "wsm_connection_id m mod length (outgoing_buffers br)"
  let ?old = "outgoing_buffers br ! ?j"
  obtain q where q: "lfq_dequeue (incoming_queue br) = Some (q, Some m)" "lfq_rep q ms"
    using ws_queue.dequeue_cons[OF rep] by blast
  have j: "?j < length (outgoing_buffers br)" using n by simp
  then have old: "lrb_invar ?old" using inv by simp
  obtain b r where b: "lrb_push ?old m = Some (b, r)" "lrb_invar b" "lrb_room b = lrb_room ?old"
      "lrb_contents b = (if length (lrb_contents ?old) < lrb_room ?old then lrb_contents ?old @ [m]
         else lrb_contents ?old)"
    using ws_ring.push_ok[OF old, of m] ws_ring.push_full[OF old, of m] old
    by (cases "length (lrb_contents ?old) < lrb_room ?old") force+
  have "process_messages_pass br = Some (br\<lparr>incoming_queue := q, outgoing_buffers := (outgoing_buffers br)[?j := b]\<rparr>)"
    using q b j n by (simp add: process_messages_pass_def Let_def umod_ok)
  then show ?thesis using q(2) b(2-4) unfolding Let_def by (intro exI[of _ q] exI[of _ b]) blast
qed

lemma passes_route:
  "lfq_rep (incoming_queue br) ms \<Longrightarrow> 0 < length (outgoing_buffers br) \<Longrightarrow>
   \<forall>b \<in> set (outgoing_buffers br). lrb_invar b \<Longrightarrow>
   \<exists>br'. process_passes (length ms) br = Some br' \<and> lfq_rep (incoming_queue br') [] \<and>
     length (outgoing_buffers br') = length (outgoing_buffers br) \<and>
     (\<forall>j < length (outgoing_buffers br). lrb_invar (outgoing_buffers br' ! j) \<and>
        lrb_contents (outgoing_buffers br' ! j) = lrb_contents (outgoing_buffers br ! j) @
          take (lrb_room (outgoing_buffers br ! j) - length (lrb_contents (outgoing_buffers br ! j)))
               (routed_to (length (outgoing_buffers br)) j ms))"
proof (induction ms arbitrary: br)
  case Nil
  then show ?case by (simp add: routed_to_def)
next
  case (Cons m ms)
  let ?n = "length (outgoing_buffers br)" and ?j = "wsm_connection_id m mod length (outgoing_buffers br)"
  let ?old = "outgoing_buffers br ! ?j"
  obtain q b where p: "process_messages_pass br =
        Some (br\<lparr>incoming_queue := q, outgoing_buffers := (outgoing_buffers br)[?j := b]\<rparr>)"
      (is "_ = Some ?br")
    and b: "lfq_rep q ms" "lrb_invar b" "lrb_room b = lrb_room ?old"
      "lrb_contents b = (if length (lrb_contents ?old) < lrb_room ?old then lrb_contents ?old @ [m] else lrb_contents ?old)"
    using pass_routes[OF Cons.prems] by (auto simp: Let_def)
  have jn: "?j < ?n" using Cons.prems(2) by simp
  have inv: "\<forall>x \<in> set (outgoing_buffers ?br). lrb_invar x"
    using Cons.prems(3) b(2) by (auto dest!: set_update_subset_insert[THEN subsetD])
  obtain br' where br': "process_passes (length ms) ?br = Some br'" "lfq_rep (incoming_queue br') []"
      "length (outgoing_buffers br') = ?n"
      "\<forall>j < ?n. lrb_invar (outgoing_buffers br' ! j) \<and>
        lrb_contents (outgoing_buffers br' ! j) = lrb_contents (outgoing_buffers ?br ! j) @
          take (lrb_room (outgoing_buffers ?br ! j) - length (lrb_contents (outgoing_buffers ?br ! j)))
               (routed_to ?n j ms)"
    using Cons.IH[of ?br] b(1) Cons.prems(2) inv by auto
  have "lrb_contents (outgoing_buffers br' ! j) = lrb_contents (outgoing_buffers br ! j) @
      take (lrb_room (outgoing_buffers br ! j) - length (lrb_contents (outgoing_buffers br ! j)))
           (routed_to ?n j (m # ms))" if j: "j < ?n" for j
  proof (cases "j = ?j")
    case False
    then show ?thesis using br'(4) j by (auto simp: routed_to_def)
  next
    case True
    have ob: "outgoing_buffers ?br ! ?j = b" using jn by simp
    have rt: "routed_to ?n ?j (m # ms) = m # routed_to ?n ?j ms" by (simp add: routed_to_def)
    show ?thesis
    proof (cases "length (lrb_contents ?old) < lrb_room ?old")
      case room: True
      then have "lrb_room ?old - length (lrb_contents ?old) = Suc (lrb_room ?old - Suc (length (lrb_contents ?old)))"
        by linarith
      moreover have "length (lrb_contents b) = Suc (length (lrb_contents ?old))"
        unfolding b(4) using room by (simp del: length_lrb_contents)
      ultimately show ?thesis using br'(4) jn b(3,4) room ob unfolding True rt
        by (simp del: length_lrb_contents)
    next
      case full: False
      then show ?thesis using br'(4) jn b(3,4) ob unfolding True by (simp del: length_lrb_contents)
    qed
  qed
  then show ?case using p br' by auto
qed

subsection \<open>Properties\<close>

text \<open>
  C3. The linked queue is a FIFO queue in sequential use and leaks nothing: on a new queue,
  enqueueing any messages and then dequeueing as many returns them in order, no dereference
  leaves the heap, the next dequeue reports an empty queue, and \<open>drop\<close> at any fill level
  terminates with every node freed.
\<close>

theorem linked_queue_fifo:
  "\<exists>q1 q2 q3. enqueue_list lfq_enqueue lfq_new ms = Some q1 \<and>
     dequeue_times lfq_dequeue (length ms) q1 = Some (q2, map Some ms) \<and>
     lfq_dequeue q2 = Some (q2, None) \<and>
     lfq_drop q1 = Some q3 \<and> lfq_heap q3 = Map.empty"
proof -
  obtain q1 where q1: "enqueue_list lfq_enqueue lfq_new ms = Some q1" "lfq_rep q1 ms"
    using ws_queue.enqueue_list_rep[OF lfq_new_rep, of ms] by auto
  obtain q2 where q2: "dequeue_times lfq_dequeue (length ms) q1 = Some (q2, map Some ms)" "lfq_rep q2 []"
    using ws_queue.dequeue_times_rep[of q1 ms "[]"] q1(2) by auto
  show ?thesis using q1 q2 ws_queue.dequeue_empty[OF q2(2)] lfq_drop_frees[OF q1(2)] by blast
qed

text \<open>
  Routing through the broker: after any messages were submitted to a new broker and the
  router made as many passes, the incoming queue is empty and each connection's buffer holds,
  in submission order, the first \<open>buffer_size - 1\<close> messages whose connection id maps to it;
  only messages for an already full buffer are dropped.
\<close>

theorem broker_routes_in_order:
  assumes "0 < n" "0 < sz" "sz < usize_bound"
  shows "\<exists>br1 br2. submit_all (broker_new n sz) ms = Some br1 \<and>
           process_passes (length ms) br1 = Some br2 \<and> lfq_rep (incoming_queue br2) [] \<and>
           (\<forall>j < n. lrb_contents (outgoing_buffers br2 ! j) = take (sz - 1) (routed_to n j ms))"
proof -
  obtain q where q: "enqueue_list lfq_enqueue lfq_new ms = Some q" "lfq_rep q ms"
    using ws_queue.enqueue_list_rep[OF lfq_new_rep, of ms] by auto
  let ?br = "(broker_new n sz)\<lparr>incoming_queue := q\<rparr>"
  have s: "submit_all (broker_new n sz) ms = Some ?br"
    using q by (simp add: submit_all_queues broker_new_def)
  have ob: "outgoing_buffers ?br = replicate n (lrb_new sz)" by (simp add: broker_new_def)
  have inv: "\<forall>b \<in> set (outgoing_buffers ?br). lrb_invar b"
    unfolding ob using lrb_new_facts(1)[OF assms(2,3)] by simp
  have rep: "lfq_rep (incoming_queue ?br) ms" using q(2) by simp
  have len: "0 < length (outgoing_buffers ?br)" using assms(1) by (simp add: ob)
  from passes_route[OF rep len inv] obtain br2 where br2: "process_passes (length ms) ?br = Some br2"
      "lfq_rep (incoming_queue br2) []"
      "\<forall>j < n. lrb_contents (outgoing_buffers br2 ! j) = take (sz - 1) (routed_to n j ms)"
    using lrb_new_facts(2,3)[OF assms(2,3)]
    by (auto simp: ob simp del: length_lrb_contents)
  with s show ?thesis by blast
qed

theorem broker_routes_in_order_witness:
  "\<exists>br1 br2. submit_all (broker_new 2 8) [\<lparr>wsm_data = [1], wsm_connection_id = 3\<rparr>, \<lparr>wsm_data = [2], wsm_connection_id = 0\<rparr>] = Some br1 \<and>
     process_passes 2 br1 = Some br2 \<and>
     lrb_contents (outgoing_buffers br2 ! 1) = [\<lparr>wsm_data = [1], wsm_connection_id = 3\<rparr>]"
proof -
  let ?ms = "[\<lparr>wsm_data = [1], wsm_connection_id = 3\<rparr>, \<lparr>wsm_data = [2], wsm_connection_id = 0\<rparr>] :: ws_message list"
  have l: "length ?ms = 2" by simp
  have r: "take (8 - 1) (routed_to 2 1 ?ms) = [\<lparr>wsm_data = [1], wsm_connection_id = 3\<rparr>]"
    by (simp add: routed_to_def)
  from broker_routes_in_order[of 2 8 ?ms] obtain br1 br2 where
    "submit_all (broker_new 2 8) ?ms = Some br1" "process_passes (length ?ms) br1 = Some br2"
    "\<forall>j < 2. lrb_contents (outgoing_buffers br2 ! j) = take (8 - 1) (routed_to 2 j ?ms)" by auto
  then have "lrb_contents (outgoing_buffers br2 ! 1) = [\<lparr>wsm_data = [1], wsm_connection_id = 3\<rparr>]"
    "process_passes 2 br1 = Some br2"
    unfolding l using r by auto
  then show ?thesis using \<open>submit_all (broker_new 2 8) ?ms = Some br1\<close> by blast
qed

end
