(* ===== verification/Ws_Queue_Reclamation.thy ===== *)
theory Ws_Queue_Reclamation
  imports Ws_Queues
begin

text \<open>
  \<^verbatim>\<open>WebSocket/src/20/lock_free_queue_for_websocket_messages.rs\<close>, \<open>LockFreeQueue\<close> under
  interleaving: \<open>enqueue\<close> of any number of producers and \<open>dequeue\<close> of one consumer cut at
  every access to shared memory (loads, compare-and-exchange, counter updates, the release of
  the old head). Each thread is a program counter; its next access is determined, so the
  machine is a function of the schedule. A dereference of a released node is recorded in
  \<open>sys_fault\<close> and stops the machine.
\<close>

datatype enq_pc =
    ENone
  | EStart nat                       \<comment> \<open>node; top of the loop\<close>
  | ETail nat nat                    \<comment> \<open>node, tail loaded\<close>
  | ENext nat nat "nat option"       \<comment> \<open>node, tail, next loaded\<close>
  | EChecked nat nat "nat option"    \<comment> \<open>tail re-read and equal\<close>
  | ELinked nat nat                  \<comment> \<open>node linked behind tail\<close>
  | ESwung                           \<comment> \<open>tail swung, counter not yet updated\<close>

datatype deq_pc =
    DStart
  | DHead nat
  | DTail nat nat
  | DNext nat nat "nat option"
  | DChecked nat nat "nat option"
  | DMessage nat nat "ws_message option"   \<comment> \<open>head, next, message cloned\<close>
  | DUnlinked nat "ws_message option"      \<comment> \<open>head swung\<close>
  | DCounted nat "ws_message option"       \<comment> \<open>counter updated, old head to be released\<close>

record lfq_sys =
  sys_queue :: lock_free_queue
  sys_producers :: "nat \<Rightarrow> enq_pc"
  sys_consumer :: deq_pc
  sys_received :: "ws_message option list"
  sys_released :: "nat list"
  sys_fault :: "nat option"

definition lfq_sys_init :: lfq_sys where
  "lfq_sys_init = \<lparr>sys_queue = lfq_new, sys_producers = (\<lambda>_. ENone), sys_consumer = DStart,
     sys_received = [], sys_released = [], sys_fault = None\<rparr>"

definition start_enqueue :: "nat \<Rightarrow> ws_message \<Rightarrow> lfq_sys \<Rightarrow> lfq_sys" where
  "start_enqueue i m s =
     (case sys_producers s i of
        ENone \<Rightarrow>
          (let q = sys_queue s; node = lfq_fresh q in
           s\<lparr>sys_queue := q\<lparr>lfq_heap := (lfq_heap q)(node \<mapsto> queue_node_new m), lfq_fresh := node + 1\<rparr>,
             sys_producers := (sys_producers s)(i := EStart node)\<rparr>)
      | _ \<Rightarrow> s)"

definition enqueue_access :: "nat \<Rightarrow> lfq_sys \<Rightarrow> lfq_sys" where
  "enqueue_access i s =
     (let q = sys_queue s; goto = (\<lambda>pc. s\<lparr>sys_producers := (sys_producers s)(i := pc)\<rparr>) in
      case sys_producers s i of
        ENone \<Rightarrow> s
      | EStart node \<Rightarrow> goto (ETail node (lfq_tail q))
      | ETail node tail \<Rightarrow>
          (case lfq_heap q tail of
             None \<Rightarrow> s\<lparr>sys_fault := Some tail\<rparr>
           | Some n \<Rightarrow> goto (ENext node tail (qn_next n)))
      | ENext node tail nxt \<Rightarrow>
          (if tail = lfq_tail q then goto (EChecked node tail nxt) else goto (EStart node))
      | EChecked node tail None \<Rightarrow>
          (case lfq_heap q tail of
             None \<Rightarrow> s\<lparr>sys_fault := Some tail\<rparr>
           | Some n \<Rightarrow>
               (if qn_next n = None
                then (goto (ELinked node tail))\<lparr>sys_queue :=
                       q\<lparr>lfq_heap := (lfq_heap q)(tail \<mapsto> n\<lparr>qn_next := Some node\<rparr>)\<rparr>\<rparr>
                else goto (EStart node)))
      | EChecked node tail (Some nx) \<Rightarrow>
          (goto (EStart node))\<lparr>sys_queue :=
             q\<lparr>lfq_tail := (if lfq_tail q = tail then nx else lfq_tail q)\<rparr>\<rparr>
      | ELinked node tail \<Rightarrow>
          (goto ESwung)\<lparr>sys_queue :=
             q\<lparr>lfq_tail := (if lfq_tail q = tail then node else lfq_tail q)\<rparr>\<rparr>
      | ESwung \<Rightarrow> (goto ENone)\<lparr>sys_queue := q\<lparr>lfq_count := wrap_add (lfq_count q) 1\<rparr>\<rparr>)"

definition dequeue_access :: "lfq_sys \<Rightarrow> lfq_sys" where
  "dequeue_access s =
     (let q = sys_queue s; goto = (\<lambda>pc. s\<lparr>sys_consumer := pc\<rparr>) in
      case sys_consumer s of
        DStart \<Rightarrow> goto (DHead (lfq_head q))
      | DHead head \<Rightarrow> goto (DTail head (lfq_tail q))
      | DTail head tail \<Rightarrow>
          (case lfq_heap q head of
             None \<Rightarrow> s\<lparr>sys_fault := Some head\<rparr>
           | Some n \<Rightarrow> goto (DNext head tail (qn_next n)))
      | DNext head tail nxt \<Rightarrow>
          (if head = lfq_head q then goto (DChecked head tail nxt) else goto DStart)
      | DChecked head tail nxt \<Rightarrow>
          (if head = tail then
             (case nxt of
                None \<Rightarrow> (goto DStart)\<lparr>sys_received := sys_received s @ [None]\<rparr>
              | Some nx \<Rightarrow> (goto DStart)\<lparr>sys_queue :=
                  q\<lparr>lfq_tail := (if lfq_tail q = tail then nx else lfq_tail q)\<rparr>\<rparr>)
           else
             (case nxt of
                None \<Rightarrow> s\<lparr>sys_fault := Some 0\<rparr>
              | Some nx \<Rightarrow>
                  (case lfq_heap q nx of
                     None \<Rightarrow> s\<lparr>sys_fault := Some nx\<rparr>
                   | Some n \<Rightarrow> goto (DMessage head nx (qn_message n)))))
      | DMessage head nx msg \<Rightarrow>
          (if lfq_head q = head
           then (goto (DUnlinked head msg))\<lparr>sys_queue := q\<lparr>lfq_head := nx\<rparr>\<rparr>
           else goto DStart)
      | DUnlinked head msg \<Rightarrow>
          (goto (DCounted head msg))\<lparr>sys_queue := q\<lparr>lfq_count := wrap_sub (lfq_count q) 1\<rparr>\<rparr>
      | DCounted head msg \<Rightarrow>
          (goto DStart)\<lparr>sys_queue := q\<lparr>lfq_heap := (lfq_heap q)(head := None)\<rparr>,
             sys_released := sys_released s @ [head], sys_received := sys_received s @ [msg]\<rparr>)"

datatype lfq_action =
    Call nat ws_message   \<comment> \<open>producer \<open>i\<close> calls \<open>enqueue\<close>\<close>
  | Producer nat          \<comment> \<open>one access of producer \<open>i\<close>\<close>
  | Consumer              \<comment> \<open>one access of the consumer\<close>

fun lfq_exec :: "lfq_action list \<Rightarrow> lfq_sys \<Rightarrow> lfq_sys" where
  "lfq_exec [] s = s"
| "lfq_exec (a # as) s =
     (if sys_fault s \<noteq> None then s
      else lfq_exec as (case a of Call i m \<Rightarrow> start_enqueue i m s
                        | Producer i \<Rightarrow> enqueue_access i s
                        | Consumer \<Rightarrow> dequeue_access s))"

subsection \<open>Properties\<close>

text \<open>
  C4. Two producers and the single consumer can reach a dereference of a released node: a
  producer that has loaded the tail is overtaken by another producer's complete \<open>enqueue\<close>
  and by a \<open>dequeue\<close> that releases the old dummy node, which the first producer then reads.
  The message of the completed \<open>enqueue\<close> was delivered before.
\<close>

theorem enqueue_use_after_free:
  "let s = lfq_exec
         ([Call 0 a, Producer 0] @
          [Call 1 b, Producer 1, Producer 1, Producer 1, Producer 1, Producer 1, Producer 1] @
          [Consumer, Consumer, Consumer, Consumer, Consumer, Consumer, Consumer, Consumer] @ [Producer 0])
         lfq_sys_init
   in sys_received s = [Some b] \<and> sys_released s = [0] \<and> sys_fault s = Some 0"
proof -
  have "wrap_add 0 1 = 1" "wrap_sub 1 1 = 0" by (simp_all add: wrap_add_def wrap_sub_def)
  then show ?thesis
    by (simp add: Let_def lfq_sys_init_def start_enqueue_def enqueue_access_def dequeue_access_def
        lfq_new_def queue_node_dummy_def queue_node_new_def)
qed

end
