(* ===== verification/Ws_Auth.thy ===== *)
theory Ws_Auth
  imports Uproto_Prelude "HOL-Library.Sublist"
begin

text \<open>
  \<^verbatim>\<open>WebSocket/src/22/websocket_authentication.rs\<close>: a server that authenticates connections with tokens
  and checks roles. Parameters: the token library, which decodes a token at a given time, and the
  JSON library. A connection is handled message by message; the session store is shared by all
  connections, so the whole server is a step relation over any interleaving. What is sent to the
  client and what the server prints or does on its behalf are the outputs of a message. A failed
  transmission is ignored, as in the source.
\<close>

subsection \<open>Data\<close>

record claims =
  sub :: string
  claim_roles :: "string list"
  exp :: nat

record session =
  user_id :: string
  session_roles :: "string list"
  authenticated :: bool
  token_expiry :: nat

datatype client_message = Auth string | Subscribe string | AdminAction string | ChatMessage string

datatype server_message = AuthRequired | AuthSuccess string | AuthFailed string | Unauthorized string
  | TokenExpired | Subscribed string | ServerError string

datatype ws_message = WsText string | WsClose | WsOther

record ('e, 'j) libs =
  decode :: "nat \<Rightarrow> string \<Rightarrow> 'e + claims"
  encode :: "claims \<Rightarrow> 'e + string"
  from_str :: "string \<Rightarrow> 'j + client_message"

type_synonym session_store = "string \<rightharpoonup> session"

text \<open>What happens: a message is sent, or the server acts for a user.\<close>

datatype effect = Send server_message | Authenticated string claims | SubscribedTo string string
  | AdminPerformed string string | MessageFrom string string

definition create_token :: "('e, 'j) libs \<Rightarrow> nat \<Rightarrow> string \<Rightarrow> string list \<Rightarrow> 'e + string" where
  "create_token L now user roles = encode L \<lparr>sub = user, claim_roles = roles, exp = now + 3600\<rparr>"

definition validate_token :: "('e, 'j) libs \<Rightarrow> nat \<Rightarrow> string \<Rightarrow> 'e + claims" where
  "validate_token L now token = decode L now token"

definition has_role :: "session \<Rightarrow> string \<Rightarrow> bool" where
  "has_role s required_role = list_ex (\<lambda>r. r = required_role) (session_roles s)"

subsection \<open>Messages\<close>

text \<open>Each handler returns the store, its outputs and whether the loop goes on.\<close>

definition handle_auth ::
  "('e, 'j) libs \<Rightarrow> nat \<Rightarrow> string \<Rightarrow> string \<Rightarrow> session_store \<Rightarrow> session_store \<times> effect list \<times> bool" where
  "handle_auth L now session_id token sessions =
     (case validate_token L now token of
        Inr c \<Rightarrow>
          (if exp c < now then (sessions, [Send TokenExpired], False)
           else
             (sessions(session_id \<mapsto> \<lparr>user_id = sub c, session_roles = claim_roles c, authenticated = True, token_expiry = exp c\<rparr>),
              [Authenticated token c, Send (AuthSuccess (sub c))], True))
      | Inl _ \<Rightarrow> (sessions, [Send (AuthFailed ''Invalid token'')], False))"

definition handle_subscribe :: "nat \<Rightarrow> string \<Rightarrow> string \<Rightarrow> session_store \<Rightarrow> session_store \<times> effect list \<times> bool" where
  "handle_subscribe now session_id channel sessions =
     (case sessions session_id of
        None \<Rightarrow> (sessions, [Send AuthRequired], True)
      | Some s \<Rightarrow>
          (if \<not> authenticated s then (sessions, [Send AuthRequired], True)
           else if token_expiry s < now then (sessions, [Send TokenExpired], False)
           else if prefix ''premium_'' channel \<and> \<not> has_role s ''premium''
             then (sessions, [Send (Unauthorized ''Premium subscription required'')], True)
           else (sessions, [SubscribedTo (user_id s) channel, Send (Subscribed channel)], True)))"

definition handle_admin :: "string \<Rightarrow> string \<Rightarrow> session_store \<Rightarrow> session_store \<times> effect list \<times> bool" where
  "handle_admin session_id action sessions =
     (case sessions session_id of
        None \<Rightarrow> (sessions, [], True)
      | Some s \<Rightarrow>
          (if \<not> has_role s ''admin'' then (sessions, [Send (Unauthorized ''Admin role required'')], True)
           else (sessions, [AdminPerformed (user_id s) action], True)))"

definition handle_chat :: "string \<Rightarrow> string \<Rightarrow> session_store \<Rightarrow> session_store \<times> effect list \<times> bool" where
  "handle_chat session_id content sessions =
     (case sessions session_id of
        Some s \<Rightarrow> (sessions, [MessageFrom (user_id s) content], True)
      | None \<Rightarrow> (sessions, [Send AuthRequired], True))"

definition handle_text ::
  "('e, 'j) libs \<Rightarrow> nat \<Rightarrow> string \<Rightarrow> string \<Rightarrow> session_store \<Rightarrow> session_store \<times> effect list \<times> bool" where
  "handle_text L now session_id txt sessions =
     (case from_str L txt of
        Inr m \<Rightarrow> (case m of
            Auth token \<Rightarrow> handle_auth L now session_id token sessions
          | Subscribe channel \<Rightarrow> handle_subscribe now session_id channel sessions
          | AdminAction action \<Rightarrow> handle_admin session_id action sessions
          | ChatMessage content \<Rightarrow> handle_chat session_id content sessions)
      | Inl _ \<Rightarrow> (sessions, [Send (ServerError ''Invalid message format'')], True))"

text \<open>One turn of the message loop; \<open>None\<close> is the end of the stream or an error. Leaving the loop removes the session.\<close>

definition handle_turn ::
  "('e, 'j) libs \<Rightarrow> nat \<Rightarrow> string \<Rightarrow> ws_message option \<Rightarrow> session_store \<Rightarrow> session_store \<times> effect list \<times> bool" where
  "handle_turn L now session_id msg sessions =
     (let (sessions, out, go) = (case msg of
            None \<Rightarrow> (sessions, [], False)
          | Some (WsText txt) \<Rightarrow> handle_text L now session_id txt sessions
          | Some WsClose \<Rightarrow> (sessions, [], False)
          | Some WsOther \<Rightarrow> (sessions, [], True))
      in (if go then sessions else sessions(session_id := None), out, go))"

subsection \<open>The server\<close>

datatype event = Opened | Out effect | Closed

record system =
  sessions :: session_store
  connections :: "string set"
  history :: "(nat \<times> string \<times> event) list"

definition logged :: "nat \<Rightarrow> string \<Rightarrow> event list \<Rightarrow> (nat \<times> string \<times> event) list" where
  "logged t a evs = map (\<lambda>e. (t, a, e)) evs"

text \<open>
  The operating system does not give two open connections the same address. The greeting can fail,
  which ends the connection at once; every other step is a turn of the loop of some connection.
\<close>

inductive server :: "('e, 'j) libs \<Rightarrow> system \<Rightarrow> bool" for L where
  server_start: "server L \<lparr>sessions = Map.empty, connections = {}, history = []\<rparr>"
| server_accept: "server L s \<Longrightarrow> a \<notin> connections s \<Longrightarrow>
    server L (s\<lparr>connections := insert a (connections s),
      history := history s @ logged t a [Opened, Out (Send AuthRequired)]\<rparr>)"
| server_turn: "server L s \<Longrightarrow> a \<in> connections s \<Longrightarrow> handle_turn L t a msg (sessions s) = (st, out, go) \<Longrightarrow>
    server L (s\<lparr>sessions := st, connections := (if go then connections s else connections s - {a}),
      history := history s @ logged t a (map Out out @ (if go then [] else [Closed]))\<rparr>)"

subsection \<open>What the history says\<close>

text \<open>The session that the history gives an address: that of its last authentication since it was opened.\<close>

fun session_step :: "string \<Rightarrow> session option \<Rightarrow> nat \<times> string \<times> event \<Rightarrow> session option" where
  "session_step a s (t, b, e) = (if a \<noteq> b then s else (case e of
     Opened \<Rightarrow> None
   | Closed \<Rightarrow> None
   | Out (Authenticated token c) \<Rightarrow>
       Some \<lparr>user_id = sub c, session_roles = claim_roles c, authenticated = True, token_expiry = exp c\<rparr>
   | Out _ \<Rightarrow> s))"

definition session_of :: "(nat \<times> string \<times> event) list \<Rightarrow> string \<Rightarrow> session option" where
  "session_of h a = foldl (session_step a) None h"

text \<open>Which events are allowed after a history.\<close>

fun allowed :: "('e, 'j) libs \<Rightarrow> (nat \<times> string \<times> event) list \<Rightarrow> nat \<times> string \<times> event \<Rightarrow> bool" where
  "allowed L h (t, a, Out (Authenticated token c)) \<longleftrightarrow> validate_token L t token = Inr c \<and> t \<le> exp c"
| "allowed L h (t, a, Out (SubscribedTo u ch)) \<longleftrightarrow>
     (\<exists>s. session_of h a = Some s \<and> user_id s = u \<and> t \<le> token_expiry s \<and>
        (prefix ''premium_'' ch \<longrightarrow> ''premium'' \<in> set (session_roles s)))"
| "allowed L h (t, a, Out (AdminPerformed u act)) \<longleftrightarrow>
     (\<exists>s. session_of h a = Some s \<and> user_id s = u \<and> ''admin'' \<in> set (session_roles s))"
| "allowed L h (t, a, Out (MessageFrom u m)) \<longleftrightarrow> (\<exists>s. session_of h a = Some s \<and> user_id s = u)"
| "allowed L h (t, a, e) \<longleftrightarrow> True"

definition all_allowed :: "('e, 'j) libs \<Rightarrow> (nat \<times> string \<times> event) list \<Rightarrow> bool" where
  "all_allowed L h \<longleftrightarrow> (\<forall>pre e post. h = pre @ e # post \<longrightarrow> allowed L pre e)"

lemma session_of_append: "session_of (h @ k) a = foldl (session_step a) (session_of h a) k"
  by (simp add: session_of_def)

lemma all_allowed_Nil: "all_allowed L []"
  by (simp add: all_allowed_def)

lemma all_allowed_snoc: "all_allowed L (h @ [e]) \<longleftrightarrow> all_allowed L h \<and> allowed L h e"
proof -
  have "h @ [e] = pre @ x # post \<longleftrightarrow> (\<exists>post'. post = post' @ [e] \<and> h = pre @ x # post') \<or> (post = [] \<and> x = e \<and> h = pre)"
    for pre x post by (cases post rule: rev_cases) auto
  then show ?thesis unfolding all_allowed_def by (metis (no_types, lifting))
qed

lemma has_role_iff: "has_role s r \<longleftrightarrow> r \<in> set (session_roles s)"
  by (auto simp: has_role_def list_ex_iff)

text \<open>Each turn emits at most one action, possibly followed by an answer to the client.\<close>

definition turn_ok :: "('e, 'j) libs \<Rightarrow> nat \<Rightarrow> string \<Rightarrow> session_store \<Rightarrow> session_store \<times> effect list \<times> bool \<Rightarrow> bool" where
  "turn_ok L t a st r \<longleftrightarrow> (case r of (st', out, go) \<Rightarrow>
     \<forall>h. session_of h = st \<longrightarrow> all_allowed L h \<longrightarrow>
       all_allowed L (h @ logged t a (map Out out)) \<and> session_of (h @ logged t a (map Out out)) = st')"

lemmas turn_simps = turn_ok_def logged_def all_allowed_snoc session_of_append fun_eq_iff

lemma turn_sends: "turn_ok L t a st (st, [Send m], go)" "turn_ok L t a st (st, [], go)"
  by (auto simp: turn_simps)

text \<open>An action is allowed after the history; the answer behind it changes nothing.\<close>

lemma turn_action:
  assumes "\<And>h. session_of h = st \<Longrightarrow> allowed L h (t, a, Out x)"
    and "\<And>c b. session_step b (st b) (t, a, Out x) = st' b"
  shows "turn_ok L t a st (st', [x], go)" "turn_ok L t a st (st', [x, Send m], go)"
proof -
  have one: "all_allowed L (h @ [(t, a, Out x)])" "session_of (h @ [(t, a, Out x)]) = st'"
    if "session_of h = st" "all_allowed L h" for h
    using that assms by (auto simp: all_allowed_snoc session_of_append)
  show "turn_ok L t a st (st', [x], go)" using one by (simp add: turn_ok_def logged_def)
  have "all_allowed L ((h @ [(t, a, Out x)]) @ [(t, a, Out (Send m))])"
    "session_of ((h @ [(t, a, Out x)]) @ [(t, a, Out (Send m))]) = st'"
    if "session_of h = st" "all_allowed L h" for h
    using one [OF that] by (simp_all add: all_allowed_snoc session_of_append [of "h @ [(t, a, Out x)]"] fun_eq_iff del: append_assoc)
  then show "turn_ok L t a st (st', [x, Send m], go)" by (simp add: turn_ok_def logged_def)
qed

lemma turn_auth: "turn_ok L t a st (handle_auth L t a token st)"
  by (cases "validate_token L t token")
     (auto simp: handle_auth_def turn_sends intro!: turn_action)

lemma turn_subscribe: "turn_ok L t a st (handle_subscribe t a ch st)"
  by (cases "st a") (auto simp: handle_subscribe_def turn_sends has_role_iff intro!: turn_action)

lemma turn_admin: "turn_ok L t a st (handle_admin a act st)"
  by (cases "st a") (auto simp: handle_admin_def turn_sends has_role_iff intro!: turn_action)

lemma turn_chat: "turn_ok L t a st (handle_chat a m st)"
  by (cases "st a") (auto simp: handle_chat_def turn_sends intro!: turn_action)

lemma turn_text: "turn_ok L t a st (handle_text L t a x st)"
  by (simp add: handle_text_def turn_sends turn_auth turn_subscribe turn_admin turn_chat
      split: sum.split client_message.split)

lemma turn_loop:
  assumes "handle_turn L t a msg st = (st', out, go)" "session_of h = st" "all_allowed L h"
  defines "h' \<equiv> h @ logged t a (map Out out @ (if go then [] else [Closed]))"
  shows "all_allowed L h'" "session_of h' = st'"
proof -
  let ?k = "h @ logged t a (map Out out)"
  let ?r = "case msg of None \<Rightarrow> (st, [], False) | Some (WsText txt) \<Rightarrow> handle_text L t a txt st
    | Some WsClose \<Rightarrow> (st, [], False) | Some WsOther \<Rightarrow> (st, [], True)"
  obtain st1 out1 go1 where r: "?r = (st1, out1, go1)" by (metis prod.exhaust)
  have "turn_ok L t a st ?r" by (simp add: turn_text turn_sends split: option.split ws_message.split)
  then have 1: "turn_ok L t a st (st1, out, go)" "st' = (if go then st1 else st1(a := None))"
    using assms(1) unfolding handle_turn_def r Let_def by auto
  then have k: "all_allowed L ?k" "session_of ?k = st1" using assms(2,3) by (simp_all add: turn_ok_def)
  have h': "h' = (if go then ?k else ?k @ [(t, a, Closed)])" by (simp add: h'_def logged_def)
  show "all_allowed L h'" unfolding h' using k(1) by (simp add: all_allowed_snoc del: append_assoc)
  show "session_of h' = st'"
  proof (cases go)
    case False
    have "session_of (?k @ [(t, a, Closed)]) b = session_step b (session_of ?k b) (t, a, Closed)" for b
      by (simp add: session_of_append [of ?k] del: append_assoc)
    then show ?thesis unfolding h' 1(2) k(2) using False by (auto simp: fun_eq_iff)
  qed (simp add: h' 1(2) k(2))
qed

lemma server_inv: "server L s \<Longrightarrow> all_allowed L (history s) \<and> session_of (history s) = sessions s \<and> dom (sessions s) \<subseteq> connections s"
proof (induction rule: server.induct)
  case server_start
  then show ?case by (simp add: all_allowed_Nil session_of_def fun_eq_iff)
next
  case (server_accept s a t)
  then have none: "sessions s a = None" by auto
  let ?h = "(history s @ [(t, a, Opened)]) @ [(t, a, Out (Send AuthRequired))]"
  have "all_allowed L ?h" using server_accept by (simp add: all_allowed_snoc del: append_assoc)
  moreover have "session_of ?h = sessions s" using server_accept none by (auto simp: session_of_append fun_eq_iff)
  ultimately show ?case using server_accept by (auto simp: logged_def)
next
  case (server_turn s a t msg st out go)
  note turn = turn_loop [OF server_turn(3), of "history s"]
  have "dom st \<subseteq> insert a (dom (sessions s))" "\<not> go \<longrightarrow> st a = None"
    using server_turn(3)
    by (auto simp: handle_turn_def handle_text_def handle_auth_def handle_subscribe_def handle_admin_def handle_chat_def
        Let_def split: option.splits ws_message.splits sum.splits client_message.splits if_splits)
  then show ?case using turn server_turn by auto
qed

text \<open>
  C31. Access control, for all interleavings of all connections: the session store is what the history
  of authentications says, and every action in the history was allowed by the history before it. A
  session comes from a token that the token library accepted and that had not expired; a
  subscription needs such a session on the same connection, not yet expired, and the premium role
  for premium channels; an administrative action needs a session whose token has the admin role;
  a chat message needs a session. The name reported is that of the token.
\<close>

theorem access_control:
  assumes "server L s"
  shows "session_of (history s) = sessions s \<and> dom (sessions s) \<subseteq> connections s \<and>
    (\<forall>pre e post. history s = pre @ e # post \<longrightarrow> allowed L pre e)"
  using server_inv [OF assms] by (simp add: all_allowed_def)

definition sample_libs :: "(unit, unit) libs" where
  "sample_libs = \<lparr>decode = (\<lambda>t tok. if tok = ''boss'' then Inr \<lparr>sub = ''admin456'', claim_roles = [''admin''], exp = 100\<rparr> else Inl ()),
     encode = (\<lambda>c. Inl ()), from_str = (\<lambda>x. if x = ''a'' then Inr (Auth ''boss'') else Inr (AdminAction x))\<rparr>"

definition admin_system :: system where
  "admin_system = \<lparr>sessions = [''c'' \<mapsto> \<lparr>user_id = ''admin456'', session_roles = [''admin''], authenticated = True, token_expiry = 100\<rparr>],
     connections = {''c''}, history = [(0, ''c'', Opened), (0, ''c'', Out (Send AuthRequired)),
       (1, ''c'', Out (Authenticated ''boss'' \<lparr>sub = ''admin456'', claim_roles = [''admin''], exp = 100\<rparr>)),
       (1, ''c'', Out (Send (AuthSuccess ''admin456'')))]\<rparr>"

lemma server_admin_system: "server sample_libs admin_system"
proof -
  let ?s = "\<lparr>sessions = Map.empty, connections = {''c''},
    history = [(0, ''c'', Opened), (0, ''c'', Out (Send AuthRequired))]\<rparr>"
  have "server sample_libs ?s"
    using server_accept [OF server_start [of sample_libs], of "''c''" 0] by (simp add: logged_def)
  from server_turn [OF this, of "''c''" 1 "Some (WsText ''a'')"] show ?thesis
    by (simp add: handle_turn_def handle_text_def sample_libs_def handle_auth_def validate_token_def admin_system_def logged_def)
qed

theorem access_control_witness:
  "session_of (history admin_system) ''c'' = sessions admin_system ''c'' \<and>
   allowed sample_libs [(0, ''c'', Opened), (0, ''c'', Out (Send AuthRequired))]
     (1, ''c'', Out (Authenticated ''boss'' \<lparr>sub = ''admin456'', claim_roles = [''admin''], exp = 100\<rparr>))"
proof -
  have "history admin_system = [(0, ''c'', Opened), (0, ''c'', Out (Send AuthRequired))] @
      (1, ''c'', Out (Authenticated ''boss'' \<lparr>sub = ''admin456'', claim_roles = [''admin''], exp = 100\<rparr>)) #
      [(1, ''c'', Out (Send (AuthSuccess ''admin456'')))]" by (simp add: admin_system_def)
  then show ?thesis using access_control [OF server_admin_system] by metis
qed

text \<open>
  Only subscriptions check that the token is still valid: an administrator stays one for as long
  as the connection is open. Whatever the time, also after the expiry of the token, an
  administrative action is performed.
\<close>

theorem expired_admin_still_acts:
  assumes "server L s" "sessions s a = Some u" "''admin'' \<in> set (session_roles u)" "from_str L x = Inr (AdminAction act)"
  shows "\<exists>s'. server L s' \<and> history s' = history s @ [(t, a, Out (AdminPerformed (user_id u) act))] \<and>
    sessions s' = sessions s"
proof -
  have "a \<in> connections s" using server_inv [OF assms(1)] assms(2) by auto
  moreover have "handle_turn L t a (Some (WsText x)) (sessions s) = (sessions s, [AdminPerformed (user_id u) act], True)"
    using assms(2-4) by (simp add: handle_turn_def handle_text_def handle_admin_def has_role_iff)
  ultimately show ?thesis using server_turn [OF assms(1)] by (force simp: logged_def)
qed

theorem expired_admin_still_acts_witness:
  "\<exists>s'. server sample_libs s' \<and>
     history s' = history admin_system @ [(5000, ''c'', Out (AdminPerformed ''admin456'' ''drop''))]"
proof -
  let ?u = "\<lparr>user_id = ''admin456'', session_roles = [''admin''], authenticated = True, token_expiry = 100\<rparr>"
  have "sessions admin_system ''c'' = Some ?u" "''admin'' \<in> set (session_roles ?u)"
    "from_str sample_libs ''drop'' = Inr (AdminAction ''drop'')" by (simp_all add: admin_system_def sample_libs_def)
  from expired_admin_still_acts [OF server_admin_system this, of 5000] show ?thesis by auto
qed

end
