(* ===== verification/Ws_Auth_Client.thy ===== *)
theory Ws_Auth_Client
  imports Ws_Auth
begin

text \<open>
  \<^verbatim>\<open>WebSocket/src/22/websocket_authentication_client.rs\<close>: the client of the server of \<open>Ws_Auth\<close>, composed with it. The client sends a fixed
  script while a task prints what arrives. Parameters: the environment and the connection, the JSON library, and how many of
  the transmissions succeed; the first that fails panics.
\<close>

subsection \<open>The client\<close>

datatype line = Received server_message | ParseFailed | ClosedByServer | ReadFailed

datatype incoming = InText string | InClose | InError | InOther

fun read_task :: "(string \<Rightarrow> 'j + server_message) \<Rightarrow> incoming list \<Rightarrow> line list" where
  "read_task server_from_str [] = []"
| "read_task server_from_str (InText t # ms) =
     (case server_from_str t of Inr m \<Rightarrow> Received m | Inl _ \<Rightarrow> ParseFailed) # read_task server_from_str ms"
| "read_task server_from_str (InClose # ms) = [ClosedByServer]"
| "read_task server_from_str (InError # ms) = [ReadFailed]"
| "read_task server_from_str (InOther # ms) = read_task server_from_str ms"

definition client_messages :: "string \<Rightarrow> client_message list" where
  "client_messages token = [Auth token, Subscribe ''general'', Subscribe ''premium_trading'', AdminAction ''delete_user'',
     ChatMessage ''Hello, WebSocket!'']"

text \<open>What is sent, and whether the program ends without a panic; at most \<open>ok\<close> transmissions succeed.\<close>

fun send_all :: "nat \<Rightarrow> ws_message list \<Rightarrow> ws_message list \<times> bool" where
  "send_all ok [] = ([], True)"
| "send_all 0 (m # ms) = ([], False)"
| "send_all (Suc ok) (m # ms) = (let (sent, fine) = send_all ok ms in (m # sent, fine))"

definition client_main :: "(client_message \<Rightarrow> string) \<Rightarrow> string option \<Rightarrow> bool \<Rightarrow> nat \<Rightarrow> ws_message list \<times> bool" where
  "client_main to_string ws_token connected ok =
     (case ws_token of
        None \<Rightarrow> ([], False)
      | Some token \<Rightarrow>
          if \<not> connected then ([], False)
          else send_all ok (map (\<lambda>m. WsText (to_string m)) (client_messages token) @ [WsClose]))"

subsection \<open>The connection on the server\<close>

text \<open>The turns of the server for one connection: messages with the times at which they are handled.\<close>

fun serve :: "('e, 'j) libs \<Rightarrow> string \<Rightarrow> (nat \<times> ws_message) list \<Rightarrow> session_store \<Rightarrow> effect list \<times> bool" where
  "serve L a [] st = ([], True)"
| "serve L a ((t, m) # ms) st =
     (case handle_turn L t a (Some m) st of
        (st, out, go) \<Rightarrow> if go then (let (out', go) = serve L a ms st in (out @ out', go)) else (out, False))"

definition sends :: "effect list \<Rightarrow> server_message list" where
  "sends es = concat (map (\<lambda>e. case e of Send m \<Rightarrow> [m] | _ \<Rightarrow> []) es)"

lemma send_all_enough: "length ms \<le> ok \<Longrightarrow> send_all ok ms = (ms, True)"
proof (induction ms arbitrary: ok)
  case (Cons m ms)
  then show ?case by (cases ok) simp_all
qed simp

lemma read_task_texts:
  assumes "\<forall>m. server_from_str (server_to_str m) = Inr m"
  shows "read_task server_from_str (map (\<lambda>m. InText (server_to_str m)) ms @ rest) = map Received ms @ read_task server_from_str rest"
  by (induction ms) (simp_all add: assms)

text \<open>What the server does for the script of a client whose token it accepts.\<close>

definition granted :: "claims \<Rightarrow> string \<Rightarrow> effect list" where
  "granted c token = [Authenticated token c, Send (AuthSuccess (sub c)), SubscribedTo (sub c) ''general'', Send (Subscribed ''general'')]
     @ (if ''premium'' \<in> set (claim_roles c) then [SubscribedTo (sub c) ''premium_trading'', Send (Subscribed ''premium_trading'')]
        else [Send (Unauthorized ''Premium subscription required'')])
     @ (if ''admin'' \<in> set (claim_roles c) then [AdminPerformed (sub c) ''delete_user'']
        else [Send (Unauthorized ''Admin role required'')])
     @ [MessageFrom (sub c) ''Hello, WebSocket!'']"

lemma serve_script:
  assumes "\<forall>m. from_str L (to_string m) = Inr m" "validate_token L t1 token = Inr c" "t1 \<le> exp c" "t2 \<le> exp c" "t3 \<le> exp c"
  shows "serve L a (zip [t1, t2, t3, t4, t5, t6] (map (\<lambda>m. WsText (to_string m)) (client_messages token) @ [WsClose])) st =
    (granted c token, False)"
  using assms
  by (simp add: client_messages_def handle_turn_def handle_text_def handle_auth_def handle_subscribe_def handle_admin_def
      handle_chat_def has_role_iff granted_def not_less)

lemma serve_rejected:
  assumes "\<forall>m. from_str L (to_string m) = Inr m" "validate_token L t1 token = Inl e"
  shows "serve L a (zip [t1, t2, t3, t4, t5, t6] (map (\<lambda>m. WsText (to_string m)) (client_messages token) @ [WsClose])) st =
    ([Send (AuthFailed ''Invalid token'')], False)"
  using assms by (simp add: client_messages_def handle_turn_def handle_text_def handle_auth_def)

text \<open>
  Client and server together. With a token and a connection that carries six transmissions the client ends without a panic; for a token
  that stays valid the server does exactly what the roles of the token allow, and the client prints exactly the answers, in order. With a
  token that is not valid only the refusal is sent, and the rest of the script is never handled. Without a token, or when a transmission
  fails, the client panics.
\<close>

theorem client_session:
  fixes L :: "('e, 'j) libs" and a :: string and st :: session_store and to_string :: "client_message \<Rightarrow> string"
  assumes "\<forall>m. from_str L (to_string m) = Inr m" "\<forall>m. server_from_str (server_to_str m) = Inr m"
  defines "run \<equiv> \<lambda>token ts. serve L a (zip ts (fst (client_main to_string (Some token) True 6))) st"
  shows "snd (client_main to_string (Some token) True 6)"
    and "validate_token L t1 token = Inr c \<Longrightarrow> max t1 (max t2 t3) \<le> exp c \<Longrightarrow> run token [t1, t2, t3, t4, t5, t6] = (granted c token, False)"
    and "validate_token L t1 token = Inl e \<Longrightarrow> run token [t1, t2, t3, t4, t5, t6] = ([Send (AuthFailed ''Invalid token'')], False)"
    and "read_task server_from_str (map (\<lambda>m. InText (server_to_str m)) (AuthRequired # sends es) @ [InClose]) =
        map Received (AuthRequired # sends es) @ [ClosedByServer]"
    and "\<not> snd (client_main to_string None True n)" and "n < 6 \<Longrightarrow> \<not> snd (client_main to_string (Some token) True n)"
proof -
  have main: "client_main to_string (Some token) True 6 = (map (\<lambda>m. WsText (to_string m)) (client_messages token) @ [WsClose], True)" for token
    by (simp add: client_main_def send_all_enough client_messages_def)
  show "snd (client_main to_string (Some token) True 6)" by (simp add: main)
  show "run token [t1, t2, t3, t4, t5, t6] = (granted c token, False)"
    if "validate_token L t1 token = Inr c" "max t1 (max t2 t3) \<le> exp c"
    unfolding run_def main fst_conv using that by (intro serve_script [OF assms(1)]) simp_all
  show "run token [t1, t2, t3, t4, t5, t6] = ([Send (AuthFailed ''Invalid token'')], False)" if "validate_token L t1 token = Inl e"
    unfolding run_def main fst_conv using that by (rule serve_rejected [OF assms(1)])
  show "read_task server_from_str (map (\<lambda>m. InText (server_to_str m)) (AuthRequired # sends es) @ [InClose]) =
        map Received (AuthRequired # sends es) @ [ClosedByServer]"
    by (simp only: read_task_texts [OF assms(2)] read_task.simps)
  show "\<not> snd (client_main to_string None True n)" by (simp add: client_main_def)
  show "\<not> snd (client_main to_string (Some token) True n)" if "n < 6"
  proof -
    have "\<not> snd (send_all k ms)" if "k < length ms" for k ms
      using that by (induction k ms rule: send_all.induct) (auto simp: case_prod_beta Let_def)
    then show ?thesis using that by (simp add: client_main_def client_messages_def)
  qed
qed

end
