(* ===== verification/Ws_Input.thy ===== *)
theory Ws_Input
  imports Utf8 "HOL-Library.Sublist"
begin

text \<open>
  \<^verbatim>\<open>WebSocket/src/24/websocket_input_validation.rs\<close>: validation and sanitising of chat messages. A
  \<open>String\<close> is the list of its UTF-8 bytes; replacing, searching and comparing ASCII text works on
  bytes, since the bytes of other characters are never ASCII. Parameters: the regular expression
  library, the JSON parser, and what the Unicode tables of the standard library say of characters
  beyond ASCII; of ASCII they are written out.
\<close>

subsection \<open>Strings of the standard library\<close>

definition is_ascii_alphanumeric :: "u8 \<Rightarrow> bool" where
  "is_ascii_alphanumeric b \<longleftrightarrow>
     (0x30 \<le> b \<and> b \<le> 0x39) \<or> (0x41 \<le> b \<and> b \<le> 0x5A) \<or> (0x61 \<le> b \<and> b \<le> 0x7A)"

definition ascii_lower :: "u8 \<Rightarrow> u8" where
  "ascii_lower b = (if 0x41 \<le> b \<and> b \<le> 0x5A then b + 0x20 else b)"

text \<open>\<open>str::replace\<close> of an ASCII character.\<close>

definition replace :: "u8 \<Rightarrow> bytes \<Rightarrow> bytes \<Rightarrow> bytes" where
  "replace c r s = concat (map (\<lambda>b. if b = c then r else [b]) s)"

fun str_contains :: "bytes \<Rightarrow> bytes \<Rightarrow> bool" where
  "str_contains p [] = (p = [])"
| "str_contains p (b # s) = (prefix p (b # s) \<or> str_contains p s)"

subsection \<open>Data\<close>

definition MAX_MESSAGE_SIZE :: nat where "MAX_MESSAGE_SIZE = 1024 * 1024"
definition MAX_USERNAME_LENGTH :: nat where "MAX_USERNAME_LENGTH = 50"
definition MAX_CHANNEL_LENGTH :: nat where "MAX_CHANNEL_LENGTH = 100"
definition MAX_CONTENT_LENGTH :: nat where "MAX_CONTENT_LENGTH = 10000"

datatype validation_error = MessageTooLarge | InvalidUtf8 | InvalidJson string | InvalidUsername
  | InvalidChannel | InvalidPriority | ContentTooLong | MalformedData

record chat_message =
  username :: bytes
  channel :: bytes
  content :: bytes
  priority :: int

text \<open>
  \<open>alphanumeric_table c\<close> is \<open>char::is_alphanumeric\<close> and \<open>lowercase_table before c after\<close> the
  lower case of a character \<open>c\<close> beyond ASCII, which may depend on the characters around it.
\<close>

record libs =
  alphanumeric_table :: "bytes \<Rightarrow> bool"
  lowercase_table :: "bytes list \<Rightarrow> bytes \<Rightarrow> bytes list \<Rightarrow> bytes"
  is_match :: "string \<Rightarrow> bytes \<Rightarrow> bool"
  from_json :: "bytes \<Rightarrow> string + chat_message"

fun is_alphanumeric :: "libs \<Rightarrow> bytes \<Rightarrow> bool" where
  "is_alphanumeric L [b] = is_ascii_alphanumeric b"
| "is_alphanumeric L c = alphanumeric_table L c"

fun lower_char :: "libs \<Rightarrow> bytes list \<Rightarrow> bytes \<Rightarrow> bytes list \<Rightarrow> bytes" where
  "lower_char L before [b] after = [ascii_lower b]"
| "lower_char L before c after = lowercase_table L before c after"

primrec lower_chars :: "libs \<Rightarrow> bytes list \<Rightarrow> bytes list \<Rightarrow> bytes" where
  "lower_chars L before [] = []"
| "lower_chars L before (c # cs) = lower_char L before c cs @ lower_chars L (before @ [c]) cs"

definition to_lowercase :: "libs \<Rightarrow> bytes \<Rightarrow> bytes" where
  "to_lowercase L s = lower_chars L [] (chars s)"

definition try_ok :: "'e + 'a \<Rightarrow> ('a \<Rightarrow> 'e + 'b) \<Rightarrow> 'e + 'b" where
  "try_ok r k = (case r of Inl e \<Rightarrow> Inl e | Inr a \<Rightarrow> k a)"

subsection \<open>Validation\<close>

definition validate_size :: "nat \<Rightarrow> validation_error + unit" where
  "validate_size n = (if n = 0 \<or> n > MAX_MESSAGE_SIZE then Inl MessageTooLarge else Inr ())"

definition validate_utf8 :: "bytes \<Rightarrow> validation_error + bytes" where
  "validate_utf8 data = (if is_valid_utf8 data then Inr data else Inl InvalidUtf8)"

definition sanitize_username :: "libs \<Rightarrow> bytes \<Rightarrow> validation_error + bytes" where
  "sanitize_username L name =
     (if name = [] \<or> length name > MAX_USERNAME_LENGTH then Inl InvalidUsername
      else
        (let sanitized = concat (filter (\<lambda>c. is_alphanumeric L c \<or> c = ascii ''_'') (chars name)) in
         if sanitized = [] then Inl InvalidUsername else Inr sanitized))"

definition sanitize_channel :: "libs \<Rightarrow> bytes \<Rightarrow> validation_error + bytes" where
  "sanitize_channel L ch =
     (if ch = [] \<or> length ch > MAX_CHANNEL_LENGTH then Inl InvalidChannel
      else if \<not> prefix (ascii ''#'') ch then Inl InvalidChannel
      else if \<not> is_match L ''^#[a-zA-Z0-9_-]+$'' ch then Inl InvalidChannel
      else Inr ch)"

definition html_escape :: "bytes \<Rightarrow> bytes" where
  "html_escape s =
     replace 0x2F (ascii ''&#x2F;'') (replace 0x27 (ascii ''&#x27;'') (replace 0x22 (ascii ''&quot;'')
       (replace 0x3E (ascii ''&gt;'') (replace 0x3C (ascii ''&lt;'') (replace 0x26 (ascii ''&amp;'') s)))))"

definition validate_priority :: "int \<Rightarrow> validation_error + int" where
  "validate_priority p = (if 0 \<le> p \<and> p \<le> 10 then Inr p else Inl InvalidPriority)"

definition validate_content :: "bytes \<Rightarrow> validation_error + unit" where
  "validate_content s = (if length s > MAX_CONTENT_LENGTH then Inl ContentTooLong else Inr ())"

definition sql_escape :: "bytes \<Rightarrow> bytes" where
  "sql_escape s = replace 0x27 [0x27, 0x27] s"

definition dangerous_patterns :: "string list" where
  "dangerous_patterns = [''javascript:'', ''onerror='', ''onload='', ''<script'', ''</script>'',
     ''data:text/html'', ''vbscript:'']"

definition check_injection_patterns :: "libs \<Rightarrow> bytes \<Rightarrow> validation_error + unit" where
  "check_injection_patterns L s =
     (let lower = to_lowercase L s in
      if \<exists>p \<in> set dangerous_patterns. str_contains (ascii p) lower then Inl MalformedData else Inr ())"

definition process_message :: "libs \<Rightarrow> bytes \<Rightarrow> validation_error + chat_message" where
  "process_message L raw_data =
     try_ok (validate_size (length raw_data)) (\<lambda>_.
     try_ok (validate_utf8 raw_data) (\<lambda>message_str.
     try_ok (case from_json L message_str of Inl e \<Rightarrow> Inl (InvalidJson e) | Inr m \<Rightarrow> Inr m) (\<lambda>msg.
     try_ok (sanitize_username L (username msg)) (\<lambda>u. let msg = msg\<lparr>username := u\<rparr> in
     try_ok (sanitize_channel L (channel msg)) (\<lambda>c. let msg = msg\<lparr>channel := c\<rparr> in
     try_ok (validate_priority (priority msg)) (\<lambda>p. let msg = msg\<lparr>priority := p\<rparr> in
     try_ok (validate_content (content msg)) (\<lambda>_.
     try_ok (check_injection_patterns L (content msg)) (\<lambda>_.
     Inr (msg\<lparr>content := html_escape (content msg)\<rparr>)))))))))"

subsection \<open>Custom rules\<close>

record custom_validator =
  allowed_channels :: "bytes list"
  max_message_rate :: u32

definition custom_new :: "bytes list \<Rightarrow> custom_validator" where
  "custom_new channels = \<lparr>allowed_channels = channels, max_message_rate = 10\<rparr>"

definition validate_channel_whitelist :: "custom_validator \<Rightarrow> bytes \<Rightarrow> validation_error + unit" where
  "validate_channel_whitelist v ch = (if ch \<in> set (allowed_channels v) then Inr () else Inl InvalidChannel)"

definition validate_business_rules :: "custom_validator \<Rightarrow> chat_message \<Rightarrow> validation_error + unit" where
  "validate_business_rules v msg =
     (if priority msg \<ge> 8 \<and> \<not> prefix (ascii ''[URGENT]'') (content msg) then Inl MalformedData else Inr ())"

subsection \<open>Escaping\<close>

definition entities :: "(bytes \<times> u8) list" where
  "entities = [(ascii ''&amp;'', 0x26), (ascii ''&lt;'', 0x3C), (ascii ''&gt;'', 0x3E),
     (ascii ''&quot;'', 0x22), (ascii ''&#x27;'', 0x27), (ascii ''&#x2F;'', 0x2F)]"

text \<open>What a browser makes of the text: the entities, longest or not, are replaced left to right.\<close>

function html_unescape :: "bytes \<Rightarrow> bytes" where
  "html_unescape [] = []"
| "html_unescape (b # s) = (case find (\<lambda>(e, _). prefix e (b # s)) entities of
     Some (e, c) \<Rightarrow> c # html_unescape (drop (length e - 1) s)
   | None \<Rightarrow> b # html_unescape s)"
  by pat_completeness auto
termination by (relation "measure length") auto

definition entity :: "u8 \<Rightarrow> bytes" where
  "entity b = (case find (\<lambda>(_, c). c = b) entities of Some (e, _) \<Rightarrow> e | None \<Rightarrow> [b])"

lemma replace_Nil [simp]: "replace c r [] = []"
  by (simp add: replace_def)

lemma replace_Cons: "replace c r (b # s) = (if b = c then r else [b]) @ replace c r s"
  by (simp add: replace_def)

lemma replace_append [simp]: "replace c r (s @ t) = replace c r s @ replace c r t"
  by (simp add: replace_def)

lemma html_escape_append: "html_escape (s @ t) = html_escape s @ html_escape t"
  by (simp add: html_escape_def)

lemma ascii_entities:
  "ascii ''&amp;'' = [0x26, 0x61, 0x6D, 0x70, 0x3B]" "ascii ''&lt;'' = [0x26, 0x6C, 0x74, 0x3B]"
  "ascii ''&gt;'' = [0x26, 0x67, 0x74, 0x3B]" "ascii ''&quot;'' = [0x26, 0x71, 0x75, 0x6F, 0x74, 0x3B]"
  "ascii ''&#x27;'' = [0x26, 0x23, 0x78, 0x32, 0x37, 0x3B]"
  "ascii ''&#x2F;'' = [0x26, 0x23, 0x78, 0x32, 0x46, 0x3B]"
  by (simp_all add: ascii_def)

lemma find_cases: "find P xs = None \<or> (\<exists>x \<in> set xs. find P xs = Some x \<and> P x)"
  by (induction xs) auto

lemma entity_cases:
  obtains e where "(e, b) \<in> set entities" "entity b = e"
  | "b \<notin> snd ` set entities" "entity b = [b]"
proof (cases "find (\<lambda>(_, c). c = b) entities")
  case None
  then have "b \<notin> snd ` set entities" by (auto simp: find_None_iff)
  then show ?thesis using that(2) None by (simp add: entity_def)
next
  case (Some x)
  then show ?thesis using that(1) [of "fst x"] find_cases [of "\<lambda>(_, c). c = b" entities]
    by (cases x) (auto simp: entity_def)
qed

lemma special_bytes: "snd ` set entities = {0x26, 0x3C, 0x3E, 0x22, 0x27, 0x2F}"
  by (simp add: entities_def)

lemma html_escape_byte: "html_escape [b] = entity b"
proof (cases "b \<in> {0x26, 0x3C, 0x3E, 0x22, 0x27, 0x2F}")
  case True
  then show ?thesis
    by (elim insertE; simp add: html_escape_def entity_def entities_def ascii_entities replace_Cons)
next
  case False
  then have "entity b = [b]" using entity_cases [of b] special_bytes by (metis image_eqI snd_conv)
  then show ?thesis using False by (simp add: html_escape_def replace_Cons)
qed

lemma html_escape_entities: "html_escape s = concat (map entity s)"
proof (induction s)
  case (Cons b s)
  then show ?case using html_escape_append [of "[b]" s] by (simp add: html_escape_byte)
qed (simp add: html_escape_def)

lemma html_unescape_entity: "html_unescape (entity b @ s) = b # html_unescape s"
proof (cases "b \<in> {0x26, 0x3C, 0x3E, 0x22, 0x27, 0x2F}")
  case True
  then show ?thesis by (elim insertE; simp add: entity_def entities_def ascii_entities)
next
  case False
  then have "entity b = [b]" using entity_cases [of b] special_bytes by (metis image_eqI snd_conv)
  moreover have "find (\<lambda>(e, _). prefix e (b # s)) entities = None"
    using False by (simp add: entities_def ascii_entities)
  ultimately show ?thesis by simp
qed

declare html_unescape.simps(2) [simp del]

lemma html_unescape_escape: "html_unescape (html_escape s) = s"
  unfolding html_escape_entities by (induction s) (simp_all add: html_unescape_entity)

lemma entity_bytes: "set (entity b) \<inter> {0x3C, 0x3E, 0x22, 0x27, 0x2F} = {}"
  by (rule entity_cases [of b]) (auto simp: special_bytes entities_def ascii_entities)

lemma html_escape_bytes: "set (html_escape s) \<inter> {0x3C, 0x3E, 0x22, 0x27, 0x2F} = {}"
  using entity_bytes by (auto simp: html_escape_entities)

lemma entity_plain: "b \<notin> {0x26, 0x3C, 0x3E, 0x22, 0x27, 0x2F} \<Longrightarrow> entity b = [b]"
  using entity_cases [of b] special_bytes by (metis image_eqI snd_conv)

lemma entity_ascii: "b < 0x80 \<Longrightarrow> \<forall>x \<in> set (entity b). x < 0x80"
  by (rule entity_cases [of b]) (auto simp: entities_def ascii_entities)

lemma html_escape_char:
  assumes c: "is_utf8_char c"
  shows "is_valid_utf8 (html_escape c)"
  using c
proof (cases rule: utf8_char_cases)
  case (1 b)
  then show ?thesis using entity_ascii [of b] by (simp add: html_escape_entities is_valid_utf8_ascii)
next
  case 2
  have "entity b = [b]" if "b \<in> set c" for b
    using bspec [OF 2(1) that] by (intro entity_plain) auto
  then have "html_escape c = c" unfolding html_escape_entities by (induction c) auto
  then show ?thesis using valid_append_char [OF c, of "[]"] by simp
qed

lemma html_escape_valid: "is_valid_utf8 s \<Longrightarrow> is_valid_utf8 (html_escape s)"
proof -
  have "\<forall>c \<in> set cs. is_utf8_char c \<Longrightarrow> is_valid_utf8 (html_escape (concat cs))" for cs
  proof (induction cs)
    case (Cons c cs)
    then show ?case by (simp add: html_escape_append valid_append html_escape_char)
  qed (simp add: html_escape_entities)
  then show "is_valid_utf8 s \<Longrightarrow> is_valid_utf8 (html_escape s)"
    using chars_valid [of s] concat_chars [of s] by metis
qed

lemma prefix_html_escape:
  "set p \<inter> {0x26, 0x3C, 0x3E, 0x22, 0x27, 0x2F} = {} \<Longrightarrow> prefix p (html_escape s) = prefix p s"
  unfolding html_escape_entities
proof (induction s arbitrary: p)
  case (Cons b s)
  show ?case
  proof (cases p)
    case (Cons x q)
    show ?thesis
    proof (cases "b \<in> {0x26, 0x3C, 0x3E, 0x22, 0x27, 0x2F}")
      case True
      then have "\<exists>t. entity b = 0x26 # t"
        by (elim insertE; simp add: entity_def entities_def ascii_entities)
      then show ?thesis using True Cons.prems Cons by auto
    next
      case False
      then show ?thesis using Cons.IH [of q] Cons.prems Cons by (simp add: entity_plain)
    qed
  qed simp
qed simp

text \<open>
  \<open>html_escape\<close> is right although it replaces one character after the other: the result has no
  angle bracket, quote, apostrophe or slash left, decoding its entities gives back exactly the
  input, so nothing is lost or escaped twice, and the result is a string again.
\<close>

theorem html_escape_roundtrip:
  assumes "is_valid_utf8 s"
  shows "html_unescape (html_escape s) = s \<and> is_valid_utf8 (html_escape s) \<and>
    set (html_escape s) \<inter> {0x3C, 0x3E, 0x22, 0x27, 0x2F} = {}"
  using assms html_escape_bytes by (simp add: html_unescape_escape html_escape_valid)

theorem html_escape_roundtrip_witness:
  "html_unescape (html_escape (ascii ''<&lt;>'')) = ascii ''<&lt;>'' \<and>
   html_escape (ascii ''<&lt;>'') = ascii ''&lt;&amp;lt;&gt;''"
proof -
  have "is_valid_utf8 (ascii ''<&lt;>'')" by (simp add: ascii_def)
  moreover have "html_escape (ascii ''<&lt;>'') = ascii ''&lt;&amp;lt;&gt;''"
    by (simp add: html_escape_def replace_Cons ascii_def)
  ultimately show ?thesis using html_escape_roundtrip [of "ascii ''<&lt;>''"] by simp
qed

subsection \<open>Names, channels and patterns\<close>

definition name_char :: "libs \<Rightarrow> bytes \<Rightarrow> bool" where
  "name_char L c \<longleftrightarrow> is_alphanumeric L c \<or> c = ascii ''_''"

definition channel_byte :: "u8 \<Rightarrow> bool" where
  "channel_byte b \<longleftrightarrow> is_ascii_alphanumeric b \<or> b = 0x5F \<or> b = 0x2D"

lemma length_concat_filter: "length (concat (filter P xs)) \<le> length (concat xs)"
  by (induction xs) auto

lemma try_ok_Inr_iff: "try_ok r k = Inr b \<longleftrightarrow> (\<exists>a. r = Inr a \<and> k a = Inr b)"
  by (cases r) (simp_all add: try_ok_def)

lemma sanitize_username_Inr:
  assumes "is_valid_utf8 name" "sanitize_username L name = Inr u"
  shows "u = concat (filter (name_char L) (chars name))" "u \<noteq> []" "length u \<le> 50" "is_valid_utf8 u"
    "chars u = filter (name_char L) (chars name)" "sanitize_username L u = Inr u"
proof -
  let ?cs = "filter (name_char L) (chars name)"
  have eq: "sanitize_username L x = (if x = [] \<or> length x > 50 then Inl InvalidUsername
      else let s = concat (filter (name_char L) (chars x)) in if s = [] then Inl InvalidUsername else Inr s)" for x
    unfolding sanitize_username_def MAX_USERNAME_LENGTH_def name_char_def [abs_def] ..
  from assms(2) show u: "u = concat ?cs" and ne: "u \<noteq> []" by (auto simp: eq Let_def split: if_splits)
  have "length name \<le> 50" using assms(2) by (auto simp: eq split: if_splits)
  moreover have "length u \<le> length name" unfolding u using length_concat_filter [of "name_char L" "chars name"] by simp
  ultimately show len: "length u \<le> 50" by simp
  have "\<forall>c \<in> set ?cs. is_utf8_char c" using chars_valid [OF assms(1)] by simp
  from concat_utf8_chars [OF this] show "is_valid_utf8 u" and ch: "chars u = ?cs" unfolding u by simp_all
  have "filter (name_char L) (chars u) = ?cs" unfolding ch by simp
  then show "sanitize_username L u = Inr u" using ne len u by (simp add: eq)
qed

text \<open>Every removed character makes names that are different equal.\<close>

lemma sanitize_username_collides:
  assumes "is_valid_utf8 u" "u @ v \<noteq> []" "length (u @ v) < 50"
  shows "sanitize_username L (u @ ascii ''@'' @ v) = sanitize_username L (u @ v)"
proof -
  have "chars (ascii ''@'' @ v) = [0x40] # chars v"
    using chars_append [of "ascii ''@''" v] by (simp add: ascii_def chars_ascii)
  then show ?thesis using assms
    by (auto simp: sanitize_username_def chars_append MAX_USERNAME_LENGTH_def is_ascii_alphanumeric_def ascii_def)
qed

lemma str_contains_append: "str_contains p (u @ p @ v)"
proof (induction u)
  case Nil
  have "prefix p (p @ v)" by simp
  then show ?case by (cases "p @ v") auto
qed simp

lemma lower_chars_ascii:
  "\<exists>v. lower_chars L bef (map (\<lambda>b. [b]) x @ cs) = map ascii_lower x @ v"
  by (induction x arbitrary: bef) auto

lemma lower_chars_inside:
  "\<exists>u v. lower_chars L bef (ds @ map (\<lambda>b. [b]) x @ cs) = u @ map ascii_lower x @ v"
proof (induction ds arbitrary: bef)
  case Nil
  then show ?case using lower_chars_ascii [of L bef x cs] by (metis append_Nil)
next
  case (Cons d ds)
  then obtain u v where "lower_chars L (bef @ [d]) (ds @ map (\<lambda>b. [b]) x @ cs) = u @ map ascii_lower x @ v" by blast
  then have "lower_chars L bef ((d # ds) @ map (\<lambda>b. [b]) x @ cs) =
      (lower_char L bef d (ds @ map (\<lambda>b. [b]) x @ cs) @ u) @ map ascii_lower x @ v" by simp
  then show ?case by blast
qed

lemma ascii_lower_ascii: "ascii_lower b < 0x80 \<Longrightarrow> b < 0x80"
  using le_less_trans [of b "0x5A" "0x80"] by (auto simp: ascii_lower_def split: if_splits)

lemma ascii_patterns: "p \<in> set dangerous_patterns \<Longrightarrow> \<forall>b \<in> set (ascii p). b < 0x80"
  by (auto simp: dangerous_patterns_def ascii_def)

text \<open>
  A dangerous pattern is found wherever it stands and in whatever mixture of upper and lower case,
  whatever the Unicode tables say of the characters around it.
\<close>

theorem injection_pattern_any_case:
  assumes "is_valid_utf8 u" "p \<in> set dangerous_patterns" "map ascii_lower x = ascii p"
  shows "check_injection_patterns L (u @ x @ v) = Inl MalformedData"
proof -
  have "\<forall>b \<in> set (map ascii_lower x). b < 0x80" using ascii_patterns [OF assms(2)] assms(3) by simp
  then have x: "\<forall>b \<in> set x. b < 0x80" using ascii_lower_ascii by auto
  then have "chars (u @ x @ v) = chars u @ map (\<lambda>b. [b]) x @ chars v"
    using chars_append [OF assms(1)] chars_append [OF is_valid_utf8_ascii [OF x]] chars_ascii [OF x] by simp
  then obtain s t where "to_lowercase L (u @ x @ v) = s @ ascii p @ t"
    using lower_chars_inside [of L "[]" "chars u" x "chars v"] assms(3) by (auto simp: to_lowercase_def)
  then have "str_contains (ascii p) (to_lowercase L (u @ x @ v))" by (simp add: str_contains_append)
  then show ?thesis using assms(2) by (auto simp: check_injection_patterns_def Let_def)
qed

subsection \<open>Accepted messages\<close>

lemma process_message_Inr:
  assumes "process_message L raw = Inr m"
  obtains j where "0 < length raw" "length raw \<le> MAX_MESSAGE_SIZE" "is_valid_utf8 raw" "from_json L raw = Inr j"
    "sanitize_username L (username j) = Inr (username m)" "sanitize_channel L (channel j) = Inr (channel m)"
    "0 \<le> priority j" "priority j \<le> 10" "length (content j) \<le> MAX_CONTENT_LENGTH"
    "check_injection_patterns L (content j) = Inr ()" "priority m = priority j" "content m = html_escape (content j)"
  using assms
  by (auto simp: process_message_def try_ok_Inr_iff Let_def validate_size_def validate_utf8_def validate_priority_def
      validate_content_def split: if_splits sum.splits)

lemma sanitize_channel_Inr:
  assumes "sanitize_channel L ch = Inr c"
  shows "c = ch" "length c \<le> 100" "is_match L ''^#[a-zA-Z0-9_-]+$'' c"
  using assms by (auto simp: sanitize_channel_def MAX_CHANNEL_LENGTH_def split: if_splits)

lemma business_rules_escaped:
  "validate_business_rules v (m\<lparr>content := html_escape s\<rparr>) = validate_business_rules v (m\<lparr>content := s\<rparr>)"
proof -
  have "set (ascii ''[URGENT]'') \<inter> {0x26, 0x3C, 0x3E, 0x22, 0x27, 0x2F} = {}" by (simp add: ascii_def)
  from prefix_html_escape [OF this] show ?thesis by (simp add: validate_business_rules_def)
qed

text \<open>
  C28. What an accepted message guarantees, given that the expression matches as its syntax says and
  that strings from the JSON parser are UTF-8: a name of one to fifty bytes of letters, digits and
  underscores, which sanitising leaves as it is; the sender's channel, a hash sign and letters,
  digits, underscores and hyphens; a priority from 0 to 10; content without markup characters that
  decodes to what was sent and in which no dangerous pattern occurs; and the business rules decide
  the same on the escaped content as on the original.
\<close>

theorem accepted_messages_safe:
  assumes "process_message L raw = Inr m"
    and "\<And>s. is_match L ''^#[a-zA-Z0-9_-]+$'' s \<Longrightarrow> \<exists>cs. s = 0x23 # cs \<and> cs \<noteq> [] \<and> (\<forall>b \<in> set cs. channel_byte b)"
    and "\<And>s j. from_json L s = Inr j \<Longrightarrow> is_valid_utf8 (username j) \<and> is_valid_utf8 (content j)"
  shows "\<exists>j. from_json L raw = Inr j \<and>
     0 < length (username m) \<and> length (username m) \<le> 50 \<and> (\<forall>c \<in> set (chars (username m)). name_char L c) \<and>
     sanitize_username L (username m) = Inr (username m) \<and>
     channel m = channel j \<and> length (channel m) \<le> 100 \<and>
     (\<exists>cs. channel m = 0x23 # cs \<and> cs \<noteq> [] \<and> (\<forall>b \<in> set cs. channel_byte b)) \<and>
     0 \<le> priority m \<and> priority m \<le> 10 \<and>
     is_valid_utf8 (content m) \<and> set (content m) \<inter> {0x3C, 0x3E, 0x22, 0x27, 0x2F} = {} \<and>
     html_unescape (content m) = content j \<and>
     (\<forall>p \<in> set dangerous_patterns. \<not> str_contains (ascii p) (to_lowercase L (content j))) \<and>
     validate_business_rules v m = validate_business_rules v (m\<lparr>content := content j\<rparr>)"
proof -
  obtain j where j: "from_json L raw = Inr j" "sanitize_username L (username j) = Inr (username m)"
      "sanitize_channel L (channel j) = Inr (channel m)" "0 \<le> priority j" "priority j \<le> 10"
      "check_injection_patterns L (content j) = Inr ()" "priority m = priority j" "content m = html_escape (content j)"
    using process_message_Inr [OF assms(1)] by metis
  have valid: "is_valid_utf8 (username j)" "is_valid_utf8 (content j)" using assms(3) [OF j(1)] by simp_all
  note user = sanitize_username_Inr [OF valid(1) j(2)]
  note ch = sanitize_channel_Inr [OF j(3)]
  have "\<forall>c \<in> set (chars (username m)). name_char L c" unfolding user(5) by simp
  moreover have "\<forall>p \<in> set dangerous_patterns. \<not> str_contains (ascii p) (to_lowercase L (content j))"
    using j(6) by (auto simp: check_injection_patterns_def Let_def split: if_splits)
  moreover have "validate_business_rules v m = validate_business_rules v (m\<lparr>content := content j\<rparr>)"
    using business_rules_escaped [where v = v and m = m and s = "content j"] by (simp flip: j(8))
  ultimately show ?thesis
    using j(1,4,5,7) user(2,3,6) ch(1,2) assms(2) [OF ch(3)] html_escape_bytes [of "content j"]
      html_escape_valid [OF valid(2)] html_unescape_escape [of "content j"]
    by (intro exI [of _ j] conjI) (simp_all only: j(8) length_greater_0_conv not_False_eq_True)
qed

definition sample_libs :: libs where
  "sample_libs = \<lparr>alphanumeric_table = (\<lambda>_. False), lowercase_table = (\<lambda>_ c _. c),
     is_match = (\<lambda>_ s. case s of [] \<Rightarrow> False | b # cs \<Rightarrow> b = 0x23 \<and> cs \<noteq> [] \<and> (\<forall>b \<in> set cs. channel_byte b)),
     from_json = (\<lambda>_. Inr \<lparr>username = ascii ''al@ice'', channel = ascii ''#dev'', content = ascii ''a<b'', priority = 5\<rparr>)\<rparr>"

lemma sample_libs_simps [simp]:
  "is_match sample_libs p s \<longleftrightarrow> (case s of [] \<Rightarrow> False | b # cs \<Rightarrow> b = 0x23 \<and> cs \<noteq> [] \<and> (\<forall>b \<in> set cs. channel_byte b))"
  "from_json sample_libs s =
     Inr \<lparr>username = ascii ''al@ice'', channel = ascii ''#dev'', content = ascii ''a<b'', priority = 5\<rparr>"
  by (simp_all add: sample_libs_def)

lemma sample_accepted:
  "process_message sample_libs [0x7B, 0x7D] =
     Inr \<lparr>username = ascii ''alice'', channel = ascii ''#dev'', content = ascii ''a&lt;b'', priority = 5\<rparr>"
proof -
  have u: "sanitize_username sample_libs (ascii ''al@ice'') = Inr (ascii ''alice'')"
    by (simp add: sanitize_username_def MAX_USERNAME_LENGTH_def ascii_def chars_ascii is_ascii_alphanumeric_def)
  have c: "sanitize_channel sample_libs (ascii ''#dev'') = Inr (ascii ''#dev'')"
    by (simp add: sanitize_channel_def MAX_CHANNEL_LENGTH_def ascii_def channel_byte_def is_ascii_alphanumeric_def)
  have "to_lowercase sample_libs (ascii ''a<b'') = ascii ''a<b''"
    by (simp add: to_lowercase_def ascii_def chars_ascii ascii_lower_def)
  then have i: "check_injection_patterns sample_libs (ascii ''a<b'') = Inr ()"
    by (simp add: check_injection_patterns_def dangerous_patterns_def ascii_def)
  have h: "html_escape (ascii ''a<b'') = ascii ''a&lt;b''"
    by (simp add: html_escape_def replace_Cons ascii_def)
  have l: "length (ascii ''a<b'') = 3" by (simp add: ascii_def)
  show ?thesis
    by (simp add: process_message_def try_ok_def validate_size_def MAX_MESSAGE_SIZE_def validate_utf8_def u c i h l
        validate_priority_def validate_content_def MAX_CONTENT_LENGTH_def)
qed

theorem accepted_messages_safe_witness:
  "html_unescape (ascii ''a&lt;b'') = ascii ''a<b'' \<and>
   sanitize_username sample_libs (ascii ''alice'') = Inr (ascii ''alice'')"
proof -
  have r: "\<exists>cs. s = 0x23 # cs \<and> cs \<noteq> [] \<and> (\<forall>b \<in> set cs. channel_byte b)"
    if "is_match sample_libs ''^#[a-zA-Z0-9_-]+$'' s" for s
    using that by (auto split: list.splits)
  have "is_valid_utf8 (ascii ''al@ice'')" "is_valid_utf8 (ascii ''a<b'')" by (simp_all add: ascii_def)
  then have json: "is_valid_utf8 (username j) \<and> is_valid_utf8 (content j)" if "from_json sample_libs s = Inr j" for s j
    using that by auto
  show ?thesis
    using accepted_messages_safe [OF sample_accepted r json] by auto
qed

end
