(* ===== verification/Ws_Migration.thy ===== *)
theory Ws_Migration
  imports Bus_Io "HOL-Library.Sublist"
begin

text \<open>
  \<^verbatim>\<open>WebSocket/src/30/websocket_connection_migration.rs\<close>: a client that keeps its session over
  reconnections. The network, the clocks, the URL parser and the JSON library are a parameter,
  operations on a state \<open>'w\<close>. The operations are modelled as they run by themselves; the health
  check, which the source runs as a task beside the connection, is an operation of its own. For
  the queue of messages, which tasks share behind locks, the section under each lock is a
  definition of its own and the interleavings of these sections are a step relation. The
  receiving loop, the health check and the reconnection loop are partial: \<open>None\<close> is a loop that
  never ends. Times are milliseconds; the \<open>u64\<close> sequence numbers are natural numbers.
\<close>

subsection \<open>Messages and client\<close>

datatype connection_state = Disconnected | Connecting | Connected | Reconnecting

record queued_message =
  sequence_num :: nat
  payload :: string
  timestamp :: nat

datatype control_message =
    RequestSession
  | ResumeSession string nat
  | SessionToken string
  | Ack nat
  | CtlPing
  | CtlPong

datatype ws_message = Text string | Close | Ping bytes | Pong bytes | OtherMessage

record ('w, 'e) net =
  url_parse :: "string \<Rightarrow> 'e + string"
  connect_async :: "string \<Rightarrow> 'w \<Rightarrow> ('w, 'e, unit) io"
  ws_send :: "ws_message \<Rightarrow> 'w \<Rightarrow> ('w, 'e, unit) io"
  ws_next :: "'w \<Rightarrow> 'w \<times> ('e + ws_message) option"
  now_ms :: "'w \<Rightarrow> nat"
  unix_secs :: "'w \<Rightarrow> 'e + nat"
  sleep_ms :: "nat \<Rightarrow> 'w \<Rightarrow> 'w"
  control_json :: "control_message \<Rightarrow> 'e + string"
  queued_json :: "queued_message \<Rightarrow> 'e + string"
  json_control :: "string \<Rightarrow> control_message option"

record client =
  url :: string
  state :: connection_state
  session_token :: "string option"
  next_sequence_num :: nat
  last_acked_sequence :: nat
  pending_messages :: "queued_message list"
  reconnect_attempts :: nat
  max_reconnect_attempts :: nat
  base_backoff_ms :: nat
  last_pong :: nat
  missed_pongs :: nat

type_synonym ('w, 'e, 'a) mig_io = "(client \<times> 'w, 'e, 'a) io"

definition client_new :: "string \<Rightarrow> nat \<Rightarrow> client" where
  "client_new u now = \<lparr>url = u, state = Disconnected, session_token = None, next_sequence_num = 0,
     last_acked_sequence = 0, pending_messages = [], reconnect_attempts = 0, max_reconnect_attempts = 10,
     base_backoff_ms = 1000, last_pong = now, missed_pongs = 0\<rparr>"

definition calculate_backoff :: "client \<Rightarrow> nat" where
  "calculate_backoff c = base_backoff_ms c * 2 ^ min (reconnect_attempts c) 6"

subsection \<open>Queueing and acknowledging\<close>

text \<open>
  Sending takes a number under the lock of the counter, releases it, and only then, under the
  lock of the queue, appends the message; a clock before the epoch ends it in between.
\<close>

definition take_sequence :: "client \<Rightarrow> client \<times> nat" where
  "take_sequence c =
     (let sequence = next_sequence_num c in (c\<lparr>next_sequence_num := sequence + 1\<rparr>, sequence))"

definition enqueue_message :: "('w, 'e) net \<Rightarrow> string \<Rightarrow> nat \<Rightarrow> client \<times> 'w \<Rightarrow> ('w, 'e, unit) mig_io" where
  "enqueue_message N text sequence s =
     (let (c, w) = s in
      case unix_secs N w of
        Inl e \<Rightarrow> ((c, w), Inl e)
      | Inr t \<Rightarrow>
          (let msg = \<lparr>sequence_num = sequence, payload = text, timestamp = t\<rparr> in
           ((c\<lparr>pending_messages := pending_messages c @ [msg]\<rparr>, w), Inr ())))"

definition send_message :: "('w, 'e) net \<Rightarrow> string \<Rightarrow> client \<times> 'w \<Rightarrow> ('w, 'e, unit) mig_io" where
  "send_message N text s =
     (let (c, w) = s; (c, sequence) = take_sequence c in enqueue_message N text sequence (c, w))"

fun drop_acked :: "nat \<Rightarrow> queued_message list \<Rightarrow> queued_message list" where
  "drop_acked ack_seq [] = []"
| "drop_acked ack_seq (msg # rest) =
     (if sequence_num msg \<le> ack_seq then drop_acked ack_seq rest else msg # rest)"

definition cleanup_acked_messages :: "nat \<Rightarrow> client \<Rightarrow> client" where
  "cleanup_acked_messages ack_seq c = c\<lparr>pending_messages := drop_acked ack_seq (pending_messages c)\<rparr>"

text \<open>\<open>?\<close> on a result that does not touch the world.\<close>

definition pure_io :: "'s \<Rightarrow> 'e + 'a \<Rightarrow> ('s, 'e, 'a) io" where
  "pure_io s r = (s, r)"

definition send_on :: "('w, 'e) net \<Rightarrow> ws_message \<Rightarrow> client \<times> 'w \<Rightarrow> ('w, 'e, unit) mig_io" where
  "send_on N msg s = (let (c, w) = s; (w, r) = ws_send N msg w in ((c, w), r))"

definition handle_message :: "('w, 'e) net \<Rightarrow> string \<Rightarrow> client \<times> 'w \<Rightarrow> ('w, 'e, unit) mig_io" where
  "handle_message N text s =
     (let (c, w) = s in
      case json_control N text of
        Some (SessionToken token) \<Rightarrow> ((c\<lparr>session_token := Some token\<rparr>, w), Inr ())
      | Some (Ack sequence) \<Rightarrow>
          ((cleanup_acked_messages sequence (c\<lparr>last_acked_sequence := sequence\<rparr>), w), Inr ())
      | Some CtlPong \<Rightarrow> ((c\<lparr>last_pong := now_ms N w, missed_pongs := 0\<rparr>, w), Inr ())
      | Some CtlPing \<Rightarrow>
          try_io (pure_io s (control_json N CtlPong)) (\<lambda>s pong. send_on N (Text pong) s)
      | _ \<Rightarrow> (s, Inr ()))"

fun flush_loop ::
  "('w, 'e) net \<Rightarrow> queued_message list \<Rightarrow> 'w \<Rightarrow> 'w \<times> queued_message list \<times> ('e + unit)" where
  "flush_loop N [] w = (w, [], Inr ())"
| "flush_loop N (msg # rest) w = (case queued_json N msg of
     Inl e \<Rightarrow> (w, rest, Inl e)
   | Inr json \<Rightarrow> (case ws_send N (Text json) w of
       (w, Inl e) \<Rightarrow> (w, msg # rest, Inr ())
     | (w, Inr _) \<Rightarrow> flush_loop N rest w))"

definition flush_pending_messages :: "('w, 'e) net \<Rightarrow> client \<times> 'w \<Rightarrow> ('w, 'e, unit) mig_io" where
  "flush_pending_messages N s =
     (let (c, w) = s; (w, rest, r) = flush_loop N (pending_messages c) w
      in ((c\<lparr>pending_messages := rest\<rparr>, w), r))"

subsection \<open>Connections\<close>

definition session_request :: "client \<Rightarrow> control_message" where
  "session_request c = (case session_token c of
     None \<Rightarrow> RequestSession
   | Some token \<Rightarrow> ResumeSession token (last_acked_sequence c))"

partial_function (option) message_loop :: "('w, 'e) net \<Rightarrow> client \<times> 'w \<Rightarrow> ('w, 'e, unit) mig_io option" where
  "message_loop N s =
     (let (c, w) = s; (w, message) = ws_next N w in
      case message of
        None \<Rightarrow> Some ((c, w), Inr ())
      | Some (Inl e) \<Rightarrow> Some ((c, w), Inr ())
      | Some (Inr Close) \<Rightarrow> Some ((c, w), Inr ())
      | Some (Inr (Text text)) \<Rightarrow> (case handle_message N text (c, w) of
            (s, Inl e) \<Rightarrow> Some (s, Inl e)
          | (s, Inr _) \<Rightarrow> message_loop N s)
      | Some (Inr (Ping data)) \<Rightarrow> (case send_on N (Pong data) (c, w) of
            (s, Inl e) \<Rightarrow> Some (s, Inl e)
          | (s, Inr _) \<Rightarrow> message_loop N s)
      | Some (Inr _) \<Rightarrow> message_loop N (c, w))"

definition handle_connection :: "('w, 'e) net \<Rightarrow> client \<times> 'w \<Rightarrow> ('w, 'e, unit) mig_io option" where
  "handle_connection N s =
     try_run (Some (pure_io s (control_json N (session_request (fst s))))) (\<lambda>s json.
     try_run (Some (send_on N (Text json) s)) (\<lambda>s _.
     try_run (Some (if session_token (fst s) \<noteq> None then flush_pending_messages N s else (s, Inr ()))) (\<lambda>s _.
     try_run (message_loop N s) (\<lambda>(c, w) _.
       Some ((c\<lparr>state := Reconnecting\<rparr>, w), Inr ())))))"

definition on_world :: "client \<Rightarrow> ('w, 'e, 'a) io \<Rightarrow> ('w, 'e, 'a) mig_io" where
  "on_world c r = ((c, fst r), snd r)"

definition connect :: "('w, 'e) net \<Rightarrow> client \<times> 'w \<Rightarrow> ('w, 'e, unit) mig_io option" where
  "connect N s =
     (let (c, w) = s; c = c\<lparr>state := Connecting\<rparr> in
      try_run (Some (pure_io (c, w) (url_parse N (url c)))) (\<lambda>(c, w) u.
      try_run (Some (on_world c (connect_async N u w))) (\<lambda>(c, w) _.
        handle_connection N
          (c\<lparr>state := Connected, reconnect_attempts := 0, last_pong := now_ms N w, missed_pongs := 0\<rparr>, w))))"

text \<open>\<open>interval.tick()\<close> returns at once the first time, then every ten seconds.\<close>

partial_function (option) health_check_loop ::
  "('w, 'e) net \<Rightarrow> bool \<Rightarrow> client \<times> 'w \<Rightarrow> (client \<times> 'w) option" where
  "health_check_loop N first s =
     (let (c, w) = s; w = (if first then w else sleep_ms N 10000 w) in
      if now_ms N w - last_pong c > 30000 then
        (let c = c\<lparr>missed_pongs := missed_pongs c + 1\<rparr> in
         if missed_pongs c \<ge> 3 then Some (c\<lparr>state := Reconnecting\<rparr>, w)
         else health_check_loop N False (c, w))
      else health_check_loop N False (c, w))"

partial_function (option) reconnect_loop :: "('w, 'e) net \<Rightarrow> client \<times> 'w \<Rightarrow> (client \<times> 'w) option" where
  "reconnect_loop N s =
     (let (c, w) = s in
      if state c = Reconnecting \<or> state c = Disconnected then
        (if reconnect_attempts c \<ge> max_reconnect_attempts c then Some (c\<lparr>state := Disconnected\<rparr>, w)
         else
           (let w = sleep_ms N (calculate_backoff c) w;
                c = c\<lparr>reconnect_attempts := reconnect_attempts c + 1\<rparr> in
            case connect N (c, w) of
              None \<Rightarrow> None
            | Some (s, _) \<Rightarrow> reconnect_loop N s))
      else if state c = Connected then Some (c, w)
      else reconnect_loop N (c, sleep_ms N 1000 w))"

subsection \<open>The queue of unacknowledged messages\<close>

text \<open>What every operation but \<open>send_message\<close> does to the queue: it drops messages at its front.\<close>

definition shrinks :: "client \<Rightarrow> client \<Rightarrow> bool" where
  "shrinks c c' \<longleftrightarrow> next_sequence_num c' = next_sequence_num c \<and>
     suffix (pending_messages c') (pending_messages c)"

lemma shrinks_refl [simp]: "shrinks c c"
  by (simp add: shrinks_def)

lemma shrinks_trans: "shrinks c c' \<Longrightarrow> shrinks c' c'' \<Longrightarrow> shrinks c c''"
  unfolding shrinks_def by (metis suffix_order.trans)

lemma shrinks_fields [simp]:
  "shrinks c (c'\<lparr>state := st\<rparr>) = shrinks c c'" "shrinks c (c'\<lparr>session_token := tk\<rparr>) = shrinks c c'"
  "shrinks c (c'\<lparr>last_acked_sequence := n\<rparr>) = shrinks c c'" "shrinks c (c'\<lparr>last_pong := n\<rparr>) = shrinks c c'"
  "shrinks c (c'\<lparr>missed_pongs := n\<rparr>) = shrinks c c'" "shrinks c (c'\<lparr>reconnect_attempts := n\<rparr>) = shrinks c c'"
  by (simp_all add: shrinks_def)

lemma suffix_drop_acked: "suffix (drop_acked n ms) ms"
  by (induction ms) (auto intro: suffix_ConsI)

lemma drop_acked_filter:
  "sorted_wrt (<) (map sequence_num ms) \<Longrightarrow> drop_acked n ms = filter (\<lambda>m. n < sequence_num m) ms"
proof (induction ms)
  case (Cons m ms)
  show ?case
  proof (cases "sequence_num m \<le> n")
    case False
    then have "filter (\<lambda>m. n < sequence_num m) ms = ms" using Cons.prems by (intro filter_True) auto
    then show ?thesis using False by simp
  qed (use Cons in auto)
qed simp

lemma cleanup_shrinks: "shrinks c (cleanup_acked_messages n c)"
  by (simp add: shrinks_def cleanup_acked_messages_def suffix_drop_acked)

lemma handle_message_keeps:
  "shrinks (fst s) (fst (fst (handle_message N text s))) \<and>
   state (fst (fst (handle_message N text s))) = state (fst s) \<and>
   reconnect_attempts (fst (fst (handle_message N text s))) = reconnect_attempts (fst s) \<and>
   max_reconnect_attempts (fst (fst (handle_message N text s))) = max_reconnect_attempts (fst s)"
proof -
  obtain c w where s: "s = (c, w)" by (cases s)
  have ping: "fst (fst (try_io (pure_io (c, w) r) (\<lambda>s x. send_on N (f x) s))) = c" for r and f :: "string \<Rightarrow> ws_message"
    by (cases r) (simp_all add: pure_io_def send_on_def case_prod_beta)
  show ?thesis
    unfolding s handle_message_def
    by (simp add: ping cleanup_acked_messages_def shrinks_def suffix_drop_acked split: option.split control_message.split)
qed

lemma flush_loop_suffix: "flush_loop N ms w = (w', rest, r) \<Longrightarrow> suffix rest ms"
proof (induction N ms w rule: flush_loop.induct)
  case (2 N msg rest w)
  then show ?case
    by (auto split: sum.splits prod.splits intro: suffix_ConsI)
qed simp

lemma flush_shrinks:
  "shrinks (fst s) (fst (fst (flush_pending_messages N s)))"
  by (cases s) (auto simp: flush_pending_messages_def shrinks_def split: prod.splits dest: flush_loop_suffix)

text \<open>What a connection keeps of the client, besides shrinking the queue.\<close>

definition conn_keeps :: "client \<Rightarrow> client \<Rightarrow> bool" where
  "conn_keeps c c' \<longleftrightarrow> shrinks c c' \<and> state c' = state c \<and> reconnect_attempts c' = reconnect_attempts c \<and>
     max_reconnect_attempts c' = max_reconnect_attempts c"

lemma conn_keeps_refl [simp]: "conn_keeps c c"
  by (simp add: conn_keeps_def)

lemma conn_keeps_trans: "conn_keeps c c' \<Longrightarrow> conn_keeps c' c'' \<Longrightarrow> conn_keeps c c''"
  unfolding conn_keeps_def by (auto intro: shrinks_trans)

lemma handle_message_conn: "conn_keeps (fst s) (fst (fst (handle_message N t s)))"
  using handle_message_keeps [of s N t] by (simp add: conn_keeps_def)

lemma send_on_client [simp]: "fst (fst (send_on N msg s)) = fst s"
  by (cases s) (simp add: send_on_def case_prod_beta)

lemma message_loop_keeps:
  "message_loop N s = Some y \<Longrightarrow> conn_keeps (fst s) (fst (fst y))"
proof (induction rule: message_loop.raw_induct [rotated, consumes 1, case_names loop])
  case (loop rec N s y)
  obtain c w where s: "s = (c, w)" by (cases s)
  obtain w1 msg where nxt: "ws_next N w = (w1, msg)" by (cases "ws_next N w")
  have hm: "conn_keeps c (fst (fst (handle_message N t (c, w1))))" for t
    using handle_message_conn [of "(c, w1)" N t] by simp
  have go: "conn_keeps c (fst (fst y))" if "rec N s1 = Some y" "conn_keeps c (fst s1)" for s1
    using that(2) loop(1) [OF that(1)] by (rule conn_keeps_trans)
  have cont: "conn_keeps c (fst (fst y))"
    if "(case x of (s, Inl e) \<Rightarrow> Some (s, Inl e) | (s, Inr u) \<Rightarrow> rec N s) = Some y"
      "conn_keeps c (fst (fst x))" for x
    using that go by (cases x; cases "snd x") auto
  show ?case
  proof (cases msg)
    case None
    then show ?thesis using loop(2) by (auto simp: s nxt)
  next
    case (Some m)
    show ?thesis
    proof (cases m)
      case (Inl e)
      then show ?thesis using loop(2) Some by (auto simp: s nxt)
    next
      case (Inr x)
      then show ?thesis
        using loop(2) Some hm cont [of "handle_message N t (c, w1)" for t]
          cont [of "send_on N (Pong d) (c, w1)" for d] go [of "(c, w1)"]
        by (cases x) (auto simp: s nxt)
    qed
  qed
qed

lemma flush_conn: "conn_keeps (fst s) (fst (fst (flush_pending_messages N s)))"
  using flush_shrinks [of s N]
  by (cases s) (auto simp: conn_keeps_def flush_pending_messages_def split: prod.splits)

text \<open>The messages before the receiving loop: the session request and the queued messages.\<close>

definition open_session :: "('w, 'e) net \<Rightarrow> client \<times> 'w \<Rightarrow> ('w, 'e, unit) mig_io" where
  "open_session N s =
     try_io (pure_io s (control_json N (session_request (fst s)))) (\<lambda>s json.
     try_io (send_on N (Text json) s) (\<lambda>s _.
       if session_token (fst s) \<noteq> None then flush_pending_messages N s else (s, Inr ())))"

lemma handle_connection_open:
  "handle_connection N s = (case open_session N s of
     (s, Inl e) \<Rightarrow> Some (s, Inl e)
   | (s, Inr _) \<Rightarrow> try_run (message_loop N s) (\<lambda>(c, w) _. Some ((c\<lparr>state := Reconnecting\<rparr>, w), Inr ())))"
  by (cases "control_json N (session_request (fst s))"; cases "send_on N (Text (projr (control_json N (session_request (fst s))))) s";
      cases "snd (send_on N (Text (projr (control_json N (session_request (fst s))))) s)")
     (auto simp: handle_connection_def open_session_def pure_io_def try_run_def split: prod.splits sum.splits)

lemma open_session_conn: "conn_keeps (fst s) (fst (fst (open_session N s)))"
proof (cases "control_json N (session_request (fst s))")
  case (Inl e)
  then show ?thesis by (simp add: open_session_def pure_io_def)
next
  case (Inr json)
  obtain s1 r1 where so: "send_on N (Text json) s = (s1, r1)" by (cases "send_on N (Text json) s")
  have "fst s1 = fst s" using send_on_client [of N "Text json" s] so by simp
  then show ?thesis using flush_conn [of s1 N] Inr so
    by (cases r1) (simp_all add: open_session_def pure_io_def)
qed

lemma handle_connection_keeps:
  assumes "handle_connection N s = Some (s', r)"
  shows "shrinks (fst s) (fst s') \<and> reconnect_attempts (fst s') = reconnect_attempts (fst s) \<and>
    max_reconnect_attempts (fst s') = max_reconnect_attempts (fst s) \<and>
    state (fst s') = (case r of Inl _ \<Rightarrow> state (fst s) | Inr _ \<Rightarrow> Reconnecting)"
proof -
  obtain s1 r1 where o: "open_session N s = (s1, r1)" by (cases "open_session N s")
  have k1: "conn_keeps (fst s) (fst s1)" using open_session_conn [of s N] o by simp
  show ?thesis
  proof (cases r1)
    case (Inl e)
    then show ?thesis using assms k1 by (auto simp: handle_connection_open o conn_keeps_def)
  next
    case (Inr u)
    then obtain s2 r2 where m: "message_loop N s1 = Some (s2, r2)"
      using assms by (cases "message_loop N s1") (auto simp: handle_connection_open o)
    have k2: "conn_keeps (fst s) (fst s2)"
      using message_loop_keeps [OF m] k1 by (auto intro: conn_keeps_trans)
    then show ?thesis using assms Inr m
      by (cases r2; cases s2) (auto simp: handle_connection_open o conn_keeps_def)
  qed
qed

text \<open>
  How an attempt to connect ends: before there is a connection, in state \<open>Connecting\<close>; with an
  error of the connection, in state \<open>Connected\<close>; or with the connection closed.
\<close>

lemma connect_outcome:
  assumes "connect N s = Some (s', r)"
  shows "shrinks (fst s) (fst s') \<and> max_reconnect_attempts (fst s') = max_reconnect_attempts (fst s) \<and>
    (case r of
       Inl _ \<Rightarrow> state (fst s') = Connecting \<or> state (fst s') = Connected
     | Inr _ \<Rightarrow> state (fst s') = Reconnecting \<and> reconnect_attempts (fst s') = 0)"
proof -
  obtain c w where s: "s = (c, w)" by (cases s)
  let ?c = "c\<lparr>state := Connecting\<rparr>"
  show ?thesis
  proof (cases "url_parse N (url c)")
    case (Inl e)
    then show ?thesis using assms by (auto simp: s connect_def pure_io_def)
  next
    case (Inr u)
    obtain w1 r1 where ca: "connect_async N u w = (w1, r1)" by (cases "connect_async N u w")
    let ?c1 = "?c\<lparr>state := Connected, reconnect_attempts := 0, last_pong := now_ms N w1, missed_pongs := 0\<rparr>"
    show ?thesis
    proof (cases r1)
      case (Inl e)
      then show ?thesis using assms Inr ca by (auto simp: s connect_def pure_io_def on_world_def)
    next
      case (Inr x)
      then have h: "handle_connection N (?c1, w1) = Some (s', r)"
        using assms \<open>url_parse N (url c) = Inr u\<close> ca by (simp add: s connect_def pure_io_def on_world_def)
      from handle_connection_keeps [OF h] show ?thesis
        by (cases r) (auto simp: s shrinks_def)
    qed
  qed
qed

subsection \<open>Interleaved senders\<close>

text \<open>
  The client shared by tasks. \<open>holds\<close> gives the number a task has taken and not yet used. A step
  is one critical section: a sending task of \<open>T\<close> takes a number, or appends its message; an
  acknowledgement cleans the queue; a connection flushes it, keeping its lock over the loop;
  anything else happens to the other fields, which are behind locks of their own.
\<close>

inductive reachable :: "('w, 'e) net \<Rightarrow> nat set \<Rightarrow> client \<Rightarrow> (nat \<rightharpoonup> nat) \<Rightarrow> bool" for N T where
  new: "reachable N T (client_new u t) Map.empty"
| taken: "reachable N T c holds \<Longrightarrow> i \<in> T \<Longrightarrow> holds i = None \<Longrightarrow> take_sequence c = (c', n) \<Longrightarrow>
    reachable N T c' (holds(i \<mapsto> n))"
| enqueued: "reachable N T c holds \<Longrightarrow> holds i = Some n \<Longrightarrow> enqueue_message N t n (c, w) = ((c', w'), r) \<Longrightarrow>
    reachable N T c' (holds(i := None))"
| cleaned: "reachable N T c holds \<Longrightarrow> reachable N T (cleanup_acked_messages n c) holds"
| flushed: "reachable N T c holds \<Longrightarrow> flush_pending_messages N (c, w) = ((c', w'), r) \<Longrightarrow> reachable N T c' holds"
| elsewhere: "reachable N T c holds \<Longrightarrow> next_sequence_num c' = next_sequence_num c \<Longrightarrow>
    pending_messages c' = pending_messages c \<Longrightarrow> reachable N T c' holds"

definition numbers :: "client \<Rightarrow> nat list" where
  "numbers c = map sequence_num (pending_messages c)"

definition queue_inv :: "client \<Rightarrow> (nat \<rightharpoonup> nat) \<Rightarrow> bool" where
  "queue_inv c holds \<longleftrightarrow> distinct (numbers c) \<and> set (numbers c) \<inter> ran holds = {} \<and>
     (\<forall>n \<in> set (numbers c) \<union> ran holds. n < next_sequence_num c) \<and> inj_on holds (dom holds)"

text \<open>With one sender, the number it holds is the largest.\<close>

definition sender_inv :: "nat \<Rightarrow> client \<Rightarrow> (nat \<rightharpoonup> nat) \<Rightarrow> bool" where
  "sender_inv i c holds \<longleftrightarrow> dom holds \<subseteq> {i} \<and>
     sorted_wrt (<) (numbers c @ (case holds i of None \<Rightarrow> [] | Some n \<Rightarrow> [n]) @ [next_sequence_num c])"

lemma enqueue_outcome:
  assumes "enqueue_message N t n (c, w) = ((c', w'), r)"
  shows "next_sequence_num c' = next_sequence_num c \<and> (numbers c' = numbers c \<or> numbers c' = numbers c @ [n])"
  using assms by (auto simp: enqueue_message_def numbers_def split: sum.splits)

lemma numbers_suffix:
  assumes "shrinks c c'"
  obtains ns where "numbers c = ns @ numbers c'" "next_sequence_num c' = next_sequence_num c"
  using assms by (auto simp: shrinks_def suffix_def numbers_def)

lemma queue_inv_shrinks: "queue_inv c holds \<Longrightarrow> shrinks c c' \<Longrightarrow> queue_inv c' holds"
  by (erule numbers_suffix) (auto simp: queue_inv_def)

lemma sender_inv_shrinks: "sender_inv i c holds \<Longrightarrow> shrinks c c' \<Longrightarrow> sender_inv i c' holds"
  by (erule numbers_suffix) (auto simp: sender_inv_def sorted_wrt_append)

lemma queue_inv_taken:
  assumes "queue_inv c holds" "holds i = None" "take_sequence c = (c', n)"
  shows "queue_inv c' (holds(i \<mapsto> n))"
proof -
  have n: "n = next_sequence_num c" and c': "numbers c' = numbers c" "next_sequence_num c' = Suc n"
    using assms(3) by (auto simp: take_sequence_def numbers_def Let_def)
  have "inj_on (holds(i \<mapsto> n)) (dom (holds(i \<mapsto> n)))"
    using assms(1,2) n by (fastforce simp: queue_inv_def inj_on_def ran_def dom_def)
  then show ?thesis
    using assms(1,2) n by (auto simp: queue_inv_def c' ran_map_upd less_Suc_eq)
qed

lemma queue_inv_enqueued:
  assumes "queue_inv c holds" "holds i = Some n" "enqueue_message N t n (c, w) = ((c', w'), r)"
  shows "queue_inv c' (holds(i := None))"
proof -
  have sub: "ran (holds(i := None)) \<subseteq> ran holds" by (auto simp: ran_def split: if_splits)
  have n: "n \<in> ran holds" using assms(2) by (auto simp: ran_def)
  have out: "n \<notin> ran (holds(i := None))"
    using assms(1,2) by (auto simp: queue_inv_def ran_def inj_on_def dom_def split: if_splits)
  have "inj_on (holds(i := None)) (dom (holds(i := None)))"
    using assms(1) by (auto simp: queue_inv_def inj_on_def dom_def split: if_splits)
  then show ?thesis
    using enqueue_outcome [OF assms(3)] assms(1) sub n out by (auto simp: queue_inv_def)
qed

lemma reachable_queue_inv: "reachable N T c holds \<Longrightarrow> queue_inv c holds"
proof (induction rule: reachable.induct)
  case (new u t)
  then show ?case by (simp add: queue_inv_def numbers_def client_new_def)
next
  case (elsewhere c holds c')
  then show ?case by (simp add: queue_inv_def numbers_def)
next
  case (cleaned c holds n)
  then show ?case using queue_inv_shrinks cleanup_shrinks by blast
next
  case (flushed c holds w c' w' r)
  then show ?case using queue_inv_shrinks flush_shrinks [of "(c, w)" N] by auto
qed (blast intro: queue_inv_taken queue_inv_enqueued)+

lemma reachable_sender_inv: "reachable N T c holds \<Longrightarrow> T \<subseteq> {i} \<Longrightarrow> sender_inv i c holds"
proof (induction rule: reachable.induct)
  case (new u t)
  then show ?case by (simp add: sender_inv_def numbers_def client_new_def)
next
  case (taken c holds j c' n)
  then have "j = i" "numbers c' = numbers c" "n = next_sequence_num c" "next_sequence_num c' = Suc n"
    by (auto simp: take_sequence_def numbers_def Let_def)
  then show ?case using taken by (fastforce simp: sender_inv_def sorted_wrt_append dom_def split: if_splits)
next
  case (enqueued c holds j n t w c' w' r)
  then have "j = i" by (auto simp: sender_inv_def)
  then show ?case using enqueued enqueue_outcome [OF enqueued.hyps(3)]
    by (auto simp: sender_inv_def sorted_wrt_append split: if_splits) blast+
next
  case (cleaned c holds n)
  then show ?case using sender_inv_shrinks cleanup_shrinks by blast
next
  case (flushed c holds w c' w' r)
  then show ?case using sender_inv_shrinks flush_shrinks [of "(c, w)" N] by auto
next
  case (elsewhere c holds c')
  then show ?case by (simp add: sender_inv_def numbers_def)
qed

text \<open>The front that an acknowledgement removes.\<close>

lemma drop_acked_front:
  "\<exists>gone. ms = gone @ drop_acked n ms \<and> (\<forall>m \<in> set gone. sequence_num m \<le> n) \<and>
     (drop_acked n ms \<noteq> [] \<longrightarrow> n < sequence_num (hd (drop_acked n ms)))"
proof (induction ms)
  case (Cons m ms)
  then obtain gone where "ms = gone @ drop_acked n ms" "\<forall>m \<in> set gone. sequence_num m \<le> n"
    "drop_acked n ms \<noteq> [] \<longrightarrow> n < sequence_num (hd (drop_acked n ms))" by blast
  then show ?case by (intro exI [of _ "if sequence_num m \<le> n then m # gone else []"]) auto
qed simp

text \<open>Two senders can pass each other between taking a number and appending.\<close>

lemma overtaking:
  assumes "unix_secs N w = Inr ts"
  shows "\<exists>c. reachable N {0, 1} c Map.empty \<and> numbers c = [1, 0] \<and>
    pending_messages (cleanup_acked_messages 0 c) = pending_messages c"
proof -
  let ?c0 = "client_new u 0"
  let ?c1 = "?c0\<lparr>next_sequence_num := 1\<rparr>" and ?c2 = "?c0\<lparr>next_sequence_num := 2\<rparr>"
  let ?m = "\<lambda>n. \<lparr>sequence_num = n, payload = x, timestamp = ts\<rparr>"
  let ?c3 = "?c2\<lparr>pending_messages := [?m 1]\<rparr>" and ?c4 = "?c2\<lparr>pending_messages := [?m 1, ?m 0]\<rparr>"
  have "reachable N {0, 1} ?c1 (Map.empty(0 \<mapsto> 0))"
    using reachable.taken [OF reachable.new, of 0 "{0, 1}" u 0 ?c1 0]
    by (simp add: take_sequence_def client_new_def)
  then have "reachable N {0, 1} ?c2 (Map.empty(0 \<mapsto> 0, 1 \<mapsto> 1))"
    using reachable.taken [of N "{0, 1}" ?c1 "Map.empty(0 \<mapsto> 0)" 1 ?c2 1]
    by (simp add: take_sequence_def client_new_def eval_nat_numeral)
  then have "reachable N {0, 1} ?c3 (Map.empty(0 \<mapsto> 0, 1 := None))"
    using reachable.enqueued [of N "{0, 1}" ?c2 "Map.empty(0 \<mapsto> 0, 1 \<mapsto> 1)" 1 1 x w ?c3 w "Inr ()"] assms
    by (simp add: enqueue_message_def client_new_def)
  then have "reachable N {0, 1} ?c4 (Map.empty(0 := None, 1 := None))"
    using reachable.enqueued [of N "{0, 1}" ?c3 "Map.empty(0 \<mapsto> 0, 1 := None)" 0 0 x w ?c4 w "Inr ()"] assms
    by (simp add: enqueue_message_def client_new_def fun_upd_twist)
  then show ?thesis
    by (intro exI [of _ ?c4]) (simp add: numbers_def cleanup_acked_messages_def fun_upd_idem)
qed

text \<open>
  C25. In every interleaving of the sending tasks with the acknowledgements and flushes, no
  sequence number is queued twice, queued and still held by a sender, or held by two senders,
  and all are below the next one to be given out. An acknowledgement removes from the front of
  the queue only messages it covers, and stops at the first it does not cover. With one sending
  task the queue is always in order, so exactly the covered messages are removed, and the rest
  stay in order. With two senders that is not so, since the number is taken under one lock and
  the message appended under another: the queue can hold message 1 before message 0, and then
  the acknowledgement of 0 removes nothing.
\<close>

theorem acknowledgement_exact:
  assumes "reachable N T c holds"
  shows "distinct (numbers c) \<and> set (numbers c) \<inter> ran holds = {} \<and> inj_on holds (dom holds) \<and>
    (\<forall>n \<in> set (numbers c) \<union> ran holds. n < next_sequence_num c) \<and>
    (\<forall>t n w. json_control N t = Some (Ack n) \<longrightarrow>
      (\<exists>c' gone. handle_message N t (c, w) = ((c', w), Inr ()) \<and> last_acked_sequence c' = n \<and>
        pending_messages c = gone @ pending_messages c' \<and> (\<forall>m \<in> set gone. sequence_num m \<le> n) \<and>
        (pending_messages c' \<noteq> [] \<longrightarrow> n < sequence_num (hd (pending_messages c'))) \<and>
        (\<forall>i. T \<subseteq> {i} \<longrightarrow> pending_messages c' = filter (\<lambda>m. n < sequence_num m) (pending_messages c)))) \<and>
    (\<forall>i. T \<subseteq> {i} \<longrightarrow> sorted_wrt (<) (numbers c)) \<and>
    (\<forall>w ts. unix_secs N w = Inr ts \<longrightarrow>
      (\<exists>c2. reachable N {0, 1} c2 Map.empty \<and> numbers c2 = [1, 0] \<and>
        pending_messages (cleanup_acked_messages 0 c2) = pending_messages c2))"
proof -
  have sorted: "sorted_wrt (<) (map sequence_num (pending_messages c))" if "T \<subseteq> {i}" for i
    using reachable_sender_inv [OF assms that] by (simp add: sender_inv_def sorted_wrt_append numbers_def)
  have ack: "\<exists>c' gone. handle_message N t (c, w) = ((c', w), Inr ()) \<and> last_acked_sequence c' = n \<and>
        pending_messages c = gone @ pending_messages c' \<and> (\<forall>m \<in> set gone. sequence_num m \<le> n) \<and>
        (pending_messages c' \<noteq> [] \<longrightarrow> n < sequence_num (hd (pending_messages c'))) \<and>
        (\<forall>i. T \<subseteq> {i} \<longrightarrow> pending_messages c' = filter (\<lambda>m. n < sequence_num m) (pending_messages c))"
    if "json_control N t = Some (Ack n)" for t n w
  proof -
    let ?c' = "cleanup_acked_messages n (c\<lparr>last_acked_sequence := n\<rparr>)"
    have "handle_message N t (c, w) = ((?c', w), Inr ())" using that by (simp add: handle_message_def)
    moreover have "pending_messages ?c' = drop_acked n (pending_messages c)" "last_acked_sequence ?c' = n"
      by (simp_all add: cleanup_acked_messages_def)
    ultimately show ?thesis
      using drop_acked_front [of "pending_messages c" n] drop_acked_filter [OF sorted] by metis
  qed
  show ?thesis
    using reachable_queue_inv [OF assms] ack sorted overtaking [of N]
    unfolding queue_inv_def by (auto simp: numbers_def)
qed

subsection \<open>Reconnecting\<close>

lemma reconnect_loop_result:
  "reconnect_loop N s = Some y \<Longrightarrow> state (fst s) \<noteq> Connecting \<and>
     (state (fst s) = Connected \<or> reconnect_attempts (fst s) < max_reconnect_attempts (fst s) \<longrightarrow>
      state (fst y) = Connected)"
proof (induction rule: reconnect_loop.raw_induct [rotated, consumes 1, case_names loop])
  case (loop rec N s y)
  obtain c w where s: "s = (c, w)" by (cases s)
  show ?case
  proof (cases "state c = Reconnecting \<or> state c = Disconnected")
    case False
    then show ?thesis using loop(1) [of N "(c, sleep_ms N 1000 w)" y] loop(2) by (cases "state c") (auto simp: s)
  next
    case True
    show ?thesis
    proof (cases "reconnect_attempts c \<ge> max_reconnect_attempts c")
      case True
      then show ?thesis using \<open>state c = Reconnecting \<or> state c = Disconnected\<close> by (auto simp: s)
    next
      case False
      let ?c = "c\<lparr>reconnect_attempts := reconnect_attempts c + 1\<rparr>"
      let ?w = "sleep_ms N (calculate_backoff c) w"
      obtain s1 r1 where con: "connect N (?c, ?w) = Some (s1, r1)" and rec: "rec N s1 = Some y"
        using loop(2) True False by (cases "connect N (?c, ?w)") (auto simp: s)
      from connect_outcome [OF con] loop(1) [OF rec] False True show ?thesis
        by (cases r1) (auto simp: s)
    qed
  qed
qed

definition attempt :: "('w, 'e) net \<Rightarrow> client \<Rightarrow> 'w \<Rightarrow> ('w, 'e, unit) mig_io option" where
  "attempt N c w =
     connect N (c\<lparr>reconnect_attempts := reconnect_attempts c + 1\<rparr>, sleep_ms N (calculate_backoff c) w)"

lemma reconnect_loop_stuck:
  assumes "state c = Connecting"
  shows "reconnect_loop N (c, w) = None"
  using reconnect_loop_result [of N "(c, w)"] assms by (cases "reconnect_loop N (c, w)") auto

text \<open>
  Reconnecting does not retry. While attempts are left, what the loop does is decided by its
  first attempt: if that fails before there is a connection, the loop never returns and never
  tries again, because the client stays in state \<open>Connecting\<close>; if it ends with an error of the
  connection, the loop returns at once and takes the dead connection for a healthy one; if the
  connection is closed, the loop starts anew with the count of attempts back at zero. So the limit
  on attempts is never reached: the loop never returns in state \<open>Disconnected\<close>.
\<close>

theorem reconnect_decided_by_first_attempt:
  assumes "state c \<in> {Reconnecting, Disconnected}" "reconnect_attempts c < max_reconnect_attempts c"
  shows "reconnect_loop N (c, w) = (case attempt N c w of
      None \<Rightarrow> None
    | Some ((c', w'), Inl e) \<Rightarrow> if state c' = Connecting then None else Some (c', w')
    | Some ((c', w'), Inr _) \<Rightarrow> reconnect_loop N (c', w')) \<and>
    (\<forall>c' w'. attempt N c w = Some ((c', w'), Inr ()) \<longrightarrow> state c' = Reconnecting \<and> reconnect_attempts c' = 0) \<and>
    (\<forall>c' w'. reconnect_loop N (c, w) = Some (c', w') \<longrightarrow> state c' = Connected)"
proof -
  have step: "reconnect_loop N (c, w) = (case attempt N c w of None \<Rightarrow> None | Some (s, _) \<Rightarrow> reconnect_loop N s)"
    using assms by (subst reconnect_loop.simps) (auto simp: attempt_def Let_def)
  have connected: "state c' = Connected \<Longrightarrow> reconnect_loop N (c', w') = Some (c', w')" for c' w'
    by (subst reconnect_loop.simps) simp
  have "(case attempt N c w of None \<Rightarrow> None | Some (s, _) \<Rightarrow> reconnect_loop N s) = (case attempt N c w of
      None \<Rightarrow> None
    | Some ((c', w'), Inl e) \<Rightarrow> if state c' = Connecting then None else Some (c', w')
    | Some ((c', w'), Inr _) \<Rightarrow> reconnect_loop N (c', w'))"
  proof (cases "attempt N c w")
    case (Some x)
    obtain c' w' r where x: "x = ((c', w'), r)" by (metis surj_pair)
    show ?thesis
      using connect_outcome [of N _ "(c', w')" r] Some x connected reconnect_loop_stuck [of c' N w']
      unfolding attempt_def by (cases r) fastforce+
  qed simp
  moreover have "\<forall>c' w'. attempt N c w = Some ((c', w'), Inr ()) \<longrightarrow> state c' = Reconnecting \<and> reconnect_attempts c' = 0"
    unfolding attempt_def by (auto dest: connect_outcome)
  moreover have "\<forall>c' w'. reconnect_loop N (c, w) = Some (c', w') \<longrightarrow> state c' = Connected"
    using reconnect_loop_result [of N "(c, w)"] assms(2) by fastforce
  ultimately show ?thesis using step by simp
qed

subsection \<open>A link\<close>

text \<open>
  The reference network: it accepts \<open>budget\<close> more messages and then fails, delivers the messages
  of \<open>incoming\<close> and ends, and refuses the connection when \<open>up\<close> is false. The JSON library is
  given by its functions on the two message types.
\<close>

record link =
  up :: bool
  budget :: nat
  outgoing :: "ws_message list"
  incoming :: "ws_message list"
  clock :: nat

definition link_net ::
  "(control_message \<Rightarrow> string) \<Rightarrow> (queued_message \<Rightarrow> string) \<Rightarrow> (string \<Rightarrow> control_message option) \<Rightarrow> (link, unit) net"
where
  "link_net cj qj jc = \<lparr>url_parse = Inr,
     connect_async = (\<lambda>_ w. (w, if up w then Inr () else Inl ())),
     ws_send = (\<lambda>m w. if budget w = 0 then (w, Inl ())
        else (w\<lparr>budget := budget w - 1, outgoing := outgoing w @ [m]\<rparr>, Inr ())),
     ws_next = (\<lambda>w. case incoming w of [] \<Rightarrow> (w, None) | m # ms \<Rightarrow> (w\<lparr>incoming := ms\<rparr>, Some (Inr m))),
     now_ms = clock, unix_secs = (\<lambda>w. Inr (clock w div 1000)), sleep_ms = (\<lambda>n w. w\<lparr>clock := clock w + n\<rparr>),
     control_json = (\<lambda>m. Inr (cj m)), queued_json = (\<lambda>m. Inr (qj m)), json_control = jc\<rparr>"

lemma flush_loop_link:
  "flush_loop (link_net cj qj jc) ms w =
     (w\<lparr>budget := budget w - length ms, outgoing := outgoing w @ map (Text \<circ> qj) (take (budget w) ms)\<rparr>,
      drop (budget w) ms, Inr ())"
proof (induction ms arbitrary: w)
  case (Cons m ms)
  show ?case
  proof (cases "budget w")
    case (Suc b)
    then show ?thesis using Cons.IH [of "w\<lparr>budget := b, outgoing := outgoing w @ [Text (qj m)]\<rparr>"]
      by (simp add: link_net_def)
  qed (simp add: link_net_def)
qed simp

lemma message_loop_closed:
  assumes "incoming w = Close # ms"
  shows "message_loop (link_net cj qj jc) (c, w) = Some ((c, w\<lparr>incoming := ms\<rparr>), Inr ())"
  using assms by (subst message_loop.simps) (simp add: link_net_def)

lemma resume_until_close:
  assumes "session_token c = Some tk" "incoming w = Close # ms" "length (pending_messages c) < budget w"
  shows "\<exists>w'. handle_connection (link_net cj qj jc) (c, w) =
      Some ((c\<lparr>pending_messages := [], state := Reconnecting\<rparr>, w'), Inr ()) \<and>
    outgoing w' = outgoing w @ Text (cj (ResumeSession tk (last_acked_sequence c))) #
      map (Text \<circ> qj) (pending_messages c)"
proof -
  let ?N = "link_net cj qj jc"
  let ?w = "w\<lparr>budget := budget w - 1, outgoing := outgoing w @ [Text (cj (ResumeSession tk (last_acked_sequence c)))]\<rparr>"
  have "open_session ?N (c, w) = flush_pending_messages ?N (c, ?w)"
    using assms by (simp add: open_session_def pure_io_def send_on_def session_request_def link_net_def)
  also have "\<dots> = ((c\<lparr>pending_messages := []\<rparr>, ?w\<lparr>budget := budget ?w - length (pending_messages c),
      outgoing := outgoing ?w @ map (Text \<circ> qj) (pending_messages c)\<rparr>), Inr ())"
    using assms(3) by (simp add: flush_pending_messages_def flush_loop_link)
  finally show ?thesis
    using assms(2) by (simp add: handle_connection_open message_loop_closed)
qed

text \<open>
  Messages that were never acknowledged are lost. When a session is resumed the queued
  messages are sent in order after the request, and forgotten at once: if the server closes the
  connection before it acknowledges anything, the next resumption names the same last acknowledged
  message and sends none of them again.
\<close>

theorem unacknowledged_messages_not_resent:
  assumes "session_token c = Some tk" "incoming w = [Close]" "length (pending_messages c) < budget w"
    "incoming w2 = [Close]" "0 < budget w2"
  shows "\<exists>c' w' c'' w''. handle_connection (link_net cj qj jc) (c, w) = Some ((c', w'), Inr ()) \<and>
    outgoing w' = outgoing w @ Text (cj (ResumeSession tk (last_acked_sequence c))) # map (Text \<circ> qj) (pending_messages c) \<and>
    handle_connection (link_net cj qj jc) (c', w2) = Some ((c'', w''), Inr ()) \<and>
    outgoing w'' = outgoing w2 @ [Text (cj (ResumeSession tk (last_acked_sequence c)))]"
proof -
  let ?c = "c\<lparr>pending_messages := [], state := Reconnecting\<rparr>"
  have "length (pending_messages ?c) < budget w2" "session_token ?c = Some tk" using assms by simp_all
  from resume_until_close [OF this(2) assms(4) this(1), of cj qj jc]
    resume_until_close [OF assms(1-3), of cj qj jc]
  show ?thesis by fastforce
qed

definition example_link :: link where
  "example_link = \<lparr>up = True, budget = 9, outgoing = [], incoming = [Close], clock = 0\<rparr>"

definition example_client :: client where
  "example_client = (client_new ''ws://x'' 0)\<lparr>session_token := Some ''t'', next_sequence_num := 1,
     pending_messages := [\<lparr>sequence_num = 0, payload = ''hi'', timestamp = 0\<rparr>]\<rparr>"

theorem unacknowledged_messages_not_resent_witness:
  "\<exists>c' w' w''. handle_connection (link_net (\<lambda>_. ''r'') payload (\<lambda>_. None)) (example_client, example_link) =
      Some ((c', w'), Inr ()) \<and> outgoing w' = [Text ''r'', Text ''hi''] \<and>
    (\<exists>c''. handle_connection (link_net (\<lambda>_. ''r'') payload (\<lambda>_. None)) (c', example_link) = Some ((c'', w''), Inr ())) \<and>
    outgoing w'' = [Text ''r'']"
  using unacknowledged_messages_not_resent [of example_client "''t''" example_link example_link "\<lambda>_. ''r''" payload "\<lambda>_. None"]
  by (fastforce simp: example_client_def example_link_def client_new_def)

definition two_queued :: client where
  "two_queued = (client_new ''ws://x'' 0)\<lparr>next_sequence_num := 2, pending_messages :=
     [\<lparr>sequence_num = 0, payload = ''a'', timestamp = 0\<rparr>, \<lparr>sequence_num = 1, payload = ''b'', timestamp = 0\<rparr>]\<rparr>"

lemma two_queued_reachable:
  "reachable (link_net cj qj jc) {0} two_queued Map.empty"
proof -
  let ?N = "link_net cj qj jc" and ?c0 = "client_new ''ws://x'' 0"
  let ?m = "\<lparr>sequence_num = 0, payload = ''a'', timestamp = 0\<rparr>"
  let ?c2 = "?c0\<lparr>next_sequence_num := 1, pending_messages := [?m]\<rparr>"
  have "reachable ?N {0} (?c0\<lparr>next_sequence_num := 1\<rparr>) (Map.empty(0 \<mapsto> 0))"
    using reachable.taken [OF reachable.new, of 0 "{0}" "''ws://x''" 0 "?c0\<lparr>next_sequence_num := 1\<rparr>" 0]
    by (simp add: take_sequence_def client_new_def)
  then have "reachable ?N {0} ?c2 Map.empty"
    using reachable.enqueued [of ?N "{0}" _ "Map.empty(0 \<mapsto> 0)" 0 0 "''a''" example_link ?c2 example_link "Inr ()"]
    by (fastforce simp: enqueue_message_def client_new_def link_net_def example_link_def)
  then have "reachable ?N {0} (?c2\<lparr>next_sequence_num := 2\<rparr>) (Map.empty(0 \<mapsto> 1))"
    using reachable.taken [of ?N "{0}" ?c2 Map.empty 0 "?c2\<lparr>next_sequence_num := 2\<rparr>" 1]
    by (simp add: take_sequence_def client_new_def eval_nat_numeral)
  then show ?thesis
    using reachable.enqueued [of ?N "{0}" _ "Map.empty(0 \<mapsto> 1)" 0 1 "''b''" example_link two_queued example_link "Inr ()"]
    by (fastforce simp: enqueue_message_def client_new_def link_net_def example_link_def two_queued_def)
qed

theorem acknowledgement_exact_witness:
  "\<exists>c'. handle_message (link_net (\<lambda>_. ''r'') payload (\<lambda>_. Some (Ack 0))) ''a'' (two_queued, example_link) =
      ((c', example_link), Inr ()) \<and> numbers two_queued = [0, 1] \<and> numbers c' = [1]"
proof -
  let ?N = "link_net (\<lambda>_. ''r'') payload (\<lambda>_. Some (Ack 0))"
  have "json_control ?N ''a'' = Some (Ack 0)" by (simp add: link_net_def)
  then obtain c' where c': "handle_message ?N ''a'' (two_queued, example_link) = ((c', example_link), Inr ())"
    "pending_messages c' = filter (\<lambda>m. 0 < sequence_num m) (pending_messages two_queued)"
    using acknowledgement_exact [OF two_queued_reachable, of "\<lambda>_. ''r''" payload "\<lambda>_. Some (Ack 0)"] by blast
  then show ?thesis by (intro exI [of _ c']) (simp add: numbers_def two_queued_def)
qed

text \<open>A refused connection: the reconnection loop never returns.\<close>

lemma attempt_refused:
  "\<not> up w \<Longrightarrow> \<exists>c'. attempt (link_net cj qj jc) c w = Some ((c', w\<lparr>clock := clock w + calculate_backoff c\<rparr>), Inl ()) \<and>
     state c' = Connecting"
  by (simp add: attempt_def connect_def link_net_def pure_io_def on_world_def)

theorem reconnect_decided_by_first_attempt_witness:
  "reconnect_loop (link_net (\<lambda>_. ''r'') payload (\<lambda>_. None)) (example_client, example_link\<lparr>up := False\<rparr>) = None"
proof -
  have "state example_client \<in> {Reconnecting, Disconnected}"
    "reconnect_attempts example_client < max_reconnect_attempts example_client"
    by (simp_all add: example_client_def client_new_def)
  from reconnect_decided_by_first_attempt [OF this, of "link_net (\<lambda>_. ''r'') payload (\<lambda>_. None)" "example_link\<lparr>up := False\<rparr>"]
    attempt_refused [of "example_link\<lparr>up := False\<rparr>" "\<lambda>_. ''r''" payload "\<lambda>_. None" example_client]
  show ?thesis by auto
qed

text \<open>The waiting time stays between one and sixty-four times the base.\<close>

lemma backoff_bounds:
  "base_backoff_ms c \<le> calculate_backoff c \<and> calculate_backoff c \<le> 64 * base_backoff_ms c"
proof -
  have "(2::nat) ^ min (reconnect_attempts c) 6 \<le> 2 ^ 6" by (rule power_increasing) simp_all
  then show ?thesis by (simp add: calculate_backoff_def)
qed

end
