(* ===== verification/Ws_Memory_Pool.thy ===== *)
theory Ws_Memory_Pool
  imports Uproto_Prelude
begin

text \<open>
  \<^verbatim>\<open>WebSocket/src/32/websocket_memory_pool.rs\<close>: the object pool with its handles, and the arena
  for temporary buffers. A handle is the index it holds; handles are neither \<open>Clone\<close> nor \<open>Copy\<close>,
  so a program holds a list of live ones, and dropping one releases it. The thread-safe pool is
  the same pool behind a mutex, so its operations are steps on one shared pool. The usize
  counters are naturals. \<open>None\<close> is a panic.
\<close>

subsection \<open>The object pool\<close>

record 'a object_pool =
  objects :: "'a list"
  available :: "nat list"
  in_use :: "bool list"
  max_size :: nat
  allocations :: nat
  deallocations :: nat

definition object_pool_new :: "'a \<Rightarrow> nat \<Rightarrow> nat \<Rightarrow> 'a object_pool" where
  "object_pool_new dflt initial_size limit =
     \<lparr>objects = replicate initial_size dflt, available = [0..<initial_size],
      in_use = replicate initial_size False, max_size = limit, allocations = 0, deallocations = 0\<rparr>"

definition acquire :: "'a \<Rightarrow> 'a object_pool \<Rightarrow> ('a object_pool \<times> nat option) run" where
  "acquire dflt p = (case available p of
     i # rest \<Rightarrow> do {
       used \<leftarrow> idx_set (in_use p) i True;
       Some (p\<lparr>available := rest, in_use := used, allocations := allocations p + 1\<rparr>, Some i)
     }
   | [] \<Rightarrow>
       if length (objects p) < max_size p
       then Some (p\<lparr>objects := objects p @ [dflt], in_use := in_use p @ [True],
                    allocations := allocations p + 1\<rparr>, Some (length (objects p)))
       else Some (p, None))"

definition release :: "nat \<Rightarrow> 'a object_pool \<Rightarrow> 'a object_pool" where
  "release i p =
     (if i < length (in_use p) \<and> in_use p ! i
      then p\<lparr>in_use := (in_use p)[i := False], available := available p @ [i],
             deallocations := deallocations p + 1\<rparr>
      else p)"

text \<open>\<open>get_mut\<close> with what the caller does to the object it gets.\<close>

definition get_mut :: "nat \<Rightarrow> ('a \<Rightarrow> 'a) \<Rightarrow> 'a object_pool \<Rightarrow> ('a object_pool \<times> 'a option) run" where
  "get_mut i f p =
     (if i < length (objects p)
      then do {
        used \<leftarrow> idx (in_use p) i;
        Some (if used then (p\<lparr>objects := (objects p)[i := f (objects p ! i)]\<rparr>, Some (objects p ! i))
              else (p, None))
      }
      else Some (p, None))"

record pool_stats =
  total_objects :: nat
  stat_available :: nat
  stat_in_use :: nat
  stat_allocations :: nat
  stat_deallocations :: nat

definition pool_stats_of :: "'a object_pool \<Rightarrow> pool_stats" where
  "pool_stats_of p = \<lparr>total_objects = length (objects p), stat_available = length (available p),
     stat_in_use = length (filter id (in_use p)), stat_allocations = allocations p,
     stat_deallocations = deallocations p\<rparr>"

subsection \<open>Frames and the arena\<close>

datatype opcode = Continuation | Text | Binary | Close | Ping | Pong

definition opcode_u8 :: "opcode \<Rightarrow> u8" where
  "opcode_u8 op = (case op of Continuation \<Rightarrow> 0x0 | Text \<Rightarrow> 0x1 | Binary \<Rightarrow> 0x2 | Close \<Rightarrow> 0x8
     | Ping \<Rightarrow> 0x9 | Pong \<Rightarrow> 0xA)"

record ws_frame =
  payload :: bytes
  frame_opcode :: u8
  fin :: bool

definition ws_frame_default :: ws_frame where
  "ws_frame_default = \<lparr>payload = [], frame_opcode = 0, fin = False\<rparr>"

definition ws_frame_new :: "opcode \<Rightarrow> bool \<Rightarrow> ws_frame" where
  "ws_frame_new op f = \<lparr>payload = [], frame_opcode = opcode_u8 op, fin = f\<rparr>"

definition set_payload :: "bytes \<Rightarrow> ws_frame \<Rightarrow> ws_frame" where
  "set_payload data f = f\<lparr>payload := data\<rparr>"

definition frame_clear :: "ws_frame \<Rightarrow> ws_frame" where
  "frame_clear f = f\<lparr>payload := [], frame_opcode := opcode_u8 Text, fin := True\<rparr>"

record arena =
  blocks :: "bytes list"
  current_block :: nat
  current_offset :: nat
  block_size :: nat

definition arena_new :: "nat \<Rightarrow> arena" where
  "arena_new n = \<lparr>blocks = [replicate n 0], current_block = 0, current_offset = 0, block_size = n\<rparr>"

text \<open>An allocation is the place it names: a block and the half-open range inside it.\<close>

definition allocate :: "nat \<Rightarrow> arena \<Rightarrow> (arena \<times> nat \<times> nat \<times> nat) run" where
  "allocate n a = do {
     top \<leftarrow> uadd (current_offset a) n;
     let a = (if top > block_size a
              then a\<lparr>blocks := blocks a @ [replicate (block_size a) 0],
                     current_block := current_block a + 1, current_offset := 0\<rparr>
              else a);
     let start = current_offset a;
     top \<leftarrow> uadd start n;
     let a = a\<lparr>current_offset := top\<rparr>;
     block \<leftarrow> idx (blocks a) (current_block a);
     _ \<leftarrow> sub_slice block start top;
     Some (a, current_block a, start, top)
   }"

definition arena_reset :: "arena \<Rightarrow> arena" where
  "arena_reset a = a\<lparr>current_block := 0, current_offset := 0\<rparr>"

definition total_allocated :: "arena \<Rightarrow> nat" where
  "total_allocated a = length (blocks a) * block_size a"

record ws_connection =
  conn_id :: u64
  conn_arena :: arena

definition ws_connection_new :: "u64 \<Rightarrow> ws_connection" where
  "ws_connection_new i = \<lparr>conn_id = i, conn_arena = arena_new (64 * 1024)\<rparr>"

definition allocate_temp :: "nat \<Rightarrow> ws_connection \<Rightarrow> (ws_connection \<times> nat \<times> nat \<times> nat) run" where
  "allocate_temp n c = do {
     (a, place) \<leftarrow> allocate n (conn_arena c);
     Some (c\<lparr>conn_arena := a\<rparr>, place)
   }"

definition reset_temp :: "ws_connection \<Rightarrow> ws_connection" where
  "reset_temp c = c\<lparr>conn_arena := arena_reset (conn_arena c)\<rparr>"

subsection \<open>Handles are exclusive\<close>

text \<open>
  The pool with the handles its users hold: a handle comes from \<open>acquire\<close>, may be used to change
  its object, and goes away when it is dropped or released.
\<close>

inductive pool_step :: "'a \<Rightarrow> 'a object_pool \<times> nat list \<Rightarrow> 'a object_pool \<times> nat list \<Rightarrow> bool"
  for dflt :: 'a where
  step_acquire: "acquire dflt p = Some (p', Some i) \<Longrightarrow> pool_step dflt (p, hs) (p', i # hs)"
| step_exhausted: "acquire dflt p = Some (p', None) \<Longrightarrow> pool_step dflt (p, hs) (p', hs)"
| step_drop: "i \<in> set hs \<Longrightarrow> pool_step dflt (p, hs) (release i p, remove1 i hs)"
| step_use: "i \<in> set hs \<Longrightarrow> get_mut i f p = Some (p', r) \<Longrightarrow> pool_step dflt (p, hs) (p', hs)"

inductive_cases pool_stepE: "pool_step dflt s t"

definition pool_inv :: "nat \<Rightarrow> 'a object_pool \<times> nat list \<Rightarrow> bool" where
  "pool_inv n s \<longleftrightarrow> (case s of (p, hs) \<Rightarrow>
     length (in_use p) = length (objects p) \<and> n \<le> length (objects p) \<and>
     length (objects p) \<le> max n (max_size p) \<and>
     distinct hs \<and> distinct (available p) \<and> set hs \<inter> set (available p) = {} \<and>
     set hs \<union> set (available p) = {..<length (objects p)} \<and>
     (\<forall>i < length (objects p). in_use p ! i = (i \<in> set hs)) \<and>
     allocations p = deallocations p + length hs)"

lemma pool_inv_new: "pool_inv n (object_pool_new d n m, [])"
  by (auto simp: pool_inv_def object_pool_new_def)

lemma acquire_inv:
  assumes "pool_inv n (p, hs)" "acquire d p = Some (p', r)"
  shows "case r of Some i \<Rightarrow> pool_inv n (p', i # hs) | None \<Rightarrow> p' = p"
proof (cases "available p")
  case Nil
  then show ?thesis using assms
    by (auto simp: acquire_def pool_inv_def nth_append less_Suc_eq split: if_splits)
next
  case (Cons i rest)
  then have "i < length (in_use p)" using assms(1) by (auto simp: pool_inv_def)
  then show ?thesis using assms Cons
    by (auto simp: acquire_def pool_inv_def idx_set_def nth_list_update split: bind_splits if_splits)
qed

lemma release_inv:
  assumes "pool_inv n (p, hs)" "i \<in> set hs"
  shows "pool_inv n (release i p, remove1 i hs)"
proof -
  have "i < length (in_use p)" "in_use p ! i" using assms by (auto simp: pool_inv_def)
  moreover have "0 < length hs" using assms(2) by (auto simp: length_pos_if_in_set)
  ultimately show ?thesis using assms
    by (auto simp: release_def pool_inv_def nth_list_update length_remove1)
qed

lemma get_mut_inv:
  "pool_inv n (p, hs) \<Longrightarrow> get_mut i f p = Some (p', r) \<Longrightarrow> pool_inv n (p', hs)"
  by (auto simp: get_mut_def pool_inv_def split: if_splits bind_splits)

lemma pool_reachable_inv:
  assumes "(pool_step d)\<^sup>*\<^sup>* (object_pool_new d n m, []) s"
  shows "pool_inv n s \<and> max_size (fst s) = m"
  using assms
proof (induction rule: rtranclp_induct)
  case base
  then show ?case by (simp add: pool_inv_new) (simp add: object_pool_new_def)
next
  case (step s t)
  from step.hyps(2) step.IH show ?case
  proof cases
    case (step_acquire p p' i hs)
    then show ?thesis using step.IH acquire_inv [of n p hs d p' "Some i"]
      by (auto simp: acquire_def split: list.splits if_splits bind_splits)
  next
    case (step_exhausted p p' hs)
    then show ?thesis using step.IH acquire_inv [of n p hs d p' None] by auto
  next
    case (step_drop i hs p)
    then show ?thesis using step.IH release_inv [of n p hs i] by (auto simp: release_def)
  next
    case (step_use i hs f p p' r)
    then show ?thesis using step.IH get_mut_inv [of n p hs i f p' r]
      by (auto simp: get_mut_def split: if_splits bind_splits)
  qed
qed

lemma pool_counts:
  assumes "pool_inv n (p, hs)"
  shows "length hs + length (available p) = length (objects p) \<and> length (filter id (in_use p)) = length hs"
proof -
  have "card (set hs \<union> set (available p)) = length hs + length (available p)"
    using assms by (subst card_Un_disjoint) (auto simp: pool_inv_def distinct_card)
  moreover have "set hs \<union> set (available p) = {..<length (objects p)}"
    using assms by (simp add: pool_inv_def)
  moreover have "{i. i < length (in_use p) \<and> in_use p ! i} = set hs"
    using assms by (auto simp: pool_inv_def)
  then have "length (filter id (in_use p)) = length hs"
    using assms by (simp add: length_filter_conv_card pool_inv_def distinct_card)
  ultimately show ?thesis by simp
qed

text \<open>
  C20. Handles are exclusive. In every state a pool can reach, through any interleaving of
  acquiring, using and dropping handles: no two live handles name the same object, every live
  handle reaches its object, the statistics add up, and \<open>acquire\<close> never panics, hands out an
  index no live handle has, and is refused exactly when the number of live handles has reached
  the larger of the initial and the maximal size.
\<close>

theorem pool_handles_exclusive:
  assumes "(pool_step d)\<^sup>*\<^sup>* (object_pool_new d n m, []) (p, hs)"
  shows "distinct hs \<and>
    (\<forall>i \<in> set hs. \<forall>f. get_mut i f p \<noteq> None \<and> snd (the (get_mut i f p)) = Some (objects p ! i)) \<and>
    pool_stats_of p = \<lparr>total_objects = length (objects p), stat_available = length (objects p) - length hs,
      stat_in_use = length hs, stat_allocations = deallocations p + length hs,
      stat_deallocations = deallocations p\<rparr> \<and>
    (\<exists>p' r. acquire d p = Some (p', r) \<and> (case r of None \<Rightarrow> length hs = max n m
      | Some i \<Rightarrow> i \<notin> set hs \<and> length hs < max n m))"
proof -
  have inv: "pool_inv n (p, hs)" and m: "max_size p = m" using pool_reachable_inv [OF assms] by auto
  note counts = pool_counts [OF inv]
  have "\<forall>i \<in> set hs. \<forall>f. get_mut i f p \<noteq> None \<and> snd (the (get_mut i f p)) = Some (objects p ! i)"
    using inv by (auto simp: pool_inv_def get_mut_def idx_def)
  moreover have "pool_stats_of p = \<lparr>total_objects = length (objects p), stat_available = length (objects p) - length hs,
      stat_in_use = length hs, stat_allocations = deallocations p + length hs, stat_deallocations = deallocations p\<rparr>"
    using counts inv unfolding pool_stats_of_def pool_inv_def by auto
  moreover have "\<exists>p' r. acquire d p = Some (p', r) \<and> (case r of None \<Rightarrow> length hs = max n m
      | Some i \<Rightarrow> i \<notin> set hs \<and> length hs < max n m)"
  proof (cases "available p")
    case Nil
    then show ?thesis using inv counts m by (auto simp: acquire_def pool_inv_def)
  next
    case (Cons i rest)
    then have "i < length (in_use p)" "i \<notin> set hs" "length hs < length (objects p)"
      using inv counts by (auto simp: pool_inv_def)
    then show ?thesis using Cons inv m by (auto simp: acquire_def idx_set_def pool_inv_def)
  qed
  ultimately show ?thesis using inv by (simp add: pool_inv_def)
qed

theorem pool_handles_exclusive_witness:
  "\<exists>p hs. (pool_step (0 :: nat))\<^sup>*\<^sup>* (object_pool_new 0 1 2, []) (p, hs) \<and> hs = [1, 0] \<and> distinct hs \<and>
    acquire 0 p = Some (p, None)"
proof -
  let ?p1 = "(object_pool_new (0::nat) 1 2)\<lparr>available := [], in_use := [True], allocations := 1\<rparr>"
  let ?p2 = "?p1\<lparr>objects := [0, 0], in_use := [True, True], allocations := 2\<rparr>"
  have "pool_step 0 (object_pool_new (0::nat) 1 2, []) (?p1, [0])"
    by (rule step_acquire) (simp add: acquire_def object_pool_new_def idx_set_def)
  moreover have "pool_step 0 (?p1, [0]) (?p2, [1, 0])"
    by (rule step_acquire) (simp add: acquire_def object_pool_new_def)
  ultimately have reach: "(pool_step (0 :: nat))\<^sup>*\<^sup>* (object_pool_new 0 1 2, []) (?p2, [1, 0])"
    by (meson converse_rtranclp_into_rtranclp rtranclp.rtrancl_refl)
  have "acquire 0 ?p2 = Some (?p2, None)" by (simp add: acquire_def object_pool_new_def)
  then show ?thesis using reach pool_handles_exclusive [OF reach] by blast
qed

subsection \<open>The arena\<close>

definition arena_ok :: "arena \<Rightarrow> bool" where
  "arena_ok a \<longleftrightarrow> current_block a < length (blocks a) \<and> (\<forall>b \<in> set (blocks a). length b = block_size a) \<and>
     current_offset a \<le> block_size a \<and> 2 * block_size a < usize_bound"

fun allocate_all :: "nat list \<Rightarrow> arena \<Rightarrow> (arena \<times> (nat \<times> nat \<times> nat) list) run" where
  "allocate_all [] a = Some (a, [])"
| "allocate_all (n # ns) a = do {
     (a, place) \<leftarrow> allocate n a;
     (a, places) \<leftarrow> allocate_all ns a;
     Some (a, place # places)
   }"

text \<open>One place lies before another: in an earlier block, or it ends where the other begins.\<close>

definition before :: "nat \<times> nat \<times> nat \<Rightarrow> nat \<times> nat \<times> nat \<Rightarrow> bool" where
  "before p q = (case (p, q) of ((b, s, e), (b', s', e')) \<Rightarrow> b < b' \<or> b = b' \<and> e \<le> s')"

lemma allocate_ok:
  assumes "arena_ok a" "n \<le> block_size a"
  shows "\<exists>a' b s. allocate n a = Some (a', b, s, s + n) \<and> arena_ok a' \<and> block_size a' = block_size a \<and>
    s + n \<le> block_size a \<and> b < length (blocks a') \<and>
    (current_block a < b \<or> current_block a = b \<and> current_offset a \<le> s) \<and>
    current_block a' = b \<and> current_offset a' = s + n \<and>
    length (blocks a') + current_block a = length (blocks a) + current_block a'"
proof (cases "current_offset a + n > block_size a")
  case True
  have len: "current_block a + 1 < length (blocks a @ [replicate (block_size a) 0])"
    using assms(1) by (simp add: arena_ok_def)
  then have "length ((blocks a @ [replicate (block_size a) 0]) ! (current_block a + 1)) = block_size a"
    using assms(1) nth_mem [OF len] by (auto simp: arena_ok_def)
  then show ?thesis using True assms len
    by (auto simp: allocate_def uadd_def idx_def sub_slice_def arena_ok_def Let_def)
next
  case False
  then show ?thesis using assms
    by (auto simp: allocate_def uadd_def idx_def sub_slice_def arena_ok_def Let_def)
qed

lemma allocate_too_big:
  assumes "arena_ok a" "block_size a < n"
  shows "allocate n a = None"
  using assms
  by (auto simp: allocate_def uadd_def idx_def sub_slice_def arena_ok_def Let_def nth_append split: if_splits)

lemma allocate_all_ok:
  assumes "arena_ok a" "\<forall>n \<in> set ns. n \<le> block_size a"
  shows "\<exists>a' ps. allocate_all ns a = Some (a', ps) \<and> arena_ok a' \<and> block_size a' = block_size a \<and>
    sorted_wrt before ps \<and> map (\<lambda>(b, s, e). e - s) ps = ns \<and>
    (\<forall>(b, s, e) \<in> set ps. before (current_block a, 0, current_offset a) (b, s, e) \<and>
       s \<le> e \<and> e \<le> block_size a \<and> b < length (blocks a')) \<and>
    length (blocks a') + current_block a = length (blocks a) + current_block a' \<and>
    length (blocks a) \<le> length (blocks a')"
  using assms
proof (induction ns arbitrary: a)
  case (Cons n ns)
  obtain a1 b s where 1: "allocate n a = Some (a1, b, s, s + n)" "arena_ok a1" "block_size a1 = block_size a"
    "s + n \<le> block_size a" "b < length (blocks a1)"
    "current_block a < b \<or> current_block a = b \<and> current_offset a \<le> s"
    "current_block a1 = b" "current_offset a1 = s + n"
    "length (blocks a1) + current_block a = length (blocks a) + current_block a1"
    using allocate_ok [of a n] Cons.prems by auto
  have "\<forall>n \<in> set ns. n \<le> block_size a1" using Cons.prems(2) 1(3) by simp
  from Cons.IH [OF 1(2) this] obtain a2 ps where 2: "allocate_all ns a1 = Some (a2, ps)" "arena_ok a2"
    "block_size a2 = block_size a1" "sorted_wrt before ps" "map (\<lambda>(b, s, e). e - s) ps = ns"
    "\<forall>(b', s', e') \<in> set ps. before (b, 0, s + n) (b', s', e') \<and>
       s' \<le> e' \<and> e' \<le> block_size a \<and> b' < length (blocks a2)"
    "length (blocks a2) + current_block a1 = length (blocks a1) + current_block a2"
    "length (blocks a1) \<le> length (blocks a2)"
    using 1(3,7,8) by auto
  have "\<forall>q \<in> set ps. before (b, s, s + n) q" using 2(6) by (auto simp: before_def)
  moreover have "\<forall>(b', s', e') \<in> set ps. before (current_block a, 0, current_offset a) (b', s', e')"
    using 2(6) 1(6) by (fastforce simp: before_def)
  moreover have "before (current_block a, 0, current_offset a) (b, s, s + n)"
    using 1(6) by (auto simp: before_def)
  moreover have "b < length (blocks a2)" using 1(5) 2(8) by linarith
  moreover have "length (blocks a2) + current_block a = length (blocks a) + current_block a2"
    "length (blocks a) \<le> length (blocks a2)"
    using 1(6,7,9) 2(7,8) by linarith+
  ultimately show ?case using 1(1,3,4) 2(1-6) by fastforce
qed simp

lemma allocate_all_too_big:
  "arena_ok a \<Longrightarrow> n \<in> set ns \<Longrightarrow> block_size a < n \<Longrightarrow> allocate_all ns a = None"
proof (induction ns arbitrary: a)
  case (Cons k ns)
  show ?case
  proof (cases "block_size a < k")
    case True
    then show ?thesis using allocate_too_big [OF Cons.prems(1)] by simp
  next
    case False
    then obtain a1 place where "allocate k a = Some (a1, place)" "arena_ok a1" "block_size a1 = block_size a"
      using allocate_ok [OF Cons.prems(1), of k] by auto
    then show ?thesis using Cons False by auto
  qed
qed simp

text \<open>
  Arena allocations never overlap. From any well-formed arena, a sequence of allocations
  panics exactly when one of them is larger than a block; otherwise the places handed out have
  the requested lengths, lie inside existing blocks and follow one another, so that no two of
  them share a byte. The number of blocks grows with every change of block: after a reset the
  arena moves through its old blocks again but still adds a new one each time.
\<close>

theorem arena_allocations:
  assumes "arena_ok a"
  shows "(allocate_all ns a = None \<longleftrightarrow> (\<exists>n \<in> set ns. block_size a < n)) \<and>
    (\<forall>a' ps. allocate_all ns a = Some (a', ps) \<longrightarrow>
      sorted_wrt before ps \<and> map (\<lambda>(b, s, e). e - s) ps = ns \<and>
      (\<forall>(b, s, e) \<in> set ps. s \<le> e \<and> e \<le> length (blocks a' ! b) \<and> b < length (blocks a')) \<and>
      length (blocks a') = length (blocks a) + (current_block a' - current_block a))"
proof (cases "\<exists>n \<in> set ns. block_size a < n")
  case True
  then have "allocate_all ns a = None" using allocate_all_too_big [OF assms] by blast
  then show ?thesis using True by simp
next
  case False
  then have small: "\<forall>n \<in> set ns. n \<le> block_size a" by (simp add: not_less)
  obtain a' ps where ok: "allocate_all ns a = Some (a', ps)" "arena_ok a'" "block_size a' = block_size a"
    "sorted_wrt before ps" "map (\<lambda>(b, s, e). e - s) ps = ns"
    "\<forall>(b, s, e) \<in> set ps. before (current_block a, 0, current_offset a) (b, s, e) \<and>
       s \<le> e \<and> e \<le> block_size a \<and> b < length (blocks a')"
    "length (blocks a') + current_block a = length (blocks a) + current_block a'"
    "length (blocks a) \<le> length (blocks a')"
    using allocate_all_ok [OF assms small] by blast
  have "length (blocks a' ! b) = block_size a" if "b < length (blocks a')" for b
    using ok(2,3) that by (simp add: arena_ok_def)
  then have "\<forall>(b, s, e) \<in> set ps. s \<le> e \<and> e \<le> length (blocks a' ! b) \<and> b < length (blocks a')"
    using ok(6) by fastforce
  moreover have "length (blocks a') = length (blocks a) + (current_block a' - current_block a)"
    using ok(7,8) by linarith
  ultimately show ?thesis using ok False by auto
qed

theorem arena_allocations_witness:
  "allocate_all [3, 5] (arena_new 4) = None \<and>
   (\<exists>a' ps. allocate_all [3, 3] (arena_new 4) = Some (a', ps) \<and> ps = [(0, 0, 3), (1, 0, 3)] \<and>
     sorted_wrt before ps \<and> length (blocks a') = 2)"
proof -
  have ok: "arena_ok (arena_new 4)" by (simp add: arena_ok_def arena_new_def)
  have "\<exists>a'. allocate_all [3, 3] (arena_new 4) = Some (a', [(0, 0, 3), (1, 0, 3)]) \<and>
      current_block a' = 1 \<and> length (blocks a') = 2"
    by (simp add: arena_new_def allocate_def uadd_def idx_def sub_slice_def Let_def)
  then show ?thesis using arena_allocations [OF ok, of "[3, 5]"] arena_allocations [OF ok, of "[3, 3]"]
    by (auto simp: arena_new_def)
qed

text \<open>A reset keeps the blocks, so a workload that needs \<open>k\<close> block changes adds \<open>k\<close> blocks every time.\<close>

theorem arena_reset_leaks:
  assumes "arena_ok a" "\<forall>n \<in> set ns. n \<le> block_size a"
  shows "\<exists>a' ps. allocate_all ns (arena_reset a) = Some (a', ps) \<and>
    total_allocated a' = total_allocated a + current_block a' * block_size a"
proof -
  have "arena_ok (arena_reset a)" using assms(1) by (auto simp: arena_ok_def arena_reset_def)
  moreover have "\<forall>n \<in> set ns. n \<le> block_size (arena_reset a)" using assms(2) by (simp add: arena_reset_def)
  ultimately obtain a' ps where "allocate_all ns (arena_reset a) = Some (a', ps)"
    "block_size a' = block_size (arena_reset a)"
    "length (blocks a') + current_block (arena_reset a) = length (blocks (arena_reset a)) + current_block a'"
    using allocate_all_ok [of "arena_reset a" ns] by blast
  then show ?thesis by (simp add: arena_reset_def total_allocated_def add_mult_distrib)
qed

end
