(* ===== verification/Ws_Recovery.thy ===== *)
theory Ws_Recovery
  imports Uproto_Prelude
begin

text \<open>
  \<^verbatim>\<open>WebSocket/src/36/websocket_error_recovery.rs\<close>: a connection that buffers messages while it
  is down, reconnects under a retry policy and flushes the buffer when it is up again. What the
  network does is an argument of every operation (name resolution, the outcome of each connection
  attempt and write, bytes read), as are the clock values. Durations are \<open>nat\<close> in nanoseconds.
  The ghost field \<open>wire\<close> records what has been written to streams, and \<open>state_log\<close> the calls of
  the state callback.
\<close>

subsection \<open>Errors\<close>

datatype error_kind = KBrokenPipe | KConnectionReset | KTimedOut | KNetworkUnreachable | KWouldBlock | KOther

record io_err =
  kind :: error_kind
  io_text :: string

datatype ws_error =
    BrokenPipe | ConnectionReset | Timeout | NetworkUnreachable
  | DnsFailure string | ProtocolError string | IoError string

fun ws_error_display :: "ws_error \<Rightarrow> string" where
  "ws_error_display BrokenPipe = ''Broken pipe - remote closed connection''"
| "ws_error_display ConnectionReset = ''Connection reset by peer''"
| "ws_error_display Timeout = ''Connection timeout''"
| "ws_error_display NetworkUnreachable = ''Network unreachable''"
| "ws_error_display (DnsFailure msg) = ''DNS failure: '' @ msg"
| "ws_error_display (ProtocolError msg) = ''Protocol error: '' @ msg"
| "ws_error_display (IoError msg) = ''I/O error: '' @ msg"

definition is_recoverable :: "ws_error \<Rightarrow> bool" where
  "is_recoverable e \<longleftrightarrow> e \<in> {BrokenPipe, ConnectionReset, Timeout, NetworkUnreachable}"

definition from_io_error :: "io_err \<Rightarrow> ws_error" where
  "from_io_error e =
     (case kind e of
        KBrokenPipe \<Rightarrow> BrokenPipe
      | KConnectionReset \<Rightarrow> ConnectionReset
      | KTimedOut \<Rightarrow> Timeout
      | KNetworkUnreachable \<Rightarrow> NetworkUnreachable
      | _ \<Rightarrow> IoError (io_text e))"

subsection \<open>Retry policies\<close>

text \<open>The trait: its three methods over a policy state.\<close>

record 'p connection_policy =
  next_backoff :: "'p \<Rightarrow> nat \<Rightarrow> ('p \<times> nat) run"
  should_retry :: "'p \<Rightarrow> nat \<Rightarrow> bool"
  policy_reset :: "'p \<Rightarrow> 'p"

record exponential_backoff =
  initial :: nat
  max_backoff :: nat
  max_retries :: nat
  current :: nat

definition exponential_backoff_new :: "nat \<Rightarrow> nat \<Rightarrow> nat \<Rightarrow> exponential_backoff" where
  "exponential_backoff_new init mx retries =
     \<lparr>initial = init, max_backoff = mx, max_retries = retries, current = init\<rparr>"

text \<open>A duration holds 64 bits of seconds; doubling one panics beyond that.\<close>

definition duration_bound :: nat where
  "duration_bound = 2 ^ 64 * 1000000000"

definition exp_next_backoff :: "exponential_backoff \<Rightarrow> nat \<Rightarrow> (exponential_backoff \<times> nat) run" where
  "exp_next_backoff p retry_count =
     (if retry_count = 0 then Some (p\<lparr>current := initial p\<rparr>, initial p)
      else if current p * 2 \<ge> duration_bound then None
      else let c = min (current p * 2) (max_backoff p) in Some (p\<lparr>current := c\<rparr>, c))"

definition exp_should_retry :: "exponential_backoff \<Rightarrow> nat \<Rightarrow> bool" where
  "exp_should_retry p retry_count \<longleftrightarrow> retry_count < max_retries p"

definition exp_reset :: "exponential_backoff \<Rightarrow> exponential_backoff" where
  "exp_reset p = p\<lparr>current := initial p\<rparr>"

definition exponential_policy :: "exponential_backoff connection_policy" where
  "exponential_policy =
     \<lparr>next_backoff = exp_next_backoff, should_retry = exp_should_retry, policy_reset = exp_reset\<rparr>"

subsection \<open>The message buffer\<close>

record buffered_message =
  msg_data :: bytes
  msg_timestamp :: nat

record message_buffer =
  buffer :: "buffered_message list"
  max_size :: nat

definition message_buffer_new :: "nat \<Rightarrow> message_buffer" where
  "message_buffer_new n = \<lparr>buffer = [], max_size = n\<rparr>"

definition mb_push :: "nat \<Rightarrow> message_buffer \<Rightarrow> bytes \<Rightarrow> message_buffer \<times> bool" where
  "mb_push now b d =
     (if length (buffer b) \<ge> max_size b then (b, False)
      else (b\<lparr>buffer := buffer b @ [\<lparr>msg_data = d, msg_timestamp = now\<rparr>]\<rparr>, True))"

definition mb_pop :: "message_buffer \<Rightarrow> message_buffer \<times> buffered_message option" where
  "mb_pop b = (case buffer b of [] \<Rightarrow> (b, None) | m # ms \<Rightarrow> (b\<lparr>buffer := ms\<rparr>, Some m))"

definition mb_len :: "message_buffer \<Rightarrow> nat" where
  "mb_len b = length (buffer b)"

definition mb_clear :: "message_buffer \<Rightarrow> message_buffer" where
  "mb_clear b = b\<lparr>buffer := []\<rparr>"

subsection \<open>The connection\<close>

datatype ws_state = Disconnected | Connecting | Connected | Error | Reconnecting

record 'p ws_connection =
  host :: string
  port :: u16
  stream :: bool
  state :: ws_state
  retry_count :: nat
  policy :: 'p
  message_buffer :: message_buffer
  last_activity :: nat
  error_callback :: bool
  state_callback :: bool
  error_log :: "ws_error list"
  state_log :: "(ws_state \<times> ws_state) list"
  wire :: "bytes list"

definition ws_connection_new :: "nat \<Rightarrow> string \<Rightarrow> u16 \<Rightarrow> 'p \<Rightarrow> 'p ws_connection" where
  "ws_connection_new now h pt pol =
     \<lparr>host = h, port = pt, stream = False, state = Disconnected, retry_count = 0, policy = pol,
      message_buffer = message_buffer_new 1000, last_activity = now, error_callback = False,
      state_callback = False, error_log = [], state_log = [], wire = []\<rparr>"

definition set_error_callback :: "'p ws_connection \<Rightarrow> 'p ws_connection" where
  "set_error_callback c = c\<lparr>error_callback := True\<rparr>"

definition set_state_callback :: "'p ws_connection \<Rightarrow> 'p ws_connection" where
  "set_state_callback c = c\<lparr>state_callback := True\<rparr>"

definition change_state :: "'p ws_connection \<Rightarrow> ws_state \<Rightarrow> 'p ws_connection" where
  "change_state c new_state =
     (let c' = c\<lparr>state := new_state\<rparr> in
      if state_callback c then c'\<lparr>state_log := state_log c @ [(state c, new_state)]\<rparr> else c')"

definition handle_error :: "'p ws_connection \<Rightarrow> ws_error \<Rightarrow> 'p ws_connection" where
  "handle_error c err =
     (let c' = (if error_callback c then c\<lparr>error_log := error_log c @ [err]\<rparr> else c) in
      if is_recoverable err then change_state c' Error else c')"

text \<open>
  The flush loop pops before it writes. \<open>wr n d\<close> is the outcome of \<^verbatim>\<open>write_all\<close> for the
  message \<open>d\<close> with \<open>n\<close> messages behind it.
\<close>

fun flush_loop :: "(nat \<Rightarrow> bytes \<Rightarrow> io_err option) \<Rightarrow> bool \<Rightarrow> buffered_message list \<Rightarrow>
    buffered_message list \<times> bytes list \<times> (ws_error + unit)" where
  "flush_loop wr has_stream [] = ([], [], Inr ())"
| "flush_loop wr has_stream (m # ms) =
     (if has_stream then
        case wr (length ms) (msg_data m) of
          Some e \<Rightarrow> (ms, [], Inl (from_io_error e))
        | None \<Rightarrow> (let (ms', out, r) = flush_loop wr has_stream ms in (ms', msg_data m # out, r))
      else flush_loop wr has_stream ms)"

definition flush_message_buffer ::
  "(nat \<Rightarrow> bytes \<Rightarrow> io_err option) \<Rightarrow> 'p ws_connection \<Rightarrow> 'p ws_connection \<times> (ws_error + unit)" where
  "flush_message_buffer wr c =
     (let (ms, out, r) = flush_loop wr (stream c) (buffer (message_buffer c))
      in (c\<lparr>message_buffer := (message_buffer c)\<lparr>buffer := ms\<rparr>, wire := wire c @ out\<rparr>, r))"

text \<open>
  What the network answers to a call of \<^verbatim>\<open>connect\<close>: the resolved addresses, the outcome of
  each attempt, of the three socket options, and of the writes of the flush.
\<close>

record connect_env =
  resolved :: "io_err + nat list"
  attempt :: "nat \<Rightarrow> io_err option"
  set_options :: "nat \<Rightarrow> io_err option"
  writes :: "nat \<Rightarrow> bytes \<Rightarrow> io_err option"
  clock :: nat

definition connect_established ::
  "'p connection_policy \<Rightarrow> connect_env \<Rightarrow> 'p ws_connection \<Rightarrow> 'p ws_connection \<times> (ws_error + unit)" where
  "connect_established pol env c =
     (let c1 = change_state (c\<lparr>stream := True\<rparr>) Connected;
          c2 = c1\<lparr>retry_count := 0, policy := policy_reset pol (policy c1), last_activity := clock env\<rparr>
      in flush_message_buffer (writes env) c2)"

text \<open>The loop over the resolved addresses; its last argument is \<^verbatim>\<open>last_err\<close>.\<close>

fun connect_loop :: "'p connection_policy \<Rightarrow> connect_env \<Rightarrow> 'p ws_connection \<Rightarrow> nat list \<Rightarrow> io_err option \<Rightarrow>
    ('p ws_connection \<times> (ws_error + unit)) run" where
  "connect_loop pol env c (addr # addrs) last_err =
     (case attempt env addr of
        None \<Rightarrow>
          (case set_options env addr of
             Some e \<Rightarrow> Some (c, Inl (IoError (io_text e)))
           | None \<Rightarrow> Some (connect_established pol env c))
      | Some e \<Rightarrow> connect_loop pol env c addrs (Some e))"
| "connect_loop pol env c [] last_err = do {
     e \<leftarrow> unwrap last_err;
     let err = from_io_error e;
     Some (handle_error c err, Inl err)
   }"

definition ws_connect ::
  "'p connection_policy \<Rightarrow> connect_env \<Rightarrow> 'p ws_connection \<Rightarrow> ('p ws_connection \<times> (ws_error + unit)) run" where
  "ws_connect pol env c =
     (let c1 = change_state c Connecting in
      case resolved env of
        Inl e \<Rightarrow> Some (c1, Inl (DnsFailure (io_text e)))
      | Inr addrs \<Rightarrow> connect_loop pol env c1 addrs None)"

text \<open>\<open>wr\<close> is the outcome of \<^verbatim>\<open>stream.write\<close>: an error or the number of bytes taken.\<close>

definition ws_send ::
  "nat \<Rightarrow> io_err + nat \<Rightarrow> 'p ws_connection \<Rightarrow> bytes \<Rightarrow> 'p ws_connection \<times> (ws_error + nat)" where
  "ws_send now wr c d =
     (if state c \<noteq> Connected then
        (c\<lparr>message_buffer := fst (mb_push now (message_buffer c) d)\<rparr>, Inl (ProtocolError ''Not connected''))
      else if \<not> stream c then (c, Inl (ProtocolError ''No stream available''))
      else case wr of
        Inr n \<Rightarrow> (c\<lparr>last_activity := now, wire := wire c @ [take n d]\<rparr>, Inr n)
      | Inl e \<Rightarrow>
          (let error = from_io_error e;
               c1 = (if is_recoverable error
                     then c\<lparr>message_buffer := fst (mb_push now (message_buffer c) d)\<rparr> else c)
           in (handle_error c1 error, Inl error)))"

definition ws_receive ::
  "nat \<Rightarrow> io_err + nat \<Rightarrow> 'p ws_connection \<Rightarrow> 'p ws_connection \<times> (ws_error + nat)" where
  "ws_receive now rd c =
     (if state c \<noteq> Connected then (c, Inl (ProtocolError ''Not connected''))
      else if \<not> stream c then (c, Inl (ProtocolError ''No stream available''))
      else case rd of
        Inr n \<Rightarrow> if n = 0 then (change_state c Disconnected, Inl ConnectionReset)
                 else (c\<lparr>last_activity := now\<rparr>, Inr n)
      | Inl e \<Rightarrow>
          if kind e = KWouldBlock \<or> kind e = KTimedOut then (c, Inr 0)
          else (let error = from_io_error e in (handle_error c error, Inl error)))"

text \<open>\<^verbatim>\<open>reconnect\<close> also reports the backoff it slept for.\<close>

definition ws_reconnect ::
  "'p connection_policy \<Rightarrow> connect_env \<Rightarrow> 'p ws_connection \<Rightarrow> ('p ws_connection \<times> nat option \<times> (ws_error + unit)) run" where
  "ws_reconnect pol env c =
     (if \<not> should_retry pol (policy c) (retry_count c)
      then Some (c, None, Inl (ProtocolError ''Max retries exceeded''))
      else do {
        let c1 = change_state c Reconnecting;
        (p, backoff) \<leftarrow> next_backoff pol (policy c1) (retry_count c1);
        if retry_count c1 + 1 \<ge> 2 ^ 32 then None
        else do {
          (c2, r) \<leftarrow> ws_connect pol env (c1\<lparr>policy := p, stream := False, retry_count := retry_count c1 + 1\<rparr>);
          Some (c2, Some backoff, r)
        }
      })"

definition ws_disconnect :: "'p ws_connection \<Rightarrow> 'p ws_connection" where
  "ws_disconnect c = change_state (c\<lparr>stream := False\<rparr>) Disconnected"

definition check_connection_health :: "nat \<Rightarrow> io_err + nat \<Rightarrow> 'p ws_connection \<Rightarrow> 'p ws_connection" where
  "check_connection_health now wr c =
     (if state c \<noteq> Connected then c
      else if now - last_activity c > 60 * 1000000000
      then fst (ws_send now wr c [0x50, 0x49, 0x4E, 0x47])
      else c)"

definition get_state :: "'p ws_connection \<Rightarrow> ws_state" where
  "get_state c = state c"

definition buffered_messages :: "'p ws_connection \<Rightarrow> nat" where
  "buffered_messages c = mb_len (message_buffer c)"

text \<open>One iteration of the main loop of the program.\<close>

record loop_env =
  loop_connect :: connect_env
  health_write :: "io_err + nat"
  msg_write :: "io_err + nat"
  msg_read :: "io_err + nat"
  loop_clock :: nat

definition main_iteration ::
  "'p connection_policy \<Rightarrow> loop_env \<Rightarrow> bytes \<Rightarrow> 'p ws_connection \<Rightarrow> 'p ws_connection run" where
  "main_iteration pol env msg c =
     (case get_state c of
        Error \<Rightarrow> map_option fst (ws_reconnect pol (loop_connect env) c)
      | Disconnected \<Rightarrow> map_option fst (ws_reconnect pol (loop_connect env) c)
      | Connected \<Rightarrow>
          (let c1 = check_connection_health (loop_clock env) (health_write env) c;
               c2 = fst (ws_send (loop_clock env) (msg_write env) c1 msg)
           in Some (fst (ws_receive (loop_clock env) (msg_read env) c2)))
      | _ \<Rightarrow> Some c)"

text \<open>
  The start-up loop of the program, cut off after \<open>fuel\<close> iterations: the backoffs it slept for
  and whether it has ended.
\<close>

fun startup_loop :: "'p connection_policy \<Rightarrow> (nat \<Rightarrow> connect_env) \<Rightarrow> nat \<Rightarrow> 'p ws_connection \<Rightarrow>
    ('p ws_connection \<times> nat list \<times> bool) run" where
  "startup_loop pol envs 0 c = Some (c, [], False)"
| "startup_loop pol envs (Suc fuel) c = do {
     (c1, b, r) \<leftarrow> ws_reconnect pol (envs 0) c;
     let bs = (case b of None \<Rightarrow> [] | Some x \<Rightarrow> [x]);
     if r = Inr () \<or> get_state c1 = Disconnected then Some (c1, bs, True)
     else do {
       (c2, bs', fin) \<leftarrow> startup_loop pol (\<lambda>n. envs (Suc n)) fuel c1;
       Some (c2, bs @ bs', fin)
     }
   }"

subsection \<open>The buffer is a bounded FIFO\<close>

lemma mb_push_data:
  "map msg_data (buffer (fst (mb_push now b d))) =
     (if length (buffer b) < max_size b then map msg_data (buffer b) @ [d] else map msg_data (buffer b))"
  by (simp add: mb_push_def)

lemma mb_push_max_size [simp]: "max_size (fst (mb_push now b d)) = max_size b"
  by (simp add: mb_push_def)

definition send_while_down :: "(nat \<times> bytes) list \<Rightarrow> 'p ws_connection \<Rightarrow> 'p ws_connection" where
  "send_while_down ds c = foldl (\<lambda>c (now, d). fst (ws_send now (Inr 0) c d)) c ds"

lemma send_while_down_buffers:
  assumes "state c \<noteq> Connected" "length (buffer (message_buffer c)) \<le> max_size (message_buffer c)"
  shows "map msg_data (buffer (message_buffer (send_while_down ds c))) =
      take (max_size (message_buffer c)) (map msg_data (buffer (message_buffer c)) @ map snd ds) \<and>
    wire (send_while_down ds c) = wire c"
  using assms
proof (induction ds arbitrary: c)
  case Nil
  then show ?case by (simp add: send_while_down_def)
next
  case (Cons nd ds)
  obtain now d where nd: "nd = (now, d)" by fastforce
  let ?c = "fst (ws_send now (Inr 0) c d)"
  have "state ?c = state c" "wire ?c = wire c"
    "message_buffer ?c = fst (mb_push now (message_buffer c) d)"
    using Cons.prems by (simp_all add: ws_send_def)
  moreover have "send_while_down (nd # ds) c = send_while_down ds ?c"
    by (simp add: send_while_down_def nd)
  moreover have "length (buffer (message_buffer ?c)) \<le> max_size (message_buffer ?c)"
    using Cons.prems by (simp add: ws_send_def mb_push_def)
  ultimately show ?case
    using Cons.IH [of ?c] Cons.prems nd by (auto simp: mb_push_data take_Cons')
qed

subsection \<open>Connecting\<close>

lemma change_state_simps [simp]:
  "state (change_state c s) = s" "message_buffer (change_state c s) = message_buffer c"
  "wire (change_state c s) = wire c" "policy (change_state c s) = policy c"
  "retry_count (change_state c s) = retry_count c" "stream (change_state c s) = stream c"
  by (simp_all add: change_state_def Let_def)

lemma handle_error_simps [simp]:
  "state (handle_error c e) = (if is_recoverable e then Error else state c)"
  "policy (handle_error c e) = policy c" "retry_count (handle_error c e) = retry_count c"
  by (simp_all add: handle_error_def Let_def)

lemma flush_loop_all:
  "(\<And>n d. wr n d = None) \<Longrightarrow> flush_loop wr True ms = ([], map msg_data ms, Inr ())"
  by (induction ms) simp_all

lemma flush_loop_fails_at:
  assumes "\<forall>i<length as. wr (length as - Suc i + Suc (length bs)) (msg_data (as ! i)) = None"
    and "wr (length bs) (msg_data m) = Some e"
  shows "flush_loop wr True (as @ m # bs) = (bs, map msg_data as, Inl (from_io_error e))"
  using assms(1)
proof (induction as)
  case (Cons a as)
  have "wr (length (as @ m # bs)) (msg_data a) = None"
    using Cons.prems [rule_format, of 0] by simp
  moreover have "\<forall>i<length as. wr (length as - Suc i + Suc (length bs)) (msg_data (as ! i)) = None"
    using Cons.prems by (auto dest: spec [of _ "Suc _"])
  ultimately show ?case using Cons.IH by simp
qed (simp add: assms(2))

lemma connect_loop_reaches:
  assumes "\<forall>x \<in> set pre. attempt env x \<noteq> None" "attempt env a = None" "set_options env a = None"
  shows "connect_loop pol env c (pre @ a # post) err = Some (connect_established pol env c)"
  using assms by (induction pre arbitrary: err) auto

lemma connect_reaches:
  assumes "resolved env = Inr (pre @ a # post)" "\<forall>x \<in> set pre. attempt env x \<noteq> None"
    "attempt env a = None" "set_options env a = None"
  shows "ws_connect pol env c = Some (connect_established pol env (change_state c Connecting))"
  using connect_loop_reaches [OF assms(2-)] assms(1) by (simp add: ws_connect_def)

lemma connect_loop_fails:
  assumes "\<forall>x \<in> set addrs. attempt env x \<noteq> None" "addrs \<noteq> [] \<or> err \<noteq> None"
  shows "\<exists>e. (e \<in> (the \<circ> attempt env) ` set addrs \<or> (addrs = [] \<and> err = Some e)) \<and>
    connect_loop pol env c addrs err = Some (handle_error c (from_io_error e), Inl (from_io_error e))"
  using assms
proof (induction addrs arbitrary: err)
  case (Cons x addrs)
  then obtain ex where x: "attempt env x = Some ex" by auto
  then have "ex = the (attempt env x)" by simp
  with Cons.IH [of "Some ex"] Cons.prems x show ?case by fastforce
qed (auto simp: unwrap_def Let_def)

definition unreachable :: "connect_env \<Rightarrow> bool" where
  "unreachable env \<longleftrightarrow> (\<exists>addrs. resolved env = Inr addrs \<and> addrs \<noteq> [] \<and> (\<forall>x \<in> set addrs. attempt env x \<noteq> None))"

lemma connect_unreachable:
  assumes "unreachable env"
  shows "\<exists>c' e. ws_connect pol env c = Some (c', Inl e) \<and> state c' \<in> {Error, Connecting} \<and>
    policy c' = policy c \<and> retry_count c' = retry_count c"
proof -
  obtain addrs where a: "resolved env = Inr addrs" "addrs \<noteq> []" "\<forall>x \<in> set addrs. attempt env x \<noteq> None"
    using assms by (auto simp: unreachable_def)
  obtain e where "connect_loop pol env (change_state c Connecting) addrs None =
      Some (handle_error (change_state c Connecting) (from_io_error e), Inl (from_io_error e))"
    using connect_loop_fails [OF a(3), of None pol "change_state c Connecting"] a(2) by blast
  with a(1) show ?thesis by (simp add: ws_connect_def)
qed

subsection \<open>What a retry policy promises\<close>

text \<open>
  The trait's contract: a policy has a retry limit and a longest backoff that its methods keep, it
  allows a retry exactly below the limit, and computing a backoff does not panic.
\<close>

locale retry_policy =
  fixes pol :: "'p connection_policy" and inv :: "'p \<Rightarrow> bool"
    and limit :: "'p \<Rightarrow> nat" and longest :: "'p \<Rightarrow> nat"
  assumes should_retry_iff: "inv p \<Longrightarrow> should_retry pol p n \<longleftrightarrow> n < limit p"
    and limit_u32: "inv p \<Longrightarrow> limit p < 2 ^ 32"
    and next_backoff_ok: "inv p \<Longrightarrow> \<exists>p' b. next_backoff pol p n = Some (p', b) \<and>
      inv p' \<and> limit p' = limit p \<and> longest p' = longest p \<and> b \<le> longest p"
begin

lemma reconnect_exhausted:
  assumes "inv (policy c)" "limit (policy c) \<le> retry_count c"
  shows "ws_reconnect pol env c = Some (c, None, Inl (ProtocolError ''Max retries exceeded''))"
  using assms by (simp add: ws_reconnect_def should_retry_iff)

lemma reconnect_unreachable:
  assumes "inv (policy c)" "retry_count c < limit (policy c)" "unreachable env"
  shows "\<exists>c' b e. ws_reconnect pol env c = Some (c', Some b, Inl e) \<and> state c' \<noteq> Disconnected \<and>
    inv (policy c') \<and> limit (policy c') = limit (policy c) \<and> longest (policy c') = longest (policy c) \<and>
    retry_count c' = Suc (retry_count c) \<and> b \<le> longest (policy c) \<and>
    next_backoff pol (policy c) (retry_count c) = Some (policy c', b)"
proof -
  obtain p b where n: "next_backoff pol (policy c) (retry_count c) = Some (p, b)" "inv p"
    "limit p = limit (policy c)" "longest p = longest (policy c)" "b \<le> longest (policy c)"
    using next_backoff_ok [OF assms(1)] by blast
  let ?c = "(change_state c Reconnecting)\<lparr>policy := p, stream := False, retry_count := retry_count c + 1\<rparr>"
  obtain c' e where "ws_connect pol env ?c = Some (c', Inl e)" "state c' \<in> {Error, Connecting}"
    "policy c' = p" "retry_count c' = Suc (retry_count c)"
    using connect_unreachable [OF assms(3), of pol ?c] by auto
  then show ?thesis
    using n assms(1,2) limit_u32 [OF assms(1)]
    by (auto simp: ws_reconnect_def should_retry_iff)
qed

lemma startup_loop_unreachable:
  assumes "inv (policy c)" "state c \<noteq> Disconnected" "\<forall>n. unreachable (envs n)"
  shows "\<exists>c' bs. startup_loop pol envs fuel c = Some (c', bs, False) \<and>
    length bs = min fuel (limit (policy c) - retry_count c) \<and> (\<forall>b \<in> set bs. b \<le> longest (policy c))"
  using assms
proof (induction fuel arbitrary: c envs)
  case (Suc fuel)
  show ?case
  proof (cases "retry_count c < limit (policy c)")
    case True
    obtain c1 b e where 1: "ws_reconnect pol (envs 0) c = Some (c1, Some b, Inl e)" "state c1 \<noteq> Disconnected"
      "inv (policy c1)" "limit (policy c1) = limit (policy c)" "longest (policy c1) = longest (policy c)"
      "retry_count c1 = Suc (retry_count c)" "b \<le> longest (policy c)"
      using reconnect_unreachable [OF Suc.prems(1) True] Suc.prems(3) by blast
    obtain c2 bs where "startup_loop pol (\<lambda>n. envs (Suc n)) fuel c1 = Some (c2, bs, False)"
      "length bs = min fuel (limit (policy c1) - retry_count c1)" "\<forall>b \<in> set bs. b \<le> longest (policy c1)"
      using Suc.IH [OF 1(3,2), of "\<lambda>n. envs (Suc n)"] Suc.prems(3) by blast
    with 1 True show ?thesis by (auto simp: get_state_def Let_def)
  next
    case False
    obtain c2 bs where "startup_loop pol (\<lambda>n. envs (Suc n)) fuel c = Some (c2, bs, False)"
      "length bs = min fuel (limit (policy c) - retry_count c)" "\<forall>b \<in> set bs. b \<le> longest (policy c)"
      using Suc.IH [OF Suc.prems(1,2), of "\<lambda>n. envs (Suc n)"] Suc.prems(3) by blast
    with reconnect_exhausted [OF Suc.prems(1)] False Suc.prems(2) show ?thesis
      by (auto simp: get_state_def Let_def)
  qed
qed simp

end

definition exp_inv :: "exponential_backoff \<Rightarrow> bool" where
  "exp_inv p \<longleftrightarrow> initial p \<le> max_backoff p \<and> current p \<le> max_backoff p \<and>
     max_backoff p * 2 < duration_bound \<and> max_retries p < 2 ^ 32"

interpretation exp_policy: retry_policy exponential_policy exp_inv max_retries max_backoff
proof unfold_locales
  fix p n
  assume inv: "exp_inv p"
  show "\<exists>p' b. next_backoff exponential_policy p n = Some (p', b) \<and> exp_inv p' \<and>
      max_retries p' = max_retries p \<and> max_backoff p' = max_backoff p \<and> b \<le> max_backoff p"
  proof (cases "n = 0")
    case False
    then have "current p * 2 < duration_bound" using inv by (auto simp: exp_inv_def)
    with False inv show ?thesis
      by (simp add: exponential_policy_def exp_next_backoff_def exp_inv_def Let_def)
  qed (use inv in \<open>simp add: exponential_policy_def exp_next_backoff_def exp_inv_def\<close>)
qed (simp_all add: exponential_policy_def exp_should_retry_def exp_inv_def)

text \<open>The backoffs of consecutive failures double up to the maximum.\<close>

definition doubling :: "exponential_backoff \<Rightarrow> nat \<Rightarrow> nat" where
  "doubling p k = min (initial p * 2 ^ k) (max_backoff p)"

lemma exp_next_backoff_doubling:
  assumes "exp_inv p" "k \<noteq> 0 \<longrightarrow> current p = doubling p (k - 1)"
  shows "exp_next_backoff p k = Some (p\<lparr>current := doubling p k\<rparr>, doubling p k)"
proof (cases k)
  case (Suc j)
  then have "current p * 2 < duration_bound" using assms by (auto simp: exp_inv_def)
  moreover have "min (current p * 2) (max_backoff p) = doubling p k"
    using assms Suc by (auto simp: doubling_def min_def)
  ultimately show ?thesis using Suc by (simp add: exp_next_backoff_def Let_def)
qed (use assms in \<open>simp add: exp_next_backoff_def doubling_def exp_inv_def\<close>)

lemma startup_loop_backoffs:
  assumes "exp_inv (policy c)" "state c \<noteq> Disconnected" "\<forall>n. unreachable (envs n)"
    and "retry_count c \<noteq> 0 \<longrightarrow> current (policy c) = doubling (policy c) (retry_count c - 1)"
  shows "\<exists>c'. startup_loop exponential_policy envs fuel c =
    Some (c', map (doubling (policy c)) [retry_count c..<min (retry_count c + fuel) (max_retries (policy c))], False)"
  using assms
proof (induction fuel arbitrary: c envs)
  case (Suc fuel)
  let ?p = "policy c" and ?k = "retry_count c"
  show ?case
  proof (cases "?k < max_retries ?p")
    case True
    obtain c1 b e where 1: "ws_reconnect exponential_policy (envs 0) c = Some (c1, Some b, Inl e)"
      "state c1 \<noteq> Disconnected" "exp_inv (policy c1)" "retry_count c1 = Suc ?k"
      "exp_next_backoff ?p ?k = Some (policy c1, b)"
      using exp_policy.reconnect_unreachable [OF Suc.prems(1) True] Suc.prems(3)
      by (metis connection_policy.select_convs(1) exponential_policy_def)
    from 1(5) exp_next_backoff_doubling [OF Suc.prems(1,4)]
    have p1: "policy c1 = ?p\<lparr>current := doubling ?p ?k\<rparr>" "b = doubling ?p ?k" by auto
    then have same: "doubling (policy c1) = doubling ?p" by (simp add: doubling_def fun_eq_iff)
    obtain c2 where "startup_loop exponential_policy (\<lambda>n. envs (Suc n)) fuel c1 =
        Some (c2, map (doubling (policy c1)) [Suc ?k..<min (Suc ?k + fuel) (max_retries ?p)], False)"
      using Suc.IH [OF 1(3,2), of "\<lambda>n. envs (Suc n)"] Suc.prems(3) 1(4) p1 same by auto
    with 1 True p1 same show ?thesis by (auto simp: get_state_def upt_conv_Cons)
  next
    case False
    obtain c2 where "startup_loop exponential_policy (\<lambda>n. envs (Suc n)) fuel c =
        Some (c2, map (doubling ?p) [?k..<min (?k + fuel) (max_retries ?p)], False)"
      using Suc.IH [OF Suc.prems(1,2) _ Suc.prems(4), of "\<lambda>n. envs (Suc n)"] Suc.prems(3) by blast
    with exp_policy.reconnect_exhausted [OF Suc.prems(1)] False Suc.prems(2) show ?thesis
      by (auto simp: get_state_def)
  qed
qed simp

subsection \<open>Properties\<close>

text \<open>
  C9. Messages sent during an outage survive it: whatever was sent while the connection was down
  is, once some address can be reached and the writes succeed, on the wire in the order it was
  sent, up to the 1000 messages the buffer holds, and the buffer is empty again.
\<close>
theorem outage_messages_delivered:
  assumes "state c \<noteq> Connected" "message_buffer c = message_buffer_new 1000"
    and "resolved env = Inr (pre @ a # post)" "\<forall>x \<in> set pre. attempt env x \<noteq> None"
    and "attempt env a = None" "set_options env a = None" "\<forall>n d. writes env n d = None"
  shows "\<exists>c'. ws_connect pol env (send_while_down ds c) = Some (c', Inr ()) \<and> state c' = Connected \<and>
    wire c' = wire c @ take 1000 (map snd ds) \<and> buffered_messages c' = 0 \<and> retry_count c' = 0"
proof -
  let ?d = "send_while_down ds c"
  have "map msg_data (buffer (message_buffer ?d)) = take 1000 (map snd ds) \<and> wire ?d = wire c"
    using send_while_down_buffers [of c ds] assms(1,2) by (simp add: message_buffer_new_def)
  with connect_reaches [OF assms(3-6), of pol ?d] assms(7) show ?thesis
    by (simp add: connect_established_def flush_message_buffer_def flush_loop_all
        buffered_messages_def mb_len_def Let_def)
qed

text \<open>A reachable server, and a server that refuses everybody.\<close>

definition env_up :: connect_env where
  "env_up = \<lparr>resolved = Inr [7], attempt = \<lambda>_. None, set_options = \<lambda>_. None,
     writes = \<lambda>_ _. None, clock = 50\<rparr>"

definition env_down :: connect_env where
  "env_down = env_up\<lparr>attempt := \<lambda>_. Some \<lparr>kind = KTimedOut, io_text = []\<rparr>\<rparr>"

definition conn0 :: "exponential_backoff ws_connection" where
  "conn0 = ws_connection_new 0 ''localhost'' 80 (exponential_backoff_new 1000000000 32000000000 10)"

theorem outage_messages_delivered_witness:
  "\<exists>c'. ws_connect exponential_policy env_up (send_while_down [(1, [1]), (2, [2, 3])] conn0) = Some (c', Inr ()) \<and>
    state c' = Connected \<and> wire c' = wire conn0 @ take 1000 (map snd [(1 :: nat, [1]), (2, [2, 3])]) \<and>
    buffered_messages c' = 0 \<and> retry_count c' = 0"
  by (rule outage_messages_delivered [where pre = "[]" and a = 7 and post = "[]"])
    (simp_all add: conn0_def ws_connection_new_def env_up_def)

text \<open>
  A write error while the buffer is flushed loses a message: the messages before it are
  written, those after it stay buffered, and the one being written is in neither place, while
  the connection stays in the connected state.
\<close>
theorem flush_error_loses_message:
  assumes "buffer (message_buffer c) = as @ m # bs"
    and "resolved env = Inr (pre @ a # post)" "\<forall>x \<in> set pre. attempt env x \<noteq> None"
    and "attempt env a = None" "set_options env a = None"
    and "\<forall>i<length as. writes env (length as - Suc i + Suc (length bs)) (msg_data (as ! i)) = None"
    and "writes env (length bs) (msg_data m) = Some e"
  shows "\<exists>c'. ws_connect pol env c = Some (c', Inl (from_io_error e)) \<and> state c' = Connected \<and>
    wire c' = wire c @ map msg_data as \<and> buffer (message_buffer c') = bs"
  using connect_reaches [OF assms(2-5), of pol c] flush_loop_fails_at [OF assms(6,7)] assms(1)
  by (simp add: connect_established_def flush_message_buffer_def Let_def)

theorem flush_error_loses_message_witness:
  "let env = env_up\<lparr>writes := \<lambda>n _. if n = 0 then Some \<lparr>kind = KBrokenPipe, io_text = []\<rparr> else None\<rparr>;
       c = conn0\<lparr>message_buffer := \<lparr>buffer = [\<lparr>msg_data = [1], msg_timestamp = 1\<rparr>,
             \<lparr>msg_data = [2], msg_timestamp = 2\<rparr>], max_size = 1000\<rparr>\<rparr> in
   \<exists>c'. ws_connect exponential_policy env c = Some (c', Inl BrokenPipe) \<and> state c' = Connected \<and>
    wire c' = wire c @ [[1]] \<and> buffer (message_buffer c') = []"
proof -
  define env where "env = env_up\<lparr>writes := \<lambda>n _. if n = 0 then Some \<lparr>kind = KBrokenPipe, io_text = []\<rparr> else None\<rparr>"
  define c where "c = conn0\<lparr>message_buffer := \<lparr>buffer = [\<lparr>msg_data = [1], msg_timestamp = 1\<rparr>,
             \<lparr>msg_data = [2], msg_timestamp = 2\<rparr>], max_size = 1000\<rparr>\<rparr>"
  have "\<exists>c'. ws_connect exponential_policy env c =
      Some (c', Inl (from_io_error \<lparr>kind = KBrokenPipe, io_text = []\<rparr>)) \<and> state c' = Connected \<and>
    wire c' = wire c @ map msg_data [\<lparr>msg_data = [1], msg_timestamp = 1\<rparr>] \<and> buffer (message_buffer c') = []"
    by (rule flush_error_loses_message [where m = "\<lparr>msg_data = [2], msg_timestamp = 2\<rparr>" and pre = "[]" and a = 7 and post = "[]"])
      (simp_all add: c_def env_def env_up_def)
  then show ?thesis
    unfolding Let_def env_def [symmetric] c_def [symmetric] by (simp add: from_io_error_def)
qed

text \<open>
  Against a server that cannot be reached, the start-up loop waits exactly the doubling
  backoffs, capped at the maximum, once for each allowed retry, and never ends: after the last
  retry it spins, since a refused reconnect leaves the state unchanged.
\<close>
theorem unreachable_startup_never_ends:
  assumes "policy c = exponential_backoff_new init mx retries" "init \<le> mx" "mx * 2 < duration_bound"
    "retries < 2 ^ 32" "state c \<noteq> Disconnected" "retry_count c = 0" "\<forall>n. unreachable (envs n)"
  shows "\<forall>fuel. \<exists>c'. startup_loop exponential_policy envs fuel c =
    Some (c', map (\<lambda>k. min (init * 2 ^ k) mx) [0..<min fuel retries], False)"
proof -
  have p: "exp_inv (policy c)" "doubling (policy c) = (\<lambda>k. min (init * 2 ^ k) mx)"
    "max_retries (policy c) = retries"
    using assms(1-4) by (simp_all add: exp_inv_def exponential_backoff_new_def doubling_def fun_eq_iff)
  show ?thesis
    using startup_loop_backoffs [OF p(1) assms(5,7)] assms(6) p(2,3) by simp
qed

theorem unreachable_startup_never_ends_witness:
  "\<forall>fuel. \<exists>c'. startup_loop exponential_policy (\<lambda>_. env_down) fuel (conn0\<lparr>state := Error\<rparr>) =
    Some (c', map (\<lambda>k. min (1000000000 * 2 ^ k) 32000000000) [0..<min fuel 10], False)"
  by (rule unreachable_startup_never_ends)
    (simp_all add: conn0_def ws_connection_new_def duration_bound_def unreachable_def env_down_def env_up_def)

text \<open>
  A reconnect that fails for good leaves the program stuck: after a name-resolution failure,
  or when every address fails with an error that is not recoverable, the state is \<open>Connecting\<close>,
  in which the main loop does nothing, whatever the network does from then on.
\<close>
theorem failed_reconnect_sticks:
  assumes "should_retry pol (policy c) (retry_count c)"
    "next_backoff pol (policy c) (retry_count c) = Some (p, b)" "retry_count c + 1 < 2 ^ 32"
    and "(\<exists>e. resolved env = Inl e) \<or>
      (unreachable env \<and> (\<forall>x e. attempt env x = Some e \<longrightarrow> \<not> is_recoverable (from_io_error e)))"
  shows "\<exists>c' err. ws_reconnect pol env c = Some (c', Some b, Inl err) \<and> state c' = Connecting \<and>
    (\<forall>env' msg. main_iteration pol env' msg c' = Some c')"
proof -
  let ?c = "(change_state c Reconnecting)\<lparr>policy := p, stream := False, retry_count := retry_count c + 1\<rparr>"
  have "\<exists>c' err. ws_connect pol env ?c = Some (c', Inl err) \<and> state c' = Connecting"
    using assms(4)
  proof (elim disjE exE conjE)
    assume un: "unreachable env"
      and fatal: "\<forall>x e. attempt env x = Some e \<longrightarrow> \<not> is_recoverable (from_io_error e)"
    obtain addrs where a: "resolved env = Inr addrs" "addrs \<noteq> []" "\<forall>x \<in> set addrs. attempt env x \<noteq> None"
      using un by (auto simp: unreachable_def)
    obtain e where e: "e \<in> (the \<circ> attempt env) ` set addrs"
      "connect_loop pol env (change_state ?c Connecting) addrs None =
        Some (handle_error (change_state ?c Connecting) (from_io_error e), Inl (from_io_error e))"
      using connect_loop_fails [OF a(3), of None pol "change_state ?c Connecting"] a(2) by blast
    have "\<not> is_recoverable (from_io_error e)" using e(1) a(3) fatal by auto
    with e(2) a(1) show ?thesis by (simp add: ws_connect_def)
  qed (simp add: ws_connect_def)
  then show ?thesis
    using assms(1-3) by (auto simp: ws_reconnect_def main_iteration_def get_state_def)
qed

theorem failed_reconnect_sticks_witness:
  "\<exists>c' err. ws_reconnect exponential_policy (env_up\<lparr>resolved := Inl \<lparr>kind = KOther, io_text = []\<rparr>\<rparr>) conn0 =
      Some (c', Some 1000000000, Inl err) \<and> state c' = Connecting \<and>
    (\<forall>env' msg. main_iteration exponential_policy env' msg c' = Some c')"
  by (rule failed_reconnect_sticks)
    (simp_all add: conn0_def ws_connection_new_def exponential_policy_def exp_should_retry_def
      exp_next_backoff_def exponential_backoff_new_def)

end
