(* ===== verification/Ws_Validator.thy ===== *)
theory Ws_Validator
  imports Byte_Codec Utf8
begin

text \<open>
  \<^verbatim>\<open>WebSocket/src/37/websocket_protocol_violation_handler.rs\<close>: the validator of frame
  headers, its fragmentation state, the payload checks and the connection that closes on a
  violation. Console output is recorded as a list of events.
\<close>

subsection \<open>Opcodes, close codes, violations\<close>

datatype opcode = Continuation | Text | Binary | Close | Ping | Pong

definition opcode_from_u8 :: "u8 \<Rightarrow> opcode option" where
  "opcode_from_u8 value =
     (if value = 0x0 then Some Continuation
      else if value = 0x1 then Some Text
      else if value = 0x2 then Some Binary
      else if value = 0x8 then Some Close
      else if value = 0x9 then Some Ping
      else if value = 0xA then Some Pong
      else None)"

fun opcode_as_u8 :: "opcode \<Rightarrow> u8" where
  "opcode_as_u8 Continuation = 0x0"
| "opcode_as_u8 Text = 0x1"
| "opcode_as_u8 Binary = 0x2"
| "opcode_as_u8 Close = 0x8"
| "opcode_as_u8 Ping = 0x9"
| "opcode_as_u8 Pong = 0xA"

definition is_control :: "opcode \<Rightarrow> bool" where
  "is_control op \<longleftrightarrow> opcode_as_u8 op \<ge> 0x8"

datatype close_code =
  Normal | GoingAway | ProtocolError | InvalidData | InvalidPayload | PolicyViolation | MessageTooBig

fun close_code_as_u16 :: "close_code \<Rightarrow> u16" where
  "close_code_as_u16 Normal = 1000"
| "close_code_as_u16 GoingAway = 1001"
| "close_code_as_u16 ProtocolError = 1002"
| "close_code_as_u16 InvalidData = 1003"
| "close_code_as_u16 InvalidPayload = 1007"
| "close_code_as_u16 PolicyViolation = 1008"
| "close_code_as_u16 MessageTooBig = 1009"

record protocol_violation =
  pv_code :: close_code
  pv_message :: string

definition violation :: "close_code \<Rightarrow> string \<Rightarrow> protocol_violation" where
  "violation code message = \<lparr>pv_code = code, pv_message = message\<rparr>"

definition violation_display :: "protocol_violation \<Rightarrow> string" where
  "violation_display v =
     pv_message v @ '' (code: '' @ string_of_nat (unat (close_code_as_u16 (pv_code v))) @ '')''"

subsection \<open>Headers and connection state\<close>

record frame_header =
  fh_fin :: bool
  fh_rsv1 :: bool
  fh_rsv2 :: bool
  fh_rsv3 :: bool
  fh_opcode :: opcode
  fh_masked :: bool
  fh_payload_length :: u64
  fh_masking_key :: "bytes option"

definition frame_header_new :: "opcode \<Rightarrow> frame_header" where
  "frame_header_new op =
     \<lparr>fh_fin = True, fh_rsv1 = False, fh_rsv2 = False, fh_rsv3 = False, fh_opcode = op,
      fh_masked = False, fh_payload_length = 0, fh_masking_key = None\<rparr>"

record connection_state =
  in_fragmented_message :: bool
  fragmented_opcode :: "opcode option"
  is_server :: bool
  extensions_negotiated :: bool

definition connection_state_new :: "bool \<Rightarrow> connection_state" where
  "connection_state_new server =
     \<lparr>in_fragmented_message = False, fragmented_opcode = None, is_server = server,
      extensions_negotiated = False\<rparr>"

definition reset_fragmentation :: "connection_state \<Rightarrow> connection_state" where
  "reset_fragmentation st = st\<lparr>in_fragmented_message := False, fragmented_opcode := None\<rparr>"

subsection \<open>Validation\<close>

definition validate_masking :: "connection_state \<Rightarrow> frame_header \<Rightarrow> protocol_violation + unit" where
  "validate_masking st h =
     (if is_server st \<and> \<not> fh_masked h
      then Inl (violation ProtocolError ''Client frames must be masked'')
      else if \<not> is_server st \<and> fh_masked h
      then Inl (violation ProtocolError ''Server frames must not be masked'')
      else Inr ())"

definition validate_fragmentation ::
  "connection_state \<Rightarrow> frame_header \<Rightarrow> connection_state \<times> (protocol_violation + unit)" where
  "validate_fragmentation st h =
     (case fh_opcode h of
        Continuation \<Rightarrow>
          (if \<not> in_fragmented_message st
           then (st, Inl (violation ProtocolError ''Continuation frame without initial frame''))
           else (if fh_fin h then reset_fragmentation st else st, Inr ()))
      | Text \<Rightarrow>
          (if in_fragmented_message st
           then (st, Inl (violation ProtocolError ''New message started during active fragmentation''))
           else (if \<not> fh_fin h then st\<lparr>in_fragmented_message := True, fragmented_opcode := Some (fh_opcode h)\<rparr>
                 else st, Inr ()))
      | Binary \<Rightarrow>
          (if in_fragmented_message st
           then (st, Inl (violation ProtocolError ''New message started during active fragmentation''))
           else (if \<not> fh_fin h then st\<lparr>in_fragmented_message := True, fragmented_opcode := Some (fh_opcode h)\<rparr>
                 else st, Inr ()))
      | _ \<Rightarrow> (st, Inr ()))"

definition validate_frame_header ::
  "connection_state \<Rightarrow> frame_header \<Rightarrow> connection_state \<times> (protocol_violation + unit)" where
  "validate_frame_header st h =
     (if \<not> extensions_negotiated st \<and> (fh_rsv1 h \<or> fh_rsv2 h \<or> fh_rsv3 h)
      then (st, Inl (violation ProtocolError ''Reserved bits set without negotiated extension''))
      else if is_control (fh_opcode h) \<and> \<not> fh_fin h
      then (st, Inl (violation ProtocolError ''Control frames cannot be fragmented''))
      else if is_control (fh_opcode h) \<and> fh_payload_length h > 125
      then (st, Inl (violation ProtocolError
             (''Control frame payload exceeds 125 bytes: '' @ string_of_nat (unat (fh_payload_length h)))))
      else (case validate_masking st h of
              Inl e \<Rightarrow> (st, Inl e)
            | Inr _ \<Rightarrow> validate_fragmentation st h))"

definition validate_text_payload :: "bytes \<Rightarrow> protocol_violation + unit" where
  "validate_text_payload payload =
     (if \<not> is_valid_utf8 payload
      then Inl (violation InvalidPayload ''Text frame contains invalid UTF-8'')
      else Inr ())"

definition validate_close_payload :: "bytes \<Rightarrow> protocol_violation + unit" where
  "validate_close_payload payload =
     (if payload = [] then Inr ()
      else if length payload = 1
      then Inl (violation ProtocolError ''Close payload must be 0 or at least 2 bytes'')
      else
        (let close_code = be_nat [payload ! 0, payload ! 1] in
         if close_code < 1000 \<or> (close_code \<ge> 1004 \<and> close_code \<le> 1006) \<or>
            (close_code \<ge> 1012 \<and> close_code \<le> 2999)
         then Inl (violation ProtocolError (''Invalid close code: '' @ string_of_nat close_code))
         else if length payload > 2 \<and> \<not> is_valid_utf8 (drop 2 payload)
         then Inl (violation InvalidPayload ''Close reason contains invalid UTF-8'')
         else Inr ()))"

subsection \<open>The connection\<close>

datatype conn_event =
  FrameProcessed | ViolationLogged string | SentClose u16 string | ConnectionClosed

definition validate_and_process ::
  "connection_state \<Rightarrow> frame_header \<Rightarrow> bytes \<Rightarrow> connection_state \<times> (protocol_violation + unit)" where
  "validate_and_process st h payload =
     (case validate_frame_header st h of
        (st', Inl e) \<Rightarrow> (st', Inl e)
      | (st', Inr _) \<Rightarrow>
          (st', case fh_opcode h of
                  Text \<Rightarrow> validate_text_payload payload
                | Close \<Rightarrow> validate_close_payload payload
                | _ \<Rightarrow> Inr ()))"

definition close_connection :: "connection_state \<Rightarrow> connection_state \<times> conn_event list" where
  "close_connection st = (reset_fragmentation st, [ConnectionClosed])"

definition send_close_frame :: "close_code \<Rightarrow> string \<Rightarrow> conn_event list" where
  "send_close_frame code reason = [SentClose (close_code_as_u16 code) reason]"

definition handle_protocol_violation ::
  "connection_state \<Rightarrow> protocol_violation \<Rightarrow> connection_state \<times> conn_event list" where
  "handle_protocol_violation st v =
     (let (st', es) = close_connection st in
      (st', ViolationLogged (violation_display v) # send_close_frame (pv_code v) (pv_message v) @ es))"

definition process_frame ::
  "connection_state \<Rightarrow> frame_header \<Rightarrow> bytes \<Rightarrow> connection_state \<times> conn_event list" where
  "process_frame st h payload =
     (case validate_and_process st h payload of
        (st', Inr _) \<Rightarrow> (st', [FrameProcessed])
      | (st', Inl v) \<Rightarrow> handle_protocol_violation st' v)"

fun process_frames ::
  "connection_state \<Rightarrow> (frame_header \<times> bytes) list \<Rightarrow> connection_state \<times> conn_event list" where
  "process_frames st [] = (st, [])"
| "process_frames st ((h, p) # fs) =
     (let (st1, es) = process_frame st h p; (st2, es') = process_frames st1 fs in (st2, es @ es'))"

subsection \<open>What an accepted sequence of headers looks like\<close>

text \<open>Validating headers until the first violation.\<close>

fun validate_headers :: "connection_state \<Rightarrow> frame_header list \<Rightarrow> protocol_violation + connection_state" where
  "validate_headers st [] = Inr st"
| "validate_headers st (h # hs) =
     (case validate_frame_header st h of
        (st', Inl e) \<Rightarrow> Inl e
      | (st', Inr _) \<Rightarrow> validate_headers st' hs)"

text \<open>
  The specification speaks of positions only: a message is open before position \<open>i\<close> when some
  earlier unfinished text or binary frame has no final continuation after it.
\<close>

definition starts_fragments :: "frame_header \<Rightarrow> bool" where
  "starts_fragments h \<longleftrightarrow> fh_opcode h \<in> {Text, Binary} \<and> \<not> fh_fin h"

definition ends_fragments :: "frame_header \<Rightarrow> bool" where
  "ends_fragments h \<longleftrightarrow> fh_opcode h = Continuation \<and> fh_fin h"

definition open_before :: "frame_header list \<Rightarrow> nat \<Rightarrow> bool" where
  "open_before hs i \<longleftrightarrow>
     (\<exists>j < i. starts_fragments (hs ! j) \<and> (\<forall>k < i. j < k \<longrightarrow> \<not> ends_fragments (hs ! k)))"

definition header_ok :: "bool \<Rightarrow> frame_header \<Rightarrow> bool" where
  "header_ok server h \<longleftrightarrow>
     \<not> fh_rsv1 h \<and> \<not> fh_rsv2 h \<and> \<not> fh_rsv3 h \<and> fh_masked h = server \<and>
     (fh_opcode h \<in> {Close, Ping, Pong} \<longrightarrow> fh_fin h \<and> fh_payload_length h \<le> 125)"

definition frame_allowed :: "bool \<Rightarrow> frame_header list \<Rightarrow> nat \<Rightarrow> bool" where
  "frame_allowed server hs i \<longleftrightarrow>
     header_ok server (hs ! i) \<and>
     (fh_opcode (hs ! i) = Continuation \<longrightarrow> open_before hs i) \<and>
     (fh_opcode (hs ! i) \<in> {Text, Binary} \<longrightarrow> \<not> open_before hs i)"

lemma open_before_0 [simp]: "\<not> open_before hs 0"
  by (simp add: open_before_def)

lemma open_before_Suc:
  "open_before hs (Suc i) \<longleftrightarrow>
     starts_fragments (hs ! i) \<or> (open_before hs i \<and> \<not> ends_fragments (hs ! i))"
  by (auto simp: open_before_def less_Suc_eq)

subsection \<open>Header validation step by step\<close>

lemma is_control_iff [simp]: "is_control op \<longleftrightarrow> op \<in> {Close, Ping, Pong}"
  by (cases op) (simp_all add: is_control_def word_le_nat_alt)

lemmas validator_defs =
  validate_frame_header_def validate_masking_def validate_fragmentation_def reset_fragmentation_def

lemma opcode_roundtrip: "opcode_from_u8 (opcode_as_u8 op) = Some op"
  by (cases op) (simp_all add: opcode_from_u8_def)

lemma opcode_from_u8_SomeD: "opcode_from_u8 b = Some op \<Longrightarrow> b = opcode_as_u8 op"
  by (auto simp: opcode_from_u8_def split: if_splits)

lemma validate_frame_header_static:
  assumes "validate_frame_header st h = (st', r)"
  shows "is_server st' = is_server st" and "extensions_negotiated st' = extensions_negotiated st"
  using assms by (auto simp: validator_defs split: if_splits opcode.splits)

lemma validate_frame_header_code:
  "validate_frame_header st h = (st', Inl v) \<Longrightarrow> pv_code v = ProtocolError"
  by (auto simp: validator_defs violation_def split: if_splits opcode.splits)

lemma validate_frame_header_accepts:
  assumes "\<not> extensions_negotiated st"
  shows "(\<exists>st'. validate_frame_header st h = (st', Inr ())) \<longleftrightarrow>
    header_ok (is_server st) h \<and>
    (fh_opcode h = Continuation \<longrightarrow> in_fragmented_message st) \<and>
    (fh_opcode h \<in> {Text, Binary} \<longrightarrow> \<not> in_fragmented_message st)"
  using assms by (cases "fh_opcode h") (auto simp: validator_defs header_ok_def)

lemma validate_frame_header_next:
  assumes "validate_frame_header st h = (st', Inr u)"
  shows "in_fragmented_message st' \<longleftrightarrow>
    starts_fragments h \<or> (in_fragmented_message st \<and> \<not> ends_fragments h)"
  using assms
  by (cases "fh_opcode h")
    (auto simp: validator_defs starts_fragments_def ends_fragments_def split: if_splits)

lemma validate_headers_from:
  assumes "\<not> extensions_negotiated st"
    and "in_fragmented_message st \<longleftrightarrow> open_before (ps @ hs) (length ps)"
  shows "case validate_headers st hs of
      Inr st' \<Rightarrow>
        (\<forall>i<length hs. frame_allowed (is_server st) (ps @ hs) (length ps + i)) \<and>
        (in_fragmented_message st' \<longleftrightarrow> open_before (ps @ hs) (length ps + length hs))
    | Inl v \<Rightarrow>
        \<not> (\<forall>i<length hs. frame_allowed (is_server st) (ps @ hs) (length ps + i)) \<and>
        pv_code v = ProtocolError"
  using assms
proof (induction hs arbitrary: st ps)
  case Nil
  then show ?case by simp
next
  case (Cons h hs)
  obtain st' r where v: "validate_frame_header st h = (st', r)" by fastforce
  have first: "frame_allowed (is_server st) (ps @ h # hs) (length ps) \<longleftrightarrow> r = Inr ()"
    using validate_frame_header_accepts [OF Cons.prems(1), of h] v Cons.prems(2)
    by (auto simp: frame_allowed_def)
  have all: "(\<forall>i<length (h # hs). frame_allowed (is_server st) (ps @ h # hs) (length ps + i)) \<longleftrightarrow>
      r = Inr () \<and>
      (\<forall>i<length hs. frame_allowed (is_server st) ((ps @ [h]) @ hs) (length (ps @ [h]) + i))"
    using first by (auto simp: less_Suc_eq_0_disj)
  show ?case
  proof (cases r)
    case (Inl e)
    then show ?thesis using all v validate_frame_header_code by auto
  next
    case (Inr u)
    note v' = v [unfolded Inr]
    have "in_fragmented_message st' \<longleftrightarrow> open_before ((ps @ [h]) @ hs) (length (ps @ [h]))"
      using validate_frame_header_next [OF v'] Cons.prems(2)
      by (simp add: open_before_Suc)
    from Cons.IH [OF _ this] validate_frame_header_static [OF v] Cons.prems(1) all v Inr
    show ?thesis by (auto split: sum.splits)
  qed
qed

subsection \<open>Properties\<close>

text \<open>
  C6. Header validation of a fresh connection accepts a sequence of frame headers exactly when
  every frame in it is allowed at its position: reserved bits clear, masked iff the peer is the
  client, control frames final and at most 125 bytes, continuations only inside a fragmented
  message and no new data frame inside one. After an accepted sequence the fragmentation flag says
  whether a message is still open, and every rejection carries the protocol-error code.
\<close>
theorem validate_headers_exact:
  "(\<exists>st. validate_headers (connection_state_new server) hs = Inr st) =
     (\<forall>i<length hs. frame_allowed server hs i) \<and>
   (\<forall>st. validate_headers (connection_state_new server) hs = Inr st \<longrightarrow>
      in_fragmented_message st = open_before hs (length hs)) \<and>
   (\<forall>v. validate_headers (connection_state_new server) hs = Inl v \<longrightarrow> pv_code v = ProtocolError)"
  using validate_headers_from [of "connection_state_new server" "[]" hs]
  by (auto simp: connection_state_new_def split: sum.splits)

theorem validate_headers_exact_witness:
  "let t = (frame_header_new Text)\<lparr>fh_fin := False\<rparr>; p = frame_header_new Ping;
       c = frame_header_new Continuation in
   (\<forall>i<3. frame_allowed False [t, p, c] i) \<and> \<not> (\<forall>i<2. frame_allowed False [t, t] i)"
proof -
  define t where "t = (frame_header_new Text)\<lparr>fh_fin := False\<rparr>"
  define p where "p = frame_header_new Ping"
  define c where "c = frame_header_new Continuation"
  have "\<exists>st. validate_headers (connection_state_new False) [t, p, c] = Inr st"
    by (simp add: t_def p_def c_def validator_defs frame_header_new_def connection_state_new_def)
  moreover have "\<not> (\<exists>st. validate_headers (connection_state_new False) [t, t] = Inr st)"
    by (simp add: t_def validator_defs frame_header_new_def connection_state_new_def)
  ultimately show ?thesis
    using validate_headers_exact [of False "[t, p, c]"] validate_headers_exact [of False "[t, t]"]
    unfolding Let_def t_def [symmetric] p_def [symmetric] c_def [symmetric]
    by (simp add: numeral_eq_Suc)
qed

text \<open>
  A close payload is accepted exactly when it is empty, or it holds a two-byte big-endian code
  in 1000--1003, 1007--1011 or from 3000 on, followed by a reason that is well-formed UTF-8; a
  payload with a bad code is rejected as a protocol error, one with a good code and a bad reason
  as an invalid payload.
\<close>
theorem validate_close_payload_exact:
  "validate_close_payload payload = Inr () \<longleftrightarrow>
     payload = [] \<or>
     (\<exists>code reason. payload = be_bytes 2 code @ reason \<and> code < 65536 \<and> is_valid_utf8 reason \<and>
        (code \<in> {1000..1003} \<or> code \<in> {1007..1011} \<or> 3000 \<le> code))"
proof (cases "length payload \<le> 1")
  case True
  then consider "payload = []" | a where "payload = [a]"
    by (cases payload) auto
  then show ?thesis
    by cases (auto simp: validate_close_payload_def dest!: arg_cong [of "[_]" _ length])
next
  case False
  then obtain a b reason where p: "payload = a # b # reason"
    by (cases payload; cases "tl payload") auto
  define c where "c = be_nat [a, b]"
  have c: "c < 65536" "be_bytes 2 c = [a, b]"
    using be_nat_bound [of "[a, b]"] be_bytes_be_nat [of "[a, b]"]
    by (simp_all add: c_def numeral_2_eq_2)
  have uniq: "payload = be_bytes 2 code @ reason' \<and> code < 65536 \<longleftrightarrow> code = c \<and> reason' = reason"
    for code reason'
  proof
    assume "payload = be_bytes 2 code @ reason' \<and> code < 65536"
    then have eq: "[a, b] @ reason = be_bytes 2 code @ reason'" and small: "code < 65536"
      by (simp_all add: p)
    from eq have "[a, b] = be_bytes 2 code \<and> reason = reason'"
      by (subst (asm) append_eq_append_conv) auto
    then show "code = c \<and> reason' = reason"
      using be_nat_be_bytes_small [of code 2] small by (simp add: c_def)
  qed (simp add: p c)
  have "validate_close_payload payload = Inr () \<longleftrightarrow>
      (c \<in> {1000..1003} \<or> c \<in> {1007..1011} \<or> 3000 \<le> c) \<and> is_valid_utf8 reason"
    unfolding p validate_close_payload_def c_def [symmetric] nth_Cons_0 nth_Cons_Suc
    by (cases reason) (auto simp: c_def [symmetric] Let_def)
  then show ?thesis using uniq p by (metis list.distinct(1))
qed

text \<open>
  Text is checked one frame at a time: a message sent as an unfinished text frame with payload
  \<open>p\<close> and a final continuation with payload \<open>q\<close> is accepted exactly when \<open>p\<close> alone is
  well-formed, whatever \<open>q\<close> holds. There is an accepted message that is not UTF-8, and one that
  is UTF-8 and closes the connection.
\<close>
theorem fragmented_text_checked_per_frame:
  "let t = (frame_header_new Text)\<lparr>fh_fin := False\<rparr>; c = frame_header_new Continuation;
       run = (\<lambda>p q. snd (process_frames (connection_state_new False) [(t, p), (c, q)])) in
   (\<forall>p q. run p q = [FrameProcessed, FrameProcessed] \<longleftrightarrow> is_valid_utf8 p) \<and>
   (\<exists>p q. run p q = [FrameProcessed, FrameProcessed] \<and> \<not> is_valid_utf8 (p @ q)) \<and>
   (\<exists>p q. ConnectionClosed \<in> set (run p q) \<and> is_valid_utf8 (p @ q))"
proof -
  define t where "t = (frame_header_new Text)\<lparr>fh_fin := False\<rparr>"
  define c where "c = frame_header_new Continuation"
  define run where "run p q = snd (process_frames (connection_state_new False) [(t, p), (c, q)])"
    for p q
  have good: "run p q = [FrameProcessed, FrameProcessed]" if "is_valid_utf8 p" for p q
    using that
    by (simp add: run_def t_def c_def process_frame_def validate_and_process_def validator_defs
        validate_text_payload_def frame_header_new_def connection_state_new_def)
  have bad: "ConnectionClosed \<in> set (run p q)" if "\<not> is_valid_utf8 p" for p q
    using that
    by (simp add: run_def t_def c_def process_frame_def validate_and_process_def validator_defs
        validate_text_payload_def frame_header_new_def connection_state_new_def
        handle_protocol_violation_def close_connection_def send_close_frame_def split: prod.splits)
  have iff: "run p q = [FrameProcessed, FrameProcessed] \<longleftrightarrow> is_valid_utf8 p" for p q
    using good [of p q] bad [of p q] by (cases "is_valid_utf8 p") auto
  have "is_valid_utf8 [0x41]" "\<not> is_valid_utf8 ([0x41] @ [0xFF])" by code_simp+
  then have "\<exists>p q. run p q = [FrameProcessed, FrameProcessed] \<and> \<not> is_valid_utf8 (p @ q)"
    using good by blast
  moreover have "\<not> is_valid_utf8 [0xE2]" "is_valid_utf8 ([0xE2] @ [0x82, 0xAC])" by code_simp+
  then have "\<exists>p q. ConnectionClosed \<in> set (run p q) \<and> is_valid_utf8 (p @ q)"
    using bad by blast
  ultimately show ?thesis
    using iff unfolding Let_def t_def [symmetric] c_def [symmetric] run_def [symmetric]
    by (intro conjI allI) assumption+
qed

end
