(* ===== verification/Ws_Debug_Server.thy ===== *)
theory Ws_Debug_Server
  imports Utf8
begin

text \<open>
  \<^verbatim>\<open>WebSocket/src/44/advanced_rust_websocket_debugging.rs\<close>: an echo server that keeps statistics and
  logs a preview of every message. Parameters: sending a message, and the JSON text of statistics.
  The messages of a connection are the list of what its stream yields. A handler that panics ends
  without its closing steps. Log output, time stamps and durations are left out.
\<close>

subsection \<open>Statistics\<close>

record connection_stats =
  messages_received :: nat
  messages_sent :: nat
  bytes_received :: nat
  bytes_sent :: nat
  errors :: nat

definition stats_new :: connection_stats where
  "stats_new = \<lparr>messages_received = 0, messages_sent = 0, bytes_received = 0, bytes_sent = 0, errors = 0\<rparr>"

text \<open>The counters of the server are 64-bit atomics, which wrap around.\<close>

record server_stats =
  total_connections :: nat
  active_connections :: nat
  total_messages :: nat

definition server_stats_new :: server_stats where
  "server_stats_new = \<lparr>total_connections = 0, active_connections = 0, total_messages = 0\<rparr>"

definition connection_opened :: "server_stats \<Rightarrow> server_stats" where
  "connection_opened s = s\<lparr>total_connections := wrap_add (total_connections s) 1,
     active_connections := wrap_add (active_connections s) 1\<rparr>"

definition connection_closed :: "server_stats \<Rightarrow> server_stats" where
  "connection_closed s = s\<lparr>active_connections := wrap_sub (active_connections s) 1\<rparr>"

definition message_received :: "server_stats \<Rightarrow> server_stats" where
  "message_received s = s\<lparr>total_messages := wrap_add (total_messages s) 1\<rparr>"

subsection \<open>Previews\<close>

datatype message = MText bytes | MBinary bytes | MPing bytes | MPong bytes | MClose "(nat \<times> bytes) option" | MFrame

record message_debug_info =
  msg_type :: string
  size :: nat
  payload_preview :: bytes

text \<open>\<open>&text[..n]\<close> panics when \<open>n\<close> is not a character boundary.\<close>

definition str_prefix :: "bytes \<Rightarrow> nat \<Rightarrow> bytes run" where
  "str_prefix s n = (if n = 0 \<or> n = length s \<or> (n < length s \<and> \<not> (0x80 \<le> s ! n \<and> s ! n < 0xC0)) then Some (take n s) else None)"

definition hex_digit :: "nat \<Rightarrow> u8" where
  "hex_digit n = (if n < 10 then of_nat (48 + n) else of_nat (87 + n))"

definition hex2 :: "u8 \<Rightarrow> bytes" where
  "hex2 b = [hex_digit (unat b div 16), hex_digit (unat b mod 16)]"

fun join_space :: "bytes list \<Rightarrow> bytes" where
  "join_space [] = []"
| "join_space [x] = x"
| "join_space (x # y # xs) = x @ [0x20] @ join_space (y # xs)"

definition from_message :: "message \<Rightarrow> message_debug_info run" where
  "from_message msg = (case msg of
     MText s \<Rightarrow>
       do {
         preview \<leftarrow> (if length s > 50 then do { p \<leftarrow> str_prefix s 50; Some (p @ ascii ''...'') } else Some s);
         Some \<lparr>msg_type = ''text'', size = length s, payload_preview = preview\<rparr>
       }
   | MBinary d \<Rightarrow> Some \<lparr>msg_type = ''binary'', size = length d,
       payload_preview = ascii ''['' @ join_space (map hex2 (take 16 d)) @ ascii '']''\<rparr>
   | MPing d \<Rightarrow> Some \<lparr>msg_type = ''ping'', size = length d,
       payload_preview = ascii (string_of_nat (length d)) @ ascii '' bytes''\<rparr>
   | MPong d \<Rightarrow> Some \<lparr>msg_type = ''pong'', size = length d,
       payload_preview = ascii (string_of_nat (length d)) @ ascii '' bytes''\<rparr>
   | MClose frame \<Rightarrow> Some \<lparr>msg_type = ''close'', size = 0,
       payload_preview = (case frame of
           Some (code, reason) \<Rightarrow> ascii ''code: '' @ ascii (string_of_nat code) @ ascii '', reason: '' @ reason
         | None \<Rightarrow> ascii ''no details'')\<rparr>
   | MFrame \<Rightarrow> Some \<lparr>msg_type = ''frame'', size = 0, payload_preview = ascii ''raw frame''\<rparr>)"

subsection \<open>Connections\<close>

record 'w transport =
  send :: "message \<Rightarrow> 'w \<Rightarrow> 'w \<times> bool"
  to_json :: "connection_stats \<Rightarrow> bytes"

record 'w conn =
  stats :: connection_stats
  server :: server_stats
  world :: 'w

datatype turn = GoOn | Leave | Panic

definition echo_response :: "'w transport \<Rightarrow> bytes \<Rightarrow> connection_stats \<Rightarrow> message" where
  "echo_response T s st = MText (ascii ''{'' @ [0x22] @ ascii ''echo'' @ [0x22] @ ascii '':'' @ [0x22] @ s @ [0x22] @
     ascii '','' @ [0x22] @ ascii ''stats'' @ [0x22] @ ascii '':'' @ to_json T st @ ascii ''}'')"

text \<open>Sending, and what is counted when it succeeds or fails.\<close>

definition reply_counted :: "'w transport \<Rightarrow> message \<Rightarrow> nat \<Rightarrow> 'w conn \<Rightarrow> 'w conn \<times> turn" where
  "reply_counted T m n c = (case send T m (world c) of
     (w, False) \<Rightarrow> (c\<lparr>world := w, stats := (stats c)\<lparr>errors := errors (stats c) + 1\<rparr>\<rparr>, Leave)
   | (w, True) \<Rightarrow> (c\<lparr>world := w, stats := (stats c)\<lparr>messages_sent := messages_sent (stats c) + 1,
                          bytes_sent := bytes_sent (stats c) + n\<rparr>\<rparr>, GoOn))"

definition add_received :: "nat \<Rightarrow> 'w conn \<Rightarrow> 'w conn" where
  "add_received n c = c\<lparr>stats := (stats c)\<lparr>bytes_received := bytes_received (stats c) + n\<rparr>\<rparr>"

definition handle_message :: "'w transport \<Rightarrow> message \<Rightarrow> 'w conn \<Rightarrow> 'w conn \<times> turn" where
  "handle_message T msg c = (case from_message msg of
     None \<Rightarrow> (c, Panic)
   | Some _ \<Rightarrow>
       (let c = c\<lparr>stats := (stats c)\<lparr>messages_received := messages_received (stats c) + 1\<rparr>, server := message_received (server c)\<rparr>
        in case msg of
             MText s \<Rightarrow> (let c = add_received (length s) c in reply_counted T (echo_response T s (stats c)) (length s) c)
           | MBinary d \<Rightarrow> (let c = add_received (length d) c in reply_counted T (MBinary d) (length d) c)
           | MPing d \<Rightarrow> (case send T (MPong d) (world c) of
                 (w, False) \<Rightarrow> (c\<lparr>world := w, stats := (stats c)\<lparr>errors := errors (stats c) + 1\<rparr>\<rparr>, GoOn)
               | (w, True) \<Rightarrow> (c\<lparr>world := w\<rparr>, GoOn))
           | MClose frame \<Rightarrow> (c\<lparr>world := fst (send T (MClose None) (world c))\<rparr>, Leave)
           | _ \<Rightarrow> (c, GoOn)))"

text \<open>The stream yields messages and errors, \<open>Inl\<close>, and ends.\<close>

fun message_loop :: "'w transport \<Rightarrow> ('e + message) list \<Rightarrow> 'w conn \<Rightarrow> 'w conn \<times> turn" where
  "message_loop T [] c = (c, Leave)"
| "message_loop T (Inl e # ms) c = (c\<lparr>stats := (stats c)\<lparr>errors := errors (stats c) + 1\<rparr>\<rparr>, Leave)"
| "message_loop T (Inr m # ms) c = (case handle_message T m c of
     (c, GoOn) \<Rightarrow> message_loop T ms c
   | (c, t) \<Rightarrow> (c, t))"

text \<open>\<open>incoming\<close> is \<open>None\<close> when the handshake fails. The result has the statistics that are logged at the end, if any.\<close>

definition handle_connection_with_stats ::
  "'w transport \<Rightarrow> ('e + message) list option \<Rightarrow> server_stats \<Rightarrow> 'w \<Rightarrow> server_stats \<times> 'w \<times> connection_stats option" where
  "handle_connection_with_stats T incoming sv w =
     (let sv = connection_opened sv in
      case incoming of
        None \<Rightarrow> (connection_closed sv, w, None)
      | Some ms \<Rightarrow> (case message_loop T ms \<lparr>stats = stats_new, server = sv, world = w\<rparr> of
            (c, Panic) \<Rightarrow> (server c, world c, None)
          | (c, _) \<Rightarrow> (connection_closed (server c), world c, Some (stats c))))"

subsection \<open>What panics\<close>

definition long_split :: "message \<Rightarrow> bool" where
  "long_split m \<longleftrightarrow> (case m of MText s \<Rightarrow> 50 < length s \<and> utf8_cont (s ! 50) | _ \<Rightarrow> False)"

lemma cont_range: "(0x80 \<le> (b :: u8) \<and> b < 0xC0) = utf8_cont b"
proof -
  have "b < 0xC0 \<longleftrightarrow> b \<le> 0xBF" by (auto simp: word_less_nat_alt word_le_nat_alt)
  then show ?thesis by (simp add: utf8_cont_def)
qed

lemma from_message_None: "from_message m = None \<longleftrightarrow> long_split m"
  by (cases m) (auto simp: from_message_def long_split_def str_prefix_def cont_range split: option.splits)

subsection \<open>A transport that works\<close>

definition reliable :: "(connection_stats \<Rightarrow> bytes) \<Rightarrow> message list transport" where
  "reliable j = \<lparr>send = (\<lambda>m w. (w @ [m], True)), to_json = j\<rparr>"

lemma reliable_simps [simp]: "send (reliable j) m w = (w @ [m], True)" "to_json (reliable j) = j"
  by (simp_all add: reliable_def)

text \<open>The messages that are handled completely, and how the connection ends.\<close>

fun handled :: "('e + message) list \<Rightarrow> message list \<times> turn" where
  "handled [] = ([], Leave)"
| "handled (Inl e # ms) = ([], Leave)"
| "handled (Inr m # ms) =
     (if long_split m then ([], Panic)
      else (case m of MClose f \<Rightarrow> ([m], Leave) | _ \<Rightarrow> (let (xs, t) = handled ms in (m # xs, t))))"

definition payload_size :: "message \<Rightarrow> nat" where
  "payload_size m = (case m of MText s \<Rightarrow> length s | MBinary d \<Rightarrow> length d | _ \<Rightarrow> 0)"

definition echoed :: "message \<Rightarrow> bool" where
  "echoed m \<longleftrightarrow> (case m of MText s \<Rightarrow> True | MBinary d \<Rightarrow> True | _ \<Rightarrow> False)"

definition bump :: "message list \<Rightarrow> connection_stats \<Rightarrow> connection_stats" where
  "bump xs st = st\<lparr>messages_received := messages_received st + length xs,
     messages_sent := messages_sent st + length (filter echoed xs),
     bytes_received := bytes_received st + sum_list (map payload_size xs),
     bytes_sent := bytes_sent st + sum_list (map payload_size xs)\<rparr>"

lemma bump_simps: "bump [] st = st" "bump (x # xs) st = bump xs (bump [x] st)"
  by (simp_all add: bump_def)

lemma handle_message_reliable:
  assumes "\<not> long_split m"
  shows "\<exists>w. handle_message (reliable j) m c =
    (\<lparr>stats = bump [m] (stats c), server = message_received (server c), world = w\<rparr>,
     if (case m of MClose f \<Rightarrow> True | _ \<Rightarrow> False) then Leave else GoOn)"
proof -
  obtain x where "from_message m = Some x" using assms from_message_None [of m] by auto
  then show ?thesis
    by (cases c; cases m) (simp_all add: handle_message_def reply_counted_def add_received_def bump_def
        payload_size_def echoed_def Let_def)
qed

lemma message_loop_reliable:
  "\<exists>c'. message_loop (reliable j) ms c = (c', snd (handled ms)) \<and> stats c' = (bump (fst (handled ms)) (stats c))\<lparr>errors := errors (stats c')\<rparr> \<and>
     server c' = (message_received ^^ length (fst (handled ms))) (server c)"
proof (induction ms arbitrary: c)
  case Nil
  then show ?case by (simp add: bump_simps(1))
next
  case (Cons x ms)
  show ?case
  proof (cases x)
    case (Inl e)
    then show ?thesis by (simp add: bump_simps(1))
  next
    case (Inr m)
    show ?thesis
    proof (cases "long_split m")
      case True
      then show ?thesis using Inr from_message_None [of m] by (simp add: handle_message_def bump_simps(1))
    next
      case False
      obtain w where w: "handle_message (reliable j) m c =
          (\<lparr>stats = bump [m] (stats c), server = message_received (server c), world = w\<rparr>,
           if (case m of MClose f \<Rightarrow> True | _ \<Rightarrow> False) then Leave else GoOn)"
        using handle_message_reliable [OF False] by blast
      let ?c = "\<lparr>stats = bump [m] (stats c), server = message_received (server c), world = w\<rparr>"
      show ?thesis
      proof (cases "case m of MClose f \<Rightarrow> True | _ \<Rightarrow> False")
        case True
        then show ?thesis using Inr False w by (cases m) (simp_all add: bump_def)
      next
        case go: False
        obtain c' where c': "message_loop (reliable j) ms ?c = (c', snd (handled ms))"
            "stats c' = (bump (fst (handled ms)) (stats ?c))\<lparr>errors := errors (stats c')\<rparr>"
            "server c' = (message_received ^^ length (fst (handled ms))) (server ?c)" using Cons.IH [of ?c] by blast
        have h: "handled (x # ms) = (m # fst (handled ms), snd (handled ms))"
          using Inr False go by (cases m) (simp_all add: case_prod_beta)
        have "message_loop (reliable j) (x # ms) c = (c', snd (handled ms))" using Inr w go c'(1) by simp
        moreover have "stats c' = (bump (m # fst (handled ms)) (stats c))\<lparr>errors := errors (stats c')\<rparr>"
        proof -
          have "bump (m # fst (handled ms)) (stats c) = bump (fst (handled ms)) (stats ?c)"
            by (subst bump_simps(2)) simp
          then show ?thesis using c'(2) by argo
        qed
        moreover have "server c' = (message_received ^^ length (m # fst (handled ms))) (server c)"
          using c'(3) by (simp add: funpow_swap1)
        ultimately show ?thesis unfolding h by auto
      qed
    qed
  qed
qed

lemma funpow_message_received:
  "(message_received ^^ n) s = s\<lparr>total_messages := (if n = 0 then total_messages s else (total_messages s + n) mod usize_bound)\<rparr>"
proof (induction n)
  case (Suc n)
  then show ?case by (simp add: message_received_def wrap_add_def mod_Suc_eq)
qed simp

definition run_connections ::
  "'w transport \<Rightarrow> ('e + message) list option list \<Rightarrow> server_stats \<times> 'w \<Rightarrow> server_stats \<times> 'w" where
  "run_connections T css s = fold (\<lambda>cs (sv, w). case handle_connection_with_stats T cs sv w of (sv, w, _) \<Rightarrow> (sv, w)) css s"

definition panics :: "('e + message) list option \<Rightarrow> bool" where
  "panics cs \<longleftrightarrow> (case cs of None \<Rightarrow> False | Some ms \<Rightarrow> snd (handled ms) = Panic)"

lemma handled_turn: "snd (handled ms) \<noteq> GoOn"
  by (induction ms rule: handled.induct) (auto simp: case_prod_beta split: message.split)

lemma handle_connection_reliable:
  assumes "active_connections sv + 1 < usize_bound" "total_connections sv + 1 < usize_bound"
  shows "\<exists>sv' w' st. handle_connection_with_stats (reliable j) cs sv w = (sv', w', st) \<and>
    total_connections sv' = total_connections sv + 1 \<and>
    active_connections sv' = active_connections sv + (if panics cs then 1 else 0) \<and>
    (\<forall>ms. cs = Some ms \<longrightarrow> (st = None \<longleftrightarrow> panics cs) \<and>
      (\<forall>x. st = Some x \<longrightarrow> x = (bump (fst (handled ms)) stats_new)\<lparr>errors := errors x\<rparr>))"
proof -
  have open': "connection_opened sv = sv\<lparr>total_connections := total_connections sv + 1, active_connections := active_connections sv + 1\<rparr>"
    using assms by (simp add: connection_opened_def wrap_add_def)
  have "wrap_sub (active_connections sv + 1) 1 = active_connections sv"
    using wrap_sub_mod [of "active_connections sv"] assms(1) by simp
  then have close: "wrap_sub (Suc (active_connections sv)) (Suc 0) = active_connections sv" by simp
  show ?thesis
  proof (cases cs)
    case None
    then show ?thesis by (simp add: handle_connection_with_stats_def open' connection_closed_def close panics_def)
  next
    case (Some ms)
    obtain c where c: "message_loop (reliable j) ms \<lparr>stats = stats_new, server = connection_opened sv, world = w\<rparr> = (c, snd (handled ms))"
      "stats c = (bump (fst (handled ms)) stats_new)\<lparr>errors := errors (stats c)\<rparr>"
      "server c = (message_received ^^ length (fst (handled ms))) (connection_opened sv)"
      using message_loop_reliable [of j ms "\<lparr>stats = stats_new, server = connection_opened sv, world = w\<rparr>"] by auto
    have "active_connections (server c) = active_connections sv + 1" "total_connections (server c) = total_connections sv + 1"
      unfolding c(3) funpow_message_received open' by simp_all
    then show ?thesis using Some c(1,2) close handled_turn [of ms]
      by (cases "snd (handled ms)") (simp_all add: handle_connection_with_stats_def connection_closed_def panics_def)
  qed
qed

text \<open>
  The statistics, when messages can be sent: a connection counts exactly the messages it handles,
  with their bytes; and after any connections one after the other, from the start, the total counts
  all of them, and the connections that count as active are exactly those whose handler panicked: a
  text of more than 50 bytes whose 51st byte continues a character ends the handler in the preview,
  before the connection is counted as closed.
\<close>

theorem debug_server_accounts:
  assumes "length css < usize_bound"
  shows "let (sv, w) = run_connections (reliable j) css (server_stats_new, []) in
    total_connections sv = length css \<and> active_connections sv = length (filter panics css) \<and>
    (\<forall>ms \<in> set css. \<forall>m. ms = Some [Inr (MText m)] \<longrightarrow> (panics ms \<longleftrightarrow> 50 < length m \<and> utf8_cont (m ! 50)))"
proof -
  have "length css < usize_bound \<Longrightarrow>
      total_connections (fst (run_connections (reliable j) css (server_stats_new, []))) = length css \<and>
      active_connections (fst (run_connections (reliable j) css (server_stats_new, []))) = length (filter panics css)"
  proof (induction css rule: rev_induct)
    case Nil
    then show ?case by (simp add: run_connections_def server_stats_new_def)
  next
    case (snoc cs css)
    obtain sv w where r: "run_connections (reliable j) css (server_stats_new, []) = (sv, w)" by fastforce
    then have n: "total_connections sv = length css" "active_connections sv = length (filter panics css)" using snoc by auto
    have le: "length (filter panics css) \<le> length css" by simp
    have lt: "length css + 1 < usize_bound" using snoc.prems by simp
    have "active_connections sv + 1 < usize_bound" "total_connections sv + 1 < usize_bound"
      unfolding n using le lt by linarith+
    from handle_connection_reliable [OF this, of j cs w] show ?case
      using r n by (auto simp: run_connections_def)
  qed
  then show ?thesis using assms by (auto simp: case_prod_beta Let_def panics_def long_split_def)
qed

theorem debug_server_accounts_witness:
  "let (sv, w) = run_connections (reliable (\<lambda>_. [])) [Some [Inr (MText (replicate 49 0x61 @ [0xC3, 0xA9]))], Some [Inl ()]]
       (server_stats_new, []) in
     total_connections sv = 2 \<and> active_connections sv = 1"
proof -
  let ?css = "[Some [Inr (MText (replicate 49 0x61 @ [0xC3, 0xA9]))], Some [Inl ()]]"
  have "(replicate 49 0x61 @ [0xC3, 0xA9] :: bytes) ! 50 = 0xA9" by (simp add: nth_append)
  then have "length (filter panics ?css) = 1"
    by (simp add: panics_def long_split_def utf8_cont_def)
  then show ?thesis using debug_server_accounts [of ?css "\<lambda>_. []"] by (simp add: case_prod_beta Let_def)
qed

end
