(* ===== verification/Ws_Heartbeat.thy ===== *)
theory Ws_Heartbeat
  imports Uproto_Prelude
begin

text \<open>
  \<^verbatim>\<open>WebSocket/src/08/websocket_ping_pong.rs\<close>: the server's connection handler and the client, two
  loops over \<open>tokio::select!\<close>. A run is the sequence of the events the two branches take: what the
  stream yields, and ticks of the interval, each with the readings of the clock its branch makes, in
  nanoseconds. The WebSocket library is not part of the repository; sending is an argument that
  maps the state of the write half and a message to its new state and a result.
\<close>

named_theorems heartbeat_ops \<open>the branches of the two loops\<close>

datatype 'f message = Text string | Binary bytes | Ping bytes | Pong bytes | Close "'f option" | Frame

datatype ('f, 'e) incoming = Message "'f message" | WsError 'e | Eof

text \<open>
  \<open>Incoming now x\<close>: the stream yields \<open>x\<close>, and a pong is stamped \<open>now\<close>. \<open>Tick now now1 now2\<close>: the interval
  fires, \<open>now\<close> is the reading of the timeout check and \<open>now1\<close>, \<open>now2\<close> are those of the ping's payload.
\<close>

datatype ('f, 'e) event = Incoming nat "('f, 'e) incoming" | Tick nat nat nat

type_synonym ('w, 'f, 'e) sender = "'w \<Rightarrow> 'f message \<Rightarrow> 'w \<times> ('e + unit)"

text \<open>The loop goes on, was left by \<open>break\<close> (the handler returns \<open>Ok\<close>), or returned an error.\<close>

datatype ('s, 'e) control = Continue 's | Break | Failed 'e

definition ping_interval :: nat where
  "ping_interval = 30000000000"

definition pong_timeout :: nat where
  "pong_timeout = 10000000000"

record connection_state =
  last_pong_received :: nat
  waiting_for_pong :: bool

definition connection_new :: "nat \<Rightarrow> connection_state" where
  "connection_new now = \<lparr>last_pong_received = now, waiting_for_pong = False\<rparr>"

subsection \<open>The server\<close>

text \<open>\<open>write.send(m).await?\<close> followed by the rest of the branch.\<close>

definition send_or_fail ::
    "('w, 'f, 'e) sender \<Rightarrow> 'w \<Rightarrow> 'f message \<Rightarrow> ('s, 'e) control \<Rightarrow> 'w \<times> ('s, 'e) control" where
  [heartbeat_ops]: "send_or_fail send w m k =
     (case send w m of (w', Inr _) \<Rightarrow> (w', k) | (w', Inl e) \<Rightarrow> (w', Failed e))"

fun on_incoming ::
    "('w, 'f, 'e) sender \<Rightarrow> nat \<Rightarrow> ('f, 'e) incoming \<Rightarrow> 'w \<Rightarrow> connection_state
      \<Rightarrow> 'w \<times> (connection_state, 'e) control" where
  "on_incoming send now (Message (Text t)) w st = send_or_fail send w (Text t) (Continue st)"
| "on_incoming send now (Message (Binary d)) w st = send_or_fail send w (Binary d) (Continue st)"
| "on_incoming send now (Message (Ping payload)) w st = send_or_fail send w (Pong payload) (Continue st)"
| "on_incoming send now (Message (Pong _)) w st =
     (w, Continue (st\<lparr>last_pong_received := now, waiting_for_pong := False\<rparr>))"
| "on_incoming send now (Message (Close _)) w st = send_or_fail send w (Close None) Break"
| "on_incoming send now (Message Frame) w st = (w, Continue st)"
| "on_incoming send now (WsError e) w st = (w, Break)"
| "on_incoming send now Eof w st = (w, Break)"

definition ping_payload :: "nat \<Rightarrow> nat \<Rightarrow> bytes" where
  "ping_payload now1 now2 = ascii (''ping-'' @ string_of_nat ((now2 - now1) div 1000000000))"

definition on_tick ::
    "('w, 'f, 'e) sender \<Rightarrow> nat \<Rightarrow> nat \<Rightarrow> nat \<Rightarrow> 'w \<Rightarrow> connection_state \<Rightarrow> 'w \<times> (connection_state, 'e) control" where
  "on_tick send now now1 now2 w st =
     (if waiting_for_pong st \<and> now - last_pong_received st > pong_timeout
      then send_or_fail send w (Close None) Break
      else (case send w (Ping (ping_payload now1 now2)) of
              (w', Inr _) \<Rightarrow> (w', Continue (st\<lparr>waiting_for_pong := True\<rparr>))
            | (w', Inl _) \<Rightarrow> (w', Break)))"

fun server_loop ::
    "('w, 'f, 'e) sender \<Rightarrow> ('f, 'e) event list \<Rightarrow> 'w \<Rightarrow> connection_state \<Rightarrow> 'w \<times> (connection_state, 'e) control" where
  "server_loop send [] w st = (w, Continue st)"
| "server_loop send (ev # evs) w st =
     (case (case ev of Incoming now x \<Rightarrow> on_incoming send now x w st
                     | Tick now now1 now2 \<Rightarrow> on_tick send now now1 now2 w st) of
        (w', Continue st') \<Rightarrow> server_loop send evs w' st'
      | (w', Break) \<Rightarrow> (w', Break)
      | (w', Failed e) \<Rightarrow> (w', Failed e))"

text \<open>\<open>handle_connection\<close>: the handshake may fail; the first tick completes at once and is not an event.\<close>

definition handle_connection ::
    "('w, 'f, 'e) sender \<Rightarrow> ('e + 'w) \<Rightarrow> nat \<Rightarrow> ('f, 'e) event list \<Rightarrow> 'e + ('w \<times> (connection_state, 'e) control)" where
  "handle_connection send accepted now evs =
     (case accepted of Inl e \<Rightarrow> Inl e | Inr w \<Rightarrow> Inr (server_loop send evs w (connection_new now)))"

subsection \<open>The client\<close>

fun client_incoming ::
    "('w, 'f, 'e) sender \<Rightarrow> nat \<Rightarrow> ('f, 'e) incoming \<Rightarrow> 'w \<Rightarrow> nat \<Rightarrow> 'w \<times> (nat, 'e) control" where
  "client_incoming send now (Message (Pong _)) w last_pong = (w, Continue now)"
| "client_incoming send now (Message (Ping payload)) w last_pong = send_or_fail send w (Pong payload) (Continue last_pong)"
| "client_incoming send now (Message (Text _)) w last_pong = (w, Continue last_pong)"
| "client_incoming send now (Message (Close _)) w last_pong = (w, Break)"
| "client_incoming send now (WsError _) w last_pong = (w, Break)"
| "client_incoming send now Eof w last_pong = (w, Break)"
| "client_incoming send now (Message (Binary _)) w last_pong = (w, Continue last_pong)"
| "client_incoming send now (Message Frame) w last_pong = (w, Continue last_pong)"

definition client_tick ::
    "('w, 'f, 'e) sender \<Rightarrow> nat \<Rightarrow> 'w \<Rightarrow> nat \<Rightarrow> 'w \<times> (nat, 'e) control" where
  "client_tick send now w last_pong =
     (if now - last_pong > 40000000000 then (w, Break)
      else send_or_fail send w (Ping []) (Continue last_pong))"

fun client_loop ::
    "('w, 'f, 'e) sender \<Rightarrow> ('f, 'e) event list \<Rightarrow> 'w \<Rightarrow> nat \<Rightarrow> 'w \<times> (nat, 'e) control" where
  "client_loop send [] w last_pong = (w, Continue last_pong)"
| "client_loop send (ev # evs) w last_pong =
     (case (case ev of Incoming now x \<Rightarrow> client_incoming send now x w last_pong
                     | Tick now _ _ \<Rightarrow> client_tick send now w last_pong) of
        (w', Continue l) \<Rightarrow> client_loop send evs w' l
      | (w', Break) \<Rightarrow> (w', Break)
      | (w', Failed e) \<Rightarrow> (w', Failed e))"

subsection \<open>The server without a clock\<close>

text \<open>
  The reference has one bit, whether a pong arrived since the last ping, and no time. It gives the
  messages to write and whether the loop is to be left, as long as writing succeeds.
\<close>

fun reply_to :: "'f message \<Rightarrow> 'f message list" where
  "reply_to (Text t) = [Text t]" | "reply_to (Binary d) = [Binary d]" | "reply_to (Ping p) = [Pong p]"
| "reply_to (Pong _) = []" | "reply_to (Close _) = [Close None]" | "reply_to Frame = []"

fun is_pong :: "'f message \<Rightarrow> bool" where
  "is_pong (Pong _) = True" | "is_pong _ = False"

fun is_close :: "'f message \<Rightarrow> bool" where
  "is_close (Close _) = True" | "is_close _ = False"

fun reference :: "bool \<Rightarrow> ('f, 'e) event list \<Rightarrow> 'f message list \<times> bool" where
  "reference answered [] = ([], False)"
| "reference answered (Incoming _ (Message m) # evs) =
     (if is_close m then (reply_to m, True)
      else apfst ((@) (reply_to m)) (reference (answered \<or> is_pong m) evs))"
| "reference answered (Incoming _ _ # evs) = ([], True)"
| "reference answered (Tick _ now1 now2 # evs) =
     (if answered then apfst ((#) (Ping (ping_payload now1 now2))) (reference False evs)
      else ([Close None], True))"

text \<open>The events come in order of time, and every tick more than the timeout after the one before.\<close>

fun spaced :: "nat \<Rightarrow> nat \<Rightarrow> ('f, 'e) event list \<Rightarrow> bool" where
  "spaced now tick [] \<longleftrightarrow> True"
| "spaced now tick (Incoming t _ # evs) \<longleftrightarrow> now \<le> t \<and> spaced t tick evs"
| "spaced now tick (Tick t _ _ # evs) \<longleftrightarrow> now \<le> t \<and> tick + pong_timeout < t \<and> spaced t t evs"

text \<open>
  A write half that fails as it likes: \<open>fails\<close> gives the error of a write, from the writes attempted
  before and the message. The messages of the reference are written until one fails.
\<close>

type_synonym ('f, 'e) failing = "'f message list \<Rightarrow> 'f message \<Rightarrow> 'e option"

definition log_send :: "('f, 'e) failing \<Rightarrow> ('f message list, 'f, 'e) sender" where
  [heartbeat_ops]: "log_send fails log m =
     (log @ [m], case fails log m of None \<Rightarrow> Inr () | Some e \<Rightarrow> Inl e)"

fun attempted :: "('f, 'e) failing \<Rightarrow> 'f message list \<Rightarrow> 'f message list \<Rightarrow> 'f message list \<times> ('f message \<times> 'e) option" where
  "attempted fails log [] = (log, None)"
| "attempted fails log (m # ms) =
     (case fails log m of None \<Rightarrow> attempted fails (log @ [m]) ms | Some e \<Rightarrow> (log @ [m], Some (m, e)))"

fun is_ping :: "'f message \<Rightarrow> bool" where
  "is_ping (Ping _) = True" | "is_ping _ = False"

definition follows ::
    "('f, 'e) failing \<Rightarrow> 'f message list \<Rightarrow> 'f message list \<times> bool \<Rightarrow> 'f message list \<times> (connection_state, 'e) control \<Rightarrow> bool" where
  "follows fails log plan r \<longleftrightarrow> fst r = fst (attempted fails log (fst plan)) \<and>
     (case snd (attempted fails log (fst plan)) of
        None \<Rightarrow> if snd plan then snd r = Break else \<exists>st'. snd r = Continue st'
      | Some (m, e) \<Rightarrow> snd r = (if is_ping m then Break else Failed e))"

lemma follows_simps [simp]:
  "follows fails log ([], True) (log, Break)" "follows fails log ([], False) (log, Continue st)"
  "fails log m = None \<Longrightarrow> follows fails log (m # ms, fin) r = follows fails (log @ [m]) (ms, fin) r"
  "fails log m = Some e \<Longrightarrow> follows fails log (m # ms, fin) (log @ [m], if is_ping m then Break else Failed e)"
  by (simp_all add: follows_def)

text \<open>One event, with the rest of the loop.\<close>

lemma follows_reply:
  assumes "fails log m = None \<Longrightarrow> follows fails (log @ [m]) plan r" "\<not> is_ping m"
  shows "follows fails log (apfst ((#) m) plan)
    (case fails log m of None \<Rightarrow> r | Some e \<Rightarrow> (log @ [m], Failed e))"
  using assms follows_simps(4) [of fails log m _ "fst plan" "snd plan"]
  by (cases plan) (auto split: option.split)

lemma apfst_append [simp]: "apfst ((@) []) p = p" "apfst ((@) [m]) p = apfst ((#) m) p"
  by (simp_all add: prod_eq_iff)

lemma server_loop_send:
  "server_loop (log_send fails) (Incoming t (Message m) # evs) log st =
     (case reply_to m of
        [] \<Rightarrow> server_loop (log_send fails) evs log
                (if is_pong m then st\<lparr>last_pong_received := t, waiting_for_pong := False\<rparr> else st)
      | x # _ \<Rightarrow> (case fails log x of
          None \<Rightarrow> (if is_close m then (log @ [x], Break) else server_loop (log_send fails) evs (log @ [x]) st)
        | Some e \<Rightarrow> (log @ [x], Failed e)))"
  by (cases m) (simp_all add: send_or_fail_def log_send_def split: option.split)

lemma server_loop_tick:
  "server_loop (log_send fails) (Tick t now1 now2 # evs) log st =
     (if waiting_for_pong st \<and> t - last_pong_received st > pong_timeout
      then (log @ [Close None], case fails log (Close None) of None \<Rightarrow> Break | Some e \<Rightarrow> Failed e)
      else (case fails log (Ping (ping_payload now1 now2)) of
          None \<Rightarrow> server_loop (log_send fails) evs (log @ [Ping (ping_payload now1 now2)]) (st\<lparr>waiting_for_pong := True\<rparr>)
        | Some e \<Rightarrow> (log @ [Ping (ping_payload now1 now2)], Break)))"
  by (simp add: on_tick_def send_or_fail_def log_send_def split: option.split)

lemma follows_tick:
  assumes "fails log (Ping x) = None \<Longrightarrow> follows fails (log @ [Ping x]) plan r"
  shows "follows fails log (apfst ((#) (Ping x)) plan)
    (case fails log (Ping x) of None \<Rightarrow> r | Some e \<Rightarrow> (log @ [Ping x], Break))"
  using assms follows_simps(4) [of fails log "Ping x" _ "fst plan" "snd plan"]
  by (cases plan) (auto split: option.split)

lemma server_loop_reference:
  assumes "spaced now tick evs" "tick \<le> now" "last_pong_received st \<le> now"
    and "waiting_for_pong st \<Longrightarrow> last_pong_received st \<le> tick"
  shows "follows fails log (reference (\<not> waiting_for_pong st) evs) (server_loop (log_send fails) evs log st)"
  using assms
proof (induction evs arbitrary: now tick log st)
  case (Cons ev evs)
  show ?case
  proof (cases ev)
    case (Incoming t x)
    show ?thesis
    proof (cases x)
      case (Message m)
      let ?st = "if is_pong m then st\<lparr>last_pong_received := t, waiting_for_pong := False\<rparr> else st"
      have IH: "follows fails log' (reference (\<not> waiting_for_pong ?st) evs) (server_loop (log_send fails) evs log' ?st)" for log'
        using Cons.IH [of t tick ?st log'] Cons.prems Incoming by auto
      have bit: "(\<not> waiting_for_pong ?st) = (\<not> waiting_for_pong st \<or> is_pong m)" by simp
      show ?thesis unfolding Incoming Message server_loop_send
        using IH [unfolded bit] follows_reply [of fails log "Close None" "([], True)" "(log @ [Close None], Break)"]
        by (cases m) (simp_all add: follows_reply)
    qed (use Incoming in simp_all)
  next
    case (Tick t now1 now2)
    then have t: "now \<le> t" "tick + pong_timeout < t" "spaced t t evs" using Cons.prems by auto
    show ?thesis
    proof (cases "waiting_for_pong st")
      case True
      then have "pong_timeout < t - last_pong_received st" using Cons.prems(4) t(2) by linarith
      then show ?thesis unfolding Tick server_loop_tick
        using True follows_reply [of fails log "Close None" "([], True)" "(log @ [Close None], Break)"]
        by (auto split: option.splits)
    next
      case False
      then show ?thesis unfolding Tick server_loop_tick
        using t Cons.prems Cons.IH [of t t "st\<lparr>waiting_for_pong := True\<rparr>"] by (simp add: follows_tick)
    qed
  qed
qed simp

subsection \<open>Dead and live peers\<close>

fun pongs :: "('f, 'e) event list \<Rightarrow> nat" where
  "pongs [] = 0"
| "pongs (Incoming _ (Message (Pong _)) # evs) = Suc (pongs evs)"
| "pongs (_ # evs) = pongs evs"

fun ticks :: "('f, 'e) event list \<Rightarrow> nat" where
  "ticks [] = 0"
| "ticks (Tick _ _ _ # evs) = Suc (ticks evs)"
| "ticks (_ # evs) = ticks evs"

lemma reference_silent:
  "pongs evs = 0 \<Longrightarrow> (if answered then 2 else 1) \<le> ticks evs \<Longrightarrow> snd (reference answered evs)"
proof (induction answered evs rule: reference.induct)
  case (2 answered t m evs)
  then show ?case by (cases m) auto
qed (auto split: if_splits)

text \<open>Between two ticks a peer that answers sends a pong.\<close>

fun answers :: "bool \<Rightarrow> ('f, 'e) event list \<Rightarrow> bool" where
  "answers answered [] \<longleftrightarrow> True"
| "answers answered (Incoming _ (Message m) # evs) \<longleftrightarrow> \<not> is_close m \<and> answers (answered \<or> is_pong m) evs"
| "answers answered (Incoming _ _ # evs) \<longleftrightarrow> False"
| "answers answered (Tick _ _ _ # evs) \<longleftrightarrow> answered \<and> answers False evs"

lemma reference_answers: "snd (reference answered evs) \<longleftrightarrow> \<not> answers answered evs"
  by (induction answered evs rule: reference.induct) auto

text \<open>
  C36. The timeout of ten seconds plays no role. When the events come in order and the ticks are more
  than the timeout apart (they are thirty seconds apart), and whichever writes fail, the server
  attempts exactly the writes of the reference without a clock, echoes, pongs, one ping per tick and
  at last a close frame, up to the first that fails. If none fails, it leaves the loop as soon as
  the peer closes, the stream ends or a whole interval passes without a pong, and never otherwise,
  so that a late pong is accepted until the next tick; a peer that sends no more pongs is given
  up after at most two more ticks. If one fails, the loop ends there: with \<open>Ok\<close> if it was a ping,
  and with the error if it was any other message.
\<close>

theorem heartbeat_exact:
  assumes "spaced now now evs"
  shows "\<exists>log failure c. handle_connection (log_send fails) (Inr []) now evs = Inr (log, c)
    \<and> attempted fails [] (fst (reference True evs)) = (log, failure)
    \<and> (case failure of
         None \<Rightarrow> (if answers True evs then \<exists>st. c = Continue st else c = Break)
           \<and> (pongs evs = 0 \<and> 2 \<le> ticks evs \<longrightarrow> c = Break)
       | Some (m, e) \<Rightarrow> c = (if is_ping m then Break else Failed e))"
proof -
  let ?r = "server_loop (log_send fails) evs [] (connection_new now)"
  obtain log failure where a: "attempted fails [] (fst (reference True evs)) = (log, failure)" by fastforce
  have st: "(\<not> waiting_for_pong (connection_new now)) = True" "last_pong_received (connection_new now) \<le> now"
    by (simp_all add: connection_new_def)
  have "fst ?r = log \<and> (case failure of
       None \<Rightarrow> if snd (reference True evs) then snd ?r = Break else \<exists>st'. snd ?r = Continue st'
     | Some (m, e) \<Rightarrow> snd ?r = (if is_ping m then Break else Failed e))"
    by (rule server_loop_reference [OF assms order_refl st(2), of fails "[]",
          unfolded follows_def st(1) a fst_conv snd_conv])
      (simp add: connection_new_def)
  then show ?thesis using a reference_silent [of evs True] reference_answers [of True evs]
    by (intro exI [of _ log] exI [of _ failure] exI [of _ "snd ?r"])
      (auto simp: handle_connection_def prod_eq_iff split: option.splits)
qed

lemma heartbeat_exact_witness:
  "(\<exists>c. handle_connection (log_send (\<lambda>_ _. None)) (Inr []) 0
      [Tick 30000000000 30000000000 30000000000, Incoming 55000000000 (Message (Pong [])) :: (unit, unit) event,
       Tick 60000000000 60000000000 60000000000, Tick 90000000000 90000000000 90000000000] =
    Inr ([Ping (ping_payload 30000000000 30000000000), Ping (ping_payload 60000000000 60000000000), Close None], c)
    \<and> c = Break) \<and>
   handle_connection (log_send (\<lambda>log _. if log = [] then None else Some ())) (Inr []) 0
      [Tick 30000000000 30000000000 30000000000, Incoming 35000000000 (Message (Text ''a'')),
       Incoming 36000000000 (Message (Text ''b'')) :: (unit, unit) event] =
    Inr ([Ping (ping_payload 30000000000 30000000000), Text ''a''], Failed ())"
proof -
  let ?evs = "[Tick 30000000000 30000000000 30000000000, Incoming 55000000000 (Message (Pong [])) :: (unit, unit) event,
       Tick 60000000000 60000000000 60000000000, Tick 90000000000 90000000000 90000000000]"
  let ?evs2 = "[Tick 30000000000 30000000000 30000000000, Incoming 35000000000 (Message (Text ''a'')),
       Incoming 36000000000 (Message (Text ''b'')) :: (unit, unit) event]"
  have "spaced 0 0 ?evs" "spaced 0 0 ?evs2" by (simp_all add: pong_timeout_def)
  from heartbeat_exact [OF this(1), of "\<lambda>_ _. None"]
    heartbeat_exact [OF this(2), of "\<lambda>log _. if log = [] then None else Some ()"]
  show ?thesis by auto
qed

subsection \<open>The payload\<close>

text \<open>The payload shows the age of an instant that was read just before: \<open>ping-0\<close> unless a whole second passes between.\<close>

lemma ping_payload_constant:
  assumes "now2 < now1 + 1000000000"
  shows "ping_payload now1 now2 = ascii ''ping-0''"
proof -
  have "(now2 - now1) div 1000000000 = 0" using assms by simp
  moreover have "string_of_nat 0 = ''0''" by code_simp
  ultimately show ?thesis by (simp add: ping_payload_def)
qed

subsection \<open>The client\<close>

text \<open>
  A client whose server answers no more stops at the first tick after forty seconds; until then, with
  writes that succeed, it goes on.
\<close>

lemma client_gives_up:
  assumes "\<forall>ev \<in> set evs. \<exists>t a b. ev = Tick t a b \<and> t \<le> last_pong + 40000000000"
    and "last_pong + 40000000000 < t"
  shows "client_loop (log_send (\<lambda>_ _. None)) (evs @ [Tick t a b]) log last_pong = (log @ replicate (length evs) (Ping []), Break)"
  using assms(1)
proof (induction evs arbitrary: log)
  case Nil
  then show ?case using assms(2) by (simp add: client_tick_def less_diff_conv add.commute)
next
  case (Cons ev evs)
  then show ?case
    by (auto simp: client_tick_def send_or_fail_def log_send_def replicate_append_same)
qed

end
