(* ===== verification/Ws_Lifecycle.thy ===== *)
theory Ws_Lifecycle
  imports Ws_Heartbeat "HOL-Library.Sublist"
begin

text \<open>
  \<^verbatim>\<open>WebSocket/src/07/websocket_connection_lifecycle.rs\<close>, a client with a sending and a receiving task and an
  echo server, and \<^verbatim>\<open>WebSocket/src/44/websocket_server_with_debug_logging.rs\<close>, a numbering echo server.
  Messages and sending are those of \<open>Ws_Heartbeat\<close>; a run of a receiving loop is the list of what its
  stream yields. The locale \<open>message_server\<close> is what the two servers have in common.
\<close>

subsection \<open>The client\<close>

datatype lifecycle_state = Connecting | Open | Closing | Closed

record ws_connection =
  lc_state :: lifecycle_state
  ping_count :: nat
  message_count :: nat

definition ws_connection_new :: ws_connection where
  "ws_connection_new = \<lparr>lc_state = Connecting, ping_count = 0, message_count = 0\<rparr>"

definition transition_to :: "lifecycle_state \<Rightarrow> ws_connection \<Rightarrow> ws_connection" where
  "transition_to new_state c = c\<lparr>lc_state := new_state\<rparr>"

text \<open>The code and the reason of a close frame.\<close>

type_synonym close_frame = "nat \<times> string"

text \<open>The sending task, one tick after the other; the result is the write half that it hands back.\<close>

function ping_task :: "('w, close_frame, 'e) sender \<Rightarrow> nat \<Rightarrow> 'w \<Rightarrow> 'w" where
  "ping_task send n w =
     (case send w (Ping (ascii (''ping-'' @ string_of_nat n))) of
        (w, Inl e) \<Rightarrow> w
      | (w, Inr _) \<Rightarrow>
          let n = n + 1;
              (w, r) = (if n mod 2 = 0 then send w (Text (''Test message #'' @ string_of_nat (n div 2))) else (w, Inr ()))
          in (case r of
                Inl e \<Rightarrow> w
              | Inr _ \<Rightarrow>
                  if n \<ge> 5 then fst (send w (Close (Some (1000, ''Normal closure''))))
                  else ping_task send n w))"
  by pat_completeness auto
termination by (relation "measure (\<lambda>(send, n, w). 5 - n)") auto

declare ping_task.simps [simp del]

text \<open>The receiving task; the counter of text messages is a \<open>u32\<close>.\<close>

fun receive_loop :: "(close_frame, 'e) incoming list \<Rightarrow> ws_connection \<Rightarrow> ws_connection run" where
  "receive_loop [] c = Some c"
| "receive_loop (Eof # xs) c = Some c"
| "receive_loop (WsError e # xs) c = Some (transition_to Closed c)"
| "receive_loop (Message (Text t) # xs) c =
     (if message_count c + 1 < 2 ^ 32 then receive_loop xs (c\<lparr>message_count := message_count c + 1\<rparr>) else None)"
| "receive_loop (Message (Close f) # xs) c = Some (transition_to Closing c)"
| "receive_loop (Message _ # xs) c = receive_loop xs c"

definition receive_task :: "(close_frame, 'e) incoming list \<Rightarrow> ws_connection run" where
  "receive_task xs =
     do { c \<leftarrow> receive_loop xs (transition_to Open ws_connection_new); Some (transition_to Closed c) }"

text \<open>
  The whole client: the connection may fail; then both tasks run to their end. The result is the
  final connection, the total it prints and whether it had to force the closure.
\<close>

definition lifecycle ::
    "('w, close_frame, 'e) sender \<Rightarrow> ('e + 'w) \<Rightarrow> (close_frame, 'e) incoming list \<Rightarrow> ('e + ws_connection \<times> nat \<times> bool \<times> 'w) run" where
  "lifecycle send connected xs =
     (case connected of
        Inl e \<Rightarrow> Some (Inl e)
      | Inr w \<Rightarrow>
          do {
            let connection = transition_to Open ws_connection_new;
            let write_back = ping_task send 0 w;
            final_connection \<leftarrow> receive_task xs;
            Some (Inr (transition_to Closed connection, message_count final_connection,
                       lc_state final_connection \<noteq> Closed, write_back)) })"

subsection \<open>The echo server\<close>

fun echo_loop :: "('w, 'f, 'e) sender \<Rightarrow> ('f, 'e) incoming list \<Rightarrow> 'w \<Rightarrow> 'w \<times> (unit, 'e) control" where
  "echo_loop send [] w = (w, Break)"
| "echo_loop send (Eof # xs) w = (w, Break)"
| "echo_loop send (WsError e # xs) w = (w, Break)"
| "echo_loop send (Message m # xs) w =
     (case m of
        Text t \<Rightarrow> (case send w (Text t) of (w, Inl e) \<Rightarrow> (w, Failed e) | (w, Inr _) \<Rightarrow> echo_loop send xs w)
      | Binary d \<Rightarrow> (case send w (Binary d) of (w, Inl e) \<Rightarrow> (w, Failed e) | (w, Inr _) \<Rightarrow> echo_loop send xs w)
      | Ping p \<Rightarrow> (case send w (Pong p) of (w, Inl e) \<Rightarrow> (w, Failed e) | (w, Inr _) \<Rightarrow> echo_loop send xs w)
      | Close f \<Rightarrow> (case send w (Close f) of (w, Inl e) \<Rightarrow> (w, Failed e) | (w, Inr _) \<Rightarrow> (w, Break))
      | _ \<Rightarrow> echo_loop send xs w)"

subsection \<open>The numbering server\<close>

text \<open>The counter is a \<open>u64\<close>; every message counts, of whatever kind. Errors of sending end the loop.\<close>

fun debug_loop :: "('w, 'f, 'e) sender \<Rightarrow> nat \<Rightarrow> ('f, 'e) incoming list \<Rightarrow> 'w \<Rightarrow> ('w \<times> nat) run" where
  "debug_loop send n [] w = Some (w, n)"
| "debug_loop send n (Eof # xs) w = Some (w, n)"
| "debug_loop send n (WsError e # xs) w = Some (w, n)"
| "debug_loop send n (Message m # xs) w =
     do {
       n \<leftarrow> uadd n 1;
       case m of
         Text t \<Rightarrow>
           (case send w (Text (''Echo #'' @ string_of_nat n @ '': '' @ t)) of
              (w, Inl e) \<Rightarrow> Some (w, n) | (w, Inr _) \<Rightarrow> debug_loop send n xs w)
       | Binary d \<Rightarrow>
           (case send w (Binary d) of (w, Inl e) \<Rightarrow> Some (w, n) | (w, Inr _) \<Rightarrow> debug_loop send n xs w)
       | Ping d \<Rightarrow>
           (case send w (Pong d) of (w, Inl e) \<Rightarrow> Some (w, n) | (w, Inr _) \<Rightarrow> debug_loop send n xs w)
       | Close f \<Rightarrow> Some (fst (send w (Close None)), n)
       | _ \<Rightarrow> debug_loop send n xs w }"

subsection \<open>What the servers have in common\<close>

fun until_close :: "('f, 'e) incoming list \<Rightarrow> 'f message list" where
  "until_close (Message m # xs) = (if is_close m then [m] else m # until_close xs)"
| "until_close _ = []"

locale message_server =
  fixes serve :: "nat \<Rightarrow> ('f, 'e) incoming list \<Rightarrow> 'f message list"
    and reply :: "nat \<Rightarrow> 'f message \<Rightarrow> 'f message list"
  assumes serve_Nil: "serve n [] = []"
    and serve_end: "serve n (Eof # xs) = []" "serve n (WsError e # xs) = []"
    and serve_close: "is_close m \<Longrightarrow> n + 1 < usize_bound \<Longrightarrow> serve n (Message m # xs) = reply n m"
    and serve_message: "\<not> is_close m \<Longrightarrow> Suc n + length xs < usize_bound
      \<Longrightarrow> serve n (Message m # xs) = reply n m @ serve (Suc n) xs"
begin

lemma serve_exact:
  "n + length xs < usize_bound \<Longrightarrow>
    serve n xs = concat (map (\<lambda>(i, m). reply i m) (zip [n..<n + length (until_close xs)] (until_close xs)))"
proof (induction xs arbitrary: n rule: until_close.induct)
  case (1 m xs)
  show ?case
  proof (cases "is_close m")
    case True
    then show ?thesis using 1(2) by (simp add: serve_close)
  next
    case False
    have "[n..<n + length (until_close (Message m # xs))] = n # [Suc n..<Suc n + length (until_close xs)]"
      using False by (simp add: upt_rec)
    then show ?thesis using False 1(1) [OF False, of "Suc n"] 1(2) by (simp add: serve_message del: upt_Suc)
  qed
qed (simp_all add: serve_Nil serve_end)

text \<open>What arrives later never changes what was answered.\<close>

lemma serve_prefix: "n + length (xs @ ys) < usize_bound \<Longrightarrow> prefix (serve n xs) (serve n (xs @ ys))"
proof (induction xs arbitrary: n)
  case (Cons x xs)
  show ?case
  proof (cases x)
    case (Message m)
    then show ?thesis using Cons by (cases "is_close m") (simp_all add: serve_close serve_message)
  qed (simp_all add: serve_end)
qed (simp add: serve_Nil)

end

text \<open>The messages the servers write while no write fails.\<close>

definition sure_send :: "'f message list \<Rightarrow> 'f message \<Rightarrow> 'f message list \<times> ('e + unit)" where
  "sure_send l m = (l @ [m], Inr ())"

definition echo_serve :: "nat \<Rightarrow> ('f, 'e) incoming list \<Rightarrow> 'f message list" where
  "echo_serve n xs = fst (echo_loop (sure_send :: ('f message list, 'f, 'e) sender) xs [])"

definition debug_serve :: "nat \<Rightarrow> ('f, 'e) incoming list \<Rightarrow> 'f message list" where
  "debug_serve n xs = (case debug_loop (sure_send :: ('f message list, 'f, 'e) sender) n xs [] of None \<Rightarrow> [] | Some (w, _) \<Rightarrow> w)"

fun echo_reply :: "nat \<Rightarrow> 'f message \<Rightarrow> 'f message list" where
  "echo_reply n (Text t) = [Text t]" | "echo_reply n (Binary d) = [Binary d]" | "echo_reply n (Ping p) = [Pong p]"
| "echo_reply n (Pong _) = []" | "echo_reply n (Close f) = [Close f]" | "echo_reply n Frame = []"

fun debug_reply :: "nat \<Rightarrow> 'f message \<Rightarrow> 'f message list" where
  "debug_reply n (Text t) = [Text (''Echo #'' @ string_of_nat (Suc n) @ '': '' @ t)]"
| "debug_reply n m = reply_to m"

lemma sure_send_app:
  "(case sure_send l m of (w, Inl e) \<Rightarrow> P w e | (w, Inr u) \<Rightarrow> Q w u) = Q (l @ [m]) ()"
  "fst (sure_send l m) = l @ [m]"
  by (simp_all add: sure_send_def)

lemma echo_loop_log:
  "fst (echo_loop (sure_send :: ('f message list, 'f, 'e) sender) xs log) = log @ echo_serve 0 xs"
proof (induction xs arbitrary: log)
  case (Cons x xs)
  show ?case
  proof (cases x)
    case (Message m)
    then show ?thesis using Cons [of log] Cons [of "[_]"] Cons [of "log @ [_]"]
      by (cases m) (simp_all add: echo_serve_def sure_send_app)
  qed (simp_all add: echo_serve_def)
qed (simp add: echo_serve_def)

lemma debug_loop_log:
  "n + length xs < usize_bound \<Longrightarrow>
    \<exists>k. debug_loop (sure_send :: ('f message list, 'f, 'e) sender) n xs log = Some (log @ debug_serve n xs, k)"
proof (induction xs arbitrary: n log)
  case (Cons x xs)
  show ?case
  proof (cases x)
    case (Message m)
    have IH: "\<exists>k. debug_loop (sure_send :: ('f message list, 'f, 'e) sender) (Suc n) xs l = Some (l @ debug_serve (Suc n) xs, k)" for l
      using Cons.IH [of "Suc n"] Cons.prems by simp
    have n: "uadd n (Suc 0) = Some (Suc n)" using Cons.prems by (simp add: uadd_def)
    show ?thesis
    proof (cases m)
      case (Text t)
      let ?r = "Text (''Echo #'' @ string_of_nat (Suc n) @ '': '' @ t)"
      show ?thesis using IH [of "log @ [?r]"] IH [of "[?r]"]
        by (auto simp: Message Text n debug_serve_def sure_send_app)
    next
      case (Binary d)
      show ?thesis using IH [of "log @ [Binary d]"] IH [of "[Binary d]"]
        by (auto simp: Message Binary n debug_serve_def sure_send_app)
    next
      case (Ping d)
      show ?thesis using IH [of "log @ [Pong d]"] IH [of "[Pong d]"]
        by (auto simp: Message Ping n debug_serve_def sure_send_app)
    next
      case (Pong d)
      show ?thesis using IH [of log] IH [of "[]"] by (auto simp: Message Pong n debug_serve_def)
    next
      case Frame
      show ?thesis using IH [of log] IH [of "[]"] by (auto simp: Message Frame n debug_serve_def)
    qed (simp add: Message n debug_serve_def sure_send_app)
  qed (simp_all add: debug_serve_def)
qed (simp add: debug_serve_def)

lemma echo_serve_step:
  fixes xs :: "('f, 'e) incoming list"
  assumes "\<not> is_close m"
  shows "echo_serve n (Message m # xs) = echo_reply n m @ echo_serve (Suc n) xs"
proof -
  have "echo_serve n (Message m # xs) =
      fst (echo_loop (sure_send :: ('f message list, 'f, 'e) sender) xs (echo_reply n m))"
    using assms by (cases m) (simp_all add: echo_serve_def sure_send_app)
  also have "\<dots> = echo_reply n m @ echo_serve 0 xs" by (rule echo_loop_log)
  finally show ?thesis by (simp only: echo_serve_def)
qed

interpretation echo: message_server echo_serve echo_reply
proof
  show "echo_serve n (Message m # xs) = echo_reply n m @ echo_serve (Suc n) xs" if "\<not> is_close m" for n m xs
    by (rule echo_serve_step [OF that])
  show "echo_serve n (Message m # xs) = echo_reply n m" if "is_close m" for n m xs
    using that by (cases m) (simp_all add: echo_serve_def sure_send_app)
qed (simp_all add: echo_serve_def)

interpretation debug: message_server debug_serve debug_reply
proof
  show "debug_serve n (Message m # xs) = debug_reply n m @ debug_serve (Suc n) xs"
    if open_frame: "\<not> is_close m" and small: "Suc n + length xs < usize_bound" for n m xs
  proof -
    have n: "uadd n (Suc 0) = Some (Suc n)" using small by (simp add: uadd_def)
    obtain k where "debug_loop sure_send (Suc n) xs (debug_reply n m) = Some (debug_reply n m @ debug_serve (Suc n) xs, k)"
      using debug_loop_log [OF small, of "debug_reply n m"] by blast
    then show ?thesis using open_frame by (cases m) (simp_all add: debug_serve_def n sure_send_app)
  qed
  show "debug_serve n (Message m # xs) = debug_reply n m" if "is_close m" "n + 1 < usize_bound" for n m xs
    using that by (cases m) (simp_all add: debug_serve_def sure_send_app uadd_def)
qed (simp_all add: debug_serve_def)

subsection \<open>The tasks of the client\<close>

fun is_text :: "'f message \<Rightarrow> bool" where
  "is_text (Text _) = True" | "is_text _ = False"

lemma receive_loop_counts:
  assumes "message_count c + length xs < 2 ^ 32"
  shows "\<exists>c'. receive_loop xs c = Some c' \<and> message_count c' = message_count c + length (filter is_text (until_close xs))"
  using assms
proof (induction xs c rule: receive_loop.induct)
  case (4 t xs c)
  then show ?case by auto
qed (auto simp: transition_to_def)

definition client_script :: "close_frame message list" where
  "client_script =
     [Ping (ascii ''ping-0''), Ping (ascii ''ping-1''), Text ''Test message #1'', Ping (ascii ''ping-2''),
      Ping (ascii ''ping-3''), Text ''Test message #2'', Ping (ascii ''ping-4''), Close (Some (1000, ''Normal closure''))]"

lemma digits:
  "string_of_nat 0 = ''0''" "string_of_nat (Suc 0) = ''1''" "string_of_nat (Suc (Suc 0)) = ''2''"
  "string_of_nat (Suc (Suc (Suc 0))) = ''3''" "string_of_nat (Suc (Suc (Suc (Suc 0)))) = ''4''"
  by code_simp+

lemma ping_task_script: "ping_task (sure_send :: (close_frame message list, close_frame, 'e) sender) 0 [] = client_script"
  by (simp add: ping_task.simps [of _ 0] ping_task.simps [of _ "Suc 0"] ping_task.simps [of _ "Suc (Suc 0)"]
    ping_task.simps [of _ "Suc (Suc (Suc 0))"] ping_task.simps [of _ "Suc (Suc (Suc (Suc 0)))"]
    sure_send_def digits client_script_def)

text \<open>
  The life of a connection. The client ends, whatever its stream yields (fewer than \<open>2 ^ 32\<close> items), with
  the connection closed and the number of text messages before the close; it never has to force the closure, as the
  receiving task always reports the closed state. Its sending task sends five pings, two test
  messages and a close frame; against the echo server this gives exactly five pongs, the two messages
  and the same close frame back, and a total of two messages.
\<close>

theorem connection_lifecycle:
  assumes "length xs < 2 ^ 32"
  shows "\<exists>c w. lifecycle (sure_send :: (close_frame message list, close_frame, 'e) sender) (Inr []) xs =
        Some (Inr (c, length (filter is_text (until_close xs)), False, w)) \<and> lc_state c = Closed \<and> w = client_script
    \<and> echo_serve 0 (map Message client_script :: (close_frame, 'e) incoming list) =
        [Pong (ascii ''ping-0''), Pong (ascii ''ping-1''), Text ''Test message #1'', Pong (ascii ''ping-2''),
         Pong (ascii ''ping-3''), Text ''Test message #2'', Pong (ascii ''ping-4''), Close (Some (1000, ''Normal closure''))]
    \<and> length (filter is_text (until_close (map Message (echo_serve 0 (map Message client_script :: (close_frame, 'e) incoming list))
          :: (close_frame, 'e) incoming list))) = 2"
proof -
  let ?c = "transition_to Open ws_connection_new"
  obtain c where c: "receive_loop xs ?c = Some c" "message_count c = length (filter is_text (until_close xs))"
    using receive_loop_counts [of ?c xs] assms by (auto simp: transition_to_def ws_connection_new_def)
  have "echo_serve 0 (map Message client_script :: (close_frame, 'e) incoming list) =
        [Pong (ascii ''ping-0''), Pong (ascii ''ping-1''), Text ''Test message #1'', Pong (ascii ''ping-2''),
         Pong (ascii ''ping-3''), Text ''Test message #2'', Pong (ascii ''ping-4''), Close (Some (1000, ''Normal closure''))]"
    by (simp add: client_script_def echo_serve_step echo.serve_close)
  then show ?thesis using c
    by (simp add: lifecycle_def receive_task_def ping_task_script) (simp add: transition_to_def)
qed

lemma connection_lifecycle_witness:
  "\<exists>c w. lifecycle (sure_send :: (close_frame message list, close_frame, unit) sender) (Inr [])
      [Message (Text ''hello''), Message (Pong []), WsError ()] = Some (Inr (c, 1, False, w)) \<and> lc_state c = Closed"
  using connection_lifecycle [of "[Message (Text ''hello''), Message (Pong []), WsError ()] :: (close_frame, unit) incoming list"]
  by auto

text \<open>
  Both echo servers answer every message at once and in order, up to the close frame: the one its copy, the other, for
  a text, the text with the number of messages received so far; and what arrives later never changes what
  was answered.
\<close>

theorem servers_answer_exactly:
  fixes xs ys :: "('f, 'e) incoming list"
  assumes "length xs + length ys < usize_bound"
  shows "echo_serve 0 xs = concat (map (echo_reply 0) (until_close xs))
    \<and> debug_serve 0 xs = concat (map (\<lambda>(i, m). debug_reply i m) (zip [0..<length (until_close xs)] (until_close xs)))
    \<and> prefix (echo_serve 0 xs) (echo_serve 0 (xs @ ys)) \<and> prefix (debug_serve 0 xs) (debug_serve 0 (xs @ ys))"
proof -
  have same: "echo_reply i m = echo_reply 0 m" for i and m :: "'f message" by (cases m) auto
  have "map (\<lambda>(i, m). echo_reply i m) (zip [0..<length ms] ms) = map (echo_reply 0) ms" for ms :: "'f message list"
    by (rule nth_equalityI) (simp, simp, rule same)
  moreover have small: "0 + length xs < usize_bound" "0 + length (xs @ ys) < usize_bound" using assms by simp_all
  ultimately show ?thesis
    using echo.serve_exact [OF small(1)] debug.serve_exact [OF small(1)]
      echo.serve_prefix [OF small(2)] debug.serve_prefix [OF small(2)] by (simp only: add_0)
qed

lemma servers_answer_exactly_witness:
  "debug_serve 0 [Message (Ping [1]), Message (Text ''a''), Message (Close None), Message (Text ''b'') :: (unit, unit) incoming] =
     [Pong [1], Text (''Echo #'' @ string_of_nat 2 @ '': a''), Close None]"
proof -
  let ?xs = "[Message (Ping [1]), Message (Text ''a''), Message (Close None), Message (Text ''b'') :: (unit, unit) incoming]"
  have "length ?xs + length ([] :: (unit, unit) incoming list) < usize_bound" by simp
  moreover have "until_close ?xs = [Ping [1], Text ''a'', Close None]" by simp
  moreover have "[0..<length [Ping [1], Text ''a'', Close None :: unit message]] = [0, 1, 2]" by (simp add: upt_rec)
  ultimately have "debug_serve 0 ?xs = concat (map (\<lambda>(i, m). debug_reply i m) (zip [0, 1, 2] [Ping [1], Text ''a'', Close None]))"
    using servers_answer_exactly [of ?xs "[]"] by (simp only:)
  then show ?thesis by (simp add: numeral_2_eq_2)
qed

end
