(* ===== verification/Ws_Gateway.thy ===== *)
theory Ws_Gateway
  imports Uproto_Prelude "HOL-Library.Sublist"
begin

text \<open>
  \<^verbatim>\<open>WebSocket/src/50/websocket_microservices_gateway.rs\<close>: WebSocket clients that subscribe to the events of
  microservices and call them over Redis. The connection handlers and the subscriber task run
  interleaved on the shared table of sessions; a history is any sequence of what they receive. JSON is
  a record of functions, and what Redis answers to a call is part of the event. The identifiers that
  the handlers draw at random are part of the event that connects.
\<close>

record 'v client_message =
  cm_action :: string
  cm_channel :: "string option"
  cm_service :: "string option"
  cm_request :: "'v option"
  cm_event :: "'v option"

record 'v server_message =
  msg_type :: string
  msg_data :: 'v

record 'v json =
  parse_client :: "string \<Rightarrow> 'v client_message option"
  parse_value :: "string \<Rightarrow> 'v option"
  print_value :: "'v \<Rightarrow> string"
  print_server :: "'v server_message \<Rightarrow> string"
  request_value :: "string \<Rightarrow> 'v \<Rightarrow> 'v"

record session =
  session_id :: string
  user_id :: string
  subscriptions :: "string list"

text \<open>
  The state: the table, the messages put into the channel of each session, the handlers that run, whether the
  subscriber task runs, and what was published to Redis.
\<close>

record gateway =
  sessions :: "string \<rightharpoonup> session"
  outbox :: "string \<Rightarrow> string list"
  handlers :: "string set"
  subscriber :: bool
  published :: "(string \<times> string) list"

datatype redis_answer = PublishFails | TimedOut | RedisError | Reply "string list"

datatype incoming = Text string string redis_answer | CloseFrame | StreamError | StreamEnd | OtherFrame

text \<open>
  \<open>Connect sid uid ok\<close>: a handshake succeeded, and \<open>ok\<close> says whether the handler reaches Redis. \<open>Client sid x\<close>: the handler
  of \<open>sid\<close> receives \<open>x\<close>; a text comes with the identifier drawn for a response channel and the answer of
  Redis. \<open>Published ch p\<close>: the subscriber receives an event, \<open>None\<close> if its payload is not a string.
\<close>

datatype gw_event = Connect string string bool | Client string incoming | Published string "string option"

definition gateway_new :: gateway where
  "gateway_new = \<lparr>sessions = Map.empty, outbox = \<lambda>_. [], handlers = {}, subscriber = True, published = []\<rparr>"

subsection \<open>The bridge to the microservices\<close>

definition publish_event :: "'v json \<Rightarrow> string \<Rightarrow> 'v \<Rightarrow> redis_answer \<Rightarrow> gateway \<Rightarrow> gateway" where
  "publish_event J ch ev ans g =
     (if ans = PublishFails then g
      else g\<lparr>published := published g @ [(''events.'' @ ch, print_value J ev)]\<rparr>)"

definition call_service ::
    "'v json \<Rightarrow> string \<Rightarrow> 'v \<Rightarrow> string \<Rightarrow> redis_answer \<Rightarrow> gateway \<Rightarrow> gateway \<times> 'v option" where
  "call_service J service request uuid ans g =
     (let response_channel = ''response_'' @ uuid;
          req_str = print_value J (request_value J response_channel request)
      in (case ans of
            PublishFails \<Rightarrow> (g, None)
          | _ \<Rightarrow>
              (g\<lparr>published := published g @ [(''service.'' @ service, req_str)]\<rparr>,
               (case ans of Reply response \<Rightarrow>
                  (if length response > 1 then parse_value J (response ! 1) else None) | _ \<Rightarrow> None))))"

definition subscribed :: "string \<Rightarrow> session \<Rightarrow> bool" where
  "subscribed ch s \<longleftrightarrow> (\<exists>sub \<in> set (subscriptions s). sublist sub ch)"

text \<open>One event of the subscriber task, broadcast to the sessions that match.\<close>

definition on_published :: "'v json \<Rightarrow> string \<Rightarrow> string option \<Rightarrow> gateway \<Rightarrow> gateway" where
  "on_published J ch payload g =
     (if \<not> subscriber g then g
      else (case payload of
              None \<Rightarrow> g\<lparr>subscriber := False\<rparr>
            | Some p \<Rightarrow>
                (case parse_value J p of
                   None \<Rightarrow> g
                 | Some ev \<Rightarrow>
                     g\<lparr>outbox := \<lambda>sid. (case sessions g sid of
                         Some s \<Rightarrow> if subscribed ch s
                           then outbox g sid @ [print_server J \<lparr>msg_type = ''event'', msg_data = ev\<rparr>]
                           else outbox g sid
                       | None \<Rightarrow> outbox g sid)\<rparr>)))"

subsection \<open>The handler of a connection\<close>

text \<open>The session is entered before the bridge is made; without Redis the handler panics and leaves it there.\<close>

definition on_connect :: "string \<Rightarrow> string \<Rightarrow> bool \<Rightarrow> gateway \<Rightarrow> gateway" where
  "on_connect sid uid ok g =
     (let g = g\<lparr>sessions := (sessions g)(sid \<mapsto> \<lparr>session_id = sid, user_id = ''user_'' @ uid, subscriptions = []\<rparr>),
                outbox := (outbox g)(sid := [])\<rparr>
      in if ok then g\<lparr>handlers := insert sid (handlers g)\<rparr> else g)"

definition on_text :: "'v json \<Rightarrow> string \<Rightarrow> string \<Rightarrow> string \<Rightarrow> redis_answer \<Rightarrow> gateway \<Rightarrow> gateway" where
  "on_text J sid txt uuid ans g =
     (case parse_client J txt of
        None \<Rightarrow> g
      | Some m \<Rightarrow>
          if cm_action m = ''subscribe'' then
            (case cm_channel m of
               None \<Rightarrow> g
             | Some ch \<Rightarrow>
                 (case sessions g sid of
                    None \<Rightarrow> g
                  | Some s \<Rightarrow> g\<lparr>sessions := (sessions g)(sid \<mapsto> s\<lparr>subscriptions := subscriptions s @ [ch]\<rparr>)\<rparr>))
          else if cm_action m = ''call_service'' then
            (case (cm_service m, cm_request m) of
               (Some service, Some request) \<Rightarrow>
                 (case call_service J service request uuid ans g of
                    (g, Some v) \<Rightarrow>
                      g\<lparr>outbox := (outbox g)(sid := outbox g sid @
                         [print_server J \<lparr>msg_type = ''service_response'', msg_data = v\<rparr>])\<rparr>
                  | (g, None) \<Rightarrow> g)
             | _ \<Rightarrow> g)
          else if cm_action m = ''publish_event'' then
            (case (cm_channel m, cm_event m) of
               (Some ch, Some ev) \<Rightarrow> publish_event J ch ev ans g
             | _ \<Rightarrow> g)
          else g)"

definition end_session :: "string \<Rightarrow> gateway \<Rightarrow> gateway" where
  "end_session sid g = g\<lparr>sessions := (sessions g)(sid := None), handlers := handlers g - {sid}\<rparr>"

definition on_client :: "'v json \<Rightarrow> string \<Rightarrow> incoming \<Rightarrow> gateway \<Rightarrow> gateway" where
  "on_client J sid x g =
     (if sid \<notin> handlers g then g
      else (case x of
              Text txt uuid ans \<Rightarrow> on_text J sid txt uuid ans g
            | OtherFrame \<Rightarrow> g
            | _ \<Rightarrow> end_session sid g))"

fun gw_step :: "'v json \<Rightarrow> gw_event \<Rightarrow> gateway \<Rightarrow> gateway" where
  "gw_step J (Connect sid uid ok) g = on_connect sid uid ok g"
| "gw_step J (Client sid x) g = on_client J sid x g"
| "gw_step J (Published ch p) g = on_published J ch p g"

definition gw_run :: "'v json \<Rightarrow> gw_event list \<Rightarrow> gateway \<Rightarrow> gateway" where
  "gw_run J evs g = fold (gw_step J) evs g"

lemma gw_run_simps [simp]:
  "gw_run J [] g = g" "gw_run J (ev # evs) g = gw_run J evs (gw_step J ev g)"
  "gw_run J (evs @ evs') g = gw_run J evs' (gw_run J evs g)"
  by (simp_all add: gw_run_def)

subsection \<open>Sessions do not influence each other\<close>

text \<open>What concerns a session: its own connection, its own messages and the events from Redis.\<close>

fun concerns :: "string \<Rightarrow> gw_event \<Rightarrow> bool" where
  "concerns sid (Connect s _ _) \<longleftrightarrow> s = sid" | "concerns sid (Client s _) \<longleftrightarrow> s = sid" | "concerns sid (Published _ _) \<longleftrightarrow> True"

definition same_view :: "string \<Rightarrow> gateway \<Rightarrow> gateway \<Rightarrow> bool" where
  "same_view sid g h \<longleftrightarrow> sessions g sid = sessions h sid \<and> outbox g sid = outbox h sid
     \<and> (sid \<in> handlers g \<longleftrightarrow> sid \<in> handlers h) \<and> subscriber g = subscriber h"

lemma call_service_view:
  "same_view sid (fst (call_service J service request uuid ans g)) g"
  "snd (call_service J service request uuid ans g) = snd (call_service J service request uuid ans h)"
  by (cases ans; simp add: call_service_def same_view_def Let_def)+

lemma same_view_trans: "same_view sid g h \<Longrightarrow> same_view sid h k \<Longrightarrow> same_view sid g k"
  by (simp add: same_view_def)

lemma same_view_sym: "same_view sid g h \<Longrightarrow> same_view sid h g"
  by (auto simp: same_view_def)

lemma publish_event_view: "same_view sid (publish_event J ch ev ans g) g"
  by (simp add: publish_event_def same_view_def)

text \<open>A handler changes nothing that another session sees, and its own view depends on nothing else.\<close>

lemma on_text_other:
  assumes "sid' \<noteq> sid"
  shows "same_view sid' (on_text J sid txt uuid ans g) g"
proof -
  have "same_view sid' (k\<lparr>outbox := (outbox k)(sid := x)\<rparr>) g" if "same_view sid' k g" for k x
    using that assms by (simp add: same_view_def)
  then show ?thesis using assms call_service_view(1) [of sid' J] publish_event_view [of sid' J]
    by (auto simp: on_text_def same_view_def [of _ _ g] split: option.splits prod.splits)
      (metis fst_conv same_view_def)+
qed

lemma on_text_same:
  assumes "same_view sid g h"
  shows "same_view sid (on_text J sid txt uuid ans g) (on_text J sid txt uuid ans h)"
proof (cases "parse_client J txt")
  case (Some m)
  have call: "same_view sid
      (case call_service J service request uuid ans g of
         (g, Some v) \<Rightarrow> g\<lparr>outbox := (outbox g)(sid := outbox g sid @ [f v])\<rparr> | (g, None) \<Rightarrow> g)
      (case call_service J service request uuid ans h of
         (g, Some v) \<Rightarrow> g\<lparr>outbox := (outbox g)(sid := outbox g sid @ [f v])\<rparr> | (g, None) \<Rightarrow> g)"
    for service request and f :: "'a \<Rightarrow> string"
  proof -
    obtain g' r where g': "call_service J service request uuid ans g = (g', r)" by fastforce
    obtain h' where h': "call_service J service request uuid ans h = (h', r)"
      using call_service_view(2) [of J service request uuid ans g h] g' by (metis prod.collapse snd_conv)
    have "same_view sid g' h'"
      using call_service_view(1) [of sid J service request uuid ans g]
        call_service_view(1) [of sid J service request uuid ans h] assms
      by (simp add: g' h' same_view_def)
    then show ?thesis by (cases r) (simp_all add: g' h' same_view_def)
  qed
  have pub: "same_view sid (publish_event J ch ev ans g) (publish_event J ch ev ans h)" for ch ev
    using assms publish_event_view [of sid J ch ev ans] by (simp add: same_view_def)
  show ?thesis using assms call pub
    by (auto simp: on_text_def Some split: option.splits) (auto simp: same_view_def)
qed (simp add: on_text_def assms)

lemma gw_step_other: "\<not> concerns sid ev \<Longrightarrow> same_view sid (gw_step J ev g) g"
proof (cases ev)
  case (Client s x)
  assume "\<not> concerns sid ev"
  then show ?thesis using Client on_text_other [of sid s J]
    by (cases x) (auto simp: on_client_def end_session_def same_view_def)
qed (auto simp: on_connect_def same_view_def Let_def)

lemma gw_step_same:
  assumes "same_view sid g h" "concerns sid ev"
  shows "same_view sid (gw_step J ev g) (gw_step J ev h)"
proof (cases ev)
  case (Client s x)
  then show ?thesis using assms on_text_same [OF assms(1), of J]
    by (cases x) (auto simp: on_client_def end_session_def same_view_def)
next
  case (Published ch p)
  then show ?thesis using assms(1)
    by (auto simp: on_published_def same_view_def split: option.splits)
qed (use assms in \<open>auto simp: on_connect_def same_view_def Let_def\<close>)

lemma gw_run_view:
  "same_view sid g h \<Longrightarrow> same_view sid (gw_run J evs g) (gw_run J (filter (concerns sid) evs) h)"
proof (induction evs arbitrary: g h)
  case (Cons ev evs)
  show ?case
  proof (cases "concerns sid ev")
    case True
    then show ?thesis using Cons.IH [OF gw_step_same [OF Cons.prems True]] by simp
  next
    case False
    then have "same_view sid (gw_step J ev g) h" using Cons.prems gw_step_other same_view_trans by blast
    then show ?thesis using Cons.IH False by simp
  qed
qed simp

text \<open>A session whose handler never reached Redis stays in the table.\<close>

lemma leaked_session:
  "sid \<notin> handlers g \<Longrightarrow> sid \<in> dom (sessions g) \<Longrightarrow> \<forall>uid ok. Connect sid uid ok \<notin> set evs
     \<Longrightarrow> sid \<in> dom (sessions (gw_run J evs g))"
proof (induction evs arbitrary: g)
  case (Cons ev evs)
  have "sid \<notin> handlers (gw_step J ev g) \<and> sid \<in> dom (sessions (gw_step J ev g))"
  proof (cases "concerns sid ev")
    case True
    then show ?thesis using Cons.prems
      by (cases ev) (auto simp: on_client_def on_published_def split: option.splits)
  next
    case False
    then show ?thesis using gw_step_other [OF False, of J g] Cons.prems by (auto simp: same_view_def)
  qed
  then show ?case using Cons by auto
qed simp

text \<open>
  C40. The sessions of the gateway are isolated and the delivery of events is exact. In every interleaving of
  all connections and events, what a session is sent, its entry in the table and whether its handler runs depend only on its own
  connection and messages and on the events from Redis, not on any other client. An event that arrives
  while the subscriber runs is sent to exactly the sessions in the table that have subscribed to a text that occurs anywhere
  in the channel's name. A session whose handler did not reach Redis is never removed.
\<close>

theorem gateway_isolation:
  "same_view sid (gw_run J evs gateway_new) (gw_run J (filter (concerns sid) evs) gateway_new)
   \<and> (subscriber (gw_run J evs gateway_new) \<longrightarrow> parse_value J p = Some v \<longrightarrow>
        outbox (gw_run J (evs @ [Published ch (Some p)]) gateway_new) sid =
          outbox (gw_run J evs gateway_new) sid @
          (if \<exists>s. sessions (gw_run J evs gateway_new) sid = Some s
                \<and> (\<exists>sub \<in> set (subscriptions s). \<exists>before after. ch = before @ sub @ after)
           then [print_server J \<lparr>msg_type = ''event'', msg_data = v\<rparr>] else []))
   \<and> (sid \<notin> handlers (gw_run J evs gateway_new) \<longrightarrow> (\<forall>uid' ok. Connect sid uid' ok \<notin> set later) \<longrightarrow>
        sid \<in> dom (sessions (gw_run J (evs @ Connect sid uid False # later) gateway_new)))"
proof (intro conjI impI)
  show "same_view sid (gw_run J evs gateway_new) (gw_run J (filter (concerns sid) evs) gateway_new)"
    by (rule gw_run_view) (simp add: same_view_def)
  show "outbox (gw_run J (evs @ [Published ch (Some p)]) gateway_new) sid =
          outbox (gw_run J evs gateway_new) sid @
          (if \<exists>s. sessions (gw_run J evs gateway_new) sid = Some s
                \<and> (\<exists>sub \<in> set (subscriptions s). \<exists>before after. ch = before @ sub @ after)
           then [print_server J \<lparr>msg_type = ''event'', msg_data = v\<rparr>] else [])"
    if "subscriber (gw_run J evs gateway_new)" "parse_value J p = Some v"
    using that by (auto simp: on_published_def subscribed_def sublist_def split: option.splits)
  show "sid \<in> dom (sessions (gw_run J (evs @ Connect sid uid False # later) gateway_new))"
    if "sid \<notin> handlers (gw_run J evs gateway_new)" "\<forall>uid' ok. Connect sid uid' ok \<notin> set later"
    unfolding gw_run_simps gw_step.simps
    by (rule leaked_session) (use that in \<open>auto simp: on_connect_def Let_def\<close>)
qed

text \<open>A JSON in which every text is a subscription to it and every payload a value.\<close>

definition plain_json :: "string json" where
  "plain_json = \<lparr>parse_client = \<lambda>t. Some \<lparr>cm_action = ''subscribe'', cm_channel = Some t, cm_service = None,
       cm_request = None, cm_event = None\<rparr>, parse_value = Some, print_value = id,
     print_server = \<lambda>m. msg_type m @ msg_data m, request_value = \<lambda>ch v. ch @ v\<rparr>"

definition example_history :: "gw_event list" where
  "example_history = [Connect ''a'' ''u'' True, Connect ''b'' ''v'' True, Client ''a'' (Text ''user'' ''x'' TimedOut)]"

lemma example_subscriptions:
  "sessions (gw_run plain_json example_history gateway_new) ''a'' =
     Some \<lparr>session_id = ''a'', user_id = ''user_u'', subscriptions = [''user'']\<rparr>"
  "subscriber (gw_run plain_json example_history gateway_new)"
  "outbox (gw_run plain_json example_history gateway_new) ''a'' = []"
  by (simp_all add: example_history_def gateway_new_def on_connect_def on_client_def on_text_def plain_json_def)

text \<open>The subscriber of \<open>user\<close> is sent the events of the superuser.\<close>

lemma gateway_isolation_witness:
  "outbox (gw_run plain_json (example_history @ [Published ''events.superuser'' (Some ''x'')]) gateway_new) ''a'' = [''eventx'']"
proof -
  have sup: "''events.superuser'' = ''events.super'' @ ''user'' @ []" by simp
  have v: "parse_value plain_json ''x'' = Some ''x''" "print_server plain_json \<lparr>msg_type = ''event'', msg_data = ''x''\<rparr> = ''eventx''"
    by (simp_all add: plain_json_def)
  have "\<exists>sub \<in> set [''user'']. \<exists>before after. ''events.superuser'' = before @ sub @ after"
    by (rule bexI [of _ "''user''"], rule exI, rule exI, rule sup) simp
  then show ?thesis
    using gateway_isolation [of "''a''" plain_json example_history "''x''" "''x''" "''events.superuser''" "[]" "''u''"]
      example_subscriptions v by (simp del: gw_run_simps)
qed

text \<open>One payload that is not a string ends the subscriber, and no event is delivered any more.\<close>

lemma subscriber_ends:
  "\<not> subscriber g \<Longrightarrow> outbox (gw_step J (Published ch p) g) = outbox g \<and> \<not> subscriber (gw_step J (Published ch p) g)"
  "\<not> subscriber (gw_step J (Published ch None) g)"
  by (simp_all add: on_published_def)

end
