(* ===== verification/Ws_Affinity.thy ===== *)
theory Ws_Affinity
  imports Uproto_Prelude
begin

text \<open>
  \<^verbatim>\<open>WebSocket/src/33/cpu_affinity_and_numa.rs\<close>: workers pinned to cores, each with a buffer of its own, and the buffers
  of the NUMA example. The program is a step relation in which the main thread spawns and joins the workers while
  these run; what they do goes to a trace. The cores of the machine and the success of pinning are
  parameters, as is the allocator.
\<close>

subsection \<open>Workers and buffers\<close>

datatype event = NotPinned nat | Pinned nat nat | Touched nat | Processing nat nat | Completed nat | Panicked nat

text \<open>A worker whose thread has been spawned has the events that are still to come in its handle.\<close>

record affinity_worker =
  worker_no :: nat
  worker_core :: nat
  handle :: "event list option"

definition affinity_worker_new :: "nat \<Rightarrow> nat \<Rightarrow> affinity_worker" where
  "affinity_worker_new i core = \<lparr>worker_no = i, worker_core = core, handle = None\<rparr>"

definition affinity_spawn :: "(nat \<Rightarrow> bool) \<Rightarrow> (nat \<Rightarrow> nat \<Rightarrow> event list) \<Rightarrow> affinity_worker \<Rightarrow> affinity_worker" where
  "affinity_spawn set_for_current work w =
     w\<lparr>handle := Some ((if set_for_current (worker_core w) then [] else [NotPinned (worker_no w)])
                     @ [Pinned (worker_no w) (worker_core w)] @ work (worker_no w) (worker_core w))\<rparr>"

record buffer_pool =
  pool_buffers :: "bytes list"
  pool_buffer_size :: nat

fun allocate_buffers :: "nat \<Rightarrow> nat \<Rightarrow> bytes list" where
  "allocate_buffers 0 buffer_size = []"
| "allocate_buffers (Suc n) buffer_size = allocate_buffers n buffer_size @ [replicate buffer_size 0]"

definition buffer_pool_new :: "nat \<Rightarrow> nat \<Rightarrow> buffer_pool" where
  "buffer_pool_new num_workers buffer_size =
     \<lparr>pool_buffers = allocate_buffers num_workers buffer_size, pool_buffer_size = buffer_size\<rparr>"

definition get_buffer :: "nat \<Rightarrow> buffer_pool \<Rightarrow> bytes option" where
  "get_buffer worker_id p = (if worker_id < length (pool_buffers p) then Some (pool_buffers p ! worker_id) else None)"

record worker_config =
  config_worker_id :: nat
  config_core_id :: nat
  connections_per_worker :: nat

fun worker_iterations :: "nat \<Rightarrow> bytes \<Rightarrow> nat list \<Rightarrow> event list" where
  "worker_iterations i buffer [] = [Completed i]"
| "worker_iterations i buffer (k # ks) =
     (case sub_slice buffer 0 1024 of
        None \<Rightarrow> [Panicked i]
      | Some _ \<Rightarrow> Touched i # (if k mod 2 = 0 then [Processing i k] else []) @ worker_iterations i buffer ks)"

definition websocket_worker :: "worker_config \<Rightarrow> bytes \<Rightarrow> event list" where
  "websocket_worker config buffer = worker_iterations (config_worker_id config) buffer [0..<5]"

subsection \<open>The program\<close>

datatype main_pc = Spawning nat | Joining nat | Finished | Aborted

record sys =
  core_ids :: "nat list"
  num_workers :: nat
  pool :: buffer_pool
  workers :: "affinity_worker list"
  main_pc :: main_pc
  trace :: "event list"

definition main_init :: "nat list option \<Rightarrow> sys run" where
  "main_init get_core_ids = do {
     core_ids \<leftarrow> get_core_ids;
     let n = min (length core_ids) 4;
     Some \<lparr>core_ids = core_ids, num_workers = n, pool = buffer_pool_new n (64 * 1024), workers = [],
           main_pc = Spawning 0, trace = []\<rparr> }"

definition main_spawn :: "(nat \<Rightarrow> bool) \<Rightarrow> nat \<Rightarrow> sys \<Rightarrow> sys run" where
  "main_spawn S i s = do {
     core_id \<leftarrow> idx (core_ids s) i;
     let worker = affinity_worker_new i core_id;
     buffer \<leftarrow> get_buffer i (pool s);
     let config = \<lparr>config_worker_id = i, config_core_id = core_id, connections_per_worker = 1000\<rparr>;
     let worker = affinity_spawn S (\<lambda>_ _. websocket_worker config buffer) worker;
     Some (s\<lparr>workers := workers s @ [worker], main_pc := Spawning (i + 1)\<rparr>) }"

text \<open>Joining a thread that has panicked gives an error, which is unwrapped.\<close>

definition main_join :: "nat \<Rightarrow> sys \<Rightarrow> sys" where
  "main_join i s =
     (if Panicked i \<in> set (trace s) then s\<lparr>main_pc := Aborted\<rparr>
      else s\<lparr>workers := (workers s)[i := (workers s ! i)\<lparr>handle := None\<rparr>], main_pc := Joining (i + 1)\<rparr>)"

inductive step :: "(nat \<Rightarrow> bool) \<Rightarrow> sys \<Rightarrow> sys \<Rightarrow> bool" for S where
  spawn: "main_pc s = Spawning i \<Longrightarrow> i < num_workers s \<Longrightarrow> main_spawn S i s = Some s' \<Longrightarrow> step S s s'"
| spawn_panic: "main_pc s = Spawning i \<Longrightarrow> i < num_workers s \<Longrightarrow> main_spawn S i s = None \<Longrightarrow> step S s (s\<lparr>main_pc := Aborted\<rparr>)"
| spawned: "main_pc s = Spawning i \<Longrightarrow> \<not> i < num_workers s \<Longrightarrow> step S s (s\<lparr>main_pc := Joining 0\<rparr>)"
| join: "main_pc s = Joining i \<Longrightarrow> i < length (workers s) \<Longrightarrow> handle (workers s ! i) = Some [] \<Longrightarrow> step S s (main_join i s)"
| joined: "main_pc s = Joining i \<Longrightarrow> \<not> i < length (workers s) \<Longrightarrow> step S s (s\<lparr>main_pc := Finished\<rparr>)"
| work: "i < length (workers s) \<Longrightarrow> handle (workers s ! i) = Some (e # es) \<Longrightarrow>
    step S s (s\<lparr>workers := (workers s)[i := (workers s ! i)\<lparr>handle := Some es\<rparr>], trace := trace s @ [e]\<rparr>)"

subsection \<open>What every worker does\<close>

fun event_worker :: "event \<Rightarrow> nat" where
  "event_worker (NotPinned i) = i" | "event_worker (Pinned i _) = i" | "event_worker (Touched i) = i"
| "event_worker (Processing i _) = i" | "event_worker (Completed i) = i" | "event_worker (Panicked i) = i"

definition of_worker :: "nat \<Rightarrow> event list \<Rightarrow> event list" where
  "of_worker i = filter (\<lambda>e. event_worker e = i)"

definition script :: "(nat \<Rightarrow> bool) \<Rightarrow> nat list \<Rightarrow> nat \<Rightarrow> event list" where
  "script S cores i = (if S (cores ! i) then [] else [NotPinned i]) @ [Pinned i (cores ! i),
     Touched i, Processing i 0, Touched i, Touched i, Processing i 2, Touched i, Touched i, Processing i 4, Completed i]"

lemma allocate_buffers_replicate: "allocate_buffers n k = replicate n (replicate k 0)"
  by (induction n) (simp_all flip: replicate_append_same)

lemma sub_slice_large: "1024 \<le> length b \<Longrightarrow> sub_slice b 0 1024 = Some (take 1024 b)"
  by (simp add: sub_slice_def)

lemma websocket_worker_large:
  assumes "1024 \<le> length b"
  shows "websocket_worker \<lparr>config_worker_id = i, config_core_id = c, connections_per_worker = n\<rparr> b =
    [Touched i, Processing i 0, Touched i, Touched i, Processing i 2, Touched i, Touched i, Processing i 4, Completed i]"
proof -
  have "[0..<5] = [0, 1, 2, 3, 4::nat]" by (simp add: upt_rec)
  then show ?thesis by (simp add: websocket_worker_def sub_slice_large [OF assms])
qed

lemma script_worker: "e \<in> set (script S cores i) \<Longrightarrow> event_worker e = i \<and> e \<noteq> Panicked j"
  by (auto simp: script_def split: if_splits)

lemma script_length: "length (script S cores i) \<le> 11"
  by (simp add: script_def)

definition rest :: "affinity_worker \<Rightarrow> event list" where
  "rest w = (case handle w of None \<Rightarrow> [] | Some es \<Rightarrow> es)"

definition pc_ok :: "sys \<Rightarrow> bool" where
  "pc_ok s \<longleftrightarrow> (case main_pc s of
       Spawning i \<Rightarrow> length (workers s) = i \<and> i \<le> num_workers s \<and> (\<forall>j < i. handle (workers s ! j) \<noteq> None)
     | Joining i \<Rightarrow> length (workers s) = num_workers s \<and> i \<le> num_workers s
         \<and> (\<forall>j < num_workers s. handle (workers s ! j) = None \<longleftrightarrow> j < i)
     | Finished \<Rightarrow> length (workers s) = num_workers s \<and> (\<forall>j < num_workers s. handle (workers s ! j) = None)
     | Aborted \<Rightarrow> False)"

definition sys_inv :: "(nat \<Rightarrow> bool) \<Rightarrow> sys \<Rightarrow> bool" where
  "sys_inv S s \<longleftrightarrow> num_workers s = min (length (core_ids s)) 4
     \<and> pool s = buffer_pool_new (num_workers s) (64 * 1024) \<and> pc_ok s
     \<and> (\<forall>i < length (workers s). of_worker i (trace s) @ rest (workers s ! i) = script S (core_ids s) i)
     \<and> (\<forall>e \<in> set (trace s). event_worker e < length (workers s))"

lemma main_spawn_eq:
  assumes "sys_inv S s" "i < num_workers s"
  shows "main_spawn S i s = Some (s\<lparr>workers := workers s @ [\<lparr>worker_no = i, worker_core = core_ids s ! i,
    handle = Some (script S (core_ids s) i)\<rparr>], main_pc := Spawning (i + 1)\<rparr>)"
proof -
  have "idx (core_ids s) i = Some (core_ids s ! i)" using assms by (simp add: sys_inv_def idx_def)
  moreover have "get_buffer i (pool s) = Some (replicate (64 * 1024) 0)"
    using assms by (simp add: sys_inv_def get_buffer_def buffer_pool_new_def allocate_buffers_replicate)
  ultimately show ?thesis
    by (simp add: main_spawn_def affinity_spawn_def affinity_worker_new_def websocket_worker_large script_def)
qed

lemma of_worker_snoc: "of_worker i (t @ [e]) = of_worker i t @ (if event_worker e = i then [e] else [])"
  by (simp add: of_worker_def)

lemma of_worker_none: "\<forall>e \<in> set t. event_worker e < n \<Longrightarrow> of_worker n t = []"
  by (auto simp: of_worker_def filter_empty_conv)

lemma pc_ok_cong:
  assumes "pc_ok s" "length ws = length (workers s)"
    and "\<forall>j < length ws. handle (ws ! j) = None \<longleftrightarrow> handle (workers s ! j) = None"
  shows "pc_ok (s\<lparr>workers := ws, trace := t\<rparr>)"
  using assms by (cases "main_pc s") (simp_all add: pc_ok_def)

lemma inv_script:
  "sys_inv S s \<Longrightarrow> i < length (workers s) \<Longrightarrow> of_worker i (trace s) @ rest (workers s ! i) = script S (core_ids s) i"
  by (simp add: sys_inv_def)

lemma inv_spawn:
  assumes "sys_inv S s" "main_pc s = Spawning i" "i < num_workers s" "main_spawn S i s = Some s'"
  shows "sys_inv S s'"
proof -
  have len: "length (workers s) = i" "\<forall>j < i. handle (workers s ! j) \<noteq> None"
    using assms(1,2) by (simp_all add: sys_inv_def pc_ok_def)
  have "of_worker i (trace s) = []" using assms(1) len(1) by (auto simp: sys_inv_def intro: of_worker_none)
  then show ?thesis using assms len unfolding main_spawn_eq [OF assms(1,3)]
    by (auto simp: sys_inv_def pc_ok_def nth_append rest_def less_Suc_eq)
qed

lemma inv_no_panic:
  assumes "sys_inv S s" "i < length (workers s)"
  shows "Panicked i \<notin> set (trace s)"
proof
  assume "Panicked i \<in> set (trace s)"
  then have "Panicked i \<in> set (of_worker i (trace s) @ rest (workers s ! i))" by (simp add: of_worker_def)
  then have "Panicked i \<in> set (script S (core_ids s) i)" unfolding inv_script [OF assms] .
  then show False using script_worker by blast
qed

lemma inv_join:
  assumes "sys_inv S s" "main_pc s = Joining i" "i < length (workers s)" "handle (workers s ! i) = Some []"
  shows "sys_inv S (main_join i s)"
proof -
  have "rest ((workers s)[i := (workers s ! i)\<lparr>handle := None\<rparr>] ! j) = rest (workers s ! j)" for j
    using assms(3,4) by (cases "j = i") (simp_all add: rest_def)
  then show ?thesis using assms inv_no_panic [OF assms(1,3)]
    by (auto simp: main_join_def sys_inv_def pc_ok_def nth_list_update)
qed

lemma inv_work:
  assumes "sys_inv S s" "i < length (workers s)" "handle (workers s ! i) = Some (e # es)"
  shows "sys_inv S (s\<lparr>workers := (workers s)[i := (workers s ! i)\<lparr>handle := Some es\<rparr>], trace := trace s @ [e]\<rparr>)"
    (is "sys_inv S ?s")
proof -
  have eq: "of_worker i (trace s) @ e # es = script S (core_ids s) i"
    using inv_script [OF assms(1,2)] assms(3) by (simp add: rest_def)
  then have "e \<in> set (script S (core_ids s) i)" by (metis in_set_conv_decomp)
  then have e: "event_worker e = i" using script_worker by blast
  have "of_worker j (trace ?s) @ rest (workers ?s ! j) = script S (core_ids s) j" if "j < length (workers s)" for j
    using assms(1,2) that e eq by (cases "j = i") (auto simp: of_worker_snoc rest_def sys_inv_def)
  moreover have "pc_ok ?s"
    using assms by (intro pc_ok_cong) (auto simp: sys_inv_def nth_list_update)
  ultimately show ?thesis using assms(1,2) e by (auto simp: sys_inv_def)
qed

lemma inv_step: "step S s s' \<Longrightarrow> sys_inv S s \<Longrightarrow> sys_inv S s'"
proof (induction rule: step.induct)
  case (spawned s i)
  then have "i = num_workers s" by (simp add: sys_inv_def pc_ok_def)
  then show ?case using spawned by (auto simp: sys_inv_def pc_ok_def)
next
  case (joined s i)
  then have "i = num_workers s" "length (workers s) = num_workers s" by (auto simp: sys_inv_def pc_ok_def)
  then show ?case using joined by (auto simp: sys_inv_def pc_ok_def in_set_conv_nth)
qed (auto intro: inv_spawn inv_join inv_work simp: main_spawn_eq)

lemma inv_progress:
  assumes "sys_inv S s" "main_pc s \<noteq> Finished"
  shows "\<exists>s'. step S s s'"
proof (cases "main_pc s")
  case (Spawning i)
  then show ?thesis using step.spawn [OF Spawning _ main_spawn_eq [OF assms(1)]] step.spawned [OF Spawning] by blast
next
  case (Joining i)
  show ?thesis
  proof (cases "i < length (workers s)")
    case True
    then have "handle (workers s ! i) \<noteq> None" using assms(1) Joining by (auto simp: sys_inv_def pc_ok_def)
    then obtain es where "handle (workers s ! i) = Some es" by auto
    then show ?thesis using step.join [OF Joining True] step.work [OF True] by (cases es) blast+
  qed (use step.joined [OF Joining] in blast)
qed (use assms in \<open>auto simp: sys_inv_def pc_ok_def\<close>)

text \<open>What is left to do, which every step makes smaller.\<close>

definition rank :: "sys \<Rightarrow> nat" where
  "rank s = 13 * (num_workers s - length (workers s)) + (\<Sum>w \<leftarrow> workers s. length (rest w))
     + (case main_pc s of Spawning i \<Rightarrow> num_workers s + 2 | Joining i \<Rightarrow> num_workers s - i + 1 | _ \<Rightarrow> 0)"

lemma rank_step:
  assumes "step S s s'" "sys_inv S s"
  shows "rank s' < rank s"
  using assms
proof cases
  case (spawn i)
  then have "length (workers s) = i" using assms(2) by (simp add: sys_inv_def pc_ok_def)
  then show ?thesis using spawn script_length [of S "core_ids s" i]
    by (auto simp: main_spawn_eq [OF assms(2)] rank_def rest_def)
next
  case (spawn_panic i)
  then show ?thesis using main_spawn_eq [OF assms(2)] by simp
next
  case (join i)
  have "map (\<lambda>w. length (rest w)) ((workers s)[i := (workers s ! i)\<lparr>handle := None\<rparr>]) = map (\<lambda>w. length (rest w)) (workers s)"
    using join by (simp add: map_update rest_def list_update_same_conv)
  then show ?thesis using join inv_no_panic [OF assms(2) join(3)] assms(2)
    by (auto simp: rank_def main_join_def sys_inv_def pc_ok_def simp del: map_update)
next
  case (work i e es)
  let ?f = "\<lambda>w. length (rest w)"
  have len: "?f (workers s ! i) = Suc (length es)" using work(3) by (simp add: rest_def)
  have "?f (workers s ! i) \<le> sum_list (map ?f (workers s))"
    using work(2) by (intro member_le_sum_list) simp_all
  moreover have "sum_list (map ?f ((workers s)[i := (workers s ! i)\<lparr>handle := Some es\<rparr>])) = sum_list (map ?f (workers s)) + length es - ?f (workers s ! i)"
    using work(2) by (simp add: map_update sum_list_update rest_def)
  ultimately show ?thesis using len by (simp add: work(1) rank_def split: main_pc.splits)
qed (auto simp: rank_def sys_inv_def pc_ok_def)

lemma inv_init: "main_init (Some cores) = Some s \<Longrightarrow> sys_inv S s \<and> core_ids s = cores"
  by (auto simp: main_init_def Let_def sys_inv_def pc_ok_def)

lemma core_ids_step: "step S s s' \<Longrightarrow> core_ids s' = core_ids s"
  by (induction rule: step.induct) (auto simp: main_spawn_def main_join_def Let_def split: Option.bind_splits if_splits)

text \<open>
  The pinned workers. However the threads are scheduled the program neither panics nor gets stuck, and every
  step brings its end closer. At the end every worker, at most four, has done exactly its script: it was pinned to its own core,
  touched its buffer five times and completed; with different cores no two workers share one.
\<close>

theorem affinity_workers_complete:
  assumes "main_init (Some cores) = Some s0" "(step S)\<^sup>*\<^sup>* s0 s"
  shows "main_pc s \<noteq> Aborted" "main_pc s \<noteq> Finished \<Longrightarrow> \<exists>s'. step S s s'" "step S s s' \<Longrightarrow> rank s' < rank s"
    and "main_pc s = Finished \<Longrightarrow> of_worker i (trace s) = (if i < min (length cores) 4 then script S cores i else [])"
    and "distinct cores \<Longrightarrow> Pinned i c \<in> set (trace s) \<Longrightarrow> Pinned j c \<in> set (trace s) \<Longrightarrow> i = j"
proof -
  have "sys_inv S s \<and> core_ids s = cores" using assms(2)
    by (induction rule: rtranclp_induct) (use inv_init [OF assms(1)] in \<open>auto intro: inv_step dest: core_ids_step\<close>)
  then have inv: "sys_inv S s" and cores: "core_ids s = cores" by simp_all
  show "main_pc s \<noteq> Aborted" using inv by (auto simp: sys_inv_def pc_ok_def)
  show "\<exists>s'. step S s s'" if "main_pc s \<noteq> Finished" using inv_progress [OF inv that] .
  show "rank s' < rank s" if "step S s s'" using rank_step [OF that inv] .
  show "of_worker i (trace s) = (if i < min (length cores) 4 then script S cores i else [])" if "main_pc s = Finished"
  proof -
    have len: "length (workers s) = min (length cores) 4" "\<forall>j < length (workers s). handle (workers s ! j) = None"
      using inv that cores by (auto simp: sys_inv_def pc_ok_def)
    show ?thesis
    proof (cases "i < length (workers s)")
      case True
      then show ?thesis using inv_script [OF inv True] len cores by (simp add: rest_def)
    next
      case False
      have "\<forall>e \<in> set (trace s). event_worker e < length (workers s)" using inv by (simp add: sys_inv_def)
      then show ?thesis using False len(1) by (auto simp: of_worker_def filter_empty_conv)
    qed
  qed
  have pinned: "i < length cores \<and> c = cores ! i" if "Pinned i c \<in> set (trace s)" for i
  proof -
    have i: "i < length (workers s)" using inv that by (auto simp: sys_inv_def)
    have "Pinned i c \<in> set (of_worker i (trace s) @ rest (workers s ! i))" using that by (simp add: of_worker_def)
    then have "Pinned i c \<in> set (script S cores i)" unfolding inv_script [OF inv i] cores .
    moreover have "length (workers s) \<le> length cores" using inv cores by (auto simp: sys_inv_def pc_ok_def split: main_pc.splits)
    ultimately show ?thesis using i by (auto simp: script_def split: if_splits)
  qed
  show "i = j" if "distinct cores" "Pinned i c \<in> set (trace s)" "Pinned j c \<in> set (trace s)"
    using pinned [OF that(2)] pinned [OF that(3)] that(1) by (metis nth_eq_iff_index_eq)
qed

subsection \<open>NUMA buffers\<close>

text \<open>
  The heap maps the address of every block to its layout, a size and an alignment. Allocating no bytes and freeing with
  another layout than that of the block are undefined, \<open>None\<close> here like a panic.
\<close>

type_synonym layout = "nat \<times> nat"
type_synonym heap = "nat \<rightharpoonup> layout"

record numa_buffer =
  numa_ptr :: nat
  numa_size :: nat
  numa_node :: int

definition layout_from_size_align :: "nat \<Rightarrow> nat \<Rightarrow> layout option" where
  "layout_from_size_align sz align = (if sz \<le> 2 ^ 63 - align then Some (sz, align) else None)"

definition numa_new :: "(heap \<Rightarrow> layout \<Rightarrow> nat option) \<Rightarrow> nat \<Rightarrow> int \<Rightarrow> heap \<Rightarrow> (heap \<times> numa_buffer option) run" where
  "numa_new alloc sz node h =
     (case layout_from_size_align sz 64 of
        None \<Rightarrow> Some (h, None)
      | Some layout \<Rightarrow>
          if sz = 0 then None
          else (case alloc h layout of
                  None \<Rightarrow> Some (h, None)
                | Some p \<Rightarrow> Some (h(p \<mapsto> layout), Some \<lparr>numa_ptr = p, numa_size = sz, numa_node = node\<rparr>)))"

text \<open>The bytes the slice covers.\<close>

definition as_slice_mut :: "numa_buffer \<Rightarrow> nat set" where
  "as_slice_mut b = {numa_ptr b ..< numa_ptr b + numa_size b}"

definition numa_drop :: "numa_buffer \<Rightarrow> heap \<Rightarrow> heap run" where
  "numa_drop b h = do {
     layout \<leftarrow> layout_from_size_align (numa_size b) 64;
     if h (numa_ptr b) = Some layout then Some (h(numa_ptr b := None)) else None }"

text \<open>An owner of buffers that makes and drops them in any order.\<close>

datatype numa_op = New nat int | Drop nat

fun run_ops :: "(heap \<Rightarrow> layout \<Rightarrow> nat option) \<Rightarrow> numa_op list \<Rightarrow> heap \<times> numa_buffer list \<Rightarrow> (heap \<times> numa_buffer list) run" where
  "run_ops A [] s = Some s"
| "run_ops A (New sz node # ops) (h, bs) = do {
     (h, b) \<leftarrow> numa_new A sz node h;
     run_ops A ops (h, case b of None \<Rightarrow> bs | Some b \<Rightarrow> bs @ [b]) }"
| "run_ops A (Drop i # ops) (h, bs) =
     (if i < length bs
      then do { h \<leftarrow> numa_drop (bs ! i) h; run_ops A ops (h, take i bs @ drop (i + 1) bs) }
      else run_ops A ops (h, bs))"

text \<open>What an allocator promises: the new block overlaps no other.\<close>

definition block :: "nat \<Rightarrow> layout \<Rightarrow> nat set" where
  "block p l = {p ..< p + fst l}"

definition alloc_ok :: "(heap \<Rightarrow> layout \<Rightarrow> nat option) \<Rightarrow> bool" where
  "alloc_ok A \<longleftrightarrow> (\<forall>h l p q m. 0 < fst l \<longrightarrow> A h l = Some p \<longrightarrow> h q = Some m \<longrightarrow> block p l \<inter> block q m = {})"

definition owns :: "heap \<Rightarrow> numa_buffer list \<Rightarrow> bool" where
  "owns h bs \<longleftrightarrow> distinct (map numa_ptr bs)
     \<and> (\<forall>b \<in> set bs. layout_from_size_align (numa_size b) 64 = Some (numa_size b, 64) \<and> 0 < numa_size b)
     \<and> h = map_of (map (\<lambda>b. (numa_ptr b, (numa_size b, 64))) bs)
     \<and> (\<forall>b \<in> set bs. \<forall>b' \<in> set bs. b \<noteq> b' \<longrightarrow> as_slice_mut b \<inter> as_slice_mut b' = {})"

lemma owns_lookup: "owns h bs \<Longrightarrow> b \<in> set bs \<Longrightarrow> h (numa_ptr b) = Some (numa_size b, 64)"
  by (auto simp: owns_def map_of_eq_Some_iff comp_def intro!: map_of_is_SomeI)

lemma owns_new:
  assumes "owns h bs" "alloc_ok A" "0 < sz"
  shows "\<exists>h' b. numa_new A sz node h = Some (h', b) \<and> owns h' (case b of None \<Rightarrow> bs | Some b \<Rightarrow> bs @ [b])"
proof (cases "layout_from_size_align sz 64 = None \<or> A h (sz, 64) = None")
  case True
  then show ?thesis using assms by (auto simp: numa_new_def layout_from_size_align_def split: if_splits)
next
  case False
  then obtain p where lay: "layout_from_size_align sz 64 = Some (sz, 64)" and p: "A h (sz, 64) = Some p"
    by (auto simp: layout_from_size_align_def split: if_splits)
  let ?b = "\<lparr>numa_ptr = p, numa_size = sz, numa_node = node\<rparr>"
  have apart: "as_slice_mut ?b \<inter> as_slice_mut b = {}" if "b \<in> set bs" for b
  proof -
    have "block p (sz, 64) \<inter> block (numa_ptr b) (numa_size b, 64) = {}"
      using assms(2) [unfolded alloc_ok_def, rule_format, OF _ p owns_lookup [OF assms(1) that]] assms(3) by simp
    then show ?thesis by (simp add: block_def as_slice_mut_def)
  qed
  have ptr: "numa_ptr b \<noteq> p" if "b \<in> set bs" for b
  proof
    assume "numa_ptr b = p"
    moreover have "0 < numa_size b" using assms(1) that by (simp add: owns_def)
    ultimately have "p \<in> as_slice_mut ?b \<inter> as_slice_mut b" using assms(3) by (simp add: as_slice_mut_def)
    then show False using apart [OF that] by blast
  qed
  then have "p \<notin> numa_ptr ` set bs" by blast
  then have "p \<notin> dom h" using assms(1) by (simp add: owns_def dom_map_of_conv_image_fst image_image)
  then have "[p \<mapsto> (sz, 64)] ++ h = h(p \<mapsto> (sz, 64))" by (subst map_add_comm) simp_all
  then have map: "map_of (map (\<lambda>b. (numa_ptr b, (numa_size b, 64))) (bs @ [?b])) = h(p \<mapsto> (sz, 64))"
    using assms(1) by (simp add: owns_def)
  have "owns (h(p \<mapsto> (sz, 64))) (bs @ [?b])"
  proof -
    have "distinct (map numa_ptr (bs @ [?b]))" using assms(1) ptr by (auto simp: owns_def)
    moreover have "\<forall>b \<in> set (bs @ [?b]). \<forall>b' \<in> set (bs @ [?b]). b \<noteq> b' \<longrightarrow> as_slice_mut b \<inter> as_slice_mut b' = {}"
    proof (intro ballI impI)
      fix b b' assume "b \<in> set (bs @ [?b])" "b' \<in> set (bs @ [?b])" "b \<noteq> b'"
      then consider "b \<in> set bs" "b' \<in> set bs" "b \<noteq> b'" | "b \<in> set bs" "b' = ?b" | "b = ?b" "b' \<in> set bs" by auto
      then show "as_slice_mut b \<inter> as_slice_mut b' = {}"
      proof cases
        case 1
        then show ?thesis using assms(1) by (simp add: owns_def)
      next
        case 2
        then show ?thesis using apart [of b] by (simp add: Int_commute)
      next
        case 3
        then show ?thesis using apart [of b'] by simp
      qed
    qed
    moreover have "\<forall>b \<in> set (bs @ [?b]). layout_from_size_align (numa_size b) 64 = Some (numa_size b, 64) \<and> 0 < numa_size b"
      using assms(1,3) lay by (auto simp: owns_def)
    ultimately show ?thesis unfolding owns_def map by blast
  qed
  then show ?thesis using lay p assms(3) by (simp add: numa_new_def)
qed

lemma owns_drop:
  assumes "owns h (xs @ b # ys)"
  shows "\<exists>h'. numa_drop b h = Some h' \<and> owns h' (xs @ ys)"
proof -
  let ?m = "\<lambda>bs. map_of (map (\<lambda>b. (numa_ptr b, (numa_size b, 64 :: nat))) bs)"
  have own: "distinct (map numa_ptr (xs @ b # ys))" "h = ?m (xs @ b # ys)" using assms by (simp_all add: owns_def)
  have "numa_drop b h = Some (h(numa_ptr b := None))"
    using owns_lookup [OF assms, of b] assms by (simp add: numa_drop_def owns_def)
  moreover have "h(numa_ptr b := None) = ?m (xs @ ys)"
  proof -
    have "?m xs (numa_ptr b) = None" "?m ys (numa_ptr b) = None" using own(1) by (auto simp: map_of_eq_None_iff)
    then show ?thesis unfolding own(2) by (auto simp: fun_eq_iff map_add_def split: option.splits)
  qed
  ultimately show ?thesis using assms by (auto simp: owns_def)
qed

text \<open>
  The buffers of the NUMA example. With an allocator whose blocks do not overlap, in every sequence of allocations and drops of
  owned buffers no block is freed twice or with the wrong layout, the slices of live buffers never overlap, and the heap holds exactly the
  blocks of the live buffers: nothing is leaked. Allocating an empty buffer is undefined, though the constructor returns an
  \<open>Option\<close>.
\<close>

theorem numa_buffers_sound:
  assumes "alloc_ok A" "\<forall>n node. New n node \<in> set ops \<longrightarrow> 0 < n"
  shows "\<exists>h bs. run_ops A ops (Map.empty, []) = Some (h, bs) \<and> owns h bs" "numa_new A 0 node h = None"
proof -
  have runs: "\<exists>h' bs'. run_ops A ops (h, bs) = Some (h', bs') \<and> owns h' bs'" if "owns h bs" for h bs
    using that assms(2)
  proof (induction ops arbitrary: h bs)
    case (Cons op ops)
    have sizes: "\<forall>n node. New n node \<in> set ops \<longrightarrow> 0 < n" using Cons.prems(2) by simp
    show ?case
    proof (cases op)
      case (New n node)
      then obtain h' b where "numa_new A n node h = Some (h', b)" "owns h' (case b of None \<Rightarrow> bs | Some b \<Rightarrow> bs @ [b])"
        using owns_new [OF Cons.prems(1) assms(1), of n node] Cons.prems(2) by auto
      then show ?thesis using Cons.IH [OF _ sizes] New by simp
    next
      case (Drop i)
      show ?thesis
      proof (cases "i < length bs")
        case True
        then have bs: "bs = take i bs @ bs ! i # drop (i + 1) bs" by (simp add: id_take_nth_drop)
        then obtain h' where "numa_drop (bs ! i) h = Some h'" "owns h' (take i bs @ drop (i + 1) bs)"
          using owns_drop Cons.prems(1) by metis
        then show ?thesis using Cons.IH [OF _ sizes] Drop True by simp
      qed (use Cons.IH [OF Cons.prems(1) sizes] Drop in simp)
    qed
  qed simp
  have "owns Map.empty []" by (simp add: owns_def)
  then show "\<exists>h bs. run_ops A ops (Map.empty, []) = Some (h, bs) \<and> owns h bs" by (rule runs)
  show "numa_new A 0 node h = None" by (simp add: numa_new_def layout_from_size_align_def)
qed

end
