(* ===== verification/Spec2Isabelle.thy ===== *)
theory Spec2Isabelle
  imports
    Can_Ring_Concurrent Can_Scheduler
    I2c_Timing I2c_Arbitration I2c_Pullup I2c_Pullup_Calculator I2c_Capacitance I2c_Error_Detection I2c_Hal I2c_Low_Power I2c_Debugger I2c_Scope
    I2c_Scanner I2c_Loopback I2c_Verifier I2c_Imu_Units
    Spi_Master Spi_Bit_Bang Spi_Timeout Spi_Batch Spi_Dma_Cache
    Mqtt_Sn_Gateway Mqtt_Rate_Limiter Proto_Time Proto_Sizes Proto_Framing Proto_Accounts Rudp Icmp_Ping Traceroute Packet_Capture Tcp_State Tcp_Mio_Echo Tcp_Uring_Server Socket_Linger Packet_Header Arp
    Ws_Deflate Ws_Mio_Server Ws_Zero_Copy Ws_Queue_Reclamation Ws_Auth_Client Ws_Input Ws_Migration Ws_Memory_Pool
    Ws_Recovery Ws_Validator Ws_Debug_Server Ws_Lifecycle Ws_Gateway Ws_Affinity
begin

text \<open>
  A verification library for the Rust programs of this repository: a collection of
  self-contained protocol examples for CAN, I2C, SPI, MQTT, TCP/IP and WebSocket, one program
  per directory \<^verbatim>\<open>src/<protocol>/src/<n>\<close>. The programs do not call each other; what they share is
  the shape of their problems: ring buffers and queues, packet formats, drivers that toggle
  lines or poll registers, retries and timeouts, state machines of a connection.

  \<^bold>\<open>How programs are modelled.\<close> Structs are records, enums datatypes, functions and methods
  definitions of the same name (prefixed where the name is taken), with the mutated \<open>self\<close>
  returned. \<open>Result\<close> is a sum with \<open>Inl\<close> for errors; a computation that can panic is an
  \<open>option\<close> with \<open>None\<close> for the panic. Bytes and fixed-width integers are words where bits or
  wrap-around matter, \<open>usize\<close> is a natural with checked operations; where the checked and the
  release build differ, the build profile is an argument. Loops are recursions on their data or
  with a termination proof; busy-waiting loops are partial functions, with \<open>None\<close> for a loop that
  never ends, and the theorems say when they return. Hardware, sockets, clocks and third-party
  libraries are parameters: records of operations on a state of the outside world. The theorems
  that need such a world to behave use a reference defined in the same theory (a slave, a device,
  a rival master, a bus with a scope attached) or take its documented behaviour as a hypothesis.

  \<^bold>\<open>Shared theories.\<close>
  \<^item> \<open>Uproto_Prelude\<close>: machine types, panicking operations, circular windows.
  \<^item> \<open>Byte_Codec\<close>, \<open>Wire_Interface\<close>: big- and little-endian integers; the locale
    \<open>packet_codec\<close>, the contract of a packet format (interpreted for ARP and reliable UDP).
  \<^item> \<open>Fifo_Interface\<close>: the locales \<open>bounded_fifo\<close> and \<open>unbounded_fifo\<close>, with the lemmas a client
    of a queue gets (interpreted for the CAN ring and the WebSocket queues).
  \<^item> \<open>Bus_Io\<close>: fallible operations on an outside world, the \<open>?\<close> operator, the bits of a byte.
  \<^item> \<open>Utf8\<close>: \<open>str::from_utf8\<close>, \<open>String::from_utf8_lossy\<close>, \<open>trim_end_matches\<close>, \<open>str::chars\<close>.
  \<^item> \<open>Float_Rounding\<close>: finite binary floating-point numbers and their rounding; the locale \<open>float_format\<close>
    (monotonicity, fixed points, error bounds), interpreted for binary64 and binary32.
  \<^item> \<open>Lock_Order\<close>: threads that take mutexes; the locale \<open>ordered_locking\<close>, free of deadlock (interpreted
    for the publisher of the rate limiter).

  \<^bold>\<open>Components.\<close> Theory, source, what is shown.
  \<^item> \<open>Can_Ring_Buffer\<close> (\<^verbatim>\<open>CAN/src/17\<close>): ring buffer and buffer manager; the ring refines a bounded
    queue, messages go end to end, the receive loop drains. \<open>Can_Ring_Concurrent\<close>: the producer
    and consumer of the same ring as interleaved atomic steps; first-in first-out and free of
    data races by rule induction.
  \<^item> \<open>Can_Scheduler\<close> (\<^verbatim>\<open>CAN/src/19\<close>): schedule passes and priority queue; transmission by priority,
    and event messages that go stale for ever.
  \<^item> \<open>I2c_Timing\<close> (\<^verbatim>\<open>I2C/src/08\<close>): bit-banged bus with configurable timing; registers written to a
    device are read back over the lines, and the clock is more than twice too fast for its mode.
  \<^item> \<open>I2c_Arbitration\<close> (\<^verbatim>\<open>I2C/src/09\<close>): multi-master bus; against a rival the lower byte wins,
    retries end, reading into an empty buffer panics.
  \<^item> \<open>I2c_Pullup\<close> (\<^verbatim>\<open>I2C/src/16/16_no_std.rs\<close>): pull-up resistors in integer arithmetic; the accepted range is
    exact, one answer is unreachable, and rounding lets the rise time exceed its limit.
  \<^item> \<open>I2c_Pullup_Calculator\<close> (\<^verbatim>\<open>I2C/src/16/16.rs\<close>), \<open>I2c_Capacitance\<close> (\<^verbatim>\<open>I2C/src/17\<close>): calculators in binary64 and binary32; limits
    within proved rounding errors, a recommendation outside its range, one that makes the bus too slow, and when it panics.
  \<^item> \<open>I2c_Error_Detection\<close> (\<^verbatim>\<open>I2C/src/28\<close>): a register-level master with timeouts; a write accounts
    for its bytes, when waiting for a flag returns, and combined transfers always report a busy bus.
  \<^item> \<open>I2c_Hal\<close> (\<^verbatim>\<open>I2C/src/35\<close>): the locale \<open>register_bus\<close> of a bus with devices, interpreted for
    the mock, the embedded and the Linux implementation, which agree on every driver.
    \<open>I2c_Low_Power\<close> (\<^verbatim>\<open>I2C/src/47\<close>): the power-managed reader on top of it, which never delivers.
  \<^item> \<open>I2c_Debugger\<close> (\<^verbatim>\<open>I2C/src/41\<close>): transaction log and its analysis; the log is what happened on the bus, the
    detector of clock stretching is exact and bounded.
  \<^item> \<open>I2c_Scope\<close> (\<^verbatim>\<open>I2C/src/42\<close>): bit-banged bus with measurements; a transaction is exactly one
    START, its bits and one STOP on the lines, and a perfect bus fails the frequency check.
  \<^item> \<open>I2c_Scanner\<close> (\<^verbatim>\<open>I2C/src/43\<close>): bus scanners; the locale \<open>presence_probe\<close>, interpreted for the embedded and
    the Linux scanner, and their agreement.
  \<^item> \<open>I2c_Loopback\<close> (\<^verbatim>\<open>I2C/src/44\<close>): loopback tester; it finds exactly the faults of the device, and
    its statistics are the sums of its results.
  \<^item> \<open>I2c_Verifier\<close> (\<^verbatim>\<open>I2C/src/45\<close>): protocol verifier; the events of a session decide exactly what it
    reports.
  \<^item> \<open>I2c_Burst\<close> (\<^verbatim>\<open>I2C/src/46\<close>): register access; bursts equal single transfers, and the locale
    \<open>block_contract\<close> of typed register blocks, interpreted for the IMU block, gives their round trip.
    \<open>I2c_Imu_Units\<close>: the readings in physical units, exact in binary32, and a benchmark that never measures.
  \<^item> \<open>Spi_Master\<close> (\<^verbatim>\<open>SPI/src/2\<close>): register-level master and flash driver; clock divider and control
    word, the frames on the bus for any latency, when waiting for the flash returns.
  \<^item> \<open>Spi_Bit_Bang\<close> (\<^verbatim>\<open>SPI/src/12\<close>): bit-banged master over fallible pins; it exchanges bytes with a
    slave in all modes and bit orders, and an error leaves the slave selected.
  \<^item> \<open>Spi_Timeout\<close> (\<^verbatim>\<open>SPI/src/31\<close>): timeouts and retries; every operation returns when the clock runs.
  \<^item> \<open>Spi_Batch\<close> (\<^verbatim>\<open>SPI/src/36\<close>): transfer batching; everything submitted is streamed, in order.
  \<^item> \<open>Spi_Dma_Cache\<close> (\<^verbatim>\<open>SPI/src/38\<close>): DMA transfers under a write-back cache that may bring in and throw
    out lines at any moment; with the registers of the architecture receiving is exact, and stale
    memory is sent.
  \<^item> \<open>Mqtt_Sn_Gateway\<close> (\<^verbatim>\<open>MQTT/src/57\<close>): all handlers of the gateway; topic tables stay consistent,
    registered topics stay usable while the identifiers last, and exactly which datagrams panic it.
  \<^item> \<open>Mqtt_Rate_Limiter\<close> (\<^verbatim>\<open>MQTT/src/47\<close>): token bucket, sliding window, publisher; the window is exact, the burst
    is exact under rounding, the lock order of publisher and statistics, and a limiter that never limits.
  \<^item> \<open>Proto_Time\<close> (\<^verbatim>\<open>Protobuf/src/42\<close>): timestamps and durations; two formats of one integer (locale
    \<open>nanos_format\<close>, interpreted for both), in which the arithmetic is exact. \<open>Proto_Sizes\<close> (\<^verbatim>\<open>Protobuf/src/31\<close>): sizes of
    messages in the documented wire format; when the optimised declaration is the larger one. \<open>Proto_Framing\<close>
    (\<^verbatim>\<open>Protobuf/src/103\<close>): length-prefixed messages and their exchange. \<open>Proto_Accounts\<close> (\<^verbatim>\<open>Protobuf/src/38, 39\<close>): the account
    service against its documentation; the locale \<open>wire_enum\<close>, interpreted for two enumerations.
  \<^item> \<open>Tcp_State\<close> (\<^verbatim>\<open>TCPIP/src/17\<close>): connections that track their TCP state; the echo server refuses
    its own farewell, the client reports a transition TCP does not have.
  \<^item> \<open>Tcp_Poll_Server\<close>, \<open>Tcp_Mio_Echo\<close> (\<^verbatim>\<open>TCPIP/src/06\<close>): echo servers around poll and mio; each turn
    serves every client exactly, no descriptor is leaked or closed twice whatever the system answers, and what a full send buffer loses. \<open>Tcp_Uring_Server\<close> (\<^verbatim>\<open>TCPIP/src/10\<close>):
    the same of the server on io_uring, which keeps one operation per connection, and the batches that overflow its queue.
  \<^item> \<open>Socket_Linger\<close> (\<^verbatim>\<open>TCPIP/src/49\<close>): linger options in three programs; the fate of the data on every close, on a
    network of any speed, and the graceful timeout that resets the connection. \<open>Packet_Header\<close> (\<^verbatim>\<open>TCPIP/src/02\<close>): network byte order on either machine.
  \<^item> \<open>Rudp\<close> (\<^verbatim>\<open>TCPIP/src/20\<close>): reliable UDP; packet format, delivery order, window and retry bounds, and
    the data it loses on reordering.
  \<^item> \<open>Icmp_Ping\<close> (\<^verbatim>\<open>TCPIP/src/22\<close>): the checksum equals the one's complement sum of RFC 1071, when the
    packet verifies, and the parser of replies.
  \<^item> \<open>Traceroute\<close> (\<^verbatim>\<open>TCPIP/src/22\<close>): the trace, line by line, and the probes sent.
  \<^item> \<open>Packet_Capture\<close> (\<^verbatim>\<open>TCPIP/src/23\<close>): the capture loop and its statistics.
  \<^item> \<open>Arp\<close> (\<^verbatim>\<open>TCPIP/src/52\<close>): packet format, cache against its history, resolution, spoof detector.
  \<^item> \<open>Ws_Heartbeat\<close> (\<^verbatim>\<open>WebSocket/src/08\<close>): ping and pong; equal to a reference without a clock.
  \<^item> \<open>Ws_Lifecycle\<close> (\<^verbatim>\<open>WebSocket/src/07, 44\<close>): client tasks against the echo server; the locale \<open>message_server\<close>, interpreted
    for the echo server and the numbering one.
  \<^item> \<open>Ws_Gateway\<close> (\<^verbatim>\<open>WebSocket/src/50\<close>): sessions over Redis; isolation of sessions in all interleavings, exact delivery of events.
  \<^item> \<open>Ws_Buffers\<close> (\<^verbatim>\<open>WebSocket/src/13\<close>): frame extraction, circular buffer, buffer pool.
  \<^item> \<open>Ws_Deflate\<close> (\<^verbatim>\<open>WebSocket/src/15\<close>): compressed frames; round trip, also through \<open>Ws_Buffers\<close>, and the length
    that the parser ignores.
  \<^item> \<open>Ws_Mio_Server\<close> (\<^verbatim>\<open>WebSocket/src/17\<close>): event-driven echo server; what is echoed in every history, and what
    is lost at a close.
  \<^item> \<open>Ws_Queues\<close>, \<open>Ws_Queue_Reclamation\<close> (\<^verbatim>\<open>WebSocket/src/20\<close>): queues and broker; the use after free
    of the lock-free queue as an execution.
  \<^item> \<open>Ws_Auth\<close> (\<^verbatim>\<open>WebSocket/src/22\<close>): tokens and roles; access control for all interleavings of connections, and the
    administrator whose token has expired. \<open>Ws_Auth_Client\<close>: its client, composed with it.
  \<^item> \<open>Ws_Input\<close> (\<^verbatim>\<open>WebSocket/src/24\<close>): input validation; what an accepted message guarantees, escaping
    loses nothing, patterns are found in any case.
  \<^item> \<open>Ws_Migration\<close> (\<^verbatim>\<open>WebSocket/src/30\<close>): session resumption; with one sender acknowledgements remove exactly
    what they cover, with interleaved senders the queue can be out of order; a failed reconnection is not retried, flushed messages are not sent again.
  \<^item> \<open>Ws_Zero_Copy\<close> (\<^verbatim>\<open>WebSocket/src/31\<close>): frames as chains of buffers; composed with the frame
    extraction of \<open>Ws_Buffers\<close>, payloads arrive exactly when the socket takes the whole frame.
  \<^item> \<open>Ws_Memory_Pool\<close> (\<^verbatim>\<open>WebSocket/src/32\<close>): object pool and arena; handles are exclusive and
    allocations disjoint in every reachable state, and a reset arena leaks.
  \<^item> \<open>Ws_Affinity\<close> (\<^verbatim>\<open>WebSocket/src/33\<close>): pinned workers as interleaved steps; they always complete. NUMA buffers over an
    allocator: no leak, no double free, no overlap.
  \<^item> \<open>Ws_Recovery\<close> (\<^verbatim>\<open>WebSocket/src/36\<close>): reconnection and message buffer; the locale \<open>retry_policy\<close>,
    messages of an outage are delivered, when recovery is stuck.
  \<^item> \<open>Ws_Validator\<close> (\<^verbatim>\<open>WebSocket/src/37\<close>): protocol violations; the accepted header sequences exactly.
  \<^item> \<open>Ws_Debug_Server\<close> (\<^verbatim>\<open>WebSocket/src/44\<close>): server with statistics; they are exact except for the connections
    whose handler panics on a preview.

  \<^bold>\<open>Bounds and fuel.\<close> No theorem rests on fuel. Buffers of at most 65536 bytes bound the checksum
  (its 32-bit sum cannot overflow there); the stop condition of the measured bus is exact for clock
  stretching up to the ten milliseconds the source allows; allocation sizes are below half the
  address space. Counters that the sources keep in 32 or 64 bits and only print are naturals.

  \<^bold>\<open>Not modelled.\<close> \<open>main\<close> functions and usage examples, printing and formatting for the console, floating-point
  throughput figures that are only printed; the set-up of sockets, listeners and handshakes, which only wraps calls of libraries; the
  MQTT clients of \<^verbatim>\<open>MQTT/src/1\<close>, whose work is done by rumqttc, and the address book of \<^verbatim>\<open>Protobuf/src/101\<close>, which only uses
  generated code that is not in the repository; the C and C++ twins of the programs.

  The theories hold more theorems than the ones numbered as claims; each stands under a text that
  says what it shows.
\<close>

end
